(* ===== verification/Prelude.thy ===== *)
theory Prelude
  imports Main "HOL-Library.AList" "HOL-Library.Word"
begin

text \<open>
  Shared vocabulary of the development: the machine integers of the Rust code, time and
  durations, panics, the concurrent hash maps (\<open>DashMap\<close>, \<open>HashMap\<close>, \<open>BTreeMap\<close>) as
  association tables, and the lemma collections the component theories use.

  \<^item> \<open>u32\<close>, \<open>u64\<close>, \<open>usize\<close> are words of their width, so \<open>+\<close> wraps as the atomics'
    \<open>fetch_add\<close> and the release profile's arithmetic do (the workspace does not enable
    overflow checks in its release profiles). \<open>i64\<close> time stamps are \<open>int\<close> with the
    saturation written out.
  \<^item> \<open>Duration\<close>, \<open>Instant\<close> and \<open>SystemTime\<close> are natural numbers of nanoseconds.
  \<^item> A map is a list of key/value pairs with distinct keys; the order of the list stands for
    the iteration order, which Rust leaves open, so a theorem over all tables holds for every
    iteration order.
\<close>

type_synonym u8 = "8 word"
type_synonym u16 = "16 word"
type_synonym u32 = "32 word"
type_synonym u64 = "64 word"
type_synonym usize = "64 word"

type_synonym nanos = nat

named_theorems frame \<comment> \<open>what an operation on one key leaves alone on the others\<close>
named_theorems table_simps \<comment> \<open>lookup after an update of a table\<close>

section \<open>Options\<close>

lemma case_option_if_None: "(case x of None \<Rightarrow> a | Some _ \<Rightarrow> b) = (if x = None then a else b)"
  by (cases x) auto

lemma option_all_conv: "(\<forall>v. x = Some v \<longrightarrow> P v) = (case x of None \<Rightarrow> True | Some v \<Rightarrow> P v)"
  by (cases x) auto

section \<open>Counting round\<close>

text \<open>Going round \<open>n\<close> places \<open>q\<close> times visits each place \<open>q\<close> times.\<close>

lemma count_mod_run:
  assumes "j < n"
  shows "length (filter (\<lambda>i. (s + i) mod n = j) [0..<q * n]) = (q :: nat)"
  using assms
proof (induction q)
  case (Suc q)
  have shift: "[0..<Suc q * n] = [0..<q * n] @ map (\<lambda>i. i + q * n) [0..<n]"
  proof -
    have "Suc q * n = q * n + n" by simp
    then show ?thesis by (simp only: upt_add_eq_append [OF le0]) (simp add: map_add_upt add.commute)
  qed
  have "card {i. i < n \<and> (s + i) mod n = j} = 1"
  proof -
    let ?k = "(j + n - s mod n) mod n"
    have n: "0 < n" using Suc by simp
    have "(s + ?k) mod n = (s mod n + (j + n - s mod n)) mod n" by (simp add: mod_simps)
    also have "\<dots> = (j + n) mod n" using mod_less_divisor [OF n, of s] by simp
    finally have k: "(s + ?k) mod n = j" using Suc by simp
    have inj: "i = i'" if "i < n" "i' < n" "(s + i) mod n = (s + i') mod n" for i i'
    proof -
      have "(int s + int i) mod int n = (int s + int i') mod int n" using that(3) by (metis of_nat_add of_nat_mod)
      then have "int n dvd int i - int i'" by (simp add: mod_eq_dvd_iff)
      then have "int i mod int n = int i' mod int n" by (simp add: mod_eq_dvd_iff)
      with that show ?thesis by simp
    qed
    have "?k < n" using n by simp
    then have "i = ?k" if "i < n" "(s + i) mod n = j" for i using inj [OF that(1)] that(2) k by simp
    with k \<open>?k < n\<close> have "{i. i < n \<and> (s + i) mod n = j} = {?k}" by blast
    then show ?thesis by simp
  qed
  moreover have "length (filter (\<lambda>i. (s + i) mod n = j) [0..<n]) = card {i. i < n \<and> (s + i) mod n = j}"
    by (simp add: length_filter_conv_card) (rule arg_cong [where f = card], auto)
  moreover have "filter (\<lambda>i. (s + i) mod n = j) (map (\<lambda>i. i + q * n) [0..<n])
      = map (\<lambda>i. i + q * n) (filter (\<lambda>i. (s + i) mod n = j) [0..<n])"
    by (simp add: filter_map comp_def add.assoc [symmetric])
  ultimately show ?case using Suc by (simp only: shift filter_append length_append length_map)
qed simp
section \<open>Time\<close>

definition secs :: "nat \<Rightarrow> nanos" where
  "secs s = s * 1000000000"

definition millis :: "nat \<Rightarrow> nanos" where
  "millis m = m * 1000000"

definition as_secs :: "nanos \<Rightarrow> nat" where
  "as_secs d = d div 1000000000"

definition subsec_nanos :: "nanos \<Rightarrow> nat" where
  "subsec_nanos d = d mod 1000000000"

lemma as_secs_secs [simp]: "as_secs (secs s) = s"
  by (simp add: as_secs_def secs_def)

lemma subsec_nanos_secs [simp]: "subsec_nanos (secs s) = 0"
  by (simp add: subsec_nanos_def secs_def)

lemma secs_less [simp]: "secs a < secs b \<longleftrightarrow> a < b"
  and secs_le [simp]: "secs a \<le> secs b \<longleftrightarrow> a \<le> b"
  by (simp_all add: secs_def)

lemma secs_0 [simp]: "secs 0 = 0"
  by (simp add: secs_def)

lemma secs_pos [simp]: "0 < secs a \<longleftrightarrow> 0 < a"
  by (simp add: secs_def)

lemma as_secs_mono: "d \<le> e \<Longrightarrow> as_secs d \<le> as_secs e"
  by (simp add: as_secs_def div_le_mono)

text \<open>\<open>SystemTime::duration_since\<close>: an error when the argument is later.\<close>

definition duration_since :: "nanos \<Rightarrow> nanos \<Rightarrow> nanos option" where
  "duration_since t u = (if u \<le> t then Some (t - u) else None)"

text \<open>
  \<open>Instant::duration_since\<close> and \<open>Instant::elapsed\<close> saturate at zero.
\<close>

definition elapsed :: "nanos \<Rightarrow> nanos \<Rightarrow> nanos" where
  "elapsed now t = now - t"

section \<open>Panics\<close>

text \<open>
  A panic of the source is a value: an operation that can panic returns \<open>panic + 'a\<close>.
\<close>

datatype panic =
    TimeOverflow          \<comment> \<open>\<open>SystemTime + Duration\<close> out of range\<close>
  | MissingKey string     \<comment> \<open>indexing a \<open>serde_json::Map\<close> with an absent key\<close>
  | SliceRange            \<comment> \<open>slicing a string with begin after end\<close>
  | NotAnObject           \<comment> \<open>assigning to a key of a \<open>Value\<close> that is no object\<close>
  | EmptyModulus          \<comment> \<open>remainder by zero\<close>

text \<open>
  \<open>SystemTime\<close> keeps its seconds in an \<open>i64\<close>: \<open>SystemTime + Duration\<close> panics when the
  sum has more seconds than that.
\<close>

definition systime_add :: "nanos \<Rightarrow> nanos \<Rightarrow> panic + nanos" where
  "systime_add t d = (if as_secs (t + d) < 2 ^ 63 then Inr (t + d) else Inl TimeOverflow)"

lemma systime_add_Inr_iff: "systime_add t d = Inr u \<longleftrightarrow> as_secs (t + d) < 2 ^ 63 \<and> u = t + d"
  by (auto simp: systime_add_def)

section \<open>Saturating arithmetic\<close>

definition i64_max :: int where
  "i64_max = 2 ^ 63 - 1"

definition i64_min :: int where
  "i64_min = - (2 ^ 63)"

text \<open>Plain \<open>i64\<close> arithmetic wraps in a release build.\<close>

definition i64_wrap :: "int \<Rightarrow> int" where
  "i64_wrap a = (a + 2 ^ 63) mod 2 ^ 64 - 2 ^ 63"

lemma i64_wrap_id: "i64_min \<le> a \<Longrightarrow> a \<le> i64_max \<Longrightarrow> i64_wrap a = a"
  by (simp add: i64_wrap_def i64_min_def i64_max_def)

definition i64_sat_sub :: "int \<Rightarrow> int \<Rightarrow> int" where
  "i64_sat_sub a b = max i64_min (min i64_max (a - b))"

definition i64_sat_add :: "int \<Rightarrow> int \<Rightarrow> int" where
  "i64_sat_add a b = max i64_min (min i64_max (a + b))"

definition i64_sat_mul :: "int \<Rightarrow> int \<Rightarrow> int" where
  "i64_sat_mul a b = max i64_min (min i64_max (a * b))"

definition sat_add :: "'a::len word \<Rightarrow> 'a word \<Rightarrow> 'a word" where
  "sat_add a b = (if unat a + unat b < 2 ^ LENGTH('a) then a + b else - 1)"

definition sat_sub :: "'a::len word \<Rightarrow> 'a word \<Rightarrow> 'a word" where
  "sat_sub a b = (if a < b then 0 else a - b)"

definition sat_mul :: "'a::len word \<Rightarrow> 'a word \<Rightarrow> 'a word" where
  "sat_mul a b = (if unat a * unat b < 2 ^ LENGTH('a) then a * b else - 1)"

lemma unat_max: "unat (- 1 :: 'a::len word) = 2 ^ LENGTH('a) - 1"
  by transfer (simp add: mask_eq_exp_minus_1 nat_diff_distrib nat_power_eq)

lemma unat_eqI: "unat a = unat b \<Longrightarrow> a = b" for a b :: "'a::len word"
  by (rule unsigned_word_eqI)

lemma unat_le_max: "unat (a :: 'a::len word) \<le> 2 ^ LENGTH('a) - 1"
proof -
  have "unat a < 2 ^ LENGTH('a)" by (rule unsigned_less)
  then show ?thesis by linarith
qed

lemma unat_sat_add: "unat (sat_add a b) = min (unat a + unat b) (2 ^ LENGTH('a) - 1)"
  for a b :: "'a::len word"
  by (auto simp: sat_add_def unat_word_ariths unat_max min_def)

lemma unat_sat_mul: "unat (sat_mul a b) = min (unat a * unat b) (2 ^ LENGTH('a) - 1)"
  for a b :: "'a::len word"
proof (cases "unat a * unat b < 2 ^ LENGTH('a)")
  case True
  then have "unat a * unat b \<le> 2 ^ LENGTH('a) - 1" by linarith
  with True show ?thesis by (simp add: sat_mul_def unat_word_ariths)
next
  case False
  then have "2 ^ LENGTH('a) - 1 \<le> unat a * unat b" by linarith
  with False show ?thesis by (simp add: sat_mul_def unat_max min_def)
qed

lemma unat_sat_sub: "unat (sat_sub a b) = unat a - unat b"
  for a b :: "'a::len word"
  by (auto simp: sat_sub_def word_less_nat_alt unat_sub word_le_nat_alt)

lemma word_less_Suc: "a < b \<Longrightarrow> unat (a + 1) = unat a + 1"
  for a b :: "'a::len word"
proof -
  assume "a < b"
  have unsigned_less_b: "unat b < 2 ^ LENGTH('a)" by (rule unsigned_less)
  from \<open>a < b\<close> have "unat a + 1 < 2 ^ LENGTH('a)"
    using unsigned_less_b unfolding word_less_nat_alt by linarith
  then show ?thesis by (simp add: unat_word_ariths)
qed

section \<open>Tables: the hash maps of the code\<close>

text \<open>
  \<^item> \<open>tget\<close> is \<open>get\<close>, \<open>tput\<close> is \<open>insert\<close>, \<open>tdel\<close> is \<open>remove\<close>;
  \<^item> \<open>tentry k d\<close> is \<open>entry(k).or_insert(d)\<close>: the entry exists afterwards;
  \<^item> \<open>tretain\<close> is \<open>retain\<close>, \<open>length\<close> is \<open>len\<close>, the list itself is \<open>iter\<close>.
\<close>

type_synonym ('k, 'v) table = "('k \<times> 'v) list"

abbreviation tget :: "('k, 'v) table \<Rightarrow> 'k \<Rightarrow> 'v option" where
  "tget \<equiv> map_of"

abbreviation tkeys :: "('k, 'v) table \<Rightarrow> 'k set" where
  "tkeys t \<equiv> fst ` set t"

abbreviation twf :: "('k, 'v) table \<Rightarrow> bool" where
  "twf t \<equiv> distinct (map fst t)"

definition tput :: "'k \<Rightarrow> 'v \<Rightarrow> ('k, 'v) table \<Rightarrow> ('k, 'v) table" where
  "tput k v t = AList.update k v t"

definition tdel :: "'k \<Rightarrow> ('k, 'v) table \<Rightarrow> ('k, 'v) table" where
  "tdel k t = AList.delete k t"

definition tentry :: "'k \<Rightarrow> 'v \<Rightarrow> ('k, 'v) table \<Rightarrow> ('k, 'v) table" where
  "tentry k d t = (case tget t k of None \<Rightarrow> tput k d t | Some _ \<Rightarrow> t)"

definition tretain :: "('k \<Rightarrow> 'v \<Rightarrow> bool) \<Rightarrow> ('k, 'v) table \<Rightarrow> ('k, 'v) table" where
  "tretain P t = filter (\<lambda>(k, v). P k v) t"

definition tmapv :: "('v \<Rightarrow> 'w) \<Rightarrow> ('k, 'v) table \<Rightarrow> ('k, 'w) table" where
  "tmapv f t = map (\<lambda>(k, v). (k, f v)) t"

lemma tget_tput [simp, table_simps]: "tget (tput k v t) = (tget t)(k \<mapsto> v)"
  by (simp add: tput_def update_conv')

lemma tget_tdel [simp, table_simps]: "tget (tdel k t) = (tget t)(k := None)"
  by (simp add: tdel_def delete_conv')

lemma tget_tentry [simp, table_simps]:
  "tget (tentry k d t) = (tget t)(k \<mapsto> (case tget t k of None \<Rightarrow> d | Some v \<Rightarrow> v))"
  by (auto simp: tentry_def fun_eq_iff split: option.splits)

lemma tget_tretain [table_simps]:
  "twf t \<Longrightarrow> tget (tretain P t) k =
     (case tget t k of None \<Rightarrow> None | Some v \<Rightarrow> if P k v then Some v else None)"
proof (induction t)
  case Nil
  then show ?case by (simp add: tretain_def)
next
  case (Cons e t)
  obtain k' v' where e: "e = (k', v')" by force
  show ?case
  proof (cases "k = k'")
    case True
    with Cons.prems e have "k \<notin> fst ` set t" by simp
    then have "tget t k = None" by (simp add: map_of_eq_None_iff)
    with True e Cons show ?thesis by (simp add: tretain_def)
  next
    case False
    with e Cons show ?thesis by (simp add: tretain_def)
  qed
qed

lemma tget_tmapv [simp, table_simps]: "tget (tmapv f t) k = map_option f (tget t k)"
  by (induction t) (auto simp: tmapv_def)

lemma twf_tput [simp, intro]: "twf t \<Longrightarrow> twf (tput k v t)"
  by (simp add: tput_def distinct_update)

lemma twf_tdel [simp, intro]: "twf t \<Longrightarrow> twf (tdel k t)"
  by (simp add: tdel_def distinct_delete)

lemma twf_tentry [simp, intro]: "twf t \<Longrightarrow> twf (tentry k d t)"
  by (simp add: tentry_def split: option.splits)

lemma twf_tretain [simp, intro]: "twf t \<Longrightarrow> twf (tretain P t)"
  unfolding tretain_def by (induction t) auto

lemma twf_tmapv [simp]: "twf (tmapv f t) \<longleftrightarrow> twf t"
proof -
  have "map fst (tmapv f t) = map fst t"
    by (induction t) (auto simp: tmapv_def)
  then show ?thesis by simp
qed

lemma tkeys_dom: "tkeys t = dom (tget t)"
  by (simp add: dom_map_of_conv_image_fst)

lemma tkeys_tput [simp]: "tkeys (tput k v t) = insert k (tkeys t)"
  by (simp add: tkeys_dom)

lemma tkeys_tdel [simp]: "tkeys (tdel k t) = tkeys t - {k}"
  by (simp add: tkeys_dom)

lemma length_tput: "length (tput k v t) = (if tget t k = None then Suc (length t) else length t)"
  unfolding tput_def by (induction t) auto

lemma length_tretain_le: "length (tretain P t) \<le> length t"
  by (simp add: tretain_def)

lemma twf_mem_iff: "twf t \<Longrightarrow> (k, v) \<in> set t \<longleftrightarrow> tget t k = Some v"
  by (meson map_of_is_SomeI map_of_SomeD)

lemma twf_ball_iff: "twf t \<Longrightarrow> (\<forall>(k, v) \<in> set t. P k v) \<longleftrightarrow> (\<forall>k v. tget t k = Some v \<longrightarrow> P k v)"
  by (metis (no_types, lifting) case_prodI2 case_prodD twf_mem_iff)

lemma tkeys_memI [intro]: "(k, v) \<in> set t \<Longrightarrow> k \<in> tkeys t"
  by force

lemma tretain_all: "(\<And>k v. (k, v) \<in> set t \<Longrightarrow> P k v) \<Longrightarrow> tretain P t = t"
  by (auto simp: tretain_def filter_id_conv)

section \<open>Components keyed by account\<close>

text \<open>
  The circuit breaker, the limit manager and the health monitor keep one record per account, and
  each call works on the record of one account. The locale states this contract: a call on key
  \<open>k\<close> acts on \<open>k\<close>'s part as the local step does and leaves every other part alone. Its
  consequence is that an interleaved run, seen from one account, is the run of that account's calls.
\<close>

locale keyed_system =
  fixes key :: "'e \<Rightarrow> 'k"
    and step :: "'e \<Rightarrow> 's \<Rightarrow> 's"
    and part :: "'s \<Rightarrow> 'k \<Rightarrow> 'x"
    and lstep :: "'e \<Rightarrow> 'x \<Rightarrow> 'x"
  assumes part_step: "part (step e s) k = (if key e = k then lstep e (part s k) else part s k)"
begin

lemma part_run:
  "part (fold step es s) k = fold lstep (filter (\<lambda>e. key e = k) es) (part s k)"
  by (induction es arbitrary: s) (simp_all add: part_step)

lemma part_frame:
  "(\<And>e. e \<in> set es \<Longrightarrow> key e \<noteq> k) \<Longrightarrow> part (fold step es s) k = part s k"
  by (induction es arbitrary: s) (simp_all add: part_step)

lemma part_invariant:
  assumes "\<And>e x. e \<in> set es \<Longrightarrow> key e = k \<Longrightarrow> I x \<Longrightarrow> I (lstep e x)" and "I (part s k)"
  shows "I (part (fold step es s) k)"
  using assms
proof (induction es arbitrary: s)
  case Nil
  then show ?case by simp
next
  case (Cons e es)
  have "I (part (step e s) k)" using Cons.prems by (simp add: part_step)
  then show ?case using Cons.IH [of "step e s"] Cons.prems(1) by simp
qed

end

end
