(* ===== verification/Floats.thy ===== *)
theory Floats
  imports Prelude Complex_Main
begin

text \<open>
  The \<open>f64\<close> and \<open>f32\<close> arithmetic the code uses, on finite values. A finite float is the
  rational it denotes, and every operation of the code is the exact operation followed by one
  rounding to the format, to nearest with ties to even, as IEEE 754 prescribes: \<open>rnd 53 (-1074)\<close>
  for \<open>f64\<close> and \<open>rnd 24 (-149)\<close> for \<open>f32\<close>, subnormals included. Infinities and NaN are
  outside the model: the code's operands are counters, fixed literals and quotients by nonzero
  counters, far from the overflow threshold. A cast of a float to an unsigned integer truncates and
  saturates.

  What the clients use of the rounding is the locale \<open>rounding\<close>: it is monotone and fixes the
  representable values. Both formats interpret it.
\<close>

section \<open>Exponents\<close>

fun ilog2 :: "nat \<Rightarrow> nat" where
  "ilog2 n = (if n < 2 then 0 else Suc (ilog2 (n div 2)))"

declare ilog2.simps [simp del]

abbreviation pow2 :: "int \<Rightarrow> rat" where
  "pow2 k \<equiv> power_int 2 k"

text \<open>The binary exponent of a positive rational: \<open>2^e \<le> x < 2^(e+1)\<close>.\<close>

definition expo :: "rat \<Rightarrow> int" where
  "expo x = (let (n, d) = quotient_of x;
                 e = int (ilog2 (nat n)) - int (ilog2 (nat d))
             in if pow2 e \<le> x then e else e - 1)"

lemma ilog2_bounds: "0 < n \<Longrightarrow> 2 ^ ilog2 n \<le> n \<and> n < 2 ^ Suc (ilog2 n)"
proof (induction n rule: ilog2.induct)
  case (1 n)
  show ?case
  proof (cases "n < 2")
    case True
    with "1.prems" have "n = 1" by simp
    then show ?thesis by (simp add: ilog2.simps)
  next
    case False
    then have "0 < n div 2" by (simp add: div_greater_zero_iff)
    with "1.IH" False have
      ih: "2 ^ ilog2 (n div 2) \<le> n div 2" "n div 2 < 2 ^ Suc (ilog2 (n div 2))"
      by auto
    from False have eq: "ilog2 n = Suc (ilog2 (n div 2))" by (simp add: ilog2.simps [of n])
    have a: "2 ^ ilog2 n \<le> 2 * (n div 2)" using ih(1) eq by simp
    have "2 * (n div 2) \<le> n" by simp
    with a have a: "2 ^ ilog2 n \<le> n" by linarith
    have "n div 2 + 1 \<le> 2 ^ Suc (ilog2 (n div 2))" using ih(2) by simp
    then have "n < 2 * 2 ^ Suc (ilog2 (n div 2))" by linarith
    with a eq show ?thesis by simp
  qed
qed

lemma pow2_pos [simp]: "0 < pow2 k"
  by simp

lemma pow2_nonzero [simp]: "pow2 k \<noteq> 0"
  by simp

lemma pow2_add: "pow2 (a + b) = pow2 a * pow2 b"
  by (simp add: power_int_add)

lemma pow2_diff: "pow2 (a - b) = pow2 a / pow2 b"
  by (simp add: power_int_diff)

lemma pow2_le_iff [simp]: "pow2 a \<le> pow2 b \<longleftrightarrow> a \<le> b"
  by (meson linorder_not_le one_less_numeral_iff power_int_increasing power_int_strict_increasing
      semiring_norm(76) less_imp_le)

lemma pow2_less_iff [simp]: "pow2 a < pow2 b \<longleftrightarrow> a < b"
  using pow2_le_iff [of b a] by linarith

lemma pow2_of_nat: "pow2 (int n) = of_nat (2 ^ n)"
  by simp

lemma pow2_int_ex: "0 \<le> k \<Longrightarrow> \<exists>m::int. pow2 k = of_int m"
  by (rule exI [of _ "2 ^ nat k"]) (simp add: power_int_def)

lemma expo_bounds:
  assumes "0 < x"
  shows "pow2 (expo x) \<le> x \<and> x < pow2 (expo x + 1)"
proof -
  obtain n d where q: "quotient_of x = (n, d)" by force
  have d: "0 < d" using quotient_of_denom_pos [OF q] .
  have x: "x = of_int n / of_int d" using quotient_of_div [OF q] .
  have n: "0 < n" using assms d x by (simp add: zero_less_divide_iff)
  define a where "a = ilog2 (nat n)"
  define b where "b = ilog2 (nat d)"
  have na: "2 ^ a \<le> nat n" "nat n < 2 ^ Suc a" using ilog2_bounds [of "nat n"] n by (auto simp: a_def)
  have db: "2 ^ b \<le> nat d" "nat d < 2 ^ Suc b" using ilog2_bounds [of "nat d"] d by (auto simp: b_def)
  have n1: "(2::rat) ^ a \<le> of_int n" "of_int n < (2::rat) ^ Suc a"
    using na n by (metis (mono_tags) of_nat_le_iff of_nat_nat of_nat_numeral of_nat_power
        less_imp_le of_int_of_nat_eq, metis (mono_tags) of_nat_less_iff of_nat_nat of_nat_numeral
        of_nat_power less_imp_le of_int_of_nat_eq)
  have d1: "(2::rat) ^ b \<le> of_int d" "of_int d < (2::rat) ^ Suc b"
    using db d by (metis (mono_tags) of_nat_le_iff of_nat_nat of_nat_numeral of_nat_power
        less_imp_le of_int_of_nat_eq, metis (mono_tags) of_nat_less_iff of_nat_nat of_nat_numeral
        of_nat_power less_imp_le of_int_of_nat_eq)
  define e where "e = int a - int b"
  have pe: "pow2 e = 2 ^ a / 2 ^ b" by (simp add: e_def power_int_diff)
  have "x < 2 ^ Suc a / 2 ^ b"
    unfolding x using n1 d1 n d by (intro frac_less) auto
  then have up: "x < pow2 (e + 1)" by (simp add: power_int_add pe mult.commute)
  have "2 ^ a / 2 ^ Suc b < x"
    unfolding x using n1 d1 n d by (intro frac_less2) auto
  then have lo: "pow2 (e - 1) \<le> x" by (simp add: power_int_diff pe mult.commute)
  have ex: "expo x = (if pow2 e \<le> x then e else e - 1)"
    by (simp add: expo_def q e_def a_def b_def Let_def)
  show ?thesis using up lo by (auto simp: ex)
qed

lemma expo_unique:
  assumes "pow2 e \<le> x" and "x < pow2 (e + 1)"
  shows "expo x = e"
proof -
  have "0 < x" using assms(1) pow2_pos [of e] by linarith
  then have b: "pow2 (expo x) \<le> x" "x < pow2 (expo x + 1)" using expo_bounds by auto
  have "pow2 e < pow2 (expo x + 1)" "pow2 (expo x) < pow2 (e + 1)" using assms b by linarith+
  then show ?thesis by simp
qed

lemma expo_mono:
  assumes "0 < x" and "x \<le> y"
  shows "expo x \<le> expo y"
proof -
  have "pow2 (expo x) < pow2 (expo y + 1)"
    using expo_bounds [of x] expo_bounds [of y] assms by linarith
  then show ?thesis by simp
qed

section \<open>Rounding to nearest, ties to even\<close>

definition rne :: "rat \<Rightarrow> int" where
  "rne x = (let f = \<lfloor>x\<rfloor>; d = x - of_int f
            in if d < 1 / 2 then f else if 1 / 2 < d then f + 1 else if even f then f else f + 1)"

lemma rne_of_int [simp]: "rne (of_int n) = n"
  by (simp add: rne_def)

lemma rne_floor: "\<lfloor>x\<rfloor> \<le> rne x" and rne_floor1: "rne x \<le> \<lfloor>x\<rfloor> + 1"
  by (simp_all add: rne_def Let_def)

lemma rne_mono:
  assumes "x \<le> y"
  shows "rne x \<le> rne y"
proof (cases "\<lfloor>x\<rfloor> = \<lfloor>y\<rfloor>")
  case True
  with assms show ?thesis by (auto simp: rne_def Let_def)
next
  case False
  with assms have "\<lfloor>x\<rfloor> + 1 \<le> \<lfloor>y\<rfloor>" using floor_mono [OF assms] by linarith
  then show ?thesis using rne_floor [of y] rne_floor1 [of x] by linarith
qed

text \<open>The exponent of the last place of \<open>x\<close> in the format.\<close>

definition quantum :: "nat \<Rightarrow> int \<Rightarrow> rat \<Rightarrow> int" where
  "quantum p em x = max (expo x - (int p - 1)) em"

definition rnd_pos :: "nat \<Rightarrow> int \<Rightarrow> rat \<Rightarrow> rat" where
  "rnd_pos p em x = of_int (rne (x / pow2 (quantum p em x))) * pow2 (quantum p em x)"

definition rnd :: "nat \<Rightarrow> int \<Rightarrow> rat \<Rightarrow> rat" where
  "rnd p em x = (if x = 0 then 0 else if x < 0 then - rnd_pos p em (- x) else rnd_pos p em x)"

lemma rnd_pos_below:
  assumes "x \<le> of_int m * pow2 (quantum p em x)"
  shows "rnd_pos p em x \<le> of_int m * pow2 (quantum p em x)"
proof -
  have "x / pow2 (quantum p em x) \<le> of_int m" using assms by (simp add: pos_divide_le_eq)
  then have "rne (x / pow2 (quantum p em x)) \<le> m" using rne_mono rne_of_int by metis
  then show ?thesis by (simp add: rnd_pos_def)
qed

lemma rnd_pos_above:
  assumes "of_int m * pow2 (quantum p em x) \<le> x"
  shows "of_int m * pow2 (quantum p em x) \<le> rnd_pos p em x"
proof -
  have "of_int m \<le> x / pow2 (quantum p em x)" using assms by (simp add: pos_le_divide_eq)
  then have "m \<le> rne (x / pow2 (quantum p em x))" using rne_mono rne_of_int by metis
  then show ?thesis by (simp add: rnd_pos_def)
qed

lemma pow2_split: "q \<le> e \<Longrightarrow> \<exists>m::int. pow2 e = of_int m * pow2 q"
proof -
  assume "q \<le> e"
  then obtain m :: int where m: "pow2 (e - q) = of_int m" using pow2_int_ex [of "e - q"] by auto
  have "pow2 e = pow2 (e - q) * pow2 q" using pow2_add [of "e - q" q] by simp
  with m show ?thesis by auto
qed

lemma rnd_pos_mono:
  assumes p: "1 \<le> p" and "0 < x" and "x \<le> y"
  shows "rnd_pos p em x \<le> rnd_pos p em y"
proof (cases "quantum p em x = quantum p em y")
  case True
  have "rne (x / pow2 (quantum p em y)) \<le> rne (y / pow2 (quantum p em y))"
    by (rule rne_mono) (simp add: divide_right_mono \<open>x \<le> y\<close>)
  with True show ?thesis by (simp add: rnd_pos_def)
next
  case False
  have "expo x \<le> expo y" using assms(2,3) by (rule expo_mono)
  with False have q: "quantum p em x < quantum p em y" by (auto simp: quantum_def)
  then have qy: "quantum p em y = expo y - (int p - 1)" by (auto simp: quantum_def)
  from q have "expo x < expo y" by (auto simp: quantum_def)
  have B1: "quantum p em y \<le> expo y" using qy p by simp
  have B2: "quantum p em x \<le> expo y" using q B1 by linarith
  have "x < pow2 (expo x + 1)" using expo_bounds [OF assms(2)] by simp
  moreover have "pow2 (expo x + 1) \<le> pow2 (expo y)" using \<open>expo x < expo y\<close> by simp
  ultimately have "x \<le> pow2 (expo y)" by linarith
  then have "rnd_pos p em x \<le> pow2 (expo y)"
    using pow2_split [OF B2] rnd_pos_below by metis
  moreover have "pow2 (expo y) \<le> y" using expo_bounds [of y] assms by simp
  then have "pow2 (expo y) \<le> rnd_pos p em y"
    using pow2_split [OF B1] rnd_pos_above by metis
  ultimately show ?thesis by linarith
qed

lemma rnd_pos_nonneg: "0 < x \<Longrightarrow> 0 \<le> rnd_pos p em x"
  using rnd_pos_above [of 0 p em x] by simp

lemma rnd_mono:
  assumes "1 \<le> p" and "x \<le> y"
  shows "rnd p em x \<le> rnd p em y"
proof -
  consider "0 < x" | "y < 0" | "x \<le> 0" "0 \<le> y" using assms(2) by linarith
  then show ?thesis
  proof cases
    case 1
    then show ?thesis using rnd_pos_mono [OF assms(1) 1 assms(2)] assms(2) by (simp add: rnd_def)
  next
    case 2
    then have "rnd_pos p em (- y) \<le> rnd_pos p em (- x)"
      using assms by (intro rnd_pos_mono) auto
    then show ?thesis using 2 assms(2) by (simp add: rnd_def)
  next
    case 3
    have "rnd p em x \<le> 0" using 3(1) rnd_pos_nonneg [of "- x"] by (auto simp: rnd_def)
    moreover have "0 \<le> rnd p em y" using 3(2) rnd_pos_nonneg [of y] by (auto simp: rnd_def)
    ultimately show ?thesis by linarith
  qed
qed

lemma rnd_pos_exact:
  assumes p: "1 \<le> p" and m: "0 < m" "m \<le> 2 ^ p" and k: "em \<le> k"
  shows "rnd_pos p em (of_int m * pow2 k) = of_int m * pow2 k"
proof -
  let ?x = "of_int m * pow2 k :: rat"
  let ?q = "quantum p em ?x"
  have "\<exists>i::int. ?x = of_int i * pow2 ?q"
  proof (cases "?q \<le> k")
    case True
    then obtain j :: int where "pow2 k = of_int j * pow2 ?q" using pow2_split by blast
    then have "?x = of_int (m * j) * pow2 ?q" by simp
    then show ?thesis by blast
  next
    case False
    with k have q: "?q = expo ?x - (int p - 1)" and lt: "k + int p \<le> expo ?x"
      by (auto simp: quantum_def)
    have "0 < ?x" using m by simp
    then have "pow2 (expo ?x) \<le> ?x" using expo_bounds by blast
    moreover have "?q \<le> expo ?x" using q p by simp
    moreover have "?x \<le> pow2 (k + int p)"
    proof -
      have "(of_int m :: rat) \<le> 2 ^ p" using m(2) by (metis of_int_le_iff of_int_numeral of_int_power)
      then show ?thesis by (simp add: pow2_add mult.commute)
    qed
    moreover have "pow2 (k + int p) \<le> pow2 (expo ?x)" using lt by simp
    ultimately have "?x = pow2 (expo ?x)" by linarith
    then show ?thesis using pow2_split [OF \<open>?q \<le> expo ?x\<close>] by metis
  qed
  then obtain i :: int where "?x = of_int i * pow2 ?q" by blast
  then have "?x / pow2 ?q = of_int i" by (simp add: field_simps)
  then have "rne (?x / pow2 ?q) = i" by simp
  then show ?thesis using \<open>?x = of_int i * pow2 ?q\<close> by (simp add: rnd_pos_def)
qed

lemma rnd_exact:
  assumes p: "1 \<le> p" and m: "\<bar>m\<bar> \<le> 2 ^ p" and k: "em \<le> k"
  shows "rnd p em (of_int m * pow2 k) = of_int m * pow2 k"
proof -
  consider "m = 0" | "0 < m" | "m < 0" by linarith
  then show ?thesis
  proof cases
    case 1
    then show ?thesis by (simp add: rnd_def)
  next
    case 2
    moreover have "0 < of_int m * pow2 k" using 2 by simp
    moreover have "rnd_pos p em (of_int m * pow2 k) = of_int m * pow2 k"
      using 2 m by (intro rnd_pos_exact [OF p _ _ k]) auto
    ultimately show ?thesis by (simp only: rnd_def less_imp_neq [symmetric] less_not_sym if_False)
  next
    case 3
    have "rnd_pos p em (of_int (- m) * pow2 k) = of_int (- m) * pow2 k"
      using 3 m by (intro rnd_pos_exact [OF p _ _ k]) auto
    then show ?thesis using 3 by (simp add: rnd_def mult_less_0_iff)
  qed
qed

lemma rne_unique:
  assumes "of_int m - 1 / 2 < x" and "x < of_int m + 1 / 2"
  shows "rne x = m"
proof (cases "of_int m \<le> x")
  case True
  with assms(2) have "\<lfloor>x\<rfloor> = m" by (intro floor_unique) simp_all
  with assms(2) show ?thesis by (simp add: rne_def)
next
  case False
  with assms(1) have "\<lfloor>x\<rfloor> = m - 1" by (intro floor_unique) simp_all
  with assms(1) show ?thesis by (simp add: rne_def)
qed

text \<open>Evaluating one rounding: the exponent and the nearest integral significand are given.\<close>

lemma rnd_eval:
  assumes "pow2 e \<le> x" and "x < pow2 (e + 1)" and "q = max (e - (int p - 1)) em"
    and "of_int m - 1 / 2 < x / pow2 q" and "x / pow2 q < of_int m + 1 / 2"
  shows "rnd p em x = of_int m * pow2 q"
proof -
  have "0 < x" using assms(1) pow2_pos [of e] by linarith
  moreover have "quantum p em x = q" using expo_unique [OF assms(1,2)] assms(3) by (simp add: quantum_def)
  moreover have "rne (x / pow2 q) = m" using assms(4,5) by (rule rne_unique)
  ultimately show ?thesis by (simp add: rnd_def rnd_pos_def)
qed

lemma rne_le: "x \<le> of_int m \<Longrightarrow> rne x \<le> m"
  using rne_mono [of x "of_int m"] by simp

lemma rnd_pos_idem:
  assumes p: "1 \<le> p" and "0 < x"
  shows "rnd p em (rnd_pos p em x) = rnd_pos p em x"
proof -
  let ?q = "quantum p em x"
  have "x < pow2 (expo x + 1)" using expo_bounds [OF assms(2)] by simp
  also have "\<dots> \<le> pow2 (int p + ?q)" by (simp add: quantum_def)
  finally have "x / pow2 ?q < pow2 (int p)" by (simp add: pow2_add divide_less_eq)
  then have "x / pow2 ?q \<le> of_int (2 ^ p)" by simp
  then have "rne (x / pow2 ?q) \<le> 2 ^ p" by (rule rne_le)
  moreover have "0 \<le> rne (x / pow2 ?q)"
    using rne_mono [of 0 "x / pow2 ?q"] assms(2) rne_of_int [of 0] by simp
  moreover have "em \<le> ?q" by (simp add: quantum_def)
  ultimately show ?thesis unfolding rnd_pos_def by (intro rnd_exact [OF p]) simp_all
qed

lemma rnd_minus: "rnd p em (- x) = - rnd p em x"
  by (simp add: rnd_def)

lemma rnd_idem:
  assumes "1 \<le> p"
  shows "rnd p em (rnd p em x) = rnd p em x"
proof (cases "x < 0")
  case True
  with rnd_pos_idem [OF assms, of "- x" em] show ?thesis by (simp add: rnd_def [of p em x] rnd_minus)
next
  case False
  with rnd_pos_idem [OF assms, of x em] show ?thesis by (cases "x = 0") (simp_all add: rnd_def [of p em x] rnd_def [of p em 0])
qed

section \<open>What the clients use of a rounding\<close>

locale rounding =
  fixes r :: "rat \<Rightarrow> rat" and p :: nat
  assumes mono: "x \<le> y \<Longrightarrow> r x \<le> r y"
    and exact: "\<bar>m\<bar> \<le> 2 ^ p \<Longrightarrow> - 100 \<le> k \<Longrightarrow> r (of_int m * pow2 k) = of_int m * pow2 k"
    and idem: "r (r x) = r x"
begin

lemma of_int: "\<bar>m\<bar> \<le> 2 ^ p \<Longrightarrow> r (of_int m) = of_int m"
  using exact [of m 0] by simp

lemma of_nat: "n \<le> 2 ^ p \<Longrightarrow> r (of_nat n) = of_nat n"
proof -
  assume "n \<le> 2 ^ p"
  then have "int n \<le> 2 ^ p" by (metis of_nat_le_iff of_nat_numeral of_nat_power)
  then show ?thesis using of_int [of "int n"] by simp
qed

lemma zero [simp]: "r 0 = 0"
  using of_int [of 0] by simp

lemma one [simp]: "r 1 = 1"
  using of_int [of 1] by simp

lemma half_steps: "\<bar>m\<bar> \<le> 2 ^ p \<Longrightarrow> r (of_int m / 2) = of_int m / 2"
proof -
  assume "\<bar>m\<bar> \<le> 2 ^ p"
  then have "r (of_int m * pow2 (- 1)) = of_int m * pow2 (- 1)" by (rule exact) simp
  moreover have "of_int m * pow2 (- 1) = of_int m / 2" by (simp add: power_int_minus)
  ultimately show ?thesis by simp
qed

lemma nonneg: "0 \<le> x \<Longrightarrow> 0 \<le> r x"
  using mono [of 0 x] by simp

lemma lower: "r a = a \<Longrightarrow> a \<le> x \<Longrightarrow> a \<le> r x"
  using mono [of a x] by simp

lemma upper: "r a = a \<Longrightarrow> x \<le> a \<Longrightarrow> r x \<le> a"
  using mono [of x a] by simp

lemma in_unit: "0 \<le> x \<Longrightarrow> x \<le> 1 \<Longrightarrow> 0 \<le> r x \<and> r x \<le> 1"
  using nonneg upper [of 1 x] by simp

end

definition rnd64 :: "rat \<Rightarrow> rat" where
  "rnd64 = rnd 53 (- 1074)"

definition rnd32 :: "rat \<Rightarrow> rat" where
  "rnd32 = rnd 24 (- 149)"

interpretation f64: rounding rnd64 53
proof (unfold_locales, unfold rnd64_def)
  show "rnd 53 (- 1074) x \<le> rnd 53 (- 1074) y" if "x \<le> y" for x y
    using that by (intro rnd_mono) simp_all
  show "rnd 53 (- 1074) (of_int m * pow2 k) = of_int m * pow2 k"
    if "\<bar>m\<bar> \<le> 2 ^ 53" and "- 100 \<le> k" for m k
    using that by (intro rnd_exact) simp_all
  show "rnd 53 (- 1074) (rnd 53 (- 1074) x) = rnd 53 (- 1074) x" for x
    by (rule rnd_idem) simp
qed

interpretation f32: rounding rnd32 24
proof (unfold_locales, unfold rnd32_def)
  show "rnd 24 (- 149) x \<le> rnd 24 (- 149) y" if "x \<le> y" for x y
    using that by (intro rnd_mono) simp_all
  show "rnd 24 (- 149) (of_int m * pow2 k) = of_int m * pow2 k"
    if "\<bar>m\<bar> \<le> 2 ^ 24" and "- 100 \<le> k" for m k
    using that by (intro rnd_exact) simp_all
  show "rnd 24 (- 149) (rnd 24 (- 149) x) = rnd 24 (- 149) x" for x
    by (rule rnd_idem) simp
qed

section \<open>Casts and integral roundings\<close>

text \<open>\<open>x as u64\<close> for a float: truncation towards zero, saturating at both ends.\<close>

definition trunc_to :: "rat \<Rightarrow> 'a::len word" where
  "trunc_to x = of_nat (min (nat \<lfloor>x\<rfloor>) (2 ^ LENGTH('a) - 1))"

text \<open>\<open>f64::round\<close> (half away from zero), \<open>floor\<close> and \<open>ceil\<close>; all are exact.\<close>

definition fround :: "rat \<Rightarrow> rat" where
  "fround x = (if 0 \<le> x then of_int \<lfloor>x + 1 / 2\<rfloor> else - of_int \<lfloor>- x + 1 / 2\<rfloor>)"

definition ffloor :: "rat \<Rightarrow> rat" where
  "ffloor x = of_int \<lfloor>x\<rfloor>"

definition fceil :: "rat \<Rightarrow> rat" where
  "fceil x = of_int \<lceil>x\<rceil>"

definition f64_of :: "'a::len word \<Rightarrow> rat" where
  "f64_of w = rnd64 (of_nat (unat w))"

definition f32_of :: "'a::len word \<Rightarrow> rat" where
  "f32_of w = rnd32 (of_nat (unat w))"

declare of_nat_unat [simp del]

lemma unat_trunc_to: "unat (trunc_to x :: 'a::len word) = min (nat \<lfloor>x\<rfloor>) (2 ^ LENGTH('a) - 1)"
proof -
  have "min (nat \<lfloor>x\<rfloor>) (2 ^ LENGTH('a) - 1) < 2 ^ LENGTH('a)"
    by (metis diff_less less_numeral_extra(1) min.cobounded2 order_le_less_trans zero_less_numeral
        zero_less_power)
  then show ?thesis by (simp add: trunc_to_def unat_of_nat)
qed

lemma trunc_to_mono: "x \<le> y \<Longrightarrow> (trunc_to x :: 'a::len word) \<le> trunc_to y"
  using floor_mono [of x y] by (auto simp: word_le_nat_alt unat_trunc_to min_def)

lemma trunc_to_le: "0 \<le> x \<Longrightarrow> of_nat (unat (trunc_to x :: 'a::len word)) \<le> x"
proof -
  assume "0 \<le> x"
  have "(of_nat (unat (trunc_to x :: 'a word)) :: rat) \<le> of_nat (nat \<lfloor>x\<rfloor>)"
    by (simp add: unat_trunc_to)
  also have "\<dots> \<le> x" using \<open>0 \<le> x\<close> by (simp add: of_nat_nat)
  finally show ?thesis .
qed

lemma trunc_to_of_nat: "n < 2 ^ LENGTH('a) \<Longrightarrow> unat (trunc_to (of_nat n) :: 'a::len word) = n"
  by (simp add: unat_trunc_to min_def)

lemma f64_of_mono: "a \<le> b \<Longrightarrow> f64_of a \<le> f64_of b"
  by (simp add: f64_of_def f64.mono word_le_nat_alt)

lemma f64_of_nonneg [simp]: "0 \<le> f64_of w"
  by (simp add: f64_of_def f64.nonneg)

lemma f64_of_exact: "unat w \<le> 2 ^ 53 \<Longrightarrow> f64_of w = of_nat (unat w)"
  by (simp add: f64_of_def f64.of_nat)

lemma f64_of_u32: "f64_of (w :: u32) = of_nat (unat w)"
proof -
  have "unat w < 2 ^ LENGTH(32)" by (rule unsigned_less)
  then show ?thesis by (intro f64_of_exact) simp
qed

lemma f64_of_pos: "0 < w \<Longrightarrow> 1 \<le> f64_of w"
proof -
  assume "0 < w"
  then have "(1 :: rat) \<le> of_nat (unat w)" by (simp add: Suc_leI unat_gt_0 word_neq_0_conv)
  then show ?thesis unfolding f64_of_def by (rule f64.lower [OF f64.one])
qed

lemma f32_of_idem [simp]: "rnd32 (f32_of w) = f32_of w" and f64_of_idem [simp]: "rnd64 (f64_of w) = f64_of w"
  by (simp_all add: f32_of_def f64_of_def f32.idem f64.idem)

lemma f32_of_mono: "a \<le> b \<Longrightarrow> f32_of a \<le> f32_of b"
  by (simp add: f32_of_def f32.mono word_le_nat_alt)

lemma f32_of_nonneg [simp]: "0 \<le> f32_of w"
  by (simp add: f32_of_def f32.nonneg)

lemma f32_of_pos: "0 < w \<Longrightarrow> 1 \<le> f32_of w"
proof -
  assume "0 < w"
  then have "(1 :: rat) \<le> of_nat (unat w)" by (simp add: Suc_leI unat_gt_0 word_neq_0_conv)
  then show ?thesis unfolding f32_of_def by (rule f32.lower [OF f32.one])
qed

lemma f32_of_0 [simp]: "f32_of 0 = 0" and f64_of_0 [simp]: "f64_of 0 = 0"
  by (simp_all add: f32_of_def f64_of_def)

lemma f32_of_eq_0_iff [simp]: "f32_of w = 0 \<longleftrightarrow> w = 0"
  using f32_of_pos [of w] word_neq_0_conv [of w] by fastforce

text \<open>A literal that several components use.\<close>

lemma lit_07: "rnd64 (7 / 10) = 3152519739159347 / 4503599627370496"
  unfolding rnd64_def
  by (subst rnd_eval [where e = "- 1" and q = "- 53" and m = 6305039478318694])
    (simp_all add: power_int_def power_divide)

end
