(* ===== verification/Adaptive_Limit.thy ===== *)
theory Adaptive_Limit
  imports Floats
begin

text \<open>
  Adaptive (AIMD) rate limits, \<open>crates/antigravity-core/src/proxy/adaptive_limit/\<close>: the
  controller of \<open>aimd.rs\<close>, the per-account tracker of \<open>tracker.rs\<close> and the manager of
  \<open>manager.rs\<close>. An operation takes the instant at which it runs; it is one atomic step of the
  tracker, as the update lock and the account's shard lock make it.
\<close>

section \<open>The controller\<close>

record aimd_controller =
  additive_increase :: rat
  multiplicative_decrease :: rat
  min_limit :: u64
  max_limit :: u64

definition default_aimd :: aimd_controller where
  "default_aimd = \<lparr>additive_increase = rnd64 (5 / 100), multiplicative_decrease = rnd64 (7 / 10),
     min_limit = 10, max_limit = 1000\<rparr>"

definition reward :: "aimd_controller \<Rightarrow> u64 \<Rightarrow> u64" where
  "reward c current =
     min (trunc_to (fround (rnd64 (f64_of current * rnd64 (1 + additive_increase c))))) (max_limit c)"

definition penalize :: "aimd_controller \<Rightarrow> u64 \<Rightarrow> u64" where
  "penalize c current =
     max (trunc_to (ffloor (rnd64 (f64_of current * multiplicative_decrease c)))) (min_limit c)"

datatype probe_strategy = PNone | CheapProbe | DelayedHedge | ImmediateHedge

definition from_usage_ratio :: "rat \<Rightarrow> probe_strategy" where
  "from_usage_ratio r =
     (if r < rnd64 (70 / 100) then PNone
      else if r < rnd64 (85 / 100) then CheapProbe
      else if r < rnd64 (95 / 100) then DelayedHedge
      else ImmediateHedge)"

definition needs_secondary :: "probe_strategy \<Rightarrow> bool" where
  "needs_secondary p \<longleftrightarrow> p = DelayedHedge \<or> p = ImmediateHedge"

definition is_fire_and_forget :: "probe_strategy \<Rightarrow> bool" where
  "is_fire_and_forget p \<longleftrightarrow> p = CheapProbe"

section \<open>The tracker\<close>

record tracker =
  confirmed_limit :: u64
  working_threshold :: u64
  ceiling :: u64
  requests_this_minute :: u64
  minute_started_at :: nanos
  last_calibration :: nanos
  consecutive_above_threshold :: u64
  safety_margin :: rat
  aimd :: aimd_controller

definition threshold_of :: "rat \<Rightarrow> u64 \<Rightarrow> u64" where
  "threshold_of margin limit = trunc_to (rnd64 (f64_of limit * margin))"

definition tracker_new :: "nanos \<Rightarrow> rat \<Rightarrow> aimd_controller \<Rightarrow> tracker" where
  "tracker_new now margin c =
     (let default_limit = min (max (min_limit c) 15) (max_limit c)
      in \<lparr>confirmed_limit = default_limit,
          working_threshold = threshold_of margin default_limit,
          ceiling = default_limit,
          requests_this_minute = 0,
          minute_started_at = now,
          last_calibration = (if secs 3600 \<le> now then now - secs 3600 else now),
          consecutive_above_threshold = 0,
          safety_margin = margin,
          aimd = c\<rparr>)"

definition confidence :: "u64 \<Rightarrow> rat" where
  "confidence age_hours =
     (if age_hours \<le> 1 then 1
      else if age_hours \<le> 6 then rnd64 (9 / 10)
      else if age_hours \<le> 24 then rnd64 (7 / 10)
      else rnd64 (5 / 10))"

definition effective_limit :: "aimd_controller \<Rightarrow> u64 \<Rightarrow> u64 \<Rightarrow> u64" where
  "effective_limit c confirmed age_seconds =
     min (max (trunc_to (rnd64 (f64_of confirmed * confidence (age_seconds div 3600))))
              (min_limit c))
         (max_limit c)"

definition from_persisted ::
  "nanos \<Rightarrow> u64 \<Rightarrow> u64 \<Rightarrow> u64 \<Rightarrow> rat \<Rightarrow> aimd_controller \<Rightarrow> tracker" where
  "from_persisted now confirmed ceil age_seconds margin c =
     (let eff = effective_limit c confirmed age_seconds
      in (tracker_new now margin c)
           \<lparr>confirmed_limit := eff, working_threshold := threshold_of margin eff,
            ceiling := ceil\<rparr>)"

definition maybe_reset_minute :: "nanos \<Rightarrow> tracker \<Rightarrow> tracker" where
  "maybe_reset_minute now t =
     (if secs 60 \<le> elapsed now (minute_started_at t)
      then t\<lparr>requests_this_minute := 0, minute_started_at := now\<rparr> else t)"

definition usage_of :: "tracker \<Rightarrow> rat" where
  "usage_of t = (if working_threshold t = 0 then 0
     else rnd64 (f64_of (requests_this_minute t) / f64_of (working_threshold t)))"

definition usage_ratio :: "nanos \<Rightarrow> tracker \<Rightarrow> rat \<times> tracker" where
  "usage_ratio now t = (let t' = maybe_reset_minute now t in (usage_of t', t'))"

definition get_requests_this_minute :: "nanos \<Rightarrow> tracker \<Rightarrow> u64 \<times> tracker" where
  "get_requests_this_minute now t =
     (let t' = maybe_reset_minute now t in (requests_this_minute t', t'))"

definition should_allow :: "nanos \<Rightarrow> tracker \<Rightarrow> bool \<times> tracker" where
  "should_allow now t = (let (r, t') = usage_ratio now t in (r < 1, t'))"

definition tracker_probe_strategy :: "nanos \<Rightarrow> tracker \<Rightarrow> probe_strategy \<times> tracker" where
  "tracker_probe_strategy now t =
     (let (r, t') = usage_ratio now t
      in (if elapsed now (last_calibration t') < secs 300 \<and> r < rnd64 (90 / 100) then PNone
          else from_usage_ratio r, t'))"

definition expand_limit_inner :: "nanos \<Rightarrow> tracker \<Rightarrow> tracker" where
  "expand_limit_inner now t =
     (let new_limit = reward (aimd t) (confirmed_limit t)
      in t\<lparr>confirmed_limit := new_limit,
           working_threshold := threshold_of (safety_margin t) new_limit,
           ceiling := max (ceiling t) new_limit,
           last_calibration := now\<rparr>)"

definition force_expand :: "nanos \<Rightarrow> tracker \<Rightarrow> tracker" where
  "force_expand = expand_limit_inner"

definition record_success :: "nanos \<Rightarrow> tracker \<Rightarrow> tracker" where
  "record_success now t0 =
     (let t = maybe_reset_minute now t0;
          current = requests_this_minute t + 1;
          t1 = t\<lparr>requests_this_minute := current\<rparr>
      in if working_threshold t < current
         then (let consecutive = consecutive_above_threshold t + 1;
                   t2 = t1\<lparr>consecutive_above_threshold := consecutive\<rparr>
               in if 3 \<le> consecutive
                  then (expand_limit_inner now t2)\<lparr>consecutive_above_threshold := 0\<rparr>
                  else t2)
         else t1)"

definition record_429 :: "nanos \<Rightarrow> tracker \<Rightarrow> tracker" where
  "record_429 now t0 =
     (let t = maybe_reset_minute now t0;
          actual_limit = max (requests_this_minute t) (confirmed_limit t);
          new_limit = penalize (aimd t) actual_limit
      in t\<lparr>confirmed_limit := new_limit,
           working_threshold := threshold_of (safety_margin t) new_limit,
           ceiling := actual_limit,
           last_calibration := now,
           consecutive_above_threshold := 0\<rparr>)"

definition record_error :: "nanos \<Rightarrow> u16 \<Rightarrow> tracker \<Rightarrow> tracker" where
  "record_error now status t =
     (let t1 = t\<lparr>consecutive_above_threshold := 0\<rparr>
      in if status = 429 then record_429 now t1 else t1)"

definition to_persisted :: "nanos \<Rightarrow> tracker \<Rightarrow> u64 \<times> u64 \<times> u64" where
  "to_persisted now t =
     (confirmed_limit t, ceiling t, of_nat (as_secs (elapsed now (last_calibration t))))"

definition time_since_calibration :: "nanos \<Rightarrow> tracker \<Rightarrow> nanos" where
  "time_since_calibration now t = elapsed now (last_calibration t)"

section \<open>The manager\<close>

record limit_manager =
  trackers :: "(string, tracker) table"
  mgr_safety_margin :: rat
  mgr_aimd :: aimd_controller

definition manager_new :: "rat \<Rightarrow> aimd_controller \<Rightarrow> limit_manager" where
  "manager_new margin c = \<lparr>trackers = [], mgr_safety_margin = margin, mgr_aimd = c\<rparr>"

definition default_manager :: limit_manager where
  "default_manager = manager_new (rnd64 (85 / 100)) default_aimd"

definition get_or_create :: "nanos \<Rightarrow> string \<Rightarrow> limit_manager \<Rightarrow> tracker \<times> limit_manager" where
  "get_or_create now acc m =
     (case tget (trackers m) acc of
        Some t \<Rightarrow> (t, m)
      | None \<Rightarrow> (let t = tracker_new now (mgr_safety_margin m) (mgr_aimd m)
                 in (t, m\<lparr>trackers := tput acc t (trackers m)\<rparr>)))"

text \<open>An operation of the manager runs the tracker's operation on \<open>get_or_create(account)\<close>.\<close>

definition on_tracker :: "nanos \<Rightarrow> string \<Rightarrow> (tracker \<Rightarrow> 'a \<times> tracker) \<Rightarrow>
  limit_manager \<Rightarrow> 'a \<times> limit_manager" where
  "on_tracker now acc f m =
     (let (t, m1) = get_or_create now acc m; (x, t') = f t
      in (x, m1\<lparr>trackers := tput acc t' (trackers m1)\<rparr>))"

definition load_persisted :: "nanos \<Rightarrow> string \<Rightarrow> u64 \<Rightarrow> u64 \<Rightarrow> u64 \<Rightarrow>
  limit_manager \<Rightarrow> limit_manager" where
  "load_persisted now acc confirmed ceil age m =
     m\<lparr>trackers := tput acc (from_persisted now confirmed ceil age (mgr_safety_margin m) (mgr_aimd m))
                       (trackers m)\<rparr>"

definition mgr_usage_ratio :: "nanos \<Rightarrow> string \<Rightarrow> limit_manager \<Rightarrow> rat \<times> limit_manager" where
  "mgr_usage_ratio now acc = on_tracker now acc (usage_ratio now)"

definition mgr_probe_strategy ::
  "nanos \<Rightarrow> string \<Rightarrow> limit_manager \<Rightarrow> probe_strategy \<times> limit_manager" where
  "mgr_probe_strategy now acc = on_tracker now acc (tracker_probe_strategy now)"

definition mgr_record_success :: "nanos \<Rightarrow> string \<Rightarrow> limit_manager \<Rightarrow> limit_manager" where
  "mgr_record_success now acc m = snd (on_tracker now acc (\<lambda>t. ((), record_success now t)) m)"

definition mgr_record_429 :: "nanos \<Rightarrow> string \<Rightarrow> limit_manager \<Rightarrow> limit_manager" where
  "mgr_record_429 now acc m = snd (on_tracker now acc (\<lambda>t. ((), record_429 now t)) m)"

definition mgr_record_error :: "nanos \<Rightarrow> string \<Rightarrow> u16 \<Rightarrow> limit_manager \<Rightarrow> limit_manager" where
  "mgr_record_error now acc status m =
     snd (on_tracker now acc (\<lambda>t. ((), record_error now status t)) m)"

definition mgr_force_expand :: "nanos \<Rightarrow> string \<Rightarrow> limit_manager \<Rightarrow> limit_manager" where
  "mgr_force_expand now acc m = snd (on_tracker now acc (\<lambda>t. ((), force_expand now t)) m)"

definition mgr_should_allow :: "nanos \<Rightarrow> string \<Rightarrow> limit_manager \<Rightarrow> bool \<times> limit_manager" where
  "mgr_should_allow now acc = on_tracker now acc (should_allow now)"

definition all_for_persistence :: "nanos \<Rightarrow> limit_manager \<Rightarrow> (string \<times> u64 \<times> u64 \<times> u64) list" where
  "all_for_persistence now m = map (\<lambda>(k, t). (k, to_persisted now t)) (trackers m)"

definition mgr_len :: "limit_manager \<Rightarrow> nat" where
  "mgr_len m = length (trackers m)"

definition mgr_is_empty :: "limit_manager \<Rightarrow> bool" where
  "mgr_is_empty m \<longleftrightarrow> trackers m = []"

record aimd_account_stats =
  st_account_id :: string
  st_confirmed_limit :: u64
  st_ceiling :: u64
  st_requests_this_minute :: u64
  st_working_threshold :: u64
  st_usage_ratio :: rat

definition stats_of :: "nanos \<Rightarrow> string \<Rightarrow> tracker \<Rightarrow> aimd_account_stats" where
  "stats_of now acc t =
     (let (reqs, t1) = get_requests_this_minute now t
      in \<lparr>st_account_id = acc, st_confirmed_limit = confirmed_limit t, st_ceiling = ceiling t,
          st_requests_this_minute = reqs, st_working_threshold = working_threshold t1,
          st_usage_ratio = fst (usage_ratio now t1)\<rparr>)"

definition all_stats :: "nanos \<Rightarrow> limit_manager \<Rightarrow> aimd_account_stats list \<times> limit_manager" where
  "all_stats now m =
     (map (\<lambda>(k, t). stats_of now k t) (trackers m),
      m\<lparr>trackers := tmapv (maybe_reset_minute now) (trackers m)\<rparr>)"

section \<open>Laws of the controller\<close>

lemma unat_le_2_53_rat: "unat w \<le> 2 ^ 53 \<Longrightarrow> f64_of w = of_nat (unat w)"
  by (rule f64_of_exact)

lemma reward_le_max: "reward c x \<le> max_limit c"
  by (simp add: reward_def)

lemma penalize_ge_min: "min_limit c \<le> penalize c x"
  by (simp add: penalize_def)

lemma fround_mono: "x \<le> y \<Longrightarrow> fround x \<le> fround y"
proof -
  assume "x \<le> y"
  consider "0 \<le> x" | "y < 0" | "x < 0" "0 \<le> y" by linarith
  then show ?thesis
  proof cases
    case 1
    with \<open>x \<le> y\<close> show ?thesis by (simp add: fround_def floor_mono)
  next
    case 2
    with \<open>x \<le> y\<close> show ?thesis by (simp add: fround_def floor_mono)
  next
    case 3
    then have "0 \<le> \<lfloor>- x + 1 / 2\<rfloor>" "0 \<le> \<lfloor>y + 1 / 2\<rfloor>" by simp_all
    then have "(0 :: rat) \<le> of_int \<lfloor>- x + 1 / 2\<rfloor>" "(0 :: rat) \<le> of_int \<lfloor>y + 1 / 2\<rfloor>"
      by (simp_all only: of_int_0_le_iff)
    then have "- (of_int \<lfloor>- x + 1 / 2\<rfloor> :: rat) \<le> of_int \<lfloor>y + 1 / 2\<rfloor>" by linarith
    with 3 show ?thesis by (simp only: fround_def not_le [symmetric] if_False if_True simp_thms)
  qed
qed

lemma fround_of_nat: "fround (of_nat n) = of_nat n"
proof -
  have "\<lfloor>of_nat n + 1 / 2 :: rat\<rfloor> = int n" by (rule floor_unique) simp_all
  then show ?thesis by (simp add: fround_def)
qed

lemma reward_mono:
  assumes "0 \<le> additive_increase c" and "x \<le> y"
  shows "reward c x \<le> reward c y"
proof -
  let ?k = "rnd64 (1 + additive_increase c)"
  have "0 \<le> ?k" using assms(1) by (simp add: f64.nonneg)
  then have "f64_of x * ?k \<le> f64_of y * ?k"
    by (intro mult_right_mono f64_of_mono assms(2))
  then have "(trunc_to (fround (rnd64 (f64_of x * ?k))) :: u64) \<le> trunc_to (fround (rnd64 (f64_of y * ?k)))"
    by (intro trunc_to_mono fround_mono f64.mono)
  then show ?thesis unfolding reward_def by (rule min.mono) simp
qed

lemma penalize_mono:
  assumes "0 \<le> multiplicative_decrease c" and "x \<le> y"
  shows "penalize c x \<le> penalize c y"
proof -
  have "f64_of x * multiplicative_decrease c \<le> f64_of y * multiplicative_decrease c"
    by (intro mult_right_mono f64_of_mono assms)
  then have "ffloor (rnd64 (f64_of x * multiplicative_decrease c))
      \<le> ffloor (rnd64 (f64_of y * multiplicative_decrease c))"
    unfolding ffloor_def by (simp add: floor_mono f64.mono)
  then have "(trunc_to (ffloor (rnd64 (f64_of x * multiplicative_decrease c))) :: u64)
      \<le> trunc_to (ffloor (rnd64 (f64_of y * multiplicative_decrease c)))"
    by (rule trunc_to_mono)
  then show ?thesis unfolding penalize_def by (rule max.mono) simp
qed

text \<open>A factor of at least one never rounds a limit below itself.\<close>

lemma reward_ge:
  assumes "0 \<le> additive_increase c" and "unat x \<le> 2 ^ 53"
  shows "min x (max_limit c) \<le> reward c x"
proof -
  let ?k = "rnd64 (1 + additive_increase c)"
  have k: "1 \<le> ?k" using assms(1) by (intro f64.lower) simp_all
  have x: "f64_of x = of_nat (unat x)" using assms(2) by (rule f64_of_exact)
  have "of_nat (unat x) * 1 \<le> of_nat (unat x) * ?k" using k by (intro mult_left_mono) simp_all
  then have "of_nat (unat x) \<le> rnd64 (f64_of x * ?k)"
    using f64.of_nat [OF assms(2)] unfolding x by (intro f64.lower) simp_all
  then have "fround (of_nat (unat x)) \<le> fround (rnd64 (f64_of x * ?k))" by (rule fround_mono)
  then have "trunc_to (of_nat (unat x)) \<le> (trunc_to (fround (rnd64 (f64_of x * ?k))) :: u64)"
    by (simp add: trunc_to_mono fround_of_nat)
  moreover have "(trunc_to (of_nat (unat x)) :: u64) = x"
    using trunc_to_of_nat [OF unsigned_less [of x]] by (simp add: word_unat_eq_iff)
  ultimately show ?thesis unfolding reward_def by (simp add: min.coboundedI1 min_le_iff_disj)
qed

section \<open>The default controller\<close>

lemma lit_005: "rnd64 (5 / 100) = 3602879701896397 / 72057594037927936"
  unfolding rnd64_def
  by (subst rnd_eval [where e = "- 5" and q = "- 57" and m = 7205759403792794])
    (simp_all add: power_int_def power_divide)

lemma lit_105: "rnd64 (1 + 3602879701896397 / 72057594037927936) = 4728779608739021 / 4503599627370496"
  unfolding rnd64_def
  by (subst rnd_eval [where e = 0 and q = "- 52" and m = 4728779608739021])
    (simp_all add: power_int_def power_divide)

lemma default_additive: "1 / 20 \<le> additive_increase default_aimd"
  by (simp only: default_aimd_def aimd_controller.select_convs lit_005)

lemma default_growth: "21 / 20 \<le> rnd64 (1 + additive_increase default_aimd)"
  by (simp only: default_aimd_def aimd_controller.select_convs lit_005 lit_105)

lemma default_decrease:
  "0 \<le> multiplicative_decrease default_aimd \<and> multiplicative_decrease default_aimd \<le> 7 / 10"
  by (simp add: default_aimd_def lit_07)

lemma default_limits [simp]: "min_limit default_aimd = 10" "max_limit default_aimd = 1000"
  by (simp_all add: default_aimd_def)

text \<open>Below the maximum a reward always makes progress, one request at least.\<close>

lemma default_reward_progress:
  assumes "10 \<le> x" and "x < 1000"
  shows "x < reward default_aimd x"
proof -
  let ?k = "rnd64 (1 + additive_increase default_aimd)"
  let ?n = "unat x"
  have n: "10 \<le> ?n" "?n < 1000" using assms by (simp_all add: word_le_nat_alt word_less_nat_alt)
  have x: "f64_of x = of_nat ?n" using n by (intro f64_of_exact) simp
  have half: "rnd64 (of_int (2 * int ?n + 1) / 2) = of_int (2 * int ?n + 1) / 2"
    using n by (intro f64.half_steps) simp
  have "(of_nat ?n :: rat) \<ge> 10" using n(1) by (metis of_nat_le_iff of_nat_numeral)
  then have "of_int (2 * int ?n + 1) / 2 \<le> of_nat ?n * (21 / 20 :: rat)" by simp
  also have "\<dots> \<le> of_nat ?n * ?k" using default_growth by (intro mult_left_mono) simp_all
  finally have "of_int (2 * int ?n + 1) / 2 \<le> rnd64 (f64_of x * ?k)"
    unfolding x by (rule f64.lower [OF half])
  then have "fround (of_int (2 * int ?n + 1) / 2) \<le> fround (rnd64 (f64_of x * ?k))"
    by (rule fround_mono)
  moreover have "fround (of_int (2 * int ?n + 1) / 2) = of_nat (?n + 1)"
  proof -
    have "\<lfloor>of_int (2 * int ?n + 1) / 2 + 1 / 2 :: rat\<rfloor> = int (?n + 1)"
      by (rule floor_unique) (simp_all add: field_simps)
    then show ?thesis by (simp add: fround_def)
  qed
  ultimately have "trunc_to (of_nat (?n + 1)) \<le> (trunc_to (fround (rnd64 (f64_of x * ?k))) :: u64)"
    by (simp add: trunc_to_mono)
  moreover have "unat (trunc_to (of_nat (?n + 1)) :: u64) = ?n + 1"
    using n by (intro trunc_to_of_nat) simp
  ultimately have "x < trunc_to (fround (rnd64 (f64_of x * ?k)))"
    by (simp add: word_le_nat_alt word_less_nat_alt)
  with assms(2) show ?thesis by (simp add: reward_def)
qed

lemma default_reward_range:
  assumes "10 \<le> x" and "x \<le> 1000"
  shows "10 \<le> reward default_aimd x \<and> reward default_aimd x \<le> 1000 \<and> x \<le> reward default_aimd x"
proof -
  have "unat x \<le> 1000" using assms(2) by (simp add: word_le_nat_alt)
  then have "min x (max_limit default_aimd) \<le> reward default_aimd x"
    using default_additive by (intro reward_ge) simp_all
  with assms reward_le_max [of default_aimd x] show ?thesis by (simp add: min_def)
qed

lemma default_reward_iterate:
  assumes "10 \<le> x" and "x \<le> 1000"
  shows "min (unat x + n) 1000 \<le> unat ((reward default_aimd ^^ n) x) \<and>
         unat ((reward default_aimd ^^ n) x) \<le> 1000"
proof (induction n)
  case 0
  with assms show ?case by (simp add: word_le_nat_alt)
next
  case (Suc n)
  let ?y = "(reward default_aimd ^^ n) x"
  have y: "10 \<le> ?y" "?y \<le> 1000" using Suc assms by (auto simp: word_le_nat_alt)
  show ?case
  proof (cases "?y = 1000")
    case True
    with default_reward_range [of ?y] have "reward default_aimd ?y = 1000" by auto
    with True show ?thesis by simp
  next
    case False
    with y have "?y < reward default_aimd ?y" by (intro default_reward_progress) auto
    with default_reward_range [OF y] Suc show ?thesis
      by (auto simp: word_le_nat_alt word_less_nat_alt)
  qed
qed

lemma default_penalize_decreases:
  assumes "10 < x" and "unat x \<le> 2 ^ 53"
  shows "penalize default_aimd x < x"
proof -
  let ?d = "multiplicative_decrease default_aimd"
  let ?n = "unat x"
  have n: "10 < ?n" using assms(1) by (simp add: word_less_nat_alt)
  have x: "f64_of x = of_nat ?n" using assms(2) by (rule f64_of_exact)
  have r: "(11 :: rat) \<le> of_nat ?n" using n by (metis Suc_leI Suc_numeral of_nat_le_iff of_nat_numeral semiring_norm(5)
      add_One num.simps)
  have "of_nat ?n * ?d \<le> of_nat ?n * (7 / 10)" using default_decrease by (intro mult_left_mono) simp_all
  also have "\<dots> \<le> of_nat (?n - 1)" using r n by (simp add: of_nat_diff field_simps)
  finally have up: "rnd64 (f64_of x * ?d) \<le> of_nat (?n - 1)"
    unfolding x using f64.of_nat [of "?n - 1"] assms(2) by (intro f64.upper) auto
  then have "ffloor (rnd64 (f64_of x * ?d)) \<le> of_nat (?n - 1)"
    unfolding ffloor_def by (meson dual_order.trans of_int_floor_le)
  then have "(trunc_to (ffloor (rnd64 (f64_of x * ?d))) :: u64) \<le> trunc_to (of_nat (?n - 1))"
    by (rule trunc_to_mono)
  moreover have "unat (trunc_to (of_nat (?n - 1)) :: u64) = ?n - 1"
    using assms(2) by (intro trunc_to_of_nat) simp
  ultimately have "trunc_to (ffloor (rnd64 (f64_of x * ?d))) < x"
    using n by (simp add: word_le_nat_alt word_less_nat_alt)
  with assms(1) show ?thesis by (simp add: penalize_def)
qed

section \<open>Runs of a tracker\<close>

text \<open>The calls a tracker receives, each at its instant; a query is any of the read operations.\<close>

datatype aimd_call = Success | Status u16 | Hit429 | ForceExpand | Query

fun aimd_step :: "nanos \<times> aimd_call \<Rightarrow> tracker \<Rightarrow> tracker" where
  "aimd_step (now, Success) t = record_success now t"
| "aimd_step (now, Status code) t = record_error now code t"
| "aimd_step (now, Hit429) t = record_429 now t"
| "aimd_step (now, ForceExpand) t = force_expand now t"
| "aimd_step (now, Query) t = snd (usage_ratio now t)"

definition aimd_run :: "(nanos \<times> aimd_call) list \<Rightarrow> tracker \<Rightarrow> tracker" where
  "aimd_run evs t = fold aimd_step evs t"

definition wf_aimd :: "aimd_controller \<Rightarrow> bool" where
  "wf_aimd c \<longleftrightarrow> 0 \<le> additive_increase c \<and> min_limit c \<le> max_limit c \<and> min_limit c \<le> 2 ^ 53"

text \<open>
  The threshold always belongs to the current limit, the limit never falls below the configured
  minimum, and the streak counter stays below the three that trigger an expansion.
\<close>

definition tracker_inv :: "tracker \<Rightarrow> bool" where
  "tracker_inv t \<longleftrightarrow> wf_aimd (aimd t)
     \<and> working_threshold t = threshold_of (safety_margin t) (confirmed_limit t)
     \<and> min_limit (aimd t) \<le> confirmed_limit t
     \<and> consecutive_above_threshold t < 3"

lemma reward_ge_min:
  assumes "wf_aimd c" and "min_limit c \<le> x"
  shows "min_limit c \<le> reward c x"
proof -
  have "unat (min_limit c) \<le> 2 ^ 53" using assms(1) by (simp add: wf_aimd_def word_le_nat_alt)
  then have "min (min_limit c) (max_limit c) \<le> reward c (min_limit c)"
    using assms(1) by (intro reward_ge) (simp_all add: wf_aimd_def)
  also have "\<dots> \<le> reward c x" using assms by (intro reward_mono) (simp_all add: wf_aimd_def)
  finally show ?thesis using assms(1) by (simp add: wf_aimd_def min_def)
qed

lemma word_lt3_cases: "(x :: u64) < 3 \<Longrightarrow> x + 1 < 3 \<or> x + 1 = 3"
  by unat_arith

lemma maybe_reset_minute_inv: "tracker_inv t \<Longrightarrow> tracker_inv (maybe_reset_minute now t)"
  by (simp add: tracker_inv_def maybe_reset_minute_def)

lemma expand_inv: "tracker_inv t \<Longrightarrow> tracker_inv (expand_limit_inner now t)"
  by (simp add: tracker_inv_def expand_limit_inner_def Let_def reward_ge_min)

lemma record_429_inv: "tracker_inv t \<Longrightarrow> tracker_inv (record_429 now t)"
  by (auto simp: tracker_inv_def record_429_def Let_def maybe_reset_minute_def penalize_ge_min)

lemma expand_inv_streak:
  "tracker_inv t \<Longrightarrow>
   tracker_inv ((expand_limit_inner now (t\<lparr>requests_this_minute := n, consecutive_above_threshold := k\<rparr>))
     \<lparr>consecutive_above_threshold := 0\<rparr>)"
  by (simp add: tracker_inv_def expand_limit_inner_def Let_def reward_ge_min)

lemma record_success_inv:
  assumes "tracker_inv t"
  shows "tracker_inv (record_success now t)"
proof -
  let ?t = "maybe_reset_minute now t"
  have t: "tracker_inv ?t" using assms by (rule maybe_reset_minute_inv)
  show ?thesis
  proof (cases "3 \<le> consecutive_above_threshold ?t + 1")
    case True
    with t show ?thesis
      by (auto simp: record_success_def Let_def intro: expand_inv_streak) (simp add: tracker_inv_def)
  next
    case False
    with t show ?thesis by (auto simp: record_success_def Let_def tracker_inv_def not_le)
  qed
qed

lemma streak_reset_inv: "tracker_inv t \<Longrightarrow> tracker_inv (t\<lparr>consecutive_above_threshold := 0\<rparr>)"
  by (simp add: tracker_inv_def)

lemma record_error_inv: "tracker_inv t \<Longrightarrow> tracker_inv (record_error now code t)"
  by (simp add: record_error_def Let_def record_429_inv streak_reset_inv)

lemma usage_ratio_inv: "tracker_inv t \<Longrightarrow> tracker_inv (snd (usage_ratio now t))"
  by (simp add: usage_ratio_def Let_def maybe_reset_minute_inv)

lemmas aimd_op_invs = record_success_inv record_error_inv record_429_inv expand_inv usage_ratio_inv

lemma aimd_step_inv: "tracker_inv t \<Longrightarrow> tracker_inv (aimd_step ev t)"
  by (cases "(ev, t)" rule: aimd_step.cases) (simp_all add: aimd_op_invs force_expand_def)

lemma aimd_run_inv: "tracker_inv t \<Longrightarrow> tracker_inv (aimd_run evs t)"
  by (induction evs arbitrary: t) (simp_all add: aimd_run_def aimd_step_inv)

lemma tracker_new_inv: "wf_aimd c \<Longrightarrow> tracker_inv (tracker_new now margin c)"
  by (auto simp: tracker_inv_def tracker_new_def Let_def wf_aimd_def min_def max_def)

lemma from_persisted_inv: "wf_aimd c \<Longrightarrow> tracker_inv (from_persisted now l ceil age margin c)"
  by (auto simp: tracker_inv_def from_persisted_def tracker_new_def effective_limit_def Let_def
      wf_aimd_def min_def max_def)

lemma wf_default_aimd: "wf_aimd default_aimd"
  using default_additive by (simp add: wf_aimd_def)

lemma should_allow_exact:
  assumes "requests_this_minute t \<le> 2 ^ 53" and "working_threshold t \<le> 2 ^ 53"
  shows "usage_of t < 1 \<longleftrightarrow> working_threshold t = 0 \<or> requests_this_minute t < working_threshold t"
proof (cases "working_threshold t = 0")
  case True
  then show ?thesis by (simp add: usage_of_def)
next
  case False
  let ?u = "unat (requests_this_minute t)" and ?w = "unat (working_threshold t)"
  have bounds: "?u \<le> 2 ^ 53" "?w \<le> 2 ^ 53" "0 < ?w"
    using assms False by (simp_all add: word_le_nat_alt unat_gt_0)
  then have f: "f64_of (requests_this_minute t) = of_nat ?u" "f64_of (working_threshold t) = of_nat ?w"
    by (simp_all add: f64_of_exact)
  have eq: "usage_of t = rnd64 (of_nat ?u / of_nat ?w)" using False f by (simp add: usage_of_def)
  show ?thesis
  proof (cases "?u < ?w")
    case True
    have w: "(of_nat ?w :: rat) \<le> 2 ^ 53" using bounds(2) by (metis of_nat_le_iff of_nat_numeral of_nat_power)
    have "(of_nat ?u :: rat) \<le> of_nat ?w - 1" using True by (simp flip: of_nat_Suc)
    then have "of_nat ?u / of_nat ?w \<le> (of_nat ?w - 1) / (of_nat ?w :: rat)"
      using bounds(3) by (simp add: divide_right_mono)
    also have "\<dots> = 1 - 1 / of_nat ?w" using bounds(3) by (simp add: field_simps)
    also have "\<dots> \<le> 1 - 1 / 2 ^ 53"
      using w bounds(3) by (intro diff_left_mono divide_left_mono) simp_all
    also have "\<dots> = of_int (2 ^ 53 - 1) * pow2 (- 53)" by (simp add: power_int_def power_divide)
    finally have "of_nat ?u / of_nat ?w \<le> of_int (2 ^ 53 - 1) * pow2 (- 53)" .
    then have "rnd64 (of_nat ?u / of_nat ?w) \<le> of_int (2 ^ 53 - 1) * pow2 (- 53)"
      by (intro f64.upper f64.exact) simp_all
    also have "\<dots> < 1" by (simp add: power_int_def power_divide)
    finally show ?thesis using True eq by (simp add: word_less_nat_alt)
  next
    case ge: False
    then have "(1 :: rat) \<le> of_nat ?u / of_nat ?w"
      using bounds(3) by (simp add: le_divide_eq_1)
    then have "1 \<le> rnd64 (of_nat ?u / of_nat ?w)" by (rule f64.lower [OF f64.one])
    then show ?thesis using ge False eq by (simp add: word_less_nat_alt)
  qed
qed

lemma from_usage_ratio_thresholds:
  "is_fire_and_forget (from_usage_ratio r) \<longleftrightarrow> rnd64 (70 / 100) \<le> r \<and> r < rnd64 (85 / 100)"
  "needs_secondary (from_usage_ratio r) \<longleftrightarrow> rnd64 (85 / 100) \<le> r"
proof -
  have m: "rnd64 (70 / 100) \<le> rnd64 (85 / 100)" "rnd64 (85 / 100) \<le> rnd64 (95 / 100)"
    by (intro f64.mono; simp)+
  show "is_fire_and_forget (from_usage_ratio r) \<longleftrightarrow> rnd64 (70 / 100) \<le> r \<and> r < rnd64 (85 / 100)"
    unfolding from_usage_ratio_def is_fire_and_forget_def by auto
  show "needs_secondary (from_usage_ratio r) \<longleftrightarrow> rnd64 (85 / 100) \<le> r"
    using m unfolding from_usage_ratio_def needs_secondary_def by auto
qed

section \<open>A streak of successes above the threshold\<close>

lemma record_success_above:
  assumes "\<not> secs 60 \<le> elapsed now (minute_started_at t)"
    and "working_threshold t < requests_this_minute t + 1"
    and "consecutive_above_threshold t < 2"
  shows "record_success now t =
    t\<lparr>requests_this_minute := requests_this_minute t + 1,
      consecutive_above_threshold := consecutive_above_threshold t + 1\<rparr>"
proof -
  have "\<not> 3 \<le> consecutive_above_threshold t + 1" using assms(3) by unat_arith
  with assms show ?thesis by (simp add: record_success_def maybe_reset_minute_def Let_def)
qed

lemma record_success_third:
  assumes "\<not> secs 60 \<le> elapsed now (minute_started_at t)"
    and "working_threshold t < requests_this_minute t + 1"
    and "consecutive_above_threshold t = 2"
  shows "record_success now t =
    (expand_limit_inner now (t\<lparr>requests_this_minute := requests_this_minute t + 1\<rparr>))
      \<lparr>consecutive_above_threshold := 0\<rparr>"
  using assms by (simp add: record_success_def maybe_reset_minute_def expand_limit_inner_def Let_def)

lemma word_below_incr:
  assumes "w \<le> q" and "unat q + 3 < 2 ^ 64"
  shows "w < q + 1" "w < 2 + q" "w < 3 + (q :: u64)"
  using assms by (simp_all add: word_le_nat_alt word_less_nat_alt unat_word_ariths)

section \<open>Properties\<close>

text \<open>
  Note: the default controller makes progress in both directions and stays in its range: a
  limit between 10 and 999 is raised by at least one and never above 1000, and a limit above 10 is
  lowered, but not below 10.
\<close>
theorem default_controller_progress:
  assumes "10 \<le> x" and "x < 1000" and "10 < y" and "y \<le> 2 ^ 53"
  shows "x < reward default_aimd x \<and> reward default_aimd x \<le> 1000
       \<and> 10 \<le> penalize default_aimd y \<and> penalize default_aimd y < y"
  using assms default_reward_progress [of x] default_penalize_decreases [of y]
    reward_le_max [of default_aimd x] penalize_ge_min [of default_aimd y]
  by (simp add: word_le_nat_alt)

theorem default_controller_progress_witness:
  "(10 :: u64) < reward default_aimd 10 \<and> reward default_aimd 10 \<le> 1000
   \<and> 10 \<le> penalize default_aimd 1000 \<and> penalize default_aimd 1000 < 1000"
  using default_controller_progress [of 10 1000] by simp

text \<open>
  Note: recovery terminates: from any limit between 10 and 1000, at most \<open>1000 - limit\<close>
  rewards in a row bring the default controller's limit to exactly 1000, where it stays.
\<close>
theorem default_recovery_terminates:
  assumes "10 \<le> x" and "x \<le> 1000" and "1000 - unat x \<le> n"
  shows "(reward default_aimd ^^ n) x = 1000"
proof -
  have "unat ((reward default_aimd ^^ n) x) = 1000"
    using default_reward_iterate [OF assms(1,2), of n] assms(3) by (auto simp: min_def split: if_splits)
  then show ?thesis by (simp add: word_unat_eq_iff)
qed

theorem default_recovery_terminates_witness: "(reward default_aimd ^^ 990) 10 = (1000 :: u64)"
  using default_recovery_terminates [of 10 990] by simp

text \<open>
  Note: in every run of a tracker, created fresh or restored from storage, the working
  threshold is the one of the current limit, the limit is at least the configured minimum, and
  fewer than three successes above the threshold are pending.
\<close>
theorem tracker_run_invariant:
  assumes "wf_aimd c"
  shows "tracker_inv (aimd_run evs (tracker_new now margin c))
       \<and> tracker_inv (aimd_run evs (from_persisted now l ceil age margin c))"
  using assms by (simp_all add: aimd_run_inv tracker_new_inv from_persisted_inv)

theorem tracker_run_invariant_witness:
  "tracker_inv (aimd_run [(1, Success), (2, Hit429), (secs 61, Status 500)]
     (tracker_new 0 (rnd64 (85 / 100)) default_aimd))"
  using tracker_run_invariant [OF wf_default_aimd] by blast

text \<open>
  Note: three successes above the working threshold within one minute, and no fewer, expand
  the limit once: the first two only count, the third applies the controller's reward, raises the
  ceiling to the new limit at least, and starts a new streak.
\<close>
theorem three_successes_expand:
  assumes "consecutive_above_threshold t = 0"
    and "working_threshold t \<le> requests_this_minute t"
    and "unat (requests_this_minute t) + 3 < 2 ^ 64"
    and "\<not> secs 60 \<le> elapsed now (minute_started_at t)"
  shows "confirmed_limit (aimd_run [(now, Success), (now, Success)] t) = confirmed_limit t
       \<and> confirmed_limit (aimd_run [(now, Success), (now, Success), (now, Success)] t)
           = reward (aimd t) (confirmed_limit t)
       \<and> ceiling (aimd_run [(now, Success), (now, Success), (now, Success)] t)
           = max (ceiling t) (reward (aimd t) (confirmed_limit t))
       \<and> consecutive_above_threshold (aimd_run [(now, Success), (now, Success), (now, Success)] t) = 0"
proof -
  note b = word_below_incr [OF assms(2,3)]
  have s1: "record_success now t = t\<lparr>requests_this_minute := requests_this_minute t + 1,
      consecutive_above_threshold := 1\<rparr>" (is "_ = ?t1")
    using record_success_above [OF assms(4)] b(1) assms(1) by simp
  have s2: "record_success now ?t1 = ?t1\<lparr>requests_this_minute := 2 + requests_this_minute t,
      consecutive_above_threshold := 2\<rparr>" (is "_ = ?t2")
    using record_success_above [of now ?t1] b(2) assms(4) by simp
  have s3: "record_success now ?t2 =
      (expand_limit_inner now (?t2\<lparr>requests_this_minute := 3 + requests_this_minute t\<rparr>))
        \<lparr>consecutive_above_threshold := 0\<rparr>"
    using record_success_third [of now ?t2] b(3) assms(4) by simp
  have two: "aimd_run [(now, Success), (now, Success)] t = ?t2"
    by (simp only: aimd_run_def fold.simps aimd_step.simps comp_apply id_apply s1 s2)
  have three: "aimd_run [(now, Success), (now, Success), (now, Success)] t =
      (expand_limit_inner now (?t2\<lparr>requests_this_minute := 3 + requests_this_minute t\<rparr>))
        \<lparr>consecutive_above_threshold := 0\<rparr>"
    by (simp only: aimd_run_def fold.simps aimd_step.simps comp_apply id_apply s1 s2 s3)
  show ?thesis by (simp add: two three) (simp add: expand_limit_inner_def Let_def)
qed

definition busy_tracker :: tracker where
  "busy_tracker = (tracker_new 0 1 default_aimd)\<lparr>requests_this_minute := 20\<rparr>"

theorem three_successes_expand_witness:
  "confirmed_limit (aimd_run [(5, Success), (5, Success), (5, Success)] busy_tracker)
     = reward default_aimd 15"
proof -
  have t: "threshold_of 1 15 = 15"
    by (simp add: threshold_of_def f64_of_exact f64.of_nat [of 15, simplified] trunc_to_def)
  show ?thesis
    using three_successes_expand [of busy_tracker 5]
    by (simp add: busy_tracker_def tracker_new_def Let_def t elapsed_def secs_def)
qed

text \<open>
  Note: the admission test compares counters exactly despite the floating-point quotient: a
  request is allowed when the account's threshold is zero or it has made fewer requests this minute
  than the threshold.
\<close>
theorem should_allow_iff:
  assumes "requests_this_minute t \<le> 2 ^ 53" and "working_threshold t \<le> 2 ^ 53"
    and "\<not> secs 60 \<le> elapsed now (minute_started_at t)"
  shows "fst (should_allow now t) \<longleftrightarrow>
    working_threshold t = 0 \<or> requests_this_minute t < working_threshold t"
  using should_allow_exact [OF assms(1,2)] assms(3)
  by (simp add: should_allow_def usage_ratio_def maybe_reset_minute_def Let_def)

theorem should_allow_iff_witness: "\<not> fst (should_allow 5 busy_tracker)"
proof -
  have t: "threshold_of 1 15 = 15"
    by (simp add: threshold_of_def f64_of_exact f64.of_nat [of 15, simplified] trunc_to_def)
  show ?thesis
    using should_allow_iff [of busy_tracker 5]
    by (simp add: busy_tracker_def tracker_new_def Let_def t elapsed_def secs_def)
qed

text \<open>
  Note: the penalty is bounded below only: after a burst of more requests than the limit, the new limit
  can lie above \<open>max_limit\<close>, and the next reward then lowers it.
\<close>

theorem penalty_above_max: "1000 < penalize default_aimd 10000 \<and> reward default_aimd (penalize default_aimd 10000) = 1000"
proof -
  have f: "f64_of (10000 :: u64) = 10000" by (simp add: f64_of_exact)
  have "rnd64 (10000 * (3152519739159347 / 4503599627370496)) = 7000"
    unfolding rnd64_def
    by (subst rnd_eval [where e = 12 and q = "- 40" and m = 7696581394432000])
      (simp_all add: power_int_def power_divide)
  then have p: "penalize default_aimd 10000 = 7000"
    by (simp add: penalize_def default_aimd_def lit_07 f ffloor_def trunc_to_def)
  have "reward default_aimd 1000 \<le> reward default_aimd 7000"
    using default_additive by (intro reward_mono) simp_all
  moreover have "reward default_aimd 1000 = 1000"
    using default_reward_range [of 1000] by auto
  ultimately have "reward default_aimd 7000 = 1000"
    using reward_le_max [of default_aimd 7000] by simp
  with p show ?thesis by simp
qed

end
