(* ===== verification/Circuit_Breaker.thy ===== *)
theory Circuit_Breaker
  imports Prelude
begin

text \<open>
  The per-account circuit breaker, \<open>crates/antigravity-core/src/proxy/common/circuit_breaker/\<close>:
  the types of \<open>state.rs\<close>, \<open>check\<close> and \<open>should_allow\<close> of \<open>mod.rs\<close>, and the recording
  operations of \<open>recording.rs\<close>. Every operation holds the write lock of the map for its whole
  body, so it is one step. \<open>persist_state_change\<close> only logs and has no effect on the state.
\<close>

section \<open>State\<close>

datatype circuit_state = Closed | Open | HalfOpen

record circuit_config =
  failure_threshold :: u32
  open_duration :: nanos
  success_threshold :: u32

definition default_circuit_config :: circuit_config where
  "default_circuit_config =
     \<lparr>failure_threshold = 5, open_duration = secs 60, success_threshold = 2\<rparr>"

record circuit =
  cstate :: circuit_state
  consecutive_failures :: u32
  consecutive_successes :: u32
  opened_at :: "nanos option"
  last_failure_reason :: "string option"
  half_open_probe_active :: bool

definition default_circuit :: circuit where
  "default_circuit = \<lparr>cstate = Closed, consecutive_failures = 0, consecutive_successes = 0,
     opened_at = None, last_failure_reason = None, half_open_probe_active = False\<rparr>"

record breaker =
  config :: circuit_config
  circuits :: "(string, circuit) table"
  trips :: u64

definition breaker_with_config :: "circuit_config \<Rightarrow> breaker" where
  "breaker_with_config cfg = \<lparr>config = cfg, circuits = [], trips = 0\<rparr>"

definition circuit_of :: "breaker \<Rightarrow> string \<Rightarrow> circuit" where
  "circuit_of b acc = (case tget (circuits b) acc of None \<Rightarrow> default_circuit | Some c \<Rightarrow> c)"

definition put_circuit :: "string \<Rightarrow> circuit \<Rightarrow> breaker \<Rightarrow> breaker" where
  "put_circuit acc c b = b\<lparr>circuits := tput acc c (circuits b)\<rparr>"

section \<open>Admission\<close>

definition probe_in_flight :: string where
  "probe_in_flight = ''Circuit half-open: probe already in flight''"

text \<open>\<open>check\<close>: \<open>Some reason\<close> is a refusal, \<open>None\<close> lets the request through.\<close>

definition check_circuit :: "circuit_config \<Rightarrow> nanos \<Rightarrow> circuit \<Rightarrow> string option \<times> circuit" where
  "check_circuit cfg now c =
     (case cstate c of
        Open \<Rightarrow>
          (case opened_at c of
             Some t \<Rightarrow>
               if open_duration cfg \<le> elapsed now t
               then (None, c\<lparr>cstate := HalfOpen, consecutive_successes := 0\<rparr>)
               else (last_failure_reason c, c)
           | None \<Rightarrow> (last_failure_reason c, c))
      | Closed \<Rightarrow> (None, c)
      | HalfOpen \<Rightarrow>
          if half_open_probe_active c then (Some probe_in_flight, c)
          else (None, c\<lparr>half_open_probe_active := True\<rparr>))"

definition check :: "nanos \<Rightarrow> string \<Rightarrow> breaker \<Rightarrow> string option \<times> breaker" where
  "check now acc b =
     (let (r, c) = check_circuit (config b) now (circuit_of b acc) in (r, put_circuit acc c b))"

text \<open>\<open>should_allow\<close>: \<open>Inl d\<close> refuses with a retry delay, \<open>Inr ()\<close> lets the request through.\<close>

definition should_allow_circuit ::
  "circuit_config \<Rightarrow> nanos \<Rightarrow> circuit \<Rightarrow> (nanos + unit) \<times> circuit" where
  "should_allow_circuit cfg now c =
     (case cstate c of
        Open \<Rightarrow>
          (case opened_at c of
             Some t \<Rightarrow>
               if open_duration cfg \<le> elapsed now t
               then (Inr (), c\<lparr>cstate := HalfOpen, consecutive_successes := 0\<rparr>)
               else (Inl (open_duration cfg - elapsed now t), c)
           | None \<Rightarrow> (Inl (open_duration cfg), c))
      | Closed \<Rightarrow> (Inr (), c)
      | HalfOpen \<Rightarrow>
          if half_open_probe_active c then (Inl (secs 1), c)
          else (Inr (), c\<lparr>half_open_probe_active := True\<rparr>))"

definition should_allow :: "nanos \<Rightarrow> string \<Rightarrow> breaker \<Rightarrow> (nanos + unit) \<times> breaker" where
  "should_allow now acc b =
     (let (r, c) = should_allow_circuit (config b) now (circuit_of b acc)
      in (r, put_circuit acc c b))"

section \<open>Recording outcomes\<close>

definition success_circuit :: "circuit_config \<Rightarrow> circuit \<Rightarrow> circuit" where
  "success_circuit cfg c =
     (case cstate c of
        Closed \<Rightarrow> c\<lparr>consecutive_failures := 0\<rparr>
      | HalfOpen \<Rightarrow>
          (let n = consecutive_successes c + 1;
               c1 = c\<lparr>consecutive_successes := n, half_open_probe_active := False\<rparr>
           in if success_threshold cfg \<le> n
              then c1\<lparr>cstate := Closed, consecutive_failures := 0, consecutive_successes := 0,
                      opened_at := None, last_failure_reason := None\<rparr>
              else c1)
      | Open \<Rightarrow> c)"

definition record_success :: "string \<Rightarrow> breaker \<Rightarrow> breaker" where
  "record_success acc b = put_circuit acc (success_circuit (config b) (circuit_of b acc)) b"

text \<open>The flag says whether the failure trips the circuit.\<close>

definition failure_circuit ::
  "circuit_config \<Rightarrow> nanos \<Rightarrow> string \<Rightarrow> circuit \<Rightarrow> bool \<times> circuit" where
  "failure_circuit cfg now reason c0 =
     (let c = c0\<lparr>consecutive_failures := consecutive_failures c0 + 1, consecutive_successes := 0,
                 last_failure_reason := Some reason\<rparr>
      in case cstate c of
           Closed \<Rightarrow>
             if failure_threshold cfg \<le> consecutive_failures c
             then (True, c\<lparr>cstate := Open, opened_at := Some now\<rparr>)
             else (False, c)
         | HalfOpen \<Rightarrow>
             (True, c\<lparr>half_open_probe_active := False, cstate := Open, opened_at := Some now\<rparr>)
         | Open \<Rightarrow> (False, c))"

definition record_failure :: "nanos \<Rightarrow> string \<Rightarrow> string \<Rightarrow> breaker \<Rightarrow> breaker" where
  "record_failure now acc reason b =
     (let (tripped, c) = failure_circuit (config b) now reason (circuit_of b acc);
          b1 = put_circuit acc c b
      in if tripped then b1\<lparr>trips := trips b1 + 1\<rparr> else b1)"

definition get_state :: "breaker \<Rightarrow> string \<Rightarrow> circuit_state" where
  "get_state b acc = (case tget (circuits b) acc of None \<Rightarrow> Closed | Some c \<Rightarrow> cstate c)"

definition total_trips :: "breaker \<Rightarrow> u64" where
  "total_trips b = trips b"

definition reset :: "string \<Rightarrow> breaker \<Rightarrow> breaker" where
  "reset acc b =
     (case tget (circuits b) acc of
        None \<Rightarrow> b
      | Some _ \<Rightarrow> put_circuit acc default_circuit b)"

record breaker_summary =
  closed_count :: nat
  open_count :: nat
  half_open_count :: nat
  summary_trips :: u64

definition get_summary :: "breaker \<Rightarrow> breaker_summary" where
  "get_summary b =
     fold (\<lambda>(_, c) s. case cstate c of
              Closed \<Rightarrow> s\<lparr>closed_count := closed_count s + 1\<rparr>
            | Open \<Rightarrow> s\<lparr>open_count := open_count s + 1\<rparr>
            | HalfOpen \<Rightarrow> s\<lparr>half_open_count := half_open_count s + 1\<rparr>)
       (circuits b)
       \<lparr>closed_count = 0, open_count = 0, half_open_count = 0, summary_trips = total_trips b\<rparr>"

section \<open>Calls and runs\<close>

datatype cb_call =
    Check nanos string
  | ShouldAllow nanos string
  | RecSuccess string
  | RecFailure nanos string string
  | Reset string

fun cb_key :: "cb_call \<Rightarrow> string" where
  "cb_key (Check _ acc) = acc"
| "cb_key (ShouldAllow _ acc) = acc"
| "cb_key (RecSuccess acc) = acc"
| "cb_key (RecFailure _ acc _) = acc"
| "cb_key (Reset acc) = acc"

fun cb_step :: "cb_call \<Rightarrow> breaker \<Rightarrow> breaker" where
  "cb_step (Check now acc) b = snd (check now acc b)"
| "cb_step (ShouldAllow now acc) b = snd (should_allow now acc b)"
| "cb_step (RecSuccess acc) b = record_success acc b"
| "cb_step (RecFailure now acc reason) b = record_failure now acc reason b"
| "cb_step (Reset acc) b = reset acc b"

definition cb_run :: "cb_call list \<Rightarrow> breaker \<Rightarrow> breaker" where
  "cb_run cs b = fold cb_step cs b"

text \<open>The effect of a call on the circuit of its own account.\<close>

fun circuit_step :: "cb_call \<Rightarrow> circuit_config \<times> circuit \<Rightarrow> circuit_config \<times> circuit" where
  "circuit_step (Check now _) (cfg, c) = (cfg, snd (check_circuit cfg now c))"
| "circuit_step (ShouldAllow now _) (cfg, c) = (cfg, snd (should_allow_circuit cfg now c))"
| "circuit_step (RecSuccess _) (cfg, c) = (cfg, success_circuit cfg c)"
| "circuit_step (RecFailure now _ reason) (cfg, c) = (cfg, snd (failure_circuit cfg now reason c))"
| "circuit_step (Reset _) (cfg, c) = (cfg, default_circuit)"

lemma circuit_of_put [simp]:
  "circuit_of (put_circuit acc c b) acc' = (if acc' = acc then c else circuit_of b acc')"
  by (simp add: circuit_of_def put_circuit_def)

lemma config_put [simp]: "config (put_circuit acc c b) = config b"
  by (simp add: put_circuit_def)

lemma circuit_of_trips [simp]: "circuit_of (b\<lparr>trips := n\<rparr>) acc = circuit_of b acc"
  by (simp add: circuit_of_def)

lemma circuit_of_reset: "circuit_of (reset acc b) acc' = (if acc' = acc then default_circuit else circuit_of b acc')"
  by (simp add: reset_def split: option.splits) (auto simp: circuit_of_def)

lemma config_step [simp]: "config (cb_step e b) = config b"
  by (cases "(e, b)" rule: cb_step.cases)
    (simp_all add: check_def should_allow_def record_success_def record_failure_def reset_def Let_def
      split: prod.splits option.splits)

lemma circuit_of_step:
  "circuit_of (cb_step e b) acc =
     (if cb_key e = acc then snd (circuit_step e (config b, circuit_of b acc)) else circuit_of b acc)"
  by (cases "(e, b)" rule: cb_step.cases)
    (auto simp: check_def should_allow_def record_success_def record_failure_def circuit_of_reset Let_def
      split: prod.splits)

definition cb_part :: "breaker \<Rightarrow> string \<Rightarrow> circuit_config \<times> circuit" where
  "cb_part b acc = (config b, circuit_of b acc)"

lemma fst_circuit_step [simp]: "fst (circuit_step e x) = fst x"
  by (cases "(e, x)" rule: circuit_step.cases) simp_all

interpretation cb: keyed_system cb_key cb_step cb_part circuit_step
proof
  fix e b acc
  show "cb_part (cb_step e b) acc = (if cb_key e = acc then circuit_step e (cb_part b acc) else cb_part b acc)"
    by (auto simp: cb_part_def circuit_of_step intro!: prod_eqI)
qed

section \<open>Invariant\<close>

definition wf_circuit_config :: "circuit_config \<Rightarrow> bool" where
  "wf_circuit_config cfg \<longleftrightarrow> 0 < failure_threshold cfg \<and> 0 < success_threshold cfg"

text \<open>What each state promises about the other fields.\<close>

definition circuit_inv :: "circuit_config \<Rightarrow> circuit \<Rightarrow> bool" where
  "circuit_inv cfg c =
     (case cstate c of
        Closed \<Rightarrow> consecutive_failures c < failure_threshold cfg \<and> consecutive_successes c = 0
          \<and> opened_at c = None \<and> \<not> half_open_probe_active c
      | Open \<Rightarrow> opened_at c \<noteq> None \<and> last_failure_reason c \<noteq> None \<and> consecutive_successes c = 0
          \<and> \<not> half_open_probe_active c
      | HalfOpen \<Rightarrow> opened_at c \<noteq> None \<and> last_failure_reason c \<noteq> None
          \<and> consecutive_successes c < success_threshold cfg)"

definition breaker_inv :: "breaker \<Rightarrow> bool" where
  "breaker_inv b \<longleftrightarrow> (\<forall>acc. circuit_inv (config b) (circuit_of b acc))"

lemma default_circuit_inv: "wf_circuit_config cfg \<Longrightarrow> circuit_inv cfg default_circuit"
  by (simp add: circuit_inv_def default_circuit_def wf_circuit_config_def)

lemma check_inv:
  "wf_circuit_config cfg \<Longrightarrow> circuit_inv cfg c \<Longrightarrow> circuit_inv cfg (snd (check_circuit cfg now c))"
  by (auto simp: circuit_inv_def check_circuit_def wf_circuit_config_def
      split: circuit_state.splits option.splits)

text \<open>The two admission operations agree: same verdict, same next state.\<close>

lemma should_allow_check:
  "snd (should_allow_circuit cfg now c) = snd (check_circuit cfg now c)"
  by (auto simp: should_allow_circuit_def check_circuit_def split: circuit_state.splits option.splits)

lemma success_inv:
  "wf_circuit_config cfg \<Longrightarrow> circuit_inv cfg c \<Longrightarrow> circuit_inv cfg (success_circuit cfg c)"
  by (auto simp: circuit_inv_def success_circuit_def wf_circuit_config_def Let_def not_le
      split: circuit_state.splits)

lemma failure_inv:
  "wf_circuit_config cfg \<Longrightarrow> circuit_inv cfg c \<Longrightarrow> circuit_inv cfg (snd (failure_circuit cfg now r c))"
  by (auto simp: circuit_inv_def failure_circuit_def Let_def not_le split: circuit_state.splits)

lemma circuit_step_inv:
  "wf_circuit_config (fst x) \<Longrightarrow> circuit_inv (fst x) (snd x) \<Longrightarrow>
   circuit_inv (fst x) (snd (circuit_step e x))"
  by (cases "(e, x)" rule: circuit_step.cases)
    (simp_all add: check_inv should_allow_check success_inv failure_inv default_circuit_inv)

lemma cb_run_inv:
  assumes "wf_circuit_config (config b)" and "breaker_inv b"
  shows "config (cb_run es b) = config b \<and> breaker_inv (cb_run es b)"
proof -
  let ?I = "\<lambda>x. fst x = config b \<and> circuit_inv (config b) (snd x)"
  have "?I (cb_part (fold cb_step es b) acc)" for acc
  proof (rule cb.part_invariant)
    show "?I (cb_part b acc)" using assms(2) by (simp add: cb_part_def breaker_inv_def)
    show "?I (circuit_step e x)" if "?I x" for e x
      using that assms(1) circuit_step_inv [of x e] by simp
  qed
  then show ?thesis by (auto simp: cb_part_def cb_run_def breaker_inv_def)
qed

section \<open>The abstract breaker\<close>

text \<open>
  The contract of one circuit as a three-state automaton that keeps only what matters in each
  state: the failures in a row while closed, the opening time while open, the successes in a row and
  the probe flag while half-open. Its counters are natural numbers: under the invariant the 32-bit
  counters of the code never wrap where they decide anything.
\<close>

datatype acircuit = AClosed nat | AOpen nanos | AHalf nat bool

definition abs_circuit :: "circuit \<Rightarrow> acircuit" where
  "abs_circuit c =
     (case cstate c of
        Closed \<Rightarrow> AClosed (unat (consecutive_failures c))
      | Open \<Rightarrow> AOpen (case opened_at c of None \<Rightarrow> 0 | Some t \<Rightarrow> t)
      | HalfOpen \<Rightarrow> AHalf (unat (consecutive_successes c)) (half_open_probe_active c))"

fun spec_admit :: "nanos \<Rightarrow> nanos \<Rightarrow> acircuit \<Rightarrow> bool \<times> acircuit" where
  "spec_admit dur now (AClosed n) = (True, AClosed n)"
| "spec_admit dur now (AOpen t) = (if dur \<le> now - t then (True, AHalf 0 False) else (False, AOpen t))"
| "spec_admit dur now (AHalf n p) = (\<not> p, AHalf n True)"

fun spec_success :: "nat \<Rightarrow> acircuit \<Rightarrow> acircuit" where
  "spec_success k (AClosed n) = AClosed 0"
| "spec_success k (AOpen t) = AOpen t"
| "spec_success k (AHalf n p) = (if k \<le> n + 1 then AClosed 0 else AHalf (n + 1) False)"

fun spec_failure :: "nat \<Rightarrow> nanos \<Rightarrow> acircuit \<Rightarrow> acircuit" where
  "spec_failure k now (AClosed n) = (if k \<le> n + 1 then AOpen now else AClosed (n + 1))"
| "spec_failure k now (AOpen t) = AOpen t"
| "spec_failure k now (AHalf n p) = AOpen now"

fun spec_step :: "circuit_config \<Rightarrow> cb_call \<Rightarrow> acircuit \<Rightarrow> acircuit" where
  "spec_step cfg (Check now _) a = snd (spec_admit (open_duration cfg) now a)"
| "spec_step cfg (ShouldAllow now _) a = snd (spec_admit (open_duration cfg) now a)"
| "spec_step cfg (RecSuccess _) a = spec_success (unat (success_threshold cfg)) a"
| "spec_step cfg (RecFailure now _ _) a = spec_failure (unat (failure_threshold cfg)) now a"
| "spec_step cfg (Reset _) a = AClosed 0"

lemma check_refines:
  assumes "circuit_inv cfg c"
  shows "abs_circuit (snd (check_circuit cfg now c)) = snd (spec_admit (open_duration cfg) now (abs_circuit c))"
    and "fst (check_circuit cfg now c) = None \<longleftrightarrow> fst (spec_admit (open_duration cfg) now (abs_circuit c))"
    and "isl (fst (should_allow_circuit cfg now c)) \<longleftrightarrow> fst (check_circuit cfg now c) \<noteq> None"
  using assms
  by (auto simp: abs_circuit_def check_circuit_def should_allow_circuit_def circuit_inv_def elapsed_def
      split: circuit_state.splits option.splits)

lemma success_refines:
  assumes "circuit_inv cfg c"
  shows "abs_circuit (success_circuit cfg c) = spec_success (unat (success_threshold cfg)) (abs_circuit c)"
proof (cases "cstate c")
  case HalfOpen
  with assms have "unat (consecutive_successes c + 1) = unat (consecutive_successes c) + 1"
    by (intro word_less_Suc [of _ "success_threshold cfg"]) (simp add: circuit_inv_def)
  with HalfOpen show ?thesis
    by (simp add: abs_circuit_def success_circuit_def Let_def word_le_nat_alt)
qed (simp_all add: abs_circuit_def success_circuit_def)

lemma failure_refines:
  assumes "circuit_inv cfg c"
  shows "abs_circuit (snd (failure_circuit cfg now r c)) =
    spec_failure (unat (failure_threshold cfg)) now (abs_circuit c)"
proof (cases "cstate c")
  case Closed
  with assms have "unat (consecutive_failures c + 1) = unat (consecutive_failures c) + 1"
    by (intro word_less_Suc [of _ "failure_threshold cfg"]) (simp add: circuit_inv_def)
  with Closed show ?thesis
    by (simp add: abs_circuit_def failure_circuit_def Let_def word_le_nat_alt)
qed (simp_all add: abs_circuit_def failure_circuit_def)

lemma abs_default [simp]: "abs_circuit default_circuit = AClosed 0"
  by (simp add: abs_circuit_def default_circuit_def)

lemma circuit_step_refines:
  "circuit_inv (fst x) (snd x) \<Longrightarrow>
   abs_circuit (snd (circuit_step e x)) = spec_step (fst x) e (abs_circuit (snd x))"
  by (cases "(e, x)" rule: circuit_step.cases)
    (simp_all add: check_refines(1) should_allow_check success_refines failure_refines abs_default)

lemma circuit_run_refines:
  assumes "wf_circuit_config (fst x)" and "circuit_inv (fst x) (snd x)"
  shows "abs_circuit (snd (fold circuit_step es x)) = fold (spec_step (fst x)) es (abs_circuit (snd x))"
  using assms
proof (induction es arbitrary: x)
  case Nil
  then show ?case by simp
next
  case (Cons e es)
  have "abs_circuit (snd (fold circuit_step es (circuit_step e x))) =
      fold (spec_step (fst x)) es (abs_circuit (snd (circuit_step e x)))"
    using Cons.IH [of "circuit_step e x"] Cons.prems circuit_step_inv [of x e] by simp
  then show ?case using Cons.prems by (simp add: circuit_step_refines)
qed

section \<open>An open circuit stays open\<close>

definition open_since :: "nanos \<Rightarrow> circuit \<Rightarrow> bool" where
  "open_since t0 c \<longleftrightarrow> cstate c = Open \<and> opened_at c = Some t0 \<and> last_failure_reason c \<noteq> None"

text \<open>The calls that can end the open phase early, or come after its end.\<close>

fun ends_open :: "nanos \<Rightarrow> cb_call \<Rightarrow> bool" where
  "ends_open limit (Check now _) \<longleftrightarrow> limit \<le> now"
| "ends_open limit (ShouldAllow now _) \<longleftrightarrow> limit \<le> now"
| "ends_open limit (Reset _) \<longleftrightarrow> True"
| "ends_open limit _ \<longleftrightarrow> False"

lemma open_since_step:
  "0 < open_duration (fst x) \<Longrightarrow> open_since t0 (snd x) \<Longrightarrow>
   \<not> ends_open (t0 + open_duration (fst x)) e \<Longrightarrow>
   open_since t0 (snd (circuit_step e x))"
  by (cases "(e, x)" rule: circuit_step.cases)
    (auto simp: open_since_def check_circuit_def should_allow_circuit_def success_circuit_def
      failure_circuit_def elapsed_def Let_def)

lemma open_since_run:
  assumes "0 < open_duration (config b)" and "open_since t0 (circuit_of b acc)"
    and "\<And>e. e \<in> set es \<Longrightarrow> cb_key e = acc \<Longrightarrow> \<not> ends_open (t0 + open_duration (config b)) e"
  shows "open_since t0 (circuit_of (cb_run es b) acc) \<and> config (cb_run es b) = config b"
proof -
  let ?I = "\<lambda>x. fst x = config b \<and> open_since t0 (snd x)"
  have "?I (cb_part (fold cb_step es b) acc)"
  proof (rule cb.part_invariant)
    show "?I (cb_part b acc)" using assms(2) by (simp add: cb_part_def)
    show "?I (circuit_step e x)" if "e \<in> set es" "cb_key e = acc" "?I x" for e x
      using that assms(1,3) open_since_step [of x t0 e] by simp
  qed
  then show ?thesis by (simp add: cb_part_def cb_run_def)
qed

section \<open>Recovery\<close>

lemma spec_success_iterate:
  "1 \<le> k \<Longrightarrow> (spec_success k ^^ n) (AHalf 0 p) =
     (if n < k then AHalf n (n = 0 \<and> p) else AClosed 0)"
  by (induction n) auto

lemma abs_closed: "abs_circuit c = AClosed n \<Longrightarrow> cstate c = Closed"
  by (simp add: abs_circuit_def split: circuit_state.splits)

lemma half_open_closes:
  assumes "wf_circuit_config cfg" and "circuit_inv cfg c"
    and "cstate c = HalfOpen" and "consecutive_successes c = 0"
  shows "cstate (snd (fold circuit_step (replicate (unat (success_threshold cfg)) (RecSuccess acc)) (cfg, c)))
    = Closed"
proof -
  let ?k = "unat (success_threshold cfg)"
  have k: "1 \<le> ?k" using assms(1) by (simp add: wf_circuit_config_def Suc_leI unat_gt_0 word_neq_0_conv)
  have "abs_circuit (snd (fold circuit_step (replicate ?k (RecSuccess acc)) (cfg, c))) =
      fold (spec_step cfg) (replicate ?k (RecSuccess acc)) (abs_circuit c)"
    using circuit_run_refines [of "(cfg, c)" "replicate ?k (RecSuccess acc)"] assms(1,2)
    by (simp only: fst_conv snd_conv)
  also have "abs_circuit c = AHalf 0 (half_open_probe_active c)"
    using assms(3,4) by (simp add: abs_circuit_def)
  also have "fold (spec_step cfg) (replicate ?k (RecSuccess acc)) (AHalf 0 (half_open_probe_active c))
      = AClosed 0"
  proof -
    have "spec_step cfg (RecSuccess acc) = spec_success ?k" by (rule ext) simp
    then show ?thesis using spec_success_iterate [OF k, of ?k] by simp
  qed
  finally show ?thesis by (rule abs_closed)
qed

section \<open>Summary\<close>

lemma summary_fold:
  fixes f
  defines "f \<equiv> \<lambda>(_ :: string, c) s. case cstate c of
              Closed \<Rightarrow> s\<lparr>closed_count := closed_count s + 1\<rparr>
            | Open \<Rightarrow> s\<lparr>open_count := open_count s + 1\<rparr>
            | HalfOpen \<Rightarrow> s\<lparr>half_open_count := half_open_count s + 1\<rparr>"
  shows "fold f cs s =
    s\<lparr>closed_count := closed_count s + length (filter (\<lambda>(_, c). cstate c = Closed) cs),
      open_count := open_count s + length (filter (\<lambda>(_, c). cstate c = Open) cs),
      half_open_count := half_open_count s + length (filter (\<lambda>(_, c). cstate c = HalfOpen) cs)\<rparr>"
  unfolding f_def by (induction cs arbitrary: s) (auto split: circuit_state.splits)

section \<open>Properties\<close>

text \<open>
  Claim C17: seen from any one account, every run of the breaker over any interleaving of calls on
  all accounts is the run of the abstract three-state automaton over that account's own calls, and
  the invariant tying each state to its counters, opening time, reason and probe flag holds
  throughout.
\<close>
theorem breaker_refines_spec:
  assumes "wf_circuit_config (config b)" and "breaker_inv b"
  shows "abs_circuit (circuit_of (cb_run es b) acc) =
           fold (spec_step (config b)) (filter (\<lambda>e. cb_key e = acc) es) (abs_circuit (circuit_of b acc))
       \<and> breaker_inv (cb_run es b)"
proof -
  have "cb_part (fold cb_step es b) acc = fold circuit_step (filter (\<lambda>e. cb_key e = acc) es) (cb_part b acc)"
    by (rule cb.part_run)
  then have "circuit_of (cb_run es b) acc =
      snd (fold circuit_step (filter (\<lambda>e. cb_key e = acc) es) (config b, circuit_of b acc))"
    by (metis cb_part_def cb_run_def snd_conv)
  moreover have "circuit_inv (config b) (circuit_of b acc)" using assms(2) by (simp add: breaker_inv_def)
  ultimately show ?thesis using circuit_run_refines [of "(config b, circuit_of b acc)"] assms cb_run_inv
    by simp
qed

lemma fresh_breaker_inv: "wf_circuit_config cfg \<Longrightarrow> breaker_inv (breaker_with_config cfg)"
  by (simp add: breaker_inv_def breaker_with_config_def circuit_of_def default_circuit_inv)

lemma wf_default_circuit_config: "wf_circuit_config default_circuit_config"
  by (simp add: wf_circuit_config_def default_circuit_config_def)

definition five_failures :: "cb_call list" where
  "five_failures = [RecFailure 100 ''a'' ''boom'', RecFailure 100 ''a'' ''boom'',
     RecFailure 100 ''a'' ''boom'', RecFailure 100 ''a'' ''boom'', RecFailure 100 ''a'' ''boom'']"

definition tripped_breaker :: breaker where
  "tripped_breaker = cb_run five_failures (breaker_with_config default_circuit_config)"

lemma failure_closed:
  "snd (failure_circuit default_circuit_config t r \<lparr>cstate = Closed, consecutive_failures = k,
     consecutive_successes = 0, opened_at = None, last_failure_reason = r0, half_open_probe_active = False\<rparr>) =
   (if 5 \<le> k + 1
    then \<lparr>cstate = Open, consecutive_failures = k + 1, consecutive_successes = 0, opened_at = Some t,
      last_failure_reason = Some r, half_open_probe_active = False\<rparr>
    else \<lparr>cstate = Closed, consecutive_failures = k + 1, consecutive_successes = 0, opened_at = None,
      last_failure_reason = Some r, half_open_probe_active = False\<rparr>)"
  by (simp add: failure_circuit_def default_circuit_config_def Let_def)

lemma tripped_circuit: "cb_part tripped_breaker ''a'' = (default_circuit_config,
    \<lparr>cstate = Open, consecutive_failures = 5, consecutive_successes = 0, opened_at = Some 100,
      last_failure_reason = Some ''boom'', half_open_probe_active = False\<rparr>)"
proof -
  have fresh: "cb_part (breaker_with_config default_circuit_config) ''a'' = (default_circuit_config, default_circuit)"
    by (simp add: cb_part_def breaker_with_config_def circuit_of_def)
  have "cb_part tripped_breaker ''a'' = fold circuit_step (filter (\<lambda>e. cb_key e = ''a'') five_failures)
      (default_circuit_config, default_circuit)"
    unfolding tripped_breaker_def cb_run_def fresh [symmetric] by (rule cb.part_run)
  also have "filter (\<lambda>e. cb_key e = ''a'') five_failures = five_failures"
    by (simp add: five_failures_def)
  finally show ?thesis
    by (simp add: five_failures_def default_circuit_def failure_closed word_le_nat_alt)
qed

theorem breaker_refines_spec_witness:
  "abs_circuit (circuit_of tripped_breaker ''a'') = AOpen 100 \<and> breaker_inv tripped_breaker"
proof -
  have wf: "wf_circuit_config (config (breaker_with_config default_circuit_config))"
    by (simp add: breaker_with_config_def wf_default_circuit_config)
  have "breaker_inv tripped_breaker"
    unfolding tripped_breaker_def
    by (rule breaker_refines_spec [OF wf, THEN conjunct2]) (rule fresh_breaker_inv [OF wf_default_circuit_config])
  then show ?thesis using tripped_circuit by (simp add: cb_part_def abs_circuit_def)
qed

text \<open>
  Note: fail fast. Once an account's circuit is open, every admission check before the open
  phase has lasted \<open>open_duration\<close> is refused with a reason, and the retry delay reported is
  exactly the time that remains, whatever calls on this or other accounts are interleaved, manual
  resets of the account excepted.
\<close>
theorem open_circuit_fails_fast:
  assumes "0 < open_duration (config b)" and "open_since t0 (circuit_of b acc)"
    and "\<And>e. e \<in> set es \<Longrightarrow> cb_key e = acc \<Longrightarrow> \<not> ends_open (t0 + open_duration (config b)) e"
    and "now < t0 + open_duration (config b)" and "t0 \<le> now"
  shows "fst (check now acc (cb_run es b)) \<noteq> None
       \<and> fst (should_allow now acc (cb_run es b)) = Inl (t0 + open_duration (config b) - now)"
proof -
  have "open_since t0 (circuit_of (cb_run es b) acc)" "config (cb_run es b) = config b"
    using open_since_run [OF assms(1,2), of es] assms(3) by blast+
  then show ?thesis using assms(4,5)
    by (auto simp: check_def should_allow_def check_circuit_def should_allow_circuit_def open_since_def
        elapsed_def split: prod.splits)
qed

lemma tripped_config: "config tripped_breaker = default_circuit_config"
  and tripped_open: "open_since 100 (circuit_of tripped_breaker ''a'')"
  using tripped_circuit by (simp_all add: cb_part_def open_since_def)

lemma tripped_inv: "breaker_inv tripped_breaker"
  unfolding tripped_breaker_def
  by (rule cb_run_inv [THEN conjunct2])
    (simp_all add: fresh_breaker_inv wf_default_circuit_config, simp add: breaker_with_config_def
      wf_default_circuit_config)

theorem open_circuit_fails_fast_witness:
  "fst (check (secs 30) ''a'' (cb_run [RecSuccess ''a'', RecFailure 200 ''b'' ''x''] tripped_breaker)) \<noteq> None"
proof -
  have dur: "open_duration (config tripped_breaker) = secs 60"
    by (simp add: tripped_config default_circuit_config_def)
  show ?thesis
    by (rule open_circuit_fails_fast [of tripped_breaker 100, THEN conjunct1])
      (use dur tripped_open in \<open>auto simp: secs_def\<close>)
qed

text \<open>
  Claim C25: recovery. Once the open phase is over, the next check is admitted and puts the circuit
  half-open; then \<open>success_threshold\<close> recorded successes close it, while a single failure
  reopens it for another full phase starting at that failure.
\<close>
theorem half_open_recovery:
  assumes "wf_circuit_config (config b)" and "breaker_inv b"
    and "open_since t0 (circuit_of b acc)" and "t0 + open_duration (config b) \<le> now"
  shows "fst (check now acc b) = None
       \<and> get_state (snd (check now acc b)) acc = HalfOpen
       \<and> get_state (cb_run (replicate (unat (success_threshold (config b))) (RecSuccess acc))
            (snd (check now acc b))) acc = Closed
       \<and> open_since t (circuit_of (record_failure t acc reason (snd (check now acc b))) acc)"
proof -
  let ?b = "snd (check now acc b)"
  let ?c = "(circuit_of b acc)\<lparr>cstate := HalfOpen, consecutive_successes := 0\<rparr>"
  have chk: "check_circuit (config b) now (circuit_of b acc) = (None, ?c)"
  proof -
    have "open_duration (config b) \<le> now - t0" using assms(4) by linarith
    then show ?thesis using assms(3) by (auto simp: check_circuit_def open_since_def elapsed_def)
  qed
  then have b: "?b = put_circuit acc ?c b" "fst (check now acc b) = None" by (simp_all add: check_def)
  have gs: "get_state b' acc = cstate (circuit_of b' acc)" for b'
    by (simp add: get_state_def circuit_of_def default_circuit_def split: option.splits)
  have inv: "circuit_inv (config b) ?c"
    using check_inv [OF assms(1), of "circuit_of b acc" now] assms(2) chk by (simp add: breaker_inv_def)
  have "circuit_of (cb_run (replicate n (RecSuccess acc)) ?b) acc
      = snd (fold circuit_step (replicate n (RecSuccess acc)) (config b, ?c))" for n
    using cb.part_run [of "replicate n (RecSuccess acc)" ?b acc] b
    by (simp add: cb_part_def cb_run_def prod_eq_iff)
  then have closes: "cstate (circuit_of (cb_run (replicate (unat (success_threshold (config b)))
      (RecSuccess acc)) ?b) acc) = Closed"
    using half_open_closes [OF assms(1) inv, of acc] by simp
  have reopens: "open_since t (circuit_of (record_failure t acc reason ?b) acc)"
    by (simp add: b record_failure_def failure_circuit_def open_since_def Let_def)
  show ?thesis using closes reopens by (simp add: gs b)
qed

theorem half_open_recovery_witness:
  "get_state (cb_run [RecSuccess ''a'', RecSuccess ''a''] (snd (check (secs 70) ''a'' tripped_breaker))) ''a''
     = Closed"
proof -
  have "get_state (cb_run (replicate (unat (success_threshold (config tripped_breaker))) (RecSuccess ''a''))
     (snd (check (secs 70) ''a'' tripped_breaker))) ''a'' = Closed"
    by (rule half_open_recovery [of tripped_breaker 100, THEN conjunct2, THEN conjunct2, THEN conjunct1])
      (use tripped_inv tripped_open wf_default_circuit_config in
        \<open>auto simp: tripped_config default_circuit_config_def secs_def\<close>)
  moreover have "replicate (unat (success_threshold (config tripped_breaker))) (RecSuccess ''a'')
      = [RecSuccess ''a'', RecSuccess ''a'']"
  proof -
    have "unat (success_threshold (config tripped_breaker)) = 2"
      by (simp add: tripped_config default_circuit_config_def)
    then show ?thesis by (simp only: replicate_Suc numeral_2_eq_2 replicate_0)
  qed
  ultimately show ?thesis by simp
qed

text \<open>
  Note: the half-open phase admits two requests, not one: the check that ends the open phase
  lets its request through without marking a probe, so the next check of the account is admitted
  as the probe while the first request is still in flight; only the third is refused.
\<close>
theorem half_open_admits_two:
  assumes "breaker_inv b" and "open_since t0 (circuit_of b acc)" and "open_duration (config b) \<le> now - t0"
  shows "let (r1, b1) = check now acc b; (r2, b2) = check now acc b1; (r3, b3) = check now acc b2
         in r1 = None \<and> r2 = None \<and> half_open_probe_active (circuit_of b2 acc) \<and> r3 = Some probe_in_flight"
proof -
  have "circuit_inv (config b) (circuit_of b acc)" using assms(1) by (simp add: breaker_inv_def)
  with assms(2,3) show ?thesis
    by (auto simp: circuit_inv_def check_def check_circuit_def open_since_def elapsed_def Let_def
        split: prod.splits)
qed

theorem half_open_admits_two_witness:
  "let (r1, b1) = check (secs 70) ''a'' tripped_breaker; (r2, b2) = check (secs 70) ''a'' b1;
       (r3, b3) = check (secs 70) ''a'' b2
   in r1 = None \<and> r2 = None \<and> half_open_probe_active (circuit_of b2 ''a'') \<and> r3 = Some probe_in_flight"
proof -
  have "open_duration (config tripped_breaker) \<le> secs 70 - 100"
    by (simp add: tripped_config default_circuit_config_def secs_def)
  then show ?thesis by (rule half_open_admits_two [OF tripped_inv tripped_open])
qed

text \<open>
  Note: the trip counter counts exactly the transitions into the open state: a call adds one
  when its account's circuit was not open before and is open after, and adds nothing otherwise.
\<close>
theorem trips_count_openings:
  "total_trips (cb_step e b) = total_trips b +
     (if get_state b (cb_key e) \<noteq> Open \<and> get_state (cb_step e b) (cb_key e) = Open then 1 else 0)"
proof -
  have gs: "get_state b' acc = cstate (circuit_of b' acc)" for b' acc
    by (simp add: get_state_def circuit_of_def default_circuit_def split: option.splits)
  have tr: "trips (put_circuit acc c b) = trips b" for acc c by (simp add: put_circuit_def)
  have rs: "trips (reset acc b) = trips b" for acc by (simp add: reset_def tr split: option.splits)
  show ?thesis
    by (cases "(e, b)" rule: cb_step.cases)
      (auto simp: gs total_trips_def check_def should_allow_def record_success_def record_failure_def tr rs
        circuit_of_reset check_circuit_def should_allow_circuit_def success_circuit_def failure_circuit_def
        default_circuit_def Let_def split: circuit_state.splits option.splits prod.splits)
qed

text \<open>
  Note: the summary is a partition: every account with a circuit is counted in exactly one of
  the three states, each state's count being the number of circuits in it.
\<close>
theorem summary_partition:
  "closed_count (get_summary b) + open_count (get_summary b) + half_open_count (get_summary b)
     = length (circuits b)
   \<and> open_count (get_summary b) = length (filter (\<lambda>(_, c). cstate c = Open) (circuits b))
   \<and> summary_trips (get_summary b) = total_trips b"
proof -
  have "length (filter (\<lambda>(_, c). cstate c = Closed) cs) + length (filter (\<lambda>(_, c). cstate c = Open) cs)
      + length (filter (\<lambda>(_, c). cstate c = HalfOpen) cs) = length cs" for cs :: "(string \<times> circuit) list"
    by (induction cs) (auto split: circuit_state.splits intro: circuit_state.exhaust)
  then show ?thesis by (simp add: get_summary_def summary_fold)
qed

end
