(* ===== verification/Rust_Strings.thy ===== *)
theory Rust_Strings
  imports Floats
begin

text \<open>
  What the code uses of Rust's strings and of \<open>serde_json::Value\<close>. A string is the list of its
  UTF-8 bytes, so \<open>length\<close> is \<open>str::len\<close>. Trimming knows every encoding of a Unicode
  white-space character. Lowering maps the ASCII letters and the two other characters whose lower
  case contains an ASCII letter (the Kelvin sign and the dotted capital I); all other characters
  are left alone, and since they lower to characters outside ASCII, a comparison of a lowered string
  with an ASCII literal, which is all the code does with one, has the outcome it has in Rust.
\<close>

section \<open>Searching\<close>

fun starts_with :: "string \<Rightarrow> string \<Rightarrow> bool" where
  "starts_with _ [] = True"
| "starts_with [] (_ # _) = False"
| "starts_with (x # xs) (p # ps) = (x = p \<and> starts_with xs ps)"

definition ends_with :: "string \<Rightarrow> string \<Rightarrow> bool" where
  "ends_with s p = starts_with (rev s) (rev p)"

fun contains :: "string \<Rightarrow> string \<Rightarrow> bool" where
  "contains [] p = starts_with [] p"
| "contains (x # xs) p = (starts_with (x # xs) p \<or> contains xs p)"

text \<open>\<open>str::find\<close>: the byte index of the first occurrence.\<close>

fun find_from :: "nat \<Rightarrow> string \<Rightarrow> string \<Rightarrow> nat option" where
  "find_from i [] p = (if starts_with [] p then Some i else None)"
| "find_from i (x # xs) p = (if starts_with (x # xs) p then Some i else find_from (Suc i) xs p)"

definition str_find :: "string \<Rightarrow> string \<Rightarrow> nat option" where
  "str_find s p = find_from 0 s p"

lemma starts_with_iff: "starts_with s p \<longleftrightarrow> (\<exists>t. s = p @ t)"
  by (induction s p rule: starts_with.induct) auto

lemma starts_with_append [simp]: "starts_with (p @ t) p"
  by (auto simp: starts_with_iff)

lemma ends_with_iff: "ends_with s p \<longleftrightarrow> (\<exists>t. s = t @ p)"
  unfolding ends_with_def starts_with_iff by (metis rev_append rev_rev_ident)

lemma contains_iff: "contains s p \<longleftrightarrow> (\<exists>a b. s = a @ p @ b)"
proof (induction s)
  case Nil
  show ?case by (auto simp: starts_with_iff)
next
  case (Cons x xs)
  have "(\<exists>a b. x # xs = a @ p @ b) \<longleftrightarrow> (\<exists>b. x # xs = p @ b) \<or> (\<exists>a b. xs = a @ p @ b)"
    by (metis append_Cons append_Nil append_eq_Cons_conv)
  with Cons show ?case by (simp add: starts_with_iff)
qed

lemma contains_append_left: "contains s p \<Longrightarrow> contains (t @ s) p"
  by (auto simp: contains_iff) (metis append.assoc)

lemma contains_append_right: "contains s p \<Longrightarrow> contains (s @ t) p"
  unfolding contains_iff by (metis append.assoc)

lemma find_from_Some:
  "find_from i s p = Some j \<Longrightarrow> i \<le> j \<and> (\<exists>t. s = take (j - i) s @ p @ t) \<and> j - i \<le> length s"
proof (induction i s p rule: find_from.induct)
  case (1 i p)
  then show ?case by (auto simp: starts_with_iff split: if_splits)
next
  case (2 i x xs p)
  show ?case
  proof (cases "starts_with (x # xs) p")
    case True
    with 2 show ?thesis by (auto simp: starts_with_iff)
  next
    case False
    with 2 have "Suc i \<le> j \<and> (\<exists>t. xs = take (j - Suc i) xs @ p @ t) \<and> j - Suc i \<le> length xs" by simp
    then have j: "Suc i \<le> j" "j - Suc i \<le> length xs" and t: "\<exists>t. xs = take (j - Suc i) xs @ p @ t" by auto
    then have eq: "j - i = Suc (j - Suc i)" by simp
    from t j show ?thesis unfolding eq by auto
  qed
qed

lemma str_find_Some:
  "str_find s p = Some j \<Longrightarrow> \<exists>t. s = take j s @ p @ t \<and> j + length p \<le> length s"
proof -
  assume "str_find s p = Some j"
  then obtain t where t: "s = take j s @ p @ t" "j \<le> length s"
    using find_from_Some [of 0 s p j] by (auto simp: str_find_def)
  then have "length s = j + length p + length t" by (metis append.assoc length_append length_take min.absorb2)
  with t show ?thesis by auto
qed

lemma find_from_first:
  "find_from i s p = Some j \<Longrightarrow> i \<le> k \<Longrightarrow> k < j \<Longrightarrow> \<not> starts_with (drop (k - i) s) p"
proof (induction i s p rule: find_from.induct)
  case (2 i x xs p)
  then show ?case by (cases "k = i") (auto simp: drop_Cons' split: if_splits)
qed (auto split: if_splits)

lemma str_find_first: "str_find s p = Some j \<Longrightarrow> k < j \<Longrightarrow> \<not> starts_with (drop k s) p"
  using find_from_first [of 0 s p j k] by (simp add: str_find_def)

lemma find_from_contains: "find_from i s p = None \<longleftrightarrow> \<not> contains s p"
  by (induction i s p rule: find_from.induct) auto

lemma str_find_None: "str_find s p = None \<longleftrightarrow> \<not> contains s p"
  by (simp add: str_find_def find_from_contains)

lemma starts_with_long: "length p \<le> length s \<Longrightarrow> starts_with (s @ t) p = starts_with s p"
  by (auto simp: starts_with_iff append_eq_append_conv2)

lemma str_find_append: "str_find s p = Some j \<Longrightarrow> str_find (s @ t) p = Some j"
proof -
  have "find_from i s p = Some j \<Longrightarrow> find_from i (s @ t) p = Some j" for i
  proof (induction i s p rule: find_from.induct)
    case (1 i p)
    then show ?case by (cases t) (auto simp: starts_with_iff split: if_splits)
  next
    case (2 i x xs p)
    show ?case
    proof (cases "starts_with (x # xs) p")
      case True
      then have "starts_with ((x # xs) @ t) p" by (metis append.assoc starts_with_iff)
      with True 2 show ?thesis by simp
    next
      case False
      with 2 have f: "find_from (Suc i) xs p = Some j" by simp
      then have "length p \<le> length (x # xs)"
        using find_from_Some [OF f] by (metis append.assoc le_SucI length_Cons length_append le_add1 le_add2 order_trans)
      with False have "\<not> starts_with ((x # xs) @ t) p" using starts_with_long [of p "x # xs" t] by simp
      with False f 2 show ?thesis by simp
    qed
  qed
  then show "str_find s p = Some j \<Longrightarrow> str_find (s @ t) p = Some j" by (simp add: str_find_def)
qed

section \<open>Trimming\<close>

definition byte :: "nat \<Rightarrow> char" where
  "byte n = char_of n"

definition whitespaces :: "string list" where
  "whitespaces = map (map byte)
     ([[9], [10], [11], [12], [13], [32], [194, 133], [194, 160], [225, 154, 128]]
      @ map (\<lambda>k. [226, 128, 128 + k]) [0..<11]
      @ [[226, 128, 168], [226, 128, 169], [226, 128, 175], [226, 129, 159], [227, 128, 128]])"

function trim_start_ws :: "string list \<Rightarrow> string \<Rightarrow> string" where
  "trim_start_ws ws s =
     (case find (\<lambda>w. w \<noteq> [] \<and> starts_with s w) ws of
        None \<Rightarrow> s
      | Some w \<Rightarrow> trim_start_ws ws (drop (length w) s))"
  by pat_completeness auto
termination
proof (relation "measure (\<lambda>(ws, s). length s)")
  fix ws :: "string list" and s w
  assume "find (\<lambda>w. w \<noteq> [] \<and> starts_with s w) ws = Some w"
  then have "w \<noteq> []" "starts_with s w" by (auto simp: find_Some_iff)
  then have "length s - length w < length s" by (auto simp: starts_with_iff)
  then show "((ws, drop (length w) s), ws, s) \<in> measure (\<lambda>(ws, s). length s)" by auto
qed simp

declare trim_start_ws.simps [simp del]

lemma length_trim_start_ws: "length (trim_start_ws ws s) \<le> length s"
proof (induction ws s rule: trim_start_ws.induct)
  case (1 ws s)
  then show ?case
    by (subst trim_start_ws.simps) (fastforce split: option.split dest: order_trans)
qed

definition trim_start :: "string \<Rightarrow> string" where
  "trim_start s = trim_start_ws whitespaces s"

definition trim_end :: "string \<Rightarrow> string" where
  "trim_end s = rev (trim_start_ws (map rev whitespaces) (rev s))"

definition trim :: "string \<Rightarrow> string" where
  "trim s = trim_end (trim_start s)"

lemma length_trim: "length (trim s) \<le> length s"
proof -
  have "length (trim s) \<le> length (trim_start s)"
    using length_trim_start_ws [of "map rev whitespaces" "rev (trim_start s)"] by (simp add: trim_def trim_end_def)
  also have "\<dots> \<le> length s" by (simp add: trim_start_def length_trim_start_ws)
  finally show ?thesis .
qed

section \<open>Characters\<close>

text \<open>\<open>str::chars\<close> of a well-formed string: each lead byte with its continuation bytes.\<close>

definition is_continuation :: "char \<Rightarrow> bool" where
  "is_continuation c \<longleftrightarrow> 128 \<le> (of_char c :: nat) \<and> (of_char c :: nat) < 192"

function chars :: "string \<Rightarrow> string list" where
  "chars [] = []"
| "chars (c # cs) = (c # takeWhile is_continuation cs) # chars (dropWhile is_continuation cs)"
  by pat_completeness auto
termination
  by (relation "measure length") (auto simp: le_imp_less_Suc length_dropWhile_le)

lemma concat_chars: "concat (chars s) = s"
  by (induction s rule: chars.induct) auto

lemma length_chars_le: "length (chars s) \<le> length s"
proof (induction s rule: chars.induct)
  case (2 c cs)
  then show ?case using length_dropWhile_le [of is_continuation cs] by simp
qed simp

text \<open>\<open>str::is_char_boundary\<close> and \<open>str::floor_char_boundary\<close>\<close>

definition is_char_boundary :: "string \<Rightarrow> nat \<Rightarrow> bool" where
  "is_char_boundary s i \<longleftrightarrow> i = 0 \<or> i = length s \<or> (i < length s \<and> \<not> is_continuation (s ! i))"

fun floor_char_boundary :: "string \<Rightarrow> nat \<Rightarrow> nat" where
  "floor_char_boundary s 0 = 0"
| "floor_char_boundary s (Suc i) =
     (if length s \<le> Suc i then length s
      else if is_char_boundary s (Suc i) then Suc i else floor_char_boundary s i)"

lemma floor_char_boundary_le: "floor_char_boundary s i \<le> i"
  by (induction s i rule: floor_char_boundary.induct) auto

lemma floor_char_boundary_len: "floor_char_boundary s i \<le> length s"
  by (induction s i rule: floor_char_boundary.induct) auto

lemma floor_is_boundary: "is_char_boundary s (floor_char_boundary s i)"
  by (induction s i rule: floor_char_boundary.induct) (auto simp: is_char_boundary_def)

lemma takeWhile_block:
  assumes "b = [] \<or> \<not> P (hd b)"
  shows "takeWhile P (a @ b) = takeWhile P a \<and> dropWhile P (a @ b) = dropWhile P a @ b"
proof (induction a)
  case Nil
  with assms show ?case by (cases b) auto
qed simp

lemma chars_append:
  "b = [] \<or> \<not> is_continuation (hd b) \<Longrightarrow> chars (a @ b) = chars a @ chars b"
proof (induction a rule: chars.induct)
  case (2 c cs)
  with takeWhile_block [of b is_continuation cs] show ?case by simp
qed simp

lemma chars_take: "chars (concat (take n (chars s))) = take n (chars s)"
proof (induction s arbitrary: n rule: chars.induct)
  case (2 c cs)
  show ?case
  proof (cases n)
    case (Suc k)
    let ?d = "dropWhile is_continuation cs"
    have "concat (take k (chars ?d)) @ concat (drop k (chars ?d)) = ?d"
      by (metis append_take_drop_id concat_append concat_chars)
    then have "concat (take k (chars ?d)) = [] \<or> \<not> is_continuation (hd (concat (take k (chars ?d))))"
      by (metis hd_append2 hd_dropWhile append_is_Nil_conv)
    moreover have "dropWhile is_continuation (takeWhile is_continuation cs) = []"
      by (auto dest: set_takeWhileD)
    moreover note takeWhile_block [where P = is_continuation and a = "takeWhile is_continuation cs"
        and b = "concat (take k (chars ?d))"]
    ultimately have "takeWhile is_continuation (takeWhile is_continuation cs @ concat (take k (chars ?d))) = takeWhile is_continuation cs
        \<and> dropWhile is_continuation (takeWhile is_continuation cs @ concat (take k (chars ?d))) = concat (take k (chars ?d))"
      by (simp add: takeWhile_idem)
    with 2 [of k] Suc show ?thesis by simp
  qed simp
qed simp

section \<open>Lower case\<close>

definition ascii_lower :: "char \<Rightarrow> char" where
  "ascii_lower c = (let n = of_char c :: nat in if 65 \<le> n \<and> n \<le> 90 then char_of (n + 32) else c)"

function to_lowercase :: "string \<Rightarrow> string" where
  "to_lowercase s =
     (if starts_with s (map byte [226, 132, 170]) then CHR ''k'' # to_lowercase (drop 3 s)
      else if starts_with s (map byte [196, 176]) then CHR ''i'' # map byte [204, 135] @ to_lowercase (drop 2 s)
      else case s of [] \<Rightarrow> [] | c # cs \<Rightarrow> ascii_lower c # to_lowercase cs)"
  by pat_completeness auto
termination
  by (relation "measure length") (auto simp: starts_with_iff)

declare to_lowercase.simps [simp del]

definition is_ascii :: "string \<Rightarrow> bool" where
  "is_ascii s \<longleftrightarrow> (\<forall>c \<in> set s. of_char c < (128 :: nat))"

lemma byte_high: "128 \<le> n \<Longrightarrow> n < 256 \<Longrightarrow> of_char (byte n) = n"
  by (simp add: byte_def of_char_of)

lemma to_lowercase_ascii: "is_ascii s \<Longrightarrow> to_lowercase s = map ascii_lower s"
proof (induction s)
  case Nil
  then show ?case by (simp add: to_lowercase.simps)
next
  case (Cons c cs)
  then have "of_char c < (128 :: nat)" by (simp add: is_ascii_def)
  then have "c \<noteq> byte 226" "c \<noteq> byte 196" using byte_high [of 226] byte_high [of 196] by auto
  moreover have "is_ascii cs" using Cons.prems by (simp add: is_ascii_def)
  ultimately show ?case using Cons.IH by (simp add: to_lowercase.simps [of "c # cs"])
qed

lemma whitespace_bytes:
  "\<forall>w \<in> set whitespaces. w \<noteq> [] \<and> \<not> (33 \<le> (of_char (hd w) :: nat) \<and> (of_char (hd w) :: nat) < 128)
     \<and> \<not> (33 \<le> (of_char (last w) :: nat) \<and> (of_char (last w) :: nat) < 128)"
  by (auto simp: whitespaces_def byte_def of_char_of)

definition plain_char :: "char \<Rightarrow> bool" where
  "plain_char c \<longleftrightarrow> 33 \<le> (of_char c :: nat) \<and> (of_char c :: nat) < 128"

lemma trim_start_ws_id: "(\<And>w. w \<in> set ws \<Longrightarrow> w \<noteq> [] \<Longrightarrow> \<not> starts_with s w) \<Longrightarrow> trim_start_ws ws s = s"
proof -
  assume "\<And>w. w \<in> set ws \<Longrightarrow> w \<noteq> [] \<Longrightarrow> \<not> starts_with s w"
  then have "find (\<lambda>w. w \<noteq> [] \<and> starts_with s w) ws = None" by (auto simp: find_None_iff)
  then show ?thesis by (simp add: trim_start_ws.simps)
qed

lemma trim_start_plain:
  assumes "s \<noteq> []" and "plain_char (hd s)"
  shows "trim_start s = s"
proof -
  have "\<not> starts_with s w" if "w \<in> set whitespaces" for w
    using whitespace_bytes that assms(2) by (fastforce simp: starts_with_iff plain_char_def)
  then show ?thesis by (simp add: trim_start_def trim_start_ws_id)
qed

lemma trim_start_blank:
  assumes "plain_char c"
  shows "trim_start ('' '' @ c # s) = c # s"
proof -
  let ?P = "\<lambda>w. w \<noteq> [] \<and> starts_with ('' '' @ c # s) w"
  have b: "CHR '' '' = byte 32" by code_simp
  have blank: "w = '' ''" if "w \<in> set whitespaces" and "hd w = CHR '' ''" for w
    using that unfolding b by (auto simp: whitespaces_def byte_def)
  have "'' '' \<in> set whitespaces" unfolding b by (simp add: whitespaces_def)
  then have "find ?P whitespaces \<noteq> None" by (auto simp: find_None_iff starts_with_iff)
  then obtain w where w: "find ?P whitespaces = Some w" by blast
  then have "w \<in> set whitespaces" and "?P w" by (auto simp: find_Some_iff)
  then have "w = '' ''" by (intro blank) (auto simp: starts_with_iff Cons_eq_append_conv)
  with w have "trim_start_ws whitespaces ('' '' @ c # s) = trim_start_ws whitespaces (c # s)"
    by (subst trim_start_ws.simps) simp
  with trim_start_plain [of "c # s"] assms show ?thesis by (simp add: trim_start_def)
qed

text \<open>A string that begins and ends with a printable ASCII character is not trimmed.\<close>

lemma trim_plain:
  assumes "s \<noteq> []" and "plain_char (hd s)" and "plain_char (last s)"
  shows "trim s = s"
proof -
  have "trim_start s = s" using assms(1,2) by (rule trim_start_plain)
  moreover have "\<not> starts_with (rev s) (rev w)" if "w \<in> set whitespaces" for w
  proof
    assume "starts_with (rev s) (rev w)"
    then obtain t where "rev s = rev w @ t" by (auto simp: starts_with_iff)
    then have "s = rev t @ w" by (metis rev_append rev_rev_ident)
    with whitespace_bytes that assms(3) show False by (fastforce simp: plain_char_def)
  qed
  then have "trim_start_ws (map rev whitespaces) (rev s) = rev s" by (intro trim_start_ws_id) auto
  then have "trim_end s = s" by (simp add: trim_end_def)
  ultimately show ?thesis by (simp add: trim_def)
qed

section \<open>Well-formed UTF-8\<close>

text \<open>
  The first character of some bytes: whether it is well formed, and how many bytes it has or, if it is
  not, how many bytes \<open>from_utf8_lossy\<close> replaces at once.
\<close>

fun utf8_char :: "nat list \<Rightarrow> bool \<times> nat" where
  "utf8_char [] = (True, 1)"
| "utf8_char (a # rest) =
     (let cont = (\<lambda>i. i < length rest \<and> 128 \<le> rest ! i \<and> rest ! i \<le> 191);
          second = (\<lambda>lo hi. 0 < length rest \<and> lo \<le> rest ! 0 \<and> rest ! 0 \<le> hi)
      in if a < 128 then (True, 1)
         else if 194 \<le> a \<and> a \<le> 223 then if cont 0 then (True, 2) else (False, 1)
         else if 224 \<le> a \<and> a \<le> 239
         then if \<not> second (if a = 224 then 160 else 128) (if a = 237 then 159 else 191) then (False, 1)
              else if cont 1 then (True, 3) else (False, 2)
         else if 240 \<le> a \<and> a \<le> 244
         then if \<not> second (if a = 240 then 144 else 128) (if a = 244 then 143 else 191) then (False, 1)
              else if \<not> cont 1 then (False, 2) else if cont 2 then (True, 4) else (False, 3)
         else (False, 1))"

definition first_char :: "string \<Rightarrow> bool \<times> nat" where
  "first_char s = utf8_char (map of_char (take 4 s))"

lemma first_char_pos: "0 < snd (first_char s)"
  by (cases "map of_char (take 4 s) :: nat list") (simp_all add: first_char_def Let_def)

lemma drop_first_char: "s \<noteq> [] \<Longrightarrow> length (drop (snd (first_char s)) s) < length s"
  using first_char_pos [of s] by (cases s) simp_all

text \<open>\<open>str::from_utf8\<close> succeeds, and \<open>String::from_utf8_lossy\<close>\<close>

function valid_utf8 :: "string \<Rightarrow> bool" where
  "valid_utf8 s = (if s = [] then True else if fst (first_char s) then valid_utf8 (drop (snd (first_char s)) s) else False)"
  by pat_completeness auto

termination by (relation "measure length") (use drop_first_char in auto)

definition replacement_char :: string where "replacement_char = map byte [239, 191, 189]"

function utf8_lossy :: "string \<Rightarrow> string" where
  "utf8_lossy s =
     (if s = [] then []
      else (if fst (first_char s) then take (snd (first_char s)) s else replacement_char)
             @ utf8_lossy (drop (snd (first_char s)) s))"
  by pat_completeness auto

termination by (relation "measure length") (use drop_first_char in auto)

declare valid_utf8.simps [simp del] utf8_lossy.simps [simp del]

lemma utf8_lossy_valid: "valid_utf8 s \<Longrightarrow> utf8_lossy s = s"
proof (induction s rule: utf8_lossy.induct)
  case (1 s)
  then show ?case by (cases "s = []") (auto simp: utf8_lossy.simps [of s] utf8_lossy.simps [of "[]"] valid_utf8.simps [of s] split: if_splits)
qed

section \<open>Decimal integers\<close>

definition is_digit :: "char \<Rightarrow> bool" where
  "is_digit c \<longleftrightarrow> 48 \<le> (of_char c :: nat) \<and> (of_char c :: nat) \<le> 57"

definition digit_val :: "char \<Rightarrow> nat" where
  "digit_val c = of_char c - 48"

definition dec_val :: "string \<Rightarrow> nat" where
  "dec_val s = fold (\<lambda>c n. 10 * n + digit_val c) s 0"

text \<open>\<open>parse::<u64>\<close> and its kin: an optional plus sign, digits, and a bound.\<close>

definition parse_uint :: "nat \<Rightarrow> string \<Rightarrow> nat option" where
  "parse_uint bound s0 =
     (let s = (if starts_with s0 ''+'' then drop 1 s0 else s0)
      in if s \<noteq> [] \<and> list_all is_digit s \<and> dec_val s < bound then Some (dec_val s) else None)"

definition parse_u64 :: "string \<Rightarrow> u64 option" where
  "parse_u64 s = map_option of_nat (parse_uint (2 ^ 64) s)"

definition parse_u16 :: "string \<Rightarrow> u16 option" where
  "parse_u16 s = map_option of_nat (parse_uint (2 ^ 16) s)"

text \<open>Printing a number in decimal.\<close>

fun show_nat :: "nat \<Rightarrow> string" where
  "show_nat n = (if n < 10 then [byte (48 + n)] else show_nat (n div 10) @ [byte (48 + n mod 10)])"

declare show_nat.simps [simp del]

lemma digit_byte: "k < 10 \<Longrightarrow> is_digit (byte (48 + k)) \<and> digit_val (byte (48 + k)) = k"
  by (simp add: is_digit_def digit_val_def byte_def)

lemma dec_val_show_nat: "list_all is_digit (show_nat n) \<and> show_nat n \<noteq> [] \<and> dec_val (show_nat n) = n"
proof (induction n rule: show_nat.induct)
  case (1 n)
  show ?case
  proof (cases "n < 10")
    case True
    then show ?thesis by (simp add: show_nat.simps [of n] dec_val_def digit_byte)
  next
    case False
    with 1 have "list_all is_digit (show_nat (n div 10)) \<and> dec_val (show_nat (n div 10)) = n div 10" by blast
    with False show ?thesis
      by (simp add: show_nat.simps [of n] dec_val_def digit_byte)
  qed
qed

lemma parse_uint_bound: "parse_uint b s = Some n \<Longrightarrow> n < b"
  by (auto simp: parse_uint_def Let_def split: if_splits)

lemma length_show_nat: "n < 10 ^ Suc k \<Longrightarrow> length (show_nat n) \<le> Suc k"
proof (induction n arbitrary: k rule: show_nat.induct)
  case (1 n)
  show ?case
  proof (cases "n < 10")
    case False
    with 1(2) obtain j where j: "k = Suc j" by (cases k) auto
    with 1(2) have "n div 10 < 10 ^ Suc j" by (simp add: less_mult_imp_div_less mult.commute)
    with 1(1) False j show ?thesis by (simp add: show_nat.simps [of n])
  qed (simp add: show_nat.simps [of n])
qed

text \<open>
  \<open>parse::<f64>\<close> on what the duration patterns capture: digits with an optional fraction. The
  result is the correctly rounded decimal.
\<close>

definition parse_f64_decimal :: "string \<Rightarrow> rat option" where
  "parse_f64_decimal s =
     (let whole = takeWhile is_digit s; rest = dropWhile is_digit s
      in case rest of
           [] \<Rightarrow> if whole = [] then None else Some (rnd64 (of_nat (dec_val whole)))
         | c # fr \<Rightarrow>
             if c = CHR ''.'' \<and> list_all is_digit fr \<and> (whole \<noteq> [] \<or> fr \<noteq> [])
             then Some (rnd64 (of_nat (dec_val (whole @ fr)) / 10 ^ length fr))
             else None)"

section \<open>JSON values\<close>

text \<open>
  \<open>serde_json::Value\<close>. A number is an unsigned or a negative integer or a float; an object is a
  table (\<open>serde_json::Map\<close> is a \<open>BTreeMap\<close> here, no \<open>preserve_order\<close> feature). Parsing text into a
  value is \<open>serde_json\<close>'s and is a parameter where the code calls it.
\<close>

datatype jnum = PosInt u64 | NegInt int | JFloat rat

datatype json =
    JNull
  | JBool bool
  | JNum jnum
  | JStr string
  | JArr "json list"
  | JObj "(string \<times> json) list"

definition jget :: "string \<Rightarrow> json \<Rightarrow> json option" where
  "jget k v = (case v of JObj m \<Rightarrow> tget m k | _ \<Rightarrow> None)"

text \<open>Indexing a \<open>Value\<close> gives \<open>Null\<close> for an absent key; indexing a \<open>Map\<close> panics.\<close>

definition jindex :: "json \<Rightarrow> string \<Rightarrow> json" where
  "jindex v k = (case jget k v of None \<Rightarrow> JNull | Some x \<Rightarrow> x)"

definition map_index :: "(string \<times> json) list \<Rightarrow> string \<Rightarrow> panic + json" where
  "map_index m k = (case tget m k of None \<Rightarrow> Inl (MissingKey k) | Some x \<Rightarrow> Inr x)"

text \<open>
  \<open>value["key"] = x\<close>: a null becomes an object, an object gets or changes the key, and any other
  value panics. The last definition is \<open>Number::from\<close> of an \<open>i64\<close>.
\<close>

definition json_set :: "string \<Rightarrow> json \<Rightarrow> json \<Rightarrow> panic + json" where
  "json_set k x v =
     (case v of
        JObj m \<Rightarrow> Inr (JObj (tput k x m))
      | JNull \<Rightarrow> Inr (JObj [(k, x)])
      | _ \<Rightarrow> Inl NotAnObject)"

definition json_i64 :: "int \<Rightarrow> json" where
  "json_i64 i = JNum (if 0 \<le> i then PosInt (of_int i) else NegInt i)"

lemma as_i64_json_i64:
  assumes "i64_min \<le> i" and "i \<le> i64_max"
  shows "(case json_i64 i of JNum (PosInt n) \<Rightarrow> int (unat n) | JNum (NegInt j) \<Rightarrow> j | _ \<Rightarrow> 0) = i"
  using assms by (simp add: json_i64_def i64_max_def unsigned_of_int take_bit_int_eq_self)

definition as_str :: "json \<Rightarrow> string option" where
  "as_str v = (case v of JStr s \<Rightarrow> Some s | _ \<Rightarrow> None)"

definition as_bool :: "json \<Rightarrow> bool option" where
  "as_bool v = (case v of JBool b \<Rightarrow> Some b | _ \<Rightarrow> None)"

definition as_array :: "json \<Rightarrow> json list option" where
  "as_array v = (case v of JArr a \<Rightarrow> Some a | _ \<Rightarrow> None)"

definition as_object :: "json \<Rightarrow> (string \<times> json) list option" where
  "as_object v = (case v of JObj m \<Rightarrow> Some m | _ \<Rightarrow> None)"

definition as_u64 :: "json \<Rightarrow> u64 option" where
  "as_u64 v = (case v of JNum (PosInt n) \<Rightarrow> Some n | _ \<Rightarrow> None)"

definition as_i64 :: "json \<Rightarrow> int option" where
  "as_i64 v = (case v of
       JNum (PosInt n) \<Rightarrow> if unat n < 2 ^ 63 then Some (int (unat n)) else None
     | JNum (NegInt i) \<Rightarrow> Some i
     | _ \<Rightarrow> None)"

definition first_of :: "'a list \<Rightarrow> 'a option" where
  "first_of xs = (case xs of [] \<Rightarrow> None | x # _ \<Rightarrow> Some x)"

end
