(* ===== verification/Rate_Limit.thy ===== *)
theory Rate_Limit
  imports Rust_Strings
begin

text \<open>
  The rate limit tracker, \<open>crates/antigravity-core/src/proxy/rate_limit/\<close>: keys and records
  (\<open>rate_limit_info.rs\<close>), queries and clearing (\<open>tracker.rs\<close>), lockouts (\<open>lockout.rs\<close>), and the
  reading of upstream errors (\<open>parser.rs\<close>, \<open>error_parsing.rs\<close>).

  \<open>SystemTime::now()\<close> is the argument \<open>now\<close>, read once per call. What the code takes from other
  crates is the record \<open>parse_env\<close>: \<open>serde_json::from_str\<close>, the captures of the first match of
  a \<open>regex\<close> pattern, and the time stamp \<open>chrono\<close> reads from an RFC 3339 string.
\<close>

section \<open>Keys and records\<close>

datatype rate_limit_reason =
    QuotaExhausted | RateLimitExceeded | ModelCapacityExhausted | ServerError | UnknownReason

datatype rate_limit_key = AccountKey string | ModelKey string string

definition from_optional_model :: "string \<Rightarrow> string option \<Rightarrow> rate_limit_key" where
  "from_optional_model acc model =
     (case model of Some m \<Rightarrow> ModelKey acc m | None \<Rightarrow> AccountKey acc)"

fun key_account_id :: "rate_limit_key \<Rightarrow> string" where
  "key_account_id (AccountKey acc) = acc"
| "key_account_id (ModelKey acc _) = acc"

fun key_model_name :: "rate_limit_key \<Rightarrow> string option" where
  "key_model_name (AccountKey _) = None"
| "key_model_name (ModelKey _ m) = Some m"

fun key_display :: "rate_limit_key \<Rightarrow> string" where
  "key_display (AccountKey acc) = acc"
| "key_display (ModelKey acc m) = acc @ '':'' @ m"

record rate_limit_info =
  reset_time :: nanos
  retry_after_sec :: u64
  detected_at :: nanos
  rl_reason :: rate_limit_reason
  rl_model :: "string option"

record rate_limit_tracker =
  limits :: "(rate_limit_key, rate_limit_info) table"
  failure_counts :: "(rate_limit_key, u32 \<times> nanos) table"

definition new_tracker :: rate_limit_tracker where
  "new_tracker = \<lparr>limits = [], failure_counts = []\<rparr>"

definition tracker_wf :: "rate_limit_tracker \<Rightarrow> bool" where
  "tracker_wf tr \<longleftrightarrow> twf (limits tr) \<and> twf (failure_counts tr)
     \<and> (\<forall>(k, i) \<in> set (limits tr). as_secs (reset_time i) < 2 ^ 63)"

section \<open>Queries and clearing\<close>

definition duration_to_secs_ceil :: "nanos \<Rightarrow> u64" where
  "duration_to_secs_ceil d =
     (let s = of_nat (as_secs d) in if 0 < subsec_nanos d then s + 1 else s)"

text \<open>The seconds a record still blocks: what each query computes from one record.\<close>

definition info_wait :: "nanos \<Rightarrow> rate_limit_info option \<Rightarrow> u64" where
  "info_wait now i =
     (case i of
        None \<Rightarrow> 0
      | Some info \<Rightarrow>
          if now < reset_time info
          then duration_to_secs_ceil (case duration_since (reset_time info) now of None \<Rightarrow> 0 | Some d \<Rightarrow> d)
          else 0)"

definition info_live :: "nanos \<Rightarrow> rate_limit_info option \<Rightarrow> bool" where
  "info_live now i = (case i of None \<Rightarrow> False | Some info \<Rightarrow> now < reset_time info)"

definition get_remaining_wait :: "nanos \<Rightarrow> string \<Rightarrow> rate_limit_tracker \<Rightarrow> u64" where
  "get_remaining_wait now acc tr = info_wait now (tget (limits tr) (AccountKey acc))"

definition mark_success :: "string \<Rightarrow> rate_limit_tracker \<Rightarrow> rate_limit_tracker" where
  "mark_success acc tr =
     tr\<lparr>failure_counts := tdel (AccountKey acc) (failure_counts tr),
        limits := tdel (AccountKey acc) (limits tr)\<rparr>"

definition get :: "string \<Rightarrow> rate_limit_tracker \<Rightarrow> rate_limit_info option" where
  "get acc tr = tget (limits tr) (AccountKey acc)"

definition get_for_model :: "string \<Rightarrow> string \<Rightarrow> rate_limit_tracker \<Rightarrow> rate_limit_info option" where
  "get_for_model acc m tr = tget (limits tr) (ModelKey acc m)"

definition is_rate_limited :: "nanos \<Rightarrow> string \<Rightarrow> rate_limit_tracker \<Rightarrow> bool" where
  "is_rate_limited now acc tr = info_live now (get acc tr)"

definition is_rate_limited_for_model :: "nanos \<Rightarrow> string \<Rightarrow> string \<Rightarrow> rate_limit_tracker \<Rightarrow> bool" where
  "is_rate_limited_for_model now acc m tr =
     (if info_live now (tget (limits tr) (AccountKey acc)) then True
      else if info_live now (tget (limits tr) (ModelKey acc m)) then True
      else False)"

definition get_remaining_wait_for_model :: "nanos \<Rightarrow> string \<Rightarrow> string \<Rightarrow> rate_limit_tracker \<Rightarrow> u64" where
  "get_remaining_wait_for_model now acc m tr =
     (let w1 = max 0 (info_wait now (tget (limits tr) (AccountKey acc)))
      in max w1 (info_wait now (tget (limits tr) (ModelKey acc m))))"

definition mark_model_success :: "string \<Rightarrow> string \<Rightarrow> rate_limit_tracker \<Rightarrow> rate_limit_tracker" where
  "mark_model_success acc m tr =
     tr\<lparr>failure_counts := tdel (ModelKey acc m) (failure_counts tr),
        limits := tdel (ModelKey acc m) (limits tr)\<rparr>"

definition get_reset_seconds :: "nanos \<Rightarrow> string \<Rightarrow> rate_limit_tracker \<Rightarrow> nat option" where
  "get_reset_seconds now acc tr =
     (case get acc tr of
        None \<Rightarrow> None
      | Some info \<Rightarrow> map_option as_secs (duration_since (reset_time info) now))"

definition cleanup_expired :: "nanos \<Rightarrow> rate_limit_tracker \<Rightarrow> nat \<times> rate_limit_tracker" where
  "cleanup_expired now tr =
     (length (filter (\<lambda>(k, i). reset_time i \<le> now) (limits tr)),
      tr\<lparr>limits := tretain (\<lambda>_ i. \<not> reset_time i \<le> now) (limits tr)\<rparr>)"

definition clear :: "string \<Rightarrow> rate_limit_tracker \<Rightarrow> bool \<times> rate_limit_tracker" where
  "clear acc tr =
     (tget (limits tr) (AccountKey acc) \<noteq> None, tr\<lparr>limits := tdel (AccountKey acc) (limits tr)\<rparr>)"

definition clear_all :: "rate_limit_tracker \<Rightarrow> rate_limit_tracker" where
  "clear_all tr = tr\<lparr>limits := []\<rparr>"

section \<open>Lockouts\<close>

definition FAILURE_COUNT_EXPIRY_SECONDS :: nat where "FAILURE_COUNT_EXPIRY_SECONDS = 3600"
definition QUOTA_LOCKOUT_TIER_1 :: u64 where "QUOTA_LOCKOUT_TIER_1 = 60"
definition QUOTA_LOCKOUT_TIER_2 :: u64 where "QUOTA_LOCKOUT_TIER_2 = 300"
definition QUOTA_LOCKOUT_TIER_3 :: u64 where "QUOTA_LOCKOUT_TIER_3 = 1800"
definition QUOTA_LOCKOUT_TIER_4 :: u64 where "QUOTA_LOCKOUT_TIER_4 = 7200"
definition RATE_LIMIT_DEFAULT_SECONDS :: u64 where "RATE_LIMIT_DEFAULT_SECONDS = 5"

text \<open>
  The block the two lockouts and \<open>parse_from_error\<close> share: take the key's entry or \<open>(0, now)\<close>,
  forget a count older than an hour, and count this failure. \<open>SystemTime::duration_since\<close> is an
  error when the entry lies in the future, and then nothing is forgotten.
\<close>

definition bump_entry :: "nanos \<Rightarrow> (u32 \<times> nanos) option \<Rightarrow> u32 \<times> nanos" where
  "bump_entry now e =
     (let (n, t) = (case e of None \<Rightarrow> (0, now) | Some e \<Rightarrow> e);
          el = as_secs (case duration_since now t of None \<Rightarrow> 0 | Some d \<Rightarrow> d);
          (n, t) = (if FAILURE_COUNT_EXPIRY_SECONDS < el then (0, now) else (n, t))
      in (n + 1, now))"

definition bump_failure ::
  "nanos \<Rightarrow> rate_limit_key \<Rightarrow> rate_limit_tracker \<Rightarrow> u32 \<times> rate_limit_tracker" where
  "bump_failure now key tr =
     (let e = bump_entry now (tget (failure_counts tr) key)
      in (fst e, tr\<lparr>failure_counts := tput key e (failure_counts tr)\<rparr>))"

definition put_limit ::
  "rate_limit_key \<Rightarrow> rate_limit_info \<Rightarrow> rate_limit_tracker \<Rightarrow> rate_limit_tracker" where
  "put_limit key info tr = tr\<lparr>limits := tput key info (limits tr)\<rparr>"

definition lockout_secs_of :: "u32 \<Rightarrow> u64" where
  "lockout_secs_of failure_count =
     (if failure_count = 1 then 5 else if failure_count = 2 then 15 else if failure_count = 3 then 30 else 60)"

definition set_adaptive_temporary_lockout ::
  "nanos \<Rightarrow> string \<Rightarrow> rate_limit_tracker \<Rightarrow> panic + (u64 \<times> rate_limit_tracker)" where
  "set_adaptive_temporary_lockout now acc tr =
     (let key = AccountKey acc;
          (failure_count, tr) = bump_failure now key tr;
          lockout_secs = lockout_secs_of failure_count
      in case systime_add now (secs (unat lockout_secs)) of
           Inl p \<Rightarrow> Inl p
         | Inr t \<Rightarrow>
             Inr (lockout_secs,
                  put_limit key \<lparr>reset_time = t, retry_after_sec = lockout_secs, detected_at = now,
                                 rl_reason = UnknownReason, rl_model = None\<rparr> tr))"

definition set_adaptive_model_lockout ::
  "nanos \<Rightarrow> string \<Rightarrow> string \<Rightarrow> rate_limit_tracker \<Rightarrow> panic + (u64 \<times> rate_limit_tracker)" where
  "set_adaptive_model_lockout now acc m tr =
     (let key = ModelKey acc m;
          (failure_count, tr) = bump_failure now key tr;
          lockout_secs = lockout_secs_of failure_count
      in case systime_add now (secs (unat lockout_secs)) of
           Inl p \<Rightarrow> Inl p
         | Inr t \<Rightarrow>
             Inr (lockout_secs,
                  put_limit key \<lparr>reset_time = t, retry_after_sec = lockout_secs, detected_at = now,
                                 rl_reason = RateLimitExceeded, rl_model = Some m\<rparr> tr))"

text \<open>The retry seconds recorded with a reset time; a time in the past counts as a minute.\<close>

definition retry_secs_until :: "nanos \<Rightarrow> nanos \<Rightarrow> u64" where
  "retry_secs_until reset now =
     (case duration_since reset now of None \<Rightarrow> 60 | Some d \<Rightarrow> of_nat (as_secs d))"

definition set_lockout_until ::
  "nanos \<Rightarrow> string \<Rightarrow> nanos \<Rightarrow> rate_limit_reason \<Rightarrow> string option
   \<Rightarrow> rate_limit_tracker \<Rightarrow> rate_limit_tracker" where
  "set_lockout_until now acc reset reason model tr =
     put_limit (from_optional_model acc model)
       \<lparr>reset_time = reset, retry_after_sec = retry_secs_until reset now, detected_at = now,
        rl_reason = reason, rl_model = model\<rparr> tr"

definition set_model_lockout ::
  "nanos \<Rightarrow> string \<Rightarrow> string \<Rightarrow> nanos \<Rightarrow> rate_limit_reason
   \<Rightarrow> rate_limit_tracker \<Rightarrow> rate_limit_tracker" where
  "set_model_lockout now acc m reset reason tr =
     put_limit (ModelKey acc m)
       \<lparr>reset_time = reset, retry_after_sec = retry_secs_until reset now, detected_at = now,
        rl_reason = reason, rl_model = Some m\<rparr> tr"

section \<open>Reading an upstream error\<close>

text \<open>
  The six patterns of \<open>parser.rs\<close>, in its order: \<open>DURATION_REGEX\<close> with four optional groups (hours,
  minutes, seconds, milliseconds), \<open>RETRY_M_S_REGEX\<close> with two groups and the others with one.
\<close>

datatype regex = Duration_Regex | Retry_M_S_Regex | Retry_S_Regex | Quota_Reset_Regex
  | Retry_After_Regex | Wait_Paren_Regex

record parse_env =
  json_of :: "string \<Rightarrow> json option"                         \<comment> \<open>\<open>serde_json::from_str\<close>\<close>
  captures :: "regex \<Rightarrow> string \<Rightarrow> string option list option"  \<comment> \<open>groups 1, 2, ... of the first match\<close>
  rfc3339 :: "string \<Rightarrow> int option"                             \<comment> \<open>\<open>DateTime::timestamp\<close>\<close>
  read_error :: "string \<Rightarrow> string"                              \<comment> \<open>the system's text for an unreadable path\<close>
  json_error :: "string \<Rightarrow> string"                              \<comment> \<open>the parser's text for bad JSON\<close>

definition set_lockout_until_iso ::
  "parse_env \<Rightarrow> nanos \<Rightarrow> string \<Rightarrow> string \<Rightarrow> rate_limit_reason \<Rightarrow> string option
   \<Rightarrow> rate_limit_tracker \<Rightarrow> panic + (bool \<times> rate_limit_tracker)" where
  "set_lockout_until_iso env now acc reset_str reason model tr =
     (case rfc3339 env reset_str of
        None \<Rightarrow> Inr (False, tr)
      | Some ts \<Rightarrow>
          if ts < 0 then Inr (False, tr)
          else case systime_add 0 (secs (nat ts)) of
                 Inl p \<Rightarrow> Inl p
               | Inr reset \<Rightarrow> Inr (True, set_lockout_until now acc reset reason model tr))"

definition group :: "string option list \<Rightarrow> nat \<Rightarrow> string option" where
  "group caps i = (if i - 1 < length caps then caps ! (i - 1) else None)"

definition parse_or_0 :: "string option \<Rightarrow> u64" where
  "parse_or_0 g = (case Option.bind g parse_u64 of None \<Rightarrow> 0 | Some n \<Rightarrow> n)"

definition parse_f64_or_0 :: "string option \<Rightarrow> rat" where
  "parse_f64_or_0 g = (case Option.bind g parse_f64_decimal of None \<Rightarrow> 0 | Some x \<Rightarrow> x)"

definition parse_duration_string :: "parse_env \<Rightarrow> string \<Rightarrow> u64 option" where
  "parse_duration_string env s =
     (case captures env Duration_Regex s of
        None \<Rightarrow> None
      | Some caps \<Rightarrow>
          (let hours = parse_or_0 (group caps 1);
               minutes = parse_or_0 (group caps 2);
               seconds = parse_f64_or_0 (group caps 3);
               milliseconds = parse_f64_or_0 (group caps 4);
               any_matched = (group caps 1 \<noteq> None \<or> group caps 2 \<noteq> None
                              \<or> group caps 3 \<noteq> None \<or> group caps 4 \<noteq> None)
           in if \<not> any_matched then None
              else Some (hours * 3600 + minutes * 60 + trunc_to (fceil seconds)
                         + trunc_to (fceil (rnd64 (milliseconds / 1000))))))"

text \<open>One \<open>if let Some(caps) = \<dots>\<close> of the body parser with a single number.\<close>

definition capture_secs :: "parse_env \<Rightarrow> regex \<Rightarrow> string \<Rightarrow> u64 option" where
  "capture_secs env re body =
     (case captures env re body of None \<Rightarrow> None | Some caps \<Rightarrow> Option.bind (group caps 1) parse_u64)"

definition capture_min_secs :: "parse_env \<Rightarrow> string \<Rightarrow> u64 option" where
  "capture_min_secs env body =
     (case captures env Retry_M_S_Regex body of
        None \<Rightarrow> None
      | Some caps \<Rightarrow>
          (case (Option.bind (group caps 1) parse_u64, Option.bind (group caps 2) parse_u64) of
             (Some m, Some s) \<Rightarrow> Some (m * 60 + s)
           | _ \<Rightarrow> None))"

definition or_else :: "'a option \<Rightarrow> 'a option \<Rightarrow> 'a option" where
  "or_else a b = (case a of None \<Rightarrow> b | Some x \<Rightarrow> Some x)"

definition looks_like_json :: "string \<Rightarrow> bool" where
  "looks_like_json s \<longleftrightarrow> starts_with s ''{'' \<or> starts_with s ''[''"

definition error_detail :: "json \<Rightarrow> json option" where
  "error_detail j =
     Option.bind (jget ''error'' j) (\<lambda>e. Option.bind (jget ''details'' e) (\<lambda>d.
       Option.bind (as_array d) first_of))"

definition quota_reset_delay :: "json \<Rightarrow> string option" where
  "quota_reset_delay j =
     Option.bind (error_detail j) (\<lambda>d. Option.bind (jget ''metadata'' d) (\<lambda>m.
       Option.bind (jget ''quotaResetDelay'' m) as_str))"

definition json_retry_after :: "json \<Rightarrow> u64 option" where
  "json_retry_after j =
     Option.bind (jget ''error'' j) (\<lambda>e. Option.bind (jget ''retry_after'' e) as_u64)"

definition parse_retry_time_from_body :: "parse_env \<Rightarrow> string \<Rightarrow> u64 option" where
  "parse_retry_time_from_body env body =
     (let trimmed = trim body;
          from_json =
            (if looks_like_json trimmed then
               (case json_of env trimmed of
                  None \<Rightarrow> None
                | Some j \<Rightarrow>
                    or_else (Option.bind (quota_reset_delay j) (parse_duration_string env))
                            (json_retry_after j))
             else None)
      in or_else from_json
          (or_else (capture_min_secs env body)
          (or_else (capture_secs env Retry_S_Regex body)
          (or_else (capture_secs env Quota_Reset_Regex body)
          (or_else (capture_secs env Retry_After_Regex body)
                   (capture_secs env Wait_Paren_Regex body))))))"

definition reason_of_str :: "string \<Rightarrow> rate_limit_reason" where
  "reason_of_str s =
     (if s = ''QUOTA_EXHAUSTED'' then QuotaExhausted
      else if s = ''RATE_LIMIT_EXCEEDED'' then RateLimitExceeded
      else if s = ''MODEL_CAPACITY_EXHAUSTED'' then ModelCapacityExhausted
      else UnknownReason)"

definition reason_of_text :: "string \<Rightarrow> rate_limit_reason" where
  "reason_of_text body =
     (let body_lower = to_lowercase body
      in if contains body_lower ''per minute'' \<or> contains body_lower ''rate limit''
            \<or> contains body_lower ''too many requests''
         then RateLimitExceeded
         else if contains body_lower ''exhausted'' \<or> contains body_lower ''quota'' then QuotaExhausted
         else UnknownReason)"

definition reason_of_json :: "json \<Rightarrow> rate_limit_reason option" where
  "reason_of_json j =
     (case Option.bind (error_detail j) (\<lambda>d. Option.bind (jget ''reason'' d) as_str) of
        Some s \<Rightarrow> Some (reason_of_str s)
      | None \<Rightarrow>
          (case Option.bind (jget ''error'' j) (\<lambda>e. Option.bind (jget ''message'' e) as_str) of
             None \<Rightarrow> None
           | Some msg \<Rightarrow>
               (let msg_lower = to_lowercase msg
                in if contains msg_lower ''per minute'' \<or> contains msg_lower ''rate limit''
                   then Some RateLimitExceeded else None)))"

definition parse_rate_limit_reason :: "parse_env \<Rightarrow> string \<Rightarrow> rate_limit_reason" where
  "parse_rate_limit_reason env body =
     (let trimmed = trim body;
          from_json = (if looks_like_json trimmed then Option.bind (json_of env trimmed) reason_of_json
                       else None)
      in case from_json of Some r \<Rightarrow> r | None \<Rightarrow> reason_of_text body)"

definition quota_lockout_tier :: "u32 \<Rightarrow> u64" where
  "quota_lockout_tier n =
     (if n = 1 then QUOTA_LOCKOUT_TIER_1
      else if n = 2 then QUOTA_LOCKOUT_TIER_2
      else if n = 3 then QUOTA_LOCKOUT_TIER_3
      else QUOTA_LOCKOUT_TIER_4)"

definition default_lockout :: "rate_limit_reason \<Rightarrow> u32 \<Rightarrow> u64" where
  "default_lockout reason failure_count =
     (case reason of
        QuotaExhausted \<Rightarrow> quota_lockout_tier failure_count
      | RateLimitExceeded \<Rightarrow> RATE_LIMIT_DEFAULT_SECONDS
      | ModelCapacityExhausted \<Rightarrow> RATE_LIMIT_DEFAULT_SECONDS
      | ServerError \<Rightarrow> 20
      | UnknownReason \<Rightarrow> 60)"

definition rate_limit_statuses :: "u16 list" where
  "rate_limit_statuses = [429, 500, 503, 529]"

definition parse_from_error ::
  "parse_env \<Rightarrow> nanos \<Rightarrow> string \<Rightarrow> u16 \<Rightarrow> string option \<Rightarrow> string \<Rightarrow> string option
   \<Rightarrow> rate_limit_tracker \<Rightarrow> panic + (rate_limit_info option \<times> rate_limit_tracker)" where
  "parse_from_error env now acc status retry_after_header body model tr =
     (if status \<notin> set rate_limit_statuses then Inr (None, tr)
      else
        let reason = (if status = 429 then parse_rate_limit_reason env body else ServerError)
        in if reason = ModelCapacityExhausted then Inr (None, tr)
           else
             let retry_after = or_else (Option.bind retry_after_header parse_u64)
                                       (parse_retry_time_from_body env body);
                 key = from_optional_model acc model;
                 (retry_sec, tr) =
                   (case retry_after of
                      Some s \<Rightarrow> (if s < 2 then 2 else s, tr)
                    | None \<Rightarrow>
                        let (failure_count, tr) = bump_failure now key tr
                        in (default_lockout reason failure_count, tr))
             in case systime_add now (secs (unat retry_sec)) of
                  Inl p \<Rightarrow> Inl p
                | Inr t \<Rightarrow>
                    let info = \<lparr>reset_time = t, retry_after_sec = retry_sec, detected_at = now,
                                rl_reason = reason, rl_model = model\<rparr>
                    in Inr (Some info, put_limit key info tr))"

section \<open>Locks that expire\<close>

text \<open>
  The contract the token selection relies on: a lock has a number of seconds left, positive exactly
  while it holds, and it is over after those seconds and not a second earlier.
\<close>

locale expiring_lock =
  fixes wf :: "'s \<Rightarrow> bool"
    and locked :: "nanos \<Rightarrow> 'k \<Rightarrow> 's \<Rightarrow> bool"
    and wait :: "nanos \<Rightarrow> 'k \<Rightarrow> 's \<Rightarrow> nat"
  assumes wait_pos: "wf s \<Longrightarrow> 0 < wait now k s \<longleftrightarrow> locked now k s"
    and wait_enough: "wf s \<Longrightarrow> now + secs (wait now k s) \<le> t \<Longrightarrow> \<not> locked t k s"
    and wait_tight: "wf s \<Longrightarrow> w < wait now k s \<Longrightarrow> now \<le> t \<Longrightarrow> t \<le> now + secs w \<Longrightarrow> locked t k s"
begin

lemma locked_antimono: "wf s \<Longrightarrow> now \<le> t \<Longrightarrow> locked t k s \<Longrightarrow> locked now k s"
  using wait_enough [of s now k t] wait_pos [of s now k] by fastforce

definition min_wait :: "nanos \<Rightarrow> 'k list \<Rightarrow> 's \<Rightarrow> nat" where
  "min_wait now ks s = Min ((\<lambda>k. wait now k s) ` set ks)"

lemma min_wait_frees:
  assumes "wf s" and "ks \<noteq> []"
  shows "\<exists>k \<in> set ks. \<not> locked (now + secs (min_wait now ks s)) k s"
proof -
  have "min_wait now ks s \<in> (\<lambda>k. wait now k s) ` set ks"
    unfolding min_wait_def using assms(2) by (intro Min_in) auto
  then obtain k where "k \<in> set ks" "min_wait now ks s = wait now k s" by auto
  with wait_enough [OF assms(1), of now k] show ?thesis by auto
qed

lemma min_wait_least:
  assumes "wf s" and "ks \<noteq> []" and "w < min_wait now ks s" and "k \<in> set ks"
  shows "locked (now + secs w) k s"
proof -
  have "min_wait now ks s \<le> wait now k s"
    unfolding min_wait_def using assms(4) by (intro Min_le) auto
  with assms(3) have "w < wait now k s" by simp
  from wait_tight [OF assms(1) this] show ?thesis by simp
qed

end

section \<open>Waiting times\<close>

lemma unat_secs_ceil:
  assumes "as_secs d < 2 ^ 63"
  shows "unat (duration_to_secs_ceil d) = (if 0 < subsec_nanos d then as_secs d + 1 else as_secs d)"
proof -
  have "unat (of_nat (as_secs d) :: u64) = as_secs d"
    using assms by (simp add: unat_of_nat)
  with assms show ?thesis
    by (simp add: duration_to_secs_ceil_def Let_def unat_word_ariths)
qed

lemma secs_ceil_bounds:
  assumes "as_secs d < 2 ^ 63"
  shows "d \<le> secs (unat (duration_to_secs_ceil d))"
    and "w < unat (duration_to_secs_ceil d) \<Longrightarrow> secs w < d"
    and "0 < unat (duration_to_secs_ceil d) \<longleftrightarrow> 0 < d"
proof -
  have d: "d = as_secs d * 1000000000 + subsec_nanos d" and l: "subsec_nanos d < 1000000000"
    by (simp_all add: as_secs_def subsec_nanos_def)
  show "d \<le> secs (unat (duration_to_secs_ceil d))"
    unfolding unat_secs_ceil [OF assms] secs_def using d l by auto
  show "secs w < d" if "w < unat (duration_to_secs_ceil d)"
  proof (cases "0 < subsec_nanos d")
    case True
    with that have "w \<le> as_secs d" unfolding unat_secs_ceil [OF assms] by simp
    then have "w * 1000000000 \<le> as_secs d * 1000000000" by simp
    with True d show ?thesis unfolding secs_def by linarith
  next
    case False
    with that have "w < as_secs d" unfolding unat_secs_ceil [OF assms] by simp
    then have "w * 1000000000 < as_secs d * 1000000000" by simp
    with d show ?thesis unfolding secs_def by linarith
  qed
  show "0 < unat (duration_to_secs_ceil d) \<longleftrightarrow> 0 < d"
    unfolding unat_secs_ceil [OF assms] using d by (cases "subsec_nanos d = 0") auto
qed

definition info_wf :: "rate_limit_info option \<Rightarrow> bool" where
  "info_wf i = (case i of None \<Rightarrow> True | Some info \<Rightarrow> as_secs (reset_time info) < 2 ^ 63)"

lemma info_wf_diff: "info_wf (Some info) \<Longrightarrow> as_secs (reset_time info - now) < 2 ^ 63"
  using as_secs_mono [of "reset_time info - now" "reset_time info"] by (simp add: info_wf_def)

lemma info_wait_live: "info_wf i \<Longrightarrow> 0 < unat (info_wait now i) \<longleftrightarrow> info_live now i"
  using secs_ceil_bounds(3) [OF info_wf_diff]
  by (auto simp: info_wait_def info_live_def duration_since_def split: option.splits)

lemma info_wait_enough:
  assumes "info_wf i" and "now + secs (unat (info_wait now i)) \<le> t"
  shows "\<not> info_live t i"
proof (cases i)
  case None
  then show ?thesis by (simp add: info_live_def)
next
  case (Some info)
  show ?thesis
  proof (cases "now < reset_time info")
    case True
    with assms(2) Some secs_ceil_bounds(1) [OF info_wf_diff [of info now]] assms(1)
    show ?thesis by (simp add: info_wait_def info_live_def duration_since_def)
  next
    case False
    with assms Some show ?thesis by (simp add: info_live_def info_wait_def)
  qed
qed

lemma info_wait_tight:
  assumes "info_wf i" and "w < unat (info_wait now i)" and "t \<le> now + secs w"
  shows "info_live t i"
proof -
  obtain info where i: "i = Some info" "now < reset_time info"
    using assms(2) by (auto simp: info_wait_def split: option.splits if_splits)
  with secs_ceil_bounds(2) [OF info_wf_diff [of info now], of w] assms
  show ?thesis by (simp add: info_wait_def info_live_def duration_since_def)
qed

lemma tracker_wf_info: "tracker_wf tr \<Longrightarrow> info_wf (tget (limits tr) k)"
  unfolding tracker_wf_def info_wf_def by (auto dest!: map_of_SomeD split: option.splits)

lemma unat_max_word: "unat (max a b) = max (unat a) (unat (b :: 'a::len word))"
  by (simp add: max_def word_le_nat_alt)

lemma unat_wait_for_model:
  "unat (get_remaining_wait_for_model now acc m tr)
   = max (unat (info_wait now (tget (limits tr) (AccountKey acc))))
         (unat (info_wait now (tget (limits tr) (ModelKey acc m))))"
  by (simp add: get_remaining_wait_for_model_def unat_max_word Let_def)

lemma limited_for_model_iff:
  "is_rate_limited_for_model now acc m tr \<longleftrightarrow>
     info_live now (tget (limits tr) (AccountKey acc)) \<or> info_live now (tget (limits tr) (ModelKey acc m))"
  by (simp add: is_rate_limited_for_model_def)

lemma secs_max: "secs (max a b) = max (secs a) (secs b)"
  by (simp add: secs_def max_def)

interpretation rl: expiring_lock tracker_wf
  "\<lambda>now (acc, m). is_rate_limited_for_model now acc m"
  "\<lambda>now (acc, m) tr. unat (get_remaining_wait_for_model now acc m tr)"
proof (unfold_locales, goal_cases)
  case (1 s now k)
  then show ?case
    by (cases k) (simp add: limited_for_model_iff unat_wait_for_model less_max_iff_disj
      info_wait_live [OF tracker_wf_info])
next
  case (2 s now k t)
  then show ?case
    by (cases k) (auto simp: limited_for_model_iff unat_wait_for_model secs_max
      max_add_distrib_right dest: info_wait_enough [OF tracker_wf_info])
next
  case (3 s w now k t)
  then show ?case
    by (cases k) (auto simp: limited_for_model_iff unat_wait_for_model less_max_iff_disj
      intro: info_wait_tight [OF tracker_wf_info])
qed

interpretation rl_account: expiring_lock tracker_wf is_rate_limited
  "\<lambda>now acc tr. unat (get_remaining_wait now acc tr)"
  by unfold_locales
    (auto simp: is_rate_limited_def get_remaining_wait_def get_def
      info_wait_live [OF tracker_wf_info] info_wait_enough [OF tracker_wf_info]
      intro: info_wait_tight [OF tracker_wf_info])

section \<open>Invariant\<close>

lemma limits_put_limit [simp]: "limits (put_limit k i tr) = tput k i (limits tr)"
  and failure_counts_put_limit [simp]: "failure_counts (put_limit k i tr) = failure_counts tr"
  by (simp_all add: put_limit_def)

lemma limits_bump [simp]: "limits (snd (bump_failure now k tr)) = limits tr"
  and failure_counts_bump: "failure_counts (snd (bump_failure now k tr))
     = tput k (bump_entry now (tget (failure_counts tr) k)) (failure_counts tr)"
  and fst_bump: "fst (bump_failure now k tr) = fst (bump_entry now (tget (failure_counts tr) k))"
  by (simp_all add: bump_failure_def Let_def)

lemma tracker_wf_iff: "tracker_wf tr \<longleftrightarrow> twf (limits tr) \<and> twf (failure_counts tr)
    \<and> (\<forall>k i. tget (limits tr) k = Some i \<longrightarrow> as_secs (reset_time i) < 2 ^ 63)"
  unfolding tracker_wf_def using twf_ball_iff [of "limits tr" "\<lambda>_ i. as_secs (reset_time i) < 2 ^ 63"]
  by blast

lemma tracker_wf_put_limit:
  "tracker_wf tr \<Longrightarrow> as_secs (reset_time i) < 2 ^ 63 \<Longrightarrow> tracker_wf (put_limit k i tr)"
  by (simp add: tracker_wf_iff)

lemma tracker_wf_bump: "tracker_wf tr \<Longrightarrow> tracker_wf (snd (bump_failure now k tr))"
  by (simp add: tracker_wf_iff failure_counts_bump)

lemma tracker_wf_deletes:
  assumes "tracker_wf tr"
  shows "tracker_wf (mark_success acc tr)" and "tracker_wf (mark_model_success acc m tr)"
    and "tracker_wf (snd (clear acc tr))" and "tracker_wf (clear_all tr)"
    and "tracker_wf (snd (cleanup_expired now tr))"
  using assms by (auto simp: tracker_wf_iff mark_success_def mark_model_success_def clear_def
      clear_all_def cleanup_expired_def tget_tretain split: option.splits if_splits)

lemma tracker_wf_adaptive:
  "set_adaptive_temporary_lockout now acc tr = Inr (n, tr') \<Longrightarrow> tracker_wf tr \<Longrightarrow> tracker_wf tr'"
  "set_adaptive_model_lockout now acc m tr = Inr (n, tr') \<Longrightarrow> tracker_wf tr \<Longrightarrow> tracker_wf tr'"
  by (auto simp: set_adaptive_temporary_lockout_def set_adaptive_model_lockout_def Let_def
      systime_add_def split_beta split: sum.splits if_splits
      intro!: tracker_wf_put_limit tracker_wf_bump)

lemma tracker_wf_lockout_until:
  "tracker_wf tr \<Longrightarrow> as_secs reset < 2 ^ 63 \<Longrightarrow> tracker_wf (set_lockout_until now acc reset r m tr)"
  "tracker_wf tr \<Longrightarrow> as_secs reset < 2 ^ 63 \<Longrightarrow> tracker_wf (set_model_lockout now acc m' reset r tr)"
  by (simp_all add: set_lockout_until_def set_model_lockout_def tracker_wf_put_limit)

lemma tracker_wf_iso:
  "set_lockout_until_iso env now acc s r m tr = Inr (b, tr') \<Longrightarrow> tracker_wf tr \<Longrightarrow> tracker_wf tr'"
  by (auto simp: set_lockout_until_iso_def systime_add_Inr_iff tracker_wf_lockout_until
      split: option.splits if_splits sum.splits)

lemma tracker_wf_parse:
  "parse_from_error env now acc st h body m tr = Inr (i, tr') \<Longrightarrow> tracker_wf tr \<Longrightarrow> tracker_wf tr'"
  by (auto simp: parse_from_error_def Let_def systime_add_Inr_iff split_beta
      split: option.splits if_splits sum.splits
      intro!: tracker_wf_put_limit tracker_wf_bump)

text \<open>The states the calls lead to, in any order, with any clock.\<close>

inductive tracker_reachable :: "parse_env \<Rightarrow> rate_limit_tracker \<Rightarrow> bool" for env where
  reach_new: "tracker_reachable env new_tracker"
| reach_success: "tracker_reachable env tr \<Longrightarrow> tracker_reachable env (mark_success acc tr)"
| reach_model_success: "tracker_reachable env tr \<Longrightarrow> tracker_reachable env (mark_model_success acc m tr)"
| reach_clear: "tracker_reachable env tr \<Longrightarrow> tracker_reachable env (snd (clear acc tr))"
| reach_clear_all: "tracker_reachable env tr \<Longrightarrow> tracker_reachable env (clear_all tr)"
| reach_cleanup: "tracker_reachable env tr \<Longrightarrow> tracker_reachable env (snd (cleanup_expired now tr))"
| reach_adaptive: "tracker_reachable env tr \<Longrightarrow> set_adaptive_temporary_lockout now acc tr = Inr (n, tr')
    \<Longrightarrow> tracker_reachable env tr'"
| reach_adaptive_model: "tracker_reachable env tr \<Longrightarrow> set_adaptive_model_lockout now acc m tr = Inr (n, tr')
    \<Longrightarrow> tracker_reachable env tr'"
| reach_until: "tracker_reachable env tr \<Longrightarrow> as_secs reset < 2 ^ 63
    \<Longrightarrow> tracker_reachable env (set_lockout_until now acc reset r model tr)"
| reach_model_until: "tracker_reachable env tr \<Longrightarrow> as_secs reset < 2 ^ 63
    \<Longrightarrow> tracker_reachable env (set_model_lockout now acc m reset r tr)"
| reach_iso: "tracker_reachable env tr \<Longrightarrow> set_lockout_until_iso env now acc s r model tr = Inr (b, tr')
    \<Longrightarrow> tracker_reachable env tr'"
| reach_error: "tracker_reachable env tr \<Longrightarrow> parse_from_error env now acc st h body model tr = Inr (i, tr')
    \<Longrightarrow> tracker_reachable env tr'"

lemma tracker_reachable_wf: "tracker_reachable env tr \<Longrightarrow> tracker_wf tr"
proof (induction rule: tracker_reachable.induct)
  case reach_new
  then show ?case by (simp add: tracker_wf_iff new_tracker_def)
qed (auto intro: tracker_wf_deletes tracker_wf_adaptive tracker_wf_lockout_until
      tracker_wf_iso tracker_wf_parse)

section \<open>Properties\<close>

text \<open>
  Claim C16: the remaining wait the proxy computes is exact. In every state the tracker's calls can
  lead to (whatever their order and the clock), an account is limited for a model exactly while the
  reported wait is positive, the limit is over after the reported seconds, and it still holds after
  any smaller number of seconds.
\<close>

theorem remaining_wait_exact:
  assumes "tracker_reachable env tr"
  shows "let w = unat (get_remaining_wait_for_model now acc m tr) in
    (0 < w \<longleftrightarrow> is_rate_limited_for_model now acc m tr)
    \<and> \<not> is_rate_limited_for_model (now + secs w) acc m tr
    \<and> (\<forall>v. v < w \<longrightarrow> is_rate_limited_for_model (now + secs v) acc m tr)"
proof -
  note wf = tracker_reachable_wf [OF assms(1)]
  show ?thesis
    using rl.wait_pos [OF wf, of now "(acc, m)"] rl.wait_enough [OF wf, of now "(acc, m)"]
      rl.wait_tight [OF wf, of _ now "(acc, m)"]
    unfolding Let_def by simp
qed

lemma bump_entry_first: "bump_entry now None = (1, now)"
  by (simp add: bump_entry_def duration_since_def as_secs_def FAILURE_COUNT_EXPIRY_SECONDS_def)

lemma bump_entry_next:
  "as_secs (now - t) \<le> 3600 \<Longrightarrow> bump_entry now (Some (n, t)) = (n + 1, now)"
  by (simp add: bump_entry_def duration_since_def as_secs_def FAILURE_COUNT_EXPIRY_SECONDS_def)

lemma bump_entry_expired:
  "3600 < as_secs (now - t) \<Longrightarrow> bump_entry now (Some (n, t)) = (1, now)"
  by (auto simp: bump_entry_def duration_since_def FAILURE_COUNT_EXPIRY_SECONDS_def as_secs_def)

text \<open>A series of failures of one account, each answered with an adaptive lockout.\<close>

fun adaptive_run ::
  "string \<Rightarrow> nanos list \<Rightarrow> rate_limit_tracker \<Rightarrow> panic + (u64 list \<times> rate_limit_tracker)" where
  "adaptive_run acc [] tr = Inr ([], tr)"
| "adaptive_run acc (t # ts) tr =
     (case set_adaptive_temporary_lockout t acc tr of
        Inl p \<Rightarrow> Inl p
      | Inr (n, tr) \<Rightarrow>
          (case adaptive_run acc ts tr of Inl p \<Rightarrow> Inl p | Inr (ns, tr) \<Rightarrow> Inr (n # ns, tr)))"

fun gaps_within :: "nat \<Rightarrow> nanos \<Rightarrow> nanos list \<Rightarrow> bool" where
  "gaps_within d t [] = True"
| "gaps_within d t (u # us) = (as_secs (u - t) \<le> d \<and> gaps_within d u us)"

lemma lockout_secs_of_le: "unat (lockout_secs_of n) \<le> 60"
  by (simp add: lockout_secs_of_def)

lemma lockout_secs_of_nat:
  assumes "j < 2 ^ 32"
  shows "lockout_secs_of (of_nat j) = (if j = 1 then 5 else if j = 2 then 15 else if j = 3 then 30 else 60)"
proof -
  have "(of_nat j = (of_nat k :: u32)) \<longleftrightarrow> j = k" if "k < 2 ^ 32" for k
    using assms that by (simp add: word_of_nat_eq_iff take_bit_nat_eq_self)
  from this [of 1] this [of 2] this [of 3] show ?thesis by (simp add: lockout_secs_of_def)
qed

lemma as_secs_add_secs [simp]: "as_secs (t + secs s) = as_secs t + s"
  by (simp add: as_secs_def secs_def)

lemma adaptive_lockout_Inr:
  assumes "as_secs now + 60 < 2 ^ 63"
    and "bump_entry now (tget (failure_counts tr) (AccountKey acc)) = (n, now)"
  shows "\<exists>tr'. set_adaptive_temporary_lockout now acc tr = Inr (lockout_secs_of n, tr')
     \<and> tget (failure_counts tr') (AccountKey acc) = Some (n, now)"
proof -
  have "systime_add now (secs (unat (lockout_secs_of n))) = Inr (now + secs (unat (lockout_secs_of n)))"
    using assms(1) lockout_secs_of_le [of n] by (simp add: systime_add_Inr_iff)
  with assms(2) show ?thesis
    by (simp add: set_adaptive_temporary_lockout_def Let_def split_beta fst_bump failure_counts_bump)
qed

lemma upt_0_Cons: "[0..<Suc n] = 0 # map Suc [0..<n]"
  by (simp add: upt_conv_Cons map_Suc_upt del: upt_Suc)

lemma adaptive_run_from:
  "tget (failure_counts tr) (AccountKey acc) = Some (of_nat n, t) \<Longrightarrow> gaps_within 3600 t ts
   \<Longrightarrow> \<forall>u \<in> set ts. as_secs u + 60 < 2 ^ 63
   \<Longrightarrow> \<exists>tr'. adaptive_run acc ts tr =
         Inr (map (\<lambda>i. lockout_secs_of (of_nat (n + 1 + i))) [0..<length ts], tr')"
proof (induction ts arbitrary: tr n t)
  case Nil
  then show ?case by simp
next
  case (Cons u us)
  have "bump_entry u (tget (failure_counts tr) (AccountKey acc)) = (of_nat (n + 1), u)"
    using Cons.prems by (simp add: bump_entry_next add.commute)
  with Cons.prems(3) obtain tr1 where tr1:
    "set_adaptive_temporary_lockout u acc tr = Inr (lockout_secs_of (of_nat (n + 1)), tr1)"
    "tget (failure_counts tr1) (AccountKey acc) = Some (of_nat (n + 1), u)"
    using adaptive_lockout_Inr [of u tr acc] by force
  from Cons.IH [OF tr1(2)] Cons.prems obtain tr2 where
    "adaptive_run acc us tr1 = Inr (map (\<lambda>i. lockout_secs_of (of_nat (n + 1 + 1 + i))) [0..<length us], tr2)"
    by auto
  with tr1 show ?case
    by (simp add: upt_0_Cons o_def algebra_simps del: upt_Suc)
qed

text \<open>
  Note: the adaptive lockout of an account escalates. Repeated failures, each within an hour of
  the one before, lock the account for 5, 15, 30 and then 60 seconds each time, whatever the times
  are; an account without a failure count starts the series, and so does one whose last failure is
  more than an hour old.
\<close>

theorem adaptive_lockout_escalates:
  assumes start: "case tget (failure_counts tr) (AccountKey acc) of
        None \<Rightarrow> True | Some (_, t0) \<Rightarrow> 3600 < as_secs (t - t0)"
    and "gaps_within 3600 t ts"
    and "\<forall>u \<in> set (t # ts). as_secs u + 60 < 2 ^ 63"
    and "length ts < 2 ^ 32 - 1"
  shows "\<exists>tr'. adaptive_run acc (t # ts) tr =
           Inr (take (length (t # ts)) ([5, 15, 30] @ replicate (length ts) 60), tr')"
proof -
  have "bump_entry t (tget (failure_counts tr) (AccountKey acc)) = (1, t)"
    using start by (auto simp: bump_entry_first bump_entry_expired split: option.splits)
  with assms(3) obtain tr1 where tr1:
    "set_adaptive_temporary_lockout t acc tr = Inr (lockout_secs_of 1, tr1)"
    "tget (failure_counts tr1) (AccountKey acc) = Some (of_nat 1, t)"
    using adaptive_lockout_Inr [of t tr acc] by force
  from adaptive_run_from [OF tr1(2) assms(2)] assms(3) obtain tr2 where
    "adaptive_run acc ts tr1 = Inr (map (\<lambda>i. lockout_secs_of (of_nat (1 + 1 + i))) [0..<length ts], tr2)"
    by auto
  with tr1(1) have run: "adaptive_run acc (t # ts) tr
      = Inr (map (\<lambda>i. lockout_secs_of (of_nat (Suc i))) [0..<length (t # ts)], tr2)"
    by (simp add: upt_0_Cons o_def del: upt_Suc)
  have "map (\<lambda>i. lockout_secs_of (of_nat (Suc i))) [0..<length (t # ts)]
      = take (length (t # ts)) ([5, 15, 30] @ replicate (length ts) 60)"
    (is "?l = ?r")
  proof (rule nth_equalityI)
    show "length ?l = length ?r" by simp
    fix i assume "i < length ?l"
    then have i: "i < length (t # ts)" by simp
    then have "lockout_secs_of (of_nat (Suc i)) = ([5, 15, 30] @ replicate (length ts) 60) ! i"
      using assms(4) by (subst lockout_secs_of_nat) (auto simp: nth_append nth_Cons' split: if_splits)
    with i show "?l ! i = ?r ! i" by (simp del: of_nat_Suc upt_Suc take_append take_Suc_Cons)
  qed
  with run show ?thesis by (simp only: ex_simps) blast
qed

theorem adaptive_lockout_escalates_witness:
  "\<exists>tr'. adaptive_run ''a'' (secs 0 # [secs 10, secs 30, secs 100, secs 3700]) new_tracker =
      Inr ([5, 15, 30, 60, 60], tr')"
  using adaptive_lockout_escalates
    [where tr = new_tracker and acc = "''a''" and t = "secs 0" and ts = "[secs 10, secs 30, secs 100, secs 3700]"]
  by (simp add: new_tracker_def secs_def as_secs_def)

theorem remaining_wait_exact_witness:
  "let w = unat (get_remaining_wait_for_model 7 ''a'' ''m'' new_tracker) in
    (0 < w \<longleftrightarrow> is_rate_limited_for_model 7 ''a'' ''m'' new_tracker)
    \<and> \<not> is_rate_limited_for_model (7 + secs w) ''a'' ''m'' new_tracker
    \<and> (\<forall>v. v < w \<longrightarrow> is_rate_limited_for_model (7 + secs v) ''a'' ''m'' new_tracker)"
  by (rule remaining_wait_exact [OF reach_new])

text \<open>
  The contract of \<open>parse_from_error\<close>: which errors set a lock, for how long, and under which key.
\<close>

definition error_reason :: "parse_env \<Rightarrow> u16 \<Rightarrow> string \<Rightarrow> rate_limit_reason" where
  "error_reason env status body =
     (if status = 429 then parse_rate_limit_reason env body else ServerError)"

definition error_locks :: "parse_env \<Rightarrow> u16 \<Rightarrow> string \<Rightarrow> bool" where
  "error_locks env status body \<longleftrightarrow>
     status \<in> {429, 500, 503, 529} \<and> error_reason env status body \<noteq> ModelCapacityExhausted"

definition announced_delay :: "parse_env \<Rightarrow> string option \<Rightarrow> string \<Rightarrow> u64 option" where
  "announced_delay env header body =
     or_else (Option.bind header parse_u64) (parse_retry_time_from_body env body)"

definition error_delay ::
  "parse_env \<Rightarrow> nanos \<Rightarrow> u16 \<Rightarrow> string option \<Rightarrow> string \<Rightarrow> (u32 \<times> nanos) option \<Rightarrow> u64" where
  "error_delay env now status header body failures =
     (case announced_delay env header body of
        Some s \<Rightarrow> max 2 s
      | None \<Rightarrow> default_lockout (error_reason env status body) (fst (bump_entry now failures)))"

lemma max_2: "(if s < 2 then 2 else s) = max 2 (s :: u64)"
  by (auto simp: max_def)

lemma parse_from_error_not_locking:
  "\<not> error_locks env status body \<Longrightarrow> parse_from_error env now acc status header body model tr = Inr (None, tr)"
  by (auto simp: error_locks_def parse_from_error_def rate_limit_statuses_def error_reason_def)

lemma parse_from_error_locking:
  assumes "error_locks env status body"
  shows "parse_from_error env now acc status header body model tr =
    (let key = from_optional_model acc model;
         delay = error_delay env now status header body (tget (failure_counts tr) key);
         tr1 = (if announced_delay env header body = None then snd (bump_failure now key tr) else tr);
         info = \<lparr>reset_time = now + secs (unat delay), retry_after_sec = delay, detected_at = now,
                 rl_reason = error_reason env status body, rl_model = model\<rparr>
     in if as_secs now + unat delay < 2 ^ 63 then Inr (Some info, put_limit key info tr1)
        else Inl TimeOverflow)"
proof -
  have st: "status \<in> set rate_limit_statuses"
    and r: "(if status = 429 then parse_rate_limit_reason env body else ServerError) \<noteq> ModelCapacityExhausted"
    using assms by (auto simp: error_locks_def error_reason_def rate_limit_statuses_def)
  show ?thesis
    unfolding parse_from_error_def error_delay_def announced_delay_def error_reason_def
    using st r
    by (simp add: Let_def systime_add_def max_2 split_beta fst_bump split: option.split)
qed

lemma error_delay_ge_2: "2 \<le> unat (error_delay env now status header body f)"
proof -
  have "2 \<le> unat (max 2 s)" for s :: u64
    by (simp add: unat_max_word)
  moreover have "2 \<le> unat (default_lockout r n)" for r n
    by (simp add: default_lockout_def quota_lockout_tier_def QUOTA_LOCKOUT_TIER_1_def
        QUOTA_LOCKOUT_TIER_2_def QUOTA_LOCKOUT_TIER_3_def QUOTA_LOCKOUT_TIER_4_def
        RATE_LIMIT_DEFAULT_SECONDS_def split: rate_limit_reason.split)
  ultimately show ?thesis by (simp add: error_delay_def split: option.split)
qed

text \<open>
  Claim C19: an upstream error locks exactly the account (or the account's model) it was reported
  for. A status other than 429, 500, 503 and 529, or exhausted model capacity, changes nothing. Any
  other error sets one lock, under the reported key, for the delay the header or the body announces
  (at least two seconds) or the default for its reason; the lock holds from now until that delay is
  over, every other key keeps its record, and failures are only counted when no delay is announced.
\<close>

theorem parse_from_error_contract:
  assumes "parse_from_error env now acc status header body model tr = Inr (info, tr')"
  defines "key \<equiv> from_optional_model acc model"
  defines "delay \<equiv> unat (error_delay env now status header body (tget (failure_counts tr) key))"
  shows "if error_locks env status body
         then (\<forall>t. info_live t (tget (limits tr') key) \<longleftrightarrow> t < now + secs delay) \<and> 2 \<le> delay
            \<and> info = tget (limits tr') key
            \<and> (\<forall>k. k \<noteq> key \<longrightarrow> tget (limits tr') k = tget (limits tr) k)
            \<and> (announced_delay env header body \<noteq> None \<longrightarrow> failure_counts tr' = failure_counts tr)
         else info = None \<and> tr' = tr"
proof (cases "error_locks env status body")
  case True
  with assms(1) show ?thesis
    using error_delay_ge_2 [of env now status header body "tget (failure_counts tr) key"]
    unfolding parse_from_error_locking [OF True] key_def delay_def
    by (auto simp: Let_def info_live_def split: if_splits)
next
  case False
  with assms(1) parse_from_error_not_locking [OF False] show ?thesis by simp
qed

definition no_env :: parse_env where
  "no_env = \<lparr>json_of = \<lambda>_. None, captures = \<lambda>_ _. None, rfc3339 = \<lambda>_. None,
     read_error = \<lambda>_. [], json_error = \<lambda>_. []\<rparr>"

lemma server_error_run:
  "parse_from_error no_env 5 ''a'' 503 None ''busy'' (Some ''m'') new_tracker =
     Inr (Some \<lparr>reset_time = 5 + secs 20, retry_after_sec = 20, detected_at = 5,
                rl_reason = ServerError, rl_model = Some ''m''\<rparr>,
          put_limit (ModelKey ''a'' ''m'')
            \<lparr>reset_time = 5 + secs 20, retry_after_sec = 20, detected_at = 5,
                rl_reason = ServerError, rl_model = Some ''m''\<rparr>
            (snd (bump_failure 5 (ModelKey ''a'' ''m'') new_tracker)))"
proof -
  have "error_locks no_env 503 ''busy''" by (simp add: error_locks_def error_reason_def)
  moreover have "announced_delay no_env None ''busy'' = None"
    by (simp add: announced_delay_def or_else_def parse_retry_time_from_body_def Let_def no_env_def
        capture_min_secs_def capture_secs_def)
  ultimately show ?thesis
    by (simp add: parse_from_error_locking Let_def error_delay_def error_reason_def
        default_lockout_def from_optional_model_def as_secs_def)
qed

theorem parse_from_error_contract_witness:
  "\<exists>tr'. is_rate_limited_for_model 6 ''a'' ''m'' tr' \<and> \<not> is_rate_limited 6 ''a'' tr'
     \<and> parse_from_error no_env 5 ''a'' 503 None ''busy'' (Some ''m'') new_tracker
         = Inr (tget (limits tr') (ModelKey ''a'' ''m''), tr')"
proof -
  have locks: "error_locks no_env 503 ''busy''" by (simp add: error_locks_def error_reason_def)
  obtain info tr' where run: "parse_from_error no_env 5 ''a'' 503 None ''busy'' (Some ''m'') new_tracker
      = Inr (info, tr')"
    using server_error_run by blast
  from parse_from_error_contract [OF run] locks
  have c: "info = tget (limits tr') (ModelKey ''a'' ''m'')"
    "info_live 6 (tget (limits tr') (ModelKey ''a'' ''m''))"
    "tget (limits tr') (AccountKey ''a'') = None"
    by (auto simp: from_optional_model_def new_tracker_def secs_def)
  with run show ?thesis
    by (intro exI [of _ tr']) (simp add: limited_for_model_iff is_rate_limited_def get_def info_live_def)
qed

lemma tget_cleanup:
  "tracker_wf tr \<Longrightarrow> tget (limits (snd (cleanup_expired now tr))) k =
     (case tget (limits tr) k of None \<Rightarrow> None | Some i \<Rightarrow> if now < reset_time i then Some i else None)"
  by (simp add: cleanup_expired_def tget_tretain tracker_wf_iff not_le split: option.split)

lemma info_live_cleanup:
  assumes "tracker_wf tr" and "now \<le> t"
  shows "info_live t (tget (limits (snd (cleanup_expired now tr))) k) = info_live t (tget (limits tr) k)"
    and "info_wait t (tget (limits (snd (cleanup_expired now tr))) k) = info_wait t (tget (limits tr) k)"
  using assms by (auto simp: tget_cleanup info_live_def info_wait_def split: option.split)

lemma length_cleanup:
  "fst (cleanup_expired now tr) + length (limits (snd (cleanup_expired now tr))) = length (limits tr)"
proof -
  have "{k. \<not> (case k of (k, i) \<Rightarrow> reset_time i \<le> now)} = {(k, i). \<not> reset_time i \<le> now}" by auto
  then show ?thesis
    using sum_length_filter_compl [of "\<lambda>(k, i). reset_time i \<le> now" "limits tr"]
    by (simp add: cleanup_expired_def tretain_def case_prod_unfold)
qed

text \<open>
  Note: cleaning up expired records is invisible. After \<open>cleanup_expired\<close> at time \<open>now\<close>, every
  query at \<open>now\<close> or later gives what it would have given without the cleanup, for every account and
  model, the failure counts are untouched, and the returned number is the number of records removed,
  none of which was still blocking.
\<close>

theorem cleanup_is_invisible:
  assumes "tracker_reachable env tr" and "now \<le> t"
  defines "tr' \<equiv> snd (cleanup_expired now tr)"
  shows "is_rate_limited_for_model t acc m tr' = is_rate_limited_for_model t acc m tr
    \<and> get_remaining_wait_for_model t acc m tr' = get_remaining_wait_for_model t acc m tr
    \<and> is_rate_limited t acc tr' = is_rate_limited t acc tr
    \<and> get_remaining_wait t acc tr' = get_remaining_wait t acc tr
    \<and> failure_counts tr' = failure_counts tr
    \<and> fst (cleanup_expired now tr) + length (limits tr') = length (limits tr)"
  using info_live_cleanup [OF tracker_reachable_wf [OF assms(1)] assms(2)] length_cleanup [of now tr]
  unfolding tr'_def
  by (simp add: limited_for_model_iff get_remaining_wait_for_model_def is_rate_limited_def get_def
      get_remaining_wait_def) (simp add: cleanup_expired_def)

theorem cleanup_is_invisible_witness:
  "is_rate_limited_for_model 9 ''a'' ''m'' (snd (cleanup_expired 8
     (set_model_lockout 2 ''a'' ''m'' 10 QuotaExhausted new_tracker)))
   \<and> length (limits (snd (cleanup_expired 10
     (set_model_lockout 2 ''a'' ''m'' 10 QuotaExhausted new_tracker)))) = 0"
proof -
  let ?tr = "set_model_lockout 2 ''a'' ''m'' 10 QuotaExhausted new_tracker"
  have r: "tracker_reachable no_env ?tr"
    by (rule reach_model_until [OF reach_new]) (simp add: as_secs_def)
  have "is_rate_limited_for_model 9 ''a'' ''m'' ?tr"
    by (simp add: limited_for_model_iff set_model_lockout_def info_live_def)
  with cleanup_is_invisible [OF r, of 8 9 "''a''" "''m''"] cleanup_is_invisible [OF r, of 10 10]
  show ?thesis
    by (simp add: set_model_lockout_def new_tracker_def put_limit_def tput_def cleanup_expired_def)
qed

text \<open>
  Note: a success clears what it should. \<open>mark_success\<close> forgets the account's own lock and
  failure count, so the account is no longer limited and the next lockout starts at five seconds
  again; the locks of its models and of all other accounts stay as they were.
\<close>

theorem mark_success_clears:
  "\<not> is_rate_limited now acc (mark_success acc tr)
   \<and> get_remaining_wait now acc (mark_success acc tr) = 0
   \<and> (\<forall>t. as_secs t + 5 < 2 ^ 63 \<longrightarrow>
        map_sum id fst (set_adaptive_temporary_lockout t acc (mark_success acc tr)) = Inr 5)
   \<and> is_rate_limited_for_model now acc m (mark_success acc tr) = info_live now (get_for_model acc m tr)
   \<and> (\<forall>other. other \<noteq> acc \<longrightarrow>
        is_rate_limited_for_model now other m (mark_success acc tr) = is_rate_limited_for_model now other m tr)"
  by (simp add: is_rate_limited_def get_def mark_success_def info_live_def get_remaining_wait_def
      info_wait_def set_adaptive_temporary_lockout_def Let_def split_beta fst_bump bump_entry_first
      lockout_secs_of_def systime_add_def limited_for_model_iff get_for_model_def)

text \<open>The one-hour memory of failures: an error after a longer pause counts as the first.\<close>

lemma bump_failure_forgets:
  assumes "tget (failure_counts tr) k = Some (n, t)" and "3600 < as_secs (now - t)"
  shows "fst (bump_failure now k tr) = 1"
  using assms by (simp add: fst_bump bump_entry_expired)

lemma dec_val_max: "dec_val ''18446744073709551615'' = 18446744073709551615"
  by (simp add: dec_val_def digit_val_def)

lemma parse_u64_max: "parse_u64 ''18446744073709551615'' = Some 18446744073709551615"
  by (simp add: parse_u64_def parse_uint_def dec_val_max is_digit_def)

text \<open>
  Note: an upstream that answers a server error with the \<open>Retry-After\<close> value \<open>u64::MAX\<close> makes
  the proxy panic, for every account, model, body and state: the reset time is computed with
  \<open>SystemTime + Duration\<close>, which has no value that late.
\<close>

theorem huge_retry_after_panics:
  "parse_from_error env now acc 503 (Some ''18446744073709551615'') body model tr = Inl TimeOverflow"
proof -
  have "error_locks env 503 body" by (simp add: error_locks_def error_reason_def)
  moreover have "announced_delay env (Some ''18446744073709551615'') body = Some 18446744073709551615"
    by (simp add: announced_delay_def or_else_def parse_u64_max)
  moreover have "unat (max 2 (18446744073709551615 :: u64)) = 18446744073709551615"
    by (simp add: unat_max_word)
  ultimately show ?thesis
    by (simp add: parse_from_error_locking Let_def error_delay_def)
qed

end
