(* ===== verification/Health.thy ===== *)
theory Health
  imports Rust_Strings
begin

text \<open>
  The account health monitor, \<open>crates/antigravity-core/src/proxy/health/\<close>: the types and the score
  of \<open>types.rs\<close>, the operations of \<open>monitor.rs\<close> and the response of \<open>response.rs\<close>.

  Each operation is one step on the monitor. \<open>Instant::now()\<close> is the argument \<open>now\<close>, the wall
  clock of a response is \<open>wall\<close>. The background task of \<open>start_recovery_task\<close> is the loop that
  calls \<open>check_and_recover\<close>; the loop itself, the shutdown channel and the log are not modelled.
\<close>

section \<open>Types\<close>

datatype health_status = Healthy | Degraded | Disabled | Recovering

datatype error_type = Forbidden | RateLimited | HealthServerError | Unauthorized

definition from_status_code :: "u16 \<Rightarrow> error_type option" where
  "from_status_code code =
     (if code = 401 then Some Unauthorized
      else if code = 403 then Some Forbidden
      else if code = 429 then Some RateLimited
      else if 500 \<le> code \<and> code \<le> 599 then Some HealthServerError
      else None)"

record health_config =
  error_threshold :: u32
  cooldown_seconds :: u64
  track_rate_limits :: bool
  recovery_check_interval_seconds :: u64

definition default_health_config :: health_config where
  "default_health_config = \<lparr>error_threshold = 5, cooldown_seconds = 300, track_rate_limits = False,
     recovery_check_interval_seconds = 30\<rparr>"

definition FAILURE_WEIGHT :: rat where "FAILURE_WEIGHT = 4"

record account_health =
  ah_account_id :: string
  ah_email :: string
  consecutive_errors :: u32
  is_disabled :: bool
  disabled_at :: "nanos option"
  last_error_type :: "error_type option"
  last_error_message :: "string option"
  total_successes :: u32
  total_errors :: u32

definition new_account_health :: "string \<Rightarrow> string \<Rightarrow> account_health" where
  "new_account_health acc email = \<lparr>ah_account_id = acc, ah_email = email, consecutive_errors = 0,
     is_disabled = False, disabled_at = None, last_error_type = None, last_error_message = None,
     total_successes = 0, total_errors = 0\<rparr>"

definition score :: "account_health \<Rightarrow> rat" where
  "score h =
     (let s = f32_of (total_successes h); e = f32_of (total_errors h)
      in if rnd32 (s + e) = 0 then 1
         else rnd32 (s / rnd32 (s + rnd32 (e * FAILURE_WEIGHT))))"

record health_monitor =
  hm_accounts :: "(string, account_health) table"
  hm_config :: health_config

definition health_with_config :: "health_config \<Rightarrow> health_monitor" where
  "health_with_config cfg = \<lparr>hm_accounts = [], hm_config = cfg\<rparr>"

section \<open>Operations on one account\<close>

definition success_of :: "account_health \<Rightarrow> account_health" where
  "success_of h = h\<lparr>consecutive_errors := 0, total_successes := total_successes h + 1\<rparr>"

definition truncate_string :: "string \<Rightarrow> nat \<Rightarrow> string" where
  "truncate_string s max_len =
     (if length (chars s) \<le> max_len then s
      else concat (take max_len (chars s)) @ map byte [226, 128, 166])"

definition error_of ::
  "health_config \<Rightarrow> nanos \<Rightarrow> error_type \<Rightarrow> string \<Rightarrow> account_health \<Rightarrow> bool \<times> account_health" where
  "error_of cfg now ty msg h =
     (let errors = consecutive_errors h + 1;
          h = h\<lparr>consecutive_errors := errors, total_errors := total_errors h + 1,
                last_error_type := Some ty, last_error_message := Some (truncate_string msg 500)\<rparr>
      in if error_threshold cfg \<le> errors \<and> \<not> is_disabled h
         then (True, h\<lparr>is_disabled := True, disabled_at := Some now\<rparr>)
         else (False, h))"

definition enable_of :: "account_health \<Rightarrow> account_health" where
  "enable_of h = h\<lparr>is_disabled := False, consecutive_errors := 0, disabled_at := None\<rparr>"

definition recover_of :: "nanos \<Rightarrow> nanos \<Rightarrow> account_health \<Rightarrow> account_health" where
  "recover_of cooldown now h =
     (if is_disabled h then
        (case disabled_at h of
           Some t \<Rightarrow> if cooldown \<le> elapsed now t then enable_of h else h
         | None \<Rightarrow> h)
      else h)"

section \<open>Operations on the monitor\<close>

definition check_and_recover :: "nanos \<Rightarrow> health_monitor \<Rightarrow> health_monitor" where
  "check_and_recover now m =
     m\<lparr>hm_accounts := tmapv (recover_of (secs (unat (cooldown_seconds (hm_config m)))) now) (hm_accounts m)\<rparr>"

definition register_account :: "string \<Rightarrow> string \<Rightarrow> health_monitor \<Rightarrow> health_monitor" where
  "register_account acc email m =
     m\<lparr>hm_accounts := tentry acc (new_account_health acc email) (hm_accounts m)\<rparr>"

definition unregister_account :: "string \<Rightarrow> health_monitor \<Rightarrow> health_monitor" where
  "unregister_account acc m = m\<lparr>hm_accounts := tdel acc (hm_accounts m)\<rparr>"

definition record_success :: "string \<Rightarrow> health_monitor \<Rightarrow> health_monitor" where
  "record_success acc m =
     (case tget (hm_accounts m) acc of
        None \<Rightarrow> m
      | Some h \<Rightarrow> m\<lparr>hm_accounts := tput acc (success_of h) (hm_accounts m)\<rparr>)"

definition tracked_error :: "health_config \<Rightarrow> u16 \<Rightarrow> error_type option" where
  "tracked_error cfg code =
     (case from_status_code code of
        None \<Rightarrow> None
      | Some ty \<Rightarrow> if ty = RateLimited \<and> \<not> track_rate_limits cfg then None else Some ty)"

definition record_error ::
  "nanos \<Rightarrow> string \<Rightarrow> u16 \<Rightarrow> string \<Rightarrow> health_monitor \<Rightarrow> bool \<times> health_monitor" where
  "record_error now acc code msg m =
     (case tracked_error (hm_config m) code of
        None \<Rightarrow> (False, m)
      | Some ty \<Rightarrow>
          (case tget (hm_accounts m) acc of
             None \<Rightarrow> (False, m)
           | Some h \<Rightarrow>
               let (b, h) = error_of (hm_config m) now ty msg h
               in (b, m\<lparr>hm_accounts := tput acc h (hm_accounts m)\<rparr>)))"

definition force_enable :: "string \<Rightarrow> health_monitor \<Rightarrow> bool \<times> health_monitor" where
  "force_enable acc m =
     (case tget (hm_accounts m) acc of
        None \<Rightarrow> (False, m)
      | Some h \<Rightarrow>
          if is_disabled h then (True, m\<lparr>hm_accounts := tput acc (enable_of h) (hm_accounts m)\<rparr>)
          else (False, m))"

definition is_available :: "string \<Rightarrow> health_monitor \<Rightarrow> bool" where
  "is_available acc m =
     (case tget (hm_accounts m) acc of None \<Rightarrow> True | Some h \<Rightarrow> \<not> is_disabled h)"

definition update_config :: "health_config \<Rightarrow> health_monitor \<Rightarrow> health_monitor" where
  "update_config cfg m = m\<lparr>hm_config := cfg\<rparr>"

definition health_clear :: "health_monitor \<Rightarrow> health_monitor" where
  "health_clear m = m\<lparr>hm_accounts := []\<rparr>"

definition disabled_count :: "health_monitor \<Rightarrow> nat" where
  "disabled_count m = length (filter (\<lambda>(_, h). is_disabled h) (hm_accounts m))"

definition healthy_count :: "health_monitor \<Rightarrow> nat" where
  "healthy_count m = length (filter (\<lambda>(_, h). \<not> is_disabled h) (hm_accounts m))"

definition get_score :: "string \<Rightarrow> health_monitor \<Rightarrow> rat" where
  "get_score acc m = (case tget (hm_accounts m) acc of None \<Rightarrow> 1 | Some h \<Rightarrow> score h)"

section \<open>The response\<close>

record health_response =
  hr_account_id :: string
  hr_email :: string
  hr_status :: health_status
  hr_consecutive_errors :: u32
  hr_is_disabled :: bool
  hr_disabled_at_unix :: "u64 option"
  hr_cooldown_remaining_seconds :: "u64 option"
  hr_last_error_type :: "error_type option"
  hr_last_error_message :: "string option"
  hr_total_successes :: u32
  hr_total_errors :: u32
  hr_success_rate :: rat
  hr_health_score :: rat

definition health_status_of :: "account_health \<Rightarrow> health_status" where
  "health_status_of h =
     (if is_disabled h then (if disabled_at h \<noteq> None then Recovering else Disabled)
      else if 0 < consecutive_errors h then Degraded
      else Healthy)"

definition build_health_response :: "nanos \<Rightarrow> nanos \<Rightarrow> account_health \<Rightarrow> u64 \<Rightarrow> health_response" where
  "build_health_response now wall h cooldown_secs =
     (let total = total_successes h + total_errors h;
          since = map_option (\<lambda>t. of_nat (as_secs (elapsed now t)) :: u64) (disabled_at h)
      in \<lparr>hr_account_id = ah_account_id h,
          hr_email = ah_email h,
          hr_status = health_status_of h,
          hr_consecutive_errors = consecutive_errors h,
          hr_is_disabled = is_disabled h,
          hr_disabled_at_unix = map_option (\<lambda>el. of_nat (as_secs wall) - el) since,
          hr_cooldown_remaining_seconds = map_option (\<lambda>el. sat_sub cooldown_secs el) since,
          hr_last_error_type = last_error_type h,
          hr_last_error_message = last_error_message h,
          hr_total_successes = total_successes h,
          hr_total_errors = total_errors h,
          hr_success_rate =
            (if 0 < total
             then rnd64 (rnd64 (f64_of (total_successes h) / f64_of total) * 100) else 100),
          hr_health_score = score h\<rparr>)"

definition get_health :: "nanos \<Rightarrow> nanos \<Rightarrow> string \<Rightarrow> health_monitor \<Rightarrow> health_response option" where
  "get_health now wall acc m =
     map_option (\<lambda>h. build_health_response now wall h (cooldown_seconds (hm_config m)))
       (tget (hm_accounts m) acc)"

definition get_all_health :: "nanos \<Rightarrow> nanos \<Rightarrow> health_monitor \<Rightarrow> health_response list" where
  "get_all_health now wall m =
     List.map_filter (\<lambda>(acc, _). get_health now wall acc m) (hm_accounts m)"

section \<open>One account at a time\<close>

datatype health_event =
    HSuccess string
  | HError nanos string u16 string
  | HEnable string
  | HRegister string string
  | HUnregister string

fun health_key :: "health_event \<Rightarrow> string" where
  "health_key (HSuccess acc) = acc"
| "health_key (HError _ acc _ _) = acc"
| "health_key (HEnable acc) = acc"
| "health_key (HRegister acc _) = acc"
| "health_key (HUnregister acc) = acc"

fun health_step :: "health_event \<Rightarrow> health_monitor \<Rightarrow> health_monitor" where
  "health_step (HSuccess acc) m = record_success acc m"
| "health_step (HError now acc code msg) m = snd (record_error now acc code msg m)"
| "health_step (HEnable acc) m = snd (force_enable acc m)"
| "health_step (HRegister acc email) m = register_account acc email m"
| "health_step (HUnregister acc) m = unregister_account acc m"

text \<open>What a call does to the record of its account, under the monitor's configuration.\<close>

fun health_lstep ::
  "health_event \<Rightarrow> health_config \<times> account_health option \<Rightarrow> health_config \<times> account_health option" where
  "health_lstep (HSuccess _) (cfg, x) = (cfg, map_option success_of x)"
| "health_lstep (HError now _ code msg) (cfg, x) =
     (cfg, case tracked_error cfg code of
             None \<Rightarrow> x
           | Some ty \<Rightarrow> map_option (\<lambda>h. snd (error_of cfg now ty msg h)) x)"
| "health_lstep (HEnable _) (cfg, x) = (cfg, map_option (\<lambda>h. if is_disabled h then enable_of h else h) x)"
| "health_lstep (HRegister acc email) (cfg, x) =
     (cfg, Some (case x of None \<Rightarrow> new_account_health acc email | Some h \<Rightarrow> h))"
| "health_lstep (HUnregister _) (cfg, _) = (cfg, None)"

definition health_part :: "health_monitor \<Rightarrow> string \<Rightarrow> health_config \<times> account_health option" where
  "health_part m k = (hm_config m, tget (hm_accounts m) k)"

interpretation hm: keyed_system health_key health_step health_part health_lstep
proof
  fix e m k
  show "health_part (health_step e m) k =
      (if health_key e = k then health_lstep e (health_part m k) else health_part m k)"
    by (cases e)
      (auto simp: health_part_def record_success_def record_error_def force_enable_def split_beta Let_def
        register_account_def unregister_account_def split: option.splits)
qed

lemma is_available_part:
  "is_available acc m = (case snd (health_part m acc) of None \<Rightarrow> True | Some h \<Rightarrow> \<not> is_disabled h)"
  by (simp add: is_available_def health_part_def)

section \<open>Invariant\<close>

definition health_ok :: "health_config \<Rightarrow> account_health \<Rightarrow> bool" where
  "health_ok cfg h \<longleftrightarrow> (is_disabled h \<longleftrightarrow> disabled_at h \<noteq> None)
     \<and> (\<not> is_disabled h \<longrightarrow> consecutive_errors h < error_threshold cfg)"

text \<open>
  The monitors a configuration leads to: account calls in any order, recovery passes, clearing.
\<close>

inductive health_reachable :: "health_config \<Rightarrow> health_monitor \<Rightarrow> bool" for cfg where
  health_init: "health_reachable cfg (health_with_config cfg)"
| health_call: "health_reachable cfg m \<Longrightarrow> health_reachable cfg (health_step e m)"
| health_recover: "health_reachable cfg m \<Longrightarrow> health_reachable cfg (check_and_recover now m)"
| health_cleared: "health_reachable cfg m \<Longrightarrow> health_reachable cfg (health_clear m)"

lemma health_ok_lstep:
  assumes "0 < error_threshold cfg" and "case x of None \<Rightarrow> True | Some h \<Rightarrow> health_ok cfg h"
    and "health_lstep e (cfg, x) = (cfg', Some h')"
  shows "health_ok cfg h'"
  using assms
  by (cases e)
    (auto simp: health_ok_def success_of_def error_of_def enable_of_def new_account_health_def Let_def
      not_le split: option.splits if_splits)

lemma health_config_step [simp]: "hm_config (health_step e m) = hm_config m"
  by (cases e) (auto simp: record_success_def record_error_def force_enable_def split_beta Let_def
      register_account_def unregister_account_def split: option.splits)

lemma health_reachable_ok:
  assumes "health_reachable cfg m" and "0 < error_threshold cfg"
  shows "hm_config m = cfg \<and> (\<forall>acc h. tget (hm_accounts m) acc = Some h \<longrightarrow> health_ok cfg h)"
  using assms(1)
proof induction
  case health_init
  then show ?case by (simp add: health_with_config_def)
next
  case (health_call m e)
  have "health_ok cfg h" if h: "tget (hm_accounts (health_step e m)) acc = Some h" for acc h
  proof (cases "health_key e = acc")
    case True
    from hm.part_step [of e m acc] True h health_call.IH
    have "health_lstep e (cfg, tget (hm_accounts m) acc) = (cfg, Some h)"
      by (simp add: health_part_def)
    then show ?thesis
      using health_call.IH by (intro health_ok_lstep [OF assms(2), rotated]) (auto split: option.split)
  next
    case False
    from hm.part_step [of e m acc] False h health_call.IH show ?thesis by (simp add: health_part_def)
  qed
  then show ?case using health_call.IH by simp
next
  case (health_recover m now)
  have "health_ok cfg (recover_of c now h)" if "health_ok cfg h" for c h
    using that assms(2) by (auto simp: recover_of_def health_ok_def enable_of_def split: option.split)
  with health_recover.IH show ?case by (auto simp: check_and_recover_def)
next
  case (health_cleared m)
  then show ?case by (simp add: health_clear_def)
qed

text \<open>
  Note: the monitor's bookkeeping is consistent. Whatever calls and recovery passes were made, an
  account is disabled exactly while it has a time of disabling, an enabled account has fewer
  consecutive errors than the threshold, so the reported status is \<open>Recovering\<close> for the disabled
  accounts and never \<open>Disabled\<close>, and a remaining cooldown is reported for them and for no others.
\<close>

theorem health_consistent:
  assumes "health_reachable cfg m" and "0 < error_threshold cfg"
    and "get_health now wall acc m = Some r"
  shows "(hr_is_disabled r \<longleftrightarrow> hr_status r = Recovering) \<and> hr_status r \<noteq> Disabled
    \<and> (hr_is_disabled r \<longleftrightarrow> hr_cooldown_remaining_seconds r \<noteq> None)
    \<and> (\<not> hr_is_disabled r \<longrightarrow> hr_consecutive_errors r < error_threshold cfg)
    \<and> (hr_is_disabled r \<longleftrightarrow> \<not> is_available acc m)"
proof -
  obtain h where h: "tget (hm_accounts m) acc = Some h"
    and r: "r = build_health_response now wall h (cooldown_seconds (hm_config m))"
    using assms(3) by (auto simp: get_health_def)
  have "health_ok cfg h" using health_reachable_ok [OF assms(1,2)] h by blast
  with h r show ?thesis
    by (auto simp: health_ok_def build_health_response_def Let_def health_status_of_def is_available_def)
qed

section \<open>Disabling\<close>

lemma error_steps:
  assumes "0 < error_threshold cfg" and "\<forall>(t, code, msg) \<in> set errs. tracked_error cfg code \<noteq> None"
    and "unat (consecutive_errors h) + length errs < 2 ^ 32"
    and "is_disabled h \<longleftrightarrow> error_threshold cfg \<le> consecutive_errors h"
  shows "\<exists>h'. fold health_lstep (map (\<lambda>(t, code, msg). HError t acc code msg) errs) (cfg, Some h) = (cfg, Some h')
     \<and> (is_disabled h' \<longleftrightarrow> unat (error_threshold cfg) \<le> unat (consecutive_errors h) + length errs)
     \<and> total_errors h' = total_errors h + of_nat (length errs)"
  using assms(2-)
proof (induction errs arbitrary: h)
  case Nil
  then show ?case by (simp add: word_le_nat_alt)
next
  case (Cons x errs)
  obtain t code msg where x: "x = (t, code, msg)" by (cases x) auto
  obtain ty where ty: "tracked_error cfg code = Some ty" using Cons.prems(1) x by auto
  define h1 where "h1 = snd (error_of cfg t ty msg h)"
  have inc: "unat (consecutive_errors h + 1) = unat (consecutive_errors h) + 1"
    using Cons.prems(2) by (simp add: unat_word_ariths)
  have h1: "consecutive_errors h1 = consecutive_errors h + 1" "total_errors h1 = total_errors h + 1"
    "is_disabled h1 \<longleftrightarrow> error_threshold cfg \<le> consecutive_errors h + 1"
    using Cons.prems(3) inc by (auto simp: h1_def error_of_def Let_def word_le_nat_alt)
  have "\<exists>h'. fold health_lstep (map (\<lambda>(t, code, msg). HError t acc code msg) errs) (cfg, Some h1) = (cfg, Some h')
     \<and> (is_disabled h' \<longleftrightarrow> unat (error_threshold cfg) \<le> unat (consecutive_errors h1) + length errs)
     \<and> total_errors h' = total_errors h1 + of_nat (length errs)"
    using Cons.prems h1 inc by (intro Cons.IH) auto
  then show ?case using x ty h1 inc by (simp add: h1_def algebra_simps)
qed

text \<open>
  Claim C21: consecutive errors disable an account at the threshold, and not before. Take an enabled
  account without consecutive errors and any interleaving of calls in which the calls for this
  account are tracked errors only: afterwards it is available exactly if there were fewer errors than
  the threshold, and its error total has grown by their number. Calls for other accounts do not matter.
\<close>

theorem threshold_disables:
  assumes "tget (hm_accounts m) acc = Some h" and "\<not> is_disabled h" and "consecutive_errors h = 0"
    and own: "filter (\<lambda>e. health_key e = acc) es = map (\<lambda>(t, code, msg). HError t acc code msg) errs"
    and "\<forall>(t, code, msg) \<in> set errs. tracked_error (hm_config m) code \<noteq> None"
    and "0 < error_threshold (hm_config m)" and "length errs < 2 ^ 32"
  shows "(is_available acc (fold health_step es m) \<longleftrightarrow> length errs < unat (error_threshold (hm_config m)))
    \<and> map_option total_errors (tget (hm_accounts (fold health_step es m)) acc)
        = Some (total_errors h + of_nat (length errs))"
proof -
  have "health_part (fold health_step es m) acc
      = fold health_lstep (map (\<lambda>(t, code, msg). HError t acc code msg) errs) (hm_config m, Some h)"
    using hm.part_run [of es m acc] own assms(1) by (simp add: health_part_def)
  moreover have "is_disabled h \<longleftrightarrow> error_threshold (hm_config m) \<le> consecutive_errors h"
    using assms(2,3,6) by simp
  ultimately obtain h' where
    part: "health_part (fold health_step es m) acc = (hm_config m, Some h')"
    and h': "is_disabled h' \<longleftrightarrow> unat (error_threshold (hm_config m)) \<le> length errs"
      "total_errors h' = total_errors h + of_nat (length errs)"
    using error_steps [OF assms(6,5), of h acc] assms(3,7) by auto
  from part have "tget (hm_accounts (fold health_step es m)) acc = Some h'" by (simp add: health_part_def)
  with h' show ?thesis by (auto simp: is_available_def)
qed

definition two_errors :: health_config where
  "two_errors = \<lparr>error_threshold = 2, cooldown_seconds = 300, track_rate_limits = False,
     recovery_check_interval_seconds = 30\<rparr>"

definition monitored :: health_monitor where
  "monitored = register_account ''b'' ''b@x'' (register_account ''a'' ''a@x'' (health_with_config two_errors))"

lemma monitored_entry: "tget (hm_accounts monitored) ''a'' = Some (new_account_health ''a'' ''a@x'')"
  and monitored_config: "hm_config monitored = two_errors"
  by (simp_all add: monitored_def register_account_def health_with_config_def)

theorem threshold_disables_witness:
  "\<not> is_available ''a'' (fold health_step
     [HError 5 ''a'' 403 ''no'', HSuccess ''b'', HError 7 ''a'' 401 ''no''] monitored)"
proof -
  let ?es = "[HError 5 ''a'' 403 ''no'', HSuccess ''b'', HError 7 ''a'' 401 ''no'']"
  let ?errs = "[(5, 403, ''no''), (7, 401, ''no'')] :: (nanos \<times> u16 \<times> string) list"
  have "is_available ''a'' (fold health_step ?es monitored) \<longleftrightarrow> length ?errs < unat (error_threshold (hm_config monitored))"
    using threshold_disables [where m = monitored and acc = "''a''" and es = ?es and errs = ?errs,
      OF monitored_entry]
    by (simp add: new_account_health_def monitored_config two_errors_def tracked_error_def from_status_code_def)
  then show ?thesis by (simp add: monitored_config two_errors_def)
qed

lemma monitored_reachable: "health_reachable two_errors monitored"
  using health_call [OF health_call [OF health_init], of two_errors "HRegister ''b'' ''b@x''" "HRegister ''a'' ''a@x''"]
  by (simp add: monitored_def)

theorem health_consistent_witness:
  "\<exists>r. get_health 1 2 ''a'' monitored = Some r \<and> \<not> hr_is_disabled r \<and> hr_status r \<noteq> Disabled
     \<and> hr_cooldown_remaining_seconds r = None"
proof -
  obtain r where r: "get_health 1 2 ''a'' monitored = Some r" "\<not> hr_is_disabled r"
    by (simp add: get_health_def monitored_entry build_health_response_def Let_def new_account_health_def)
  with health_consistent [OF monitored_reachable _ r(1)] show ?thesis by (auto simp: two_errors_def)
qed

section \<open>Recovery\<close>

lemma tget_recover: "tget (hm_accounts (check_and_recover now m)) acc
    = map_option (recover_of (secs (unat (cooldown_seconds (hm_config m)))) now) (tget (hm_accounts m) acc)"
  by (simp add: check_and_recover_def)

text \<open>
  Note: recovery happens after the cooldown and only then. In every reachable state a recovery
  pass makes a disabled account available exactly if its cooldown is over; the account then starts
  again with no consecutive errors and no time of disabling, and its totals, and so its score, stay
  as they were. A pass changes nothing for the accounts that are enabled.
\<close>

theorem recovery_after_cooldown:
  assumes "health_reachable cfg m" and "0 < error_threshold cfg"
    and "tget (hm_accounts m) acc = Some h"
  shows "\<exists>h'. tget (hm_accounts (check_and_recover now m)) acc = Some h'
    \<and> (if \<not> is_disabled h then h' = h
       else \<exists>t. disabled_at h = Some t
         \<and> (if secs (unat (cooldown_seconds cfg)) \<le> now - t
            then \<not> is_disabled h' \<and> consecutive_errors h' = 0 \<and> disabled_at h' = None
            else h' = h))
    \<and> score h' = score h \<and> total_errors h' = total_errors h"
proof -
  have "health_ok cfg h" "hm_config m = cfg" using health_reachable_ok [OF assms(1,2)] assms(3) by auto
  then show ?thesis
    using assms(3)
    by (auto simp: tget_recover recover_of_def health_ok_def elapsed_def enable_of_def score_def)
qed

theorem recovery_after_cooldown_witness:
  "\<exists>h'. tget (hm_accounts (check_and_recover 99 monitored)) ''a'' = Some h'
     \<and> h' = new_account_health ''a'' ''a@x''"
  using recovery_after_cooldown [OF monitored_reachable _ monitored_entry, of 99]
  by (simp add: two_errors_def new_account_health_def)

section \<open>The score\<close>

lemma rnd32_times4_mono: "x \<le> y \<Longrightarrow> rnd32 (x * FAILURE_WEIGHT) \<le> rnd32 (y * FAILURE_WEIGHT)"
  by (rule f32.mono) (simp add: FAILURE_WEIGHT_def)

lemma score_denominator:
  "f32_of s \<le> rnd32 (f32_of s + rnd32 (f32_of e * FAILURE_WEIGHT))"
  by (rule f32.lower) (simp_all add: f32.nonneg FAILURE_WEIGHT_def)

lemma rnd32_sum_zero: "rnd32 (f32_of s + f32_of e) = 0 \<longleftrightarrow> s = 0 \<and> e = 0"
proof
  assume z: "rnd32 (f32_of s + f32_of e) = 0"
  have "f32_of s \<le> rnd32 (f32_of s + f32_of e)" "f32_of e \<le> rnd32 (f32_of s + f32_of e)"
    by (rule f32.lower; simp)+
  with z f32_of_nonneg [of s] f32_of_nonneg [of e] have "f32_of s = 0" "f32_of e = 0" by linarith+
  then show "s = 0 \<and> e = 0" by simp
qed simp

text \<open>
  Note: the health score is a sound ranking, in the single precision it is computed in. It lies
  between 0 and 1, an account without errors has score 1, and among accounts with equally many
  successes more errors never give a higher score.
\<close>

theorem score_ranks:
  assumes "total_successes h' = total_successes h" and "total_errors h \<le> total_errors h'"
  shows "0 \<le> score h' \<and> score h' \<le> score h \<and> score h \<le> 1
    \<and> (if total_errors h = 0 then score h = 1 else True)"
proof -
  let ?s = "f32_of (total_successes h)"
  define d :: "u32 \<Rightarrow> rat" where "d e = rnd32 (?s + rnd32 (f32_of e * FAILURE_WEIGHT))" for e
  have sc: "score x = (if total_successes h = 0 \<and> total_errors x = 0 then 1
      else rnd32 (?s / d (total_errors x)))" if "total_successes x = total_successes h" for x
    using that by (simp add: score_def Let_def rnd32_sum_zero d_def)
  have s0: "0 \<le> ?s" by simp
  have ds: "?s \<le> d e" for e unfolding d_def by (rule score_denominator)
  have unit: "0 \<le> rnd32 (?s / d e) \<and> rnd32 (?s / d e) \<le> 1" for e
  proof (rule f32.in_unit)
    from order_trans [OF s0 ds [of e]] show "0 \<le> ?s / d e" by simp
    from ds [of e] order_trans [OF s0 ds [of e]] show "?s / d e \<le> 1" by (cases "d e = 0") (simp_all add: divide_le_eq_1)
  qed
  have anti: "rnd32 (?s / d (total_errors h')) \<le> rnd32 (?s / d (total_errors h))"
  proof (cases "total_successes h = 0")
    case False
    then have "0 < ?s" using f32_of_pos [of "total_successes h"] word_neq_0_conv by fastforce
    moreover have "d (total_errors h) \<le> d (total_errors h')"
      unfolding d_def
      by (intro f32.mono add_left_mono rnd32_times4_mono f32_of_mono assms(2))
    ultimately show ?thesis
      using ds [of "total_errors h"] by (intro f32.mono divide_left_mono) auto
  qed simp
  have one: "score h = 1" if "total_errors h = 0"
    using that sc [of h] by (cases "total_successes h = 0") (simp_all add: d_def)
  have "total_errors h = 0" if "total_errors h' = 0" using assms(2) that by simp
  then show ?thesis
    using sc [of h] sc [of h'] unit anti one assms(1) by auto
qed

theorem score_ranks_witness:
  "score (new_account_health ''a'' ''e''\<lparr>total_successes := 3, total_errors := 2\<rparr>)
     \<le> score (new_account_health ''a'' ''e''\<lparr>total_successes := 3\<rparr>)
   \<and> score (new_account_health ''a'' ''e''\<lparr>total_successes := 3\<rparr>) = 1"
  using score_ranks [of "new_account_health ''a'' ''e''\<lparr>total_successes := 3, total_errors := 2\<rparr>"
      "new_account_health ''a'' ''e''\<lparr>total_successes := 3\<rparr>"]
  by (simp add: new_account_health_def)

lemma counts_partition: "disabled_count m + healthy_count m = length (hm_accounts m)"
proof -
  have "(\<lambda>(_, h). \<not> is_disabled h) = (\<lambda>x :: string \<times> account_health. \<not> (case x of (_, h) \<Rightarrow> is_disabled h))" by auto
  then show ?thesis
    using sum_length_filter_compl [of "\<lambda>(_, h). is_disabled h" "hm_accounts m"]
    by (simp add: disabled_count_def healthy_count_def)
qed

text \<open>Stored messages are at most 500 characters and the ellipsis.\<close>

lemma truncate_string_short: "length (chars s) \<le> n \<Longrightarrow> truncate_string s n = s"
  by (simp add: truncate_string_def)

end
