(* ===== verification/Request_Guard.thy ===== *)
theory Request_Guard
  imports Prelude
begin

text \<open>
  The slots of an account: \<open>crates/antigravity-core/src/proxy/active_request_guard.rs\<close>. A guard
  counts one request of an account for as long as it lives; \<open>try_new\<close> makes one only below the
  limit. First the guard as the code of one caller sees it, then many threads at once, with
  \<open>try_new\<close> taken apart into its load and its compare-and-exchange.
\<close>

section \<open>One caller\<close>

type_synonym slots = "(string, u32) table"

record request_guard =
  guard_key :: string
  released :: bool

definition active_count :: "slots \<Rightarrow> string \<Rightarrow> u32" where
  "active_count t k = (case tget t k of None \<Rightarrow> 0 | Some v \<Rightarrow> v)"

definition guard_new :: "slots \<Rightarrow> string \<Rightarrow> request_guard \<times> slots" where
  "guard_new t k =
     (let t = tentry k 0 t
      in (\<lparr>guard_key = k, released = False\<rparr>, tput k (active_count t k + 1) t))"

definition try_new :: "slots \<Rightarrow> string \<Rightarrow> u32 \<Rightarrow> request_guard option \<times> slots" where
  "try_new t k max_concurrent =
     (let t = tentry k 0 t; current = active_count t k
      in if max_concurrent \<le> current then (None, t)
         else (Some \<lparr>guard_key = k, released = False\<rparr>, tput k (current + 1) t))"

definition release :: "request_guard \<Rightarrow> request_guard" where
  "release g = g\<lparr>released := True\<rparr>"

definition drop_guard :: "request_guard \<Rightarrow> slots \<Rightarrow> slots" where
  "drop_guard g t =
     (if \<not> released g then
        (case tget t (guard_key g) of
           None \<Rightarrow> t
         | Some v \<Rightarrow> if 0 < v then tput (guard_key g) (v - 1) t else t)
      else t)"

lemma active_count_tentry [simp]: "active_count (tentry k 0 t) k' = active_count t k'"
  by (simp add: active_count_def split: option.split)

lemma active_count_tput [simp]: "active_count (tput k v t) k' = (if k' = k then v else active_count t k')"
  by (simp add: active_count_def)

lemma try_new_count:
  "active_count (snd (try_new t k m)) k' =
     active_count t k' + (if k' = k \<and> active_count t k < m then 1 else 0)"
  by (simp add: try_new_def Let_def not_le [symmetric])

lemma try_new_Some_iff: "fst (try_new t k m) \<noteq> None \<longleftrightarrow> active_count t k < m"
  by (simp add: try_new_def Let_def not_le [symmetric])

lemma try_new_eq_Some:
  "try_new t k m = (Some g, t') \<longleftrightarrow> active_count t k < m \<and> g = \<lparr>guard_key = k, released = False\<rparr>
     \<and> t' = tput k (active_count t k + 1) (tentry k 0 t)"
  by (auto simp: try_new_def Let_def not_le [symmetric])

lemma drop_after_try_new:
  "try_new t k m = (Some g, t') \<Longrightarrow> active_count (drop_guard g t') k' = active_count t k'"
  by (auto simp: try_new_eq_Some drop_guard_def word_less_Suc word_gt_0 unat_eq_0 [symmetric]
      simp del: unat_eq_0)

text \<open>
  What the account selection needs of the slots: a reservation succeeds exactly below the limit,
  takes one slot of its account and no other, and a loop over candidates takes the first free one.
\<close>

locale slot_pool =
  fixes count :: "'s \<Rightarrow> 'k \<Rightarrow> nat"
    and reserve :: "'s \<Rightarrow> 'k \<Rightarrow> nat \<Rightarrow> 'g option \<times> 's"
    and limit_ok :: "nat \<Rightarrow> bool"
  assumes reserve_iff: "limit_ok m \<Longrightarrow> fst (reserve s k m) \<noteq> None \<longleftrightarrow> count s k < m"
    and reserve_count: "limit_ok m \<Longrightarrow>
      count (snd (reserve s k m)) k' = count s k' + (if k' = k \<and> count s k < m then 1 else 0)"
begin

fun first_free :: "'k list \<Rightarrow> nat \<Rightarrow> 's \<Rightarrow> ('k \<times> 'g) option \<times> 's" where
  "first_free [] m s = (None, s)"
| "first_free (k # ks) m s =
     (case reserve s k m of
        (Some g, s) \<Rightarrow> (Some (k, g), s)
      | (None, s) \<Rightarrow> first_free ks m s)"

lemma first_free_spec:
  assumes "limit_ok m"
  shows "map_option fst (fst (first_free ks m s)) = find (\<lambda>k. count s k < m) ks
    \<and> (\<forall>k. count (snd (first_free ks m s)) k =
         count s k + (if find (\<lambda>k. count s k < m) ks = Some k then 1 else 0))"
proof (induction ks arbitrary: s)
  case Nil
  then show ?case by simp
next
  case (Cons k ks)
  obtain g s' where r: "reserve s k m = (g, s')" by force
  have c: "count s' k' = count s k' + (if k' = k \<and> count s k < m then 1 else 0)" for k'
    using reserve_count [OF assms, of s k k'] r by simp
  show ?case
  proof (cases "count s k < m")
    case True
    with reserve_iff [OF assms, of s k] r obtain g' where "g = Some g'" by auto
    with True r c show ?thesis by auto
  next
    case False
    with reserve_iff [OF assms, of s k] r have "g = None" by auto
    moreover from False c have same: "count s' k' = count s k'" for k' by simp
    ultimately show ?thesis using Cons.IH [of s'] False r by simp
  qed
qed

end

interpretation slots: slot_pool "\<lambda>t k. unat (active_count t k)" "\<lambda>t k m. try_new t k (of_nat m)"
  "\<lambda>m. m < 2 ^ 32"
proof
  fix m :: nat and s k assume m: "m < 2 ^ 32"
  then have um: "unat (of_nat m :: u32) = m" by (simp add: unat_of_nat take_bit_nat_eq_self)
  then have less: "active_count s k < of_nat m \<longleftrightarrow> unat (active_count s k) < m"
    by (simp add: word_less_nat_alt)
  then show "(fst (try_new s k (of_nat m)) \<noteq> None) = (unat (active_count s k) < m)"
    by (simp only: try_new_Some_iff)
  fix k'
  show "unat (active_count (snd (try_new s k (of_nat m))) k') =
      unat (active_count s k') + (if k' = k \<and> unat (active_count s k) < m then 1 else 0)"
    using less word_less_Suc [of "active_count s k" "of_nat m"] by (auto simp: try_new_count)
qed

section \<open>Many threads\<close>

text \<open>
  A thread that runs \<open>try_new\<close> has made sure the entry exists (\<open>Entered\<close>), has loaded the counter
  and found it below the limit (\<open>Loaded\<close>), or holds a guard. \<open>compare_exchange_weak\<close> may fail
  without reason and the thread loads again. A guard dropped by its holder decrements unless it is
  released. The cleanup task of the token manager removes zero counters at any time the thread holds
  no reference into the map; \<open>try_new\<close> gives up when the entry is gone.
\<close>

datatype thread = Idle | Entered string | Loaded string u32 | Holding string

record guard_system =
  counters :: slots
  threads :: "nat \<Rightarrow> thread"

definition upd :: "guard_system \<Rightarrow> slots \<Rightarrow> nat \<Rightarrow> thread \<Rightarrow> guard_system" where
  "upd s t i p = \<lparr>counters = t, threads = (threads s)(i := p)\<rparr>"

inductive guard_step :: "u32 \<Rightarrow> guard_system \<Rightarrow> guard_system \<Rightarrow> bool" for limit where
  g_enter: "threads s i = Idle \<Longrightarrow> guard_step limit s (upd s (tentry k 0 (counters s)) i (Entered k))"
| g_gone: "threads s i = Entered k \<Longrightarrow> tget (counters s) k = None \<Longrightarrow>
    guard_step limit s (upd s (counters s) i Idle)"
| g_full: "threads s i = Entered k \<Longrightarrow> tget (counters s) k = Some c \<Longrightarrow> limit \<le> c \<Longrightarrow>
    guard_step limit s (upd s (counters s) i Idle)"
| g_load: "threads s i = Entered k \<Longrightarrow> tget (counters s) k = Some c \<Longrightarrow> c < limit \<Longrightarrow>
    guard_step limit s (upd s (counters s) i (Loaded k c))"
| g_cas: "threads s i = Loaded k c \<Longrightarrow> tget (counters s) k = Some c \<Longrightarrow>
    guard_step limit s (upd s (tput k (c + 1) (counters s)) i (Holding k))"
| g_retry: "threads s i = Loaded k c \<Longrightarrow> guard_step limit s (upd s (counters s) i (Entered k))"
| g_drop: "threads s i = Holding k \<Longrightarrow>
    guard_step limit s (upd s (drop_guard \<lparr>guard_key = k, released = False\<rparr> (counters s)) i Idle)"
| g_clean: "guard_step limit s (s\<lparr>counters := tretain (\<lambda>_ v. 0 < v) (counters s)\<rparr>)"

definition initial_guards :: guard_system where
  "initial_guards = \<lparr>counters = [], threads = \<lambda>_. Idle\<rparr>"

definition holders :: "guard_system \<Rightarrow> string \<Rightarrow> nat set" where
  "holders s k = {i. threads s i = Holding k}"

definition guards_ok :: "u32 \<Rightarrow> guard_system \<Rightarrow> bool" where
  "guards_ok limit s \<longleftrightarrow> twf (counters s)
     \<and> (\<forall>k. finite (holders s k) \<and> card (holders s k) = unat (active_count (counters s) k)
          \<and> active_count (counters s) k \<le> limit)
     \<and> (\<forall>i k c. threads s i = Loaded k c \<longrightarrow> c < limit)"

lemma holders_upd:
  "holders (upd s t i p) k = (if p = Holding k then insert i (holders s k) else holders s k - {i})"
  by (auto simp: holders_def upd_def)

lemma counters_upd [simp]: "counters (upd s t i p) = t"
  and threads_upd [simp]: "threads (upd s t i p) = (threads s)(i := p)"
  by (simp_all add: upd_def)

lemma twf_drop_guard: "twf t \<Longrightarrow> twf (drop_guard g t)"
  by (auto simp: drop_guard_def split: option.split)

lemma active_count_drop:
  "active_count (drop_guard \<lparr>guard_key = k, released = False\<rparr> t) k' =
     (if k' = k \<and> 0 < active_count t k then active_count t k - 1 else active_count t k')"
  by (auto simp: drop_guard_def active_count_def split: option.split)

lemma active_count_clean: "twf t \<Longrightarrow> active_count (tretain (\<lambda>_ v. 0 < v) t) k = active_count t k"
  by (auto simp: active_count_def tget_tretain word_gt_0 split: option.split)

lemma guards_ok_same_holders:
  assumes "guards_ok limit s" and "twf t"
    and "\<And>k. active_count t k = active_count (counters s) k"
    and "\<And>k. threads s i \<noteq> Holding k" and "\<And>k. p \<noteq> Holding k"
    and "\<And>k c. p = Loaded k c \<Longrightarrow> c < limit"
  shows "guards_ok limit (upd s t i p)"
proof -
  have "holders (upd s t i p) k = holders s k" for k
    using assms(4,5) by (auto simp: holders_upd holders_def)
  with assms show ?thesis by (auto simp: guards_ok_def)
qed

lemma guards_ok_step: "guard_step limit s s' \<Longrightarrow> guards_ok limit s \<Longrightarrow> guards_ok limit s'"
proof (induction rule: guard_step.induct)
  case (g_enter s i k)
  then show ?case by (intro guards_ok_same_holders) (auto simp: guards_ok_def)
next
  case (g_gone s i k)
  then show ?case by (intro guards_ok_same_holders) (auto simp: guards_ok_def)
next
  case (g_full s i k c)
  then show ?case by (intro guards_ok_same_holders) (auto simp: guards_ok_def)
next
  case (g_load s i k c)
  then show ?case by (intro guards_ok_same_holders) (auto simp: guards_ok_def)
next
  case (g_cas s i k c)
  have c: "active_count (counters s) k = c" "c < limit"
    using g_cas by (auto simp: active_count_def guards_ok_def)
  have i: "i \<notin> holders s k'" for k' using g_cas(1) by (auto simp: holders_def)
  have h: "holders (upd s t i (Holding k)) k' = (if k' = k then insert i (holders s k) else holders s k')" for t k'
    using i by (auto simp: holders_upd)
  have c1: "unat (c + 1) = unat c + 1" using c(2) by (rule word_less_Suc)
  then have "c + 1 \<le> limit" using c(2) by (simp add: word_le_nat_alt word_less_nat_alt)
  with g_cas h i c c1 show ?case by (auto simp: guards_ok_def)
next
  case (g_retry s i k c)
  then show ?case by (intro guards_ok_same_holders) (auto simp: guards_ok_def)
next
  case (g_drop s i k)
  have i: "i \<in> holders s k" "\<And>k'. k' \<noteq> k \<Longrightarrow> i \<notin> holders s k'" using g_drop(1) by (auto simp: holders_def)
  have h: "holders (upd s t i Idle) k' = (if k' = k then holders s k - {i} else holders s k')" for t k'
    using i by (auto simp: holders_upd)
  have fin: "finite (holders s k)" and card: "card (holders s k) = unat (active_count (counters s) k)"
    using g_drop.prems by (auto simp: guards_ok_def)
  from i(1) fin have "0 < card (holders s k)" by (auto simp: card_gt_0_iff)
  with card have pos: "0 < active_count (counters s) k" by (simp add: word_less_nat_alt)
  then have "1 \<le> active_count (counters s) k" by (simp add: word_le_nat_alt word_less_nat_alt)
  then have dec: "unat (active_count (counters s) k - 1) = unat (active_count (counters s) k) - 1"
    by (simp add: unat_sub)
  moreover have "active_count (counters s) k - 1 \<le> limit"
  proof -
    have "active_count (counters s) k \<le> limit" using g_drop.prems by (auto simp: guards_ok_def)
    then show ?thesis unfolding word_le_nat_alt dec by simp
  qed
  ultimately show ?case
    using g_drop h i fin card pos by (auto simp: guards_ok_def active_count_drop twf_drop_guard)
next
  case (g_clean s)
  then show ?case by (auto simp: guards_ok_def active_count_clean holders_def)
qed

lemma guards_ok_initial: "guards_ok limit initial_guards"
  by (auto simp: guards_ok_def initial_guards_def holders_def active_count_def)

lemma guards_ok_reachable: "(guard_step limit)\<^sup>*\<^sup>* initial_guards s \<Longrightarrow> guards_ok limit s"
  by (induction rule: rtranclp_induct) (auto intro: guards_ok_step guards_ok_initial)

text \<open>
  Claim C20: no race admits more requests than the limit. However many threads reserve and drop slots,
  in whatever interleaving of the loads, the compare-and-exchanges (with spurious failures) and the
  periodic removal of zero counters, the number of threads that hold a slot of an account is the
  value of its counter, and never more than the limit.
\<close>

theorem slots_never_exceeded:
  assumes "(guard_step limit)\<^sup>*\<^sup>* initial_guards s"
  shows "card (holders s k) = unat (active_count (counters s) k) \<and> card (holders s k) \<le> unat limit
    \<and> finite (holders s k)"
  using guards_ok_reachable [OF assms] by (auto simp: guards_ok_def word_le_nat_alt)

lemma holders_initial: "holders initial_guards k = {}"
  by (simp add: holders_def initial_guards_def)

theorem slots_never_exceeded_witness:
  "\<exists>s. holders s ''a'' = {3} \<and> unat (active_count (counters s) ''a'') = 1"
proof -
  let ?s1 = "upd initial_guards (tentry ''a'' 0 []) 3 (Entered ''a'')"
  let ?s2 = "upd ?s1 (counters ?s1) 3 (Loaded ''a'' 0)"
  let ?s3 = "upd ?s2 (tput ''a'' (0 + 1) (counters ?s2)) 3 (Holding ''a'')"
  have 1: "guard_step 1 initial_guards ?s1"
    using g_enter [of initial_guards 3 1 "''a''"] by (simp add: initial_guards_def)
  have 2: "guard_step 1 ?s1 ?s2" by (rule g_load) simp_all
  have 3: "guard_step 1 ?s2 ?s3" by (rule g_cas) simp_all
  have run: "(guard_step 1)\<^sup>*\<^sup>* initial_guards ?s3"
    by (rule rtranclp.rtrancl_into_rtrancl, rule rtranclp.rtrancl_into_rtrancl,
      rule r_into_rtranclp, rule 1, rule 2, rule 3)
  have h: "holders ?s3 ''a'' = {3}" by (simp add: holders_upd holders_initial)
  from slots_never_exceeded [OF run, of "''a''"]
  have "card (holders ?s3 ''a'') = unat (active_count (counters ?s3) ''a'')" by (rule conjunct1)
  then have "unat (active_count (counters ?s3) ''a'') = 1" unfolding h by simp
  with h show ?thesis by blast
qed

text \<open>
  Note: a dropped guard gives its slot back. A successful reservation followed by the drop of the
  guard leaves every account's count as it was; a refused reservation leaves it as well; and the
  reservation succeeds exactly below the limit.
\<close>

theorem guard_round_trip:
  "case try_new t k m of
     (Some g, t') \<Rightarrow> active_count t k < m \<and> active_count t' k = active_count t k + 1
        \<and> active_count (drop_guard g t') k' = active_count t k'
   | (None, t') \<Rightarrow> m \<le> active_count t k \<and> active_count t' k' = active_count t k'"
proof (cases "active_count t k < m")
  case True
  then obtain g t' where r: "try_new t k m = (Some g, t')" by (simp add: try_new_eq_Some)
  with True drop_after_try_new [OF r, of k'] try_new_count [of t k m k] show ?thesis by simp
next
  case False
  with try_new_count [of t k m k'] show ?thesis by (simp add: try_new_def Let_def)
qed

end
