(* ===== verification/Model_Mapping.thy ===== *)
theory Model_Mapping
  imports Rust_Strings "HOL-Library.List_Lexorder" "HOL-Library.Char_ord"
begin

text \<open>
  Names of models: \<open>crates/antigravity-core/src/proxy/common/model_mapping.rs\<close> (the built-in table,
  the list of offered models, the normalisation to the ids quota protection works with) and
  \<open>model_mapping_ext.rs\<close> (routing with the user's custom mapping). Strings are sorted bytewise, as
  \<open>String\<close>'s order is.
\<close>

section \<open>The built-in table\<close>

definition CLAUDE_TO_GEMINI :: "(string, string) table" where
  "CLAUDE_TO_GEMINI =
     [(''claude-opus-4-5-thinking'', ''claude-opus-4-5-thinking''),
      (''claude-sonnet-4-5'', ''claude-sonnet-4-5''),
      (''claude-sonnet-4-5-thinking'', ''claude-sonnet-4-5-thinking''),
      (''claude-sonnet-4-5-20250929'', ''claude-sonnet-4-5-thinking''),
      (''claude-3-5-sonnet-20241022'', ''claude-sonnet-4-5''),
      (''claude-3-5-sonnet-20240620'', ''claude-sonnet-4-5''),
      (''claude-opus-4'', ''claude-opus-4-5-thinking''),
      (''claude-opus-4-5'', ''claude-opus-4-5-thinking''),
      (''claude-opus-4-5-20251101'', ''claude-opus-4-5-thinking''),
      (''claude-opus-4-6'', ''claude-opus-4-6-thinking''),
      (''claude-opus-4-6-thinking'', ''claude-opus-4-6-thinking''),
      (''claude-opus-4-6-20260201'', ''claude-opus-4-6-thinking''),
      (''claude-haiku-4'', ''claude-sonnet-4-5''),
      (''claude-haiku-4-5'', ''gemini-3-flash''),
      (''claude-3-haiku-20240307'', ''claude-sonnet-4-5''),
      (''claude-haiku-4-5-20251001'', ''claude-sonnet-4-5''),
      (''gpt-4'', ''gemini-2.5-flash''),
      (''gpt-4-turbo'', ''gemini-2.5-flash''),
      (''gpt-4-turbo-preview'', ''gemini-2.5-flash''),
      (''gpt-4-0125-preview'', ''gemini-2.5-flash''),
      (''gpt-4-1106-preview'', ''gemini-2.5-flash''),
      (''gpt-4-0613'', ''gemini-2.5-flash''),
      (''gpt-4o'', ''gemini-2.5-flash''),
      (''gpt-4o-2024-05-13'', ''gemini-2.5-flash''),
      (''gpt-4o-2024-08-06'', ''gemini-2.5-flash''),
      (''gpt-4o-mini'', ''gemini-2.5-flash''),
      (''gpt-4o-mini-2024-07-18'', ''gemini-2.5-flash''),
      (''gpt-3.5-turbo'', ''gemini-2.5-flash''),
      (''gpt-3.5-turbo-16k'', ''gemini-2.5-flash''),
      (''gpt-3.5-turbo-0125'', ''gemini-2.5-flash''),
      (''gpt-3.5-turbo-1106'', ''gemini-2.5-flash''),
      (''gpt-3.5-turbo-0613'', ''gemini-2.5-flash''),
      (''gemini-2.5-flash-lite'', ''gemini-2.5-flash-lite''),
      (''gemini-2.5-flash-thinking'', ''gemini-2.5-flash-thinking''),
      (''gemini-3-pro-low'', ''gemini-3-pro-preview''),
      (''gemini-3-pro-high'', ''gemini-3-pro-preview''),
      (''gemini-3-pro-preview'', ''gemini-3-pro-preview''),
      (''gemini-3-pro'', ''gemini-3-pro-preview''),
      (''gemini-2.5-flash'', ''gemini-2.5-flash''),
      (''gemini-3-flash'', ''gemini-3-flash''),
      (''gemini-3-flash-high'', ''gemini-3-flash''),
      (''gemini-3-flash-preview'', ''gemini-3-flash''),
      (''gemini-3-pro-image'', ''gemini-3-pro-image''),
      (''internal-background-task'', ''gemini-2.5-flash''),
      (''gemini-2.0-flash'', ''gemini-2.5-flash''),
      (''gemini-2.0-flash-exp'', ''gemini-2.5-flash''),
      (''gemini-2.0-flash-lite'', ''gemini-2.5-flash-lite''),
      (''gemini-2.0-pro'', ''gemini-2.5-flash''),
      (''gemini-2.0-pro-exp'', ''gemini-2.5-flash''),
      (''gemini-1.5-pro'', ''gemini-2.5-flash''),
      (''gemini-1.5-pro-latest'', ''gemini-2.5-flash''),
      (''gemini-1.5-flash'', ''gemini-2.5-flash''),
      (''gemini-1.5-flash-latest'', ''gemini-2.5-flash'')]"

definition map_claude_model_to_gemini :: "string \<Rightarrow> string option" where
  "map_claude_model_to_gemini input =
     (case tget CLAUDE_TO_GEMINI input of
        Some mapped \<Rightarrow> Some mapped
      | None \<Rightarrow>
          if starts_with input ''gemini-'' \<or> contains input ''thinking'' then Some input else None)"

section \<open>Offered models\<close>

definition get_supported_models :: "string list" where
  "get_supported_models = map fst CLAUDE_TO_GEMINI"

definition generate_image_model_variants :: "string list" where
  "generate_image_model_variants =
     concat (map (\<lambda>res. map (\<lambda>ratio. ''gemini-3-pro-image'' @ res @ ratio)
        [[], ''-1x1'', ''-4x3'', ''-3x4'', ''-16x9'', ''-9x16'', ''-21x9''])
      [[], ''-2k'', ''-4k''])"

definition collect_all_model_ids :: "string list \<Rightarrow> (string, string) table \<Rightarrow> string list" where
  "collect_all_model_ids account_models custom =
     sort (remdups (account_models @ get_supported_models @ map fst custom @ generate_image_model_variants))"

definition get_all_dynamic_models :: "(string, string) table \<Rightarrow> string list" where
  "get_all_dynamic_models custom =
     sort (remdups (get_supported_models @ map fst custom @ generate_image_model_variants
       @ [''gemini-2.0-flash-exp'']))"

section \<open>Normalisation\<close>

text \<open>The part after the table lookup.\<close>

definition standard_id_of :: "string \<Rightarrow> string option" where
  "standard_id_of model_name =
     (let lower = to_lowercase model_name
      in if lower = ''gemini-3-flash'' \<or> starts_with lower ''gemini-3-flash-'' then Some ''gemini-3-flash''
         else if starts_with lower ''gemini-3-pro'' then Some ''gemini-3-pro-high''
         else if contains lower ''opus'' then Some ''claude-opus-4-5-thinking''
         else if contains lower ''sonnet'' \<and> contains lower ''thinking'' then Some ''claude-sonnet-4-5-thinking''
         else if contains lower ''sonnet'' \<or> contains lower ''haiku'' then Some ''claude-sonnet-4-5''
         else None)"

definition MAX_DEPTH :: nat where "MAX_DEPTH = 5"

function normalize_with_depth :: "string \<Rightarrow> nat \<Rightarrow> string option" where
  "normalize_with_depth model_name depth =
     (if MAX_DEPTH < depth then None
      else case tget CLAUDE_TO_GEMINI model_name of
             None \<Rightarrow> standard_id_of model_name
           | Some mapped \<Rightarrow>
               if mapped \<noteq> model_name then normalize_with_depth mapped (depth + 1)
               else standard_id_of model_name)"
  by pat_completeness auto
termination
  by (relation "measure (\<lambda>(_, d). Suc MAX_DEPTH - d)") (auto simp: MAX_DEPTH_def)

declare normalize_with_depth.simps [simp del]

definition normalize_to_standard_id :: "string \<Rightarrow> string option" where
  "normalize_to_standard_id model_name = normalize_with_depth model_name 0"

section \<open>Routing\<close>

definition wildcard_match :: "string \<Rightarrow> string \<Rightarrow> bool" where
  "wildcard_match pattern txt =
     (case str_find pattern ''*'' of
        Some star_pos \<Rightarrow>
          starts_with txt (take star_pos pattern) \<and> ends_with txt (drop (star_pos + 1) pattern)
      | None \<Rightarrow> pattern = txt)"

text \<open>\<open>Ok (model, reason)\<close> is \<open>Inr\<close>; the list of the table is the iteration order of the map.\<close>

definition resolve_model_route ::
  "string \<Rightarrow> (string, string) table \<Rightarrow> string + (string \<times> string)" where
  "resolve_model_route original custom =
     (case tget custom original of
        Some target \<Rightarrow> Inr (target, ''exact'')
      | None \<Rightarrow>
          (case find (\<lambda>(p, _). contains p ''*'' \<and> wildcard_match p original) custom of
             Some (p, target) \<Rightarrow> Inr (target, ''wildcard:'' @ p)
           | None \<Rightarrow>
               (case map_claude_model_to_gemini original of
                  Some result \<Rightarrow> Inr (result, if result \<noteq> original then ''system'' else ''passthrough'')
                | None \<Rightarrow> Inl (''Unknown model: '' @ original))))"

section \<open>The table\<close>

definition table_targets :: "string list" where
  "table_targets = [''claude-opus-4-5-thinking'',
     ''claude-sonnet-4-5'',
     ''claude-sonnet-4-5-thinking'',
     ''claude-opus-4-6-thinking'',
     ''gemini-3-flash'',
     ''gemini-2.5-flash'',
     ''gemini-2.5-flash-lite'',
     ''gemini-2.5-flash-thinking'',
     ''gemini-3-pro-preview'',
     ''gemini-3-pro-image'']"

lemma targets_in: "list_all (\<lambda>(_, v). v \<in> set table_targets) CLAUDE_TO_GEMINI"
  by (simp add: CLAUDE_TO_GEMINI_def table_targets_def)

lemma targets_fixed: "list_all (\<lambda>v. tget CLAUDE_TO_GEMINI v = Some v) table_targets"
  by (simp add: CLAUDE_TO_GEMINI_def table_targets_def)

lemma table_target_fixed:
  assumes "tget CLAUDE_TO_GEMINI m = Some t"
  shows "tget CLAUDE_TO_GEMINI t = Some t"
proof -
  from assms have "(m, t) \<in> set CLAUDE_TO_GEMINI" by (rule map_of_SomeD)
  with targets_in have "t \<in> set table_targets" by (auto simp: list_all_iff)
  with targets_fixed show ?thesis by (auto simp: list_all_iff)
qed

text \<open>
  Note: the model mapping is idempotent. A model name that is mapped to a backend model at all is
  mapped to a name that the mapping leaves alone, so mapping twice (as a retry or a nested router
  does) is mapping once, and routing an already routed name without custom rules passes it through.
\<close>

theorem mapping_idempotent:
  assumes "map_claude_model_to_gemini m = Some t"
  shows "map_claude_model_to_gemini t = Some t \<and> resolve_model_route t [] = Inr (t, ''passthrough'')"
proof -
  have "map_claude_model_to_gemini t = Some t"
  proof (cases "tget CLAUDE_TO_GEMINI m")
    case None
    with assms have "t = m" by (simp add: map_claude_model_to_gemini_def split: if_splits)
    with assms show ?thesis by simp
  next
    case (Some t')
    with assms table_target_fixed [OF Some] show ?thesis by (simp add: map_claude_model_to_gemini_def)
  qed
  then show ?thesis by (simp add: resolve_model_route_def)
qed

lemma map_opus: "map_claude_model_to_gemini ''claude-opus-4'' = Some ''claude-opus-4-5-thinking''"
  by (simp add: map_claude_model_to_gemini_def CLAUDE_TO_GEMINI_def)

theorem mapping_idempotent_witness:
  "resolve_model_route ''claude-opus-4-5-thinking'' [] = Inr (''claude-opus-4-5-thinking'', ''passthrough'')"
  using mapping_idempotent [OF map_opus] by (rule conjunct2)

section \<open>The normalisation without its depth limit\<close>

definition target_or_self :: "string \<Rightarrow> string" where
  "target_or_self m = (case tget CLAUDE_TO_GEMINI m of None \<Rightarrow> m | Some t \<Rightarrow> t)"

lemma normalize_fixed:
  assumes "tget CLAUDE_TO_GEMINI t = Some t" and "d \<le> MAX_DEPTH"
  shows "normalize_with_depth t d = standard_id_of t"
  using assms by (subst normalize_with_depth.simps) simp

lemma normalize_unfold: "normalize_to_standard_id m = standard_id_of (target_or_self m)"
proof (cases "tget CLAUDE_TO_GEMINI m")
  case None
  then show ?thesis
    unfolding normalize_to_standard_id_def target_or_self_def by (subst normalize_with_depth.simps) simp
next
  case (Some t)
  have "normalize_with_depth t (Suc 0) = standard_id_of t" "normalize_with_depth t 0 = standard_id_of t"
    using normalize_fixed [OF table_target_fixed [OF Some]] by (simp_all add: MAX_DEPTH_def)
  with Some show ?thesis
    unfolding normalize_to_standard_id_def target_or_self_def by (subst normalize_with_depth.simps) simp
qed

definition standard_ids :: "string list" where
  "standard_ids = [''gemini-3-flash'', ''gemini-3-pro-high'', ''claude-opus-4-5-thinking'',
     ''claude-sonnet-4-5-thinking'', ''claude-sonnet-4-5'']"

lemma standard_id_of_in: "standard_id_of m = Some s \<Longrightarrow> s \<in> set standard_ids"
  by (auto simp: standard_id_of_def standard_ids_def Let_def split: if_splits)

lemma standard_targets:
  "map target_or_self standard_ids = [''gemini-3-flash'', ''gemini-3-pro-preview'',
     ''claude-opus-4-5-thinking'', ''claude-sonnet-4-5-thinking'', ''claude-sonnet-4-5'']"
  by (simp add: standard_ids_def target_or_self_def CLAUDE_TO_GEMINI_def)

lemma standard_of_targets:
  "map standard_id_of [''gemini-3-flash'', ''gemini-3-pro-preview'',
     ''claude-opus-4-5-thinking'', ''claude-sonnet-4-5-thinking'', ''claude-sonnet-4-5'']
   = map Some standard_ids"
  by (simp add: standard_ids_def standard_id_of_def to_lowercase_ascii is_ascii_def ascii_lower_def Let_def)

lemma normalize_standard: "s \<in> set standard_ids \<Longrightarrow> normalize_to_standard_id s = Some s"
proof -
  have "map (\<lambda>s. normalize_to_standard_id s) standard_ids = map standard_id_of (map target_or_self standard_ids)"
    by (simp add: normalize_unfold)
  also have "\<dots> = map Some standard_ids" unfolding standard_targets by (rule standard_of_targets)
  finally show "s \<in> set standard_ids \<Longrightarrow> normalize_to_standard_id s = Some s" by (simp add: map_eq_conv)
qed

text \<open>
  Note: normalisation is a projection onto five standard ids, and its recursion limit is never
  felt. For every name the result is the standard id of the backend model it maps to (one table
  lookup, no depth), it is one of the five ids or none, and normalising a standard id gives that id
  back, so locks and protections stored under normalised names are found again.
\<close>

theorem normalization_projects:
  "normalize_to_standard_id m = standard_id_of (target_or_self m)
   \<and> (case normalize_to_standard_id m of
        None \<Rightarrow> True
      | Some s \<Rightarrow> s \<in> set standard_ids \<and> normalize_to_standard_id s = Some s)"
  using normalize_standard standard_id_of_in
  by (auto simp: normalize_unfold split: option.split)

section \<open>Wildcards\<close>

lemma wildcard_match_split:
  assumes "\<not> contains p ''*''"
  shows "wildcard_match (p @ ''*'' @ s) t \<longleftrightarrow> starts_with t p \<and> ends_with t s"
proof -
  obtain j where j: "str_find (p @ ''*'' @ s) ''*'' = Some j"
    using str_find_None [of "p @ ''*'' @ s" "''*''"] contains_iff by fastforce
  from str_find_Some [OF j] obtain u where u: "p @ ''*'' @ s = take j (p @ ''*'' @ s) @ ''*'' @ u" by blast
  have "j = length p"
  proof (rule ccontr)
    assume "j \<noteq> length p"
    then consider "j < length p" | "length p < j" by linarith
    then show False
    proof cases
      case 1
      then have "p @ ''*'' @ s = take j p @ ''*'' @ u" using u by simp
      then have "take (Suc j) (p @ ''*'' @ s) = take (Suc j) (take j p @ ''*'' @ u)" by (rule arg_cong)
      with 1 have "take (Suc j) p = take j p @ ''*''" by simp
      then have "p = take j p @ ''*'' @ drop (Suc j) p"
        by (metis append.assoc append_take_drop_id)
      with assms show False unfolding contains_iff by blast
    next
      case 2
      then show False using str_find_first [OF j, of "length p"] by (simp add: starts_with_iff)
    qed
  qed
  with j show ?thesis by (simp add: wildcard_match_def)
qed

lemma starts_ends_overlap:
  assumes "starts_with t p" and "ends_with t s" and "length p + length s \<le> length t"
  shows "\<exists>u. t = p @ u @ s"
proof -
  from assms(1) obtain a where a: "t = p @ a" unfolding starts_with_iff by blast
  from assms(2) obtain b where b: "t = b @ s" unfolding ends_with_iff by blast
  have "length t = length p + length a" using a by simp
  with assms(3) have "length s \<le> length a" by linarith
  then have "t = p @ take (length a - length s) a @ drop (length a - length s) a" using a by simp
  moreover have "drop (length a - length s) a = s"
  proof -
    have "drop (length t - length s) t = s" using b by simp
    with a \<open>length s \<le> length a\<close> show ?thesis by simp
  qed
  ultimately show ?thesis by auto
qed

lemma ends_with_append3: "ends_with (p @ u @ s) s"
  unfolding ends_with_iff by (metis append.assoc)

text \<open>
  Note: a wildcard rule with one star matches by prefix and suffix. For names at least as long as
  the two parts together this is the usual meaning (the star stands for any text); but the two parts
  may overlap in a shorter name, which then matches although no text in place of the star gives it.
\<close>

theorem wildcard_meaning:
  assumes "\<not> contains p ''*''"
  shows "(wildcard_match (p @ ''*'' @ s) t \<longleftrightarrow>
        (\<exists>u. t = p @ u @ s) \<or> (starts_with t p \<and> ends_with t s \<and> length t < length p + length s))
    \<and> wildcard_match ''gpt-4*4o'' ''gpt-4o'' \<and> (\<nexists>u. ''gpt-4o'' = ''gpt-4'' @ u @ ''4o'')"
proof -
  have "wildcard_match (p @ ''*'' @ s) t \<longleftrightarrow>
        (\<exists>u. t = p @ u @ s) \<or> (starts_with t p \<and> ends_with t s \<and> length t < length p + length s)"
  proof (cases "length p + length s \<le> length t")
    case True
    have "starts_with t p \<and> ends_with t s \<longleftrightarrow> (\<exists>u. t = p @ u @ s)"
      using starts_ends_overlap [OF _ _ True] ends_with_append3 by auto
    with True show ?thesis unfolding wildcard_match_split [OF assms] by auto
  next
    case False
    then show ?thesis unfolding wildcard_match_split [OF assms] by auto
  qed
  moreover have "\<not> contains ''gpt-4'' ''*''" by simp
  then have "wildcard_match ''gpt-4*4o'' ''gpt-4o''"
    using wildcard_match_split [of "''gpt-4''" "''4o''" "''gpt-4o''"] by (simp add: ends_with_def)
  moreover have "\<nexists>u. ''gpt-4o'' = ''gpt-4'' @ u @ ''4o''" by (auto simp: append_eq_Cons_conv)
  ultimately show ?thesis by simp
qed

theorem wildcard_meaning_witness: "wildcard_match ''a*b'' ''axb''"
proof -
  have "\<exists>u. ''axb'' = ''a'' @ u @ ''b''" by (rule exI [of _ "''x''"]) simp
  with wildcard_meaning [of "''a''" "''b''" "''axb''"] show ?thesis by simp
qed

text \<open>
  Claim C26: routing has the order the documentation gives. An exact rule wins; otherwise some
  matching wildcard rule of the user's mapping decides if there is one; otherwise the built-in table;
  and a name is rejected exactly if no rule covers it and the built-in mapping does not know it.
\<close>

theorem routing_precedence:
  "case resolve_model_route m custom of
     Inr (t, reason) \<Rightarrow>
       (tget custom m = Some t \<and> reason = ''exact'')
       \<or> (tget custom m = None \<and> (\<exists>p. (p, t) \<in> set custom \<and> contains p ''*'' \<and> wildcard_match p m
             \<and> reason = ''wildcard:'' @ p))
       \<or> (tget custom m = None \<and> (\<nexists>p u. (p, u) \<in> set custom \<and> contains p ''*'' \<and> wildcard_match p m)
             \<and> map_claude_model_to_gemini m = Some t)
   | Inl e \<Rightarrow>
       tget custom m = None \<and> (\<nexists>p u. (p, u) \<in> set custom \<and> contains p ''*'' \<and> wildcard_match p m)
       \<and> map_claude_model_to_gemini m = None \<and> e = ''Unknown model: '' @ m"
proof (cases "find (\<lambda>(p, _). contains p ''*'' \<and> wildcard_match p m) custom")
  case None
  then have "\<nexists>p u. (p, u) \<in> set custom \<and> contains p ''*'' \<and> wildcard_match p m"
    by (auto simp: find_None_iff)
  with None show ?thesis by (auto simp: resolve_model_route_def split: option.split)
next
  case (Some x)
  obtain p t where x: "x = (p, t)" by (cases x)
  from Some x have "(p, t) \<in> set custom \<and> contains p ''*'' \<and> wildcard_match p m"
    by (auto simp: find_Some_iff in_set_conv_nth)
  with Some x show ?thesis by (auto simp: resolve_model_route_def split: option.split)
qed

lemma dynamic_models_collect: "get_all_dynamic_models custom = collect_all_model_ids [] custom"
proof -
  have "''gemini-2.0-flash-exp'' \<in> set get_supported_models"
    by (simp add: get_supported_models_def CLAUDE_TO_GEMINI_def)
  then have "set (get_supported_models @ map fst custom @ generate_image_model_variants @ [''gemini-2.0-flash-exp''])
      = set ([] @ get_supported_models @ map fst custom @ generate_image_model_variants)" by auto
  then have "sorted_list_of_set (set (get_supported_models @ map fst custom @ generate_image_model_variants @ [''gemini-2.0-flash-exp'']))
      = sorted_list_of_set (set ([] @ get_supported_models @ map fst custom @ generate_image_model_variants))"
    by (rule arg_cong)
  then show ?thesis
    unfolding get_all_dynamic_models_def collect_all_model_ids_def sorted_list_of_set_sort_remdups [symmetric] .
qed

text \<open>The one Haiku name the normalisation does not treat as Sonnet.\<close>

lemma haiku_4_5_is_flash: "normalize_to_standard_id ''claude-haiku-4-5'' = Some ''gemini-3-flash''"
proof -
  have "target_or_self ''claude-haiku-4-5'' = ''gemini-3-flash''"
    by (simp add: target_or_self_def CLAUDE_TO_GEMINI_def)
  then show ?thesis
    using standard_of_targets by (simp add: normalize_unfold standard_ids_def)
qed

end
