(* ===== verification/Token.thy ===== *)
theory Token
  imports Rust_Strings "HOL-Library.Multiset"
begin

text \<open>
  One account's token, \<open>crates/antigravity-core/src/proxy/token_manager/proxy_token.rs\<close>, and the
  priority order of tokens, \<open>compare_tokens_by_priority\<close> of \<open>selection_helpers.rs\<close>, with the
  stable sort (\<open>slice::sort_by\<close>) it is used in.
\<close>

section \<open>Stable sorting by a comparator\<close>

datatype ordering = OLess | OEqual | OGreater

fun then_with :: "ordering \<Rightarrow> ordering \<Rightarrow> ordering" where
  "then_with OEqual o2 = o2"
| "then_with o1 _ = o1"

definition ord_cmp :: "'a::linorder \<Rightarrow> 'a \<Rightarrow> ordering" where
  "ord_cmp a b = (if a < b then OLess else if a = b then OEqual else OGreater)"

fun insort_by :: "('a \<Rightarrow> 'a \<Rightarrow> ordering) \<Rightarrow> 'a \<Rightarrow> 'a list \<Rightarrow> 'a list" where
  "insort_by cmp x [] = [x]"
| "insort_by cmp x (y # ys) = (if cmp x y = OGreater then y # insort_by cmp x ys else x # y # ys)"

definition sort_by :: "('a \<Rightarrow> 'a \<Rightarrow> ordering) \<Rightarrow> 'a list \<Rightarrow> 'a list" where
  "sort_by cmp xs = foldr (insort_by cmp) xs []"

lemma mset_insort_by: "mset (insort_by cmp x ys) = add_mset x (mset ys)"
  by (induction ys) auto

lemma mset_sort_by [simp]: "mset (sort_by cmp xs) = mset xs"
  unfolding sort_by_def by (induction xs) (simp_all add: mset_insort_by)

lemma set_sort_by [simp]: "set (sort_by cmp xs) = set xs"
  using mset_sort_by [of cmp xs] by (metis set_mset_mset)

lemma length_sort_by [simp]: "length (sort_by cmp xs) = length xs"
  using mset_sort_by [of cmp xs] by (metis size_mset)

text \<open>What \<open>sort_by\<close> asks of a comparator, and what a caller gets from it.\<close>

locale comparator =
  fixes cmp :: "'a \<Rightarrow> 'a \<Rightarrow> ordering"
  assumes cmp_refl: "cmp x x = OEqual"
    and cmp_swap: "cmp x y = OGreater \<longleftrightarrow> cmp y x = OLess"
    and cmp_trans: "cmp x y \<noteq> OGreater \<Longrightarrow> cmp y z \<noteq> OGreater \<Longrightarrow> cmp x z \<noteq> OGreater"
begin

lemma cmp_total: "cmp x y \<noteq> OGreater \<or> cmp y x \<noteq> OGreater"
  using cmp_swap [of x y] by (cases "cmp y x") auto

lemma sorted_insort:
  "sorted_wrt (\<lambda>x y. cmp x y \<noteq> OGreater) ys \<Longrightarrow> sorted_wrt (\<lambda>x y. cmp x y \<noteq> OGreater) (insort_by cmp x ys)"
proof (induction ys)
  case (Cons y ys)
  have set: "set (insort_by cmp x ys) = insert x (set ys)"
    using mset_insort_by [of cmp x ys] by (metis set_mset_add_mset_insert set_mset_mset)
  show ?case
  proof (cases "cmp x y = OGreater")
    case True
    then have "cmp y x \<noteq> OGreater" using cmp_total [of x y] by simp
    with True Cons set show ?thesis by auto
  next
    case False
    with Cons.prems cmp_trans [OF False] show ?thesis by auto
  qed
qed simp

lemma sorted_sort: "sorted_wrt (\<lambda>x y. cmp x y \<noteq> OGreater) (sort_by cmp xs)"
  unfolding sort_by_def by (induction xs) (simp_all add: sorted_insort)

lemma stable_insort:
  "(\<And>a b. P a \<Longrightarrow> P b \<Longrightarrow> cmp a b \<noteq> OGreater) \<Longrightarrow>
   filter P (insort_by cmp x ys) = (if P x then x # filter P ys else filter P ys)"
  by (induction ys) auto

text \<open>Elements the comparator does not tell apart keep their order.\<close>

lemma stable_sort:
  assumes "\<And>a b. P a \<Longrightarrow> P b \<Longrightarrow> cmp a b \<noteq> OGreater"
  shows "filter P (sort_by cmp xs) = filter P xs"
  unfolding sort_by_def using stable_insort [of P, OF assms] by (induction xs) simp_all

lemma first_is_least:
  assumes "find P (sort_by cmp xs) = Some x" and "y \<in> set xs" and "P y"
  shows "cmp x y \<noteq> OGreater"
proof -
  let ?l = "sort_by cmp xs"
  obtain i where i: "i < length ?l" "P (?l ! i)" "x = ?l ! i" "\<And>j. j < i \<Longrightarrow> \<not> P (?l ! j)"
    using assms(1) by (auto simp: find_Some_iff)
  obtain j where j: "j < length ?l" "?l ! j = y" using assms(2) by (metis in_set_conv_nth set_sort_by)
  with i assms(3) have "i \<le> j" by (metis not_le)
  show ?thesis
  proof (cases "i = j")
    case True
    with i j show ?thesis by (simp add: cmp_refl)
  next
    case False
    with \<open>i \<le> j\<close> have "i < j" by simp
    then show ?thesis using sorted_wrt_nth_less [OF sorted_sort _ j(1)] i(3) j(2) by blast
  qed
qed

end

lemma then_with_eqs:
  "then_with a b = OGreater \<longleftrightarrow> a = OGreater \<or> (a = OEqual \<and> b = OGreater)"
  "then_with a b = OLess \<longleftrightarrow> a = OLess \<or> (a = OEqual \<and> b = OLess)"
  "then_with a b = OEqual \<longleftrightarrow> a = OEqual \<and> b = OEqual"
  by (cases a; simp)+

lemma ord_cmp_eqs [simp]:
  "ord_cmp a b = OGreater \<longleftrightarrow> b < a"
  "ord_cmp a b = OLess \<longleftrightarrow> a < b"
  "ord_cmp a b = OEqual \<longleftrightarrow> a = b"
  by (auto simp: ord_cmp_def)

lemma comparator_key: "comparator (\<lambda>x y. ord_cmp (f x) (f y))"
  by unfold_locales auto

lemma comparator_rev_key: "comparator (\<lambda>x y. ord_cmp (f y) (f x))"
  by unfold_locales auto

lemma comparator_on: "comparator c \<Longrightarrow> comparator (\<lambda>x y. c (f x) (f y))"
  unfolding comparator_def by blast

lemma comparator_then:
  assumes "comparator c" and "comparator d"
  shows "comparator (\<lambda>x y. then_with (c x y) (d x y))"
proof
  show "then_with (c x x) (d x x) = OEqual" for x
    using assms by (simp add: comparator_def)
  have eq: "c x y = OEqual \<longleftrightarrow> c y x = OEqual" for x y
    using comparator.cmp_swap [OF assms(1), of x y] comparator.cmp_swap [OF assms(1), of y x]
    by (cases "c x y"; cases "c y x") auto
  show "then_with (c x y) (d x y) = OGreater \<longleftrightarrow> then_with (c y x) (d y x) = OLess" for x y
    unfolding then_with_eqs eq [of x y]
    by (simp add: comparator.cmp_swap [OF assms(1)] comparator.cmp_swap [OF assms(2)])
  fix x y z
  assume xy: "then_with (c x y) (d x y) \<noteq> OGreater" and yz: "then_with (c y z) (d y z) \<noteq> OGreater"
  then have c: "c x y \<noteq> OGreater" "c y z \<noteq> OGreater" by (auto simp: then_with_eqs)
  with comparator.cmp_trans [OF assms(1)] have xz: "c x z \<noteq> OGreater" by blast
  show "then_with (c x z) (d x z) \<noteq> OGreater"
  proof (cases "c x z = OEqual")
    case True
    then have "c z x \<noteq> OGreater" using eq [of x z] by simp
    with c comparator.cmp_trans [OF assms(1)] have "c y x \<noteq> OGreater" "c z y \<noteq> OGreater" by blast+
    with c have "c x y = OEqual" "c y z = OEqual"
      using comparator.cmp_swap [OF assms(1)] by (metis ordering.exhaust)+
    with xy yz comparator.cmp_trans [OF assms(2)] True show ?thesis by (simp add: then_with_eqs)
  next
    case False
    with xz show ?thesis by (cases "c x z") auto
  qed
qed

section \<open>Tokens\<close>

datatype account_tier = UltraBusiness | Ultra | Pro | Free | UnknownTier

definition is_ultra :: "account_tier \<Rightarrow> bool" where
  "is_ultra t \<longleftrightarrow> t = UltraBusiness \<or> t = Ultra"

fun priority :: "account_tier \<Rightarrow> nat" where
  "priority UltraBusiness = 0"
| "priority Ultra = 1"
| "priority Pro = 2"
| "priority Free = 3"
| "priority UnknownTier = 4"

record proxy_token =
  account_id :: string
  access_token :: string
  refresh_token :: string
  expires_in :: int
  timestamp :: int
  email :: string
  account_path :: string
  project_id :: "string option"
  subscription_tier :: "string option"
  remaining_quota :: "int option"
  protected_models :: "string set"
  health_score :: rat
  available_models :: "string set"
  proxy_url :: "string option"
  cached_tier :: account_tier

definition parse_tier :: "string option \<Rightarrow> account_tier" where
  "parse_tier subscription =
     (case subscription of
        Some t \<Rightarrow>
          if contains t ''ultra-business'' then UltraBusiness
          else if contains t ''ultra'' then Ultra
          else if contains t ''pro'' then Pro
          else if contains t ''free'' then Free
          else UnknownTier
      | None \<Rightarrow> UnknownTier)"

definition new_token ::
  "string \<Rightarrow> string \<Rightarrow> string \<Rightarrow> int \<Rightarrow> int \<Rightarrow> string \<Rightarrow> string \<Rightarrow> string option \<Rightarrow> string option
   \<Rightarrow> int option \<Rightarrow> string set \<Rightarrow> rat \<Rightarrow> string set \<Rightarrow> string option \<Rightarrow> proxy_token" where
  "new_token acc access refresh expires ts mail path project tier quota protected health available proxy =
     \<lparr>account_id = acc, access_token = access, refresh_token = refresh, expires_in = expires,
      timestamp = ts, email = mail, account_path = path, project_id = project,
      subscription_tier = tier, remaining_quota = quota, protected_models = protected,
      health_score = health, available_models = available, proxy_url = proxy,
      cached_tier = parse_tier tier\<rparr>"

definition is_ultra_tier :: "proxy_token \<Rightarrow> bool" where
  "is_ultra_tier t = is_ultra (cached_tier t)"

definition is_business_ultra :: "proxy_token \<Rightarrow> bool" where
  "is_business_ultra t \<longleftrightarrow> cached_tier t = UltraBusiness"

definition tier_priority :: "proxy_token \<Rightarrow> nat" where
  "tier_priority t = priority (cached_tier t)"

definition tier_weight :: "proxy_token \<Rightarrow> rat" where
  "tier_weight t =
     (case cached_tier t of
        UltraBusiness \<Rightarrow> rnd32 (1 / 10)
      | Ultra \<Rightarrow> rnd32 (1 / 4)
      | Pro \<Rightarrow> rnd32 (4 / 5)
      | Free \<Rightarrow> 1
      | UnknownTier \<Rightarrow> rnd32 (5 / 4))"

definition REFRESH_BUFFER_SECS :: int where "REFRESH_BUFFER_SECS = 300"

definition needs_refresh :: "int \<Rightarrow> proxy_token \<Rightarrow> bool" where
  "needs_refresh now t \<longleftrightarrow> i64_sat_sub (timestamp t) REFRESH_BUFFER_SECS \<le> now"

section \<open>Priority\<close>

definition compare_tokens_by_priority :: "proxy_token \<Rightarrow> proxy_token \<Rightarrow> ordering" where
  "compare_tokens_by_priority a b =
     (let tier_cmp = ord_cmp (tier_priority a) (tier_priority b)
      in if tier_cmp \<noteq> OEqual then tier_cmp
         else
           let quota_a = (case remaining_quota a of None \<Rightarrow> 0 | Some q \<Rightarrow> q);
               quota_b = (case remaining_quota b of None \<Rightarrow> 0 | Some q \<Rightarrow> q);
               quota_cmp = ord_cmp quota_b quota_a
           in if quota_cmp \<noteq> OEqual then quota_cmp
              else ord_cmp (health_score b) (health_score a))"

text \<open>The selection also breaks ties by the load of the account.\<close>

definition compare_with_load :: "proxy_token \<times> u32 \<Rightarrow> proxy_token \<times> u32 \<Rightarrow> ordering" where
  "compare_with_load x y =
     then_with (compare_tokens_by_priority (fst x) (fst y)) (ord_cmp (snd x) (snd y))"

definition quota_or_0 :: "proxy_token \<Rightarrow> int" where
  "quota_or_0 t = (case remaining_quota t of None \<Rightarrow> 0 | Some q \<Rightarrow> q)"

lemma if_then_with: "(if c \<noteq> OEqual then c else d) = then_with c d"
  by (cases c) simp_all

lemma compare_tokens_eqs:
  "compare_tokens_by_priority a b =
     then_with (ord_cmp (tier_priority a) (tier_priority b))
       (then_with (ord_cmp (quota_or_0 b) (quota_or_0 a)) (ord_cmp (health_score b) (health_score a)))"
  unfolding compare_tokens_by_priority_def Let_def quota_or_0_def if_then_with ..

interpretation tokens: comparator compare_tokens_by_priority
  unfolding compare_tokens_eqs [abs_def]
  by (rule comparator_then [OF comparator_key comparator_then [OF comparator_rev_key comparator_rev_key]])

interpretation loaded: comparator compare_with_load
  unfolding compare_with_load_def [abs_def]
  by (rule comparator_then [OF comparator_on [OF tokens.comparator_axioms] comparator_key])

lemma priority_le_4: "priority t \<le> 4"
  by (cases t) simp_all

end
