(* ===== verification/Token_Pool.thy ===== *)
theory Token_Pool
  imports Token Rate_Limit Health Request_Guard Adaptive_Limit Model_Mapping
begin

text \<open>
  The token manager of \<open>crates/antigravity-core/src/proxy/token_manager/\<close>: its state (\<open>mod.rs\<close>),
  what it passes on to its parts (\<open>rate_limiter.rs\<close>, \<open>health.rs\<close>, \<open>routing.rs\<close>, \<open>mod.rs\<close>),
  the bindings of sessions to accounts (\<open>session.rs\<close>) and the periodic cleanup (\<open>mod.rs\<close>).

  One clock serves \<open>SystemTime\<close>, \<open>Instant\<close> and \<open>chrono::Utc\<close>: nanoseconds \<open>now\<close> since the epoch,
  read once per call; \<open>chrono\<close>'s time stamp is its whole seconds.
\<close>

section \<open>State\<close>

record routing_config =
  max_concurrent_per_account :: u32
  preemptive_throttle_ratio :: rat
  throttle_delay_ms :: u64
  enable_session_affinity :: bool

definition default_routing :: routing_config where
  "default_routing = \<lparr>max_concurrent_per_account = 5, preemptive_throttle_ratio = rnd32 (4 / 5),
     throttle_delay_ms = 100, enable_session_affinity = True\<rparr>"

record token_manager =
  tokens :: "(string, proxy_token) table"
  data_dir :: string
  tracker :: rate_limit_tracker
  routing :: routing_config
  session_accounts :: "(string, string \<times> nanos) table"
  adaptive_limits :: "limit_manager option"
  preferred_account_id :: "string option"
  monitor :: "health_monitor option"
  active_requests :: slots
  session_failures :: "(string, u32) table"
  file_locks :: "(string, unit) table"
  refresh_locks :: "(string, unit) table"
  enforce_proxy :: bool
  files :: "(string, string) table"   \<comment> \<open>the account files: path and contents\<close>

definition new_token_manager :: "string \<Rightarrow> token_manager" where
  "new_token_manager dir = \<lparr>tokens = [], data_dir = dir, tracker = new_tracker,
     routing = default_routing, session_accounts = [], adaptive_limits = None,
     preferred_account_id = None, monitor = None, active_requests = [], session_failures = [],
     file_locks = [], refresh_locks = [], enforce_proxy = False, files = []\<rparr>"

section \<open>Requests in flight, routing, health\<close>

definition increment_active_requests :: "string \<Rightarrow> token_manager \<Rightarrow> u32 \<times> token_manager" where
  "increment_active_requests mail tm =
     (let t = tentry mail 0 (active_requests tm); n = active_count t mail + 1
      in (n, tm\<lparr>active_requests := tput mail n t\<rparr>))"

definition decrement_active_requests :: "string \<Rightarrow> token_manager \<Rightarrow> token_manager" where
  "decrement_active_requests mail tm =
     (case tget (active_requests tm) mail of
        None \<Rightarrow> tm
      | Some v \<Rightarrow>
          if 0 < v then tm\<lparr>active_requests := tput mail (v - 1) (active_requests tm)\<rparr> else tm)"

definition get_active_requests :: "string \<Rightarrow> token_manager \<Rightarrow> u32" where
  "get_active_requests mail tm = active_count (active_requests tm) mail"

definition set_routing_config :: "routing_config \<Rightarrow> token_manager \<Rightarrow> token_manager" where
  "set_routing_config c tm = tm\<lparr>routing := c\<rparr>"

definition is_model_protected :: "string \<Rightarrow> string \<Rightarrow> token_manager \<Rightarrow> bool" where
  "is_model_protected acc model tm =
     (case tget (tokens tm) acc of Some t \<Rightarrow> model \<in> protected_models t | None \<Rightarrow> False)"

definition set_preferred_account :: "string option \<Rightarrow> token_manager \<Rightarrow> token_manager" where
  "set_preferred_account acc tm = tm\<lparr>preferred_account_id := acc\<rparr>"

definition tm_record_success :: "string \<Rightarrow> token_manager \<Rightarrow> token_manager" where
  "tm_record_success acc tm = tm\<lparr>monitor := map_option (Health.record_success acc) (monitor tm)\<rparr>"

definition mark_account_success :: "string \<Rightarrow> token_manager \<Rightarrow> token_manager" where
  "mark_account_success acc tm = tm_record_success acc (tm\<lparr>tracker := mark_success acc (tracker tm)\<rparr>)"

definition get_health_score :: "string \<Rightarrow> token_manager \<Rightarrow> rat" where
  "get_health_score acc tm = (case monitor tm of None \<Rightarrow> 1 | Some m \<Rightarrow> get_score acc m)"

definition get_all_available_models :: "token_manager \<Rightarrow> string set" where
  "get_all_available_models tm = (\<Union>(_, t) \<in> set (tokens tm). available_models t)"

section \<open>Rate limits\<close>

definition mark_rate_limited_with_model ::
  "parse_env \<Rightarrow> nanos \<Rightarrow> string \<Rightarrow> u16 \<Rightarrow> string option \<Rightarrow> string \<Rightarrow> string option
   \<Rightarrow> token_manager \<Rightarrow> panic + token_manager" where
  "mark_rate_limited_with_model env now acc status header body model tm =
     map_sum id (\<lambda>(_, tr). tm\<lparr>tracker := tr\<rparr>)
       (parse_from_error env now acc status header body model (tracker tm))"

definition mark_rate_limited ::
  "parse_env \<Rightarrow> nanos \<Rightarrow> string \<Rightarrow> u16 \<Rightarrow> string option \<Rightarrow> string
   \<Rightarrow> token_manager \<Rightarrow> panic + token_manager" where
  "mark_rate_limited env now acc status header body tm =
     mark_rate_limited_with_model env now acc status header body None tm"

definition tm_is_rate_limited :: "nanos \<Rightarrow> string \<Rightarrow> token_manager \<Rightarrow> bool" where
  "tm_is_rate_limited now acc tm = is_rate_limited now acc (tracker tm)"

definition tm_is_rate_limited_for_model :: "nanos \<Rightarrow> string \<Rightarrow> string \<Rightarrow> token_manager \<Rightarrow> bool" where
  "tm_is_rate_limited_for_model now acc model tm = is_rate_limited_for_model now acc model (tracker tm)"

definition clear_rate_limit :: "string \<Rightarrow> token_manager \<Rightarrow> bool \<times> token_manager" where
  "clear_rate_limit acc tm = (let (b, tr) = clear acc (tracker tm) in (b, tm\<lparr>tracker := tr\<rparr>))"

definition clear_all_rate_limits :: "token_manager \<Rightarrow> token_manager" where
  "clear_all_rate_limits tm = tm\<lparr>tracker := clear_all (tracker tm)\<rparr>"

section \<open>Sessions\<close>

definition SESSION_FAILURE_THRESHOLD :: u32 where "SESSION_FAILURE_THRESHOLD = 3"

definition record_session_failure :: "string \<Rightarrow> token_manager \<Rightarrow> u32 \<times> token_manager" where
  "record_session_failure sid tm =
     (let t = tentry sid 0 (session_failures tm);
          n = (case tget t sid of None \<Rightarrow> 0 | Some v \<Rightarrow> v) + 1
      in (n, tm\<lparr>session_failures := tput sid n t\<rparr>))"

definition clear_session_failures :: "string \<Rightarrow> token_manager \<Rightarrow> token_manager" where
  "clear_session_failures sid tm = tm\<lparr>session_failures := tdel sid (session_failures tm)\<rparr>"

definition get_session_failures :: "string \<Rightarrow> token_manager \<Rightarrow> u32" where
  "get_session_failures sid tm = (case tget (session_failures tm) sid of None \<Rightarrow> 0 | Some v \<Rightarrow> v)"

definition clear_session_binding :: "string \<Rightarrow> token_manager \<Rightarrow> token_manager" where
  "clear_session_binding sid tm = tm\<lparr>session_accounts := tdel sid (session_accounts tm)\<rparr>"

definition clear_all_sessions :: "token_manager \<Rightarrow> token_manager" where
  "clear_all_sessions tm = tm\<lparr>session_accounts := []\<rparr>"

definition should_unbind_session :: "string \<Rightarrow> token_manager \<Rightarrow> bool" where
  "should_unbind_session sid tm \<longleftrightarrow> SESSION_FAILURE_THRESHOLD \<le> get_session_failures sid tm"

definition unbind_session_on_failures :: "string \<Rightarrow> token_manager \<Rightarrow> string option \<times> token_manager" where
  "unbind_session_on_failures sid tm =
     (case tget (session_accounts tm) sid of
        Some (bound_id, _) \<Rightarrow>
          (Some bound_id,
           clear_session_failures sid (tm\<lparr>session_accounts := tdel sid (session_accounts tm)\<rparr>))
      | None \<Rightarrow> (None, tm))"

definition get_session_account :: "string \<Rightarrow> token_manager \<Rightarrow> string option" where
  "get_session_account sid tm = map_option fst (tget (session_accounts tm) sid)"

definition bind_session_to_account ::
  "nanos \<Rightarrow> string \<Rightarrow> string \<Rightarrow> bool \<Rightarrow> token_manager \<Rightarrow> token_manager" where
  "bind_session_to_account now sid mail affinity tm =
     (if affinity then
        (if get_session_account sid tm \<noteq> Some mail
         then tm\<lparr>session_accounts := tput sid (mail, now) (session_accounts tm)\<rparr>
         else tm\<lparr>session_accounts := tput sid (mail, now) (session_accounts tm)\<rparr>)
      else tm)"

section \<open>The cleanup task\<close>

text \<open>One tick of \<open>start_auto_cleanup\<close>; \<open>ticks\<close> is the counter after its increment.\<close>

definition evict_sessions :: "(string, string \<times> nanos) table \<Rightarrow> (string, string \<times> nanos) table" where
  "evict_sessions sessions =
     (if 10000 < length sessions then
        let to_remove = length sessions - 5000;
            entries = map (\<lambda>(k, v). (k, snd v)) sessions;
            keys_to_remove = map fst (take to_remove (sort_key snd entries))
        in fold tdel keys_to_remove sessions
      else sessions)"

definition cleanup_tick :: "nanos \<Rightarrow> u64 \<Rightarrow> token_manager \<Rightarrow> token_manager" where
  "cleanup_tick now ticks tm =
     (let active_ids = map fst (tokens tm)
      in tm\<lparr>tracker := snd (cleanup_expired now (tracker tm)),
            session_failures :=
              (if ticks mod 30 = 0 then [] else tretain (\<lambda>_ v. 0 < v) (session_failures tm)),
            session_accounts := evict_sessions (session_accounts tm),
            refresh_locks := tretain (\<lambda>k _. k \<in> set active_ids) (refresh_locks tm),
            file_locks := tretain (\<lambda>k _. k \<in> set active_ids) (file_locks tm),
            active_requests := tretain (\<lambda>_ v. 0 < v) (active_requests tm)\<rparr>)"

section \<open>Lemmas: eviction\<close>

lemma tget_fold_tdel: "tget (fold tdel ks t) k = (if k \<in> set ks then None else tget t k)"
  by (induction ks arbitrary: t) auto

lemma twf_fold_tdel: "twf t \<Longrightarrow> twf (fold tdel ks t)"
  by (induction ks arbitrary: t) auto

lemma length_twf: "twf t \<Longrightarrow> length t = card (tkeys t)"
  by (metis distinct_card length_map list.set_map)

lemma tkeys_fold_tdel: "tkeys (fold tdel ks t) = tkeys t - set ks"
  by (induction ks arbitrary: t) auto

lemma length_fold_tdel:
  assumes "twf t" and "distinct ks" and "set ks \<subseteq> tkeys t"
  shows "length (fold tdel ks t) = length t - length ks"
proof -
  have "length (fold tdel ks t) = card (tkeys t - set ks)"
    using length_twf [OF twf_fold_tdel [OF assms(1)], of ks] by (simp add: tkeys_fold_tdel)
  also have "\<dots> = length t - length ks"
    using assms by (simp add: card_Diff_subset length_twf distinct_card)
  finally show ?thesis .
qed

lemma sort_key_take_drop:
  assumes "x \<in> set (take n (sort_key f xs))" and "y \<in> set (drop n (sort_key f xs))"
  shows "f x \<le> f y"
proof -
  have "sorted (map f (take n (sort_key f xs) @ drop n (sort_key f xs)))" by simp
  then show ?thesis using assms unfolding map_append sorted_append by auto
qed

lemma distinct_set_take_drop: "distinct xs \<Longrightarrow> x \<in> set xs \<Longrightarrow> x \<notin> set (take n xs) \<Longrightarrow> x \<in> set (drop n xs)"
  by (metis Un_iff append_take_drop_id set_append)

definition session_times :: "(string, string \<times> nanos) table \<Rightarrow> (string \<times> nanos) list" where
  "session_times t = map (\<lambda>(k, v). (k, snd v)) t"

lemma map_fst_session_times: "map fst (session_times t) = map fst t"
  by (auto simp: session_times_def)

lemma session_times_mem: "twf t \<Longrightarrow> (k, ts) \<in> set (session_times t) \<longleftrightarrow> (\<exists>m. tget t k = Some (m, ts))"
  by (force simp: session_times_def twf_mem_iff [symmetric])

lemma evict_over:
  assumes "twf t" and "10000 < length t"
  shows "length (evict_sessions t) = 5000"
    and "tget (evict_sessions t) k = None \<or> tget (evict_sessions t) k = tget t k"
    and "tget (evict_sessions t) k = Some (m, ts) \<Longrightarrow> tget t k' = Some (m', ts')
         \<Longrightarrow> tget (evict_sessions t) k' = None \<Longrightarrow> ts' \<le> ts"
proof -
  let ?n = "length t - 5000" and ?s = "sort_key snd (session_times t)"
  let ?ks = "map fst (take ?n ?s)"
  have ev: "evict_sessions t = fold tdel ?ks t"
    using assms(2) by (simp add: evict_sessions_def session_times_def Let_def)
  have len: "length ?ks = ?n" by (simp add: session_times_def)
  have "mset (map fst ?s) = mset (map fst t)"
    unfolding mset_map mset_sort map_fst_session_times [symmetric] ..
  then have dist: "distinct (map fst ?s)" and keys: "set (map fst ?s) = tkeys t"
    using assms(1) by (metis mset_eq_imp_distinct_iff, metis list.set_map set_mset_mset)
  have dk: "distinct ?ks" using dist by (simp add: take_map [symmetric])
  have "set ?ks \<subseteq> set (map fst ?s)" unfolding list.set_map by (intro image_mono set_take_subset)
  then have sub: "set ?ks \<subseteq> tkeys t" unfolding keys .
  show "length (evict_sessions t) = 5000"
    using length_fold_tdel [OF assms(1) dk sub] assms(2) len by (simp add: ev)
  show "tget (evict_sessions t) k = None \<or> tget (evict_sessions t) k = tget t k"
    by (simp add: ev tget_fold_tdel)
  assume k: "tget (evict_sessions t) k = Some (m, ts)" and k': "tget t k' = Some (m', ts')"
    and gone: "tget (evict_sessions t) k' = None"
  have kept: "k \<notin> set ?ks" "tget t k = Some (m, ts)" and gone': "k' \<in> set ?ks"
    using k k' gone by (auto simp: ev tget_fold_tdel split: if_splits)
  obtain x where x: "x \<in> set (take ?n ?s)" "fst x = k'" using gone' by auto
  moreover have "x \<in> set (session_times t)" using x(1) by (auto dest: in_set_takeD)
  ultimately have "snd x = ts'"
    using session_times_mem [OF assms(1), of k' "snd x"] k' by (cases x) auto
  have "(k, ts) \<in> set ?s" using session_times_mem [OF assms(1)] kept(2) by auto
  moreover have "(k, ts) \<notin> set (take ?n ?s)" using kept(1) by force
  moreover have "distinct ?s" using dist by (simp add: distinct_map)
  ultimately have "(k, ts) \<in> set (drop ?n ?s)" by (intro distinct_set_take_drop)
  from sort_key_take_drop [OF x(1) this] \<open>snd x = ts'\<close> show "ts' \<le> ts" by simp
qed

text \<open>
  Note: the eviction of session bindings is an LRU eviction. Up to 10000 bindings nothing is
  removed; beyond that exactly the 5000 most recently used stay, with their accounts, and every
  binding that is removed was last used no later than every binding that stays.
\<close>

theorem eviction_keeps_recent:
  assumes "twf t"
  shows "length (evict_sessions t) = (if length t \<le> 10000 then length t else 5000)
    \<and> (\<forall>k. case tget (evict_sessions t) k of
          Some v \<Rightarrow> tget t k = Some v
            \<and> (\<forall>k' v'. tget t k' = Some v' \<and> tget (evict_sessions t) k' = None \<longrightarrow> snd v' \<le> snd v)
        | None \<Rightarrow> length t \<le> 10000 \<longrightarrow> tget t k = None)"
proof (cases "length t \<le> 10000")
  case True
  then have "evict_sessions t = t" by (simp add: evict_sessions_def)
  with True show ?thesis by (auto split: option.split)
next
  case False
  then have l: "10000 < length t" by simp
  have each: "tget t k = Some v \<and> (\<forall>k' v'. tget t k' = Some v' \<and> tget (evict_sessions t) k' = None \<longrightarrow> snd v' \<le> snd v)"
    if k: "tget (evict_sessions t) k = Some v" for k v
  proof -
    have "snd v' \<le> snd v" if "tget t k' = Some v'" "tget (evict_sessions t) k' = None" for k' v'
      using evict_over(3) [OF assms l, of k "fst v" "snd v" k' "fst v'" "snd v'"] k that by simp
    with k evict_over(2) [OF assms l, of k] show ?thesis by auto
  qed
  have "case tget (evict_sessions t) k of
          Some v \<Rightarrow> tget t k = Some v
            \<and> (\<forall>k' v'. tget t k' = Some v' \<and> tget (evict_sessions t) k' = None \<longrightarrow> snd v' \<le> snd v)
        | None \<Rightarrow> length t \<le> 10000 \<longrightarrow> tget t k = None" for k
    using each [of k] False by (cases "tget (evict_sessions t) k") simp_all
  with evict_over(1) [OF assms l] False show ?thesis by simp
qed

definition many_sessions :: "(string, string \<times> nanos) table" where
  "many_sessions = map (\<lambda>i. (replicate i CHR ''s'', (''a'', i))) [0..<10002]"

lemma many_sessions_wf: "twf many_sessions" "length many_sessions = 10002"
  by (simp_all add: many_sessions_def o_def case_prod_beta distinct_map inj_on_def
      replicate_eq_replicate del: upt_Suc)

theorem eviction_keeps_recent_witness: "length (evict_sessions many_sessions) = 5000"
  using eviction_keeps_recent [OF many_sessions_wf(1)] many_sessions_wf(2) by simp

section \<open>Sessions lose an account that keeps failing\<close>

lemma record_session_failure_get:
  "fst (record_session_failure sid tm) = get_session_failures sid tm + 1"
  "get_session_failures sid' (snd (record_session_failure sid tm)) =
     (if sid' = sid then get_session_failures sid tm + 1 else get_session_failures sid' tm)"
  "session_accounts (snd (record_session_failure sid tm)) = session_accounts tm"
  by (auto simp: record_session_failure_def get_session_failures_def Let_def split: option.splits)

definition session_failures_run :: "string list \<Rightarrow> token_manager \<Rightarrow> token_manager" where
  "session_failures_run sids tm = fold (\<lambda>sid tm. snd (record_session_failure sid tm)) sids tm"

lemma session_failures_run_get:
  "get_session_failures sid (session_failures_run sids tm)
     = get_session_failures sid tm + of_nat (count_list sids sid)"
  unfolding session_failures_run_def
  by (induction sids arbitrary: tm) (auto simp: record_session_failure_get)

lemma session_failures_run_accounts:
  "session_accounts (session_failures_run sids tm) = session_accounts tm"
  unfolding session_failures_run_def
  by (induction sids arbitrary: tm) (simp_all add: record_session_failure_get)

text \<open>
  Note: a session leaves its account after three failures. Starting without failures, after any
  interleaving of failures of all sessions, a session is to be unbound exactly if three or more of
  them were its own; unbinding reports the account it was bound to, removes the binding, and starts
  the count again, and it does not touch the bindings and counts of the other sessions.
\<close>

theorem session_unbinds_after_three:
  assumes "get_session_failures sid tm = 0" and "length sids < 2 ^ 32"
  defines "tm1 \<equiv> session_failures_run sids tm"
  shows "(should_unbind_session sid tm1 \<longleftrightarrow> 3 \<le> count_list sids sid)
    \<and> (case unbind_session_on_failures sid tm1 of
         (bound, tm2) \<Rightarrow>
           bound = get_session_account sid tm
           \<and> get_session_account sid tm2 = None
           \<and> (if bound = None then tm2 = tm1 else get_session_failures sid tm2 = 0)
           \<and> (\<forall>other. other \<noteq> sid \<longrightarrow> get_session_account other tm2 = get_session_account other tm
                \<and> get_session_failures other tm2 = get_session_failures other tm1))"
proof -
  have "count_list sids sid < 2 ^ 32"
    using count_le_length [of sids sid] assms(2) by simp
  then have "unat (of_nat (count_list sids sid) :: u32) = count_list sids sid"
    by (simp add: unat_of_nat take_bit_nat_eq_self)
  then have "should_unbind_session sid tm1 \<longleftrightarrow> 3 \<le> count_list sids sid"
    using assms(1)
    by (simp add: tm1_def should_unbind_session_def session_failures_run_get SESSION_FAILURE_THRESHOLD_def
        word_le_nat_alt)
  then show ?thesis
    by (auto simp: tm1_def unbind_session_on_failures_def get_session_account_def clear_session_failures_def
        session_failures_run_accounts get_session_failures_def split: option.splits)
qed

theorem session_unbinds_after_three_witness:
  "should_unbind_session ''s'' (session_failures_run [''s'', ''t'', ''s'', ''s''] (new_token_manager ''d''))"
  using session_unbinds_after_three [of "''s''" "new_token_manager ''d''" "[''s'', ''t'', ''s'', ''s'']"]
  by (simp add: get_session_failures_def new_token_manager_def)

section \<open>The cleanup does not change decisions\<close>

lemma active_count_cleanup: "twf (active_requests tm) \<Longrightarrow>
    active_count (active_requests (cleanup_tick now n tm)) k = active_count (active_requests tm) k"
  by (simp add: cleanup_tick_def active_count_clean)

text \<open>
  Note: a cleanup tick is invisible to the account selection. With at most 10000 sessions, and on
  a tick that is not a multiple of 30, no question the selection asks at this or a later time has a
  different answer afterwards: rate limits, slots in use, protected models, session bindings and
  session failure counts are the same. On every thirtieth tick the session failures are forgotten.
\<close>

theorem cleanup_tick_invisible:
  fixes n :: u64
  assumes "tracker_wf (tracker tm)" and "twf (active_requests tm)" and "twf (session_failures tm)"
    and "length (session_accounts tm) \<le> 10000" and "now \<le> t"
  defines "tm' \<equiv> cleanup_tick now n tm"
  shows "tm_is_rate_limited_for_model t mail model tm' = tm_is_rate_limited_for_model t mail model tm
    \<and> get_active_requests mail tm' = get_active_requests mail tm
    \<and> is_model_protected acc model tm' = is_model_protected acc model tm
    \<and> get_session_account sid tm' = get_session_account sid tm
    \<and> get_session_failures sid tm' = (if n mod 30 = 0 then 0 else get_session_failures sid tm)"
proof -
  have "get_session_failures sid tm' = (if n mod 30 = 0 then 0 else get_session_failures sid tm)"
    using assms(3)
    by (auto simp: tm'_def cleanup_tick_def get_session_failures_def tget_tretain word_gt_0 Let_def
        split: option.split)
  moreover have "evict_sessions (session_accounts tm) = session_accounts tm"
    using assms(4) by (simp add: evict_sessions_def)
  ultimately show ?thesis
    using info_live_cleanup(1) [OF assms(1,5)] active_count_cleanup [OF assms(2)]
    by (simp add: tm'_def tm_is_rate_limited_for_model_def limited_for_model_iff get_active_requests_def
        is_model_protected_def get_session_account_def) (simp add: cleanup_tick_def Let_def)
qed

theorem cleanup_tick_invisible_witness:
  "get_session_failures ''s'' (cleanup_tick 5 7 (session_failures_run [''s''] (new_token_manager ''d''))) = 1"
proof -
  let ?tm = "session_failures_run [''s''] (new_token_manager ''d'')"
  have f: "session_failures ?tm = [(''s'', 1)]" "session_accounts ?tm = []" "active_requests ?tm = []"
    "tracker ?tm = new_tracker"
    by (simp_all add: session_failures_run_def record_session_failure_def new_token_manager_def Let_def
        tentry_def tput_def)
  have "tracker_wf new_tracker" by (simp add: tracker_wf_iff new_tracker_def)
  with cleanup_tick_invisible [where tm = ?tm and now = 5 and t = 6 and n = 7 and sid = "''s''"] f
  show ?thesis by (simp add: get_session_failures_def)
qed

end
