(* ===== verification/Token_Store.thy ===== *)
theory Token_Store
  imports Token_Pool
begin

text \<open>
  Loading accounts into the token manager, \<open>token_manager/store.rs\<close> and \<open>repo_loader.rs\<close>: reading one
  account file (\<open>load_single_account\<close>) or one row of the repository (\<open>convert_account_to_token\<close>), and
  the merge of what was loaded with what is in memory (\<open>merge_tokens\<close>). \<open>calculate_max_quota_percentage\<close>
  is in \<open>file_utils.rs\<close>.

  A result \<open>Result<a, String>\<close> is \<open>string + a\<close>; where the code can panic it is \<open>panic + (string + a)\<close>.
\<close>

section \<open>Merging\<close>

definition merge_one :: "string \<times> proxy_token \<Rightarrow> (string, proxy_token) table \<Rightarrow> (string, proxy_token) table" where
  "merge_one e t =
     (case tget t (fst e) of
        Some existing \<Rightarrow> if timestamp existing < timestamp (snd e) then tput (fst e) (snd e) t else t
      | None \<Rightarrow> tput (fst e) (snd e) t)"

definition merge_tokens ::
  "(string \<times> proxy_token) list \<Rightarrow> token_manager \<Rightarrow> (string + nat) \<times> token_manager" where
  "merge_tokens new_tokens tm =
     (let existing_count = length (tokens tm)
      in if new_tokens = [] \<and> 0 < existing_count then (Inr existing_count, tm)
         else
           let old_keys = map fst (tokens tm);
               new_keys = set (map fst new_tokens);
               kept = fold tdel (filter (\<lambda>k. k \<notin> new_keys) old_keys) (tokens tm)
           in (Inr (length new_tokens), tm\<lparr>tokens := fold merge_one new_tokens kept\<rparr>))"

section \<open>One account file\<close>

definition MAX_MODELS_PER_ACCOUNT :: nat where "MAX_MODELS_PER_ACCOUNT = 100"
definition MAX_MODEL_NAME_LENGTH :: nat where "MAX_MODEL_NAME_LENGTH = 256"

text \<open>\<open>i64 as i32\<close> keeps the low 32 bits.\<close>

definition i64_as_i32 :: "int \<Rightarrow> int" where
  "i64_as_i32 a = (a + 2 ^ 31) mod 2 ^ 32 - 2 ^ 31"

definition calculate_max_quota_percentage :: "json \<Rightarrow> int option" where
  "calculate_max_quota_percentage quota =
     (case Option.bind (jget ''models'' quota) as_array of
        None \<Rightarrow> None
      | Some models \<Rightarrow>
          let pcts = List.map_filter (\<lambda>m. Option.bind (jget ''percentage'' m) as_i64) models
          in if pcts = [] then None
             else Some (fold (\<lambda>pct acc. if acc < i64_as_i32 pct then i64_as_i32 pct else acc) pcts 0))"

definition opt_bool :: "json \<Rightarrow> string \<Rightarrow> bool" where
  "opt_bool v k = (case Option.bind (jget k v) as_bool of None \<Rightarrow> False | Some b \<Rightarrow> b)"

definition opt_str :: "json \<Rightarrow> string \<Rightarrow> string option" where
  "opt_str v k = Option.bind (jget k v) as_str"

definition ok_or :: "'a option \<Rightarrow> string \<Rightarrow> string + 'a" where
  "ok_or x e = (case x of None \<Rightarrow> Inl e | Some a \<Rightarrow> Inr a)"

text \<open>The names and percentages the loop over \<open>quota.models\<close> looks at.\<close>

definition quota_models :: "json \<Rightarrow> (string \<times> int) list" where
  "quota_models account =
     (case Option.bind (Option.bind (jget ''quota'' account) (jget ''models'')) as_array of
        None \<Rightarrow> []
      | Some models \<Rightarrow>
          filter (\<lambda>(name, _). length name \<le> MAX_MODEL_NAME_LENGTH)
            (List.map_filter
              (\<lambda>m. case (opt_str m ''name'', Option.bind (jget ''percentage'' m) as_i64) of
                     (Some name, Some pct) \<Rightarrow> Some (name, pct)
                   | _ \<Rightarrow> None)
              (take MAX_MODELS_PER_ACCOUNT models)))"

definition listed_protected :: "json \<Rightarrow> string set" where
  "listed_protected account =
     (case Option.bind (jget ''protected_models'' account) as_array of
        None \<Rightarrow> {} | Some arr \<Rightarrow> set (List.map_filter as_str arr))"

text \<open>\<open>token_obj["key"]\<close> on a \<open>serde_json::Map\<close>: a panic when the key is absent.\<close>

definition map_field ::
  "(string \<times> json) list \<Rightarrow> string \<Rightarrow> (json \<Rightarrow> 'a option) \<Rightarrow> string \<Rightarrow> panic + (string + 'a)" where
  "map_field obj k conv err = map_sum id (\<lambda>v. ok_or (conv v) err) (map_index obj k)"

definition and_then :: "panic + (string + 'a) \<Rightarrow> ('a \<Rightarrow> panic + (string + 'b)) \<Rightarrow> panic + (string + 'b)" where
  "and_then x f = (case x of
       Inl p \<Rightarrow> Inl p | Inr (Inl e) \<Rightarrow> Inr (Inl e) | Inr (Inr a) \<Rightarrow> f a)"

text \<open>The JSON of an account file, after reading and parsing it; \<open>Ok(None)\<close> skips the account.\<close>

definition account_of_json ::
  "string \<Rightarrow> json \<Rightarrow> token_manager \<Rightarrow> panic + (string + proxy_token option)" where
  "account_of_json path account tm =
     (if opt_bool account ''disabled'' then Inr (Inr None)
      else if opt_bool account ''proxy_disabled'' then Inr (Inr None)
      else
        and_then (Inr (ok_or (as_str (jindex account ''id'')) ''Missing id field'')) (\<lambda>acc.
        and_then (Inr (ok_or (as_str (jindex account ''email'')) ''Missing email field'')) (\<lambda>mail.
        and_then (Inr (ok_or (as_object (jindex account ''token'')) ''Missing token field'')) (\<lambda>obj.
        and_then (map_field obj ''access_token'' as_str ''Missing access_token'') (\<lambda>access.
        and_then (map_field obj ''refresh_token'' as_str ''Missing refresh_token'') (\<lambda>refresh.
        and_then (map_field obj ''expires_in'' as_i64 ''Missing expires_in'') (\<lambda>expires.
        and_then (map_field obj ''expiry_timestamp'' as_i64 ''Missing expiry_timestamp'') (\<lambda>ts.
          let quota = jget ''quota'' account;
              models = quota_models account
          in Inr (Inr (Some (new_token acc access refresh expires ts mail path
               (Option.bind (tget obj ''project_id'') as_str)
               (Option.bind quota (\<lambda>q. opt_str q ''subscription_tier''))
               (Option.bind quota calculate_max_quota_percentage)
               (listed_protected account \<union> {name. (name, 0) \<in> set models})
               (get_health_score acc tm)
               (fst ` set models)
               (opt_str account ''proxy_url''))))))))))))"

definition load_single_account ::
  "parse_env \<Rightarrow> string \<Rightarrow> token_manager \<Rightarrow> panic + (string + proxy_token option)" where
  "load_single_account env path tm =
     (case tget (files tm) path of
        None \<Rightarrow> Inr (Inl (''Failed to read file: '' @ read_error env path))
      | Some content \<Rightarrow>
          (case json_of env content of
             None \<Rightarrow> Inr (Inl (''Failed to parse JSON: '' @ json_error env content))
           | Some account \<Rightarrow> account_of_json path account tm))"

section \<open>All accounts\<close>

definition account_file :: "token_manager \<Rightarrow> string \<Rightarrow> string" where
  "account_file tm acc = data_dir tm @ ''/accounts/'' @ acc @ ''.json''"

text \<open>\<open>Path::extension\<close> is \<open>json\<close>: a file named \<open>.json\<close> has no extension.\<close>

definition has_json_extension :: "string \<Rightarrow> bool" where
  "has_json_extension path \<longleftrightarrow> ends_with path ''.json'' \<and> \<not> ends_with path ''/.json'' \<and> path \<noteq> ''.json''"

text \<open>
  The loop over the directory: each step gives the path of an entry, or fails. Only the entries with
  extension \<open>json\<close> are loaded; a load error skips the file.
\<close>

fun load_entries ::
  "parse_env \<Rightarrow> (string + string) list \<Rightarrow> (string \<times> proxy_token) list \<Rightarrow> token_manager
   \<Rightarrow> panic + (string + (string \<times> proxy_token) list)" where
  "load_entries env [] new_tokens tm = Inr (Inr new_tokens)"
| "load_entries env (Inl e # entries) new_tokens tm = Inr (Inl (''Failed to read directory entry: '' @ e))"
| "load_entries env (Inr path # entries) new_tokens tm =
     (if \<not> has_json_extension path then load_entries env entries new_tokens tm
      else
        (case load_single_account env path tm of
           Inl p \<Rightarrow> Inl p
         | Inr (Inr (Some t)) \<Rightarrow> load_entries env entries (new_tokens @ [(account_id t, t)]) tm
         | Inr _ \<Rightarrow> load_entries env entries new_tokens tm))"

text \<open>The listing of the directory: absent, unreadable, or the entries in the order they are read.\<close>

definition load_accounts_from_filesystem ::
  "parse_env \<Rightarrow> (string + (string + string) list) option \<Rightarrow> token_manager
   \<Rightarrow> panic + ((string + nat) \<times> token_manager)" where
  "load_accounts_from_filesystem env listing tm =
     (case listing of
        None \<Rightarrow> Inr (Inl (''Accounts directory not found: '' @ data_dir tm @ ''/accounts''), tm)
      | Some (Inl e) \<Rightarrow> Inr (Inl (''Failed to read accounts directory: '' @ e), tm)
      | Some (Inr entries) \<Rightarrow>
          (case load_entries env entries [] tm of
             Inl p \<Rightarrow> Inl p
           | Inr (Inl e) \<Rightarrow> Inr (Inl e, tm)
           | Inr (Inr new_tokens) \<Rightarrow> Inr (merge_tokens new_tokens tm)))"

definition reload_account ::
  "parse_env \<Rightarrow> string \<Rightarrow> token_manager \<Rightarrow> panic + ((string + unit) \<times> token_manager)" where
  "reload_account env acc tm =
     (let path = account_file tm acc
      in if tget (files tm) path = None
         then Inr (Inl (''Account file not found: '' @ path), tm\<lparr>tokens := tdel acc (tokens tm)\<rparr>)
         else
           (case load_single_account env path tm of
              Inl p \<Rightarrow> Inl p
            | Inr (Inr (Some t)) \<Rightarrow> Inr (Inr (), tm\<lparr>tokens := tput acc t (tokens tm)\<rparr>)
            | Inr (Inr None) \<Rightarrow> Inr (Inl ''Account load failed'', tm\<lparr>tokens := tdel acc (tokens tm)\<rparr>)
            | Inr (Inl e) \<Rightarrow> Inr (Inl (''Failed to sync account: '' @ e), tm)))"

text \<open>A row of the repository: the fields of \<open>Account\<close> the conversion reads.\<close>

record db_account =
  db_id :: string
  db_email :: string
  db_disabled :: bool
  db_proxy_disabled :: bool
  db_access_token :: string
  db_refresh_token :: string
  db_expires_in :: int
  db_expiry_timestamp :: int
  db_project_id :: "string option"
  db_quota :: "(string option \<times> (string \<times> int) list) option"  \<comment> \<open>tier, models with percentage\<close>
  db_protected_models :: "string set"
  db_proxy_url :: "string option"

definition convert_account_to_token :: "db_account \<Rightarrow> token_manager \<Rightarrow> proxy_token" where
  "convert_account_to_token a tm =
     (let models = (case db_quota a of None \<Rightarrow> [] | Some (_, ms) \<Rightarrow> ms)
      in new_token (db_id a) (db_access_token a) (db_refresh_token a) (db_expires_in a)
           (db_expiry_timestamp a) (db_email a) (account_file tm (db_id a)) (db_project_id a)
           (Option.bind (db_quota a) fst)
           (if models = [] then None else Some (Max (set (map snd models))))
           (db_protected_models a \<union> {name. (name, 0) \<in> set models})
           (get_health_score (db_id a) tm)
           (set (map fst models))
           (db_proxy_url a))"

definition load_accounts_from_repository ::
  "(string + db_account list) \<Rightarrow> token_manager \<Rightarrow> (string + nat) \<times> token_manager" where
  "load_accounts_from_repository listed tm =
     (case listed of
        Inl e \<Rightarrow> (Inl (''Repository error: '' @ e), tm)
      | Inr accounts \<Rightarrow>
          merge_tokens
            (map (\<lambda>a. (db_id a, convert_account_to_token a tm))
              (filter (\<lambda>a. \<not> (db_disabled a \<or> db_proxy_disabled a)) accounts)) tm)"

text \<open>The repository is used whenever there is one.\<close>

definition load_accounts ::
  "parse_env \<Rightarrow> (string + db_account list) option \<Rightarrow> (string + (string + string) list) option
   \<Rightarrow> token_manager \<Rightarrow> panic + ((string + nat) \<times> token_manager)" where
  "load_accounts env repository listing tm =
     (case repository of
        Some listed \<Rightarrow> Inr (load_accounts_from_repository listed tm)
      | None \<Rightarrow> load_accounts_from_filesystem env listing tm)"

section \<open>Questions about the pool\<close>

definition has_available_account :: "nanos \<Rightarrow> string \<Rightarrow> string \<Rightarrow> token_manager \<Rightarrow> bool" where
  "has_available_account now quota_group target_model tm =
     (if tokens tm = [] then False
      else list_ex (\<lambda>(_, t).
             \<not> (quota_group \<noteq> [] \<and> \<not> contains (email t) quota_group)
             \<and> \<not> (target_model \<noteq> [] \<and> target_model \<notin> available_models t)
             \<and> \<not> tm_is_rate_limited_for_model now (email t) target_model tm) (tokens tm))"

definition find_by_email :: "string \<Rightarrow> token_manager \<Rightarrow> proxy_token option" where
  "find_by_email mail tm = find (\<lambda>t. email t = mail) (map snd (tokens tm))"

definition get_account_proxy_url :: "string \<Rightarrow> token_manager \<Rightarrow> string option" where
  "get_account_proxy_url mail tm = Option.bind (find_by_email mail tm) proxy_url"

section \<open>What the merge does\<close>

text \<open>The token kept for a key: the loaded one only if it expires later than the one in memory.\<close>

definition newest :: "proxy_token option \<Rightarrow> proxy_token \<Rightarrow> proxy_token" where
  "newest old t = (case old of None \<Rightarrow> t | Some e \<Rightarrow> if timestamp e < timestamp t then t else e)"

lemma tget_merge_one:
  "tget (merge_one e t) k = (if k = fst e then Some (newest (tget t k) (snd e)) else tget t k)"
  by (auto simp: merge_one_def newest_def split: option.splits)

lemma twf_merge_one: "twf t \<Longrightarrow> twf (merge_one e t)"
  by (auto simp: merge_one_def split: option.splits)

lemma twf_fold_merge: "twf t \<Longrightarrow> twf (fold merge_one new t)"
  by (induction new arbitrary: t) (simp_all add: twf_merge_one)

lemma tget_fold_merge:
  "distinct (map fst new) \<Longrightarrow> tget (fold merge_one new t) k =
     (case tget new k of None \<Rightarrow> tget t k | Some d \<Rightarrow> Some (newest (tget t k) d))"
proof (induction new arbitrary: t)
  case (Cons e new)
  obtain a b where e: "e = (a, b)" by (cases e)
  have "tget new a = None" using Cons.prems e by (simp add: map_of_eq_None_iff)
  with Cons e show ?case by (auto simp: tget_merge_one split: option.split)
qed simp

lemma merge_tokens_cases:
  assumes "twf (tokens tm)" and "distinct (map fst new)" and "new \<noteq> [] \<or> tokens tm = []"
  shows "tget (tokens (snd (merge_tokens new tm))) k =
     (case tget new k of None \<Rightarrow> None | Some d \<Rightarrow> Some (newest (tget (tokens tm) k) d))"
proof -
  have "k \<in> set (map fst (tokens tm)) \<or> tget (tokens tm) k = None"
    by (auto simp: map_of_eq_None_iff)
  moreover have "tget new k = None \<longleftrightarrow> k \<notin> set (map fst new)"
    by (simp add: map_of_eq_None_iff)
  ultimately show ?thesis
    using assms(2,3)
    by (auto simp: merge_tokens_def Let_def tget_fold_merge tget_fold_tdel split: option.split)
qed

text \<open>
  Claim C22: what a reload does to the pool. If nothing was loaded while accounts are in memory, the
  pool stays as it is. Otherwise the pool afterwards has exactly the loaded accounts; an account that
  was in memory is replaced only by a token with a later expiry and otherwise kept unchanged, and
  loading the same accounts again changes nothing. Nothing but the pool is touched.
\<close>

theorem reload_merges:
  assumes "twf (tokens tm)" and "distinct (map fst new)"
  defines "tm' \<equiv> snd (merge_tokens new tm)"
  shows "(if new = [] \<and> tokens tm \<noteq> [] then tm' = tm \<and> fst (merge_tokens new tm) = Inr (length (tokens tm))
     else (\<forall>k. tget (tokens tm') k =
             map_option (\<lambda>t. case tget (tokens tm) k of
                 None \<Rightarrow> t | Some e \<Rightarrow> if timestamp e < timestamp t then t else e) (tget new k))
          \<and> fst (merge_tokens new tm) = Inr (length new))
    \<and> tget (tokens (snd (merge_tokens new tm'))) = tget (tokens tm')
    \<and> tm'\<lparr>tokens := tokens tm\<rparr> = tm"
proof (cases "new = [] \<and> tokens tm \<noteq> []")
  case True
  then have "merge_tokens new tm = (Inr (length (tokens tm)), tm)" by (simp add: merge_tokens_def)
  with True show ?thesis by (simp add: tm'_def)
next
  case False
  then have ne: "new \<noteq> [] \<or> tokens tm = []" by auto
  have tm': "tget (tokens tm') k = (case tget new k of None \<Rightarrow> None | Some d \<Rightarrow> Some (newest (tget (tokens tm) k) d))" for k
    unfolding tm'_def by (rule merge_tokens_cases [OF assms(1,2) ne])
  have wf': "twf (tokens tm')"
    using assms(1) by (auto simp: tm'_def merge_tokens_def Let_def intro: twf_fold_merge twf_fold_tdel)
  have "new \<noteq> [] \<or> tokens tm' = []"
    using ne by (auto simp: tm'_def merge_tokens_def)
  from merge_tokens_cases [OF wf' assms(2) this]
  have again: "tget (tokens (snd (merge_tokens new tm'))) k = tget (tokens tm') k" for k
    by (auto simp: tm' newest_def split: option.split)
  have "fst (merge_tokens new tm) = Inr (length new)" "tm'\<lparr>tokens := tokens tm\<rparr> = tm"
    using False by (auto simp: tm'_def merge_tokens_def Let_def)
  with again tm' False show ?thesis
    by (auto simp: newest_def fun_eq_iff split: option.split)
qed

definition sample_token :: "string \<Rightarrow> int \<Rightarrow> proxy_token" where
  "sample_token acc ts = new_token acc ''at'' ''rt'' 3600 ts (acc @ ''@x'') (''/accounts/'' @ acc)
     (Some ''p'') (Some ''pro'') (Some 80) {} 1 {} None"

theorem reload_merges_witness:
  "tget (tokens (snd (merge_tokens [(''b'', sample_token ''b'' 5), (''a'', sample_token ''a'' 1)]
       (new_token_manager ''d''\<lparr>tokens := [(''a'', sample_token ''a'' 7), (''c'', sample_token ''c'' 7)]\<rparr>)))) ''a''
     = Some (sample_token ''a'' 7)"
  using reload_merges [of "new_token_manager ''d''\<lparr>tokens := [(''a'', sample_token ''a'' 7), (''c'', sample_token ''c'' 7)]\<rparr>"
      "[(''b'', sample_token ''b'' 5), (''a'', sample_token ''a'' 1)]"]
  by (simp add: sample_token_def new_token_def)

section \<open>What a loaded token holds\<close>

lemma and_then_Some: "and_then x f = Inr (Inr r) \<longleftrightarrow> (\<exists>a. x = Inr (Inr a) \<and> f a = Inr (Inr r))"
  by (auto simp: and_then_def split: sum.split)

text \<open>
  Note: quota protection starts at loading. A token made from an account file belongs to an
  account that is neither disabled nor disabled for the proxy, its file is the one that was read, its
  tier is the one the subscription names, and each of the first hundred listed models is available,
  and protected if its remaining percentage is 0 (names of more than 256 bytes are ignored).
\<close>

theorem loaded_token_protects:
  assumes "account_of_json path account tm = Inr (Inr (Some t))"
  shows "\<not> opt_bool account ''disabled'' \<and> \<not> opt_bool account ''proxy_disabled''
    \<and> account_path t = path \<and> cached_tier t = parse_tier (subscription_tier t)
    \<and> (\<forall>(name, pct) \<in> set (quota_models account).
         name \<in> available_models t \<and> (pct = 0 \<longrightarrow> name \<in> protected_models t) \<and> length name \<le> 256)
    \<and> listed_protected account \<subseteq> protected_models t"
proof -
  have len: "length name \<le> 256" if "(name, pct) \<in> set (quota_models account)" for name pct
    using that by (auto simp: quota_models_def MAX_MODEL_NAME_LENGTH_def split: option.splits)
  from assms show ?thesis
    by (auto simp: account_of_json_def and_then_Some Let_def new_token_def dest: len
        split: if_splits)
qed

definition sample_account :: json where
  "sample_account = JObj [(''id'', JStr ''a''), (''email'', JStr ''a@x''),
     (''token'', JObj [(''access_token'', JStr ''at''), (''refresh_token'', JStr ''rt''),
        (''expires_in'', json_i64 3600), (''expiry_timestamp'', json_i64 100000)]),
     (''quota'', JObj [(''models'', JArr [JObj [(''name'', JStr ''m''), (''percentage'', json_i64 0)]])])]"

lemma sample_account_loads: "\<exists>t. account_of_json path sample_account tm = Inr (Inr (Some t))"
  by (simp add: account_of_json_def sample_account_def opt_bool_def jget_def and_then_def ok_or_def as_str_def
      jindex_def as_object_def map_field_def map_index_def json_i64_def as_i64_def Let_def i64_max_def)

theorem loaded_token_protects_witness:
  "case account_of_json ''p'' sample_account (new_token_manager ''d'') of
     Inr (Inr (Some t)) \<Rightarrow> ''m'' \<in> protected_models t \<and> account_path t = ''p'' | _ \<Rightarrow> False"
proof -
  obtain t where run: "account_of_json ''p'' sample_account (new_token_manager ''d'') = Inr (Inr (Some t))"
    using sample_account_loads by blast
  have "quota_models sample_account = [(''m'', 0)]"
    by (simp add: quota_models_def sample_account_def jget_def as_array_def opt_str_def as_str_def json_i64_def
        as_i64_def List.map_filter_def MAX_MODEL_NAME_LENGTH_def MAX_MODELS_PER_ACCOUNT_def i64_max_def)
  with loaded_token_protects [OF run] run show ?thesis by simp
qed

text \<open>
  Note: a token object without one of its fields aborts the process instead of giving the error
  the code has for it: \<open>token_obj\<close> is a \<open>serde_json::Map\<close>, and indexing a map with an absent key panics.
\<close>

theorem missing_access_token_panics:
  "account_of_json path (JObj [(''id'', JStr acc), (''email'', JStr mail), (''token'', JObj [])]) tm
     = Inl (MissingKey ''access_token'')"
  by (simp add: account_of_json_def opt_bool_def jget_def and_then_def ok_or_def as_str_def jindex_def
      as_object_def map_field_def map_index_def)

end
