(* ===== verification/Token_Refresh.thy ===== *)
theory Token_Refresh
  imports Token_Store
begin

text \<open>
  Keeping tokens fresh: \<open>token_manager/token_refresh.rs\<close> (refreshing an access token, finding the
  project id), \<open>persistence.rs\<close> and \<open>file_utils.rs\<close> (writing back to the account file and the
  repository) and the parts of \<open>rate_limiter.rs\<close> that talk to the quota service.

  The network and the data base are in the record \<open>token_env\<close>: what the OAuth service, the project
  service, the quota service and the repository answer. Writing a file goes through a temporary file
  and a rename, either of which can fail. The mutexes per account are not modelled beyond the tables
  they are kept in: an operation is one step. Writing passes through states of the disk that a crash makes
  lasting: a file that is being written has a part of its new contents, a rename is one step, as POSIX has it.
  The overflow checks of \<open>chrono\<close> in the expiry sent to the data base are left out.
\<close>

section \<open>Environment\<close>

record token_response =
  resp_access_token :: string
  resp_expires_in :: int
  resp_refresh_token :: "string option"

record repo_env =
  update_project_id :: "string \<Rightarrow> string \<Rightarrow> string + unit"
  update_token_credentials :: "string \<Rightarrow> string \<Rightarrow> string option \<Rightarrow> int \<Rightarrow> string + unit"
  set_account_disabled :: "string \<Rightarrow> string \<Rightarrow> int \<Rightarrow> string + unit"

record token_env = parse_env +
  json_text :: "json \<Rightarrow> string"                                   \<comment> \<open>\<open>to_string_pretty\<close>\<close>
  write_fault :: "string \<Rightarrow> (string \<times> nat option) option"
    \<comment> \<open>the error text of a failing write to the path, with the bytes written till then (\<open>None\<close>: the file is not opened)\<close>
  rename_fault :: "string \<Rightarrow> string option"                       \<comment> \<open>the error text of a failing rename to the path\<close>
  refresh_access_token :: "string \<Rightarrow> string option \<Rightarrow> string + token_response"
  fetch_project_id :: "string \<Rightarrow> string option \<Rightarrow> string + string"
  fetch_quota :: "string \<Rightarrow> string \<Rightarrow> string option \<Rightarrow> string list option"  \<comment> \<open>reset times of the models\<close>
  repo :: "repo_env option"

section \<open>Account files\<close>

text \<open>Every account path ends in \<open>.json\<close>, so the new extension \<open>json.tmp\<close> is appended to it.\<close>

definition temp_path :: "string \<Rightarrow> string" where
  "temp_path path = path @ ''.tmp''"

type_synonym disk = "(string, string) table"

datatype fs_call = FsWrite string string | FsRename string string

text \<open>The states of the disk that a call passes through, one after the other; the last one is what it leaves\<close>

definition partial_writes :: "string \<Rightarrow> string \<Rightarrow> nat \<Rightarrow> disk \<Rightarrow> disk list" where
  "partial_writes path txt n fs = map (\<lambda>k. tput path (take k txt) fs) [0..<Suc (min n (length txt))]"

fun call_states :: "('e) token_env_scheme \<Rightarrow> fs_call \<Rightarrow> disk \<Rightarrow> (string + unit) \<times> disk list" where
  "call_states env (FsWrite path txt) fs =
     (case write_fault env path of
        None \<Rightarrow> (Inr (), partial_writes path txt (length txt) fs)
      | Some (e, None) \<Rightarrow> (Inl (''Failed to write temp file: '' @ e), [])
      | Some (e, Some n) \<Rightarrow> (Inl (''Failed to write temp file: '' @ e), partial_writes path txt n fs))"
| "call_states env (FsRename src path) fs =
     (case (rename_fault env path, tget fs src) of
        (None, Some txt) \<Rightarrow> (Inr (), [tdel src (tput path txt fs)])
      | (None, None) \<Rightarrow> (Inl ''Failed to rename file: No such file or directory (os error 2)'', [])
      | (Some e, _) \<Rightarrow> (Inl (''Failed to rename file: '' @ e), []))"

fun run_calls :: "('e) token_env_scheme \<Rightarrow> fs_call list \<Rightarrow> disk \<Rightarrow> (string + unit) \<times> disk list" where
  "run_calls env [] fs = (Inr (), [])"
| "run_calls env (c # cs) fs =
     (case call_states env c fs of
        (Inl e, ds) \<Rightarrow> (Inl e, ds)
      | (Inr _, ds) \<Rightarrow> let (r, ds') = run_calls env cs (last (fs # ds)) in (r, ds @ ds'))"

definition atomic_write_calls :: "string \<Rightarrow> string \<Rightarrow> fs_call list" where
  "atomic_write_calls path txt = [FsWrite (temp_path path) txt, FsRename (temp_path path) path]"

definition atomic_write_json ::
  "('e) token_env_scheme \<Rightarrow> string \<Rightarrow> json \<Rightarrow> token_manager \<Rightarrow> (string + unit) \<times> token_manager" where
  "atomic_write_json env path content tm =
     (let (r, ds) = run_calls env (atomic_write_calls path (json_text env content)) (files tm)
      in (r, tm\<lparr>files := last (files tm # ds)\<rparr>))"

definition truncate_reason :: "string \<Rightarrow> nat \<Rightarrow> string" where
  "truncate_reason reason max_len =
     (if length (chars reason) \<le> max_len then reason
      else concat (take max_len (chars reason)) @ map byte [226, 128, 166])"

definition get_file_lock :: "string \<Rightarrow> token_manager \<Rightarrow> token_manager" where
  "get_file_lock acc tm = tm\<lparr>file_locks := tentry acc () (file_locks tm)\<rparr>"

text \<open>
  What the three writers share: lock, read, parse, edit, write. The edit gives an error text, the new
  contents, or a panic.
\<close>

definition edit_account_file ::
  "('e) token_env_scheme \<Rightarrow> string \<Rightarrow> string \<Rightarrow> (json \<Rightarrow> panic + (string + json))
   \<Rightarrow> token_manager \<Rightarrow> panic + ((string + unit) \<times> token_manager)" where
  "edit_account_file env acc path edit tm =
     (let tm = get_file_lock acc tm
      in case tget (files tm) path of
           None \<Rightarrow> Inr (Inl (''Failed to read file: '' @ read_error env path), tm)
         | Some content_str \<Rightarrow>
             (case json_of env content_str of
                None \<Rightarrow> Inr (Inl (''Failed to parse JSON: '' @ json_error env content_str), tm)
              | Some content \<Rightarrow>
                  (case edit content of
                     Inl p \<Rightarrow> Inl p
                   | Inr (Inl e) \<Rightarrow> Inr (Inl e, tm)
                   | Inr (Inr content) \<Rightarrow> Inr (atomic_write_json env path content tm))))"

fun set_all :: "(string \<times> json) list \<Rightarrow> json \<Rightarrow> panic + json" where
  "set_all [] v = Inr v"
| "set_all ((k, x) # xs) v = (case json_set k x v of Inl p \<Rightarrow> Inl p | Inr v \<Rightarrow> set_all xs v)"

text \<open>Edits of the \<open>token\<close> object of the file.\<close>

definition edit_token :: "(string \<times> json) list \<Rightarrow> json \<Rightarrow> panic + (string + json)" where
  "edit_token changes content =
     (case (content, jget ''token'' content) of
        (JObj m, Some token_obj) \<Rightarrow>
          map_sum id (\<lambda>t. Inr (JObj (tput ''token'' t m))) (set_all changes token_obj)
      | _ \<Rightarrow> Inr (Inl ''Malformed JSON: missing 'token' object''))"

definition set_cached :: "string \<Rightarrow> (proxy_token \<Rightarrow> proxy_token) \<Rightarrow> token_manager \<Rightarrow> token_manager" where
  "set_cached acc f tm =
     (case tget (tokens tm) acc of
        None \<Rightarrow> tm | Some t \<Rightarrow> tm\<lparr>tokens := tput acc (f t) (tokens tm)\<rparr>)"

definition on_ok ::
  "(token_manager \<Rightarrow> token_manager) \<Rightarrow> panic + ((string + unit) \<times> token_manager)
   \<Rightarrow> panic + ((string + unit) \<times> token_manager)" where
  "on_ok f r = (case r of Inl p \<Rightarrow> Inl p | Inr (Inl e, tm) \<Rightarrow> Inr (Inl e, tm) | Inr (Inr u, tm) \<Rightarrow> Inr (Inr u, f tm))"

lemma on_ok_Inr: "on_ok f r = Inr (Inr u, tm') \<longleftrightarrow> (\<exists>tm. r = Inr (Inr u, tm) \<and> tm' = f tm)"
  by (auto simp: on_ok_def split: sum.splits)

definition save_project_id_to_file ::
  "('e) token_env_scheme \<Rightarrow> string \<Rightarrow> string \<Rightarrow> token_manager \<Rightarrow> panic + ((string + unit) \<times> token_manager)" where
  "save_project_id_to_file env acc pid tm =
     (case tget (tokens tm) acc of
        None \<Rightarrow> Inr (Inl ''Account not found'', tm)
      | Some entry \<Rightarrow>
          on_ok (set_cached acc (\<lambda>t. t\<lparr>project_id := Some pid\<rparr>))
            (edit_account_file env acc (account_path entry) (edit_token [(''project_id'', JStr pid)]) tm))"

definition save_refreshed_token_to_file ::
  "('e) token_env_scheme \<Rightarrow> int \<Rightarrow> string \<Rightarrow> token_response \<Rightarrow> token_manager
   \<Rightarrow> panic + ((string + unit) \<times> token_manager)" where
  "save_refreshed_token_to_file env now acc resp tm =
     (case tget (tokens tm) acc of
        None \<Rightarrow> Inr (Inl ''Account not found'', tm)
      | Some entry \<Rightarrow>
          on_ok
            (set_cached acc (\<lambda>t.
               let t = t\<lparr>access_token := resp_access_token resp, expires_in := resp_expires_in resp,
                         timestamp := now\<rparr>
               in case resp_refresh_token resp of None \<Rightarrow> t | Some rt \<Rightarrow> t\<lparr>refresh_token := rt\<rparr>))
            (edit_account_file env acc (account_path entry)
              (edit_token
                ([(''access_token'', JStr (resp_access_token resp)),
                  (''expires_in'', json_i64 (resp_expires_in resp)),
                  (''expiry_timestamp'', json_i64 (i64_wrap (now + resp_expires_in resp)))]
                 @ (case resp_refresh_token resp of None \<Rightarrow> [] | Some rt \<Rightarrow> [(''refresh_token'', JStr rt)])))
              tm))"

definition disable_account_in_file ::
  "('e) token_env_scheme \<Rightarrow> int \<Rightarrow> string \<Rightarrow> string \<Rightarrow> token_manager
   \<Rightarrow> panic + ((string + unit) \<times> token_manager)" where
  "disable_account_in_file env now acc reason tm =
     (let path = (case tget (tokens tm) acc of
                    Some entry \<Rightarrow> account_path entry | None \<Rightarrow> account_file tm acc)
      in on_ok (\<lambda>tm. tm\<lparr>tokens := tdel acc (tokens tm)\<rparr>)
           (edit_account_file env acc path
             (\<lambda>content. map_sum id Inr
                (set_all [(''disabled'', JBool True), (''disabled_at'', json_i64 now),
                          (''disabled_reason'', JStr (truncate_reason reason 800))] content)) tm))"

text \<open>The outcome of the two writes; the file comes first, then the data base if there is one.\<close>

definition dual_write :: "string + unit \<Rightarrow> string + unit \<Rightarrow> string + unit" where
  "dual_write file_result db_result =
     (case (file_result, db_result) of
        (Inr _, Inr _) \<Rightarrow> Inr ()
      | (Inl e1, Inl e2) \<Rightarrow> Inl (''Dual-write failure: [File: '' @ e1 @ ''] [DB: '' @ e2 @ '']'')
      | (Inl e, Inr _) \<Rightarrow> Inl (''File write failure (DB succeeded): '' @ e)
      | (Inr _, Inl e) \<Rightarrow> Inl (''DB write failure (File succeeded): '' @ e))"

definition db_write :: "('e) token_env_scheme \<Rightarrow> (repo_env \<Rightarrow> string + unit) \<Rightarrow> string + unit" where
  "db_write env f = (case repo env of None \<Rightarrow> Inr () | Some r \<Rightarrow> map_sum ((@) ''DB write: '') id (f r))"

definition save_project_id ::
  "('e) token_env_scheme \<Rightarrow> string \<Rightarrow> string \<Rightarrow> token_manager \<Rightarrow> panic + ((string + unit) \<times> token_manager)" where
  "save_project_id env acc pid tm =
     map_sum id (\<lambda>(r, tm). (dual_write r (db_write env (\<lambda>d. update_project_id d acc pid)), tm))
       (save_project_id_to_file env acc pid tm)"

definition save_refreshed_token ::
  "('e) token_env_scheme \<Rightarrow> int \<Rightarrow> string \<Rightarrow> token_response \<Rightarrow> token_manager
   \<Rightarrow> panic + ((string + unit) \<times> token_manager)" where
  "save_refreshed_token env now acc resp tm =
     map_sum id
       (\<lambda>(r, tm). (dual_write r (db_write env (\<lambda>d. update_token_credentials d acc
            (resp_access_token resp) (resp_refresh_token resp) (now + resp_expires_in resp))), tm))
       (save_refreshed_token_to_file env now acc resp tm)"

definition disable_account ::
  "('e) token_env_scheme \<Rightarrow> int \<Rightarrow> string \<Rightarrow> string \<Rightarrow> token_manager
   \<Rightarrow> panic + ((string + unit) \<times> token_manager)" where
  "disable_account env now acc reason tm =
     map_sum id
       (\<lambda>(r, tm). (dual_write r (db_write env (\<lambda>d. set_account_disabled d acc (truncate_reason reason 800) now)), tm))
       (disable_account_in_file env now acc reason tm)"

section \<open>Refreshing\<close>

definition unix_secs :: "nanos \<Rightarrow> int" where
  "unix_secs now = int (as_secs now)"

definition refreshed :: "int \<Rightarrow> token_response \<Rightarrow> proxy_token \<Rightarrow> proxy_token" where
  "refreshed now resp t =
     (let t = t\<lparr>access_token := resp_access_token resp, expires_in := resp_expires_in resp,
               timestamp := i64_wrap (now + resp_expires_in resp)\<rparr>
      in case resp_refresh_token resp of None \<Rightarrow> t | Some rt \<Rightarrow> t\<lparr>refresh_token := rt\<rparr>)"

definition proxy_required :: "proxy_token \<Rightarrow> token_manager \<Rightarrow> bool" where
  "proxy_required token tm \<longleftrightarrow> proxy_url token = None \<and> enforce_proxy tm"

definition em_dash :: string where "em_dash = map byte [226, 128, 148]"

text \<open>The result carries the caller's token, which the code updates in place.\<close>

definition try_refresh_token ::
  "('e) token_env_scheme \<Rightarrow> nanos \<Rightarrow> proxy_token \<Rightarrow> token_manager
   \<Rightarrow> panic + ((string + unit) \<times> proxy_token \<times> token_manager)" where
  "try_refresh_token env t token tm =
     (let now = unix_secs t in
      if \<not> needs_refresh now token then Inr (Inr (), token, tm)
      else
        let acc = account_id token;
            tm = tm\<lparr>refresh_locks := tentry acc () (refresh_locks tm)\<rparr>;
            fresh = (case tget (tokens tm) acc of
                       Some entry \<Rightarrow> if i64_wrap (now + 300) < timestamp entry then Some entry else None
                     | None \<Rightarrow> None)
        in case fresh of
             Some entry \<Rightarrow>
               Inr (Inr (), token\<lparr>access_token := access_token entry, expires_in := expires_in entry,
                      timestamp := timestamp entry, refresh_token := refresh_token entry\<rparr>, tm)
           | None \<Rightarrow>
               if proxy_required token tm
               then Inr (Inl (''enforce_proxy: account '' @ email token @ '' has no proxy_url '' @ em_dash
                       @ '' blocking token refresh to prevent IP leak''), token, tm)
               else
                 (case refresh_access_token env (refresh_token token) (proxy_url token) of
                    Inr resp \<Rightarrow>
                      let token = refreshed now resp token;
                          tm = set_cached acc (refreshed now resp) tm
                      in (case save_refreshed_token env now acc resp tm of
                            Inl p \<Rightarrow> Inl p
                          | Inr (Inl e, tm) \<Rightarrow>
                              if resp_refresh_token resp \<noteq> None
                              then Inr (Inl (''Failed to persist rotated refresh token: '' @ e), token, tm)
                              else Inr (Inr (), token, tm)
                          | Inr (Inr _, tm) \<Rightarrow> Inr (Inr (), token, tm))
                  | Inl e \<Rightarrow>
                      if contains e ''invalid_grant''
                      then
                        let tm = tm\<lparr>tokens := tdel acc (tokens tm)\<rparr>
                        in (case disable_account env now acc (''invalid_grant: '' @ e) tm of
                              Inl p \<Rightarrow> Inl p
                            | Inr (_, tm) \<Rightarrow> Inr (Inl (''Token refresh failed: '' @ e), token, tm))
                      else Inr (Inl (''Token refresh failed: '' @ e), token, tm)))"

definition DEFAULT_PROJECT :: string where "DEFAULT_PROJECT = ''bamboo-precept-lgxtn''"

definition ensure_project_id ::
  "('e) token_env_scheme \<Rightarrow> proxy_token \<Rightarrow> token_manager
   \<Rightarrow> panic + ((string + string) \<times> proxy_token \<times> token_manager)" where
  "ensure_project_id env token tm =
     (case project_id token of
        Some (c # cs) \<Rightarrow> Inr (Inr (c # cs), token, tm)
      | _ \<Rightarrow>
          if proxy_required token tm
          then Inr (Inl (''enforce_proxy: account '' @ email token @ '' has no proxy_url '' @ em_dash
                  @ '' blocking project_id fetch to prevent IP leak''), token, tm)
          else
            let pid = (case fetch_project_id env (access_token token) (proxy_url token) of
                         Inr pid \<Rightarrow> pid | Inl _ \<Rightarrow> DEFAULT_PROJECT);
                acc = account_id token;
                tm = set_cached acc (\<lambda>t. t\<lparr>project_id := Some pid\<rparr>) tm
            in (case save_project_id env acc pid tm of
                  Inl p \<Rightarrow> Inl p
                | Inr (_, tm) \<Rightarrow> Inr (Inr pid, token\<lparr>project_id := Some pid\<rparr>, tm)))"

definition get_token_by_email ::
  "('e) token_env_scheme \<Rightarrow> nanos \<Rightarrow> string \<Rightarrow> token_manager
   \<Rightarrow> panic + ((string + (string \<times> string \<times> string)) \<times> token_manager)" where
  "get_token_by_email env t mail tm =
     (case find_by_email mail tm of
        None \<Rightarrow> Inr (Inl (''Account not found: '' @ mail), tm)
      | Some token \<Rightarrow>
          (case (if i64_wrap (timestamp token - 300) \<le> unix_secs t
                 then try_refresh_token env t token tm else Inr (Inr (), token, tm)) of
             Inl p \<Rightarrow> Inl p
           | Inr (Inl e, _, tm) \<Rightarrow> Inr (Inl e, tm)
           | Inr (Inr _, token, tm) \<Rightarrow>
               (case ensure_project_id env token tm of
                  Inl p \<Rightarrow> Inl p
                | Inr (Inl e, _, tm) \<Rightarrow> Inr (Inl e, tm)
                | Inr (Inr pid, token, tm) \<Rightarrow> Inr (Inr (access_token token, pid, email token), tm))))"

section \<open>Locks with exact reset times\<close>

definition earliest :: "string list \<Rightarrow> string option" where
  "earliest xs = (if xs = [] then None else Some (Min (set xs)))"

definition get_quota_reset_time :: "('e) token_env_scheme \<Rightarrow> string \<Rightarrow> token_manager \<Rightarrow> string option" where
  "get_quota_reset_time env mail tm =
     Option.bind (find_by_email mail tm) (\<lambda>t.
     Option.bind (tget (files tm) (account_path t)) (\<lambda>content.
     Option.bind (json_of env content) (\<lambda>account.
     Option.bind (Option.bind (Option.bind (jget ''quota'' account) (jget ''models'')) as_array) (\<lambda>models.
       earliest (filter (\<lambda>s. s \<noteq> []) (List.map_filter (\<lambda>m. opt_str m ''reset_time'') models))))))"

definition set_precise_lockout ::
  "('e) token_env_scheme \<Rightarrow> nanos \<Rightarrow> string \<Rightarrow> rate_limit_reason \<Rightarrow> string option
   \<Rightarrow> token_manager \<Rightarrow> panic + (bool \<times> token_manager)" where
  "set_precise_lockout env now mail reason model tm =
     (case get_quota_reset_time env mail tm of
        Some s \<Rightarrow>
          map_sum id (\<lambda>(b, tr). (b, tm\<lparr>tracker := tr\<rparr>))
            (set_lockout_until_iso (parse_env.truncate env) now mail s reason model (tracker tm))
      | None \<Rightarrow> Inr (False, tm))"

definition fetch_and_lock_with_realtime_quota ::
  "('e) token_env_scheme \<Rightarrow> nanos \<Rightarrow> string \<Rightarrow> rate_limit_reason \<Rightarrow> string option
   \<Rightarrow> token_manager \<Rightarrow> panic + (bool \<times> token_manager)" where
  "fetch_and_lock_with_realtime_quota env now mail reason model tm =
     (case find_by_email mail tm of
        None \<Rightarrow> Inr (False, tm)
      | Some t \<Rightarrow>
          if proxy_required t tm then Inr (False, tm)
          else
            (case fetch_quota env (access_token t) mail (proxy_url t) of
               None \<Rightarrow> Inr (False, tm)
             | Some reset_times \<Rightarrow>
                 (case earliest (filter (\<lambda>s. s \<noteq> []) reset_times) of
                    None \<Rightarrow> Inr (False, tm)
                  | Some s \<Rightarrow>
                      map_sum id (\<lambda>(b, tr). (b, tm\<lparr>tracker := tr\<rparr>))
                        (set_lockout_until_iso (parse_env.truncate env) now mail s reason model (tracker tm)))))"

definition normalized_or_self :: "string \<Rightarrow> string" where
  "normalized_or_self m = (case normalize_to_standard_id m of None \<Rightarrow> m | Some s \<Rightarrow> s)"

definition tm_set_model_lockout ::
  "nanos \<Rightarrow> string \<Rightarrow> string \<Rightarrow> nanos \<Rightarrow> rate_limit_reason \<Rightarrow> token_manager \<Rightarrow> token_manager" where
  "tm_set_model_lockout now acc m reset reason tm =
     tm\<lparr>tracker := set_model_lockout now acc m reset reason (tracker tm)\<rparr>"

definition lock_for ::
  "nanos \<Rightarrow> string \<Rightarrow> string \<Rightarrow> nat \<Rightarrow> rate_limit_reason \<Rightarrow> token_manager \<Rightarrow> panic + token_manager" where
  "lock_for now acc m s reason tm =
     map_sum id (\<lambda>reset. tm_set_model_lockout now acc m reset reason tm) (systime_add now (secs s))"

definition bindp :: "panic + 'a \<Rightarrow> ('a \<Rightarrow> panic + 'b) \<Rightarrow> panic + 'b" where
  "bindp x f = (case x of Inl p \<Rightarrow> Inl p | Inr a \<Rightarrow> f a)"

definition mark_rate_limited_async ::
  "('e) token_env_scheme \<Rightarrow> nanos \<Rightarrow> string \<Rightarrow> u16 \<Rightarrow> string option \<Rightarrow> string \<Rightarrow> string option
   \<Rightarrow> token_manager \<Rightarrow> panic + token_manager" where
  "mark_rate_limited_async env now acc status header body model tm =
     (let penv = parse_env.truncate env;
          reason = parse_rate_limit_reason penv body;
          model_str = normalized_or_self (case model of None \<Rightarrow> ''unknown'' | Some m \<Rightarrow> m)
      in if reason = ModelCapacityExhausted then Inr tm
         else
           bindp (lock_for now acc model_str 15 reason tm) (\<lambda>tm.
           if header \<noteq> None \<or> contains body ''quotaResetDelay''
           then
             map_sum id
               (\<lambda>(info, tr).
                  let tm = tm\<lparr>tracker := tr\<rparr>
                  in case info of
                       None \<Rightarrow> tm
                     | Some i \<Rightarrow> tm_set_model_lockout now acc model_str (reset_time i) reason tm)
               (parse_from_error penv now acc status header body (Some model_str) (tracker tm))
           else
             bindp
               (if reason = QuotaExhausted then lock_for now acc model_str 600 reason tm
                else map_sum id (\<lambda>(_, tr). tm\<lparr>tracker := tr\<rparr>)
                       (set_adaptive_model_lockout now acc model_str (tracker tm)))
               (\<lambda>tm.
             bindp (fetch_and_lock_with_realtime_quota env now acc reason (Some model_str) tm) (\<lambda>(done, tm).
             if done then Inr tm
             else map_sum id snd (set_precise_lockout env now acc reason model tm)))))"

section \<open>Properties of refreshing\<close>

lemma set_cached_frame [simp]:
  "active_requests (set_cached acc f tm) = active_requests tm"
  "tracker (set_cached acc f tm) = tracker tm"
  "files (set_cached acc f tm) = files tm"
  "enforce_proxy (set_cached acc f tm) = enforce_proxy tm"
  "routing (set_cached acc f tm) = routing tm"
  "session_accounts (set_cached acc f tm) = session_accounts tm"
  by (simp_all add: set_cached_def split: option.split)

lemma tget_set_cached:
  "tget (tokens (set_cached acc f tm)) k = (if k = acc then map_option f (tget (tokens tm) k) else tget (tokens tm) k)"
  by (auto simp: set_cached_def split: option.split)

text \<open>
  Claim C24: with \<open>enforce_proxy\<close> on, no side channel of an account without a proxy reaches the network.
  Refreshing its token, resolving its project and refreshing its quota give the same result and the
  same state whatever the OAuth service, the project service and the quota service would answer:
  those services are not asked, so the account's address does not leak.
\<close>

theorem enforced_proxy_is_silent:
  assumes "enforce_proxy tm" and "proxy_url token = None"
    and "find_by_email mail tm = Some t" and "proxy_url t = None"
  defines "offline \<equiv> (\<lambda>env. env\<lparr>refresh_access_token := \<lambda>_ _. Inl ''unreachable'',
      fetch_project_id := \<lambda>_ _. Inl ''unreachable'', fetch_quota := \<lambda>_ _ _. None\<rparr>)"
  shows "try_refresh_token env now token tm = try_refresh_token (offline env) now token tm
    \<and> ensure_project_id env token tm = ensure_project_id (offline env) token tm
    \<and> fetch_and_lock_with_realtime_quota env now mail reason model tm
        = fetch_and_lock_with_realtime_quota (offline env) now mail reason model tm"
proof -
  have p: "proxy_required token (tm\<lparr>refresh_locks := l\<rparr>)" "proxy_required token tm" "proxy_required t tm" for l
    using assms(1,2,4) by (simp_all add: proxy_required_def)
  have "try_refresh_token env now token tm = try_refresh_token (offline env) now token tm"
    unfolding try_refresh_token_def Let_def using p by (simp split: option.split)
  moreover have "ensure_project_id env token tm = ensure_project_id (offline env) token tm"
    unfolding ensure_project_id_def using p by (simp split: option.split list.split)
  moreover have "fetch_and_lock_with_realtime_quota env now mail reason model tm
      = fetch_and_lock_with_realtime_quota (offline env) now mail reason model tm"
    using p by (simp add: fetch_and_lock_with_realtime_quota_def assms(3))
  ultimately show ?thesis by blast
qed

definition sample_manager :: token_manager where
  "sample_manager = new_token_manager ''d''\<lparr>tokens := [(''a'', sample_token ''a'' 7)], enforce_proxy := True,
     files := [(''/accounts/a'', ''{}'')]\<rparr>"

definition sample_env :: token_env where
  "sample_env = \<lparr>json_of = \<lambda>_. Some (JObj [(''token'', JObj [])]), captures = \<lambda>_ _. None, rfc3339 = \<lambda>_. None,
     read_error = \<lambda>_. [], json_error = \<lambda>_. [], json_text = \<lambda>_. ''json'',
     write_fault = \<lambda>_. None, rename_fault = \<lambda>_. None,
     refresh_access_token = \<lambda>_ _. Inr \<lparr>resp_access_token = ''new'', resp_expires_in = 3600, resp_refresh_token = None\<rparr>,
     fetch_project_id = \<lambda>_ _. Inr ''p'', fetch_quota = \<lambda>_ _ _. None, repo = None\<rparr>"

lemma sample_manager_simps:
  "find_by_email ''a@x'' sample_manager = Some (sample_token ''a'' 7)"
  "proxy_url (sample_token ''a'' 7) = None" "enforce_proxy sample_manager"
  "account_path (sample_token ''a'' 7) = ''/accounts/a''" "account_id (sample_token ''a'' 7) = ''a''"
  "timestamp (sample_token ''a'' 7) = 7"
  by (simp_all add: sample_manager_def find_by_email_def sample_token_def new_token_def)

theorem enforced_proxy_is_silent_witness:
  "try_refresh_token sample_env 5 (sample_token ''a'' 7) sample_manager
     = try_refresh_token (sample_env\<lparr>refresh_access_token := \<lambda>_ _. Inl ''unreachable'',
         fetch_project_id := \<lambda>_ _. Inl ''unreachable'', fetch_quota := \<lambda>_ _ _. None\<rparr>)
         5 (sample_token ''a'' 7) sample_manager"
  using enforced_proxy_is_silent [OF sample_manager_simps(3,2,1,2)] by blast

section \<open>Writing back\<close>

lemma temp_differs [simp]: "temp_path path \<noteq> path" "path \<noteq> temp_path path"
  by (simp_all add: temp_path_def)

lemma partial_last [simp]: "last (fs # partial_writes p txt n fs') = tput p (take n txt) fs'"
  by (simp add: partial_writes_def min_def)

lemma partial_other: "d \<in> set (partial_writes p txt n fs) \<Longrightarrow> k \<noteq> p \<Longrightarrow> tget d k = tget fs k"
  by (auto simp: partial_writes_def)

text \<open>Writing: while it goes on the file has its old contents or its new ones, and the outcome tells which\<close>

lemma atomic_run:
  assumes "run_calls env (atomic_write_calls path txt) fs = (r, ds)"
  shows "d \<in> set ds \<Longrightarrow> tget d path = tget fs path \<or> tget d path = Some txt"
    and "tget (last (fs # ds)) path = (case r of Inl _ \<Rightarrow> tget fs path | Inr _ \<Rightarrow> Some txt)"
proof -
  let ?w = "tput (temp_path path) txt fs"
  have ok: "call_states env (FsWrite (temp_path path) txt) fs
      = (Inr (), partial_writes (temp_path path) txt (length txt) fs)" if "write_fault env (temp_path path) = None"
    using that by simp
  note other = partial_other [of _ "temp_path path" "txt" _ fs path]
  have "(d \<in> set ds \<longrightarrow> tget d path = tget fs path \<or> tget d path = Some txt)
    \<and> tget (last (fs # ds)) path = (case r of Inl _ \<Rightarrow> tget fs path | Inr _ \<Rightarrow> Some txt)" for d
  proof (cases "write_fault env (temp_path path)")
    case None
    then show ?thesis using assms other
      by (auto simp: atomic_write_calls_def Let_def simp del: last.simps split: option.splits)
         (auto simp: partial_writes_def)
  next
    case (Some x)
    then show ?thesis using assms other
      by (cases x; cases "snd x") (auto simp: atomic_write_calls_def partial_writes_def)
  qed
  then show "d \<in> set ds \<Longrightarrow> tget d path = tget fs path \<or> tget d path = Some txt"
    and "tget (last (fs # ds)) path = (case r of Inl _ \<Rightarrow> tget fs path | Inr _ \<Rightarrow> Some txt)" by blast+
qed

lemma atomic_write:
  assumes "atomic_write_json env path content tm = (r, tm')"
  shows "tget (files tm') path = (case r of Inl _ \<Rightarrow> tget (files tm) path | Inr _ \<Rightarrow> Some (json_text env content))"
    and "\<exists>fs. tm' = tm\<lparr>files := fs\<rparr>"
proof -
  obtain ds where "run_calls env (atomic_write_calls path (json_text env content)) (files tm) = (r, ds)"
    and t: "tm' = tm\<lparr>files := last (files tm # ds)\<rparr>"
    using assms by (auto simp: atomic_write_json_def simp del: last.simps split: prod.splits)
  from atomic_run(2) [OF this(1)] t
  show "tget (files tm') path = (case r of Inl _ \<Rightarrow> tget (files tm) path | Inr _ \<Rightarrow> Some (json_text env content))" by simp
  show "\<exists>fs. tm' = tm\<lparr>files := fs\<rparr>" using t by blast
qed

lemma edit_account_file_Inr:
  assumes "edit_account_file env acc path edit tm = Inr (Inr (), tm')"
  shows "tokens tm' = tokens tm \<and> tracker tm' = tracker tm \<and> active_requests tm' = active_requests tm
    \<and> (\<exists>s c c'. tget (files tm) path = Some s \<and> json_of env s = Some c \<and> edit c = Inr (Inr c')
         \<and> tget (files tm') path = Some (json_text env c'))"
  using assms
  by (fastforce simp: edit_account_file_def get_file_lock_def Let_def dest: atomic_write
      split: option.splits sum.splits)

lemma edit_account_file_frame:
  assumes "edit_account_file env acc path edit tm = Inr (r, tm')"
  shows "tokens tm' = tokens tm \<and> tracker tm' = tracker tm \<and> active_requests tm' = active_requests tm
    \<and> routing tm' = routing tm \<and> session_accounts tm' = session_accounts tm"
  using assms
  by (auto simp: edit_account_file_def get_file_lock_def Let_def dest: atomic_write(2)
      split: option.splits sum.splits)

text \<open>
  Claim C23: writing an account file is all or nothing. When an edit of an account file reports an error, for
  whatever reason (no file, no JSON, a refused edit, a write that fails halfway, a failed rename), the file still has
  its old contents; when it reports success the file has exactly the edited contents. And a crash of the process
  at any moment of the edit, also in the middle of a write, leaves the file with its old contents or with the edited
  ones. (What the system loses when the machine itself goes down is not modelled; the code does not sync its files.)
\<close>

theorem account_file_all_or_nothing:
  assumes "edit_account_file env acc path edit tm = Inr (r, tm')"
  shows "(case r of
      Inl e \<Rightarrow> tget (files tm') path = tget (files tm) path
    | Inr _ \<Rightarrow> \<exists>s c c'. tget (files tm) path = Some s \<and> json_of env s = Some c \<and> edit c = Inr (Inr c')
                 \<and> tget (files tm') path = Some (json_text env c'))
    \<and> (\<forall>s c c'. tget (files tm) path = Some s \<and> json_of env s = Some c \<and> edit c = Inr (Inr c') \<longrightarrow>
        (\<forall>d \<in> set (snd (run_calls env (atomic_write_calls path (json_text env c')) (files tm))).
           tget d path = Some s \<or> tget d path = Some (json_text env c')))"
proof -
  have "tget d path = Some s \<or> tget d path = Some (json_text env c')"
    if "tget (files tm) path = Some s" "d \<in> set (snd (run_calls env (atomic_write_calls path (json_text env c')) (files tm)))"
    for s c' d
    using that atomic_run(1) [of env path "json_text env c'" "files tm"] by (metis prod.collapse)
  moreover have "case r of
      Inl e \<Rightarrow> tget (files tm') path = tget (files tm) path
    | Inr _ \<Rightarrow> \<exists>s c c'. tget (files tm) path = Some s \<and> json_of env s = Some c \<and> edit c = Inr (Inr c')
                 \<and> tget (files tm') path = Some (json_text env c')"
  proof (cases r)
    case (Inl e)
    with assms show ?thesis
      by (auto simp: edit_account_file_def get_file_lock_def Let_def dest: atomic_write(1)
          split: option.splits sum.splits)
  next
    case (Inr u)
    with edit_account_file_Inr [of env acc path edit tm tm'] assms show ?thesis by auto
  qed
  ultimately show ?thesis by blast
qed

lemma sample_write:
  assumes "write_fault env (temp_path path) = None" and "rename_fault env path = None"
  shows "\<exists>tm'. atomic_write_json env path content tm = (Inr (), tm')"
  using assms by (simp add: atomic_write_json_def atomic_write_calls_def Let_def del: last.simps)

lemma set_all_object: "\<exists>m'. set_all changes (JObj m) = Inr (JObj m')"
  by (induction changes arbitrary: m) (auto simp: json_set_def)

lemma sample_edit:
  "\<exists>tm'. edit_account_file sample_env ''a'' ''/accounts/a'' (edit_token changes) sample_manager = Inr (Inr (), tm')"
proof -
  have w: "\<exists>tm'. atomic_write_json sample_env ''/accounts/a'' c tm = (Inr (), tm')" for c tm
    by (rule sample_write) (simp_all add: sample_env_def)
  obtain c where "edit_token changes (JObj [(''token'', JObj [])]) = Inr (Inr c)"
    using set_all_object [of changes "[]"] by (auto simp: edit_token_def jget_def)
  moreover have "json_of sample_env x = Some (JObj [(''token'', JObj [])])" for x by (simp add: sample_env_def)
  ultimately show ?thesis
    using w by (simp add: edit_account_file_def get_file_lock_def Let_def sample_manager_def new_token_manager_def)
qed

theorem account_file_all_or_nothing_witness:
  "\<exists>tm'. edit_account_file sample_env ''a'' ''/accounts/a'' (edit_token [(''project_id'', JStr ''p'')]) sample_manager
      = Inr (Inr (), tm') \<and> tget (files tm') ''/accounts/a'' = Some ''json''"
proof -
  obtain tm' where run: "edit_account_file sample_env ''a'' ''/accounts/a''
      (edit_token [(''project_id'', JStr ''p'')]) sample_manager = Inr (Inr (), tm')"
    using sample_edit by blast
  from account_file_all_or_nothing [OF run] have "tget (files tm') ''/accounts/a'' = Some ''json''"
    by (auto simp: sample_env_def)
  with run show ?thesis by blast
qed

text \<open>
  Note: after a refresh the cached token looks expired. Writing a refreshed token back puts the
  expiry (now plus the lifetime) into the file but the present time into the memory cache, whose
  \<open>timestamp\<close> is an expiry time too; so a token that was refreshed this second needs a refresh again.
\<close>

theorem refreshed_cache_looks_expired:
  assumes "save_refreshed_token_to_file env now acc resp tm = Inr (Inr (), tm')" and "0 \<le> now"
  shows "\<exists>t. tget (tokens tm') acc = Some t \<and> access_token t = resp_access_token resp
    \<and> timestamp t = now \<and> needs_refresh now t"
proof -
  obtain entry where e: "tget (tokens tm) acc = Some entry"
    using assms(1) by (auto simp: save_refreshed_token_to_file_def split: option.splits)
  obtain changes tm1 where run: "edit_account_file env acc (account_path entry) (edit_token changes) tm = Inr (Inr (), tm1)"
    and tm': "tm' = set_cached acc (\<lambda>t.
               let t = t\<lparr>access_token := resp_access_token resp, expires_in := resp_expires_in resp,
                         timestamp := now\<rparr>
               in case resp_refresh_token resp of None \<Rightarrow> t | Some rt \<Rightarrow> t\<lparr>refresh_token := rt\<rparr>) tm1"
    using assms(1) unfolding save_refreshed_token_to_file_def e option.case on_ok_Inr by blast
  have "tget (tokens tm1) acc = Some entry" using edit_account_file_frame [OF run] e by simp
  with assms(2) show ?thesis
    by (auto simp: tm' tget_set_cached Let_def needs_refresh_def REFRESH_BUFFER_SECS_def i64_sat_sub_def
        i64_min_def split: option.splits)
qed

theorem refreshed_cache_looks_expired_witness:
  "\<exists>tm' t. save_refreshed_token_to_file sample_env 1000 ''a''
      \<lparr>resp_access_token = ''new'', resp_expires_in = 3600, resp_refresh_token = None\<rparr> sample_manager = Inr (Inr (), tm')
     \<and> tget (tokens tm') ''a'' = Some t \<and> access_token t = ''new'' \<and> needs_refresh 1000 t"
proof -
  let ?resp = "\<lparr>resp_access_token = ''new'', resp_expires_in = 3600, resp_refresh_token = None\<rparr>"
  obtain tm' where run: "save_refreshed_token_to_file sample_env 1000 ''a'' ?resp sample_manager = Inr (Inr (), tm')"
  proof -
    have t: "tget (tokens sample_manager) ''a'' = Some (sample_token ''a'' 7)" by (simp add: sample_manager_def)
    show thesis
      using that sample_edit [of "[(''access_token'', JStr ''new''), (''expires_in'', json_i64 3600),
          (''expiry_timestamp'', json_i64 (i64_wrap 4600))]"]
      by (auto simp: save_refreshed_token_to_file_def on_ok_def t sample_manager_simps)
  qed
  from refreshed_cache_looks_expired [OF run] run show ?thesis by auto
qed

text \<open>
  Note: a lock set with an exact reset time is stored under the model name of the request, but the
  account selection looks under the normalised name. For a name that normalises to another one, the
  lock changes nothing the selection sees.
\<close>

theorem precise_lock_not_seen:
  assumes "set_precise_lockout env now mail reason (Some model) tm = Inr (done, tm')"
    and "normalized_or_self model \<noteq> model"
  shows "tm_is_rate_limited_for_model t acc (normalized_or_self model) tm'
    = tm_is_rate_limited_for_model t acc (normalized_or_self model) tm"
proof -
  have "tget (limits (tracker tm')) (AccountKey acc) = tget (limits (tracker tm)) (AccountKey acc)
    \<and> tget (limits (tracker tm')) (ModelKey acc (normalized_or_self model))
        = tget (limits (tracker tm)) (ModelKey acc (normalized_or_self model))"
    using assms
    by (auto simp: set_precise_lockout_def set_lockout_until_iso_def set_lockout_until_def from_optional_model_def
        split: option.splits if_splits sum.splits)
  then show ?thesis by (simp add: tm_is_rate_limited_for_model_def limited_for_model_iff)
qed

lemma opus_normalized: "normalized_or_self ''claude-opus-4'' \<noteq> ''claude-opus-4''"
proof -
  have "target_or_self ''claude-opus-4'' = ''claude-opus-4-5-thinking''"
    by (simp add: target_or_self_def CLAUDE_TO_GEMINI_def)
  then have "normalize_to_standard_id ''claude-opus-4'' = Some ''claude-opus-4-5-thinking''"
    using standard_of_targets by (simp add: normalize_unfold standard_ids_def)
  then show ?thesis by (simp add: normalized_or_self_def)
qed

definition quota_env :: token_env where
  "quota_env = sample_env\<lparr>json_of := \<lambda>_. Some (JObj [(''quota'', JObj [(''models'', JArr [JObj [(''reset_time'', JStr ''t'')]])])]),
     rfc3339 := \<lambda>_. Some 1000\<rparr>"

lemma quota_env_lock:
  "set_precise_lockout quota_env 3 ''a@x'' QuotaExhausted (Some ''claude-opus-4'') sample_manager
     = Inr (True, sample_manager\<lparr>tracker :=
         set_lockout_until 3 ''a@x'' (secs 1000) QuotaExhausted (Some ''claude-opus-4'') new_tracker\<rparr>)"
proof -
  have "get_quota_reset_time quota_env ''a@x'' sample_manager = Some ''t''"
    unfolding get_quota_reset_time_def sample_manager_simps(1)
    by (simp add: sample_manager_simps, simp add: sample_manager_def quota_env_def jget_def as_array_def
        opt_str_def as_str_def earliest_def map_filter_simps)
  moreover have "rfc3339 (parse_env.truncate quota_env) ''t'' = Some 1000"
    by (simp add: quota_env_def sample_env_def parse_env.truncate_def)
  moreover have "systime_add 0 (secs (nat 1000)) = Inr (secs 1000)" by (simp add: systime_add_def as_secs_def secs_def)
  moreover have "tracker sample_manager = new_tracker" by (simp add: sample_manager_def new_token_manager_def)
  ultimately show ?thesis by (simp add: set_precise_lockout_def set_lockout_until_iso_def)
qed

theorem precise_lock_not_seen_witness:
  "\<exists>tm'. set_precise_lockout quota_env 3 ''a@x'' QuotaExhausted (Some ''claude-opus-4'') sample_manager = Inr (True, tm')
     \<and> tm_is_rate_limited_for_model 5 ''a@x'' ''claude-opus-4'' tm'
     \<and> \<not> tm_is_rate_limited_for_model 5 ''a@x'' (normalized_or_self ''claude-opus-4'') tm'"
proof -
  have "\<not> tm_is_rate_limited_for_model 5 ''a@x'' (normalized_or_self ''claude-opus-4'') sample_manager"
    by (simp add: tm_is_rate_limited_for_model_def limited_for_model_iff sample_manager_def
        new_token_manager_def new_tracker_def info_live_def)
  with precise_lock_not_seen [OF quota_env_lock opus_normalized, of 5 "''a@x''"] quota_env_lock
  show ?thesis
    by (simp add: tm_is_rate_limited_for_model_def limited_for_model_iff set_lockout_until_def
        from_optional_model_def info_live_def secs_def)
qed

end
