(* ===== verification/Token_Selection.thy ===== *)
theory Token_Selection
  imports Token_Refresh
begin

text \<open>
  Choosing the account of a request: \<open>token_manager/candidate_filter.rs\<close>, \<open>selection_helpers.rs\<close>,
  \<open>recovery.rs\<close> and \<open>selection.rs\<close>.

  A guard that goes out of scope is dropped where the code drops it: the probe of the recovery at the
  end of its condition, the guard of an attempt when the attempt ends in \<open>continue\<close> or in an error.
  The clock \<open>now\<close> moves only when the code sleeps. The five second timeout around a selection is
  not modelled.
\<close>

section \<open>Eligibility\<close>

record select_args =
  target :: string                  \<comment> \<open>the normalised model\<close>
  quota_protection :: bool
  with_aimd :: bool                 \<comment> \<open>an adaptive limit manager is passed\<close>
  limit :: u32                      \<comment> \<open>\<open>max_concurrent_per_account\<close>\<close>

definition AIMD_THRESHOLD :: rat where "AIMD_THRESHOLD = rnd64 (6 / 5)"

definition is_candidate_eligible ::
  "select_args \<Rightarrow> nanos \<Rightarrow> proxy_token \<Rightarrow> string set \<Rightarrow> bool \<Rightarrow> bool \<Rightarrow> token_manager \<Rightarrow> bool \<times> token_manager" where
  "is_candidate_eligible a now t attempted check_quota check_aimd tm =
     (if email t \<in> attempted then (False, tm)
      else if tm_is_rate_limited_for_model now (email t) (target a) tm then (False, tm)
      else if check_quota \<and> quota_protection a \<and> is_model_protected (account_id t) (target a) tm then (False, tm)
      else if check_aimd \<and> with_aimd a then
        (case adaptive_limits tm of
           None \<Rightarrow> (True, tm)
         | Some m \<Rightarrow>
             let (r, m) = mgr_usage_ratio now (email t) m
             in (\<not> AIMD_THRESHOLD < r, tm\<lparr>adaptive_limits := Some m\<rparr>))
      else (True, tm))"

fun eligible_candidates ::
  "select_args \<Rightarrow> nanos \<Rightarrow> string set \<Rightarrow> proxy_token list \<Rightarrow> token_manager \<Rightarrow> proxy_token list \<times> token_manager" where
  "eligible_candidates a now attempted [] tm = ([], tm)"
| "eligible_candidates a now attempted (t # ts) tm =
     (let (ok, tm) = is_candidate_eligible a now t attempted True True tm;
          (cs, tm) = eligible_candidates a now attempted ts tm
      in (if ok then t # cs else cs, tm))"

section \<open>Slots\<close>

definition acquire :: "string \<Rightarrow> u32 \<Rightarrow> token_manager \<Rightarrow> request_guard option \<times> token_manager" where
  "acquire mail cap tm =
     (let (g, t) = try_new (active_requests tm) mail cap in (g, tm\<lparr>active_requests := t\<rparr>))"

definition drop_slot :: "request_guard \<Rightarrow> token_manager \<Rightarrow> token_manager" where
  "drop_slot g tm = tm\<lparr>active_requests := drop_guard g (active_requests tm)\<rparr>"

fun acquire_first ::
  "u32 \<Rightarrow> proxy_token list \<Rightarrow> token_manager \<Rightarrow> (proxy_token \<times> request_guard) option \<times> token_manager" where
  "acquire_first cap [] tm = (None, tm)"
| "acquire_first cap (t # ts) tm =
     (case acquire (email t) cap tm of
        (Some g, tm) \<Rightarrow> (Some (t, g), tm)
      | (None, tm) \<Rightarrow> acquire_first cap ts tm)"

text \<open>The candidates with their loads at this moment, sorted.\<close>

definition by_load :: "proxy_token list \<Rightarrow> token_manager \<Rightarrow> proxy_token list" where
  "by_load cs tm = map fst (sort_by compare_with_load (map (\<lambda>t. (t, get_active_requests (email t) tm)) cs))"

section \<open>The ways to select\<close>

definition try_scored_selection ::
  "select_args \<Rightarrow> nanos \<Rightarrow> proxy_token list \<Rightarrow> string set \<Rightarrow> token_manager
   \<Rightarrow> (proxy_token \<times> request_guard) option \<times> token_manager" where
  "try_scored_selection a now snapshot attempted tm =
     (let (cs, tm) = eligible_candidates a now attempted snapshot tm
      in acquire_first (limit a) (by_load cs tm) tm)"

definition try_ultra_tier_selection ::
  "select_args \<Rightarrow> nanos \<Rightarrow> proxy_token list \<Rightarrow> string set \<Rightarrow> token_manager
   \<Rightarrow> (proxy_token \<times> request_guard) option \<times> token_manager" where
  "try_ultra_tier_selection a now snapshot attempted tm =
     (let (cs, tm) = eligible_candidates a now attempted (filter is_ultra_tier snapshot) tm
      in if cs = [] then (None, tm) else acquire_first (limit a) (by_load cs tm) tm)"

definition try_sticky_session ::
  "select_args \<Rightarrow> nanos \<Rightarrow> string \<Rightarrow> proxy_token list \<Rightarrow> string set \<Rightarrow> token_manager
   \<Rightarrow> (proxy_token \<times> request_guard) option \<times> token_manager" where
  "try_sticky_session a now sid snapshot attempted tm =
     (case get_session_account sid tm of
        None \<Rightarrow> (None, tm)
      | Some bound_id \<Rightarrow>
          (case find (\<lambda>t. email t = bound_id) snapshot of
             None \<Rightarrow> (None, tm)
           | Some found \<Rightarrow>
               let (ok, tm) = is_candidate_eligible a now found attempted True True tm
               in if \<not> ok then (None, tm\<lparr>session_accounts := tdel sid (session_accounts tm)\<rparr>)
                  else let (g, tm) = acquire (email found) (limit a) tm
                       in (map_option (\<lambda>g. (found, g)) g, tm)))"

definition try_preferred_account ::
  "('e) token_env_scheme \<Rightarrow> select_args \<Rightarrow> nanos \<Rightarrow> proxy_token list \<Rightarrow> string \<Rightarrow> token_manager
   \<Rightarrow> panic + ((proxy_token \<times> request_guard) option \<times> token_manager)" where
  "try_preferred_account env a now snapshot pref_id tm =
     (case find (\<lambda>t. account_id t = pref_id) snapshot of
        None \<Rightarrow> Inr (None, tm)
      | Some token \<Rightarrow>
          if tm_is_rate_limited_for_model now (email token) (target a) tm then Inr (None, tm)
          else if quota_protection a \<and> is_model_protected (account_id token) (target a) tm then Inr (None, tm)
          else
            (case (if needs_refresh (unix_secs now) token then try_refresh_token env now token tm
                   else Inr (Inr (), token, tm)) of
               Inl p \<Rightarrow> Inl p
             | Inr (Inl _, _, tm) \<Rightarrow> Inr (None, tm)
             | Inr (Inr _, token, tm) \<Rightarrow>
                 (case ensure_project_id env token tm of
                    Inl p \<Rightarrow> Inl p
                  | Inr (Inl _, _, tm) \<Rightarrow> Inr (None, tm)
                  | Inr (Inr _, token, tm) \<Rightarrow>
                      let (g, tm) = acquire (email token) (limit a) tm
                      in Inr (map_option (\<lambda>g. (token, g)) g, tm))))"

text \<open>The three searches of the recovery: the first eligible account with a free slot, if any.\<close>

fun probe_first ::
  "select_args \<Rightarrow> nanos \<Rightarrow> string set \<Rightarrow> proxy_token list \<Rightarrow> token_manager \<Rightarrow> proxy_token option \<times> token_manager" where
  "probe_first a now attempted [] tm = (None, tm)"
| "probe_first a now attempted (t # ts) tm =
     (let (ok, tm) = is_candidate_eligible a now t attempted True False tm
      in if \<not> ok then probe_first a now attempted ts tm
         else
           (case acquire (email t) (limit a) tm of
              (Some g, tm) \<Rightarrow> (Some t, drop_slot g tm)
            | (None, tm) \<Rightarrow> probe_first a now attempted ts tm))"

definition THUNDERING_HERD_DELAY :: nanos where "THUNDERING_HERD_DELAY = millis 500"

definition try_recovery_selection ::
  "select_args \<Rightarrow> nanos \<Rightarrow> proxy_token list \<Rightarrow> string set \<Rightarrow> token_manager
   \<Rightarrow> (string + proxy_token option) \<times> nanos \<times> token_manager" where
  "try_recovery_selection a now snapshot attempted tm =
     (let waits = List.map_filter (\<lambda>t. get_reset_seconds now (email t) (tracker tm)) snapshot
      in if waits \<noteq> [] then
           let wait_sec = Min (set waits)
           in if wait_sec \<le> 2 then
                let now = now + THUNDERING_HERD_DELAY
                in (case probe_first a now attempted snapshot tm of
                      (Some t, tm) \<Rightarrow> (Inr (Some t), now, tm)
                    | (None, tm) \<Rightarrow>
                        (case probe_first a now attempted snapshot (clear_all_rate_limits tm) of
                           (Some t, tm) \<Rightarrow> (Inr (Some t), now, tm)
                         | (None, tm) \<Rightarrow>
                             (Inl ''All accounts failed after optimistic reset. Please check account health.'',
                              now, tm)))
              else (Inl (''All accounts are currently limited. Please wait '' @ show_nat wait_sec @ ''s.''), now, tm)
         else
           let now = now + THUNDERING_HERD_DELAY
           in (case probe_first a now attempted snapshot tm of
                 (Some t, tm) \<Rightarrow> (Inr (Some t), now, tm)
               | (None, tm) \<Rightarrow> (Inl ''All accounts at maximum capacity. Please retry later.'', now, tm)))"

section \<open>The selection loop\<close>

text \<open>One request: what the loop keeps fixed.\<close>

record request_args = select_args +
  force_rotate :: bool
  session_id :: "string option"
  affinity :: bool

type_synonym grant = "string \<times> string \<times> string \<times> request_guard"

text \<open>The unbinding at the start of an attempt.\<close>

definition unbind_if_failing :: "string option \<Rightarrow> token_manager \<Rightarrow> token_manager" where
  "unbind_if_failing sid tm =
     (case sid of
        Some s \<Rightarrow> if should_unbind_session s tm then snd (unbind_session_on_failures s tm) else tm
      | None \<Rightarrow> tm)"

text \<open>Ultra tier, then the session's account, then the best score.\<close>

definition choose_account ::
  "request_args \<Rightarrow> nanos \<Rightarrow> bool \<Rightarrow> proxy_token list \<Rightarrow> string set \<Rightarrow> token_manager
   \<Rightarrow> (proxy_token \<times> request_guard) option \<times> token_manager" where
  "choose_account a now rot snapshot attempted tm =
     (let sa = select_args.truncate a;
          (r, tm) = (if \<not> rot then try_ultra_tier_selection sa now snapshot attempted tm else (None, tm));
          (r, tm) =
            (case (r, session_id a) of
               (None, Some sid) \<Rightarrow>
                 if \<not> rot \<and> affinity a then try_sticky_session sa now sid snapshot attempted tm else (None, tm)
             | _ \<Rightarrow> (r, tm))
      in case r of
           None \<Rightarrow> try_scored_selection sa now snapshot attempted tm
         | Some x \<Rightarrow> (Some x, tm))"

text \<open>The recovery and the slot taken after it.\<close>

definition recover_and_acquire ::
  "request_args \<Rightarrow> nanos \<Rightarrow> proxy_token list \<Rightarrow> string set \<Rightarrow> string option \<Rightarrow> token_manager
   \<Rightarrow> (string + (proxy_token \<times> request_guard)) \<times> nanos \<times> token_manager" where
  "recover_and_acquire a now snapshot attempted last_error tm =
     (case try_recovery_selection (select_args.truncate a) now snapshot attempted tm of
        (Inl e, now, tm) \<Rightarrow> (Inl e, now, tm)
      | (Inr (Some t), now, tm) \<Rightarrow>
          (case acquire (email t) (limit a) tm of
             (Some g, tm) \<Rightarrow> (Inr (t, g), now, tm)
           | (None, tm) \<Rightarrow> (Inl ''Failed to acquire guard after recovery'', now, tm))
      | (Inr None, now, tm) \<Rightarrow>
          (Inl (case last_error of None \<Rightarrow> ''All accounts failed'' | Some e \<Rightarrow> e), now, tm))"

text \<open>Refresh and project id of the chosen account; an error ends the attempt.\<close>

definition prepare_token ::
  "('e) token_env_scheme \<Rightarrow> nanos \<Rightarrow> proxy_token \<Rightarrow> token_manager
   \<Rightarrow> panic + ((string + (proxy_token \<times> string)) \<times> token_manager)" where
  "prepare_token env now token tm =
     (case (if i64_wrap (timestamp token - 300) \<le> unix_secs now
            then (case try_refresh_token env now token tm of
                    Inl p \<Rightarrow> Inl p
                  | Inr (Inl e, t, tm) \<Rightarrow> Inr (Inl e, t, tm)
                  | Inr (Inr _, t, tm) \<Rightarrow> Inr (Inr (), t, tm\<lparr>tokens := tput (account_id t) t (tokens tm)\<rparr>))
            else Inr (Inr (), token, tm)) of
        Inl p \<Rightarrow> Inl p
      | Inr (Inl e, _, tm) \<Rightarrow> Inr (Inl e, tm)
      | Inr (Inr _, token, tm) \<Rightarrow>
          (case ensure_project_id env token tm of
             Inl p \<Rightarrow> Inl p
           | Inr (Inl e, _, tm) \<Rightarrow> Inr (Inl e, tm)
           | Inr (Inr pid, token, tm) \<Rightarrow>
               Inr (Inr (token, pid), set_cached (account_id token) (\<lambda>t. t\<lparr>project_id := Some pid\<rparr>) tm)))"

fun select_loop ::
  "('e) token_env_scheme \<Rightarrow> request_args \<Rightarrow> proxy_token list \<Rightarrow> nat \<Rightarrow> bool \<Rightarrow> nanos \<Rightarrow> string set
   \<Rightarrow> string option \<Rightarrow> token_manager \<Rightarrow> panic + ((string + grant) \<times> token_manager)" where
  "select_loop env a snapshot 0 later now attempted last_error tm =
     Inr (Inl (case last_error of None \<Rightarrow> ''All accounts failed'' | Some e \<Rightarrow> e), tm)"
| "select_loop env a snapshot (Suc n) later now attempted last_error tm =
     (let rot = (force_rotate a \<or> later);
          tm = unbind_if_failing (session_id a) tm;
          (r, tm) = choose_account a now rot snapshot attempted tm;
          (chosen, now, tm) =
            (case r of
               Some x \<Rightarrow> (Inr x, now, tm)
             | None \<Rightarrow> recover_and_acquire a now snapshot attempted last_error tm)
      in case chosen of
           Inl e \<Rightarrow> Inr (Inl e, tm)
         | Inr (token, g) \<Rightarrow>
             let tm = (case session_id a of
                         Some sid \<Rightarrow> bind_session_to_account now sid (email token) (affinity a) tm
                       | None \<Rightarrow> tm)
             in (case prepare_token env now token tm of
                   Inl p \<Rightarrow> Inl p
                 | Inr (Inl e, tm) \<Rightarrow>
                     select_loop env a snapshot n True now (insert (email token) attempted) (Some e) (drop_slot g tm)
                 | Inr (Inr (token, pid), tm) \<Rightarrow> Inr (Inr (access_token token, pid, email token, g), tm)))"

definition get_token_internal ::
  "('e) token_env_scheme \<Rightarrow> bool \<Rightarrow> nanos \<Rightarrow> bool \<Rightarrow> string option \<Rightarrow> string \<Rightarrow> string set option
   \<Rightarrow> token_manager \<Rightarrow> panic + ((string + grant) \<times> token_manager)" where
  "get_token_internal env quota_enabled now rot sid model exclude tm =
     (let total = length (tokens tm)
      in if total = 0 then Inr (Inl ''Token pool is empty'', tm)
         else
           let norm = normalized_or_self model;
               sorted = sort_by compare_tokens_by_priority (map snd (tokens tm));
               snapshot = (if quota_enabled
                           then filter (\<lambda>t. \<not> is_model_protected (account_id t) norm tm) sorted else sorted);
               a = \<lparr>target = norm, quota_protection = quota_enabled, with_aimd = (adaptive_limits tm \<noteq> None),
                    limit = max_concurrent_per_account (routing tm), force_rotate = rot, session_id = sid,
                    affinity = enable_session_affinity (routing tm)\<rparr>
           in case (case preferred_account_id tm of
                      Some pref \<Rightarrow> try_preferred_account env (select_args.truncate a) now snapshot pref tm
                    | None \<Rightarrow> Inr (None, tm)) of
                Inl p \<Rightarrow> Inl p
              | Inr (Some (token, g), tm) \<Rightarrow>
                  Inr (Inr (access_token token,
                            (case project_id token of Some (c # cs) \<Rightarrow> c # cs | _ \<Rightarrow> DEFAULT_PROJECT),
                            email token, g), tm)
              | Inr (None, tm) \<Rightarrow>
                  select_loop env a snapshot total False now
                    (case exclude of None \<Rightarrow> {} | Some s \<Rightarrow> s) None tm)"

definition get_token_forced ::
  "('e) token_env_scheme \<Rightarrow> nanos \<Rightarrow> string \<Rightarrow> token_manager \<Rightarrow> panic + ((string + grant) \<times> token_manager)" where
  "get_token_forced env now forced tm =
     (case find (\<lambda>t. to_lowercase (email t) = to_lowercase forced) (map snd (tokens tm)) of
        None \<Rightarrow> Inr (Inl (''Forced account not found: '' @ forced), tm)
      | Some token \<Rightarrow>
          if tm_is_rate_limited now (account_id token) tm
          then Inr (Inl (''Forced account '' @ forced @ '' is rate limited''), tm)
          else
            (case acquire (email token) (max_concurrent_per_account (routing tm)) tm of
               (None, tm) \<Rightarrow> Inr (Inl (''Forced account '' @ forced @ '' at max concurrency (''
                   @ show_nat (unat (max_concurrent_per_account (routing tm))) @ '')''), tm)
             | (Some g, tm) \<Rightarrow>
                 (case prepare_token env now token tm of
                    Inl p \<Rightarrow> Inl p
                  | Inr (Inl e, tm) \<Rightarrow> Inr (Inl e, drop_slot g tm)
                  | Inr (Inr (token, pid), tm) \<Rightarrow> Inr (Inr (access_token token, pid, email token, g), tm))))"

section \<open>Eligibility as a question\<close>

definition tracker_at :: "nanos \<Rightarrow> limit_manager \<Rightarrow> string \<Rightarrow> Adaptive_Limit.tracker" where
  "tracker_at now m acc =
     (case tget (trackers m) acc of
        Some t \<Rightarrow> t | None \<Rightarrow> tracker_new now (mgr_safety_margin m) (mgr_aimd m))"

definition ratio_at :: "nanos \<Rightarrow> limit_manager \<Rightarrow> string \<Rightarrow> rat" where
  "ratio_at now m acc = usage_of (maybe_reset_minute now (tracker_at now m acc))"

lemma maybe_reset_idem: "maybe_reset_minute now (maybe_reset_minute now t) = maybe_reset_minute now t"
  by (simp add: maybe_reset_minute_def elapsed_def)

lemma mgr_usage_ratio_eq: "fst (mgr_usage_ratio now acc m) = ratio_at now m acc"
  by (simp add: mgr_usage_ratio_def on_tracker_def get_or_create_def usage_ratio_def Let_def ratio_at_def
      tracker_at_def split: option.split)

lemma ratio_at_after: "ratio_at now (snd (mgr_usage_ratio now acc m)) acc' = ratio_at now m acc'"
proof -
  have "tracker_at now (snd (mgr_usage_ratio now acc m)) acc'
      = (if acc' = acc then maybe_reset_minute now (tracker_at now m acc) else tracker_at now m acc')"
    by (auto simp: mgr_usage_ratio_def on_tracker_def get_or_create_def usage_ratio_def Let_def
        tracker_at_def split: option.split)
  then show ?thesis by (simp add: ratio_at_def maybe_reset_idem)
qed

definition eligible ::
  "select_args \<Rightarrow> nanos \<Rightarrow> string set \<Rightarrow> bool \<Rightarrow> token_manager \<Rightarrow> proxy_token \<Rightarrow> bool" where
  "eligible a now attempted check_aimd tm t \<longleftrightarrow>
     email t \<notin> attempted \<and> \<not> tm_is_rate_limited_for_model now (email t) (target a) tm
     \<and> \<not> (quota_protection a \<and> is_model_protected (account_id t) (target a) tm)
     \<and> (check_aimd \<and> with_aimd a \<longrightarrow>
          (case adaptive_limits tm of None \<Rightarrow> True | Some m \<Rightarrow> ratio_at now m (email t) \<le> AIMD_THRESHOLD))"

text \<open>Asking may start a new minute of an account's tracker and changes nothing else.\<close>

definition same_but_aimd :: "nanos \<Rightarrow> token_manager \<Rightarrow> token_manager \<Rightarrow> bool" where
  "same_but_aimd now tm tm' \<longleftrightarrow> tm' = tm\<lparr>adaptive_limits := adaptive_limits tm'\<rparr>
     \<and> (case adaptive_limits tm of None \<Rightarrow> adaptive_limits tm' = None
        | Some m \<Rightarrow> \<exists>m'. adaptive_limits tm' = Some m' \<and> ratio_at now m' = ratio_at now m)"

lemma same_but_aimd_refl: "same_but_aimd now tm tm"
  by (simp add: same_but_aimd_def split: option.split)

lemma same_but_aimd_trans: "same_but_aimd now a b \<Longrightarrow> same_but_aimd now b c \<Longrightarrow> same_but_aimd now a c"
  by (auto simp: same_but_aimd_def split: option.splits)

lemma same_but_aimd_fields:
  assumes "same_but_aimd now tm tm'"
  shows "tokens tm' = tokens tm" "tracker tm' = tracker tm" "active_requests tm' = active_requests tm"
    "session_accounts tm' = session_accounts tm" "session_failures tm' = session_failures tm"
    "routing tm' = routing tm"
proof -
  obtain l where "tm' = tm\<lparr>adaptive_limits := l\<rparr>" using assms unfolding same_but_aimd_def by blast
  then show "tokens tm' = tokens tm" "tracker tm' = tracker tm" "active_requests tm' = active_requests tm"
    "session_accounts tm' = session_accounts tm" "session_failures tm' = session_failures tm"
    "routing tm' = routing tm" by simp_all
qed

lemma eligible_same:
  assumes "same_but_aimd now tm tm'"
  shows "eligible a now attempted c tm' t = eligible a now attempted c tm t"
  using same_but_aimd_fields [OF assms] assms
  by (auto simp: eligible_def tm_is_rate_limited_for_model_def is_model_protected_def same_but_aimd_def
      split: option.splits)

lemma is_candidate_eligible_spec:
  "fst (is_candidate_eligible a now t attempted True c tm) = eligible a now attempted c tm t
   \<and> same_but_aimd now tm (snd (is_candidate_eligible a now t attempted True c tm))"
proof (cases "c \<and> with_aimd a")
  case True
  show ?thesis
  proof (cases "adaptive_limits tm")
    case None
    with True show ?thesis by (simp add: is_candidate_eligible_def eligible_def same_but_aimd_refl)
  next
    case (Some m)
    obtain r m' where m': "mgr_usage_ratio now (email t) m = (r, m')" by force
    have r: "r = ratio_at now m (email t)" using mgr_usage_ratio_eq [of now "email t" m] m' by simp
    have "ratio_at now m' = ratio_at now m" using ratio_at_after [of now "email t" m] m' by (simp add: fun_eq_iff)
    with Some have "same_but_aimd now tm (tm\<lparr>adaptive_limits := Some m'\<rparr>)" by (simp add: same_but_aimd_def)
    with True Some m' r show ?thesis
      by (auto simp: is_candidate_eligible_def eligible_def same_but_aimd_refl not_less)
  qed
next
  case False
  then show ?thesis by (auto simp: is_candidate_eligible_def eligible_def same_but_aimd_refl)
qed

lemma eligible_candidates_spec:
  "fst (eligible_candidates a now attempted ts tm) = filter (eligible a now attempted True tm) ts
   \<and> same_but_aimd now tm (snd (eligible_candidates a now attempted ts tm))"
proof (induction ts arbitrary: tm)
  case Nil
  then show ?case by (simp add: same_but_aimd_refl)
next
  case (Cons t ts)
  obtain ok tm1 where 1: "is_candidate_eligible a now t attempted True True tm = (ok, tm1)" by force
  with is_candidate_eligible_spec [of a now t attempted True tm]
  have ok: "ok = eligible a now attempted True tm t" and s1: "same_but_aimd now tm tm1" by auto
  obtain cs tm2 where 2: "eligible_candidates a now attempted ts tm1 = (cs, tm2)" by force
  from Cons.IH [of tm1] 2 have cs: "cs = filter (eligible a now attempted True tm1) ts"
    and s2: "same_but_aimd now tm1 tm2" by auto
  have "eligible a now attempted True tm1 = eligible a now attempted True tm"
    using eligible_same [OF s1] by (simp add: fun_eq_iff)
  with 1 2 ok cs same_but_aimd_trans [OF s1 s2] show ?case by simp
qed

section \<open>Slots taken and given back\<close>

definition count :: "token_manager \<Rightarrow> string \<Rightarrow> u32" where
  "count tm = active_count (active_requests tm)"

definition live_guard :: "string \<Rightarrow> request_guard" where
  "live_guard mail = \<lparr>guard_key = mail, released = False\<rparr>"

definition same_but_slots :: "token_manager \<Rightarrow> token_manager \<Rightarrow> bool" where
  "same_but_slots tm tm' \<longleftrightarrow> (\<exists>t. tm' = tm\<lparr>active_requests := t\<rparr>)"

lemma same_but_slots_refl: "same_but_slots tm tm"
  unfolding same_but_slots_def by (rule exI [of _ "active_requests tm"]) simp

lemma same_but_slots_trans: "same_but_slots a b \<Longrightarrow> same_but_slots b c \<Longrightarrow> same_but_slots a c"
  by (auto simp: same_but_slots_def)

lemma same_but_slots_fields:
  assumes "same_but_slots tm tm'"
  shows "tokens tm' = tokens tm" "tracker tm' = tracker tm" "session_accounts tm' = session_accounts tm"
    "session_failures tm' = session_failures tm" "routing tm' = routing tm"
    "adaptive_limits tm' = adaptive_limits tm"
  using assms by (auto simp: same_but_slots_def)

lemma acquire_fields: "acquire mail cap tm = (g, tm') \<Longrightarrow> same_but_slots tm tm'"
  by (auto simp: acquire_def split_beta same_but_slots_def)

lemma drop_slot_fields: "same_but_slots tm (drop_slot g tm)"
  by (auto simp: drop_slot_def same_but_slots_def)

lemma acquire_None:
  assumes "acquire mail cap tm = (None, tm')"
  shows "count tm' = count tm" and "cap \<le> count tm mail"
proof -
  from assms obtain t where r: "try_new (active_requests tm) mail cap = (None, t)"
    and tm': "tm' = tm\<lparr>active_requests := t\<rparr>" by (auto simp: acquire_def split_beta prod_eq_iff)
  show full: "cap \<le> count tm mail"
    using try_new_Some_iff [of "active_requests tm" mail cap] r by (simp add: count_def not_less)
  show "count tm' = count tm"
    using try_new_count [of "active_requests tm" mail cap] r tm' full by (auto simp: count_def fun_eq_iff not_less)
qed

lemma acquire_Some:
  assumes "acquire mail cap tm = (Some g, tm')"
  shows "g = live_guard mail" and "count tm mail < cap" and "count tm' = (count tm)(mail := count tm mail + 1)"
proof -
  from assms obtain t where r: "try_new (active_requests tm) mail cap = (Some g, t)"
    and tm': "tm' = tm\<lparr>active_requests := t\<rparr>" by (auto simp: acquire_def split_beta prod_eq_iff)
  from r show "g = live_guard mail" and "count tm mail < cap"
    and "count tm' = (count tm)(mail := count tm mail + 1)"
    by (auto simp: try_new_eq_Some live_guard_def count_def tm' fun_eq_iff)
qed

lemma acquire_iff: "fst (acquire mail cap tm) \<noteq> None \<longleftrightarrow> count tm mail < cap"
  using try_new_Some_iff [of "active_requests tm" mail cap] by (simp add: acquire_def split_beta count_def)

lemma count_drop_slot:
  assumes "count tm' = (count tm)(mail := count tm mail + 1)" and "count tm mail < cap"
  shows "count (drop_slot (live_guard mail) tm') = count tm"
proof
  fix k
  have "0 < count tm mail + 1" using word_less_Suc [OF assms(2)] by (simp add: word_less_nat_alt)
  then show "count (drop_slot (live_guard mail) tm') k = count tm k"
    using fun_cong [OF assms(1), of mail] fun_cong [OF assms(1), of k]
    by (auto simp: count_def drop_slot_def live_guard_def active_count_drop)
qed

lemma acquire_first_spec:
  assumes "acquire_first cap ts tm = (r, tm')"
  shows "same_but_slots tm tm'
    \<and> map_option fst r = find (\<lambda>t. count tm (email t) < cap) ts
    \<and> (case r of None \<Rightarrow> count tm' = count tm
        | Some (t, g) \<Rightarrow> t \<in> set ts \<and> g = live_guard (email t) \<and> count tm (email t) < cap
            \<and> count tm' = (count tm)(email t := count tm (email t) + 1))"
  using assms
proof (induction ts arbitrary: tm)
  case Nil
  then show ?case by (simp add: same_but_slots_refl)
next
  case (Cons t ts)
  obtain g tm1 where 1: "acquire (email t) cap tm = (g, tm1)" by force
  show ?case
  proof (cases g)
    case None
    from Cons.prems 1 None have r: "acquire_first cap ts tm1 = (r, tm')" by simp
    have c: "count tm1 = count tm" and full: "\<not> count tm (email t) < cap"
      using acquire_None [OF 1 [unfolded None]] by (simp_all add: not_less)
    from Cons.IH [OF r] full same_but_slots_trans [OF acquire_fields [OF 1]]
    show ?thesis unfolding c by (auto split: option.split)
  next
    case (Some g')
    with Cons.prems 1 have r: "r = Some (t, g')" "tm' = tm1" by simp_all
    from acquire_Some [OF 1 [unfolded Some]] acquire_fields [OF 1] show ?thesis
      unfolding r by simp
  qed
qed

lemma by_load_set: "set (by_load cs tm) = set cs"
  by (force simp: by_load_def)

lemma probe_first_spec:
  assumes "probe_first a now attempted ts tm = (r, tm')"
  shows "same_but_slots tm tm' \<and> count tm' = count tm
    \<and> r = find (\<lambda>t. eligible a now attempted False tm t \<and> count tm (email t) < limit a) ts"
  using assms
proof (induction ts arbitrary: tm)
  case Nil
  then show ?case by (simp add: same_but_slots_refl)
next
  case (Cons t ts)
  have e: "is_candidate_eligible a now t attempted True False tm = (eligible a now attempted False tm t, tm)"
    by (auto simp: is_candidate_eligible_def eligible_def)
  show ?case
  proof (cases "eligible a now attempted False tm t")
    case False
    with Cons e show ?thesis by simp
  next
    case True
    obtain g tm1 where 1: "acquire (email t) (limit a) tm = (g, tm1)" by force
    show ?thesis
    proof (cases g)
      case None
      from Cons.prems e True 1 None have r: "probe_first a now attempted ts tm1 = (r, tm')" by simp
      have c: "count tm1 = count tm" and full: "\<not> count tm (email t) < limit a"
        using acquire_None [OF 1 [unfolded None]] by (simp_all add: not_less)
      have el: "eligible a now attempted False tm1 = eligible a now attempted False tm"
        using same_but_slots_fields [OF acquire_fields [OF 1]]
        by (auto simp: fun_eq_iff eligible_def tm_is_rate_limited_for_model_def is_model_protected_def)
      from Cons.IH [OF r] full same_but_slots_trans [OF acquire_fields [OF 1]]
      show ?thesis unfolding c el by auto
    next
      case (Some g')
      from Cons.prems e True 1 Some have r: "r = Some t" "tm' = drop_slot g' tm1" by simp_all
      note ac = acquire_Some [OF 1 [unfolded Some]]
      have "count tm' = count tm" using count_drop_slot [OF ac(3,2)] unfolding r ac(1) .
      with same_but_slots_trans [OF acquire_fields [OF 1] drop_slot_fields] ac(2) True
      show ?thesis unfolding r by simp
    qed
  qed
qed

section \<open>Refreshing takes no slots\<close>

text \<open>What refreshing and preparing a token leave alone.\<close>

definition keeps_decisions :: "token_manager \<Rightarrow> token_manager \<Rightarrow> bool" where
  "keeps_decisions tm tm' \<longleftrightarrow> active_requests tm' = active_requests tm \<and> tracker tm' = tracker tm
     \<and> routing tm' = routing tm \<and> session_accounts tm' = session_accounts tm"

lemma keeps_decisions_trans: "keeps_decisions a b \<Longrightarrow> keeps_decisions b c \<Longrightarrow> keeps_decisions a c"
  by (simp add: keeps_decisions_def)

lemma keeps_decisions_refl [simp]: "keeps_decisions tm tm"
  by (simp add: keeps_decisions_def)

lemma keeps_set_cached [simp]: "keeps_decisions tm (set_cached acc f tm)"
  by (simp add: keeps_decisions_def)

lemma keeps_edit: "edit_account_file env acc path edit tm = Inr (r, tm') \<Longrightarrow> keeps_decisions tm tm'"
  using edit_account_file_frame by (fastforce simp: keeps_decisions_def)

lemma keeps_on_ok:
  assumes "on_ok f x = Inr (r, tm')" and "\<And>r tm1. x = Inr (r, tm1) \<Longrightarrow> keeps_decisions tm tm1"
    and "\<And>tm. keeps_decisions tm (f tm)"
  shows "keeps_decisions tm tm'"
  using assms by (auto simp: on_ok_def split: sum.splits) (meson keeps_decisions_trans)

lemma keeps_saves:
  "save_project_id env acc pid tm = Inr (r, tm') \<Longrightarrow> keeps_decisions tm tm'"
  "save_refreshed_token env now acc resp tm = Inr (r, tm') \<Longrightarrow> keeps_decisions tm tm'"
  "disable_account env now acc reason tm = Inr (r, tm') \<Longrightarrow> keeps_decisions tm tm'"
proof -
  assume "save_project_id env acc pid tm = Inr (r, tm')"
  then obtain r1 where "save_project_id_to_file env acc pid tm = Inr (r1, tm')"
    by (auto simp: save_project_id_def map_sum_def split: sum.splits)
  then show "keeps_decisions tm tm'"
    by (auto simp: save_project_id_to_file_def split: option.splits elim!: keeps_on_ok intro: keeps_edit)
next
  assume "save_refreshed_token env now acc resp tm = Inr (r, tm')"
  then obtain r1 where "save_refreshed_token_to_file env now acc resp tm = Inr (r1, tm')"
    by (auto simp: save_refreshed_token_def map_sum_def split: sum.splits)
  then show "keeps_decisions tm tm'"
    by (auto simp: save_refreshed_token_to_file_def split: option.splits elim!: keeps_on_ok intro: keeps_edit)
next
  assume "disable_account env now acc reason tm = Inr (r, tm')"
  then obtain r1 where "disable_account_in_file env now acc reason tm = Inr (r1, tm')"
    by (auto simp: disable_account_def map_sum_def split: sum.splits)
  then show "keeps_decisions tm tm'"
    by (auto simp: disable_account_in_file_def Let_def keeps_decisions_def [of _ "_\<lparr>tokens := _\<rparr>"]
        elim!: keeps_on_ok intro: keeps_edit)
qed

lemma refreshed_email [simp]: "email (refreshed now resp t) = email t"
  by (simp add: refreshed_def Let_def split: option.split)

lemma keeps_locks [simp]: "keeps_decisions tm (tm\<lparr>refresh_locks := l\<rparr>)" "keeps_decisions tm (tm\<lparr>tokens := t\<rparr>)"
  by (simp_all add: keeps_decisions_def)

lemma try_refresh_token_keeps:
  assumes "try_refresh_token env now token tm = Inr (r, t, tm')"
  shows "keeps_decisions tm tm' \<and> email t = email token"
proof -
  have trans: "keeps_decisions (tm\<lparr>refresh_locks := l\<rparr>) x \<Longrightarrow> keeps_decisions tm x"
    "keeps_decisions (set_cached acc f (tm\<lparr>refresh_locks := l\<rparr>)) x \<Longrightarrow> keeps_decisions tm x"
    "keeps_decisions (tm\<lparr>refresh_locks := l, tokens := u\<rparr>) x \<Longrightarrow> keeps_decisions tm x" for l acc f u x
    by (simp_all add: keeps_decisions_def)
  from assms show ?thesis
    unfolding try_refresh_token_def Let_def
    by (auto split: if_splits option.splits sum.splits dest!: keeps_saves trans)
qed

lemma ensure_project_id_keeps:
  assumes "ensure_project_id env token tm = Inr (r, t, tm')"
  shows "keeps_decisions tm tm' \<and> email t = email token"
proof -
  have trans: "keeps_decisions (set_cached acc f tm) x \<Longrightarrow> keeps_decisions tm x" for acc f x
    by (simp add: keeps_decisions_def)
  from assms show ?thesis
    unfolding ensure_project_id_def Let_def
    by (auto split: if_splits option.splits sum.splits list.splits dest!: keeps_saves trans)
qed

lemma prepare_token_keeps:
  assumes "prepare_token env now token tm = Inr (r, tm')"
  shows "keeps_decisions tm tm' \<and> (case r of Inl _ \<Rightarrow> True | Inr (t, _) \<Rightarrow> email t = email token)"
proof -
  from assms show ?thesis
    unfolding prepare_token_def
    by (auto split: if_splits option.splits sum.splits dest!: try_refresh_token_keeps ensure_project_id_keeps)
      (simp_all add: keeps_decisions_def)
qed

section \<open>What one attempt chooses\<close>

text \<open>
  A choice: an eligible token of the snapshot with a free slot, taken; or nothing, and no slot taken.
\<close>

definition good_choice ::
  "select_args \<Rightarrow> nanos \<Rightarrow> proxy_token list \<Rightarrow> string set \<Rightarrow> token_manager
   \<Rightarrow> (proxy_token \<times> request_guard) option \<Rightarrow> token_manager \<Rightarrow> bool" where
  "good_choice a now snapshot attempted tm r tm' \<longleftrightarrow>
     tracker tm' = tracker tm \<and> tokens tm' = tokens tm \<and> routing tm' = routing tm
     \<and> (case r of
          None \<Rightarrow> count tm' = count tm
        | Some (t, g) \<Rightarrow> t \<in> set snapshot \<and> eligible a now attempted False tm t \<and> g = live_guard (email t)
            \<and> count tm (email t) < limit a \<and> count tm' = (count tm)(email t := count tm (email t) + 1))"

lemma eligible_weaker: "eligible a now attempted c tm t \<Longrightarrow> eligible a now attempted False tm t"
  by (simp add: eligible_def)

lemma count_same: "same_but_aimd now tm tm' \<Longrightarrow> count tm' = count tm"
  by (simp add: count_def same_but_aimd_fields fun_eq_iff)

lemma acquire_eligible_good:
  assumes "eligible_candidates a now attempted ts tm = (cs, tm1)" and "set ts \<subseteq> set snapshot"
    and "acquire_first (limit a) (by_load cs tm1) tm1 = (r, tm')"
  shows "good_choice a now snapshot attempted tm r tm'"
proof -
  from eligible_candidates_spec [of a now attempted ts tm] assms(1)
  have cs: "cs = filter (eligible a now attempted True tm) ts" and s: "same_but_aimd now tm tm1" by auto
  from acquire_first_spec [OF assms(3)] cs assms(2) same_but_aimd_fields [OF s]
    same_but_slots_fields [of tm1 tm']
  show ?thesis
    unfolding good_choice_def count_same [OF s]
    by (auto simp: by_load_set eligible_weaker split: option.splits)
qed

lemma scored_good:
  "try_scored_selection a now snapshot attempted tm = (r, tm') \<Longrightarrow> good_choice a now snapshot attempted tm r tm'"
  unfolding try_scored_selection_def by (auto simp: split_beta intro: acquire_eligible_good [OF prod.collapse [symmetric]])

lemma ultra_good:
  assumes "try_ultra_tier_selection a now snapshot attempted tm = (r, tm')"
  shows "good_choice a now snapshot attempted tm r tm'"
proof -
  obtain cs tm1 where e: "eligible_candidates a now attempted (filter is_ultra_tier snapshot) tm = (cs, tm1)" by force
  have "acquire_first (limit a) (by_load cs tm1) tm1 = (r, tm')"
    using assms e by (auto simp: try_ultra_tier_selection_def by_load_def sort_by_def split: if_splits)
  then show ?thesis by (intro acquire_eligible_good [OF e]) auto
qed

lemma sticky_good:
  assumes "try_sticky_session a now sid snapshot attempted tm = (r, tm')"
  shows "good_choice a now snapshot attempted tm r tm'"
proof (cases "Option.bind (get_session_account sid tm) (\<lambda>b. find (\<lambda>t. email t = b) snapshot)")
  case None
  with assms have "r = None" "tm' = tm" by (auto simp: try_sticky_session_def split: option.splits)
  then show ?thesis by (simp add: good_choice_def)
next
  case (Some found)
  then obtain b where b: "get_session_account sid tm = Some b" "find (\<lambda>t. email t = b) snapshot = Some found"
    by (auto simp: bind_eq_Some_conv)
  then have mem: "found \<in> set snapshot" by (auto simp: find_Some_iff)
  obtain ok tm1 where 1: "is_candidate_eligible a now found attempted True True tm = (ok, tm1)" by force
  with is_candidate_eligible_spec [of a now found attempted True tm]
  have ok: "ok = eligible a now attempted True tm found" and s: "same_but_aimd now tm tm1" by auto
  note sf = same_but_aimd_fields [OF s] count_same [OF s]
  show ?thesis
  proof (cases ok)
    case False
    with assms b 1 have "r = None" "tm' = tm1\<lparr>session_accounts := tdel sid (session_accounts tm1)\<rparr>"
      by (simp_all add: try_sticky_session_def)
    with sf show ?thesis by (simp add: good_choice_def count_def)
  next
    case True
    obtain g tm2 where 2: "acquire (email found) (limit a) tm1 = (g, tm2)" by force
    with assms b 1 True have r: "r = map_option (\<lambda>g. (found, g)) g" "tm' = tm2"
      by (simp_all add: try_sticky_session_def)
    note af = same_but_slots_fields [OF acquire_fields [OF 2]]
    show ?thesis
    proof (cases g)
      case None
      with r af sf acquire_None [OF 2 [unfolded None]] show ?thesis by (simp add: good_choice_def)
    next
      case (Some g')
      with r af sf acquire_Some [OF 2 [unfolded Some]] mem True ok show ?thesis
        by (simp add: good_choice_def eligible_weaker)
    qed
  qed
qed

lemma eligible_same_tracker:
  "tracker tm1 = tracker tm \<Longrightarrow> tokens tm1 = tokens tm \<Longrightarrow> eligible a now attempted False tm1 t = eligible a now attempted False tm t"
  by (simp add: eligible_def tm_is_rate_limited_for_model_def is_model_protected_def)

lemma good_choice_after:
  assumes "good_choice a now snapshot attempted tm None tm1" and "good_choice a now snapshot attempted tm1 r tm2"
  shows "good_choice a now snapshot attempted tm r tm2"
proof -
  from assms(1) have f: "tracker tm1 = tracker tm" "tokens tm1 = tokens tm" "routing tm1 = routing tm" "count tm1 = count tm"
    by (simp_all add: good_choice_def)
  from assms(2) show ?thesis
    unfolding good_choice_def f eligible_same_tracker [OF f(1,2)] .
qed

lemma good_choice_refl: "good_choice a now snapshot attempted tm None tm"
  by (simp add: good_choice_def)

lemma choose_account_good:
  assumes "choose_account a now rot snapshot attempted tm = (r, tm')"
  shows "good_choice (select_args.truncate a) now snapshot attempted tm r tm'"
proof -
  let ?sa = "select_args.truncate a"
  obtain r1 tm1 where 1: "(if \<not> rot then try_ultra_tier_selection ?sa now snapshot attempted tm else (None, tm)) = (r1, tm1)"
    by force
  have g1: "good_choice ?sa now snapshot attempted tm r1 tm1"
    using 1 by (auto simp: good_choice_refl intro: ultra_good split: if_splits)
  show ?thesis
  proof (cases r1)
    case (Some x)
    with assms 1 have "r = r1" "tm' = tm1" by (auto simp: choose_account_def Let_def)
    with g1 show ?thesis by simp
  next
    case None
    obtain r2 tm2 where 2: "(case session_id a of
         Some sid \<Rightarrow> if \<not> rot \<and> affinity a then try_sticky_session ?sa now sid snapshot attempted tm1 else (None, tm1)
       | None \<Rightarrow> (None, tm1)) = (r2, tm2)" by force
    have g2: "good_choice ?sa now snapshot attempted tm1 r2 tm2"
      using 2 by (auto simp: good_choice_refl intro: sticky_good split: if_splits option.splits)
    have g12: "good_choice ?sa now snapshot attempted tm r2 tm2"
      using good_choice_after [OF _ g2] g1 None by simp
    have "(case r2 of None \<Rightarrow> try_scored_selection ?sa now snapshot attempted tm2 | Some x \<Rightarrow> (Some x, tm2)) = (r, tm')"
      using assms 1 2 None by (auto simp: choose_account_def Let_def split: option.splits)
    then show ?thesis
      using g12 good_choice_after [OF _ scored_good] by (cases r2) auto
  qed
qed

text \<open>What a recovery gives: like a choice, at the time after its sleep and after its reset of the limits.\<close>

lemma recover_good:
  assumes "recover_and_acquire a now snapshot attempted err tm = (r, now', tm')"
  shows "(now' = now \<or> now' = now + THUNDERING_HERD_DELAY) \<and>
    (case r of
       Inl _ \<Rightarrow> count tm' = count tm
     | Inr (t, g) \<Rightarrow> now' = now + THUNDERING_HERD_DELAY \<and> t \<in> set snapshot \<and> email t \<notin> attempted \<and> g = live_guard (email t)
         \<and> \<not> tm_is_rate_limited_for_model now' (email t) (target a) tm'
         \<and> count tm (email t) < limit a \<and> count tm' = (count tm)(email t := count tm (email t) + 1))"
proof -
  obtain r1 n1 tm1 where 1: "try_recovery_selection (select_args.truncate a) now snapshot attempted tm = (r1, n1, tm1)"
    by (metis prod_cases3)
  have lim: "limit (select_args.truncate a) = limit a" "target (select_args.truncate a) = target a"
    by (simp_all add: select_args.truncate_def)
  have probe: "count tm2 = count tm0 \<and> tracker tm2 = tracker tm0 \<and>
      (case r of None \<Rightarrow> True
        | Some t \<Rightarrow> t \<in> set snapshot \<and> eligible (select_args.truncate a) n attempted False tm0 t)"
    if "probe_first (select_args.truncate a) n attempted snapshot tm0 = (r, tm2)" for n tm0 r tm2
    using probe_first_spec [OF that] same_but_slots_fields [of tm0 tm2]
    by (auto split: option.split simp: find_Some_iff)
  have clear: "count (clear_all_rate_limits tm0) = count tm0" for tm0
    by (simp add: count_def clear_all_rate_limits_def)
  have rec: "(n1 = now \<or> n1 = now + THUNDERING_HERD_DELAY) \<and> count tm1 = count tm
     \<and> (\<forall>t. r1 = Inr (Some t) \<longrightarrow> n1 = now + THUNDERING_HERD_DELAY \<and> t \<in> set snapshot \<and> email t \<notin> attempted
           \<and> \<not> tm_is_rate_limited_for_model n1 (email t) (target a) tm1)"
    using 1 probe clear
    by (auto simp: try_recovery_selection_def Let_def lim eligible_def tm_is_rate_limited_for_model_def
        dest!: probe split: if_splits option.splits prod.splits)
  show ?thesis
  proof (cases r1)
    case (Inl e)
    with assms 1 rec show ?thesis by (auto simp: recover_and_acquire_def)
  next
    case (Inr o1)
    show ?thesis
    proof (cases o1)
      case None
      with Inr assms 1 rec show ?thesis by (auto simp: recover_and_acquire_def)
    next
      case (Some t)
      obtain g tm2 where 2: "acquire (email t) (limit a) tm1 = (g, tm2)" by force
      show ?thesis
      proof (cases g)
        case None
        with Inr Some assms 1 rec 2 acquire_None(1) [OF 2 [unfolded None]] show ?thesis
          by (auto simp: recover_and_acquire_def)
      next
        case g: (Some g')
        have "tracker tm2 = tracker tm1" using same_but_slots_fields [OF acquire_fields [OF 2]] by simp
        with Inr Some assms 1 rec 2 g acquire_Some [OF 2 [unfolded g]] show ?thesis
          by (auto simp: recover_and_acquire_def tm_is_rate_limited_for_model_def)
      qed
    qed
  qed
qed

lemma unbind_if_failing_fields:
  "tracker (unbind_if_failing sid tm) = tracker tm" "tokens (unbind_if_failing sid tm) = tokens tm"
  "count (unbind_if_failing sid tm) = count tm"
  by (auto simp: unbind_if_failing_def unbind_session_on_failures_def clear_session_failures_def count_def
      split: option.split)

lemma bind_session_fields:
  "tracker (bind_session_to_account now sid mail af tm) = tracker tm"
  "count (bind_session_to_account now sid mail af tm) = count tm"
  by (auto simp: bind_session_to_account_def count_def)

section \<open>The loop\<close>

text \<open>The outcome of a whole selection, in terms of the slots before and after.\<close>

definition slots_accounted ::
  "token_manager \<Rightarrow> u32 \<Rightarrow> string + grant \<Rightarrow> token_manager \<Rightarrow> bool" where
  "slots_accounted tm cap r tm' \<longleftrightarrow>
     (case r of
        Inl _ \<Rightarrow> count tm' = count tm
      | Inr (_, _, mail, g) \<Rightarrow> g = live_guard mail \<and> count tm mail < cap
          \<and> count tm' = (count tm)(mail := count tm mail + 1))"

text \<open>
  The account fits: at the time of the grant it is not limited. That time is the one of the call or comes so many pauses
  of the recovery later, at most one for each attempt; without a pause the limits are those of the call.
\<close>

definition free_after :: "nat \<Rightarrow> nanos \<Rightarrow> string \<Rightarrow> string \<Rightarrow> token_manager \<Rightarrow> token_manager \<Rightarrow> bool" where
  "free_after k now mail model tm tm' \<longleftrightarrow>
     \<not> tm_is_rate_limited_for_model (now + k * THUNDERING_HERD_DELAY) mail model tm'
     \<and> (k = 0 \<longrightarrow> tracker tm' = tracker tm)"

definition fit_account ::
  "request_args \<Rightarrow> proxy_token list \<Rightarrow> nat \<Rightarrow> nanos \<Rightarrow> string set \<Rightarrow> token_manager \<Rightarrow> string + grant \<Rightarrow> token_manager \<Rightarrow> bool" where
  "fit_account a snapshot n now attempted tm r tm' \<longleftrightarrow>
     (case r of
        Inl _ \<Rightarrow> True
      | Inr (_, _, mail, _) \<Rightarrow> mail \<notin> attempted \<and> (\<exists>t \<in> set snapshot. email t = mail)
          \<and> (\<exists>k \<le> n. free_after k now mail (target a) tm tm'))"

lemma fit_account_earlier:
  assumes "fit_account a snapshot n n1 (insert mail attempted) tm1 r tm'"
    and "n1 = now \<and> tracker tm1 = tracker tm \<or> n1 = now + THUNDERING_HERD_DELAY"
  shows "fit_account a snapshot (Suc n) now attempted tm r tm'"
proof (cases r)
  case (Inr q)
  obtain access pid m g where q: "q = (access, pid, m, g)" by (cases q)
  obtain k where k: "k \<le> n" "free_after k n1 m (target a) tm1 tm'"
    using assms(1) Inr q by (auto simp: fit_account_def)
  have "\<exists>k \<le> Suc n. free_after k now m (target a) tm tm'"
    using assms(2)
  proof
    assume "n1 = now \<and> tracker tm1 = tracker tm"
    with k show ?thesis by (intro exI [of _ k]) (simp add: free_after_def)
  next
    assume "n1 = now + THUNDERING_HERD_DELAY"
    with k show ?thesis by (intro exI [of _ "Suc k"]) (simp add: free_after_def add.assoc)
  qed
  with assms(1) Inr q show ?thesis by (auto simp: fit_account_def)
qed (simp add: fit_account_def)

lemma select_loop_outcome:
  "select_loop env a snapshot n later now attempted err tm = Inr (r, tm') \<Longrightarrow>
   slots_accounted tm (limit a) r tm' \<and> fit_account a snapshot n now attempted tm r tm'"
proof (induction n arbitrary: later now attempted err tm)
  case 0
  then show ?case by (auto simp: slots_accounted_def fit_account_def)
next
  case (Suc n)
  let ?tm0 = "unbind_if_failing (session_id a) tm"
  obtain c tm1 where c: "choose_account a now (force_rotate a \<or> later) snapshot attempted ?tm0 = (c, tm1)" by force
  have lt: "limit (select_args.truncate a) = limit a" "target (select_args.truncate a) = target a"
    by (simp_all add: select_args.truncate_def)
  note g = choose_account_good [OF c]
  obtain ch n1 tm2 where ch: "(case c of Some x \<Rightarrow> (Inr x, now, tm1)
       | None \<Rightarrow> recover_and_acquire a now snapshot attempted err tm1) = (ch, n1, tm2)" by (metis prod_cases3)
  have chosen: "(case ch of
       Inl _ \<Rightarrow> count tm2 = count tm
     | Inr (t, g) \<Rightarrow> (n1 = now \<and> tracker tm2 = tracker tm \<or> n1 = now + THUNDERING_HERD_DELAY) \<and> t \<in> set snapshot \<and> email t \<notin> attempted \<and> g = live_guard (email t)
         \<and> \<not> tm_is_rate_limited_for_model n1 (email t) (target a) tm2
         \<and> count tm (email t) < limit a \<and> count tm2 = (count tm)(email t := count tm (email t) + 1))"
  proof (cases c)
    case None
    from g None have "count tm1 = count tm" by (simp add: good_choice_def unbind_if_failing_fields)
    with recover_good [of a now snapshot attempted err tm1 ch n1 tm2] ch None show ?thesis
      by (auto split: sum.splits)
  next
    case (Some x)
    with ch have "ch = Inr x" "n1 = now" "tm2 = tm1" by auto
    with g Some show ?thesis
      by (auto simp: good_choice_def unbind_if_failing_fields lt eligible_def tm_is_rate_limited_for_model_def
          split: prod.splits)
  qed
  show ?case
  proof (cases ch)
    case (Inl e)
    with Suc.prems c ch chosen show ?thesis by (auto simp: slots_accounted_def fit_account_def)
  next
    case (Inr x)
    obtain token gd where x: "x = (token, gd)" by (cases x)
    let ?tm3 = "case session_id a of Some sid \<Rightarrow> bind_session_to_account n1 sid (email token) (affinity a) tm2 | None \<Rightarrow> tm2"
    have f3: "tracker ?tm3 = tracker tm2" "count ?tm3 = count tm2"
      by (simp_all add: bind_session_fields split: option.split)
    from chosen Inr x have ok: "n1 = now \<and> tracker tm2 = tracker tm \<or> n1 = now + THUNDERING_HERD_DELAY" "token \<in> set snapshot" "email token \<notin> attempted" "gd = live_guard (email token)"
      "\<not> tm_is_rate_limited_for_model n1 (email token) (target a) tm2"
      "count tm (email token) < limit a" "count tm2 = (count tm)(email token := count tm (email token) + 1)" by auto
    show ?thesis
    proof (cases "prepare_token env n1 token ?tm3")
      case (Inl p)
      with Suc.prems c ch \<open>ch = Inr x\<close> x show ?thesis by (simp add: Let_def)
    next
      case p: (Inr y)
      obtain pr tm4 where y: "y = (pr, tm4)" by (cases y)
      from prepare_token_keeps [OF p [unfolded y]]
      have k: "keeps_decisions ?tm3 tm4" and em: "case pr of Inl _ \<Rightarrow> True | Inr (t, _) \<Rightarrow> email t = email token" by auto
      have c4: "count tm4 = count tm2" "tracker tm4 = tracker tm2"
        using k f3 by (simp_all add: keeps_decisions_def count_def fun_eq_iff)
      show ?thesis
      proof (cases pr)
        case e: (Inl e)
        have given: "count (drop_slot gd tm4) = count tm"
          using count_drop_slot [of tm4 tm "email token" "limit a"] ok(4,6,7) c4(1) by simp
        from Suc.prems c ch \<open>ch = Inr x\<close> x p y e
        have "select_loop env a snapshot n True n1 (insert (email token) attempted) (Some e) (drop_slot gd tm4) = Inr (r, tm')"
          by (simp add: Let_def)
        note ih = Suc.IH [OF this]
        have "n1 = now \<and> tracker (drop_slot gd tm4) = tracker tm \<or> n1 = now + THUNDERING_HERD_DELAY"
          using ok(1) c4(2) by (auto simp: drop_slot_def)
        from fit_account_earlier [OF conjunct2 [OF ih] this] conjunct1 [OF ih] show ?thesis
          unfolding slots_accounted_def given by blast
      next
        case okay: (Inr z)
        obtain t pid where z: "z = (t, pid)" by (cases z)
        from Suc.prems c ch \<open>ch = Inr x\<close> x p y okay z
        have "r = Inr (access_token t, pid, email t, gd)" "tm' = tm4" by (simp_all add: Let_def)
        moreover have "\<exists>k \<le> Suc n. free_after k now (email t) (target a) tm tm4"
          using ok(1)
        proof
          assume "n1 = now \<and> tracker tm2 = tracker tm"
          with ok em okay z c4 show ?thesis
            by (intro exI [of _ 0]) (simp add: free_after_def tm_is_rate_limited_for_model_def)
        next
          assume "n1 = now + THUNDERING_HERD_DELAY"
          with ok em okay z c4 show ?thesis
            by (intro exI [of _ 1]) (simp add: free_after_def tm_is_rate_limited_for_model_def)
        qed
        ultimately show ?thesis using em okay z ok c4
          by (auto simp: slots_accounted_def fit_account_def)
      qed
    qed
  qed
qed

section \<open>Properties of the selection\<close>

lemma preferred_slots:
  assumes "try_preferred_account env a now snapshot pref tm = Inr (r, tm')"
  shows "case r of None \<Rightarrow> count tm' = count tm
     | Some (t, g) \<Rightarrow> g = live_guard (email t) \<and> count tm (email t) < limit a
         \<and> count tm' = (count tm)(email t := count tm (email t) + 1)"
proof -
  have keep: "keeps_decisions tm0 tm1 \<Longrightarrow> count tm1 = count tm0" for tm0 tm1
    by (simp add: keeps_decisions_def count_def fun_eq_iff)
  have acq: "(case map_option (\<lambda>g. (t, g)) g of None \<Rightarrow> count tm2 = count tm1
     | Some (t, g) \<Rightarrow> g = live_guard (email t) \<and> count tm1 (email t) < limit a
         \<and> count tm2 = (count tm1)(email t := count tm1 (email t) + 1))"
    if "acquire (email t) (limit a) tm1 = (g, tm2)" for t g tm1 tm2
    using that acquire_None(1) acquire_Some by (cases g) auto
  show ?thesis
  proof (cases "find (\<lambda>t. account_id t = pref) snapshot")
    case None
    with assms show ?thesis by (auto simp: try_preferred_account_def)
  next
    case (Some token)
    show ?thesis
    proof (cases "tm_is_rate_limited_for_model now (email token) (target a) tm
        \<or> (quota_protection a \<and> is_model_protected (account_id token) (target a) tm)")
      case True
      with assms Some show ?thesis by (auto simp: try_preferred_account_def split: if_splits)
    next
      case False
      then have "\<not> tm_is_rate_limited_for_model now (email token) (target a) tm"
        "\<not> (quota_protection a \<and> is_model_protected (account_id token) (target a) tm)" by blast+
      note tail = assms [unfolded try_preferred_account_def Some option.case if_not_P [OF this(1)] if_not_P [OF this(2)]]
      show ?thesis
      proof (cases "if needs_refresh (unix_secs now) token then try_refresh_token env now token tm
                   else Inr (Inr (), token, tm)")
        case (Inl p)
        with tail show ?thesis by simp
      next
        case (Inr y)
        obtain r1 t1 tm1 where y: "y = (r1, t1, tm1)" by (cases y)
        have k1: "count tm1 = count tm"
          using Inr y try_refresh_token_keeps [of env now token tm r1 t1 tm1] keep
          by (auto split: if_splits)
        show ?thesis
        proof (cases r1)
          case e: (Inl e)
          with tail Inr y k1 show ?thesis by simp
        next
          case u: (Inr u)
          show ?thesis
          proof (cases "ensure_project_id env t1 tm1")
            case p: (Inl p)
            with tail Inr y u show ?thesis by simp
          next
            case z: (Inr z)
            obtain r2 t2 tm2 where z2: "z = (r2, t2, tm2)" by (cases z)
            have k2: "count tm2 = count tm"
              using keep [OF conjunct1 [OF ensure_project_id_keeps [OF z [unfolded z2]]]] k1 by simp
            show ?thesis
            proof (cases r2)
              case e2: (Inl e)
              with tail Inr y u z z2 k2 show ?thesis by simp
            next
              case pid: (Inr pid)
              obtain g tm3 where 3: "acquire (email t2) (limit a) tm2 = (g, tm3)" by force
              with tail Inr y u z z2 pid
              have "r = map_option (\<lambda>g. (t2, g)) g" "tm' = tm3" by simp_all
              with acq [OF 3] k2 show ?thesis by (simp split: option.splits)
            qed
          qed
        qed
      qed
    qed
  qed
qed

lemma internal_slots:
  assumes "get_token_internal env quota now rot sid model exclude tm = Inr (r, tm')"
  shows "slots_accounted tm (max_concurrent_per_account (routing tm)) r tm'"
proof (cases "tokens tm = []")
  case True
  with assms show ?thesis by (auto simp: get_token_internal_def slots_accounted_def)
next
  case False
  define norm where "norm = normalized_or_self model"
  define sorted where "sorted = sort_by compare_tokens_by_priority (map snd (tokens tm))"
  define snapshot where "snapshot = (if quota then filter (\<lambda>t. \<not> is_model_protected (account_id t) norm tm) sorted else sorted)"
  define a where "a = \<lparr>target = norm, quota_protection = quota, with_aimd = (adaptive_limits tm \<noteq> None),
                  limit = (max_concurrent_per_account (routing tm)), force_rotate = rot, session_id = sid, affinity = enable_session_affinity (routing tm)\<rparr>"
  have lim: "limit (select_args.truncate a) = (max_concurrent_per_account (routing tm))" "limit a = (max_concurrent_per_account (routing tm))"
    by (simp_all add: a_def select_args.truncate_def)
  obtain x where x: "(case preferred_account_id tm of
         Some pref \<Rightarrow> try_preferred_account env (select_args.truncate a) now snapshot pref tm
       | None \<Rightarrow> Inr (None, tm)) = x" by simp
  note unfolded = assms [unfolded get_token_internal_def Let_def, folded norm_def, folded sorted_def,
      folded snapshot_def, folded a_def, unfolded x]
  show ?thesis
  proof (cases x)
    case (Inl p)
    with unfolded False show ?thesis by simp
  next
    case (Inr y)
    obtain p tm1 where y: "y = (p, tm1)" by (cases y)
    have pref: "case p of None \<Rightarrow> count tm1 = count tm
       | Some (t, g) \<Rightarrow> g = live_guard (email t) \<and> count tm (email t) < (max_concurrent_per_account (routing tm))
           \<and> count tm1 = (count tm)(email t := count tm (email t) + 1)"
      using x Inr y preferred_slots [of env "select_args.truncate a" now snapshot _ tm p tm1] lim(1)
      by (auto split: option.splits)
    show ?thesis
    proof (cases p)
      case (Some tg)
      with unfolded False Inr y pref show ?thesis by (auto simp: slots_accounted_def split: prod.splits)
    next
      case None
      with unfolded False Inr y
      have "select_loop env a snapshot (length (tokens tm)) False now
          (case exclude of None \<Rightarrow> {} | Some s \<Rightarrow> s) None tm1 = Inr (r, tm')" by simp
      from select_loop_outcome [OF this] have "slots_accounted tm1 (max_concurrent_per_account (routing tm)) r tm'" unfolding lim(2) by blast
      moreover have eq: "count tm1 = count tm" using pref None by simp
      ultimately show ?thesis unfolding slots_accounted_def eq by blast
    qed
  qed
qed

text \<open>
  Claim C1: selecting an account leaks no slot. However a selection ends (several attempts, failed
  refreshes, the recovery with its probes, an error), the slots in use afterwards are those before,
  plus one slot of the granted account, which was below its limit, if an account was granted; the
  guard that is handed out is the one for this slot.
\<close>

theorem selection_leaks_no_slot:
  assumes "get_token_internal env quota now rot sid model exclude tm = Inr (r, tm')"
  shows "case r of
      Inl _ \<Rightarrow> \<forall>k. get_active_requests k tm' = get_active_requests k tm
    | Inr (_, _, mail, g) \<Rightarrow>
        g = \<lparr>guard_key = mail, released = False\<rparr>
        \<and> get_active_requests mail tm < max_concurrent_per_account (routing tm)
        \<and> (\<forall>k. get_active_requests k tm' = get_active_requests k tm + (if k = mail then 1 else 0))"
  using internal_slots [OF assms]
  by (auto simp: slots_accounted_def count_def fun_eq_iff get_active_requests_def live_guard_def split: sum.splits)

text \<open>A pool with one fresh account whose project is known, for the examples.\<close>

definition ready_token :: proxy_token where
  "ready_token = sample_token ''a'' 100000"

definition ready_pool :: token_manager where
  "ready_pool = new_token_manager ''d''\<lparr>tokens := [(''a'', ready_token)], preferred_account_id := Some ''a''\<rparr>"

lemma ready_token_simps:
  "email ready_token = ''a@x''" "account_id ready_token = ''a''" "timestamp ready_token = 100000"
  "project_id ready_token = Some ''p''" "access_token ready_token = ''at''" "protected_models ready_token = {}"
  by (simp_all add: ready_token_def sample_token_def new_token_def)

lemma ready_pool_simps:
  "tokens ready_pool = [(''a'', ready_token)]" "preferred_account_id ready_pool = Some ''a''"
  "tracker ready_pool = new_tracker" "active_requests ready_pool = []" "routing ready_pool = default_routing"
  "adaptive_limits ready_pool = None"
  by (simp_all add: ready_pool_def new_token_manager_def)

lemma fresh_needs_no_refresh:
  "now + 300 < timestamp t \<Longrightarrow> 0 \<le> now \<Longrightarrow> timestamp t \<le> i64_max \<Longrightarrow> \<not> needs_refresh now t"
  by (auto simp: needs_refresh_def i64_sat_sub_def REFRESH_BUFFER_SECS_def i64_min_def i64_max_def)

lemma preferred_granted:
  assumes "preferred_account_id tm = Some pref" and "find (\<lambda>t. account_id t = pref)
      (sort_by compare_tokens_by_priority (map snd (tokens tm))) = Some t"
    and "\<not> tm_is_rate_limited_for_model now (email t) (normalized_or_self model) tm"
    and "\<not> needs_refresh (unix_secs now) t" and "project_id t = Some pid" and "pid \<noteq> []"
    and "get_active_requests (email t) tm < max_concurrent_per_account (routing tm)"
  shows "\<exists>tm'. get_token_internal env False now rot sid model exclude tm
      = Inr (Inr (access_token t, pid, email t, \<lparr>guard_key = email t, released = False\<rparr>), tm')"
proof -
  obtain c cs where pid: "pid = c # cs" using assms(6) by (cases pid) auto
  obtain g tm1 where a: "acquire (email t) (max_concurrent_per_account (routing tm)) tm = (g, tm1)" by force
  obtain g' where g: "g = Some g'"
    using acquire_iff [of "email t" "max_concurrent_per_account (routing tm)" tm] a assms(7)
    by (auto simp: count_def get_active_requests_def)
  have g': "g' = live_guard (email t)" using acquire_Some(1) [OF a [unfolded g]] .
  have ne: "tokens tm \<noteq> []" using assms(2) by (auto simp: sort_by_def)
  show ?thesis
    using assms(1-5) ne a g g' pid
    by (simp add: get_token_internal_def Let_def select_args.truncate_def try_preferred_account_def
        ensure_project_id_def live_guard_def)
qed

lemma ready_pool_granted:
  "\<exists>tm'. get_token_internal sample_env False 0 False None ''m'' (Some {''a@x''}) ready_pool
      = Inr (Inr (''at'', ''p'', ''a@x'', \<lparr>guard_key = ''a@x'', released = False\<rparr>), tm')"
proof -
  have "\<not> needs_refresh (unix_secs 0) ready_token"
    by (rule fresh_needs_no_refresh) (simp_all add: ready_token_simps unix_secs_def as_secs_def i64_max_def)
  then show ?thesis
    using preferred_granted [where tm = ready_pool and pref = "''a''" and t = ready_token
        and now = 0 and model = "''m''" and pid = "''p''" and env = sample_env and rot = False and sid = None
        and exclude = "Some {''a@x''}"]
    by (simp add: ready_pool_simps ready_token_simps sort_by_def tm_is_rate_limited_for_model_def
        limited_for_model_iff new_tracker_def info_live_def get_active_requests_def active_count_def
        default_routing_def)
qed

text \<open>
  Note: in fixed-account mode the exclusions of a request are not consulted. If the preferred
  account is in the pool, not limited and not protected for the model, has a fresh token and a known
  project, and is below its limit, then it is granted to every request, also to a retry that excludes
  it because it has just failed.
\<close>

theorem preferred_ignores_exclusions:
  assumes "preferred_account_id tm = Some pref" and "find (\<lambda>t. account_id t = pref)
      (sort_by compare_tokens_by_priority (map snd (tokens tm))) = Some t"
    and "\<not> tm_is_rate_limited_for_model now (email t) (normalized_or_self model) tm"
    and "\<not> needs_refresh (unix_secs now) t" and "project_id t = Some pid" and "pid \<noteq> []"
    and "get_active_requests (email t) tm < max_concurrent_per_account (routing tm)"
  shows "\<exists>tm'. get_token_internal env False now rot sid model exclude tm
      = Inr (Inr (access_token t, pid, email t, \<lparr>guard_key = email t, released = False\<rparr>), tm')"
  using assms by (rule preferred_granted)

theorem preferred_ignores_exclusions_witness:
  "\<exists>tm'. get_token_internal sample_env False 0 False None ''m'' (Some {''a@x''}) ready_pool
      = Inr (Inr (''at'', ''p'', ''a@x'', \<lparr>guard_key = ''a@x'', released = False\<rparr>), tm')"
proof -
  have "\<not> needs_refresh (unix_secs 0) ready_token"
    by (rule fresh_needs_no_refresh) (simp_all add: ready_token_simps unix_secs_def as_secs_def i64_max_def)
  then show ?thesis
    using preferred_ignores_exclusions [where tm = ready_pool and pref = "''a''" and t = ready_token
        and now = 0 and model = "''m''" and pid = "''p''" and env = sample_env and rot = False and sid = None
        and exclude = "Some {''a@x''}"]
    by (simp add: ready_pool_simps ready_token_simps sort_by_def tm_is_rate_limited_for_model_def
        limited_for_model_iff new_tracker_def info_live_def get_active_requests_def active_count_def
        default_routing_def)
qed

theorem selection_leaks_no_slot_witness:
  "\<exists>tm'. get_token_internal sample_env False 0 False None ''m'' (Some {''a@x''}) ready_pool
      = Inr (Inr (''at'', ''p'', ''a@x'', \<lparr>guard_key = ''a@x'', released = False\<rparr>), tm')
    \<and> get_active_requests ''a@x'' tm' = 1 \<and> get_active_requests ''b@x'' tm' = 0"
proof -
  obtain tm' where run: "get_token_internal sample_env False 0 False None ''m'' (Some {''a@x''}) ready_pool
      = Inr (Inr (''at'', ''p'', ''a@x'', \<lparr>guard_key = ''a@x'', released = False\<rparr>), tm')"
    using ready_pool_granted by blast
  from selection_leaks_no_slot [OF run] run show ?thesis
    by (simp add: get_active_requests_def ready_pool_simps active_count_def)
qed

text \<open>
  Claim C2: in the selection by rules, that is without a preferred account, the granted account fits the
  request. It is an account of the pool the request does not exclude, not protected for the model when
  quota protection is on, and not limited for it at the time of the grant: the time of the call, under the
  limits of the call, or later by the half second pauses of the recovery, of which there is at most one for
  each account of the pool.
\<close>

theorem granted_account_fits:
  assumes "get_token_internal env quota now rot sid model (Some exclude) tm = Inr (Inr (access, pid, mail, g), tm')"
    and "preferred_account_id tm = None"
  shows "mail \<notin> exclude
    \<and> (\<exists>k \<le> length (tokens tm).
          \<not> tm_is_rate_limited_for_model (now + k * THUNDERING_HERD_DELAY) mail (normalized_or_self model) tm'
          \<and> (k = 0 \<longrightarrow> tracker tm' = tracker tm))
    \<and> (\<exists>(acc, t) \<in> set (tokens tm). email t = mail
         \<and> \<not> (quota \<and> is_model_protected (account_id t) (normalized_or_self model) tm))"
proof -
  define norm where "norm = normalized_or_self model"
  define sorted where "sorted = sort_by compare_tokens_by_priority (map snd (tokens tm))"
  define snapshot where "snapshot = (if quota then filter (\<lambda>t. \<not> is_model_protected (account_id t) norm tm) sorted else sorted)"
  define a where "a = \<lparr>target = norm, quota_protection = quota, with_aimd = (adaptive_limits tm \<noteq> None),
      limit = max_concurrent_per_account (routing tm), force_rotate = rot, session_id = sid,
      affinity = enable_session_affinity (routing tm)\<rparr>"
  note unfolded = assms(1) [unfolded get_token_internal_def Let_def, folded norm_def, folded sorted_def,
      folded snapshot_def, folded a_def]
  have "length (tokens tm) \<noteq> 0" using unfolded by (auto split: if_splits)
  with unfolded assms(2)
  have "select_loop env a snapshot (length (tokens tm)) False now exclude None tm = Inr (Inr (access, pid, mail, g), tm')"
    by simp
  from select_loop_outcome [OF this]
  have "mail \<notin> exclude" "\<exists>k \<le> length (tokens tm). free_after k now mail (target a) tm tm'"
    "\<exists>t \<in> set snapshot. email t = mail" by (auto simp: fit_account_def)
  moreover have "target a = norm" by (simp add: a_def)
  moreover have "t \<in> snd ` set (tokens tm) \<and> \<not> (quota \<and> is_model_protected (account_id t) norm tm)"
    if "t \<in> set snapshot" for t
    using that by (auto simp: snapshot_def sorted_def split: if_splits)
  ultimately show ?thesis unfolding norm_def free_after_def by fastforce
qed

definition rule_pool :: token_manager where
  "rule_pool = ready_pool\<lparr>preferred_account_id := None\<rparr>"

lemma rule_pool_simps:
  "tokens rule_pool = [(''a'', ready_token)]" "preferred_account_id rule_pool = None"
  "tracker rule_pool = new_tracker" "active_requests rule_pool = []" "routing rule_pool = default_routing"
  "adaptive_limits rule_pool = None"
  by (simp_all add: rule_pool_def ready_pool_simps)

lemma ready_prepared: "prepare_token env 0 ready_token tm
    = Inr (Inr (ready_token, ''p''), set_cached ''a'' (\<lambda>t. t\<lparr>project_id := Some ''p''\<rparr>) tm)"
proof -
  have "\<not> i64_wrap (timestamp ready_token - 300) \<le> unix_secs 0"
    by (simp add: ready_token_simps i64_wrap_def unix_secs_def as_secs_def)
  then show ?thesis by (simp add: prepare_token_def ensure_project_id_def ready_token_simps)
qed

lemma rule_pool_granted:
  "\<exists>g tm'. get_token_internal env False 0 True None ''m'' (Some {''b@x''}) rule_pool
      = Inr (Inr (''at'', ''p'', ''a@x'', g), tm')"
proof -
  define a where "a = \<lparr>target = normalized_or_self ''m'', quota_protection = False, with_aimd = False,
      limit = 5, force_rotate = True, session_id = None, affinity = True\<rparr>"
  have "eligible (select_args.truncate a) 0 {''b@x''} True rule_pool ready_token"
    by (simp add: eligible_def a_def select_args.truncate_def ready_token_simps tm_is_rate_limited_for_model_def
        limited_for_model_iff rule_pool_simps new_tracker_def info_live_def)
  then have e: "is_candidate_eligible (select_args.truncate a) 0 ready_token {''b@x''} True True rule_pool = (True, rule_pool)"
    by (simp add: eligible_def is_candidate_eligible_def a_def select_args.truncate_def)
  obtain g tm1 where ac: "acquire ''a@x'' 5 rule_pool = (Some g, tm1)"
    by (simp add: acquire_def try_new_def Let_def rule_pool_simps active_count_def)
  have lim: "limit (select_args.truncate a) = 5" by (simp add: a_def select_args.truncate_def)
  have "try_scored_selection (select_args.truncate a) 0 [ready_token] {''b@x''} rule_pool = (Some (ready_token, g), tm1)"
    using e ac by (simp add: try_scored_selection_def by_load_def sort_by_def lim ready_token_simps)
  then have c: "choose_account a 0 True [ready_token] {''b@x''} rule_pool = (Some (ready_token, g), tm1)"
    by (simp add: choose_account_def Let_def a_def)
  have "\<exists>tm'. select_loop env a [ready_token] (Suc 0) False 0 {''b@x''} None rule_pool
      = Inr (Inr (''at'', ''p'', ''a@x'', g), tm')"
    using c by (simp add: Let_def unbind_if_failing_def a_def ready_prepared ready_token_simps)
  then show ?thesis
    by (simp add: get_token_internal_def rule_pool_simps sort_by_def default_routing_def a_def Let_def
        del: select_loop.simps) blast
qed

theorem granted_account_fits_witness:
  "\<exists>g tm'. get_token_internal sample_env False 0 True None ''m'' (Some {''b@x''}) rule_pool
      = Inr (Inr (''at'', ''p'', ''a@x'', g), tm')
    \<and> (\<exists>k \<le> 1. \<not> tm_is_rate_limited_for_model (k * THUNDERING_HERD_DELAY) ''a@x'' (normalized_or_self ''m'') tm')"
proof -
  obtain g tm' where run: "get_token_internal sample_env False 0 True None ''m'' (Some {''b@x''}) rule_pool
      = Inr (Inr (''at'', ''p'', ''a@x'', g), tm')" using rule_pool_granted by blast
  from granted_account_fits [OF run rule_pool_simps(2)] run show ?thesis by (auto simp: rule_pool_simps)
qed

section \<open>The best candidate\<close>





text \<open>
  Note: the optimistic reset forgets every limit. If the shortest remaining account lock of the
  pool is at most two seconds and no account is free after the pause, the recovery clears the whole
  rate limit table: also hour-long quota locks of the other accounts and locks of other models are gone.
\<close>

theorem optimistic_reset_forgets_all:
  assumes "try_recovery_selection a now snapshot attempted tm = (r, now', tm')"
    and "t \<in> set snapshot" and "get_reset_seconds now (email t) (tracker tm) = Some w" and "w \<le> 2"
    and "\<forall>t \<in> set snapshot. eligible a (now + THUNDERING_HERD_DELAY) attempted False tm t
            \<longrightarrow> limit a \<le> get_active_requests (email t) tm"
  shows "limits (tracker tm') = [] \<and> failure_counts (tracker tm') = failure_counts (tracker tm)"
proof -
  let ?ws = "List.map_filter (\<lambda>t. get_reset_seconds now (email t) (tracker tm)) snapshot"
  have w: "w \<in> set ?ws" using assms(2,3) by (force simp: List.map_filter_def)
  then have ne: "?ws \<noteq> []" by auto
  have "Min (set ?ws) \<le> w" using w by (intro Min_le) auto
  with assms(4) have m: "Min (set ?ws) \<le> 2" by simp
  obtain r1 tm1 where 1: "probe_first a (now + THUNDERING_HERD_DELAY) attempted snapshot tm = (r1, tm1)" by force
  from probe_first_spec [OF 1] assms(5) have "r1 = None" and s: "same_but_slots tm tm1"
    by (auto simp: find_None_iff count_def get_active_requests_def not_less)
  obtain r2 tm2 where 2: "probe_first a (now + THUNDERING_HERD_DELAY) attempted snapshot (clear_all_rate_limits tm1) = (r2, tm2)"
    by force
  from probe_first_spec [OF 2] have "tracker tm2 = tracker (clear_all_rate_limits tm1)"
    using same_but_slots_fields by blast
  moreover have "tm' = tm2"
    using assms(1) 1 2 \<open>r1 = None\<close> ne m by (auto simp: try_recovery_selection_def Let_def split: option.splits)
  ultimately show ?thesis
    using same_but_slots_fields(2) [OF s] by (simp add: clear_all_rate_limits_def clear_all_def)
qed

definition limited_pool :: token_manager where
  "limited_pool = rule_pool\<lparr>tracker := put_limit (AccountKey ''z'') \<lparr>reset_time = secs 9000, retry_after_sec = 9000,
       detected_at = 0, rl_reason = QuotaExhausted, rl_model = None\<rparr>
     (put_limit (AccountKey ''a@x'') \<lparr>reset_time = secs 2, retry_after_sec = 2, detected_at = 0,
       rl_reason = RateLimitExceeded, rl_model = None\<rparr> new_tracker)\<rparr>"

theorem optimistic_reset_forgets_all_witness:
  "tm_is_rate_limited 0 ''z'' limited_pool
   \<and> \<not> tm_is_rate_limited 0 ''z'' (snd (snd (try_recovery_selection
         \<lparr>target = ''m'', quota_protection = False, with_aimd = False, limit = 5\<rparr> 0 [ready_token] {} limited_pool)))"
proof -
  let ?a = "\<lparr>target = ''m'', quota_protection = False, with_aimd = False, limit = 5\<rparr>"
  obtain r n tm' where run: "try_recovery_selection ?a 0 [ready_token] {} limited_pool = (r, n, tm')" by (metis prod_cases3)
  have t: "tracker limited_pool = put_limit (AccountKey ''z'') \<lparr>reset_time = secs 9000, retry_after_sec = 9000,
       detected_at = 0, rl_reason = QuotaExhausted, rl_model = None\<rparr>
     (put_limit (AccountKey ''a@x'') \<lparr>reset_time = secs 2, retry_after_sec = 2, detected_at = 0,
       rl_reason = RateLimitExceeded, rl_model = None\<rparr> new_tracker)"
    by (simp add: limited_pool_def)
  have "get_reset_seconds 0 (email ready_token) (tracker limited_pool) = Some 2"
    by (simp add: t get_reset_seconds_def Rate_Limit.get_def ready_token_simps duration_since_def)
  moreover have "\<not> eligible ?a (0 + THUNDERING_HERD_DELAY) {} False limited_pool ready_token"
    by (simp add: eligible_def tm_is_rate_limited_for_model_def limited_for_model_iff t ready_token_simps
        info_live_def THUNDERING_HERD_DELAY_def millis_def secs_def)
  ultimately have "limits (tracker tm') = []"
    using optimistic_reset_forgets_all [OF run, of ready_token 2] by simp
  with run show ?thesis
    by (simp add: tm_is_rate_limited_def is_rate_limited_def Rate_Limit.get_def info_live_def t)
qed

section \<open>Forced accounts and the wrong key\<close>

text \<open>
  Note: asking for an account by name does not see its rate limit. Locks are filed under the mail
  address, but \<open>get_token_forced\<close> looks them up under the account id: when nothing is filed under the
  id, a forced account with a fresh token, a known project and a free slot is granted, whatever locks
  its mail address carries.
\<close>

theorem forced_checks_wrong_key:
  assumes "find (\<lambda>t. to_lowercase (email t) = to_lowercase forced) (map snd (tokens tm)) = Some t"
    and "Rate_Limit.get (account_id t) (tracker tm) = None"
    and "unix_secs now < i64_wrap (timestamp t - 300)" and "project_id t = Some pid" and "pid \<noteq> []"
    and "get_active_requests (email t) tm < max_concurrent_per_account (routing tm)"
  shows "\<exists>tm'. get_token_forced env now forced tm
      = Inr (Inr (access_token t, pid, email t, \<lparr>guard_key = email t, released = False\<rparr>), tm')"
proof -
  obtain g tm1 where a: "acquire (email t) (max_concurrent_per_account (routing tm)) tm = (g, tm1)" by force
  obtain g' where g: "g = Some g'"
    using acquire_iff [of "email t" "max_concurrent_per_account (routing tm)" tm] a assms(6)
    by (auto simp: count_def get_active_requests_def)
  have "g' = live_guard (email t)" using acquire_Some(1) [OF a [unfolded g]] .
  moreover have "\<not> tm_is_rate_limited now (account_id t) tm"
    using assms(2) by (simp add: tm_is_rate_limited_def is_rate_limited_def info_live_def)
  moreover obtain tm2 where "prepare_token env now t tm1 = Inr (Inr (t, pid), tm2)"
    using assms(3-5) by (cases pid) (simp_all add: prepare_token_def ensure_project_id_def)
  ultimately show ?thesis
    using assms(1) a g by (simp add: get_token_forced_def live_guard_def)
qed

definition locked_pool :: token_manager where
  "locked_pool = rule_pool\<lparr>tracker := put_limit (AccountKey ''a@x'') \<lparr>reset_time = secs 9000,
       retry_after_sec = 9000, detected_at = 0, rl_reason = QuotaExhausted, rl_model = None\<rparr> new_tracker\<rparr>"

theorem forced_checks_wrong_key_witness:
  "tm_is_rate_limited 0 ''a@x'' locked_pool
   \<and> (\<exists>tm'. get_token_forced sample_env 0 ''a@x'' locked_pool
        = Inr (Inr (''at'', ''p'', ''a@x'', \<lparr>guard_key = ''a@x'', released = False\<rparr>), tm'))"
proof
  show "tm_is_rate_limited 0 ''a@x'' locked_pool"
    by (simp add: locked_pool_def tm_is_rate_limited_def is_rate_limited_def Rate_Limit.get_def info_live_def secs_def)
  have "unix_secs 0 < i64_wrap (timestamp ready_token - 300)"
    by (simp add: ready_token_simps i64_wrap_def unix_secs_def as_secs_def)
  moreover have "find (\<lambda>t. to_lowercase (email t) = to_lowercase ''a@x'') (map snd (tokens locked_pool)) = Some ready_token"
    by (simp add: locked_pool_def rule_pool_simps ready_token_simps)
  ultimately show "\<exists>tm'. get_token_forced sample_env 0 ''a@x'' locked_pool
        = Inr (Inr (''at'', ''p'', ''a@x'', \<lparr>guard_key = ''a@x'', released = False\<rparr>), tm')"
    using forced_checks_wrong_key [where tm = locked_pool and t = ready_token and forced = "''a@x''"
        and now = 0 and pid = "''p''" and env = sample_env]
    by (simp add: ready_token_simps locked_pool_def rule_pool_simps Rate_Limit.get_def new_tracker_def
        get_active_requests_def active_count_def default_routing_def)
qed

text \<open>
  Note: a success does not end a series of model failures. \<open>mark_account_success\<close> clears the
  account's own lock and failure count only; the next failure of a model is counted, and locked out,
  exactly as if the successful request in between had not happened.
\<close>

theorem success_keeps_model_failures:
  "map_sum id (\<lambda>(n, tr). (n, tget (limits tr) (ModelKey mail m), tget (failure_counts tr) (ModelKey mail m)))
      (set_adaptive_model_lockout now mail m (tracker (mark_account_success mail tm)))
   = map_sum id (\<lambda>(n, tr). (n, tget (limits tr) (ModelKey mail m), tget (failure_counts tr) (ModelKey mail m)))
      (set_adaptive_model_lockout now mail m (tracker tm))"
  by (simp add: set_adaptive_model_lockout_def mark_account_success_def tm_record_success_def mark_success_def
      Let_def bump_failure_def split_beta put_limit_def split: sum.split)

end
