(* ===== verification/Sync_LWW.thy ===== *)
theory Sync_LWW
  imports Rust_Strings "HOL-Library.List_Lexorder" "HOL-Library.Char_ord"
begin

text \<open>
  Configuration that several instances of the server edit and exchange,
  \<open>crates/antigravity-types/src/models/sync/\<close>: the mapping of model names (\<open>mapping.rs\<close>) and the
  proxies assigned to accounts (\<open>proxy_assignment.rs\<close>). Entries carry the time of their last change, a
  merge keeps for each key the entry that wins (last writer wins). What the two kinds of entry have
  in common is the locale \<open>lww\<close>: a strict total order of entries.

  A \<open>BTreeMap\<close> is a table in the order of its keys, so equal contents are equal tables.
\<close>

section \<open>Ordered maps\<close>

fun bput :: "'k::linorder \<Rightarrow> 'v \<Rightarrow> ('k, 'v) table \<Rightarrow> ('k, 'v) table" where
  "bput k v [] = [(k, v)]"
| "bput k v ((k', v') # t) =
     (if k < k' then (k, v) # (k', v') # t
      else if k = k' then (k, v) # t
      else (k', v') # bput k v t)"

abbreviation bwf :: "('k::linorder, 'v) table \<Rightarrow> bool" where
  "bwf t \<equiv> sorted_wrt (<) (map fst t)"

lemma tget_bput: "bwf t \<Longrightarrow> tget (bput k v t) = (tget t)(k \<mapsto> v)"
  by (induction k v t rule: bput.induct) (auto simp: fun_eq_iff)

lemma tkeys_bput: "tkeys (bput k v t) = insert k (tkeys t)"
  by (induction k v t rule: bput.induct) auto

lemma bwf_bput [simp]: "bwf t \<Longrightarrow> bwf (bput k v t)"
proof (induction k v t rule: bput.induct)
  case (2 k v k' v' t)
  then show ?case using tkeys_bput [of k v t] by fastforce
qed simp

lemma bwf_twf [simp]: "bwf t \<Longrightarrow> twf t"
  by (simp add: strict_sorted_iff)

lemma bwf_filter [simp]: "bwf t \<Longrightarrow> bwf (filter P t)"
  by (induction t) auto

lemma filter_tdel: "tdel k t = filter (\<lambda>e. k \<noteq> fst e) t"
  by (simp add: tdel_def AList.delete_eq split_def)

lemma bwf_tdel [simp]: "bwf t \<Longrightarrow> bwf (tdel k t)"
  by (simp add: filter_tdel)

lemma length_bput: "bwf t \<Longrightarrow> length (bput k v t) = (if tget t k = None then Suc (length t) else length t)"
proof (induction k v t rule: bput.induct)
  case (2 k v k' v' t)
  then have "k' \<notin> tkeys t" by fastforce
  with 2 show ?case by (auto simp: map_of_eq_None_iff split: if_splits)
qed simp

lemma twf_as_map: "twf s \<Longrightarrow> s = map (\<lambda>k. (k, the (tget s k))) (map fst s)"
proof -
  assume "twf s"
  then have "map (\<lambda>e. (fst e, the (tget s (fst e)))) s = s"
    by (intro map_idI) (auto simp: map_of_is_SomeI)
  then show ?thesis by (simp add: o_def)
qed

lemma bwf_extensional:
  assumes "bwf s" and "bwf t" and "tget s = tget t"
  shows "s = t"
proof -
  have "set (map fst s) = set (map fst t)" using assms(3) by (simp add: tkeys_dom)
  then have "map fst s = map fst t" using assms(1,2) by (intro sorted_distinct_set_unique) (simp_all add: strict_sorted_iff)
  have "s = map (\<lambda>k. (k, the (tget s k))) (map fst s)" by (rule twf_as_map) (simp add: assms)
  also have "\<dots> = map (\<lambda>k. (k, the (tget t k))) (map fst t)" by (simp only: assms(3) \<open>map fst s = map fst t\<close>)
  also have "\<dots> = t" by (rule twf_as_map [symmetric]) (simp add: assms)
  finally show ?thesis .
qed

section \<open>Last writer wins\<close>

text \<open>The entry kept for a key, and the merge of tables it makes.\<close>

definition lww_join :: "('e \<Rightarrow> 'e \<Rightarrow> bool) \<Rightarrow> 'e option \<Rightarrow> 'e option \<Rightarrow> 'e option" where
  "lww_join wins local remote =
     (case (local, remote) of
        (None, r) \<Rightarrow> r
      | (l, None) \<Rightarrow> l
      | (Some l, Some r) \<Rightarrow> Some (if wins r l then r else l))"

definition lww_step ::
  "('e \<Rightarrow> 'e \<Rightarrow> bool) \<Rightarrow> 'k::linorder \<times> 'e \<Rightarrow> ('k, 'e) table \<times> u64 \<Rightarrow> ('k, 'e) table \<times> u64" where
  "lww_step wins e s =
     (let (k, r) = e; (m, updated) = s;
          should_update = (case tget m k of None \<Rightarrow> True | Some l \<Rightarrow> wins r l)
      in if should_update then (bput k r m, sat_add updated 1) else (m, updated))"

definition lww_merge ::
  "('e \<Rightarrow> 'e \<Rightarrow> bool) \<Rightarrow> ('k::linorder, 'e) table \<Rightarrow> ('k, 'e) table \<Rightarrow> ('k, 'e) table \<times> u64" where
  "lww_merge wins local remote = fold (lww_step wins) remote (local, 0)"

definition lww_newer ::
  "('e \<Rightarrow> 'e \<Rightarrow> bool) \<Rightarrow> ('k, 'e) table \<Rightarrow> ('k, 'e) table \<Rightarrow> ('k, 'e) table" where
  "lww_newer wins local remote =
     filter (\<lambda>(k, l). case tget remote k of None \<Rightarrow> True | Some r \<Rightarrow> wins l r) local"

lemma bwf_lww_step: "bwf (fst s) \<Longrightarrow> bwf (fst (lww_step wins e s))"
  by (simp add: lww_step_def split_beta Let_def)

lemma bwf_fold_step: "bwf (fst s) \<Longrightarrow> bwf (fst (fold (lww_step wins) es s))"
  by (induction es arbitrary: s) (simp_all add: bwf_lww_step)

lemma bwf_lww_merge [simp]: "bwf l \<Longrightarrow> bwf (fst (lww_merge wins l r))"
  by (simp add: lww_merge_def bwf_fold_step)

lemma tget_lww_step:
  "bwf (fst s) \<Longrightarrow> tget (fst (lww_step wins (k, r) s)) k'
     = (if k' = k then lww_join wins (tget (fst s) k) (Some r) else tget (fst s) k')"
  by (auto simp: lww_step_def lww_join_def split_beta Let_def tget_bput split: option.split)

lemma lww_join_None [simp]: "lww_join wins x None = x" "lww_join wins None y = y"
  by (simp_all add: lww_join_def split: option.split)

lemma tget_fold_step:
  assumes "bwf (fst s)" and "twf es"
  shows "tget (fst (fold (lww_step wins) es s)) k = lww_join wins (tget (fst s) k) (tget es k)"
  using assms
proof (induction es arbitrary: s)
  case Nil
  then show ?case by simp
next
  case (Cons e es)
  obtain k' r where e: "e = (k', r)" by force
  have "tget (fst (fold (lww_step wins) es (lww_step wins e s))) k
      = lww_join wins (tget (fst (lww_step wins e s)) k) (tget es k)"
    using Cons.IH [OF bwf_lww_step] Cons.prems by simp
  moreover have "k = k' \<Longrightarrow> tget es k = None"
    using Cons.prems(2) e by (auto simp: map_of_eq_None_iff)
  ultimately show ?case using Cons.prems(1) by (auto simp: e tget_lww_step)
qed

lemma tget_lww_merge:
  "bwf l \<Longrightarrow> twf r \<Longrightarrow> tget (fst (lww_merge wins l r)) k = lww_join wins (tget l k) (tget r k)"
  by (simp add: lww_merge_def tget_fold_step)

lemma tget_lww_newer:
  "twf l \<Longrightarrow> tget (lww_newer wins l r) k =
     (case tget l k of
        None \<Rightarrow> None
      | Some e \<Rightarrow> if (case tget r k of None \<Rightarrow> True | Some e' \<Rightarrow> wins e e') then Some e else None)"
  using tget_tretain [of l "\<lambda>k e. case tget r k of None \<Rightarrow> True | Some e' \<Rightarrow> wins e e'" k]
  by (simp add: lww_newer_def tretain_def)

text \<open>Merging the states of other instances, one after the other.\<close>

definition lww_merge_all ::
  "('e \<Rightarrow> 'e \<Rightarrow> bool) \<Rightarrow> ('k::linorder, 'e) table list \<Rightarrow> ('k, 'e) table \<Rightarrow> ('k, 'e) table" where
  "lww_merge_all wins rs l = fold (\<lambda>r l. fst (lww_merge wins l r)) rs l"

lemma bwf_lww_merge_all: "bwf l \<Longrightarrow> bwf (lww_merge_all wins rs l)"
  unfolding lww_merge_all_def by (induction rs arbitrary: l) simp_all

locale lww =
  fixes wins :: "'e \<Rightarrow> 'e \<Rightarrow> bool"
  assumes irrefl: "\<not> wins a a"
    and trans: "wins a b \<Longrightarrow> wins b c \<Longrightarrow> wins a c"
    and total: "a \<noteq> b \<Longrightarrow> wins a b \<or> wins b a"
begin

lemma asym: "wins a b \<Longrightarrow> \<not> wins b a"
  using irrefl trans by blast

lemma join_commute: "lww_join wins x y = lww_join wins y x"
  using asym total by (auto simp: lww_join_def split: option.split)

lemma neg_trans: "\<not> wins b a \<Longrightarrow> \<not> wins c b \<Longrightarrow> \<not> wins c a"
  using trans total irrefl by metis

lemma join_assoc: "lww_join wins (lww_join wins x y) z = lww_join wins x (lww_join wins y z)"
proof (cases x; cases y; cases z)
  fix a b c
  assume "x = Some a" "y = Some b" "z = Some c"
  then show ?thesis
    using trans [of c b a] neg_trans [of b a c] by (auto simp: lww_join_def)
qed simp_all

lemma join_idem: "lww_join wins x x = x"
  by (simp add: lww_join_def split: option.split)

lemma merge_commute: "bwf l \<Longrightarrow> bwf r \<Longrightarrow> fst (lww_merge wins l r) = fst (lww_merge wins r l)"
  by (intro bwf_extensional ext) (simp_all add: tget_lww_merge join_commute)

lemma merge_assoc:
  assumes "bwf a" "bwf b" "bwf c"
  shows "fst (lww_merge wins (fst (lww_merge wins a b)) c) = fst (lww_merge wins a (fst (lww_merge wins b c)))"
  using assms by (intro bwf_extensional ext) (simp_all add: tget_lww_merge join_assoc)

lemma merge_newer:
  assumes "bwf l" and "bwf r"
  shows "fst (lww_merge wins r (lww_newer wins l r)) = fst (lww_merge wins r l)"
proof (intro bwf_extensional ext)
  fix k
  have "bwf (lww_newer wins l r)" using assms(1) by (simp add: lww_newer_def)
  then show "tget (fst (lww_merge wins r (lww_newer wins l r))) k = tget (fst (lww_merge wins r l)) k"
    using assms by (auto simp: tget_lww_merge tget_lww_newer lww_join_def split: option.split)
qed (use assms in simp_all)

text \<open>What a replica knows after merging a list of states: the winner for each key, and only that.\<close>

lemma merge_all_get:
  assumes "bwf l" and "\<forall>r \<in> set rs. bwf r"
  shows "case tget (lww_merge_all wins rs l) k of
      None \<Rightarrow> \<forall>m \<in> set (l # rs). tget m k = None
    | Some e \<Rightarrow> (\<exists>m \<in> set (l # rs). tget m k = Some e)
        \<and> (\<forall>m \<in> set (l # rs). \<forall>e'. tget m k = Some e' \<longrightarrow> \<not> wins e' e)"
  using assms
proof (induction rs arbitrary: l)
  case Nil
  then show ?case using irrefl by (auto simp: lww_merge_all_def split: option.split)
next
  case (Cons r rs)
  let ?l = "fst (lww_merge wins l r)"
  have l: "tget ?l k = lww_join wins (tget l k) (tget r k)" using Cons.prems by (simp add: tget_lww_merge)
  have run: "lww_merge_all wins (r # rs) l = lww_merge_all wins rs ?l" by (simp add: lww_merge_all_def)
  have IH: "case tget (lww_merge_all wins rs ?l) k of
      None \<Rightarrow> \<forall>m \<in> set (?l # rs). tget m k = None
    | Some e \<Rightarrow> (\<exists>m \<in> set (?l # rs). tget m k = Some e)
        \<and> (\<forall>m \<in> set (?l # rs). \<forall>e'. tget m k = Some e' \<longrightarrow> \<not> wins e' e)"
    using Cons.IH [of ?l] Cons.prems by simp
  show ?case
  proof (cases "tget (lww_merge_all wins rs ?l) k")
    case None
    with IH l show ?thesis by (auto simp: run lww_join_def split: option.splits if_splits)
  next
    case (Some e)
    with IH have have_e: "tget ?l k = Some e \<or> (\<exists>m \<in> set rs. tget m k = Some e)"
      and best: "\<And>m e'. m \<in> set rs \<Longrightarrow> tget m k = Some e' \<Longrightarrow> \<not> wins e' e"
      and best_l: "\<And>e'. tget ?l k = Some e' \<Longrightarrow> \<not> wins e' e" by auto
    have "\<not> wins e' e" if w: "tget l k = Some e' \<or> tget r k = Some e'" for e'
    proof -
      obtain e2 where e2: "tget ?l k = Some e2" "\<not> wins e' e2"
        using w asym irrefl by (cases "tget l k"; cases "tget r k") (auto simp: l lww_join_def split: if_splits)
      with best_l neg_trans [of e2 e e'] show ?thesis by blast
    qed
    moreover have "tget ?l k = Some e \<Longrightarrow> tget l k = Some e \<or> tget r k = Some e"
      by (auto simp: l lww_join_def split: option.splits if_splits)
    ultimately show ?thesis using have_e best by (auto simp: run Some)
  qed
qed

lemma merge_all_converges:
  assumes "bwf l" "bwf l'" and "\<forall>r \<in> set rs \<union> set rs'. bwf r" and "set (l # rs) = set (l' # rs')"
  shows "lww_merge_all wins rs l = lww_merge_all wins rs' l'"
proof (intro bwf_extensional ext)
  fix k
  define S where "S = set (l # rs)"
  have S': "S = set (l' # rs')" using assms(4) by (simp add: S_def)
  have A: "case tget (lww_merge_all wins rs l) k of None \<Rightarrow> \<forall>m \<in> S. tget m k = None
    | Some e \<Rightarrow> (\<exists>m \<in> S. tget m k = Some e) \<and> (\<forall>m \<in> S. \<forall>e'. tget m k = Some e' \<longrightarrow> \<not> wins e' e)"
    unfolding S_def using assms by (intro merge_all_get) auto
  have B: "case tget (lww_merge_all wins rs' l') k of None \<Rightarrow> \<forall>m \<in> S. tget m k = None
    | Some e \<Rightarrow> (\<exists>m \<in> S. tget m k = Some e) \<and> (\<forall>m \<in> S. \<forall>e'. tget m k = Some e' \<longrightarrow> \<not> wins e' e)"
    unfolding S' using assms by (intro merge_all_get) auto
  show "tget (lww_merge_all wins rs l) k = tget (lww_merge_all wins rs' l') k"
  proof (cases "tget (lww_merge_all wins rs l) k")
    case None
    with A B show ?thesis by (auto split: option.splits)
  next
    case (Some e)
    with A have e: "\<exists>m \<in> S. tget m k = Some e" "\<And>m e'. m \<in> S \<Longrightarrow> tget m k = Some e' \<Longrightarrow> \<not> wins e' e" by auto
    with B obtain e' where e': "tget (lww_merge_all wins rs' l') k = Some e'" by (auto split: option.splits)
    with B have "\<exists>m \<in> S. tget m k = Some e'" "\<And>m e2. m \<in> S \<Longrightarrow> tget m k = Some e2 \<Longrightarrow> \<not> wins e2 e'" by auto
    with e have "\<not> wins e e'" "\<not> wins e' e" by blast+
    with total [of e e'] Some e' show ?thesis by auto
  qed
qed (use assms in \<open>simp_all add: bwf_lww_merge_all\<close>)

end

section \<open>The mapping of model names\<close>

record mapping_entry =
  me_target :: string
  me_updated_at :: int
  me_deleted :: bool

text \<open>\<open>current_timestamp_ms\<close> at time \<open>now\<close>.\<close>

definition current_timestamp_ms :: "nanos \<Rightarrow> int" where
  "current_timestamp_ms now = i64_wrap (int (now div 1000000))"

definition new_mapping_entry :: "nanos \<Rightarrow> string \<Rightarrow> mapping_entry" where
  "new_mapping_entry now t = \<lparr>me_target = t, me_updated_at = current_timestamp_ms now, me_deleted = False\<rparr>"

definition tombstone_at :: "int \<Rightarrow> mapping_entry" where
  "tombstone_at ts = \<lparr>me_target = [], me_updated_at = ts, me_deleted = True\<rparr>"

definition mapping_wins_over :: "mapping_entry \<Rightarrow> mapping_entry \<Rightarrow> bool" where
  "mapping_wins_over a b =
     (if me_updated_at a \<noteq> me_updated_at b then me_updated_at b < me_updated_at a
      else if me_deleted a \<noteq> me_deleted b then me_deleted a
      else me_target b < me_target a)"

record syncable_mapping =
  sm_entries :: "(string, mapping_entry) table"
  sm_instance_id :: "string option"

definition from_simple_map :: "nanos \<Rightarrow> (string, string) table \<Rightarrow> syncable_mapping" where
  "from_simple_map now m =
     \<lparr>sm_entries = fold (\<lambda>(k, v). bput k (new_mapping_entry now v)) m [], sm_instance_id = None\<rparr>"

definition to_simple_map :: "syncable_mapping \<Rightarrow> (string, string) table" where
  "to_simple_map s = map (\<lambda>(k, v). (k, me_target v)) (filter (\<lambda>(_, v). \<not> me_deleted v) (sm_entries s))"

text \<open>The time of an edit: now, but later than the entry it replaces if the clock allows.\<close>

definition edit_time :: "int \<Rightarrow> int option \<Rightarrow> int" where
  "edit_time now old = (case old of None \<Rightarrow> now | Some t \<Rightarrow> max now (i64_sat_add t 1))"

definition mapping_set :: "nanos \<Rightarrow> string \<Rightarrow> string \<Rightarrow> syncable_mapping \<Rightarrow> syncable_mapping" where
  "mapping_set now source tgt s =
     (let ts = edit_time (current_timestamp_ms now) (map_option me_updated_at (tget (sm_entries s) source))
      in s\<lparr>sm_entries := bput source \<lparr>me_target = tgt, me_updated_at = ts, me_deleted = False\<rparr> (sm_entries s)\<rparr>)"

definition mapping_remove :: "nanos \<Rightarrow> string \<Rightarrow> syncable_mapping \<Rightarrow> syncable_mapping" where
  "mapping_remove now source s =
     (let ts = edit_time (current_timestamp_ms now) (map_option me_updated_at (tget (sm_entries s) source))
      in s\<lparr>sm_entries := bput source \<lparr>me_target = [], me_updated_at = ts, me_deleted = True\<rparr> (sm_entries s)\<rparr>)"

definition mapping_get :: "string \<Rightarrow> syncable_mapping \<Rightarrow> string option" where
  "mapping_get source s =
     (case tget (sm_entries s) source of
        None \<Rightarrow> None | Some e \<Rightarrow> if me_deleted e then None else Some (me_target e))"

definition mapping_merge_lww :: "syncable_mapping \<Rightarrow> syncable_mapping \<Rightarrow> u64 \<times> syncable_mapping" where
  "mapping_merge_lww remote s =
     (let (m, updated) = lww_merge mapping_wins_over (sm_entries s) (sm_entries remote)
      in (updated, s\<lparr>sm_entries := m\<rparr>))"

definition mapping_diff_newer_than :: "syncable_mapping \<Rightarrow> syncable_mapping \<Rightarrow> syncable_mapping" where
  "mapping_diff_newer_than remote s =
     \<lparr>sm_entries = lww_newer mapping_wins_over (sm_entries s) (sm_entries remote),
      sm_instance_id = sm_instance_id s\<rparr>"

definition mapping_len :: "syncable_mapping \<Rightarrow> nat" where
  "mapping_len s = length (filter (\<lambda>(_, v). \<not> me_deleted v) (sm_entries s))"

definition mapping_is_empty :: "syncable_mapping \<Rightarrow> bool" where
  "mapping_is_empty s \<longleftrightarrow> mapping_len s = 0"

definition total_entries :: "syncable_mapping \<Rightarrow> nat" where
  "total_entries s = length (sm_entries s)"

section \<open>The proxies assigned to accounts\<close>

definition MAX_PROXY_ENTRIES :: nat where "MAX_PROXY_ENTRIES = 10000"

record proxy_assignment =
  pa_proxy_url :: "string option"
  pa_updated_at :: int

definition new_proxy_assignment :: "nanos \<Rightarrow> string option \<Rightarrow> proxy_assignment" where
  "new_proxy_assignment now url = \<lparr>pa_proxy_url = url, pa_updated_at = current_timestamp_ms now\<rparr>"

definition assignment_wins_over :: "proxy_assignment \<Rightarrow> proxy_assignment \<Rightarrow> bool" where
  "assignment_wins_over a b =
     (if pa_updated_at a \<noteq> pa_updated_at b then pa_updated_at b < pa_updated_at a
      else case (pa_proxy_url a, pa_proxy_url b) of
             (None, Some _) \<Rightarrow> True
           | (Some _, None) \<Rightarrow> False
           | (Some x, Some y) \<Rightarrow> y < x
           | (None, None) \<Rightarrow> False)"

record syncable_proxies =
  sp_entries :: "(string, proxy_assignment) table"
  sp_instance_id :: "string option"

text \<open>\<open>min_by_key\<close>: the first of the least elements.\<close>

fun first_min :: "('a \<Rightarrow> int) \<Rightarrow> 'a list \<Rightarrow> 'a option" where
  "first_min f [] = None"
| "first_min f (x # xs) =
     (case first_min f xs of None \<Rightarrow> Some x | Some y \<Rightarrow> Some (if f x \<le> f y then x else y))"

definition evict_oldest :: "(string, proxy_assignment) table \<Rightarrow> (string, proxy_assignment) table" where
  "evict_oldest m =
     (case first_min (\<lambda>(_, v). pa_updated_at v) m of None \<Rightarrow> m | Some (k, _) \<Rightarrow> tdel k m)"

definition oldest_timestamp :: "(string, proxy_assignment) table \<Rightarrow> int option" where
  "oldest_timestamp m = (if m = [] then None else Some (Min (set (map (pa_updated_at \<circ> snd) m))))"

definition proxies_set :: "nanos \<Rightarrow> string \<Rightarrow> string option \<Rightarrow> syncable_proxies \<Rightarrow> syncable_proxies" where
  "proxies_set now mail url s =
     (let m = sp_entries s;
          ts = edit_time (current_timestamp_ms now) (map_option pa_updated_at (tget m mail));
          m = (if tget m mail = None \<and> MAX_PROXY_ENTRIES \<le> length m then evict_oldest m else m)
      in s\<lparr>sp_entries := bput mail \<lparr>pa_proxy_url = url, pa_updated_at = ts\<rparr> m\<rparr>)"

definition proxies_get :: "string \<Rightarrow> syncable_proxies \<Rightarrow> string option option" where
  "proxies_get mail s = map_option pa_proxy_url (tget (sp_entries s) mail)"

text \<open>One entry of the remote table: too far in the future, too old for a full table, or merged.\<close>

definition assignment_step ::
  "int \<Rightarrow> string \<times> proxy_assignment \<Rightarrow> (string, proxy_assignment) table \<times> u64
   \<Rightarrow> (string, proxy_assignment) table \<times> u64" where
  "assignment_step max_allowed e s =
     (if max_allowed < pa_updated_at (snd e) then s
      else if tget (fst s) (fst e) = None \<and> MAX_PROXY_ENTRIES \<le> length (fst s)
      then (case oldest_timestamp (fst s) of
              Some t \<Rightarrow> if pa_updated_at (snd e) \<le> t then s
                       else lww_step assignment_wins_over e (evict_oldest (fst s), snd s)
            | None \<Rightarrow> lww_step assignment_wins_over e (evict_oldest (fst s), snd s))
      else lww_step assignment_wins_over e s)"

definition proxies_merge_lww :: "nanos \<Rightarrow> syncable_proxies \<Rightarrow> syncable_proxies \<Rightarrow> u64 \<times> syncable_proxies" where
  "proxies_merge_lww now remote s =
     (let max_allowed = i64_sat_add (current_timestamp_ms now) 86400000;
          (m, updated) = fold (assignment_step max_allowed) (sp_entries remote) (sp_entries s, 0)
      in (updated, s\<lparr>sp_entries := m\<rparr>))"

definition proxies_diff_newer_than :: "syncable_proxies \<Rightarrow> syncable_proxies \<Rightarrow> syncable_proxies" where
  "proxies_diff_newer_than remote s =
     \<lparr>sp_entries = lww_newer assignment_wins_over (sp_entries s) (sp_entries remote),
      sp_instance_id = sp_instance_id s\<rparr>"

definition active_assignments :: "syncable_proxies \<Rightarrow> nat" where
  "active_assignments s = length (filter (\<lambda>(_, v). pa_proxy_url v \<noteq> None) (sp_entries s))"

section \<open>Both orders are last-writer-wins orders\<close>

interpretation mapping: lww mapping_wins_over
proof
  show "\<not> mapping_wins_over a a" for a by (simp add: mapping_wins_over_def)
  show "mapping_wins_over a b \<Longrightarrow> mapping_wins_over b c \<Longrightarrow> mapping_wins_over a c" for a b c
    by (auto simp: mapping_wins_over_def split: if_splits)
  show "a \<noteq> b \<Longrightarrow> mapping_wins_over a b \<or> mapping_wins_over b a" for a b
    by (auto simp: mapping_wins_over_def intro: mapping_entry.equality)
qed

interpretation assignment: lww assignment_wins_over
proof
  show "\<not> assignment_wins_over a a" for a by (simp add: assignment_wins_over_def split: option.split)
  show "assignment_wins_over a b \<Longrightarrow> assignment_wins_over b c \<Longrightarrow> assignment_wins_over a c" for a b c
    by (auto simp: assignment_wins_over_def split: if_splits option.splits)
  show "a \<noteq> b \<Longrightarrow> assignment_wins_over a b \<or> assignment_wins_over b a" for a b
    by (auto simp: assignment_wins_over_def intro: proxy_assignment.equality split: option.split)
qed

section \<open>Convergence of the mappings\<close>

definition mapping_merge_all :: "syncable_mapping list \<Rightarrow> syncable_mapping \<Rightarrow> syncable_mapping" where
  "mapping_merge_all rs s = fold (\<lambda>r s. snd (mapping_merge_lww r s)) rs s"

abbreviation mapping_wf :: "syncable_mapping \<Rightarrow> bool" where
  "mapping_wf s \<equiv> bwf (sm_entries s)"

lemma mapping_merge_entries:
  "sm_entries (snd (mapping_merge_lww r s)) = fst (lww_merge mapping_wins_over (sm_entries s) (sm_entries r))"
  by (simp add: mapping_merge_lww_def split_beta)

lemma mapping_merge_all_entries:
  "sm_entries (mapping_merge_all rs s) = lww_merge_all mapping_wins_over (map sm_entries rs) (sm_entries s)"
  by (induction rs arbitrary: s)
    (simp_all add: mapping_merge_all_def lww_merge_all_def mapping_merge_entries)

text \<open>
  Claim C27: replicas converge. Two instances that have seen the same states of the mapping, each
  starting from one of them and merging the others in whatever order and however often, hold the same
  entries: the merge is a join of replicas, so no order of synchronisation loses an edit.
\<close>

theorem mapping_replicas_converge:
  assumes "\<forall>s \<in> set (l # rs). mapping_wf s" and "set (l # rs) = set (l' # rs')"
  shows "sm_entries (mapping_merge_all rs l) = sm_entries (mapping_merge_all rs' l')"
  unfolding mapping_merge_all_entries
proof (rule mapping.merge_all_converges)
  have "\<forall>s \<in> set (l' # rs'). mapping_wf s" using assms by blast
  then show "mapping_wf l'" "\<forall>r \<in> set (map sm_entries rs) \<union> set (map sm_entries rs'). bwf r"
    using assms(1) by auto
  have "sm_entries ` set (l # rs) = sm_entries ` set (l' # rs')" using assms(2) by (rule arg_cong)
  then show "set (sm_entries l # map sm_entries rs) = set (sm_entries l' # map sm_entries rs')" by simp
qed (use assms in simp)

definition one_mapping :: "string \<Rightarrow> string \<Rightarrow> int \<Rightarrow> syncable_mapping" where
  "one_mapping k t ts =
     \<lparr>sm_entries = [(k, \<lparr>me_target = t, me_updated_at = ts, me_deleted = False\<rparr>)], sm_instance_id = None\<rparr>"

theorem mapping_replicas_converge_witness:
  "sm_entries (mapping_merge_all [one_mapping ''a'' ''x'' 2, one_mapping ''b'' ''z'' 1] (one_mapping ''a'' ''y'' 1))
   = sm_entries (mapping_merge_all [one_mapping ''a'' ''y'' 1, one_mapping ''a'' ''x'' 2] (one_mapping ''b'' ''z'' 1))"
  by (rule mapping_replicas_converge) (auto simp: one_mapping_def)

section \<open>Differences and counts\<close>

lemma lww_newer_step:
  assumes "bwf m" and "k \<notin> tkeys es"
  shows "lww_newer wins es (bput k r m) = lww_newer wins es m"
  unfolding lww_newer_def
proof (rule filter_cong)
  fix e
  assume "e \<in> set es"
  with assms(2) have "fst e \<noteq> k" by force
  with assms(1) show "(case e of (k', l) \<Rightarrow> case tget (bput k r m) k' of None \<Rightarrow> True | Some r \<Rightarrow> wins l r)
      = (case e of (k', l) \<Rightarrow> case tget m k' of None \<Rightarrow> True | Some r \<Rightarrow> wins l r)"
    by (simp add: tget_bput split_beta)
qed simp

lemma lww_fold_count:
  assumes "bwf (fst s)" and "twf es" and "unat (snd s) + length es < 2 ^ 64"
  shows "unat (snd (fold (lww_step wins) es s)) = unat (snd s) + length (lww_newer wins es (fst s))"
  using assms
proof (induction es arbitrary: s)
  case Nil
  then show ?case by (simp add: lww_newer_def)
next
  case (Cons e es)
  obtain k r where e: "e = (k, r)" by force
  obtain m n where s: "s = (m, n)" by force
  have k: "k \<notin> tkeys es" using Cons.prems(2) e by simp
  show ?case
  proof (cases "case tget m k of None \<Rightarrow> True | Some l \<Rightarrow> wins r l")
    case True
    then have st: "lww_step wins e s = (bput k r m, sat_add n 1)" by (simp add: lww_step_def e s)
    have n: "unat (sat_add n 1) = unat n + 1" using Cons.prems(3) s by (simp add: unat_sat_add)
    have "unat (snd (fold (lww_step wins) es (lww_step wins e s))) = unat n + 1 + length (lww_newer wins es (bput k r m))"
      using Cons.IH [of "(bput k r m, sat_add n 1)"] Cons.prems n s unfolding st by simp
    moreover have "lww_newer wins es (bput k r m) = lww_newer wins es m"
      using lww_newer_step [of m k es wins r] Cons.prems(1) s k by simp
    ultimately show ?thesis using True by (simp add: s e lww_newer_def)
  next
    case False
    then have st: "lww_step wins e s = s" by (simp add: lww_step_def e s)
    have "unat (snd (fold (lww_step wins) es s)) = unat n + length (lww_newer wins es m)"
      using Cons.IH [of s] Cons.prems by (simp add: s)
    with False show ?thesis unfolding fold.simps comp_apply st by (simp add: s e lww_newer_def)
  qed
qed

lemma lww_merge_count:
  "bwf l \<Longrightarrow> twf r \<Longrightarrow> length r < 2 ^ 64
   \<Longrightarrow> unat (snd (lww_merge wins l r)) = length (lww_newer wins r l)"
  using lww_fold_count [of "(l, 0)" r wins] by (simp add: lww_merge_def)

lemma lww_newer_idem: "lww_newer wins (lww_newer wins l r) r = lww_newer wins l r"
  by (simp add: lww_newer_def)

text \<open>
  Note: sending differences is enough. Merging only the entries that are newer than the
  receiver's gives the receiver the same state and the same count as merging everything, the count
  being the number of entries sent; and after one exchange of differences both sides agree.
\<close>

theorem mapping_difference_suffices:
  assumes "mapping_wf l" and "mapping_wf r" and "length (sm_entries l) < 2 ^ 64"
  defines "d \<equiv> mapping_diff_newer_than r l"
  shows "mapping_merge_lww d r = mapping_merge_lww l r
    \<and> unat (fst (mapping_merge_lww d r)) = total_entries d
    \<and> sm_entries (snd (mapping_merge_lww d r))
        = sm_entries (snd (mapping_merge_lww (mapping_diff_newer_than l r) l))"
proof -
  let ?d = "lww_newer mapping_wins_over (sm_entries l) (sm_entries r)"
  have d: "sm_entries d = ?d" "bwf ?d" "length ?d < 2 ^ 64"
    using assms(1,3) le_less_trans [OF length_filter_le assms(3)]
    by (simp_all add: d_def mapping_diff_newer_than_def lww_newer_def)
  have m: "fst (lww_merge mapping_wins_over (sm_entries r) ?d) = fst (lww_merge mapping_wins_over (sm_entries r) (sm_entries l))"
    using assms by (intro mapping.merge_newer)
  have c: "unat (snd (lww_merge mapping_wins_over (sm_entries r) ?d)) = length ?d"
    "unat (snd (lww_merge mapping_wins_over (sm_entries r) (sm_entries l))) = length ?d"
    using lww_merge_count [of "sm_entries r" ?d mapping_wins_over]
      lww_merge_count [of "sm_entries r" "sm_entries l" mapping_wins_over] assms d by (simp_all add: lww_newer_idem)
  have "fst (lww_merge mapping_wins_over (sm_entries r) (sm_entries l))
      = fst (lww_merge mapping_wins_over (sm_entries l) (lww_newer mapping_wins_over (sm_entries r) (sm_entries l)))"
    using assms mapping.merge_newer [of "sm_entries r" "sm_entries l"] mapping.merge_commute by metis
  moreover have "lww_merge mapping_wins_over (sm_entries r) ?d = lww_merge mapping_wins_over (sm_entries r) (sm_entries l)"
    using m c by (intro prod_eqI) (simp_all add: unat_eqI)
  ultimately show ?thesis
    using c(1) d(1) by (simp add: mapping_merge_lww_def mapping_diff_newer_than_def split_beta total_entries_def)
qed

theorem mapping_difference_suffices_witness:
  "fst (mapping_merge_lww (mapping_diff_newer_than (one_mapping ''a'' ''x'' 2) (one_mapping ''a'' ''y'' 3))
     (one_mapping ''a'' ''x'' 2)) = 1"
proof -
  let ?l = "one_mapping ''a'' ''y'' 3" and ?r = "one_mapping ''a'' ''x'' 2"
  have "unat (fst (mapping_merge_lww (mapping_diff_newer_than ?r ?l) ?r)) = total_entries (mapping_diff_newer_than ?r ?l)"
    by (rule mapping_difference_suffices [THEN conjunct2, THEN conjunct1]) (simp_all add: one_mapping_def)
  also have "\<dots> = 1"
    by (simp add: total_entries_def mapping_diff_newer_than_def lww_newer_def one_mapping_def mapping_wins_over_def)
  finally show ?thesis by (intro unat_eqI) simp
qed

section \<open>Edits\<close>

text \<open>
  Note: an edit survives synchronisation. After setting or removing a mapping, merging any state
  that was no newer for this name (in particular every state from before) keeps the edit, whatever
  the clock said, also if it was behind the replaced entry's time; only an entry at the last
  possible time stamp cannot be edited: then the merge may bring the old entry back.
\<close>

theorem mapping_edit_survives:
  assumes "mapping_wf s" and "mapping_wf r"
    and "\<And>e e'. tget (sm_entries s) k = Some e \<Longrightarrow> tget (sm_entries r) k = Some e' \<Longrightarrow> \<not> mapping_wins_over e' e"
    and "tget (sm_entries s) k = None \<Longrightarrow> tget (sm_entries r) k = None"
    and "\<And>e. tget (sm_entries s) k = Some e \<Longrightarrow> i64_min \<le> me_updated_at e \<and> me_updated_at e < i64_max"
  shows "mapping_get k (snd (mapping_merge_lww r (mapping_set now k v s))) = Some v
    \<and> mapping_get k (snd (mapping_merge_lww r (mapping_remove now k s))) = None"
proof -
  have keep: "\<not> mapping_wins_over e' e2"
    if "tget (sm_entries r) k = Some e'" and
      "me_updated_at e2 = edit_time t (map_option me_updated_at (tget (sm_entries s) k))" for e' e2 t
  proof -
    obtain e where e: "tget (sm_entries s) k = Some e" using assms(4) \<open>tget (sm_entries r) k = Some e'\<close> by fastforce
    from assms(5) [OF e] e \<open>me_updated_at e2 = _\<close> have "me_updated_at e < me_updated_at e2"
      by (auto simp: edit_time_def i64_sat_add_def i64_max_def i64_min_def)
    then have "mapping_wins_over e2 e" by (simp add: mapping_wins_over_def)
    with assms(3) [OF e that(1)] show ?thesis using mapping.trans [of e' e2 e] by blast
  qed
  show ?thesis
    using assms(1,2) keep
    by (auto simp: mapping_get_def mapping_merge_entries mapping_set_def mapping_remove_def Let_def
        tget_lww_merge tget_bput lww_join_def split: option.split)
qed

theorem mapping_edit_survives_witness:
  "mapping_get ''a'' (snd (mapping_merge_lww (one_mapping ''a'' ''x'' 50)
      (mapping_set 0 ''a'' ''new'' (one_mapping ''a'' ''x'' 50)))) = Some ''new''"
  using mapping_edit_survives [of "one_mapping ''a'' ''x'' 50" "one_mapping ''a'' ''x'' 50" "''a''" 0 "''new''"]
  by (simp add: one_mapping_def mapping.irrefl i64_max_def i64_min_def)

text \<open>
  Note: a mapping at the last time stamp is pinned. If some instance sends a removal stamped with the
  largest \<open>i64\<close>, the name cannot be mapped again: the new entry gets the same time stamp and loses the
  tie, so the next merge with any instance that has the removal undoes it. Unlike the merge of
  proxies, this merge does not refuse time stamps from the far future.
\<close>

theorem far_future_removal_pins:
  assumes "mapping_wf s" and "mapping_wf r" and "tget (sm_entries r) k = Some (tombstone_at i64_max)"
  shows "mapping_get k (snd (mapping_merge_lww r (mapping_set now k v (snd (mapping_merge_lww r s))))) = None"
proof -
  let ?s1 = "snd (mapping_merge_lww r s)"
  have clock: "current_timestamp_ms now \<le> i64_max" by (simp add: current_timestamp_ms_def i64_wrap_def i64_max_def)
  have "tget (sm_entries ?s1) k = lww_join mapping_wins_over (tget (sm_entries s) k) (Some (tombstone_at i64_max))"
    using assms by (simp add: mapping_merge_entries tget_lww_merge)
  then obtain e where e: "tget (sm_entries ?s1) k = Some e" "\<not> mapping_wins_over (tombstone_at i64_max) e"
    using mapping.irrefl mapping.asym by (auto simp: lww_join_def split: option.splits if_splits)
  then have "i64_max \<le> me_updated_at e" and stuck: "me_updated_at e = i64_max \<Longrightarrow> me_deleted e"
    by (auto simp: mapping_wins_over_def tombstone_at_def split: if_splits)
  then have "edit_time (current_timestamp_ms now) (Some (me_updated_at e)) = i64_max"
    using clock by (auto simp: edit_time_def i64_sat_add_def i64_max_def i64_min_def)
  then show ?thesis
    using assms e by (simp add: mapping_get_def mapping_merge_entries mapping_set_def Let_def mapping_merge_entries
        tget_lww_merge tget_bput lww_join_def mapping_wins_over_def tombstone_at_def)
qed

theorem far_future_removal_pins_witness:
  "mapping_get ''a'' (snd (mapping_merge_lww \<lparr>sm_entries = [(''a'', tombstone_at i64_max)], sm_instance_id = None\<rparr>
     (mapping_set 1000000000 ''a'' ''x'' (snd (mapping_merge_lww
        \<lparr>sm_entries = [(''a'', tombstone_at i64_max)], sm_instance_id = None\<rparr> (one_mapping ''a'' ''x'' 3)))))) = None"
  by (rule far_future_removal_pins) (simp_all add: one_mapping_def)

text \<open>Reading back what was built from a plain map.\<close>

lemma tget_fold_bput:
  "twf m \<Longrightarrow> bwf t \<Longrightarrow> tget (fold (\<lambda>(k, v). bput k (f v)) m t) k
     = (case tget m k of None \<Rightarrow> tget t k | Some v \<Rightarrow> Some (f v))"
  by (induction m arbitrary: t) (auto simp: tget_bput map_of_eq_None_iff split: option.split)

lemma bwf_fold_bput: "bwf t \<Longrightarrow> bwf (fold (\<lambda>(k, v). bput k (f v)) m t)"
  by (induction m arbitrary: t) auto

lemma tget_filter_map:
  "twf t \<Longrightarrow> tget (map (\<lambda>(k, v). (k, f v)) (filter (\<lambda>(_, v). P v) t)) k
     = (case tget t k of None \<Rightarrow> None | Some v \<Rightarrow> if P v then Some (f v) else None)"
  by (induction t) (auto simp: map_of_eq_None_iff image_iff split: option.split)

text \<open>
  Note: building a mapping from a plain map and reading it back gives the plain map, with all
  entries active.
\<close>

theorem simple_map_round_trip:
  assumes "twf m"
  shows "tget (to_simple_map (from_simple_map now m)) k = tget m k
    \<and> mapping_get k (from_simple_map now m) = tget m k"
proof -
  let ?t = "fold (\<lambda>(k, v). bput k (new_mapping_entry now v)) m []"
  have "bwf ?t" by (rule bwf_fold_bput) simp
  moreover have "tget ?t k = map_option (new_mapping_entry now) (tget m k)"
    using tget_fold_bput [OF assms, of "[]" "new_mapping_entry now" k] by (simp split: option.split)
  ultimately show ?thesis
    by (auto simp: to_simple_map_def from_simple_map_def mapping_get_def tget_filter_map new_mapping_entry_def
        split: option.split)
qed

theorem simple_map_round_trip_witness:
  "mapping_get ''b'' (from_simple_map 5 [(''b'', ''y''), (''a'', ''x'')]) = Some ''y''"
  using simple_map_round_trip [of "[(''b'', ''y''), (''a'', ''x'')]" 5 "''b''"] by simp

section \<open>The table of proxies is bounded\<close>

lemma first_min_in: "xs \<noteq> [] \<Longrightarrow> \<exists>y. first_min f xs = Some y \<and> y \<in> set xs \<and> (\<forall>x \<in> set xs. f y \<le> f x)"
proof (induction xs)
  case (Cons x xs)
  then show ?case by (cases "xs = []") (auto, fastforce)
qed simp

lemma first_min_None [simp]: "first_min f xs = None \<longleftrightarrow> xs = []"
  using first_min_in [of xs f] by (cases xs) auto

lemma evict_oldest_cases:
  assumes "m \<noteq> []"
  shows "\<exists>k v. (k, v) \<in> set m \<and> evict_oldest m = tdel k m
    \<and> (\<forall>(_, w) \<in> set m. pa_updated_at v \<le> pa_updated_at w)"
  using first_min_in [OF assms, of "\<lambda>(_, v). pa_updated_at v"] by (fastforce simp: evict_oldest_def)

lemma bwf_evict [simp]: "bwf m \<Longrightarrow> bwf (evict_oldest m)"
  by (simp add: evict_oldest_def split: option.split prod.split)

lemma length_tdel_less: "k \<in> tkeys t \<Longrightarrow> length (tdel k t) < length t"
proof -
  assume "k \<in> tkeys t"
  then obtain v where "(k, v) \<in> set t" by auto
  then show ?thesis unfolding filter_tdel by (rule length_filter_less) simp
qed

lemma length_evict: "m \<noteq> [] \<Longrightarrow> length (evict_oldest m) < length m"
  using evict_oldest_cases [of m] length_tdel_less by (metis tkeys_memI)

lemma evict_subset: "set (evict_oldest m) \<subseteq> set m"
  by (auto simp: evict_oldest_def filter_tdel split: option.splits)

lemma set_bput: "set (bput k v t) \<subseteq> insert (k, v) (set t)"
  by (induction k v t rule: bput.induct) auto

lemma lww_step_subset: "set (fst (lww_step wins e s)) \<subseteq> insert e (set (fst s))"
  using set_bput [of "fst e" "snd e" "fst s"] by (auto simp: lww_step_def split_beta Let_def split: if_splits)

lemma length_lww_step:
  "bwf (fst s) \<Longrightarrow> length (fst (lww_step wins e s))
     \<le> (if tget (fst s) (fst e) = None then Suc (length (fst s)) else length (fst s))"
  by (auto simp: lww_step_def split_beta Let_def length_bput split: option.split)

text \<open>What one step of the merge keeps: the order of keys, the bound, and where entries come from.\<close>

definition assignments_ok :: "int \<Rightarrow> (string \<times> proxy_assignment) set \<Rightarrow> (string, proxy_assignment) table \<Rightarrow> bool" where
  "assignments_ok max_allowed local m \<longleftrightarrow> bwf m \<and> length m \<le> MAX_PROXY_ENTRIES
     \<and> (\<forall>e \<in> set m. e \<in> local \<or> pa_updated_at (snd e) \<le> max_allowed)"

lemma assignment_step_ok:
  assumes "assignments_ok max_allowed local (fst s)"
  shows "assignments_ok max_allowed local (fst (assignment_step max_allowed e s))"
proof -
  have ok: "assignments_ok max_allowed local (fst (lww_step assignment_wins_over e (m, n)))"
    if "assignments_ok max_allowed local m" "pa_updated_at (snd e) \<le> max_allowed"
      "tget m (fst e) = None \<Longrightarrow> length m < MAX_PROXY_ENTRIES" for m n
    using that lww_step_subset [of assignment_wins_over e "(m, n)"] length_lww_step [of "(m, n)" assignment_wins_over e]
      bwf_lww_step [of "(m, n)" assignment_wins_over e]
    unfolding assignments_ok_def by (fastforce split: if_splits)
  have "assignments_ok max_allowed local (evict_oldest (fst s)) \<and> length (evict_oldest (fst s)) < MAX_PROXY_ENTRIES"
    if "fst s \<noteq> []"
    using assms that length_evict [of "fst s"] evict_subset [of "fst s"] by (auto simp: assignments_ok_def)
  moreover have "fst s \<noteq> []" if "MAX_PROXY_ENTRIES \<le> length (fst s)"
    using that by (auto simp: MAX_PROXY_ENTRIES_def)
  ultimately show ?thesis
    using assms ok [of "fst s" "snd s"] ok [of "evict_oldest (fst s)" "snd s"]
    by (auto simp: assignment_step_def split: option.splits)
qed

lemma assignment_steps_ok:
  "assignments_ok max_allowed local (fst s)
   \<Longrightarrow> assignments_ok max_allowed local (fst (fold (assignment_step max_allowed) es s))"
  by (induction es arbitrary: s) (simp_all add: assignment_step_ok)

text \<open>
  Note: the table of proxies stays bounded and takes no entries from the future. Setting an
  entry and merging whatever another instance sends keep the table sorted and at most 10000 entries
  long, and every entry after a merge was there before or is stamped at most a day ahead of the clock.
\<close>

theorem proxies_bounded:
  assumes "bwf (sp_entries s)" and "length (sp_entries s) \<le> 10000"
  shows "length (sp_entries (proxies_set now mail url s)) \<le> 10000
    \<and> bwf (sp_entries (proxies_set now mail url s))
    \<and> length (sp_entries (snd (proxies_merge_lww now remote s))) \<le> 10000
    \<and> bwf (sp_entries (snd (proxies_merge_lww now remote s)))
    \<and> (\<forall>(k, e) \<in> set (sp_entries (snd (proxies_merge_lww now remote s))).
         (k, e) \<in> set (sp_entries s) \<or> pa_updated_at e \<le> current_timestamp_ms now + 86400000)"
proof -
  let ?max = "i64_sat_add (current_timestamp_ms now) 86400000"
  have "assignments_ok ?max (set (sp_entries s)) (sp_entries s)"
    using assms by (simp add: assignments_ok_def MAX_PROXY_ENTRIES_def)
  then have "assignments_ok ?max (set (sp_entries s)) (sp_entries (snd (proxies_merge_lww now remote s)))"
    using assignment_steps_ok [of ?max "set (sp_entries s)" "(sp_entries s, 0)" "sp_entries remote"]
    by (simp add: proxies_merge_lww_def Let_def split_beta)
  moreover have "?max \<le> current_timestamp_ms now + 86400000"
    by (simp add: i64_sat_add_def current_timestamp_ms_def i64_wrap_def i64_min_def)
  moreover have "MAX_PROXY_ENTRIES \<le> length (sp_entries s) \<Longrightarrow> length (evict_oldest (sp_entries s)) < 10000"
    using length_evict [of "sp_entries s"] assms(2) by (cases "sp_entries s = []") (auto simp: MAX_PROXY_ENTRIES_def)
  ultimately show ?thesis
    using assms by (fastforce simp: assignments_ok_def MAX_PROXY_ENTRIES_def proxies_set_def Let_def length_bput)
qed

definition one_proxy :: "string \<Rightarrow> int \<Rightarrow> syncable_proxies" where
  "one_proxy url ts = \<lparr>sp_entries = [(''a'', \<lparr>pa_proxy_url = Some url, pa_updated_at = ts\<rparr>)], sp_instance_id = None\<rparr>"

theorem proxies_bounded_witness:
  "length (sp_entries (snd (proxies_merge_lww 7 (one_proxy ''u'' 99999999) (one_proxy ''v'' 3)))) \<le> 10000
   \<and> (''a'', \<lparr>pa_proxy_url = Some ''u'', pa_updated_at = 99999999\<rparr>)
        \<notin> set (sp_entries (snd (proxies_merge_lww 7 (one_proxy ''u'' 99999999) (one_proxy ''v'' 3))))"
  using proxies_bounded [of "one_proxy ''v'' 3" 7 "[]" None "one_proxy ''u'' 99999999"]
  by (fastforce simp: one_proxy_def current_timestamp_ms_def i64_wrap_def)

lemma assignment_steps_plain:
  assumes "\<forall>e \<in> set es. pa_updated_at (snd e) \<le> max_allowed" and "bwf (fst s)"
    and "length (fst s) + length es \<le> MAX_PROXY_ENTRIES"
  shows "fold (assignment_step max_allowed) es s = fold (lww_step assignment_wins_over) es s"
  using assms
proof (induction es arbitrary: s)
  case (Cons e es)
  then have "assignment_step max_allowed e s = lww_step assignment_wins_over e s"
    by (simp add: assignment_step_def)
  moreover have "length (fst (lww_step assignment_wins_over e s)) \<le> Suc (length (fst s))"
    using length_lww_step [of s assignment_wins_over e] Cons.prems(2) by (simp split: if_splits)
  ultimately show ?case
    using Cons.IH [of "lww_step assignment_wins_over e s"] Cons.prems bwf_lww_step [of s assignment_wins_over e] by simp
qed simp

text \<open>
  Note: below the bound the proxies converge like the mappings. While the two tables together
  have at most 10000 entries and no entry is too far in the future, merging each into the other
  leaves both instances with the same entries, each the better of the two there were.
\<close>

theorem proxies_converge_below_bound:
  assumes "bwf (sp_entries a)" and "bwf (sp_entries b)"
    and "length (sp_entries a) + length (sp_entries b) \<le> 10000"
    and "\<forall>(_, e) \<in> set (sp_entries a) \<union> set (sp_entries b). pa_updated_at e \<le> current_timestamp_ms now"
  defines "ab \<equiv> snd (proxies_merge_lww now b a)" and "ba \<equiv> snd (proxies_merge_lww now a b)"
  shows "sp_entries ab = sp_entries ba
    \<and> (\<forall>k. proxies_get k ab = map_option pa_proxy_url
         (lww_join assignment_wins_over (tget (sp_entries a) k) (tget (sp_entries b) k)))"
proof -
  have plain: "sp_entries (snd (proxies_merge_lww now r l)) = fst (lww_merge assignment_wins_over (sp_entries l) (sp_entries r))"
    if "bwf (sp_entries l)" "length (sp_entries l) + length (sp_entries r) \<le> 10000"
      "\<forall>(_, e) \<in> set (sp_entries r). pa_updated_at e \<le> current_timestamp_ms now" for l r
  proof -
    have "current_timestamp_ms now \<le> i64_sat_add (current_timestamp_ms now) 86400000"
      by (simp add: i64_sat_add_def current_timestamp_ms_def i64_wrap_def i64_max_def i64_min_def)
    with that show ?thesis
      using assignment_steps_plain [of "sp_entries r" "i64_sat_add (current_timestamp_ms now) 86400000" "(sp_entries l, 0)"]
      by (fastforce simp: proxies_merge_lww_def lww_merge_def Let_def split_beta MAX_PROXY_ENTRIES_def)
  qed
  have ab: "sp_entries ab = fst (lww_merge assignment_wins_over (sp_entries a) (sp_entries b))"
    unfolding ab_def using assms by (intro plain) auto
  have ba: "sp_entries ba = fst (lww_merge assignment_wins_over (sp_entries b) (sp_entries a))"
    unfolding ba_def using assms by (intro plain) auto
  show ?thesis
    using assms(1,2) assignment.merge_commute [of "sp_entries a" "sp_entries b"]
    by (simp add: ab ba proxies_get_def tget_lww_merge assignment.join_commute)
qed

theorem proxies_converge_below_bound_witness:
  "sp_entries (snd (proxies_merge_lww (millis 9) (one_proxy ''u'' 7) (one_proxy ''v'' 7)))
   = sp_entries (snd (proxies_merge_lww (millis 9) (one_proxy ''v'' 7) (one_proxy ''u'' 7)))"
  using proxies_converge_below_bound [of "one_proxy ''v'' 7" "one_proxy ''u'' 7" "millis 9"]
  by (simp add: one_proxy_def current_timestamp_ms_def millis_def i64_wrap_def)

end
