(* ===== verification/Protobuf.thy ===== *)
theory Protobuf
  imports Rust_Strings
begin

unbundle bit_operations_syntax

text \<open>
  The Protocol Buffers wire format as \<open>crates/antigravity-core/src/utils/protobuf.rs\<close> reads and
  writes it: variable length integers, skipping, removing and finding fields, and the message that
  carries OAuth tokens. Bytes are \<open>u8\<close>, offsets are natural numbers; \<open>usize\<close> has 64 bits, so the
  conversion from \<open>u64\<close> cannot fail, and the checked addition is a comparison with \<open>2 ^ 64\<close>.
\<close>

section \<open>Variable length integers\<close>

function encode_varint :: "u64 \<Rightarrow> u8 list" where
  "encode_varint v =
     (if 0x80 \<le> v then ucast ((v AND 0x7F) OR 0x80) # encode_varint (drop_bit 7 v)
      else [ucast v])"
  by pat_completeness auto
termination
proof (relation "measure unat")
  fix v :: u64
  assume "0x80 \<le> v"
  then have "0 < unat v" by (auto simp: word_le_nat_alt)
  then have "unat v div 2 ^ 7 < unat v" by simp
  then show "(drop_bit 7 v, v) \<in> measure unat" by (simp add: unat_drop_bit_eq drop_bit_eq_div unat_div)
qed simp

declare encode_varint.simps [simp del]

function read_varint_loop :: "u8 list \<Rightarrow> nat \<Rightarrow> nat \<Rightarrow> u64 \<Rightarrow> string + (u64 \<times> nat)" where
  "read_varint_loop data pos shift result =
     (if length data \<le> pos then Inl ''datanotcomplete''
      else if 64 \<le> shift then Inl ''varint too large''
      else
        let byte = data ! pos;
            result = result OR push_bit shift (ucast (byte AND 0x7F))
        in if byte AND 0x80 = 0 then Inr (result, pos + 1)
           else read_varint_loop data (pos + 1) (shift + 7) result)"
  by pat_completeness auto
termination by (relation "measure (\<lambda>(data, pos, _). length data - pos)") auto

declare read_varint_loop.simps [simp del]

definition read_varint :: "u8 list \<Rightarrow> nat \<Rightarrow> string + (u64 \<times> nat)" where
  "read_varint data offset = read_varint_loop data offset 0 0"

text \<open>Reading at an offset is reading the rest of the data; the result counts the bytes read.\<close>

fun rv :: "u8 list \<Rightarrow> nat \<Rightarrow> u64 \<Rightarrow> (u64 \<times> nat) option" where
  "rv [] shift result = None"
| "rv (b # bs) shift result =
     (if 64 \<le> shift then None
      else
        let result = result OR push_bit shift (ucast (b AND 0x7F))
        in if b AND 0x80 = 0 then Some (result, 1)
           else map_option (\<lambda>(v, n). (v, Suc n)) (rv bs (shift + 7) result))"

definition ok :: "'e + 'a \<Rightarrow> 'a option" where
  "ok r = (case r of Inl _ \<Rightarrow> None | Inr a \<Rightarrow> Some a)"

lemma ok_simps [simp]: "ok (Inl e) = None" "ok (Inr a) = Some a"
  by (simp_all add: ok_def)

lemma ok_Some_iff: "ok r = Some a \<longleftrightarrow> r = Inr a"
  by (cases r) auto

lemma read_varint_loop_rv:
  "ok (read_varint_loop data pos shift result)
     = map_option (\<lambda>(v, n). (v, pos + n)) (rv (drop pos data) shift result)"
proof (induction data pos shift result rule: read_varint_loop.induct)
  case (1 data pos shift result)
  show ?case
  proof (cases "length data \<le> pos \<or> 64 \<le> shift")
    case True
    then show ?thesis
      by (cases "drop pos data") (auto simp: read_varint_loop.simps [of data])
  next
    case False
    then have "drop pos data = data ! pos # drop (Suc pos) data" by (simp add: Cons_nth_drop_Suc)
    with False 1 show ?thesis
      by (simp add: read_varint_loop.simps [of data pos] Let_def option.map_comp comp_def split_beta)
  qed
qed

lemma read_varint_rv:
  "ok (read_varint data offset) = map_option (\<lambda>(v, n). (v, offset + n)) (rv (drop offset data) 0 0)"
  by (simp add: read_varint_def read_varint_loop_rv)

lemma rv_bounds: "rv bs shift result = Some (v, n) \<Longrightarrow> 0 < n \<and> n \<le> length bs"
  by (induction bs shift result arbitrary: n rule: rv.induct) (auto simp: Let_def split: if_splits)

lemma rv_prefix: "rv bs shift result = Some (v, n) \<Longrightarrow> rv (take n bs @ cs) shift result = Some (v, n)"
  by (induction bs shift result arbitrary: n rule: rv.induct) (auto simp: Let_def split: if_splits)

lemma rv_take: "rv bs shift result = Some (v, n) \<Longrightarrow> n \<le> m \<Longrightarrow> rv (take m bs @ cs) shift result = Some (v, n)"
  using rv_prefix [of bs shift result v n "drop n (take m bs) @ cs"]
  by (metis append.assoc append_take_drop_id min.absorb1 take_take)

lemma word_127: "(127 :: 'a::len word) = mask 7"
  by (simp add: mask_eq_exp_minus_1)

lemma bit_128: "bit (128 :: 'a::len word) n \<longleftrightarrow> n = 7 \<and> 7 < LENGTH('a)"
proof -
  have "bit (push_bit 7 1 :: 'a word) n \<longleftrightarrow> n = 7 \<and> 7 < LENGTH('a)"
    by (auto simp only: bit_push_bit_iff bit_1_iff possible_bit_word diff_is_0_eq)
  then show ?thesis by (simp add: push_bit_eq_mult)
qed

lemma bit_128_int: "bit (128 :: int) n \<longleftrightarrow> n = 7"
proof -
  have "bit (push_bit 7 1 :: int) n \<longleftrightarrow> n = 7"
    by (auto simp only: bit_push_bit_iff bit_1_iff diff_is_0_eq possible_bit_def power_eq_0_iff zero_neq_numeral)
  then show ?thesis by (simp add: push_bit_eq_mult)
qed

lemma byte_low: "ucast ((ucast ((v AND 0x7F) OR 0x80) :: u8) AND 0x7F) = (v AND 0x7F :: u64)"
  by (rule bit_word_eqI) (auto simp: word_127 bit_128 bit_128_int bit_simps)

lemma byte_high_set: "(ucast ((v AND 0x7F) OR 0x80) :: u8) AND 0x80 \<noteq> 0" for v :: u64
proof
  assume "(ucast ((v AND 0x7F) OR 0x80) :: u8) AND 0x80 = 0"
  then have "bit ((ucast ((v AND 0x7F) OR 0x80) :: u8) AND 0x80) 7 = bit (0 :: u8) 7" by simp
  then show False by (simp add: bit_simps bit_128 bit_128_int)
qed

lemma split_7: "(v AND 0x7F) OR push_bit 7 (drop_bit 7 v) = v" for v :: u64
proof (rule bit_word_eqI)
  fix n
  show "bit ((v AND 0x7F) OR push_bit 7 (drop_bit 7 v)) n = bit v n" if "n < LENGTH(64)"
    using that by (cases "n < 7") (auto simp: word_127 bit_simps not_less)
qed

lemma unat_drop_7: "unat (drop_bit 7 v) = unat v div 2 ^ 7" for v :: u64
  by (simp add: unat_drop_bit_eq drop_bit_eq_div unat_div)

lemma push_bit_or: "push_bit n (a OR b) = push_bit n a OR push_bit n b" for a b :: u64
  by (rule bit_word_eqI) (auto simp: bit_simps)

lemma low_byte_small:
  fixes v :: u64
  assumes "\<not> 0x80 \<le> v"
  shows "ucast ((ucast v :: u8) AND 0x7F) = v \<and> (ucast v :: u8) AND 0x80 = 0"
proof -
  have "unat (take_bit 7 v) = unat v"
    using assms by (simp add: unsigned_take_bit_eq take_bit_eq_mod word_le_nat_alt not_le unat_mod)
  then have "v = take_bit 7 v" by (rule unat_eqI [symmetric])
  then have high: "n < 7" if "bit v n" for n using that by (metis bit_take_bit_iff)
  have "ucast ((ucast v :: u8) AND 0x7F) = v"
    by (rule bit_word_eqI) (auto simp: word_127 bit_simps dest: high)
  moreover have "(ucast v :: u8) AND 0x80 = 0"
    by (rule bit_word_eqI) (auto simp: bit_128 bit_simps bit_128_int dest: high)
  ultimately show ?thesis by blast
qed

lemma rv_encode:
  assumes "shift < 64" and "unat v * 2 ^ shift < 2 ^ 64"
  shows "rv (encode_varint v @ cs) shift r = Some (r OR push_bit shift v, length (encode_varint v))"
  using assms
proof (induction v arbitrary: shift r rule: encode_varint.induct)
  case (1 v)
  show ?case
  proof (cases "0x80 \<le> v")
    case False
    then show ?thesis using 1 by (simp add: encode_varint.simps [of v] low_byte_small Let_def)
  next
    case True
    note drop = unat_drop_7 [of v]
    let ?q = "unat v div 2 ^ 7"
    have "?q * 2 ^ 7 \<le> unat v" by simp
    then have "?q * 2 ^ 7 * 2 ^ shift \<le> unat v * 2 ^ shift" by (rule mult_le_mono1)
    moreover have "?q * 2 ^ (shift + 7) = ?q * 2 ^ 7 * 2 ^ shift" by (simp only: power_add ac_simps)
    ultimately have "?q * 2 ^ (shift + 7) < 2 ^ 64" using 1(3) by linarith
    moreover have "1 * 2 ^ (shift + 7) \<le> ?q * 2 ^ (shift + 7)"
      using True by (intro mult_le_mono1) (simp add: word_le_nat_alt Suc_le_eq div_greater_zero_iff)
    ultimately have bound: "unat (drop_bit 7 v) * 2 ^ (shift + 7) < 2 ^ 64" "2 ^ (shift + 7) < (2 :: nat) ^ 64"
      unfolding drop by linarith+
    then have "shift + 7 < 64" using power_less_imp_less_exp [of 2 "shift + 7" 64] by simp
    with True 1 bound have IH: "rv (encode_varint (drop_bit 7 v) @ cs) (shift + 7) r'
        = Some (r' OR push_bit (shift + 7) (drop_bit 7 v), length (encode_varint (drop_bit 7 v)))" for r' by blast
    have "push_bit shift (v AND 0x7F) OR push_bit (shift + 7) (drop_bit 7 v) = push_bit shift v"
      using split_7 [of v] push_bit_or [of shift "v AND 0x7F" "push_bit 7 (drop_bit 7 v)"]
      by (simp add: push_bit_push_bit add.commute)
    then show ?thesis
      using True 1(2) by (simp add: encode_varint.simps [of v] byte_low byte_high_set IH Let_def or.assoc)
  qed
qed

lemma rv_encode_0: "rv (encode_varint v @ cs) 0 0 = Some (v, length (encode_varint v))"
proof -
  have "unat v < 2 ^ LENGTH(64)" by (rule unsigned_less)
  then show ?thesis using rv_encode [of 0 v cs 0] by simp
qed

lemma length_encode: "length (encode_varint v) = (if unat v < 2 ^ 7 then 1 else 1 + length (encode_varint (drop_bit 7 v)))"
  by (simp add: encode_varint.simps [of v] word_le_nat_alt not_le)

lemma length_encode_le: "unat v < 2 ^ (7 * n) \<Longrightarrow> 0 < n \<Longrightarrow> length (encode_varint v) \<le> n"
proof (induction n arbitrary: v)
  case (Suc n)
  have "unat (drop_bit 7 v) < 2 ^ (7 * n)" using Suc.prems(1)
    unfolding unat_drop_7 by (simp add: power_add div_less_iff_less_mult mult.commute)
  with Suc.IH [of "drop_bit 7 v"] show ?case
    by (subst length_encode) (cases "n = 0", use Suc.prems in auto)
qed simp

section \<open>Fields\<close>

definition skip_field :: "u8 list \<Rightarrow> nat \<Rightarrow> u8 \<Rightarrow> string + nat" where
  "skip_field data offset wire_type =
     (if wire_type = 0 then
        (case read_varint data offset of Inl e \<Rightarrow> Inl e | Inr (_, new_offset) \<Rightarrow> Inr new_offset)
      else if wire_type = 1 then
        (if length data < offset + 8 then Inl ''data not complete: 64-bit field'' else Inr (offset + 8))
      else if wire_type = 2 then
        (case read_varint data offset of
           Inl e \<Rightarrow> Inl e
         | Inr (len, content_offset) \<Rightarrow>
             let end = content_offset + unat len
             in if 2 ^ 64 \<le> end then Inl ''overflow in length-delimited field''
                else if length data < end then Inl ''data not complete: length-delimited field''
                else Inr end)
      else if wire_type = 5 then
        (if length data < offset + 4 then Inl ''data not complete: 32-bit field'' else Inr (offset + 4))
      else Inl (''Unknown wire_type: '' @ show_nat (unat wire_type)))"

definition slice :: "u8 list \<Rightarrow> nat \<Rightarrow> nat \<Rightarrow> u8 list" where
  "slice data i j = take (j - i) (drop i data)"

lemma read_varint_advances: "read_varint data offset = Inr (v, n) \<Longrightarrow> offset < n \<and> n \<le> length data"
proof -
  assume "read_varint data offset = Inr (v, n)"
  then have "ok (read_varint data offset) = Some (v, n)" by simp
  then obtain m where m: "rv (drop offset data) 0 0 = Some (v, m)" "n = offset + m"
    by (auto simp: read_varint_rv)
  from rv_bounds [OF m(1)] m(2) show ?thesis by auto
qed

lemma skip_field_bounds: "skip_field data offset w = Inr n \<Longrightarrow> offset \<le> n \<and> n \<le> length data"
  by (auto simp: skip_field_def Let_def dest!: read_varint_advances split: if_splits sum.splits)

text \<open>The loop of \<open>remove_field\<close>: the offset and the bytes kept so far.\<close>

function remove_field_loop :: "u8 list \<Rightarrow> u32 \<Rightarrow> nat \<Rightarrow> u8 list \<Rightarrow> string + u8 list" where
  "remove_field_loop data field_num offset result =
     (if length data \<le> offset then Inr result
      else
        (case read_varint data offset of
           Inl e \<Rightarrow> Inl e
         | Inr (tag, new_offset) \<Rightarrow>
             let wire_type = ucast (tag AND 7); current_field = ucast (drop_bit 3 tag)
             in if current_field = field_num then
                  (case skip_field data new_offset wire_type of
                     Inl e \<Rightarrow> Inl e
                   | Inr next_offset \<Rightarrow> remove_field_loop data field_num next_offset result)
                else
                  (case skip_field data new_offset wire_type of
                     Inl e \<Rightarrow> Inl e
                   | Inr next_offset \<Rightarrow>
                       if length data < next_offset then Inl ''invalid field offset''
                       else remove_field_loop data field_num next_offset
                              (result @ slice data offset next_offset))))"
  by pat_completeness auto
termination
  by (relation "measure (\<lambda>(data, _, offset, _). length data - offset)")
    (auto dest!: read_varint_advances skip_field_bounds)

declare remove_field_loop.simps [simp del]

definition remove_field :: "u8 list \<Rightarrow> u32 \<Rightarrow> string + u8 list" where
  "remove_field data field_num = remove_field_loop data field_num 0 []"

function find_field_loop :: "u8 list \<Rightarrow> u32 \<Rightarrow> nat \<Rightarrow> string + u8 list option" where
  "find_field_loop data target_field offset =
     (if length data \<le> offset then Inr None
      else
        (case read_varint data offset of
           Inl e \<Rightarrow> Inl e
         | Inr (tag, new_offset) \<Rightarrow>
             let wire_type = ucast (tag AND 7); field_num = ucast (drop_bit 3 tag)
             in if field_num = target_field \<and> wire_type = 2 then
                  (case read_varint data new_offset of
                     Inl e \<Rightarrow> Inl e
                   | Inr (len, content_offset) \<Rightarrow>
                       let end = content_offset + unat len
                       in if 2 ^ 64 \<le> end then Inl ''overflow in length-delimited field''
                          else if length data < end then Inl ''truncated field data''
                          else Inr (Some (slice data content_offset end)))
                else
                  (case skip_field data new_offset wire_type of
                     Inl e \<Rightarrow> Inl e
                   | Inr next_offset \<Rightarrow> find_field_loop data target_field next_offset)))"
  by pat_completeness auto
termination
  by (relation "measure (\<lambda>(data, _, offset). length data - offset)")
    (auto dest!: read_varint_advances skip_field_bounds)

declare find_field_loop.simps [simp del]

definition find_field :: "u8 list \<Rightarrow> u32 \<Rightarrow> string + u8 list option" where
  "find_field data target_field = find_field_loop data target_field 0"

section \<open>The message with the tokens\<close>

definition as_bytes :: "string \<Rightarrow> u8 list" where
  "as_bytes s = map of_char s"

text \<open>\<open>(n << 3) | 2\<close>, the length, the content.\<close>

definition length_delimited :: "u64 \<Rightarrow> u8 list \<Rightarrow> u8 list" where
  "length_delimited field content =
     encode_varint (push_bit 3 field OR 2) @ encode_varint (of_nat (length content)) @ content"

definition create_oauth_field :: "string \<Rightarrow> string \<Rightarrow> int \<Rightarrow> u8 list" where
  "create_oauth_field access_token refresh_token expiry =
     (let field1 = length_delimited 1 (as_bytes access_token);
          field2 = length_delimited 2 (as_bytes ''Bearer'');
          field3 = length_delimited 3 (as_bytes refresh_token);
          timestamp_msg = encode_varint (push_bit 3 1) @ encode_varint (of_int expiry);
          field4 = length_delimited 4 timestamp_msg;
          oauth_info = field1 @ field2 @ field3 @ field4
      in length_delimited 6 oauth_info)"

section \<open>Messages as lists of fields\<close>

text \<open>
  The specification: a message is a sequence of raw fields, each its tag and its bytes. Removing and
  finding fields are a filter and a search in that list.
\<close>

definition skipn :: "u8 list \<Rightarrow> u8 \<Rightarrow> nat option" where
  "skipn bs w =
     (if w = 0 then map_option snd (rv bs 0 0)
      else if w = 1 then (if 8 \<le> length bs then Some 8 else None)
      else if w = 2 then
        (case rv bs 0 0 of
           None \<Rightarrow> None
         | Some (len, n) \<Rightarrow> if n + unat len \<le> length bs then Some (n + unat len) else None)
      else if w = 5 then (if 4 \<le> length bs then Some 4 else None)
      else None)"

definition wire :: "u64 \<Rightarrow> u8" where "wire tag = ucast (tag AND 7)"
definition number :: "u64 \<Rightarrow> u32" where "number tag = ucast (drop_bit 3 tag)"

definition head_field :: "u8 list \<Rightarrow> (u64 \<times> nat) option" where
  "head_field bs =
     (case rv bs 0 0 of
        None \<Rightarrow> None
      | Some (tag, n) \<Rightarrow> map_option (\<lambda>m. (tag, n + m)) (skipn (drop n bs) (wire tag)))"

lemma skipn_bounds: "skipn bs w = Some n \<Longrightarrow> n \<le> length bs"
  by (auto simp: skipn_def dest!: rv_bounds split: if_splits option.splits)

lemma skipn_prefix: "skipn bs w = Some n \<Longrightarrow> n \<le> k \<Longrightarrow> skipn (take k bs @ cs) w = Some n"
proof -
  assume *: "skipn bs w = Some n" "n \<le> k"
  then show ?thesis
    by (cases "rv bs 0 0") (auto simp: skipn_def rv_take split: if_splits)
qed

lemma head_field_bounds: "head_field bs = Some (tag, n) \<Longrightarrow> 0 < n \<and> n \<le> length bs"
  by (auto simp: head_field_def dest!: rv_bounds skipn_bounds split: option.splits)

lemma head_field_prefix: "head_field bs = Some (tag, n) \<Longrightarrow> head_field (take n bs @ cs) = Some (tag, n)"
proof -
  assume "head_field bs = Some (tag, n)"
  then obtain k m where k: "rv bs 0 0 = Some (tag, k)" "skipn (drop k bs) (wire tag) = Some m" "n = k + m"
    by (auto simp: head_field_def split: option.splits)
  have "k \<le> length bs" using rv_bounds [OF k(1)] by simp
  then have take: "take n bs = take k bs @ take m (drop k bs)" by (simp add: k(3) take_add)
  have "rv (take n bs @ cs) 0 0 = Some (tag, k)" using rv_prefix [OF k(1)] by (simp add: take)
  moreover have "drop k (take n bs @ cs) = take m (drop k bs) @ cs" using \<open>k \<le> length bs\<close> by (simp add: take)
  ultimately show ?thesis using skipn_prefix [OF k(2) order_refl] k(3) by (simp add: head_field_def)
qed

function split_fields :: "u8 list \<Rightarrow> (u64 \<times> u8 list) list option" where
  "split_fields bs =
     (if bs = [] then Some []
      else (case head_field bs of
              None \<Rightarrow> None
            | Some (tag, n) \<Rightarrow> map_option (Cons (tag, take n bs)) (split_fields (drop n bs))))"
  by pat_completeness auto
termination by (relation "measure length") (auto dest: head_field_bounds)

declare split_fields.simps [simp del]

lemma split_fields_Nil [simp]: "split_fields [] = Some []"
  by (simp add: split_fields.simps)

lemma skip_field_skipn:
  assumes "offset \<le> length data" and "length data < 2 ^ 64"
  shows "ok (skip_field data offset w) = map_option ((+) offset) (skipn (drop offset data) w)"
proof (cases "w = 0 \<or> w = 2")
  case True
  show ?thesis
  proof (cases "read_varint data offset")
    case (Inl e)
    then have "rv (drop offset data) 0 0 = None" using read_varint_rv [of data offset] by simp
    with Inl True show ?thesis by (auto simp: skip_field_def skipn_def)
  next
    case (Inr r)
    then obtain v n where r: "r = (v, offset + n)" "rv (drop offset data) 0 0 = Some (v, n)"
      using read_varint_rv [of data offset] by (cases "rv (drop offset data) 0 0") auto
    with Inr True assms show ?thesis by (auto simp: skip_field_def skipn_def Let_def)
  qed
next
  case False
  with assms show ?thesis by (auto simp: skip_field_def skipn_def)
qed

lemma read_varint_cases:
  obtains (err) e where "read_varint data offset = Inl e" "rv (drop offset data) 0 0 = None"
    | (val) v n where "read_varint data offset = Inr (v, offset + n)" "rv (drop offset data) 0 0 = Some (v, n)"
  using read_varint_rv [of data offset] by (cases "read_varint data offset"; cases "rv (drop offset data) 0 0") auto

lemma skip_field_cases:
  assumes "offset \<le> length data" and "length data < 2 ^ 64"
  obtains (err) e where "skip_field data offset w = Inl e" "skipn (drop offset data) w = None"
    | (val) n where "skip_field data offset w = Inr (offset + n)" "skipn (drop offset data) w = Some n"
  using skip_field_skipn [OF assms, of w] 
  by (cases "skip_field data offset w"; cases "skipn (drop offset data) w") auto

definition kept :: "u32 \<Rightarrow> (u64 \<times> u8 list) list \<Rightarrow> (u64 \<times> u8 list) list" where
  "kept f = filter (\<lambda>(tag, _). number tag \<noteq> f)"

definition joined :: "(u64 \<times> u8 list) list \<Rightarrow> u8 list" where
  "joined fs = concat (map snd fs)"

lemma kept_Cons: "kept f ((tag, raw) # fs) = (if number tag = f then kept f fs else (tag, raw) # kept f fs)"
  and joined_Cons: "joined (e # fs) = snd e @ joined fs"
  by (simp_all add: kept_def joined_def)

lemma remove_field_loop_split:
  assumes "length data < 2 ^ 64" and "offset \<le> length data"
  shows "ok (remove_field_loop data f offset result)
       = map_option (\<lambda>fs. result @ joined (kept f fs)) (split_fields (drop offset data))"
  using assms
proof (induction "length data - offset" arbitrary: offset result rule: less_induct)
  case less
  show ?case
  proof (cases "length data \<le> offset")
    case True
    then show ?thesis by (simp add: remove_field_loop.simps kept_def joined_def)
  next
    case False
    then have ne: "drop offset data \<noteq> []" by simp
    show ?thesis
    proof (cases rule: read_varint_cases [of data offset])
      case (err e)
      with False ne show ?thesis
        by (simp add: remove_field_loop.simps [of data] split_fields.simps [of "drop offset data"] head_field_def)
    next
      case (val tag n)
      have n: "offset + n \<le> length data" "0 < n" using rv_bounds [OF val(2)] False by auto
      have parts: "drop n (drop offset data) = drop (offset + n) data" by (simp add: add.commute)
      show ?thesis
        using n(1) less.prems(1)
      proof (cases rule: skip_field_cases [where w = "wire tag"])
        case (err e)
        with False ne val parts show ?thesis
          by (simp add: remove_field_loop.simps [of data] split_fields.simps [of "drop offset data"]
              head_field_def wire_def Let_def)
      next
        case (val m)
        have m: "offset + n + m \<le> length data" using skipn_bounds [OF val(2)] n by simp
        have drop: "drop (n + m) (drop offset data) = drop (offset + n + m) data" by (simp add: ac_simps)
        have slice: "slice data offset (offset + n + m) = take (n + m) (drop offset data)"
          by (simp add: slice_def)
        have split: "split_fields (drop offset data)
            = map_option (Cons (tag, take (n + m) (drop offset data))) (split_fields (drop (offset + n + m) data))"
          using ne val(2) \<open>rv (drop offset data) 0 0 = Some (tag, n)\<close> parts drop
          by (simp add: split_fields.simps [of "drop offset data"] head_field_def)
        have "ok (remove_field_loop data f offset result)
            = ok (remove_field_loop data f (offset + n + m)
                (if number tag = f then result else result @ take (n + m) (drop offset data)))"
          using False val(1) \<open>read_varint data offset = Inr (tag, offset + n)\<close> m slice
          by (simp add: remove_field_loop.simps [of data f offset] wire_def number_def Let_def)
        with less.hyps [of "offset + n + m"] less.prems n m split show ?thesis
          by (simp add: option.map_comp comp_def kept_Cons joined_Cons)
      qed
    qed
  qed
qed

definition payload :: "u8 list \<Rightarrow> u8 list" where
  "payload raw =
     (case rv raw 0 0 of
        None \<Rightarrow> []
      | Some (_, n) \<Rightarrow> (case rv (drop n raw) 0 0 of None \<Rightarrow> [] | Some (_, k) \<Rightarrow> drop (n + k) raw))"

definition found :: "u32 \<Rightarrow> (u64 \<times> u8 list) list \<Rightarrow> u8 list option" where
  "found f fs = map_option (payload \<circ> snd) (find (\<lambda>(tag, _). number tag = f \<and> wire tag = 2) fs)"

lemma find_field_loop_split:
  assumes "length data < 2 ^ 64" and "offset \<le> length data"
    and "split_fields (drop offset data) = Some fs"
  shows "find_field_loop data f offset = Inr (found f fs)"
  using assms
proof (induction "length data - offset" arbitrary: offset fs rule: less_induct)
  case less
  show ?case
  proof (cases "length data \<le> offset")
    case True
    then show ?thesis using less.prems by (simp add: find_field_loop.simps found_def)
  next
    case False
    then have ne: "drop offset data \<noteq> []" by simp
    then obtain tag k fs' where head: "head_field (drop offset data) = Some (tag, k)"
      and rest: "split_fields (drop k (drop offset data)) = Some fs'"
      and fs: "fs = (tag, take k (drop offset data)) # fs'"
      using less.prems(3) by (auto simp: split_fields.simps [of "drop offset data"] split: option.splits)
    then obtain n m where n: "rv (drop offset data) 0 0 = Some (tag, n)"
      and m: "skipn (drop n (drop offset data)) (wire tag) = Some m" and k: "k = n + m"
      by (auto simp: head_field_def split: option.splits)
    have read: "read_varint data offset = Inr (tag, offset + n)"
      using read_varint_rv [of data offset] n by (simp add: ok_Some_iff)
    have bounds: "0 < n" "offset + n \<le> length data" using rv_bounds [OF n] False by auto
    have parts: "drop n (drop offset data) = drop (offset + n) data" by (simp add: add.commute)
    have m': "skipn (drop (offset + n) data) (wire tag) = Some m" using m by (simp only: parts)
    have m_le: "offset + n + m \<le> length data" using skipn_bounds [OF m] bounds(2) by simp
    show ?thesis
    proof (cases "number tag = f \<and> wire tag = 2")
      case True
      with m' obtain len j where j: "rv (drop (offset + n) data) 0 0 = Some (len, j)" "m = j + unat len"
        by (auto simp: skipn_def split: option.splits if_splits)
      have read2: "read_varint data (offset + n) = Inr (len, offset + n + j)"
        using read_varint_rv [of data "offset + n"] j by (simp add: ok_Some_iff)
      have "rv (take k (drop offset data)) 0 0 = Some (tag, n)"
        using rv_prefix [OF n, of "take m (drop (offset + n) data)"] by (simp only: k take_add parts)
      moreover have "rv (drop n (take k (drop offset data))) 0 0 = Some (len, j)"
        using rv_take [OF j(1), of m "[]"] by (simp only: k j(2) drop_take parts) simp
      moreover have "drop (n + j) (take k (drop offset data)) = slice data (offset + n + j) (offset + n + m)"
        by (simp add: k slice_def drop_take ac_simps)
      ultimately have "payload (take k (drop offset data)) = slice data (offset + n + j) (offset + n + j + unat len)"
        by (simp add: payload_def j(2) ac_simps)
      with True False read read2 m_le less.prems(1) show ?thesis
        by (simp add: find_field_loop.simps [of data] fs found_def number_def wire_def Let_def j(2) ac_simps)
    next
      case other: False
      have "skip_field data (offset + n) (wire tag) = Inr (offset + n + m)"
        using skip_field_skipn [OF bounds(2) less.prems(1), of "wire tag"] m'
        by (simp only: ok_Some_iff option.map)
      with False other read have "find_field_loop data f offset = find_field_loop data f (offset + n + m)"
        by (subst find_field_loop.simps) (auto simp: number_def wire_def Let_def)
      moreover have "find_field_loop data f (offset + n + m) = Inr (found f fs')"
        using less.hyps [of "offset + n + m" fs'] less.prems(1) bounds m_le False rest by (simp add: k ac_simps)
      moreover have "found f fs = found f fs'" using other by (auto simp: fs found_def)
      ultimately show ?thesis by simp
    qed
  qed
qed

lemma remove_field_split:
  "length data < 2 ^ 64 \<Longrightarrow>
     ok (remove_field data f) = map_option (\<lambda>fs. joined (kept f fs)) (split_fields data)"
  using remove_field_loop_split [of data 0 f "[]"] by (simp add: remove_field_def)

lemma find_field_split:
  "length data < 2 ^ 64 \<Longrightarrow> split_fields data = Some fs \<Longrightarrow> find_field data f = Inr (found f fs)"
  using find_field_loop_split [of data 0] by (simp add: find_field_def)

text \<open>A raw field stands for itself: it is read back from the front of any data.\<close>

definition raw_field :: "u64 \<times> u8 list \<Rightarrow> bool" where
  "raw_field e \<longleftrightarrow> head_field (snd e) = Some (fst e, length (snd e))"

lemma split_fields_raw:
  "split_fields bs = Some fs \<Longrightarrow> (\<forall>e \<in> set fs. raw_field e) \<and> joined fs = bs"
proof (induction bs arbitrary: fs rule: split_fields.induct)
  case (1 bs)
  show ?case
  proof (cases "bs = []")
    case True
    with 1 show ?thesis by (auto simp: joined_def)
  next
    case False
    with 1(2) obtain tag n fs' where h: "head_field bs = Some (tag, n)" "split_fields (drop n bs) = Some fs'"
      and fs: "fs = (tag, take n bs) # fs'"
      by (auto simp: split_fields.simps [of bs] split: option.splits)
    have "head_field (take n bs) = Some (tag, n)" using head_field_prefix [OF h(1), of "[]"] by simp
    then have "raw_field (tag, take n bs)" using head_field_bounds [OF h(1)] by (simp add: raw_field_def)
    with 1(1) [OF False h(1) refl] h(2) show ?thesis by (simp add: fs joined_Cons)
  qed
qed

lemma split_fields_joined: "\<forall>e \<in> set fs. raw_field e \<Longrightarrow> split_fields (joined fs) = Some fs"
proof (induction fs)
  case Nil
  then show ?case by (simp add: joined_def)
next
  case (Cons e fs)
  obtain tag raw where e: "e = (tag, raw)" by force
  with Cons.prems have raw: "head_field raw = Some (tag, length raw)" by (simp add: raw_field_def)
  from head_field_prefix [OF raw, of "joined fs"] head_field_bounds [OF raw] Cons show ?case
    by (auto simp: e joined_Cons split_fields.simps [of "raw @ joined fs"])
qed

section \<open>Removing, finding, and writing fields\<close>

lemma found_other: "f \<noteq> g \<Longrightarrow> found g (kept f fs) = found g fs"
  by (induction fs) (auto simp: found_def kept_def)

lemma found_removed: "found f (kept f fs) = None"
  by (induction fs) (auto simp: found_def kept_def)

text \<open>
  Note: removing a field removes all its occurrences and nothing else. Whatever bytes are
  given, if \<open>remove_field\<close> succeeds then its result has no field of that number, every other field is
  found in it exactly as in the data, and removing again changes nothing; the result is never longer.
\<close>

theorem remove_field_removes:
  assumes "remove_field data f = Inr out" and "length data < 2 ^ 64"
  shows "find_field out f = Inr None \<and> (\<forall>g. g \<noteq> f \<longrightarrow> find_field out g = find_field data g)
    \<and> remove_field out f = Inr out \<and> length out \<le> length data"
proof -
  obtain fs where fs: "split_fields data = Some fs" and out: "out = joined (kept f fs)"
    using remove_field_split [OF assms(2), of f] assms(1) by (cases "split_fields data") auto
  have raw: "\<forall>e \<in> set fs. raw_field e" and data: "joined fs = data" using split_fields_raw [OF fs] by auto
  have "\<forall>e \<in> set (kept f fs). raw_field e" using raw by (auto simp: kept_def)
  then have split: "split_fields out = Some (kept f fs)" unfolding out by (rule split_fields_joined)
  have "length (joined (kept f gs)) \<le> length (joined gs)" for gs
    by (induction gs) (auto simp: kept_def joined_def)
  then have len: "length out \<le> length data" using data out by metis
  then have lt: "length out < 2 ^ 64" using assms(2) by linarith
  have "kept f (kept f fs) = kept f fs" by (simp add: kept_def)
  then have "remove_field out f = Inr out" using remove_field_split [OF lt, of f] split out by (simp add: ok_Some_iff)
  with len find_field_split [OF lt split] find_field_split [OF assms(2) fs] show ?thesis
    by (simp add: found_removed found_other)
qed

definition field_tag :: "u64 \<Rightarrow> u64" where
  "field_tag n = push_bit 3 n OR 2"

lemma field_tags:
  "n \<in> {1, 2, 3, 4, 6} \<Longrightarrow> wire (field_tag n) = 2 \<and> number (field_tag n) = ucast n"
  by (auto simp: field_tag_def wire_def number_def)

lemma length_delimited_raw:
  assumes "wire (field_tag n) = 2" and "length c < 2 ^ 64"
  shows "raw_field (field_tag n, length_delimited n c)" and "payload (length_delimited n c) = c"
proof -
  let ?t = "encode_varint (field_tag n)" and ?l = "encode_varint (of_nat (length c))"
  have ld: "length_delimited n c = ?t @ ?l @ c" by (simp add: length_delimited_def field_tag_def)
  have len: "unat (of_nat (length c) :: u64) = length c" using assms(2) by (simp add: unat_of_nat)
  show "raw_field (field_tag n, length_delimited n c)"
    using assms(1) by (simp add: raw_field_def head_field_def ld rv_encode_0 skipn_def len)
  show "payload (length_delimited n c) = c" by (simp add: payload_def ld rv_encode_0)
qed


lemma length_varint: "length (encode_varint v) \<le> 10"
proof (rule length_encode_le)
  have "unat v < 2 ^ LENGTH(64)" by (rule unsigned_less)
  then show "unat v < 2 ^ (7 * 10)" by simp
qed simp

lemma length_length_delimited: "length (length_delimited n c) \<le> 20 + length c"
  using length_varint [of "push_bit 3 n OR 2"] length_varint [of "of_nat (length c)"]
  by (simp add: length_delimited_def)

lemma found_append: "found f (xs @ ys) = (case found f xs of None \<Rightarrow> found f ys | Some b \<Rightarrow> Some b)"
  by (induction xs) (auto simp: found_def)

lemma found_Cons: "found f ((tag, raw) # fs) = (if number tag = f \<and> wire tag = 2 then Some (payload raw) else found f fs)"
  by (simp add: found_def)

lemma joined_append: "joined (xs @ ys) = joined xs @ joined ys"
  by (simp add: joined_def)

lemma varint_reads:
  "read_varint (before @ encode_varint v @ after) (length before) = Inr (v, length before + length (encode_varint v))"
  using read_varint_rv [of "before @ encode_varint v @ after" "length before"]
  by (simp add: rv_encode_0 ok_Some_iff)

text \<open>
  Note: a written variable length integer is read back, wherever it stands, and takes at most ten
  bytes; reading stops right behind it.
\<close>

theorem varint_round_trip:
  "read_varint (before @ encode_varint v @ after) (length before)
     = Inr (v, length before + length (encode_varint v))
   \<and> length (encode_varint v) \<le> 10"
  by (simp add: varint_reads length_varint)

text \<open>
  Claim C28: the tokens written into a state blob are the tokens read back. Replacing field 6 of a blob by
  a new token message (removing the old field, appending the new one) gives a blob in which field 6
  is that message, its fields 1 and 3 are the access and the refresh token, its field 4 holds the
  expiry, and every other field of the blob is found as before.
\<close>

theorem oauth_round_trip:
  fixes expiry :: int
  assumes "remove_field data 6 = Inr clean" and "length data < 2 ^ 62"
    and "length access < 2 ^ 61" and "length refresh < 2 ^ 61"
  defines "blob \<equiv> clean @ create_oauth_field access refresh expiry"
  shows "\<exists>info ts. find_field blob 6 = Inr (Some info)
    \<and> find_field info 1 = Inr (Some (as_bytes access)) \<and> find_field info 3 = Inr (Some (as_bytes refresh))
    \<and> find_field info 2 = Inr (Some (as_bytes ''Bearer''))
    \<and> find_field info 4 = Inr (Some ts) \<and> read_varint ts 1 = Inr (of_int expiry, length ts)
    \<and> (\<forall>g. g \<noteq> 6 \<longrightarrow> find_field blob g = find_field data g)"
proof -
  let ?ts = "encode_varint 8 @ encode_varint (of_int expiry)"
  let ?fs = "[(field_tag 1, length_delimited 1 (as_bytes access)),
    (field_tag 2, length_delimited 2 (as_bytes ''Bearer'')),
    (field_tag 3, length_delimited 3 (as_bytes refresh)), (field_tag 4, length_delimited 4 ?ts)]"
  define info where "info = joined ?fs"
  have ts: "length ?ts \<le> 20" using length_varint [of 8] length_varint [of "of_int expiry"] by simp
  have bearer: "length (as_bytes ''Bearer'') = 6" and la: "length (as_bytes s) = length s" for s
    by (simp_all add: as_bytes_def)
  have raw: "\<forall>e \<in> set ?fs. raw_field e"
    using length_delimited_raw(1) [of _ "as_bytes access"] length_delimited_raw(1) [of _ "as_bytes ''Bearer''"]
      length_delimited_raw(1) [of _ "as_bytes refresh"] length_delimited_raw(1) [of _ ?ts] field_tags assms(3,4) ts
    by (simp add: la)
  have "length info \<le> 80 + length access + 6 + length refresh + 20"
    using length_length_delimited [of 1 "as_bytes access"] length_length_delimited [of 2 "as_bytes ''Bearer''"]
      length_length_delimited [of 3 "as_bytes refresh"] length_length_delimited [of 4 ?ts] ts
    by (simp add: info_def joined_def la)
  then have info_len: "length info < 2 ^ 63" using assms(3,4) by simp
  have find_info: "find_field info f = Inr (found f ?fs)" for f
    using find_field_split [of info ?fs f] split_fields_joined [OF raw] info_len by (simp add: info_def)
  have pay: "payload (length_delimited n c) = c" if "n \<in> {1, 2, 3, 4, 6}" "length c < 2 ^ 64" for n c
    using that field_tags length_delimited_raw(2) by blast
  have create: "create_oauth_field access refresh expiry = length_delimited 6 info"
    by (simp add: create_oauth_field_def info_def joined_def Let_def)
  obtain fs where fs: "split_fields data = Some fs" and clean: "clean = joined (kept 6 fs)"
    using remove_field_split [of data 6] assms(1,2) by (cases "split_fields data") auto
  let ?new = "(field_tag 6, length_delimited 6 info)"
  have rawfs: "\<forall>e \<in> set fs. raw_field e" and data: "joined fs = data" using split_fields_raw [OF fs] by auto
  then have "\<forall>e \<in> set (kept 6 fs @ [?new]). raw_field e"
    using length_delimited_raw(1) [of 6 info] field_tags [of 6] info_len by (auto simp: kept_def)
  then have split: "split_fields blob = Some (kept 6 fs @ [?new])"
    using split_fields_joined by (fastforce simp: blob_def clean create joined_def)
  have "length (joined (kept 6 gs)) \<le> length (joined gs)" for gs
    by (induction gs) (auto simp: kept_def joined_def)
  then have "length clean \<le> length data" using data clean by metis
  then have blob_len: "length blob < 2 ^ 64"
    using assms(2) info_len length_length_delimited [of 6 info] by (simp add: blob_def create)
  have find_blob: "find_field blob f = Inr (found f (kept 6 fs @ [?new]))" for f
    by (rule find_field_split [OF blob_len split])
  have 6: "find_field blob 6 = Inr (Some info)"
    using info_len pay [of 6 info] field_tags [of 6]
    by (simp add: find_blob found_append found_removed found_Cons)
  have other: "find_field blob g = find_field data g" if "g \<noteq> 6" for g
    using that find_field_split [of data fs g] fs assms(2) field_tags [of 6]
    by (simp add: find_blob found_append found_other found_Cons) (simp add: found_def split: option.split)
  have read: "read_varint ?ts 1 = Inr (of_int expiry, length ?ts)"
    using varint_reads [of "[8]" "of_int expiry" "[]"] by (simp add: encode_varint.simps [of 8])
  show ?thesis
    using 6 other read assms(3,4) ts find_info field_tags pay
    by (intro exI [of _ info] exI [of _ ?ts]) (simp add: found_Cons la)
qed

lemmas evaluate = remove_field_def remove_field_loop.simps find_field_def find_field_loop.simps read_varint_def
  read_varint_loop.simps skip_field_def slice_def Let_def

lemma one_field_data: "remove_field [8, 1, 18, 1, 7] 1 = Inr [18, 1, 7]"
  by (simp add: evaluate)

theorem remove_field_removes_witness:
  "find_field [18, 1, 7] 1 = Inr None \<and> find_field [18, 1, 7] 2 = find_field [8, 1, 18, 1, 7] 2
   \<and> find_field [8, 1, 18, 1, 7] 2 = Inr (Some [7])"
proof -
  have "find_field [8, 1, 18, 1, 7] 2 = Inr (Some [7])" by (simp add: evaluate)
  then show ?thesis using remove_field_removes [OF one_field_data] by simp
qed

lemma old_tokens_data: "remove_field [50, 1, 9, 18, 1, 7] 6 = Inr [18, 1, 7]"
  by (simp add: evaluate)

theorem oauth_round_trip_witness:
  "(\<exists>info ts. find_field ([18, 1, 7] @ create_oauth_field ''at'' ''rt'' 5) 6 = Inr (Some info)
     \<and> find_field info 1 = Inr (Some (as_bytes ''at'')) \<and> find_field info 4 = Inr (Some ts)
     \<and> read_varint ts 1 = Inr (5, length ts))
   \<and> find_field [50, 1, 9, 18, 1, 7] 6 = Inr (Some [9])"
proof -
  have "find_field [50, 1, 9, 18, 1, 7] 6 = Inr (Some [9])" by (simp add: evaluate)
  then show ?thesis using oauth_round_trip [OF old_tokens_data, of "''at''" "''rt''" 5] by auto
qed


end
