(* ===== verification/Signature_Cache.thy ===== *)
theory Signature_Cache
  imports Rust_Strings
begin

text \<open>
  The cache of thought signatures, \<open>crates/antigravity-core/src/proxy/signature_cache/\<close>, with its
  storage in PostgreSQL (\<open>modules/signature_storage.rs\<close>) and the older single slot
  (\<open>proxy/mappers/signature_store.rs\<close>). The hash function is a parameter. The database is the state
  behind the pool; \<open>up\<close> says whether it answers. A write that the code spawns is kept in the list
  \<open>spawned\<close> until \<open>run_spawned\<close> executes it, so writes may run late and in any order. Metrics and
  logging are left out.
\<close>

section \<open>Entries with a time to live\<close>

record 'a cache_entry =
  ce_data :: 'a
  ce_timestamp :: nanos

definition SIGNATURE_TTL :: nanos where
  "SIGNATURE_TTL = secs (7 * 24 * 60 * 60)"

definition MIN_SIGNATURE_LENGTH :: nat where "MIN_SIGNATURE_LENGTH = 50"
definition TOOL_CACHE_LIMIT :: nat where "TOOL_CACHE_LIMIT = 500"
definition FAMILY_CACHE_LIMIT :: nat where "FAMILY_CACHE_LIMIT = 200"
definition SESSION_CACHE_LIMIT :: nat where "SESSION_CACHE_LIMIT = 1000"
definition CONTENT_CACHE_LIMIT :: nat where "CONTENT_CACHE_LIMIT = 2000"

definition new_entry :: "nanos \<Rightarrow> 'a \<Rightarrow> 'a cache_entry" where
  "new_entry now d = \<lparr>ce_data = d, ce_timestamp = now\<rparr>"

text \<open>A time stamp in the future has no elapsed time, which the code counts as zero.\<close>

definition is_expired :: "nanos \<Rightarrow> 'a cache_entry \<Rightarrow> bool" where
  "is_expired now e =
     (SIGNATURE_TTL < (case duration_since now (ce_timestamp e) of Some d \<Rightarrow> d | None \<Rightarrow> 0))"

type_synonym 'a cache = "(string, 'a cache_entry) table"

definition unexpired :: "nanos \<Rightarrow> 'a cache \<Rightarrow> string \<Rightarrow> 'a option" where
  "unexpired now m k =
     (case tget m k of
        Some e \<Rightarrow> if \<not> is_expired now e then Some (ce_data e) else None
      | None \<Rightarrow> None)"

definition enforce_limit :: "nat \<Rightarrow> nanos \<Rightarrow> 'a cache \<Rightarrow> 'a cache" where
  "enforce_limit limit now m = (if limit < length m then tretain (\<lambda>_ e. \<not> is_expired now e) m else m)"

section \<open>The database\<close>

record signature_db =
  thinking_signatures :: "(string, (string \<times> string) \<times> nanos) table"
  session_rows :: "(string, string \<times> nanos) table"

definition store_signature :: "nanos \<Rightarrow> string \<Rightarrow> string \<Rightarrow> string \<Rightarrow> signature_db \<Rightarrow> signature_db" where
  "store_signature now content_hash signature model_family db =
     db\<lparr>thinking_signatures := tput content_hash ((signature, model_family), now) (thinking_signatures db)\<rparr>"

definition db_get_signature :: "nanos \<Rightarrow> string \<Rightarrow> signature_db \<Rightarrow> (string \<times> string) option \<times> signature_db" where
  "db_get_signature now content_hash db =
     (case tget (thinking_signatures db) content_hash of
        Some (r, _) \<Rightarrow> (Some r, db\<lparr>thinking_signatures := tput content_hash (r, now) (thinking_signatures db)\<rparr>)
      | None \<Rightarrow> (None, db))"

text \<open>\<open>NOW() - make_interval(days => d)\<close>, with days of 24 hours.\<close>

definition days_ago :: "nanos \<Rightarrow> int \<Rightarrow> int" where
  "days_ago now days = int now - days * int (secs 86400)"

definition cleanup_old_signatures :: "nanos \<Rightarrow> int \<Rightarrow> signature_db \<Rightarrow> nat \<times> signature_db" where
  "cleanup_old_signatures now days db =
     (let rows = thinking_signatures db;
          kept = tretain (\<lambda>_ (_, used). \<not> int used < days_ago now days) rows
      in (length rows - length kept, db\<lparr>thinking_signatures := kept\<rparr>))"

definition store_session_signature :: "nanos \<Rightarrow> string \<Rightarrow> string \<Rightarrow> signature_db \<Rightarrow> signature_db" where
  "store_session_signature now session_id signature db =
     db\<lparr>session_rows := tput session_id (signature, now) (session_rows db)\<rparr>"

definition db_get_session_signature :: "nanos \<Rightarrow> string \<Rightarrow> signature_db \<Rightarrow> string option \<times> signature_db" where
  "db_get_session_signature now session_id db =
     (case tget (session_rows db) session_id of
        Some (sig, _) \<Rightarrow> (Some sig, db\<lparr>session_rows := tput session_id (sig, now) (session_rows db)\<rparr>)
      | None \<Rightarrow> (None, db))"

definition cleanup_old_session_signatures :: "nanos \<Rightarrow> int \<Rightarrow> signature_db \<Rightarrow> nat \<times> signature_db" where
  "cleanup_old_session_signatures now days db =
     (let rows = session_rows db;
          kept = tretain (\<lambda>_ (_, updated). \<not> int updated < days_ago now days) rows
      in (length rows - length kept, db\<lparr>session_rows := kept\<rparr>))"

datatype db_write =
    WriteSignature string string string
  | WriteSession string string

fun run_write :: "nanos \<Rightarrow> db_write \<Rightarrow> signature_db \<Rightarrow> signature_db" where
  "run_write now (WriteSignature h sig family) db = store_signature now h sig family db"
| "run_write now (WriteSession sid sig) db = store_session_signature now sid sig db"

section \<open>The cache\<close>

record signature_cache =
  tool_signatures :: "string cache"
  thinking_families :: "string cache"
  session_signatures :: "string cache"
  content_signatures :: "(string \<times> string) cache"
  db_pool :: "signature_db option"
  spawned :: "db_write list"

definition new_cache :: signature_cache where
  "new_cache = \<lparr>tool_signatures = [], thinking_families = [], session_signatures = [],
     content_signatures = [], db_pool = None, spawned = []\<rparr>"

definition set_db_pool :: "signature_db \<Rightarrow> signature_cache \<Rightarrow> signature_cache" where
  "set_db_pool pool c = c\<lparr>db_pool := Some pool\<rparr>"

definition spawn_write :: "db_write \<Rightarrow> signature_cache \<Rightarrow> signature_cache" where
  "spawn_write w c = (case db_pool c of None \<Rightarrow> c | Some _ \<Rightarrow> c\<lparr>spawned := spawned c @ [w]\<rparr>)"

text \<open>The spawned write number \<open>i\<close> runs; a failure of the database is only logged.\<close>

definition run_spawned :: "bool \<Rightarrow> nanos \<Rightarrow> nat \<Rightarrow> signature_cache \<Rightarrow> signature_cache" where
  "run_spawned up now i c =
     (if i < length (spawned c)
      then c\<lparr>spawned := take i (spawned c) @ drop (Suc i) (spawned c),
             db_pool := (if up then map_option (run_write now (spawned c ! i)) (db_pool c) else db_pool c)\<rparr>
      else c)"

definition cache_tool_signature :: "nanos \<Rightarrow> string \<Rightarrow> string \<Rightarrow> signature_cache \<Rightarrow> signature_cache" where
  "cache_tool_signature now tool_use_id signature c =
     (if length signature < MIN_SIGNATURE_LENGTH then c
      else c\<lparr>tool_signatures := enforce_limit TOOL_CACHE_LIMIT now
               (tput tool_use_id (new_entry now signature) (tool_signatures c))\<rparr>)"

definition get_tool_signature :: "nanos \<Rightarrow> string \<Rightarrow> signature_cache \<Rightarrow> string option" where
  "get_tool_signature now tool_use_id c = unexpired now (tool_signatures c) tool_use_id"

definition cache_thinking_family :: "nanos \<Rightarrow> string \<Rightarrow> string \<Rightarrow> signature_cache \<Rightarrow> signature_cache" where
  "cache_thinking_family now signature family c =
     (if length signature < MIN_SIGNATURE_LENGTH then c
      else c\<lparr>thinking_families := enforce_limit FAMILY_CACHE_LIMIT now
               (tput signature (new_entry now family) (thinking_families c))\<rparr>)"

definition get_signature_family :: "string \<Rightarrow> signature_cache \<Rightarrow> string option" where
  "get_signature_family signature c =
     (case tget (thinking_families c) signature of Some e \<Rightarrow> Some (ce_data e) | None \<Rightarrow> None)"

definition cache_session_signature :: "nanos \<Rightarrow> string \<Rightarrow> string \<Rightarrow> signature_cache \<Rightarrow> signature_cache" where
  "cache_session_signature now session_id signature c =
     (if length signature < MIN_SIGNATURE_LENGTH then c
      else
        let should_store =
              (case tget (session_signatures c) session_id of
                 None \<Rightarrow> True
               | Some existing \<Rightarrow> is_expired now existing \<or> length (ce_data existing) < length signature);
            c = (if should_store
                 then spawn_write (WriteSession session_id signature)
                        (c\<lparr>session_signatures := tput session_id (new_entry now signature) (session_signatures c)\<rparr>)
                 else c)
        in c\<lparr>session_signatures := enforce_limit SESSION_CACHE_LIMIT now (session_signatures c)\<rparr>)"

definition has_session_signature :: "nanos \<Rightarrow> string \<Rightarrow> signature_cache \<Rightarrow> bool" where
  "has_session_signature now session_id c =
     (case tget (session_signatures c) session_id of Some e \<Rightarrow> \<not> is_expired now e | None \<Rightarrow> False)"

definition get_session_signature :: "nanos \<Rightarrow> string \<Rightarrow> signature_cache \<Rightarrow> string option" where
  "get_session_signature now session_id c = unexpired now (session_signatures c) session_id"

definition get_session_signature_with_db ::
  "bool \<Rightarrow> nanos \<Rightarrow> string \<Rightarrow> signature_cache \<Rightarrow> string option \<times> signature_cache" where
  "get_session_signature_with_db up now session_id c =
     (case unexpired now (session_signatures c) session_id of
        Some sig \<Rightarrow> (Some sig, c)
      | None \<Rightarrow>
          (case db_pool c of
             None \<Rightarrow> (None, c)
           | Some db \<Rightarrow>
               if \<not> up then (None, c)
               else
                 let (r, db) = db_get_session_signature now session_id db;
                     c = c\<lparr>db_pool := Some db\<rparr>
                 in (case r of
                       Some sig \<Rightarrow> (Some sig, c\<lparr>session_signatures :=
                                      tput session_id (new_entry now sig) (session_signatures c)\<rparr>)
                     | None \<Rightarrow> (None, c))))"

text \<open>\<open>sha256_hex\<close> is the hexadecimal SHA-256 digest of a string.\<close>

definition compute_content_hash :: "(string \<Rightarrow> string) \<Rightarrow> string \<Rightarrow> string" where
  "compute_content_hash sha256_hex content = ''ch-'' @ take 16 (sha256_hex content)"

definition cache_content_signature ::
  "(string \<Rightarrow> string) \<Rightarrow> nanos \<Rightarrow> string \<Rightarrow> string \<Rightarrow> string \<Rightarrow> signature_cache \<Rightarrow> signature_cache" where
  "cache_content_signature sha256_hex now content signature model_family c =
     (if length signature < MIN_SIGNATURE_LENGTH \<or> length content < 20 then c
      else
        let content_hash = compute_content_hash sha256_hex content
        in spawn_write (WriteSignature content_hash signature model_family)
             (c\<lparr>content_signatures := enforce_limit CONTENT_CACHE_LIMIT now
                  (tput content_hash (new_entry now (signature, model_family)) (content_signatures c))\<rparr>))"

definition get_content_signature ::
  "(string \<Rightarrow> string) \<Rightarrow> nanos \<Rightarrow> string \<Rightarrow> signature_cache \<Rightarrow> (string \<times> string) option" where
  "get_content_signature sha256_hex now content c =
     unexpired now (content_signatures c) (compute_content_hash sha256_hex content)"

text \<open>Reading a row of the database into the cache.\<close>

definition fetch_content :: "nanos \<Rightarrow> string \<Rightarrow> signature_db \<Rightarrow> signature_cache \<Rightarrow> (string \<times> string) option \<times> signature_cache" where
  "fetch_content now content_hash db c =
     (let (r, db) = db_get_signature now content_hash db;
          c = c\<lparr>db_pool := Some db\<rparr>
      in (case r of
            Some e \<Rightarrow> (Some e, c\<lparr>content_signatures := tput content_hash (new_entry now e) (content_signatures c)\<rparr>)
          | None \<Rightarrow> (None, c)))"

definition get_content_signature_with_db ::
  "(string \<Rightarrow> string) \<Rightarrow> bool \<Rightarrow> nanos \<Rightarrow> string \<Rightarrow> signature_cache \<Rightarrow> (string \<times> string) option \<times> signature_cache" where
  "get_content_signature_with_db sha256_hex up now content c =
     (let content_hash = compute_content_hash sha256_hex content
      in (case unexpired now (content_signatures c) content_hash of
            Some e \<Rightarrow> (Some e, c)
          | None \<Rightarrow>
              (case db_pool c of
                 None \<Rightarrow> (None, c)
               | Some db \<Rightarrow> if \<not> up then (None, c) else fetch_content now content_hash db c)))"

definition preload_one :: "(string \<Rightarrow> bool) \<Rightarrow> nanos \<Rightarrow> string \<Rightarrow> signature_cache \<Rightarrow> signature_cache" where
  "preload_one up now hash c =
     (case tget (content_signatures c) hash of
        Some _ \<Rightarrow> c
      | None \<Rightarrow>
          (case db_pool c of
             None \<Rightarrow> c
           | Some db \<Rightarrow> if \<not> up hash then c else snd (fetch_content now hash db c)))"

definition preload_signatures_from_db ::
  "(string \<Rightarrow> bool) \<Rightarrow> nanos \<Rightarrow> string list \<Rightarrow> signature_cache \<Rightarrow> signature_cache" where
  "preload_signatures_from_db up now content_hashes c =
     (case db_pool c of None \<Rightarrow> c | Some _ \<Rightarrow> fold (preload_one up now) content_hashes c)"

section \<open>The older slot\<close>

definition store_thought_signature :: "string \<Rightarrow> string option \<Rightarrow> string option" where
  "store_thought_signature sig slot =
     (let should_store = (case slot of None \<Rightarrow> True | Some existing \<Rightarrow> length existing < length sig)
      in if should_store then Some sig else slot)"

definition take_thought_signature :: "string option \<Rightarrow> string option \<times> string option" where
  "take_thought_signature slot = (slot, None)"

definition clear_thought_signature :: "string option \<Rightarrow> string option" where
  "clear_thought_signature slot = None"


section \<open>What a cache with a time to live promises\<close>

text \<open>
  The specification: a map without a size limit that never forgets. \<open>spec_store\<close> remembers value and time
  if the cache accepts the value (it may depend on what is stored and alive), \<open>spec_lookup\<close>
  shows a value for \<open>ttl\<close>. \<open>slot\<close> is what keys are compared by.
\<close>

type_synonym ('h, 'v) memory = "'h \<Rightarrow> ('v \<times> nanos) option"

definition spec_lookup :: "nanos \<Rightarrow> ('k \<Rightarrow> 'h) \<Rightarrow> nanos \<Rightarrow> ('h, 'v) memory \<Rightarrow> 'k \<Rightarrow> 'v option" where
  "spec_lookup ttl slot now m k =
     (case m (slot k) of None \<Rightarrow> None | Some (v, t) \<Rightarrow> if now - t \<le> ttl then Some v else None)"

definition spec_store ::
  "nanos \<Rightarrow> ('k \<Rightarrow> 'h) \<Rightarrow> ('k \<Rightarrow> 'v option \<Rightarrow> 'v \<Rightarrow> bool) \<Rightarrow> nanos \<times> 'k \<times> 'v \<Rightarrow> ('h, 'v) memory \<Rightarrow> ('h, 'v) memory" where
  "spec_store ttl slot accepts e m =
     (case e of (t, k, v) \<Rightarrow>
        if accepts k (spec_lookup ttl slot t m k) v then m(slot k \<mapsto> (v, t)) else m)"

lemma spec_store_step:
  "spec_store ttl slot accepts (t, k, v) m =
     (if accepts k (spec_lookup ttl slot t m k) v then m(slot k \<mapsto> (v, t)) else m)"
  by (simp add: spec_store_def)

text \<open>Calls in the order of time, none before \<open>t0\<close>.\<close>

fun timed :: "nanos \<Rightarrow> (nanos \<times> 'a) list \<Rightarrow> bool" where
  "timed t0 [] = True"
| "timed t0 ((t, _) # es) = (t0 \<le> t \<and> timed t es)"

fun last_time :: "nanos \<Rightarrow> (nanos \<times> 'a) list \<Rightarrow> nanos" where
  "last_time t0 [] = t0"
| "last_time t0 ((t, _) # es) = last_time t es"

lemma timed_le_last: "timed t0 es \<Longrightarrow> t0 \<le> last_time t0 es"
  by (induction es arbitrary: t0) (auto intro: order_trans)

locale expiring_cache =
  fixes lookup :: "nanos \<Rightarrow> 's \<Rightarrow> 'k \<Rightarrow> 'v option"
    and store :: "nanos \<Rightarrow> 'k \<Rightarrow> 'v \<Rightarrow> 's \<Rightarrow> 's"
    and ok :: "'s \<Rightarrow> bool"
    and slot :: "'k \<Rightarrow> 'h"
    and accepts :: "'k \<Rightarrow> 'v option \<Rightarrow> 'v \<Rightarrow> bool"
    and ttl :: nanos
  assumes ok_store: "ok s \<Longrightarrow> ok (store t k v s)"
    and lookup_store: "ok s \<Longrightarrow> t \<le> now \<Longrightarrow> lookup now (store t k v s) k' =
      (if slot k' = slot k \<and> accepts k (lookup t s k) v then (if now - t \<le> ttl then Some v else None)
       else lookup now s k')"
begin

definition agrees :: "nanos \<Rightarrow> 's \<Rightarrow> ('h, 'v) memory \<Rightarrow> bool" where
  "agrees t0 s m \<longleftrightarrow> ok s \<and> (\<forall>now \<ge> t0. \<forall>k. lookup now s k = spec_lookup ttl slot now m k)"

lemma agrees_later: "agrees t0 s m \<Longrightarrow> t0 \<le> t \<Longrightarrow> agrees t s m"
  by (auto simp: agrees_def)

lemma agrees_store:
  assumes "agrees t0 s m" and "t0 \<le> t"
  shows "agrees t (store t k v s) (spec_store ttl slot accepts (t, k, v) m)"
  using assms by (auto simp: agrees_def ok_store lookup_store spec_store_def spec_lookup_def)

lemma agrees_run:
  assumes "agrees t0 s m" and "timed t0 es"
  shows "agrees (last_time t0 es) (fold (\<lambda>(t, k, v). store t k v) es s) (fold (spec_store ttl slot accepts) es m)"
  using assms
proof (induction es arbitrary: t0 s m)
  case (Cons e es)
  obtain t k v where "e = (t, k, v)" by (metis prod_cases3)
  with Cons agrees_store [OF Cons.prems(1), of t k v] show ?case by simp
qed simp

lemma run_lookup:
  assumes "agrees t0 s m" and "timed t0 es" and "last_time t0 es \<le> now"
  shows "lookup now (fold (\<lambda>(t, k, v). store t k v) es s) k
       = spec_lookup ttl slot now (fold (spec_store ttl slot accepts) es m) k"
  using agrees_run [OF assms(1,2)] assms(3) by (simp add: agrees_def)

end

text \<open>If a cache accepts a value whatever it holds, the latest accepted value is the one found.\<close>

fun latest :: "('k \<Rightarrow> 'h) \<Rightarrow> ('k \<Rightarrow> 'v \<Rightarrow> bool) \<Rightarrow> (nanos \<times> 'k \<times> 'v) list \<Rightarrow> 'h \<Rightarrow> ('v \<times> nanos) option" where
  "latest slot okv [] h = None"
| "latest slot okv ((t, k, v) # es) h =
     (case latest slot okv es h of
        Some r \<Rightarrow> Some r
      | None \<Rightarrow> if slot k = h \<and> okv k v then Some (v, t) else None)"

lemma fold_spec_store_latest:
  "fold (spec_store ttl slot (\<lambda>k _ v. okv k v)) es m h = (case latest slot okv es h of None \<Rightarrow> m h | r \<Rightarrow> r)"
  by (induction es arbitrary: m) (auto simp: spec_store_def split: option.split)

lemma spec_run_latest:
  "fold (spec_store ttl slot (\<lambda>k _. okv k)) es (\<lambda>_. None) = latest slot okv es"
  by (rule ext) (simp add: fold_spec_store_latest split: option.split)

section \<open>The four tables\<close>

definition as_is :: "string \<Rightarrow> string" where
  as_is_apply [simp]: "as_is k = k"

definition cache_ok :: "signature_cache \<Rightarrow> bool" where
  "cache_ok c \<longleftrightarrow> twf (tool_signatures c) \<and> twf (session_signatures c) \<and> twf (content_signatures c)
     \<and> twf (thinking_families c)"

lemma is_expired_mono: "is_expired now e \<Longrightarrow> now \<le> now' \<Longrightarrow> is_expired now' e"
  by (auto simp: is_expired_def duration_since_def split: if_splits)

lemma twf_enforce_limit [simp]: "twf m \<Longrightarrow> twf (enforce_limit limit now m)"
  by (simp add: enforce_limit_def)

lemma unexpired_limit:
  "twf m \<Longrightarrow> t \<le> now \<Longrightarrow> unexpired now (enforce_limit limit t m) k = unexpired now m k"
  using is_expired_mono [of t _ now]
  by (auto simp: unexpired_def enforce_limit_def tget_tretain split: option.split)

lemma unexpired_tput:
  "t \<le> now \<Longrightarrow> unexpired now (tput k (new_entry t v) m) k'
     = (if k' = k then if now - t \<le> SIGNATURE_TTL then Some v else None else unexpired now m k')"
  by (simp add: unexpired_def new_entry_def is_expired_def duration_since_def)

lemma spawn_write_simps [simp]:
  "tool_signatures (spawn_write w c) = tool_signatures c"
  "thinking_families (spawn_write w c) = thinking_families c"
  "session_signatures (spawn_write w c) = session_signatures c"
  "content_signatures (spawn_write w c) = content_signatures c"
  "db_pool (spawn_write w c) = db_pool c"
  by (simp_all add: spawn_write_def split: option.split)

definition tool_ok :: "string \<Rightarrow> string \<Rightarrow> bool" where
  "tool_ok _ sig \<longleftrightarrow> MIN_SIGNATURE_LENGTH \<le> length sig"

definition content_ok :: "string \<Rightarrow> string \<times> string \<Rightarrow> bool" where
  "content_ok content e \<longleftrightarrow> MIN_SIGNATURE_LENGTH \<le> length (fst e) \<and> 20 \<le> length content"

definition session_accepts :: "string \<Rightarrow> string option \<Rightarrow> string \<Rightarrow> bool" where
  "session_accepts _ held sig \<longleftrightarrow> MIN_SIGNATURE_LENGTH \<le> length sig
     \<and> (case held of None \<Rightarrow> True | Some old \<Rightarrow> length old < length sig)"

interpretation tool: expiring_cache "\<lambda>now c k. get_tool_signature now k c" cache_tool_signature cache_ok
  as_is "\<lambda>k _ v. tool_ok k v" SIGNATURE_TTL
  by unfold_locales
    (auto simp: cache_ok_def cache_tool_signature_def get_tool_signature_def tool_ok_def unexpired_limit unexpired_tput)

lemma session_should_store:
  "(case tget m k of None \<Rightarrow> True | Some e \<Rightarrow> is_expired t e \<or> length (ce_data e) < length v)
     = (case unexpired t m k of None \<Rightarrow> True | Some old \<Rightarrow> length old < length v)"
  by (simp add: unexpired_def split: option.split)

interpretation session: expiring_cache "\<lambda>now c k. get_session_signature now k c" cache_session_signature cache_ok
  as_is session_accepts SIGNATURE_TTL
  by unfold_locales
    (auto simp: cache_ok_def cache_session_signature_def get_session_signature_def session_accepts_def Let_def
      session_should_store unexpired_limit unexpired_tput)

interpretation content: expiring_cache "\<lambda>now c k. get_content_signature sha now k c"
  "\<lambda>now k v. cache_content_signature sha now k (fst v) (snd v)" cache_ok
  "compute_content_hash sha" "\<lambda>k _ v. content_ok k v" SIGNATURE_TTL for sha
  by unfold_locales
    (auto simp: cache_ok_def cache_content_signature_def get_content_signature_def content_ok_def Let_def
      unexpired_limit unexpired_tput)


lemma new_cache_agrees:
  "tool.agrees 0 new_cache Map.empty" "session.agrees 0 new_cache Map.empty" "content.agrees sha 0 new_cache Map.empty"
  unfolding tool.agrees_def session.agrees_def content.agrees_def
  by (simp_all add: cache_ok_def new_cache_def
      get_tool_signature_def get_session_signature_def get_content_signature_def unexpired_def spec_lookup_def)

abbreviation cache_tools :: "(nanos \<times> string \<times> string) list \<Rightarrow> signature_cache \<Rightarrow> signature_cache" where
  "cache_tools es \<equiv> fold (\<lambda>(t, k, v). cache_tool_signature t k v) es"

abbreviation cache_sessions :: "(nanos \<times> string \<times> string) list \<Rightarrow> signature_cache \<Rightarrow> signature_cache" where
  "cache_sessions es \<equiv> fold (\<lambda>(t, k, v). cache_session_signature t k v) es"

abbreviation cache_contents ::
  "(string \<Rightarrow> string) \<Rightarrow> (nanos \<times> string \<times> string \<times> string) list \<Rightarrow> signature_cache \<Rightarrow> signature_cache" where
  "cache_contents sha es \<equiv> fold (\<lambda>(t, k, v). cache_content_signature sha t k (fst v) (snd v)) es"

text \<open>
  Claim C29: the caches implement maps that never forget. However many signatures are stored, a lookup in
  the cache of tools or of contents gives the latest signature stored for this tool or for a content
  of the same hash, if it is no older than seven days, and nothing otherwise; the clean-up at the size
  limits is never noticed.
\<close>

theorem caches_implement_maps:
  assumes "timed 0 es" and "last_time 0 es \<le> now" and "timed 0 cs" and "last_time 0 cs \<le> now"
  shows "get_tool_signature now tool (cache_tools es new_cache)
      = spec_lookup SIGNATURE_TTL as_is now (latest as_is tool_ok es) tool
    \<and> get_content_signature sha now body (cache_contents sha cs new_cache)
      = spec_lookup SIGNATURE_TTL (compute_content_hash sha) now (latest (compute_content_hash sha) content_ok cs) body"
  using tool.run_lookup [OF new_cache_agrees(1) assms(1,2), of tool]
    content.run_lookup [OF new_cache_agrees(3) assms(3,4), of sha body] by (simp add: spec_run_latest)

theorem caches_implement_maps_witness:
  "get_tool_signature (secs 700000) ''t'' (cache_tools [(0, ''t'', replicate 50 CHR ''a''), (secs 100000, ''t'', replicate 50 CHR ''b''),
      (secs 200000, ''u'', replicate 50 CHR ''c'')] new_cache) = Some (replicate 50 CHR ''b'')"
proof -
  let ?es = "[(0, ''t'', replicate 50 CHR ''a''), (secs 100000, ''t'', replicate 50 CHR ''b''), (secs 200000, ''u'', replicate 50 CHR ''c'')]"
  have "get_tool_signature (secs 700000) ''t'' (cache_tools ?es new_cache)
      = spec_lookup SIGNATURE_TTL as_is (secs 700000) (latest as_is tool_ok ?es) ''t''"
    using caches_implement_maps [of ?es "secs 700000" "[]"] by simp
  also have "\<dots> = Some (replicate 50 CHR ''b'')"
    by (simp add: spec_lookup_def tool_ok_def MIN_SIGNATURE_LENGTH_def SIGNATURE_TTL_def secs_def)
  finally show ?thesis .
qed

text \<open>A session's entry keeps the longest signature, as the older slot does.\<close>

definition session_sigs :: "string \<Rightarrow> (nanos \<times> string \<times> string) list \<Rightarrow> string list" where
  "session_sigs sid es = map (\<lambda>(_, _, v). v) (filter (\<lambda>(_, k, v). k = sid \<and> MIN_SIGNATURE_LENGTH \<le> length v) es)"

lemma session_sigs_snoc:
  "session_sigs sid (es @ [(t, k, v)])
     = session_sigs sid es @ (if k = sid \<and> MIN_SIGNATURE_LENGTH \<le> length v then [v] else [])"
  by (simp add: session_sigs_def)

lemma session_spec_longest:
  assumes "timed t0 es" and "last_time t0 es \<le> t0 + ttl" and "\<And>v t. m sid = Some (v, t) \<Longrightarrow> t0 \<le> t"
  shows "map_option fst (fold (spec_store ttl as_is session_accepts) es m sid)
      = fold store_thought_signature (session_sigs sid es) (map_option fst (m sid))
    \<and> (\<forall>v t. fold (spec_store ttl as_is session_accepts) es m sid = Some (v, t) \<longrightarrow> t0 \<le> t)"
  using assms
proof (induction es arbitrary: m rule: rev_induct)
  case Nil
  then show ?case by (auto simp: session_sigs_def)
next
  case (snoc e es)
  have split: "timed t0 (es @ [(t, x)]) \<longleftrightarrow> timed t0 es \<and> last_time t0 es \<le> t" for t x
    by (induction es arbitrary: t0) auto
  have last: "last_time t0 (es @ [(t, x)]) = t" for t x by (induction es arbitrary: t0) auto
  obtain t k v where e: "e = (t, k, v)" by (metis prod_cases3)
  define M where "M = fold (spec_store ttl as_is session_accepts) es m"
  have run: "fold (spec_store ttl as_is session_accepts) (es @ [e]) m = spec_store ttl as_is session_accepts (t, k, v) M"
    by (simp only: M_def e fold_append fold.simps comp_apply id_apply)
  from snoc.prems have t: "timed t0 es" "last_time t0 es \<le> t" "t \<le> t0 + ttl" by (auto simp: e split last)
  from t have "last_time t0 es \<le> t0 + ttl" by linarith
  have IH0: "map_option fst (M sid) = fold store_thought_signature (session_sigs sid es) (map_option fst (m sid))
      \<and> (\<forall>v t. M sid = Some (v, t) \<longrightarrow> t0 \<le> t)"
    unfolding M_def by (rule snoc.IH [OF t(1) \<open>last_time t0 es \<le> t0 + ttl\<close>]) (rule snoc.prems(3))
  have fresh: "spec_lookup ttl as_is t M sid = map_option fst (M sid)"
    using IH0 t(3) by (auto simp: spec_lookup_def split: option.split)
  have "t0 \<le> t" using timed_le_last [OF t(1)] t(2) by simp
  with IH0 fresh show ?case
    unfolding run
    by (cases "k = sid"; cases "M sid")
      (auto simp: e spec_store_step session_accepts_def session_sigs_snoc store_thought_signature_def [of v])
qed

lemma slot_keeps_longest:
  "fold store_thought_signature ss r = Some s \<Longrightarrow> (\<forall>v \<in> set ss. length v \<le> length s)
     \<and> (\<forall>v. r = Some v \<longrightarrow> length v \<le> length s) \<and> (s \<in> set ss \<or> r = Some s)"
proof (induction ss arbitrary: r)
  case (Cons v ss)
  from Cons.IH [of "store_thought_signature v r"] Cons.prems show ?case
    by (auto simp: store_thought_signature_def split: option.splits if_splits)
qed simp

lemma slot_empty: "fold store_thought_signature ss r = None \<Longrightarrow> ss = [] \<and> r = None"
proof (induction ss arbitrary: r)
  case (Cons v ss)
  then have "store_thought_signature v r = None" by simp
  then show ?case by (auto simp: store_thought_signature_def split: option.splits if_splits)
qed simp

text \<open>
  Note: within seven days, the signature of a session is the longest one stored for it. Whatever is
  stored for this and other sessions, a lookup gives a signature stored for the session, of at
  least 50 bytes and no shorter than any other; only if there is none it gives nothing.
\<close>

theorem session_keeps_longest:
  fixes sid :: string
  assumes "timed t0 es" and "last_time t0 es \<le> now" and "now \<le> t0 + SIGNATURE_TTL"
  defines "sigs \<equiv> session_sigs sid es"
  shows "case get_session_signature now sid (cache_sessions es new_cache) of
      None \<Rightarrow> sigs = []
    | Some s \<Rightarrow> s \<in> set sigs \<and> (\<forall>v \<in> set sigs. length v \<le> length s)"
proof -
  have "session.agrees t0 new_cache Map.empty"
    by (rule session.agrees_later [OF new_cache_agrees(2)]) simp
  from session.run_lookup [OF this assms(1,2), of sid]
  have "get_session_signature now sid (cache_sessions es new_cache)
      = spec_lookup SIGNATURE_TTL as_is now (fold (spec_store SIGNATURE_TTL as_is session_accepts) es Map.empty) sid" by simp
  moreover have "last_time t0 es \<le> t0 + SIGNATURE_TTL" using assms(2,3) by simp
  note session_spec_longest [OF assms(1) this, of Map.empty sid]
  ultimately have "get_session_signature now sid (cache_sessions es new_cache) = fold store_thought_signature sigs None"
    using assms(3) by (fastforce simp: spec_lookup_def sigs_def split: option.split)
  then show ?thesis
    using slot_keeps_longest [of sigs None] slot_empty [of sigs None] by (auto split: option.split)
qed

theorem session_keeps_longest_witness:
  "get_session_signature 9 ''s'' (cache_sessions
     [(1, ''s'', replicate 51 CHR ''a''), (2, ''s'', replicate 50 CHR ''b''), (3, ''r'', replicate 60 CHR ''c'')] new_cache)
   = Some (replicate 51 CHR ''a'')"
  using session_keeps_longest [of 1
      "[(1, ''s'', replicate 51 CHR ''a''), (2, ''s'', replicate 50 CHR ''b''), (3, ''r'', replicate 60 CHR ''c'')]" 9 "''s''"]
  by (auto simp: session_sigs_def MIN_SIGNATURE_LENGTH_def SIGNATURE_TTL_def secs_def split: option.splits)


section \<open>Limits\<close>

lemma length_enforce_le: "length (enforce_limit limit now m) \<le> length m"
  by (simp add: enforce_limit_def length_tretain_le)

lemma enforce_limit_live:
  "limit < length (enforce_limit limit now m) \<Longrightarrow> (k, e) \<in> set (enforce_limit limit now m) \<Longrightarrow> \<not> is_expired now e"
  by (auto simp: enforce_limit_def tretain_def split: if_splits)

lemma enforce_limit_id: "(\<And>k e. (k, e) \<in> set m \<Longrightarrow> \<not> is_expired now e) \<Longrightarrow> enforce_limit limit now m = m"
  by (auto simp: enforce_limit_def intro: tretain_all)

lemma tput_new: "k \<notin> tkeys m \<Longrightarrow> tput k v m = m @ [(k, v)]"
  unfolding tput_def by (induction m) auto

definition tool_name :: "nat \<Rightarrow> string" where
  "tool_name i = replicate i CHR ''x''"

lemma many_tools:
  fixes n :: nat and t :: nanos
  assumes "MIN_SIGNATURE_LENGTH \<le> length sig"
  defines "m \<equiv> tool_signatures (fold (\<lambda>i. cache_tool_signature t (tool_name i) sig) [0..<n] new_cache)"
  shows "twf m \<and> length m = n \<and> (\<forall>(k, e) \<in> set m. e = new_entry t sig \<and> length k < n)"
  unfolding m_def
proof (induction n)
  case 0
  then show ?case by (simp add: new_cache_def)
next
  case (Suc n)
  let ?c = "fold (\<lambda>i. cache_tool_signature t (tool_name i) sig) [0..<n] new_cache"
  let ?m = "tput (tool_name n) (new_entry t sig) (tool_signatures ?c)"
  from Suc have IH: "twf (tool_signatures ?c)" "length (tool_signatures ?c) = n"
    "(k, e) \<in> set (tool_signatures ?c) \<Longrightarrow> e = new_entry t sig \<and> length k < n" for k e by auto
  have new: "tool_name n \<notin> tkeys (tool_signatures ?c)" using IH(3) by (fastforce simp: tool_name_def)
  have put: "?m = tool_signatures ?c @ [(tool_name n, new_entry t sig)]" using new by (rule tput_new)
  have entries: "(k, e) \<in> set ?m \<Longrightarrow> e = new_entry t sig \<and> length k < Suc n" for k e
  proof -
    assume "(k, e) \<in> set ?m"
    then have "(k, e) \<in> set (tool_signatures ?c) \<or> k = tool_name n \<and> e = new_entry t sig" unfolding put by auto
    then show ?thesis using IH(3) [of k e] by (auto simp: tool_name_def)
  qed
  have live: "(k, e) \<in> set ?m \<Longrightarrow> \<not> is_expired t e" for k e
    using entries [of k e] by (auto simp: new_entry_def is_expired_def duration_since_def)
  have "tool_signatures (cache_tool_signature t (tool_name n) sig ?c) = ?m"
    using assms(1) by (simp add: cache_tool_signature_def enforce_limit_id [OF live])
  moreover have "twf ?m" using IH(1) by simp
  moreover have "length ?m = Suc n" using IH(2) by (simp add: put)
  ultimately show ?case using entries by auto
qed

text \<open>
  Note: the limits are soft. Any number of tool signatures that arrive within seven days is kept,
  whatever the limit of 500; and once more than 500 have grown older than seven days, the next
  signature stored drops them all.
\<close>

theorem tool_limit_is_soft:
  fixes n :: nat and t t' :: nanos
  assumes "MIN_SIGNATURE_LENGTH \<le> length sig"
  defines "c \<equiv> fold (\<lambda>i. cache_tool_signature t (tool_name i) sig) [0..<n] new_cache"
  shows "length (tool_signatures c) = n
    \<and> (500 \<le> n \<longrightarrow> t + SIGNATURE_TTL < t' \<longrightarrow>
         length (tool_signatures (cache_tool_signature t' (tool_name n) sig c)) = 1)"
proof -
  note many = many_tools [OF assms(1), of t n, folded c_def]
  have "length (tool_signatures (cache_tool_signature t' (tool_name n) sig c)) = 1"
    if "500 \<le> n" "t + SIGNATURE_TTL < t'"
  proof -
    let ?m = "tool_signatures c"
    have new: "tool_name n \<notin> fst ` set ?m" using many by (fastforce simp: tool_name_def)
    then have put: "tput (tool_name n) (new_entry t' sig) ?m = ?m @ [(tool_name n, new_entry t' sig)]"
      by (rule tput_new)
    have old: "filter (\<lambda>(_, e). \<not> is_expired t' e) ?m = []"
      using many that(2) by (fastforce simp: filter_empty_conv new_entry_def is_expired_def duration_since_def)
    have "\<not> is_expired t' (new_entry t' sig)" by (simp add: new_entry_def is_expired_def duration_since_def)
    with old that many assms(1) show ?thesis
      by (simp add: cache_tool_signature_def put enforce_limit_def TOOL_CACHE_LIMIT_def tretain_def)
  qed
  with many show ?thesis by blast
qed

theorem tool_limit_is_soft_witness:
  "length (tool_signatures (fold (\<lambda>i. cache_tool_signature 3 (tool_name i) (replicate 50 CHR ''s'')) [0..<501] new_cache)) = 501
   \<and> length (tool_signatures (cache_tool_signature (secs 604801) (tool_name 501) (replicate 50 CHR ''s'')
       (fold (\<lambda>i. cache_tool_signature 3 (tool_name i) (replicate 50 CHR ''s'')) [0..<501] new_cache))) = 1"
  using tool_limit_is_soft [of "replicate 50 CHR ''s''" 3 501 "secs 604801"]
  by (simp add: MIN_SIGNATURE_LENGTH_def SIGNATURE_TTL_def secs_def)

text \<open>The family of a signature is found however old it is, until a clean-up drops it.\<close>

lemma family_ignores_age:
  "MIN_SIGNATURE_LENGTH \<le> length sig \<Longrightarrow> length (thinking_families c) < FAMILY_CACHE_LIMIT
   \<Longrightarrow> get_signature_family sig (cache_thinking_family t sig family c) = Some family"
  by (simp add: cache_thinking_family_def get_signature_family_def enforce_limit_def length_tput
      FAMILY_CACHE_LIMIT_def new_entry_def)

section \<open>Memory and database\<close>

lemma restarted_session:
  assumes "tget (session_rows db) sid = Some (sig, u)"
  shows "\<exists>c'. get_session_signature_with_db True now sid (set_db_pool db new_cache) = (Some sig, c')
    \<and> get_session_signature now sid c' = Some sig"
  using assms by (simp add: get_session_signature_with_db_def set_db_pool_def new_cache_def unexpired_def
      db_get_session_signature_def get_session_signature_def new_entry_def is_expired_def duration_since_def)

text \<open>
  Claim C30: a signature survives a restart. If a session's signature was accepted and its spawned write
  has run, and no other write of a signature ran between this write and the restart, then a new process on the
  same database finds it, at any later time, although in memory it would have expired after seven days; the
  answer is put in memory as if it were new. (A write of the same session that was spawned earlier
  but runs later replaces what the new process finds: \<open>spawned_writes_race\<close>.)
\<close>

theorem session_survives_restart:
  fixes t' :: nanos
  assumes "db_pool c = Some db" and "session_accepts sid (get_session_signature t sid c) sig"
  defines "stored \<equiv> run_spawned True t' (length (spawned c)) (cache_session_signature t sid sig c)"
  shows "\<exists>db' c'. db_pool stored = Some db' \<and> spawned stored = spawned c
    \<and> get_session_signature_with_db True now sid (set_db_pool db' new_cache) = (Some sig, c')
    \<and> get_session_signature now sid c' = Some sig"
proof -
  have store: "(case tget (session_signatures c) sid of None \<Rightarrow> True
      | Some e \<Rightarrow> is_expired t e \<or> length (ce_data e) < length sig)" "MIN_SIGNATURE_LENGTH \<le> length sig"
    using assms(2) by (simp_all add: session_accepts_def get_session_signature_def session_should_store)
  then have spawn: "db_pool (cache_session_signature t sid sig c) = Some db"
    "spawned (cache_session_signature t sid sig c) = spawned c @ [WriteSession sid sig]"
    using assms(1) by (simp_all add: cache_session_signature_def spawn_write_def)
  let ?db = "store_session_signature t' sid sig db"
  have "db_pool stored = Some ?db" "spawned stored = spawned c"
    by (simp_all add: stored_def run_spawned_def spawn)
  moreover have "tget (session_rows ?db) sid = Some (sig, t')" by (simp add: store_session_signature_def)
  note restarted_session [OF this, of now]
  ultimately show ?thesis by blast
qed

definition empty_db :: signature_db where
  "empty_db = \<lparr>thinking_signatures = [], session_rows = []\<rparr>"

theorem session_survives_restart_witness:
  "\<exists>db' c'. db_pool (run_spawned True 9 0 (cache_session_signature 5 ''s'' (replicate 50 CHR ''a'') (set_db_pool empty_db new_cache)))
      = Some db'
    \<and> get_session_signature_with_db True (secs 9999999) ''s'' (set_db_pool db' new_cache)
      = (Some (replicate 50 CHR ''a''), c')"
  using session_survives_restart [of "set_db_pool empty_db new_cache" empty_db "''s''" 5 "replicate 50 CHR ''a''" 9 "secs 9999999"]
  by (auto simp: set_db_pool_def new_cache_def session_accepts_def get_session_signature_def unexpired_def MIN_SIGNATURE_LENGTH_def)

text \<open>
  Note: the order of the spawned writes is not the order of the stores. When two signatures of a
  session are stored, the second one longer, memory holds the longer one; but the two writes
  run as independent tasks, and if the first runs last, the database holds the shorter one, which
  is what the next process gets.
\<close>

theorem spawned_writes_race:
  assumes "db_pool c = Some db" and "spawned c = []" and "tget (session_signatures c) sid = None"
    and "50 \<le> length short" and "length short < length long" and "t1 \<le> t2" and "t2 \<le> now" and "now \<le> t2 + SIGNATURE_TTL"
    and "twf (session_signatures c)"
  defines "both \<equiv> cache_session_signature t2 sid long (cache_session_signature t1 sid short c)"
  shows "get_session_signature now sid both = Some long
    \<and> (\<exists>db'. db_pool (run_spawned True u 0 (run_spawned True u 1 both)) = Some db'
         \<and> fst (get_session_signature_with_db True v sid (set_db_pool db' new_cache)) = Some short)
    \<and> (\<exists>db'. db_pool (run_spawned True u 0 (run_spawned True u 0 both)) = Some db'
         \<and> fst (get_session_signature_with_db True v sid (set_db_pool db' new_cache)) = Some long)"
proof -
  let ?c1 = "cache_session_signature t1 sid short c"
  let ?m = "enforce_limit SESSION_CACHE_LIMIT t1 (tput sid (new_entry t1 short) (session_signatures c))"
  have c1: "session_signatures ?c1 = ?m" "db_pool ?c1 = Some db" "spawned ?c1 = [WriteSession sid short]"
    using assms(1-4) by (simp_all add: cache_session_signature_def spawn_write_def MIN_SIGNATURE_LENGTH_def)
  have old: "tget ?m sid = Some (new_entry t1 short)"
    using tget_tretain [OF twf_tput [OF assms(9), of sid "new_entry t1 short"], of "\<lambda>_ e. \<not> is_expired t1 e" sid]
    by (simp add: enforce_limit_def new_entry_def is_expired_def duration_since_def del: map_of_eq_Some_iff)
  then have both: "session_signatures both = enforce_limit SESSION_CACHE_LIMIT t2 (tput sid (new_entry t2 long) ?m)"
    "db_pool both = Some db" "spawned both = [WriteSession sid short, WriteSession sid long]"
    using assms(4,5) c1 by (simp_all add: both_def cache_session_signature_def [of t2] spawn_write_def
        MIN_SIGNATURE_LENGTH_def new_entry_def)
  have "get_session_signature now sid both = Some long"
  proof -
    have "twf (tput sid (new_entry t2 long) ?m)" using assms(9) by simp
    with assms(7,8) show ?thesis by (simp only: get_session_signature_def both unexpired_limit) (simp add: unexpired_tput)
  qed
  moreover have "db_pool (run_spawned True u 0 (run_spawned True u 1 both))
      = Some (store_session_signature u sid short (store_session_signature u sid long db))"
    "db_pool (run_spawned True u 0 (run_spawned True u 0 both))
      = Some (store_session_signature u sid long (store_session_signature u sid short db))"
    by (simp_all add: run_spawned_def both)
  moreover have "tget (session_rows (store_session_signature u sid s db')) sid = Some (s, u)" for s db'
    by (simp add: store_session_signature_def)
  note restarted_session [OF this, of v]
  ultimately show ?thesis by (metis fst_conv)
qed

theorem spawned_writes_race_witness:
  "get_session_signature 7 ''s'' (cache_session_signature 6 ''s'' (replicate 60 CHR ''b'')
      (cache_session_signature 5 ''s'' (replicate 50 CHR ''a'') (set_db_pool empty_db new_cache))) = Some (replicate 60 CHR ''b'')"
  by (rule spawned_writes_race [where db = empty_db, THEN conjunct1])
    (simp_all add: set_db_pool_def new_cache_def SIGNATURE_TTL_def secs_def)

text \<open>
  Note: an expired entry hides the database from the preload. A content whose entry in memory has
  expired is skipped by the preload although the database has its signature, so the lookup after
  the preload finds nothing; the lookup that asks the database itself would have found it.
\<close>

theorem preload_skips_expired:
  assumes "tget (content_signatures c) h = Some e" and "is_expired now e" and "h = compute_content_hash sha content"
    and "db_pool c = Some db" and "tget (thinking_signatures db) h = Some (r, used)"
  shows "get_content_signature sha now content (preload_signatures_from_db up now [h] c) = None
    \<and> fst (get_content_signature_with_db sha True now content c) = Some r"
  using assms(1,2,4,5) unfolding assms(3)
  by (simp add: preload_signatures_from_db_def preload_one_def get_content_signature_def
      get_content_signature_with_db_def unexpired_def fetch_content_def db_get_signature_def Let_def)

theorem preload_skips_expired_witness:
  "get_content_signature id (secs 700000) ''text'' (preload_signatures_from_db (\<lambda>_. True) (secs 700000) [''ch-text'']
      (new_cache\<lparr>content_signatures := [(''ch-text'', new_entry 0 (''sig'', ''gemini''))],
        db_pool := Some (empty_db\<lparr>thinking_signatures := [(''ch-text'', ((''sig'', ''gemini''), 0))]\<rparr>)\<rparr>)) = None"
  by (rule preload_skips_expired [where e = "new_entry 0 (''sig'', ''gemini'')" and r = "(''sig'', ''gemini'')"
        and used = 0 and db = "empty_db\<lparr>thinking_signatures := [(''ch-text'', ((''sig'', ''gemini''), 0))]\<rparr>", THEN conjunct1])
    (simp_all add: new_cache_def compute_content_hash_def new_entry_def is_expired_def duration_since_def SIGNATURE_TTL_def secs_def)


end
