(* ===== verification/Proxy_Pool.thy ===== *)
theory Proxy_Pool
  imports Rust_Strings
begin

text \<open>
  The pool of outgoing proxies, \<open>crates/antigravity-core/src/proxy/proxy_pool.rs\<close>, and the choice of the
  HTTP client for an account, \<open>get_client_for_account\<close> and \<open>get_effective_proxy_url\<close> of
  \<open>proxy/upstream/client/mod.rs\<close>. Clients are values of a parameter type; parsing a URL, building a
  client for a proxy and the standard hash of a string are the record \<open>http_env\<close>.
\<close>

section \<open>Configuration\<close>

datatype upstream_proxy_mode = Direct | System | Custom | PoolMode

datatype proxy_rotation_strategy = RoundRobin | Random | PerAccount

record upstream_proxy_config =
  pc_mode :: upstream_proxy_mode
  pc_enabled :: bool
  pc_url :: string
  pc_proxy_urls :: "string list"
  pc_rotation_strategy :: proxy_rotation_strategy
  pc_enforce_proxy :: bool

definition default_proxy_config :: upstream_proxy_config where
  "default_proxy_config = \<lparr>pc_mode = Direct, pc_enabled = False, pc_url = [], pc_proxy_urls = [],
     pc_rotation_strategy = RoundRobin, pc_enforce_proxy = False\<rparr>"

record 'c http_env =
  url_error :: "string \<Rightarrow> string option"       \<comment> \<open>\<open>url::Url::parse\<close>: the error, if any\<close>
  proxy_client :: "string \<Rightarrow> string + 'c"      \<comment> \<open>\<open>reqwest\<close>: a client that uses this proxy\<close>
  string_hash :: "string \<Rightarrow> u64"               \<comment> \<open>\<open>DefaultHasher\<close>\<close>

section \<open>Proxy URLs\<close>

text \<open>\<open>splitn(n, ':')\<close>: at most \<open>n\<close> parts, the last one with the rest.\<close>

fun splitn :: "nat \<Rightarrow> string \<Rightarrow> string list" where
  "splitn 0 s = []"
| "splitn (Suc 0) s = [s]"
| "splitn (Suc (Suc n)) s =
     (case dropWhile (\<lambda>c. c \<noteq> CHR '':'') s of
        [] \<Rightarrow> [s]
      | _ # rest \<Rightarrow> takeWhile (\<lambda>c. c \<noteq> CHR '':'') s # splitn (Suc n) rest)"

definition invalid_port :: "string \<Rightarrow> string \<Rightarrow> string" where
  "invalid_port port trimmed = ''Invalid port '' @ [CHR 0x27] @ port @ [CHR 0x27] @ '' in proxy '' @ [CHR 0x27] @ trimmed @ [CHR 0x27]"

definition parse_proxy_url :: "('c, 'e) http_env_scheme \<Rightarrow> string \<Rightarrow> string + string" where
  "parse_proxy_url env raw =
     (let trimmed = trim raw
      in if trimmed = [] then Inl ''Empty proxy URL''
         else if starts_with trimmed ''http://'' \<or> starts_with trimmed ''https://''
                 \<or> starts_with trimmed ''socks5://'' \<or> starts_with trimmed ''socks5h://''
         then (case url_error env trimmed of
                 Some e \<Rightarrow> Inl (''Invalid proxy URL '' @ [CHR 0x27] @ trimmed @ [CHR 0x27] @ '': '' @ e)
               | None \<Rightarrow> Inr trimmed)
         else
           (case splitn 4 trimmed of
              [ip, port, user, pass] \<Rightarrow>
                if parse_u16 port = None then Inl (invalid_port port trimmed)
                else Inr (''http://'' @ user @ '':'' @ pass @ ''@'' @ ip @ '':'' @ port)
            | [_, port] \<Rightarrow>
                if parse_u16 port = None then Inl (invalid_port port trimmed)
                else Inr (''http://'' @ trimmed)
            | _ \<Rightarrow> Inl (''Unrecognized proxy format '' @ [CHR 0x27] @ trimmed @ [CHR 0x27]
                     @ ''. Use http://host:port, socks5://host:port, or ip:port:user:pass'')))"

section \<open>The pool\<close>

record 'c proxy_pool =
  direct_client :: 'c
  clients :: "(string, 'c) table"
  proxy_urls :: "string list"
  rr_counter :: usize
  pp_strategy :: proxy_rotation_strategy
  pp_mode :: upstream_proxy_mode
  custom_url :: string

definition parsed_urls :: "('c, 'e) http_env_scheme \<Rightarrow> upstream_proxy_config \<Rightarrow> string list" where
  "parsed_urls env config =
     concat (map (\<lambda>raw. case parse_proxy_url env raw of Inr url \<Rightarrow> [url] | Inl _ \<Rightarrow> []) (pc_proxy_urls config))"

definition new_proxy_pool :: "('c, 'e) http_env_scheme \<Rightarrow> 'c \<Rightarrow> upstream_proxy_config \<Rightarrow> 'c proxy_pool" where
  "new_proxy_pool env direct config =
     \<lparr>direct_client = direct, clients = [], proxy_urls = parsed_urls env config, rr_counter = 0,
      pp_strategy = pc_rotation_strategy config, pp_mode = pc_mode config, custom_url = pc_url config\<rparr>"

definition update_config :: "('c, 'e) http_env_scheme \<Rightarrow> upstream_proxy_config \<Rightarrow> 'c proxy_pool \<Rightarrow> 'c proxy_pool" where
  "update_config env config p =
     (let new_parsed = parsed_urls env config;
          urls_changed = (proxy_urls p \<noteq> new_parsed);
          p = p\<lparr>pp_mode := pc_mode config, pp_strategy := pc_rotation_strategy config, custom_url := pc_url config\<rparr>
      in if urls_changed
         then p\<lparr>clients := tretain (\<lambda>url _. url \<in> set new_parsed) (clients p), proxy_urls := new_parsed\<rparr>
         else p)"

definition get_or_create_client ::
  "('c, 'e) http_env_scheme \<Rightarrow> string \<Rightarrow> 'c proxy_pool \<Rightarrow> (string + 'c) \<times> 'c proxy_pool" where
  "get_or_create_client env url p =
     (case tget (clients p) url of
        Some client \<Rightarrow> (Inr client, p)
      | None \<Rightarrow>
          (case proxy_client env url of
             Inl e \<Rightarrow> (Inl e, p)
           | Inr client \<Rightarrow> (Inr client, p\<lparr>clients := tput url client (clients p)\<rparr>)))"

definition no_entry :: string where "no_entry = map byte [240, 159, 154, 171]"
definition long_dash :: string where "long_dash = map byte [226, 128, 148]"

definition select_proxy_url ::
  "('c, 'e) http_env_scheme \<Rightarrow> nanos \<Rightarrow> string option \<Rightarrow> 'c proxy_pool
   \<Rightarrow> (string + string option) \<times> 'c proxy_pool" where
  "select_proxy_url env now account_email p =
     (case pp_mode p of
        Direct \<Rightarrow> (Inr None, p)
      | System \<Rightarrow> (Inr None, p)
      | Custom \<Rightarrow>
          if custom_url p = []
          then (Inl (''Custom proxy mode enabled but URL is empty '' @ long_dash @ '' refusing to send without proxy''), p)
          else (Inr (Some (custom_url p)), p)
      | PoolMode \<Rightarrow>
          let urls = proxy_urls p
          in if urls = []
             then (Inl (no_entry @ '' Proxy pool is EMPTY '' @ long_dash
                     @ '' refusing to send request without proxy. Add proxy URLs to config.''), p)
             else
               (case pp_strategy p of
                  RoundRobin \<Rightarrow>
                    (Inr (Some (urls ! (unat (rr_counter p) mod length urls))), p\<lparr>rr_counter := rr_counter p + 1\<rparr>)
                | Random \<Rightarrow> (Inr (Some (urls ! (subsec_nanos now mod length urls))), p)
                | PerAccount \<Rightarrow>
                    (case account_email of
                       Some email \<Rightarrow> (Inr (Some (urls ! (unat (string_hash env email) mod length urls))), p)
                     | None \<Rightarrow> (Inl (no_entry @ '' PerAccount proxy mode requires account email but none provided''), p))))"

definition get_client ::
  "('c, 'e) http_env_scheme \<Rightarrow> nanos \<Rightarrow> string option \<Rightarrow> 'c proxy_pool \<Rightarrow> (string + 'c) \<times> 'c proxy_pool" where
  "get_client env now account_email p =
     (case select_proxy_url env now account_email p of
        (Inl e, p) \<Rightarrow> (Inl e, p)
      | (Inr (Some url), p) \<Rightarrow> get_or_create_client env url p
      | (Inr None, p) \<Rightarrow> (Inr (direct_client p), p))"

record proxy_pool_stats =
  ps_mode :: upstream_proxy_mode
  ps_strategy :: proxy_rotation_strategy
  pool_size :: nat
  active_clients :: nat
  total_requests :: usize

definition stats :: "'c proxy_pool \<Rightarrow> proxy_pool_stats" where
  "stats p = \<lparr>ps_mode = pp_mode p, ps_strategy = pp_strategy p, pool_size = length (proxy_urls p),
     active_clients = length (clients p), total_requests = rr_counter p\<rparr>"

section \<open>The client for an account\<close>

text \<open>
  \<open>upstream_client\<close> holds the client without proxy, the pool, the base URLs, and the configuration it
  shares with the rest of the server; the pool has its own copy of the mode, refreshed by
  \<open>update_proxy_config\<close>.
\<close>

record 'c upstream_client =
  http_client :: 'c
  pool :: "'c proxy_pool"
  base_urls :: "string list"
  proxy_config :: upstream_proxy_config

definition update_proxy_config :: "('c, 'e) http_env_scheme \<Rightarrow> 'c upstream_client \<Rightarrow> 'c upstream_client" where
  "update_proxy_config env u = u\<lparr>pool := update_config env (proxy_config u) (pool u)\<rparr>"

definition get_client_for_account ::
  "('c, 'e) http_env_scheme \<Rightarrow> nanos \<Rightarrow> string option \<Rightarrow> string option \<Rightarrow> 'c upstream_client
   \<Rightarrow> (string + 'c) \<times> 'c upstream_client" where
  "get_client_for_account env now account_email account_proxy_url u =
     (case account_proxy_url of
        Some proxy_url \<Rightarrow>
          let (r, p) = get_or_create_client env proxy_url (pool u) in (r, u\<lparr>pool := p\<rparr>)
      | None \<Rightarrow>
          (case pc_mode (proxy_config u) of
             PoolMode \<Rightarrow> let (r, p) = get_client env now account_email (pool u) in (r, u\<lparr>pool := p\<rparr>)
           | Custom \<Rightarrow> let (r, p) = get_client env now account_email (pool u) in (r, u\<lparr>pool := p\<rparr>)
           | _ \<Rightarrow>
               if pc_enforce_proxy (proxy_config u)
               then (Inl (''enforce_proxy is enabled but no proxy available (mode is Direct/System, no per-account proxy_url) ''
                       @ long_dash @ '' blocking request to prevent IP leak''), u)
               else (Inr (http_client u), u)))"

definition get_effective_proxy_url ::
  "('c, 'e) http_env_scheme \<Rightarrow> nanos \<Rightarrow> string option \<Rightarrow> string option \<Rightarrow> 'c upstream_client
   \<Rightarrow> (string + string option) \<times> 'c upstream_client" where
  "get_effective_proxy_url env now account_email account_proxy_url u =
     (case account_proxy_url of
        Some url \<Rightarrow> (Inr (Some url), u)
      | None \<Rightarrow> let (r, p) = select_proxy_url env now account_email (pool u) in (r, u\<lparr>pool := p\<rparr>))"

text \<open>
  What the fingerprinted calls do before they send: first the client, then the proxy to report.
\<close>

definition connect ::
  "('c, 'e) http_env_scheme \<Rightarrow> nanos \<Rightarrow> string option \<Rightarrow> string option \<Rightarrow> 'c upstream_client
   \<Rightarrow> (string + 'c \<times> string option) \<times> 'c upstream_client" where
  "connect env now account_email account_proxy_url u =
     (case get_client_for_account env now account_email account_proxy_url u of
        (Inl e, u) \<Rightarrow> (Inl e, u)
      | (Inr client, u) \<Rightarrow>
          (case get_effective_proxy_url env now account_email account_proxy_url u of
             (Inl e, u) \<Rightarrow> (Inl e, u)
           | (Inr proxy, u) \<Rightarrow> (Inr (client, proxy), u)))"

section \<open>Parsing\<close>

lemma until_colon:
  "CHR '':'' \<notin> set a \<Longrightarrow> takeWhile (\<lambda>c. c \<noteq> CHR '':'') (a @ CHR '':'' # s) = a"
  "CHR '':'' \<notin> set a \<Longrightarrow> dropWhile (\<lambda>c. c \<noteq> CHR '':'') (a @ CHR '':'' # s) = CHR '':'' # s"
  by (induction a) auto

lemma splitn_colon:
  "CHR '':'' \<notin> set a \<Longrightarrow> splitn (Suc (Suc n)) (a @ CHR '':'' # s) = a # splitn (Suc n) s"
  by (simp add: until_colon)

lemma splitn_plain: "CHR '':'' \<notin> set a \<Longrightarrow> splitn (Suc n) a = [a]"
proof (cases n)
  case (Suc m)
  assume "CHR '':'' \<notin> set a"
  then have "dropWhile (\<lambda>c. c \<noteq> CHR '':'') a = []" unfolding dropWhile_eq_Nil_conv by blast
  then show ?thesis by (simp only: Suc splitn.simps list.case)
qed simp

lemma port_no_slash: "parse_u16 port \<noteq> None \<Longrightarrow> starts_with (port @ t) (CHR ''/'' # s) = False"
proof (cases port)
  case (Cons c cs)
  assume "parse_u16 port \<noteq> None"
  moreover have "\<not> is_digit CHR ''/''" by (simp add: is_digit_def)
  ultimately have "c \<noteq> CHR ''/''" using Cons by (auto simp: parse_u16_def parse_uint_def Let_def)
  with Cons show ?thesis by simp
qed (auto simp: parse_u16_def parse_uint_def)

lemma scheme_no_port:
  assumes "CHR '':'' \<notin> set a" and "parse_u16 port \<noteq> None" and "CHR '':'' \<notin> set scheme"
  shows "\<not> starts_with (a @ CHR '':'' # port @ t) (scheme @ ''://'')"
proof
  assume "starts_with (a @ CHR '':'' # port @ t) (scheme @ ''://'')"
  then obtain r where r: "a @ CHR '':'' # port @ t = scheme @ CHR '':'' # ''//'' @ r" by (auto simp: starts_with_iff)
  have "takeWhile (\<lambda>c. c \<noteq> CHR '':'') (a @ CHR '':'' # port @ t) = a"
    "takeWhile (\<lambda>c. c \<noteq> CHR '':'') (scheme @ CHR '':'' # ''//'' @ r) = scheme"
    using assms by (simp_all add: until_colon)
  with r have "a = scheme" by simp
  with r have "port @ t = ''//'' @ r" by simp
  with port_no_slash [OF assms(2), of t "''/''"] show False by simp
qed

lemma no_scheme:
  assumes "CHR '':'' \<notin> set a" and "parse_u16 port \<noteq> None"
  shows "\<not> starts_with (a @ CHR '':'' # port @ t) ''http://''" "\<not> starts_with (a @ CHR '':'' # port @ t) ''https://''"
    "\<not> starts_with (a @ CHR '':'' # port @ t) ''socks5://''" "\<not> starts_with (a @ CHR '':'' # port @ t) ''socks5h://''"
  using scheme_no_port [OF assms, of "''http''" t] scheme_no_port [OF assms, of "''https''" t]
    scheme_no_port [OF assms, of "''socks5''" t] scheme_no_port [OF assms, of "''socks5h''" t] by simp_all

lemma parse_proxy_url_scheme:
  assumes "parse_proxy_url env raw = Inr url"
  shows "starts_with url ''http://'' \<or> starts_with url ''https://'' \<or> starts_with url ''socks5://'' \<or> starts_with url ''socks5h://''"
  using assms by (auto simp: parse_proxy_url_def Let_def split: if_splits option.splits list.splits)

text \<open>
  Note: proxies in the format of the provider are converted. An entry \<open>ip:port:user:pass\<close> whose first
  three parts have no colon and whose port is a number gives \<open>http://user:pass@ip:port\<close>, the
  password may hold colons; \<open>ip:port\<close> gives \<open>http://ip:port\<close>; and whatever is accepted is a URL
  with one of the four schemes.
\<close>

theorem provider_format_converted:
  assumes "CHR '':'' \<notin> set ip" and "CHR '':'' \<notin> set port" and "CHR '':'' \<notin> set user" and "parse_u16 port \<noteq> None"
  shows "(trim raw = ip @ '':'' @ port @ '':'' @ user @ '':'' @ pass
      \<longrightarrow> parse_proxy_url env raw = Inr (''http://'' @ user @ '':'' @ pass @ ''@'' @ ip @ '':'' @ port))
    \<and> (trim raw = ip @ '':'' @ port \<longrightarrow> parse_proxy_url env raw = Inr (''http://'' @ ip @ '':'' @ port))
    \<and> (parse_proxy_url env raw = Inr url \<longrightarrow> starts_with url ''http://'' \<or> starts_with url ''https://''
      \<or> starts_with url ''socks5://'' \<or> starts_with url ''socks5h://'')"
proof (intro conjI impI)
  have four: "splitn 4 (ip @ CHR '':'' # port @ CHR '':'' # user @ CHR '':'' # pass) = [ip, port, user, pass]"
    using assms(1-3) by (simp add: numeral_eq_Suc splitn_colon del: splitn.simps(3))
  have two: "splitn 4 (ip @ CHR '':'' # port) = [ip, port]"
    using assms(1,2) by (simp add: numeral_eq_Suc splitn_colon splitn_plain del: splitn.simps(3))
  from assms(4) obtain n where n: "parse_u16 port = Some n" by auto
  show "parse_proxy_url env raw = Inr (''http://'' @ user @ '':'' @ pass @ ''@'' @ ip @ '':'' @ port)"
    if "trim raw = ip @ '':'' @ port @ '':'' @ user @ '':'' @ pass"
    using that no_scheme [OF assms(1,4), of "CHR '':'' # user @ CHR '':'' # pass"] four n
    by (simp add: parse_proxy_url_def del: splitn.simps)
  show "parse_proxy_url env raw = Inr (''http://'' @ ip @ '':'' @ port)" if "trim raw = ip @ '':'' @ port"
    using that no_scheme [OF assms(1,4), of "[]"] two n by (simp add: parse_proxy_url_def del: splitn.simps)
qed (rule parse_proxy_url_scheme)

theorem provider_format_converted_witness:
  "parse_proxy_url \<lparr>url_error = \<lambda>_. None, proxy_client = Inr, string_hash = \<lambda>_. 0\<rparr> ''1.2.3.4:80:me:a:b''
   = Inr ''http://me:a:b@1.2.3.4:80''"
proof -
  have "parse_u16 ''80'' \<noteq> None" by (simp add: parse_u16_def parse_uint_def is_digit_def dec_val_def digit_val_def)
  moreover have "trim ''1.2.3.4:80:me:a:b'' = ''1.2.3.4'' @ '':'' @ ''80'' @ '':'' @ ''me'' @ '':'' @ ''a:b''"
    by (simp add: trim_plain plain_char_def)
  ultimately show ?thesis
    using provider_format_converted [of "''1.2.3.4''" "''80''" "''me''" "''1.2.3.4:80:me:a:b''" "''a:b''",
        THEN conjunct1] by simp
qed

section \<open>Clients go through their proxy\<close>

text \<open>The cache of clients holds for every proxy a client that uses it.\<close>

definition pool_ok :: "('c, 'e) http_env_scheme \<Rightarrow> 'c proxy_pool \<Rightarrow> bool" where
  "pool_ok env p \<longleftrightarrow> twf (clients p) \<and> (\<forall>(url, c) \<in> set (clients p). proxy_client env url = Inr c)"

lemma pool_ok_iff:
  "pool_ok env p \<longleftrightarrow> twf (clients p) \<and> (\<forall>url c. tget (clients p) url = Some c \<longrightarrow> proxy_client env url = Inr c)"
proof (cases "twf (clients p)")
  case True
  from twf_ball_iff [OF True, of "\<lambda>url c. proxy_client env url = Inr c"] True show ?thesis
    by (simp add: pool_ok_def)
qed (simp add: pool_ok_def)

lemma pool_ok_get: "pool_ok env p \<Longrightarrow> tget (clients p) url = Some c \<Longrightarrow> proxy_client env url = Inr c"
  by (auto simp: pool_ok_def dest: map_of_SomeD)

lemma pool_ok_new: "pool_ok env (new_proxy_pool env d config)"
  by (simp add: pool_ok_def new_proxy_pool_def)

lemma pool_ok_update: "pool_ok env p \<Longrightarrow> pool_ok env (update_config env config p)"
  by (auto simp: pool_ok_def update_config_def Let_def) (auto simp: tretain_def)

lemma pool_ok_put: "pool_ok env p \<Longrightarrow> proxy_client env url = Inr c
    \<Longrightarrow> pool_ok env (p\<lparr>clients := tput url c (clients p)\<rparr>)"
  by (simp add: pool_ok_iff)

lemma get_or_create_client_ok:
  assumes "pool_ok env p" and "get_or_create_client env url p = (r, p')"
  shows "pool_ok env p' \<and> p'\<lparr>clients := clients p\<rparr> = p \<and> r = proxy_client env url"
  using assms pool_ok_put [of env p url]
  by (auto simp: get_or_create_client_def pool_ok_get split: option.splits sum.splits)

lemma select_proxy_url_pool:
  "select_proxy_url env now mail p = (r, p') \<Longrightarrow> \<exists>n. p' = p\<lparr>rr_counter := n\<rparr>"
  by (cases p) (auto simp: select_proxy_url_def Let_def split: upstream_proxy_mode.splits
      proxy_rotation_strategy.splits option.splits if_splits)

lemma select_proxy_url_strict:
  assumes "select_proxy_url env now mail p = (Inr r, p')"
  shows "case r of
      None \<Rightarrow> pp_mode p = Direct \<or> pp_mode p = System
    | Some url \<Rightarrow> (pp_mode p = Custom \<and> url = custom_url p \<and> url \<noteq> []) \<or> (pp_mode p = PoolMode \<and> url \<in> set (proxy_urls p))"
  using assms by (auto simp: select_proxy_url_def Let_def split: upstream_proxy_mode.splits
      proxy_rotation_strategy.splits option.splits if_splits)

lemma pool_ok_counter [simp]: "pool_ok env (p\<lparr>rr_counter := n\<rparr>) = pool_ok env p"
  by (simp add: pool_ok_def)

lemma get_client_ok:
  assumes "pool_ok env p" and "get_client env now mail p = (r, p')"
  shows "pool_ok env p'"
proof -
  obtain s q where sel: "select_proxy_url env now mail p = (s, q)" by force
  with select_proxy_url_pool have q: "pool_ok env q" using assms(1) by fastforce
  show ?thesis
    using assms(2) sel q get_or_create_client_ok [OF q]
    by (auto simp: get_client_def split: sum.splits option.splits)
qed

lemma get_client_proxied:
  assumes "pool_ok env p" and "get_client env now mail p = (Inr c, p')" and "pp_mode p = Custom \<or> pp_mode p = PoolMode"
  shows "\<exists>url. (url = custom_url p \<or> url \<in> set (proxy_urls p)) \<and> proxy_client env url = Inr c"
proof -
  obtain s q where sel: "select_proxy_url env now mail p = (s, q)" by force
  with select_proxy_url_pool have "pool_ok env q" using assms(1) by fastforce
  with sel assms select_proxy_url_strict [of env now mail p _ q] get_or_create_client_ok [of env q]
  show ?thesis by (fastforce simp: get_client_def split: sum.splits option.splits)
qed

text \<open>
  Note: an enforced proxy cannot be bypassed. If the configuration enforces a proxy, the pool has been
  updated to its mode and the cached clients are right, which every operation keeps, then whatever
  client a request gets was built for a proxy: the account's own, or else the custom one or
  one of the pool. If there is none, the request fails.
\<close>

theorem enforced_client_is_proxied:
  assumes "pool_ok env (pool u)" and "pp_mode (pool u) = pc_mode (proxy_config u)" and "pc_enforce_proxy (proxy_config u)"
    and "get_client_for_account env now mail own u = (r, u')"
  shows "pool_ok env (pool u') \<and> (case r of
      Inl _ \<Rightarrow> True
    | Inr client \<Rightarrow> \<exists>url. proxy_client env url = Inr client
        \<and> (case own of Some x \<Rightarrow> url = x | None \<Rightarrow> url = custom_url (pool u) \<or> url \<in> set (proxy_urls (pool u))))"
proof (cases own)
  case (Some x)
  obtain s q where "get_or_create_client env x (pool u) = (s, q)" by force
  with Some assms get_or_create_client_ok [OF assms(1) this] show ?thesis
    by (auto simp: get_client_for_account_def split: sum.split)
next
  case None
  obtain s q where get: "get_client env now mail (pool u) = (s, q)" by force
  with None assms get_client_ok [OF assms(1) get] get_client_proxied [OF assms(1), of now mail _ q] show ?thesis
    by (auto simp: get_client_for_account_def split: upstream_proxy_mode.splits sum.split)
qed

definition demo_env :: "string http_env" where
  "demo_env = \<lparr>url_error = \<lambda>_. None, proxy_client = \<lambda>url. Inr (''via '' @ url), string_hash = \<lambda>s. of_nat (length s)\<rparr>"

definition demo_client :: "upstream_proxy_mode \<Rightarrow> upstream_proxy_mode \<Rightarrow> string upstream_client" where
  "demo_client pool_mode mode =
     \<lparr>http_client = ''direct'',
      pool = \<lparr>direct_client = ''direct'', clients = [], proxy_urls = [''http://a'', ''http://b''], rr_counter = 0,
              pp_strategy = RoundRobin, pp_mode = pool_mode, custom_url = []\<rparr>,
      base_urls = [''https://up''],
      proxy_config = default_proxy_config\<lparr>pc_mode := mode, pc_enforce_proxy := True\<rparr>\<rparr>"

theorem enforced_client_is_proxied_witness:
  "\<exists>url. proxy_client demo_env url = Inr ''via http://a'' \<and> (url = [] \<or> url \<in> {''http://a'', ''http://b''})"
proof -
  have "get_client_for_account demo_env 0 None None (demo_client PoolMode PoolMode)
      = (Inr ''via http://a'', snd (get_client_for_account demo_env 0 None None (demo_client PoolMode PoolMode)))"
    by (simp add: get_client_for_account_def demo_client_def get_client_def select_proxy_url_def get_or_create_client_def
        demo_env_def)
  then show ?thesis
    using enforced_client_is_proxied [of demo_env "demo_client PoolMode PoolMode" 0 None None]
    by (fastforce simp: demo_client_def pool_ok_def)
qed


text \<open>
  Note: the enforcement depends on the pool's copy of the mode. After the shared configuration was
  switched to the pool of proxies and as long as \<open>update_proxy_config\<close> has not run, the pool
  still has its old mode; if that was the direct one, a request without an own proxy gets the direct client,
  although the configuration enforces a proxy.
\<close>

theorem stale_mode_leaks:
  assumes "pc_mode (proxy_config u) = PoolMode" and "pp_mode (pool u) = Direct"
  shows "fst (get_client_for_account env now mail None u) = Inr (direct_client (pool u))
    \<and> pp_mode (pool (update_proxy_config env u)) = PoolMode"
  using assms by (simp add: get_client_for_account_def get_client_def select_proxy_url_def update_proxy_config_def
      update_config_def Let_def)

theorem stale_mode_leaks_witness:
  "fst (get_client_for_account demo_env 0 (Some ''a@b'') None (demo_client Direct PoolMode)) = Inr ''direct''
   \<and> pc_enforce_proxy (proxy_config (demo_client Direct PoolMode))"
  using stale_mode_leaks [of "demo_client Direct PoolMode" demo_env 0 "Some ''a@b''"] by (simp add: demo_client_def)

section \<open>Rotation\<close>

primrec select_many ::
  "('c, 'e) http_env_scheme \<Rightarrow> (nanos \<times> string option) list \<Rightarrow> 'c proxy_pool
   \<Rightarrow> (string + string option) list \<times> 'c proxy_pool" where
  "select_many env [] p = ([], p)"
| "select_many env (e # es) p =
     (let (r, p) = select_proxy_url env (fst e) (snd e) p; (rs, p) = select_many env es p in (r # rs, p))"

lemma select_round_robin:
  assumes "pp_mode p = PoolMode" and "pp_strategy p = RoundRobin" and "proxy_urls p \<noteq> []"
  shows "select_proxy_url env now mail p =
    (Inr (Some (proxy_urls p ! (unat (rr_counter p) mod length (proxy_urls p)))), p\<lparr>rr_counter := rr_counter p + 1\<rparr>)"
  using assms by (simp add: select_proxy_url_def Let_def)

lemma select_many_round_robin:
  assumes "pp_mode p = PoolMode" and "pp_strategy p = RoundRobin" and "proxy_urls p \<noteq> []"
    and "unat (rr_counter p) + length es < 2 ^ 64"
  shows "fst (select_many env es p) =
    map (\<lambda>i. Inr (Some (proxy_urls p ! ((unat (rr_counter p) + i) mod length (proxy_urls p))))) [0..<length es]"
  using assms
proof (induction es arbitrary: p)
  case (Cons e es)
  let ?q = "p\<lparr>rr_counter := rr_counter p + 1\<rparr>"
  have c: "unat (rr_counter p + 1) = unat (rr_counter p) + 1" using Cons.prems(4) by (simp add: unat_word_ariths)
  have IH: "fst (select_many env es ?q) =
      map (\<lambda>i. Inr (Some (proxy_urls p ! ((unat (rr_counter p) + 1 + i) mod length (proxy_urls p))))) [0..<length es]"
    using Cons.IH [of ?q] Cons.prems c by simp
  have "[0..<length (e # es)] = 0 # map Suc [0..<length es]" by (simp add: map_Suc_upt upt_conv_Cons del: upt_Suc)
  with IH show ?case
    by (simp add: select_round_robin [OF Cons.prems(1-3)] split_beta comp_def del: upt_Suc)
qed simp

text \<open>
  Note: round robin is fair. Over any \<open>q * n\<close> requests to a pool of \<open>n\<close> different proxies, each proxy
  is selected exactly \<open>q\<close> times, wherever the counter stood, as long as it does not wrap.
\<close>

theorem round_robin_is_fair:
  assumes "pp_mode p = PoolMode" and "pp_strategy p = RoundRobin" and "distinct (proxy_urls p)"
    and "j < length (proxy_urls p)" and "length es = q * length (proxy_urls p)"
    and "unat (rr_counter p) + length es < 2 ^ 64"
  shows "length (filter (\<lambda>r. r = Inr (Some (proxy_urls p ! j))) (fst (select_many env es p))) = q"
proof -
  let ?n = "length (proxy_urls p)" and ?c = "unat (rr_counter p)"
  have ne: "proxy_urls p \<noteq> []" using assms(4) by auto
  have "proxy_urls p ! ((?c + i) mod ?n) = proxy_urls p ! j \<longleftrightarrow> (?c + i) mod ?n = j" for i
    using assms(3,4) ne by (simp add: nth_eq_iff_index_eq)
  then have "length (filter (\<lambda>r. r = Inr (Some (proxy_urls p ! j))) (fst (select_many env es p)))
      = length (filter (\<lambda>i. (?c + i) mod ?n = j) [0..<q * ?n])"
    using select_many_round_robin [OF assms(1,2) ne assms(6), of env] assms(5) by (simp add: filter_map comp_def)
  then show ?thesis using count_mod_run [OF assms(4)] by simp
qed

theorem round_robin_is_fair_witness:
  "length (filter (\<lambda>r. r = Inr (Some ''http://b''))
     (fst (select_many demo_env [(0, None), (0, None), (0, None), (0, None)] (pool (demo_client PoolMode PoolMode))))) = 2"
  using round_robin_is_fair [of "pool (demo_client PoolMode PoolMode)" 1 "[(0, None), (0, None), (0, None), (0, None)]" 2 demo_env]
  by (simp add: demo_client_def)

text \<open>The clients that a sequence of fingerprinted calls uses.\<close>

primrec connect_many ::
  "('c, 'e) http_env_scheme \<Rightarrow> (nanos \<times> string) list \<Rightarrow> 'c upstream_client \<Rightarrow> 'c list" where
  "connect_many env [] u = []"
| "connect_many env (e # es) u =
     (case connect env (fst e) (Some (snd e)) None u of
        (Inr (c, _), u) \<Rightarrow> c # connect_many env es u
      | (Inl _, u) \<Rightarrow> connect_many env es u)"

lemma connect_round_robin:
  assumes "pc_mode (proxy_config u) = PoolMode" and "pp_mode (pool u) = PoolMode" and "pp_strategy (pool u) = RoundRobin"
    and "proxy_urls (pool u) = urls" and "urls \<noteq> []" and "pool_ok env (pool u)" and "even (length urls)" and "even (unat (rr_counter (pool u)))"
    and "\<And>url. url \<in> set urls \<Longrightarrow> proxy_client env url = Inr (f url)"
  shows "\<exists>i px u'. connect env now mail None u = (Inr (f (urls ! i), px), u') \<and> i < length urls \<and> even i
    \<and> pc_mode (proxy_config u') = PoolMode \<and> pp_mode (pool u') = PoolMode \<and> pp_strategy (pool u') = RoundRobin
    \<and> proxy_urls (pool u') = urls \<and> pool_ok env (pool u') \<and> even (unat (rr_counter (pool u')))"
proof -
  let ?p = "pool u" and ?i = "unat (rr_counter (pool u)) mod length urls"
  let ?q = "?p\<lparr>rr_counter := rr_counter ?p + 1\<rparr>"
  have i: "?i < length urls" "even ?i" using assms(5,7,8) by (simp_all add: dvd_mod_iff)
  obtain s r where sr: "get_or_create_client env (urls ! ?i) ?q = (s, r)" by force
  have "pool_ok env ?q" using assms(6) by simp
  note got = get_or_create_client_ok [OF this sr]
  with sr have r: "get_or_create_client env (urls ! ?i) ?q = (proxy_client env (urls ! ?i), r)" by simp
  from got have r': "pool_ok env r" "r\<lparr>clients := clients ?q\<rparr> = ?q" by simp_all
  have keep: "pp_mode r = pp_mode ?q \<and> pp_strategy r = pp_strategy ?q \<and> proxy_urls r = proxy_urls ?q \<and> rr_counter r = rr_counter ?q"
    using arg_cong [OF r'(2), of pp_mode] arg_cong [OF r'(2), of pp_strategy] arg_cong [OF r'(2), of proxy_urls]
      arg_cong [OF r'(2), of rr_counter] by simp
  have "proxy_client env (urls ! ?i) = Inr (f (urls ! ?i))" using i assms(9) by simp
  then have client: "get_client_for_account env now mail None u = (Inr (f (urls ! ?i)), u\<lparr>pool := r\<rparr>)"
    using assms(1-5) r by (simp add: get_client_for_account_def get_client_def select_round_robin)
  have proxy: "get_effective_proxy_url env now mail None (u\<lparr>pool := r\<rparr>)
      = (Inr (Some (urls ! (unat (rr_counter r) mod length urls))), u\<lparr>pool := r\<lparr>rr_counter := rr_counter r + 1\<rparr>\<rparr>)"
    using keep assms(2-5) by (simp add: get_effective_proxy_url_def select_round_robin)
  have "even (unat (rr_counter ?p + 1 + 1))"
    using assms(8) by (simp add: unat_word_ariths dvd_mod_iff mod_simps)
  with client proxy i keep r'(1) assms(1-4) show ?thesis
    by (intro exI [of _ ?i]) (simp add: connect_def)
qed

text \<open>
  Note: half of the proxies stay idle. A fingerprinted call selects twice, once for the client and once for the
  proxy it reports, so with round robin over an even number of proxies, starting from a new pool, all
  requests go through the proxies at even positions, and the others are never used.
\<close>

theorem half_of_proxies_idle:
  assumes "pc_mode (proxy_config u) = PoolMode" and "pp_mode (pool u) = PoolMode" and "pp_strategy (pool u) = RoundRobin"
    and "proxy_urls (pool u) \<noteq> []" and "pool_ok env (pool u)" and "even (length (proxy_urls (pool u)))"
    and "rr_counter (pool u) = 0"
    and "\<And>url. url \<in> set (proxy_urls (pool u)) \<Longrightarrow> proxy_client env url = Inr (f url)"
  shows "length (connect_many env es u) = length es
    \<and> (\<forall>c \<in> set (connect_many env es u). \<exists>i < length (proxy_urls (pool u)). even i \<and> c = f (proxy_urls (pool u) ! i))"
proof -
  define urls where "urls = proxy_urls (pool u)"
  have ok: "length (connect_many env es u) = length es
      \<and> (\<forall>c \<in> set (connect_many env es u). \<exists>i < length urls. even i \<and> c = f (urls ! i))"
    if "pc_mode (proxy_config u) = PoolMode" "pp_mode (pool u) = PoolMode" "pp_strategy (pool u) = RoundRobin"
      "proxy_urls (pool u) = urls" "pool_ok env (pool u)" "even (unat (rr_counter (pool u)))" for u
    using that
  proof (induction es arbitrary: u)
    case (Cons e es)
    have ne: "urls \<noteq> []" "even (length urls)" "\<And>url. url \<in> set urls \<Longrightarrow> proxy_client env url = Inr (f url)"
      using assms by (simp_all add: urls_def)
    from connect_round_robin [OF Cons.prems(1-4) ne(1) Cons.prems(5) ne(2) Cons.prems(6) ne(3), of "fst e" "Some (snd e)"]
    obtain i px u' where "connect env (fst e) (Some (snd e)) None u = (Inr (f (urls ! i), px), u')" "i < length urls" "even i"
      and u': "pc_mode (proxy_config u') = PoolMode" "pp_mode (pool u') = PoolMode" "pp_strategy (pool u') = RoundRobin"
      "proxy_urls (pool u') = urls" "pool_ok env (pool u')" "even (unat (rr_counter (pool u')))" by blast
    with Cons.IH [OF u'] show ?case by auto
  qed simp
  show ?thesis using ok [of u] assms by (simp add: urls_def)
qed

theorem half_of_proxies_idle_witness:
  "length (connect_many demo_env [(0, ''x''), (1, ''y''), (2, ''z'')] (demo_client PoolMode PoolMode)) = 3
   \<and> ''via http://b'' \<notin> set (connect_many demo_env [(0, ''x''), (1, ''y''), (2, ''z'')] (demo_client PoolMode PoolMode))"
proof -
  let ?es = "[(0, ''x''), (1, ''y''), (2, ''z'')] :: (nanos \<times> string) list" and ?u = "demo_client PoolMode PoolMode"
  have urls: "proxy_urls (pool ?u) = [''http://a'', ''http://b'']" by (simp add: demo_client_def)
  have idle: "length (connect_many demo_env ?es ?u) = length ?es
      \<and> (\<forall>c \<in> set (connect_many demo_env ?es ?u). \<exists>i < length (proxy_urls (pool ?u)). even i
          \<and> c = ''via '' @ (proxy_urls (pool ?u) ! i))"
    by (rule half_of_proxies_idle [where f = "\<lambda>url. ''via '' @ url"]) (simp_all add: demo_client_def demo_env_def pool_ok_def)
  have "i = 0" if "i < length (proxy_urls (pool ?u))" "even i" for i using that by (cases i) (auto simp: urls)
  note zero = this
  have "''via http://b'' \<notin> set (connect_many demo_env ?es ?u)"
  proof
    assume "''via http://b'' \<in> set (connect_many demo_env ?es ?u)"
    with idle obtain i where "i < length (proxy_urls (pool ?u))" "even i" "''via http://b'' = ''via '' @ (proxy_urls (pool ?u) ! i)"
      by blast
    with zero [of i] show False by (simp add: urls)
  qed
  with idle show ?thesis by simp
qed


end
