(* ===== verification/Upstream.thy ===== *)
theory Upstream
  imports Proxy_Pool
begin

text \<open>
  Requests to the upstream service: the health of its endpoints (\<open>proxy/upstream/endpoint_health.rs\<close>), the
  loop over endpoints with one retry each (\<open>proxy/upstream/client/request_executor.rs\<close>) and the
  calls of \<open>proxy/upstream/client/mod.rs\<close> that choose a client and run the loop. What the network answers
  is the record \<open>upstream_env\<close>: the answer to the \<open>n\<close>-th request, and the time after \<open>n\<close> requests. The
  requests sent are recorded with the client they went through. Building the headers is a
  library call whose possible error is an argument; user agents and fingerprints do not matter here.
\<close>

section \<open>Health of an endpoint\<close>

record endpoint_health =
  failures :: u32
  last_failure :: "nanos option"

definition new_endpoint :: endpoint_health where
  "new_endpoint = \<lparr>failures = 0, last_failure = None\<rparr>"

definition endpoint_failure :: "nanos \<Rightarrow> endpoint_health \<Rightarrow> endpoint_health" where
  "endpoint_failure now h = h\<lparr>failures := failures h + 1, last_failure := Some now\<rparr>"

definition endpoint_success :: "endpoint_health \<Rightarrow> endpoint_health" where
  "endpoint_success h = h\<lparr>failures := 0\<rparr>"

definition should_skip :: "nanos \<Rightarrow> endpoint_health \<Rightarrow> bool" where
  "should_skip now h =
     (if failures h < 5 then False
      else (case last_failure h of Some t \<Rightarrow> elapsed now t < secs 30 | None \<Rightarrow> False))"

definition MAX_TRANSPORT_RETRIES_PER_ENDPOINT :: nat where
  "MAX_TRANSPORT_RETRIES_PER_ENDPOINT = 1"

section \<open>The loop over the endpoints\<close>

record ('c, 'r) upstream_env =
  respond :: "nat \<Rightarrow> 'c \<Rightarrow> string \<Rightarrow> string + 'r"   \<comment> \<open>answer to the \<open>n\<close>-th request\<close>
  status_of :: "'r \<Rightarrow> u16"
  time_after :: "nat \<Rightarrow> nanos"
  status_text :: "u16 \<Rightarrow> string"                  \<comment> \<open>\<open>StatusCode\<close> as printed\<close>

record 'c network =
  sent :: "('c \<times> string) list"
  health :: "(string, endpoint_health) table"

definition build_url :: "string \<Rightarrow> string \<Rightarrow> string option \<Rightarrow> string" where
  "build_url base_url method query_string =
     (case query_string of
        Some qs \<Rightarrow> base_url @ '':'' @ method @ ''?'' @ qs
      | None \<Rightarrow> base_url @ '':'' @ method)"

definition is_success :: "u16 \<Rightarrow> bool" where
  "is_success s \<longleftrightarrow> 200 \<le> s \<and> s < 300"

definition should_try_next_endpoint :: "u16 \<Rightarrow> bool" where
  "should_try_next_endpoint s \<longleftrightarrow> s = 429 \<or> s = 408 \<or> s = 404 \<or> (500 \<le> s \<and> s < 600)"

definition update_health :: "(endpoint_health \<Rightarrow> endpoint_health) \<Rightarrow> string \<Rightarrow> 'c network \<Rightarrow> 'c network" where
  "update_health f base w =
     w\<lparr>health := tput base (f (case tget (health w) base of Some h \<Rightarrow> h | None \<Rightarrow> new_endpoint)) (health w)\<rparr>"

definition post ::
  "('c, 'r, 'e) upstream_env_scheme \<Rightarrow> 'c \<Rightarrow> string \<Rightarrow> 'c network \<Rightarrow> (string + 'r) \<times> 'c network" where
  "post env client url w = (respond env (length (sent w)) client url, w\<lparr>sent := sent w @ [(client, url)]\<rparr>)"

definition net_time :: "('c, 'r, 'e) upstream_env_scheme \<Rightarrow> 'c network \<Rightarrow> nanos" where
  "net_time env w = time_after env (length (sent w))"

text \<open>What trying one endpoint leads to: an answer for the caller, or the next endpoint.\<close>

datatype 'r attempt = Return "string + 'r" | NextEndpoint string

function endpoint_loop ::
  "('c, 'r, 'e) upstream_env_scheme \<Rightarrow> 'c \<Rightarrow> string \<Rightarrow> string \<Rightarrow> bool \<Rightarrow> nat \<Rightarrow> 'c network
   \<Rightarrow> 'r attempt \<times> 'c network" where
  "endpoint_loop env client base_url url has_next transport_retries w =
     (case post env client url w of
        (Inr resp, w) \<Rightarrow>
          let status = status_of env resp
          in if is_success status then (Return (Inr resp), update_health endpoint_success base_url w)
             else if has_next \<and> should_try_next_endpoint status
             then (NextEndpoint (''Upstream '' @ base_url @ '' returned '' @ status_text env status), w)
             else (Return (Inr resp), w)
      | (Inl e, w) \<Rightarrow>
          let msg = ''HTTP request failed at '' @ base_url @ '': '' @ e
          in if transport_retries < MAX_TRANSPORT_RETRIES_PER_ENDPOINT
             then endpoint_loop env client base_url url has_next (transport_retries + 1) w
             else
               let w = update_health (endpoint_failure (net_time env w)) base_url w
               in if \<not> has_next then (Return (Inl msg), w) else (NextEndpoint msg, w))"
  by pat_completeness auto
termination
  by (relation "measure (\<lambda>(_, _, _, _, _, n, _). MAX_TRANSPORT_RETRIES_PER_ENDPOINT - n)") auto

declare endpoint_loop.simps [simp del]

definition skipped :: "('c, 'r, 'e) upstream_env_scheme \<Rightarrow> string \<Rightarrow> 'c network \<Rightarrow> bool" where
  "skipped env base_url w =
     (case tget (health w) base_url of Some h \<Rightarrow> should_skip (net_time env w) h | None \<Rightarrow> False)"

fun fallback_loop ::
  "('c, 'r, 'e) upstream_env_scheme \<Rightarrow> 'c \<Rightarrow> string \<Rightarrow> string option \<Rightarrow> string list \<Rightarrow> string option \<Rightarrow> 'c network
   \<Rightarrow> (string + 'r) \<times> 'c network" where
  "fallback_loop env client method query_string [] last_err w =
     (Inl (case last_err of Some e \<Rightarrow> e | None \<Rightarrow> ''All endpoints failed''), w)"
| "fallback_loop env client method query_string (base_url # rest) last_err w =
     (if skipped env base_url w then fallback_loop env client method query_string rest last_err w
      else
        (case endpoint_loop env client base_url (build_url base_url method query_string) (rest \<noteq> []) 0 w of
           (Return r, w) \<Rightarrow> (r, w)
         | (NextEndpoint e, w) \<Rightarrow> fallback_loop env client method query_string rest (Some e) w))"

definition execute_with_fallback ::
  "('c, 'r, 'e) upstream_env_scheme \<Rightarrow> 'c \<Rightarrow> string \<Rightarrow> string option \<Rightarrow> string list \<Rightarrow> 'c network
   \<Rightarrow> (string + 'r) \<times> 'c network" where
  "execute_with_fallback env client method query_string urls w =
     fallback_loop env client method query_string urls None w"

section \<open>The base URLs\<close>

definition default_upstream_urls :: "string list" where
  "default_upstream_urls =
     [''https://daily-cloudcode-pa.sandbox.googleapis.com/v1internal'',
      ''https://daily-cloudcode-pa.googleapis.com/v1internal'',
      ''https://cloudcode-pa.googleapis.com/v1internal'']"

text \<open>\<open>env_url\<close> is the variable \<open>ANTIGRAVITY_UPSTREAM_URL\<close>.\<close>

definition resolve_upstream_urls ::
  "('c, 'e) http_env_scheme \<Rightarrow> string option \<Rightarrow> string list option \<Rightarrow> string list" where
  "resolve_upstream_urls henv env_url explicit =
     (case explicit of
        Some urls \<Rightarrow> urls
      | None \<Rightarrow>
          (case env_url of
             Some raw \<Rightarrow>
               let url = rev (dropWhile (\<lambda>c. c = CHR ''/'') (rev (trim raw)))
               in if url = [] then default_upstream_urls
                  else if url_error henv url \<noteq> None then default_upstream_urls
                  else [url]
           | None \<Rightarrow> default_upstream_urls))"

definition new_upstream_client ::
  "('c, 'e) http_env_scheme \<Rightarrow> string option \<Rightarrow> 'c \<Rightarrow> upstream_proxy_config \<Rightarrow> string list option \<Rightarrow> 'c upstream_client" where
  "new_upstream_client henv env_url client config explicit =
     \<lparr>http_client = client, pool = new_proxy_pool henv client config,
      base_urls = resolve_upstream_urls henv env_url explicit, proxy_config = config\<rparr>"

section \<open>The calls\<close>

text \<open>
  \<open>header_error\<close> is the error of building the headers, if any. \<open>env\<close> describes the network, \<open>henv\<close> the
  building of clients; \<open>now\<close> is the time when the client is selected.
\<close>

definition call_fingerprinted ::
  "('c, 'r, 'e) upstream_env_scheme \<Rightarrow> ('c, 'h) http_env_scheme \<Rightarrow> nanos \<Rightarrow> string option \<Rightarrow> string \<Rightarrow> string option
   \<Rightarrow> string \<Rightarrow> string option \<Rightarrow> 'c upstream_client \<Rightarrow> 'c network
   \<Rightarrow> (string + 'r) \<times> 'c upstream_client \<times> 'c network" where
  "call_fingerprinted env henv now header_error method query_string account_email account_proxy_url u w =
     (case header_error of
        Some e \<Rightarrow> (Inl e, u, w)
      | None \<Rightarrow>
          (case connect henv now (Some account_email) account_proxy_url u of
             (Inl e, u) \<Rightarrow> (Inl e, u, w)
           | (Inr (client, _), u) \<Rightarrow>
               let (r, w) = execute_with_fallback env client method query_string (base_urls u) w in (r, u, w)))"

text \<open>The choice of \<open>call_v1_internal_fingerprinted_warp\<close>: a given proxy comes first.\<close>

definition connect_warp ::
  "('c, 'h) http_env_scheme \<Rightarrow> nanos \<Rightarrow> string option \<Rightarrow> string option \<Rightarrow> string option \<Rightarrow> 'c upstream_client
   \<Rightarrow> (string + 'c \<times> string option) \<times> 'c upstream_client" where
  "connect_warp henv now account_email warp_proxy_url account_proxy_url u =
     (case warp_proxy_url of
        Some proxy_url \<Rightarrow>
          (case get_or_create_client henv proxy_url (pool u) of
             (Inl e, p) \<Rightarrow> (Inl e, u\<lparr>pool := p\<rparr>)
           | (Inr client, p) \<Rightarrow> (Inr (client, Some proxy_url), u\<lparr>pool := p\<rparr>))
      | None \<Rightarrow> connect henv now account_email account_proxy_url u)"

definition call_fingerprinted_warp ::
  "('c, 'r, 'e) upstream_env_scheme \<Rightarrow> ('c, 'h) http_env_scheme \<Rightarrow> nanos \<Rightarrow> string option \<Rightarrow> string \<Rightarrow> string option
   \<Rightarrow> string \<Rightarrow> string option \<Rightarrow> string option \<Rightarrow> 'c upstream_client \<Rightarrow> 'c network
   \<Rightarrow> (string + 'r) \<times> 'c upstream_client \<times> 'c network" where
  "call_fingerprinted_warp env henv now header_error method query_string account_email warp_proxy_url account_proxy_url u w =
     (case connect_warp henv now (Some account_email) warp_proxy_url account_proxy_url u of
        (Inl e, u) \<Rightarrow> (Inl e, u, w)
      | (Inr (client, _), u) \<Rightarrow>
          (case header_error of
             Some e \<Rightarrow> (Inl e, u, w)
           | None \<Rightarrow>
               let (r, w) = execute_with_fallback env client method query_string (base_urls u) w in (r, u, w)))"

text \<open>
  \<open>call_v1_internal_with_warp\<close> is the same without an account: without a given proxy it asks for the
  client and the effective proxy of no account, which is \<open>connect\<close> with nothing given.
\<close>

definition call_with_warp ::
  "('c, 'r, 'e) upstream_env_scheme \<Rightarrow> ('c, 'h) http_env_scheme \<Rightarrow> nanos \<Rightarrow> string option \<Rightarrow> string \<Rightarrow> string option
   \<Rightarrow> string option \<Rightarrow> 'c upstream_client \<Rightarrow> 'c network \<Rightarrow> (string + 'r) \<times> 'c upstream_client \<times> 'c network" where
  "call_with_warp env henv now header_error method query_string warp_proxy_url u w =
     (case connect_warp henv now None warp_proxy_url None u of
        (Inl e, u) \<Rightarrow> (Inl e, u, w)
      | (Inr (client, _), u) \<Rightarrow>
          (case header_error of
             Some e \<Rightarrow> (Inl e, u, w)
           | None \<Rightarrow>
               let (r, w) = execute_with_fallback env client method query_string (base_urls u) w in (r, u, w)))"

definition call_with_headers ::
  "('c, 'r, 'e) upstream_env_scheme \<Rightarrow> ('c, 'h) http_env_scheme \<Rightarrow> nanos \<Rightarrow> string option \<Rightarrow> string \<Rightarrow> string option
   \<Rightarrow> 'c upstream_client \<Rightarrow> 'c network \<Rightarrow> (string + 'r) \<times> 'c upstream_client \<times> 'c network" where
  "call_with_headers env henv now header_error method query_string u w =
     (case header_error of
        Some e \<Rightarrow> (Inl e, u, w)
      | None \<Rightarrow>
          (case get_client_for_account henv now None None u of
             (Inl e, u) \<Rightarrow> (Inl e, u, w)
           | (Inr client, u) \<Rightarrow>
               let (r, w) = execute_with_fallback env client method query_string (base_urls u) w in (r, u, w)))"

section \<open>Endpoint health\<close>

primrec endpoint_failures :: "nanos list \<Rightarrow> endpoint_health \<Rightarrow> endpoint_health" where
  "endpoint_failures [] h = h"
| "endpoint_failures (t # ts) h = endpoint_failures ts (endpoint_failure t h)"

lemma endpoint_failures_count:
  "unat (failures h) + length ts < 2 ^ 32 \<Longrightarrow> unat (failures (endpoint_failures ts h)) = unat (failures h) + length ts
     \<and> last_failure (endpoint_failures ts h) = (if ts = [] then last_failure h else Some (last ts))"
proof (induction ts arbitrary: h)
  case (Cons t ts)
  have c: "unat (failures h + 1) = unat (failures h) + 1" using Cons.prems by (simp add: unat_word_ariths)
  show ?case using Cons.IH [of "endpoint_failure t h"] Cons.prems c by (simp add: endpoint_failure_def)
qed simp

text \<open>
  Note: an endpoint is skipped exactly after five transport failures in a row, and for thirty seconds.
  After a success and any failures since, the endpoint is skipped if and only if there were
  at least five and the last one is less than thirty seconds ago; one success makes it usable.
\<close>

theorem endpoint_skipped_iff:
  assumes "length ts < 2 ^ 32" and "ts \<noteq> []"
  shows "should_skip now (endpoint_failures ts (endpoint_success h))
      = (5 \<le> length ts \<and> now < last ts + 30000000000)
    \<and> \<not> should_skip now (endpoint_success (endpoint_failures ts h))"
proof -
  have "unat (failures (endpoint_failures ts (endpoint_success h))) = length ts"
    "last_failure (endpoint_failures ts (endpoint_success h)) = Some (last ts)"
    using endpoint_failures_count [of "endpoint_success h" ts] assms by (simp_all add: endpoint_success_def)
  then show ?thesis
    by (auto simp: should_skip_def word_less_nat_alt elapsed_def secs_def endpoint_success_def)
qed

theorem endpoint_skipped_iff_witness:
  "should_skip 29000000005 (endpoint_failures [1, 2, 3, 4, 5] (endpoint_success new_endpoint))
   \<and> \<not> should_skip 31000000005 (endpoint_failures [1, 2, 3, 4, 5] (endpoint_success new_endpoint))"
  using endpoint_skipped_iff [of "[1, 2, 3, 4, 5]" 29000000005 new_endpoint]
    endpoint_skipped_iff [of "[1, 2, 3, 4, 5]" 31000000005 new_endpoint] by simp

section \<open>What the loop does\<close>

lemma post_simps [simp]:
  "sent (snd (post env client url w)) = sent w @ [(client, url)]"
  "health (snd (post env client url w)) = health w"
  by (simp_all add: post_def)

lemma update_health_sent [simp]: "sent (update_health f b w) = sent w"
  by (simp add: update_health_def)

text \<open>One or two requests, all to the same URL; the answer is the last one.\<close>

definition answered :: "('c, 'r, 'e) upstream_env_scheme \<Rightarrow> 'r \<Rightarrow> ('c \<times> string) list \<Rightarrow> bool" where
  "answered env resp posts \<longleftrightarrow> posts \<noteq> [] \<and>
     respond env (length posts - 1) (fst (last posts)) (snd (last posts)) = Inr resp"

lemma endpoint_loop_spec:
  assumes "endpoint_loop env client base url has_next n w = (a, w')"
  shows "\<exists>k. 0 < k \<and> k \<le> Suc (1 - n) \<and> sent w' = sent w @ replicate k (client, url)
    \<and> (case a of
         Return (Inr resp) \<Rightarrow> answered env resp (sent w')
           \<and> (has_next \<longrightarrow> \<not> should_try_next_endpoint (status_of env resp) \<or> is_success (status_of env resp))
       | Return (Inl _) \<Rightarrow> \<not> has_next
       | NextEndpoint _ \<Rightarrow> has_next)"
  using assms
proof (induction env client base url has_next n w rule: endpoint_loop.induct)
  case (1 env client base url has_next n w)
  show ?case
  proof (cases "respond env (length (sent w)) client url")
    case (Inr resp)
    then have "post env client url w = (Inr resp, w\<lparr>sent := sent w @ [(client, url)]\<rparr>)" by (simp add: post_def)
    with 1(2) Inr show ?thesis
      by (intro exI [of _ 1]) (auto simp: endpoint_loop.simps [of env] Let_def answered_def split: if_splits)
  next
    case (Inl e)
    let ?w = "w\<lparr>sent := sent w @ [(client, url)]\<rparr>"
    have post: "post env client url w = (Inl e, ?w)" using Inl by (simp add: post_def)
    show ?thesis
    proof (cases "n < MAX_TRANSPORT_RETRIES_PER_ENDPOINT")
      case True
      then have "n = 0" by (simp add: MAX_TRANSPORT_RETRIES_PER_ENDPOINT_def)
      from True post 1(2) have "endpoint_loop env client base url has_next (n + 1) ?w = (a, w')"
        by (simp add: endpoint_loop.simps [of env client base url has_next n w])
      from 1(1) [OF post [symmetric] refl refl True this] obtain k where
        k: "0 < k" "k \<le> Suc (1 - (n + 1))" "sent w' = sent ?w @ replicate k (client, url)"
        "case a of
         Return (Inr resp) \<Rightarrow> answered env resp (sent w')
           \<and> (has_next \<longrightarrow> \<not> should_try_next_endpoint (status_of env resp) \<or> is_success (status_of env resp))
       | Return (Inl _) \<Rightarrow> \<not> has_next
       | NextEndpoint _ \<Rightarrow> has_next" by blast
      then show ?thesis using \<open>n = 0\<close> by (intro exI [of _ "Suc k"]) simp
    next
      case False
      with post 1(2) show ?thesis
        by (intro exI [of _ 1]) (auto simp: endpoint_loop.simps [of env] Let_def split: if_splits)
    qed
  qed
qed

definition endpoint_posts :: "'c \<Rightarrow> string \<Rightarrow> string option \<Rightarrow> nat list \<Rightarrow> string list \<Rightarrow> ('c \<times> string) list" where
  "endpoint_posts client method query_string ks urls =
     concat (map (\<lambda>(k, b). replicate k (client, build_url b method query_string)) (zip ks urls))"

lemma fallback_loop_spec:
  assumes "fallback_loop env client method query_string urls e w = (r, w')"
  shows "\<exists>ks. length ks = length urls \<and> (\<forall>k \<in> set ks. k \<le> 2)
    \<and> sent w' = sent w @ endpoint_posts client method query_string ks urls
    \<and> (case r of
         Inl _ \<Rightarrow> True
       | Inr resp \<Rightarrow> answered env resp (sent w')
           \<and> (should_try_next_endpoint (status_of env resp) \<and> \<not> is_success (status_of env resp)
              \<longrightarrow> 0 < last ks))"
  using assms
proof (induction urls arbitrary: e w)
  case Nil
  then show ?case by (auto simp: endpoint_posts_def)
next
  case (Cons base rest)
  let ?url = "build_url base method query_string"
  show ?case
  proof (cases "skipped env base w")
    case True
    with Cons.prems have "fallback_loop env client method query_string rest e w = (r, w')" by simp
    from Cons.IH [OF this] obtain ks where ks: "length ks = length rest" "\<forall>k \<in> set ks. k \<le> 2"
      "sent w' = sent w @ endpoint_posts client method query_string ks rest"
      "case r of Inl _ \<Rightarrow> True | Inr resp \<Rightarrow> answered env resp (sent w')
         \<and> (should_try_next_endpoint (status_of env resp) \<and> \<not> is_success (status_of env resp) \<longrightarrow> 0 < last ks)" by blast
    show ?thesis
    proof (cases "rest = []")
      case True
      then have "r = Inl (case e of Some e \<Rightarrow> e | None \<Rightarrow> ''All endpoints failed'')"
        using \<open>fallback_loop env client method query_string rest e w = (r, w')\<close> by simp
      with ks True show ?thesis by (intro exI [of _ "[0]"]) (simp add: endpoint_posts_def)
    next
      case False
      with ks show ?thesis by (intro exI [of _ "0 # ks"]) (auto simp: endpoint_posts_def split: sum.splits)
    qed
  next
    case False
    obtain a v where loop: "endpoint_loop env client base ?url (rest \<noteq> []) 0 w = (a, v)" by force
    from endpoint_loop_spec [OF this] obtain k where k: "0 < k" "k \<le> 2" "sent v = sent w @ replicate k (client, ?url)"
      and a: "case a of
         Return (Inr resp) \<Rightarrow> answered env resp (sent v)
           \<and> (rest \<noteq> [] \<longrightarrow> \<not> should_try_next_endpoint (status_of env resp) \<or> is_success (status_of env resp))
       | Return (Inl _) \<Rightarrow> \<not> rest \<noteq> []
       | NextEndpoint _ \<Rightarrow> rest \<noteq> []" by auto
    show ?thesis
    proof (cases a)
      case (Return r')
      with loop False Cons.prems have "r = r'" "w' = v" by simp_all
      with Return a k show ?thesis
        by (intro exI [of _ "k # replicate (length rest) 0"])
          (auto simp: endpoint_posts_def zip_replicate1 comp_def split: sum.splits)
    next
      case (NextEndpoint e')
      with a have "rest \<noteq> []" by simp
      from loop False Cons.prems NextEndpoint have "fallback_loop env client method query_string rest (Some e') v = (r, w')" by simp
      from Cons.IH [OF this] obtain ks where ks: "length ks = length rest" "\<forall>k \<in> set ks. k \<le> 2"
        "sent w' = sent v @ endpoint_posts client method query_string ks rest"
        "case r of Inl _ \<Rightarrow> True | Inr resp \<Rightarrow> answered env resp (sent w')
         \<and> (should_try_next_endpoint (status_of env resp) \<and> \<not> is_success (status_of env resp) \<longrightarrow> 0 < last ks)" by blast
      with k \<open>rest \<noteq> []\<close> show ?thesis
        by (intro exI [of _ "k # ks"]) (auto simp: endpoint_posts_def split: sum.splits)
    qed
  qed
qed

text \<open>
  Claim C32: the loop over the endpoints. Requests go out through the given client, to the endpoints in
  their order, at most two to each. A response that is returned answers the last request sent; if
  it is a failure that calls for the next endpoint, it came from the last one.
\<close>

theorem fallback_contract:
  assumes "execute_with_fallback env client method query_string urls w = (r, w')"
  shows "\<exists>ks. length ks = length urls \<and> (\<forall>k \<in> set ks. k \<le> 2)
    \<and> sent w' = sent w @ endpoint_posts client method query_string ks urls
    \<and> (case r of
         Inl _ \<Rightarrow> True
       | Inr resp \<Rightarrow> answered env resp (sent w')
           \<and> (should_try_next_endpoint (status_of env resp) \<and> \<not> is_success (status_of env resp)
              \<longrightarrow> 0 < last ks))"
  by (rule fallback_loop_spec [OF assms [unfolded execute_with_fallback_def]])

text \<open>Two endpoints; the first answers 503, the second fails once and then answers 200.\<close>

definition demo_net :: "(string, u16) upstream_env" where
  "demo_net = \<lparr>respond = \<lambda>n c url. if n = 0 then Inr 503 else if n = 1 then Inl ''reset'' else Inr 200,
     status_of = \<lambda>s. s, time_after = \<lambda>n. n, status_text = \<lambda>_. ''503 Service Unavailable''\<rparr>"

definition idle_net :: "string network" where
  "idle_net = \<lparr>sent = [], health = []\<rparr>"

lemmas run_loop = execute_with_fallback_def endpoint_loop.simps post_def skipped_def build_url_def is_success_def
  should_try_next_endpoint_def update_health_def MAX_TRANSPORT_RETRIES_PER_ENDPOINT_def

lemma demo_run:
  "execute_with_fallback demo_net ''c'' ''m'' None [''a'', ''b''] idle_net =
     (Inr 200, \<lparr>sent = [(''c'', ''a:m''), (''c'', ''b:m''), (''c'', ''b:m'')],
        health = [(''b'', endpoint_success new_endpoint)]\<rparr>)"
  by (simp add: run_loop demo_net_def idle_net_def tput_def)

theorem fallback_contract_witness:
  "\<exists>ks. length ks = 2 \<and> [(''c'', ''a:m''), (''c'', ''b:m''), (''c'', ''b:m'')] = endpoint_posts ''c'' ''m'' None ks [''a'', ''b'']"
proof -
  from fallback_contract [OF demo_run] obtain ks where "length ks = length [''a'', ''b'']"
    "[(''c'', ''a:m''), (''c'', ''b:m''), (''c'', ''b:m'')] = sent idle_net @ endpoint_posts ''c'' ''m'' None ks [''a'', ''b'']"
    by auto
  then show ?thesis by (intro exI [of _ ks]) (simp add: idle_net_def)
qed

text \<open>
  Note: a response can be lost to a skipped endpoint. Whether there is a next endpoint is decided by
  the list, not by its health: if the first endpoint answers with a failure such as 429 and the
  second one is being skipped, the caller gets an error text instead of the response, and with it
  loses the response's headers and body.
\<close>

theorem response_lost_to_skipped:
  assumes "respond env (length (sent w)) client (build_url a method query_string) = Inr resp"
    and "status_of env resp = 429" and "\<not> skipped env a w"
    and "skipped env b (w\<lparr>sent := sent w @ [(client, build_url a method query_string)]\<rparr>)"
  shows "fst (execute_with_fallback env client method query_string [a, b] w)
    = Inl (''Upstream '' @ a @ '' returned '' @ status_text env 429)"
  using assms by (simp add: execute_with_fallback_def endpoint_loop.simps post_def is_success_def should_try_next_endpoint_def)

theorem response_lost_to_skipped_witness:
  "fst (execute_with_fallback (demo_net\<lparr>respond := \<lambda>_ _ _. Inr 429\<rparr>) ''c'' ''m'' None [''a'', ''b'']
      (idle_net\<lparr>health := [(''b'', \<lparr>failures = 5, last_failure = Some 0\<rparr>)]\<rparr>))
   = Inl ''Upstream a returned 503 Service Unavailable''"
  by (subst response_lost_to_skipped [where resp = 429])
    (simp_all add: demo_net_def idle_net_def skipped_def should_skip_def net_time_def elapsed_def secs_def)

section \<open>Enforced proxies, end to end\<close>

lemma execute_posts:
  "execute_with_fallback env client method query_string urls w = (r, w') \<Longrightarrow>
     \<exists>ps. sent w' = sent w @ ps \<and> (\<forall>p \<in> set ps. fst p = client)"
  unfolding execute_with_fallback_def by (drule fallback_loop_spec) (auto simp: endpoint_posts_def)


definition proxied :: "('c, 'h) http_env_scheme \<Rightarrow> 'c \<Rightarrow> bool" where
  "proxied henv client \<longleftrightarrow> (\<exists>url. proxy_client henv url = Inr client)"

definition enforced :: "('c, 'h) http_env_scheme \<Rightarrow> 'c upstream_client \<Rightarrow> bool" where
  "enforced henv u \<longleftrightarrow> pool_ok henv (pool u) \<and> pp_mode (pool u) = pc_mode (proxy_config u) \<and> pc_enforce_proxy (proxy_config u)"

lemma get_client_keeps:
  "get_client henv now mail p = (r, p') \<Longrightarrow> pp_mode p' = pp_mode p"
  by (auto simp: get_client_def get_or_create_client_def dest!: select_proxy_url_pool split: prod.splits sum.splits option.splits)

lemma get_client_for_account_enforced:
  assumes "enforced henv u" and "get_client_for_account henv now mail own u = (r, u')"
  shows "enforced henv u' \<and> (\<forall>c. r = Inr c \<longrightarrow> proxied henv c)"
proof -
  have ok: "pool_ok henv (pool u')" "\<forall>c. r = Inr c \<longrightarrow> proxied henv c"
    using enforced_client_is_proxied [of henv u now mail own r u'] assms
    by (auto simp: enforced_def proxied_def split: sum.splits)
  have "proxy_config u' = proxy_config u" "pp_mode (pool u') = pp_mode (pool u)"
    using assms(2) get_client_keeps
    by (auto simp: get_client_for_account_def get_or_create_client_def split: option.splits prod.splits sum.splits upstream_proxy_mode.splits if_splits)
  with ok assms(1) show ?thesis by (simp add: enforced_def)
qed

lemma get_effective_proxy_url_enforced:
  assumes "enforced henv u" and "get_effective_proxy_url henv now mail own u = (r, u')"
  shows "enforced henv u'"
proof -
  obtain s q where sel: "select_proxy_url henv now mail (pool u) = (s, q)" by force
  from select_proxy_url_pool [OF this] obtain n where "q = (pool u)\<lparr>rr_counter := n\<rparr>" by blast
  with sel assms show ?thesis by (auto simp: get_effective_proxy_url_def enforced_def split: option.splits)
qed

lemma connect_enforced:
  assumes "enforced henv u" and "connect henv now mail own u = (r, u')"
  shows "enforced henv u' \<and> (\<forall>c px. r = Inr (c, px) \<longrightarrow> proxied henv c)"
proof -
  obtain s v where g: "get_client_for_account henv now mail own u = (s, v)" by force
  note v = get_client_for_account_enforced [OF assms(1) g]
  obtain t x where e: "get_effective_proxy_url henv now mail own v = (t, x)" by force
  have "enforced henv x" using get_effective_proxy_url_enforced [OF _ e] v by blast
  with v assms(2) g e show ?thesis by (auto simp: connect_def split: sum.splits)
qed

lemma connect_warp_enforced:
  assumes "enforced henv u" and "connect_warp henv now mail warp own u = (r, u')"
  shows "enforced henv u' \<and> (\<forall>c px. r = Inr (c, px) \<longrightarrow> proxied henv c)"
proof (cases warp)
  case None
  with assms connect_enforced show ?thesis by (fastforce simp: connect_warp_def)
next
  case (Some url)
  obtain s q where g: "get_or_create_client henv url (pool u) = (s, q)" by force
  have "pool_ok henv (pool u)" using assms(1) by (simp add: enforced_def)
  note got = get_or_create_client_ok [OF this g]
  then have same: "q\<lparr>clients := clients (pool u)\<rparr> = pool u" by simp
  have "pp_mode q = pp_mode (pool u)" using arg_cong [OF same, of pp_mode] by simp
  with got g assms Some show ?thesis by (auto simp: connect_warp_def enforced_def proxied_def split: sum.splits)
qed

definition new_posts_proxied :: "('c, 'h) http_env_scheme \<Rightarrow> 'c network \<Rightarrow> 'c network \<Rightarrow> bool" where
  "new_posts_proxied henv w w' \<longleftrightarrow> (\<exists>ps. sent w' = sent w @ ps \<and> (\<forall>p \<in> set ps. proxied henv (fst p)))"

lemma execute_proxied:
  assumes "execute_with_fallback env client method query_string urls w = (r, w')" and "proxied henv client"
  shows "new_posts_proxied henv w w'"
  using execute_posts [OF assms(1)] assms(2) by (auto simp: new_posts_proxied_def)

lemma new_posts_refl [simp]: "new_posts_proxied henv w w"
  by (simp add: new_posts_proxied_def)

text \<open>
  Claim C31: with an enforced proxy no request leaves the server directly. If the configuration enforces a
  proxy and the pool is up to date with it, then every request that any of the calls to the upstream
  service sends, the retries and fallbacks included, goes through a client built for a proxy; and
  this stays so for the next call.
\<close>

theorem enforced_calls_are_proxied:
  assumes "enforced henv u"
    and "(r, u', w') \<in> {call_fingerprinted env henv now hdr method qs mail own u w,
                         call_fingerprinted_warp env henv now hdr method qs mail warp own u w,
                         call_with_warp env henv now hdr method qs warp u w,
                         call_with_headers env henv now hdr method qs u w}"
  shows "enforced henv u' \<and> new_posts_proxied henv w w'"
proof -
  note conn = connect_enforced [OF assms(1)] connect_warp_enforced [OF assms(1)] get_client_for_account_enforced [OF assms(1)]
  from assms(2) consider
    "call_fingerprinted env henv now hdr method qs mail own u w = (r, u', w')"
    | "call_fingerprinted_warp env henv now hdr method qs mail warp own u w = (r, u', w')"
    | "call_with_warp env henv now hdr method qs warp u w = (r, u', w')"
    | "call_with_headers env henv now hdr method qs u w = (r, u', w')" by fastforce
  then show ?thesis
  proof cases
    case 1
    then show ?thesis
      using conn(1) [of now "Some mail" own] assms(1)
      by (auto simp: call_fingerprinted_def intro: execute_proxied split: option.splits prod.splits sum.splits)
  next
    case 2
    then show ?thesis
      using conn(2) [of now "Some mail" warp own]
      by (auto simp: call_fingerprinted_warp_def intro: execute_proxied split: option.splits prod.splits sum.splits)
  next
    case 3
    then show ?thesis
      using conn(2) [of now None warp None]
      by (auto simp: call_with_warp_def intro: execute_proxied split: option.splits prod.splits sum.splits)
  next
    case 4
    then show ?thesis
      using conn(3) [of now None None] assms(1)
      by (auto simp: call_with_headers_def intro: execute_proxied split: option.splits prod.splits sum.splits)
  qed
qed

theorem enforced_calls_are_proxied_witness:
  "new_posts_proxied demo_env idle_net
     (snd (snd (call_fingerprinted demo_net demo_env 0 None ''m'' None ''a@b'' None (demo_client PoolMode PoolMode) idle_net)))"
  using enforced_calls_are_proxied [of demo_env "demo_client PoolMode PoolMode"
      "fst (call_fingerprinted demo_net demo_env 0 None ''m'' None ''a@b'' None (demo_client PoolMode PoolMode) idle_net)"
      "fst (snd (call_fingerprinted demo_net demo_env 0 None ''m'' None ''a@b'' None (demo_client PoolMode PoolMode) idle_net))"
      "snd (snd (call_fingerprinted demo_net demo_env 0 None ''m'' None ''a@b'' None (demo_client PoolMode PoolMode) idle_net))"
      demo_net 0 None "''m''" None "''a@b''" None idle_net None]
  by (simp add: enforced_def demo_client_def pool_ok_def)


end
