(* ===== verification/Retry.thy ===== *)
theory Retry
  imports Rust_Strings Token_Pool
begin

text \<open>
  Retrying failed requests: the delays asked for by upstream (\<open>proxy/upstream/retry.rs\<close>), the choice of
  a strategy, its waiting time and the wait for the first data of a stream (\<open>proxy/retry/\<close>), and
  what clients are told about errors (\<open>proxy/common/sanitize_error.rs\<close>, \<open>tos_ban.rs\<close>). The matches
  of the duration pattern are a parameter. Logging and metrics are left out.
\<close>

section \<open>Delays asked for by upstream\<close>

record retry_env =
  duration_captures :: "string \<Rightarrow> (string \<times> string) list"   \<comment> \<open>number and unit of each match\<close>
  retry_json :: "string \<Rightarrow> json option"                       \<comment> \<open>\<open>serde_json::from_str\<close>\<close>

text \<open>\<open>parse::<f64>\<close> of a captured number; \<open>?\<close> on a number that does not parse gives up.\<close>

definition add_unit :: "rat \<Rightarrow> string \<Rightarrow> rat \<Rightarrow> rat" where
  "add_unit value unit acc =
     (if unit = ''ms'' then rnd64 (acc + value)
      else if unit = ''s'' then rnd64 (acc + rnd64 (value * 1000))
      else if unit = ''m'' then rnd64 (acc + rnd64 (rnd64 (value * 60) * 1000))
      else if unit = ''h'' then rnd64 (acc + rnd64 (rnd64 (rnd64 (value * 60) * 60) * 1000))
      else acc)"

fun sum_captures :: "(string \<times> string) list \<Rightarrow> rat \<Rightarrow> rat option" where
  "sum_captures [] acc = Some acc"
| "sum_captures ((number, unit) # caps) acc =
     (case parse_f64_decimal number of
        None \<Rightarrow> None
      | Some value \<Rightarrow> sum_captures caps (add_unit value unit acc))"

definition parse_duration_ms :: "('e) retry_env_scheme \<Rightarrow> string \<Rightarrow> u64 option" where
  "parse_duration_ms env s =
     (let caps = duration_captures env s
      in case sum_captures caps 0 of
           None \<Rightarrow> None
         | Some acc \<Rightarrow> if caps = [] then None else Some (trunc_to (fround acc)))"

definition is_retry_info :: "json \<Rightarrow> bool" where
  "is_retry_info detail =
     (case Option.bind (jget ''@type'' detail) as_str of
        Some t \<Rightarrow> contains t ''RetryInfo''
      | None \<Rightarrow> False)"

definition retry_delay_str :: "json \<Rightarrow> string option" where
  "retry_delay_str detail = Option.bind (jget ''retryDelay'' detail) as_str"

definition quota_delay_str :: "json \<Rightarrow> string option" where
  "quota_delay_str detail =
     Option.bind (Option.bind (jget ''metadata'' detail) (jget ''quotaResetDelay'')) as_str"

definition parse_retry_delay :: "('e) retry_env_scheme \<Rightarrow> string \<Rightarrow> u64 option" where
  "parse_retry_delay env error_text =
     (case Option.bind (Option.bind (Option.bind (retry_json env error_text) (jget ''error'')) (jget ''details'')) as_array of
        None \<Rightarrow> None
      | Some details \<Rightarrow>
          (case find (\<lambda>d. is_retry_info d \<and> retry_delay_str d \<noteq> None) details of
             Some d \<Rightarrow> Option.bind (retry_delay_str d) (parse_duration_ms env)
           | None \<Rightarrow>
               (case find (\<lambda>d. quota_delay_str d \<noteq> None) details of
                  Some d \<Rightarrow> Option.bind (quota_delay_str d) (parse_duration_ms env)
                | None \<Rightarrow> None)))"

section \<open>Strategies\<close>

record retry_profile =
  backoff_429_base_ms :: u64
  backoff_429_max_ms :: u64
  backoff_503_base_ms :: u64
  backoff_503_max_ms :: u64
  backoff_500_base_ms :: u64
  fixed_401_403_delay_ms :: u64
  signature_patterns :: "string list"

definition OPENAI_SIGNATURE_PATTERNS :: "string list" where
  "OPENAI_SIGNATURE_PATTERNS =
     [''Invalid `signature`'', ''thinking.signature'', ''thinking.thinking'', ''Corrupted thought signature'']"

definition CLAUDE_SIGNATURE_PATTERNS :: "string list" where
  "CLAUDE_SIGNATURE_PATTERNS =
     [''Invalid `signature`'', ''Invalid signature'', ''thinking.signature'', ''thinking.thinking'',
      ''thinking.signature: Field required'', ''thinking.thinking: Field required'', ''Corrupted thought signature'',
      ''failed to deserialise'', ''thinking block'', ''Found `text`'', ''Found '' @ [CHR 0x27] @ ''text'' @ [CHR 0x27],
      ''must be `thinking`'', ''must be '' @ [CHR 0x27] @ ''thinking'' @ [CHR 0x27],
      ''tool_use` ids were found without `tool_result'', ''without `tool_result` blocks'']"

definition openai_profile :: retry_profile where
  "openai_profile = \<lparr>backoff_429_base_ms = 1000, backoff_429_max_ms = 30000, backoff_503_base_ms = 10000,
     backoff_503_max_ms = 60000, backoff_500_base_ms = 3000, fixed_401_403_delay_ms = 200,
     signature_patterns = OPENAI_SIGNATURE_PATTERNS\<rparr>"

definition claude_profile :: retry_profile where
  "claude_profile = \<lparr>backoff_429_base_ms = 1000, backoff_429_max_ms = 10000, backoff_503_base_ms = 1000,
     backoff_503_max_ms = 8000, backoff_500_base_ms = 500, fixed_401_403_delay_ms = 100,
     signature_patterns = CLAUDE_SIGNATURE_PATTERNS\<rparr>"

datatype retry_strategy =
    NoRetry
  | FixedDelay nanos
  | LinearBackoff u64
  | ExponentialBackoff u64 u64

definition ROTATABLE_STATUS_CODES :: "u16 list" where
  "ROTATABLE_STATUS_CODES = [429, 401, 403, 404, 500, 503, 529]"

definition RATE_LIMIT_CODES :: "u16 list" where
  "RATE_LIMIT_CODES = [429, 529, 503, 500]"

definition should_rotate_account :: "u16 \<Rightarrow> bool" where
  "should_rotate_account status_code \<longleftrightarrow> status_code \<in> set ROTATABLE_STATUS_CODES"

definition is_rate_limit_code :: "u16 \<Rightarrow> bool" where
  "is_rate_limit_code status_code \<longleftrightarrow> status_code \<in> set RATE_LIMIT_CODES"

definition is_signature_error :: "string \<Rightarrow> retry_profile \<Rightarrow> bool" where
  "is_signature_error error_text profile = list_ex (contains error_text) (signature_patterns profile)"

definition determine_retry_strategy ::
  "('e) retry_env_scheme \<Rightarrow> u16 \<Rightarrow> string \<Rightarrow> bool \<Rightarrow> retry_profile \<Rightarrow> retry_strategy" where
  "determine_retry_strategy env status_code error_text retried_without_thinking profile =
     (if status_code = 400 \<and> \<not> retried_without_thinking \<and> is_signature_error error_text profile
      then FixedDelay (millis (unat (fixed_401_403_delay_ms profile)))
      else if status_code = 429 then
        (case parse_retry_delay env error_text of
           Some delay_ms \<Rightarrow> FixedDelay (millis (unat (min (sat_add delay_ms 200) (backoff_429_max_ms profile))))
         | None \<Rightarrow> LinearBackoff (backoff_429_base_ms profile))
      else if status_code = 503 \<or> status_code = 529
      then ExponentialBackoff (backoff_503_base_ms profile) (backoff_503_max_ms profile)
      else if status_code = 500 then LinearBackoff (backoff_500_base_ms profile)
      else if status_code = 401 \<or> status_code = 403 then FixedDelay (millis (unat (fixed_401_403_delay_ms profile)))
      else if status_code = 404 then FixedDelay (millis 100)
      else NoRetry)"

text \<open>\<open>2_u64.saturating_pow(attempt as u32)\<close>.\<close>

definition pow2_sat :: "u32 \<Rightarrow> u64" where
  "pow2_sat k = (if unat k < 64 then push_bit (unat k) 1 else - 1)"

text \<open>The waiting time of a strategy, if it retries; \<open>attempt\<close> counts from zero.\<close>

definition strategy_delay :: "retry_strategy \<Rightarrow> usize \<Rightarrow> nanos option" where
  "strategy_delay strategy attempt =
     (case strategy of
        NoRetry \<Rightarrow> None
      | FixedDelay d \<Rightarrow> Some d
      | LinearBackoff base_ms \<Rightarrow> Some (millis (unat (sat_mul base_ms (attempt + 1))))
      | ExponentialBackoff base_ms max_ms \<Rightarrow>
          Some (millis (unat (min (sat_mul base_ms (pow2_sat (ucast attempt))) max_ms))))"

text \<open>\<open>apply_retry_strategy\<close> sleeps for this time: it returns whether to go on, and the time it is then.\<close>

definition apply_retry_strategy :: "retry_strategy \<Rightarrow> usize \<Rightarrow> nanos \<Rightarrow> bool \<times> nanos" where
  "apply_retry_strategy strategy attempt now =
     (case strategy_delay strategy attempt of None \<Rightarrow> (False, now) | Some d \<Rightarrow> (True, now + d))"

section \<open>The first data of a stream\<close>

record peek_config =
  max_heartbeats :: u32
  max_peek_duration :: nanos
  single_chunk_timeout :: nanos

definition default_peek :: peek_config where
  "default_peek = \<lparr>max_heartbeats = 20, max_peek_duration = secs 120, single_chunk_timeout = secs 60\<rparr>"

definition openai_peek :: peek_config where
  "openai_peek = \<lparr>max_heartbeats = 20, max_peek_duration = secs 90, single_chunk_timeout = secs 30\<rparr>"

datatype poll = Chunk string | StreamError string | StreamEnd | ChunkTimeout

datatype peek_result = Data string | RetryPeek string

text \<open>
  The loop over what the stream delivers: each entry has the time since the start at which the loop
  asks, and what it gets. \<open>None\<close> is a loop that is still waiting. With the result comes what is left.
\<close>

fun peek_loop :: "peek_config \<Rightarrow> u32 \<Rightarrow> (nanos \<times> poll) list \<Rightarrow> (peek_result \<times> (nanos \<times> poll) list) option" where
  "peek_loop config heartbeat_count [] = None"
| "peek_loop config heartbeat_count ((t, p) # rest) =
     (if max_peek_duration config < t
      then Some (RetryPeek (''Peek phase timeout after '' @ show_nat (as_secs (max_peek_duration config)) @ ''s''), (t, p) # rest)
      else
        (case p of
           Chunk bytes \<Rightarrow>
             if bytes = [] then peek_loop config heartbeat_count rest
             else if starts_with (trim bytes) '':''
             then
               let heartbeat_count = heartbeat_count + 1
               in if max_heartbeats config \<le> heartbeat_count
                  then Some (RetryPeek (''Too many heartbeats ('' @ show_nat (unat (max_heartbeats config)) @ '') without data''), rest)
                  else peek_loop config heartbeat_count rest
             else Some (Data bytes, rest)
         | StreamError e \<Rightarrow> Some (RetryPeek (''Stream error during peek: '' @ e), rest)
         | StreamEnd \<Rightarrow> Some (RetryPeek ''Empty response stream during peek'', rest)
         | ChunkTimeout \<Rightarrow> Some (RetryPeek ''Timeout waiting for first data'', rest)))"

definition peek_first_data_chunk :: "peek_config \<Rightarrow> (nanos \<times> poll) list \<Rightarrow> (peek_result \<times> (nanos \<times> poll) list) option" where
  "peek_first_data_chunk config polls = peek_loop config 0 polls"

section \<open>Bookkeeping after a success\<close>

text \<open>The token manager and the limits of the server's state are updated.\<close>

definition record_request_success ::
  "nanos \<Rightarrow> string \<Rightarrow> string \<Rightarrow> token_manager \<times> limit_manager \<Rightarrow> token_manager \<times> limit_manager" where
  "record_request_success now mail session_id s =
     (clear_session_failures session_id (mark_account_success mail (fst s)), mgr_record_success now mail (snd s))"

section \<open>What clients are told\<close>

datatype upstream_error =
    HttpResponse u16 string
  | TokenAcquisition string
  | ConnectionError string
  | EmptyStream

datatype error_category =
    RateLimited | QuotaExhaustedError | Unauthorized | ModelNotFound | PromptTooLong | ServiceDisabled
  | UpstreamServerError | UnknownError

definition classify_error :: "u16 \<Rightarrow> string \<Rightarrow> error_category" where
  "classify_error status_code raw_text =
     (if status_code = 429 \<or> status_code = 529
      then (if contains raw_text ''QUOTA_EXHAUSTED'' then QuotaExhaustedError else RateLimited)
      else if status_code = 401 then Unauthorized
      else if status_code = 403
      then (if contains raw_text ''SERVICE_DISABLED'' \<or> contains raw_text ''CONSUMER_INVALID''
               \<or> contains raw_text ''Permission denied''
            then ServiceDisabled else Unauthorized)
      else if status_code = 404 then ModelNotFound
      else if status_code = 400
      then (if contains raw_text ''prompt is too long'' \<or> contains raw_text ''exceeds the maximum''
               \<or> contains raw_text ''token limit''
            then PromptTooLong else UnknownError)
      else if status_code = 500 \<or> status_code = 502 \<or> status_code = 503 then UpstreamServerError
      else UnknownError)"

definition sanitize_upstream_error :: "u16 \<Rightarrow> string \<Rightarrow> string" where
  "sanitize_upstream_error status_code raw_text =
     (case classify_error status_code raw_text of
        RateLimited \<Rightarrow> ''Rate limited''
      | QuotaExhaustedError \<Rightarrow> ''Quota exhausted''
      | Unauthorized \<Rightarrow> ''Authentication failed''
      | ModelNotFound \<Rightarrow> ''Model not available''
      | PromptTooLong \<Rightarrow> ''Prompt too long''
      | ServiceDisabled \<Rightarrow> ''Service unavailable''
      | UpstreamServerError \<Rightarrow> ''Upstream server error''
      | UnknownError \<Rightarrow> ''Upstream error'') @ '' (HTTP '' @ show_nat (unat status_code) @ '')''"

fun sanitize_exhaustion_error :: "upstream_error \<Rightarrow> string" where
  "sanitize_exhaustion_error (HttpResponse status_code body) = sanitize_upstream_error status_code body"
| "sanitize_exhaustion_error (TokenAcquisition _) = ''Token acquisition failed''"
| "sanitize_exhaustion_error (ConnectionError _) = ''Upstream request failed''"
| "sanitize_exhaustion_error EmptyStream = ''Empty response from upstream''"

text \<open>The response when all accounts are exhausted: status, account header, message.\<close>

definition build_exhaustion_response :: "upstream_error \<Rightarrow> string option \<Rightarrow> u16 \<times> (string \<times> string) list \<times> string" where
  "build_exhaustion_response last_error last_email =
     (let msg = ''All accounts exhausted. Last error: '' @ sanitize_exhaustion_error last_error
      in case last_email of
           Some mail \<Rightarrow> (429, [(''X-Account-Email'', mail)], msg)
         | None \<Rightarrow> (429, [], msg))"

definition TOS_BAN_LOCKOUT_SECS :: u64 where "TOS_BAN_LOCKOUT_SECS = 86400"

definition TOS_BAN_PATTERNS :: "string list" where
  "TOS_BAN_PATTERNS =
     [''violation of Terms of Service'', ''Terms of Service violation'', ''access to Gemini Code Assist is suspended'',
      ''has been disabled in this account'', ''USER_DISABLED'', ''account has been suspended'', ''account is disabled'',
      ''account has been disabled'', ''TOS_VIOLATION'', ''ABUSE_DETECTED'']"

definition VERIFICATION_PATTERNS :: "string list" where
  "VERIFICATION_PATTERNS =
     [''verify your account'', ''CONSUMER_INVALID'', ''SERVICE_DISABLED'', ''Permission denied on resource project'']"

definition is_tos_banned :: "u16 \<Rightarrow> string \<Rightarrow> bool" where
  "is_tos_banned status_code error_text =
     (if status_code \<noteq> 403 then False else list_ex (contains error_text) TOS_BAN_PATTERNS)"

definition needs_verification :: "u16 \<Rightarrow> string \<Rightarrow> bool" where
  "needs_verification status_code error_text =
     (if status_code \<noteq> 403 then False else list_ex (contains error_text) VERIFICATION_PATTERNS)"

datatype forbidden_reason = TosBanned | NeedsVerification | OtherForbidden

definition classify_403 :: "string \<Rightarrow> forbidden_reason" where
  "classify_403 error_text =
     (if list_ex (contains error_text) TOS_BAN_PATTERNS then TosBanned
      else if list_ex (contains error_text) VERIFICATION_PATTERNS then NeedsVerification
      else OtherForbidden)"

section \<open>Waiting times\<close>

lemma unat_pow2_sat: "unat (pow2_sat k) = min (2 ^ unat k) (2 ^ 64 - 1)"
proof (cases "unat k < 64")
  case True
  then have "(2::nat) ^ unat k < 2 ^ 64" by (intro power_strict_increasing) simp_all
  moreover have "unat (push_bit (unat k) (1 :: u64)) = 2 ^ unat k mod 2 ^ 64"
    by (simp only: unsigned_push_bit_eq) (simp add: push_bit_eq_mult take_bit_eq_mod)
  ultimately show ?thesis using True by (simp add: pow2_sat_def)
next
  case False
  then have "(2::nat) ^ 64 \<le> 2 ^ unat k" by (intro power_increasing) simp_all
  with False show ?thesis by (simp add: pow2_sat_def unat_max)
qed

lemma min_sat_mul_pow2:
  "unat (min (sat_mul b (pow2_sat k)) m) = min (unat b * 2 ^ unat k) (unat m)" for b m :: u64
proof -
  have m: "unat m < 2 ^ 64" using unsigned_less [of m] by simp
  have "unat (min (sat_mul b (pow2_sat k)) m) = min (unat (sat_mul b (pow2_sat k))) (unat m)"
    by (simp add: min_def word_le_nat_alt)
  also have "\<dots> = min (min (unat b * min (2 ^ unat k) (2 ^ 64 - 1)) (2 ^ 64 - 1)) (unat m)"
    by (simp add: unat_sat_mul unat_pow2_sat)
  also have "\<dots> = min (unat b * 2 ^ unat k) (unat m)"
  proof (cases "unat b = 0 \<or> 2 ^ unat k \<le> (2 :: nat) ^ 64 - 1")
    case True
    then show ?thesis using m by (auto simp: min_def)
  next
    case False
    then have "1 \<le> unat b" and k: "(2 :: nat) ^ 64 - 1 \<le> 2 ^ unat k" by auto
    then have "1 * ((2 :: nat) ^ 64 - 1) \<le> unat b * (2 ^ 64 - 1)" "1 * ((2 :: nat) ^ 64 - 1) \<le> unat b * 2 ^ unat k"
      by (intro mult_le_mono; simp)+
    then show ?thesis using m k by (simp add: min_def)
  qed
  finally show ?thesis .
qed

text \<open>
  Note: the waiting times are what their names say. Whatever the profile and the attempt, the linear
  backoff is \<open>base * (attempt + 1)\<close> milliseconds as long as that fits into 64 bits, the exponential
  backoff is exactly the smaller of \<open>base * 2 ^ attempt\<close> and the maximum, however large the power
  gets, and the delay asked for by upstream is extended by 200 milliseconds and cut at the maximum.
\<close>

theorem backoff_exact:
  assumes "unat attempt < 2 ^ 32"
  shows "strategy_delay (ExponentialBackoff b m) attempt = Some (millis (min (unat b * 2 ^ unat attempt) (unat m)))
    \<and> strategy_delay (LinearBackoff b) attempt = Some (millis (min (unat b * (unat attempt + 1)) (2 ^ 64 - 1)))
    \<and> (parse_retry_delay env body = Some d \<longrightarrow>
        strategy_delay (determine_retry_strategy env 429 body retried p) attempt
          = Some (millis (min (unat d + 200) (unat (backoff_429_max_ms p)))))"
proof -
  have a: "unat (ucast attempt :: u32) = unat attempt" using assms by (simp add: unsigned_ucast_eq take_bit_nat_eq_self)
  have a1: "unat (attempt + 1) = unat attempt + 1" using assms by (simp add: unat_word_ariths)
  have "unat (backoff_429_max_ms p) < 2 ^ 64" using unsigned_less [of "backoff_429_max_ms p"] by simp
  then have "unat (min (sat_add d 200) (backoff_429_max_ms p)) = min (unat d + 200) (unat (backoff_429_max_ms p))"
    by (auto simp: min_def word_le_nat_alt unat_sat_add)
  then show ?thesis
    by (simp add: strategy_delay_def min_sat_mul_pow2 a a1 unat_sat_mul determine_retry_strategy_def)
qed

theorem backoff_exact_witness:
  "strategy_delay (ExponentialBackoff 1000 8000) 3 = Some (millis 8000)
   \<and> strategy_delay (ExponentialBackoff 1000 8000) 100 = Some (millis 8000)
   \<and> strategy_delay (LinearBackoff 500) 3 = Some (millis 2000)"
  using backoff_exact [of 3 1000 8000, THEN conjunct1] backoff_exact [of 100 1000 8000, THEN conjunct1]
    backoff_exact [of 3 500, THEN conjunct2, THEN conjunct1]
  by (simp add: min_def)

text \<open>
  Note: exactly the failures that rotate the account are retried. A status is retried if and only if it
  is one of the codes for which another account is tried, or it is a 400 whose text is a signature
  error and no retry without thinking has happened; every rate limit code is among them.
\<close>

theorem retried_iff_rotated:
  "(determine_retry_strategy env status body retried p \<noteq> NoRetry)
     = (should_rotate_account status \<or> (status = 400 \<and> \<not> retried \<and> is_signature_error body p))
   \<and> set RATE_LIMIT_CODES \<subseteq> set ROTATABLE_STATUS_CODES
   \<and> fst (apply_retry_strategy (determine_retry_strategy env status body retried p) attempt now)
     = (determine_retry_strategy env status body retried p \<noteq> NoRetry)"
proof -
  have "fst (apply_retry_strategy s attempt now) = (s \<noteq> NoRetry)" for s
    by (cases s) (simp_all add: apply_retry_strategy_def strategy_delay_def)
  then show ?thesis
    by (auto simp: determine_retry_strategy_def should_rotate_account_def ROTATABLE_STATUS_CODES_def
        is_rate_limit_code_def RATE_LIMIT_CODES_def split: option.splits)
qed

section \<open>Waiting for data\<close>

definition is_heartbeat :: "string \<Rightarrow> bool" where
  "is_heartbeat bytes \<longleftrightarrow> bytes \<noteq> [] \<and> starts_with (trim bytes) '':''"

definition quiet :: "poll \<Rightarrow> bool" where
  "quiet p \<longleftrightarrow> (case p of Chunk b \<Rightarrow> b = [] \<or> is_heartbeat b | _ \<Rightarrow> False)"

lemma quiet_Chunk [simp]: "quiet (Chunk b) \<longleftrightarrow> b = [] \<or> is_heartbeat b"
  by (simp add: quiet_def)

definition heartbeats :: "(nanos \<times> poll) list \<Rightarrow> nat" where
  "heartbeats ps = length (filter (\<lambda>(_, p). case p of Chunk b \<Rightarrow> is_heartbeat b | _ \<Rightarrow> False) ps)"

lemma peek_loop_data:
  assumes "peek_loop config n ps = Some (Data bytes, rest)" and "unat n < unat (max_heartbeats config)"
  shows "\<exists>t qs. ps = qs @ (t, Chunk bytes) # rest \<and> list_all (\<lambda>(_, p). quiet p) qs \<and> bytes \<noteq> [] \<and> \<not> is_heartbeat bytes
    \<and> list_all (\<lambda>(t, _). t \<le> max_peek_duration config) (qs @ [(t, Chunk bytes)])
    \<and> unat n + heartbeats qs < unat (max_heartbeats config)"
  using assms
proof (induction ps arbitrary: n)
  case (Cons e ps)
  obtain t p where e: "e = (t, p)" by force
  from Cons.prems e have t: "t \<le> max_peek_duration config" by (auto split: if_splits)
  with Cons.prems e obtain b where p: "p = Chunk b" by (cases p) auto
  show ?case
  proof (cases "b = []")
    case True
    with Cons.prems e p t have "peek_loop config n ps = Some (Data bytes, rest)" by simp
    from Cons.IH [OF this Cons.prems(2)] obtain t' qs where
      "ps = qs @ (t', Chunk bytes) # rest" "list_all (\<lambda>(_, p). quiet p) qs" "bytes \<noteq> []" "\<not> is_heartbeat bytes"
      "list_all (\<lambda>(t, _). t \<le> max_peek_duration config) (qs @ [(t', Chunk bytes)])"
      "unat n + heartbeats qs < unat (max_heartbeats config)" by blast
    with True e p t show ?thesis
      by (intro exI [of _ t'] exI [of _ "e # qs"]) (simp add: heartbeats_def is_heartbeat_def)
  next
    case False
    show ?thesis
    proof (cases "is_heartbeat b")
      case True
      then have hb: "starts_with (trim b) '':''" by (simp add: is_heartbeat_def)
      with Cons.prems e p t False have more: "\<not> max_heartbeats config \<le> n + 1"
        and loop: "peek_loop config (n + 1) ps = Some (Data bytes, rest)"
        by (auto simp: Let_def split: if_splits)
      have n1: "unat (n + 1) = unat n + 1"
        using Cons.prems(2) by (intro word_less_Suc [of n "max_heartbeats config"]) (simp add: word_less_nat_alt)
      with more have "unat (n + 1) < unat (max_heartbeats config)" by (simp add: word_le_nat_alt)
      from Cons.IH [OF loop this] obtain t' qs where
        "ps = qs @ (t', Chunk bytes) # rest" "list_all (\<lambda>(_, p). quiet p) qs" "bytes \<noteq> []" "\<not> is_heartbeat bytes"
        "list_all (\<lambda>(t, _). t \<le> max_peek_duration config) (qs @ [(t', Chunk bytes)])"
        "unat (n + 1) + heartbeats qs < unat (max_heartbeats config)" by blast
      with True e p t n1 show ?thesis
        by (intro exI [of _ t'] exI [of _ "e # qs"]) (simp add: heartbeats_def)
    next
      case other: False
      with False have "\<not> starts_with (trim b) '':''" by (simp add: is_heartbeat_def)
      with Cons.prems e p t False have "bytes = b" "rest = ps" by simp_all
      with False other e p t Cons.prems(2) show ?thesis
        by (intro exI [of _ t] exI [of _ "[]"]) (simp add: heartbeats_def)
    qed
  qed
qed simp

lemma peek_loop_returns:
  assumes "(t, p) \<in> set ps" and "\<not> quiet p \<or> max_peek_duration config < t"
  shows "\<exists>r. peek_loop config n ps = Some r"
  using assms
proof (induction ps arbitrary: n)
  case (Cons e ps)
  obtain t' p' where e: "e = (t', p')" by force
  show ?case
  proof (cases "max_peek_duration config < t' \<or> \<not> quiet p'")
    case True
    then show ?thesis
      by (cases p') (auto simp: e quiet_def is_heartbeat_def)
  next
    case False
    then obtain b where p': "p' = Chunk b" and q: "quiet p'" by (cases p') (auto simp: quiet_def)
    have "(t, p) \<in> set ps" using Cons.prems False e by auto
    with Cons.IH Cons.prems(2) False q show ?thesis
      by (auto simp: e p' quiet_def is_heartbeat_def Let_def)
  qed
qed simp

lemma peek_loop_heartbeats:
  assumes "unat (max_heartbeats config) \<le> unat n + heartbeats ps" and "unat n < unat (max_heartbeats config)"
  shows "\<exists>r. peek_loop config n ps = Some r"
  using assms
proof (induction ps arbitrary: n)
  case Nil
  then show ?case by (simp add: heartbeats_def)
next
  case (Cons e ps)
  obtain t p where e: "e = (t, p)" by force
  show ?case
  proof (cases "max_peek_duration config < t \<or> \<not> quiet p")
    case True
    then show ?thesis using peek_loop_returns [of t p "e # ps" config n] by (auto simp: e)
  next
    case False
    then obtain b where p: "p = Chunk b" by (cases p) (auto simp: quiet_def)
    have n1: "unat (n + 1) = unat n + 1"
      using Cons.prems(2) by (intro word_less_Suc [of n "max_heartbeats config"]) (simp add: word_less_nat_alt)
    show ?thesis
    proof (cases "is_heartbeat b")
      case True
      with Cons.prems e p have "unat (max_heartbeats config) \<le> unat (n + 1) + heartbeats ps"
        by (simp add: heartbeats_def n1)
      with Cons.IH [of "n + 1"] True False e p show ?thesis
        by (auto simp: is_heartbeat_def Let_def word_le_nat_alt)
    next
      case False
      with \<open>\<not> (max_peek_duration config < t \<or> \<not> quiet p)\<close> p have "b = []" by (simp add: quiet_def)
      with Cons.IH [of n] Cons.prems False \<open>\<not> (max_peek_duration config < t \<or> \<not> quiet p)\<close> e p show ?thesis
        by (simp add: heartbeats_def)
    qed
  qed
qed

text \<open>
  Claim C34: peeking ends and loses no data. The wait for the first data ends as soon as the stream
  delivers anything but heartbeats and empty chunks, or the peek time is over when the loop looks, or there have been
  \<open>max_heartbeats\<close> heartbeats. If it ends with data, that is the first chunk that is neither empty
  nor a heartbeat, everything after it is left in the stream, and the loop asked for it within the peek time.
  (The data itself may come later than that, by the time a single chunk is waited for: the loop looks at the
  clock only before it asks.)
\<close>

theorem peek_contract:
  assumes "0 < max_heartbeats config"
  shows "((\<exists>(t, p) \<in> set ps. \<not> quiet p \<or> max_peek_duration config < t)
        \<or> unat (max_heartbeats config) \<le> heartbeats ps \<longrightarrow> peek_first_data_chunk config ps \<noteq> None)
    \<and> (peek_first_data_chunk config ps = Some (Data bytes, rest) \<longrightarrow>
        (\<exists>t qs. ps = qs @ (t, Chunk bytes) # rest \<and> list_all (\<lambda>(_, p). quiet p) qs \<and> \<not> quiet (Chunk bytes)
          \<and> t \<le> max_peek_duration config \<and> heartbeats qs < unat (max_heartbeats config)))"
proof -
  have 0: "unat (0 :: u32) < unat (max_heartbeats config)" using assms by (simp add: word_less_nat_alt)
  have "peek_first_data_chunk config ps \<noteq> None"
    if "(\<exists>(t, p) \<in> set ps. \<not> quiet p \<or> max_peek_duration config < t) \<or> unat (max_heartbeats config) \<le> heartbeats ps"
    using that peek_loop_returns [of _ _ ps config 0] peek_loop_heartbeats [of config 0 ps] 0
    by (fastforce simp: peek_first_data_chunk_def)
  moreover have "\<exists>t qs. ps = qs @ (t, Chunk bytes) # rest \<and> list_all (\<lambda>(_, p). quiet p) qs \<and> \<not> quiet (Chunk bytes)
      \<and> t \<le> max_peek_duration config \<and> heartbeats qs < unat (max_heartbeats config)"
    if "peek_first_data_chunk config ps = Some (Data bytes, rest)"
    using peek_loop_data [OF that [unfolded peek_first_data_chunk_def] 0] by (fastforce simp: quiet_def)
  ultimately show ?thesis by blast
qed

theorem peek_contract_witness:
  "\<exists>t qs. [(0, Chunk '':hb''), (5, Chunk []), (9, Chunk ''data: x''), (10, StreamEnd)]
     = qs @ (t, Chunk ''data: x'') # [(10, StreamEnd)] \<and> t \<le> secs 120"
proof -
  have "trim '':hb'' = '':hb''" "trim ''data: x'' = ''data: x''" by (simp_all add: trim_plain plain_char_def)
  then have "peek_first_data_chunk default_peek
      [(0, Chunk '':hb''), (5, Chunk []), (9, Chunk ''data: x''), (10, StreamEnd)] = Some (Data ''data: x'', [(10, StreamEnd)])"
    by (simp add: peek_first_data_chunk_def default_peek_def secs_def word_le_nat_alt)
  then show ?thesis
    using peek_contract [of default_peek "[(0, Chunk '':hb''), (5, Chunk []), (9, Chunk ''data: x''), (10, StreamEnd)]"
        "''data: x''" "[(10, StreamEnd)]"] by (auto simp: default_peek_def)
qed


end
