(* ===== verification/Tool_Pairing.thy ===== *)
theory Tool_Pairing
  imports Rust_Strings
begin

text \<open>
  Cleaning the history of a conversation before it is sent to a Claude model,
  \<open>crates/antigravity-core/src/proxy/mappers/claude/request/signature_stripping.rs\<close>: thinking parts are
  removed, and calls of tools left without a response get a synthetic one. A request is a JSON value;
  its messages are the array at \<open>/request/contents\<close>, each with a role and an array of parts.
\<close>

section \<open>Updating JSON in place\<close>

definition jmap_key :: "string \<Rightarrow> (json \<Rightarrow> json) \<Rightarrow> json \<Rightarrow> json" where
  "jmap_key k f v =
     (case v of
        JObj m \<Rightarrow> (case tget m k of Some x \<Rightarrow> JObj (tput k (f x) m) | None \<Rightarrow> v)
      | _ \<Rightarrow> v)"

definition jmap_array :: "(json list \<Rightarrow> json list) \<Rightarrow> json \<Rightarrow> json" where
  "jmap_array f v = (case v of JArr a \<Rightarrow> JArr (f a) | _ \<Rightarrow> v)"

definition jremove :: "string \<Rightarrow> json \<Rightarrow> json" where
  "jremove k v = (case v of JObj m \<Rightarrow> JObj (tdel k m) | _ \<Rightarrow> v)"

definition on_contents :: "(json list \<Rightarrow> json list) \<Rightarrow> json \<Rightarrow> json" where
  "on_contents f = jmap_key ''request'' (jmap_key ''contents'' (jmap_array f))"

definition contents_of :: "json \<Rightarrow> json list option" where
  "contents_of value = Option.bind (Option.bind (jget ''request'' value) (jget ''contents'')) as_array"

definition parts_of :: "json \<Rightarrow> json list option" where
  "parts_of content = Option.bind (jget ''parts'' content) as_array"

definition on_parts :: "(json list \<Rightarrow> json list) \<Rightarrow> json \<Rightarrow> json" where
  "on_parts f = jmap_key ''parts'' (jmap_array f)"

definition role_of :: "json \<Rightarrow> string" where
  "role_of content = (case Option.bind (jget ''role'' content) as_str of Some r \<Rightarrow> r | None \<Rightarrow> [])"

section \<open>Removing thinking parts\<close>

definition is_thought :: "json \<Rightarrow> bool" where
  "is_thought part =
     (case jget ''thought'' part of
        Some v \<Rightarrow> (case as_bool v of Some b \<Rightarrow> b | None \<Rightarrow> False) \<or> as_str v \<noteq> None
      | None \<Rightarrow> False)"

definition strip_call_signature :: "json \<Rightarrow> json" where
  "strip_call_signature part =
     (if jget ''functionCall'' part \<noteq> None then jremove ''thoughtSignature'' part else part)"

definition strip_content :: "json \<Rightarrow> json" where
  "strip_content = on_parts (\<lambda>parts. map strip_call_signature (filter (\<lambda>p. \<not> is_thought p) parts))"

definition fill_empty_model :: "json \<Rightarrow> json" where
  "fill_empty_model content =
     (if parts_of content = Some [] \<and> role_of content = ''model''
      then on_parts (\<lambda>parts. parts @ [JObj [(''text'', JStr ''...'')]]) content
      else content)"

definition keep_content :: "json \<Rightarrow> bool" where
  "keep_content c \<longleftrightarrow> role_of c = ''model'' \<or> parts_of c \<noteq> Some []"

definition strip_contents :: "json list \<Rightarrow> json list" where
  "strip_contents contents = filter keep_content (map fill_empty_model (map strip_content contents))"

definition strip_non_claude_thought_signatures :: "json \<Rightarrow> json" where
  "strip_non_claude_thought_signatures value = on_contents strip_contents value"

section \<open>Answering calls of tools\<close>

definition call_entry :: "json \<Rightarrow> (string \<times> string) option" where
  "call_entry part =
     (case jget ''functionCall'' part of
        None \<Rightarrow> None
      | Some fc \<Rightarrow>
          (case Option.bind (jget ''id'' fc) as_str of
             None \<Rightarrow> None
           | Some i \<Rightarrow> Some (i, case Option.bind (jget ''name'' fc) as_str of Some n \<Rightarrow> n | None \<Rightarrow> i)))"

definition call_entries :: "json \<Rightarrow> (string \<times> string) list" where
  "call_entries content =
     (case parts_of content of None \<Rightarrow> [] | Some parts \<Rightarrow> List.map_filter call_entry parts)"

definition response_id :: "json \<Rightarrow> string option" where
  "response_id part = Option.bind (Option.bind (jget ''functionResponse'' part) (jget ''id'')) as_str"

definition response_ids :: "json \<Rightarrow> string list" where
  "response_ids content =
     (case parts_of content of None \<Rightarrow> [] | Some parts \<Rightarrow> List.map_filter response_id parts)"

record repair_action =
  content_idx :: nat
  missing_ids :: "(string \<times> string) list"
  append_to_next :: bool

definition action_at :: "json list \<Rightarrow> nat \<Rightarrow> repair_action option" where
  "action_at contents i =
     (let fc_entries = call_entries (contents ! i)
      in if role_of (contents ! i) \<noteq> ''model'' then None
         else if fc_entries = [] then None
         else if length contents \<le> i + 1 then None
         else if role_of (contents ! (i + 1)) = ''user''
         then
           let missing = filter (\<lambda>(j, _). j \<notin> set (response_ids (contents ! (i + 1)))) fc_entries
           in if missing = [] then None
              else Some \<lparr>content_idx = i, missing_ids = missing, append_to_next = True\<rparr>
         else Some \<lparr>content_idx = i, missing_ids = fc_entries, append_to_next = False\<rparr>)"

definition synthetic_part :: "string \<times> string \<Rightarrow> json" where
  "synthetic_part e =
     JObj [(''functionResponse'',
        JObj [(''id'', JStr (fst e)), (''name'', JStr (snd e)),
              (''response'', JObj [(''result'', JStr ''Tool execution interrupted. No result provided.'')])])]"

definition synthetic_user :: "json list \<Rightarrow> json" where
  "synthetic_user parts = JObj [(''parts'', JArr parts), (''role'', JStr ''user'')]"

text \<open>The parts are inserted at positions 0, 1, ... of the next message, which puts them in front.\<close>

definition apply_action :: "repair_action \<Rightarrow> json list \<Rightarrow> json list" where
  "apply_action a contents =
     (let synthetic_parts = map synthetic_part (missing_ids a);
          i = content_idx a + 1
      in if append_to_next a
         then contents[i := on_parts (\<lambda>parts. synthetic_parts @ parts) (contents ! i)]
         else take i contents @ synthetic_user synthetic_parts # drop i contents)"

text \<open>The actions are collected from front to back and applied from back to front.\<close>

definition repair_contents :: "json list \<Rightarrow> json list" where
  "repair_contents contents =
     fold apply_action (rev (List.map_filter (action_at contents) [0..<length contents])) contents"

definition repair_tool_pairing_after_strip :: "json \<Rightarrow> json" where
  "repair_tool_pairing_after_strip value = on_contents repair_contents value"

section \<open>The repair as a recursion\<close>

lemma jget_jmap_key: "jget k' (jmap_key k f v) = (if k' = k then map_option f (jget k v) else jget k' v)"
  by (auto simp: jmap_key_def jget_def split: json.split option.split)

lemma jget_jremove: "jget k' (jremove k v) = (if k' = k then None else jget k' v)"
  by (auto simp: jremove_def jget_def split: json.split)

lemma role_on_parts [simp]: "role_of (on_parts f c) = role_of c"
  by (simp add: role_of_def on_parts_def jget_jmap_key)

lemma parts_on_parts [simp]: "parts_of (on_parts f c) = map_option f (parts_of c)"
  by (cases "jget ''parts'' c") (auto simp: parts_of_def on_parts_def jget_jmap_key jmap_array_def as_array_def split: json.split)

definition shift :: "repair_action \<Rightarrow> repair_action" where
  "shift a = a\<lparr>content_idx := Suc (content_idx a)\<rparr>"

lemma apply_shift: "apply_action (shift a) (c # cs) = c # apply_action a cs"
  by (simp add: apply_action_def shift_def Let_def)

lemma fold_shift: "fold apply_action (map shift as) (c # cs) = c # fold apply_action as cs"
  by (induction as arbitrary: cs) (simp_all add: apply_shift)

lemma action_at_Suc: "action_at (c # cs) (Suc i) = map_option shift (action_at cs i)"
  by (simp add: action_at_def shift_def Let_def)

lemma map_filter_map_option: "List.map_filter (\<lambda>x. map_option g (f x)) xs = map g (List.map_filter f xs)"
  by (induction xs) (simp_all add: List.map_filter_simps split: option.split)

lemma map_filter_map: "List.map_filter f (map g xs) = List.map_filter (\<lambda>x. f (g x)) xs"
  by (induction xs) (simp_all add: List.map_filter_simps split: option.split)

lemma repair_Cons:
  "repair_contents (c # cs) =
     (case action_at (c # cs) 0 of
        None \<Rightarrow> c # repair_contents cs
      | Some a \<Rightarrow> apply_action a (c # repair_contents cs))"
proof -
  have "[0..<length (c # cs)] = 0 # map Suc [0..<length cs]" by (simp add: map_Suc_upt upt_conv_Cons del: upt_Suc)
  then have "List.map_filter (action_at (c # cs)) [0..<length (c # cs)]
      = (case action_at (c # cs) 0 of None \<Rightarrow> [] | Some a \<Rightarrow> [a])
        @ map shift (List.map_filter (action_at cs) [0..<length cs])"
    by (simp add: List.map_filter_simps map_filter_map action_at_Suc map_filter_map_option comp_def split: option.split)
  then show ?thesis
    by (simp add: repair_contents_def rev_map fold_shift split: option.split)
qed

lemma repair_Nil [simp]: "repair_contents [] = []"
  by (simp add: repair_contents_def List.map_filter_simps)

lemma action_idx: "action_at (c # cs) 0 = Some a \<Longrightarrow> content_idx a = 0 \<and> cs \<noteq> []"
  by (auto simp: action_at_def Let_def split: if_splits)

lemma repair_head: "\<exists>t. repair_contents (c # cs) = c # t"
  by (auto simp: repair_Cons apply_action_def Let_def dest!: action_idx split: option.split)

text \<open>The messages that follow a message \<open>c\<close>, and the next message \<open>n\<close> as it becomes.\<close>

definition missing_in :: "json \<Rightarrow> json \<Rightarrow> (string \<times> string) list" where
  "missing_in c n = filter (\<lambda>(j, _). j \<notin> set (response_ids n)) (call_entries c)"

lemma repair_Cons2:
  obtains (same) t where "repair_contents (n # rest) = n # t" "repair_contents (c # n # rest) = c # n # t"
      "role_of c \<noteq> ''model'' \<or> call_entries c = [] \<or> (role_of n = ''user'' \<and> missing_in c n = [])"
    | (prepend) t where "repair_contents (n # rest) = n # t" "role_of n = ''user''" "role_of c = ''model''"
      "repair_contents (c # n # rest) = c # on_parts (\<lambda>ps. map synthetic_part (missing_in c n) @ ps) n # t"
    | (insert) t where "repair_contents (n # rest) = n # t" "role_of n \<noteq> ''user''" "role_of c = ''model''"
      "repair_contents (c # n # rest) = c # synthetic_user (map synthetic_part (call_entries c)) # n # t"
proof -
  obtain t where t: "repair_contents (n # rest) = n # t" using repair_head by blast
  show ?thesis
  proof (cases "role_of c \<noteq> ''model'' \<or> call_entries c = []")
    case True
    then show ?thesis using same [of t] t by (simp add: repair_Cons [of c] action_at_def Let_def)
  next
    case False
    show ?thesis
    proof (cases "role_of n = ''user''")
      case True
      then show ?thesis
        using same [of t] prepend [of t] t False
        by (cases "missing_in c n = []") (simp_all add: repair_Cons [of c] action_at_def Let_def missing_in_def apply_action_def)
    next
      case other: False
      then show ?thesis
        using insert [of t] t False by (simp add: repair_Cons [of c] action_at_def Let_def apply_action_def)
    qed
  qed
qed

section \<open>Calls and responses\<close>

text \<open>A message is answered by the next one if all its calls have a response there.\<close>

definition answered_by :: "json \<Rightarrow> json \<Rightarrow> bool" where
  "answered_by c n \<longleftrightarrow> role_of c = ''model'' \<longrightarrow> call_entries c \<noteq> []
     \<longrightarrow> role_of n = ''user'' \<and> fst ` set (call_entries c) \<subseteq> set (response_ids n)"

fun all_answered :: "json list \<Rightarrow> bool" where
  "all_answered (c # n # rest) = (answered_by c n \<and> all_answered (n # rest))"
| "all_answered _ = True"

lemma response_synthetic [simp]: "response_id (synthetic_part e) = Some (fst e)"
  by (simp add: response_id_def synthetic_part_def jget_def as_str_def)

lemma responses_synthetic [simp]: "List.map_filter response_id (map synthetic_part es) = map fst es"
  by (induction es) (simp_all add: List.map_filter_simps)

lemma map_filter_append: "List.map_filter f (xs @ ys) = List.map_filter f xs @ List.map_filter f ys"
  by (simp add: List.map_filter_def)

lemma responses_prepended:
  "parts_of n \<noteq> None \<Longrightarrow> response_ids (on_parts (\<lambda>ps. map synthetic_part es @ ps) n) = map fst es @ response_ids n"
  by (auto simp: response_ids_def map_filter_append)

lemma synthetic_user_simps [simp]:
  "role_of (synthetic_user ps) = ''user''" "parts_of (synthetic_user ps) = Some ps"
  by (simp_all add: role_of_def parts_of_def synthetic_user_def jget_def as_str_def as_array_def)

lemma answered_when_complete: "role_of n = ''user'' \<Longrightarrow> missing_in c n = [] \<Longrightarrow> answered_by c n"
  by (fastforce simp: answered_by_def missing_in_def filter_empty_conv)

lemma all_answered_user: "role_of u = ''user'' \<Longrightarrow> all_answered (u # cs) \<longleftrightarrow> all_answered cs"
  by (cases cs) (simp_all add: answered_by_def)

lemma repair_answers:
  "\<forall>c \<in> set cs. parts_of c \<noteq> None \<Longrightarrow> all_answered (repair_contents cs)"
proof (induction cs rule: all_answered.induct)
  case (1 c n rest)
  then have IH: "all_answered (repair_contents (n # rest))" by simp
  show ?case
  proof (cases rule: repair_Cons2 [of n rest c])
    case (same t)
    then have "answered_by c n" using answered_when_complete [of n c] by (auto simp: answered_by_def)
    with same IH show ?thesis by simp
  next
    case (prepend t)
    let ?n = "on_parts (\<lambda>ps. map synthetic_part (missing_in c n) @ ps) n"
    have "parts_of n \<noteq> None" using "1.prems" by simp
    then have "answered_by c ?n" using prepend by (auto simp: answered_by_def responses_prepended missing_in_def)
    moreover have "all_answered (?n # t)" using IH prepend by (simp add: all_answered_user)
    ultimately show ?thesis using prepend by simp
  next
    case (insert t)
    then show ?thesis using IH by (simp add: answered_by_def response_ids_def)
  qed
qed (simp_all add: repair_Cons action_at_def Let_def)

lemma repair_unchanged: "all_answered cs \<Longrightarrow> repair_contents cs = cs"
proof (induction cs rule: all_answered.induct)
  case (1 c n rest)
  then have IH: "repair_contents (n # rest) = n # rest" and "answered_by c n" by auto
  then have "role_of c \<noteq> ''model'' \<or> call_entries c = [] \<or> (role_of n = ''user'' \<and> missing_in c n = [])"
    by (fastforce simp: answered_by_def missing_in_def filter_empty_conv)
  then have "action_at (c # n # rest) 0 = None" by (auto simp: action_at_def Let_def missing_in_def)
  with IH show ?case by (simp add: repair_Cons [of c])
qed (simp_all add: repair_Cons action_at_def Let_def)


section \<open>Clean messages\<close>

lemma contents_on_contents [simp]: "contents_of (on_contents f v) = map_option f (contents_of v)"
proof (cases "jget ''request'' v")
  case (Some r)
  then show ?thesis
    by (cases "jget ''contents'' r")
      (auto simp: contents_of_def on_contents_def jget_jmap_key jmap_array_def as_array_def split: json.split)
qed (simp add: contents_of_def on_contents_def jget_jmap_key)

definition clean_part :: "json \<Rightarrow> bool" where
  "clean_part p \<longleftrightarrow> \<not> is_thought p \<and> (jget ''functionCall'' p \<noteq> None \<longrightarrow> jget ''thoughtSignature'' p = None)"

definition clean_content :: "json \<Rightarrow> bool" where
  "clean_content c \<longleftrightarrow> list_all clean_part (case parts_of c of Some ps \<Rightarrow> ps | None \<Rightarrow> [])"

abbreviation is_model :: "json \<Rightarrow> bool" where
  "is_model c \<equiv> role_of c = ''model''"

lemma clean_stripped_part: "\<not> is_thought p \<Longrightarrow> clean_part (strip_call_signature p)"
  by (auto simp: clean_part_def strip_call_signature_def is_thought_def jget_jremove)

lemma clean_placeholder: "clean_part (JObj [(''text'', JStr ''...'')])"
  by (simp add: clean_part_def is_thought_def jget_def)

lemma clean_synthetic: "clean_part (synthetic_part e)"
  by (simp add: clean_part_def synthetic_part_def is_thought_def jget_def)

lemma parts_strip_content:
  "parts_of (strip_content c) = map_option (\<lambda>ps. map strip_call_signature (filter (\<lambda>p. \<not> is_thought p) ps)) (parts_of c)"
  "role_of (strip_content c) = role_of c"
  by (simp_all add: strip_content_def)

lemma fill_empty_simps:
  "role_of (fill_empty_model c) = role_of c"
  "parts_of (fill_empty_model c) =
     (if parts_of c = Some [] \<and> is_model c then Some [JObj [(''text'', JStr ''...'')]] else parts_of c)"
  by (simp_all add: fill_empty_model_def)

lemma clean_strip_content: "clean_content (strip_content c)"
  by (auto simp: clean_content_def parts_strip_content list_all_iff clean_stripped_part split: option.split)

lemma clean_strip_contents: "\<forall>c \<in> set (strip_contents cs). clean_content c"
proof -
  have "clean_content (fill_empty_model c)" if "clean_content c" for c
    using that clean_placeholder by (simp add: clean_content_def fill_empty_simps)
  with clean_strip_content show ?thesis by (auto simp: strip_contents_def)
qed

lemma models_strip: "length (filter is_model (strip_contents cs)) = length (filter is_model cs)"
proof -
  have "filter is_model (strip_contents cs) = map (\<lambda>c. fill_empty_model (strip_content c)) (filter is_model cs)"
    by (induction cs) (auto simp: strip_contents_def keep_content_def fill_empty_simps parts_strip_content(2))
  then show ?thesis by simp
qed

lemma parts_strip_contents:
  "\<forall>c \<in> set cs. parts_of c \<noteq> None \<Longrightarrow> \<forall>c \<in> set (strip_contents cs). parts_of c \<noteq> None"
  by (auto simp: strip_contents_def fill_empty_simps parts_strip_content)

lemma clean_prepended:
  "clean_content n \<Longrightarrow> clean_content (on_parts (\<lambda>ps. map synthetic_part es @ ps) n)"
  by (auto simp: clean_content_def list_all_iff clean_synthetic split: option.splits)

lemma repair_clean: "\<forall>c \<in> set cs. clean_content c \<Longrightarrow> \<forall>c \<in> set (repair_contents cs). clean_content c"
proof (induction cs rule: all_answered.induct)
  case (1 c n rest)
  then have IH: "\<forall>c \<in> set (repair_contents (n # rest)). clean_content c" and c: "clean_content c" by simp_all
  have syn: "clean_content (synthetic_user (map synthetic_part es))" for es
    by (simp add: clean_content_def list_all_iff clean_synthetic)
  show ?case
    by (cases rule: repair_Cons2 [of n rest c]) (use IH c syn clean_prepended in auto)
qed (simp_all add: repair_Cons action_at_def Let_def)

lemma models_repair: "filter is_model (repair_contents cs) = filter is_model cs"
proof (induction cs rule: all_answered.induct)
  case (1 c n rest)
  show ?case
    by (cases rule: repair_Cons2 [of n rest c]) (use 1 in \<open>auto split: if_splits\<close>)
qed (simp_all add: repair_Cons action_at_def Let_def)

text \<open>
  Note: the history sent to Claude is well formed. If every message has an array of parts, then after
  stripping and repairing no part is a thought and no call carries a thought signature; every
  message of the model that calls tools and is not the last one is followed by a user message with
  a response to each call; and no message of the model is lost, nor altered by the repair.
\<close>

theorem history_is_clean:
  assumes "contents_of value = Some cs" and "\<forall>c \<in> set cs. parts_of c \<noteq> None"
  shows "\<exists>out. contents_of (repair_tool_pairing_after_strip (strip_non_claude_thought_signatures value)) = Some out
    \<and> all_answered out \<and> list_all clean_content out
    \<and> filter is_model out = filter is_model (strip_contents cs)
    \<and> length (filter is_model out) = length (filter is_model cs)"
  using assms(1) repair_answers [OF parts_strip_contents [OF assms(2)]] repair_clean [OF clean_strip_contents [of cs]]
  by (simp add: repair_tool_pairing_after_strip_def strip_non_claude_thought_signatures_def list_all_iff
      models_repair models_strip)

definition msg :: "string \<Rightarrow> json list \<Rightarrow> json" where
  "msg role parts = JObj [(''parts'', JArr parts), (''role'', JStr role)]"

definition call_part :: "string \<Rightarrow> json" where
  "call_part i = JObj [(''functionCall'', JObj [(''id'', JStr i), (''name'', JStr ''ls'')]), (''thoughtSignature'', JStr ''sig'')]"

definition request_with :: "json list \<Rightarrow> json" where
  "request_with cs = JObj [(''request'', JObj [(''contents'', JArr cs)])]"

lemma contents_request [simp]: "contents_of (request_with cs) = Some cs"
  by (simp add: contents_of_def request_with_def jget_def as_array_def)

lemma parts_msg [simp]: "parts_of (msg r ps) = Some ps" "role_of (msg r ps) = r"
  by (simp_all add: parts_of_def role_of_def msg_def jget_def as_array_def as_str_def)

theorem history_is_clean_witness:
  "\<exists>out. contents_of (repair_tool_pairing_after_strip (strip_non_claude_thought_signatures
       (request_with [msg ''model'' [call_part ''c1''], msg ''user'' [JObj [(''thought'', JBool True)]],
          msg ''model'' [JObj [(''thought'', JStr ''hm'')]]]))) = Some out
     \<and> all_answered out \<and> length (filter is_model out) = 2"
  using history_is_clean [of "request_with [msg ''model'' [call_part ''c1''], msg ''user'' [JObj [(''thought'', JBool True)]],
          msg ''model'' [JObj [(''thought'', JStr ''hm'')]]]"]
  by auto

text \<open>Stripping what is stripped changes nothing.\<close>

lemma tput_same: "tget m k = Some x \<Longrightarrow> tput k x m = m"
  unfolding tput_def by (induction m) auto

lemma jmap_key_id: "(\<And>x. jget k v = Some x \<Longrightarrow> f x = x) \<Longrightarrow> jmap_key k f v = v"
  by (auto simp: jmap_key_def jget_def tput_same split: json.splits option.splits)

lemma on_parts_id: "(\<And>ps. parts_of c = Some ps \<Longrightarrow> f ps = ps) \<Longrightarrow> on_parts f c = c"
  unfolding on_parts_def
  by (rule jmap_key_id) (auto simp: jmap_array_def parts_of_def as_array_def split: json.split)

lemma on_contents_cong: "(\<And>cs. contents_of v = Some cs \<Longrightarrow> f (g cs) = g cs) \<Longrightarrow> on_contents f (on_contents g v) = on_contents g v"
  unfolding on_contents_def
proof (rule jmap_key_id)
  assume *: "\<And>cs. contents_of v = Some cs \<Longrightarrow> f (g cs) = g cs"
  fix r
  assume "jget ''request'' (jmap_key ''request'' (jmap_key ''contents'' (jmap_array g)) v) = Some r"
  then obtain q where q: "jget ''request'' v = Some q" "r = jmap_key ''contents'' (jmap_array g) q" by (auto simp: jget_jmap_key)
  show "jmap_key ''contents'' (jmap_array f) r = r"
  proof (rule jmap_key_id)
    fix x
    assume "jget ''contents'' r = Some x"
    then obtain y where y: "jget ''contents'' q = Some y" "x = jmap_array g y" by (auto simp: q(2) jget_jmap_key)
    show "jmap_array f x = x"
      using * q(1) y by (auto simp: contents_of_def jmap_array_def as_array_def split: json.splits)
  qed
qed

lemma clean_part_strip: "clean_part p \<Longrightarrow> strip_call_signature p = p"
proof -
  assume c: "clean_part p"
  have "jremove k p = p" if "jget k p = None" for k
    using that by (auto simp: jremove_def jget_def tdel_def map_of_eq_None_iff delete_id split: json.splits)
  with c show ?thesis by (auto simp: strip_call_signature_def clean_part_def)
qed

lemma strip_contents_idem: "strip_contents (strip_contents cs) = strip_contents cs"
proof -
  have same: "fill_empty_model (strip_content c) = c" if c: "c \<in> set (strip_contents cs)" for c
  proof -
    have clean: "clean_content c" using clean_strip_contents c by blast
    have ps: "map strip_call_signature (filter (\<lambda>p. \<not> is_thought p) ps) = ps" if "parts_of c = Some ps" for ps
    proof -
      have "\<forall>p \<in> set ps. clean_part p" using clean that by (simp add: clean_content_def list_all_iff)
      then show ?thesis using clean_part_strip by (simp add: map_idI clean_part_def filter_id_conv)
    qed
    have "strip_content c = c" unfolding strip_content_def by (rule on_parts_id) (rule ps)
    moreover have "fill_empty_model c = c" using c by (auto simp: strip_contents_def fill_empty_simps fill_empty_model_def)
    ultimately show ?thesis by simp
  qed
  have "\<forall>c \<in> set (strip_contents cs). keep_content c" by (simp add: strip_contents_def)
  with same show ?thesis unfolding strip_contents_def [of "strip_contents cs"] by (simp add: map_idI filter_id_conv)
qed

text \<open>
  Note: cleaning is idempotent and repairs nothing that is whole. Stripping a stripped request changes
  nothing; a history in which every call is answered is left as it is by the repair; and so repairing
  twice is repairing once.
\<close>

theorem cleaning_is_idempotent:
  assumes "contents_of value = Some cs" and "\<forall>c \<in> set cs. parts_of c \<noteq> None"
  shows "strip_non_claude_thought_signatures (strip_non_claude_thought_signatures value)
      = strip_non_claude_thought_signatures value
    \<and> (all_answered cs \<longrightarrow> repair_tool_pairing_after_strip value = value)
    \<and> repair_tool_pairing_after_strip (repair_tool_pairing_after_strip value) = repair_tool_pairing_after_strip value"
proof -
  have "repair_contents (repair_contents cs) = repair_contents cs"
    using repair_unchanged [OF repair_answers [OF assms(2)]] .
  then have twice: "repair_tool_pairing_after_strip (repair_tool_pairing_after_strip value) = repair_tool_pairing_after_strip value"
    unfolding repair_tool_pairing_after_strip_def using assms(1) by (intro on_contents_cong) auto
  have id: "on_contents (\<lambda>xs. xs) value = value"
    unfolding on_contents_def by (intro jmap_key_id) (auto simp: jmap_array_def split: json.split)
  have "repair_tool_pairing_after_strip value = value" if "all_answered cs"
  proof -
    have "on_contents repair_contents (on_contents (\<lambda>xs. xs) value) = on_contents (\<lambda>xs. xs) value"
      using assms(1) repair_unchanged [OF that] by (intro on_contents_cong) auto
    then show ?thesis by (simp add: repair_tool_pairing_after_strip_def id)
  qed
  with twice show ?thesis
    unfolding strip_non_claude_thought_signatures_def by (simp add: on_contents_cong strip_contents_idem)
qed

theorem cleaning_is_idempotent_witness:
  "repair_tool_pairing_after_strip (request_with [msg ''user'' [], msg ''model'' [call_part ''c1'']])
     = request_with [msg ''user'' [], msg ''model'' [call_part ''c1'']]"
  using cleaning_is_idempotent [of "request_with [msg ''user'' [], msg ''model'' [call_part ''c1'']]"]
  by (simp add: answered_by_def)


end
