(* ===== verification/Token_Estimates.thy ===== *)
theory Token_Estimates
  imports Floats Rust_Strings
begin

text \<open>
  Token counts: \<open>mappers/claude/token_scaling.rs\<close> (what is reported to the client, compressed so that
  it stays below the window the client knows of) and \<open>mappers/estimation_calibrator.rs\<close> (how far the
  estimate before a request is off). Both compute with floats: every operation is followed by its
  rounding, \<open>rnd64\<close> or \<open>rnd32\<close>.
\<close>

section \<open>Square roots\<close>

text \<open>
  \<open>f64::sqrt\<close> of an integral float is correctly rounded. The integer root of \<open>n * 4 ^ 60\<close> has sixty binary
  places, and one more place records whether there is a remainder; for the arguments here (below
  \<open>2 ^ 32\<close>) a double has at most 52 places, so rounding this number is rounding the root itself.
\<close>

function isqrt :: "nat \<Rightarrow> nat" where
  "isqrt n =
     (if n = 0 then 0
      else let r = 2 * isqrt (n div 4) in if (r + 1) * (r + 1) \<le> n then r + 1 else r)"
  by pat_completeness auto

termination by (relation "measure id") auto

declare isqrt.simps [simp del]

definition fsqrt :: "nat \<Rightarrow> rat" where
  "fsqrt n =
     (let r = isqrt (n * 4 ^ 60)
      in rnd64 (of_nat (2 * r + (if r * r = n * 4 ^ 60 then 0 else 1)) / 2 ^ 61))"

lemma isqrt_bounds: "isqrt n * isqrt n \<le> n \<and> n < (isqrt n + 1) * (isqrt n + 1)"
proof (induction n rule: isqrt.induct)
  case (1 n)
  show ?case
  proof (cases "n = 0")
    case True
    then show ?thesis by (simp add: isqrt.simps)
  next
    case False
    define s where "s = isqrt (n div 4)"
    have s: "s * s \<le> n div 4" "n div 4 < (s + 1) * (s + 1)" using 1 False by (auto simp: s_def)
    from s(1) have "4 * (s * s) \<le> n" by simp
    moreover from s(2) have "n < 4 * ((s + 1) * (s + 1))" by simp
    ultimately show ?thesis using False by (subst (1 2 3 4) isqrt.simps) (auto simp: s_def Let_def algebra_simps)
  qed
qed

lemma isqrt_mono: "m \<le> n \<Longrightarrow> isqrt m \<le> isqrt n"
proof (rule ccontr)
  assume "m \<le> n" and "\<not> isqrt m \<le> isqrt n"
  then have "isqrt n + 1 \<le> isqrt m" by simp
  then have "(isqrt n + 1) * (isqrt n + 1) \<le> isqrt m * isqrt m" by (intro mult_le_mono)
  with isqrt_bounds [of m] isqrt_bounds [of n] \<open>m \<le> n\<close> show False by linarith
qed

lemma fsqrt_mono:
  assumes "m \<le> n"
  shows "fsqrt m \<le> fsqrt n"
proof -
  let ?s = "\<lambda>n :: nat. 2 * isqrt n + (if isqrt n * isqrt n = n then 0 else 1)"
  have "?s a \<le> ?s b" if "a \<le> b" for a b
  proof (cases "isqrt a = isqrt b")
    case True
    then show ?thesis using that isqrt_bounds [of a] isqrt_bounds [of b] by auto
  next
    case False
    then show ?thesis using isqrt_mono [OF that] by simp
  qed
  from this [of "m * 4 ^ 60" "n * 4 ^ 60"] assms show ?thesis
    unfolding fsqrt_def Let_def by (intro f64.mono divide_right_mono) (simp_all only: of_nat_le_iff mult_le_mono1, simp)
qed

lemma fsqrt_nonneg: "0 \<le> fsqrt n"
  unfolding fsqrt_def Let_def by (intro f64.nonneg) simp

section \<open>Scaled usage\<close>

record usage_metadata =
  prompt_token_count :: "u32 option"
  candidates_token_count :: "u32 option"
  total_token_count :: "u32 option"
  cached_content_token_count :: "u32 option"

record usage =
  input_tokens :: u32
  output_tokens :: u32
  cache_read_input_tokens :: "u32 option"
  cache_creation_input_tokens :: "u32 option"
  server_tool_use :: "json option"

definition get_context_limit_for_model :: "string \<Rightarrow> u32" where
  "get_context_limit_for_model model = (if contains model ''pro'' then 2097152 else 1048576)"

definition SCALING_THRESHOLD :: u32 where "SCALING_THRESHOLD = 30000"
definition TARGET_MAX :: rat where "TARGET_MAX = 195000"

definition perception_start :: "u32 \<Rightarrow> u32" where
  "perception_start context_limit = trunc_to (rnd64 (f64_of context_limit * rnd64 (7 / 10)))"

text \<open>\<open>SCALING_THRESHOLD as f64 + excess.sqrt() * 25.0\<close>, for an excess of type \<open>u32\<close>\<close>

definition compressed :: "u32 \<Rightarrow> rat" where
  "compressed excess = rnd64 (30000 + rnd64 (fsqrt (unat excess) * 25))"

text \<open>
  A context limit of zero divides by zero: the progress is infinite, the sum minus infinity (the excess
  wraps around and its root exceeds the target), which is cast to zero.
\<close>

definition scaled_total :: "bool \<Rightarrow> u32 \<Rightarrow> u32 \<Rightarrow> u32" where
  "scaled_total scaling_enabled context_limit total_raw =
     (if scaling_enabled \<and> 0 < total_raw
      then if total_raw \<le> SCALING_THRESHOLD then total_raw
           else let start = perception_start context_limit
                in if total_raw \<le> start then trunc_to (compressed (total_raw - SCALING_THRESHOLD))
                   else let range = rnd64 (f64_of context_limit * rnd64 (3 / 10));
                            start_value = compressed (start - SCALING_THRESHOLD)
                        in if range = 0 then 0
                           else let progress = rnd64 (f64_of (total_raw - start) / range);
                                    regression = rnd64 (rnd64 (TARGET_MAX - start_value) * progress)
                                in trunc_to (rnd64 (start_value + regression))
      else total_raw)"

definition unwrap_or_0 :: "u32 option \<Rightarrow> u32" where
  "unwrap_or_0 x = (case x of Some n \<Rightarrow> n | None \<Rightarrow> 0)"

definition to_claude_usage :: "usage_metadata \<Rightarrow> bool \<Rightarrow> u32 \<Rightarrow> usage" where
  "to_claude_usage u scaling_enabled context_limit =
     (let total_raw = unwrap_or_0 (prompt_token_count u);
          cached_tokens = unwrap_or_0 (cached_content_token_count u);
          scaled = scaled_total scaling_enabled context_limit total_raw;
          (reported_input, reported_cache) =
            (if 0 < total_raw
             then let cache_ratio = rnd64 (f64_of cached_tokens / f64_of total_raw);
                      sc_cache = trunc_to (rnd64 (f64_of scaled * cache_ratio))
                  in (sat_sub scaled sc_cache, Some sc_cache)
             else (scaled, None))
      in \<lparr>input_tokens = reported_input, output_tokens = unwrap_or_0 (candidates_token_count u),
          cache_read_input_tokens = reported_cache, cache_creation_input_tokens = Some 0, server_tool_use = None\<rparr>)"

section \<open>The calibrator\<close>

record estimation_calibrator =
  total_estimated :: u64
  total_actual :: u64
  sample_count :: u64
  calibration_factor :: rat

definition new_calibrator :: estimation_calibrator where
  "new_calibrator = \<lparr>total_estimated = 0, total_actual = 0, sample_count = 0, calibration_factor = 2\<rparr>"

text \<open>The factor is an \<open>f32\<close>, the ratio is computed in \<open>f64\<close>.\<close>

definition update_calibration :: "estimation_calibrator \<Rightarrow> estimation_calibrator" where
  "update_calibration c =
     (let estimated = f64_of (total_estimated c); actual = f64_of (total_actual c)
      in if 0 < estimated
         then let new_factor = rnd32 (rnd64 (actual / estimated));
                  clamped = max (rnd32 (8 / 10)) (min 4 new_factor);
                  old = calibration_factor c
              in c\<lparr>calibration_factor := rnd32 (rnd32 (old * rnd32 (6 / 10)) + rnd32 (clamped * rnd32 (4 / 10)))\<rparr>
         else c)"

definition calibrator_record :: "u32 \<Rightarrow> u32 \<Rightarrow> estimation_calibrator \<Rightarrow> estimation_calibrator" where
  "calibrator_record estimated actual c =
     (if estimated = 0 \<or> actual = 0 then c
      else let n = sample_count c + 1;
               c = c\<lparr>total_estimated := total_estimated c + ucast estimated,
                     total_actual := total_actual c + ucast actual, sample_count := n\<rparr>
           in if n mod 5 = 0 then update_calibration c else c)"

definition calibrate :: "u32 \<Rightarrow> estimation_calibrator \<Rightarrow> u32" where
  "calibrate estimated c = trunc_to (fceil (rnd32 (f32_of estimated * calibration_factor c)))"

definition get_factor :: "estimation_calibrator \<Rightarrow> rat" where
  "get_factor c = calibration_factor c"

section \<open>What is reported adds up and stays below the target\<close>

lemma isqrt_unique:
  assumes "r * r \<le> n" and "n < (r + 1) * (r + 1)"
  shows "isqrt n = r"
proof (rule ccontr)
  assume "isqrt n \<noteq> r"
  then consider "isqrt n + 1 \<le> r" | "r + 1 \<le> isqrt n" by linarith
  then show False
  proof cases
    case 1
    then have "(isqrt n + 1) * (isqrt n + 1) \<le> r * r" by (intro mult_le_mono)
    with assms isqrt_bounds [of n] show False by linarith
  next
    case 2
    then have "(r + 1) * (r + 1) \<le> isqrt n * isqrt n" by (intro mult_le_mono)
    with assms isqrt_bounds [of n] show False by linarith
  qed
qed

lemma fsqrt_2000: "fsqrt 4000000 = 2000"
proof -
  have i: "isqrt (4000000 * 4 ^ 60) = 2000 * 2 ^ 60" by (rule isqrt_unique) simp_all
  have "fsqrt 4000000 = rnd64 2000" unfolding fsqrt_def Let_def i by simp
  also have "\<dots> = 2000" using f64.of_nat [of 2000] by simp
  finally show ?thesis .
qed

lemma compressed_range:
  assumes "unat e \<le> 4000000"
  shows "30000 \<le> compressed e \<and> compressed e \<le> 80000"
proof -
  have "fsqrt (unat e) \<le> 2000" using fsqrt_mono [OF assms] fsqrt_2000 by simp
  then have "rnd64 (fsqrt (unat e) * 25) \<le> 50000" using f64.of_nat [of 50000] by (intro f64.upper) simp_all
  moreover have "0 \<le> rnd64 (fsqrt (unat e) * 25)" using fsqrt_nonneg by (intro f64.nonneg) simp
  ultimately show ?thesis
    unfolding compressed_def using f64.of_nat [of 80000] f64.of_nat [of 30000]
    by (auto intro!: f64.upper f64.lower)
qed

lemma lit_03: "3 / 10 - 1 / 2 ^ 40 \<le> rnd64 (3 / 10)"
proof -
  have "rnd64 (of_int 329853488332 * pow2 (- 40)) = of_int 329853488332 * pow2 (- 40)" by (rule f64.exact) simp_all
  then have "rnd64 (329853488332 / 2 ^ 40) = 329853488332 / 2 ^ 40" by (simp add: power_int_def power_one_over)
  then have "329853488332 / 2 ^ 40 \<le> rnd64 (3 / 10)" by (rule f64.lower) simp
  then show ?thesis by simp
qed

lemma quarters: "\<bar>m\<bar> \<le> 2 ^ 53 \<Longrightarrow> rnd64 (of_int m / 4) = of_int m / 4"
  using f64.exact [of m "- 2"] by (simp add: power_int_minus)

text \<open>The end of the window in numbers: how far the progress can exceed one.\<close>

lemma window:
  assumes "limit = get_context_limit_for_model model" and "p \<le> limit"
  fixes R :: rat
  defines "R \<equiv> rnd64 (f64_of limit * rnd64 (3 / 10))"
  shows "30000 \<le> unat (perception_start limit) \<and> unat (perception_start limit) \<le> 4000000
    \<and> 0 < R \<and> (perception_start limit < p \<longrightarrow> f64_of (p - perception_start limit) \<le> (1 + 1 / 2 ^ 19) * R)"
proof -
  have l: "limit = 2097152 \<or> limit = 1048576" using assms(1) by (auto simp: get_context_limit_for_model_def)
  have f: "f64_of limit = of_nat (unat limit)" by (rule f64_of_u32)
  define s where "s = (if limit = 2097152 then 1468006 else 734003 :: nat)"
  have "rnd64 (of_nat s) \<le> rnd64 (f64_of limit * rnd64 (7 / 10))"
    using l by (intro f64.mono) (auto simp: s_def f lit_07)
  moreover have "rnd64 (of_nat s) = of_nat s" by (rule f64.of_nat) (simp add: s_def)
  ultimately have s1: "of_nat s \<le> rnd64 (f64_of limit * rnd64 (7 / 10))" by simp
  have "rnd64 (f64_of limit * rnd64 (7 / 10)) \<le> 4000000"
    using f64.of_nat [of 4000000] l by (intro f64.upper) (auto simp: f lit_07)
  with s1 have su: "s \<le> unat (perception_start limit)" "unat (perception_start limit) \<le> 4000000"
    unfolding perception_start_def unat_trunc_to by (auto simp: s_def le_floor_iff le_nat_iff nat_le_iff floor_le_iff min_def)
  define q where "q = (if limit = 2097152 then 2516582 else 1258291 :: int)"
  have "of_int q / 4 \<le> f64_of limit * rnd64 (3 / 10)"
  proof -
    have "of_int q / 4 \<le> of_nat (unat limit) * (3 / 10 - 1 / 2 ^ 40 :: rat)" using l by (auto simp: q_def)
    also have "\<dots> \<le> f64_of limit * rnd64 (3 / 10)" unfolding f using lit_03 by (intro mult_left_mono) simp_all
    finally show ?thesis .
  qed
  then have r: "of_int q / 4 \<le> R" unfolding R_def using quarters [of q] by (intro f64.lower) (auto simp: q_def)
  moreover have "0 < (of_int q / 4 :: rat)" by (simp add: q_def)
  ultimately have pos: "0 < R" by linarith
  have "f64_of (p - perception_start limit) \<le> (1 + 1 / 2 ^ 19) * R" if "perception_start limit < p"
  proof -
    have "unat (p - perception_start limit) = unat p - unat (perception_start limit)"
      using that by (simp add: unat_sub word_less_nat_alt word_le_nat_alt)
    also have "\<dots> \<le> unat limit - s" using su assms(2) by (simp add: word_le_nat_alt diff_le_mono diff_le_mono2 le_diff_conv)
    finally have "f64_of (p - perception_start limit) \<le> of_nat (unat limit - s)" by (simp add: f64_of_u32)
    also have "\<dots> \<le> (1 + 1 / 2 ^ 19) * (of_int q / 4)" using l by (auto simp: s_def q_def)
    also have "\<dots> \<le> (1 + 1 / 2 ^ 19) * R" using r by (intro mult_left_mono) simp_all
    finally show ?thesis .
  qed
  with su pos show ?thesis by (auto simp: s_def split: if_splits)
qed

lemma interpolation_bound:
  assumes "30000 \<le> s" and "s \<le> 80000" and "progress \<le> rnd64 (1 + 1 / 2 ^ 19)"
  shows "rnd64 (s + rnd64 (rnd64 (195000 - s) * progress)) < 195001"
proof -
  define t where "t = \<lfloor>s * 1024\<rfloor>"
  have t: "of_int t \<le> s * 1024" "s * 1024 < of_int t + 1" unfolding t_def by linarith+
  have exact: "rnd64 (of_int m / 1024) = of_int m / 1024" if "\<bar>m\<bar> \<le> 2 ^ 53" for m
    using f64.exact [of m "- 10"] that by (simp add: power_int_def power_one_over)
  have tb: "0 \<le> t" "t \<le> 81920000" using assms(1,2) by (simp_all add: t_def le_floor_iff floor_le_iff)
  have one: "rnd64 (1 + 1 / 2 ^ 19) = 1 + 1 / 2 ^ 19"
    using f64.exact [of "2 ^ 19 + 1" "- 19"] by (simp add: power_int_def power_one_over)
  define D where "D = rnd64 (195000 - s)"
  have D0: "0 \<le> D" unfolding D_def using assms(2) by (intro f64.nonneg) simp
  have D1: "D \<le> of_int (195000 * 1024 - t) / 1024"
    unfolding D_def using t tb by (intro f64.upper exact) (simp_all add: diff_divide_distrib)
  have "D * progress \<le> D * (1 + 1 / 2 ^ 19)" using assms(3) D0 one by (intro mult_left_mono) simp_all
  also have "\<dots> \<le> of_int (195000 * 1024 - t) / 1024 * (1 + 1 / 2 ^ 19)" using D1 by (intro mult_right_mono) simp_all
  also have "\<dots> \<le> of_int (195000 * 1024 - t + 512) / 1024"
  proof -
    have "of_int (195000 * 1024 - t) \<le> (512 * 2 ^ 19 :: rat)" using tb by simp
    then show ?thesis by (simp add: field_simps)
  qed
  finally have "rnd64 (D * progress) \<le> of_int (195000 * 1024 - t + 512) / 1024"
    using tb by (intro f64.upper exact) simp_all
  then have "s + rnd64 (D * progress) \<le> of_int (195001 * 1024 - 500) / 1024" using t by (simp add: field_simps)
  then have "rnd64 (s + rnd64 (D * progress)) \<le> of_int (195001 * 1024 - 500) / 1024"
    by (intro f64.upper exact) simp_all
  also have "\<dots> < 195001" by simp
  finally show ?thesis by (simp add: D_def)
qed

lemma unat_trunc_le: "x < of_nat n + 1 \<Longrightarrow> unat (trunc_to x :: u32) \<le> n"
  unfolding unat_trunc_to using floor_less_iff [of x "int n + 1"] by (auto simp: min_def nat_le_iff)

lemma unat_sub_le: "unat (a - b) \<le> unat a" if "b \<le> a" for a b :: "'a::len word"
  using that by (simp add: unat_sub)

lemma scaled_total_bounded:
  assumes "p \<le> get_context_limit_for_model model"
  shows "unat (scaled_total True (get_context_limit_for_model model) p) \<le> 195000"
proof -
  let ?limit = "get_context_limit_for_model model"
  define R where "R = rnd64 (f64_of ?limit * rnd64 (3 / 10))"
  note w = window [OF refl assms, folded R_def]
  let ?start = "perception_start ?limit"
  consider "p = 0 \<or> p \<le> SCALING_THRESHOLD" | "0 < p" "\<not> p \<le> SCALING_THRESHOLD" "p \<le> ?start"
    | "0 < p" "\<not> p \<le> SCALING_THRESHOLD" "\<not> p \<le> ?start"
    by (auto simp: word_gt_0)
  then show ?thesis
  proof cases
    case 1
    then show ?thesis by (auto simp: scaled_total_def SCALING_THRESHOLD_def word_le_nat_alt)
  next
    case 2
    then have "unat (p - SCALING_THRESHOLD) \<le> 4000000"
      using unat_sub_le [of SCALING_THRESHOLD p] w by (simp add: word_le_nat_alt)
    then have "compressed (p - SCALING_THRESHOLD) \<le> 80000" by (blast dest: compressed_range)
    then show ?thesis using 2 by (simp add: scaled_total_def unat_trunc_le)
  next
    case 3
    have th: "SCALING_THRESHOLD \<le> ?start" using w by (simp add: SCALING_THRESHOLD_def word_le_nat_alt)
    have "unat (?start - SCALING_THRESHOLD) \<le> 4000000" using unat_sub_le [OF th] w by simp
    note c = compressed_range [OF this]
    have "rnd64 (f64_of (p - ?start) / R) \<le> rnd64 (1 + 1 / 2 ^ 19)"
      using w 3 by (intro f64.mono) (simp add: field_simps not_le)
    from interpolation_bound [OF conjunct1 [OF c] conjunct2 [OF c] this]
    show ?thesis using 3 w by (simp add: scaled_total_def Let_def R_def [symmetric] TARGET_MAX_def unat_trunc_le)
  qed
qed

lemma unat_sat_sub_add: "b \<le> a \<Longrightarrow> unat (sat_sub a b) + unat b = unat a" for a b :: "'a::len word"
  by (simp add: unat_sat_sub word_le_nat_alt)

text \<open>
  Note: for a prompt within the window of the model, the two numbers of input tokens that are reported
  (fresh and cached) add up to the scaled total, which never exceeds 195000, so a client with a
  window of 200000 tokens never sees it overrun. Without scaling, and up to 30000 tokens, the total is
  reported as it is.
\<close>

theorem reported_usage_bounded:
  assumes "p \<le> get_context_limit_for_model model" and "c \<le> p"
    and "prompt_token_count u = Some p" and "cached_content_token_count u = Some c"
  shows "let r = to_claude_usage u scaling (get_context_limit_for_model model);
             reported = unat (input_tokens r) + unat (unwrap_or_0 (cache_read_input_tokens r))
         in reported = unat (scaled_total scaling (get_context_limit_for_model model) p)
            \<and> (if scaling \<and> 30000 < p then reported \<le> 195000 else reported = unat p)"
proof -
  let ?s = "scaled_total scaling (get_context_limit_for_model model) p"
  have le: "(trunc_to (rnd64 (f64_of ?s * rnd64 (f64_of c / f64_of p))) :: u32) \<le> ?s" if "0 < p"
  proof -
    have "f64_of c / f64_of p \<le> 1" using f64_of_mono [OF assms(2)] f64_of_pos [OF that] by (simp add: field_simps)
    then have "0 \<le> rnd64 (f64_of c / f64_of p)" "rnd64 (f64_of c / f64_of p) \<le> 1"
      using f64.in_unit [of "f64_of c / f64_of p"] by simp_all
    then have "f64_of ?s * rnd64 (f64_of c / f64_of p) \<le> f64_of ?s" by (simp add: mult_left_le)
    then have "rnd64 (f64_of ?s * rnd64 (f64_of c / f64_of p)) \<le> f64_of ?s" by (intro f64.upper) simp_all
    then show ?thesis by (simp add: word_le_nat_alt unat_trunc_to f64_of_u32 floor_le_iff nat_le_iff min_def le_floor_iff)
  qed
  have "?s = p" if "\<not> (scaling \<and> 30000 < p)"
    using that by (auto simp: scaled_total_def SCALING_THRESHOLD_def not_less)
  moreover have "unat ?s \<le> 195000" if scaling
    using scaled_total_bounded [OF assms(1)] that by simp
  moreover have "?s = 0" if "p = 0" using that by (simp add: scaled_total_def)
  ultimately show ?thesis
    using assms(3,4) le by (auto simp: to_claude_usage_def unwrap_or_0_def Let_def unat_sat_sub_add word_gt_0)
qed

definition demo_usage :: "u32 \<Rightarrow> usage_metadata" where
  "demo_usage p = \<lparr>prompt_token_count = Some p, candidates_token_count = Some 7, total_token_count = None,
     cached_content_token_count = Some 1000\<rparr>"

theorem reported_usage_bounded_witness:
  "let r = to_claude_usage (demo_usage 1000000) True 1048576
   in unat (input_tokens r) + unat (unwrap_or_0 (cache_read_input_tokens r)) \<le> 195000"
  using reported_usage_bounded [of 1000000 "''flash''" 1000 "demo_usage 1000000" True]
  by (simp add: Let_def demo_usage_def get_context_limit_for_model_def)

text \<open>
  Note: just above the threshold the scaling adds tokens instead of removing some: the root grows
  faster than its argument there, so 30001 tokens are reported as 30025.
\<close>

theorem scaling_inflates:
  "scaled_total True 1048576 30001 = 30025"
proof -
  have i: "isqrt (1 * 4 ^ 60) = 1 * 2 ^ 60" by (rule isqrt_unique) simp_all
  have "fsqrt 1 = 1" unfolding fsqrt_def Let_def i by simp
  then have c: "compressed 1 = 30025"
    using f64.of_nat [of 25] f64.of_nat [of 30025] by (simp add: compressed_def)
  have "30001 \<le> unat (perception_start 1048576)"
  proof -
    have "rnd64 (of_nat 30001) \<le> rnd64 (f64_of (1048576 :: u32) * rnd64 (7 / 10))"
      by (intro f64.mono) (simp add: f64_of_u32 lit_07)
    then have "30001 \<le> rnd64 (f64_of (1048576 :: u32) * rnd64 (7 / 10))" using f64.of_nat [of 30001] by simp
    then show ?thesis by (simp add: perception_start_def unat_trunc_to le_floor_iff le_nat_iff)
  qed
  then have "30001 \<le> perception_start 1048576" by (simp add: word_le_nat_alt)
  then show ?thesis using c by (simp add: scaled_total_def SCALING_THRESHOLD_def trunc_to_def)
qed

section \<open>The factor stays in its range\<close>

lemma lit_06_32: "rnd32 (3 / 5) = 10066330 / 2 ^ 24"
  unfolding rnd32_def
  by (subst rnd_eval [where e = "- 1" and q = "- 24" and m = 10066330]) (simp_all add: power_int_def power_divide)

lemma lit_04_32: "rnd32 (2 / 5) = 13421773 / 2 ^ 25"
  unfolding rnd32_def
  by (subst rnd_eval [where e = "- 2" and q = "- 25" and m = 13421773]) (simp_all add: power_int_def power_divide)

lemma lit_08_32: "rnd32 (4 / 5) = 13421773 / 2 ^ 24"
  unfolding rnd32_def
  by (subst rnd_eval [where e = "- 1" and q = "- 24" and m = 13421773]) (simp_all add: power_int_def power_divide)

definition factor_ok :: "estimation_calibrator \<Rightarrow> bool" where
  "factor_ok c \<longleftrightarrow> rnd32 (4 / 5) \<le> calibration_factor c \<and> calibration_factor c \<le> 4"

abbreviation averaged :: "rat \<Rightarrow> rat \<Rightarrow> rat" where
  "averaged old new \<equiv> rnd32 (rnd32 (old * rnd32 (3 / 5)) + rnd32 (new * rnd32 (2 / 5)))"

lemma averaged_mono:
  "old \<le> old' \<Longrightarrow> new \<le> new' \<Longrightarrow> averaged old new \<le> averaged old' new'"
  by (intro f32.mono add_mono mult_right_mono) (simp_all add: lit_06_32 lit_04_32)

lemma averaged_max: "averaged 4 4 \<le> 4"
proof -
  have "rnd32 (4 * rnd32 (3 / 5)) = 4 * rnd32 (3 / 5)"
    using f32.exact [of 10066330 "- 22"] by (simp add: lit_06_32 power_int_def power_one_over)
  moreover have "rnd32 (4 * rnd32 (2 / 5)) = 4 * rnd32 (2 / 5)"
    using f32.exact [of 13421773 "- 23"] by (simp add: lit_04_32 power_int_def power_one_over)
  moreover have "rnd32 (4 * rnd32 (3 / 5) + 4 * rnd32 (2 / 5)) = 4"
    unfolding lit_06_32 lit_04_32 unfolding rnd32_def
    by (subst rnd_eval [where e = 2 and q = "- 21" and m = 8388608]) (simp_all add: power_int_def power_divide)
  ultimately show ?thesis by simp
qed

lemma averaged_min: "rnd32 (4 / 5) \<le> averaged (rnd32 (4 / 5)) (rnd32 (4 / 5))"
proof -
  have e: "rnd32 (of_int m / 2 ^ 25) = of_int m / 2 ^ 25" if "\<bar>m\<bar> \<le> 2 ^ 24" for m
    using f32.exact [of m "- 25"] that by (simp add: power_int_def power_one_over)
  have "of_int 16106128 / 2 ^ 25 \<le> rnd32 (rnd32 (4 / 5) * rnd32 (3 / 5))"
    by (intro f32.lower e) (simp_all add: lit_08_32 lit_06_32)
  moreover have "of_int 10737418 / 2 ^ 25 \<le> rnd32 (rnd32 (4 / 5) * rnd32 (2 / 5))"
    by (intro f32.lower e) (simp_all add: lit_08_32 lit_04_32)
  ultimately have "rnd32 (4 / 5) \<le> rnd32 (rnd32 (4 / 5) * rnd32 (3 / 5)) + rnd32 (rnd32 (4 / 5) * rnd32 (2 / 5))"
    by (simp add: lit_08_32)
  then show ?thesis by (intro f32.lower f32.idem)
qed

lemma factor_ok_update: "factor_ok c \<Longrightarrow> factor_ok (update_calibration c)"
proof -
  assume ok: "factor_ok c"
  define n where "n = max (rnd32 (4 / 5)) (min 4 (rnd32 (rnd64 (f64_of (total_actual c) / f64_of (total_estimated c)))))"
  have n: "rnd32 (4 / 5) \<le> n" "n \<le> 4" by (simp_all add: n_def lit_08_32)
  have "rnd32 (4 / 5) \<le> averaged (calibration_factor c) n"
    using averaged_mono [of "rnd32 (4 / 5)" "calibration_factor c" "rnd32 (4 / 5)" n] averaged_min ok n
    by (simp add: factor_ok_def del: f32.idem)
  moreover have "averaged (calibration_factor c) n \<le> 4"
    using averaged_mono [of "calibration_factor c" 4 n 4] averaged_max ok n by (simp add: factor_ok_def)
  ultimately show ?thesis using ok by (simp add: factor_ok_def update_calibration_def Let_def n_def)
qed

lemma factor_ok_record: "factor_ok c \<Longrightarrow> factor_ok (calibrator_record e a c)"
  unfolding calibrator_record_def Let_def by (auto intro!: factor_ok_update) (simp_all add: factor_ok_def)

lemma factor_ok_run: "factor_ok c \<Longrightarrow> factor_ok (fold (\<lambda>(e, a). calibrator_record e a) rs c)"
  by (induction rs arbitrary: c) (auto simp: factor_ok_record)

text \<open>
  Note: whatever pairs of estimated and actual counts are recorded, the factor stays between 0.8 and
  4, although it is computed with rounding and not clamped itself; so for up to \<open>2 ^ 24\<close> tokens a
  calibrated estimate is between four fifths of the raw one (rounded down) and four times it.
\<close>

theorem calibration_bounded:
  assumes "c = fold (\<lambda>(estimated, actual). calibrator_record estimated actual) records new_calibrator"
    and "unat raw \<le> 2 ^ 24"
  shows "rnd32 (4 / 5) \<le> get_factor c \<and> get_factor c \<le> 4
    \<and> 4 * unat raw div 5 \<le> unat (calibrate raw c) \<and> unat (calibrate raw c) \<le> 4 * unat raw"
proof -
  have "factor_ok new_calibrator" by (simp add: factor_ok_def new_calibrator_def lit_08_32)
  then have ok: "factor_ok c" unfolding assms(1) by (rule factor_ok_run)
  have r: "f32_of raw = of_nat (unat raw)" unfolding f32_of_def using assms(2) by (intro f32.of_nat) simp
  let ?x = "rnd32 (f32_of raw * calibration_factor c)"
  have "?x \<le> rnd32 (of_int (int (unat raw)) * pow2 2)"
    using ok by (intro f32.mono) (simp add: r factor_ok_def mult_left_mono)
  also have "\<dots> = of_nat (4 * unat raw)" using f32.exact [of "int (unat raw)" 2] assms(2) by simp
  finally have u: "?x \<le> of_nat (4 * unat raw)" .
  have "of_nat (4 * unat raw div 5) \<le> f32_of raw * (4 / 5 :: rat)"
  proof -
    have "5 * (4 * unat raw div 5) \<le> 4 * unat raw" by simp
    then have "(of_nat (5 * (4 * unat raw div 5)) :: rat) \<le> of_nat (4 * unat raw)" by (simp only: of_nat_le_iff)
    then show ?thesis by (simp add: r)
  qed
  also have "\<dots> \<le> f32_of raw * calibration_factor c"
    using ok by (intro mult_left_mono) (simp_all add: factor_ok_def lit_08_32)
  finally have "of_nat (4 * unat raw div 5) \<le> ?x" using assms(2) by (intro f32.lower f32.of_nat) simp_all
  with u ok assms(2) show ?thesis
    by (auto simp: calibrate_def get_factor_def factor_ok_def unat_trunc_to fceil_def nat_le_iff le_nat_iff ceiling_le_iff le_ceiling_iff)
qed

theorem calibration_bounded_witness:
  "unat (calibrate 100 (fold (\<lambda>(e, a). calibrator_record e a) (replicate 10 (100, 300)) new_calibrator)) \<le> 400"
  using calibration_bounded [of _ "replicate 10 (100, 300)" 100, OF refl] by simp

end
