(* ===== verification/Tool_Arguments.thy ===== *)
theory Tool_Arguments
  imports Rust_Strings
begin

text \<open>
  Arguments of tool calls, brought into the form of the tools' schemas. The code has the rules twice:
  \<open>mappers/claude/streaming/tool_remapping.rs\<close> for streams (\<open>stream_remap_args\<close>) and
  \<open>mappers/claude/response/tool_remap.rs\<close> for whole responses (\<open>response_remap_args\<close>).
\<close>

section \<open>The steps\<close>

text \<open>\<open>if let Some(v) = obj.remove(old)\<close>, and the value moves to \<open>new\<close> unless that key is present\<close>

definition rename_key :: "string \<Rightarrow> string \<Rightarrow> (string \<times> json) list \<Rightarrow> (string \<times> json) list" where
  "rename_key old new obj =
     (case tget obj old of
        None \<Rightarrow> obj
      | Some v \<Rightarrow>
          let obj = tdel old obj in if tget obj new = None then tput new v obj else obj)"

definition path_str :: "json \<Rightarrow> string" where
  "path_str paths =
     (case as_array paths of
        Some arr \<Rightarrow> (case Option.bind (first_of arr) as_str of Some s \<Rightarrow> s | None \<Rightarrow> ''.'')
      | None \<Rightarrow> (case as_str paths of Some s \<Rightarrow> s | None \<Rightarrow> ''.''))"

definition remap_paths_to_path :: "(string \<times> json) list \<Rightarrow> (string \<times> json) list" where
  "remap_paths_to_path obj =
     (if tget obj ''path'' = None
      then case tget obj ''paths'' of
             Some paths \<Rightarrow> tput ''path'' (JStr (path_str paths)) (tdel ''paths'' obj)
           | None \<Rightarrow> tput ''path'' (JStr ''.'') obj
      else obj)"

definition remap_grep_args :: "(string \<times> json) list \<Rightarrow> (string \<times> json) list" where
  "remap_grep_args obj =
     remap_paths_to_path (rename_key ''query'' ''pattern'' (rename_key ''description'' ''pattern'' obj))"

definition remap_glob_args :: "(string \<times> json) list \<Rightarrow> (string \<times> json) list" where
  "remap_glob_args obj =
     remap_paths_to_path (rename_key ''query'' ''pattern'' (rename_key ''description'' ''pattern'' obj))"

definition remap_read_args :: "(string \<times> json) list \<Rightarrow> (string \<times> json) list" where
  "remap_read_args obj = rename_key ''path'' ''file_path'' obj"

definition remap_ls_args :: "(string \<times> json) list \<Rightarrow> (string \<times> json) list" where
  "remap_ls_args obj = (if tget obj ''path'' = None then tput ''path'' (JStr ''.'') obj else obj)"

definition remap_generic_args :: "(string \<times> json) list \<Rightarrow> (string \<times> json) list" where
  "remap_generic_args obj =
     (let path_to_inject =
            (if tget obj ''path'' = None
             then case Option.bind (tget obj ''paths'') as_array of
                    Some [p] \<Rightarrow> as_str p
                  | _ \<Rightarrow> None
             else None)
      in case path_to_inject of Some p \<Rightarrow> tput ''path'' (JStr p) obj | None \<Rightarrow> obj)"

section \<open>The two versions\<close>

definition search_tools :: "string list" where
  "search_tools = [''grep'', ''search'', ''search_code_definitions'', ''search_code_snippets'']"

definition response_remap_args :: "string \<Rightarrow> json \<Rightarrow> json" where
  "response_remap_args tool_name args =
     (case args of
        JObj obj \<Rightarrow>
          JObj
            (let n = to_lowercase tool_name
             in if n \<in> set search_tools then remap_grep_args obj
                else if n = ''glob'' then remap_glob_args obj
                else if n = ''read'' then remap_read_args obj
                else if n = ''ls'' then remap_ls_args obj
                else remap_generic_args obj)
      | _ \<Rightarrow> args)"

text \<open>The version for streams has the same rules written out, after one for \<open>EnterPlanMode\<close>.\<close>

definition stream_remap_args :: "string \<Rightarrow> json \<Rightarrow> json" where
  "stream_remap_args name args =
     (case args of
        JObj obj \<Rightarrow>
          JObj
            (if name = ''EnterPlanMode'' then []
             else let n = to_lowercase name
                  in if n \<in> set search_tools \<or> n = ''glob''
                     then remap_paths_to_path (rename_key ''query'' ''pattern'' (rename_key ''description'' ''pattern'' obj))
                     else if n = ''read'' then rename_key ''path'' ''file_path'' obj
                     else if n = ''ls'' then (if tget obj ''path'' = None then tput ''path'' (JStr ''.'') obj else obj)
                     else remap_generic_args obj)
      | _ \<Rightarrow> args)"

section \<open>What they promise\<close>

lemma tget_rename_key [table_simps]:
  assumes "old \<noteq> new"
  shows "tget (rename_key old new obj) k =
    (if k = old then None
     else if k = new \<and> tget obj new = None then tget obj old
     else tget obj k)"
  using assms by (auto simp: rename_key_def Let_def split: option.split)

lemma tget_remap_paths [table_simps]:
  "tget (remap_paths_to_path obj) k =
     (if tget obj ''path'' \<noteq> None then tget obj k
      else if k = ''path'' then Some (JStr (case tget obj ''paths'' of Some v \<Rightarrow> path_str v | None \<Rightarrow> ''.''))
      else if k = ''paths'' then None
      else tget obj k)"
  by (auto simp: remap_paths_to_path_def split: option.split)

lemma rename_key_absent: "tget obj old = None \<Longrightarrow> rename_key old new obj = obj"
  by (simp add: rename_key_def)

lemma remap_paths_present: "tget obj ''path'' \<noteq> None \<Longrightarrow> remap_paths_to_path obj = obj"
  by (auto simp: remap_paths_to_path_def)

lemma search_remap_idem:
  "remap_paths_to_path (rename_key ''query'' ''pattern'' (rename_key ''description'' ''pattern''
     (remap_paths_to_path (rename_key ''query'' ''pattern'' (rename_key ''description'' ''pattern'' obj)))))
   = remap_paths_to_path (rename_key ''query'' ''pattern'' (rename_key ''description'' ''pattern'' obj))"
  (is "?f ?o = ?o")
proof -
  have "tget ?o ''description'' = None" "tget ?o ''query'' = None" "tget ?o ''path'' \<noteq> None"
    by (simp_all add: tget_rename_key tget_remap_paths)
  then show ?thesis by (simp add: rename_key_absent remap_paths_present)
qed

lemma read_remap_idem: "rename_key ''path'' ''file_path'' (rename_key ''path'' ''file_path'' obj) = rename_key ''path'' ''file_path'' obj"
  by (intro rename_key_absent) (simp add: tget_rename_key)

lemma generic_remap_idem: "remap_generic_args (remap_generic_args obj) = remap_generic_args obj"
  by (auto simp: remap_generic_args_def Let_def split: option.splits list.splits)

text \<open>
  Note: both versions settle in one step: remapping arguments again changes nothing, for any tool and
  any arguments. They agree on every tool except \<open>EnterPlanMode\<close>, whose arguments only the version
  for streams drops.
\<close>

theorem remaps_settle_and_agree:
  "stream_remap_args name (stream_remap_args name args) = stream_remap_args name args
   \<and> response_remap_args name (response_remap_args name args) = response_remap_args name args
   \<and> stream_remap_args name args
     = (if name = ''EnterPlanMode'' \<and> as_object args \<noteq> None then JObj [] else response_remap_args name args)"
proof (cases args)
  case (JObj obj)
  then show ?thesis
    by (auto simp: stream_remap_args_def response_remap_args_def Let_def as_object_def remap_grep_args_def
        remap_glob_args_def remap_read_args_def remap_ls_args_def search_remap_idem read_remap_idem generic_remap_idem)
qed (simp_all add: stream_remap_args_def response_remap_args_def as_object_def)

text \<open>
  Note: what the rules for the search tools do to an object: the pattern is the given pattern, else the
  description, else the query; a path is always there, the given one or the first of the paths; the
  other keys keep their values.
\<close>

theorem search_arguments:
  assumes "to_lowercase name \<in> set search_tools \<or> to_lowercase name = ''glob''" and "name \<noteq> ''EnterPlanMode''"
  shows "\<exists>obj'. stream_remap_args name (JObj obj) = JObj obj'
    \<and> tget obj' ''pattern'' = (case tget obj ''pattern'' of Some p \<Rightarrow> Some p | None \<Rightarrow>
         (case tget obj ''description'' of Some d \<Rightarrow> Some d | None \<Rightarrow> tget obj ''query''))
    \<and> tget obj' ''path'' = (case tget obj ''path'' of Some p \<Rightarrow> Some p | None \<Rightarrow>
         (case tget obj ''paths'' of Some ps \<Rightarrow> Some (JStr (path_str ps)) | None \<Rightarrow> Some (JStr ''.'')))
    \<and> tget obj' ''query'' = None \<and> tget obj' ''description'' = None
    \<and> (\<forall>k. k \<notin> {''pattern'', ''path'', ''paths'', ''query'', ''description''} \<longrightarrow> tget obj' k = tget obj k)"
  using assms
  by (auto simp: stream_remap_args_def Let_def tget_rename_key tget_remap_paths split: option.split)

theorem search_arguments_witness:
  "\<exists>obj'. stream_remap_args ''Grep'' (JObj [(''query'', JStr ''x''), (''paths'', JArr [JStr ''src''])]) = JObj obj'
    \<and> tget obj' ''pattern'' = Some (JStr ''x'') \<and> tget obj' ''path'' = Some (JStr ''src'')"
proof -
  have "to_lowercase ''Grep'' \<in> set search_tools"
    by (simp add: to_lowercase_ascii is_ascii_def ascii_lower_def search_tools_def) code_simp
  with search_arguments [of "''Grep''" "[(''query'', JStr ''x''), (''paths'', JArr [JStr ''src''])]"]
  show ?thesis by (auto simp: path_str_def as_array_def as_str_def first_of_def)
qed

end
