(* ===== verification/Claude_Types.thy ===== *)
theory Claude_Types
  imports Token_Estimates
begin

text \<open>
  The types of the Claude protocol that several mappers share: \<open>mappers/claude/content_block.rs\<close>,
  \<open>claude_response.rs\<close> and the messages of \<open>claude_models.rs\<close>. Constructors and fields are the source's,
  with a prefix where the name is taken.
\<close>

record image_source =
  is_source_type :: string
  is_media_type :: string
  is_data :: string

record document_source =
  ds_source_type :: string
  ds_media_type :: string
  ds_data :: string

datatype content_block =
    CText string
  | CThinking string "string option" "json option"          \<comment> \<open>thinking, signature, cache control\<close>
  | CImage image_source "json option"
  | CDocument document_source "json option"
  | CRedactedThinking string
  | CToolUse string string json "string option" "json option" \<comment> \<open>id, name, input, signature, cache control\<close>
  | CToolResult string json "bool option"
  | CServerToolUse string string json
  | CWebSearchToolResult string json

record claude_response =
  cr_id :: string
  cr_type :: string
  cr_role :: string
  cr_model :: string
  cr_content :: "content_block list"
  cr_stop_reason :: string
  cr_stop_sequence :: "string option"
  cr_usage :: usage

definition zero_usage :: usage where
  "zero_usage = \<lparr>input_tokens = 0, output_tokens = 0, cache_read_input_tokens = None,
     cache_creation_input_tokens = None, server_tool_use = None\<rparr>"

datatype message_content = MString string | MArray "content_block list"

record claude_message =
  cm_role :: string
  cm_content :: message_content

text \<open>Requests, \<open>claude_models.rs\<close>, with the tools and options of \<open>claude_response.rs\<close>\<close>

record claude_tool =
  ct_type :: "string option"
  ct_name :: "string option"
  ct_description :: "string option"
  ct_input_schema :: "json option"

definition is_web_search :: "claude_tool \<Rightarrow> bool" where
  "is_web_search t \<longleftrightarrow>
     (case ct_type t of Some ty \<Rightarrow> starts_with ty ''web_search'' | None \<Rightarrow> False) \<or> ct_name t = Some ''web_search''"

record thinking_config =
  tc_type :: string
  tc_budget_tokens :: "u32 option"

datatype system_prompt = SString string | SArray "(string \<times> string) list"  \<comment> \<open>type and text of each block\<close>

text \<open>
  Temperature and top-p are \<open>f32\<close>; of metadata and output configuration the optional user id and effort
  are kept.
\<close>

record claude_request =
  rq_model :: string
  rq_messages :: "claude_message list"
  rq_system :: "system_prompt option"
  rq_tools :: "claude_tool list option"
  rq_stream :: bool
  rq_max_tokens :: "u32 option"
  rq_temperature :: "rat option"
  rq_top_p :: "rat option"
  rq_top_k :: "u32 option"
  rq_thinking :: "thinking_config option"
  rq_stop_sequences :: "string list option"
  rq_metadata :: "string option option"
  rq_output_config :: "string option option"

definition str_or :: "string \<Rightarrow> json option \<Rightarrow> string" where
  "str_or d v = (case Option.bind v as_str of Some x \<Rightarrow> x | None \<Rightarrow> d)"

text \<open>What a reader sees of an answer: its text and its thoughts\<close>

fun block_text :: "content_block \<Rightarrow> string" where
  "block_text (CText t) = t"
| "block_text _ = []"

fun block_thinking :: "content_block \<Rightarrow> string" where
  "block_thinking (CThinking t _ _) = t"
| "block_thinking _ = []"

definition response_text :: "claude_response \<Rightarrow> string" where
  "response_text r = concat (map block_text (cr_content r))"

definition response_thinking :: "claude_response \<Rightarrow> string" where
  "response_thinking r = concat (map block_thinking (cr_content r))"

end
