(* ===== verification/Streaming.thy ===== *)
theory Streaming
  imports Signature_Cache Claude_Types Tool_Arguments
begin

text \<open>
  The state machine that turns the stream of the upstream service into server-sent events of the
  Claude protocol: \<open>mappers/claude/streaming/\<close> (\<open>state.rs\<close>, \<open>state_events.rs\<close>, \<open>state_finish.rs\<close>,
  \<open>part_processor.rs\<close>, \<open>function_call_processor.rs\<close>, \<open>signature_manager.rs\<close>) and
  \<open>mappers/claude/sse_stream.rs\<close>.

  The global signature cache and the global calibrator, which these functions change, are fields of the
  state here. Libraries are parameters (\<open>stream_env\<close>): base64, SHA-256, the parser and the printer of
  \<open>serde_json\<close>, its derived readers, random identifiers. Logging and metrics are left out; a warning
  whose arguments can panic is not.
\<close>

section \<open>Data\<close>

record function_call =
  fc_name :: string
  fc_id :: "string option"
  fc_args :: "json option"

record inline_data =
  id_mime_type :: string
  id_data :: string

record gemini_part =
  gp_text :: "string option"
  gp_thought :: "bool option"
  gp_thought_signature :: "string option"
  gp_function_call :: "function_call option"
  gp_inline_data :: "inline_data option"

record stream_env =
  decode_base64 :: "string \<Rightarrow> string option"
  content_digest :: "string \<Rightarrow> string"
  from_str :: "string \<Rightarrow> json option"
  to_str :: "json \<Rightarrow> string"
  part_of_json :: "json \<Rightarrow> gemini_part option"
  usage_of_json :: "json \<Rightarrow> usage_metadata option"
  random_id :: "nat \<Rightarrow> string"

datatype block_type = NoBlock | Text | Thinking | Function

record streaming_state =
  ss_block_type :: block_type
  ss_block_index :: usize
  ss_message_start_sent :: bool
  ss_message_stop_sent :: bool
  ss_used_tool :: bool
  ss_pending :: "string option"          \<comment> \<open>\<open>SignatureManager\<close>\<close>
  ss_trailing_signature :: "string option"
  ss_web_search_query :: "string option"
  ss_grounding_chunks :: "json list option"
  ss_model_name :: "string option"
  ss_session_id :: "string option"
  ss_scaling_enabled :: bool
  ss_context_limit :: u32
  ss_mcp_xml_buffer :: string
  ss_in_mcp_xml :: bool
  ss_estimated_tokens :: "u32 option"
  ss_accumulated_thinking :: string
  ss_thinking_received :: bool
  ss_received_finish_reason :: bool
  ss_stream_errored :: bool
  ss_cache :: signature_cache            \<comment> \<open>global\<close>
  ss_calibrator :: estimation_calibrator \<comment> \<open>global\<close>
  ss_draws :: nat                        \<comment> \<open>random identifiers drawn so far\<close>

definition new_streaming_state :: "signature_cache \<Rightarrow> estimation_calibrator \<Rightarrow> streaming_state" where
  "new_streaming_state cache calibrator =
     \<lparr>ss_block_type = NoBlock, ss_block_index = 0, ss_message_start_sent = False, ss_message_stop_sent = False,
      ss_used_tool = False, ss_pending = None, ss_trailing_signature = None, ss_web_search_query = None,
      ss_grounding_chunks = None, ss_model_name = None, ss_session_id = None, ss_scaling_enabled = False,
      ss_context_limit = 1048576, ss_mcp_xml_buffer = [], ss_in_mcp_xml = False, ss_estimated_tokens = None,
      ss_accumulated_thinking = [], ss_thinking_received = False, ss_received_finish_reason = False,
      ss_stream_errored = False, ss_cache = cache, ss_calibrator = calibrator, ss_draws = 0\<rparr>"

text \<open>
  What is sent: an event with a name and data, or bytes as they are. \<open>render\<close> gives the bytes of an event,
  as \<open>emit\<close> does at once; the events are kept apart until then so that their data can be looked at.
\<close>

datatype chunk = Event string json | Raw string

definition emit :: "string \<Rightarrow> json \<Rightarrow> chunk" where
  "emit event_type d = Event event_type d"

definition newline :: string where "newline = [CHR 0x0A]"

fun render :: "stream_env \<Rightarrow> chunk \<Rightarrow> string" where
  "render env (Event event_type d) =
     ''event: '' @ event_type @ newline @ ''data: '' @ to_str env d @ newline @ newline"
| "render env (Raw s) = s"

definition message_stop :: chunk where
  "message_stop = Raw (''event: message_stop'' @ newline @ ''data: {'' @ [CHR 0x22] @ ''type'' @ [CHR 0x22] @ '':''
     @ [CHR 0x22] @ ''message_stop'' @ [CHR 0x22] @ ''}'' @ newline @ newline)"

section \<open>Blocks\<close>

definition store_signature_opt :: "string option \<Rightarrow> streaming_state \<Rightarrow> streaming_state" where
  "store_signature_opt signature s =
     (case signature of Some g \<Rightarrow> if g \<noteq> [] then s\<lparr>ss_pending := signature\<rparr> else s | None \<Rightarrow> s)"

definition consume_pending :: "streaming_state \<Rightarrow> string option \<times> streaming_state" where
  "consume_pending s = (ss_pending s, s\<lparr>ss_pending := None\<rparr>)"

definition has_pending :: "streaming_state \<Rightarrow> bool" where
  "has_pending s = (ss_pending s \<noteq> None)"

definition jindex_of :: "streaming_state \<Rightarrow> json" where
  "jindex_of s = JNum (PosInt (ss_block_index s))"

definition emit_delta :: "string \<Rightarrow> json \<Rightarrow> streaming_state \<Rightarrow> chunk" where
  "emit_delta delta_type delta_content s =
     emit ''content_block_delta''
       (JObj [(''type'', JStr ''content_block_delta''), (''index'', jindex_of s),
              (''delta'', JObj (case delta_content of
                 JObj m \<Rightarrow> fold (\<lambda>(k, v) d. tput k v d) m [(''type'', JStr delta_type)]
               | _ \<Rightarrow> [(''type'', JStr delta_type)]))])"

definition block_start :: "json \<Rightarrow> streaming_state \<Rightarrow> chunk" where
  "block_start content_block s =
     emit ''content_block_start''
       (JObj [(''type'', JStr ''content_block_start''), (''index'', jindex_of s), (''content_block'', content_block)])"

definition block_stop :: "streaming_state \<Rightarrow> chunk" where
  "block_stop s =
     emit ''content_block_stop'' (JObj [(''type'', JStr ''content_block_stop''), (''index'', jindex_of s)])"

definition end_block :: "streaming_state \<Rightarrow> chunk list \<times> streaming_state" where
  "end_block s =
     (if ss_block_type s = NoBlock then ([], s)
      else let (chunks, s) =
                 (if ss_block_type s = Thinking \<and> has_pending s
                  then case consume_pending s of
                         (Some signature, s') \<Rightarrow> ([emit_delta ''signature_delta'' (JObj [(''signature'', JStr signature)]) s], s')
                       | (None, s') \<Rightarrow> ([], s')
                  else ([], s))
           in (chunks @ [block_stop s], s\<lparr>ss_block_index := ss_block_index s + 1, ss_block_type := NoBlock\<rparr>))"

definition start_block :: "block_type \<Rightarrow> json \<Rightarrow> streaming_state \<Rightarrow> chunk list \<times> streaming_state" where
  "start_block bt content_block s =
     (let (chunks, s) = (if ss_block_type s \<noteq> NoBlock then end_block s else ([], s))
      in (chunks @ [block_start content_block s], s\<lparr>ss_block_type := bt\<rparr>))"

definition MAX_THINKING_SIZE :: nat where "MAX_THINKING_SIZE = 2 * 1024 * 1024"

definition accumulate_thinking :: "string \<Rightarrow> streaming_state \<Rightarrow> streaming_state" where
  "accumulate_thinking txt s =
     (if length (ss_accumulated_thinking s) < MAX_THINKING_SIZE
      then let remaining = MAX_THINKING_SIZE - length (ss_accumulated_thinking s)
           in if length txt \<le> remaining
              then s\<lparr>ss_accumulated_thinking := ss_accumulated_thinking s @ txt\<rparr>
              else s\<lparr>ss_accumulated_thinking := ss_accumulated_thinking s @ take (floor_char_boundary txt remaining) txt\<rparr>
      else s)"

definition get_accumulated_thinking :: "streaming_state \<Rightarrow> string \<times> streaming_state" where
  "get_accumulated_thinking s = (ss_accumulated_thinking s, s\<lparr>ss_accumulated_thinking := []\<rparr>)"

section \<open>Signatures\<close>

definition on_cache :: "(signature_cache \<Rightarrow> signature_cache) \<Rightarrow> streaming_state \<Rightarrow> streaming_state" where
  "on_cache f s = s\<lparr>ss_cache := f (ss_cache s)\<rparr>"

text \<open>\<open>if let Some(session_id) = &self.session_id\<close>: the signature is cached for the session.\<close>

definition cache_for_session :: "nanos \<Rightarrow> string \<Rightarrow> streaming_state \<Rightarrow> streaming_state" where
  "cache_for_session now signature s =
     (case ss_session_id s of
        Some sid \<Rightarrow> on_cache (cache_session_signature now sid signature) s
      | None \<Rightarrow> s)"

definition thinking_block :: json where
  "thinking_block = JObj [(''type'', JStr ''thinking''), (''thinking'', JStr [])]"

definition text_block :: json where
  "text_block = JObj [(''type'', JStr ''text''), (''text'', JStr [])]"

text \<open>The block that carries a trailing signature\<close>

definition signature_block :: "string \<Rightarrow> streaming_state \<Rightarrow> chunk list \<times> streaming_state" where
  "signature_block signature s =
     (let chunks = [block_start thinking_block s, emit_delta ''thinking_delta'' (JObj [(''thinking'', JStr [])]) s,
                    emit_delta ''signature_delta'' (JObj [(''signature'', JStr signature)]) s];
          (ended, s) = end_block (s\<lparr>ss_block_type := Thinking\<rparr>)
      in (chunks @ ended, s))"

definition emit_trailing_signature :: "nanos \<Rightarrow> streaming_state \<Rightarrow> chunk list \<times> streaming_state" where
  "emit_trailing_signature now s =
     (let (chunks, s) = end_block s
      in case ss_trailing_signature s of
           Some trailing_sig \<Rightarrow>
             let (block, s) = signature_block trailing_sig
                                (cache_for_session now trailing_sig (s\<lparr>ss_trailing_signature := None\<rparr>))
             in (chunks @ block, s)
         | None \<Rightarrow> (chunks, s))"

text \<open>\<open>if self.state.has_trailing_signature()\<close>\<close>

definition flush_trailing :: "nanos \<Rightarrow> streaming_state \<Rightarrow> chunk list \<times> streaming_state" where
  "flush_trailing now s = (if ss_trailing_signature s \<noteq> None then emit_trailing_signature now s else ([], s))"

section \<open>Parts\<close>

text \<open>The block of a call: its identifier, its name and its signature, which is cached\<close>

definition tool_use_block ::
  "stream_env \<Rightarrow> nanos \<Rightarrow> function_call \<Rightarrow> string option \<Rightarrow> streaming_state \<Rightarrow> json \<times> streaming_state" where
  "tool_use_block env now fc signature s =
     (let (tool_id, s) =
            (case fc_id fc of
               Some i \<Rightarrow> (i, s)
             | None \<Rightarrow> (fc_name fc @ ''-'' @ random_id env (ss_draws s), s\<lparr>ss_draws := ss_draws s + 1\<rparr>));
          tool_use = [(''type'', JStr ''tool_use''), (''id'', JStr tool_id),
                      (''name'', JStr (if to_lowercase (fc_name fc) = ''search'' then ''grep'' else fc_name fc)),
                      (''input'', JObj [])]
      in case signature of
           Some g \<Rightarrow> (JObj (tput ''signature'' (JStr g) tool_use),
                      cache_for_session now g (on_cache (cache_tool_signature now tool_id g) s))
         | None \<Rightarrow> (JObj tool_use, s))"

definition process_function_call ::
  "stream_env \<Rightarrow> nanos \<Rightarrow> function_call \<Rightarrow> string option \<Rightarrow> streaming_state \<Rightarrow> chunk list \<times> streaming_state" where
  "process_function_call env now fc signature s =
     (let (tool_use, s) = tool_use_block env now fc signature (s\<lparr>ss_used_tool := True\<rparr>);
          (chunks, s) = start_block Function tool_use s;
          args = (case fc_args fc of
                    Some args \<Rightarrow>
                      let final_tool_name = (if to_lowercase (fc_name fc) = ''search'' then ''Grep'' else fc_name fc)
                      in [emit_delta ''input_json_delta''
                           (JObj [(''partial_json'', JStr (to_str env (stream_remap_args final_tool_name args)))]) s]
                  | None \<Rightarrow> []);
          (ended, s) = end_block s
      in (chunks @ args @ ended, s))"

text \<open>The signature of a thought is cached with its model, its text and its session.\<close>

definition remember_signature :: "stream_env \<Rightarrow> nanos \<Rightarrow> string \<Rightarrow> streaming_state \<Rightarrow> streaming_state" where
  "remember_signature env now sig s =
     cache_for_session now sig
       (case ss_model_name s of
          Some model \<Rightarrow>
            let s = on_cache (cache_thinking_family now sig model) s;
                (accumulated, s) = get_accumulated_thinking s
            in if accumulated \<noteq> []
               then on_cache (cache_content_signature (content_digest env) now accumulated sig model) s
               else s
        | None \<Rightarrow> s)"

definition process_thinking ::
  "stream_env \<Rightarrow> nanos \<Rightarrow> string \<Rightarrow> string option \<Rightarrow> streaming_state \<Rightarrow> chunk list \<times> streaming_state" where
  "process_thinking env now txt signature s =
     (let (c0, s) = flush_trailing now s;
          (c1, s) =
            (if ss_block_type s \<noteq> Thinking
             then start_block Thinking thinking_block (s\<lparr>ss_thinking_received := True\<rparr>)
             else ([], s));
          (c2, s) =
            (if txt \<noteq> []
             then ([emit_delta ''thinking_delta'' (JObj [(''thinking'', JStr txt)]) s], accumulate_thinking txt s)
             else ([], s));
          s = (case signature of Some sig \<Rightarrow> remember_signature env now sig s | None \<Rightarrow> s)
      in (c0 @ c1 @ c2, store_signature_opt signature s))"

text \<open>
  Tool calls inside the text, \<open><mcp__name>...</mcp__name>\<close>: begin and end of the opening tag, the name,
  and the position of the closing tag. The code then slices from behind the opening tag to the closing
  tag, which panics if the closing tag comes first.
\<close>

definition closing_tag :: "string \<Rightarrow> string" where
  "closing_tag tag_name = ''</'' @ tag_name @ ''>''"

definition find_mcp_tag :: "string \<Rightarrow> (nat \<times> nat \<times> string \<times> nat) option" where
  "find_mcp_tag buffer =
     (case str_find buffer ''<mcp__'' of
        Some start_idx \<Rightarrow>
          (case str_find (drop start_idx buffer) ''>'' of
             Some tag_end_idx \<Rightarrow>
               (let tag_name = take (tag_end_idx - 1) (drop (start_idx + 1) buffer)
                in case str_find buffer (closing_tag tag_name) of
                     Some close_idx \<Rightarrow> Some (start_idx, start_idx + tag_end_idx, tag_name, close_idx)
                   | None \<Rightarrow> None)
           | None \<Rightarrow> None)
      | None \<Rightarrow> None)"

definition mcp_input :: "stream_env \<Rightarrow> string \<Rightarrow> json" where
  "mcp_input env input_str =
     (case from_str env (trim input_str) of Some v \<Rightarrow> v | None \<Rightarrow> JObj [(''input'', JStr (trim input_str))])"

text \<open>The call that was found: its chunks, those of the text before it, and the text behind it\<close>

definition process_mcp_call ::
  "stream_env \<Rightarrow> nanos \<Rightarrow> string \<Rightarrow> nat \<times> nat \<times> string \<times> nat \<Rightarrow> streaming_state
   \<Rightarrow> panic + chunk list \<times> string \<times> streaming_state" where
  "process_mcp_call env now buffer tag s =
     (let (start_idx, actual_tag_end, tag_name, close_idx) = tag
      in if close_idx < actual_tag_end + 1 then Inl SliceRange
         else
           let input_str = take (close_idx - (actual_tag_end + 1)) (drop (actual_tag_end + 1) buffer);
               fc = \<lparr>fc_name = tag_name, fc_id = Some (tag_name @ ''-xml''), fc_args = Some (mcp_input env input_str)\<rparr>;
               (tool_chunks, s) = process_function_call env now fc None s;
               s = s\<lparr>ss_mcp_xml_buffer := [], ss_in_mcp_xml := False\<rparr>;
               (prefix_chunks, s) =
                 (if 0 < start_idx
                  then let (c, s) = (if ss_block_type s \<noteq> Text then start_block Text text_block s else ([], s))
                       in (c @ [emit_delta ''text_delta'' (JObj [(''text'', JStr (take start_idx buffer))]) s], s)
                  else ([], s))
           in Inr (prefix_chunks @ tool_chunks, drop (close_idx + length (closing_tag tag_name)) buffer, s))"

lemma end_block_buffer [simp]: "ss_mcp_xml_buffer (snd (end_block s)) = ss_mcp_xml_buffer s"
  by (simp add: end_block_def consume_pending_def split: option.split)

lemma signature_block_buffer [simp]: "ss_mcp_xml_buffer (snd (signature_block g s)) = ss_mcp_xml_buffer s"
  by (simp add: signature_block_def Let_def case_prod_unfold)

lemma cache_for_session_buffer [simp]: "ss_mcp_xml_buffer (cache_for_session now g s) = ss_mcp_xml_buffer s"
  by (simp add: cache_for_session_def on_cache_def split: option.split)

lemma flush_trailing_buffer [simp]: "ss_mcp_xml_buffer (snd (flush_trailing now s)) = ss_mcp_xml_buffer s"
  by (simp add: flush_trailing_def emit_trailing_signature_def Let_def case_prod_unfold split: option.split)

lemma process_mcp_call_measure:
  "process_mcp_call env now buffer tag s = Inr (c, suffix, s') \<Longrightarrow> buffer \<noteq> [] \<Longrightarrow>
     ss_mcp_xml_buffer s' = [] \<and> length suffix < length buffer"
  by (auto simp: process_mcp_call_def closing_tag_def Let_def start_block_def case_prod_unfold split: if_splits)


text \<open>
  Incomplete calls stay in the buffer; then nothing is sent, not even what \<open>flush_trailing\<close> produced
  (\<open>return vec![]\<close>). Behind a complete call the rest of the text is processed in the same way.
\<close>

function process_text ::
  "stream_env \<Rightarrow> nanos \<Rightarrow> string \<Rightarrow> string option \<Rightarrow> streaming_state \<Rightarrow> panic + chunk list \<times> streaming_state" where
  "process_text env now txt signature s =
     (if txt = []
      then if signature = None then Inr ([], s)
           else let (c0, s) = flush_trailing now s in Inr (c0, s\<lparr>ss_trailing_signature := signature\<rparr>)
      else
        let flushed = flush_trailing now s; c0 = fst flushed; s1 = snd flushed
        in case signature of
             Some sig \<Rightarrow>
               let s = cache_for_session now sig s1;
                   (c1, s) = start_block Text text_block s;
                   d = emit_delta ''text_delta'' (JObj [(''text'', JStr txt)]) s;
                   (c2, s) = end_block s
               in Inr (c0 @ c1 @ [d] @ c2, s)
           | None \<Rightarrow>
               if contains txt ''<mcp__'' \<or> ss_in_mcp_xml s1
               then let buffer = ss_mcp_xml_buffer s1 @ txt;
                        s = s1\<lparr>ss_in_mcp_xml := True, ss_mcp_xml_buffer := buffer\<rparr>
                    in if contains buffer ''</mcp__'' \<and> contains buffer ''>''
                       then case find_mcp_tag buffer of
                              Some tag \<Rightarrow>
                                (case process_mcp_call env now buffer tag s of
                                   Inl p \<Rightarrow> Inl p
                                 | Inr (c1, suffix, s) \<Rightarrow>
                                     if suffix = [] then Inr (c0 @ c1, s)
                                     else case process_text env now suffix None s of
                                            Inl p \<Rightarrow> Inl p
                                          | Inr (c2, s) \<Rightarrow> Inr (c0 @ c1 @ c2, s))
                            | None \<Rightarrow> Inr ([], s)
                       else Inr ([], s)
               else
                 let (c1, s) = (if ss_block_type s1 \<noteq> Text then start_block Text text_block s1 else ([], s1))
                 in Inr (c0 @ c1 @ [emit_delta ''text_delta'' (JObj [(''text'', JStr txt)]) s], s))"
  by pat_completeness auto

termination
  by (relation "measure (\<lambda>(env, now, txt, signature, s). length (ss_mcp_xml_buffer s @ txt))")
     (auto dest: process_mcp_call_measure)

declare process_text.simps [simp del]

definition decode_signature :: "stream_env \<Rightarrow> string \<Rightarrow> string" where
  "decode_signature env sig = (case decode_base64 env sig of Some decoded \<Rightarrow> decoded | None \<Rightarrow> sig)"

definition image_text :: "inline_data \<Rightarrow> string" where
  "image_text img = (CHR ''!'') # ''[image](data:'' @ id_mime_type img @ '';base64,'' @ id_data img @ '')''"

definition process_part ::
  "stream_env \<Rightarrow> nanos \<Rightarrow> gemini_part \<Rightarrow> streaming_state \<Rightarrow> panic + chunk list \<times> streaming_state" where
  "process_part env now part s =
     (if ss_message_stop_sent s then Inr ([], s)
      else
        let signature = map_option (decode_signature env) (gp_thought_signature part)
        in case gp_function_call part of
             Some fc \<Rightarrow>
               let (c0, s) = flush_trailing now s;
                   (c1, s) = process_function_call env now fc signature s
               in Inr (c0 @ c1, s)
           | None \<Rightarrow>
               (case (case gp_text part of
                        Some txt \<Rightarrow>
                          if gp_thought part = Some True then Inr (process_thinking env now txt signature s)
                          else process_text env now txt signature s
                      | None \<Rightarrow> Inr ([], s)) of
                  Inl p \<Rightarrow> Inl p
                | Inr (c0, s) \<Rightarrow>
                    (case gp_inline_data part of
                       Some img \<Rightarrow>
                         if id_data img \<noteq> []
                         then case process_text env now
                                (image_text img) None s of
                                Inl p \<Rightarrow> Inl p
                              | Inr (c1, s) \<Rightarrow> Inr (c0 @ c1, s)
                         else Inr (c0, s)
                     | None \<Rightarrow> Inr (c0, s))))"

section \<open>Begin and end of the message\<close>

text \<open>The derived serialisation of \<open>Usage\<close>: absent fields are left out.\<close>

definition json_of_usage :: "usage \<Rightarrow> json" where
  "json_of_usage u =
     (let num = (\<lambda>n :: u32. JNum (PosInt (ucast n)));
          opt = (\<lambda>k x. case x of Some v \<Rightarrow> [(k, v)] | None \<Rightarrow> [])
      in JObj ([(''input_tokens'', num (input_tokens u)), (''output_tokens'', num (output_tokens u))]
         @ opt ''cache_read_input_tokens'' (map_option num (cache_read_input_tokens u))
         @ opt ''cache_creation_input_tokens'' (map_option num (cache_creation_input_tokens u))
         @ opt ''server_tool_use'' (server_tool_use u)))"

definition emit_message_start :: "stream_env \<Rightarrow> json \<Rightarrow> streaming_state \<Rightarrow> chunk \<times> streaming_state" where
  "emit_message_start env raw_json s =
     (if ss_message_start_sent s then (Raw [], s)
      else
        let u = (case Option.bind (jget ''usageMetadata'' raw_json) (usage_of_json env) of
                   Some m \<Rightarrow> to_claude_usage m (ss_scaling_enabled s) (ss_context_limit s)
                 | None \<Rightarrow> zero_usage);
            message = JObj
              [(''id'', JStr (str_or ''msg_unknown'' (jget ''responseId'' raw_json))), (''type'', JStr ''message''),
               (''role'', JStr ''assistant''), (''content'', JArr []),
               (''model'', JStr (str_or [] (jget ''modelVersion'' raw_json))),
               (''stop_reason'', JNull), (''stop_sequence'', JNull), (''usage'', json_of_usage u)];
            s = (case Option.bind (jget ''modelVersion'' raw_json) as_str of
                   Some m \<Rightarrow> s\<lparr>ss_model_name := Some m\<rparr> | None \<Rightarrow> s)
        in (emit ''message_start'' (JObj [(''type'', JStr ''message_start''), (''message'', message)]),
            s\<lparr>ss_message_start_sent := True\<rparr>))"

definition determine_stop_reason :: "string option \<Rightarrow> bool \<Rightarrow> streaming_state \<Rightarrow> string" where
  "determine_stop_reason finish_reason stream_truncated s =
     (if stream_truncated \<or> finish_reason = Some ''MAX_TOKENS'' then ''max_tokens''
      else if ss_used_tool s then ''tool_use'' else ''end_turn'')"

definition searched_for :: string where
  "searched_for = newline @ newline @ ''---'' @ newline @ ''**'' @ map byte [240, 159, 148, 141] @ '' Searched for:** ''"

definition source_citations :: string where
  "source_citations = newline @ newline @ ''**'' @ map byte [240, 159, 140, 144] @ '' Source Citations:**'' @ newline"

definition join_lines :: "string list \<Rightarrow> string" where
  "join_lines ls = concat (case ls of [] \<Rightarrow> [] | l # rest \<Rightarrow> l # map (\<lambda>x. newline @ x) rest)"

definition citation :: "nat \<times> json \<Rightarrow> string option" where
  "citation = (\<lambda>(i, chunk).
     map_option (\<lambda>web. ''['' @ show_nat (i + 1) @ ''] ['' @ str_or ''Web Source'' (jget ''title'' web)
                        @ '']('' @ str_or ''#'' (jget ''uri'' web) @ '')'')
       (jget ''web'' chunk))"

definition grounding_text :: "streaming_state \<Rightarrow> string" where
  "grounding_text s =
     (let searched = (case ss_web_search_query s of
                        Some q \<Rightarrow> if q \<noteq> [] then searched_for @ q else [] | None \<Rightarrow> []);
          links = (case ss_grounding_chunks s of
                     Some g \<Rightarrow> List.map_filter citation (enumerate 0 g) | None \<Rightarrow> [])
      in searched @ (if links \<noteq> [] then source_citations @ join_lines links else []))"

definition emit_grounding_block :: "streaming_state \<Rightarrow> chunk list \<times> streaming_state" where
  "emit_grounding_block s =
     (if ss_web_search_query s = None \<and> ss_grounding_chunks s = None then ([], s)
      else if grounding_text s \<noteq> []
           then ([block_start text_block s, emit_delta ''text_delta'' (JObj [(''text'', JStr (grounding_text s))]) s,
                  block_stop s],
                 s\<lparr>ss_block_index := ss_block_index s + 1\<rparr>)
           else ([], s))"

text \<open>The open block, the trailing signature and the grounding are sent before the end.\<close>

definition finish_trailing :: "nanos \<Rightarrow> streaming_state \<Rightarrow> chunk list \<times> streaming_state" where
  "finish_trailing now s =
     (case ss_trailing_signature s of
        Some signature \<Rightarrow>
          signature_block signature (cache_for_session now signature (s\<lparr>ss_trailing_signature := None\<rparr>))
      | None \<Rightarrow> ([], s))"

definition finish_blocks :: "nanos \<Rightarrow> streaming_state \<Rightarrow> chunk list \<times> streaming_state" where
  "finish_blocks now s =
     (let (c1, s) = end_block s; (c2, s) = finish_trailing now s; (c3, s) = emit_grounding_block s
      in (c1 @ c2 @ c3, s))"

definition record_estimate :: "usage_metadata option \<Rightarrow> streaming_state \<Rightarrow> streaming_state" where
  "record_estimate usage_metadata s =
     (case (ss_estimated_tokens s, usage_metadata) of
        (Some estimated, Some um) \<Rightarrow>
          let actual = unwrap_or_0 (prompt_token_count um) + unwrap_or_0 (candidates_token_count um)
          in if 0 < actual then s\<lparr>ss_calibrator := calibrator_record estimated actual (ss_calibrator s)\<rparr> else s
      | _ \<Rightarrow> s)"

definition emit_finish ::
  "nanos \<Rightarrow> string option \<Rightarrow> usage_metadata option \<Rightarrow> streaming_state \<Rightarrow> chunk list \<times> streaming_state" where
  "emit_finish now finish_reason usage_metadata s =
     (let s = (if finish_reason \<noteq> None then s\<lparr>ss_received_finish_reason := True\<rparr> else s)
      in if ss_message_stop_sent s then ([], s)
         else
           let was_inside_block = (ss_block_type s \<noteq> NoBlock);
               (chunks, s) = finish_blocks now s;
               stop_reason = determine_stop_reason finish_reason (finish_reason = None \<and> was_inside_block) s;
               u = (case usage_metadata of
                      Some m \<Rightarrow> to_claude_usage m (ss_scaling_enabled s) (ss_context_limit s) | None \<Rightarrow> zero_usage);
               message_delta = emit ''message_delta''
                      (JObj [(''type'', JStr ''message_delta''),
                             (''delta'', JObj [(''stop_reason'', JStr stop_reason), (''stop_sequence'', JNull)]),
                             (''usage'', json_of_usage u)])
           in (chunks @ [message_delta, message_stop],
               (record_estimate usage_metadata s)\<lparr>ss_message_stop_sent := True\<rparr>))"

definition emit_force_stop :: "nanos \<Rightarrow> streaming_state \<Rightarrow> chunk list \<times> streaming_state" where
  "emit_force_stop now s =
     (if ss_stream_errored s then ([], s)
      else if \<not> ss_message_stop_sent s
      then let (chunks, s) = emit_finish now None None s
           in if chunks = [] then ([message_stop], s\<lparr>ss_message_stop_sent := True\<rparr>) else (chunks, s)
      else ([], s))"

section \<open>Lines and streams\<close>

definition jfirst :: "json \<Rightarrow> json option" where
  "jfirst v = Option.bind (as_array v) first_of"

definition first_candidate :: "json \<Rightarrow> json option" where
  "first_candidate raw_json = Option.bind (jget ''candidates'' raw_json) jfirst"

definition capture_grounding :: "json \<Rightarrow> streaming_state \<Rightarrow> streaming_state" where
  "capture_grounding raw_json s =
     (case Option.bind (first_candidate raw_json) (jget ''groundingMetadata'') of
        Some grounding \<Rightarrow>
          let s = (case Option.bind (Option.bind (jget ''webSearchQueries'' grounding) jfirst) as_str of
                     Some query \<Rightarrow> s\<lparr>ss_web_search_query := Some query\<rparr> | None \<Rightarrow> s)
          in (case Option.bind (jget ''groundingChunks'' grounding) as_array of
                Some arr \<Rightarrow> s\<lparr>ss_grounding_chunks := Some arr\<rparr>
              | None \<Rightarrow>
                  (case Option.bind (Option.bind (jget ''grounding_metadata'' grounding) (jget ''groundingChunks'')) as_array of
                     Some arr \<Rightarrow> s\<lparr>ss_grounding_chunks := Some arr\<rparr>
                   | None \<Rightarrow> s))
      | None \<Rightarrow> s)"

text \<open>A part that cannot be read is skipped.\<close>

fun process_parts ::
  "stream_env \<Rightarrow> nanos \<Rightarrow> json list \<Rightarrow> streaming_state \<Rightarrow> panic + chunk list \<times> streaming_state" where
  "process_parts env now [] s = Inr ([], s)"
| "process_parts env now (v # vs) s =
     (case part_of_json env v of
        None \<Rightarrow> process_parts env now vs s
      | Some part \<Rightarrow>
          (case process_part env now part s of
             Inl p \<Rightarrow> Inl p
           | Inr (c, s) \<Rightarrow>
               (case process_parts env now vs s of Inl p \<Rightarrow> Inl p | Inr (c', s) \<Rightarrow> Inr (c @ c', s))))"

text \<open>The text of an upstream error is put into the event without escaping.\<close>

definition error_event :: "json \<Rightarrow> chunk" where
  "error_event err =
     (let q = [CHR 0x22]
      in Raw (''event: error'' @ newline @ ''data: {'' @ q @ ''type'' @ q @ '':'' @ q @ ''overloaded_error'' @ q @ '',''
         @ q @ ''error'' @ q @ '':{'' @ q @ ''type'' @ q @ '':'' @ q @ ''overloaded_error'' @ q @ '','' @ q @ ''message'' @ q @ '':''
         @ q @ ''Upstream error: '' @ str_or ''unknown upstream error'' (jget ''message'' err) @ q @ ''}}'' @ newline @ newline))"

definition response_parts :: "json \<Rightarrow> json list" where
  "response_parts raw_json =
     (case Option.bind (Option.bind (Option.bind (first_candidate raw_json) (jget ''content'')) (jget ''parts'')) as_array of
        Some parts \<Rightarrow> parts | None \<Rightarrow> [])"

definition raw_response :: "json \<Rightarrow> json" where
  "raw_response v = (case jget ''response'' v of Some r \<Rightarrow> r | None \<Rightarrow> v)"

text \<open>The end of the message, if the line has a finish reason\<close>

definition finish_of :: "stream_env \<Rightarrow> nanos \<Rightarrow> json \<Rightarrow> streaming_state \<Rightarrow> chunk list \<times> streaming_state" where
  "finish_of env now raw_json s =
     (case Option.bind (Option.bind (first_candidate raw_json) (jget ''finishReason'')) as_str of
        Some finish_reason \<Rightarrow>
          emit_finish now (Some finish_reason) (Option.bind (jget ''usageMetadata'' raw_json) (usage_of_json env)) s
      | None \<Rightarrow> ([], s))"

text \<open>
  A line of the upstream stream. \<open>None\<close> means that there is nothing to send. Text that is no JSON is
  logged, cut at byte 200, which panics inside a character.
\<close>

definition process_sse_line ::
  "stream_env \<Rightarrow> nanos \<Rightarrow> string \<Rightarrow> streaming_state \<Rightarrow> panic + chunk list option \<times> streaming_state" where
  "process_sse_line env now line s =
     (if \<not> starts_with line ''data: '' then Inr (None, s)
      else
        let data_str = trim (drop 6 line)
        in if data_str = [] then Inr (None, s)
           else if data_str = ''[DONE]''
           then let (chunks, s) = emit_force_stop now s
                in Inr (if chunks = [] then None else Some chunks, s)
           else
             case from_str env data_str of
               None \<Rightarrow> if is_char_boundary data_str (min (length data_str) 200) then Inr (None, s) else Inl SliceRange
             | Some json_value \<Rightarrow>
                 let raw_json = raw_response json_value
                 in case jget ''error'' raw_json of
                      Some err \<Rightarrow> Inr (Some [error_event err], s)
                    | None \<Rightarrow>
                        let (c1, s) = (if \<not> ss_message_start_sent s
                                       then let (c, s) = emit_message_start env raw_json s in ([c], s) else ([], s))
                        in case process_parts env now (response_parts raw_json) (capture_grounding raw_json s) of
                             Inl p \<Rightarrow> Inl p
                           | Inr (c2, s) \<Rightarrow>
                               let (c3, s) = finish_of env now raw_json s; chunks = c1 @ c2 @ c3
                               in Inr (if chunks = [] then None else Some chunks, s))"

definition MAX_BUFFER_SIZE :: nat where "MAX_BUFFER_SIZE = 10 * 1024 * 1024"

text \<open>What arrives: bytes, an error, or a tick of the heartbeat; what leaves: chunks or an error.\<close>

datatype upstream_item = Bytes string | StreamFailure string | Tick

type_synonym sent_item = "string + chunk"

definition stream_line ::
  "stream_env \<Rightarrow> nanos \<Rightarrow> string \<Rightarrow> streaming_state \<Rightarrow> panic + chunk list \<times> streaming_state" where
  "stream_line env now line_raw s =
     (let line = trim line_raw
      in if \<not> valid_utf8 line_raw \<or> line = [] then Inr ([], s)
         else map_sum id (\<lambda>(c, s). ((case c of Some chunks \<Rightarrow> chunks | None \<Rightarrow> []), s)) (process_sse_line env now line s))"

text \<open>All complete lines of the buffer; the rest stays. A panic ends the task, what was sent is sent.\<close>

function drain_lines ::
  "stream_env \<Rightarrow> nanos \<Rightarrow> string \<Rightarrow> streaming_state \<Rightarrow> chunk list \<times> panic option \<times> string \<times> streaming_state" where
  "drain_lines env now buffer s =
     (case str_find buffer newline of
        None \<Rightarrow> ([], None, buffer, s)
      | Some pos \<Rightarrow>
          (case stream_line env now (take (pos + 1) buffer) s of
             Inl p \<Rightarrow> ([], Some p, drop (pos + 1) buffer, s)
           | Inr (c, s) \<Rightarrow>
               let (c', p, rest, s) = drain_lines env now (drop (pos + 1) buffer) s in (c @ c', p, rest, s)))"
  by pat_completeness auto

termination
  by (relation "measure (\<lambda>(env, now, buffer, s). length buffer)") (auto dest!: str_find_Some simp: newline_def)

declare drain_lines.simps [simp del]

fun sse_loop ::
  "stream_env \<Rightarrow> (nanos \<times> upstream_item) list \<Rightarrow> string \<Rightarrow> streaming_state
   \<Rightarrow> sent_item list \<times> panic option \<times> streaming_state" where
  "sse_loop env [] buffer s = ([], None, s)"
| "sse_loop env ((now, Tick) # items) buffer s =
     (let (out, p, s) = sse_loop env items buffer s in (Inr (Raw ('': ping'' @ newline @ newline)) # out, p, s))"
| "sse_loop env ((now, StreamFailure e) # items) buffer s =
     ([Inl (''Stream error: '' @ e)], None, s\<lparr>ss_stream_errored := True\<rparr>)"
| "sse_loop env ((now, Bytes b) # items) buffer s =
     (if MAX_BUFFER_SIZE < length (buffer @ b)
      then ([Inl ''SSE buffer overflow: response too large''], None, s)
      else case drain_lines env now (buffer @ b) s of
             (c, Some p, _, s) \<Rightarrow> (map Inr c, Some p, s)
           | (c, None, rest, s) \<Rightarrow>
               let (out, p, s) = sse_loop env items rest s in (map Inr c @ out, p, s))"

definition create_claude_sse_stream ::
  "stream_env \<Rightarrow> (nanos \<times> upstream_item) list \<Rightarrow> nanos \<Rightarrow> string option \<Rightarrow> bool \<Rightarrow> u32 \<Rightarrow> u32 option
   \<Rightarrow> signature_cache \<Rightarrow> estimation_calibrator \<Rightarrow> sent_item list \<times> panic option \<times> streaming_state" where
  "create_claude_sse_stream env items end_time session_id scaling_enabled context_limit estimated_tokens cache calibrator =
     (let s = (new_streaming_state cache calibrator)\<lparr>ss_session_id := session_id, ss_scaling_enabled := scaling_enabled,
                 ss_context_limit := context_limit, ss_estimated_tokens := estimated_tokens\<rparr>
      in case sse_loop env items [] s of
           (out, Some p, s) \<Rightarrow> (out, Some p, s)
         | (out, None, s) \<Rightarrow>
             let (c, s) = emit_force_stop end_time s in (out @ map Inr c, None, s))"

end
