(* ===== verification/Stream_Protocol.thy ===== *)
theory Stream_Protocol
  imports Streaming
begin

text \<open>
  What the client relies on, as a deterministic automaton over the chunks it receives, and the proof
  that the state machine of \<open>Streaming\<close> only sends what this automaton accepts.
\<close>

section \<open>The protocol\<close>

text \<open>
  A message starts, has blocks with consecutive indices that do not overlap, whose deltas fit the kind
  of the block and carry its index, and ends with one \<open>message_delta\<close> and one \<open>message_stop\<close>.
\<close>

datatype phase = NotStarted | Between usize | Inside usize block_type | Closing | Closed

definition event_index :: "json \<Rightarrow> usize option" where
  "event_index d = Option.bind (jget ''index'' d) as_u64"

definition block_kind :: "json \<Rightarrow> block_type option" where
  "block_kind d =
     (case Option.bind (Option.bind (jget ''content_block'' d) (jget ''type'')) as_str of
        Some t \<Rightarrow> if t = ''text'' then Some Text else if t = ''thinking'' then Some Thinking
                  else if t = ''tool_use'' then Some Function else None
      | None \<Rightarrow> None)"

definition delta_kind :: "json \<Rightarrow> string option" where
  "delta_kind d = Option.bind (Option.bind (jget ''delta'' d) (jget ''type'')) as_str"

fun fits :: "block_type \<Rightarrow> string \<Rightarrow> bool" where
  "fits Text t \<longleftrightarrow> t = ''text_delta''"
| "fits Thinking t \<longleftrightarrow> t = ''thinking_delta'' \<or> t = ''signature_delta''"
| "fits Function t \<longleftrightarrow> t = ''input_json_delta''"
| "fits NoBlock t \<longleftrightarrow> False"

fun client_step :: "chunk \<Rightarrow> phase \<Rightarrow> phase option" where
  "client_step (Event t d) NotStarted = (if t = ''message_start'' then Some (Between 0) else None)"
| "client_step (Event t d) (Between n) =
     (if t = ''content_block_start'' \<and> event_index d = Some n then map_option (Inside n) (block_kind d)
      else if t = ''message_delta'' then Some Closing else None)"
| "client_step (Event t d) (Inside n k) =
     (if event_index d \<noteq> Some n then None
      else if t = ''content_block_delta'' \<and> (case delta_kind d of Some x \<Rightarrow> fits k x | None \<Rightarrow> False) then Some (Inside n k)
      else if t = ''content_block_stop'' then Some (Between (n + 1)) else None)"
| "client_step c Closing = (if c = message_stop then Some Closed else None)"
| "client_step _ _ = None"

definition client_run :: "chunk list \<Rightarrow> phase \<Rightarrow> phase option" where
  "client_run cs p = foldl (\<lambda>p c. Option.bind p (client_step c)) (Some p) cs"

lemma foldl_bind_None [simp]: "foldl (\<lambda>p c. Option.bind p (f c)) None cs = None"
  by (induction cs) simp_all

lemma client_run_Nil [simp]: "client_run [] p = Some p"
  by (simp add: client_run_def)

lemma client_run_Cons [simp]: "client_run (c # cs) p = Option.bind (client_step c p) (client_run cs)"
  by (cases "client_step c p") (simp_all add: client_run_def)

lemma client_run_append [simp]: "client_run (cs @ ds) p = Option.bind (client_run cs p) (client_run ds)"
  by (induction cs arbitrary: p) (auto simp: Option.bind_assoc split: Option.bind_splits)

section \<open>Moves of the state machine\<close>

definition phase_of :: "streaming_state \<Rightarrow> phase" where
  "phase_of s =
     (if ss_block_type s = NoBlock then Between (ss_block_index s) else Inside (ss_block_index s) (ss_block_type s))"

text \<open>
  The chunks lead the client from the phase of one state to that of another, and the flags that decide
  how the stream goes on stay.
\<close>

definition moves :: "streaming_state \<Rightarrow> chunk list \<times> streaming_state \<Rightarrow> bool" where
  "moves s r \<longleftrightarrow>
     client_run (fst r) (phase_of s) = Some (phase_of (snd r))
     \<and> ss_message_start_sent (snd r) = ss_message_start_sent s
     \<and> ss_message_stop_sent (snd r) = ss_message_stop_sent s
     \<and> ss_in_mcp_xml (snd r) = ss_in_mcp_xml s
     \<and> ss_stream_errored (snd r) = ss_stream_errored s"

lemma moves_refl [simp, intro]: "moves s ([], s)"
  by (simp add: moves_def)

lemma moves_append: "moves s (c, s') \<Longrightarrow> moves s' (c', s'') \<Longrightarrow> moves s (c @ c', s'')"
  by (auto simp: moves_def)

text \<open>States that differ only in what the protocol does not see\<close>

definition same_view :: "streaming_state \<Rightarrow> streaming_state \<Rightarrow> bool" where
  "same_view s s' \<longleftrightarrow>
     ss_block_type s' = ss_block_type s \<and> ss_block_index s' = ss_block_index s
     \<and> ss_message_start_sent s' = ss_message_start_sent s \<and> ss_message_stop_sent s' = ss_message_stop_sent s
     \<and> ss_in_mcp_xml s' = ss_in_mcp_xml s \<and> ss_stream_errored s' = ss_stream_errored s"

lemma same_view_refl [simp]: "same_view s s"
  by (simp add: same_view_def)

lemma moves_same: "same_view s s' \<Longrightarrow> moves s' (c, s'') \<Longrightarrow> moves s (c, s'')"
  by (auto simp: moves_def same_view_def phase_of_def)

lemma moves_then: "moves s (c, s') \<Longrightarrow> same_view s' s'' \<Longrightarrow> moves s (c, s'')"
  by (auto simp: moves_def same_view_def phase_of_def)

lemma event_index_simps [simp]:
  "event_index (JObj ((''type'', t) # (''index'', JNum (PosInt n)) # m)) = Some n"
  by (simp add: event_index_def jget_def as_u64_def)

lemma step_block_start:
  "block_kind (JObj [(''type'', JStr ''content_block_start''), (''index'', jindex_of s), (''content_block'', cb)]) = Some k \<Longrightarrow>
   client_step (block_start cb s) (Between (ss_block_index s)) = Some (Inside (ss_block_index s) k)"
  by (simp add: block_start_def emit_def jindex_of_def)

lemma delta_type_fold:
  "''type'' \<notin> fst ` set m \<Longrightarrow> tget (fold (\<lambda>(k, v) d. tput k v d) m d) ''type'' = tget d ''type''"
  by (induction m arbitrary: d) auto

lemma step_delta:
  assumes "fits k dt" and "''type'' \<notin> fst ` set m"
  shows "client_step (emit_delta dt (JObj m) s) (Inside (ss_block_index s) k) = Some (Inside (ss_block_index s) k)"
  using assms delta_type_fold [of m "[(''type'', JStr dt)]"]
  by (simp add: emit_delta_def emit_def jindex_of_def delta_kind_def jget_def as_str_def)

lemma step_block_stop: "client_step (block_stop s) (Inside (ss_block_index s) k) = Some (Between (ss_block_index s + 1))"
  by (simp add: block_stop_def emit_def jindex_of_def)

lemmas kinds = block_kind_def jget_def as_str_def thinking_block_def text_block_def

lemma moves_end_block: "moves s (end_block s)"
  by (auto simp: moves_def end_block_def phase_of_def consume_pending_def step_delta has_pending_def
      step_block_stop [of "s\<lparr>ss_pending := None\<rparr>", simplified] step_block_stop split: option.split)

lemma end_block_closes [simp]: "ss_block_type (snd (end_block s)) = NoBlock"
  by (simp add: end_block_def Let_def case_prod_unfold)

lemma moves_block_start:
  assumes "ss_block_type s = NoBlock" and "k \<noteq> NoBlock"
    and "block_kind (JObj [(''type'', JStr ''content_block_start''), (''index'', jindex_of s), (''content_block'', cb)]) = Some k"
  shows "moves s ([block_start cb s], s\<lparr>ss_block_type := k\<rparr>)"
  using assms by (simp add: moves_def phase_of_def step_block_start)

lemma moves_delta:
  assumes "fits (ss_block_type s) dt" and "''type'' \<notin> fst ` set m"
  shows "moves s ([emit_delta dt (JObj m) s], s)"
  using assms by (cases "ss_block_type s") (simp_all add: moves_def phase_of_def step_delta)

text \<open>\<open>emit_delta\<close> looks at the index only.\<close>

lemma emit_delta_cong: "ss_block_index s' = ss_block_index s \<Longrightarrow> emit_delta dt m s' = emit_delta dt m s"
  by (simp add: emit_delta_def jindex_of_def)

lemma moves_start_block:
  assumes "k \<noteq> NoBlock"
    and "\<And>s. block_kind (JObj [(''type'', JStr ''content_block_start''), (''index'', jindex_of s), (''content_block'', cb)]) = Some k"
  shows "moves s (start_block k cb s) \<and> ss_block_type (snd (start_block k cb s)) = k"
proof (cases "end_block s")
  case (Pair c s')
  then have "ss_block_type s' = NoBlock" using end_block_closes [of s] by simp
  with moves_block_start [OF this assms(1) assms(2)] moves_end_block [of s] Pair show ?thesis
    by (auto simp: start_block_def intro: moves_append moves_block_start [OF _ assms])
qed

lemma same_view_cache [simp]: "same_view s (cache_for_session now g s)"
  by (simp add: same_view_def cache_for_session_def on_cache_def split: option.split)

lemma same_view_trans: "same_view s s' \<Longrightarrow> same_view s' s'' \<Longrightarrow> same_view s s''"
  by (simp add: same_view_def)

lemma moves_signature_block:
  assumes "ss_block_type s = NoBlock"
  shows "moves s (signature_block g s) \<and> ss_block_type (snd (signature_block g s)) = NoBlock"
proof -
  let ?t = "s\<lparr>ss_block_type := Thinking\<rparr>"
  have 1: "moves s ([block_start thinking_block s], ?t)"
    using assms by (intro moves_block_start) (simp_all add: kinds)
  have 2: "moves ?t ([emit_delta ''thinking_delta'' (JObj [(''thinking'', JStr [])]) s], ?t)"
    using moves_delta [of ?t "''thinking_delta''" "[(''thinking'', JStr [])]"] by (simp add: emit_delta_cong [of ?t s])
  have 3: "moves ?t ([emit_delta ''signature_delta'' (JObj [(''signature'', JStr g)]) s], ?t)"
    using moves_delta [of ?t "''signature_delta''" "[(''signature'', JStr g)]"] by (simp add: emit_delta_cong [of ?t s])
  have "moves ?t (fst (end_block ?t), snd (end_block ?t))" using moves_end_block [of ?t] by simp
  from moves_append [OF moves_append [OF moves_append [OF 1 2] 3] this]
  show ?thesis by (simp add: signature_block_def Let_def case_prod_unfold)
qed

lemma moves_flush_trailing: "moves s (flush_trailing now s)"
proof (cases "ss_trailing_signature s")
  case None
  then show ?thesis by (simp add: flush_trailing_def)
next
  case (Some g)
  obtain c s1 where e: "end_block s = (c, s1)" by (cases "end_block s")
  have t: "ss_trailing_signature s1 = Some g"
    using e Some by (auto simp: end_block_def consume_pending_def split: if_splits option.splits prod.splits)
  let ?s2 = "cache_for_session now g (s1\<lparr>ss_trailing_signature := None\<rparr>)"
  have v: "same_view s1 ?s2"
    by (rule same_view_trans [OF _ same_view_cache]) (simp add: same_view_def)
  have "ss_block_type ?s2 = NoBlock" using v end_block_closes [of s] e by (simp add: same_view_def)
  with moves_signature_block [of ?s2 g] have "moves s1 (signature_block g ?s2)"
    using v by (cases "signature_block g ?s2") (auto intro: moves_same)
  with moves_end_block [of s] e Some t show ?thesis
    by (auto simp: flush_trailing_def emit_trailing_signature_def intro: moves_append split: prod.split)
qed

section \<open>Parts of the message move correctly\<close>

lemma view_keeping [simp]:
  "same_view s (cache_for_session now g t) = same_view s t"
  "same_view s (on_cache f t) = same_view s t"
  "same_view s (store_signature_opt sig t) = same_view s t"
  "same_view s (accumulate_thinking txt t) = same_view s t"
  "same_view s (snd (get_accumulated_thinking t)) = same_view s t"
  by (simp_all add: same_view_def cache_for_session_def on_cache_def store_signature_opt_def accumulate_thinking_def
      get_accumulated_thinking_def Let_def split: option.split)

lemma view_tool_use: "same_view s (snd (tool_use_block env now fc sig s))"
  by (simp add: tool_use_block_def Let_def case_prod_unfold split: option.split) (simp add: same_view_def)

lemma view_remember: "same_view s (remember_signature env now sig t) = same_view s t"
  by (simp add: remember_signature_def Let_def case_prod_unfold split: option.split)

text \<open>A whole block: it starts, has at most one delta and ends.\<close>

lemma moves_whole_block:
  assumes "k \<noteq> NoBlock"
    and "\<And>s. block_kind (JObj [(''type'', JStr ''content_block_start''), (''index'', jindex_of s), (''content_block'', cb)]) = Some k"
    and "ds (snd (start_block k cb s)) = [] \<or>
      (\<exists>dt m. ds (snd (start_block k cb s)) = [emit_delta dt (JObj m) (snd (start_block k cb s))] \<and> fits k dt \<and> ''type'' \<notin> fst ` set m)"
  shows "moves s (let (c, s1) = start_block k cb s; (e, s2) = end_block s1 in (c @ ds s1 @ e, s2))"
proof -
  obtain c s1 where st: "start_block k cb s = (c, s1)" by (cases "start_block k cb s")
  obtain e s2 where en: "end_block s1 = (e, s2)" by (cases "end_block s1")
  have 1: "moves s (c, s1)" "ss_block_type s1 = k" using moves_start_block [OF assms(1,2), of s] st by simp_all
  have "moves s1 (ds s1, s1)" using assms(3) moves_delta [of s1] 1(2) st by auto
  moreover have "moves s1 (e, s2)" using moves_end_block [of s1] en by simp
  ultimately have "moves s1 (ds s1 @ e, s2)" by (rule moves_append)
  with 1(1) show ?thesis by (simp add: st en moves_append)
qed

lemma tool_use_type:
  "\<exists>m. fst (tool_use_block env now fc sig s) = JObj m \<and> tget m ''type'' = Some (JStr ''tool_use'')"
  by (simp add: tool_use_block_def Let_def case_prod_unfold split: option.split)

lemma moves_function_call: "moves s (process_function_call env now fc sig s)"
proof -
  obtain tu s1 where t: "tool_use_block env now fc sig (s\<lparr>ss_used_tool := True\<rparr>) = (tu, s1)"
    by (cases "tool_use_block env now fc sig (s\<lparr>ss_used_tool := True\<rparr>)")
  have "same_view (s\<lparr>ss_used_tool := True\<rparr>) s1" using view_tool_use [of _ env now fc sig] t by (metis snd_conv)
  then have v: "same_view s s1" by (simp add: same_view_def)
  note tool = tool_use_type [of env now fc sig "s\<lparr>ss_used_tool := True\<rparr>"]
  have kind: "block_kind (JObj [(''type'', JStr ''content_block_start''), (''index'', jindex_of s), (''content_block'', tu)]) = Some Function" for s
    using tool t by (auto simp: block_kind_def jget_def as_str_def)
  have "moves s1 (process_function_call env now fc sig s)"
    unfolding process_function_call_def t Let_def case_prod_conv
    by (rule moves_whole_block [OF _ kind, unfolded Let_def]) (auto split: option.split)
  with v show ?thesis by (cases "process_function_call env now fc sig s") (auto intro: moves_same)
qed

lemma kind_thinking:
  "block_kind (JObj [(''type'', JStr ''content_block_start''), (''index'', jindex_of s), (''content_block'', thinking_block)]) = Some Thinking"
  by (simp add: kinds)

lemma kind_text:
  "block_kind (JObj [(''type'', JStr ''content_block_start''), (''index'', jindex_of s), (''content_block'', text_block)]) = Some Text"
  by (simp add: kinds)

text \<open>Text and thinking continue a block of their kind or start one.\<close>

lemma moves_continue:
  assumes "k \<noteq> NoBlock"
    and "\<And>s. block_kind (JObj [(''type'', JStr ''content_block_start''), (''index'', jindex_of s), (''content_block'', cb)]) = Some k"
    and "same_view s t" and "(if ss_block_type s \<noteq> k then start_block k cb t else ([], s)) = (c, s')"
  shows "moves s (c, s') \<and> ss_block_type s' = k"
proof (cases "ss_block_type s = k")
  case True
  then show ?thesis using assms(4) by simp
next
  case False
  with moves_start_block [OF assms(1,2), of t] assms(3,4) show ?thesis by (auto intro: moves_same)
qed

lemma moves_thinking: "moves s (process_thinking env now txt sig s)"
proof -
  obtain c0 s0 where f: "flush_trailing now s = (c0, s0)" by (cases "flush_trailing now s")
  obtain c1 s1 where b: "(if ss_block_type s0 \<noteq> Thinking
      then start_block Thinking thinking_block (s0\<lparr>ss_thinking_received := True\<rparr>) else ([], s0)) = (c1, s1)"
    by (metis prod.exhaust)
  have m0: "moves s (c0, s0)" using moves_flush_trailing [of s now] f by simp
  have m1: "moves s0 (c1, s1) \<and> ss_block_type s1 = Thinking"
    using moves_continue [OF _ kind_thinking _ b] by (simp add: same_view_def)
  define c2 where "c2 = (if txt \<noteq> [] then [emit_delta ''thinking_delta'' (JObj [(''thinking'', JStr txt)]) s1] else [])"
  have m2: "moves s1 (c2, s1)" using moves_delta [of s1 "''thinking_delta''"] m1 by (simp add: c2_def)
  let ?s3 = "case sig of Some sig \<Rightarrow> remember_signature env now sig (if txt \<noteq> [] then accumulate_thinking txt s1 else s1)
    | None \<Rightarrow> if txt \<noteq> [] then accumulate_thinking txt s1 else s1"
  have r: "process_thinking env now txt sig s = (c0 @ c1 @ c2, store_signature_opt sig ?s3)"
    unfolding process_thinking_def f Let_def case_prod_conv b by (simp add: c2_def)
  have "same_view s1 (store_signature_opt sig ?s3)" by (simp add: view_remember split: option.split)
  with m0 m1 m2 show ?thesis unfolding r by (auto intro!: moves_append intro: moves_then)
qed

lemma moves_text:
  assumes "\<not> contains txt ''<mcp__''" and "\<not> ss_in_mcp_xml s"
  shows "\<exists>c s'. process_text env now txt sig s = Inr (c, s') \<and> moves s (c, s')"
proof (cases "txt = []")
  case True
  then show ?thesis
    using moves_flush_trailing [of s now]
    by (cases "flush_trailing now s") (auto simp: process_text.simps same_view_def intro: moves_then)
next
  case False
  obtain c0 s0 where f: "flush_trailing now s = (c0, s0)" by (cases "flush_trailing now s")
  have m0: "moves s (c0, s0)" using moves_flush_trailing [of s now] f by simp
  then have x: "\<not> ss_in_mcp_xml s0" using assms(2) by (simp add: moves_def)
  show ?thesis
  proof (cases sig)
    case None
    obtain c1 s1 where b: "(if ss_block_type s0 \<noteq> Text then start_block Text text_block s0 else ([], s0)) = (c1, s1)"
      by (metis prod.exhaust)
    have m1: "moves s0 (c1, s1) \<and> ss_block_type s1 = Text" using moves_continue [OF _ kind_text _ b] by simp
    then have "moves s1 ([emit_delta ''text_delta'' (JObj [(''text'', JStr txt)]) s1], s1)"
      using moves_delta [of s1 "''text_delta''"] by simp
    with m0 m1 show ?thesis
      using False None assms(1) x f b
      by (subst process_text.simps) (auto intro!: moves_append simp del: fits.simps)
  next
    case (Some g)
    let ?t = "cache_for_session now g s0"
    let ?r = "let (c1, s1) = start_block Text text_block ?t; (e, s2) = end_block s1
              in (c1 @ [emit_delta ''text_delta'' (JObj [(''text'', JStr txt)]) s1] @ e, s2)"
    have "moves ?t ?r" by (rule moves_whole_block [OF _ kind_text]) auto
    then have "moves s0 ?r" by (cases ?r) (auto intro: moves_same [of s0 ?t])
    then have "moves s (c0 @ fst ?r, snd ?r)" using moves_append [OF m0] by simp
    then show ?thesis
      using False Some f by (subst process_text.simps) (auto simp: Let_def split: prod.splits)
  qed
qed

text \<open>A part whose text holds no call in XML\<close>

definition plain_part :: "gemini_part \<Rightarrow> bool" where
  "plain_part p \<longleftrightarrow> gp_function_call p \<noteq> None
     \<or> (case gp_text p of Some t \<Rightarrow> gp_thought p = Some True \<or> \<not> contains t ''<mcp__'' | None \<Rightarrow> True)
       \<and> (case gp_inline_data p of Some img \<Rightarrow> \<not> contains (image_text img) ''<mcp__'' | None \<Rightarrow> True)"

lemma moves_part:
  assumes "plain_part part" and "\<not> ss_in_mcp_xml s"
  shows "\<exists>c s'. process_part env now part s = Inr (c, s') \<and> moves s (c, s')"
proof (cases "ss_message_stop_sent s")
  case True
  then show ?thesis by (auto simp: process_part_def)
next
  case running: False
  let ?sig = "map_option (decode_signature env) (gp_thought_signature part)"
  show ?thesis
  proof (cases "gp_function_call part")
    case (Some fc)
    obtain c0 s0 where f: "flush_trailing now s = (c0, s0)" by (cases "flush_trailing now s")
    obtain c1 s1 where p: "process_function_call env now fc ?sig s0 = (c1, s1)"
      by (cases "process_function_call env now fc ?sig s0")
    have "moves s (c0 @ c1, s1)"
      using moves_flush_trailing [of s now] moves_function_call [of s0 env now fc ?sig] f p by (auto intro: moves_append)
    then show ?thesis using running Some f p by (simp add: process_part_def)
  next
    case None
    have "\<exists>c0 s0. (case gp_text part of
              Some txt \<Rightarrow> if gp_thought part = Some True then Inr (process_thinking env now txt ?sig s)
                          else process_text env now txt ?sig s
            | None \<Rightarrow> Inr ([], s)) = Inr (c0, s0) \<and> moves s (c0, s0)"
      using assms None moves_thinking [of s env now _ ?sig] moves_text [of _ s env now ?sig]
      by (auto simp: plain_part_def split: option.splits) (metis prod.exhaust)+
    then obtain c0 s0 where 0: "(case gp_text part of
              Some txt \<Rightarrow> if gp_thought part = Some True then Inr (process_thinking env now txt ?sig s)
                          else process_text env now txt ?sig s
            | None \<Rightarrow> Inr ([], s)) = Inr (c0, s0)" "moves s (c0, s0)" by blast
    then have x: "\<not> ss_in_mcp_xml s0" using assms(2) by (simp add: moves_def)
    show ?thesis
    proof (cases "\<exists>img. gp_inline_data part = Some img \<and> id_data img \<noteq> []")
      case True
      then obtain img where img: "gp_inline_data part = Some img" "id_data img \<noteq> []" by blast
      then have "\<not> contains (image_text img) ''<mcp__''" using assms(1) None by (simp add: plain_part_def)
      from moves_text [OF this x, of env now None] obtain c1 s1
        where "process_text env now (image_text img) None s0 = Inr (c1, s1)" "moves s0 (c1, s1)" by blast
      with 0 running None img show ?thesis
        unfolding process_part_def Let_def by (auto intro: moves_append)
    next
      case False
      with 0 running None show ?thesis unfolding process_part_def Let_def by (auto split: option.splits)
    qed
  qed
qed

lemma moves_parts:
  assumes "list_all (\<lambda>v. case part_of_json env v of Some p \<Rightarrow> plain_part p | None \<Rightarrow> True) vs" and "\<not> ss_in_mcp_xml s"
  shows "\<exists>c s'. process_parts env now vs s = Inr (c, s') \<and> moves s (c, s')"
  using assms
proof (induction vs arbitrary: s)
  case (Cons v vs)
  show ?case
  proof (cases "part_of_json env v")
    case None
    then show ?thesis using Cons by simp
  next
    case (Some p)
    then obtain c0 s0 where 0: "process_part env now p s = Inr (c0, s0)" "moves s (c0, s0)"
      using moves_part [of p s env now] Cons.prems by auto
    then have "\<not> ss_in_mcp_xml s0" using Cons.prems(2) by (simp add: moves_def)
    with Cons obtain c1 s1 where 1: "process_parts env now vs s0 = Inr (c1, s1)" "moves s0 (c1, s1)"
      by fastforce
    with Some 0 moves_append [OF 0(2) 1(2)] show ?thesis by simp
  qed
qed auto

section \<open>The end of the message\<close>

lemma moves_grounding:
  assumes "ss_block_type s = NoBlock"
  shows "moves s (emit_grounding_block s) \<and> ss_block_type (snd (emit_grounding_block s)) = NoBlock"
proof -
  have "moves s ([block_start text_block s, emit_delta ''text_delta'' (JObj [(''text'', JStr t)]) s, block_stop s],
      s\<lparr>ss_block_index := ss_block_index s + 1\<rparr>)" for t
    using assms step_delta [of Text "''text_delta''" "[(''text'', JStr t)]" s]
    by (simp add: moves_def phase_of_def step_block_start [OF kind_text] step_block_stop)
  with assms show ?thesis by (simp add: emit_grounding_block_def)
qed

lemma message_delta_step: "client_step (emit ''message_delta'' d) (Between n) = Some Closing"
  by (simp add: emit_def)

lemma moves_finish_trailing:
  assumes "ss_block_type s = NoBlock"
  shows "moves s (finish_trailing now s) \<and> ss_block_type (snd (finish_trailing now s)) = NoBlock"
proof (cases "ss_trailing_signature s")
  case None
  then show ?thesis using assms by (simp add: finish_trailing_def)
next
  case (Some g)
  let ?t = "cache_for_session now g (s\<lparr>ss_trailing_signature := None\<rparr>)"
  have w: "same_view s ?t" by simp (simp add: same_view_def)
  then have "ss_block_type ?t = NoBlock" using assms by (simp add: same_view_def)
  from moves_signature_block [OF this, of g] Some show ?thesis
    by (cases "signature_block g ?t") (auto simp: finish_trailing_def intro: moves_same [OF w])
qed

lemma moves_finish_blocks: "moves s (finish_blocks now s) \<and> ss_block_type (snd (finish_blocks now s)) = NoBlock"
proof -
  obtain c1 s1 where e: "end_block s = (c1, s1)" by (cases "end_block s")
  obtain c2 s2 where t: "finish_trailing now s1 = (c2, s2)" by (cases "finish_trailing now s1")
  obtain c3 s3 where g: "emit_grounding_block s2 = (c3, s3)" by (cases "emit_grounding_block s2")
  have "ss_block_type s1 = NoBlock" using end_block_closes [of s] e by simp
  with moves_end_block [of s] moves_finish_trailing [of s1 now] moves_grounding [of s2] show ?thesis
    by (auto simp: finish_blocks_def e t g intro!: moves_append)
qed

lemma view_record_estimate [simp]: "same_view s (record_estimate um t) = same_view s t"
  by (simp add: record_estimate_def same_view_def Let_def split: option.split)

lemma message_stop_step [simp]: "client_step message_stop Closing = Some Closed"
  by (simp add: message_stop_def)

lemma finish_closes:
  assumes "\<not> ss_message_stop_sent s"
  shows "client_run (fst (emit_finish now fr um s)) (phase_of s) = Some Closed
    \<and> ss_message_stop_sent (snd (emit_finish now fr um s))
    \<and> ss_message_start_sent (snd (emit_finish now fr um s)) = ss_message_start_sent s
    \<and> ss_in_mcp_xml (snd (emit_finish now fr um s)) = ss_in_mcp_xml s
    \<and> ss_stream_errored (snd (emit_finish now fr um s)) = ss_stream_errored s"
proof -
  define s0 where "s0 = (if fr \<noteq> None then s\<lparr>ss_received_finish_reason := True\<rparr> else s)"
  have v: "same_view s s0" by (simp add: s0_def same_view_def)
  obtain c s1 where f: "finish_blocks now s0 = (c, s1)" by (cases "finish_blocks now s0")
  have m: "moves s (c, s1)" "ss_block_type s1 = NoBlock"
    using moves_finish_blocks [of s0 now] f v by (auto intro: moves_same)
  then have 1: "client_run c (phase_of s) = Some (Between (ss_block_index s1))" by (simp add: moves_def phase_of_def)
  have "\<not> ss_message_stop_sent s0" using v assms by (simp add: same_view_def)
  then obtain d where r: "emit_finish now fr um s
      = (c @ [emit ''message_delta'' d, message_stop], (record_estimate um s1)\<lparr>ss_message_stop_sent := True\<rparr>)"
    unfolding emit_finish_def s0_def [symmetric] Let_def by (simp add: f)
  have "client_run (c @ [emit ''message_delta'' d, message_stop]) (phase_of s) = Some Closed"
    by (simp add: 1 message_delta_step)
  moreover have "same_view s1 (record_estimate um s1)" by simp
  ultimately show ?thesis using m(1) unfolding r by (simp add: moves_def same_view_def)
qed

section \<open>Lines\<close>

definition phase_at :: "streaming_state \<Rightarrow> phase" where
  "phase_at s =
     (if ss_message_stop_sent s then Closed else if \<not> ss_message_start_sent s then NotStarted else phase_of s)"

text \<open>
  A line with a response: no error, no call in XML. \<open>quiet_line\<close> allows the lines that carry no
  response besides, as long as logging them does not cut a character.
\<close>

definition response_line :: "stream_env \<Rightarrow> string \<Rightarrow> bool" where
  "response_line env line \<longleftrightarrow> starts_with line ''data: '' \<and> trim (drop 6 line) \<notin> {[], ''[DONE]''}
     \<and> (case from_str env (trim (drop 6 line)) of
          Some v \<Rightarrow> jget ''error'' (raw_response v) = None
            \<and> list_all (\<lambda>x. case part_of_json env x of Some p \<Rightarrow> plain_part p | None \<Rightarrow> True) (response_parts (raw_response v))
        | None \<Rightarrow> False)"

definition silent_line :: "stream_env \<Rightarrow> string \<Rightarrow> bool" where
  "silent_line env line \<longleftrightarrow> \<not> starts_with line ''data: '' \<or>
     (let d = trim (drop 6 line)
      in d \<noteq> ''[DONE]'' \<and> (d = [] \<or> (from_str env d = None \<and> is_char_boundary d (min (length d) 200))))"

definition done_line :: "string \<Rightarrow> bool" where
  "done_line line \<longleftrightarrow> starts_with line ''data: '' \<and> trim (drop 6 line) = ''[DONE]''"

definition steps_to :: "streaming_state \<Rightarrow> chunk list \<Rightarrow> streaming_state \<Rightarrow> bool" where
  "steps_to s c s' \<longleftrightarrow> client_run c (phase_at s) = Some (phase_at s') \<and> ss_message_start_sent s'
     \<and> \<not> ss_in_mcp_xml s' \<and> ss_stream_errored s' = ss_stream_errored s"

lemma force_stop_steps:
  assumes "ss_message_start_sent s" and "\<not> ss_in_mcp_xml s" and "\<not> ss_stream_errored s"
  shows "steps_to s (fst (emit_force_stop now s)) (snd (emit_force_stop now s))
    \<and> phase_at (snd (emit_force_stop now s)) = Closed"
proof (cases "ss_message_stop_sent s")
  case True
  then show ?thesis using assms by (simp add: steps_to_def emit_force_stop_def phase_at_def)
next
  case False
  have "fst (emit_finish now None None s) \<noteq> []"
    using False by (simp add: emit_finish_def Let_def case_prod_unfold)
  with False assms finish_closes [OF False, of now None None] show ?thesis
    by (auto simp: steps_to_def emit_force_stop_def phase_at_def Let_def case_prod_unfold)
qed

definition sent_chunks :: "chunk list option \<Rightarrow> chunk list" where
  "sent_chunks c = (case c of Some chunks \<Rightarrow> chunks | None \<Rightarrow> [])"

lemma sent_chunks_if [simp]: "sent_chunks (if cs = [] then None else Some cs) = cs"
  by (simp add: sent_chunks_def)

lemma steps_to_refl [simp]: "steps_to s [] s \<longleftrightarrow> ss_message_start_sent s \<and> \<not> ss_in_mcp_xml s"
  by (auto simp: steps_to_def)

lemma silent_line_nothing: "silent_line env line \<Longrightarrow> process_sse_line env now line s = Inr (None, s)"
  by (auto simp: silent_line_def process_sse_line_def Let_def)

lemma done_line_stops:
  assumes "done_line line" and "ss_message_start_sent s" and "\<not> ss_in_mcp_xml s" and "\<not> ss_stream_errored s"
  shows "\<exists>c s'. process_sse_line env now line s = Inr (c, s') \<and> steps_to s (sent_chunks c) s'"
  using force_stop_steps [OF assms(2-4), of now] assms(1)
  by (auto simp: process_sse_line_def done_line_def Let_def case_prod_unfold)

lemma same_view_grounding [simp]: "same_view s (capture_grounding raw t) = same_view s t"
  by (simp add: capture_grounding_def Let_def same_view_def split: option.split)

lemma parts_stopped: "ss_message_stop_sent s \<Longrightarrow> process_parts env now vs s = Inr ([], s)"
  by (induction vs) (simp_all add: process_part_def split: option.split)

lemma finish_steps:
  assumes "ss_message_start_sent s" and "\<not> ss_in_mcp_xml s"
  shows "steps_to s (fst (finish_of env now raw s)) (snd (finish_of env now raw s))"
proof (cases "Option.bind (Option.bind (first_candidate raw) (jget ''finishReason'')) as_str")
  case None
  then show ?thesis using assms by (simp add: finish_of_def)
next
  case (Some fr)
  show ?thesis
  proof (cases "ss_message_stop_sent s")
    case True
    then show ?thesis using Some assms by (simp add: finish_of_def emit_finish_def steps_to_def phase_at_def)
  next
    case False
    from finish_closes [OF this, of now "Some fr" "Option.bind (jget ''usageMetadata'' raw) (usage_of_json env)"] False Some assms
    show ?thesis by (simp add: finish_of_def steps_to_def phase_at_def)
  qed
qed

lemma steps_to_append: "steps_to s c s' \<Longrightarrow> steps_to s' c' s'' \<Longrightarrow> steps_to s (c @ c') s''"
  by (auto simp: steps_to_def)

text \<open>What a response line does once the message has started\<close>

lemma parts_steps:
  assumes "ss_message_start_sent s" and "\<not> ss_in_mcp_xml s"
    and "list_all (\<lambda>v. case part_of_json env v of Some p \<Rightarrow> plain_part p | None \<Rightarrow> True) vs"
  shows "\<exists>c s'. process_parts env now vs s = Inr (c, s') \<and> steps_to s c s'"
proof (cases "ss_message_stop_sent s")
  case True
  then show ?thesis using assms by (simp add: parts_stopped)
next
  case False
  with moves_parts [OF assms(3,2), of now] assms(1,2) show ?thesis
    by (auto simp: steps_to_def moves_def phase_at_def)
qed

lemma grounding_steps: "steps_to (capture_grounding raw s) c s' \<Longrightarrow> steps_to s c s'"
  using same_view_grounding [of s raw s] by (auto simp: steps_to_def phase_at_def phase_of_def same_view_def)

lemma response_steps:
  assumes "ss_message_start_sent s" and "\<not> ss_in_mcp_xml s"
    and "list_all (\<lambda>v. case part_of_json env v of Some p \<Rightarrow> plain_part p | None \<Rightarrow> True) (response_parts raw)"
  shows "\<exists>c2 s2. process_parts env now (response_parts raw) (capture_grounding raw s) = Inr (c2, s2)
    \<and> steps_to s (c2 @ fst (finish_of env now raw s2)) (snd (finish_of env now raw s2))"
proof -
  have "same_view s (capture_grounding raw s)" by simp
  then have g: "ss_message_start_sent (capture_grounding raw s)" "\<not> ss_in_mcp_xml (capture_grounding raw s)"
    using assms(1,2) by (simp_all add: same_view_def del: same_view_grounding)
  from parts_steps [OF g assms(3), of now] obtain c2 s2
    where p: "process_parts env now (response_parts raw) (capture_grounding raw s) = Inr (c2, s2)"
      and m: "steps_to s c2 s2" by (blast intro: grounding_steps)
  moreover have "steps_to s2 (fst (finish_of env now raw s2)) (snd (finish_of env now raw s2))"
    using m by (intro finish_steps) (simp_all add: steps_to_def)
  ultimately show ?thesis by (blast intro: steps_to_append)
qed

lemma response_line_steps:
  assumes "response_line env line" and "ss_message_start_sent s \<or> (phase_of s = Between 0 \<and> \<not> ss_message_stop_sent s)"
    and "\<not> ss_in_mcp_xml s"
  shows "\<exists>c s'. process_sse_line env now line s = Inr (c, s') \<and> steps_to s (sent_chunks c) s'"
proof -
  define d where "d = trim (drop 6 line)"
  obtain v where v: "from_str env d = Some v" and e: "jget ''error'' (raw_response v) = None"
    and ps: "list_all (\<lambda>x. case part_of_json env x of Some p \<Rightarrow> plain_part p | None \<Rightarrow> True) (response_parts (raw_response v))"
    and d: "starts_with line ''data: ''" "d \<noteq> []" "d \<noteq> ''[DONE]''"
    using assms(1) by (auto simp: response_line_def d_def split: option.splits)
  obtain c1 s1 where st: "(if \<not> ss_message_start_sent s
      then let (c, s) = emit_message_start env (raw_response v) s in ([c], s) else ([], s)) = (c1, s1)" by (metis prod.exhaust)
  have 1: "steps_to s c1 s1"
  proof (cases "ss_message_start_sent s")
    case True
    then show ?thesis using st assms(3) by simp
  next
    case False
    with st obtain x where c: "c1 = [emit ''message_start'' x]" and s1: "s1 = snd (emit_message_start env (raw_response v) s)"
      by (auto simp: emit_message_start_def Let_def)
    have "ss_message_start_sent s1 \<and> ss_message_stop_sent s1 = ss_message_stop_sent s \<and> phase_of s1 = phase_of s
        \<and> ss_in_mcp_xml s1 = ss_in_mcp_xml s \<and> ss_stream_errored s1 = ss_stream_errored s"
      using False by (simp add: s1 emit_message_start_def Let_def phase_of_def split: option.split)
    with False assms(2,3) c show ?thesis by (simp add: steps_to_def phase_at_def emit_def)
  qed
  then obtain c2 s2 where 2: "process_parts env now (response_parts (raw_response v)) (capture_grounding (raw_response v) s1) = Inr (c2, s2)"
    "steps_to s1 (c2 @ fst (finish_of env now (raw_response v) s2)) (snd (finish_of env now (raw_response v) s2))"
    using response_steps [OF _ _ ps, of s1 now] by (auto simp: steps_to_def)
  have "process_sse_line env now line s
      = Inr (if c1 @ c2 @ fst (finish_of env now (raw_response v) s2) = [] then None
             else Some (c1 @ c2 @ fst (finish_of env now (raw_response v) s2)), snd (finish_of env now (raw_response v) s2))"
    using d v e 2(1) unfolding process_sse_line_def d_def [symmetric] Let_def
    by (simp add: st [unfolded Let_def] case_prod_unfold)
  with steps_to_append [OF 1 2(2)] show ?thesis by (auto simp: sent_chunks_def)
qed

section \<open>Whole streams\<close>

fun run_lines :: "stream_env \<Rightarrow> (nanos \<times> string) list \<Rightarrow> streaming_state \<Rightarrow> panic + chunk list \<times> streaming_state" where
  "run_lines env [] s = Inr ([], s)"
| "run_lines env ((now, line) # ls) s =
     (case process_sse_line env now line s of
        Inl p \<Rightarrow> Inl p
      | Inr (c, s) \<Rightarrow>
          (case run_lines env ls s of Inl p \<Rightarrow> Inl p | Inr (c', s) \<Rightarrow> Inr (sent_chunks c @ c', s)))"

definition fine_line :: "stream_env \<Rightarrow> string \<Rightarrow> bool" where
  "fine_line env line \<longleftrightarrow> response_line env line \<or> silent_line env line \<or> done_line line"

lemma fine_line_steps:
  assumes "fine_line env line" and "ss_message_start_sent s" and "\<not> ss_in_mcp_xml s" and "\<not> ss_stream_errored s"
  shows "\<exists>c s'. process_sse_line env now line s = Inr (c, s') \<and> steps_to s (sent_chunks c) s'"
  using assms silent_line_nothing [of env line now s] done_line_stops [OF _ assms(2-4), of line env now]
    response_line_steps [of env line s now]
  by (auto simp: fine_line_def sent_chunks_def)

lemma run_lines_steps:
  assumes "list_all (\<lambda>(now, line). fine_line env line) ls"
    and "ss_message_start_sent s" and "\<not> ss_in_mcp_xml s" and "\<not> ss_stream_errored s"
  shows "\<exists>c s'. run_lines env ls s = Inr (c, s') \<and> steps_to s c s'"
  using assms
proof (induction ls arbitrary: s)
  case (Cons l ls)
  obtain now line where l: "l = (now, line)" by (cases l)
  from fine_line_steps [of env line s now] Cons.prems l obtain c0 s0
    where 0: "process_sse_line env now line s = Inr (c0, s0)" "steps_to s (sent_chunks c0) s0" by auto
  moreover from 0 Cons.prems obtain c1 s1 where "run_lines env ls s0 = Inr (c1, s1)" "steps_to s0 c1 s1"
    using Cons.IH [of s0] by (auto simp: steps_to_def)
  ultimately show ?case using l by (auto intro: steps_to_append)
qed simp

text \<open>
  Claim C5: a stream whose first line is a response, and whose other lines are responses, lines without
  data or the end marker, is translated into a complete message of the client's protocol: one start,
  blocks with consecutive indices that never overlap, deltas that fit their block, and one end, also
  when the upstream stops early. The response parts must not hold calls in XML (see
  \<open>xml_prefix_breaks_order\<close>).
\<close>

theorem stream_follows_protocol:
  assumes "response_line env first_line" and "list_all (\<lambda>(now, line). fine_line env line) ls"
    and "s = (new_streaming_state cache calibrator)\<lparr>ss_session_id := sid, ss_scaling_enabled := scaling,
               ss_context_limit := window_size, ss_estimated_tokens := est\<rparr>"
  shows "\<exists>c s'. run_lines env ((now, first_line) # ls) s = Inr (c, s')
    \<and> client_run (c @ fst (emit_force_stop end_time s')) NotStarted = Some Closed"
proof -
  have s: "phase_of s = Between 0" "\<not> ss_message_start_sent s" "\<not> ss_message_stop_sent s" "\<not> ss_in_mcp_xml s"
    "\<not> ss_stream_errored s"
    by (simp_all add: assms(3) new_streaming_state_def phase_of_def)
  then obtain c0 s0 where 0: "process_sse_line env now first_line s = Inr (c0, s0)" "steps_to s (sent_chunks c0) s0"
    using response_line_steps [OF assms(1), of s now] by auto
  then obtain c1 s1 where 1: "run_lines env ls s0 = Inr (c1, s1)" "steps_to s0 c1 s1"
    using run_lines_steps [OF assms(2), of s0] s by (auto simp: steps_to_def)
  note m = steps_to_append [OF 0(2) 1(2)]
  have f: "steps_to s1 (fst (emit_force_stop end_time s1)) (snd (emit_force_stop end_time s1))
      \<and> phase_at (snd (emit_force_stop end_time s1)) = Closed"
    using m s by (intro force_stop_steps) (simp_all add: steps_to_def)
  from steps_to_append [OF m conjunct1 [OF f]] f s have
    "client_run ((sent_chunks c0 @ c1) @ fst (emit_force_stop end_time s1)) NotStarted = Some Closed"
    by (simp add: steps_to_def phase_at_def del: client_run_append)
  with 0(1) 1(1) show ?thesis by (simp del: client_run_append)
qed

text \<open>A stream of two lines: some text, then a call, and then nothing more.\<close>

definition demo_stream_env :: stream_env where
  "demo_stream_env = \<lparr>decode_base64 = \<lambda>_. None, content_digest = id,
     from_str = \<lambda>t. if t = ''text'' \<or> t = ''call'' then Some (JObj [(''candidates'',
       JArr [JObj [(''content'', JObj [(''parts'', JArr [JStr t])])]])]) else None,
     to_str = \<lambda>_. ''{}'',
     part_of_json = \<lambda>v. if v = JStr ''text''
       then Some \<lparr>gp_text = Some ''hello'', gp_thought = None, gp_thought_signature = None, gp_function_call = None, gp_inline_data = None\<rparr>
       else Some \<lparr>gp_text = None, gp_thought = None, gp_thought_signature = None,
                  gp_function_call = Some \<lparr>fc_name = ''ls'', fc_id = Some ''1'', fc_args = None\<rparr>, gp_inline_data = None\<rparr>,
     usage_of_json = \<lambda>_. None, random_id = \<lambda>_. []\<rparr>"

lemma demo_lines:
  "response_line demo_stream_env ''data: text''" "response_line demo_stream_env ''data: call''"
  by (simp_all add: response_line_def demo_stream_env_def trim_plain plain_char_def raw_response_def response_parts_def
      first_candidate_def jfirst_def jget_def as_array_def first_of_def plain_part_def)

theorem stream_follows_protocol_witness:
  "\<exists>c s'. run_lines demo_stream_env [(0, ''data: text''), (5, ''data: call'')]
      ((new_streaming_state new_cache new_calibrator)\<lparr>ss_session_id := None, ss_scaling_enabled := True,
         ss_context_limit := 1048576, ss_estimated_tokens := None\<rparr>) = Inr (c, s')
    \<and> client_run (c @ fst (emit_force_stop 9 s')) NotStarted = Some Closed"
  by (rule stream_follows_protocol) (simp_all add: demo_lines fine_line_def)

section \<open>The network's segments do not matter\<close>

lemma drain_lines_append:
  "drain_lines env now (x @ y) s =
     (case drain_lines env now x s of
        (c, Some p, rest, s') \<Rightarrow> (c, Some p, rest @ y, s')
      | (c, None, rest, s') \<Rightarrow> (let (c', p, rest', s'') = drain_lines env now (rest @ y) s' in (c @ c', p, rest', s'')))"
proof (induction env now x s rule: drain_lines.induct)
  case (1 env now x s)
  show ?case
  proof (cases "str_find x newline")
    case None
    then have "drain_lines env now x s = ([], None, x, s)" by (simp add: drain_lines.simps)
    then show ?thesis by (simp add: Let_def case_prod_unfold)
  next
    case (Some pos)
    note f = Some str_find_append [OF Some, of y]
    have "pos + 1 \<le> length x" using str_find_Some [OF Some] by (auto simp: newline_def)
    then have td: "take (pos + 1) (x @ y) = take (pos + 1) x" "drop (pos + 1) (x @ y) = drop (pos + 1) x @ y" by simp_all
    show ?thesis
    proof (cases "stream_line env now (take (pos + 1) x) s")
      case (Inl p)
      then show ?thesis
        unfolding drain_lines.simps [of env now "x @ y" s] drain_lines.simps [of env now x s]
        by (simp only: f td option.case sum.case prod.case)
    next
      case (Inr r)
      obtain c0 s0 where r: "r = (c0, s0)" by (cases r)
      note IH = "1.IH" [OF Some Inr [unfolded r] refl]
      show ?thesis
        unfolding drain_lines.simps [of env now "x @ y" s] drain_lines.simps [of env now x s]
        by (simp only: f td option.case sum.case prod.case Inr r IH Let_def)
           (simp split: prod.splits option.splits)
    qed
  qed
qed

lemma drain_lines_rest:
  "drain_lines env now x s = (c, p, rest, s') \<Longrightarrow> length rest \<le> length x \<and> (p = None \<longrightarrow> str_find rest newline = None)"
proof (induction env now x s arbitrary: c p rest s' rule: drain_lines.induct)
  case (1 env now x s)
  show ?case
  proof (cases "str_find x newline")
    case None
    with 1(2) show ?thesis by (simp add: drain_lines.simps)
  next
    case (Some pos)
    show ?thesis
    proof (cases "stream_line env now (take (pos + 1) x) s")
      case (Inl q)
      with 1(2) Some show ?thesis by (auto simp: drain_lines.simps)
    next
      case (Inr r)
      obtain c0 s0 where r: "r = (c0, s0)" by (cases r)
      obtain c1 p1 rest1 s1 where d: "drain_lines env now (drop (pos + 1) x) s0 = (c1, p1, rest1, s1)"
        by (cases "drain_lines env now (drop (pos + 1) x) s0")
      with 1(2) Some Inr r have "p = p1" "rest = rest1"
        by (subst (asm) drain_lines.simps, simp)+
      with "1.IH" [OF Some Inr [unfolded r] refl d] show ?thesis by auto
    qed
  qed
qed

lemma sse_loop_segments:
  "length (buffer @ concat bs) \<le> MAX_BUFFER_SIZE \<Longrightarrow> str_find buffer newline = None \<Longrightarrow>
   sse_loop env (map (\<lambda>b. (now, Bytes b)) bs) buffer s =
     (case drain_lines env now (buffer @ concat bs) s of (c, p, rest, s') \<Rightarrow> (map Inr c, p, s'))"
proof (induction bs arbitrary: buffer s)
  case Nil
  then show ?case by (simp add: drain_lines.simps)
next
  case (Cons b bs)
  obtain c p rest s' where d: "drain_lines env now (buffer @ b) s = (c, p, rest, s')" by (cases "drain_lines env now (buffer @ b) s")
  note r = drain_lines_rest [OF d]
  have len: "\<not> MAX_BUFFER_SIZE < length (buffer @ b)" using Cons.prems(1) by simp
  show ?case
  proof (cases p)
    case (Some q)
    then show ?thesis using len d by (simp add: drain_lines_append [of env now "buffer @ b", simplified])
  next
    case None
    then have "sse_loop env (map (\<lambda>b. (now, Bytes b)) bs) rest s' =
        (case drain_lines env now (rest @ concat bs) s' of (c, p, rest, s') \<Rightarrow> (map Inr c, p, s'))"
      using r Cons.prems by (intro Cons.IH) simp_all
    with None len d show ?thesis
      by (simp add: drain_lines_append [of env now "buffer @ b", simplified] split: prod.split)
  qed
qed

text \<open>
  Claim C6: how the network cuts the bytes does not matter. Bytes that arrive in pieces, even inside a line
  or inside a character, give the same output and the same state as the same bytes at once, as long as
  they fit into the buffer.
\<close>

theorem segmentation_irrelevant:
  assumes "length (concat bs) \<le> MAX_BUFFER_SIZE"
  shows "sse_loop env (map (\<lambda>b. (now, Bytes b)) bs) [] s = sse_loop env [(now, Bytes (concat bs))] [] s"
proof -
  have n: "str_find [] newline = None" by (simp add: str_find_def newline_def)
  show ?thesis
    using sse_loop_segments [of "[]" bs env now s, OF _ n] sse_loop_segments [of "[]" "[concat bs]" env now s, OF _ n] assms
    by simp
qed

theorem segmentation_irrelevant_witness:
  "sse_loop demo_stream_env [(7, Bytes ''da''), (7, Bytes ''ta: te''), (7, Bytes (''xt'' @ newline))] [] (new_streaming_state new_cache new_calibrator)
   = sse_loop demo_stream_env [(7, Bytes (''data: text'' @ newline))] [] (new_streaming_state new_cache new_calibrator)"
  using segmentation_irrelevant [of "[''da'', ''ta: te'', ''xt'' @ newline]" demo_stream_env 7 "new_streaming_state new_cache new_calibrator"]
  by (simp add: MAX_BUFFER_SIZE_def newline_def)

section \<open>Calls in XML\<close>

lemma process_function_call_index:
  "ss_block_type (snd (process_function_call env now fc sig s)) = NoBlock
   \<and> ss_block_index (snd (process_function_call env now fc sig s))
     = ss_block_index s + (if ss_block_type s = NoBlock then 1 else 2)"
proof -
  obtain tu s1 where t: "tool_use_block env now fc sig (s\<lparr>ss_used_tool := True\<rparr>) = (tu, s1)"
    by (cases "tool_use_block env now fc sig (s\<lparr>ss_used_tool := True\<rparr>)")
  then have "same_view (s\<lparr>ss_used_tool := True\<rparr>) s1" using view_tool_use [of "s\<lparr>ss_used_tool := True\<rparr>" env now fc sig] by simp
  then have v: "ss_block_type s1 = ss_block_type s" "ss_block_index s1 = ss_block_index s" by (simp_all add: same_view_def)
  have e: "ss_block_index (snd (end_block t)) = ss_block_index t + (if ss_block_type t = NoBlock then 0 else 1)" for t
    by (simp add: end_block_def Let_def case_prod_unfold consume_pending_def has_pending_def split: option.split)
  show ?thesis
    by (simp add: process_function_call_def t Let_def case_prod_unfold start_block_def e v)
qed

text \<open>
  Note: when text precedes a call in XML, the chunks of that text are put before those of the call,
  although they were computed afterwards and carry the index of a later block. Whatever was open
  before, the client's protocol is violated.
\<close>

theorem xml_prefix_breaks_order:
  assumes "0 < start_idx" and "actual_tag_end < close_idx"
  shows "\<exists>c suffix s'. process_mcp_call env now buffer (start_idx, actual_tag_end, tag_name, close_idx) s = Inr (c, suffix, s')
    \<and> client_run c (phase_of s) = None"
proof -
  let ?fc = "\<lparr>fc_name = tag_name, fc_id = Some (tag_name @ ''-xml''),
    fc_args = Some (mcp_input env (take (close_idx - (actual_tag_end + 1)) (drop (actual_tag_end + 1) buffer)))\<rparr>"
  obtain tc s1 where p: "process_function_call env now ?fc None s = (tc, s1)"
    by (cases "process_function_call env now ?fc None s")
  have i: "ss_block_type s1 = NoBlock" "ss_block_index s1 = ss_block_index s + (if ss_block_type s = NoBlock then 1 else 2)"
    using process_function_call_index [of env now ?fc None s] p by simp_all
  have "client_step (block_start text_block (s1\<lparr>ss_mcp_xml_buffer := [], ss_in_mcp_xml := False\<rparr>)) (phase_of s) = None"
    by (auto simp: phase_of_def block_start_def emit_def jindex_of_def i)
  then show ?thesis using assms p i by (simp add: process_mcp_call_def start_block_def Let_def)
qed

theorem xml_prefix_breaks_order_witness:
  "\<exists>c suffix s'. process_mcp_call demo_stream_env 0 ''Hi <mcp__x>1</mcp__x>'' (3, 10, ''mcp__x'', 12)
       (new_streaming_state new_cache new_calibrator) = Inr (c, suffix, s') \<and> client_run c (Between 0) = None"
  using xml_prefix_breaks_order [of 3 10 12 demo_stream_env 0 "''Hi <mcp__x>1</mcp__x>''" "''mcp__x''"
      "new_streaming_state new_cache new_calibrator"]
  by (simp add: phase_of_def new_streaming_state_def)

text \<open>
  Note: when a call in XML begins and is not complete yet, the chunks that closed the open block and
  sent a trailing signature are thrown away, while the state has moved on: the signature is lost and
  the indices that follow do not fit what the client has seen.
\<close>

theorem incomplete_xml_loses_signature:
  assumes "contains txt ''<mcp__''" and "\<not> contains (ss_mcp_xml_buffer s @ txt) ''</mcp__''" and "ss_trailing_signature s = Some g"
  shows "\<exists>s'. process_text env now txt None s = Inr ([], s') \<and> ss_trailing_signature s' = None
    \<and> ss_block_index s' = ss_block_index s + (if ss_block_type s = NoBlock then 1 else 2)"
proof -
  have e: "ss_block_index (snd (end_block t)) = ss_block_index t + (if ss_block_type t = NoBlock then 0 else 1)
      \<and> ss_trailing_signature (snd (end_block t)) = ss_trailing_signature t" for t
    by (simp add: end_block_def Let_def case_prod_unfold consume_pending_def has_pending_def split: option.split)
  have k: "ss_block_index (cache_for_session now g t) = ss_block_index t"
    "ss_trailing_signature (cache_for_session now g t) = ss_trailing_signature t" for t
    by (simp_all add: cache_for_session_def on_cache_def split: option.split)
  have f: "ss_block_index (snd (flush_trailing now s)) = ss_block_index s + (if ss_block_type s = NoBlock then 1 else 2)"
    "ss_trailing_signature (snd (flush_trailing now s)) = None"
    using assms(3) e [of s]
    by (simp_all add: flush_trailing_def emit_trailing_signature_def Let_def case_prod_unfold signature_block_def e k)
  have "txt \<noteq> []" using assms(1) by (auto simp: contains_iff)
  then show ?thesis using assms f by (subst process_text.simps) (simp add: Let_def)
qed

theorem incomplete_xml_loses_signature_witness:
  "\<exists>s'. process_text demo_stream_env 0 ''<mcp__x>'' None
        ((new_streaming_state new_cache new_calibrator)\<lparr>ss_trailing_signature := Some ''sig''\<rparr>) = Inr ([], s')
      \<and> ss_trailing_signature s' = None \<and> ss_block_index s' = 1"
  using incomplete_xml_loses_signature [of "''<mcp__x>''" "(new_streaming_state new_cache new_calibrator)\<lparr>ss_trailing_signature := Some ''sig''\<rparr>" "''sig''" demo_stream_env 0]
  by (simp add: new_streaming_state_def)

text \<open>
  Note: a closing tag that stands before the opening one makes the slice between them invalid, and the
  task panics; the text is the model's.
\<close>

theorem closing_tag_first_panics:
  "process_text env now ''</mcp__x> <mcp__x>'' None (new_streaming_state cache calibrator) = Inl SliceRange"
  by (subst process_text.simps)
     (simp add: flush_trailing_def new_streaming_state_def Let_def find_mcp_tag_def str_find_def closing_tag_def process_mcp_call_def)

section \<open>Nothing is lost or reordered\<close>

text \<open>What the client reads: the text of the deltas of one kind\<close>

fun delta_text :: "string \<Rightarrow> string \<Rightarrow> chunk \<Rightarrow> string" where
  "delta_text kind key (Event t d) =
     (if t = ''content_block_delta'' \<and> delta_kind d = Some kind
      then str_or [] (Option.bind (jget ''delta'' d) (jget key)) else [])"
| "delta_text kind key (Raw _) = []"

definition sent_text :: "chunk list \<Rightarrow> string" where
  "sent_text cs = concat (map (delta_text ''text_delta'' ''text'') cs)"

definition sent_thinking :: "chunk list \<Rightarrow> string" where
  "sent_thinking cs = concat (map (delta_text ''thinking_delta'' ''thinking'') cs)"

definition wordless :: "chunk list \<Rightarrow> bool" where
  "wordless cs \<longleftrightarrow> sent_text cs = [] \<and> sent_thinking cs = []"

lemma sent_simps [simp]:
  "sent_text [] = []" "sent_text (cs @ ds) = sent_text cs @ sent_text ds"
  "sent_thinking [] = []" "sent_thinking (cs @ ds) = sent_thinking cs @ sent_thinking ds"
  by (simp_all add: sent_text_def sent_thinking_def)

lemma sent_delta [simp]:
  "sent_text (emit_delta ''text_delta'' (JObj [(''text'', JStr x)]) s # cs) = x @ sent_text cs"
  "sent_thinking (emit_delta ''text_delta'' (JObj [(''text'', JStr x)]) s # cs) = sent_thinking cs"
  "sent_text (emit_delta ''thinking_delta'' (JObj [(''thinking'', JStr x)]) s # cs) = sent_text cs"
  "sent_thinking (emit_delta ''thinking_delta'' (JObj [(''thinking'', JStr x)]) s # cs) = x @ sent_thinking cs"
  "sent_text (emit_delta ''signature_delta'' (JObj [(''signature'', v)]) s # cs) = sent_text cs"
  "sent_thinking (emit_delta ''signature_delta'' (JObj [(''signature'', v)]) s # cs) = sent_thinking cs"
  "sent_text (emit_delta ''input_json_delta'' (JObj [(''partial_json'', v)]) s # cs) = sent_text cs"
  "sent_thinking (emit_delta ''input_json_delta'' (JObj [(''partial_json'', v)]) s # cs) = sent_thinking cs"
  by (simp_all add: sent_text_def sent_thinking_def emit_delta_def emit_def delta_kind_def jget_def as_str_def str_or_def tput_def)

lemma sent_frames [simp]:
  "sent_text (block_start cb s # cs) = sent_text cs" "sent_thinking (block_start cb s # cs) = sent_thinking cs"
  "sent_text (block_stop s # cs) = sent_text cs" "sent_thinking (block_stop s # cs) = sent_thinking cs"
  by (simp_all add: sent_text_def sent_thinking_def block_start_def block_stop_def emit_def)

lemma wordless_end_block [simp]: "sent_text (fst (end_block s)) = []" "sent_thinking (fst (end_block s)) = []"
  by (simp_all add: end_block_def Let_def case_prod_unfold consume_pending_def split: option.split)

lemma wordless_start_block [simp]:
  "sent_text (fst (start_block k cb s)) = []" "sent_thinking (fst (start_block k cb s)) = []"
  by (simp_all add: start_block_def Let_def case_prod_unfold)

lemma wordless_signature_block [simp]:
  "sent_text (fst (signature_block g s)) = []" "sent_thinking (fst (signature_block g s)) = []"
  by (simp_all add: signature_block_def Let_def case_prod_unfold)

lemma wordless_flush [simp]:
  "sent_text (fst (flush_trailing now s)) = []" "sent_thinking (fst (flush_trailing now s)) = []"
  by (simp_all add: flush_trailing_def emit_trailing_signature_def Let_def case_prod_unfold split: option.split)

lemma wordless_call [simp]:
  "sent_text (fst (process_function_call env now fc sig s)) = []"
  "sent_thinking (fst (process_function_call env now fc sig s)) = []"
  by (simp_all add: process_function_call_def Let_def case_prod_unfold split: option.split)

lemma thinking_words:
  "sent_text (fst (process_thinking env now txt sig s)) = []"
  "sent_thinking (fst (process_thinking env now txt sig s)) = txt"
  by (simp_all add: process_thinking_def Let_def case_prod_unfold)

lemma text_words:
  assumes "\<not> contains txt ''<mcp__''" and "\<not> ss_in_mcp_xml s" and "process_text env now txt sig s = Inr (c, s')"
  shows "sent_text c = txt \<and> sent_thinking c = []"
proof -
  have "\<not> ss_in_mcp_xml (snd (flush_trailing now s))" using moves_flush_trailing [of s now] assms(2) by (simp add: moves_def)
  with assms show ?thesis
    by (subst (asm) process_text.simps)
       (auto simp: Let_def case_prod_unfold split: if_splits option.splits)
qed

definition shown_text :: "gemini_part \<Rightarrow> string" where
  "shown_text p =
     (if gp_function_call p \<noteq> None then []
      else (case gp_text p of Some t \<Rightarrow> if gp_thought p = Some True then [] else t | None \<Rightarrow> [])
        @ (case gp_inline_data p of Some img \<Rightarrow> if id_data img \<noteq> [] then image_text img else [] | None \<Rightarrow> []))"

definition shown_thinking :: "gemini_part \<Rightarrow> string" where
  "shown_thinking p =
     (if gp_function_call p \<noteq> None then []
      else case gp_text p of Some t \<Rightarrow> if gp_thought p = Some True then t else [] | None \<Rightarrow> [])"

lemma part_words:
  assumes "plain_part p" and "\<not> ss_in_mcp_xml s" and "\<not> ss_message_stop_sent s"
    and "process_part env now p s = Inr (c, s')"
  shows "sent_text c = shown_text p \<and> sent_thinking c = shown_thinking p"
proof (cases "gp_function_call p")
  case (Some fc)
  have "c = fst (flush_trailing now s) @ fst (process_function_call env now fc (map_option (decode_signature env) (gp_thought_signature p)) (snd (flush_trailing now s)))"
    using assms(3,4) Some by (auto simp: process_part_def Let_def case_prod_unfold)
  with Some show ?thesis by (simp add: shown_text_def shown_thinking_def)
next
  case None
  let ?sig = "map_option (decode_signature env) (gp_thought_signature p)"
  let ?r0 = "case gp_text p of
              Some txt \<Rightarrow> if gp_thought p = Some True then Inr (process_thinking env now txt ?sig s)
                          else process_text env now txt ?sig s
            | None \<Rightarrow> Inr ([], s)"
  obtain c0 s0 where 0: "?r0 = Inr (c0, s0)"
    using assms(3,4) None by (cases ?r0) (auto simp: process_part_def Let_def)
  have w0: "sent_text c0 = (case gp_text p of Some t \<Rightarrow> if gp_thought p = Some True then [] else t | None \<Rightarrow> [])
      \<and> sent_thinking c0 = shown_thinking p \<and> \<not> ss_in_mcp_xml s0"
  proof (cases "gp_text p")
    case None
    then show ?thesis using 0 assms(2) \<open>gp_function_call p = None\<close> by (simp add: shown_thinking_def)
  next
    case (Some t)
    show ?thesis
    proof (cases "gp_thought p = Some True")
      case True
      have "moves s (c0, s0)" using moves_thinking [of s env now t ?sig] 0 Some True by simp
      with thinking_words [of env now t ?sig s] 0 Some True None assms(2) show ?thesis
        by (simp add: shown_thinking_def moves_def)
    next
      case False
      then have "\<not> contains t ''<mcp__''" using assms(1) None Some by (simp add: plain_part_def)
      from moves_text [OF this assms(2), of env now ?sig] text_words [OF this assms(2), of env now ?sig] 0 Some False None assms(2)
      show ?thesis by (auto simp: shown_thinking_def moves_def)
    qed
  qed
  show ?thesis
  proof (cases "\<exists>img. gp_inline_data p = Some img \<and> id_data img \<noteq> []")
    case True
    then obtain img where img: "gp_inline_data p = Some img" "id_data img \<noteq> []" by blast
    then have np: "\<not> contains (image_text img) ''<mcp__''" using assms(1) None by (simp add: plain_part_def)
    obtain c1 s1 where 1: "process_text env now (image_text img) None s0 = Inr (c1, s1)" "c = c0 @ c1"
      using assms(3,4) None 0 img unfolding process_part_def Let_def by (auto split: sum.splits)
    from text_words [OF np _ 1(1)] w0 have "sent_text c1 = image_text img \<and> sent_thinking c1 = []" by blast
    with w0 1(2) None img show ?thesis by (simp add: shown_text_def)
  next
    case False
    then have "c = c0" using assms(3,4) None 0 unfolding process_part_def Let_def by (auto split: option.splits if_splits)
    with w0 None False show ?thesis by (auto simp: shown_text_def split: option.split)
  qed
qed

text \<open>
  What a converter of parts promises: on a good part and from a good state it succeeds, and it adds the
  words of the part to what it has said and thought. Streams and whole answers both keep this contract.
\<close>

primrec feed :: "('p \<Rightarrow> 's \<Rightarrow> panic + 's) \<Rightarrow> 'p list \<Rightarrow> 's \<Rightarrow> panic + 's" where
  "feed step [] s = Inr s"
| "feed step (p # ps) s = (case step p s of Inl e \<Rightarrow> Inl e | Inr s \<Rightarrow> feed step ps s)"

locale word_keeping =
  fixes step :: "gemini_part \<Rightarrow> 's \<Rightarrow> panic + 's"
    and good :: "gemini_part \<Rightarrow> bool" and ok :: "'s \<Rightarrow> bool"
    and spoken :: "'s \<Rightarrow> string" and reasoned :: "'s \<Rightarrow> string"
  assumes keeps: "good p \<Longrightarrow> ok s \<Longrightarrow> \<exists>s'. step p s = Inr s' \<and> ok s'
    \<and> spoken s' = spoken s @ shown_text p \<and> reasoned s' = reasoned s @ shown_thinking p"
begin

lemma feed_keeps:
  "list_all good ps \<Longrightarrow> ok s \<Longrightarrow> \<exists>s'. feed step ps s = Inr s' \<and> ok s'
     \<and> spoken s' = spoken s @ concat (map shown_text ps) \<and> reasoned s' = reasoned s @ concat (map shown_thinking ps)"
proof (induction ps arbitrary: s)
  case (Cons p ps)
  from keeps [of p s] Cons.prems obtain s' where 1: "step p s = Inr s'" "ok s'"
    "spoken s' = spoken s @ shown_text p" "reasoned s' = reasoned s @ shown_thinking p" by auto
  with Cons.IH [of s'] Cons.prems show ?case by auto
qed simp

end

text \<open>The stream with what it has sent so far\<close>

definition stream_step ::
  "stream_env \<Rightarrow> nanos \<Rightarrow> gemini_part \<Rightarrow> chunk list \<times> streaming_state \<Rightarrow> panic + chunk list \<times> streaming_state" where
  "stream_step env now p r = map_sum id (\<lambda>(c, s). (fst r @ c, s)) (process_part env now p (snd r))"

definition streaming_on :: "chunk list \<times> streaming_state \<Rightarrow> bool" where
  "streaming_on r \<longleftrightarrow> \<not> ss_in_mcp_xml (snd r) \<and> \<not> ss_message_stop_sent (snd r)"

interpretation streamed: word_keeping "stream_step env now" plain_part streaming_on "\<lambda>r. sent_text (fst r)" "\<lambda>r. sent_thinking (fst r)"
  for env now
proof
  fix p and r :: "chunk list \<times> streaming_state"
  assume p: "plain_part p" and r: "streaming_on r"
  then have s: "\<not> ss_in_mcp_xml (snd r)" "\<not> ss_message_stop_sent (snd r)" by (simp_all add: streaming_on_def)
  from moves_part [OF p s(1), of env now] obtain c s'
    where "process_part env now p (snd r) = Inr (c, s')" "moves (snd r) (c, s')" by blast
  with part_words [OF p s, of env now c s'] s
  show "\<exists>s'. stream_step env now p r = Inr s' \<and> streaming_on s' \<and> sent_text (fst s') = sent_text (fst r) @ shown_text p
      \<and> sent_thinking (fst s') = sent_thinking (fst r) @ shown_thinking p"
    by (simp add: stream_step_def streaming_on_def moves_def)
qed

lemma stream_step_pair:
  "stream_step env now p (c0, s) = map_sum id (\<lambda>(c, s). (c0 @ c, s)) (process_part env now p s)"
  by (simp add: stream_step_def)

lemma feed_stream:
  "feed (stream_step env now) (List.map_filter (part_of_json env) vs) (c0, s)
     = map_sum id (\<lambda>(c, s). (c0 @ c, s)) (process_parts env now vs s)"
proof (induction vs arbitrary: c0 s)
  case (Cons v vs)
  show ?case
  proof (cases "part_of_json env v")
    case (Some p)
    then show ?thesis
      by (cases "process_part env now p s")
         (auto simp: map_filter_simps stream_step_pair Cons.IH split: sum.split)
  qed (simp add: Cons.IH map_filter_simps)
qed simp

lemma plain_parts_read:
  "list_all (\<lambda>v. case part_of_json env v of Some p \<Rightarrow> plain_part p | None \<Rightarrow> True) vs
     = list_all plain_part (List.map_filter (part_of_json env) vs)"
  by (induction vs) (auto simp: map_filter_simps split: option.split)

lemma parts_words:
  assumes "list_all (\<lambda>v. case part_of_json env v of Some p \<Rightarrow> plain_part p | None \<Rightarrow> True) vs"
    and "\<not> ss_in_mcp_xml s" and "\<not> ss_message_stop_sent s"
  shows "\<exists>c s'. process_parts env now vs s = Inr (c, s')
    \<and> sent_text c = concat (map shown_text (List.map_filter (part_of_json env) vs))
    \<and> sent_thinking c = concat (map shown_thinking (List.map_filter (part_of_json env) vs))"
proof -
  have "streaming_on ([], s)" using assms(2,3) by (simp add: streaming_on_def)
  from streamed.feed_keeps [OF assms(1) [unfolded plain_parts_read] this, of env now] show ?thesis
    by (cases "process_parts env now vs s") (auto simp: feed_stream)
qed

text \<open>
  Note: from any state of a running stream, the client receives exactly the text of the upstream parts
  and exactly their thoughts, each in order and without loss or repetition, however the parts are cut
  and wherever signatures and calls fall between them (parts without calls in XML).
\<close>

theorem words_are_preserved:
  assumes "list_all (\<lambda>v. case part_of_json env v of Some p \<Rightarrow> plain_part p | None \<Rightarrow> True) vs"
    and "\<not> ss_in_mcp_xml s" and "\<not> ss_message_stop_sent s"
  shows "\<exists>c s'. process_parts env now vs s = Inr (c, s')
    \<and> sent_text c = concat (map shown_text (List.map_filter (part_of_json env) vs))
    \<and> sent_thinking c = concat (map shown_thinking (List.map_filter (part_of_json env) vs))"
  using assms by (rule parts_words)

theorem words_are_preserved_witness:
  "\<exists>c s'. process_parts demo_stream_env 0 [JStr ''text'', JStr ''call'', JStr ''text''] (new_streaming_state new_cache new_calibrator)
      = Inr (c, s') \<and> sent_text c = ''hellohello''"
  using words_are_preserved [of demo_stream_env "[JStr ''text'', JStr ''call'', JStr ''text'']" "new_streaming_state new_cache new_calibrator" 0]
  by (simp add: demo_stream_env_def plain_part_def new_streaming_state_def shown_text_def map_filter_simps) blast

end
