(* ===== verification/Collector.thy ===== *)
theory Collector
  imports Stream_Protocol
begin

text \<open>
  Clients that want one answer: \<open>mappers/claude/collector.rs\<close> reads the server-sent events back
  (\<open>common/sse_parser.rs\<close>) and puts the blocks together again. Parsing JSON, the derived reader of
  \<open>Usage\<close> and the debug format of JSON are parameters.
\<close>

section \<open>Reading events\<close>

record collect_env =
  parse_json :: "string \<Rightarrow> json option"
  usage_of_value :: "json \<Rightarrow> usage option"
  debug_format :: "json \<Rightarrow> string"

definition parse_sse_line :: "string \<Rightarrow> (string \<times> string) option" where
  "parse_sse_line line =
     (case str_find line '':'' of
        Some colon_pos \<Rightarrow> Some (take colon_pos line, trim_start (drop (colon_pos + 1) line))
      | None \<Rightarrow> None)"

type_synonym sse_event = "string \<times> json"

record sse_reader =
  sr_events :: "sse_event list"
  sr_event_type :: string
  sr_data :: string

definition trim_end_cr :: "string \<Rightarrow> string" where
  "trim_end_cr s = rev (dropWhile (\<lambda>c. c = CHR 0x0D) (rev s))"

definition read_line :: "collect_env \<Rightarrow> string \<Rightarrow> sse_reader \<Rightarrow> sse_reader" where
  "read_line env line r =
     (if line = []
      then if sr_data r \<noteq> []
           then (case parse_json env (sr_data r) of
                   Some d \<Rightarrow> r\<lparr>sr_events := sr_events r @ [(sr_event_type r, d)]\<rparr> | None \<Rightarrow> r)
                \<lparr>sr_event_type := [], sr_data := []\<rparr>
           else r
      else case parse_sse_line line of
             Some (key, v) \<Rightarrow>
               if key = ''event'' then r\<lparr>sr_event_type := v\<rparr>
               else if key = ''data'' then r\<lparr>sr_data := v\<rparr> else r
           | None \<Rightarrow> r)"

function read_lines :: "collect_env \<Rightarrow> string \<Rightarrow> sse_reader \<Rightarrow> string \<times> sse_reader" where
  "read_lines env line_buffer r =
     (case str_find line_buffer newline of
        None \<Rightarrow> (line_buffer, r)
      | Some pos \<Rightarrow> read_lines env (drop (pos + 1) line_buffer) (read_line env (trim_end_cr (take pos line_buffer)) r))"
  by pat_completeness auto

termination by (relation "measure (\<lambda>(env, b, r). length b)") (auto dest!: str_find_Some simp: newline_def)

declare read_lines.simps [simp del]

text \<open>Each piece of the stream is decoded on its own, with replacement characters.\<close>

fun read_chunks ::
  "collect_env \<Rightarrow> (string + string) list \<Rightarrow> string \<Rightarrow> sse_reader \<Rightarrow> string + sse_event list" where
  "read_chunks env [] line_buffer r = Inr (sr_events r)"
| "read_chunks env (Inl e # cs) line_buffer r = Inl (''Stream error: '' @ e)"
| "read_chunks env (Inr c # cs) line_buffer r =
     (let (line_buffer, r) = read_lines env (line_buffer @ utf8_lossy c) r in read_chunks env cs line_buffer r)"

section \<open>Rebuilding the response\<close>

record collected =
  co_response :: claude_response
  co_text :: string
  co_thinking :: string
  co_signature :: "string option"
  co_tool_use :: "json option"
  co_tool_input :: string

definition new_collected :: collected where
  "new_collected =
     \<lparr>co_response = \<lparr>cr_id = ''msg_unknown'', cr_type = ''message'', cr_role = ''assistant'', cr_model = [],
        cr_content = [], cr_stop_reason = ''end_turn'', cr_stop_sequence = None, cr_usage = zero_usage\<rparr>,
      co_text = [], co_thinking = [], co_signature = None, co_tool_use = None, co_tool_input = []\<rparr>"

definition get_str :: "string \<Rightarrow> json \<Rightarrow> string option" where
  "get_str k v = Option.bind (jget k v) as_str"

definition on_response :: "(claude_response \<Rightarrow> claude_response) \<Rightarrow> collected \<Rightarrow> collected" where
  "on_response f c = c\<lparr>co_response := f (co_response c)\<rparr>"

definition set_usage :: "collect_env \<Rightarrow> json \<Rightarrow> claude_response \<Rightarrow> claude_response" where
  "set_usage env v r =
     (case Option.bind (jget ''usage'' v) (usage_of_value env) of Some u \<Rightarrow> r\<lparr>cr_usage := u\<rparr> | None \<Rightarrow> r)"

definition on_message_start :: "collect_env \<Rightarrow> json \<Rightarrow> collected \<Rightarrow> collected" where
  "on_message_start env d c =
     (case jget ''message'' d of
        Some message \<Rightarrow>
          on_response (\<lambda>r.
            let r = (case get_str ''id'' message of Some i \<Rightarrow> r\<lparr>cr_id := i\<rparr> | None \<Rightarrow> r);
                r = (case get_str ''model'' message of Some m \<Rightarrow> r\<lparr>cr_model := m\<rparr> | None \<Rightarrow> r)
            in set_usage env message r) c
      | None \<Rightarrow> c)"

definition on_block_start :: "json \<Rightarrow> collected \<Rightarrow> collected" where
  "on_block_start d c =
     (case jget ''content_block'' d of
        Some content_block \<Rightarrow>
          (case get_str ''type'' content_block of
             Some block_type \<Rightarrow>
               if block_type = ''text'' then c\<lparr>co_text := []\<rparr>
               else if block_type = ''thinking''
               then c\<lparr>co_thinking := [], co_signature := get_str ''signature'' content_block\<rparr>
               else if block_type = ''tool_use''
               then c\<lparr>co_tool_use := Some content_block, co_tool_input := []\<rparr>
               else c
           | None \<Rightarrow> c)
      | None \<Rightarrow> c)"

definition on_block_delta :: "json \<Rightarrow> collected \<Rightarrow> collected" where
  "on_block_delta d c =
     (case jget ''delta'' d of
        Some delta \<Rightarrow>
          (case get_str ''type'' delta of
             Some delta_type \<Rightarrow>
               if delta_type = ''text_delta''
               then (case get_str ''text'' delta of Some t \<Rightarrow> c\<lparr>co_text := co_text c @ t\<rparr> | None \<Rightarrow> c)
               else if delta_type = ''thinking_delta''
               then let c = (case get_str ''thinking'' delta of Some t \<Rightarrow> c\<lparr>co_thinking := co_thinking c @ t\<rparr> | None \<Rightarrow> c)
                    in (case get_str ''signature'' delta of Some g \<Rightarrow> c\<lparr>co_signature := Some g\<rparr> | None \<Rightarrow> c)
               else if delta_type = ''input_json_delta''
               then (case get_str ''partial_json'' delta of Some t \<Rightarrow> c\<lparr>co_tool_input := co_tool_input c @ t\<rparr> | None \<Rightarrow> c)
               else c
           | None \<Rightarrow> c)
      | None \<Rightarrow> c)"

definition push_block :: "content_block \<Rightarrow> collected \<Rightarrow> collected" where
  "push_block b = on_response (\<lambda>r. r\<lparr>cr_content := cr_content r @ [b]\<rparr>)"

definition on_block_stop :: "collect_env \<Rightarrow> collected \<Rightarrow> collected" where
  "on_block_stop env c =
     (if co_text c \<noteq> [] then (push_block (CText (co_text c)) c)\<lparr>co_text := []\<rparr>
      else if co_thinking c \<noteq> []
      then (push_block (CThinking (co_thinking c) (co_signature c) None) c)\<lparr>co_thinking := [], co_signature := None\<rparr>
      else case co_tool_use c of
             Some tool_use \<Rightarrow>
               let i = (case get_str ''id'' tool_use of Some i \<Rightarrow> i | None \<Rightarrow> ''unknown'');
                   n = (case get_str ''name'' tool_use of Some n \<Rightarrow> n | None \<Rightarrow> ''unknown'');
                   input = (if co_tool_input c \<noteq> []
                            then (case parse_json env (co_tool_input c) of Some v \<Rightarrow> v | None \<Rightarrow> JObj []) else JObj [])
               in (push_block (CToolUse i n input None None) c)\<lparr>co_tool_use := None, co_tool_input := []\<rparr>
           | None \<Rightarrow> c)"

definition on_message_delta :: "collect_env \<Rightarrow> json \<Rightarrow> collected \<Rightarrow> collected" where
  "on_message_delta env d =
     on_response (\<lambda>r.
       let r = (case Option.bind (jget ''delta'' d) (get_str ''stop_reason'') of Some x \<Rightarrow> r\<lparr>cr_stop_reason := x\<rparr> | None \<Rightarrow> r)
       in set_usage env d r)"

definition collect_step :: "collect_env \<Rightarrow> sse_event \<Rightarrow> collected \<Rightarrow> collected" where
  "collect_step env ev c =
     (let (t, d) = ev
      in if t = ''message_start'' then on_message_start env d c
         else if t = ''content_block_start'' then on_block_start d c
         else if t = ''content_block_delta'' then on_block_delta d c
         else if t = ''content_block_stop'' then on_block_stop env c
         else if t = ''message_delta'' then on_message_delta env d c
         else c)"

fun collect_events :: "collect_env \<Rightarrow> sse_event list \<Rightarrow> collected \<Rightarrow> string + claude_response" where
  "collect_events env [] c = Inr (co_response c)"
| "collect_events env ((t, d) # es) c =
     (if t = ''message_stop'' then Inr (co_response c)
      else if t = ''error'' then Inl (''Stream error: '' @ debug_format env d)
      else collect_events env es (collect_step env (t, d) c))"

definition collect_stream_to_json :: "collect_env \<Rightarrow> (string + string) list \<Rightarrow> string + claude_response" where
  "collect_stream_to_json env stream =
     (case read_chunks env stream [] \<lparr>sr_events = [], sr_event_type = [], sr_data = []\<rparr> of
        Inl e \<Rightarrow> Inl e
      | Inr events \<Rightarrow> collect_events env events new_collected)"

section \<open>The collected answer has the words of the stream\<close>

fun event_of :: "chunk \<Rightarrow> sse_event" where
  "event_of (Event t d) = (t, d)"
| "event_of (Raw _) = (''message_stop'', JObj [(''type'', JStr ''message_stop'')])"

definition words :: "collected \<Rightarrow> string" where
  "words c = response_text (co_response c) @ co_text c"

definition thoughts :: "collected \<Rightarrow> string" where
  "thoughts c = response_thinking (co_response c) @ co_thinking c"

text \<open>What the collector holds back at each point of the protocol\<close>

fun collects :: "phase \<Rightarrow> collected \<Rightarrow> bool" where
  "collects (Inside _ Text) c \<longleftrightarrow> co_thinking c = [] \<and> co_tool_use c = None"
| "collects (Inside _ Thinking) c \<longleftrightarrow> co_text c = [] \<and> co_tool_use c = None"
| "collects (Inside _ Function) c \<longleftrightarrow> co_text c = [] \<and> co_thinking c = []"
| "collects (Inside _ NoBlock) c \<longleftrightarrow> False"
| "collects _ c \<longleftrightarrow> co_text c = [] \<and> co_thinking c = [] \<and> co_tool_use c = None"

lemma content_set_usage [simp]: "cr_content (set_usage env v r) = cr_content r"
  by (simp add: set_usage_def split: option.split)

lemma response_updates [simp]:
  "response_text (r\<lparr>cr_id := i\<rparr>) = response_text r" "response_text (r\<lparr>cr_model := m\<rparr>) = response_text r"
  "response_text (set_usage env v r) = response_text r" "response_text (r\<lparr>cr_stop_reason := x\<rparr>) = response_text r"
  "response_thinking (r\<lparr>cr_id := i\<rparr>) = response_thinking r" "response_thinking (r\<lparr>cr_model := m\<rparr>) = response_thinking r"
  "response_thinking (set_usage env v r) = response_thinking r"
  "response_thinking (r\<lparr>cr_stop_reason := x\<rparr>) = response_thinking r"
  by (simp_all add: response_text_def response_thinking_def)

lemma collect_message_start:
  "collects (Between 0) c \<Longrightarrow> collects (Between 0) (on_message_start env d c)
    \<and> words (on_message_start env d c) = words c \<and> thoughts (on_message_start env d c) = thoughts c"
  by (simp add: on_message_start_def on_response_def words_def thoughts_def Let_def split: option.split)

lemma collect_message_delta:
  "collects (Between 0) c \<Longrightarrow> collects Closing (on_message_delta env d c)
    \<and> words (on_message_delta env d c) = words c \<and> thoughts (on_message_delta env d c) = thoughts c"
  by (simp add: on_message_delta_def on_response_def words_def thoughts_def Let_def split: option.split)

lemma collect_block_start:
  "collects (Between n) c \<Longrightarrow> block_kind d = Some k \<Longrightarrow> collects (Inside m k) (on_block_start d c)
    \<and> words (on_block_start d c) = words c \<and> thoughts (on_block_start d c) = thoughts c"
  by (auto simp: on_block_start_def words_def thoughts_def block_kind_def get_str_def split: option.splits if_splits)

lemma collect_block_stop:
  "collects (Inside m k) c \<Longrightarrow> collects (Between n) (on_block_stop env c)
    \<and> words (on_block_stop env c) = words c \<and> thoughts (on_block_stop env c) = thoughts c"
  by (cases k) (auto simp: on_block_stop_def words_def thoughts_def push_block_def on_response_def response_text_def
      response_thinking_def Let_def split: option.split)

lemma collect_block_delta:
  assumes "collects (Inside m k) c" and "delta_kind d = Some x" and "fits k x"
  shows "collects (Inside n k) (on_block_delta d c)
    \<and> words (on_block_delta d c) = words c @ delta_text ''text_delta'' ''text'' (Event ''content_block_delta'' d)
    \<and> thoughts (on_block_delta d c) = thoughts c @ delta_text ''thinking_delta'' ''thinking'' (Event ''content_block_delta'' d)"
proof -
  obtain delta where d: "jget ''delta'' d = Some delta" "get_str ''type'' delta = Some x"
    using assms(2) by (auto simp: delta_kind_def get_str_def bind_eq_Some_conv)
  show ?thesis
  proof (cases k)
    case Text
    then show ?thesis using assms d
      by (cases "get_str ''text'' delta") (simp_all add: on_block_delta_def words_def thoughts_def get_str_def str_or_def)
  next
    case Thinking
    then show ?thesis using assms d
      by (cases "get_str ''thinking'' delta"; cases "get_str ''signature'' delta")
         (auto simp: on_block_delta_def words_def thoughts_def get_str_def str_or_def)
  next
    case Function
    then show ?thesis using assms d
      by (cases "get_str ''partial_json'' delta") (simp_all add: on_block_delta_def words_def thoughts_def get_str_def str_or_def)
  qed (use assms in simp)
qed

lemma collect_step_follows:
  assumes "client_step ch p = Some p'" and "p' \<noteq> Closed" and "collects p c"
  shows "collects p' (collect_step env (event_of ch) c)
    \<and> words (collect_step env (event_of ch) c) = words c @ sent_text [ch]
    \<and> thoughts (collect_step env (event_of ch) c) = thoughts c @ sent_thinking [ch]
    \<and> fst (event_of ch) \<notin> {''message_stop'', ''error''}"
proof (cases ch)
  case (Raw r)
  then show ?thesis using assms by (cases p) (auto split: if_splits)
next
  case (Event t d)
  show ?thesis
  proof (cases p)
    case NotStarted
    then show ?thesis using assms Event collect_message_start [of c env d]
      by (auto simp: collect_step_def sent_text_def sent_thinking_def split: if_splits)
  next
    case (Between n)
    then show ?thesis using assms Event collect_block_start [of n c d] collect_message_delta [of c env d]
      by (auto simp: collect_step_def sent_text_def sent_thinking_def split: if_splits)
  next
    case (Inside n k)
    then show ?thesis using assms Event collect_block_delta [of n k c d] collect_block_stop [of n k c]
      by (auto simp: collect_step_def sent_text_def sent_thinking_def split: if_splits option.splits)
  qed (use assms Event in \<open>auto split: if_splits\<close>)
qed

lemma collect_run_follows:
  assumes "client_run cs p = Some Closed" and "p \<noteq> Closed" and "collects p c"
  shows "\<exists>r. collect_events env (map event_of cs) c = Inr r
    \<and> response_text r = words c @ sent_text cs \<and> response_thinking r = thoughts c @ sent_thinking cs"
  using assms
proof (induction cs arbitrary: p c)
  case (Cons ch cs)
  then obtain p' where p': "client_step ch p = Some p'" "client_run cs p' = Some Closed"
    by (auto simp: bind_eq_Some_conv)
  have s: "sent_text (ch # cs) = sent_text [ch] @ sent_text cs" "sent_thinking (ch # cs) = sent_thinking [ch] @ sent_thinking cs"
    by (simp_all add: sent_text_def sent_thinking_def)
  show ?case
  proof (cases "p' = Closed")
    case True
    then have "p = Closing \<and> ch = message_stop \<and> cs = []"
      using p' Cons.prems(2) by (cases ch; cases p; cases cs) (auto split: if_splits)
    then show ?thesis using Cons.prems(3)
      by (simp add: message_stop_def words_def thoughts_def sent_text_def sent_thinking_def)
  next
    case False
    note f = collect_step_follows [OF p'(1) False Cons.prems(3), of env]
    from Cons.IH [OF p'(2) False conjunct1 [OF f]] f s show ?thesis by (cases "event_of ch") auto
  qed
qed simp

section \<open>Events are read back\<close>

lemma find_newline: "CHR 0x0A \<notin> set l \<Longrightarrow> str_find (l @ newline @ rest) newline = Some (length l)"
proof -
  have "CHR 0x0A \<notin> set l \<Longrightarrow> find_from i (l @ newline @ rest) newline = Some (i + length l)" for i
    by (induction l arbitrary: i) (auto simp: newline_def)
  then show "CHR 0x0A \<notin> set l \<Longrightarrow> ?thesis" by (simp add: str_find_def)
qed

lemma read_lines_line:
  assumes "CHR 0x0A \<notin> set l" and "CHR 0x0D \<notin> set l"
  shows "read_lines env (l @ newline @ rest) r = read_lines env rest (read_line env l r)"
proof -
  have "trim_end_cr l = l"
    using assms(2) by (cases "rev l") (auto simp: trim_end_cr_def rev_swap dest: arg_cong [of _ _ set])
  then show ?thesis
    using find_newline [OF assms(1), of rest] by (subst read_lines.simps) (simp add: newline_def)
qed

lemma read_lines_empty: "read_lines env [] r = ([], r)"
  by (simp add: read_lines.simps str_find_def newline_def)

definition plain_field :: "string \<Rightarrow> bool" where
  "plain_field x \<longleftrightarrow> x \<noteq> [] \<and> CHR 0x0A \<notin> set x \<and> CHR 0x0D \<notin> set x \<and> trim_start ('' '' @ x) = x"

lemma parse_field:
  "plain_field x \<Longrightarrow> parse_sse_line (''event: '' @ x) = Some (''event'', x)"
  "plain_field x \<Longrightarrow> parse_sse_line (''data: '' @ x) = Some (''data'', x)"
  by (simp_all add: parse_sse_line_def str_find_def plain_field_def)

lemma read_event:
  assumes "plain_field t" and "plain_field x" and "parse_json env x = Some d" and "sr_data r = []"
  shows "read_lines env (''event: '' @ t @ newline @ ''data: '' @ x @ newline @ newline) r
    = ([], \<lparr>sr_events = sr_events r @ [(t, d)], sr_event_type = [], sr_data = []\<rparr>)"
proof -
  have "read_lines env ((''event: '' @ t) @ newline @ (''data: '' @ x) @ newline @ [] @ newline @ []) r
      = ([], read_line env [] (read_line env (''data: '' @ x) (read_line env (''event: '' @ t) r)))"
    using assms(1,2) read_lines_line [of "''event: '' @ t"] read_lines_line [of "''data: '' @ x"] read_lines_line [of "[]"] read_lines_line [of "[]" _ "[]"]
    by (simp add: plain_field_def read_lines_empty)
  also have "\<dots> = ([], \<lparr>sr_events = sr_events r @ [(t, d)], sr_event_type = [], sr_data = []\<rparr>)"
    using assms parse_field [OF assms(1)] parse_field [OF assms(2)] by (simp add: read_line_def plain_field_def)
  finally show ?thesis by simp
qed

definition stop_data :: string where
  "stop_data = ''{'' @ [CHR 0x22] @ ''type'' @ [CHR 0x22] @ '':'' @ [CHR 0x22] @ ''message_stop'' @ [CHR 0x22] @ ''}''"

text \<open>
  What is used of the library: the printed form of the data is one line of valid UTF-8 without leading
  white space, and parsing it gives the data back.
\<close>

fun readable :: "stream_env \<Rightarrow> collect_env \<Rightarrow> chunk \<Rightarrow> bool" where
  "readable senv cenv (Event t d) \<longleftrightarrow> plain_field t \<and> plain_field (to_str senv d)
     \<and> parse_json cenv (to_str senv d) = Some d \<and> valid_utf8 (render senv (Event t d))"
| "readable senv cenv (Raw s) \<longleftrightarrow> Raw s = message_stop
     \<and> parse_json cenv stop_data = Some (JObj [(''type'', JStr ''message_stop'')])"

lemma valid_utf8_ascii: "is_ascii s \<Longrightarrow> valid_utf8 s"
proof (induction s)
  case (Cons c s)
  then have "first_char (c # s) = (True, 1)" by (simp add: first_char_def is_ascii_def)
  with Cons show ?case by (subst valid_utf8.simps) (simp add: is_ascii_def)
qed (simp add: valid_utf8.simps)

lemma read_chunk:
  assumes "readable senv cenv ch" and "sr_data r = []"
  shows "read_lines cenv (utf8_lossy (render senv ch)) r
    = ([], \<lparr>sr_events = sr_events r @ [event_of ch], sr_event_type = [], sr_data = []\<rparr>)"
proof (cases ch)
  case (Event t d)
  then show ?thesis using assms read_event [of t "to_str senv d" cenv d r] by (simp add: utf8_lossy_valid)
next
  case (Raw s)
  then have s: "s = ''event: '' @ ''message_stop'' @ newline @ ''data: '' @ stop_data @ newline @ newline"
    using assms(1) by (simp add: message_stop_def stop_data_def)
  have "plain_field ''message_stop''" "plain_field stop_data"
    using trim_start_blank by (simp_all add: plain_field_def stop_data_def plain_char_def)
  moreover have "parse_json cenv stop_data = Some (JObj [(''type'', JStr ''message_stop'')])" using Raw assms(1) by simp
  ultimately have "read_lines cenv s r = ([], \<lparr>sr_events = sr_events r @ [event_of (Raw s)], sr_event_type = [], sr_data = []\<rparr>)"
    unfolding s event_of.simps using assms(2) by (rule read_event)
  moreover have "utf8_lossy s = s"
    unfolding s by (intro utf8_lossy_valid valid_utf8_ascii) (simp add: is_ascii_def newline_def stop_data_def)
  ultimately show ?thesis by (simp only: Raw render.simps)
qed

lemma read_chunks_back:
  "list_all (readable senv cenv) cs \<Longrightarrow> sr_data r = [] \<Longrightarrow>
     read_chunks cenv (map (\<lambda>c. Inr (render senv c)) cs) [] r = Inr (sr_events r @ map event_of cs)"
  by (induction cs arbitrary: r) (simp_all add: read_chunk del: render.simps)

text \<open>
  Claim C7: a stream that follows the protocol, written as server-sent events and collected again, gives an
  answer whose text blocks and thinking blocks hold exactly the words that were streamed. The
  hypothesis on the chunks is what \<open>serde_json\<close> promises: printing gives one line, and parsing it gives
  the value back.
\<close>

theorem collector_inverts_stream:
  assumes "client_run cs NotStarted = Some Closed" and "list_all (readable senv cenv) cs"
  shows "\<exists>r. collect_stream_to_json cenv (map (\<lambda>c. Inr (render senv c)) cs) = Inr r
    \<and> response_text r = sent_text cs \<and> response_thinking r = sent_thinking cs"
proof -
  have "collects NotStarted new_collected" "words new_collected = []" "thoughts new_collected = []"
    by (simp_all add: new_collected_def words_def thoughts_def response_text_def response_thinking_def)
  with collect_run_follows [OF assms(1), of new_collected cenv] read_chunks_back [OF assms(2)]
  show ?thesis by (simp add: collect_stream_to_json_def)
qed

text \<open>A message with one block, and a printer for its five values.\<close>

definition demo_state :: streaming_state where
  "demo_state = new_streaming_state new_cache new_calibrator"

definition demo_json :: "nat \<Rightarrow> json" where
  "demo_json i =
     (if i = 0 then JNull
      else if i = 1 then JObj [(''type'', JStr ''content_block_start''), (''index'', jindex_of demo_state), (''content_block'', text_block)]
      else if i = 2 then JObj [(''type'', JStr ''content_block_delta''), (''index'', jindex_of demo_state),
                               (''delta'', JObj [(''type'', JStr ''text_delta''), (''text'', JStr ''hello'')])]
      else if i = 3 then JObj [(''type'', JStr ''content_block_stop''), (''index'', jindex_of demo_state)]
      else JBool True)"

definition demo_chunks :: "chunk list" where
  "demo_chunks = [Event ''message_start'' (demo_json 0), Event ''content_block_start'' (demo_json 1),
     Event ''content_block_delta'' (demo_json 2), Event ''content_block_stop'' (demo_json 3),
     Event ''message_delta'' (demo_json 4), message_stop]"

definition demo_printer :: stream_env where
  "demo_printer = demo_stream_env\<lparr>to_str := \<lambda>d.
     if d = demo_json 0 then ''v0'' else if d = demo_json 1 then ''v1'' else if d = demo_json 2 then ''v2''
     else if d = demo_json 3 then ''v3'' else ''v4''\<rparr>"

definition demo_reader :: collect_env where
  "demo_reader = \<lparr>parse_json = \<lambda>x.
     if x = stop_data then Some (JObj [(''type'', JStr ''message_stop'')])
     else if x = ''v0'' then Some (demo_json 0) else if x = ''v1'' then Some (demo_json 1) else if x = ''v2'' then Some (demo_json 2)
     else if x = ''v3'' then Some (demo_json 3) else Some (demo_json 4), usage_of_value = \<lambda>_. None, debug_format = \<lambda>_. []\<rparr>"

lemma plain_fieldI: "plain_char c \<Longrightarrow> list_all plain_char s \<Longrightarrow> plain_field (c # s)"
proof -
  assume "plain_char c" and "list_all plain_char s"
  then have "list_all plain_char (c # s)" by simp
  then have "CHR 0x0A \<notin> set (c # s)" "CHR 0x0D \<notin> set (c # s)" by (auto simp: list_all_iff plain_char_def)
  with trim_start_blank [OF \<open>plain_char c\<close>, of s] show ?thesis by (simp add: plain_field_def)
qed

lemma demo_readable: "list_all (readable demo_printer demo_reader) demo_chunks"
proof -
  have s: "stop_data \<noteq> ''v0''" "stop_data \<noteq> ''v1''" "stop_data \<noteq> ''v2''" "stop_data \<noteq> ''v3''" "stop_data \<noteq> ''v4''"
    by (simp_all add: stop_data_def)
  have "readable demo_printer demo_reader (Event t (demo_json i))" if i: "i < 5" and t: "t \<in> {''message_start'', ''content_block_start'',
      ''content_block_delta'', ''content_block_stop'', ''message_delta''}" for t i
  proof -
    consider "i = 0" | "i = 1" | "i = 2" | "i = 3" | "i = 4" using i by linarith
    then have p: "plain_field (to_str demo_printer (demo_json i)) \<and> parse_json demo_reader (to_str demo_printer (demo_json i)) = Some (demo_json i)
        \<and> is_ascii (to_str demo_printer (demo_json i))"
      by cases (use s in \<open>simp_all add: demo_printer_def demo_reader_def demo_json_def plain_fieldI plain_char_def is_ascii_def text_block_def\<close>)
    moreover have "plain_field t \<and> is_ascii t" using t by (auto intro!: plain_fieldI simp: plain_char_def is_ascii_def)
    ultimately show ?thesis by (auto simp: is_ascii_def newline_def intro!: valid_utf8_ascii)
  qed
  moreover have "readable demo_printer demo_reader message_stop"
    using s by (simp add: message_stop_def demo_reader_def)
  ultimately show ?thesis by (simp add: demo_chunks_def del: readable.simps)
qed

theorem collector_inverts_stream_witness:
  "\<exists>r. collect_stream_to_json demo_reader (map (\<lambda>c. Inr (render demo_printer c)) demo_chunks) = Inr r
    \<and> response_text r = ''hello''"
proof -
  have "client_run demo_chunks NotStarted = Some Closed"
    by (simp add: demo_chunks_def demo_json_def event_index_def jget_def as_u64_def jindex_of_def demo_state_def
        new_streaming_state_def kinds delta_kind_def)
  moreover have "sent_text demo_chunks = ''hello''"
    by (simp add: demo_chunks_def demo_json_def sent_text_def delta_kind_def jget_def as_str_def str_or_def message_stop_def)
  ultimately show ?thesis using collector_inverts_stream [OF _ demo_readable] by auto
qed

lemma finish_thinking:
  assumes "ss_block_type t = Thinking" and "ss_pending t = Some sig" and "ss_trailing_signature t = None"
    and "ss_web_search_query t = None" and "ss_grounding_chunks t = None" and "\<not> ss_message_stop_sent t"
  shows "\<exists>st st' d. fst (emit_finish now (Some fr) um t) =
    [emit_delta ''signature_delta'' (JObj [(''signature'', JStr sig)]) st, block_stop st',
     Event ''message_delta'' (JObj [(''type'', JStr ''message_delta''),
       (''delta'', JObj [(''stop_reason'', JStr (determine_stop_reason (Some fr) False t)), (''stop_sequence'', JNull)]),
       (''usage'', d)]), message_stop]"
proof -
  let ?t = "t\<lparr>ss_received_finish_reason := True\<rparr>"
  have e: "end_block ?t = ([emit_delta ''signature_delta'' (JObj [(''signature'', JStr sig)]) ?t, block_stop (?t\<lparr>ss_pending := None\<rparr>)],
      ?t\<lparr>ss_pending := None, ss_block_index := ss_block_index t + 1, ss_block_type := NoBlock\<rparr>)"
    using assms by (simp add: end_block_def has_pending_def consume_pending_def)
  have f: "finish_blocks now ?t = end_block ?t"
    using assms unfolding finish_blocks_def e by (simp add: finish_trailing_def emit_grounding_block_def)
  show ?thesis
    using assms f unfolding e by (auto simp: emit_finish_def Let_def determine_stop_reason_def emit_def)
qed

text \<open>
  Note: the signature of a thought does not survive. The stream carries it in a \<open>signature_delta\<close>, which
  the collector ignores, so the collected thinking block has none; the client cannot send it back.
\<close>

theorem collected_thinking_unsigned:
  assumes "txt \<noteq> []" and "sig \<noteq> []"
    and "s = (new_streaming_state cache calibrator)\<lparr>ss_message_start_sent := True\<rparr>"
    and "process_thinking senv now txt (Some sig) s = (c1, s1)" and "emit_finish now (Some ''STOP'') None s1 = (c2, s2)"
  shows "(\<exists>st. emit_delta ''signature_delta'' (JObj [(''signature'', JStr sig)]) st \<in> set (c1 @ c2))
    \<and> (\<exists>r. collect_events cenv (map event_of (c1 @ c2)) new_collected = Inr r \<and> cr_content r = [CThinking txt None None])"
proof -
  have s: "ss_block_type s = NoBlock" "ss_trailing_signature s = None" "ss_pending s = None" "ss_model_name s = None"
    "ss_session_id s = None" "\<not> ss_message_stop_sent s" "ss_web_search_query s = None" "ss_grounding_chunks s = None"
    by (simp_all add: assms(3) new_streaming_state_def)
  let ?s1 = "(accumulate_thinking txt (s\<lparr>ss_thinking_received := True, ss_block_type := Thinking\<rparr>))\<lparr>ss_pending := Some sig\<rparr>"
  have 1: "c1 = [block_start thinking_block (s\<lparr>ss_thinking_received := True\<rparr>),
      emit_delta ''thinking_delta'' (JObj [(''thinking'', JStr txt)]) (s\<lparr>ss_thinking_received := True, ss_block_type := Thinking\<rparr>)]
      \<and> s1 = ?s1"
    using assms(1,2,4) s
    by (auto simp: process_thinking_def flush_trailing_def start_block_def remember_signature_def cache_for_session_def
        store_signature_opt_def accumulate_thinking_def Let_def)
  have k: "ss_block_type ?s1 = Thinking" "ss_trailing_signature ?s1 = None" "ss_web_search_query ?s1 = None" "ss_grounding_chunks ?s1 = None"
    "\<not> ss_message_stop_sent ?s1"
    using s by (simp_all add: accumulate_thinking_def Let_def)
  obtain st st' d where 2: "c2 = [emit_delta ''signature_delta'' (JObj [(''signature'', JStr sig)]) st, block_stop st',
     Event ''message_delta'' (JObj [(''type'', JStr ''message_delta''),
       (''delta'', JObj [(''stop_reason'', JStr (determine_stop_reason (Some ''STOP'') False ?s1)), (''stop_sequence'', JNull)]),
       (''usage'', d)]), message_stop]"
    using finish_thinking [OF k(1) _ k(2-5), of sig now "''STOP''" None] assms(5) 1 by auto
  have "\<exists>r. collect_events cenv (map event_of (c1 @ c2)) new_collected = Inr r \<and> cr_content r = [CThinking txt None None]"
    using 1 2 assms(1)
    by (simp add: block_start_def block_stop_def emit_delta_def emit_def message_stop_def collect_step_def new_collected_def
        on_block_start_def on_block_delta_def on_block_stop_def on_message_delta_def on_response_def push_block_def
        get_str_def jget_def as_str_def thinking_block_def tput_def Let_def)
  with 2 show ?thesis by auto
qed

theorem collected_thinking_unsigned_witness:
  "\<exists>r. collect_events demo_reader
     (map event_of (fst (process_thinking demo_stream_env 0 ''Hm'' (Some ''sig'') (demo_state\<lparr>ss_message_start_sent := True\<rparr>))
       @ fst (emit_finish 0 (Some ''STOP'') None
           (snd (process_thinking demo_stream_env 0 ''Hm'' (Some ''sig'') (demo_state\<lparr>ss_message_start_sent := True\<rparr>))))))
     new_collected = Inr r \<and> cr_content r = [CThinking ''Hm'' None None]"
  by (rule conjunct2 [OF collected_thinking_unsigned [OF _ _ _ prod.collapse [symmetric] prod.collapse [symmetric]]])
     (simp_all add: demo_state_def)

end
