(* ===== verification/Response.thy ===== *)
theory Response
  imports Stream_Protocol
begin

text \<open>
  Whole answers: \<open>mappers/claude/response/mod.rs\<close> (\<open>NonStreamingProcessor\<close>), \<open>part_processing.rs\<close>
  (\<open>PartProcessingContext\<close>, a view on the processor's fields, so here the processor itself) and
  \<open>grounding.rs\<close>. The global signature cache is a field of the state. The parameters are those of the
  streams (\<open>stream_env\<close>); reading the upstream JSON into \<open>gemini_response\<close> is derived code.
\<close>

section \<open>Data\<close>

record grounding_metadata =
  gm_web_search_queries :: "string list option"
  gm_grounding_chunks :: "(string option \<times> string option) option list option"
    \<comment> \<open>for each chunk, if it is from the web, its uri and its title\<close>

record gemini_candidate =
  gc_content :: "gemini_part list option"
  gc_finish_reason :: "string option"
  gc_grounding :: "grounding_metadata option"

record gemini_response =
  gr_candidates :: "gemini_candidate list option"
  gr_usage_metadata :: "usage_metadata option"
  gr_model_version :: "string option"
  gr_response_id :: "string option"

record response_processor =
  rp_content_blocks :: "content_block list"
  rp_text_builder :: string
  rp_thinking_builder :: string
  rp_thinking_signature :: "string option"
  rp_trailing_signature :: "string option"
  rp_has_tool_call :: bool
  rp_scaling_enabled :: bool
  rp_context_limit :: u32
  rp_session_id :: "string option"
  rp_model_name :: string
  rp_cache :: signature_cache   \<comment> \<open>global\<close>
  rp_draws :: nat               \<comment> \<open>random identifiers drawn so far\<close>

definition new_processor :: "signature_cache \<Rightarrow> string option \<Rightarrow> string \<Rightarrow> response_processor" where
  "new_processor cache session_id model_name =
     \<lparr>rp_content_blocks = [], rp_text_builder = [], rp_thinking_builder = [], rp_thinking_signature = None,
      rp_trailing_signature = None, rp_has_tool_call = False, rp_scaling_enabled = False, rp_context_limit = 1048576,
      rp_session_id = session_id, rp_model_name = model_name, rp_cache = cache, rp_draws = 0\<rparr>"

definition push_content :: "content_block \<Rightarrow> response_processor \<Rightarrow> response_processor" where
  "push_content b s = s\<lparr>rp_content_blocks := rp_content_blocks s @ [b]\<rparr>"

section \<open>Flushing\<close>

text \<open>\<open>parse_mcp_xml\<close>: the text before a call, its name and input, and what remains; it may panic as in streams.\<close>

definition parse_mcp_xml ::
  "stream_env \<Rightarrow> string \<Rightarrow> panic + (string option \<times> (string \<times> json) \<times> string) option" where
  "parse_mcp_xml env txt =
     (case find_mcp_tag txt of
        None \<Rightarrow> Inr None
      | Some (start_idx, actual_tag_end, tag_name, close_idx) \<Rightarrow>
          if close_idx < actual_tag_end + 1 then Inl SliceRange
          else Inr (Some (if 0 < start_idx then Some (take start_idx txt) else None,
                 (tag_name, mcp_input env (take (close_idx - (actual_tag_end + 1)) (drop (actual_tag_end + 1) txt))),
                 drop (close_idx + length (closing_tag tag_name)) txt)))"

lemma parse_mcp_xml_shorter:
  "parse_mcp_xml env txt = Inr (Some (b, t, remaining)) \<Longrightarrow> length remaining < length txt"
proof -
  assume p: "parse_mcp_xml env txt = Inr (Some (b, t, remaining))"
  then have "txt \<noteq> []" by (auto simp: parse_mcp_xml_def find_mcp_tag_def str_find_def)
  with p show ?thesis by (auto simp: parse_mcp_xml_def closing_tag_def split: option.splits if_splits)
qed

function flush_loop :: "stream_env \<Rightarrow> string \<Rightarrow> response_processor \<Rightarrow> panic + response_processor" where
  "flush_loop env current_text s =
     (case parse_mcp_xml env current_text of
        Inl p \<Rightarrow> Inl p
      | Inr None \<Rightarrow> Inr (if current_text \<noteq> [] then push_content (CText current_text) s else s)
      | Inr (Some (text_before, (tag_name, input), remaining)) \<Rightarrow>
          let s = (case text_before of Some t \<Rightarrow> push_content (CText t) s | None \<Rightarrow> s);
              s = push_content (CToolUse (tag_name @ ''-xml'') tag_name input None None) s
          in flush_loop env remaining (s\<lparr>rp_has_tool_call := True\<rparr>))"
  by pat_completeness auto

termination
  by (relation "measure (\<lambda>(env, t, s). length t)") (auto dest: parse_mcp_xml_shorter)

declare flush_loop.simps [simp del]

definition flush_text :: "stream_env \<Rightarrow> response_processor \<Rightarrow> panic + response_processor" where
  "flush_text env s =
     (if rp_text_builder s = [] then Inr s
      else flush_loop env (rp_text_builder s) (s\<lparr>rp_text_builder := []\<rparr>))"

definition flush_thinking :: "response_processor \<Rightarrow> response_processor" where
  "flush_thinking s =
     (if rp_thinking_builder s = [] \<and> rp_thinking_signature s = None then s
      else (push_content (CThinking (rp_thinking_builder s) (rp_thinking_signature s) None) s)
             \<lparr>rp_thinking_signature := None, rp_thinking_builder := []\<rparr>)"

text \<open>\<open>if let Some(trailing_sig) = self.trailing_signature.take()\<close>\<close>

definition push_trailing :: "response_processor \<Rightarrow> response_processor" where
  "push_trailing s =
     (case rp_trailing_signature s of
        Some trailing_sig \<Rightarrow> push_content (CThinking [] (Some trailing_sig) None) (s\<lparr>rp_trailing_signature := None\<rparr>)
      | None \<Rightarrow> s)"

section \<open>Parts\<close>

definition response_function_call ::
  "stream_env \<Rightarrow> function_call \<Rightarrow> string option \<Rightarrow> response_processor \<Rightarrow> panic + response_processor" where
  "response_function_call env fc signature s =
     (case flush_text env (flush_thinking s) of
        Inl p \<Rightarrow> Inl p
      | Inr s \<Rightarrow>
          let s = (push_trailing s)\<lparr>rp_has_tool_call := True\<rparr>;
              (tool_id, s) =
                (case fc_id fc of
                   Some i \<Rightarrow> (i, s)
                 | None \<Rightarrow> (fc_name fc @ ''-'' @ random_id env (rp_draws s), s\<lparr>rp_draws := rp_draws s + 1\<rparr>));
              tag_name = (if to_lowercase (fc_name fc) = ''search'' then ''Grep'' else fc_name fc);
              args = response_remap_args tag_name (case fc_args fc of Some a \<Rightarrow> a | None \<Rightarrow> JObj [])
          in Inr (push_content (CToolUse tool_id tag_name args signature None) s))"

definition response_text_part ::
  "stream_env \<Rightarrow> string \<Rightarrow> bool \<Rightarrow> string option \<Rightarrow> response_processor \<Rightarrow> panic + response_processor" where
  "response_text_part env txt is_thought signature s =
     (if is_thought
      then case flush_text env s of
             Inl p \<Rightarrow> Inl p
           | Inr s \<Rightarrow>
               let s = (if rp_trailing_signature s \<noteq> None then push_trailing (flush_thinking s) else s);
                   s = s\<lparr>rp_thinking_builder := rp_thinking_builder s @ txt\<rparr>
               in Inr (if signature \<noteq> None then s\<lparr>rp_thinking_signature := signature\<rparr> else s)
      else if txt = []
      then Inr (if signature \<noteq> None then s\<lparr>rp_trailing_signature := signature\<rparr> else s)
      else
        let s = flush_thinking s
        in case (if rp_trailing_signature s \<noteq> None
                 then map_sum id push_trailing (flush_text env s) else Inr s) of
             Inl p \<Rightarrow> Inl p
           | Inr s \<Rightarrow>
               let s = s\<lparr>rp_text_builder := rp_text_builder s @ txt\<rparr>
               in case signature of
                    None \<Rightarrow> Inr s
                  | Some sig \<Rightarrow> map_sum id (push_content (CThinking [] (Some sig) None)) (flush_text env s))"

definition response_inline_data :: "stream_env \<Rightarrow> inline_data \<Rightarrow> response_processor \<Rightarrow> panic + response_processor" where
  "response_inline_data env img s =
     (let s = flush_thinking s
      in if id_data img \<noteq> []
         then flush_text env (s\<lparr>rp_text_builder := rp_text_builder s @ image_text img\<rparr>)
         else Inr s)"

definition cache_response_signature :: "nanos \<Rightarrow> string option \<Rightarrow> response_processor \<Rightarrow> response_processor" where
  "cache_response_signature now signature s =
     (case (signature, rp_session_id s) of
        (Some sig, Some s_id) \<Rightarrow>
          s\<lparr>rp_cache := cache_thinking_family now sig (rp_model_name s) (cache_session_signature now s_id sig (rp_cache s))\<rparr>
      | _ \<Rightarrow> s)"

definition response_part :: "stream_env \<Rightarrow> nanos \<Rightarrow> gemini_part \<Rightarrow> response_processor \<Rightarrow> panic + response_processor" where
  "response_part env now part s =
     (let signature = map_option (decode_signature env) (gp_thought_signature part);
          s = cache_response_signature now signature s
      in case gp_function_call part of
           Some fc \<Rightarrow> response_function_call env fc signature s
         | None \<Rightarrow>
             (case (case gp_text part of
                      Some txt \<Rightarrow> response_text_part env txt (gp_thought part = Some True) signature s
                    | None \<Rightarrow> Inr s) of
                Inl p \<Rightarrow> Inl p
              | Inr s \<Rightarrow> (case gp_inline_data part of Some img \<Rightarrow> response_inline_data env img s | None \<Rightarrow> Inr s)))"

fun response_parts_loop ::
  "stream_env \<Rightarrow> nanos \<Rightarrow> gemini_part list \<Rightarrow> response_processor \<Rightarrow> panic + response_processor" where
  "response_parts_loop env now [] s = Inr s"
| "response_parts_loop env now (p # ps) s =
     (case response_part env now p s of Inl e \<Rightarrow> Inl e | Inr s \<Rightarrow> response_parts_loop env now ps s)"

section \<open>Grounding and the response\<close>

definition join_commas :: "string list \<Rightarrow> string" where
  "join_commas qs = concat (case qs of [] \<Rightarrow> [] | q # rest \<Rightarrow> q # map (\<lambda>x. '', '' @ x) rest)"

definition format_grounding_text :: "grounding_metadata \<Rightarrow> string" where
  "format_grounding_text g =
     (let queries = (case gm_web_search_queries g of
                       Some qs \<Rightarrow> if qs \<noteq> [] then searched_for @ join_commas qs else [] | None \<Rightarrow> []);
          links = (case gm_grounding_chunks g of
                     Some chunks \<Rightarrow> List.map_filter (\<lambda>(i, web). map_option (\<lambda>(uri, title).
                         ''['' @ show_nat (i + 1) @ ''] ['' @ (case title of Some t \<Rightarrow> t | None \<Rightarrow> ''Web Source'')
                         @ '']('' @ (case uri of Some u \<Rightarrow> u | None \<Rightarrow> ''#'') @ '')'') web) (enumerate 0 chunks)
                   | None \<Rightarrow> [])
      in queries @ (if links \<noteq> [] then source_citations @ join_lines links else []))"

definition process_grounding :: "stream_env \<Rightarrow> grounding_metadata \<Rightarrow> response_processor \<Rightarrow> panic + response_processor" where
  "process_grounding env grounding s =
     (let txt = format_grounding_text grounding
      in if txt \<noteq> []
         then case flush_text env (flush_thinking s) of
                Inl p \<Rightarrow> Inl p
              | Inr s \<Rightarrow> flush_text env (s\<lparr>rp_text_builder := rp_text_builder s @ txt\<rparr>)
         else Inr s)"

definition first_gemini_candidate :: "gemini_response \<Rightarrow> gemini_candidate option" where
  "first_gemini_candidate r = Option.bind (gr_candidates r) first_of"

definition build_response :: "stream_env \<Rightarrow> gemini_response \<Rightarrow> response_processor \<Rightarrow> claude_response" where
  "build_response env r s =
     (let finish_reason = Option.bind (first_gemini_candidate r) gc_finish_reason;
          stop_reason = (if rp_has_tool_call s then ''tool_use''
                         else if finish_reason = Some ''MAX_TOKENS'' then ''max_tokens'' else ''end_turn'');
          u = (case gr_usage_metadata r of
                 Some m \<Rightarrow> to_claude_usage m (rp_scaling_enabled s) (rp_context_limit s) | None \<Rightarrow> zero_usage)
      in \<lparr>cr_id = (case gr_response_id r of Some i \<Rightarrow> i | None \<Rightarrow> ''msg_'' @ random_id env (rp_draws s)),
          cr_type = ''message'', cr_role = ''assistant'',
          cr_model = (case gr_model_version r of Some m \<Rightarrow> m | None \<Rightarrow> []),
          cr_content = rp_content_blocks s, cr_stop_reason = stop_reason, cr_stop_sequence = None, cr_usage = u\<rparr>)"

definition process_response ::
  "stream_env \<Rightarrow> nanos \<Rightarrow> gemini_response \<Rightarrow> bool \<Rightarrow> u32 \<Rightarrow> response_processor \<Rightarrow> panic + claude_response \<times> response_processor" where
  "process_response env now r scaling_enabled context_limit s =
     (let s = s\<lparr>rp_scaling_enabled := scaling_enabled, rp_context_limit := context_limit\<rparr>;
          parts = (case Option.bind (first_gemini_candidate r) gc_content of Some ps \<Rightarrow> ps | None \<Rightarrow> [])
      in case response_parts_loop env now parts s of
           Inl p \<Rightarrow> Inl p
         | Inr s \<Rightarrow>
             (case (case Option.bind (first_gemini_candidate r) gc_grounding of
                      Some g \<Rightarrow> process_grounding env g s | None \<Rightarrow> Inr s) of
                Inl p \<Rightarrow> Inl p
              | Inr s \<Rightarrow>
                  (case flush_text env (flush_thinking s) of
                     Inl p \<Rightarrow> Inl p
                   | Inr s \<Rightarrow> let s = push_trailing s in Inr (build_response env r s, s))))"

definition transform_response ::
  "stream_env \<Rightarrow> nanos \<Rightarrow> gemini_response \<Rightarrow> bool \<Rightarrow> u32 \<Rightarrow> string option \<Rightarrow> string \<Rightarrow> signature_cache
   \<Rightarrow> panic + claude_response \<times> response_processor" where
  "transform_response env now r scaling_enabled context_limit session_id model_name cache =
     process_response env now r scaling_enabled context_limit (new_processor cache session_id model_name)"

section \<open>Both converters deliver the same words\<close>

definition contents_text :: "content_block list \<Rightarrow> string" where
  "contents_text bs = concat (map block_text bs)"

definition contents_thinking :: "content_block list \<Rightarrow> string" where
  "contents_thinking bs = concat (map block_thinking bs)"

definition said :: "response_processor \<Rightarrow> string" where
  "said s = contents_text (rp_content_blocks s) @ rp_text_builder s"

definition thought :: "response_processor \<Rightarrow> string" where
  "thought s = contents_thinking (rp_content_blocks s) @ rp_thinking_builder s"

definition tagless :: "response_processor \<Rightarrow> bool" where
  "tagless s \<longleftrightarrow> CHR ''<'' \<notin> set (rp_text_builder s)"

lemma contents_append [simp]:
  "contents_text (bs @ [b]) = contents_text bs @ block_text b"
  "contents_thinking (bs @ [b]) = contents_thinking bs @ block_thinking b"
  by (simp_all add: contents_text_def contents_thinking_def)

lemma flush_text_tagless:
  assumes "tagless s"
  shows "\<exists>s'. flush_text env s = Inr s' \<and> said s' = said s \<and> thought s' = thought s \<and> rp_text_builder s' = []
    \<and> rp_thinking_builder s' = rp_thinking_builder s"
proof -
  have "find_mcp_tag (rp_text_builder s) = None"
  proof -
    have "\<not> contains (rp_text_builder s) ''<mcp__''" using assms by (auto simp: contains_iff tagless_def)
    then show ?thesis using str_find_None [of "rp_text_builder s" "''<mcp__''"] by (simp add: find_mcp_tag_def)
  qed
  then show ?thesis
    by (simp add: flush_text_def flush_loop.simps parse_mcp_xml_def push_content_def said_def thought_def)
qed

lemma flush_thinking_said [simp]:
  "said (flush_thinking s) = said s" "thought (flush_thinking s) = thought s"
  "rp_text_builder (flush_thinking s) = rp_text_builder s" "rp_thinking_builder (flush_thinking s) = []"
  by (simp_all add: flush_thinking_def push_content_def said_def thought_def)

lemma push_trailing_said [simp]:
  "thought (push_trailing s) = thought s" "said (push_trailing s) = said s"
  "rp_text_builder (push_trailing s) = rp_text_builder s" "rp_thinking_builder (push_trailing s) = rp_thinking_builder s"
  by (simp_all add: push_trailing_def push_content_def said_def thought_def split: option.split)

lemma push_unsaid [simp]:
  "block_text b = [] \<Longrightarrow> said (push_content b s) = said s"
  "block_thinking b = [] \<Longrightarrow> thought (push_content b s) = thought s"
  "rp_text_builder (push_content b s) = rp_text_builder s"
  by (simp_all add: push_content_def said_def thought_def)

lemma updates_said [simp]:
  "said (s\<lparr>rp_text_builder := rp_text_builder s @ t\<rparr>) = said s @ t"
  "thought (s\<lparr>rp_text_builder := t\<rparr>) = thought s"
  "thought (s\<lparr>rp_thinking_builder := rp_thinking_builder s @ t\<rparr>) = thought s @ t"
  "said (s\<lparr>rp_thinking_builder := t\<rparr>) = said s"
  "said (s\<lparr>rp_thinking_signature := g\<rparr>) = said s" "thought (s\<lparr>rp_thinking_signature := g\<rparr>) = thought s"
  "said (s\<lparr>rp_trailing_signature := g\<rparr>) = said s" "thought (s\<lparr>rp_trailing_signature := g\<rparr>) = thought s"
  "said (s\<lparr>rp_has_tool_call := b\<rparr>) = said s" "thought (s\<lparr>rp_has_tool_call := b\<rparr>) = thought s"
  "said (s\<lparr>rp_draws := n\<rparr>) = said s" "thought (s\<lparr>rp_draws := n\<rparr>) = thought s"
  "said (s\<lparr>rp_cache := c\<rparr>) = said s" "thought (s\<lparr>rp_cache := c\<rparr>) = thought s"
  by (simp_all add: said_def thought_def)

definition no_tag :: "string \<Rightarrow> bool" where
  "no_tag t \<longleftrightarrow> CHR ''<'' \<notin> set t"

definition tagless_part :: "gemini_part \<Rightarrow> bool" where
  "tagless_part p \<longleftrightarrow> gp_function_call p \<noteq> None
     \<or> (case gp_text p of Some t \<Rightarrow> no_tag t | None \<Rightarrow> True)
       \<and> (case gp_inline_data p of Some img \<Rightarrow> no_tag (image_text img) | None \<Rightarrow> True)"

definition says :: "panic + response_processor \<Rightarrow> response_processor \<Rightarrow> string \<Rightarrow> string \<Rightarrow> bool" where
  "says r s t u \<longleftrightarrow> (\<exists>s'. r = Inr s' \<and> tagless s' \<and> said s' = said s @ t \<and> thought s' = thought s @ u)"

lemma function_call_says: "tagless s \<Longrightarrow> says (response_function_call env fc sig s) s [] []"
  using flush_text_tagless [of "flush_thinking s" env]
  by (auto simp: says_def response_function_call_def Let_def tagless_def case_prod_unfold split: option.split)

lemma thinking_says: "tagless s \<Longrightarrow> says (response_text_part env txt True sig s) s [] txt"
  using flush_text_tagless [of s env] by (auto simp: says_def response_text_part_def Let_def tagless_def)

lemma text_says:
  assumes "tagless s" and "no_tag txt"
  shows "says (response_text_part env txt False sig s) s txt []"
proof (cases "txt = []")
  case True
  then show ?thesis using assms by (simp add: says_def response_text_part_def tagless_def)
next
  case False
  let ?f = "flush_thinking s"
  have "tagless ?f" using assms(1) by (simp add: tagless_def)
  then obtain t where t: "(if rp_trailing_signature ?f \<noteq> None then map_sum id push_trailing (flush_text env ?f) else Inr ?f) = Inr t"
    "said t = said s" "thought t = thought s" "tagless t"
    using flush_text_tagless [of ?f env] by (cases "rp_trailing_signature ?f") (auto simp: tagless_def)
  let ?u = "t\<lparr>rp_text_builder := rp_text_builder t @ txt\<rparr>"
  have u: "tagless ?u" using t(4) assms(2) by (simp add: tagless_def no_tag_def)
  show ?thesis
    using False t u flush_text_tagless [OF u, of env]
    by (cases sig) (auto simp: says_def response_text_part_def Let_def tagless_def)
qed

lemma inline_says:
  assumes "tagless s" and "no_tag (image_text img)"
  shows "says (response_inline_data env img s) s (if id_data img \<noteq> [] then image_text img else []) []"
proof -
  let ?u = "(flush_thinking s)\<lparr>rp_text_builder := rp_text_builder (flush_thinking s) @ image_text img\<rparr>"
  have "tagless ?u" using assms by (simp add: tagless_def no_tag_def)
  note f = flush_text_tagless [OF this, of env]
  have "said ?u = said s @ image_text img" "thought ?u = thought s"
    using updates_said(1) [of "flush_thinking s" "image_text img"] by simp_all
  with f assms(1) show ?thesis
    by (auto simp: says_def response_inline_data_def tagless_def Let_def)
qed

lemma says_trans:
  "says r s t u \<Longrightarrow> (\<And>s'. r = Inr s' \<Longrightarrow> tagless s' \<Longrightarrow> says (f s') s' t' u') \<Longrightarrow>
   says (case r of Inl p \<Rightarrow> Inl p | Inr s' \<Rightarrow> f s') s (t @ t') (u @ u')"
  by (fastforce simp: says_def)

lemma cache_signature_said [simp]:
  "said (cache_response_signature now g s) = said s" "thought (cache_response_signature now g s) = thought s"
  "tagless (cache_response_signature now g s) = tagless s"
  by (simp_all add: cache_response_signature_def tagless_def split: option.split)

lemma part_says:
  assumes "tagless_part p" and "tagless s"
  shows "says (response_part env now p s) s (shown_text p) (shown_thinking p)"
proof -
  let ?sig = "map_option (decode_signature env) (gp_thought_signature p)"
  let ?s = "cache_response_signature now ?sig s"
  have s: "tagless ?s" using assms(2) by simp
  have "says (response_part env now p s) ?s (shown_text p) (shown_thinking p)"
  proof (cases "gp_function_call p")
    case (Some fc)
    then show ?thesis using function_call_says [OF s, of env fc ?sig]
      by (simp add: response_part_def Let_def shown_text_def shown_thinking_def)
  next
    case None
    define t where "t = (case gp_text p of Some t \<Rightarrow> if gp_thought p = Some True then [] else t | None \<Rightarrow> [])"
    have 1: "says (case gp_text p of Some txt \<Rightarrow> response_text_part env txt (gp_thought p = Some True) ?sig ?s | None \<Rightarrow> Inr ?s)
        ?s t (shown_thinking p)"
      using assms(1) None s thinking_says [OF s, of env _ ?sig] text_says [OF s, of _ env ?sig]
      by (auto simp: t_def shown_thinking_def tagless_part_def says_def [of "Inr _"] split: option.split)
    have 2: "says (case gp_inline_data p of Some img \<Rightarrow> response_inline_data env img s' | None \<Rightarrow> Inr s') s'
        (case gp_inline_data p of Some img \<Rightarrow> if id_data img \<noteq> [] then image_text img else [] | None \<Rightarrow> []) []"
      if "tagless s'" for s'
    proof (cases "gp_inline_data p")
      case Some
      then show ?thesis using assms(1) None inline_says [OF that] by (simp add: tagless_part_def)
    qed (use that in \<open>simp add: says_def\<close>)
    from says_trans [OF 1 2] None show ?thesis by (simp add: response_part_def Let_def shown_text_def t_def)
  qed
  then show ?thesis by (simp add: says_def)
qed

interpretation whole: word_keeping "response_part env now" tagless_part tagless said thought
  for env now
  by unfold_locales (use part_says in \<open>auto simp: says_def\<close>)

lemma response_parts_feed: "response_parts_loop env now ps s = feed (response_part env now) ps s"
  by (induction ps arbitrary: s) (simp_all split: sum.split)

text \<open>
  Claim C8: an answer that is converted as a whole has exactly the text and exactly the thoughts of the
  upstream parts, in order. With \<open>words_are_preserved\<close> it follows that a client gets the same words
  whether it asked for a stream or not. The parts must not hold a \<open><\<close> (text is collected across parts
  before it is searched for calls), and the answer has no grounding.
\<close>

theorem converters_agree:
  assumes "Option.bind (first_gemini_candidate r) gc_content = Some ps"
    and "Option.bind (first_gemini_candidate r) gc_grounding = None"
    and "list_all tagless_part ps"
    and "list_all (\<lambda>v. case part_of_json env v of Some p \<Rightarrow> plain_part p | None \<Rightarrow> True) vs"
    and "List.map_filter (part_of_json env) vs = ps"
    and "\<not> ss_in_mcp_xml s" and "\<not> ss_message_stop_sent s"
  shows "\<exists>answer s' c t. transform_response env now r scaling window_size sid model cache = Inr (answer, s')
    \<and> process_parts env now vs s = Inr (c, t)
    \<and> response_text answer = sent_text c \<and> response_thinking answer = sent_thinking c
    \<and> response_text answer = concat (map shown_text ps)"
proof -
  let ?p = "(new_processor cache sid model)\<lparr>rp_scaling_enabled := scaling, rp_context_limit := window_size\<rparr>"
  have "tagless ?p" by (simp add: tagless_def new_processor_def)
  from whole.feed_keeps [OF assms(3) this, of env now] obtain s1
    where 1: "response_parts_loop env now ps ?p = Inr s1" "tagless s1" "said s1 = concat (map shown_text ps)"
      "thought s1 = concat (map shown_thinking ps)"
    by (auto simp: response_parts_feed said_def thought_def new_processor_def contents_text_def contents_thinking_def)
  have "tagless (flush_thinking s1)" using 1(2) by (simp add: tagless_def)
  from flush_text_tagless [OF this, of env] 1 obtain s2
    where 2: "flush_text env (flush_thinking s1) = Inr s2" "said s2 = concat (map shown_text ps)"
      "thought s2 = concat (map shown_thinking ps)" "rp_text_builder s2 = []" "rp_thinking_builder s2 = []"
    by auto
  have w: "response_text (build_response env r (push_trailing s2)) = concat (map shown_text ps)"
    "response_thinking (build_response env r (push_trailing s2)) = concat (map shown_thinking ps)"
    using 2 push_trailing_said [of s2]
    by (simp_all add: build_response_def Let_def response_text_def response_thinking_def said_def thought_def
        contents_text_def contents_thinking_def)
  have "transform_response env now r scaling window_size sid model cache
      = Inr (build_response env r (push_trailing s2), push_trailing s2)"
    by (simp add: transform_response_def process_response_def Let_def assms(1,2) 1(1) 2(1))
  moreover have "\<exists>c t. process_parts env now vs s = Inr (c, t) \<and> sent_text c = concat (map shown_text ps)
      \<and> sent_thinking c = concat (map shown_thinking ps)"
    using parts_words [OF assms(4,6,7), of now] assms(5) by simp
  ultimately show ?thesis using w by auto
qed

text \<open>
  Note: the two converters disagree on why an answer with a call stopped when it also hit the token
  limit: the stream reports \<open>max_tokens\<close>, the whole answer \<open>tool_use\<close>.
\<close>

theorem stop_reasons_differ:
  assumes "ss_used_tool s" and "rp_has_tool_call t"
    and "Option.bind (first_gemini_candidate r) gc_finish_reason = Some ''MAX_TOKENS''"
  shows "determine_stop_reason (Some ''MAX_TOKENS'') False s = ''max_tokens''
    \<and> cr_stop_reason (build_response env r t) = ''tool_use''"
  using assms by (simp add: determine_stop_reason_def build_response_def Let_def)

definition demo_parts :: "gemini_part list" where
  "demo_parts = List.map_filter (part_of_json demo_stream_env) [JStr ''text'', JStr ''call'']"

definition demo_response :: gemini_response where
  "demo_response = \<lparr>gr_candidates = Some [\<lparr>gc_content = Some demo_parts, gc_finish_reason = Some ''MAX_TOKENS'', gc_grounding = None\<rparr>],
     gr_usage_metadata = None, gr_model_version = None, gr_response_id = None\<rparr>"

theorem converters_agree_witness:
  "\<exists>answer s'. transform_response demo_stream_env 0 demo_response False 1048576 None ''m'' new_cache = Inr (answer, s')
    \<and> response_text answer = ''hello''"
proof -
  have "list_all tagless_part demo_parts" "concat (map shown_text demo_parts) = ''hello''"
    by (simp_all add: demo_parts_def demo_stream_env_def map_filter_simps tagless_part_def no_tag_def shown_text_def)
  moreover have "list_all (\<lambda>v. case part_of_json demo_stream_env v of Some p \<Rightarrow> plain_part p | None \<Rightarrow> True) [JStr ''text'', JStr ''call'']"
    by (simp add: demo_stream_env_def plain_part_def)
  ultimately show ?thesis
    using converters_agree [of demo_response demo_parts demo_stream_env "[JStr ''text'', JStr ''call'']"
        "new_streaming_state new_cache new_calibrator" 0 False 1048576 None "''m''" new_cache]
    by (auto simp: demo_response_def first_gemini_candidate_def first_of_def demo_parts_def new_streaming_state_def)
qed

theorem stop_reasons_differ_witness:
  "\<exists>s. determine_stop_reason (Some ''MAX_TOKENS'') False s
     \<noteq> cr_stop_reason (build_response demo_stream_env demo_response ((new_processor new_cache None [])\<lparr>rp_has_tool_call := True\<rparr>))"
proof
  let ?s = "(new_streaming_state new_cache new_calibrator)\<lparr>ss_used_tool := True\<rparr>"
  show "determine_stop_reason (Some ''MAX_TOKENS'') False ?s
     \<noteq> cr_stop_reason (build_response demo_stream_env demo_response ((new_processor new_cache None [])\<lparr>rp_has_tool_call := True\<rparr>))"
    using stop_reasons_differ [of ?s "(new_processor new_cache None [])\<lparr>rp_has_tool_call := True\<rparr>" demo_response demo_stream_env]
    by (simp add: demo_response_def first_gemini_candidate_def first_of_def)
qed

end
