(* ===== verification/Json_Schema.thy ===== *)
theory Json_Schema
  imports Rust_Strings
begin

text \<open>
  Preparing the JSON schemas of tools for the Gemini interface, \<open>crates/antigravity-core/src/proxy/common/json_schema\<close>
  (\<open>cleaner.rs\<close>, \<open>merge.rs\<close>, \<open>recursive.rs\<close>, \<open>union.rs\<close>) with the adapter of \<open>common/tool_adapter.rs\<close>
  and \<open>common/tool_adapters/pencil.rs\<close>. An object is a list of entries in the order in which
  \<open>serde_json\<close>'s map iterates over it.

  Parameters are the printing of a JSON value, which is \<open>serde_json\<close>'s, and the order in which a
  \<open>HashSet\<close> of strings is iterated.
\<close>

record schema_env =
  se_to_string :: "json \<Rightarrow> string"
  se_hash_order :: "string list \<Rightarrow> string list"

type_synonym jmap = "(string \<times> json) list"

section \<open>References\<close>

definition add_defs :: "string \<Rightarrow> jmap \<Rightarrow> jmap \<Rightarrow> jmap" where
  "add_defs key m defs =
     (case tget m key of Some (JObj d) \<Rightarrow> fold (\<lambda>(k, v). tentry k v) d defs | _ \<Rightarrow> defs)"

function collect_all_defs :: "json \<Rightarrow> jmap \<Rightarrow> jmap" where
  "collect_all_defs (JObj m) defs =
     fold (\<lambda>(key, v) defs. if key \<noteq> ''$defs'' \<and> key \<noteq> ''definitions'' then collect_all_defs v defs else defs) m
       (add_defs ''definitions'' m (add_defs ''$defs'' m defs))"
| "collect_all_defs (JArr a) defs = fold collect_all_defs a defs"
| "collect_all_defs JNull defs = defs"
| "collect_all_defs (JBool b) defs = defs"
| "collect_all_defs (JNum n) defs = defs"
| "collect_all_defs (JStr s) defs = defs"
  by pat_completeness auto

termination
proof (relation "measure (\<lambda>(v, _). size v)")
  fix m :: jmap and x :: "string \<times> json" and xa v :: json and y :: string
  show "x \<in> set m \<Longrightarrow> (y, v) = x \<Longrightarrow> ((v, defs), JObj m, d) \<in> measure (\<lambda>(v, _). size v)" for defs d
    using size_list_estimation' [of x m "size v" "size_prod (\<lambda>x. 0) size"] by auto
qed (auto simp: less_Suc_eq_le intro: size_list_estimation')

definition last_segment :: "string \<Rightarrow> string" where
  "last_segment s = rev (takeWhile (\<lambda>c. c \<noteq> CHR ''/'') (rev s))"

text \<open>
  \<open>if let Value::String(s) = map.entry("description").or_insert(empty)\<close>: an absent description becomes
  an empty one, a description that is no string stays.
\<close>

definition edit_description :: "(string \<Rightarrow> string) \<Rightarrow> jmap \<Rightarrow> jmap" where
  "edit_description f m =
     (let m = tentry ''description'' (JStr []) m
      in case tget m ''description'' of Some (JStr s) \<Rightarrow> tput ''description'' (JStr (f s)) m | _ \<Rightarrow> m)"

definition unresolved_ref :: "string \<Rightarrow> jmap \<Rightarrow> jmap" where
  "unresolved_ref ref_path m =
     (let hint = ''(Unresolved $ref: '' @ ref_path @ '')''
      in edit_description (\<lambda>s. if contains s hint then s else (if s \<noteq> [] then s @ '' '' else s) @ hint)
           (tput ''type'' (JStr ''string'') m))"

text \<open>
  \<open>map.entry(k).or_insert(v)\<close> for all entries of another object.
\<close>

definition merge_missing :: "jmap \<Rightarrow> jmap \<Rightarrow> jmap" where
  "merge_missing extra m = fold (\<lambda>(k, v). tentry k v) extra m"

text \<open>The members of an array or the fields of an object one after the other; \<open>None\<close> aborts.\<close>

definition in_child :: "(jmap \<Rightarrow> jmap option) \<Rightarrow> json \<Rightarrow> json option" where
  "in_child f v = (case v of JObj c \<Rightarrow> map_option JObj (f c) | _ \<Rightarrow> Some v)"

definition in_children :: "(jmap \<Rightarrow> jmap option) \<Rightarrow> json \<Rightarrow> json option" where
  "in_children f v =
     (case v of
        JObj c \<Rightarrow> map_option JObj (f c)
      | JArr a \<Rightarrow> map_option JArr (those (map (in_child f) a))
      | _ \<Rightarrow> Some v)"

definition in_values :: "(json \<Rightarrow> json option) \<Rightarrow> jmap \<Rightarrow> jmap option" where
  "in_values f m = those (map (\<lambda>(k, v). map_option (Pair k) (f v)) m)"

text \<open>
  The expansion of references. It calls itself as deep as the references lead and is not bounded; the
  first argument is the number of calls for which the stack has room, and \<open>None\<close> is the end of the
  process by a stack overflow.
\<close>

definition own_ref :: "(jmap \<Rightarrow> jmap option) \<Rightarrow> jmap \<Rightarrow> jmap \<Rightarrow> jmap option" where
  "own_ref f defs m =
     (case tget m ''$ref'' of
        Some (JStr ref_path) \<Rightarrow>
          (case tget defs (last_segment ref_path) of
             Some (JObj def_map) \<Rightarrow> f (merge_missing def_map (tdel ''$ref'' m))
           | Some _ \<Rightarrow> Some (tdel ''$ref'' m)
           | None \<Rightarrow> Some (unresolved_ref ref_path (tdel ''$ref'' m)))
      | _ \<Rightarrow> Some (tdel ''$ref'' m))"

primrec flatten_refs :: "nat \<Rightarrow> jmap \<Rightarrow> jmap \<Rightarrow> jmap option" where
  "flatten_refs 0 defs m = None"
| "flatten_refs (Suc stack) defs m =
     Option.bind (own_ref (flatten_refs stack defs) defs m) (in_values (in_children (flatten_refs stack defs)))"

section \<open>Merging\<close>

definition object_or_empty :: "string \<Rightarrow> json \<Rightarrow> jmap" where
  "object_or_empty key v = (case jget key v of Some (JObj m) \<Rightarrow> m | _ \<Rightarrow> [])"

definition strings_of :: "json list \<Rightarrow> string list" where
  "strings_of a = List.map_filter as_str a"

definition required_names :: "json \<Rightarrow> string list" where
  "required_names v = (case jget ''required'' v of Some (JArr a) \<Rightarrow> strings_of a | _ \<Rightarrow> [])"

definition other_field :: "string \<Rightarrow> bool" where
  "other_field k \<longleftrightarrow> k \<noteq> ''properties'' \<and> k \<noteq> ''required'' \<and> k \<noteq> ''allOf''"

definition put_all :: "jmap \<Rightarrow> jmap \<Rightarrow> jmap" where
  "put_all extra m = fold (\<lambda>(k, v). tput k v) extra m"

text \<open>\<open>map.entry("properties").or_insert({})\<close> and the missing entries, if that is an object\<close>

definition merge_properties :: "jmap \<Rightarrow> jmap \<Rightarrow> jmap" where
  "merge_properties props m =
     (let m = tentry ''properties'' (JObj []) m
      in case tget m ''properties'' of
           Some (JObj existing) \<Rightarrow> tput ''properties'' (JObj (merge_missing props existing)) m
         | _ \<Rightarrow> m)"

definition merge_required :: "string list \<Rightarrow> jmap \<Rightarrow> jmap" where
  "merge_required reqs m =
     (let m = tentry ''required'' (JArr []) m
      in case tget m ''required'' of
           Some (JArr a) \<Rightarrow> tput ''required'' (JArr (a @ map JStr (filter (\<lambda>r. r \<notin> set (strings_of a)) reqs))) m
         | _ \<Rightarrow> m)"

definition merge_all_of :: "schema_env \<Rightarrow> jmap \<Rightarrow> jmap" where
  "merge_all_of env m =
     (case tget m ''allOf'' of
        Some (JArr all_of) \<Rightarrow>
          let merged_properties = fold (\<lambda>v. put_all (object_or_empty ''properties'' v)) all_of [];
              merged_required = se_hash_order env (remdups (concat (map required_names all_of)));
              other_fields = fold (\<lambda>v. merge_missing (filter (\<lambda>(k, _). other_field k)
                                 (case v of JObj s \<Rightarrow> s | _ \<Rightarrow> []))) all_of [];
              m = merge_missing other_fields (tdel ''allOf'' m);
              m = (if merged_properties \<noteq> [] then merge_properties merged_properties m else m)
          in if merged_required \<noteq> [] then merge_required merged_required m else m
      | _ \<Rightarrow> tdel ''allOf'' m)"

section \<open>Unions\<close>

definition type_of :: "json \<Rightarrow> string option" where
  "type_of v = Option.bind (jget ''type'' v) as_str"

definition score_schema_option :: "json \<Rightarrow> int" where
  "score_schema_option v =
     (if jget ''properties'' v \<noteq> None \<or> type_of v = Some ''object'' then 3
      else if jget ''items'' v \<noteq> None \<or> type_of v = Some ''array'' then 2
      else case type_of v of Some t \<Rightarrow> if t \<noteq> ''null'' then 1 else 0 | None \<Rightarrow> 0)"

text \<open>The first option with the highest score\<close>

definition extract_best_schema_from_union :: "json list \<Rightarrow> json option" where
  "extract_best_schema_from_union union_array =
     fst (fold (\<lambda>item (best, best_score).
            if best_score < score_schema_option item then (Some item, score_schema_option item) else (best, best_score))
          union_array (None, -1))"

definition merge_branch_field :: "string \<times> json \<Rightarrow> jmap \<Rightarrow> jmap" where
  "merge_branch_field e m =
     (let (k, v) = e
      in if k = ''properties''
         then (let m = tentry ''properties'' (JObj []) m
               in case (tget m ''properties'', v) of
                    (Some (JObj target_props), JObj source_props) \<Rightarrow>
                      tput ''properties'' (JObj (merge_missing source_props target_props)) m
                  | _ \<Rightarrow> m)
         else if k = ''required''
         then (let m = tentry ''required'' (JArr []) m
               in case (tget m ''required'', v) of
                    (Some (JArr target_req), JArr source_req) \<Rightarrow>
                      tput ''required'' (JArr (fold (\<lambda>rv t. if rv \<in> set t then t else t @ [rv]) source_req target_req)) m
                  | _ \<Rightarrow> m)
         else tentry k v m)"

definition merge_union :: "jmap \<Rightarrow> jmap" where
  "merge_union m =
     (let union_to_merge = (case tget m ''anyOf'' of
                              Some (JArr any_of) \<Rightarrow> Some any_of
                            | _ \<Rightarrow> (case tget m ''oneOf'' of Some (JArr one_of) \<Rightarrow> Some one_of | _ \<Rightarrow> None))
      in case Option.bind union_to_merge extract_best_schema_from_union of
           Some (JObj branch_obj) \<Rightarrow> fold merge_branch_field branch_obj m
         | _ \<Rightarrow> m)"

section \<open>Cleaning one object\<close>

definition constraints :: "(string \<times> string) list" where
  "constraints =
     [(''minLength'', ''minLen''), (''maxLength'', ''maxLen''), (''pattern'', ''pattern''), (''minimum'', ''min''),
      (''maximum'', ''max''), (''multipleOf'', ''multipleOf''), (''exclusiveMinimum'', ''exclMin''),
      (''exclusiveMaximum'', ''exclMax''), (''minItems'', ''minItems''), (''maxItems'', ''maxItems''),
      (''propertyNames'', ''propertyNames''), (''format'', ''format'')]"

definition constraint_hint :: "schema_env \<Rightarrow> jmap \<Rightarrow> string \<times> string \<Rightarrow> string option" where
  "constraint_hint env m c =
     (case tget m (fst c) of
        None \<Rightarrow> None
      | Some v \<Rightarrow> if v = JNull then None
                  else Some (snd c @ '': '' @ (case v of JStr s \<Rightarrow> s | _ \<Rightarrow> se_to_string env v)))"

fun join_with :: "string \<Rightarrow> string list \<Rightarrow> string" where
  "join_with sep [] = []"
| "join_with sep [s] = s"
| "join_with sep (s # t # ss) = s @ sep @ join_with sep (t # ss)"

definition hint_constraints :: "schema_env \<Rightarrow> jmap \<Rightarrow> jmap" where
  "hint_constraints env m =
     (let hints = List.map_filter (constraint_hint env m) constraints;
          suffix = '' [Constraint: '' @ join_with '', '' hints @ '']''
      in if hints = [] then m else edit_description (\<lambda>s. if contains s suffix then s else s @ suffix) m)"

definition allowed_fields :: "string list" where
  "allowed_fields = [''type'', ''description'', ''properties'', ''required'', ''items'', ''enum'', ''title'']"

definition keep_allowed :: "jmap \<Rightarrow> jmap" where
  "keep_allowed m = filter (\<lambda>(k, _). k \<in> set allowed_fields) m"

definition object_has_properties :: "jmap \<Rightarrow> jmap" where
  "object_has_properties m =
     (if Option.bind (tget m ''type'') as_str = Some ''object'' then tentry ''properties'' (JObj []) m else m)"

definition required_exist :: "jmap \<Rightarrow> jmap" where
  "required_exist m =
     (case tget m ''required'' of
        Some (JArr a) \<Rightarrow>
          tput ''required''
            (JArr (case tget m ''properties'' of
                     Some (JObj props) \<Rightarrow> filter (\<lambda>k. case k of JStr s \<Rightarrow> s \<in> fst ` set props | _ \<Rightarrow> False) a
                   | _ \<Rightarrow> [])) m
      | _ \<Rightarrow> m)"

text \<open>The first type that is not null, and whether one is null\<close>

definition selected_type :: "json \<Rightarrow> string option \<times> bool" where
  "selected_type v =
     (let names = (case v of JStr s \<Rightarrow> [to_lowercase s] | JArr a \<Rightarrow> map to_lowercase (strings_of a) | _ \<Rightarrow> [])
      in (List.find (\<lambda>t. t \<noteq> ''null'') names, ''null'' \<in> set names))"

definition normalize_type :: "jmap \<Rightarrow> jmap \<times> bool" where
  "normalize_type m =
     (case tget m ''type'' of
        Some v \<Rightarrow>
          (let (t, nullable) = selected_type v
           in (tput ''type'' (JStr (case t of Some t \<Rightarrow> t | None \<Rightarrow> ''string'')) m, nullable))
      | None \<Rightarrow> (m, False))"

definition note_nullable :: "jmap \<Rightarrow> jmap" where
  "note_nullable m =
     edit_description (\<lambda>s. if contains s ''nullable'' then s else (if s \<noteq> [] then s @ '' '' else s) @ ''(nullable)'') m"

definition enum_strings :: "schema_env \<Rightarrow> jmap \<Rightarrow> jmap" where
  "enum_strings env m =
     (case tget m ''enum'' of
        Some (JArr a) \<Rightarrow>
          tput ''enum'' (JArr (map (\<lambda>v. case v of JStr s \<Rightarrow> v | JNull \<Rightarrow> JStr ''null'' | _ \<Rightarrow> JStr (se_to_string env v)) a)) m
      | _ \<Rightarrow> m)"

definition infer_object :: "jmap \<Rightarrow> jmap" where
  "infer_object m = (if tget m ''properties'' \<noteq> None then tentry ''type'' (JStr ''object'') m else m)"

definition schema_keys :: "string list" where
  "schema_keys = [''type'', ''properties'', ''items'', ''enum'', ''anyOf'', ''oneOf'', ''allOf'']"

definition looks_like_schema :: "jmap \<Rightarrow> bool" where
  "looks_like_schema m \<longleftrightarrow> list_ex (\<lambda>k. tget m k \<noteq> None) schema_keys"

text \<open>Everything that is done to an object after its parts are clean, and whether it is nullable\<close>

definition clean_object :: "schema_env \<Rightarrow> jmap \<Rightarrow> jmap \<times> bool" where
  "clean_object env m =
     (let m = infer_object (merge_union m)
      in if \<not> looks_like_schema m then (m, False)
         else
           let (m, nullable) = normalize_type (required_exist (object_has_properties (keep_allowed (hint_constraints env m))));
               m = (if nullable then note_nullable m else m)
           in (enum_strings env m, nullable))"

section \<open>The recursive cleaner\<close>

text \<open>A required property that may be null is not required any more.\<close>

definition drop_nullable :: "string list \<Rightarrow> jmap \<Rightarrow> jmap" where
  "drop_nullable nullable_keys m =
     (if nullable_keys = [] then m
      else case tget m ''required'' of
             Some (JArr a) \<Rightarrow>
               let a = filter (\<lambda>r. case r of JStr s \<Rightarrow> s \<notin> set nullable_keys | _ \<Rightarrow> True) a
               in if a = [] then tdel ''required'' m else tput ''required'' (JArr a) m
           | _ \<Rightarrow> m)"

definition clean_properties :: "(json \<Rightarrow> json \<times> bool) \<Rightarrow> jmap \<Rightarrow> jmap" where
  "clean_properties f m =
     (case tget m ''properties'' of
        Some (JObj props) \<Rightarrow>
          drop_nullable (map fst (filter (\<lambda>(k, v). snd (f v)) props))
            (tput ''properties'' (JObj (tmapv (\<lambda>v. fst (f v)) props)) m)
      | _ \<Rightarrow> m)"

definition clean_items :: "(json \<Rightarrow> json \<times> bool) \<Rightarrow> jmap \<Rightarrow> jmap" where
  "clean_items f m = (case tget m ''items'' of Some v \<Rightarrow> tput ''items'' (fst (f v)) m | None \<Rightarrow> m)"

definition clean_branches :: "string \<Rightarrow> (json \<Rightarrow> json \<times> bool) \<Rightarrow> jmap \<Rightarrow> jmap" where
  "clean_branches key f m =
     (case tget m key of Some (JArr a) \<Rightarrow> tput key (JArr (map (\<lambda>v. fst (f v)) a)) m | _ \<Rightarrow> m)"

text \<open>The first argument is the number of levels that are still cleaned; below them values stay as they are.\<close>

primrec clean_bounded :: "schema_env \<Rightarrow> nat \<Rightarrow> json \<Rightarrow> json \<times> bool" where
  "clean_bounded env 0 v = (v, False)"
| "clean_bounded env (Suc levels) v =
     (case v of
        JObj m \<Rightarrow>
          (let f = clean_bounded env levels;
               (m, nullable) =
                 clean_object env (clean_branches ''oneOf'' f (clean_branches ''anyOf'' f
                   (clean_items f (clean_properties f (merge_all_of env m)))))
           in (JObj m, nullable))
      | JArr a \<Rightarrow> (JArr (map (\<lambda>x. fst (clean_bounded env levels x)) a), False)
      | _ \<Rightarrow> (v, False))"

definition MAX_RECURSION_DEPTH :: nat where "MAX_RECURSION_DEPTH = 64"

definition clean_json_schema_recursive :: "schema_env \<Rightarrow> json \<Rightarrow> json \<times> bool" where
  "clean_json_schema_recursive env v = clean_bounded env (MAX_RECURSION_DEPTH + 1) v"

text \<open>The definitions are collected and removed, then the references are expanded.\<close>

definition expand_refs :: "nat \<Rightarrow> json \<Rightarrow> json option" where
  "expand_refs stack v =
     (let all_defs = collect_all_defs v []
      in case v of
           JObj m \<Rightarrow> map_option JObj (flatten_refs stack all_defs (tdel ''definitions'' (tdel ''$defs'' m)))
         | _ \<Rightarrow> Some v)"

definition clean_json_schema :: "schema_env \<Rightarrow> nat \<Rightarrow> json \<Rightarrow> json option" where
  "clean_json_schema env stack v =
     map_option (\<lambda>v. fst (clean_json_schema_recursive env v)) (expand_refs stack v)"

section \<open>Adapters of tools\<close>

definition append_hint_to_schema :: "json \<Rightarrow> string \<Rightarrow> json" where
  "append_hint_to_schema schema hint =
     (case schema of
        JObj m \<Rightarrow> JObj (edit_description (\<lambda>s. if s = [] then hint else if contains s hint then s else s @ '' '' @ hint) m)
      | _ \<Rightarrow> schema)"

definition pencil_matches :: "string \<Rightarrow> bool" where
  "pencil_matches tag_name = starts_with tag_name ''mcp__pencil__''"

definition visual_props :: "string list" where
  "visual_props = [''cornerRadius'', ''strokeWidth'', ''opacity'', ''rotation'']"

text \<open>\<open>entry("description").and_modify(..).or_insert(..)\<close>\<close>

definition modify_or_insert :: "(string \<Rightarrow> string) \<Rightarrow> string \<Rightarrow> json \<Rightarrow> json" where
  "modify_or_insert f new v =
     (case v of
        JObj m \<Rightarrow>
          JObj (case tget m ''description'' of
                  Some (JStr s) \<Rightarrow> tput ''description'' (JStr (f s)) m
                | Some _ \<Rightarrow> m
                | None \<Rightarrow> tput ''description'' (JStr new) m)
      | _ \<Rightarrow> v)"

definition map_properties :: "(string \<Rightarrow> bool) \<Rightarrow> (json \<Rightarrow> json) \<Rightarrow> jmap \<Rightarrow> jmap" where
  "map_properties P f m =
     (case tget m ''properties'' of
        Some (JObj props) \<Rightarrow> tput ''properties'' (JObj (map (\<lambda>(k, v). (k, if P k then f v else v)) props)) m
      | _ \<Rightarrow> m)"

definition handle_visual_properties :: "jmap \<Rightarrow> jmap" where
  "handle_visual_properties m =
     (let visual = ''Pencil visual properties: cornerRadius, strokeWidth, opacity, rotation'';
          m = (if list_ex (\<lambda>p. tget m p \<noteq> None) visual_props
               then edit_description (\<lambda>s. if contains s ''Pencil visual properties'' then s
                      else if s = [] then visual else s @ '' ('' @ visual @ '')'') m
               else m)
      in map_properties (\<lambda>k. k \<in> set visual_props)
           (modify_or_insert (\<lambda>s. if contains s ''visual property'' then s else s @ '' (visual property for UI elements)'')
              ''Visual property for UI elements'') m)"

definition optimize_path_parameters :: "jmap \<Rightarrow> jmap" where
  "optimize_path_parameters m =
     map_properties (\<lambda>k. contains k ''path'' \<or> contains k ''file'' \<or> contains k ''File'' \<or> contains k ''Path'')
       (modify_or_insert (\<lambda>s. if contains s ''absolute path'' then s
            else s @ '' (use absolute path, e.g., /path/to/file.pen)'') ''File path (use absolute path)'') m"

definition pencil_pre_process :: "json \<Rightarrow> json" where
  "pencil_pre_process schema =
     (case schema of JObj m \<Rightarrow> JObj (optimize_path_parameters (handle_visual_properties m)) | _ \<Rightarrow> schema)"

text \<open>The only adapter of the list does nothing afterwards.\<close>

definition clean_json_schema_for_tool :: "schema_env \<Rightarrow> nat \<Rightarrow> json \<Rightarrow> string \<Rightarrow> json option" where
  "clean_json_schema_for_tool env stack v tag_name =
     clean_json_schema env stack (if pencil_matches tag_name then pencil_pre_process v else v)"

end
