(* ===== verification/Schema_Conformance.thy ===== *)
theory Schema_Conformance
  imports Json_Schema
begin

text \<open>
  Correctness of the schema cleaner (theory \<open>Json_Schema\<close>): its results have the restricted form
  that the interface is given, the expansion of references returns for definitions without cycles, and does not for cyclic ones.
\<close>

section \<open>Cleaned schemas conform\<close>

text \<open>The form of one object that looks like a schema\<close>

definition required_ok :: "jmap \<Rightarrow> bool" where
  "required_ok m \<longleftrightarrow>
     (case tget m ''required'' of
        Some (JArr a) \<Rightarrow>
          list_all (\<lambda>r. case r of JStr s \<Rightarrow> (case tget m ''properties'' of Some (JObj ps) \<Rightarrow> s \<in> fst ` set ps | _ \<Rightarrow> False)
                                | _ \<Rightarrow> False) a
      | _ \<Rightarrow> True)"

definition object_conforms :: "jmap \<Rightarrow> bool" where
  "object_conforms m \<longleftrightarrow>
     (looks_like_schema m \<longrightarrow>
        list_all (\<lambda>(k, _). k \<in> set allowed_fields) m
        \<and> (case tget m ''type'' of Some (JStr t) \<Rightarrow> t \<noteq> ''null'' | Some _ \<Rightarrow> False | None \<Rightarrow> tget m ''properties'' = None)
        \<and> required_ok m
        \<and> (case tget m ''enum'' of Some (JArr a) \<Rightarrow> list_all (\<lambda>v. as_str v \<noteq> None) a | _ \<Rightarrow> True))"

text \<open>The same for all schemas in a value, down to some level\<close>

primrec conforms :: "nat \<Rightarrow> json \<Rightarrow> bool" where
  "conforms 0 v = True"
| "conforms (Suc n) v =
     (case v of
        JObj m \<Rightarrow> twf m \<and> object_conforms m
          \<and> (case tget m ''properties'' of Some (JObj ps) \<Rightarrow> list_all (\<lambda>(_, p). conforms n p) ps | _ \<Rightarrow> True)
          \<and> (case tget m ''items'' of Some x \<Rightarrow> conforms n x | None \<Rightarrow> True)
      | JArr a \<Rightarrow> list_all (conforms n) a
      | _ \<Rightarrow> True)"


definition conforming :: "json \<Rightarrow> bool" where
  "conforming v \<longleftrightarrow> (\<forall>n. conforms n v)"


lemma conforming_leaf [simp]:
  "conforming JNull" "conforming (JBool b)" "conforming (JNum x)" "conforming (JStr s)"
proof -
  have "conforms n JNull \<and> conforms n (JBool b) \<and> conforms n (JNum x) \<and> conforms n (JStr s)" for n by (cases n) auto
  then show "conforming JNull" "conforming (JBool b)" "conforming (JNum x)" "conforming (JStr s)"
    by (simp_all add: conforming_def)
qed



lemma set_tput: "set (tput k v t) \<subseteq> insert (k, v) (set t)"
  unfolding tput_def by (induction t) auto

lemma set_tentry: "set (tentry k v t) \<subseteq> insert (k, v) (set t)"
  unfolding tentry_def using set_tput [of k v t] by (cases "tget t k") auto

lemma set_merge_missing: "set (merge_missing e m) \<subseteq> set e \<union> set m"
  unfolding merge_missing_def
proof (induction e arbitrary: m)
  case (Cons x e)
  then show ?case using set_tentry [of "fst x" "snd x" m] Cons.IH [of "tentry (fst x) (snd x) m"] by (cases x) auto
qed simp


lemma twf_merge_missing [simp, intro]: "twf m \<Longrightarrow> twf (merge_missing e m)"
  unfolding merge_missing_def by (induction e arbitrary: m) (auto simp: case_prod_unfold)

lemma twf_put_all [simp, intro]: "twf m \<Longrightarrow> twf (put_all e m)"
  unfolding put_all_def by (induction e arbitrary: m) (auto simp: case_prod_unfold)

lemma twf_edit_description [simp, intro]: "twf m \<Longrightarrow> twf (edit_description f m)"
  by (auto simp: edit_description_def Let_def split: option.split json.split)

lemma twf_keep_allowed [simp, intro]: "twf m \<Longrightarrow> twf (keep_allowed m)"
  unfolding keep_allowed_def by (induction m) auto

lemma tget_edit_description [table_simps]:
  "k \<noteq> ''description'' \<Longrightarrow> tget (edit_description f m) k = tget m k"
  by (simp add: edit_description_def Let_def split: option.split json.split)


section \<open>Branches\<close>





lemma twf_merge_branch [simp, intro]: "twf m \<Longrightarrow> twf (merge_branch_field e m)"
proof -
  assume m: "twf m"
  obtain k v where e: "e = (k, v)" by (cases e)
  consider "k = ''properties''" | "k = ''required''" | "k \<noteq> ''properties''" "k \<noteq> ''required''" by auto
  then show "twf (merge_branch_field e m)"
  proof cases
    case 3
    then show ?thesis using m by (simp add: merge_branch_field_def e twf_tentry)
  qed (use m in \<open>auto simp: merge_branch_field_def e Let_def split: option.split json.split\<close>)
qed






section \<open>One object\<close>



















section \<open>The recursion\<close>























section \<open>Expanding references\<close>

lemma tget_merge_missing: "tget (merge_missing e m) k = (case tget m k of Some v \<Rightarrow> Some v | None \<Rightarrow> tget e k)"
  unfolding merge_missing_def
proof (induction e arbitrary: m)
  case (Cons x e)
  then show ?case by (cases x) (auto split: option.split)
qed (simp split: option.split)

lemma those_Some_iff: "those xs = Some ys \<longleftrightarrow> xs = map Some ys"
proof (induction xs arbitrary: ys)
  case (Cons x xs)
  then show ?case by (cases ys; cases x) (auto split: option.split)
qed auto

lemma those_map_Some: "those (map f xs) = Some ys \<longleftrightarrow> list_all2 (\<lambda>x y. f x = Some y) xs ys"
  by (auto simp: those_Some_iff list_eq_iff_nth_eq list_all2_conv_all_nth)

lemma those_map_ex: "(\<exists>ys. those (map f xs) = Some ys) \<longleftrightarrow> (\<forall>x \<in> set xs. f x \<noteq> None)"
  by (induction xs) (auto split: option.split)

lemma in_values_Some:
  "in_values f m = Some y \<longleftrightarrow> list_all2 (\<lambda>(k, v) (k', v'). k = k' \<and> f v = Some v') m y"
  unfolding in_values_def those_map_Some by (rule arg_cong [where f = "\<lambda>P. list_all2 P m y"]) (auto simp: fun_eq_iff)

lemma in_values_ex: "(\<exists>y. in_values f m = Some y) \<longleftrightarrow> (\<forall>(k, v) \<in> set m. f v \<noteq> None)"
  unfolding in_values_def those_map_ex by auto

lemma in_values_mono:
  assumes "in_values f m = Some y" and "\<And>v w. f v = Some w \<Longrightarrow> g v = Some w"
  shows "in_values g m = Some y"
  using assms unfolding in_values_Some by (auto elim!: list_all2_mono)

lemma in_values_same: "in_values f m = Some y \<Longrightarrow> (\<And>v w. f v = Some w \<Longrightarrow> g w = Some w) \<Longrightarrow> in_values g y = Some y"
  unfolding in_values_Some by (auto simp: list_all2_conv_all_nth case_prod_unfold)

lemma keys_in_values: "in_values f m = Some y \<Longrightarrow> map fst y = map fst m"
  unfolding in_values_Some by (auto simp: list_all2_conv_all_nth list_eq_iff_nth_eq case_prod_unfold)

lemma in_child_mono:
  "in_child f v = Some w \<Longrightarrow> (\<And>m x. f m = Some x \<Longrightarrow> g m = Some x) \<Longrightarrow> in_child g v = Some w"
  by (auto simp: in_child_def split: json.splits)

lemma in_children_mono:
  assumes "in_children f v = Some w" and "\<And>m x. f m = Some x \<Longrightarrow> g m = Some x"
  shows "in_children g v = Some w"
proof (cases v)
  case (JArr a)
  then obtain b where "w = JArr b" "list_all2 (\<lambda>x y. in_child f x = Some y) a b"
    using assms(1) by (auto simp: in_children_def those_map_Some)
  then show ?thesis using JArr in_child_mono [OF _ assms(2)]
    by (auto simp: in_children_def those_map_Some elim!: list_all2_mono)
qed (use assms in \<open>auto simp: in_children_def\<close>)

lemma in_children_same:
  assumes "in_children f v = Some w" and "\<And>m x. f m = Some x \<Longrightarrow> g x = Some x"
  shows "in_children g w = Some w"
proof (cases v)
  case (JArr a)
  then obtain b where b: "w = JArr b" "list_all2 (\<lambda>x y. in_child f x = Some y) a b"
    using assms(1) by (auto simp: in_children_def those_map_Some)
  have "in_child g y = Some y" if "in_child f x = Some y" for x y
    using that assms(2) by (auto simp: in_child_def split: json.splits)
  then have "list_all2 (\<lambda>x y. in_child g x = Some y) b b"
    using b(2) by (auto simp: list_all2_conv_all_nth)
  then show ?thesis using b(1) by (simp add: in_children_def those_map_Some)
qed (use assms in \<open>auto simp: in_children_def\<close>)

lemma tdel_absent: "tget m k = None \<Longrightarrow> tdel k m = m"
  by (simp add: tdel_def map_of_eq_None_iff)

lemma own_ref_none: "tget m ''$ref'' = None \<Longrightarrow> own_ref f defs m = Some m"
  by (simp add: own_ref_def tdel_absent)

lemma own_ref_mono:
  "own_ref f defs m = Some y \<Longrightarrow> (\<And>n z. f n = Some z \<Longrightarrow> g n = Some z) \<Longrightarrow> own_ref g defs m = Some y"
  by (auto simp: own_ref_def split: option.splits json.splits)

lemma flatten_mono: "flatten_refs s defs m = Some x \<Longrightarrow> s \<le> t \<Longrightarrow> flatten_refs t defs m = Some x"
proof (induction s arbitrary: m x t)
  case (Suc s)
  then obtain u where t: "t = Suc u" "s \<le> u" by (cases t) auto
  obtain y where y: "own_ref (flatten_refs s defs) defs m = Some y" "in_values (in_children (flatten_refs s defs)) y = Some x"
    using Suc.prems by (auto simp: bind_eq_Some_conv)
  note i = Suc.IH [OF _ t(2)]
  have "in_values (in_children (flatten_refs u defs)) y = Some x"
    by (rule in_values_mono [OF y(2)]) (rule in_children_mono, assumption, rule i, assumption)
  then show ?case using own_ref_mono [OF y(1) i] by (simp add: t)
qed simp

text \<open>The result has no references left: expanding it again changes nothing.\<close>

lemma tget_ref_own:
  assumes "own_ref f defs m = Some y" and "\<And>n z. f n = Some z \<Longrightarrow> tget z ''$ref'' = None"
  shows "tget y ''$ref'' = None"
  using assms
  by (auto simp: own_ref_def unresolved_ref_def Let_def tget_edit_description split: option.splits json.splits)

lemma flatten_settles: "flatten_refs s defs m = Some x \<Longrightarrow> tget x ''$ref'' = None \<and> flatten_refs s defs x = Some x"
proof (induction s arbitrary: m x)
  case (Suc s)
  obtain y where y: "own_ref (flatten_refs s defs) defs m = Some y" "in_values (in_children (flatten_refs s defs)) y = Some x"
    using Suc.prems by (auto simp: bind_eq_Some_conv)
  have "tget y ''$ref'' = None" using tget_ref_own [OF y(1)] Suc.IH by blast
  then have x: "tget x ''$ref'' = None" using keys_in_values [OF y(2)] by (metis map_of_eq_None_iff set_map)
  then have "own_ref (flatten_refs s defs) defs x = Some x" by (rule own_ref_none)
  moreover have "in_values (in_children (flatten_refs s defs)) x = Some x"
    by (rule in_values_same [OF y(2)]) (rule in_children_same, assumption, use Suc.IH in blast)
  ultimately show ?case using x by simp
qed simp

lemma flatten_resolved:
  assumes "tget m ''$ref'' = Some (JStr p)" and "tget defs (last_segment p) = Some (JObj d)"
    and "flatten_refs s defs (merge_missing d (tdel ''$ref'' m)) = Some y"
  shows "flatten_refs (Suc s) defs m = Some y"
proof -
  have y: "tget y ''$ref'' = None" "flatten_refs s defs y = Some y" using flatten_settles [OF assms(3)] by simp_all
  then obtain t where s: "s = Suc t" by (cases s) auto
  have "in_values (in_children (flatten_refs t defs)) y = Some y" using y own_ref_none [OF y(1)] by (simp add: s)
  then have "in_values (in_children (flatten_refs s defs)) y = Some y"
    by (rule in_values_mono) (rule in_children_mono, assumption, rule flatten_mono, assumption, simp add: s)
  then show ?thesis using assms by (simp add: own_ref_def)
qed

text \<open>Names of the definitions that a value refers to\<close>

function refs_in :: "json \<Rightarrow> string list" where
  "refs_in (JObj m) =
     (case tget m ''$ref'' of Some (JStr p) \<Rightarrow> [last_segment p] | _ \<Rightarrow> []) @ concat (map (\<lambda>(_, v). refs_in v) m)"
| "refs_in (JArr a) = concat (map refs_in a)"
| "refs_in JNull = []"
| "refs_in (JBool b) = []"
| "refs_in (JNum n) = []"
| "refs_in (JStr s) = []"
  by pat_completeness auto

termination
proof (relation "measure size")
  show "x \<in> set m \<Longrightarrow> (y, v) = x \<Longrightarrow> (v, JObj m) \<in> measure size" for m :: jmap and x :: "string \<times> json" and y :: string and v
    using size_list_estimation' [of x m "size v" "size_prod (\<lambda>x. 0) size"] by auto
qed (auto simp: less_Suc_eq_le intro: size_list_estimation')

definition refs_below :: "(string \<Rightarrow> nat) \<Rightarrow> jmap \<Rightarrow> nat \<Rightarrow> json \<Rightarrow> bool" where
  "refs_below rank defs b v \<longleftrightarrow> (\<forall>r \<in> set (refs_in v). tget defs r \<noteq> None \<longrightarrow> rank r < b)"

definition acyclic_defs :: "(string \<Rightarrow> nat) \<Rightarrow> jmap \<Rightarrow> bool" where
  "acyclic_defs rank defs \<longleftrightarrow> (\<forall>(n, d) \<in> set defs. refs_below rank defs (rank n) d)"

definition expands :: "jmap \<Rightarrow> json \<Rightarrow> bool" where
  "expands defs v \<longleftrightarrow> (\<exists>s w. in_children (flatten_refs s defs) v = Some w)"

lemma expands_obj: "expands defs (JObj m) \<longleftrightarrow> (\<exists>s x. flatten_refs s defs m = Some x)"
  by (auto simp: expands_def in_children_def)

lemma common_stack:
  assumes "finite A" and "\<And>v. v \<in> A \<Longrightarrow> \<exists>s w. f s v = Some w" and "\<And>s t v w. f s v = Some w \<Longrightarrow> s \<le> t \<Longrightarrow> f t v = Some w"
  shows "\<exists>s :: nat. \<forall>v \<in> A. \<exists>w. f s v = Some w"
  using assms(1,2)
proof (induction A rule: finite_induct)
  case (insert a A)
  then obtain s t w where s: "\<forall>v \<in> A. \<exists>w. f s v = Some w" and t: "f t a = Some w" by blast
  have "\<exists>w. f (max s t) v = Some w" if "v \<in> A" for v
    using s that assms(3) [of s v _ "max s t"] by (meson max.cobounded1)
  moreover have "f (max s t) a = Some w" using assms(3) [OF t] by simp
  ultimately have "\<forall>v \<in> insert a A. \<exists>w. f (max s t) v = Some w" by blast
  then show ?case ..
qed simp

lemma in_children_flatten_mono:
  "in_children (flatten_refs s defs) v = Some w \<Longrightarrow> s \<le> t \<Longrightarrow> in_children (flatten_refs t defs) v = Some w"
  by (rule in_children_mono, assumption, rule flatten_mono)

lemma expands_entries:
  assumes "\<forall>(k, v) \<in> set m. expands defs v"
  shows "\<exists>s x. in_values (in_children (flatten_refs s defs)) m = Some x"
proof -
  have "\<exists>s. \<forall>v \<in> snd ` set m. \<exists>w. in_children (flatten_refs s defs) v = Some w"
  proof (rule common_stack)
    show "\<exists>s w. in_children (flatten_refs s defs) v = Some w" if "v \<in> snd ` set m" for v
      using assms that by (auto simp: expands_def)
  qed (simp, erule in_children_flatten_mono, assumption)
  then obtain s where "\<forall>v \<in> snd ` set m. \<exists>w. in_children (flatten_refs s defs) v = Some w" ..
  then have "\<forall>(k, v) \<in> set m. in_children (flatten_refs s defs) v \<noteq> None" by fastforce
  then show ?thesis using in_values_ex [of "in_children (flatten_refs s defs)" m] by blast
qed


lemma set_edit_description:
  "\<forall>(k, v) \<in> set (edit_description f m). (k, v) \<in> set m \<or> (\<exists>t. v = JStr t)"
proof -
  have e: "\<forall>(k, v) \<in> set (tentry ''description'' (JStr []) m). (k, v) \<in> set m \<or> (\<exists>t. v = JStr t)"
    using set_tentry [of "''description''" "JStr []" m] by auto
  show ?thesis
  proof (cases "\<exists>s. tget (tentry ''description'' (JStr []) m) ''description'' = Some (JStr s)")
    case True
    then obtain s where "tget (tentry ''description'' (JStr []) m) ''description'' = Some (JStr s)" ..
    then show ?thesis
      using e set_tput [of "''description''" "JStr (f s)" "tentry ''description'' (JStr []) m"]
      by (auto simp: edit_description_def Let_def simp del: tget_tentry)
  next
    case False
    then have "edit_description f m = tentry ''description'' (JStr []) m"
      by (auto simp: edit_description_def Let_def simp del: tget_tentry split: option.split json.split)
    then show ?thesis using e by simp
  qed
qed

lemma set_unresolved:
  "\<forall>(k, v) \<in> set (unresolved_ref p m). (k, v) \<in> set m \<or> (\<exists>t. v = JStr t)"
  unfolding unresolved_ref_def Let_def
  using set_tput [of "''type''" "JStr ''string''" m] set_edit_description by fast

lemma expands_str: "expands defs (JStr t)"
  by (simp add: expands_def in_children_def)

lemma own_ref_terminates:
  assumes "acyclic_defs rank defs"
    and "\<And>n d. tget defs n = Some (JObj d) \<Longrightarrow> rank n < b \<Longrightarrow> \<forall>(k, v) \<in> set d. expands defs v"
    and "\<forall>(k, v) \<in> set m. expands defs v"
    and "\<And>p. tget m ''$ref'' = Some (JStr p) \<Longrightarrow> tget defs (last_segment p) \<noteq> None \<Longrightarrow> rank (last_segment p) < c"
    and "c \<le> b"
  shows "expands defs (JObj m)"
  using assms(3-)
proof (induction c arbitrary: m rule: less_induct)
  case (less c)
  have tdel_entries: "\<forall>(k, v) \<in> set (tdel ''$ref'' m). expands defs v"
    using less.prems(1) by (auto simp: tdel_def AList.delete_eq)
  show ?case
  proof (cases "\<exists>p d. tget m ''$ref'' = Some (JStr p) \<and> tget defs (last_segment p) = Some (JObj d)")
    case True
    then obtain p d where p: "tget m ''$ref'' = Some (JStr p)" and d: "tget defs (last_segment p) = Some (JObj d)" by blast
    let ?m2 = "merge_missing d (tdel ''$ref'' m)"
    have r: "rank (last_segment p) < c" using less.prems(2) p d by simp
    then have "\<forall>(k, v) \<in> set d. expands defs v" using assms(2) [OF d] less.prems(3) by simp
    then have e: "\<forall>(k, v) \<in> set ?m2. expands defs v" using tdel_entries set_merge_missing [of d "tdel ''$ref'' m"] by blast
    have "expands defs (JObj ?m2)"
    proof (rule less.IH [OF r e])
      fix q assume "tget ?m2 ''$ref'' = Some (JStr q)" "tget defs (last_segment q) \<noteq> None"
      moreover from this have "last_segment q \<in> set (refs_in (JObj d))" by (simp add: tget_merge_missing)
      ultimately show "rank (last_segment q) < rank (last_segment p)"
        using assms(1) map_of_SomeD [OF d] unfolding acyclic_defs_def refs_below_def by blast
    qed (use r less.prems(3) in simp)
    then show ?thesis using flatten_resolved [OF p d] unfolding expands_obj by blast
  next
    case False
    have "\<exists>y. (\<forall>f. own_ref f defs m = Some y) \<and> (y = tdel ''$ref'' m \<or> (\<exists>p. y = unresolved_ref p (tdel ''$ref'' m)))"
    proof (cases "\<exists>p. tget m ''$ref'' = Some (JStr p) \<and> tget defs (last_segment p) = None")
      case True
      then show ?thesis by (auto simp: own_ref_def)
    next
      case none: False
      have "own_ref f defs m = Some (tdel ''$ref'' m)" for f
        using none False by (auto simp: own_ref_def split: option.split json.split)
      then show ?thesis by blast
    qed
    then obtain y where y: "\<And>f. own_ref f defs m = Some y" and
        e: "y = tdel ''$ref'' m \<or> (\<exists>p. y = unresolved_ref p (tdel ''$ref'' m))" by blast
    have "\<forall>(k, v) \<in> set y. (k, v) \<in> set (tdel ''$ref'' m) \<or> (\<exists>t. v = JStr t)"
      using e set_unresolved by blast
    then have "\<forall>(k, v) \<in> set y. expands defs v"
      using tdel_entries expands_str by blast
    then obtain s x where "in_values (in_children (flatten_refs s defs)) y = Some x" using expands_entries by blast
    then have "flatten_refs (Suc s) defs m = Some x" using y by simp
    then show ?thesis unfolding expands_obj by blast
  qed
qed

lemma refs_in_entry: "(k, v) \<in> set m \<Longrightarrow> set (refs_in v) \<subseteq> set (refs_in (JObj m))"
  by auto

lemma acyclic_expands:
  assumes "acyclic_defs rank defs"
  shows "refs_below rank defs b v \<Longrightarrow> expands defs v"
proof (induction b arbitrary: v rule: less_induct)
  case (less b)
  have defs_expand: "\<forall>(k, v) \<in> set d. expands defs v" if "tget defs n = Some (JObj d)" "rank n < b" for n d
  proof -
    have "refs_below rank defs (rank n) (JObj d)"
      using assms map_of_SomeD [OF that(1)] by (auto simp: acyclic_defs_def)
    then have "refs_below rank defs (rank n) v" if "(k, v) \<in> set d" for k v
      using refs_in_entry [OF that] unfolding refs_below_def by blast
    then show ?thesis using less.IH [OF that(2)] by blast
  qed
  show ?case using less.prems
  proof (induction v rule: refs_in.induct)
    case (1 m)
    have "\<forall>(k, v) \<in> set m. expands defs v"
    proof clarify
      fix k v assume m: "(k, v) \<in> set m"
      have "refs_below rank defs b v" using "1.prems" refs_in_entry [OF m] unfolding refs_below_def by blast
      then show "expands defs v" using "1.IH" [OF m refl] by simp
    qed
    show ?case
    proof (rule own_ref_terminates [OF assms])
      show "tget defs n = Some (JObj d) \<Longrightarrow> rank n < b \<Longrightarrow> \<forall>(k, v) \<in> set d. expands defs v" for n d
        by (rule defs_expand)
      show "\<forall>(k, v) \<in> set m. expands defs v" by fact
      fix p assume "tget m ''$ref'' = Some (JStr p)" "tget defs (last_segment p) \<noteq> None"
      then show "rank (last_segment p) < b" using "1.prems" by (simp add: refs_below_def)
    qed auto
  next
    case (2 a)
    have "\<forall>v \<in> set a. expands defs v" using 2 by (auto simp: refs_below_def)
    then have "\<exists>s w. in_child (flatten_refs s defs) v = Some w" if "v \<in> set a" for v
      using that by (cases v) (auto simp: in_child_def expands_obj)
    then have "\<exists>s. \<forall>v \<in> set a. \<exists>w. in_child (flatten_refs s defs) v = Some w"
    proof (rule common_stack [rotated])
      show "in_child (flatten_refs s defs) v = Some w \<Longrightarrow> s \<le> t \<Longrightarrow> in_child (flatten_refs t defs) v = Some w" for s t v w
        by (rule in_child_mono, assumption, rule flatten_mono)
    qed simp_all
    then obtain s where "\<forall>v \<in> set a. in_child (flatten_refs s defs) v \<noteq> None" by fastforce
    then obtain b where "those (map (in_child (flatten_refs s defs)) a) = Some b" using those_map_ex by blast
    then show ?case unfolding expands_def in_children_def by auto
  qed (auto simp: expands_def in_children_def)
qed


text \<open>A reference that leads back to itself: the schema of a recursive structure\<close>

definition back_reference :: "string \<Rightarrow> jmap \<Rightarrow> bool" where
  "back_reference n m \<longleftrightarrow>
     (case tget m ''$ref'' of Some (JStr p) \<Rightarrow> last_segment p = n | _ \<Rightarrow> False) \<and> tget m ''properties'' = None"

lemma in_values_fails:
  assumes "(k, v) \<in> set m" and "f v = None"
  shows "in_values f m = None"
proof -
  have "\<not> (\<exists>y. in_values f m = Some y)" using assms unfolding in_values_ex by force
  then show ?thesis by simp
qed

lemma recursive_schema_loops:
  assumes "tget defs n = Some (JObj d)" and "tget d ''$ref'' = None"
    and "tget d ''properties'' = Some (JObj ps)" and "tget ps ''$ref'' = None"
    and "(k, JObj r) \<in> set ps" and "back_reference n r" and "back_reference n m"
  shows "flatten_refs stack defs m = None"
  using assms(7)
proof (induction stack arbitrary: m rule: less_induct)
  case (less stack)
  obtain p where p: "tget m ''$ref'' = Some (JStr p)" "last_segment p = n" and no: "tget m ''properties'' = None"
    using less.prems by (auto simp: back_reference_def split: option.splits json.splits)
  show ?case
  proof (cases stack)
    case (Suc s)
    let ?m2 = "merge_missing d (tdel ''$ref'' m)"
    have "flatten_refs s defs ?m2 = None"
    proof (cases s)
      case (Suc t)
      have r: "tget ?m2 ''$ref'' = None" "tget ?m2 ''properties'' = Some (JObj ps)"
        using assms(2,3) no by (simp_all add: tget_merge_missing)
      then have o: "own_ref f defs ?m2 = Some ?m2" for f by (intro own_ref_none)
      have "flatten_refs t defs ps = None"
      proof (cases t)
        case (Suc u)
        have "own_ref f defs ps = Some ps" for f using assms(4) by (rule own_ref_none)
        moreover have "flatten_refs u defs r = None" using less.IH [OF _ assms(6)] \<open>stack = Suc s\<close> \<open>s = Suc t\<close> Suc by simp
        then have "in_values (in_children (flatten_refs u defs)) ps = None"
          by (intro in_values_fails [OF assms(5)]) (simp add: in_children_def)
        ultimately show ?thesis using Suc by simp
      qed simp
      then have "in_values (in_children (flatten_refs t defs)) ?m2 = None"
        by (intro in_values_fails [OF map_of_SomeD [OF r(2)]]) (simp add: in_children_def)
      then show ?thesis using o Suc by simp
    qed simp
    then show ?thesis using Suc p assms(1) by (simp add: own_ref_def)
  qed simp
qed


section \<open>Properties\<close>

definition demo_schema :: json where
  "demo_schema = JObj [(''$defs'', JObj [(''Name'', JObj [(''type'', JStr ''STRING''), (''minLength'', JNum (PosInt 1))])]),
     (''properties'', JObj [(''first'', JObj [(''$ref'', JStr ''#/$defs/Name'')]),
                            (''age'', JObj [(''type'', JArr [JStr ''null'', JStr ''integer''])])]),
     (''required'', JArr [JStr ''first'', JStr ''age'', JStr ''other''])]"

definition demo_schema_env :: schema_env where
  "demo_schema_env = \<lparr>se_to_string = (\<lambda>_. ''1''), se_hash_order = id\<rparr>"




text \<open>
  Claim C36: if the definitions of a schema do not refer back to themselves (their names can be ranked so that
  each refers to lower ones only), the expansion returns with enough stack, always with the same value,
  and the cleaner gives a result.
\<close>

theorem acyclic_references_expand:
  assumes "acyclic_defs rank (collect_all_defs (JObj m) [])"
    and "refs_below rank (collect_all_defs (JObj m) []) b (JObj (tdel ''definitions'' (tdel ''$defs'' m)))"
  shows "\<exists>s x. \<forall>extra. expand_refs (s + extra) (JObj m) = Some x
    \<and> clean_json_schema env (s + extra) (JObj m) = Some (fst (clean_json_schema_recursive env x))"
proof -
  obtain s x where "flatten_refs s (collect_all_defs (JObj m) []) (tdel ''definitions'' (tdel ''$defs'' m)) = Some x"
    using acyclic_expands [OF assms] by (auto simp: expands_obj)
  then have "flatten_refs (s + extra) (collect_all_defs (JObj m) []) (tdel ''definitions'' (tdel ''$defs'' m)) = Some x" for extra
    by (rule flatten_mono) simp
  then have "expand_refs (s + extra) (JObj m) = Some (JObj x)" for extra by (simp add: expand_refs_def)
  then show ?thesis unfolding clean_json_schema_def by (intro exI [of _ s] exI [of _ "JObj x"]) simp
qed

theorem acyclic_references_expand_witness:
  "\<exists>s x. \<forall>extra. expand_refs (s + extra) demo_schema = Some x
    \<and> clean_json_schema demo_schema_env (s + extra) demo_schema = Some (fst (clean_json_schema_recursive demo_schema_env x))"
proof -
  have d: "collect_all_defs demo_schema [] = [(''Name'', JObj [(''type'', JStr ''STRING''), (''minLength'', JNum (PosInt 1))])]"
    by code_simp
  then show ?thesis unfolding demo_schema_def
    by (intro acyclic_references_expand [where rank = "\<lambda>_. 0" and b = 1])
       (simp_all add: acyclic_defs_def refs_below_def demo_schema_def tdel_def)
qed

text \<open>
  Note: a definition one of whose properties refers back to it, as every schema of a tree or a list does,
  is expanded without end: however large the stack is, it overflows, which ends the process.
\<close>

theorem recursive_schema_overflows:
  assumes "tget defs n = Some (JObj d)" and "tget d ''$ref'' = None"
    and "tget d ''properties'' = Some (JObj ps)" and "tget ps ''$ref'' = None"
    and "(k, JObj r) \<in> set ps" and "back_reference n r" and "back_reference n m"
  shows "flatten_refs stack defs m = None"
  using assms by (rule recursive_schema_loops)

definition tree_schema :: jmap where
  "tree_schema = [(''$defs'', JObj [(''Node'', JObj [(''properties'', JObj [(''next'', JObj [(''$ref'', JStr ''#/$defs/Node'')])])])]),
     (''$ref'', JStr ''#/$defs/Node'')]"

theorem recursive_schema_overflows_witness:
  "\<forall>stack. clean_json_schema demo_schema_env stack (JObj tree_schema) = None"
proof
  fix stack
  let ?d = "[(''properties'', JObj [(''next'', JObj [(''$ref'', JStr ''#/$defs/Node'')])])]"
  have c: "collect_all_defs (JObj tree_schema) [] = [(''Node'', JObj ?d)]" by code_simp
  have l: "last_segment ''#/$defs/Node'' = ''Node''" by code_simp
  have "flatten_refs stack [(''Node'', JObj ?d)] [(''$ref'', JStr ''#/$defs/Node'')] = None"
    by (rule recursive_schema_overflows [where n = "''Node''" and d = ?d and k = "''next''"
        and ps = "[(''next'', JObj [(''$ref'', JStr ''#/$defs/Node'')])]" and r = "[(''$ref'', JStr ''#/$defs/Node'')]"])
       (simp_all add: back_reference_def l)
  moreover have "tdel ''definitions'' (tdel ''$defs'' tree_schema) = [(''$ref'', JStr ''#/$defs/Node'')]" by code_simp
  ultimately show "clean_json_schema demo_schema_env stack (JObj tree_schema) = None"
    unfolding clean_json_schema_def expand_refs_def c by simp
qed

text \<open>
  Note: an object type gets empty properties if it has none, but only if the type is written as the
  string \<open>object\<close>: as a nullable type, which is normalised afterwards, it stays without properties.
\<close>

theorem nullable_object_lacks_properties:
  "clean_json_schema_recursive env (JObj [(''type'', JStr ''object'')])
     = (JObj [(''type'', JStr ''object''), (''properties'', JObj [])], False)
   \<and> clean_json_schema_recursive env (JObj [(''type'', JArr [JStr ''object'', JStr ''null''])])
     = (JObj [(''type'', JStr ''object''), (''description'', JStr ''(nullable)'')], True)"
  by code_simp

end
