(* ===== verification/Schema_Cache.thy ===== *)
theory Schema_Cache
  imports Json_Schema Floats
begin

text \<open>
  The cache of cleaned schemas, \<open>crates/antigravity-core/src/proxy/common/schema_cache.rs\<close>. The SHA-256
  digest of a text, in hexadecimal, is a parameter. The lock is not modelled: a call is one step.
\<close>

record cache_entry =
  ce_schema :: json
  ce_last_used :: nanos

record cache_stats =
  total_requests :: usize
  cache_hits :: usize
  cache_misses :: usize

record schema_cache =
  sc_cache :: "(string, cache_entry) table"
  sc_stats :: cache_stats

definition new_schema_cache :: schema_cache where
  "new_schema_cache =
     \<lparr>sc_cache = [], sc_stats = \<lparr>total_requests = 0, cache_hits = 0, cache_misses = 0\<rparr>\<rparr>"

definition hit_rate :: "cache_stats \<Rightarrow> rat" where
  "hit_rate s =
     (if total_requests s = 0 then 0 else rnd64 (f64_of (cache_hits s) / f64_of (total_requests s)))"

definition record_hit :: "cache_stats \<Rightarrow> cache_stats" where
  "record_hit s = s\<lparr>total_requests := total_requests s + 1, cache_hits := cache_hits s + 1\<rparr>"

definition record_miss :: "cache_stats \<Rightarrow> cache_stats" where
  "record_miss s = s\<lparr>total_requests := total_requests s + 1, cache_misses := cache_misses s + 1\<rparr>"

definition MAX_CACHE_SIZE :: nat where "MAX_CACHE_SIZE = 1000"

text \<open>\<open>iter().min_by_key(last_used)\<close>: the first entry with the smallest time\<close>

fun oldest_entry :: "(string, cache_entry) table \<Rightarrow> string option" where
  "oldest_entry [] = None"
| "oldest_entry ((k, e) # t) =
     (if list_all (\<lambda>(_, f). ce_last_used e \<le> ce_last_used f) t then Some k else oldest_entry t)"

definition evict_lru :: "(string, cache_entry) table \<Rightarrow> (string, cache_entry) table" where
  "evict_lru t = (case oldest_entry t of Some k \<Rightarrow> tdel k t | None \<Rightarrow> t)"

definition cache_insert :: "nanos \<Rightarrow> string \<Rightarrow> json \<Rightarrow> (string, cache_entry) table \<Rightarrow> (string, cache_entry) table" where
  "cache_insert now key schema t =
     tput key \<lparr>ce_schema = schema, ce_last_used = now\<rparr>
       (if MAX_CACHE_SIZE \<le> length t then evict_lru t else t)"

definition clear_cache :: "schema_cache \<Rightarrow> schema_cache" where
  "clear_cache c = new_schema_cache"

record cache_env =
  ke_schema :: schema_env
  ke_sha256 :: "string \<Rightarrow> string"

definition compute_schema_hash :: "cache_env \<Rightarrow> json \<Rightarrow> string" where
  "compute_schema_hash env schema = take 16 (ke_sha256 env (se_to_string (ke_schema env) schema))"

definition cache_key :: "cache_env \<Rightarrow> string \<Rightarrow> json \<Rightarrow> string" where
  "cache_key env tag_name schema = tag_name @ '':'' @ compute_schema_hash env schema"

text \<open>\<open>None\<close> is the stack overflow of the cleaner.\<close>

definition clean_json_schema_cached ::
  "cache_env \<Rightarrow> nat \<Rightarrow> nanos \<Rightarrow> json \<Rightarrow> string \<Rightarrow> schema_cache \<Rightarrow> (json \<times> schema_cache) option" where
  "clean_json_schema_cached env stack now schema tag_name c =
     (let key = cache_key env tag_name schema
      in case tget (sc_cache c) key of
           Some e \<Rightarrow> Some (ce_schema e, c\<lparr>sc_stats := record_hit (sc_stats c)\<rparr>)
         | None \<Rightarrow>
             map_option (\<lambda>cleaned.
               (cleaned, \<lparr>sc_cache = cache_insert now key cleaned (sc_cache c), sc_stats = record_miss (sc_stats c)\<rparr>))
               (clean_json_schema_for_tool (ke_schema env) stack schema tag_name))"

section \<open>Calls one after the other\<close>

text \<open>The calls that returned, with their answers; a call that overflows the stack ends the process.\<close>

type_synonym cached_call = "nanos \<times> json \<times> string"

fun cached_run :: "cache_env \<Rightarrow> nat \<Rightarrow> cached_call list \<Rightarrow> schema_cache \<Rightarrow> (json list \<times> schema_cache) option" where
  "cached_run env stack [] c = Some ([], c)"
| "cached_run env stack ((now, schema, tag_name) # calls) c =
     (case clean_json_schema_cached env stack now schema tag_name c of
        None \<Rightarrow> None
      | Some (v, c) \<Rightarrow> map_option (\<lambda>(vs, c). (v # vs, c)) (cached_run env stack calls c))"

text \<open>The same calls without a cache\<close>

definition direct_run :: "cache_env \<Rightarrow> nat \<Rightarrow> cached_call list \<Rightarrow> json list option" where
  "direct_run env stack calls =
     those (map (\<lambda>(_, schema, tag_name). clean_json_schema_for_tool (ke_schema env) stack schema tag_name) calls)"

text \<open>What an entry is worth: it is the cleaned form of the schema, among those seen, that has its key.\<close>

definition sound_cache :: "cache_env \<Rightarrow> nat \<Rightarrow> json set \<Rightarrow> schema_cache \<Rightarrow> bool" where
  "sound_cache env stack seen c \<longleftrightarrow>
     (\<forall>key e. tget (sc_cache c) key = Some e \<longrightarrow>
        (\<exists>schema tag_name. schema \<in> seen \<and> key = cache_key env tag_name schema
           \<and> clean_json_schema_for_tool (ke_schema env) stack schema tag_name = Some (ce_schema e)))"

lemma oldest_entry_mem: "t \<noteq> [] \<Longrightarrow> \<exists>e. oldest_entry t = Some (fst e) \<and> e \<in> set t \<and> (\<forall>f \<in> set t. ce_last_used (snd e) \<le> ce_last_used (snd f))"
proof (induction t)
  case (Cons x t)
  obtain k e where x: "x = (k, e)" by (cases x)
  show ?case
  proof (cases "list_all (\<lambda>(_, f). ce_last_used e \<le> ce_last_used f) t")
    case True
    then show ?thesis by (intro exI [of _ x]) (auto simp: x list_all_iff)
  next
    case False
    then have "t \<noteq> []" by auto
    then obtain y where y: "oldest_entry t = Some (fst y)" "y \<in> set t" "\<forall>f \<in> set t. ce_last_used (snd y) \<le> ce_last_used (snd f)"
      using Cons.IH by blast
    obtain f where "f \<in> set t" "\<not> ce_last_used e \<le> ce_last_used (snd f)" using False by (auto simp: list_all_iff)
    with y(3) have "ce_last_used (snd y) \<le> ce_last_used e" by fastforce
    with y False show ?thesis by (intro exI [of _ y]) (auto simp: x)
  qed
qed simp

lemma tget_evict: "tget (evict_lru t) k = Some e \<Longrightarrow> tget t k = Some e"
  by (auto simp: evict_lru_def split: option.splits if_splits)

lemma length_evict_lru: "twf t \<Longrightarrow> t \<noteq> [] \<Longrightarrow> length (evict_lru t) < length t"
proof -
  assume t: "twf t" "t \<noteq> []"
  then obtain e where e: "oldest_entry t = Some (fst e)" "e \<in> set t" using oldest_entry_mem by blast
  have "length (tdel (fst e) t) = length (filter (\<lambda>x. fst x \<noteq> fst e) t)"
    by (simp add: tdel_def AList.delete_eq case_prod_unfold eq_commute [of "fst e"])
  also have "\<dots> < length t" using e(2) by (rule length_filter_less) simp
  finally show "length (evict_lru t) < length t" by (simp add: evict_lru_def e(1))
qed

lemma twf_evict: "twf t \<Longrightarrow> twf (evict_lru t)"
  by (simp add: evict_lru_def split: option.split)

lemma cache_insert_bounded:
  assumes "twf t" and "length t \<le> MAX_CACHE_SIZE"
  shows "twf (cache_insert now key v t) \<and> length (cache_insert now key v t) \<le> MAX_CACHE_SIZE"
proof -
  let ?t = "if MAX_CACHE_SIZE \<le> length t then evict_lru t else t"
  have "length ?t < MAX_CACHE_SIZE \<and> twf ?t"
    using assms length_evict_lru [of t] twf_evict [of t] by (cases "t = []") (auto simp: MAX_CACHE_SIZE_def)
  then show ?thesis by (simp add: cache_insert_def length_tput)
qed


lemma sound_insert:
  assumes "sound_cache env stack seen c" and "schema \<in> seen"
    and "clean_json_schema_for_tool (ke_schema env) stack schema tag_name = Some v"
  shows "sound_cache env stack seen \<lparr>sc_cache = cache_insert now (cache_key env tag_name schema) v (sc_cache c), sc_stats = s\<rparr>"
  unfolding sound_cache_def
proof (intro allI impI)
  fix key e assume "tget (sc_cache \<lparr>sc_cache = cache_insert now (cache_key env tag_name schema) v (sc_cache c), sc_stats = s\<rparr>) key = Some e"
  then have "key = cache_key env tag_name schema \<and> ce_schema e = v \<or> tget (sc_cache c) key = Some e"
    by (auto simp: cache_insert_def split: if_splits dest: tget_evict)
  then show "\<exists>sc tag. sc \<in> seen \<and> key = cache_key env tag sc
      \<and> clean_json_schema_for_tool (ke_schema env) stack sc tag = Some (ce_schema e)"
    using assms unfolding sound_cache_def by blast
qed

lemma cache_key_inject:
  assumes "inj_on (compute_schema_hash env) seen" and "\<And>t. 16 \<le> length (ke_sha256 env t)"
    and "cache_key env a x = cache_key env b y" and "x \<in> seen" and "y \<in> seen"
  shows "a = b \<and> x = y"
proof -
  have l: "length (compute_schema_hash env z) = 16" for z using assms(2) by (simp add: compute_schema_hash_def)
  have "a = b \<and> compute_schema_hash env x = compute_schema_hash env y"
    using assms(3) l by (simp add: cache_key_def)
  then show ?thesis using assms(1,4,5) by (auto dest: inj_onD)
qed

text \<open>With enough text in the digests and no collisions, an answer of the cache is the cleaned schema.\<close>

lemma cached_is_cleaned:
  assumes "inj_on (compute_schema_hash env) seen" and "\<And>t. 16 \<le> length (ke_sha256 env t)"
    and "sound_cache env stack seen c" and "schema \<in> seen"
  shows "map_option fst (clean_json_schema_cached env stack now schema tag_name c)
      = clean_json_schema_for_tool (ke_schema env) stack schema tag_name
    \<and> (\<forall>v c'. clean_json_schema_cached env stack now schema tag_name c = Some (v, c') \<longrightarrow> sound_cache env stack seen c')"
proof (cases "tget (sc_cache c) (cache_key env tag_name schema)")
  case None
  then show ?thesis using sound_insert [OF assms(3,4)]
    by (auto simp: clean_json_schema_cached_def option.map_comp comp_def option.map_ident)
next
  case (Some e)
  then obtain sc tag where "sc \<in> seen" "cache_key env tag_name schema = cache_key env tag sc"
      "clean_json_schema_for_tool (ke_schema env) stack sc tag = Some (ce_schema e)"
    using assms(3) unfolding sound_cache_def by blast
  then have "clean_json_schema_for_tool (ke_schema env) stack schema tag_name = Some (ce_schema e)"
    using cache_key_inject [OF assms(1,2) _ assms(4)] by blast
  then show ?thesis using Some assms(3) by (auto simp: clean_json_schema_cached_def sound_cache_def)
qed

lemma cached_run_direct:
  assumes "inj_on (compute_schema_hash env) seen" and "\<And>t. 16 \<le> length (ke_sha256 env t)"
  shows "sound_cache env stack seen c \<Longrightarrow> (\<lambda>(_, s, _). s) ` set calls \<subseteq> seen \<Longrightarrow>
    map_option fst (cached_run env stack calls c) = direct_run env stack calls"
proof (induction calls arbitrary: c)
  case (Cons x calls)
  obtain now schema tag_name where x: "x = (now, schema, tag_name)" by (cases x)
  note 1 = cached_is_cleaned [OF assms Cons.prems(1), of schema now tag_name]
  show ?case
  proof (cases "clean_json_schema_cached env stack now schema tag_name c")
    case None
    then show ?thesis using 1 Cons.prems(2) by (simp add: x direct_run_def)
  next
    case (Some r)
    obtain v c' where r: "r = (v, c')" by (cases r)
    have "map_option fst (cached_run env stack calls c') = direct_run env stack calls"
      using 1 Some r Cons.prems(2) by (intro Cons.IH) (auto simp: x)
    moreover have "clean_json_schema_for_tool (ke_schema env) stack schema tag_name = Some v"
      using 1 Some r Cons.prems(2) by (simp add: x)
    moreover have "direct_run env stack (x # calls) = map_option ((#) v) (direct_run env stack calls)"
      using calculation(2) by (simp add: direct_run_def x)
    ultimately show ?thesis using Some r
      by (cases "cached_run env stack calls c'") (auto simp: x dest: sym)
  qed
qed (simp add: direct_run_def)

text \<open>
  Note: as long as no two of the schemas have the same digest, a run of calls through the cache gives
  the same answers as cleaning each schema, whatever was evicted in between, and overflows the stack
  exactly when one of the schemas does.
\<close>

theorem schema_cache_transparent:
  assumes "inj_on (compute_schema_hash env) ((\<lambda>(_, s, _). s) ` set calls)" and "\<And>t. 16 \<le> length (ke_sha256 env t)"
  shows "map_option fst (cached_run env stack calls new_schema_cache) = direct_run env stack calls"
  by (rule cached_run_direct [OF assms]) (simp_all add: sound_cache_def new_schema_cache_def)

definition demo_cache_env :: cache_env where
  "demo_cache_env =
     \<lparr>ke_schema = \<lparr>se_to_string = (\<lambda>v. if v = JNull then ''null'' else ''true''), se_hash_order = id\<rparr>,
      ke_sha256 = \<lambda>t. (if t = ''null'' then CHR ''0'' else CHR ''1'') # replicate 63 (CHR ''f'')\<rparr>"

theorem schema_cache_transparent_witness:
  "map_option fst (cached_run demo_cache_env 9 [(0, JNull, ''a''), (1, JBool True, ''a''), (2, JNull, ''a'')] new_schema_cache)
   = Some [JNull, JBool True, JNull]"
proof -
  have "inj_on (compute_schema_hash demo_cache_env)
     ((\<lambda>(_, s, _). s) ` set [(0 :: nanos, JNull, ''a''), (1, JBool True, ''a''), (2, JNull, ''a'')])"
    by (auto simp: inj_on_def compute_schema_hash_def demo_cache_env_def)
  then have "map_option fst (cached_run demo_cache_env 9 [(0, JNull, ''a''), (1, JBool True, ''a''), (2, JNull, ''a'')] new_schema_cache)
     = direct_run demo_cache_env 9 [(0, JNull, ''a''), (1, JBool True, ''a''), (2, JNull, ''a'')]"
    by (rule schema_cache_transparent) (simp add: demo_cache_env_def)
  also have "\<dots> = Some [JNull, JBool True, JNull]" by code_simp
  finally show ?thesis .
qed

text \<open>
  Note: the cache never holds more than a thousand schemas, each under one key.
\<close>

theorem schema_cache_bounded:
  assumes "cached_run env stack calls new_schema_cache = Some (vs, c)"
  shows "length (sc_cache c) \<le> MAX_CACHE_SIZE \<and> twf (sc_cache c)"
proof -
  have "twf (sc_cache c0) \<Longrightarrow> length (sc_cache c0) \<le> MAX_CACHE_SIZE \<Longrightarrow> cached_run env stack calls c0 = Some (vs, c) \<Longrightarrow>
      length (sc_cache c) \<le> MAX_CACHE_SIZE \<and> twf (sc_cache c)" for c0
  proof (induction calls arbitrary: c0 vs)
    case (Cons x calls)
    obtain now schema tag_name where x: "x = (now, schema, tag_name)" by (cases x)
    obtain v c1 ws where 1: "clean_json_schema_cached env stack now schema tag_name c0 = Some (v, c1)"
        "cached_run env stack calls c1 = Some (ws, c)"
      using Cons.prems(3) by (auto simp: x split: option.splits)
    have "twf (sc_cache c1) \<and> length (sc_cache c1) \<le> MAX_CACHE_SIZE"
      using 1(1) Cons.prems(1,2) cache_insert_bounded
      by (auto simp: clean_json_schema_cached_def Let_def split: option.splits)
    then show ?case using Cons.IH 1(2) by blast
  qed simp
  from this [of new_schema_cache] show ?thesis using assms by (simp add: new_schema_cache_def)
qed

theorem schema_cache_bounded_witness:
  "case cached_run demo_cache_env 9 [(0, JNull, ''a''), (1, JNull, ''a'')] new_schema_cache of
     Some (vs, c) \<Rightarrow> length (sc_cache c) \<le> 1000 | None \<Rightarrow> False"
proof -
  obtain vs c where r: "cached_run demo_cache_env 9 [(0, JNull, ''a''), (1, JNull, ''a'')] new_schema_cache = Some (vs, c)"
    by (simp add: clean_json_schema_cached_def new_schema_cache_def cache_insert_def clean_json_schema_for_tool_def
        pencil_matches_def clean_json_schema_def expand_refs_def Let_def MAX_CACHE_SIZE_def)
  then show ?thesis using schema_cache_bounded [OF r] by (simp add: MAX_CACHE_SIZE_def)
qed

text \<open>
  Note: the eviction is said to be of the least recently used entry, but a hit does not touch the entry,
  so what is evicted is the entry that was inserted first, however often it is used.
\<close>

theorem hits_do_not_refresh:
  assumes "tget (sc_cache c) (cache_key env tag_name schema) = Some e"
    and "clean_json_schema_cached env stack now schema tag_name c = Some (v, c')"
  shows "sc_cache c' = sc_cache c \<and> evict_lru (sc_cache c') = evict_lru (sc_cache c)"
  using assms by (auto simp: clean_json_schema_cached_def)

end
