(* ===== verification/Argument_Types.thy ===== *)
theory Argument_Types
  imports Rust_Strings Floats
begin

text \<open>
  Adapting the arguments of a tool call to the types its schema declares,
  \<open>crates/antigravity-core/src/proxy/common/json_schema/tool_fix.rs\<close>. The printing of numbers and
  truth values is \<open>serde_json\<close>'s and a parameter.
\<close>

section \<open>Parsing numbers\<close>

text \<open>\<open>parse::<i64>\<close>: an optional sign, digits, and the bounds of the type\<close>

definition parse_i64 :: "string \<Rightarrow> int option" where
  "parse_i64 s0 =
     (let negative = starts_with s0 ''-'';
          s = (if negative \<or> starts_with s0 ''+'' then drop 1 s0 else s0);
          n = (if negative then - int (dec_val s) else int (dec_val s))
      in if s \<noteq> [] \<and> list_all is_digit s \<and> i64_min \<le> n \<and> n \<le> i64_max then Some n else None)"

text \<open>The exponent of a decimal float, empty or with its letter and sign\<close>

definition parse_exponent :: "string \<Rightarrow> int option" where
  "parse_exponent s =
     (case s of
        [] \<Rightarrow> Some 0
      | c # s0 \<Rightarrow>
          if c = CHR ''e'' \<or> c = CHR ''E''
          then (let negative = starts_with s0 ''-'';
                    d = (if negative \<or> starts_with s0 ''+'' then drop 1 s0 else s0)
                in if d \<noteq> [] \<and> list_all is_digit d
                   then Some (if negative then - int (dec_val d) else int (dec_val d)) else None)
          else None)"

text \<open>
  \<open>parse::<f64>\<close>, where it gives a finite number: sign, digits with a fraction, exponent. Infinities
  and \<open>NaN\<close> are \<open>None\<close> here, as the caller treats them like text that is no number.
\<close>

definition parse_f64_finite :: "string \<Rightarrow> rat option" where
  "parse_f64_finite s0 =
     (let negative = starts_with s0 ''-'';
          s = (if negative \<or> starts_with s0 ''+'' then drop 1 s0 else s0);
          whole = takeWhile is_digit s; s = dropWhile is_digit s;
          dot = starts_with s ''.'';
          fr = (if dot then takeWhile is_digit (drop 1 s) else []);
          s = (if dot then dropWhile is_digit (drop 1 s) else s)
      in if whole = [] \<and> fr = [] then None
         else case parse_exponent s of
                None \<Rightarrow> None
              | Some e \<Rightarrow>
                  let x = rnd64 (of_nat (dec_val (whole @ fr)) * power_int 10 (e - int (length fr)));
                      x = (if negative then - x else x)
                  in if \<bar>x\<bar> < 2 ^ 1024 then Some x else None)"

section \<open>Coercion\<close>

definition leading_zero :: "string \<Rightarrow> bool" where
  "leading_zero s \<longleftrightarrow> starts_with s ''0'' \<and> 1 < length s \<and> \<not> starts_with s ''0.''"

definition coerce_number :: "json \<Rightarrow> json" where
  "coerce_number v =
     (case v of
        JStr s \<Rightarrow>
          if leading_zero s then v
          else (case parse_i64 s of
                  Some i \<Rightarrow> json_i64 i
                | None \<Rightarrow> (case parse_f64_finite s of Some f \<Rightarrow> JNum (JFloat f) | None \<Rightarrow> v))
      | _ \<Rightarrow> v)"

definition coerce_boolean :: "json \<Rightarrow> json" where
  "coerce_boolean v =
     (case v of
        JStr s \<Rightarrow>
          (let l = to_lowercase s
           in if l \<in> set [''true'', ''1'', ''yes'', ''on''] then JBool True
              else if l \<in> set [''false'', ''0'', ''no'', ''off''] then JBool False else v)
      | _ \<Rightarrow> (case as_i64 v of Some n \<Rightarrow> if n = 1 then JBool True else if n = 0 then JBool False else v | None \<Rightarrow> v))"

definition coerce_string :: "(json \<Rightarrow> string) \<Rightarrow> json \<Rightarrow> json" where
  "coerce_string to_s v = (case v of JNum n \<Rightarrow> JStr (to_s v) | JBool b \<Rightarrow> JStr (to_s v) | _ \<Rightarrow> v)"

definition coerce :: "(json \<Rightarrow> string) \<Rightarrow> string \<Rightarrow> json \<Rightarrow> json" where
  "coerce to_s schema_type v =
     (if schema_type = ''number'' \<or> schema_type = ''integer'' then coerce_number v
      else if schema_type = ''boolean'' then coerce_boolean v
      else if schema_type = ''string'' then coerce_string to_s v
      else v)"

definition properties_of :: "json \<Rightarrow> (string \<times> json) list option" where
  "properties_of schema = Option.bind (jget ''properties'' schema) as_object"

definition schema_type :: "json \<Rightarrow> string" where
  "schema_type schema =
     to_lowercase (case Option.bind (jget ''type'' schema) as_str of Some t \<Rightarrow> t | None \<Rightarrow> [])"

lemma size_jget:
  assumes "jget k v = Some x"
  shows "size x < size v"
proof (cases v)
  case (JObj m)
  then have "(k, x) \<in> set m" using assms by (simp add: jget_def map_of_SomeD)
  then show ?thesis
    using size_list_estimation' [of "(k, x)" m "size x" "size_prod (\<lambda>x. 0) size"] JObj by auto
qed (use assms in \<open>simp_all add: jget_def\<close>)

lemma size_properties:
  assumes "properties_of schema = Some nested" and "tget nested k = Some x"
  shows "size x < size schema"
proof -
  have "jget ''properties'' schema = Some (JObj nested)"
    using assms(1) by (cases "jget ''properties'' schema") (auto simp: properties_of_def as_object_def split: json.splits)
  moreover have "jget k (JObj nested) = Some x" using assms(2) by (simp add: jget_def)
  ultimately show ?thesis using size_jget less_trans by blast
qed

function fix_single_arg_recursive :: "(json \<Rightarrow> string) \<Rightarrow> json \<Rightarrow> json \<Rightarrow> json" where
  "fix_single_arg_recursive to_s v schema =
     (case properties_of schema of
        Some nested_props \<Rightarrow>
          (case v of
             JObj m \<Rightarrow>
               JObj (map (\<lambda>(k, x). (k, case tget nested_props k of
                                         Some s \<Rightarrow> fix_single_arg_recursive to_s x s | None \<Rightarrow> x)) m)
           | _ \<Rightarrow> v)
      | None \<Rightarrow>
          if schema_type schema = ''array''
          then (case jget ''items'' schema of
                  Some items_schema \<Rightarrow>
                    (case v of
                       JArr a \<Rightarrow> JArr (map (\<lambda>x. fix_single_arg_recursive to_s x items_schema) a)
                     | _ \<Rightarrow> v)
                | None \<Rightarrow> v)
          else coerce to_s (schema_type schema) v)"
  by pat_completeness auto

termination
  by (relation "measure (\<lambda>(_, _, schema). size schema)") (auto simp: size_properties size_jget)

declare fix_single_arg_recursive.simps [simp del]

definition fix_tool_call_args :: "(json \<Rightarrow> string) \<Rightarrow> json \<Rightarrow> json \<Rightarrow> json" where
  "fix_tool_call_args to_s args schema =
     (case (properties_of schema, args) of
        (Some props, JObj m) \<Rightarrow>
          JObj (map (\<lambda>(k, v). (k, case tget props k of Some s \<Rightarrow> fix_single_arg_recursive to_s v s | None \<Rightarrow> v)) m)
      | _ \<Rightarrow> args)"

section \<open>Coercion settles\<close>

lemma coerce_number_cases:
  "coerce_number v = v \<or> (\<exists>n. coerce_number v = JNum n)"
  by (auto simp: coerce_number_def json_i64_def split: json.split option.split)

lemma coerce_number_num: "coerce_number (JNum n) = JNum n"
  by (simp add: coerce_number_def)

lemma coerce_boolean_bool: "coerce_boolean (JBool b) = JBool b"
  by (simp add: coerce_boolean_def as_i64_def)

lemma coerce_settles: "coerce to_s t (coerce to_s t v) = coerce to_s t v"
proof -
  have "coerce_number (coerce_number v) = coerce_number v"
    using coerce_number_cases [of v] coerce_number_num by auto
  moreover have "coerce_boolean (coerce_boolean v) = coerce_boolean v"
  proof -
    have "coerce_boolean v = v \<or> (\<exists>b. coerce_boolean v = JBool b)"
      by (auto simp: coerce_boolean_def Let_def split: json.split option.split)
    then show ?thesis using coerce_boolean_bool by auto
  qed
  moreover have "coerce_string to_s (coerce_string to_s v) = coerce_string to_s v"
    by (auto simp: coerce_string_def split: json.split)
  ultimately show ?thesis by (simp add: coerce_def)
qed

lemma fix_single_settles:
  "fix_single_arg_recursive to_s (fix_single_arg_recursive to_s v schema) schema = fix_single_arg_recursive to_s v schema"
proof (induction to_s v schema rule: fix_single_arg_recursive.induct)
  case (1 to_s v schema)
  show ?case
  proof (cases "properties_of schema")
    case (Some nested)
    show ?thesis
    proof (cases v)
      case (JObj m)
      have "fix_single_arg_recursive to_s (fix_single_arg_recursive to_s x s) s = fix_single_arg_recursive to_s x s"
        if "(k, x) \<in> set m" "tget nested k = Some s" for k x s
        using 1(2) [OF Some JObj that(1) refl that(2)] .
      then show ?thesis using Some JObj
        by (auto simp: fix_single_arg_recursive.simps [of _ _ schema] split: option.split)
    qed (use Some in \<open>simp_all add: fix_single_arg_recursive.simps [of _ _ schema]\<close>)
  next
    case None
    show ?thesis
    proof (cases "schema_type schema = ''array''")
      case True
      show ?thesis
      proof (cases "jget ''items'' schema")
        case (Some s)
        show ?thesis
        proof (cases v)
          case (JArr a)
          then show ?thesis using None True Some 1(1) [OF None True Some JArr]
            by (simp add: fix_single_arg_recursive.simps [of _ _ schema])
        qed (use None True Some in \<open>simp_all add: fix_single_arg_recursive.simps [of _ _ schema]\<close>)
      qed (use None True in \<open>simp_all add: fix_single_arg_recursive.simps [of _ _ schema]\<close>)
    qed (use None in \<open>simp_all add: fix_single_arg_recursive.simps [of _ _ schema] coerce_settles\<close>)
  qed
qed


text \<open>
  Note: fixing the arguments of a call a second time changes nothing, at any depth, and no argument is
  added, dropped, renamed or moved; one whose name the schema does not declare stays as it is.
\<close>

theorem fixed_arguments_settle:
  "fix_tool_call_args to_s (fix_tool_call_args to_s args schema) schema = fix_tool_call_args to_s args schema
   \<and> map_option (map fst) (as_object (fix_tool_call_args to_s args schema)) = map_option (map fst) (as_object args)
   \<and> (tget (case properties_of schema of Some props \<Rightarrow> props | None \<Rightarrow> []) k = None \<longrightarrow>
        jget k (fix_tool_call_args to_s args schema) = jget k args)"
proof (cases "\<exists>props m. properties_of schema = Some props \<and> args = JObj m")
  case True
  then obtain props m where p: "properties_of schema = Some props" and m: "args = JObj m" by blast
  let ?f = "\<lambda>(k, v). (k, case tget props k of Some s \<Rightarrow> fix_single_arg_recursive to_s v s | None \<Rightarrow> v)"
  have "tget (map ?f m) k = tget m k" if "tget props k = None"
    using that by (induction m) auto
  then show ?thesis
    by (auto simp: fix_tool_call_args_def p m as_object_def jget_def fix_single_settles comp_def split: option.split)
next
  case False
  then have "fix_tool_call_args to_s args schema = args" for args'
    by (auto simp: fix_tool_call_args_def split: option.split json.split)
  then show ?thesis by simp
qed

definition demo_call :: json where
  "demo_call = JObj [(''count'', JStr ''42''), (''deep'', JStr ''YES''), (''version'', JStr ''007''), (''other'', JStr ''1'')]"

definition demo_call_schema :: json where
  "demo_call_schema = JObj [(''properties'',
     JObj [(''count'', JObj [(''type'', JStr ''INTEGER'')]), (''deep'', JObj [(''type'', JStr ''boolean'')]),
           (''version'', JObj [(''type'', JStr ''number'')])])]"

theorem fixed_arguments_settle_witness:
  "fix_tool_call_args (\<lambda>_. []) demo_call demo_call_schema
     = JObj [(''count'', JNum (PosInt 42)), (''deep'', JBool True), (''version'', JStr ''007''), (''other'', JStr ''1'')]
   \<and> jget ''other'' (fix_tool_call_args (\<lambda>_. []) demo_call demo_call_schema) = jget ''other'' demo_call"
proof
  show "fix_tool_call_args (\<lambda>_. []) demo_call demo_call_schema
     = JObj [(''count'', JNum (PosInt 42)), (''deep'', JBool True), (''version'', JStr ''007''), (''other'', JStr ''1'')]"
  proof -
    have t: "to_lowercase ''INTEGER'' = ''integer''" "to_lowercase ''boolean'' = ''boolean''" "to_lowercase ''number'' = ''number''"
        "to_lowercase ''YES'' = ''yes''"
      by (simp_all add: to_lowercase_ascii is_ascii_def ascii_lower_def) code_simp+
    have n: "parse_i64 ''42'' = Some 42" by code_simp
    have c: "coerce (\<lambda>_. []) ''integer'' (JStr ''42'') = JNum (PosInt 42)" "coerce (\<lambda>_. []) ''boolean'' (JStr ''YES'') = JBool True"
      "coerce (\<lambda>_. []) ''number'' (JStr ''007'') = JStr ''007''"
      by (simp_all add: coerce_def coerce_number_def coerce_boolean_def n t leading_zero_def json_i64_def)
    show ?thesis
      by (simp add: fix_tool_call_args_def demo_call_def demo_call_schema_def properties_of_def jget_def as_object_def
          fix_single_arg_recursive.simps [of _ "JStr _"] schema_type_def as_str_def t c)
  qed
  show "jget ''other'' (fix_tool_call_args (\<lambda>_. []) demo_call demo_call_schema) = jget ''other'' demo_call"
    using fixed_arguments_settle [of "\<lambda>_. []" demo_call demo_call_schema "''other''"]
    by (simp add: demo_call_schema_def properties_of_def jget_def as_object_def)
qed

end
