(* ===== verification/Message_History.thy ===== *)
theory Message_History
  imports Claude_Types Signature_Cache Tool_Pairing "HOL-Library.Multiset" "HOL-Library.Sublist"
begin

text \<open>
  Preparing the messages of a conversation, \<open>mappers/claude/request/message_cleaning.rs\<close>, \<open>model_compat.rs\<close>,
  \<open>thinking.rs\<close> and \<open>mappers/claude/thinking_utils.rs\<close>: fields the upstream does not accept are removed,
  blocks are put in the required order, messages of one role are merged, thinking blocks get signatures,
  and tool calls without an end are closed. Logging is left out.
\<close>

section \<open>Fields\<close>

definition on_blocks :: "(content_block list \<Rightarrow> content_block list) \<Rightarrow> claude_message \<Rightarrow> claude_message" where
  "on_blocks f mg = (case cm_content mg of MArray bs \<Rightarrow> mg\<lparr>cm_content := MArray (f bs)\<rparr> | MString _ \<Rightarrow> mg)"

definition blocks_of :: "claude_message \<Rightarrow> content_block list" where
  "blocks_of mg = (case cm_content mg of MArray bs \<Rightarrow> bs | MString _ \<Rightarrow> [])"

fun without_cache_control :: "content_block \<Rightarrow> content_block" where
  "without_cache_control (CThinking t s c) = CThinking t s None"
| "without_cache_control (CImage src c) = CImage src None"
| "without_cache_control (CDocument src c) = CDocument src None"
| "without_cache_control (CToolUse i n v s c) = CToolUse i n v s None"
| "without_cache_control b = b"

definition clean_cache_control_from_messages :: "claude_message list \<Rightarrow> claude_message list" where
  "clean_cache_control_from_messages messages = map (on_blocks (map without_cache_control)) messages"

text \<open>\<open>map.remove(key)\<close> for some keys, and the same in all values\<close>

function drop_keys :: "string list \<Rightarrow> json \<Rightarrow> json" where
  "drop_keys ks (JObj m) = JObj (map (\<lambda>(k, v). (k, drop_keys ks v)) (filter (\<lambda>(k, _). k \<notin> set ks) m))"
| "drop_keys ks (JArr a) = JArr (map (drop_keys ks) a)"
| "drop_keys ks JNull = JNull"
| "drop_keys ks (JBool b) = JBool b"
| "drop_keys ks (JNum n) = JNum n"
| "drop_keys ks (JStr s) = JStr s"
  by pat_completeness auto

termination
proof (relation "measure (\<lambda>(_, v). size v)")
  show "x \<in> set (filter (\<lambda>(k, _). k \<notin> set ks) m) \<Longrightarrow> (y, v) = x \<Longrightarrow> ((ks, v), ks, JObj m) \<in> measure (\<lambda>(_, v). size v)"
    for ks and m :: "(string \<times> json) list" and x :: "string \<times> json" and y :: string and v
    using size_list_estimation' [of x m "size v" "size_prod (\<lambda>x. 0) size"] by auto
qed (auto simp: less_Suc_eq_le intro: size_list_estimation')

definition deep_clean_cache_control :: "json \<Rightarrow> json" where
  "deep_clean_cache_control v = drop_keys [''cache_control''] v"

definition clean_thinking_fields_recursive :: "json \<Rightarrow> json" where
  "clean_thinking_fields_recursive v = drop_keys [''thought'', ''thoughtSignature''] v"

section \<open>Order of blocks\<close>

fun is_thinking_block :: "content_block \<Rightarrow> bool" where
  "is_thinking_block (CThinking _ _ _) = True"
| "is_thinking_block (CRedactedThinking _) = True"
| "is_thinking_block _ = False"

fun is_text_block :: "content_block \<Rightarrow> bool" where
  "is_text_block (CText _) = True"
| "is_text_block _ = False"

fun is_tool_use :: "content_block \<Rightarrow> bool" where
  "is_tool_use (CToolUse _ _ _ _ _) = True"
| "is_tool_use _ = False"

fun is_tool_result :: "content_block \<Rightarrow> bool" where
  "is_tool_result (CToolResult _ _ _) = True"
| "is_tool_result _ = False"

text \<open>Text that says nothing\<close>

definition no_content :: "string \<Rightarrow> bool" where
  "no_content t \<longleftrightarrow> trim t = [] \<or> t = ''(no content)''"

definition needs_reorder :: "content_block list \<Rightarrow> bool" where
  "needs_reorder blocks =
     fst (fold (\<lambda>b (needs, saw). if is_thinking_block b then (needs \<or> saw, saw) else (needs, True)) blocks (False, False))"

definition keep_block :: "content_block \<Rightarrow> bool" where
  "keep_block b = (case b of CText t \<Rightarrow> \<not> no_content t | _ \<Rightarrow> True)"

definition partition_blocks :: "content_block list \<Rightarrow> content_block list" where
  "partition_blocks blocks =
     filter is_thinking_block blocks
     @ filter (\<lambda>b. is_text_block b \<and> keep_block b) blocks
     @ filter (\<lambda>b. \<not> is_thinking_block b \<and> \<not> is_text_block b \<and> \<not> is_tool_use b) blocks
     @ filter is_tool_use blocks"

definition sort_thinking_blocks_first :: "claude_message list \<Rightarrow> claude_message list" where
  "sort_thinking_blocks_first messages =
     map (\<lambda>mg. if cm_role mg = ''assistant''
                then on_blocks (\<lambda>bs. if needs_reorder bs \<or> 1 < length bs then partition_blocks bs else bs) mg
                else mg) messages"

text \<open>Parts of the upstream protocol\<close>

definition is_thought_part :: "json \<Rightarrow> bool" where
  "is_thought_part part \<longleftrightarrow> Option.bind (jget ''thought'' part) as_bool = Some True"

definition part_text :: "json \<Rightarrow> string option" where
  "part_text part = Option.bind (jget ''text'' part) as_str"

text \<open>0 thinking, 1 results, 2 text, 3 other, 4 calls\<close>

definition part_class :: "json \<Rightarrow> nat" where
  "part_class part =
     (if is_thought_part part then 0
      else if jget ''functionCall'' part \<noteq> None then 4
      else if jget ''functionResponse'' part \<noteq> None then 1
      else if part_text part \<noteq> None then 2 else 3)"

definition keep_part :: "json \<Rightarrow> bool" where
  "keep_part part \<longleftrightarrow>
     part_class part \<noteq> 2 \<or> (case part_text part of Some t \<Rightarrow> \<not> no_content t | None \<Rightarrow> True)"

definition reorder_gemini_parts :: "json list \<Rightarrow> json list" where
  "reorder_gemini_parts parts =
     (if length parts \<le> 1 then parts
      else filter (\<lambda>p. part_class p = 0) parts
           @ filter (\<lambda>p. part_class p = 1) parts
           @ filter (\<lambda>p. part_class p = 2 \<and> keep_part p) parts
           @ filter (\<lambda>p. part_class p = 3) parts
           @ filter (\<lambda>p. part_class p = 4) parts)"

section \<open>Merging messages\<close>

definition merge_content :: "message_content \<Rightarrow> message_content \<Rightarrow> message_content" where
  "merge_content current nxt =
     (case (current, nxt) of
        (MArray a, MArray b) \<Rightarrow> MArray (a @ b)
      | (MArray a, MString t) \<Rightarrow> MArray (a @ [CText t])
      | (MString s, MString t) \<Rightarrow> MString (s @ [CHR 0x0A, CHR 0x0A] @ t)
      | (MString s, MArray b) \<Rightarrow> MArray (CText s # b))"

fun merge_from :: "claude_message \<Rightarrow> claude_message list \<Rightarrow> claude_message list" where
  "merge_from current [] = [current]"
| "merge_from current (nxt # rest) =
     (if cm_role current = cm_role nxt
      then merge_from (current\<lparr>cm_content := merge_content (cm_content current) (cm_content nxt)\<rparr>) rest
      else current # merge_from nxt rest)"

definition merge_consecutive_messages :: "claude_message list \<Rightarrow> claude_message list" where
  "merge_consecutive_messages messages =
     (if length messages \<le> 1 then messages
      else case messages of [] \<Rightarrow> [] | current # rest \<Rightarrow> merge_from current rest)"

section \<open>Signatures of thinking blocks\<close>

definition DUMMY_SIGNATURE :: string where
  "DUMMY_SIGNATURE = ''skip_thought_signature_validator''"

text \<open>Whether a signature has to be replaced; the family is the one that the cache knows.\<close>

definition needs_fix :: "signature_cache \<Rightarrow> string option \<Rightarrow> string option \<Rightarrow> bool" where
  "needs_fix cache target_family signature =
     (case signature of
        Some s \<Rightarrow>
          if MIN_SIGNATURE_LENGTH \<le> length s \<and> s \<noteq> DUMMY_SIGNATURE
          then (case (target_family, get_signature_family s cache) of
                  (Some target, Some origin_family) \<Rightarrow> origin_family \<noteq> target
                | _ \<Rightarrow> False)
          else s \<noteq> DUMMY_SIGNATURE
      | None \<Rightarrow> True)"

fun fix_block :: "signature_cache \<Rightarrow> string option \<Rightarrow> content_block \<Rightarrow> content_block" where
  "fix_block cache family (CThinking t s c) =
     CThinking t (if needs_fix cache family s then Some DUMMY_SIGNATURE else s) c"
| "fix_block cache family b = b"

definition filter_invalid_thinking_blocks_with_family ::
  "signature_cache \<Rightarrow> string option \<Rightarrow> claude_message list \<Rightarrow> claude_message list" where
  "filter_invalid_thinking_blocks_with_family cache target_family messages =
     map (\<lambda>mg. if cm_role mg \<noteq> ''assistant'' then mg else on_blocks (map (fix_block cache target_family)) mg) messages"

fun has_valid_signature :: "content_block \<Rightarrow> bool" where
  "has_valid_signature (CThinking t s c) =
     (if t = [] \<and> s \<noteq> None then True
      else case s of Some g \<Rightarrow> MIN_SIGNATURE_LENGTH \<le> length g | None \<Rightarrow> False)"
| "has_valid_signature b = True"

text \<open>Unsigned thinking blocks at the end, from back to front\<close>

fun sign_trailing :: "content_block list \<Rightarrow> content_block list" where
  "sign_trailing [] = []"
| "sign_trailing (b # bs) =
     (case b of
        CThinking t s c \<Rightarrow>
          if (case s of None \<Rightarrow> True | Some g \<Rightarrow> length g < MIN_SIGNATURE_LENGTH)
          then CThinking t (Some DUMMY_SIGNATURE) c # sign_trailing bs else b # bs
      | _ \<Rightarrow> b # bs)"

definition remove_trailing_unsigned_thinking :: "content_block list \<Rightarrow> content_block list" where
  "remove_trailing_unsigned_thinking blocks = rev (sign_trailing (rev blocks))"

definition should_enable_thinking_by_default :: "string \<Rightarrow> bool" where
  "should_enable_thinking_by_default model =
     (let l = to_lowercase model
      in contains l ''opus-4-5'' \<or> contains l ''opus-4.5'' \<or> contains l ''opus-4-6'' \<or> contains l ''opus-4.6''
         \<or> contains l ''-thinking'')"

definition signed_at_length :: "content_block \<Rightarrow> bool" where
  "signed_at_length b = (case b of CThinking _ (Some s) _ \<Rightarrow> MIN_SIGNATURE_LENGTH \<le> length s | _ \<Rightarrow> False)"

definition has_valid_signature_for_function_calls ::
  "nanos \<Rightarrow> signature_cache \<Rightarrow> claude_message list \<Rightarrow> string option \<Rightarrow> string \<Rightarrow> bool" where
  "has_valid_signature_for_function_calls now cache messages global_sig session_id \<longleftrightarrow>
     (case global_sig of Some s \<Rightarrow> MIN_SIGNATURE_LENGTH \<le> length s | None \<Rightarrow> False)
     \<or> (case get_session_signature now session_id cache of Some s \<Rightarrow> MIN_SIGNATURE_LENGTH \<le> length s | None \<Rightarrow> False)
     \<or> list_ex (\<lambda>mg. cm_role mg = ''assistant'' \<and> list_ex signed_at_length (blocks_of mg)) (rev messages)"

section \<open>Tool calls without an end\<close>

record conversation_state =
  in_tool_loop :: bool
  interrupted_tool :: bool
  last_assistant_idx :: "nat option"

fun find_index_last :: "(claude_message \<Rightarrow> bool) \<Rightarrow> claude_message list \<Rightarrow> nat option" where
  "find_index_last P [] = None"
| "find_index_last P (x # xs) =
     (case find_index_last P xs of
        Some i \<Rightarrow> Some (Suc i)
      | None \<Rightarrow> if P x then Some 0 else None)"

definition analyze_conversation_state :: "claude_message list \<Rightarrow> conversation_state" where
  "analyze_conversation_state messages =
     (let idx = find_index_last (\<lambda>m. cm_role m = ''assistant'') messages;
          state = \<lparr>in_tool_loop = False, interrupted_tool = False, last_assistant_idx = idx\<rparr>;
          has_tool_use = (case idx of Some i \<Rightarrow> list_ex is_tool_use (blocks_of (messages ! i)) | None \<Rightarrow> False)
      in if \<not> has_tool_use \<or> messages = [] \<or> cm_role (last messages) \<noteq> ''user'' then state
         else if list_ex is_tool_result (blocks_of (last messages)) then state\<lparr>in_tool_loop := True\<rparr>
         else state\<lparr>interrupted_tool := True\<rparr>)"

definition valid_thinking :: "content_block \<Rightarrow> bool" where
  "valid_thinking b =
     (case b of CThinking t (Some s) _ \<Rightarrow> t \<noteq> [] \<and> MIN_SIGNATURE_LENGTH \<le> length s | _ \<Rightarrow> False)"

definition text_message :: "string \<Rightarrow> string \<Rightarrow> claude_message" where
  "text_message role t = \<lparr>cm_role = role, cm_content = MArray [CText t]\<rparr>"

definition close_tool_loop_for_thinking :: "claude_message list \<Rightarrow> claude_message list" where
  "close_tool_loop_for_thinking messages =
     (let state = analyze_conversation_state messages;
          has_valid_thinking = (case last_assistant_idx state of
              Some i \<Rightarrow> list_ex valid_thinking (blocks_of (messages ! i)) | None \<Rightarrow> False)
      in if \<not> in_tool_loop state \<and> \<not> interrupted_tool state \<or> has_valid_thinking then messages
         else if in_tool_loop state
         then messages
              @ [text_message ''assistant'' ''[System: Tool execution completed. Proceeding to final response.]'',
                 text_message ''user'' ''Please provide the final result based on the tool output above.'']
         else case last_assistant_idx state of
                Some i \<Rightarrow> take (Suc i) messages
                          @ text_message ''assistant'' ''[Tool call was interrupted by user.]'' # drop (Suc i) messages
              | None \<Rightarrow> messages)"

section \<open>Fields: what is left\<close>

text \<open>Every key of every object of a value\<close>

function json_keys :: "json \<Rightarrow> string set" where
  "json_keys (JObj m) = (\<Union>(k, v)\<in>set m. insert k (json_keys v))"
| "json_keys (JArr a) = (\<Union>v\<in>set a. json_keys v)"
| "json_keys JNull = {}"
| "json_keys (JBool b) = {}"
| "json_keys (JNum n) = {}"
| "json_keys (JStr s) = {}"
  by pat_completeness auto

termination
proof (relation "measure size")
  show "x \<in> set m \<Longrightarrow> (k, v) = x \<Longrightarrow> (v, JObj m) \<in> measure size"
    for m and x :: "string \<times> json" and k v
    using size_list_estimation' [of x m "size v" "size_prod (\<lambda>x. 0) size"] by auto
qed (auto simp: less_Suc_eq_le intro: size_list_estimation')

lemma json_keys_drop: "json_keys (drop_keys ks v) \<inter> set ks = {}"
proof (induction v)
  case (JArr a)
  then show ?case by auto
next
  case (JObj m)
  have "json_keys (drop_keys ks w) \<inter> set ks = {}" if "(k, w) \<in> set m" for k w
    using JObj [OF that] by simp
  then show ?case by (fastforce simp: image_iff)
qed simp_all

lemma drop_keys_id: "json_keys v \<inter> set ks = {} \<Longrightarrow> drop_keys ks v = v"
proof (induction v)
  case (JArr a)
  have "drop_keys ks w = w" if "w \<in> set a" for w
    using JArr that by fastforce
  then show ?case by (simp add: map_idI)
next
  case (JObj m)
  have k: "k \<notin> set ks" "drop_keys ks w = w" if q: "(k, w) \<in> set m" for k w
  proof -
    show "k \<notin> set ks" using JObj(2) q by (force simp: disjoint_iff)
    have "json_keys w \<subseteq> json_keys (JObj m)" using q by force
    then show "drop_keys ks w = w" using JObj(1) [OF q] JObj(2) by auto
  qed
  have "filter (\<lambda>(k, _). k \<notin> set ks) m = m" using k(1) by (auto simp: filter_id_conv)
  moreover have "map (\<lambda>(k, v). (k, drop_keys ks v)) m = m" using k(2) by (auto intro!: map_idI)
  ultimately show ?case by simp
qed simp_all

lemma drop_keys_idem: "drop_keys ks (drop_keys ks v) = drop_keys ks v"
  by (rule drop_keys_id) (rule json_keys_drop)

section \<open>Order: the passes are a stable sort\<close>

lemma mset_classes:
  "mset (concat (map (\<lambda>i. filter (\<lambda>x. f x = i) xs) [0..<n])) = filter_mset (\<lambda>x. f x < n) (mset xs)"
proof (induction n)
  case (Suc n)
  have "filter_mset (\<lambda>x. f x < Suc n) M = filter_mset (\<lambda>x. f x < n) M + filter_mset (\<lambda>x. f x = n) M" for M
    by (induction M) auto
  with Suc show ?case by simp
qed simp

lemma filter_classes:
  "filter (\<lambda>x. c = f x) (concat (map (\<lambda>i. filter (\<lambda>x. f x = i) xs) [0..<n]))
   = (if c < n then filter (\<lambda>x. c = f x) xs else [])"
proof (induction n)
  case (Suc n)
  have "filter (\<lambda>x. f x = n \<and> c = f x) xs = (if c = n then filter (\<lambda>x. c = f x) xs else [])"
    by (auto intro: filter_cong simp: filter_empty_conv)
  with Suc show ?case by (auto simp: filter_filter less_Suc_eq)
qed simp

lemma sorted_classes: "sorted (map f (concat (map (\<lambda>i. filter (\<lambda>x. f x = i) xs) [0..<n])))"
proof (induction n)
  case (Suc n)
  with sorted_map_same [of f "\<lambda>_. n" xs] show ?case by (auto simp: sorted_append)
qed simp

text \<open>Taking the classes one after the other is a stable sort by the class.\<close>

lemma classes_sort:
  fixes f :: "'a \<Rightarrow> nat"
  assumes "\<And>x. x \<in> set xs \<Longrightarrow> f x < n"
  shows "concat (map (\<lambda>i. filter (\<lambda>x. f x = i) xs) [0..<n]) = sort_key f xs"
proof (rule properties_for_sort_key [symmetric])
  have "filter_mset (\<lambda>x. f x < n) (mset xs) = mset xs" using assms by (simp add: filter_mset_eq_conv)
  then show "mset (concat (map (\<lambda>i. filter (\<lambda>x. f x = i) xs) [0..<n])) = mset xs" by (simp only: mset_classes)
  show "filter (\<lambda>x. f c = f x) (concat (map (\<lambda>i. filter (\<lambda>x. f x = i) xs) [0..<n])) = filter (\<lambda>x. f c = f x) xs"
    if "c \<in> set (concat (map (\<lambda>i. filter (\<lambda>x. f x = i) xs) [0..<n]))" for c
    using that by (auto simp: filter_classes)
qed (rule sorted_classes)

definition block_class :: "content_block \<Rightarrow> nat" where
  "block_class b = (if is_thinking_block b then 0 else if is_text_block b then 1 else if is_tool_use b then 3 else 2)"

lemma four: "[0..<4] = [0, 1, 2, 3::nat]" and five: "[0..<5] = [0, 1, 2, 3, 4::nat]"
  by (simp_all add: upt_rec)

lemma block_classes:
  "keep_block b \<and> block_class b = 0 \<longleftrightarrow> is_thinking_block b"
  "keep_block b \<and> block_class b = 1 \<longleftrightarrow> is_text_block b \<and> keep_block b"
  "keep_block b \<and> block_class b = 2 \<longleftrightarrow> \<not> is_thinking_block b \<and> \<not> is_text_block b \<and> \<not> is_tool_use b"
  "keep_block b \<and> block_class b = 3 \<longleftrightarrow> is_tool_use b"
  by (cases b; simp add: keep_block_def block_class_def)+

lemma partition_is_sort: "partition_blocks bs = sort_key block_class (filter keep_block bs)"
proof -
  have "sort_key block_class (filter keep_block bs)
      = concat (map (\<lambda>i. filter (\<lambda>x. block_class x = i) (filter keep_block bs)) [0..<4])"
    by (rule classes_sort [symmetric]) (simp add: block_class_def)
  also have "\<dots> = partition_blocks bs"
    by (simp add: four partition_blocks_def filter_filter block_classes [unfolded One_nat_def])
  finally show ?thesis by simp
qed

lemma part_class_less: "part_class p < 5" by (simp add: part_class_def)

lemma reorder_is_sort:
  "reorder_gemini_parts ps = (if length ps \<le> 1 then ps else sort_key part_class (filter keep_part ps))"
proof -
  have "sort_key part_class (filter keep_part ps)
      = concat (map (\<lambda>i. filter (\<lambda>x. part_class x = i) (filter keep_part ps)) [0..<5])"
    by (rule classes_sort [symmetric]) (rule part_class_less)
  also have "filter (\<lambda>x. part_class x = i) (filter keep_part ps) = filter (\<lambda>x. part_class x = i) ps" if "i \<noteq> 2" for i
    unfolding filter_filter using that by (intro filter_cong) (auto simp: keep_part_def)
  then have "concat (map (\<lambda>i. filter (\<lambda>x. part_class x = i) (filter keep_part ps)) [0..<5])
           = filter (\<lambda>p. part_class p = 0) ps @ filter (\<lambda>p. part_class p = 1) ps
           @ filter (\<lambda>p. part_class p = 2 \<and> keep_part p) ps
           @ filter (\<lambda>p. part_class p = 3) ps @ filter (\<lambda>p. part_class p = 4) ps"
    by (simp add: five) (simp add: conj_commute)
  finally show ?thesis by (simp add: reorder_gemini_parts_def)
qed


section \<open>Merging\<close>

definition contents :: "claude_message \<Rightarrow> content_block list" where
  "contents mg = (case cm_content mg of MArray bs \<Rightarrow> bs | MString s \<Rightarrow> [CText s])"

definition non_text :: "claude_message list \<Rightarrow> content_block list" where
  "non_text ms = filter (\<lambda>b. \<not> is_text_block b) (concat (map contents ms))"

lemma merge_from_roles: "map cm_role (merge_from c ms) = remdups_adj (cm_role c # map cm_role ms)"
  by (induction c ms rule: merge_from.induct) auto

lemma merge_from_non_text: "non_text (merge_from c ms) = non_text (c # ms)"
proof (induction c ms rule: merge_from.induct)
  case (2 c n ms)
  then show ?case
    by (cases "cm_content c"; cases "cm_content n")
       (auto simp: non_text_def contents_def merge_content_def)
qed simp

lemma merge_roles: "map cm_role (merge_consecutive_messages ms) = remdups_adj (map cm_role ms)"
  by (cases ms rule: remdups_adj.cases) (auto simp: merge_consecutive_messages_def merge_from_roles)

lemma merge_non_text: "non_text (merge_consecutive_messages ms) = non_text ms"
  by (cases ms rule: remdups_adj.cases) (simp_all add: merge_consecutive_messages_def merge_from_non_text del: merge_from.simps)

lemma merge_from_distinct: "distinct_adj (cm_role c # map cm_role ms) \<Longrightarrow> merge_from c ms = c # ms"
  by (induction c ms rule: merge_from.induct) auto

lemma merge_idem: "merge_consecutive_messages (merge_consecutive_messages ms) = merge_consecutive_messages ms"
proof -
  have "merge_consecutive_messages xs = xs" if "distinct_adj (map cm_role xs)" for xs
    using that by (cases xs) (auto simp: merge_consecutive_messages_def merge_from_distinct)
  then show ?thesis by (simp add: merge_roles distinct_adj_remdups_adj)
qed

section \<open>Signatures\<close>

definition assistant_blocks :: "claude_message \<Rightarrow> content_block list" where
  "assistant_blocks mg = (if cm_role mg = ''assistant'' then blocks_of mg else [])"

definition acceptable :: "signature_cache \<Rightarrow> string option \<Rightarrow> content_block \<Rightarrow> bool" where
  "acceptable cache family b =
     (case b of CThinking t s c \<Rightarrow> \<not> needs_fix cache family s | _ \<Rightarrow> True)"

lemma needs_fix_dummy [simp]: "\<not> needs_fix cache family (Some DUMMY_SIGNATURE)"
  by (simp add: needs_fix_def)

lemma fix_block_acceptable: "acceptable cache family (fix_block cache family b)"
  by (cases b) (auto simp: acceptable_def)

lemma fix_block_id: "acceptable cache family b \<Longrightarrow> fix_block cache family b = b"
  by (cases b) (auto simp: acceptable_def)

lemma fix_acceptable:
  "list_all (\<lambda>mg. list_all (acceptable cache family) (assistant_blocks mg))
     (filter_invalid_thinking_blocks_with_family cache family ms)"
  by (auto simp: filter_invalid_thinking_blocks_with_family_def list_all_iff assistant_blocks_def blocks_of_def
      on_blocks_def fix_block_acceptable split: message_content.splits if_splits)

lemma fix_id:
  assumes "list_all (\<lambda>mg. list_all (acceptable cache family) (assistant_blocks mg)) ms"
  shows "filter_invalid_thinking_blocks_with_family cache family ms = ms"
  using assms
  by (auto simp: filter_invalid_thinking_blocks_with_family_def list_all_iff assistant_blocks_def blocks_of_def
      on_blocks_def fix_block_id map_idI intro!: map_idI split: message_content.splits if_splits)

lemma dummy_short: "length DUMMY_SIGNATURE < MIN_SIGNATURE_LENGTH"
  by (simp add: DUMMY_SIGNATURE_def MIN_SIGNATURE_LENGTH_def)

lemma signed_fix: "signed_at_length (fix_block cache family b) \<Longrightarrow> signed_at_length b"
  using dummy_short by (cases b) (auto simp: signed_at_length_def split: if_splits)

lemma signed_after_fix:
  assumes "\<exists>mg\<in>set (filter_invalid_thinking_blocks_with_family cache family ms).
      cm_role mg = ''assistant'' \<and> list_ex signed_at_length (blocks_of mg)"
  shows "\<exists>mg\<in>set ms. cm_role mg = ''assistant'' \<and> list_ex signed_at_length (blocks_of mg)"
  using assms
  by (auto simp: filter_invalid_thinking_blocks_with_family_def list_ex_iff blocks_of_def on_blocks_def
      split: message_content.splits if_splits dest!: signed_fix) fastforce

section \<open>Closing\<close>

lemma find_index_last_append:
  "find_index_last P (xs @ ys) =
     (case find_index_last P ys of Some i \<Rightarrow> Some (length xs + i) | None \<Rightarrow> find_index_last P xs)"
  by (induction xs) (auto split: option.splits)

lemma find_index_last_None: "find_index_last P xs = None \<longleftrightarrow> (\<forall>x\<in>set xs. \<not> P x)"
  by (induction xs) (auto split: option.splits)

lemma find_index_last_Some:
  assumes "find_index_last P xs = Some i"
  shows "i < length xs \<and> P (xs ! i) \<and> find_index_last P (drop (Suc i) xs) = None"
  using assms by (induction xs arbitrary: i) (auto split: option.splits if_splits)

text \<open>A history whose last assistant message is a plain text\<close>

definition answered :: "claude_message list \<Rightarrow> bool" where
  "answered ms \<longleftrightarrow> (\<exists>us t vs. ms = us @ text_message ''assistant'' t # vs \<and> (\<forall>v\<in>set vs. cm_role v \<noteq> ''assistant''))"

lemma answered_settled:
  assumes "answered ms"
  shows "\<not> in_tool_loop (analyze_conversation_state ms) \<and> \<not> interrupted_tool (analyze_conversation_state ms)"
proof -
  obtain us t vs where ms: "ms = us @ text_message ''assistant'' t # vs"
    and vs: "\<forall>v\<in>set vs. cm_role v \<noteq> ''assistant''" using assms by (auto simp: answered_def)
  have "find_index_last (\<lambda>m. cm_role m = ''assistant'') vs = None" using vs by (simp add: find_index_last_None)
  then have "find_index_last (\<lambda>m. cm_role m = ''assistant'') ms = Some (length us)"
    by (simp add: ms find_index_last_append text_message_def)
  then show ?thesis by (simp add: analyze_conversation_state_def ms text_message_def blocks_of_def)
qed

lemma close_cases:
  "close_tool_loop_for_thinking ms = ms \<or> answered (close_tool_loop_for_thinking ms)"
proof (cases "last_assistant_idx (analyze_conversation_state ms)")
  case (Some i)
  have idx: "find_index_last (\<lambda>m. cm_role m = ''assistant'') ms = Some i"
    using Some by (simp add: analyze_conversation_state_def Let_def split: if_splits)
  have "answered (take (Suc i) ms @ text_message ''assistant'' t # drop (Suc i) ms)" for t
    using find_index_last_Some [OF idx] by (auto simp: answered_def find_index_last_None)
  moreover have "answered (ms @ [text_message ''assistant'' t, text_message ''user'' u])" for t u
    by (auto simp: answered_def text_message_def intro!: exI [of _ ms])
  ultimately show ?thesis using Some by (simp add: close_tool_loop_for_thinking_def Let_def)
next
  case None
  have idx: "find_index_last (\<lambda>m. cm_role m = ''assistant'') ms = None"
    using None by (simp add: analyze_conversation_state_def Let_def split: if_splits)
  then show ?thesis by (simp add: close_tool_loop_for_thinking_def analyze_conversation_state_def)
qed

lemma close_settled:
  "\<not> in_tool_loop (analyze_conversation_state ms) \<and> \<not> interrupted_tool (analyze_conversation_state ms)
   \<Longrightarrow> close_tool_loop_for_thinking ms = ms"
  by (simp add: close_tool_loop_for_thinking_def)

lemma close_idem: "close_tool_loop_for_thinking (close_tool_loop_for_thinking ms) = close_tool_loop_for_thinking ms"
  using close_cases [of ms] answered_settled close_settled by metis

lemma close_keeps: "subseq ms (close_tool_loop_for_thinking ms)"
proof -
  have "subseq (take n ms @ drop n ms) (take n ms @ x # drop n ms)" for n x
    by (rule list_emb_append_mono) auto
  then have "subseq ms (take n ms @ x # drop n ms)" for n x by (metis append_take_drop_id)
  then show ?thesis by (auto simp: close_tool_loop_for_thinking_def Let_def split: option.splits)
qed


definition thinking_before_calls :: "claude_message list \<Rightarrow> bool" where
  "thinking_before_calls ms =
     (case last_assistant_idx (analyze_conversation_state ms) of
        Some i \<Rightarrow> list_ex valid_thinking (blocks_of (ms ! i)) | None \<Rightarrow> False)"

lemma close_open:
  assumes "in_tool_loop (analyze_conversation_state ms) \<or> interrupted_tool (analyze_conversation_state ms)"
    and "\<not> thinking_before_calls ms"
  shows "close_tool_loop_for_thinking ms \<noteq> ms"
proof -
  obtain i where i: "find_index_last (\<lambda>m. cm_role m = ''assistant'') ms = Some i"
    using assms(1) by (auto simp: analyze_conversation_state_def Let_def split: if_splits option.splits)
  have l: "last_assistant_idx (analyze_conversation_state ms) = Some i"
    using i by (simp add: analyze_conversation_state_def Let_def)
  have "length (take (Suc i) ms @ x # drop (Suc i) ms) = Suc (length ms)" for x
    by (metis append_take_drop_id length_Cons length_append add_Suc_right)
  then have "take (Suc i) ms @ x # drop (Suc i) ms \<noteq> ms" for x by (metis n_not_Suc_n)
  then show ?thesis using assms l by (auto simp: close_tool_loop_for_thinking_def thinking_before_calls_def Let_def split: if_splits)
qed

section \<open>Properties\<close>

text \<open>Note: a message with its blocks in the upstream's order is exactly the stable sort of the kept blocks by
  class (thinking, text, results, calls), for Claude blocks and for upstream parts: no block is lost but the
  empty texts, and blocks of one class keep their order.\<close>

theorem blocks_sorted_stably:
  "partition_blocks bs = sort_key block_class (filter keep_block bs)
   \<and> reorder_gemini_parts ps = (if length ps \<le> 1 then ps else sort_key part_class (filter keep_part ps))"
  by (simp add: partition_is_sort reorder_is_sort)

text \<open>Note: merging consecutive messages leaves one message per turn (the roles are those of the input without
  adjacent repetitions), keeps every block that is not a text in its order, and a second pass changes nothing.\<close>

theorem merged_turns_alternate:
  "map cm_role (merge_consecutive_messages ms) = remdups_adj (map cm_role ms)
   \<and> distinct_adj (map cm_role (merge_consecutive_messages ms))
   \<and> non_text (merge_consecutive_messages ms) = non_text ms
   \<and> merge_consecutive_messages (merge_consecutive_messages ms) = merge_consecutive_messages ms"
  by (simp add: merge_roles merge_non_text merge_idem distinct_adj_remdups_adj)

text \<open>Note: after the signatures are filtered no thinking block of the assistant needs a fix for the target
  family, a second pass changes nothing, and the placeholder signature never makes the history count as
  signed for function calls when it did not before.\<close>

theorem signatures_fixed:
  "list_all (\<lambda>mg. list_all (acceptable cache family) (assistant_blocks mg))
     (filter_invalid_thinking_blocks_with_family cache family ms)
   \<and> filter_invalid_thinking_blocks_with_family cache family (filter_invalid_thinking_blocks_with_family cache family ms)
     = filter_invalid_thinking_blocks_with_family cache family ms
   \<and> (has_valid_signature_for_function_calls now cache (filter_invalid_thinking_blocks_with_family cache family ms) g sid
      \<longrightarrow> has_valid_signature_for_function_calls now cache ms g sid)"
  using signed_after_fix [of cache family ms]
  by (auto simp: fix_acceptable fix_id has_valid_signature_for_function_calls_def list_ex_iff)

lemma signatures_fixed_witness:
  "has_valid_signature_for_function_calls 0 new_cache
     [\<lparr>cm_role = ''assistant'', cm_content = MArray [CThinking ''t'' (Some (replicate 60 CHR ''a'')) None]\<rparr>] None ''s''"
  using signatures_fixed [of new_cache None
     "[\<lparr>cm_role = ''assistant'', cm_content = MArray [CThinking ''t'' (Some (replicate 60 CHR ''a'')) None]\<rparr>]" 0 None "''s''"]
  by (simp add: filter_invalid_thinking_blocks_with_family_def has_valid_signature_for_function_calls_def on_blocks_def
      blocks_of_def needs_fix_def MIN_SIGNATURE_LENGTH_def DUMMY_SIGNATURE_def signed_at_length_def)

text \<open>Claim C37: closing tool calls only adds messages, is done after one pass, and afterwards a history that still
  has an open or interrupted call has a signed thinking block in its last assistant message.\<close>

theorem tool_loop_closed:
  "subseq ms (close_tool_loop_for_thinking ms)
   \<and> close_tool_loop_for_thinking (close_tool_loop_for_thinking ms) = close_tool_loop_for_thinking ms
   \<and> (in_tool_loop (analyze_conversation_state (close_tool_loop_for_thinking ms))
      \<or> interrupted_tool (analyze_conversation_state (close_tool_loop_for_thinking ms))
      \<longrightarrow> thinking_before_calls (close_tool_loop_for_thinking ms))"
  using close_open [of "close_tool_loop_for_thinking ms"] by (auto simp: close_keeps close_idem)

definition open_history :: "claude_message list" where
  "open_history =
     [\<lparr>cm_role = ''assistant'', cm_content = MArray
        [CThinking ''t'' (Some (replicate 60 CHR ''a'')) None, CToolUse ''i'' ''ls'' (JObj []) None None]\<rparr>,
      \<lparr>cm_role = ''user'', cm_content = MArray [CToolResult ''i'' (JStr ''ok'') None]\<rparr>]"

lemma tool_loop_closed_witness: "thinking_before_calls (close_tool_loop_for_thinking open_history)"
proof -
  have "close_tool_loop_for_thinking open_history = open_history"
    by (simp add: close_tool_loop_for_thinking_def open_history_def analyze_conversation_state_def Let_def blocks_of_def
        valid_thinking_def MIN_SIGNATURE_LENGTH_def)
  then show ?thesis
    using tool_loop_closed [of open_history]
    by (simp add: open_history_def analyze_conversation_state_def Let_def blocks_of_def)
qed

end
