(* ===== verification/Tool_Results.thy ===== *)
theory Tool_Results
  imports Rust_Strings
begin

text \<open>
  Results of tools on their way into a request: \<open>mappers/tool_result_compressor/mod.rs\<close> and
  \<open>strategies.rs\<close> shorten them, \<open>mappers/claude/request/tool_result_handler.rs\<close> makes the parts of
  the upstream's protocol, \<open>common/media_detect.rs\<close> looks at the first bytes of images.

  The regular expressions, base64 decoding and the printing of a JSON value are parameters. Lengths
  are those of strings in memory, so sums of them do not wrap.
\<close>

record compress_env =
  ce_style :: "string \<Rightarrow> string"      \<comment> \<open>\<open>style_regex().replace_all\<close>\<close>
  ce_script :: "string \<Rightarrow> string"
  ce_base64 :: "string \<Rightarrow> string"
  ce_blank_lines :: "string \<Rightarrow> string"
  ce_saved_output :: "string \<Rightarrow> (string \<times> string) option"   \<comment> \<open>the groups \<open>count\<close> and \<open>path\<close>\<close>
  ce_decode :: "string \<Rightarrow> u8 list option"
  ce_to_string :: "json \<Rightarrow> string"

section \<open>Strings\<close>

text \<open>\<open>str::ceil_char_boundary\<close>, \<open>str::rfind\<close> of a character, the number of matches, \<open>str::lines\<close>\<close>

definition ceil_char_boundary :: "string \<Rightarrow> nat \<Rightarrow> nat" where
  "ceil_char_boundary s i =
     (case List.find (is_char_boundary s) [i..<length s] of Some j \<Rightarrow> j | None \<Rightarrow> length s)"

primrec rfind_char :: "char \<Rightarrow> string \<Rightarrow> nat option" where
  "rfind_char c [] = None"
| "rfind_char c (x # xs) =
     (case rfind_char c xs of Some i \<Rightarrow> Some (Suc i) | None \<Rightarrow> if x = c then Some 0 else None)"

function count_matches :: "string \<Rightarrow> string \<Rightarrow> nat" where
  "count_matches p [] = 0"
| "count_matches p (x # xs) =
     (if starts_with (x # xs) p then Suc (count_matches p (drop (length p - 1) xs)) else count_matches p xs)"
  by pat_completeness auto
termination by (relation "measure (\<lambda>(_, s). length s)") auto

definition strip_cr :: "string \<Rightarrow> string" where
  "strip_cr l = (if l \<noteq> [] \<and> last l = CHR 0x0D then butlast l else l)"

function str_lines :: "string \<Rightarrow> string list" where
  "str_lines [] = []"
| "str_lines (c # cs) =
     (let l = takeWhile (\<lambda>x. x \<noteq> CHR 0x0A) (c # cs); rest = dropWhile (\<lambda>x. x \<noteq> CHR 0x0A) (c # cs)
      in (if rest = [] then l else strip_cr l) # str_lines (drop 1 rest))"
  by pat_completeness auto
termination
proof (relation "measure length")
  show "x = takeWhile (\<lambda>x. x \<noteq> CHR 0x0A) (c # cs) \<Longrightarrow> xa = dropWhile (\<lambda>x. x \<noteq> CHR 0x0A) (c # cs)
    \<Longrightarrow> (drop 1 xa, c # cs) \<in> measure length" for c :: char and cs x xa
    using length_dropWhile_le [of "\<lambda>x. x \<noteq> CHR 0x0A" "c # cs"] by (cases xa) auto
qed simp

definition newline_joined :: "string list \<Rightarrow> string" where
  "newline_joined ls = concat (case ls of [] \<Rightarrow> [] | l # rest \<Rightarrow> l # map (\<lambda>x. CHR 0x0A # x) rest)"

section \<open>Truncation\<close>

definition MAX_TOOL_RESULT_CHARS :: nat where "MAX_TOOL_RESULT_CHARS = 200000"
definition SNAPSHOT_MAX_CHARS :: nat where "SNAPSHOT_MAX_CHARS = 16000"
definition SNAPSHOT_DETECTION_THRESHOLD :: nat where "SNAPSHOT_DETECTION_THRESHOLD = 20000"
definition SNAPSHOT_HEAD_RATIO :: rat where "SNAPSHOT_HEAD_RATIO = rnd64 (7 / 10)"

text \<open>A tag that is open at the end is cut off, as is a brace within the last hundred bytes.\<close>

definition before_open_tag :: "string \<Rightarrow> nat \<Rightarrow> nat" where
  "before_open_tag sub split_pos =
     (case rfind_char (CHR ''<'') sub of
        None \<Rightarrow> split_pos
      | Some last_open \<Rightarrow>
          (case rfind_char (CHR ''>'') sub of
             Some last_close \<Rightarrow> if last_close < last_open then last_open else split_pos
           | None \<Rightarrow> last_open))"

definition before_open_brace :: "nat \<Rightarrow> string \<Rightarrow> nat \<Rightarrow> nat" where
  "before_open_brace max_chars sub split_pos =
     (case (rfind_char (CHR ''{'') sub, rfind_char (CHR ''}'') sub) of
        (Some last_open, Some last_close) \<Rightarrow>
          if last_close < last_open \<and> max_chars - last_open < 100 then min split_pos last_open else split_pos
      | _ \<Rightarrow> split_pos)"

definition split_position :: "string \<Rightarrow> nat \<Rightarrow> nat" where
  "split_position t max_chars =
     (let split_pos = floor_char_boundary t max_chars; sub = take split_pos t
      in before_open_brace max_chars sub (before_open_tag sub split_pos))"

definition truncate_text_safe :: "string \<Rightarrow> nat \<Rightarrow> string" where
  "truncate_text_safe t max_chars =
     (if length t \<le> max_chars then t
      else let split_pos = split_position t max_chars
           in take split_pos t @ CHR 0x0A # ''...[truncated '' @ show_nat (length t - split_pos) @ '' chars]'')"

section \<open>Strategies\<close>

definition deep_clean_html :: "compress_env \<Rightarrow> string \<Rightarrow> string" where
  "deep_clean_html env html = ce_blank_lines env (ce_base64 env (ce_script env (ce_style env html)))"

definition clean_path :: "string \<Rightarrow> string" where
  "clean_path raw_path =
     trim (rev (dropWhile (\<lambda>c. c \<in> set [CHR '')'', CHR '']'', CHR 0x22, CHR 0x27, CHR ''.'']) (rev (trim raw_path))))"

definition notice_line :: "string list \<Rightarrow> string \<Rightarrow> string \<Rightarrow> string" where
  "notice_line ls n file_path =
     (case List.find (\<lambda>l. contains (to_lowercase l) ''exceeds maximum allowed tokens''
                        \<and> contains (to_lowercase l) ''saved to'') ls of
        Some l \<Rightarrow> l
      | None \<Rightarrow> ''result ('' @ n @ '' characters) exceeds maximum allowed tokens. Output has been saved to '' @ file_path)"

definition format_line :: "string list \<Rightarrow> string option" where
  "format_line ls =
     List.find (\<lambda>l. starts_with l ''Format:'' \<or> contains l ''JSON array with schema''
                   \<or> starts_with (to_lowercase l) ''schema:'') ls"

definition compact_lines :: "string list \<Rightarrow> string \<Rightarrow> string \<Rightarrow> string list" where
  "compact_lines ls n file_path =
     (let notice = notice_line ls n file_path
      in notice # (case format_line ls of Some f \<Rightarrow> if f = notice then [] else [f] | None \<Rightarrow> [])
         @ [''[tool_result omitted to reduce prompt size; read file locally if needed: '' @ file_path @ '']''])"

definition compact_saved_output_notice :: "compress_env \<Rightarrow> string \<Rightarrow> nat \<Rightarrow> string option" where
  "compact_saved_output_notice env t max_chars =
     (case ce_saved_output env t of
        None \<Rightarrow> None
      | Some (n, raw_path) \<Rightarrow>
          let ls = filter (\<lambda>l. l \<noteq> []) (map trim (str_lines t))
          in Some (truncate_text_safe (newline_joined (compact_lines ls n (clean_path raw_path))) max_chars))"

definition is_snapshot :: "string \<Rightarrow> bool" where
  "is_snapshot t \<longleftrightarrow> contains (to_lowercase t) ''page snapshot'' \<or> 30 < count_matches ''ref='' t \<or> 30 < count_matches ''[ref='' t"

definition head_length :: "nat \<Rightarrow> nat" where
  "head_length budget = min 10000 (max 500 (nat \<lfloor>rnd64 (of_nat budget * SNAPSHOT_HEAD_RATIO)\<rfloor>))"

definition compact_browser_snapshot :: "string \<Rightarrow> nat \<Rightarrow> string option" where
  "compact_browser_snapshot t max_chars =
     (if \<not> is_snapshot t then None
      else
        let desired_max = min max_chars SNAPSHOT_MAX_CHARS;
            meta = ''[page snapshot summarized to reduce prompt size; original '' @ show_nat (length t) @ '' chars]'';
            budget = desired_max - (length meta + 200)
        in if desired_max < 2000 \<or> length t \<le> desired_max \<or> budget < 1000 then None
           else
             let head_len = head_length budget;
                 tail_len = min (budget - head_len) 3000;
                 safe_head_end = floor_char_boundary t (min head_len (length t));
                 head = take safe_head_end t;
                 tail = (if 0 < tail_len \<and> safe_head_end < length t
                         then drop (ceil_char_boundary t (length t - tail_len)) t else []);
                 omitted = show_nat (length t - head_len - tail_len);
                 nl = [CHR 0x0A];
                 front = meta @ nl @ ''---[HEAD]---'' @ nl @ head @ nl @ ''---[...omitted '' @ omitted @ '' chars]---''
             in Some (truncate_text_safe (if tail = [] then front else front @ nl @ ''---[TAIL]---'' @ nl @ tail) max_chars))"

definition looks_like_html :: "string \<Rightarrow> bool" where
  "looks_like_html t \<longleftrightarrow> contains t ''<html'' \<or> contains t ''<body'' \<or> contains t ''<!DOCTYPE''"

definition compact_tool_result_text :: "compress_env \<Rightarrow> string \<Rightarrow> nat \<Rightarrow> string" where
  "compact_tool_result_text env t max_chars =
     (if t = [] \<or> length t \<le> max_chars then t
      else
        let cleaned_text = (if looks_like_html t then deep_clean_html env t else t)
        in if length cleaned_text \<le> max_chars then cleaned_text
           else case compact_saved_output_notice env cleaned_text max_chars of
                  Some compacted \<Rightarrow> compacted
                | None \<Rightarrow>
                    (case (if SNAPSHOT_DETECTION_THRESHOLD < length cleaned_text
                           then compact_browser_snapshot cleaned_text max_chars else None) of
                       Some compacted \<Rightarrow> compacted
                     | None \<Rightarrow> truncate_text_safe cleaned_text max_chars))"

section \<open>Blocks\<close>

definition json_text :: "json \<Rightarrow> string option" where
  "json_text b = Option.bind (jget ''text'' b) as_str"

definition block_type_is :: "string \<Rightarrow> json \<Rightarrow> bool" where
  "block_type_is t b \<longleftrightarrow> Option.bind (jget ''type'' b) as_str = Some t"

definition block_size :: "json \<Rightarrow> nat" where
  "block_size b =
     (if block_type_is ''image'' b
      then case Option.bind (Option.bind (jget ''source'' b) (jget ''data'')) as_str of
             Some s \<Rightarrow> length s | None \<Rightarrow> 100
      else 100)"

text \<open>A block with a text is an object.\<close>

definition with_text :: "string \<Rightarrow> json \<Rightarrow> json" where
  "with_text t b = (case b of JObj m \<Rightarrow> JObj (tput ''text'' (JStr t) m) | _ \<Rightarrow> b)"

fun sanitize_loop :: "compress_env \<Rightarrow> nat \<Rightarrow> json list \<Rightarrow> json list" where
  "sanitize_loop env used_chars [] = []"
| "sanitize_loop env used_chars (b # bs) =
     (case json_text b of
        Some t \<Rightarrow>
          if MAX_TOOL_RESULT_CHARS - used_chars = 0 then []
          else
            let compacted = compact_tool_result_text env t (MAX_TOOL_RESULT_CHARS - used_chars);
                used_chars = used_chars + length compacted
            in with_text compacted b
               # (if MAX_TOOL_RESULT_CHARS \<le> used_chars then [] else sanitize_loop env used_chars bs)
      | None \<Rightarrow>
          let used_chars = used_chars + block_size b
          in b # (if MAX_TOOL_RESULT_CHARS \<le> used_chars then [] else sanitize_loop env used_chars bs))"

definition sanitize_tool_result_blocks :: "compress_env \<Rightarrow> json list \<Rightarrow> json list" where
  "sanitize_tool_result_blocks env blocks = sanitize_loop env 0 blocks"

section \<open>Images\<close>

definition detect_from_bytes :: "u8 list \<Rightarrow> string option" where
  "detect_from_bytes bytes =
     (if take 4 bytes = [0x89, 0x50, 0x4E, 0x47] then Some ''image/png''
      else if take 3 bytes = [0xFF, 0xD8, 0xFF] then Some ''image/jpeg''
      else if take 4 bytes = [0x47, 0x49, 0x46, 0x38] then Some ''image/gif''
      else if take 4 bytes = [0x52, 0x49, 0x46, 0x46] \<and> take 4 (drop 8 bytes) = [0x57, 0x45, 0x42, 0x50]
      then Some ''image/webp'' else None)"

definition detect_image_mime :: "compress_env \<Rightarrow> string \<Rightarrow> string \<Rightarrow> panic + string" where
  "detect_image_mime env base64_data declared =
     (let data = trim base64_data;
          prefix_len = min (length data) 24 - min (length data) 24 mod 4
      in if prefix_len = 0 then Inr declared
         else if \<not> is_char_boundary data prefix_len then Inl SliceRange
         else case ce_decode env (take prefix_len data) of
                None \<Rightarrow> Inr declared
              | Some decoded \<Rightarrow>
                  Inr (case detect_from_bytes decoded of Some d \<Rightarrow> d | None \<Rightarrow> declared))"

section \<open>Parts\<close>

definition str_field :: "string \<Rightarrow> json \<Rightarrow> string option" where
  "str_field k v = Option.bind (jget k v) as_str"

text \<open>The text of a block, and its image if it is attached\<close>

definition block_content :: "compress_env \<Rightarrow> json \<Rightarrow> panic + (string option \<times> json list)" where
  "block_content env b =
     (if block_type_is ''text'' b then Inr (str_field ''text'' b, [])
      else if block_type_is ''image'' b
      then (case jget ''source'' b of
              None \<Rightarrow> Inr (None, [])
            | Some source \<Rightarrow>
                if str_field ''type'' source \<noteq> Some ''base64'' then Inr (None, [])
                else case str_field ''data'' source of
                       None \<Rightarrow> Inr (None, [])
                     | Some b64 \<Rightarrow>
                         (case detect_image_mime env b64
                                 (case str_field ''media_type'' source of Some m \<Rightarrow> m | None \<Rightarrow> ''image/png'') of
                            Inl p \<Rightarrow> Inl p
                          | Inr detected \<Rightarrow>
                              Inr (Some ''[image attached below]'',
                                   [JObj [(''inlineData'', JObj [(''data'', JStr b64), (''mimeType'', JStr detected)])]])))
      else Inr (None, []))"

fun collect_content :: "compress_env \<Rightarrow> json list \<Rightarrow> panic + (string list \<times> json list)" where
  "collect_content env [] = Inr ([], [])"
| "collect_content env (b # bs) =
     (case block_content env b of
        Inl p \<Rightarrow> Inl p
      | Inr (t, imgs) \<Rightarrow>
          (case collect_content env bs of
             Inl p \<Rightarrow> Inl p
           | Inr (ts, imgs2) \<Rightarrow> Inr ((case t of Some t \<Rightarrow> t # ts | None \<Rightarrow> ts), imgs @ imgs2)))"

definition extract_content_and_images :: "compress_env \<Rightarrow> json \<Rightarrow> json \<Rightarrow> panic + (string \<times> json list)" where
  "extract_content_and_images env compacted original =
     (case compacted of
        JStr s \<Rightarrow> Inr (s, [])
      | JArr arr \<Rightarrow>
          (case collect_content env arr of
             Inl p \<Rightarrow> Inl p
           | Inr (text_parts, images) \<Rightarrow>
               Inr (if text_parts = [] \<and> arr \<noteq> [] then ce_to_string env compacted else newline_joined text_parts, images))
      | _ \<Rightarrow> Inr (ce_to_string env original, []))"

definition truncated_suffix :: string where
  "truncated_suffix = CHR 0x0A # ''...[truncated output]''"

definition truncate_if_needed :: "string \<Rightarrow> string" where
  "truncate_if_needed content =
     (if MAX_TOOL_RESULT_CHARS < length (chars content)
      then concat (take (MAX_TOOL_RESULT_CHARS - length (chars truncated_suffix)) (chars content)) @ truncated_suffix
      else content)"

definition ensure_non_empty :: "string \<Rightarrow> bool option \<Rightarrow> string" where
  "ensure_non_empty content is_error =
     (if trim content = []
      then (if is_error = Some True then ''Tool execution failed with no output.'' else ''Command executed successfully.'')
      else content)"

definition function_response :: "string \<Rightarrow> string \<Rightarrow> string \<Rightarrow> json" where
  "function_response tid name result =
     JObj [(''id'', JStr tid), (''name'', JStr name), (''response'', JObj [(''result'', JStr result)])]"

definition build_tool_result_part ::
  "compress_env \<Rightarrow> string \<Rightarrow> json \<Rightarrow> bool option \<Rightarrow> string \<Rightarrow> string option \<Rightarrow> panic + json list" where
  "build_tool_result_part env tool_use_id content is_error func_name last_thought_signature =
     (let compacted_content = (case content of JArr a \<Rightarrow> JArr (sanitize_tool_result_blocks env a) | _ \<Rightarrow> content)
      in case extract_content_and_images env compacted_content content of
           Inl p \<Rightarrow> Inl p
         | Inr (text_content, image_parts) \<Rightarrow>
             Inr (JObj ((''functionResponse'',
                         function_response tool_use_id func_name (ensure_non_empty (truncate_if_needed text_content) is_error))
                        # (case last_thought_signature of Some sig \<Rightarrow> [(''thoughtSignature'', JStr sig)] | None \<Rightarrow> []))
                  # image_parts))"

text \<open>The answer for a call without a result; the remaining pending calls are cleared.\<close>

definition interrupted_result :: "(string, string) table \<Rightarrow> string \<Rightarrow> json" where
  "interrupted_result tool_id_to_name tid =
     JObj [(''functionResponse'',
            function_response tid (case tget tool_id_to_name tid of Some n \<Rightarrow> n | None \<Rightarrow> tid)
              ''Tool execution interrupted. No result provided.'')]"

definition inject_missing_tool_results ::
  "json list \<Rightarrow> string list \<Rightarrow> string set \<Rightarrow> (string, string) table \<Rightarrow> json list \<times> string list" where
  "inject_missing_tool_results parts pending_tool_use_ids current_turn_tool_result_ids tool_id_to_name =
     (map (interrupted_result tool_id_to_name) (filter (\<lambda>tid. tid \<notin> current_turn_tool_result_ids) pending_tool_use_ids) @ parts,
      [])"

section \<open>Lengths\<close>

text \<open>What the notice of a truncation adds: 22 bytes and a number of at most 20 digits\<close>

definition slack :: nat where "slack = 42"

lemma before_open_tag_le: "before_open_tag sub p \<le> p \<or> before_open_tag sub p < length sub"
proof -
  have "rfind_char c xs = Some i \<Longrightarrow> i < length xs" for c xs i
    by (induction xs arbitrary: i) (auto split: option.splits if_splits)
  then show ?thesis by (auto simp: before_open_tag_def split: option.splits)
qed

lemma split_position_le: "split_position t m \<le> m \<and> split_position t m \<le> length t"
proof -
  let ?p = "floor_char_boundary t m"
  have p: "?p \<le> m" "?p \<le> length t" by (rule floor_char_boundary_le floor_char_boundary_len)+
  have "before_open_brace m sub q \<le> q" for sub q by (simp add: before_open_brace_def split: option.split)
  moreover have "before_open_tag (take ?p t) ?p \<le> ?p" using before_open_tag_le [of "take ?p t" ?p] by auto
  ultimately have "split_position t m \<le> ?p" unfolding split_position_def Let_def using le_trans by blast
  then show ?thesis using p by linarith
qed

lemma truncate_prefix:
  "m < length t \<Longrightarrow>
   truncate_text_safe t m = take (split_position t m) t @ CHR 0x0A # ''...[truncated ''
     @ show_nat (length t - split_position t m) @ '' chars]''"
  by (simp add: truncate_text_safe_def Let_def)

lemma truncate_length:
  assumes "length t < 10 ^ 20"
  shows "length (truncate_text_safe t m) \<le> m + slack"
proof (cases "length t \<le> m")
  case False
  have "length (show_nat (length t - split_position t m)) \<le> 20"
    using length_show_nat [of "length t - split_position t m" 19] assms by simp
  with False split_position_le [of t m] show ?thesis by (simp add: truncate_prefix slack_def)
qed (simp add: truncate_text_safe_def)

lemma newline_joined_length: "length (newline_joined ls) \<le> sum_list (map (\<lambda>l. Suc (length l)) ls)"
proof -
  have "length (concat (map (\<lambda>x. CHR 0x0A # x) ls)) = sum_list (map (\<lambda>l. Suc (length l)) ls)" for ls :: "string list"
    by (induction ls) auto
  then show ?thesis by (cases ls) (auto simp: newline_joined_def)
qed


lemma line_length: "l \<in> set (str_lines t) \<Longrightarrow> length l \<le> length t"
proof (induction t rule: str_lines.induct)
  case (2 c cs)
  let ?P = "\<lambda>x. x \<noteq> CHR 0x0A"
  let ?l = "takeWhile ?P (c # cs)" and ?r = "dropWhile ?P (c # cs)"
  have h: "length ?l \<le> length (c # cs)" by (rule length_takeWhile_le)
  have "length (drop 1 ?r) \<le> length (c # cs)" using length_dropWhile_le [of ?P "c # cs"] by auto
  have e: "str_lines (c # cs) = (if ?r = [] then ?l else strip_cr ?l) # str_lines (drop 1 ?r)"
    by (simp only: str_lines.simps Let_def)
  have s: "length (strip_cr ?l) \<le> length ?l" unfolding strip_cr_def by (simp only: length_butlast split: if_split) simp
  from 2(2) consider "l = ?l" | "l = strip_cr ?l" | "l \<in> set (str_lines (drop 1 ?r))"
    unfolding e by (auto simp del: takeWhile.simps dropWhile.simps split: if_splits)
  then show ?case
  proof cases
    case 3
    with 2(1) [OF refl refl] \<open>length (drop 1 ?r) \<le> length (c # cs)\<close> show ?thesis by linarith
  qed (use h s in \<open>auto simp del: takeWhile.simps dropWhile.simps\<close>)
qed simp

text \<open>The behaviour of the regular expressions that the bounds rest on: replacing does not lengthen, groups are substrings.\<close>

definition regexes_shorten :: "compress_env \<Rightarrow> bool" where
  "regexes_shorten env \<longleftrightarrow>
     (\<forall>t. length (deep_clean_html env t) \<le> length t)
     \<and> (\<forall>t n p. ce_saved_output env t = Some (n, p) \<longrightarrow> length n \<le> length t \<and> length p \<le> length t)"

lemma clean_path_length: "length (clean_path p) \<le> length p"
proof -
  have "length (clean_path p) \<le> length (trim p)"
    unfolding clean_path_def using length_trim length_dropWhile_le by (metis (no_types, lifting) length_rev order_trans)
  with length_trim [of p] show ?thesis by linarith
qed

lemma notice_length: "(\<And>l. l \<in> set ls \<Longrightarrow> length l \<le> k) \<Longrightarrow> length (notice_line ls n p) \<le> k + length n + length p + 80"
  by (fastforce simp: notice_line_def find_Some_iff in_set_conv_nth split: option.split intro: trans_le_add1)

lemma format_length: "(\<And>l. l \<in> set ls \<Longrightarrow> length l \<le> k) \<Longrightarrow> format_line ls = Some f \<Longrightarrow> length f \<le> k"
  by (auto simp: format_line_def find_Some_iff in_set_conv_nth)

lemma saved_length:
  assumes "regexes_shorten env" and "compact_saved_output_notice env t m = Some r" and "length t < 2 ^ 64"
  shows "length r \<le> m + slack"
proof -
  obtain n p where c: "ce_saved_output env t = Some (n, p)"
    using assms(2) by (auto simp: compact_saved_output_notice_def split: option.splits)
  define ls where "ls = filter (\<lambda>l. l \<noteq> []) (map trim (str_lines t))"
  have ls: "length l \<le> length t" if "l \<in> set ls" for l
    using that line_length length_trim order_trans unfolding ls_def by fastforce
  have np: "length n \<le> length t" "length (clean_path p) \<le> length t"
    using assms(1) c clean_path_length [of p] unfolding regexes_shorten_def by (blast, meson order_trans)
  define f where "f = (case format_line ls of Some f \<Rightarrow> if f = notice_line ls n (clean_path p) then [] else [f] | None \<Rightarrow> [])"
  have "sum_list (map (\<lambda>l. Suc (length l)) f) \<le> Suc (length t)"
    using format_length [OF ls] by (auto simp: f_def split: option.split)
  moreover have "compact_lines ls n (clean_path p) = notice_line ls n (clean_path p) # f
     @ [''[tool_result omitted to reduce prompt size; read file locally if needed: '' @ clean_path p @ '']'']"
    unfolding compact_lines_def Let_def f_def by (rule refl)
  ultimately have "length (newline_joined (compact_lines ls n (clean_path p))) \<le> 5 * length t + 200"
    using newline_joined_length [of "compact_lines ls n (clean_path p)"]
      notice_length [of ls "length t" n "clean_path p", OF ls] np
    by simp
  then have "length (newline_joined (compact_lines ls n (clean_path p))) < 10 ^ 20" using assms(3) by simp
  moreover have "r = truncate_text_safe (newline_joined (compact_lines ls n (clean_path p))) m"
    using assms(2) c by (simp add: compact_saved_output_notice_def ls_def)
  ultimately show ?thesis using truncate_length by blast
qed


lemma snapshot_length:
  assumes "compact_browser_snapshot t m = Some r" and "length t < 2 ^ 64"
  shows "length r \<le> m + slack"
proof -
  define meta where "meta = ''[page snapshot summarized to reduce prompt size; original '' @ show_nat (length t) @ '' chars]''"
  define budget where "budget = min m SNAPSHOT_MAX_CHARS - (length meta + 200)"
  define h where "h = head_length budget"
  define omitted where "omitted = show_nat (length t - h - min (budget - h) 3000)"
  define front where "front = meta @ [CHR 0x0A] @ ''---[HEAD]---'' @ [CHR 0x0A]
     @ take (floor_char_boundary t (min h (length t))) t @ [CHR 0x0A] @ ''---[...omitted '' @ omitted @ '' chars]---''"
  define x where "x = (if 0 < min (budget - h) 3000 \<and> floor_char_boundary t (min h (length t)) < length t
     then drop (ceil_char_boundary t (length t - min (budget - h) 3000)) t else [])"
  have "length (show_nat (length t)) \<le> 20" "length omitted \<le> 20"
    using length_show_nat [of "length t" 19] length_show_nat [of "length t - h - min (budget - h) 3000" 19] assms(2)
    by (simp_all add: omitted_def)
  then have "length front \<le> length t + 200" by (simp add: front_def meta_def)
  moreover have "length x \<le> length t" by (simp add: x_def)
  ultimately have "length (front @ [CHR 0x0A] @ ''---[TAIL]---'' @ [CHR 0x0A] @ x) < 10 ^ 20" "length front < 10 ^ 20"
    using assms(2) by simp_all
  moreover have "r = truncate_text_safe (if x = [] then front else front @ [CHR 0x0A] @ ''---[TAIL]---'' @ [CHR 0x0A] @ x) m"
    using assms(1) unfolding compact_browser_snapshot_def Let_def front_def x_def omitted_def h_def budget_def meta_def
    by (simp only: option.distinct option.inject split: if_split_asm)
  ultimately show ?thesis using truncate_length by (simp split: if_splits)
qed

lemma compact_length:
  assumes "regexes_shorten env" and "length t < 2 ^ 64"
  shows "length (compact_tool_result_text env t m) \<le> m + slack"
proof -
  define c where "c = (if looks_like_html t then deep_clean_html env t else t)"
  have c: "length c < 2 ^ 64" using assms le_less_trans unfolding c_def regexes_shorten_def by (metis (full_types))
  have "length (truncate_text_safe c m) \<le> m + slack" using c by (intro truncate_length) simp
  moreover note saved_length [OF assms(1) _ c, of m] snapshot_length [OF _ c, of m]
  ultimately show ?thesis unfolding compact_tool_result_text_def c_def [symmetric] Let_def
    by (auto split: option.split)
qed

section \<open>Blocks\<close>

definition text_bytes :: "json list \<Rightarrow> nat" where
  "text_bytes bs = sum_list (map (\<lambda>b. case json_text b of Some t \<Rightarrow> length t | None \<Rightarrow> 0) bs)"

lemma block_text_object: "json_text b = Some t \<Longrightarrow> \<exists>m. b = JObj m"
  by (cases b) (auto simp: json_text_def jget_def)

lemma block_text_with: "json_text b = Some t \<Longrightarrow> json_text (with_text c b) = Some c"
  using block_text_object [of b t] by (auto simp: json_text_def jget_def with_text_def as_str_def)

lemma sanitize_bytes:
  assumes "regexes_shorten env" and "\<And>b t. b \<in> set bs \<Longrightarrow> json_text b = Some t \<Longrightarrow> length t < 2 ^ 64"
  shows "text_bytes (sanitize_loop env used bs) \<le> (MAX_TOOL_RESULT_CHARS - used) + slack"
  using assms
proof (induction env used bs rule: sanitize_loop.induct)
  case (2 env used b bs)
  show ?case
  proof (cases "json_text b")
    case None
    with 2 show ?thesis by (fastforce simp: text_bytes_def Let_def)
  next
    case (Some t)
    let ?c = "compact_tool_result_text env t (MAX_TOOL_RESULT_CHARS - used)"
    have "length ?c \<le> (MAX_TOOL_RESULT_CHARS - used) + slack"
      using compact_length [OF 2(3)] 2(4) [of b t] Some by simp
    moreover have "text_bytes (sanitize_loop env (used + length ?c) bs) \<le> (MAX_TOOL_RESULT_CHARS - (used + length ?c)) + slack"
      if "\<not> MAX_TOOL_RESULT_CHARS \<le> used + length ?c"
    proof -
      have "MAX_TOOL_RESULT_CHARS - used \<noteq> 0" using that by simp
      then show ?thesis by (rule 2(2) [OF Some _ refl refl that 2(3)]) (rule 2(4), auto)
    qed
    ultimately show ?thesis using Some by (auto simp: text_bytes_def Let_def block_text_with)
  qed
qed (simp add: text_bytes_def)

definition same_but_text :: "json \<Rightarrow> json \<Rightarrow> bool" where
  "same_but_text b a \<longleftrightarrow> b = a \<or> (\<exists>t. b = with_text t a)"

lemma sanitize_prefix: "\<exists>k. list_all2 same_but_text (sanitize_loop env used bs) (take k bs)"
proof (induction env used bs rule: sanitize_loop.induct)
  case (2 env used b bs)
  have s: "list_all2 same_but_text (x # xs) (take (Suc k) (b # bs))"
    if "same_but_text x b" "list_all2 same_but_text xs (take k bs)" for x xs k
    using that by simp
  have z: "list_all2 same_but_text [] (take 0 bs)" "list_all2 same_but_text [] (take 0 (b # bs))" by simp_all
  show ?case
  proof (cases "json_text b")
    case None
    have "\<exists>k. list_all2 same_but_text
        (if MAX_TOOL_RESULT_CHARS \<le> used + block_size b then [] else sanitize_loop env (used + block_size b) bs) (take k bs)"
      using 2(1) [OF None refl] z by auto
    moreover have "same_but_text b b" by (simp add: same_but_text_def)
    ultimately have "\<exists>k. list_all2 same_but_text
        (b # (if MAX_TOOL_RESULT_CHARS \<le> used + block_size b then [] else sanitize_loop env (used + block_size b) bs)) (take k (b # bs))"
      using s by blast
    then show ?thesis using None by (simp add: Let_def)
  next
    case (Some t)
    let ?c = "compact_tool_result_text env t (MAX_TOOL_RESULT_CHARS - used)"
    have "\<exists>k. list_all2 same_but_text
        (if MAX_TOOL_RESULT_CHARS \<le> used + length ?c then [] else sanitize_loop env (used + length ?c) bs) (take k bs)"
      if "MAX_TOOL_RESULT_CHARS - used \<noteq> 0"
      using 2(2) [OF Some that refl refl] z by auto
    moreover have "same_but_text (with_text ?c b) b" by (auto simp: same_but_text_def)
    ultimately have "\<exists>k. list_all2 same_but_text (with_text ?c b
        # (if MAX_TOOL_RESULT_CHARS \<le> used + length ?c then [] else sanitize_loop env (used + length ?c) bs)) (take k (b # bs))"
      if "MAX_TOOL_RESULT_CHARS - used \<noteq> 0" using s that by blast
    moreover have "sanitize_loop env used (b # bs) = []" if "MAX_TOOL_RESULT_CHARS - used = 0"
      using that Some by simp
    moreover have "sanitize_loop env used (b # bs) = with_text ?c b
        # (if MAX_TOOL_RESULT_CHARS \<le> used + length ?c then [] else sanitize_loop env (used + length ?c) bs)"
      if "MAX_TOOL_RESULT_CHARS - used \<noteq> 0"
      using that Some by (simp add: Let_def)
    ultimately show ?thesis using z(2) by metis
  qed
qed simp


section \<open>Parts\<close>

lemma set_trim_start_ws: "set (trim_start_ws ws s) \<subseteq> set s"
proof (induction ws s rule: trim_start_ws.induct)
  case (1 ws s)
  show ?case
  proof (cases "find (\<lambda>w. w \<noteq> [] \<and> starts_with s w) ws")
    case None
    then show ?thesis by (simp add: trim_start_ws.simps [of ws s])
  next
    case (Some w)
    then have "trim_start_ws ws s = trim_start_ws ws (drop (length w) s)" by (simp add: trim_start_ws.simps [of ws s])
    then show ?thesis using 1 [OF Some] set_drop_subset [of "length w" s] by auto
  qed
qed

lemma set_trim: "set (trim s) \<subseteq> set s"
  using set_trim_start_ws [of "map rev whitespaces" "rev (trim_start s)"] set_trim_start_ws [of whitespaces s]
  by (auto simp: trim_def trim_end_def trim_start_def)

lemma ascii_boundary: "is_ascii s \<Longrightarrow> i \<le> length s \<Longrightarrow> is_char_boundary s i"
  using nth_mem [of i s] by (auto simp: is_char_boundary_def is_ascii_def is_continuation_def not_le)

lemma ascii_detects: "is_ascii d \<Longrightarrow> \<exists>m. detect_image_mime env d declared = Inr m"
proof -
  assume "is_ascii d"
  then have a: "is_ascii (trim d)" using set_trim [of d] by (auto simp: is_ascii_def)
  have "min (length (trim d)) 24 - min (length (trim d)) 24 mod 4 \<le> length (trim d)" by simp
  then show ?thesis using ascii_boundary [OF a] by (auto simp: detect_image_mime_def Let_def split: option.split)
qed

text \<open>The base64 data of the images of a list of blocks is ASCII.\<close>

definition ascii_image :: "json \<Rightarrow> bool" where
  "ascii_image b \<longleftrightarrow> (\<forall>d. Option.bind (jget ''source'' b) (str_field ''data'') = Some d \<longrightarrow> is_ascii d)"

definition image_part :: "json \<Rightarrow> bool" where
  "image_part p \<longleftrightarrow> (\<exists>d m. p = JObj [(''inlineData'', JObj [(''data'', JStr d), (''mimeType'', JStr m)])])"

lemma block_content_ok:
  assumes "ascii_image b"
  shows "\<exists>t imgs. block_content env b = Inr (t, imgs) \<and> list_all image_part imgs"
proof -
  have "\<exists>m. detect_image_mime env d x = Inr m" if "jget ''source'' b = Some src" "str_field ''data'' src = Some d" for src d x
    using assms that by (intro ascii_detects) (simp add: ascii_image_def)
  note m = this
  show ?thesis
  proof (cases "jget ''source'' b")
    case (Some src)
    show ?thesis
    proof (cases "str_field ''data'' src")
      case None
      with Some show ?thesis by (simp add: block_content_def)
    next
      case (Some d)
      from m [OF \<open>jget ''source'' b = Some src\<close> Some] obtain x where
        "detect_image_mime env d (case str_field ''media_type'' src of Some m \<Rightarrow> m | None \<Rightarrow> ''image/png'') = Inr x" by blast
      with Some \<open>jget ''source'' b = Some src\<close> show ?thesis by (simp add: block_content_def image_part_def)
    qed
  qed (simp add: block_content_def)
qed

lemma collect_content_ok:
  assumes "list_all ascii_image bs"
  shows "\<exists>ts imgs. collect_content env bs = Inr (ts, imgs) \<and> list_all image_part imgs"
  using assms
proof (induction bs)
  case (Cons b bs)
  obtain t i where "block_content env b = Inr (t, i)" "list_all image_part i"
    using block_content_ok [of b env] Cons(2) by auto
  moreover obtain ts j where "collect_content env bs = Inr (ts, j)" "list_all image_part j" using Cons by auto
  ultimately show ?case by simp
qed simp

lemma ascii_with_text: "ascii_image (with_text t b) = ascii_image b"
  by (cases b) (simp_all add: ascii_image_def with_text_def jget_def)

lemma sanitize_ascii: "list_all ascii_image bs \<Longrightarrow> list_all ascii_image (sanitize_tool_result_blocks env bs)"
proof -
  assume a: "list_all ascii_image bs"
  obtain k where k: "list_all2 same_but_text (sanitize_tool_result_blocks env bs) (take k bs)"
    using sanitize_prefix unfolding sanitize_tool_result_blocks_def by blast
  have "list_all ascii_image ys \<Longrightarrow> list_all2 same_but_text xs ys \<Longrightarrow> list_all ascii_image xs" for xs ys
    by (induction xs ys rule: list_induct2') (auto simp: same_but_text_def ascii_with_text)
  moreover have "list_all ascii_image (take k bs)" using a by (auto simp: list_all_iff dest: in_set_takeD)
  ultimately show ?thesis using k by blast
qed

definition content_blocks :: "json \<Rightarrow> json list" where
  "content_blocks v = (case v of JArr a \<Rightarrow> a | _ \<Rightarrow> [])"

lemma extract_ok:
  assumes "list_all ascii_image (content_blocks c)"
  shows "\<exists>t imgs. extract_content_and_images env c original = Inr (t, imgs) \<and> list_all image_part imgs"
  using assms collect_content_ok [of "content_blocks c" env]
  by (cases c) (auto simp: extract_content_and_images_def content_blocks_def)

lemma suffix_chars: "length (chars truncated_suffix) = 22"
  unfolding truncated_suffix_def by code_simp

lemma truncated_chars: "length (chars (truncate_if_needed s)) \<le> MAX_TOOL_RESULT_CHARS"
proof -
  have "chars (concat (take n (chars s)) @ truncated_suffix) = take n (chars s) @ chars truncated_suffix" for n
    by (subst chars_append) (simp_all add: chars_take, simp add: truncated_suffix_def is_continuation_def)
  then show ?thesis by (simp add: truncate_if_needed_def suffix_chars MAX_TOOL_RESULT_CHARS_def)
qed

lemma defaults_short:
  "trim ''Tool execution failed with no output.'' \<noteq> [] \<and> trim ''Command executed successfully.'' \<noteq> []"
  "length (chars ''Tool execution failed with no output.'') \<le> MAX_TOOL_RESULT_CHARS"
  "length (chars ''Command executed successfully.'') \<le> MAX_TOOL_RESULT_CHARS"
proof -
  show "trim ''Tool execution failed with no output.'' \<noteq> [] \<and> trim ''Command executed successfully.'' \<noteq> []"
    by (simp add: trim_plain plain_char_def)
  have short: "length (chars s) \<le> MAX_TOOL_RESULT_CHARS" if "length s \<le> 100" for s
    using that length_chars_le [of s] unfolding MAX_TOOL_RESULT_CHARS_def by linarith
  show "length (chars ''Tool execution failed with no output.'') \<le> MAX_TOOL_RESULT_CHARS"
    "length (chars ''Command executed successfully.'') \<le> MAX_TOOL_RESULT_CHARS" by (rule short, simp)+
qed

lemma result_text_ok:
  assumes "length (chars s) \<le> MAX_TOOL_RESULT_CHARS"
  shows "trim (ensure_non_empty s e) \<noteq> [] \<and> length (chars (ensure_non_empty s e)) \<le> MAX_TOOL_RESULT_CHARS"
proof -
  consider "ensure_non_empty s e = ''Tool execution failed with no output.''"
    | "ensure_non_empty s e = ''Command executed successfully.''" | "ensure_non_empty s e = s" "trim s \<noteq> []"
    unfolding ensure_non_empty_def by argo
  then show ?thesis
  proof cases
    case 1
    show ?thesis unfolding 1 using defaults_short by blast
  next
    case 2
    show ?thesis unfolding 2 using defaults_short by blast
  next
    case 3
    show ?thesis unfolding 3(1) using assms 3(2) by blast
  qed
qed

section \<open>Properties\<close>

text \<open>
  Claim C39: the texts of the blocks of a tool result together have at most 200000 bytes and the notice of one
  truncation (42 bytes), the blocks are the first ones of the input, and nothing but their text has changed.
\<close>

theorem sanitized_results_bounded:
  assumes "regexes_shorten env" and "\<And>b t. b \<in> set bs \<Longrightarrow> json_text b = Some t \<Longrightarrow> length t < 2 ^ 64"
  shows "text_bytes (sanitize_tool_result_blocks env bs) \<le> MAX_TOOL_RESULT_CHARS + slack
    \<and> (\<exists>k. list_all2 same_but_text (sanitize_tool_result_blocks env bs) (take k bs))"
  using sanitize_bytes [OF assms, where used = 0] sanitize_prefix by (simp add: sanitize_tool_result_blocks_def)

definition demo_compress :: compress_env where
  "demo_compress = \<lparr>ce_style = id, ce_script = id, ce_base64 = id, ce_blank_lines = id,
     ce_saved_output = (\<lambda>_. None), ce_decode = (\<lambda>_. None), ce_to_string = (\<lambda>_. ''{}'')\<rparr>"

lemma sanitized_results_bounded_witness:
  "text_bytes (sanitize_tool_result_blocks demo_compress [JObj [(''text'', JStr ''a'')], JNull]) \<le> 200042"
proof -
  have "regexes_shorten demo_compress" by (simp add: regexes_shorten_def demo_compress_def deep_clean_html_def)
  moreover have "length t < 2 ^ 64" if "b \<in> set [JObj [(''text'', JStr ''a'')], JNull]" "json_text b = Some t" for b t
    using that by (auto simp: json_text_def jget_def as_str_def)
  ultimately show ?thesis
    using sanitized_results_bounded [of demo_compress "[JObj [(''text'', JStr ''a'')], JNull]"]
    unfolding MAX_TOOL_RESULT_CHARS_def slack_def by auto
qed

text \<open>
  Note: if the data of its images is ASCII, as base64 is, a tool result becomes a function response for its
  call, with the name and the signature it was given and a text that is not blank and has at most 200000
  characters, followed by image parts only.
\<close>

theorem tool_result_built:
  assumes "list_all ascii_image (content_blocks content)"
  shows "\<exists>r imgs. build_tool_result_part env tid content err name sig
      = Inr (JObj ((''functionResponse'', function_response tid name r)
                   # (case sig of Some s \<Rightarrow> [(''thoughtSignature'', JStr s)] | None \<Rightarrow> [])) # imgs)
    \<and> trim r \<noteq> [] \<and> length (chars r) \<le> MAX_TOOL_RESULT_CHARS \<and> list_all image_part imgs"
proof -
  let ?c = "case content of JArr a \<Rightarrow> JArr (sanitize_tool_result_blocks env a) | _ \<Rightarrow> content"
  have "list_all ascii_image (content_blocks ?c)"
    using assms sanitize_ascii by (cases content) (auto simp: content_blocks_def)
  from extract_ok [OF this, of env content] obtain t imgs where
    e: "extract_content_and_images env ?c content = Inr (t, imgs)" "list_all image_part imgs" by blast
  then show ?thesis using result_text_ok [OF truncated_chars [of t], of err]
    by (simp add: build_tool_result_part_def) blast
qed

definition demo_result :: json where
  "demo_result = JArr [JObj [(''source'', JObj [(''data'', JStr ''/9j/''), (''type'', JStr ''base64'')]), (''type'', JStr ''image'')]]"

lemma tool_result_built_witness:
  "\<exists>r imgs. build_tool_result_part demo_compress ''t1'' demo_result None ''shot'' None
      = Inr (JObj [(''functionResponse'', function_response ''t1'' ''shot'' r)] # imgs)"
proof -
  have "list_all ascii_image (content_blocks demo_result)"
    by (simp add: demo_result_def content_blocks_def ascii_image_def jget_def str_field_def as_str_def is_ascii_def)
  from tool_result_built [OF this, of demo_compress "''t1''" None "''shot''" None] show ?thesis by auto
qed

text \<open>
  Note: the data of an image is cut at byte 24 without a look at character boundaries: data that has a
  two-byte character there makes the conversion of the request panic.
\<close>

theorem image_data_panics:
  "build_tool_result_part env tid
     (JArr [JObj [(''source'', JObj [(''data'', JStr (replicate 23 (CHR ''A'') @ [byte 195, byte 169] @ ''AAA'')), (''type'', JStr ''base64'')]),
                  (''type'', JStr ''image'')]]) err name sig = Inl SliceRange"
proof -
  let ?d = "replicate 23 (CHR ''A'') @ [byte 195, byte 169] @ ''AAA''"
  have "trim ?d = ?d" by (rule trim_plain) (simp_all add: plain_char_def)
  moreover have "\<not> is_char_boundary ?d 24" by (simp add: is_char_boundary_def is_continuation_def byte_def nth_append)
  ultimately have "detect_image_mime env ?d m = Inl SliceRange" for m by (simp add: detect_image_mime_def)
  then show ?thesis
    by (simp add: build_tool_result_part_def sanitize_tool_result_blocks_def extract_content_and_images_def
        block_content_def block_type_is_def jget_def as_str_def str_field_def json_text_def Let_def)
qed

text \<open>
  Note: contrary to what the sanitizer announces, an image is never removed, whatever its size.
\<close>

theorem images_are_kept:
  "json_text b = None \<Longrightarrow> sanitize_tool_result_blocks env [b] = [b]"
  by (simp add: sanitize_tool_result_blocks_def Let_def)

text \<open>
  Note: the position a text is cut at may still be inside a tag, if two tags are open there.
\<close>

theorem truncation_inside_tag:
  "truncate_text_safe ''<a <b xxxxxxxxxxxxxx'' 10 = ''<a '' @ CHR 0x0A # ''...[truncated 17 chars]''"
  by code_simp

end
