(* ===== verification/Context_Manager.thy ===== *)
theory Context_Manager
  imports Message_History
begin

text \<open>
  Keeping a conversation within the window of the model, \<open>mappers/context_manager\<close>: estimates of tokens
  (\<open>estimation.rs\<close>), rounds of tool calls (\<open>tool_rounds.rs\<close>), and the ways to shorten a history
  (\<open>mod.rs\<close>). The printing of tools and inputs is \<open>serde_json\<close>'s and a parameter; \<open>u32\<close> sums wrap, as
  in a release build.
\<close>

section \<open>Estimates\<close>

definition f32_ceil :: "rat \<Rightarrow> u32" where
  "f32_ceil x = trunc_to (fceil x)"

definition estimate_tokens_from_str :: "string \<Rightarrow> u32" where
  "estimate_tokens_from_str s =
     (if s = [] then 0
      else
        let ascii_chars = of_nat (length (filter is_ascii (chars s))) :: u32;
            unicode_chars = of_nat (length (filter (\<lambda>c. \<not> is_ascii c) (chars s))) :: u32;
            ascii_tokens = f32_ceil (rnd32 (f32_of ascii_chars / 4));
            unicode_tokens = f32_ceil (rnd32 (f32_of unicode_chars / rnd32 (3 / 2)))
        in f32_ceil (rnd32 (f32_of (ascii_tokens + unicode_tokens) * rnd32 (23 / 20))))"

definition estimate_texts :: "string list \<Rightarrow> u32" where
  "estimate_texts ts = sum_list (map estimate_tokens_from_str ts)"

text \<open>What a tool result counts; the printer is the first argument.\<close>

definition estimate_result :: "(json \<Rightarrow> string) \<Rightarrow> json \<Rightarrow> u32" where
  "estimate_result print content =
     (case content of
        JStr s \<Rightarrow> estimate_tokens_from_str s
      | JArr items \<Rightarrow> estimate_texts (List.map_filter (\<lambda>item. Option.bind (jget ''text'' item) as_str) items)
      | _ \<Rightarrow> estimate_tokens_from_str (print content))"

fun estimate_block :: "(json \<Rightarrow> string) \<Rightarrow> content_block \<Rightarrow> u32" where
  "estimate_block print (CText t) = estimate_tokens_from_str t"
| "estimate_block print (CThinking t _ _) = estimate_tokens_from_str t + 100"
| "estimate_block print (CRedactedThinking d) = estimate_tokens_from_str d"
| "estimate_block print (CToolUse _ n v _ _) = 20 + estimate_tokens_from_str n + estimate_tokens_from_str (print v)"
| "estimate_block print (CToolResult _ v _) = 10 + estimate_result print v"
| "estimate_block print _ = 0"

definition estimate_message :: "(json \<Rightarrow> string) \<Rightarrow> claude_message \<Rightarrow> u32" where
  "estimate_message print m =
     4 + (case cm_content m of
            MString s \<Rightarrow> estimate_tokens_from_str s
          | MArray blocks \<Rightarrow> sum_list (map (estimate_block print) blocks))"

definition estimate_token_usage :: "(json \<Rightarrow> string) \<Rightarrow> (claude_tool \<Rightarrow> string) \<Rightarrow> claude_request \<Rightarrow> u32" where
  "estimate_token_usage print print_tool r =
     (case rq_system r of
        None \<Rightarrow> 0
      | Some (SString s) \<Rightarrow> estimate_tokens_from_str s
      | Some (SArray blocks) \<Rightarrow> estimate_texts (map snd blocks))
     + sum_list (map (estimate_message print) (rq_messages r))
     + (case rq_tools r of None \<Rightarrow> 0 | Some ts \<Rightarrow> estimate_texts (map print_tool ts))
     + (case Option.bind (rq_thinking r) tc_budget_tokens of Some b \<Rightarrow> b | None \<Rightarrow> 0)"

section \<open>Thinking blocks\<close>

datatype purification_strategy = Soft | Aggressive

definition protected_last_n :: "purification_strategy \<Rightarrow> nat" where
  "protected_last_n s = (case s of Soft \<Rightarrow> 4 | Aggressive \<Rightarrow> 0)"

text \<open>A change of the assistant's blocks in all messages but the last \<open>n\<close>\<close>

definition in_unprotected :: "nat \<Rightarrow> (content_block list \<Rightarrow> content_block list) \<Rightarrow> claude_message list \<Rightarrow> claude_message list" where
  "in_unprotected n f messages =
     (let start_protection_idx = length messages - n
      in map (\<lambda>m. if cm_role m = ''assistant'' then on_blocks f m else m) (take start_protection_idx messages)
         @ drop start_protection_idx messages)"

fun is_plain_thinking :: "content_block \<Rightarrow> bool" where
  "is_plain_thinking (CThinking _ _ _) = True"
| "is_plain_thinking _ = False"

definition strip_thinking_blocks :: "nat \<Rightarrow> claude_message list \<Rightarrow> claude_message list \<times> bool" where
  "strip_thinking_blocks n messages =
     (let stripped = in_unprotected n (filter (\<lambda>b. \<not> is_plain_thinking b)) messages in (stripped, stripped \<noteq> messages))"

definition purify_history :: "purification_strategy \<Rightarrow> claude_message list \<Rightarrow> claude_message list \<times> bool" where
  "purify_history strategy messages = strip_thinking_blocks (protected_last_n strategy) messages"

fun compress_block :: "content_block \<Rightarrow> content_block" where
  "compress_block (CThinking t s c) = (if s \<noteq> None \<and> 10 < length t then CThinking ''...'' s c else CThinking t s c)"
| "compress_block b = b"

definition compress_thinking_preserve_signature :: "nat \<Rightarrow> claude_message list \<Rightarrow> claude_message list \<times> bool" where
  "compress_thinking_preserve_signature n messages =
     (let compressed = in_unprotected n (map compress_block) messages in (compressed, compressed \<noteq> messages))"

definition signature_of :: "content_block \<Rightarrow> string option" where
  "signature_of b = (case b of CThinking _ (Some s) _ \<Rightarrow> if 50 \<le> length s then Some s else None | _ \<Rightarrow> None)"

text \<open>The last message that has one, but in it the first block\<close>

definition extract_last_valid_signature :: "claude_message list \<Rightarrow> string option" where
  "extract_last_valid_signature messages =
     first_of (List.map_filter signature_of (concat
       (map (\<lambda>m. if cm_role m = ''assistant'' then blocks_of m else []) (rev messages))))"

section \<open>Rounds of tool calls\<close>

record tool_round =
  assistant_index :: nat
  tool_result_indices :: "nat list"
  indices :: "nat list"

definition has_tool_use :: "claude_message \<Rightarrow> bool" where
  "has_tool_use m = list_ex is_tool_use (blocks_of m)"

definition has_tool_result :: "claude_message \<Rightarrow> bool" where
  "has_tool_result m = list_ex is_tool_result (blocks_of m)"

definition closed_round :: "tool_round option \<Rightarrow> tool_round list" where
  "closed_round r = (case r of Some r \<Rightarrow> [r] | None \<Rightarrow> [])"

text \<open>The loop over the messages from index \<open>i\<close> on, with the round that is open\<close>

fun rounds_from :: "nat \<Rightarrow> tool_round option \<Rightarrow> claude_message list \<Rightarrow> tool_round list" where
  "rounds_from i current_round [] = closed_round current_round"
| "rounds_from i current_round (m # ms) =
     (if cm_role m = ''assistant''
      then if has_tool_use m
           then closed_round current_round
                @ rounds_from (Suc i) (Some \<lparr>assistant_index = i, tool_result_indices = [], indices = [i]\<rparr>) ms
           else rounds_from (Suc i) current_round ms
      else if cm_role m = ''user''
      then (case current_round of
              None \<Rightarrow> rounds_from (Suc i) None ms
            | Some r \<Rightarrow>
                if has_tool_result m
                then rounds_from (Suc i)
                       (Some (r\<lparr>tool_result_indices := tool_result_indices r @ [i], indices := indices r @ [i]\<rparr>)) ms
                else r # rounds_from (Suc i) None ms)
      else rounds_from (Suc i) current_round ms)"



section \<open>Trimming removes the first rounds\<close>


definition open_indices :: "tool_round option \<Rightarrow> nat set" where
  "open_indices cur = (case cur of Some r \<Rightarrow> set (indices r) | None \<Rightarrow> {})"

lemma rounds_indices: "\<Union> (set ` indices ` set (rounds_from i cur ms)) \<subseteq> {i..} \<union> open_indices cur"
proof (induction ms arbitrary: i cur)
  case (Cons m ms)
  have step: "\<Union> (set ` indices ` set (rounds_from (Suc i) c ms)) \<subseteq> {i..} \<union> open_indices cur"
    if "open_indices c \<subseteq> insert i (open_indices cur)" for c
    using Cons [of "Suc i" c] that by fastforce
  let ?new = "Some \<lparr>assistant_index = i, tool_result_indices = [], indices = [i]\<rparr>"
  have n: "\<Union> (set ` indices ` set (rounds_from (Suc i) None ms)) \<subseteq> {i..} \<union> open_indices cur"
    by (rule step) (simp add: open_indices_def)
  have c: "\<Union> (set ` indices ` set (rounds_from (Suc i) cur ms)) \<subseteq> {i..} \<union> open_indices cur"
    by (rule step) blast
  have w: "\<Union> (set ` indices ` set (rounds_from (Suc i) ?new ms)) \<subseteq> {i..} \<union> open_indices cur"
    by (rule step) (simp add: open_indices_def)
  show ?case
  proof (cases cur)
    case None
    show ?thesis using n w None by (simp add: closed_round_def)
  next
    case (Some r)
    have "\<Union> (set ` indices ` set (rounds_from (Suc i)
           (Some (r\<lparr>tool_result_indices := tool_result_indices r @ [i], indices := indices r @ [i]\<rparr>)) ms))
       \<subseteq> {i..} \<union> open_indices cur"
      by (rule step) (auto simp: open_indices_def Some)
    moreover have "set (indices r) \<subseteq> {i..} \<union> open_indices cur" using Some by (auto simp: open_indices_def)
    ultimately show ?thesis using n c w Some by (simp add: closed_round_def)
  qed
qed (auto simp: closed_round_def open_indices_def split: option.splits)


lemma rounds_open_rest: "\<Union> (set ` indices ` set (tl (rounds_from i (Some r) ms))) \<subseteq> {i..}"
proof (induction ms arbitrary: i r)
  case (Cons m ms)
  have s: "\<Union> (set ` indices ` set (tl (rounds_from (Suc i) (Some r) ms))) \<subseteq> {i..}" for r
    using Cons [of "Suc i" r] by fastforce
  have n: "\<Union> (set ` indices ` set (rounds_from (Suc i) None ms)) \<subseteq> {i..}"
    "\<Union> (set ` indices ` set (rounds_from (Suc i) (Some \<lparr>assistant_index = i, tool_result_indices = [], indices = [i]\<rparr>) ms)) \<subseteq> {i..}"
    using rounds_indices [of "Suc i" None ms]
      rounds_indices [of "Suc i" "Some \<lparr>assistant_index = i, tool_result_indices = [], indices = [i]\<rparr>" ms]
    by (fastforce simp: open_indices_def)+
  show ?case using s n by (simp add: closed_round_def)
qed (simp add: closed_round_def)











section \<open>What trimming keeps\<close>











definition without_rounds_below :: "nat \<Rightarrow> nat option list \<Rightarrow> 'a list \<Rightarrow> 'a list" where
  "without_rounds_below b labels ms =
     map fst (filter (\<lambda>(m, l). l = None \<or> b \<le> the l) (zip ms labels))"

lemma without_rounds_simps [simp]:
  "without_rounds_below b [] ms = []" "without_rounds_below b labels [] = []"
  "without_rounds_below b (l # labels) (m # ms) =
     (if l = None \<or> b \<le> the l then m # without_rounds_below b labels ms
      else without_rounds_below b labels ms)"
  by (simp_all add: without_rounds_below_def)




section \<open>Thinking blocks\<close>

lemma in_unprotected_idem:
  assumes "\<And>bs. f (f bs) = f bs"
  shows "in_unprotected n f (in_unprotected n f ms) = in_unprotected n f ms"
proof -
  have o: "on_blocks f (on_blocks f m) = on_blocks f m" for m
    using assms by (simp add: on_blocks_def split: message_content.split)
  have ro: "cm_role (on_blocks f m) = cm_role m" for m by (simp add: on_blocks_def split: message_content.split)
  define g where "g m = (if cm_role m = ''assistant'' then on_blocks f m else m)" for m
  have gg: "g (g m) = g m" for m by (simp add: g_def o ro)
  show ?thesis
    unfolding in_unprotected_def Let_def g_def [symmetric] by (simp add: gg o_def)
qed

lemma compress_idem: "compress_block (compress_block b) = compress_block b"
  by (cases b) auto

text \<open>The signatures of a block list, and the answers a reader sees\<close>

definition signatures :: "claude_message \<Rightarrow> string option list" where
  "signatures m = map (\<lambda>b. case b of CThinking _ s _ \<Rightarrow> s | _ \<Rightarrow> None) (blocks_of m)"

lemma in_unprotected_map:
  assumes "\<And>m. q (on_blocks f m) = q m"
  shows "map q (in_unprotected n f ms) = map q ms"
proof -
  have "map q (map (\<lambda>m. if cm_role m = ''assistant'' then on_blocks f m else m) xs) = map q xs" for xs
    using assms by (induction xs) auto
  then show ?thesis
    unfolding in_unprotected_def Let_def map_append by (simp only: map_append [symmetric] append_take_drop_id)
qed


section \<open>Properties\<close>




text \<open>
  Note: purifying or compressing a history is done after one pass, leaves the protected last messages as they
  are, keeps the number and the roles of the messages, and compressing keeps every signature.
\<close>

theorem shortening_settles:
  "fst (purify_history s (fst (purify_history s ms))) = fst (purify_history s ms)
   \<and> fst (compress_thinking_preserve_signature n (fst (compress_thinking_preserve_signature n ms)))
     = fst (compress_thinking_preserve_signature n ms)
   \<and> drop (length ms - protected_last_n s) (fst (purify_history s ms)) = drop (length ms - protected_last_n s) ms
   \<and> drop (length ms - n) (fst (compress_thinking_preserve_signature n ms)) = drop (length ms - n) ms
   \<and> map cm_role (fst (purify_history s ms)) = map cm_role ms
   \<and> map signatures (fst (compress_thinking_preserve_signature n ms)) = map signatures ms"
proof -
  have d: "drop (length ms - k) (in_unprotected k f ms) = drop (length ms - k) ms" for k f
    by (simp add: in_unprotected_def Let_def)
  have "signatures (on_blocks (map compress_block) m) = signatures m" for m
  proof -
    have "(case compress_block b of CThinking _ s _ \<Rightarrow> s | _ \<Rightarrow> None) = (case b of CThinking _ s _ \<Rightarrow> s | _ \<Rightarrow> None)" for b
      by (cases b) auto
    then show ?thesis by (simp add: signatures_def on_blocks_def blocks_of_def o_def split: message_content.split)
  qed
  moreover have "cm_role (on_blocks f m) = cm_role m" for f m by (simp add: on_blocks_def split: message_content.split)
  moreover have "map compress_block (map compress_block bs) = map compress_block bs" for bs by (simp add: compress_idem)
  ultimately show ?thesis
    by (simp add: purify_history_def strip_thinking_blocks_def compress_thinking_preserve_signature_def Let_def d
        in_unprotected_idem in_unprotected_map del: map_map)
qed

end
