(* ===== verification/Request_Config.thy ===== *)
theory Request_Config
  imports Claude_Types Json_Schema Argument_Types
begin

text \<open>
  The parts of an upstream request beside its contents: generation configuration
  (\<open>mappers/claude/request/generation_config.rs\<close> with \<open>common/thinking_config.rs\<close>), system instruction
  (\<open>system_instruction.rs\<close>), tools (\<open>tools_builder.rs\<close>), safety settings (\<open>safety.rs\<close>) and the request
  configuration shared by all protocols (\<open>mappers/request_config\<close>). Logging is left out.
\<close>

definition json_nat :: "nat \<Rightarrow> json" where
  "json_nat n = json_i64 (int n)"

section \<open>The budget for thinking\<close>

datatype thinking_budget_mode = Auto | Passthrough | Custom | Adaptive

record thinking_budget_config =
  tb_mode :: thinking_budget_mode
  tb_custom_value :: u32
  tb_effort :: "string option"

definition default_thinking_budget_config :: thinking_budget_config where
  "default_thinking_budget_config = \<lparr>tb_mode = Adaptive, tb_custom_value = 24576, tb_effort = None\<rparr>"

text \<open>The configuration that is shared by all requests, once it has been set\<close>

definition get_thinking_budget_config :: "thinking_budget_config option \<Rightarrow> thinking_budget_config" where
  "get_thinking_budget_config global = (case global of Some c \<Rightarrow> c | None \<Rightarrow> default_thinking_budget_config)"

definition update_thinking_budget_config ::
  "thinking_budget_config \<Rightarrow> thinking_budget_config option \<Rightarrow> thinking_budget_config option" where
  "update_thinking_budget_config config global = Some config"

definition THINKING_BUDGET :: nat where "THINKING_BUDGET = 16000"
definition THINKING_OVERHEAD :: nat where "THINKING_OVERHEAD = 32768"

definition default_budget :: "thinking_budget_config \<Rightarrow> nat" where
  "default_budget tb = (case tb_mode tb of Custom \<Rightarrow> unat (tb_custom_value tb) | _ \<Rightarrow> THINKING_BUDGET)"

definition client_budget :: "thinking_budget_config \<Rightarrow> bool \<Rightarrow> nat \<Rightarrow> nat" where
  "client_budget tb is_flash_model b =
     (case tb_mode tb of
        Passthrough \<Rightarrow> b
      | Custom \<Rightarrow> unat (tb_custom_value tb)
      | _ \<Rightarrow> if is_flash_model then min b 24576 else b)"

definition thinking_config_of :: "thinking_budget_config \<Rightarrow> claude_request \<Rightarrow> bool \<Rightarrow> jmap" where
  "thinking_config_of tb req has_web_search =
     (let shown = [(''includeThoughts'', JBool True)]
      in case rq_thinking req of
           Some thinking \<Rightarrow>
             let budget = (case tc_budget_tokens thinking of
                             Some b \<Rightarrow> client_budget tb (has_web_search \<or> contains (to_lowercase (rq_model req)) ''flash'') (unat b)
                           | None \<Rightarrow> default_budget tb)
             in if 0 < budget then shown @ [(''thinkingBudget'', json_nat budget)] else shown
         | None \<Rightarrow> shown @ [(''thinkingBudget'', json_nat (default_budget tb))])"

section \<open>Generation configuration\<close>

definition opt_field :: "string \<Rightarrow> ('a \<Rightarrow> json) \<Rightarrow> 'a option \<Rightarrow> jmap" where
  "opt_field k f x = (case x of Some v \<Rightarrow> [(k, f v)] | None \<Rightarrow> [])"

definition max_tokens_of :: "u32 option \<Rightarrow> nat option \<Rightarrow> nat option" where
  "max_tokens_of requested budget =
     (let final_max_tokens = map_option unat requested
      in case budget of
           Some b \<Rightarrow>
             if (case final_max_tokens of Some n \<Rightarrow> n | None \<Rightarrow> 0) \<le> b then Some (b + THINKING_OVERHEAD) else final_max_tokens
         | None \<Rightarrow> final_max_tokens)"

definition capped :: "string \<Rightarrow> nat \<Rightarrow> nat" where
  "capped mapped_model max_tokens =
     (if starts_with (to_lowercase mapped_model) ''claude-'' \<and> 64000 < max_tokens then 64000 else max_tokens)"

definition thinking_level :: "string \<Rightarrow> bool \<Rightarrow> string" where
  "thinking_level effort is_pro =
     (if effort = ''high'' then ''high''
      else if effort = ''medium'' then (if is_pro then ''low'' else ''medium'')
      else if effort = ''low'' then ''low''
      else if is_pro then ''low'' else ''medium'')"

definition effort_budget :: "string \<Rightarrow> int" where
  "effort_budget effort = (if effort = ''high'' then -1 else if effort = ''medium'' then 2048 else if effort = ''low'' then 512 else 2048)"

text \<open>\<open>to_ascii_lowercase\<close>, and the thinking configuration changed for the effort\<close>

definition to_ascii_lowercase :: "string \<Rightarrow> string" where
  "to_ascii_lowercase s = map ascii_lower s"

definition with_effort :: "string \<Rightarrow> string \<Rightarrow> jmap \<Rightarrow> jmap" where
  "with_effort effort mapped_model tc =
     (let effort_lower = to_ascii_lowercase effort
      in if starts_with mapped_model ''claude-'' then tc
         else if starts_with mapped_model ''gemini-3''
         then tput ''thinkingLevel'' (JStr (thinking_level effort_lower (contains mapped_model ''pro''))) (tdel ''thinkingBudget'' tc)
         else if starts_with mapped_model ''gemini-2'' then tput ''thinkingBudget'' (json_i64 (effort_budget effort_lower)) tc
         else tc)"

definition default_stops :: "string list" where
  "default_stops = [''<|user|>'', ''<|end_of_turn|>'', CHR 0x0A # CHR 0x0A # ''Human:'']"

definition stop_sequences :: "string list option \<Rightarrow> string list" where
  "stop_sequences client_stops =
     take 5 (fold (\<lambda>s seqs. if s \<in> set seqs then seqs else seqs @ [s])
               (default_stops @ (case client_stops of Some ss \<Rightarrow> ss | None \<Rightarrow> [])) [])"

definition build_generation_config :: "thinking_budget_config \<Rightarrow> claude_request \<Rightarrow> bool \<Rightarrow> bool \<Rightarrow> string \<Rightarrow> json" where
  "build_generation_config tb req has_web_search is_thinking_enabled mapped_model =
     (let tc = (if is_thinking_enabled then Some (thinking_config_of tb req has_web_search) else None);
          budget = Option.bind (Option.bind tc (\<lambda>t. tget t ''thinkingBudget'')) as_u64;
          max_tokens = map_option (capped mapped_model) (max_tokens_of (rq_max_tokens req) (map_option unat budget));
          tc = (case Option.bind (rq_output_config req) id of
                  Some effort \<Rightarrow> map_option (with_effort effort mapped_model) tc | None \<Rightarrow> tc)
      in JObj (opt_field ''thinkingConfig'' JObj tc
               @ opt_field ''temperature'' (\<lambda>x. JNum (JFloat x)) (rq_temperature req)
               @ opt_field ''topP'' (\<lambda>x. JNum (JFloat x)) (rq_top_p req)
               @ opt_field ''topK'' (\<lambda>n. json_nat (unat n)) (rq_top_k req)
               @ opt_field ''maxOutputTokens'' json_nat max_tokens
               @ [(''stopSequences'', JArr (map JStr (stop_sequences (rq_stop_sequences req))))]))"

section \<open>System instruction\<close>

definition antigravity_identity :: string where
  "antigravity_identity =
     ''You are Antigravity, a powerful agentic AI coding assistant designed by the Google Deepmind team working on Advanced Agentic Coding.''
     @ CHR 0x0A # ''You are pair programming with a USER to solve their coding task. The task may require creating a new codebase, modifying or debugging an existing codebase, or simply answering a question.''
     @ CHR 0x0A # ''**Absolute paths only**'' @ CHR 0x0A # ''**Proactiveness**''"

definition mcp_xml_prompt :: string where
  "mcp_xml_prompt =
     CHR 0x0A # ''==== MCP XML Tool Call Protocol (Workaround) ====''
     @ CHR 0x0A # ''When you need to call MCP tools with `mcp__` prefix:''
     @ CHR 0x0A # ''1) Prefer XML format call: output `<mcp__tool_name>{'' @ CHR 0x22 # ''arg'' @ CHR 0x22 # '':''
     @ CHR 0x22 # ''value'' @ CHR 0x22 # ''}</mcp__tool_name>`.''
     @ CHR 0x0A # ''2) Must directly output XML block, no markdown wrap needed, content as JSON format parameters.''
     @ CHR 0x0A # ''3) This method has higher connectivity and fault tolerance, suitable for large result return scenarios.''
     @ CHR 0x0A # ''===========================================''"

text \<open>The texts of a system prompt: all of a string, the text blocks of an array\<close>

definition system_texts :: "system_prompt option \<Rightarrow> string list" where
  "system_texts system =
     (case system of
        None \<Rightarrow> []
      | Some (SString t) \<Rightarrow> [t]
      | Some (SArray blocks) \<Rightarrow> map snd (filter (\<lambda>(ty, _). ty = ''text'') blocks))"

definition text_part :: "string \<Rightarrow> json" where
  "text_part t = JObj [(''text'', JStr t)]"

text \<open>The default prompt of a client is dropped but for its custom instructions.\<close>

definition system_text_parts :: "string \<Rightarrow> json list" where
  "system_text_parts t =
     (if contains t ''You are an interactive CLI tool''
      then (case str_find t ''Instructions from:'' of Some idx \<Rightarrow> [text_part (drop idx t)] | None \<Rightarrow> [])
      else [text_part t])"

definition build_system_instruction :: "system_prompt option \<Rightarrow> bool \<Rightarrow> json" where
  "build_system_instruction system has_mcp_tools =
     (let user_has_antigravity = list_ex (\<lambda>t. contains t ''You are Antigravity'') (system_texts system)
      in JObj
           [(''parts'', JArr
              ((if user_has_antigravity then [] else [text_part antigravity_identity])
               @ concat (map system_text_parts (system_texts system))
               @ (if has_mcp_tools then [text_part mcp_xml_prompt] else [])
               @ (if user_has_antigravity then [] else [text_part (CHR 0x0A # ''--- [SYSTEM_PROMPT_END] ---'')]))),
            (''role'', JStr ''user'')])"

section \<open>Tools\<close>

definition is_search_tool :: "claude_tool \<Rightarrow> bool" where
  "is_search_tool t \<longleftrightarrow>
     is_web_search t \<or> ct_type t = Some ''web_search_20250305''
     \<or> ct_name t = Some ''web_search'' \<or> ct_name t = Some ''google_search''"

definition empty_schema :: json where
  "empty_schema = JObj [(''properties'', JObj []), (''type'', JStr ''object'')]"

text \<open>Cleaning a schema needs stack (\<open>None\<close>: it is exhausted).\<close>

definition tool_declaration :: "schema_env \<Rightarrow> nat \<Rightarrow> claude_tool \<Rightarrow> string \<Rightarrow> json option" where
  "tool_declaration env stack t n =
     map_option (\<lambda>s. JObj [(''description'', case ct_description t of Some d \<Rightarrow> JStr d | None \<Rightarrow> JNull),
                            (''name'', JStr n), (''parameters'', s)])
       (clean_json_schema env stack (case ct_input_schema t of Some s \<Rightarrow> s | None \<Rightarrow> empty_schema))"

fun declarations :: "schema_env \<Rightarrow> nat \<Rightarrow> claude_tool list \<Rightarrow> json list option" where
  "declarations env stack [] = Some []"
| "declarations env stack (t # ts) =
     (if is_search_tool t then declarations env stack ts
      else case ct_name t of
             None \<Rightarrow> declarations env stack ts
           | Some n \<Rightarrow>
               (case tool_declaration env stack t n of
                  None \<Rightarrow> None
                | Some d \<Rightarrow> map_option (\<lambda>ds. d # ds) (declarations env stack ts)))"

definition build_tools :: "schema_env \<Rightarrow> nat \<Rightarrow> claude_tool list option \<Rightarrow> bool \<Rightarrow> json option option" where
  "build_tools env stack tools has_web_search =
     (case tools of
        None \<Rightarrow> Some None
      | Some tools_list \<Rightarrow>
          map_option (\<lambda>function_declarations.
            if function_declarations \<noteq> [] then Some (JArr [JObj [(''functionDeclarations'', JArr function_declarations)]])
            else if has_web_search \<or> list_ex is_search_tool tools_list then Some (JArr [JObj [(''googleSearch'', JObj [])]])
            else None)
          (declarations env stack tools_list))"

section \<open>Safety settings\<close>

datatype safety_threshold = Off | BlockLowAndAbove | BlockMediumAndAbove | BlockOnlyHigh | BlockNone

text \<open>The argument is the environment variable, if it is set and is Unicode.\<close>

definition from_env :: "string option \<Rightarrow> safety_threshold" where
  "from_env var =
     (if var = Some ''OFF'' \<or> var = Some ''off'' then Off
      else if var = Some ''LOW'' \<or> var = Some ''low'' then BlockLowAndAbove
      else if var = Some ''MEDIUM'' \<or> var = Some ''medium'' then BlockMediumAndAbove
      else if var = Some ''HIGH'' \<or> var = Some ''high'' then BlockOnlyHigh
      else if var = Some ''NONE'' \<or> var = Some ''none'' then BlockNone
      else Off)"

definition to_gemini_threshold :: "safety_threshold \<Rightarrow> string" where
  "to_gemini_threshold t =
     (case t of
        Off \<Rightarrow> ''OFF'' | BlockLowAndAbove \<Rightarrow> ''BLOCK_LOW_AND_ABOVE'' | BlockMediumAndAbove \<Rightarrow> ''BLOCK_MEDIUM_AND_ABOVE''
      | BlockOnlyHigh \<Rightarrow> ''BLOCK_ONLY_HIGH'' | BlockNone \<Rightarrow> ''BLOCK_NONE'')"

definition build_safety_settings :: "string option \<Rightarrow> json" where
  "build_safety_settings var =
     JArr (map (\<lambda>c. JObj [(''category'', JStr c), (''threshold'', JStr (to_gemini_threshold (from_env var)))])
       [''HARM_CATEGORY_HARASSMENT'', ''HARM_CATEGORY_HATE_SPEECH'', ''HARM_CATEGORY_SEXUALLY_EXPLICIT'',
        ''HARM_CATEGORY_DANGEROUS_CONTENT''])"

section \<open>The configuration shared by all protocols\<close>

text \<open>\<open>request_config/grounding.rs\<close>\<close>

definition has_key :: "string \<Rightarrow> json \<Rightarrow> bool" where
  "has_key k v \<longleftrightarrow> jget k v \<noteq> None"

definition inject_google_search_tool :: "json \<Rightarrow> json" where
  "inject_google_search_tool body =
     (case body of
        JObj m \<Rightarrow>
          let m = tentry ''tools'' (JArr []) m
          in (case tget m ''tools'' of
                Some (JArr tools_arr) \<Rightarrow>
                  if list_ex (has_key ''functionDeclarations'') tools_arr then JObj m
                  else JObj (tput ''tools'' (JArr (filter (\<lambda>t. \<not> (has_key ''googleSearch'' t \<or> has_key ''googleSearchRetrieval'' t)) tools_arr
                                                  @ [JObj [(''googleSearch'', JObj [])]])) m)
              | _ \<Rightarrow> JObj m)
      | _ \<Rightarrow> body)"

function deep_clean_undefined :: "json \<Rightarrow> json" where
  "deep_clean_undefined (JObj m) = JObj (map (\<lambda>(k, v). (k, deep_clean_undefined v)) (filter (\<lambda>(_, v). v \<noteq> JStr ''[undefined]'') m))"
| "deep_clean_undefined (JArr a) = JArr (map deep_clean_undefined a)"
| "deep_clean_undefined JNull = JNull"
| "deep_clean_undefined (JBool b) = JBool b"
| "deep_clean_undefined (JNum n) = JNum n"
| "deep_clean_undefined (JStr s) = JStr s"
  by pat_completeness auto

termination
proof (relation "measure size")
  show "x \<in> set (filter (\<lambda>(_, v). v \<noteq> JStr ''[undefined]'') m) \<Longrightarrow> (y, v) = x \<Longrightarrow> (v, JObj m) \<in> measure size"
    for m :: "(string \<times> json) list" and x :: "string \<times> json" and y :: string and v
    using size_list_estimation' [of x m "size v" "size_prod (\<lambda>x. 0) size"] by auto
qed (auto simp: less_Suc_eq_le intro: size_list_estimation')

definition search_keywords :: "string list" where
  "search_keywords = [''web_search'', ''google_search'', ''web_search_20250305'', ''google_search_retrieval'']"

definition native_keywords :: "string list" where
  "native_keywords = [''web_search'', ''google_search'', ''google_search_retrieval'']"

definition string_at :: "string \<Rightarrow> json \<Rightarrow> string option" where
  "string_at k v = Option.bind (jget k v) as_str"

definition string_in :: "string list \<Rightarrow> string option \<Rightarrow> bool" where
  "string_in ks s = (case s of Some x \<Rightarrow> x \<in> set ks | None \<Rightarrow> False)"

definition declared :: "json \<Rightarrow> json list" where
  "declared tool = (case Option.bind (jget ''functionDeclarations'' tool) as_array of Some ds \<Rightarrow> ds | None \<Rightarrow> [])"

definition networking_tool :: "json \<Rightarrow> bool" where
  "networking_tool tool \<longleftrightarrow>
     string_in search_keywords (string_at ''name'' tool)
     \<or> string_in search_keywords (string_at ''type'' tool)
     \<or> string_in search_keywords (Option.bind (jget ''function'' tool) (string_at ''name''))
     \<or> list_ex (\<lambda>d. string_in native_keywords (string_at ''name'' d)) (declared tool)
     \<or> has_key ''googleSearch'' tool \<or> has_key ''googleSearchRetrieval'' tool"

definition detects_networking_tool :: "json list option \<Rightarrow> bool" where
  "detects_networking_tool tools = (case tools of Some ts \<Rightarrow> list_ex networking_tool ts | None \<Rightarrow> False)"

definition local_tool :: "json \<Rightarrow> bool" where
  "local_tool tool \<longleftrightarrow>
     (case string_at ''name'' tool of
        Some n \<Rightarrow> n \<notin> set search_keywords
      | None \<Rightarrow>
          (case jget ''function'' tool of
             Some func \<Rightarrow> \<not> string_in search_keywords (string_at ''name'' func)
           | None \<Rightarrow>
               if has_key ''googleSearch'' tool \<or> has_key ''googleSearchRetrieval'' tool then False
               else if has_key ''functionDeclarations'' tool
               then list_ex (\<lambda>d. case string_at ''name'' d of Some n \<Rightarrow> n \<notin> set native_keywords | None \<Rightarrow> False) (declared tool)
               else True))"

definition contains_non_networking_tool :: "json list option \<Rightarrow> bool" where
  "contains_non_networking_tool tools = (case tools of Some ts \<Rightarrow> list_ex local_tool ts | None \<Rightarrow> False)"

text \<open>
  \<open>request_config/image_config.rs\<close>. A size that is no finite number has the outcome of one without a
  ratio, since no comparison with infinity or \<open>NaN\<close> succeeds.
\<close>

definition split_once :: "char \<Rightarrow> string \<Rightarrow> (string \<times> string) option" where
  "split_once c s =
     (if c \<in> set s then Some (takeWhile (\<lambda>x. x \<noteq> c) s, drop 1 (dropWhile (\<lambda>x. x \<noteq> c) s)) else None)"

definition near :: "rat \<Rightarrow> rat \<Rightarrow> rat \<Rightarrow> bool" where
  "near ratio a b \<longleftrightarrow> \<bar>rnd64 (ratio - rnd64 (a / b))\<bar> < rnd64 (1 / 20)"

definition ratio_table :: "(string \<times> rat \<times> rat) list" where
  "ratio_table =
     [(''21:9'', 21, 9), (''16:9'', 16, 9), (''4:3'', 4, 3), (''3:4'', 3, 4), (''9:16'', 9, 16), (''3:2'', 3, 2),
      (''2:3'', 2, 3), (''5:4'', 5, 4), (''4:5'', 4, 5), (''1:1'', 1, 1)]"

definition calculate_aspect_ratio_from_size :: "string \<Rightarrow> string" where
  "calculate_aspect_ratio_from_size img_size =
     (if img_size \<in> fst ` set ratio_table then img_size
      else case split_once (CHR ''x'') img_size of
             None \<Rightarrow> ''1:1''
           | Some (w, h) \<Rightarrow>
               (case (parse_f64_finite w, parse_f64_finite h) of
                  (Some width, Some height) \<Rightarrow>
                    if 0 < width \<and> 0 < height
                    then (case List.find (\<lambda>(_, a, b). near (rnd64 (width / height)) a b) ratio_table of
                            Some (name, _) \<Rightarrow> name | None \<Rightarrow> ''1:1'')
                    else ''1:1''
                | _ \<Rightarrow> ''1:1''))"

definition ratio_suffixes :: "(string \<times> string \<times> string) list" where
  "ratio_suffixes =
     [(''-21x9'', ''-21-9'', ''21:9''), (''-16x9'', ''-16-9'', ''16:9''), (''-9x16'', ''-9-16'', ''9:16''),
      (''-4x3'', ''-4-3'', ''4:3''), (''-3x4'', ''-3-4'', ''3:4''), (''-3x2'', ''-3-2'', ''3:2''),
      (''-2x3'', ''-2-3'', ''2:3''), (''-5x4'', ''-5-4'', ''5:4''), (''-4x5'', ''-4-5'', ''4:5''),
      (''-1x1'', ''-1-1'', ''1:1'')]"

definition image_size :: "string \<Rightarrow> string option \<Rightarrow> string option" where
  "image_size model_name quality =
     (case quality of
        Some q \<Rightarrow>
          let l = to_lowercase q
          in if l = ''hd'' \<or> l = ''4k'' then Some ''4K''
             else if l = ''medium'' \<or> l = ''2k'' then Some ''2K''
             else if l = ''standard'' \<or> l = ''1k'' then Some ''1K'' else None
      | None \<Rightarrow>
          if contains model_name ''-4k'' \<or> contains model_name ''-hd'' then Some ''4K''
          else if contains model_name ''-2k'' then Some ''2K'' else None)"

definition parse_image_config_with_params :: "string \<Rightarrow> string option \<Rightarrow> string option \<Rightarrow> json \<times> string" where
  "parse_image_config_with_params model_name img_size quality =
     (let aspect_ratio =
            (case img_size of
               Some s \<Rightarrow> calculate_aspect_ratio_from_size s
             | None \<Rightarrow>
                 (case List.find (\<lambda>(a, b, _). contains model_name a \<or> contains model_name b) ratio_suffixes of
                    Some (_, _, r) \<Rightarrow> r | None \<Rightarrow> ''1:1''))
      in (JObj ((''aspectRatio'', JStr aspect_ratio) # opt_field ''imageSize'' JStr (image_size model_name quality)),
          ''gemini-3-pro-image''))"

text \<open>\<open>request_config/mod.rs\<close>\<close>

record request_config =
  rc_request_type :: string
  rc_inject_google_search :: bool
  rc_final_model :: string
  rc_image_config :: "json option"

text \<open>\<open>trim_end_matches("-online")\<close>: the suffix is removed as often as it stands there.\<close>

function trim_online :: "string \<Rightarrow> string" where
  "trim_online s = (if ends_with s ''-online'' then trim_online (take (length s - 7) s) else s)"
  by pat_completeness auto
termination by (relation "measure length") (auto simp: ends_with_iff)

declare trim_online.simps [simp del]

definition physical_model :: "string \<Rightarrow> string" where
  "physical_model m =
     (if m = ''gemini-3-pro-preview'' then ''gemini-3-pro-high''
      else if m = ''gemini-3-pro-image-preview'' then ''gemini-3-pro-image''
      else if m = ''gemini-3-flash-preview'' then ''gemini-3-flash'' else m)"

definition resolve_request_config ::
  "string \<Rightarrow> string \<Rightarrow> json list option \<Rightarrow> string option \<Rightarrow> string option \<Rightarrow> request_config" where
  "resolve_request_config original_model mapped_model tools img_size quality =
     (if starts_with mapped_model ''gemini-3-pro-image''
      then (let (image_config, parsed_base_model) = parse_image_config_with_params original_model img_size quality
            in \<lparr>rc_request_type = ''image_gen'', rc_inject_google_search = False, rc_final_model = parsed_base_model,
                rc_image_config = Some image_config\<rparr>)
      else
        let enable_networking = ends_with original_model ''-online'' \<or> detects_networking_tool tools
        in \<lparr>rc_request_type = (if enable_networking then ''web_search'' else ''agent''),
            rc_inject_google_search = enable_networking,
            rc_final_model = (if enable_networking then ''gemini-2.5-flash'' else physical_model (trim_online mapped_model)),
            rc_image_config = None\<rparr>)"

section \<open>Lemmas\<close>

lemma jget_obj: "jget k (JObj m) = tget m k"
  by (simp add: jget_def)

lemma json_nat_u64: "n < 2 ^ 64 \<Longrightarrow> as_u64 (json_nat n) = Some (of_nat n)"
  by (simp add: json_nat_def json_i64_def as_u64_def of_int_of_nat_eq)

lemma unat_small: "n < 2 ^ 64 \<Longrightarrow> unat (of_nat n :: u64) = n"
  by (simp add: unsigned_of_nat take_bit_nat_eq_self)

lemma u32_less: "unat (x :: u32) < 2 ^ 32"
  using unsigned_less [of x] by simp

lemma budget_small: "default_budget tb < 2 ^ 32" "client_budget tb f (unat (b :: u32)) < 2 ^ 32"
  using u32_less [of "tb_custom_value tb"] u32_less [of b]
  by (auto simp: default_budget_def client_budget_def THINKING_BUDGET_def split: thinking_budget_mode.split)

lemma thinking_budget_u64:
  assumes "tget (thinking_config_of tb req hw) ''thinkingBudget'' = Some v"
  shows "\<exists>n < 2 ^ 32. v = json_nat n \<and> as_u64 v = Some (of_nat n)"
proof -
  have "\<exists>n < 2 ^ 32. v = json_nat n"
    using assms budget_small [of tb]
    by (simp add: thinking_config_of_def Let_def split: option.splits if_splits) (metis, metis, metis)
  then show ?thesis using json_nat_u64 by fastforce
qed

text \<open>Reading a built configuration\<close>

definition budget_field :: "json \<Rightarrow> u64 option" where
  "budget_field c = Option.bind (Option.bind (jget ''thinkingConfig'' c) (jget ''thinkingBudget'')) as_u64"

definition max_tokens_field :: "json \<Rightarrow> u64 option" where
  "max_tokens_field c = Option.bind (jget ''maxOutputTokens'' c) as_u64"

definition is_claude :: "string \<Rightarrow> bool" where
  "is_claude m \<longleftrightarrow> starts_with (to_lowercase m) ''claude-''"

lemma tget_append: "tget (a @ b) k = (case tget a k of Some v \<Rightarrow> Some v | None \<Rightarrow> tget b k)"
  by (induction a) (auto split: option.split)

lemma tget_opt_field: "tget (opt_field k f x) j = (if j = k then map_option f x else None)"
  by (simp add: opt_field_def split: option.split)

lemma config_max_tokens:
  "jget ''maxOutputTokens'' (build_generation_config tb req hw th m) =
     map_option (json_nat \<circ> capped m)
       (max_tokens_of (rq_max_tokens req)
         (map_option unat (Option.bind (Option.bind (if th then Some (thinking_config_of tb req hw) else None)
            (\<lambda>t. tget t ''thinkingBudget'')) as_u64)))"
  by (simp add: build_generation_config_def Let_def jget_def tget_append tget_opt_field option.map_comp del: map_of_append split: option.split)

lemma config_thinking:
  "jget ''thinkingConfig'' (build_generation_config tb req hw th m) =
     (if th then Some (JObj (case Option.bind (rq_output_config req) id of
          Some e \<Rightarrow> with_effort e m (thinking_config_of tb req hw) | None \<Rightarrow> thinking_config_of tb req hw)) else None)"
  by (simp add: build_generation_config_def Let_def jget_def tget_append tget_opt_field del: map_of_append split: option.split)

lemma max_tokens_small:
  assumes "max_tokens_of r (Some b) = Some n" and "b < 2 ^ 32"
  shows "n < 2 ^ 64 \<and> b < n"
  using assms u32_less [of "the r"]
  by (auto simp: max_tokens_of_def THINKING_OVERHEAD_def split: option.splits if_splits)

lemma capped_le: "capped m n \<le> n" by (simp add: capped_def)

lemma max_tokens_bound: "max_tokens_of r b = Some n \<Longrightarrow> (case b of Some x \<Rightarrow> x < 2 ^ 32 | None \<Rightarrow> True) \<Longrightarrow> n < 2 ^ 64"
  using u32_less [of "the r"] by (auto simp: max_tokens_of_def THINKING_OVERHEAD_def split: option.splits if_splits)

definition add_new :: "string \<Rightarrow> string list \<Rightarrow> string list" where
  "add_new s seqs = (if s \<in> set seqs then seqs else seqs @ [s])"

lemma fold_add_new: "distinct acc \<Longrightarrow> distinct (fold add_new xs acc) \<and> (\<exists>ys. fold add_new xs acc = acc @ ys)"
proof (induction xs arbitrary: acc)
  case (Cons x xs)
  then have "distinct (add_new x acc)" by (simp add: add_new_def)
  from Cons(1) [OF this] show ?case by (auto simp: add_new_def)
qed simp

lemma stop_sequences_ok:
  "length (stop_sequences ss) \<le> 5 \<and> distinct (stop_sequences ss) \<and> take 3 (stop_sequences ss) = default_stops"
proof -
  define client where "client = (case ss of Some s \<Rightarrow> s | None \<Rightarrow> [])"
  have s: "stop_sequences ss = take 5 (fold add_new client (fold add_new default_stops []))"
    by (simp add: stop_sequences_def client_def add_new_def [abs_def])
  have d: "fold add_new default_stops [] = default_stops" "distinct default_stops" "length default_stops = 3"
    by (simp_all add: default_stops_def add_new_def)
  from fold_add_new [OF d(2), of client] d(3) show ?thesis unfolding s d(1) by auto
qed


section \<open>Searching and declaring\<close>

lemma declarations_none: "declarations env stack ts = Some [] \<Longrightarrow> list_all (\<lambda>t. is_search_tool t \<or> ct_name t = None) ts"
  by (induction ts) (auto split: if_splits option.splits)

definition decl_name :: "json \<Rightarrow> string option" where
  "decl_name d = string_at ''name'' d"

lemma declarations_names:
  "declarations env stack ts = Some ds \<Longrightarrow>
   map decl_name ds = filter (\<lambda>n. n \<noteq> None) (map ct_name (filter (\<lambda>t. \<not> is_search_tool t) ts))"
proof (induction ts arbitrary: ds)
  case (Cons t ts)
  then show ?case
    by (auto simp: tool_declaration_def decl_name_def string_at_def jget_def as_str_def split: if_splits option.splits)
qed simp

text \<open>Tools that mix functions and searching, which the upstream rejects\<close>

definition mixed :: "json \<Rightarrow> bool" where
  "mixed tools =
     (case tools of
        JArr ts \<Rightarrow> list_ex (has_key ''functionDeclarations'') ts \<and> list_ex (has_key ''googleSearch'') ts
      | _ \<Rightarrow> False)"

lemma build_tools_pure: "build_tools env stack tools hw = Some (Some v) \<Longrightarrow> \<not> mixed v"
  by (auto simp: build_tools_def mixed_def has_key_def jget_def split: option.splits if_splits)

lemma inject_pure:
  assumes "\<And>v. tget m ''tools'' = Some v \<Longrightarrow> \<not> mixed v" and "jget ''tools'' (inject_google_search_tool (JObj m)) = Some v"
  shows "\<not> mixed v"
proof (cases "tget m ''tools''")
  case None
  then show ?thesis using assms(2)
    by (auto simp: inject_google_search_tool_def Let_def jget_def mixed_def has_key_def)
next
  case (Some t)
  then have "\<not> mixed t" using assms(1) by simp
  with Some show ?thesis using assms(2)
    by (cases t) (auto simp: inject_google_search_tool_def Let_def jget_def mixed_def list_ex_iff has_key_def split: if_splits)
qed

section \<open>Cleaning\<close>

fun undefined_free :: "json \<Rightarrow> bool" where
  "undefined_free (JObj m) = (\<forall>(k, v)\<in>set m. v \<noteq> JStr ''[undefined]'' \<and> undefined_free v)"
| "undefined_free (JArr a) = (\<forall>v\<in>set a. undefined_free v)"
| "undefined_free _ = True"

lemma clean_undefined_free: "undefined_free (deep_clean_undefined v)"
proof (induction v)
  case (JObj m)
  have "deep_clean_undefined w \<noteq> JStr ''[undefined]''" if "w \<noteq> JStr ''[undefined]''" for w using that by (cases w) auto
  then show ?case using JObj by fastforce
qed auto

lemma clean_undefined_id: "undefined_free v \<Longrightarrow> deep_clean_undefined v = v"
proof (induction v)
  case (JArr a)
  then show ?case by (auto intro!: map_idI)
next
  case (JObj m)
  then have "w \<noteq> JStr ''[undefined]''" "undefined_free w" if "(k, w) \<in> set m" for k w
    using that by auto
  moreover have "deep_clean_undefined w = w" if "(k, w) \<in> set m" "undefined_free w" for k w
    using JObj(1) [OF that(1)] that(2) by simp
  ultimately have k: "w \<noteq> JStr ''[undefined]''" "deep_clean_undefined w = w" if "(k, w) \<in> set m" for k w
    using that by blast+
  have "filter (\<lambda>(_, v). v \<noteq> JStr ''[undefined]'') m = m" using k(1) by (auto simp: filter_id_conv)
  moreover have "map (\<lambda>(k, v). (k, deep_clean_undefined v)) m = m" using k(2) by (auto intro!: map_idI)
  ultimately show ?case by simp
qed simp_all

section \<open>Properties\<close>

text \<open>
  Note: unless the model is a Claude model or the effort is given, a thinking budget in the configuration
  comes with a limit of tokens above it; for a Claude model the limit is never above 64000.
\<close>

theorem max_tokens_exceed_budget:
  assumes "budget_field (build_generation_config tb req hw th m) = Some b"
    and "Option.bind (rq_output_config req) id = None"
  shows "\<exists>n. max_tokens_field (build_generation_config tb req hw th m) = Some n
    \<and> (if is_claude m then unat n \<le> 64000 else b < n)"
proof -
  let ?t = "thinking_config_of tb req hw"
  have th: "th" "Option.bind (tget ?t ''thinkingBudget'') as_u64 = Some b"
    using assms by (auto simp: budget_field_def config_thinking jget_obj split: if_splits)
  then obtain v where v: "tget ?t ''thinkingBudget'' = Some v" "as_u64 v = Some b" by (auto simp: bind_eq_Some_conv)
  obtain k where k: "k < 2 ^ 32" "as_u64 v = Some (of_nat k)" using thinking_budget_u64 [OF v(1)] by blast
  then have b: "unat b < 2 ^ 32" using v(2) unat_small [of k] by simp
  obtain n where n: "max_tokens_of (rq_max_tokens req) (Some (unat b)) = Some n"
    by (cases "max_tokens_of (rq_max_tokens req) (Some (unat b))")
       (auto simp: max_tokens_of_def split: if_splits option.splits)
  have "n < 2 ^ 64" "unat b < n" using max_tokens_small [OF n b] by auto
  moreover have c: "capped m n < 2 ^ 64" using capped_le [of m n] \<open>n < 2 ^ 64\<close> by linarith
  moreover have "max_tokens_field (build_generation_config tb req hw th m) = Some (of_nat (capped m n))"
    using th n v json_nat_u64 [OF c] by (simp add: max_tokens_field_def config_max_tokens)
  ultimately show ?thesis using unat_small [OF c] by (auto simp: capped_def is_claude_def word_less_nat_alt)
qed

definition demo_request :: claude_request where
  "demo_request = \<lparr>rq_model = ''m'', rq_messages = [], rq_system = None, rq_tools = None, rq_stream = False,
     rq_max_tokens = Some 1000, rq_temperature = None, rq_top_p = None, rq_top_k = None,
     rq_thinking = Some \<lparr>tc_type = ''enabled'', tc_budget_tokens = Some 500\<rparr>, rq_stop_sequences = None,
     rq_metadata = None, rq_output_config = None\<rparr>"

lemma max_tokens_exceed_budget_witness:
  "\<exists>n. max_tokens_field (build_generation_config default_thinking_budget_config demo_request False True ''gemini-3-pro'') = Some n
     \<and> (if is_claude ''gemini-3-pro'' then unat n \<le> 64000 else 500 < n)"
proof -
  have "budget_field (build_generation_config default_thinking_budget_config demo_request False True ''gemini-3-pro'') = Some 500"
    by (simp add: budget_field_def config_thinking demo_request_def jget_obj thinking_config_of_def client_budget_def
        default_thinking_budget_config_def json_nat_def json_i64_def as_u64_def)
  then show ?thesis by (rule max_tokens_exceed_budget) (simp add: demo_request_def)
qed

text \<open>
  Note: the cap for Claude models and the budgets of an effort are applied after the limit has been raised
  above the budget, so both can leave a limit that does not exceed the budget.
\<close>

theorem limit_below_budget:
  "budget_field (build_generation_config default_thinking_budget_config
     (demo_request\<lparr>rq_thinking := Some \<lparr>tc_type = ''enabled'', tc_budget_tokens = Some 64000\<rparr>\<rparr>) False True ''claude-x'') = Some 64000
   \<and> max_tokens_field (build_generation_config default_thinking_budget_config
     (demo_request\<lparr>rq_thinking := Some \<lparr>tc_type = ''enabled'', tc_budget_tokens = Some 64000\<rparr>\<rparr>) False True ''claude-x'') = Some 64000
   \<and> budget_field (build_generation_config default_thinking_budget_config
     (demo_request\<lparr>rq_output_config := Some (Some ''medium'')\<rparr>) False True ''gemini-2.5-pro'') = Some 2048
   \<and> max_tokens_field (build_generation_config default_thinking_budget_config
     (demo_request\<lparr>rq_output_config := Some (Some ''medium'')\<rparr>) False True ''gemini-2.5-pro'') = Some 1000"
  by (simp add: budget_field_def max_tokens_field_def config_thinking config_max_tokens demo_request_def jget_obj
      thinking_config_of_def client_budget_def default_thinking_budget_config_def json_nat_def json_i64_def as_u64_def
      max_tokens_of_def capped_def THINKING_OVERHEAD_def with_effort_def to_ascii_lowercase_def effort_budget_def
      ascii_lower_def to_lowercase_ascii is_ascii_def tput_def)

text \<open>
  Note: the stop sequences sent upstream are at most five different ones, the three of the proxy first.
\<close>

theorem stop_sequences_bounded:
  "\<exists>ss. jget ''stopSequences'' (build_generation_config tb req hw th m) = Some (JArr (map JStr ss))
     \<and> length ss \<le> 5 \<and> distinct ss \<and> take 3 ss = default_stops"
  using stop_sequences_ok [of "rq_stop_sequences req"]
  by (auto simp: build_generation_config_def Let_def jget_def tget_append tget_opt_field simp del: map_of_append)

text \<open>
  Note: the tools of a request never mix functions with searching, also after searching is added to them, and
  the functions declared are the client's tools that are no search tools, in their order.
\<close>

theorem tools_never_mixed:
  assumes "build_tools env stack (Some ts) hw = Some r"
  shows "(case r of Some v \<Rightarrow> \<not> mixed v | None \<Rightarrow> True)
    \<and> (case jget ''tools'' (inject_google_search_tool (JObj (opt_field ''tools'' id r))) of
         Some v \<Rightarrow> \<not> mixed v | None \<Rightarrow> True)
    \<and> (\<exists>ds. declarations env stack ts = Some ds
         \<and> map decl_name ds = filter (\<lambda>n. n \<noteq> None) (map ct_name (filter (\<lambda>t. \<not> is_search_tool t) ts)))"
proof (intro conjI)
  show p: "case r of Some v \<Rightarrow> \<not> mixed v | None \<Rightarrow> True" using assms build_tools_pure by (auto split: option.split)
  have "\<not> mixed v" if "tget (opt_field ''tools'' id r) ''tools'' = Some v" for v using p that by (simp add: tget_opt_field)
  then show "case jget ''tools'' (inject_google_search_tool (JObj (opt_field ''tools'' id r))) of
         Some v \<Rightarrow> \<not> mixed v | None \<Rightarrow> True"
    using inject_pure [of "opt_field ''tools'' id r"] by (auto split: option.split)
  show "\<exists>ds. declarations env stack ts = Some ds
         \<and> map decl_name ds = filter (\<lambda>n. n \<noteq> None) (map ct_name (filter (\<lambda>t. \<not> is_search_tool t) ts))"
    using assms declarations_names by (auto simp: build_tools_def)
qed

text \<open>
  Note: cleaning removes every entry whose value is the text of an undefined value, at any depth, and
  nothing else: it leaves a value without such entries as it is.
\<close>

theorem undefined_removed:
  "undefined_free (deep_clean_undefined v) \<and> deep_clean_undefined (deep_clean_undefined v) = deep_clean_undefined v
   \<and> (undefined_free v \<longleftrightarrow> deep_clean_undefined v = v)"
  using clean_undefined_free clean_undefined_id by metis

text \<open>
  Note: a system prompt that has the identity and the client's default prompt in one text is dropped as a whole,
  so the request goes out without any identity.
\<close>

theorem identity_lost:
  "build_system_instruction (Some (SString ''You are Antigravity. You are an interactive CLI tool'')) False
   = JObj [(''parts'', JArr []), (''role'', JStr ''user'')]"
  by code_simp

end
