(* ===== verification/Request_Contents.thy ===== *)
theory Request_Contents
  imports Message_History Tool_Results Request_Config
begin

text \<open>
  The contents of an upstream request: \<open>mappers/claude/request/signature_validator.rs\<close>,
  \<open>content_builder.rs\<close> and \<open>google_content.rs\<close>. What the functions of the source pass along as mutable
  references is the state here; the caches of signatures are only read. Cleaning a part can exhaust the
  stack and looking at an image can panic: both are errors. Logging and metrics are left out.
\<close>

datatype build_error = Panicked panic | StackOverflow

record contents_env =
  xe_compress :: compress_env
  xe_schema :: schema_env
  xe_stack :: nat
  xe_sha256 :: "string \<Rightarrow> string"
  xe_now :: nanos
  xe_cache :: signature_cache

text \<open>The arguments that stay the same for a request\<close>

record contents_ctx =
  xc_thinking_enabled :: bool
  xc_session_id :: string
  xc_allow_dummy_thought :: bool
  xc_is_retry :: bool
  xc_mapped_model :: string
  xc_name_to_schema :: "(string, json) table"

record contents_state =
  bs_id_to_name :: "(string, string) table"
  bs_last_signature :: "string option"
  bs_pending :: "string list"
  bs_last_task :: "string option"
  bs_previous_was_result :: bool

definition cleaned :: "contents_env \<Rightarrow> json \<Rightarrow> build_error + json" where
  "cleaned env v =
     (case clean_json_schema (xe_schema env) (xe_stack env) v of Some w \<Rightarrow> Inr w | None \<Rightarrow> Inl StackOverflow)"

definition for_claude :: "contents_ctx \<Rightarrow> bool" where
  "for_claude ctx = starts_with (xc_mapped_model ctx) ''claude-''"

section \<open>Signatures\<close>

definition is_valid_or_dummy_signature :: "string \<Rightarrow> bool" where
  "is_valid_or_dummy_signature sig \<longleftrightarrow> sig = DUMMY_SIGNATURE \<or> MIN_SIGNATURE_LENGTH \<le> length sig"

definition thinking_part :: "string \<Rightarrow> string option \<Rightarrow> json" where
  "thinking_part thinking sig =
     JObj ([(''text'', JStr thinking), (''thought'', JBool True)]
           @ (case sig of Some s \<Rightarrow> [(''thoughtSignature'', JStr s)] | None \<Rightarrow> []))"

text \<open>The signature a thinking block is sent with, and the one remembered for the calls behind it\<close>

definition unsigned_thinking :: "contents_ctx \<Rightarrow> string option \<Rightarrow> string option \<times> string option" where
  "unsigned_thinking ctx last_sig = (if for_claude ctx then (None, last_sig) else (Some DUMMY_SIGNATURE, Some DUMMY_SIGNATURE))"

definition validate_thinking_signature ::
  "contents_env \<Rightarrow> contents_ctx \<Rightarrow> string \<Rightarrow> string option \<Rightarrow> string option \<Rightarrow> string option \<times> string option" where
  "validate_thinking_signature env ctx thinking signature last_sig =
     (case signature of
        Some sig \<Rightarrow>
          if sig = DUMMY_SIGNATURE \<or> \<not> is_valid_or_dummy_signature sig then unsigned_thinking ctx last_sig
          else (Some sig, Some sig)
      | None \<Rightarrow>
          (case get_content_signature (xe_sha256 env) (xe_now env) thinking (xe_cache env) of
             Some (recovered_sig, _) \<Rightarrow>
               if \<not> xc_is_retry ctx then (Some recovered_sig, Some recovered_sig) else unsigned_thinking ctx last_sig
           | None \<Rightarrow> unsigned_thinking ctx last_sig))"

definition or_else :: "'a option \<Rightarrow> 'a option \<Rightarrow> 'a option" where
  "or_else a b = (case a of Some x \<Rightarrow> Some x | None \<Rightarrow> b)"

definition resolve_tool_signature ::
  "contents_env \<Rightarrow> contents_ctx \<Rightarrow> string \<Rightarrow> string option \<Rightarrow> string option \<Rightarrow> string option" where
  "resolve_tool_signature env ctx tid client_signature last_sig =
     or_else (or_else (or_else client_signature last_sig)
                (get_session_signature (xe_now env) (xc_session_id ctx) (xe_cache env)))
       (get_tool_signature (xe_now env) tid (xe_cache env))"

definition should_use_tool_signature :: "string \<Rightarrow> bool" where
  "should_use_tool_signature sig \<longleftrightarrow> sig = DUMMY_SIGNATURE \<or> is_valid_or_dummy_signature sig"

text \<open>A part that counts as a thought, and one that may stand first\<close>

definition thought_like :: "json \<Rightarrow> bool" where
  "thought_like p \<longleftrightarrow>
     Option.bind (jget ''thought'' p) as_bool = Some True \<or> jget ''thoughtSignature'' p \<noteq> None
     \<or> Option.bind (jget ''thought'' p) as_str \<noteq> None"

definition ensure_thinking_block_first :: "json list \<Rightarrow> json list" where
  "ensure_thinking_block_first parts =
     (if \<not> list_ex thought_like parts then thinking_part ''Thinking...'' None # parts
      else case parts of
             [] \<Rightarrow> parts
           | p0 # rest \<Rightarrow>
               if \<not> ((jget ''thought'' p0 \<noteq> None \<or> jget ''thoughtSignature'' p0 \<noteq> None) \<and> jget ''text'' p0 \<noteq> None)
               then thinking_part ''...'' None # parts
               else (case p0 of JObj m \<Rightarrow> JObj (tentry ''thought'' (JBool True) m) | _ \<Rightarrow> p0) # rest)"

section \<open>One block\<close>

text \<open>Parts so far, whether one is no thinking, ids of results in this message, and the state\<close>

record block_acc =
  ba_parts :: "json list"
  ba_saw_non_thinking :: bool
  ba_result_ids :: "string set"
  ba_state :: contents_state

definition push_part :: "json \<Rightarrow> block_acc \<Rightarrow> block_acc" where
  "push_part p a = a\<lparr>ba_parts := ba_parts a @ [p]\<rparr>"

definition push_cleaned :: "contents_env \<Rightarrow> json \<Rightarrow> block_acc \<Rightarrow> build_error + block_acc" where
  "push_cleaned env p a = (case cleaned env p of Inl e \<Rightarrow> Inl e | Inr q \<Rightarrow> Inr (push_part q a))"

definition without_whitespace :: "string \<Rightarrow> string" where
  "without_whitespace s = concat (filter (\<lambda>c. c \<notin> set whitespaces) (chars s))"

definition add_text :: "bool \<Rightarrow> string \<Rightarrow> block_acc \<Rightarrow> block_acc" where
  "add_text is_assistant t a =
     (let s = ba_state a; current_normalized = without_whitespace t
      in if t = ''(no content)'' then a
         else if \<not> is_assistant \<and> bs_previous_was_result s \<and> current_normalized \<noteq> []
                 \<and> bs_last_task s = Some current_normalized
         then a
         else (push_part (JObj [(''text'', JStr t)]) a)\<lparr>
                ba_saw_non_thinking := True,
                ba_state := s\<lparr>bs_last_task := (if is_assistant then bs_last_task s else Some current_normalized),
                              bs_previous_was_result := False\<rparr>\<rparr>)"

text \<open>The placeholder signature, which a Claude model does not get\<close>

definition dummy_for :: "contents_ctx \<Rightarrow> string option" where
  "dummy_for ctx = (if for_claude ctx then None else Some DUMMY_SIGNATURE)"

definition add_thinking :: "contents_env \<Rightarrow> contents_ctx \<Rightarrow> string \<Rightarrow> string option \<Rightarrow> block_acc \<Rightarrow> build_error + block_acc" where
  "add_thinking env ctx thinking signature a =
     (if ba_saw_non_thinking a \<or> ba_parts a \<noteq> []
      then if thinking = [] then Inr a
           else push_cleaned env
                  (thinking_part thinking
                    (case signature of
                       Some s \<Rightarrow> if MIN_SIGNATURE_LENGTH \<le> length s then Some s else dummy_for ctx
                     | None \<Rightarrow> dummy_for ctx)) a
      else if \<not> xc_thinking_enabled ctx
      then if thinking = [] then Inr a else push_cleaned env (thinking_part thinking (dummy_for ctx)) a
      else if thinking = [] then Inr (push_part (thinking_part ''...'' (dummy_for ctx)) a)
      else
        let (sig, last_sig) = validate_thinking_signature env ctx thinking signature (bs_last_signature (ba_state a))
        in push_cleaned env (thinking_part thinking sig) (a\<lparr>ba_state := (ba_state a)\<lparr>bs_last_signature := last_sig\<rparr>\<rparr>))"

definition add_inline :: "contents_env \<Rightarrow> string \<Rightarrow> string \<Rightarrow> string \<Rightarrow> block_acc \<Rightarrow> build_error + block_acc" where
  "add_inline env source_type media_type data a =
     (if source_type = ''base64''
      then case detect_image_mime (xe_compress env) data media_type of
             Inl p \<Rightarrow> Inl (Panicked p)
           | Inr detected \<Rightarrow>
               Inr ((push_part (JObj [(''inlineData'', JObj [(''data'', JStr data), (''mimeType'', JStr detected)])]) a)\<lparr>
                      ba_saw_non_thinking := True\<rparr>)
      else Inr a)"

definition shell_command_array :: "string \<Rightarrow> json \<Rightarrow> json" where
  "shell_command_array tag_name v =
     (if tag_name = ''local_shell_call''
      then case v of
             JObj m \<Rightarrow> (case tget m ''command'' of Some (JStr s) \<Rightarrow> JObj (tput ''command'' (JArr [JStr s]) m) | _ \<Rightarrow> v)
           | _ \<Rightarrow> v
      else v)"

definition with_signature :: "string \<Rightarrow> json \<Rightarrow> json" where
  "with_signature sig v = (case v of JObj m \<Rightarrow> JObj (tput ''thoughtSignature'' (JStr sig) m) | _ \<Rightarrow> v)"

definition call_input :: "contents_env \<Rightarrow> contents_ctx \<Rightarrow> string \<Rightarrow> json \<Rightarrow> json" where
  "call_input env ctx tag_name v =
     (let final_input = shell_command_array tag_name v
      in case tget (xc_name_to_schema ctx) tag_name of
           Some original_schema \<Rightarrow> fix_tool_call_args (se_to_string (xe_schema env)) final_input original_schema
         | None \<Rightarrow> final_input)"

definition call_part :: "string \<Rightarrow> string \<Rightarrow> json \<Rightarrow> json" where
  "call_part tid tag_name args =
     JObj [(''functionCall'', JObj [(''args'', args), (''id'', JStr tid), (''name'', JStr tag_name)])]"

definition sign_call :: "contents_ctx \<Rightarrow> string option \<Rightarrow> json \<Rightarrow> json" where
  "sign_call ctx final_sig part =
     (case final_sig of
        Some sig \<Rightarrow>
          if should_use_tool_signature sig then with_signature sig part
          else if xc_thinking_enabled ctx then with_signature DUMMY_SIGNATURE part else part
      | None \<Rightarrow> if xc_thinking_enabled ctx then with_signature DUMMY_SIGNATURE part else part)"

definition add_call ::
  "contents_env \<Rightarrow> contents_ctx \<Rightarrow> bool \<Rightarrow> string \<Rightarrow> string \<Rightarrow> json \<Rightarrow> string option \<Rightarrow> block_acc \<Rightarrow> build_error + block_acc" where
  "add_call env ctx is_assistant tid tag_name v signature a =
     (case cleaned env (call_part tid tag_name (call_input env ctx tag_name v)) of
        Inl e \<Rightarrow> Inl e
      | Inr part \<Rightarrow>
          let s = ba_state a;
              final_sig = resolve_tool_signature env ctx tid signature (bs_last_signature s)
          in Inr ((push_part (sign_call ctx final_sig part) a)\<lparr>
                    ba_saw_non_thinking := True,
                    ba_state := s\<lparr>bs_pending := bs_pending s @ (if is_assistant then [tid] else []),
                                  bs_id_to_name := tput tid tag_name (bs_id_to_name s)\<rparr>\<rparr>))"

definition add_result :: "contents_env \<Rightarrow> string \<Rightarrow> json \<Rightarrow> bool option \<Rightarrow> block_acc \<Rightarrow> build_error + block_acc" where
  "add_result env tool_use_id content is_error a =
     (let s = ba_state a;
          func_name = (case tget (bs_id_to_name s) tool_use_id of Some n \<Rightarrow> n | None \<Rightarrow> tool_use_id)
      in case build_tool_result_part (xe_compress env) tool_use_id content is_error func_name (bs_last_signature s) of
           Inl p \<Rightarrow> Inl (Panicked p)
         | Inr tool_parts \<Rightarrow>
             Inr (a\<lparr>ba_parts := ba_parts a @ tool_parts, ba_result_ids := insert tool_use_id (ba_result_ids a),
                    ba_state := s\<lparr>bs_previous_was_result := True\<rparr>\<rparr>))"

fun add_block :: "contents_env \<Rightarrow> contents_ctx \<Rightarrow> bool \<Rightarrow> content_block \<Rightarrow> block_acc \<Rightarrow> build_error + block_acc" where
  "add_block env ctx is_assistant (CText t) a = Inr (add_text is_assistant t a)"
| "add_block env ctx is_assistant (CThinking t s _) a = add_thinking env ctx t s a"
| "add_block env ctx is_assistant (CRedactedThinking d) a =
     Inr ((push_part (JObj [(''text'', JStr (''[Redacted Thinking: '' @ d @ '']''))]) a)\<lparr>ba_saw_non_thinking := True\<rparr>)"
| "add_block env ctx is_assistant (CImage src _) a = add_inline env (is_source_type src) (is_media_type src) (is_data src) a"
| "add_block env ctx is_assistant (CDocument src _) a = add_inline env (ds_source_type src) (ds_media_type src) (ds_data src) a"
| "add_block env ctx is_assistant (CToolUse i n v s _) a = add_call env ctx is_assistant i n v s a"
| "add_block env ctx is_assistant (CToolResult i v e) a = add_result env i v e a"
| "add_block env ctx is_assistant (CServerToolUse _ _ _) a = Inr a"
| "add_block env ctx is_assistant (CWebSearchToolResult _ _) a = Inr a"

fun add_blocks :: "contents_env \<Rightarrow> contents_ctx \<Rightarrow> bool \<Rightarrow> content_block list \<Rightarrow> block_acc \<Rightarrow> build_error + block_acc" where
  "add_blocks env ctx is_assistant [] a = Inr a"
| "add_blocks env ctx is_assistant (b # bs) a =
     (case add_block env ctx is_assistant b a of Inl e \<Rightarrow> Inl e | Inr a \<Rightarrow> add_blocks env ctx is_assistant bs a)"

section \<open>One message\<close>

definition answer_pending :: "bool \<Rightarrow> block_acc \<Rightarrow> json list \<times> string list" where
  "answer_pending is_assistant a =
     (let s = ba_state a
      in if \<not> is_assistant \<and> bs_pending s \<noteq> []
         then inject_missing_tool_results (ba_parts a) (bs_pending s) (ba_result_ids a) (bs_id_to_name s)
         else (ba_parts a, bs_pending s))"

definition finish_contents :: "contents_ctx \<Rightarrow> bool \<Rightarrow> block_acc \<Rightarrow> json list \<times> contents_state" where
  "finish_contents ctx is_assistant a =
     (let (parts, pending) = answer_pending is_assistant a
      in (if xc_allow_dummy_thought ctx \<and> is_assistant \<and> xc_thinking_enabled ctx
          then ensure_thinking_block_first parts else parts,
          (ba_state a)\<lparr>bs_pending := pending\<rparr>))"

definition build_contents ::
  "contents_env \<Rightarrow> contents_ctx \<Rightarrow> message_content \<Rightarrow> bool \<Rightarrow> contents_state \<Rightarrow> build_error + (json list \<times> contents_state)" where
  "build_contents env ctx content is_assistant s =
     (let start = \<lparr>ba_parts = [], ba_saw_non_thinking = False, ba_result_ids = {}, ba_state = s\<rparr>
      in case (case content of
                 MString t \<Rightarrow>
                   Inr (if t \<noteq> ''(no content)'' \<and> trim t \<noteq> [] then push_part (JObj [(''text'', JStr (trim t))]) start else start)
               | MArray blocks \<Rightarrow> add_blocks env ctx is_assistant blocks start) of
           Inl e \<Rightarrow> Inl e
         | Inr a \<Rightarrow> Inr (finish_contents ctx is_assistant a))"

definition content_message :: "string \<Rightarrow> json list \<Rightarrow> json" where
  "content_message role parts = JObj [(''parts'', JArr parts), (''role'', JStr role)]"

text \<open>
  If calls are pending when an assistant message comes, the answers to those without a result are returned in
  place of the message.
\<close>

definition unanswered :: "string set \<Rightarrow> contents_state \<Rightarrow> json list" where
  "unanswered existing s =
     map (interrupted_result (bs_id_to_name s)) (filter (\<lambda>i. i \<notin> existing) (bs_pending s))"

definition build_google_content ::
  "contents_env \<Rightarrow> contents_ctx \<Rightarrow> string set \<Rightarrow> claude_message \<Rightarrow> contents_state \<Rightarrow> build_error + (json \<times> contents_state)" where
  "build_google_content env ctx existing mg s =
     (let is_assistant = (cm_role mg = ''assistant'');
          role = (if is_assistant then ''model'' else cm_role mg);
          repair = (role = ''model'' \<and> bs_pending s \<noteq> [])
      in if repair \<and> unanswered existing s \<noteq> [] then Inr (content_message ''user'' (unanswered existing s), s)
         else case build_contents env ctx (cm_content mg) is_assistant (if repair then s\<lparr>bs_pending := []\<rparr> else s) of
                Inl e \<Rightarrow> Inl e
              | Inr (parts, s) \<Rightarrow>
                  Inr (if parts = [] then JNull else content_message role (reorder_gemini_parts parts), s))"

section \<open>All messages\<close>

definition existing_results :: "claude_message list \<Rightarrow> string set" where
  "existing_results messages =
     set (List.map_filter (\<lambda>b. case b of CToolResult i _ _ \<Rightarrow> Some i | _ \<Rightarrow> None) (concat (map blocks_of messages)))"

fun google_contents ::
  "contents_env \<Rightarrow> contents_ctx \<Rightarrow> string set \<Rightarrow> claude_message list \<Rightarrow> contents_state \<Rightarrow> build_error + json list" where
  "google_contents env ctx existing [] s = Inr []"
| "google_contents env ctx existing (mg # ms) s =
     (case build_google_content env ctx existing mg s of
        Inl e \<Rightarrow> Inl e
      | Inr (c, s) \<Rightarrow>
          (case google_contents env ctx existing ms s of
             Inl e \<Rightarrow> Inl e
           | Inr cs \<Rightarrow> Inr (if c = JNull then cs else c # cs)))"

definition content_role :: "json \<Rightarrow> string" where
  "content_role v = (case as_str (jindex v ''role'') of Some r \<Rightarrow> r | None \<Rightarrow> [])"

definition parts_in :: "json \<Rightarrow> json list option" where
  "parts_in v = Option.bind (jget ''parts'' v) as_array"

definition append_parts :: "json \<Rightarrow> json \<Rightarrow> json" where
  "append_parts current nxt =
     (case (current, parts_in current, parts_in nxt) of
        (JObj m, Some current_parts, Some next_parts) \<Rightarrow>
          JObj (tput ''parts'' (JArr (reorder_gemini_parts (current_parts @ next_parts))) m)
      | _ \<Rightarrow> current)"

fun merge_roles_from :: "json \<Rightarrow> json list \<Rightarrow> json list" where
  "merge_roles_from current [] = [current]"
| "merge_roles_from current (c # cs) =
     (if content_role current = content_role c then merge_roles_from (append_parts current c) cs
      else current # merge_roles_from c cs)"

definition merge_adjacent_roles :: "json list \<Rightarrow> json list" where
  "merge_adjacent_roles cs = (case cs of [] \<Rightarrow> [] | c # rest \<Rightarrow> merge_roles_from c rest)"

definition initial_state :: "contents_state" where
  "initial_state = \<lparr>bs_id_to_name = [], bs_last_signature = None, bs_pending = [], bs_last_task = None,
     bs_previous_was_result = False\<rparr>"

definition build_google_contents :: "contents_env \<Rightarrow> contents_ctx \<Rightarrow> claude_message list \<Rightarrow> build_error + json" where
  "build_google_contents env ctx messages =
     (case google_contents env ctx (existing_results messages) messages initial_state of
        Inl e \<Rightarrow> Inl e
      | Inr cs \<Rightarrow>
          let merged_contents = merge_adjacent_roles cs
          in Inr (JArr (if xc_thinking_enabled ctx then merged_contents
                        else map clean_thinking_fields_recursive merged_contents)))"

section \<open>Cleaning parts\<close>

lemma clean_no_schema:
  assumes "list_all (\<lambda>k. tget m k = None) schema_keys"
  shows "clean_json_schema_recursive env (JObj m) = (JObj m, False)"
proof -
  have k: "tget m ''type'' = None" "tget m ''properties'' = None" "tget m ''items'' = None" "tget m ''enum'' = None"
    "tget m ''anyOf'' = None" "tget m ''oneOf'' = None" "tget m ''allOf'' = None"
    using assms by (simp_all add: schema_keys_def)
  have d: "tdel ''allOf'' m = m" using k(7) by (auto simp: tdel_def filter_id_conv map_of_eq_None_iff)
  have "clean_bounded env (Suc n) (JObj m) = (JObj m, False)" for n
    using k d by (simp add: merge_all_of_def clean_properties_def clean_items_def clean_branches_def clean_object_def
        merge_union_def infer_object_def looks_like_schema_def schema_keys_def Let_def)
  then show ?thesis by (simp add: clean_json_schema_recursive_def)
qed

lemma in_values_Cons:
  "in_values f ((k, v) # m) = (case f v of None \<Rightarrow> None | Some w \<Rightarrow> map_option (Cons (k, w)) (in_values f m))"
  by (simp add: in_values_def split: option.split)

lemma in_values_Nil: "in_values f [] = Some []"
  by (simp add: in_values_def)

lemma cleaned_thinking:
  "cleaned env (thinking_part t s) = (if xe_stack env = 0 then Inl StackOverflow else Inr (thinking_part t s))"
proof (cases "xe_stack env")
  case 0
  then show ?thesis by (simp add: cleaned_def clean_json_schema_def expand_refs_def thinking_part_def)
next
  case (Suc n)
  have "expand_refs (Suc n) (thinking_part t s) = Some (thinking_part t s)"
    by (cases s) (simp_all add: expand_refs_def thinking_part_def tdel_def own_ref_def in_values_Cons in_values_Nil in_children_def)
  moreover have "fst (clean_json_schema_recursive e (thinking_part t s)) = thinking_part t s" for e
    unfolding thinking_part_def by (subst clean_no_schema) (cases s; simp add: schema_keys_def)+
  ultimately show ?thesis using Suc by (simp add: cleaned_def clean_json_schema_def)
qed

lemma cleaned_call:
  assumes "cleaned env (call_part i n v) = Inr p"
  shows "\<exists>w. p = call_part i n w"
proof -
  obtain x where x: "expand_refs (xe_stack env) (call_part i n v) = Some x"
    and p: "p = fst (clean_json_schema_recursive (xe_schema env) x)"
    using assms by (auto simp: cleaned_def clean_json_schema_def split: option.splits)
  obtain w where "x = call_part i n w"
    using x by (cases "xe_stack env"; cases "xe_stack env - 1")
      (auto simp: expand_refs_def call_part_def tdel_def own_ref_def in_values_Cons in_values_Nil in_children_def Let_def split: option.splits)
  moreover have "fst (clean_json_schema_recursive e (call_part i n w)) = call_part i n w" for e
    unfolding call_part_def by (subst clean_no_schema) (simp_all add: schema_keys_def)
  ultimately show ?thesis using p by auto
qed

section \<open>What one block adds\<close>

definition call_id :: "json \<Rightarrow> string option" where
  "call_id p = Option.bind (Option.bind (jget ''functionCall'' p) (jget ''id'')) as_str"

definition response_of :: "json \<Rightarrow> string option" where
  "response_of p = Option.bind (Option.bind (jget ''functionResponse'' p) (jget ''id'')) as_str"

definition tool_uses :: "content_block list \<Rightarrow> string list" where
  "tool_uses bs = List.map_filter (\<lambda>b. case b of CToolUse i _ _ _ _ \<Rightarrow> Some i | _ \<Rightarrow> None) bs"

definition tool_answers :: "content_block list \<Rightarrow> string list" where
  "tool_answers bs = List.map_filter (\<lambda>b. case b of CToolResult i _ _ \<Rightarrow> Some i | _ \<Rightarrow> None) bs"

text \<open>The calls and responses among parts\<close>

definition calls_in :: "json list \<Rightarrow> string list" where
  "calls_in ps = List.map_filter call_id ps"

definition responses_in :: "json list \<Rightarrow> string list" where
  "responses_in ps = List.map_filter response_of ps"

lemma calls_in_simps [simp]:
  "calls_in [] = []" "calls_in (p # ps) = (case call_id p of Some i \<Rightarrow> [i] | None \<Rightarrow> []) @ calls_in ps"
  "calls_in (ps @ qs) = calls_in ps @ calls_in qs"
  by (simp_all add: calls_in_def map_filter_def split: option.split)

lemma responses_in_simps [simp]:
  "responses_in [] = []" "responses_in (p # ps) = (case response_of p of Some i \<Rightarrow> [i] | None \<Rightarrow> []) @ responses_in ps"
  "responses_in (ps @ qs) = responses_in ps @ responses_in qs"
  by (simp_all add: responses_in_def map_filter_def split: option.split)

lemma tool_uses_simps [simp]:
  "tool_uses [] = []" "tool_uses (b # bs) = (case b of CToolUse i _ _ _ _ \<Rightarrow> [i] | _ \<Rightarrow> []) @ tool_uses bs"
  by (simp_all add: tool_uses_def map_filter_def split: content_block.split)

lemma tool_answers_simps [simp]:
  "tool_answers [] = []" "tool_answers (b # bs) = (case b of CToolResult i _ _ \<Rightarrow> [i] | _ \<Rightarrow> []) @ tool_answers bs"
  by (simp_all add: tool_answers_def map_filter_def split: content_block.split)

lemma ids_of_parts [simp]:
  "call_id (thinking_part t s) = None" "response_of (thinking_part t s) = None"
  "call_id (text_part t) = None" "response_of (text_part t) = None"
  "call_id (JObj [(''text'', x)]) = None" "response_of (JObj [(''text'', x)]) = None"
  "call_id (JObj [(''inlineData'', x)]) = None" "response_of (JObj [(''inlineData'', x)]) = None"
  by (simp_all add: call_id_def response_of_def thinking_part_def text_part_def jget_def split: option.split)

lemma ids_of_call: "call_id (sign_call ctx s (call_part i n v)) = Some i" "response_of (sign_call ctx s (call_part i n v)) = None"
  by (simp_all add: sign_call_def with_signature_def call_part_def call_id_def response_of_def jget_def as_str_def split: option.split)


lemma block_content_images: "block_content e b = Inr (t, imgs) \<Longrightarrow> list_all image_part imgs"
  by (auto simp: block_content_def image_part_def split: if_splits option.splits sum.splits)

lemma collect_content_images: "collect_content e bs = Inr (ts, imgs) \<Longrightarrow> list_all image_part imgs"
  by (induction bs arbitrary: ts imgs) (auto split: sum.splits, rule block_content_images)

lemma image_part_ids: "image_part p \<Longrightarrow> call_id p = None \<and> response_of p = None"
  by (auto simp: image_part_def)

lemma images_ids: "list_all image_part imgs \<Longrightarrow> calls_in imgs = [] \<and> responses_in imgs = []"
  by (induction imgs) (auto dest: image_part_ids)

lemma result_part_ids:
  assumes "build_tool_result_part e tid content err name sig = Inr ps"
  shows "calls_in ps = [] \<and> responses_in ps = [tid]"
proof -
  obtain r imgs where ps: "ps = JObj ((''functionResponse'', function_response tid name r)
       # (case sig of Some s \<Rightarrow> [(''thoughtSignature'', JStr s)] | None \<Rightarrow> [])) # imgs" and i: "list_all image_part imgs"
  proof -
    obtain t imgs where x: "extract_content_and_images e (case content of JArr a \<Rightarrow> JArr (sanitize_tool_result_blocks e a) | _ \<Rightarrow> content) content
        = Inr (t, imgs)"
      using assms by (auto simp: build_tool_result_part_def split: sum.splits)
    then have "list_all image_part imgs"
      by (auto simp: extract_content_and_images_def split: json.splits sum.splits dest: collect_content_images)
    moreover have "ps = JObj ((''functionResponse'', function_response tid name (ensure_non_empty (truncate_if_needed t) err))
       # (case sig of Some s \<Rightarrow> [(''thoughtSignature'', JStr s)] | None \<Rightarrow> [])) # imgs"
      using assms x by (simp add: build_tool_result_part_def)
    ultimately show thesis using that by blast
  qed
  have "call_id (hd ps) = None" "response_of (hd ps) = Some tid"
    unfolding ps by (auto simp: call_id_def response_of_def function_response_def jget_def as_str_def split: option.split)
  then show ?thesis using images_ids [OF i] by (simp add: ps)
qed

definition ids_added :: "bool \<Rightarrow> string list \<Rightarrow> string list \<Rightarrow> block_acc \<Rightarrow> block_acc \<Rightarrow> bool" where
  "ids_added is_assistant us rs a a' \<longleftrightarrow>
     calls_in (ba_parts a') = calls_in (ba_parts a) @ us
     \<and> responses_in (ba_parts a') = responses_in (ba_parts a) @ rs
     \<and> bs_pending (ba_state a') = bs_pending (ba_state a) @ (if is_assistant then us else [])
     \<and> ba_result_ids a' = ba_result_ids a \<union> set rs"

lemma push_cleaned_thinking: "push_cleaned env (thinking_part t s) a = Inr a' \<Longrightarrow> a' = push_part (thinking_part t s) a"
  by (auto simp: push_cleaned_def cleaned_thinking split: if_splits)

lemma push_ids [simp]:
  "call_id p = None \<Longrightarrow> response_of p = None \<Longrightarrow> ids_added asst [] [] a (push_part p a)"
  by (simp add: ids_added_def push_part_def)

lemma add_thinking_ids: "add_thinking env ctx t s a = Inr a' \<Longrightarrow> ids_added asst [] [] a a'"
  by (auto simp: add_thinking_def ids_added_def push_part_def Let_def split: if_splits prod.splits
      dest!: push_cleaned_thinking)

lemma add_block_ids:
  assumes "add_block env ctx asst b a = Inr a'"
  shows "ids_added asst (tool_uses [b]) (tool_answers [b]) a a'"
proof (cases b)
  case (CText t)
  with assms have "a' = add_text asst t a" by simp
  then show ?thesis using CText by (cases "a' = a") (auto simp: add_text_def ids_added_def push_part_def Let_def)
next
  case (CThinking t s c)
  then show ?thesis using assms add_thinking_ids by simp
next
  case (CImage src c)
  then show ?thesis using assms by (auto simp: add_inline_def ids_added_def push_part_def split: if_splits sum.splits)
next
  case (CDocument src c)
  then show ?thesis using assms by (auto simp: add_inline_def ids_added_def push_part_def split: if_splits sum.splits)
next
  case (CToolUse i n v s c)
  then show ?thesis using assms
    by (auto simp: add_call_def ids_added_def push_part_def Let_def ids_of_call split: sum.splits dest!: cleaned_call)
next
  case (CToolResult i v e)
  then show ?thesis using assms
    by (auto simp: add_result_def ids_added_def Let_def split: sum.splits dest!: result_part_ids)
qed (use assms in \<open>auto simp: ids_added_def push_part_def\<close>)

lemma add_blocks_ids:
  "add_blocks env ctx asst bs a = Inr a' \<Longrightarrow> ids_added asst (tool_uses bs) (tool_answers bs) a a'"
proof (induction bs arbitrary: a)
  case (Cons b bs)
  then obtain c where c: "add_block env ctx asst b a = Inr c" "add_blocks env ctx asst bs c = Inr a'"
    by (auto split: sum.splits)
  show ?case using add_block_ids [OF c(1)] Cons(1) [OF c(2)]
    by (auto simp: ids_added_def simp del: tool_uses_simps(2) tool_answers_simps(2)
        simp add: tool_uses_simps(2) [of b bs] tool_answers_simps(2) [of b bs] tool_uses_simps(2) [of b "[]"] tool_answers_simps(2) [of b "[]"])
qed (simp add: ids_added_def)


section \<open>What one message adds\<close>

lemma jget_tentry: "k \<noteq> j \<Longrightarrow> jget k (JObj (tentry j v m)) = jget k (JObj m)"
  by (simp add: jget_def tget_tentry)

lemma ensure_first_ids:
  "calls_in (ensure_thinking_block_first ps) = calls_in ps \<and> responses_in (ensure_thinking_block_first ps) = responses_in ps"
proof -
  have t: "call_id (case p of JObj m \<Rightarrow> JObj (tentry ''thought'' v m) | _ \<Rightarrow> p) = call_id p"
    "response_of (case p of JObj m \<Rightarrow> JObj (tentry ''thought'' v m) | _ \<Rightarrow> p) = response_of p" for p v
    by (cases p; simp add: call_id_def response_of_def jget_tentry)+
  show ?thesis by (cases ps) (simp_all add: ensure_thinking_block_first_def t)
qed

definition msg_blocks :: "message_content \<Rightarrow> content_block list" where
  "msg_blocks c = (case c of MArray bs \<Rightarrow> bs | MString _ \<Rightarrow> [])"

lemma interrupted_ids: "call_id (interrupted_result names i) = None" "response_of (interrupted_result names i) = Some i"
  by (simp_all add: interrupted_result_def function_response_def call_id_def response_of_def jget_def as_str_def)

lemma interrupted_list:
  "calls_in (map (interrupted_result names) is) = [] \<and> responses_in (map (interrupted_result names) is) = is"
  by (induction "is") (simp_all add: interrupted_ids)

lemma build_contents_ids:
  assumes "build_contents env ctx c asst s = Inr (ps, s')"
  shows "calls_in ps = tool_uses (msg_blocks c)"
    and "asst \<Longrightarrow> responses_in ps = tool_answers (msg_blocks c) \<and> bs_pending s' = bs_pending s @ tool_uses (msg_blocks c)"
    and "\<not> asst \<Longrightarrow> bs_pending s' = [] \<and> set (bs_pending s) \<subseteq> set (responses_in ps)"
proof -
  let ?start = "\<lparr>ba_parts = [], ba_saw_non_thinking = False, ba_result_ids = {}, ba_state = s\<rparr>"
  obtain a where a: "(case c of MString t \<Rightarrow>
        Inr (if t \<noteq> ''(no content)'' \<and> trim t \<noteq> [] then push_part (JObj [(''text'', JStr (trim t))]) ?start else ?start)
      | MArray blocks \<Rightarrow> add_blocks env ctx asst blocks ?start) = Inr a"
    and fin: "finish_contents ctx asst a = (ps, s')"
    using assms by (auto simp: build_contents_def Let_def split: sum.splits)
  have ids: "ids_added asst (tool_uses (msg_blocks c)) (tool_answers (msg_blocks c)) ?start a"
  proof (cases c)
    case (MString t)
    then have "a = ?start \<or> a = push_part (JObj [(''text'', JStr (trim t))]) ?start" using a by auto
    then show ?thesis using MString by (auto simp: msg_blocks_def ids_added_def push_part_def)
  next
    case (MArray bs)
    then show ?thesis using a add_blocks_ids by (simp add: msg_blocks_def)
  qed
  have e: "s' = (ba_state a)\<lparr>bs_pending := snd (answer_pending asst a)\<rparr>"
    "calls_in ps = calls_in (fst (answer_pending asst a))" "responses_in ps = responses_in (fst (answer_pending asst a))"
    using fin by (auto simp: finish_contents_def ensure_first_ids split: prod.splits if_splits)
  show "calls_in ps = tool_uses (msg_blocks c)"
    using ids e by (auto simp: ids_added_def answer_pending_def Let_def inject_missing_tool_results_def interrupted_list)
  show "asst \<Longrightarrow> responses_in ps = tool_answers (msg_blocks c) \<and> bs_pending s' = bs_pending s @ tool_uses (msg_blocks c)"
    using ids e by (auto simp: ids_added_def answer_pending_def Let_def)
  show "\<not> asst \<Longrightarrow> bs_pending s' = [] \<and> set (bs_pending s) \<subseteq> set (responses_in ps)"
    using ids e by (auto simp: ids_added_def answer_pending_def Let_def inject_missing_tool_results_def interrupted_list)
qed

text \<open>What a content of the upstream protocol calls and answers\<close>

definition content_calls :: "json \<Rightarrow> string set" where
  "content_calls c = (case parts_in c of Some ps \<Rightarrow> set (calls_in ps) | None \<Rightarrow> {})"

definition content_answers :: "json \<Rightarrow> string set" where
  "content_answers c = (case parts_in c of Some ps \<Rightarrow> set (responses_in ps) | None \<Rightarrow> {})"

lemma set_calls_in: "set (calls_in ps) = {i. \<exists>p\<in>set ps. call_id p = Some i}"
  by (induction ps) (auto split: option.split)

lemma set_responses_in: "set (responses_in ps) = {i. \<exists>p\<in>set ps. response_of p = Some i}"
  by (induction ps) (auto split: option.split)

lemma kept_ids: "call_id p \<noteq> None \<or> response_of p \<noteq> None \<Longrightarrow> keep_part p"
  by (auto simp: keep_part_def part_class_def call_id_def response_of_def bind_eq_Some_conv)

lemma reorder_ids: "set (calls_in (reorder_gemini_parts ps)) = set (calls_in ps)
    \<and> set (responses_in (reorder_gemini_parts ps)) = set (responses_in ps)"
  using kept_ids by (auto simp: reorder_is_sort set_calls_in set_responses_in)

lemma parts_in_message: "parts_in (content_message r ps) = Some ps" "content_role (content_message r ps) = r"
  by (simp_all add: parts_in_def content_message_def jget_def as_array_def content_role_def jindex_def as_str_def)

text \<open>A history as clients send it: two roles, calls by the assistant, results by the user\<close>

definition proper :: "claude_message \<Rightarrow> bool" where
  "proper mg \<longleftrightarrow>
     (cm_role mg = ''user'' \<and> tool_uses (blocks_of mg) = [] \<or> cm_role mg = ''assistant'' \<and> tool_answers (blocks_of mg) = [])"

definition proper_content :: "json \<Rightarrow> bool" where
  "proper_content c \<longleftrightarrow>
     (content_role c = ''user'' \<and> content_calls c = {} \<or> content_role c = ''model'' \<and> content_answers c = {})
     \<and> (\<exists>m ps. c = JObj m \<and> parts_in c = Some ps)"

fun each_answered :: "json list \<Rightarrow> bool" where
  "each_answered (c # d # cs) = (content_calls c \<subseteq> content_answers d \<and> each_answered (d # cs))"
| "each_answered _ = True"

lemma google_content_step:
  assumes "build_google_content env ctx ex mg s = Inr (c, s')" and "proper mg"
    and "cm_role mg = ''assistant'' \<longrightarrow> bs_pending s = []"
  shows "c \<noteq> JNull \<longrightarrow> proper_content c"
    and "cm_role mg = ''assistant'' \<Longrightarrow> bs_pending s' = tool_uses (blocks_of mg)
       \<and> (if c = JNull then bs_pending s' = [] else content_calls c = set (bs_pending s'))"
    and "cm_role mg = ''user'' \<Longrightarrow> bs_pending s' = [] \<and> (bs_pending s \<noteq> [] \<longrightarrow> c \<noteq> JNull)
       \<and> (c \<noteq> JNull \<longrightarrow> content_calls c = {} \<and> set (bs_pending s) \<subseteq> content_answers c)"
proof -
  have role: "cm_role mg = ''user'' \<or> cm_role mg = ''assistant''" using assms(2) by (auto simp: proper_def)
  have mb: "msg_blocks (cm_content mg) = blocks_of mg" by (simp add: msg_blocks_def blocks_of_def)
  obtain ps where b: "build_contents env ctx (cm_content mg) (cm_role mg = ''assistant'') s = Inr (ps, s')"
    and c: "c = (if ps = [] then JNull else
      content_message (if cm_role mg = ''assistant'' then ''model'' else cm_role mg) (reorder_gemini_parts ps))"
    using assms(1,3) role by (auto simp: build_google_content_def Let_def split: sum.splits if_splits)
  note ids = build_contents_ids [OF b, unfolded mb]
  have nn: "content_message r x \<noteq> JNull" for r x by (simp add: content_message_def)
  have cc: "content_calls (content_message r (reorder_gemini_parts ps)) = set (tool_uses (blocks_of mg))"
    and ca: "content_answers (content_message r (reorder_gemini_parts ps)) = set (responses_in ps)" for r
    using ids(1) reorder_ids [of ps] by (simp_all add: content_calls_def content_answers_def parts_in_message)
  have obj: "\<exists>m qs. content_message r x = JObj m \<and> parts_in (content_message r x) = Some qs" for r x
    by (simp add: parts_in_message) (simp add: content_message_def)
  show "c \<noteq> JNull \<longrightarrow> proper_content c"
    using c cc ca ids(2) assms(2) nn obj unfolding proper_content_def proper_def
    by (auto simp: parts_in_message split: if_splits)
  show "cm_role mg = ''assistant'' \<Longrightarrow> bs_pending s' = tool_uses (blocks_of mg)
       \<and> (if c = JNull then bs_pending s' = [] else content_calls c = set (bs_pending s'))"
    using c cc ids(1,2) assms(3) nn by auto
  show "cm_role mg = ''user'' \<Longrightarrow> bs_pending s' = [] \<and> (bs_pending s \<noteq> [] \<longrightarrow> c \<noteq> JNull)
       \<and> (c \<noteq> JNull \<longrightarrow> content_calls c = {} \<and> set (bs_pending s) \<subseteq> content_answers c)"
    using c cc ca ids(3) assms(2) nn by (auto simp: proper_def)
qed

lemma google_contents_answered:
  assumes "google_contents env ctx ex ms s = Inr cs" and "list_all proper ms" and "distinct_adj (map cm_role ms)"
    and "bs_pending s \<noteq> [] \<and> ms \<noteq> [] \<longrightarrow> cm_role (hd ms) = ''user''"
  shows "each_answered cs \<and> list_all proper_content cs
    \<and> (bs_pending s \<noteq> [] \<and> ms \<noteq> [] \<longrightarrow> cs \<noteq> [] \<and> set (bs_pending s) \<subseteq> content_answers (hd cs))"
  using assms
proof (induction ms arbitrary: s cs)
  case (Cons mg ms)
  obtain c s' rest where c: "build_google_content env ctx ex mg s = Inr (c, s')"
    and rest: "google_contents env ctx ex ms s' = Inr rest" and cs: "cs = (if c = JNull then rest else c # rest)"
    using Cons(2) by (auto split: sum.splits if_splits)
  have p: "proper mg" and a: "cm_role mg = ''assistant'' \<longrightarrow> bs_pending s = []" using Cons(3,5) by auto
  note step = google_content_step [OF c p a]
  have hd: "ms \<noteq> [] \<longrightarrow> cm_role (hd ms) \<noteq> cm_role mg" using Cons(4) by (cases ms) auto
  have pend: "bs_pending s' \<noteq> [] \<and> ms \<noteq> [] \<longrightarrow> cm_role (hd ms) = ''user''"
  proof (cases "cm_role mg = ''assistant''")
    case True
    have "ms \<noteq> [] \<longrightarrow> proper (hd ms)" using Cons(3) by (cases ms) auto
    then show ?thesis using True hd by (auto simp: proper_def)
  next
    case False
    then have "cm_role mg = ''user''" using p by (auto simp: proper_def)
    then show ?thesis using step(3) by simp
  qed
  have ih: "each_answered rest \<and> list_all proper_content rest
    \<and> (bs_pending s' \<noteq> [] \<and> ms \<noteq> [] \<longrightarrow> rest \<noteq> [] \<and> set (bs_pending s') \<subseteq> content_answers (hd rest))"
    using Cons(1) [OF rest _ _ pend] Cons(3,4) by (cases ms) auto
  show ?case
  proof (cases "cm_role mg = ''assistant''")
    case True
    have "rest = [] \<or> bs_pending s' = [] \<or> set (bs_pending s') \<subseteq> content_answers (hd rest)"
      using ih rest by (cases ms) auto
    then have "c \<noteq> JNull \<longrightarrow> each_answered (c # rest)" using step(2) [OF True] ih by (cases rest) auto
    then show ?thesis using ih step(1) cs a True by auto
  next
    case False
    then have u: "cm_role mg = ''user''" using p by (auto simp: proper_def)
    have "c \<noteq> JNull \<longrightarrow> each_answered (c # rest)" using step(3) [OF u] ih by (cases rest) auto
    then show ?thesis using ih step(1) step(3) [OF u] cs by auto
  qed
qed simp


section \<open>Merging and cleaning keep the answers\<close>

lemma append_parts_ids:
  assumes "proper_content c" and "proper_content d" and "content_role c = content_role d"
  shows "content_calls (append_parts c d) = content_calls c \<union> content_calls d
    \<and> content_answers (append_parts c d) = content_answers c \<union> content_answers d
    \<and> content_role (append_parts c d) = content_role c \<and> proper_content (append_parts c d)"
proof -
  obtain m ps qs where c: "c = JObj m" "parts_in c = Some ps" and d: "parts_in d = Some qs"
    using assms(1,2) by (auto simp: proper_content_def)
  have e: "append_parts c d = JObj (tput ''parts'' (JArr (reorder_gemini_parts (ps @ qs))) m)"
    using c d by (simp add: append_parts_def)
  then have p: "parts_in (append_parts c d) = Some (reorder_gemini_parts (ps @ qs))"
    by (simp add: parts_in_def jget_def as_array_def)
  have r: "content_role (append_parts c d) = content_role c" using e c(1) by (simp add: content_role_def jindex_def jget_def)
  have i: "content_calls (append_parts c d) = content_calls c \<union> content_calls d
    \<and> content_answers (append_parts c d) = content_answers c \<union> content_answers d"
    using p c d reorder_ids [of "ps @ qs"] by (simp add: content_calls_def content_answers_def)
  then show ?thesis using r p e assms by (auto simp: proper_content_def)
qed

lemma merge_answered:
  "each_answered (c # cs) \<Longrightarrow> list_all proper_content (c # cs) \<Longrightarrow>
   each_answered (merge_roles_from c cs) \<and> merge_roles_from c cs \<noteq> []
   \<and> content_answers c \<subseteq> content_answers (hd (merge_roles_from c cs))"
proof (induction c cs rule: merge_roles_from.induct)
  case (2 c d cs)
  show ?case
  proof (cases "content_role c = content_role d")
    case True
    have pc: "proper_content c" "proper_content d" using 2(4) by auto
    note ids = append_parts_ids [OF pc True]
    have "content_calls c = {}"
      using 2(3) pc True by (auto simp: proper_content_def)
    then have "each_answered (append_parts c d # cs)" using 2(3) ids by (cases cs) auto
    then show ?thesis using 2(1) [OF True] 2(4) ids True by auto
  next
    case False
    have "each_answered (merge_roles_from d cs) \<and> merge_roles_from d cs \<noteq> []
       \<and> content_answers d \<subseteq> content_answers (hd (merge_roles_from d cs))"
      using 2(2) [OF False] 2(3,4) by simp
    then show ?thesis using 2(3) False by (cases "merge_roles_from d cs") auto
  qed
qed simp

lemma jget_drop_keys: "k \<notin> set ks \<Longrightarrow> jget k (drop_keys ks v) = map_option (drop_keys ks) (jget k v)"
proof (cases v)
  case (JObj m)
  assume "k \<notin> set ks"
  then have "tget (map (\<lambda>(k, v). (k, drop_keys ks v)) (filter (\<lambda>(k, _). k \<notin> set ks) m)) k = map_option (drop_keys ks) (tget m k)"
    by (induction m) auto
  then show ?thesis using JObj by (simp add: jget_def)
qed (simp_all add: jget_def)

lemma as_str_drop_keys: "as_str (drop_keys ks v) = as_str v"
  by (cases v) (simp_all add: as_str_def)

lemma drop_keys_ids:
  assumes "set ks \<inter> {''functionCall'', ''functionResponse'', ''id'', ''parts''} = {}"
  shows "content_calls (drop_keys ks c) = content_calls c \<and> content_answers (drop_keys ks c) = content_answers c"
proof -
  let ?f = "drop_keys ks"
  have k: "''functionCall'' \<notin> set ks" "''functionResponse'' \<notin> set ks" "''id'' \<notin> set ks" "''parts'' \<notin> set ks"
    using assms by auto
  have p: "call_id (?f p) = call_id p" "response_of (?f p) = response_of p" for p
    using k by (simp_all add: call_id_def response_of_def jget_drop_keys as_str_drop_keys bind_map_option o_def)
  have l: "calls_in (map ?f ps) = calls_in ps" "responses_in (map ?f ps) = responses_in ps" for ps
    by (induction ps) (simp_all add: p)
  have "parts_in (?f c) = map_option (map ?f) (parts_in c)"
    using k by (cases "jget ''parts'' c"; simp add: parts_in_def jget_drop_keys as_array_def split: json.split)
  then show ?thesis by (simp add: content_calls_def content_answers_def l split: option.split)
qed

lemma clean_thinking_ids:
  "content_calls (clean_thinking_fields_recursive c) = content_calls c"
  "content_answers (clean_thinking_fields_recursive c) = content_answers c"
  by (simp_all add: clean_thinking_fields_recursive_def drop_keys_ids)

lemma each_answered_cong:
  "length cs = length ds \<Longrightarrow> (\<And>i. i < length cs \<Longrightarrow> content_calls (cs ! i) = content_calls (ds ! i)
     \<and> content_answers (cs ! i) = content_answers (ds ! i)) \<Longrightarrow> each_answered cs = each_answered ds"
proof (induction cs ds rule: list_induct2)
  case (Cons c cs d ds)
  have z: "content_calls c = content_calls d" using Cons(3) [of 0] by simp
  have i: "each_answered cs = each_answered ds" using Cons(2) Cons(3) [of "Suc _"] by simp
  show ?case
  proof (cases cs)
    case (Cons e es)
    then obtain f fs where ds: "ds = f # fs" using \<open>length cs = length ds\<close> by (cases ds) auto
    have "content_answers e = content_answers f" using \<open>\<And>i. i < length (c # cs) \<Longrightarrow> _\<close> [of 1] Cons ds by simp
    then show ?thesis using z i Cons ds by simp
  qed (use \<open>length cs = length ds\<close> in simp)
qed simp

lemma merge_proper_contents: "list_all proper_content (c # cs) \<Longrightarrow> list_all proper_content (merge_roles_from c cs)"
proof (induction c cs rule: merge_roles_from.induct)
  case (2 c d cs)
  then show ?case using append_parts_ids [of c d] by (cases "content_role c = content_role d") simp_all
qed simp

lemma role_drop_keys: "''role'' \<notin> set ks \<Longrightarrow> content_role (drop_keys ks c) = content_role c"
  by (cases "jget ''role'' c") (simp_all add: content_role_def jindex_def jget_drop_keys as_str_drop_keys)

lemma parts_inE:
  assumes "parts_in c = Some ps"
  shows "jget ''parts'' c = Some (JArr ps)"
  using assms by (cases "jget ''parts'' c") (auto simp: parts_in_def as_array_def split: json.splits)

lemma clean_proper:
  assumes "proper_content c"
  shows "proper_content (clean_thinking_fields_recursive c)"
proof -
  let ?ks = "[''thought'', ''thoughtSignature'']"
  obtain m ps where c: "c = JObj m" "parts_in c = Some ps" using assms by (auto simp: proper_content_def)
  have "parts_in (drop_keys ?ks c) = Some (map (drop_keys ?ks) ps)"
    using parts_inE [OF c(2)] by (simp add: parts_in_def jget_drop_keys) (simp add: as_array_def)
  moreover have "\<exists>m. drop_keys ?ks c = JObj m" by (simp add: c(1))
  moreover have "content_role (drop_keys ?ks c) = content_role c" by (simp add: role_drop_keys)
  ultimately show ?thesis using assms clean_thinking_ids [of c]
    unfolding proper_content_def clean_thinking_fields_recursive_def by metis
qed

lemma contents_answered:
  assumes "build_google_contents env ctx ms = Inr v" and "list_all proper ms" and "distinct_adj (map cm_role ms)"
  shows "\<exists>cs. v = JArr cs \<and> each_answered cs \<and> list_all proper_content cs"
proof -
  obtain cs where cs: "google_contents env ctx (existing_results ms) ms initial_state = Inr cs"
    and v: "v = JArr (if xc_thinking_enabled ctx then merge_adjacent_roles cs
        else map clean_thinking_fields_recursive (merge_adjacent_roles cs))"
    using assms(1) by (auto simp: build_google_contents_def Let_def split: sum.splits)
  have "each_answered cs \<and> list_all proper_content cs"
    using google_contents_answered [OF cs assms(2,3)] by (simp add: initial_state_def)
  then have a: "each_answered (merge_adjacent_roles cs)" "list_all proper_content (merge_adjacent_roles cs)"
    using merge_answered merge_proper_contents by (cases cs; simp add: merge_adjacent_roles_def)+
  moreover have "each_answered (map clean_thinking_fields_recursive xs) = each_answered xs" for xs
    by (rule each_answered_cong) (simp_all add: clean_thinking_ids)
  moreover have "list_all proper_content (map clean_thinking_fields_recursive (merge_adjacent_roles cs))"
    using a(2) by (auto simp: list_all_iff clean_proper)
  ultimately show ?thesis using v by auto
qed

end
