(* ===== verification/Session_Manager.thy ===== *)
theory Session_Manager
  imports Claude_Types
begin

text \<open>
  Session ids, \<open>session_manager.rs\<close>: a fingerprint of the first user message that says enough. The SHA-256
  digest in hexadecimal and the debug printer of a message's content are arguments.
\<close>

section \<open>Definitions\<close>

definition join_with :: "string \<Rightarrow> string list \<Rightarrow> string" where
  "join_with sep ls = concat (case ls of [] \<Rightarrow> [] | l # rest \<Rightarrow> l # map (\<lambda>x. sep @ x) rest)"

definition session_of :: "(string \<Rightarrow> string) \<Rightarrow> string \<Rightarrow> string" where
  "session_of sha256_hex bytes = ''sid-'' @ take 16 (sha256_hex bytes)"

text \<open>Texts of ten bytes at most and those with a system tag are skipped.\<close>

definition anchor_text :: "string \<Rightarrow> string option" where
  "anchor_text t =
     (let clean_text = trim t
      in if 10 < length clean_text \<and> \<not> contains clean_text ''<system-reminder>'' then Some clean_text else None)"

fun first_some :: "('a \<Rightarrow> 'b option) \<Rightarrow> 'a list \<Rightarrow> 'b option" where
  "first_some f [] = None"
| "first_some f (x # xs) = (case f x of Some y \<Rightarrow> Some y | None \<Rightarrow> first_some f xs)"

definition message_text :: "message_content \<Rightarrow> string" where
  "message_text c =
     (case c of
        MString s \<Rightarrow> s
      | MArray blocks \<Rightarrow> join_with '' '' (List.map_filter (\<lambda>b. case b of CText t \<Rightarrow> Some t | _ \<Rightarrow> None) blocks))"

definition message_anchor :: "claude_message \<Rightarrow> string option" where
  "message_anchor mg = (if cm_role mg \<noteq> ''user'' then None else anchor_text (message_text (cm_content mg)))"

definition explicit_id :: "string option option \<Rightarrow> string option" where
  "explicit_id metadata =
     (case metadata of
        Some (Some user_id) \<Rightarrow> if user_id \<noteq> [] \<and> \<not> contains user_id ''session-'' then Some user_id else None
      | _ \<Rightarrow> None)"

text \<open>Without an anchor the last message is hashed; without messages, nothing.\<close>

definition extract_session_id :: "(string \<Rightarrow> string) \<Rightarrow> (message_content \<Rightarrow> string) \<Rightarrow> claude_request \<Rightarrow> string" where
  "extract_session_id sha256_hex debug request =
     (case explicit_id (rq_metadata request) of
        Some user_id \<Rightarrow> user_id
      | None \<Rightarrow>
          session_of sha256_hex
            (case first_some message_anchor (rq_messages request) of
               Some t \<Rightarrow> t
             | None \<Rightarrow> if rq_messages request = [] then [] else debug (cm_content (last (rq_messages request)))))"

definition gemini_anchor :: "json \<Rightarrow> string option" where
  "gemini_anchor content =
     (if Option.bind (jget ''role'' content) as_str \<noteq> Some ''user'' then None
      else case Option.bind (jget ''parts'' content) as_array of
             None \<Rightarrow> None
           | Some parts \<Rightarrow>
               anchor_text (join_with '' '' (List.map_filter (\<lambda>p. Option.bind (jget ''text'' p) as_str) parts)))"

definition extract_gemini_session_id :: "(string \<Rightarrow> string) \<Rightarrow> (json \<Rightarrow> string) \<Rightarrow> json \<Rightarrow> string" where
  "extract_gemini_session_id sha256_hex to_string request =
     session_of sha256_hex
       (case Option.bind (Option.bind (jget ''contents'' request) as_array) (first_some gemini_anchor) of
          Some t \<Rightarrow> t
        | None \<Rightarrow> to_string request)"

section \<open>Lemmas\<close>

lemma first_some_append: "first_some f (xs @ ys) = (case first_some f xs of Some y \<Rightarrow> Some y | None \<Rightarrow> first_some f ys)"
  by (induction xs) (auto split: option.split)

lemma first_some_None: "first_some f xs = None \<longleftrightarrow> (\<forall>x\<in>set xs. f x = None)"
  by (induction xs) (auto split: option.split)

section \<open>Properties\<close>

text \<open>
  Note: once a user message says enough, the session id stays the same for every continuation of the
  conversation, whatever is rest and whatever model or tools the later requests have.
\<close>

theorem session_stable:
  assumes "\<exists>mg\<in>set (rq_messages r). message_anchor mg \<noteq> None"
    and "rq_messages r' = rq_messages r @ rest" and "rq_metadata r' = rq_metadata r"
  shows "extract_session_id sha debug r' = extract_session_id sha debug r"
proof -
  have "first_some message_anchor (rq_messages r) \<noteq> None" using assms(1) by (simp add: first_some_None)
  then obtain y where "first_some message_anchor (rq_messages r) = Some y" by auto
  then show ?thesis
    by (cases "explicit_id (rq_metadata r)") (simp_all add: extract_session_id_def assms(2,3) first_some_append)
qed

definition first_turn :: claude_request where
  "first_turn = \<lparr>rq_model = ''m'', rq_messages = [\<lparr>cm_role = ''user'', cm_content = MString ''Write a parser''\<rparr>],
     rq_system = None, rq_tools = None, rq_stream = False, rq_max_tokens = None, rq_temperature = None,
     rq_top_p = None, rq_top_k = None, rq_thinking = None, rq_stop_sequences = None, rq_metadata = None,
     rq_output_config = None\<rparr>"

definition said :: "string \<Rightarrow> string \<Rightarrow> claude_message" where
  "said role t = \<lparr>cm_role = role, cm_content = MString t\<rparr>"

lemma session_stable_witness:
  "extract_session_id id (\<lambda>_. ''?'') (first_turn\<lparr>rq_messages := rq_messages first_turn @ [said ''assistant'' ''Done'', said ''user'' ''Thanks'']\<rparr>)
   = extract_session_id id (\<lambda>_. ''?'') first_turn"
proof (rule session_stable)
  have t: "trim ''Write a parser'' = ''Write a parser''" by (simp add: trim_plain plain_char_def)
  show "\<exists>mg\<in>set (rq_messages first_turn). message_anchor mg \<noteq> None"
    by (simp add: first_turn_def message_anchor_def message_text_def anchor_text_def t Let_def)
qed (simp_all add: first_turn_def)

text \<open>
  Note: a conversation whose messages are all short is known by its last message, so every turn is a new
  session although the id is meant to be the same across all turns.
\<close>

theorem short_sessions_change:
  "let r = first_turn\<lparr>rq_messages := [said ''user'' ''Hi'']\<rparr>;
       r' = first_turn\<lparr>rq_messages := [said ''user'' ''Hi'', said ''assistant'' ''Hello'', said ''user'' ''Go on'']\<rparr>;
       debug = (\<lambda>c. case c of MString s \<Rightarrow> s | MArray _ \<Rightarrow> [])
   in extract_session_id id debug r = ''sid-Hi'' \<and> extract_session_id id debug r' = ''sid-Go on''"
proof -
  have "message_anchor (said ''user'' ''Hi'') = None" "message_anchor (said ''user'' ''Go on'') = None"
    by (simp_all add: message_anchor_def said_def message_text_def anchor_text_def Let_def trim_plain plain_char_def)
  moreover have "message_anchor (said ''assistant'' ''Hello'') = None" by (simp add: message_anchor_def said_def)
  ultimately show ?thesis
    by (simp add: first_turn_def extract_session_id_def explicit_id_def session_of_def Let_def) (simp add: said_def)
qed

end
