(* ===== verification/Request_Transform.thy ===== *)
theory Request_Transform
  imports Request_Contents Session_Manager Tool_Pairing Model_Mapping
begin

text \<open>
  The whole translation of a Claude request, \<open>mappers/claude/request/monolith.rs\<close>, with the retention of
  images, \<open>common/image_retention.rs\<close>. The environment variables, the global settings, the random id of the
  request and the debug printer are fields of the environment.
\<close>

section \<open>Old images\<close>

definition DEFAULT_IMAGE_RETENTION_TURNS :: nat where "DEFAULT_IMAGE_RETENTION_TURNS = 5"

definition IMAGE_PLACEHOLDER :: string where "IMAGE_PLACEHOLDER = ''[Image was provided in this message]''"

definition get_retention_turns :: "string option \<Rightarrow> nat" where
  "get_retention_turns var =
     (case Option.bind var (parse_uint (2 ^ 64)) of Some n \<Rightarrow> n | None \<Rightarrow> DEFAULT_IMAGE_RETENTION_TURNS)"

definition is_image_mime :: "json \<Rightarrow> string \<Rightarrow> bool" where
  "is_image_mime part key \<longleftrightarrow>
     (case Option.bind (Option.bind (jget key part) (jget ''mimeType'')) as_str of
        Some m \<Rightarrow> starts_with m ''image/'' | None \<Rightarrow> False)"

definition without_image :: "json \<Rightarrow> json" where
  "without_image part =
     (if is_image_mime part ''inlineData'' \<or> is_image_mime part ''fileData''
      then JObj [(''text'', JStr IMAGE_PLACEHOLDER)] else part)"

definition replace_inline_data_in_parts :: "json \<Rightarrow> json" where
  "replace_inline_data_in_parts = on_parts (map without_image)"

definition is_user_content :: "json \<Rightarrow> bool" where
  "is_user_content c \<longleftrightarrow> Option.bind (jget ''role'' c) as_str = Some ''user''"

definition user_indices :: "json list \<Rightarrow> nat list" where
  "user_indices cs = filter (\<lambda>i. is_user_content (cs ! i)) [0..<length cs]"

definition strip_old_images :: "string option \<Rightarrow> json \<Rightarrow> json" where
  "strip_old_images var conts =
     (case conts of
        JArr cs \<Rightarrow>
          let retention_turns = get_retention_turns var;
              total_user = length (user_indices cs)
          in if total_user \<le> retention_turns then conts
             else JArr (fold (\<lambda>i cs. cs[i := replace_inline_data_in_parts (cs ! i)])
                          (take (total_user - retention_turns) (user_indices cs)) cs)
      | _ \<Rightarrow> conts)"

section \<open>The translation\<close>

record transform_env =
  te_contents :: contents_env
  te_budget :: thinking_budget_config
  te_safety_threshold :: "string option"
  te_retention_turns :: "string option"
  te_debug :: "message_content \<Rightarrow> string"
  te_uuid :: string

datatype transform_error = UnknownModel string | MissingSignatures string | BuildFailed build_error

definition prepare_messages :: "claude_message list \<Rightarrow> claude_message list" where
  "prepare_messages ms = sort_thinking_blocks_first (clean_cache_control_from_messages (merge_consecutive_messages ms))"

text \<open>\<open>serde_json::to_value\<close> of a tool\<close>

definition tool_value :: "claude_tool \<Rightarrow> json" where
  "tool_value t =
     JObj (opt_field ''description'' JStr (ct_description t) @ opt_field ''input_schema'' (\<lambda>s. s) (ct_input_schema t)
           @ opt_field ''name'' JStr (ct_name t) @ opt_field ''type'' JStr (ct_type t))"

definition tools_of :: "claude_request \<Rightarrow> claude_tool list" where
  "tools_of r = (case rq_tools r of Some ts \<Rightarrow> ts | None \<Rightarrow> [])"

definition has_web_search_tool :: "claude_request \<Rightarrow> bool" where
  "has_web_search_tool r \<longleftrightarrow>
     list_ex (\<lambda>t. is_web_search t \<or> ct_name t = Some ''google_search'' \<or> ct_type t = Some ''web_search_20250305'') (tools_of r)"

definition tool_schemas :: "claude_request \<Rightarrow> (string, json) table" where
  "tool_schemas r =
     fold (\<lambda>t m. case (ct_name t, ct_input_schema t) of (Some n, Some s) \<Rightarrow> tput n s m | _ \<Rightarrow> m) (tools_of r) []"

definition has_mcp_tools :: "claude_request \<Rightarrow> bool" where
  "has_mcp_tools r \<longleftrightarrow>
     list_ex (\<lambda>t. case ct_name t of Some n \<Rightarrow> starts_with n ''mcp__'' | None \<Rightarrow> False) (tools_of r)"

definition mapped_model_of :: "claude_request \<Rightarrow> transform_error + string" where
  "mapped_model_of r =
     (if has_web_search_tool r then Inr ''gemini-2.5-flash''
      else case map_claude_model_to_gemini (rq_model r) of Some m \<Rightarrow> Inr m | None \<Rightarrow> Inl (UnknownModel (rq_model r)))"

definition target_model_supports_thinking :: "string \<Rightarrow> bool" where
  "target_model_supports_thinking mapped_model =
     (let model_lower = to_lowercase mapped_model
      in if starts_with model_lower ''claude-'' then True
         else if starts_with model_lower ''gemini-''
         then \<not> (starts_with model_lower ''gemini-1.'' \<or> starts_with model_lower ''gemini-2.0'')
         else False)"

definition is_thinking_enabled :: "claude_request \<Rightarrow> string \<Rightarrow> bool" where
  "is_thinking_enabled r mapped_model \<longleftrightarrow>
     ((case rq_thinking r of
         Some t \<Rightarrow> tc_type t = ''enabled'' \<or> tc_type t = ''adaptive''
       | None \<Rightarrow> should_enable_thinking_by_default (rq_model r))
      \<or> contains mapped_model ''-thinking'')
     \<and> target_model_supports_thinking mapped_model"

definition is_thinking :: "content_block \<Rightarrow> bool" where
  "is_thinking b = (case b of CThinking _ _ _ \<Rightarrow> True | _ \<Rightarrow> False)"

text \<open>Whether signatures are missing: calls and thinking in the history, and no signature to send with the calls\<close>

definition signatures_missing :: "nanos \<Rightarrow> signature_cache \<Rightarrow> claude_request \<Rightarrow> string \<Rightarrow> bool" where
  "signatures_missing now cache r session_id \<longleftrightarrow>
     list_ex (\<lambda>m. list_ex is_tool_use (blocks_of m)) (rq_messages r)
     \<and> list_ex (\<lambda>m. cm_role m = ''assistant'' \<and> list_ex is_thinking (blocks_of m)) (rq_messages r)
     \<and> \<not> has_valid_signature_for_function_calls now cache (rq_messages r)
          (get_session_signature now session_id cache) session_id"

definition jset :: "string \<Rightarrow> json \<Rightarrow> json \<Rightarrow> json" where
  "jset k v j = (case j of JObj m \<Rightarrow> JObj (tput k v m) | _ \<Rightarrow> j)"

definition tool_config :: json where
  "tool_config = JObj [(''functionCallingConfig'', JObj [(''mode'', JStr ''VALIDATED'')])]"

definition with_image_config :: "json \<Rightarrow> json \<Rightarrow> json" where
  "with_image_config image_config inner =
     (case inner of
        JObj m \<Rightarrow>
          let m = tentry ''generationConfig'' (JObj []) (tdel ''systemInstruction'' (tdel ''tools'' m))
          in JObj (case tget m ''generationConfig'' of
                     Some (JObj g) \<Rightarrow>
                       tput ''generationConfig''
                         (JObj (tput ''imageConfig'' image_config
                            (tdel ''responseModalities'' (tdel ''responseMimeType'' (tdel ''thinkingConfig'' g))))) m
                   | _ \<Rightarrow> m)
      | _ \<Rightarrow> inner)"

definition inner_request ::
  "transform_env \<Rightarrow> claude_request \<Rightarrow> request_config \<Rightarrow> json \<Rightarrow> json option \<Rightarrow> json \<Rightarrow> json" where
  "inner_request env r config conts tools generation_config =
     (let base = deep_clean_undefined (JObj [(''contents'', conts), (''safetySettings'', build_safety_settings (te_safety_threshold env))]);
          base = (let sys_inst = build_system_instruction (rq_system r) (has_mcp_tools r) in jset ''systemInstruction'' sys_inst base);
          base = (if generation_config = JNull then base else jset ''generationConfig'' generation_config base);
          base = (case tools of
                    Some tools_val \<Rightarrow> jset ''toolConfig'' tool_config (jset ''tools'' tools_val base)
                  | None \<Rightarrow> base);
          base = (if rc_inject_google_search config \<and> \<not> has_web_search_tool r then inject_google_search_tool base else base)
      in case rc_image_config config of Some c \<Rightarrow> with_image_config c base | None \<Rightarrow> base)"

definition with_session :: "claude_request \<Rightarrow> json \<Rightarrow> json" where
  "with_session r inner = (case rq_metadata r of Some (Some user_id) \<Rightarrow> jset ''sessionId'' (JStr user_id) inner | _ \<Rightarrow> inner)"

definition request_body :: "transform_env \<Rightarrow> claude_request \<Rightarrow> string \<Rightarrow> string \<Rightarrow> request_config \<Rightarrow> json \<Rightarrow> json" where
  "request_body env r project_id mapped_model config inner =
     (let body = deep_clean_cache_control
                   (JObj [(''model'', JStr (rc_final_model config)), (''project'', JStr project_id),
                          (''request'', with_session r inner), (''requestId'', JStr (''agent-'' @ te_uuid env)),
                          (''requestType'', JStr (rc_request_type config)), (''userAgent'', JStr ''antigravity'')])
      in if starts_with mapped_model ''claude-''
         then repair_tool_pairing_after_strip (strip_non_claude_thought_signatures body) else body)"

definition transform_context :: "transform_env \<Rightarrow> claude_request \<Rightarrow> string \<Rightarrow> string \<Rightarrow> bool \<Rightarrow> contents_ctx" where
  "transform_context env r mapped_model session_id is_retry =
     \<lparr>xc_thinking_enabled = is_thinking_enabled r mapped_model, xc_session_id = session_id,
      xc_allow_dummy_thought = False, xc_is_retry = is_retry, xc_mapped_model = mapped_model,
      xc_name_to_schema = tool_schemas r\<rparr>"

definition transform_claude_request_in ::
  "transform_env \<Rightarrow> claude_request \<Rightarrow> string \<Rightarrow> bool \<Rightarrow> transform_error + json" where
  "transform_claude_request_in env claude_req project_id is_retry =
     (let r = claude_req\<lparr>rq_messages := prepare_messages (rq_messages claude_req)\<rparr>;
          cenv = te_contents env;
          session_id = extract_session_id (xe_sha256 cenv) (te_debug env) r
      in case mapped_model_of r of
           Inl e \<Rightarrow> Inl e
         | Inr mapped_model \<Rightarrow>
             let config = resolve_request_config (rq_model r) mapped_model (map_option (map tool_value) (rq_tools r)) None None;
                 thinking = is_thinking_enabled r mapped_model
             in if thinking \<and> signatures_missing (xe_now cenv) (xe_cache cenv) r session_id
                then Inl (MissingSignatures session_id)
                else
                  let generation_config = build_generation_config (te_budget env) r (has_web_search_tool r) thinking mapped_model
                  in case build_google_contents cenv (transform_context env r mapped_model session_id is_retry) (rq_messages r) of
                       Inl e \<Rightarrow> Inl (BuildFailed e)
                     | Inr conts \<Rightarrow>
                         (case build_tools (xe_schema cenv) (xe_stack cenv) (rq_tools r) (has_web_search_tool r) of
                            None \<Rightarrow> Inl (BuildFailed StackOverflow)
                          | Some tools \<Rightarrow>
                              Inr (request_body env r project_id mapped_model config
                                     (inner_request env r config (strip_old_images (te_retention_turns env) conts)
                                        tools generation_config))))"

section \<open>Parts of the shape the code builds\<close>

definition tidy_map :: "jmap \<Rightarrow> bool" where
  "tidy_map m \<longleftrightarrow> twf m
     \<and> (\<forall>v. tget m ''functionCall'' = Some v \<or> tget m ''functionResponse'' = Some v \<longrightarrow> (\<exists>f. v = JObj f \<and> twf f))
     \<and> (tget m ''functionCall'' \<noteq> None \<or> tget m ''functionResponse'' \<noteq> None
          \<longrightarrow> tget m ''inlineData'' = None \<and> tget m ''fileData'' = None)"

definition tidy :: "json \<Rightarrow> bool" where
  "tidy p \<longleftrightarrow> (\<exists>m. p = JObj m \<and> tidy_map m)"

lemma tidy_obj [simp]: "tidy (JObj m) = tidy_map m"
  by (simp add: tidy_def)

lemma tidy_plain: "twf m \<Longrightarrow> tget m ''functionCall'' = None \<Longrightarrow> tget m ''functionResponse'' = None \<Longrightarrow> tidy_map m"
  by (simp add: tidy_map_def)

lemma tidy_parts:
  "tidy (thinking_part t s)" "tidy (JObj [(''text'', x)])" "tidy (JObj [(''inlineData'', x)])"
  "tidy (call_part i n v)"
  by (auto simp: thinking_part_def call_part_def tidy_map_def split: option.split)

lemma tidy_single [simp]: "k \<noteq> ''functionCall'' \<Longrightarrow> k \<noteq> ''functionResponse'' \<Longrightarrow> tidy_map [(k, x)]"
  by (simp add: tidy_map_def)

lemma tidy_signed: "tidy p \<Longrightarrow> tidy (with_signature s p)"
  by (auto simp: tidy_def tidy_map_def with_signature_def)

lemma tidy_sign_call: "tidy p \<Longrightarrow> tidy (sign_call ctx s p)"
  by (simp add: sign_call_def tidy_signed split: option.split)

lemma image_part_tidy: "image_part p \<Longrightarrow> tidy p"
  by (auto simp: image_part_def tidy_map_def)

lemma interrupted_tidy: "tidy (interrupted_result names i)"
  by (simp add: interrupted_result_def function_response_def tidy_map_def)

lemma result_part_tidy:
  assumes "build_tool_result_part e tid content err name sig = Inr ps"
  shows "list_all tidy ps"
proof -
  obtain t imgs where x: "extract_content_and_images e (case content of JArr a \<Rightarrow> JArr (sanitize_tool_result_blocks e a) | _ \<Rightarrow> content) content
      = Inr (t, imgs)"
    using assms by (auto simp: build_tool_result_part_def split: sum.splits)
  then have "list_all image_part imgs"
    by (auto simp: extract_content_and_images_def split: json.splits sum.splits dest: collect_content_images)
  then have "list_all tidy imgs" by (auto simp: list_all_iff image_part_tidy)
  then show ?thesis using assms x
    by (auto simp: build_tool_result_part_def function_response_def tidy_map_def split: option.splits)
qed

lemma add_block_tidy:
  assumes "add_block env ctx asst b a = Inr a'" and "list_all tidy (ba_parts a)"
  shows "list_all tidy (ba_parts a')"
proof (cases b)
  case (CText t)
  then show ?thesis using assms by (auto simp: add_text_def push_part_def Let_def tidy_parts split: if_splits)
next
  case (CThinking t s c)
  then show ?thesis using assms
    by (auto simp: add_thinking_def push_part_def Let_def tidy_parts split: if_splits prod.splits dest!: push_cleaned_thinking)
next
  case (CImage src c)
  then show ?thesis using assms by (auto simp: add_inline_def push_part_def tidy_parts split: if_splits sum.splits)
next
  case (CDocument src c)
  then show ?thesis using assms by (auto simp: add_inline_def push_part_def tidy_parts split: if_splits sum.splits)
next
  case (CToolUse i n v s c)
  then show ?thesis using assms
    by (auto simp: add_call_def push_part_def Let_def tidy_parts tidy_sign_call split: sum.splits dest!: cleaned_call)
next
  case (CToolResult i v e)
  then show ?thesis using assms
    by (auto simp: add_result_def Let_def split: sum.splits dest!: result_part_tidy)
qed (use assms in \<open>auto simp: push_part_def tidy_parts\<close>)

lemma add_blocks_tidy:
  "add_blocks env ctx asst bs a = Inr a' \<Longrightarrow> list_all tidy (ba_parts a) \<Longrightarrow> list_all tidy (ba_parts a')"
  by (induction bs arbitrary: a) (auto split: sum.splits dest: add_block_tidy)

lemma tidy_thought: "tidy p \<Longrightarrow> tidy (case p of JObj m \<Rightarrow> JObj (tentry ''thought'' v m) | _ \<Rightarrow> p)"
  by (auto simp: tidy_def tidy_map_def)

lemma ensure_first_tidy: "list_all tidy ps \<Longrightarrow> list_all tidy (ensure_thinking_block_first ps)"
  by (cases ps) (auto simp: ensure_thinking_block_first_def tidy_parts tidy_thought)

lemma build_contents_tidy:
  assumes "build_contents env ctx c asst s = Inr (ps, s')"
  shows "list_all tidy ps"
proof -
  let ?start = "\<lparr>ba_parts = [], ba_saw_non_thinking = False, ba_result_ids = {}, ba_state = s\<rparr>"
  obtain a where a: "(case c of MString t \<Rightarrow>
        Inr (if t \<noteq> ''(no content)'' \<and> trim t \<noteq> [] then push_part (JObj [(''text'', JStr (trim t))]) ?start else ?start)
      | MArray blocks \<Rightarrow> add_blocks env ctx asst blocks ?start) = Inr a"
    and fin: "finish_contents ctx asst a = (ps, s')"
    using assms by (auto simp: build_contents_def Let_def split: sum.splits)
  have "list_all tidy (ba_parts a)"
    using a by (cases c) (auto simp: push_part_def tidy_parts dest: add_blocks_tidy)
  moreover have "list_all tidy (map (interrupted_result names) is)" for names "is"
    by (simp add: list_all_iff interrupted_tidy)
  ultimately show ?thesis using fin
    by (auto simp: finish_contents_def answer_pending_def inject_missing_tool_results_def Let_def ensure_first_tidy
        simp del: list.pred_map split: if_splits)
qed

text \<open>Contents whose parts are all of that shape\<close>

definition tidy_content :: "json \<Rightarrow> bool" where
  "tidy_content c \<longleftrightarrow> (\<exists>m ps. c = JObj m \<and> twf m \<and> tget m ''parts'' = Some (JArr ps) \<and> list_all tidy ps
     \<and> (\<exists>r. tget m ''role'' = Some (JStr r) \<and> r \<noteq> ''[undefined]''))"

lemma reorder_tidy: "list_all tidy ps \<Longrightarrow> list_all tidy (reorder_gemini_parts ps)"
  by (auto simp: reorder_is_sort list_all_iff)

lemma build_google_content_tidy:
  assumes "build_google_content env ctx ex mg s = Inr (c, s')" and "c \<noteq> JNull" and "cm_role mg \<noteq> ''[undefined]''"
  shows "tidy_content c"
proof -
  have "tidy_content (content_message r ps)" if "r \<noteq> ''[undefined]''" "list_all tidy ps" for r ps
    using that by (simp add: content_message_def tidy_content_def)
  moreover have "list_all tidy (unanswered ex s)" by (simp add: unanswered_def list_all_iff interrupted_tidy)
  ultimately show ?thesis using assms
    by (auto simp: build_google_content_def Let_def reorder_tidy dest!: build_contents_tidy split: sum.splits if_splits)
qed

lemma google_contents_tidy:
  "google_contents env ctx ex ms s = Inr cs \<Longrightarrow> list_all (\<lambda>m. cm_role m \<noteq> ''[undefined]'') ms \<Longrightarrow> list_all tidy_content cs"
  by (induction ms arbitrary: s cs) (auto split: sum.splits if_splits, blast intro: build_google_content_tidy)

lemma append_parts_tidy: "tidy_content c \<Longrightarrow> tidy_content d \<Longrightarrow> tidy_content (append_parts c d)"
  by (auto simp: append_parts_def tidy_content_def parts_in_def jget_def as_array_def reorder_tidy)

lemma merge_roles_tidy: "list_all tidy_content (c # cs) \<Longrightarrow> list_all tidy_content (merge_roles_from c cs)"
  by (induction c cs rule: merge_roles_from.induct) (auto simp: append_parts_tidy)

lemma drop_keys_obj: "drop_keys ks (JObj m) = JObj (tmapv (drop_keys ks) (tretain (\<lambda>k _. k \<notin> set ks) m))"
  by (simp add: tmapv_def tretain_def)

lemma tidy_drop:
  assumes "tidy p"
  shows "tidy (drop_keys ks p)"
proof -
  obtain m where p: "p = JObj m" and m: "tidy_map m" using assms by (auto simp: tidy_def)
  let ?m = "tmapv (drop_keys ks) (tretain (\<lambda>k _. k \<notin> set ks) m)"
  have g: "tget ?m k = (if k \<in> set ks then None else map_option (drop_keys ks) (tget m k))" for k
    using m by (simp add: tidy_map_def tget_tretain split: option.split)
  have o: "\<exists>f'. drop_keys ks (JObj f) = JObj f' \<and> twf f'" if "twf f" for f
    using that by (simp only: drop_keys_obj) auto
  have "tidy_map ?m"
    unfolding tidy_map_def g using m o by (auto simp: tidy_map_def)
  then show ?thesis unfolding p drop_keys_obj by simp
qed

lemma tidy_content_drop:
  assumes "tidy_content c" and "''parts'' \<notin> set ks" and "''role'' \<notin> set ks"
  shows "tidy_content (drop_keys ks c)"
proof -
  obtain m ps r where c: "c = JObj m" "twf m" "tget m ''parts'' = Some (JArr ps)" "list_all tidy ps"
    "tget m ''role'' = Some (JStr r)" "r \<noteq> ''[undefined]''"
    using assms by (auto simp: tidy_content_def)
  have "list_all tidy (map (drop_keys ks) ps)" using c(4) by (auto simp: list_all_iff tidy_drop)
  then show ?thesis using c assms(2,3) unfolding c(1) drop_keys_obj
    by (simp add: tidy_content_def tget_tretain del: drop_keys.simps) (simp del: list.pred_map)
qed

lemma build_google_contents_tidy:
  assumes "build_google_contents env ctx ms = Inr v" and "list_all (\<lambda>m. cm_role m \<noteq> ''[undefined]'') ms"
  shows "\<exists>cs. v = JArr cs \<and> list_all tidy_content cs"
proof -
  obtain cs where cs: "google_contents env ctx (existing_results ms) ms initial_state = Inr cs"
    and v: "v = JArr (if xc_thinking_enabled ctx then merge_adjacent_roles cs
        else map clean_thinking_fields_recursive (merge_adjacent_roles cs))"
    using assms(1) by (auto simp: build_google_contents_def Let_def split: sum.splits)
  have "list_all tidy_content (merge_adjacent_roles cs)"
    using merge_roles_tidy google_contents_tidy [OF cs assms(2)] by (cases cs) (auto simp: merge_adjacent_roles_def)
  then show ?thesis using v by (auto simp: list_all_iff clean_thinking_fields_recursive_def tidy_content_drop)
qed

section \<open>What the later steps keep\<close>

text \<open>Two contents with the same role, calls and answers, up to a set of ids\<close>

definition same_ids :: "string set \<Rightarrow> json \<Rightarrow> json \<Rightarrow> bool" where
  "same_ids X c d \<longleftrightarrow> tidy_content d \<and> content_role d = content_role c
     \<and> content_calls d = content_calls c - X \<and> content_answers d = content_answers c - X"

lemma tidy_ids_undefined:
  assumes "tidy p"
  shows "call_id (deep_clean_undefined p) = (if call_id p = Some ''[undefined]'' then None else call_id p)"
    and "response_of (deep_clean_undefined p) = (if response_of p = Some ''[undefined]'' then None else response_of p)"
    and "tidy (deep_clean_undefined p)"
proof -
  have d: "deep_clean_undefined (JObj m) = JObj (tmapv deep_clean_undefined (tretain (\<lambda>_ v. v \<noteq> JStr ''[undefined]'') m))" for m
    by (simp add: tmapv_def tretain_def)
  have g: "jget k (deep_clean_undefined (JObj m)) =
      (case tget m k of None \<Rightarrow> None | Some v \<Rightarrow> if v = JStr ''[undefined]'' then None else Some (deep_clean_undefined v))"
    if "twf m" for m k
    using that unfolding d by (simp add: jget_def tget_tretain split: option.split)
  have s: "as_str (deep_clean_undefined v) = as_str v" for v
    by (cases v) (simp_all add: as_str_def)
  obtain m where p: "p = JObj m" and m: "tidy_map m" using assms by (auto simp: tidy_def)
  have w: "twf m" using m by (simp add: tidy_map_def)
  have f: "Option.bind (Option.bind (jget k (deep_clean_undefined p)) (jget ''id'')) as_str
      = (let i = Option.bind (Option.bind (jget k p) (jget ''id'')) as_str
         in if i = Some ''[undefined]'' then None else i)"
    if k: "\<And>v. tget m k = Some v \<Longrightarrow> \<exists>f. v = JObj f \<and> twf f" for k
  proof (cases "tget m k")
    case None
    then show ?thesis unfolding p g [OF w] by (simp add: jget_def)
  next
    case (Some v)
    then obtain f where f: "v = JObj f" "twf f" using k by blast
    have "Option.bind (jget ''id'' (deep_clean_undefined (JObj f))) as_str
        = (let i = Option.bind (tget f ''id'') as_str in if i = Some ''[undefined]'' then None else i)"
      unfolding g [OF f(2)] by (cases "tget f ''id''") (auto simp: s as_str_def split: json.splits)
    then show ?thesis using Some f unfolding p g [OF w] by (simp add: jget_def Let_def del: deep_clean_undefined.simps)
  qed
  show "call_id (deep_clean_undefined p) = (if call_id p = Some ''[undefined]'' then None else call_id p)"
    "response_of (deep_clean_undefined p) = (if response_of p = Some ''[undefined]'' then None else response_of p)"
    using f [of "''functionCall''"] f [of "''functionResponse''"] m
    by (simp_all add: call_id_def response_of_def tidy_map_def Let_def)
  let ?m = "tmapv deep_clean_undefined (tretain (\<lambda>_ v. v \<noteq> JStr ''[undefined]'') m)"
  have t: "tget ?m k = (case tget m k of None \<Rightarrow> None | Some v \<Rightarrow> if v = JStr ''[undefined]'' then None else Some (deep_clean_undefined v))" for k
    using g [OF w, of k] unfolding d by (simp add: jget_def)
  have o: "\<exists>f'. deep_clean_undefined (JObj f) = JObj f' \<and> twf f'" if "twf f" for f
    using that by (simp only: d) auto
  have "tidy_map ?m" unfolding tidy_map_def t using m w o by (auto simp: tidy_map_def split: option.splits if_splits)
  then show "tidy (deep_clean_undefined p)" unfolding p d by simp
qed

lemma ids_undefined:
  "list_all tidy ps \<Longrightarrow> set (calls_in (map deep_clean_undefined ps)) = set (calls_in ps) - {''[undefined]''}
    \<and> set (responses_in (map deep_clean_undefined ps)) = set (responses_in ps) - {''[undefined]''}"
proof (induction ps)
  case (Cons p ps)
  then have "tidy p" by simp
  note ids = tidy_ids_undefined(1,2) [OF this]
  show ?case using Cons by (cases "call_id p"; cases "response_of p") (auto simp: ids)
qed simp

lemma tidy_parts_in: "tidy_content c \<Longrightarrow> \<exists>ps. parts_in c = Some ps \<and> list_all tidy ps"
  by (auto simp: tidy_content_def parts_in_def jget_def as_array_def)

lemma content_obj:
  assumes "tget m ''parts'' = Some (JArr ps)" and "tget m ''role'' = Some (JStr r)"
  shows "content_role (JObj m) = r" "content_calls (JObj m) = set (calls_in ps)"
    "content_answers (JObj m) = set (responses_in ps)"
    "twf m \<Longrightarrow> list_all tidy ps \<Longrightarrow> r \<noteq> ''[undefined]'' \<Longrightarrow> tidy_content (JObj m)"
  using assms
  by (simp_all add: tidy_content_def content_role_def content_calls_def content_answers_def parts_in_def jget_def
        jindex_def as_array_def as_str_def)

lemma tidy_contentE:
  assumes "tidy_content c"
  obtains m ps r where "c = JObj m" "twf m" "tget m ''parts'' = Some (JArr ps)" "list_all tidy ps"
    "tget m ''role'' = Some (JStr r)" "r \<noteq> ''[undefined]''"
  using assms by (auto simp: tidy_content_def)

lemma same_undefined:
  assumes "tidy_content c"
  shows "same_ids {''[undefined]''} c (deep_clean_undefined c)"
proof -
  from assms obtain m ps r where c: "c = JObj m" "twf m" "tget m ''parts'' = Some (JArr ps)" "list_all tidy ps"
    "tget m ''role'' = Some (JStr r)" "r \<noteq> ''[undefined]''" by (rule tidy_contentE)
  define m' where "m' = tmapv deep_clean_undefined (tretain (\<lambda>_ v. v \<noteq> JStr ''[undefined]'') m)"
  have d: "deep_clean_undefined c = JObj m'" unfolding c(1) m'_def by (simp add: tmapv_def tretain_def)
  have t: "tget m' ''parts'' = Some (JArr (map deep_clean_undefined ps))" "tget m' ''role'' = Some (JStr r)" "twf m'"
    using c by (simp_all add: m'_def tget_tretain)
  have "list_all tidy (map deep_clean_undefined ps)"
    using c(4) by (simp add: list_all_iff tidy_ids_undefined)
  then show ?thesis
    using content_obj [OF c(3,5)] content_obj [OF t(1,2)] t(3) c(6) ids_undefined [OF c(4)]
    unfolding same_ids_def d by (simp add: c(1))
qed

lemma same_drop:
  assumes "tidy_content c" and "set ks \<inter> {''functionCall'', ''functionResponse'', ''id'', ''parts'', ''role''} = {}"
  shows "same_ids {} c (drop_keys ks c)"
proof -
  have "content_role (drop_keys ks c) = content_role c"
    using assms(2) by (simp add: content_role_def jindex_def jget_drop_keys split: option.split)
       (simp add: as_str_drop_keys)
  then show ?thesis using assms drop_keys_ids [of ks c] tidy_content_drop [of c ks] by (auto simp: same_ids_def)
qed

lemma without_image_ids:
  assumes "tidy p"
  shows "call_id (without_image p) = call_id p \<and> response_of (without_image p) = response_of p \<and> tidy (without_image p)"
proof (cases "without_image p = p")
  case False
  obtain m where p: "p = JObj m" and m: "tidy_map m" using assms by (auto simp: tidy_def)
  from False have w: "without_image p = JObj [(''text'', JStr IMAGE_PLACEHOLDER)]"
    and "is_image_mime p ''inlineData'' \<or> is_image_mime p ''fileData''"
    by (auto simp: without_image_def split: if_splits)
  then have "tget m ''inlineData'' \<noteq> None \<or> tget m ''fileData'' \<noteq> None"
    by (auto simp: is_image_mime_def p jget_def)
  then have "tget m ''functionCall'' = None" "tget m ''functionResponse'' = None" using m by (auto simp: tidy_map_def)
  then show ?thesis unfolding w by (simp add: p call_id_def response_of_def jget_def)
qed (use assms in simp)

lemma same_without_images:
  assumes "tidy_content c"
  shows "same_ids {} c (replace_inline_data_in_parts c)"
proof -
  from assms obtain m ps r where c: "c = JObj m" "twf m" "tget m ''parts'' = Some (JArr ps)" "list_all tidy ps"
    "tget m ''role'' = Some (JStr r)" "r \<noteq> ''[undefined]''" by (rule tidy_contentE)
  define m' where "m' = tput ''parts'' (JArr (map without_image ps)) m"
  have d: "replace_inline_data_in_parts c = JObj m'"
    using c by (simp add: replace_inline_data_in_parts_def on_parts_def jmap_key_def jmap_array_def m'_def)
  have t: "tget m' ''parts'' = Some (JArr (map without_image ps))" "tget m' ''role'' = Some (JStr r)" "twf m'"
    using c by (simp_all add: m'_def)
  have "calls_in (map without_image ps) = calls_in ps \<and> responses_in (map without_image ps) = responses_in ps
      \<and> list_all tidy (map without_image ps)"
    using c(4) by (induction ps) (auto simp: without_image_ids)
  then show ?thesis
    using content_obj [OF c(3,5)] content_obj [OF t(1,2)] t(3) c(6)
    unfolding same_ids_def d by (simp add: c(1))
qed

lemma same_trans: "same_ids X c d \<Longrightarrow> same_ids Y d e \<Longrightarrow> same_ids (X \<union> Y) c e"
  by (auto simp: same_ids_def)

lemma same_refl: "tidy_content c \<Longrightarrow> same_ids {} c c"
  by (simp add: same_ids_def)

text \<open>Lists of contents\<close>

lemma same_updates:
  assumes "list_all tidy_content cs"
  shows "list_all2 (same_ids {}) cs (fold (\<lambda>i cs. cs[i := replace_inline_data_in_parts (cs ! i)]) is cs)"
proof -
  have step: "list_all2 (same_ids {}) cs (ds[i := replace_inline_data_in_parts (ds ! i)])"
    if ds: "list_all2 (same_ids {}) cs ds" for ds i
  proof (cases "i < length ds")
    case True
    have l: "length cs = length ds" using ds by (rule list_all2_lengthD)
    have "same_ids {} (cs ! i) (ds ! i)" using True l list_all2_nthD [OF ds, of i] by simp
    then have "same_ids {} (cs ! i) (replace_inline_data_in_parts (ds ! i))"
      using same_without_images same_trans [of "{}" "cs ! i" "ds ! i" "{}"] by (auto simp: same_ids_def)
    then have "list_all2 (same_ids {}) (cs[i := cs ! i]) (ds[i := replace_inline_data_in_parts (ds ! i)])"
      by (rule list_all2_update_cong [OF ds])
    then show ?thesis using True l by simp
  qed (simp add: ds list_update_beyond)
  have "list_all2 (same_ids {}) cs (fold (\<lambda>i cs. cs[i := replace_inline_data_in_parts (cs ! i)]) is ds)"
    if "list_all2 (same_ids {}) cs ds" for ds
    using that by (induction "is" arbitrary: ds) (simp_all add: step)
  moreover have "list_all2 (same_ids {}) cs cs" using assms by (simp add: list_all2_conv_all_nth list_all_length same_refl)
  ultimately show ?thesis by blast
qed

lemma same_stripped:
  assumes "list_all tidy_content cs"
  shows "\<exists>ds. strip_old_images var (JArr cs) = JArr ds \<and> list_all2 (same_ids {}) cs ds"
proof -
  have "list_all2 (same_ids {}) cs cs" using assms by (simp add: list_all2_conv_all_nth list_all_length same_refl)
  then show ?thesis using same_updates [OF assms] by (simp add: strip_old_images_def Let_def)
qed

lemma same_map:
  assumes "list_all2 (same_ids X) cs ds" and "\<And>d. tidy_content d \<Longrightarrow> same_ids Y d (f d)"
  shows "list_all2 (same_ids (X \<union> Y)) cs (map f ds)"
proof -
  have "same_ids (X \<union> Y) c (f d)" if "same_ids X c d" for c d
    using that assms(2) [of d] same_trans [of X c d Y "f d"] by (simp add: same_ids_def)
  then show ?thesis using assms(1) by (auto simp: list_all2_conv_all_nth)
qed

text \<open>Answers in the words of the pairing of calls and results\<close>

lemma pairing_ids:
  "Tool_Pairing.role_of c = content_role c" "parts_of c = parts_in c"
  "fst ` set (call_entries c) = content_calls c" "set (response_ids c) = content_answers c"
proof -
  show "Tool_Pairing.role_of c = content_role c"
    by (cases "jget ''role'' c") (simp_all add: Tool_Pairing.role_of_def content_role_def jindex_def as_str_def)
  show p: "parts_of c = parts_in c" by (simp add: parts_of_def parts_in_def)
  have e: "map_option fst (call_entry q) = call_id q" for q
    by (simp add: call_entry_def call_id_def split: option.split)
  have "fst ` set (List.map_filter call_entry ps) = set (List.map_filter call_id ps)" for ps
    by (induction ps) (auto simp: List.map_filter_simps e [symmetric] split: option.split)
  then show "fst ` set (call_entries c) = content_calls c"
    by (simp add: call_entries_def content_calls_def calls_in_def p split: option.split)
  have "response_id = response_of" by (simp add: fun_eq_iff response_id_def response_of_def)
  then show "set (response_ids c) = content_answers c"
    by (simp add: response_ids_def content_answers_def responses_in_def p split: option.split)
qed

lemma no_calls: "call_entries c = [] \<longleftrightarrow> content_calls c = {}"
  by (simp flip: pairing_ids(3))

lemma answered_same:
  "list_all2 (same_ids X) cs ds \<Longrightarrow> each_answered cs \<Longrightarrow> list_all proper_content cs \<Longrightarrow> Tool_Pairing.all_answered ds"
proof (induction cs arbitrary: ds rule: each_answered.induct)
  case (1 c d cs)
  obtain c' d' ds' where ds: "ds = c' # d' # ds'" using 1(2) by (auto simp: list_all2_Cons1)
  have s: "same_ids X c c'" "same_ids X d d'" using 1(2) ds by simp_all
  have a: "Tool_Pairing.all_answered (d' # ds')" using 1 ds by simp
  have "content_calls c' \<subseteq> content_answers d'" using s 1(3) by (auto simp: same_ids_def)
  moreover have "content_calls c' \<noteq> {} \<Longrightarrow> content_role d' = ''user''"
    using s 1(3,4) by (auto simp: same_ids_def proper_content_def)
  ultimately show ?case using a ds by (simp add: answered_by_def pairing_ids no_calls)
qed (auto simp: list_all2_Cons1)

section \<open>Preparing the messages\<close>

lemma tool_uses_set: "set (tool_uses bs) = {i. \<exists>n v s c. CToolUse i n v s c \<in> set bs}"
  by (induction bs) (auto split: content_block.splits)

lemma tool_answers_set: "set (tool_answers bs) = {i. \<exists>v e. CToolResult i v e \<in> set bs}"
  by (induction bs) (auto split: content_block.splits)

definition no_calls_in :: "content_block list \<Rightarrow> bool" where
  "no_calls_in bs \<longleftrightarrow> (\<forall>b\<in>set bs. \<not> is_tool_use b)"

definition no_results_in :: "content_block list \<Rightarrow> bool" where
  "no_results_in bs \<longleftrightarrow> (\<forall>b\<in>set bs. \<not> is_tool_result b)"

lemma uses_empty: "tool_uses bs = [] \<longleftrightarrow> no_calls_in bs"
  by (induction bs) (auto simp: no_calls_in_def split: content_block.split)

lemma answers_empty: "tool_answers bs = [] \<longleftrightarrow> no_results_in bs"
  by (induction bs) (auto simp: no_results_in_def split: content_block.split)

lemma proper_iff:
  "proper mg \<longleftrightarrow> cm_role mg = ''user'' \<and> no_calls_in (blocks_of mg) \<or> cm_role mg = ''assistant'' \<and> no_results_in (blocks_of mg)"
  by (simp add: proper_def uses_empty answers_empty)

lemma blocks_merged:
  "set (blocks_of (mg\<lparr>cm_content := merge_content (cm_content mg) (cm_content nx)\<rparr>))
   \<subseteq> set (blocks_of mg) \<union> set (blocks_of nx) \<union> range CText"
  by (auto simp: blocks_of_def merge_content_def split: message_content.splits)

lemma text_blocks [simp]: "\<not> is_tool_use (CText t)" "\<not> is_tool_result (CText t)"
  by simp_all

lemma proper_merged:
  assumes "proper mg" and "proper nx" and "cm_role mg = cm_role nx"
  shows "proper (mg\<lparr>cm_content := merge_content (cm_content mg) (cm_content nx)\<rparr>)"
  using assms blocks_merged [of mg nx] unfolding proper_iff no_calls_in_def no_results_in_def by fastforce

lemma merge_from_proper: "list_all proper (mg # ms) \<Longrightarrow> list_all proper (merge_from mg ms)"
  by (induction mg ms rule: merge_from.induct) (simp_all add: proper_merged)

lemma merge_proper: "list_all proper ms \<Longrightarrow> list_all proper (merge_consecutive_messages ms)"
  by (cases ms) (auto simp: merge_consecutive_messages_def merge_from_proper)

lemma merge_distinct: "distinct_adj (map cm_role (merge_consecutive_messages ms))"
  by (simp add: merge_roles)

lemma cleaned_kinds: "is_tool_use (without_cache_control b) = is_tool_use b"
  "is_tool_result (without_cache_control b) = is_tool_result b"
  by (cases b; simp)+

lemma blocks_on_blocks: "blocks_of (on_blocks f mg) = (case cm_content mg of MArray bs \<Rightarrow> f bs | MString _ \<Rightarrow> [])"
  "cm_role (on_blocks f mg) = cm_role mg"
  by (cases "cm_content mg"; simp add: on_blocks_def blocks_of_def)+

lemma proper_on_blocks:
  assumes "proper mg" and "\<And>bs b. b \<in> set (f bs) \<Longrightarrow> is_tool_use b \<Longrightarrow> \<exists>b'\<in>set bs. is_tool_use b'"
    and "\<And>bs b. b \<in> set (f bs) \<Longrightarrow> is_tool_result b \<Longrightarrow> \<exists>b'\<in>set bs. is_tool_result b'"
  shows "proper (on_blocks f mg)"
proof (cases "cm_content mg")
  case (MArray bs)
  then have "blocks_of mg = bs" by (simp add: blocks_of_def)
  moreover have "no_calls_in bs \<Longrightarrow> no_calls_in (f bs)" "no_results_in bs \<Longrightarrow> no_results_in (f bs)"
    using assms(2,3) by (meson no_calls_in_def) (meson assms(3) no_results_in_def)
  ultimately show ?thesis using assms(1) MArray unfolding proper_iff blocks_on_blocks by auto
qed (simp add: proper_iff blocks_on_blocks no_calls_in_def no_results_in_def, use assms(1) in \<open>auto simp: proper_iff\<close>)

lemma prepare_proper:
  assumes "list_all proper ms"
  shows "list_all proper (prepare_messages ms) \<and> distinct_adj (map cm_role (prepare_messages ms))"
proof -
  let ?m = "merge_consecutive_messages ms"
  let ?c = "clean_cache_control_from_messages ?m"
  have c: "list_all proper ?c"
  proof -
    have "proper (on_blocks (map without_cache_control) mg)" if "proper mg" for mg
      using that by (rule proper_on_blocks) (auto simp: cleaned_kinds)
    then show ?thesis using merge_proper [OF assms]
      by (auto simp: clean_cache_control_from_messages_def list_all_iff)
  qed
  have "list_all proper (sort_thinking_blocks_first ?c)"
  proof -
    have "proper (on_blocks (\<lambda>bs. if needs_reorder bs \<or> 1 < length bs then partition_blocks bs else bs) mg)" if "proper mg" for mg
      using that by (rule proper_on_blocks) (auto simp: partition_blocks_def split: if_splits)
    then show ?thesis using c by (auto simp: sort_thinking_blocks_first_def list_all_iff)
  qed
  moreover have "map cm_role (prepare_messages ms) = map cm_role ?m"
    by (simp add: prepare_messages_def sort_thinking_blocks_first_def clean_cache_control_from_messages_def
        blocks_on_blocks o_def if_distrib cong: if_cong)
  ultimately show ?thesis by (simp add: prepare_messages_def merge_distinct)
qed

section \<open>The fields of the body\<close>

definition field_is :: "string \<Rightarrow> json \<Rightarrow> json \<Rightarrow> bool" where
  "field_is k c j \<longleftrightarrow> (\<exists>m. j = JObj m \<and> tget m k = Some c)"

lemma field_jset: "field_is k c j \<Longrightarrow> k' \<noteq> k \<Longrightarrow> field_is k c (jset k' v j)"
  by (auto simp: field_is_def jset_def)

lemma field_inject: "field_is k c j \<Longrightarrow> k \<noteq> ''tools'' \<Longrightarrow> field_is k c (inject_google_search_tool j)"
  by (auto simp: field_is_def inject_google_search_tool_def Let_def split: option.split json.split)

lemma field_image:
  "field_is ''contents'' c j \<Longrightarrow> field_is ''contents'' c (with_image_config i j)"
  by (auto simp: field_is_def with_image_config_def Let_def split: option.split json.split)

lemma inner_contents:
  assumes "cs = JArr xs"
  shows "field_is ''contents'' (JArr (map deep_clean_undefined xs)) (inner_request env r config cs tools g)"
proof -
  have b: "field_is ''contents'' (JArr (map deep_clean_undefined xs))
     (deep_clean_undefined (JObj [(''contents'', cs), (''safetySettings'', build_safety_settings t)]))" for t
    by (simp add: field_is_def assms build_safety_settings_def)
  have o: "field_is ''contents'' c (case x of Some v \<Rightarrow> f v | None \<Rightarrow> j)"
    if "field_is ''contents'' c j" "\<And>v. field_is ''contents'' c (f v)" for c x f j
    using that by (cases x) simp_all
  have i: "field_is ''contents'' c (if x then j else j')"
    if "field_is ''contents'' c j" "field_is ''contents'' c j'" for c x j j' using that by simp
  show ?thesis unfolding inner_request_def Let_def
    by (intro o i field_jset field_inject field_image b) simp_all
qed

lemma contents_body:
  assumes "field_is ''contents'' (JArr xs) inner"
  shows "contents_of (deep_clean_cache_control (JObj [(''model'', a), (''project'', b), (''request'', with_session r inner),
      (''requestId'', c), (''requestType'', d), (''userAgent'', e)])) = Some (map (drop_keys [''cache_control'']) xs)"
proof -
  have "field_is ''contents'' (JArr xs) (with_session r inner)"
    using assms by (auto simp: with_session_def field_jset split: option.split)
  then obtain m where m: "with_session r inner = JObj m" "tget m ''contents'' = Some (JArr xs)" by (auto simp: field_is_def)
  have "jget ''contents'' (drop_keys [''cache_control''] (JObj m)) = Some (JArr (map (drop_keys [''cache_control'']) xs))"
    using m by (simp add: jget_drop_keys jget_obj del: drop_keys.simps) simp
  then show ?thesis
    by (simp add: contents_of_def deep_clean_cache_control_def jget_drop_keys jget_obj m as_array_def del: drop_keys.simps)
qed

lemma strip_parts:
  assumes "\<forall>c\<in>set cs. parts_of c \<noteq> None"
  shows "\<forall>c\<in>set (strip_contents cs). parts_of c \<noteq> None"
  using assms by (auto simp: strip_contents_def fill_empty_model_def strip_content_def)

text \<open>What a successful translation went through\<close>

lemma transform_stages:
  assumes "transform_claude_request_in env req project_id is_retry = Inr body"
  obtains r mapped_model config cs tools g ctx
  where "r = req\<lparr>rq_messages := prepare_messages (rq_messages req)\<rparr>"
    and "mapped_model_of r = Inr mapped_model"
    and "build_google_contents (te_contents env) ctx (rq_messages r) = Inr cs"
    and "build_tools (xe_schema (te_contents env)) (xe_stack (te_contents env)) (rq_tools r) (has_web_search_tool r) = Some tools"
    and "body = request_body env r project_id mapped_model config
           (inner_request env r config (strip_old_images (te_retention_turns env) cs) tools g)"
  using assms unfolding transform_claude_request_in_def Let_def
  by (auto split: sum.splits if_splits option.splits)


lemma same_tidy: "list_all2 (same_ids X) cs ds \<Longrightarrow> list_all tidy_content ds"
  by (simp add: list_all2_conv_all_nth list_all_length same_ids_def)

lemma contents_pipeline:
  assumes "build_google_contents cenv ctx ms = Inr v" and "list_all proper ms" and "distinct_adj (map cm_role ms)"
  shows "\<exists>xs. strip_old_images var v = JArr xs \<and> Tool_Pairing.all_answered (map (drop_keys [''cache_control'']) (map deep_clean_undefined xs))
     \<and> list_all tidy_content (map (drop_keys [''cache_control'']) (map deep_clean_undefined xs))"
proof -
  obtain cs where cs: "v = JArr cs" "each_answered cs" "list_all proper_content cs"
    using contents_answered [OF assms] by blast
  have "list_all (\<lambda>m. cm_role m \<noteq> ''[undefined]'') ms" using assms(2) by (auto simp: list_all_iff proper_def)
  then have t: "list_all tidy_content cs" using build_google_contents_tidy [OF assms(1)] cs(1) by auto
  obtain xs where xs: "strip_old_images var (JArr cs) = JArr xs" "list_all2 (same_ids {}) cs xs"
    using same_stripped [OF t] by blast
  have "list_all2 (same_ids {''[undefined]''}) cs (map deep_clean_undefined xs)"
    using same_map [OF xs(2) same_undefined] by simp
  then have s: "list_all2 (same_ids {''[undefined]''}) cs (map (drop_keys [''cache_control'']) (map deep_clean_undefined xs))"
    using same_map [of "{''[undefined]''}" cs "map deep_clean_undefined xs" "{}" "drop_keys [''cache_control'']"] same_drop
    by (simp del: map_map)
  have "list_all tidy_content (map (drop_keys [''cache_control'']) (map deep_clean_undefined xs))"
    using s by (rule same_tidy)
  then show ?thesis using answered_same [OF s cs(2,3)] xs(1) cs(1) by blast
qed

text \<open>The body before signatures are removed for a Claude model\<close>

definition plain_body :: "transform_env \<Rightarrow> claude_request \<Rightarrow> string \<Rightarrow> request_config \<Rightarrow> json \<Rightarrow> json" where
  "plain_body env r project_id config inner =
     deep_clean_cache_control
       (JObj [(''model'', JStr (rc_final_model config)), (''project'', JStr project_id),
              (''request'', with_session r inner), (''requestId'', JStr (''agent-'' @ te_uuid env)),
              (''requestType'', JStr (rc_request_type config)), (''userAgent'', JStr ''antigravity'')])"

lemma request_body_plain:
  "request_body env r project_id mapped_model config inner =
     (if starts_with mapped_model ''claude-''
      then on_contents repair_contents (on_contents strip_contents (plain_body env r project_id config inner))
      else plain_body env r project_id config inner)"
  unfolding request_body_def Let_def repair_tool_pairing_after_strip_def strip_non_claude_thought_signatures_def
    plain_body_def by (rule refl)

lemma body_answered:
  assumes "field_is ''contents'' (JArr xs) inner"
    and "Tool_Pairing.all_answered (map (drop_keys [''cache_control'']) xs)"
    and "list_all tidy_content (map (drop_keys [''cache_control'']) xs)"
  shows "\<exists>cs. contents_of (request_body env r project_id mapped_model config inner) = Some cs \<and> Tool_Pairing.all_answered cs"
proof -
  let ?ys = "map (drop_keys [''cache_control'']) xs"
  have b: "contents_of (plain_body env r project_id config inner) = Some ?ys"
    unfolding plain_body_def by (rule contents_body [OF assms(1)])
  have "parts_of c \<noteq> None" if "c \<in> set ?ys" for c
  proof -
    have "tidy_content c" using assms(3) that unfolding list_all_iff by blast
    then show ?thesis using tidy_parts_in by (auto simp: pairing_ids(2))
  qed
  then have "Tool_Pairing.all_answered (repair_contents (strip_contents ?ys))" by (intro repair_answers strip_parts) blast
  then show ?thesis using b assms(2) by (simp add: request_body_plain)
qed

section \<open>Tools and fields of the body\<close>

definition tools_in :: "json \<Rightarrow> json option" where
  "tools_in body = Option.bind (jget ''request'' body) (jget ''tools'')"

definition pure_tools :: "json \<Rightarrow> bool" where
  "pure_tools j \<longleftrightarrow> (\<exists>m. j = JObj m \<and> (\<forall>v. tget m ''tools'' = Some v \<longrightarrow> \<not> mixed v))"

lemma pure_jset: "pure_tools j \<Longrightarrow> k \<noteq> ''tools'' \<or> \<not> mixed v \<Longrightarrow> pure_tools (jset k v j)"
  by (auto simp: pure_tools_def jset_def)

lemma inject_obj: "\<exists>m'. inject_google_search_tool (JObj m) = JObj m'"
  by (auto simp: inject_google_search_tool_def Let_def split: option.split json.split)

lemma pure_injected: "pure_tools j \<Longrightarrow> pure_tools (inject_google_search_tool j)"
proof -
  assume "pure_tools j"
  then obtain m where m: "j = JObj m" "\<And>v. tget m ''tools'' = Some v \<Longrightarrow> \<not> mixed v" by (auto simp: pure_tools_def)
  obtain m' where m': "inject_google_search_tool (JObj m) = JObj m'" using inject_obj by blast
  have "\<not> mixed v" if "tget m' ''tools'' = Some v" for v
    using inject_pure [of m v] m(2) that by (simp add: m' jget_obj)
  then show ?thesis by (simp add: pure_tools_def m(1) m')
qed

lemma pure_image: "pure_tools j \<Longrightarrow> pure_tools (with_image_config i j)"
  by (auto simp: pure_tools_def with_image_config_def Let_def split: option.split json.split)

lemma inner_pure:
  assumes "\<And>v. tools = Some v \<Longrightarrow> \<not> mixed v"
  shows "pure_tools (inner_request env r config cs tools g)"
proof -
  have b: "pure_tools (deep_clean_undefined (JObj [(''contents'', x), (''safetySettings'', y)]))" for x y
    by (simp add: pure_tools_def)
  have i: "pure_tools (if x then j else j')" if "pure_tools j" "pure_tools j'" for x j j' using that by simp
  have o: "pure_tools (case x of Some v \<Rightarrow> f v | None \<Rightarrow> j)"
    if "pure_tools j" "\<And>v. x = Some v \<Longrightarrow> pure_tools (f v)" for x f j
    using that by (cases x) simp_all
  show ?thesis unfolding inner_request_def Let_def
    by (intro o i pure_injected pure_image pure_jset b) (simp_all add: assms)
qed

lemma mixed_drop: "mixed (drop_keys [''cache_control''] v) = mixed v"
proof (cases v)
  case (JArr ts)
  have "has_key k (drop_keys [''cache_control''] t) = has_key k t" if "k \<noteq> ''cache_control''" for k t
    using that by (simp add: has_key_def jget_drop_keys)
  then show ?thesis using JArr by (simp add: mixed_def list_ex_iff)
qed (simp_all add: mixed_def)

lemma tools_on_contents: "tools_in (on_contents f v) = tools_in v"
  by (cases "jget ''request'' v") (simp_all add: tools_in_def on_contents_def jget_jmap_key)

lemma body_pure:
  assumes "pure_tools inner" and "tools_in (request_body env r project_id mapped_model config inner) = Some v"
  shows "\<not> mixed v"
proof -
  have "pure_tools (with_session r inner)"
    using assms(1) by (auto simp: with_session_def intro: pure_jset split: option.split)
  then obtain m where m: "with_session r inner = JObj m" "\<And>v. tget m ''tools'' = Some v \<Longrightarrow> \<not> mixed v"
    by (auto simp: pure_tools_def)
  have "tools_in (request_body env r project_id mapped_model config inner) = tools_in (plain_body env r project_id config inner)"
    by (simp add: request_body_plain tools_on_contents)
  also have "\<dots> = map_option (drop_keys [''cache_control'']) (tget m ''tools'')"
    by (simp add: plain_body_def tools_in_def deep_clean_cache_control_def jget_drop_keys jget_obj m(1) del: drop_keys.simps)
  finally obtain w where "tget m ''tools'' = Some w" "v = drop_keys [''cache_control''] w"
    using assms(2) by (cases "tget m ''tools''") auto
  then show ?thesis using m(2) mixed_drop by simp
qed

text \<open>Values without a key\<close>

definition keyless :: "string \<Rightarrow> json \<Rightarrow> bool" where
  "keyless k v \<longleftrightarrow> k \<notin> json_keys v"

lemma keyless_simps [simp]:
  "keyless k (JObj m) \<longleftrightarrow> (\<forall>(j, v)\<in>set m. j \<noteq> k \<and> keyless k v)" "keyless k (JArr a) \<longleftrightarrow> (\<forall>v\<in>set a. keyless k v)"
  "keyless k (JStr s)"
  by (auto simp: keyless_def)

lemma keyless_tget: "keyless k (JObj m) \<Longrightarrow> tget m j = Some v \<Longrightarrow> keyless k v \<and> j \<noteq> k"
  by (auto dest!: map_of_SomeD)

lemma tput_entries: "set (tput k v m) \<subseteq> insert (k, v) (set m)"
  unfolding tput_def by (induction m) auto

lemma set_tdel: "set (tdel k m) \<subseteq> set m"
  by (auto simp: tdel_def AList.delete_eq)

lemma keyless_key:
  assumes "keyless k v" and "\<And>x. keyless k x \<Longrightarrow> keyless k (f x)"
  shows "keyless k (jmap_key j f v)"
proof (cases v)
  case (JObj m)
  show ?thesis
  proof (cases "tget m j")
    case (Some x)
    then have "keyless k x \<and> j \<noteq> k" using assms(1) unfolding JObj by (rule keyless_tget [rotated])
    then have x: "keyless k (f x)" "j \<noteq> k" using assms(2) [of x] by blast+
    have "i \<noteq> k \<and> keyless k w" if "(i, w) \<in> set (tput j (f x) m)" for i w
    proof -
      have "(i, w) = (j, f x) \<or> (i, w) \<in> set m" using that tput_entries [of j "f x" m] by auto
      moreover have "keyless k (JObj m)" using assms(1) JObj by (simp only:)
      ultimately show ?thesis using x by auto
    qed
    then show ?thesis using JObj Some by (auto simp: jmap_key_def)
  qed (use assms(1) JObj in \<open>simp add: jmap_key_def\<close>)
qed (use assms(1) in \<open>simp_all add: jmap_key_def\<close>)

definition keyless_list :: "string \<Rightarrow> json list \<Rightarrow> bool" where
  "keyless_list k cs \<longleftrightarrow> (\<forall>c\<in>set cs. keyless k c)"

lemma keyless_array: "(\<And>cs. keyless_list k cs \<Longrightarrow> keyless_list k (f cs)) \<Longrightarrow> keyless k v \<Longrightarrow> keyless k (jmap_array f v)"
  by (auto simp: jmap_array_def keyless_list_def split: json.split)

lemma keyless_on:
  assumes "\<And>cs. keyless_list k cs \<Longrightarrow> keyless_list k (f cs)"
  shows "keyless k v \<Longrightarrow> keyless k (on_parts f v)" "keyless k v \<Longrightarrow> keyless k (on_contents f v)"
  unfolding on_parts_def on_contents_def by (intro keyless_key keyless_array assms; assumption)+

lemma keyless_call: "keyless k p \<Longrightarrow> keyless k (strip_call_signature p)"
  using set_tdel by (fastforce simp: strip_call_signature_def jremove_def split: json.split)

lemma keyless_strip:
  assumes "k \<noteq> ''text''" and "keyless_list k cs"
  shows "keyless_list k (strip_contents cs)"
proof -
  have "keyless k (strip_content c)" if "keyless k c" for c
    unfolding strip_content_def using that by (rule keyless_on(1) [rotated]) (auto simp: keyless_list_def keyless_call)
  moreover have "keyless k (fill_empty_model c)" if "keyless k c" for c
  proof -
    have "keyless k (on_parts (\<lambda>parts. parts @ [JObj [(''text'', JStr ''...'')]]) c)"
      using that assms(1) by (rule_tac keyless_on(1)) (auto simp: keyless_list_def)
    then show ?thesis using that by (simp add: fill_empty_model_def)
  qed
  ultimately show ?thesis using assms(2) by (auto simp: strip_contents_def keyless_list_def)
qed

lemma keyless_repair:
  assumes "k \<notin> {''parts'', ''role'', ''functionResponse'', ''id'', ''name'', ''response'', ''result''}" and "keyless_list k cs"
  shows "keyless_list k (repair_contents cs)"
proof -
  have p: "keyless k (synthetic_part e)" for e using assms(1) by (auto simp: synthetic_part_def)
  have step: "keyless_list k (apply_action a cs)" if cs: "keyless_list k cs" for a cs
  proof (cases "append_to_next a")
    case True
    have "keyless k (on_parts (\<lambda>parts. map synthetic_part (missing_ids a) @ parts) c)" if "keyless k c" for c
      using that p by (rule_tac keyless_on(1)) (auto simp: keyless_list_def)
    then have "keyless_list k (cs[i := on_parts (\<lambda>parts. map synthetic_part (missing_ids a) @ parts) (cs ! i)])" for i
      using cs by (cases "i < length cs") (auto simp: keyless_list_def list_update_beyond dest: subsetD [OF set_update_subset_insert])
    then show ?thesis using True by (simp add: apply_action_def Let_def)
  next
    case False
    have "keyless k (synthetic_user (map synthetic_part (missing_ids a)))"
      using assms(1) p by (auto simp: synthetic_user_def)
    then show ?thesis using cs False by (auto simp: apply_action_def Let_def keyless_list_def dest: in_set_takeD in_set_dropD)
  qed
  have "keyless_list k (fold apply_action as cs)" if "keyless_list k cs" for as cs
    using that by (induction as arbitrary: cs) (simp_all add: step)
  then show ?thesis using assms(2) by (simp add: repair_contents_def)
qed

lemma body_keyless: "keyless ''cache_control'' (request_body env r project_id mapped_model config inner)"
proof -
  have "keyless ''cache_control'' (deep_clean_cache_control v)" for v
    using json_keys_drop [of "[''cache_control'']" v] by (simp add: keyless_def deep_clean_cache_control_def)
  moreover have "keyless ''cache_control'' (on_contents repair_contents (on_contents strip_contents v))"
    if "keyless ''cache_control'' v" for v
    using that by (intro keyless_on(2) keyless_strip keyless_repair) auto
  ultimately show ?thesis by (simp add: request_body_plain plain_body_def)
qed

section \<open>Images\<close>

lemma fold_updates:
  "distinct is \<Longrightarrow> length (fold (\<lambda>i cs. cs[i := f (cs ! i)]) is cs) = length cs
   \<and> (j < length cs \<longrightarrow> fold (\<lambda>i cs. cs[i := f (cs ! i)]) is cs ! j = (if j \<in> set is then f (cs ! j) else cs ! j))"
proof (induction "is" arbitrary: cs)
  case (Cons a "is")
  then show ?case by (cases "a = j") (simp_all add: nth_list_update)
qed simp


lemma drop_nths: "drop (Suc i) cs = map (nth cs) [Suc i..<length cs]"
  by (metis add_0 drop_map drop_upt map_nth)

lemma upto_at: "i < n \<Longrightarrow> [0..<n] = [0..<i] @ i # [Suc i..<n]"
  using upt_add_eq_append [of 0 i "n - i"] upt_conv_Cons [of i n] by simp

lemma user_taken:
  assumes "i < length cs"
  shows "i \<in> set (take (length (user_indices cs) - k) (user_indices cs)) \<longleftrightarrow>
    is_user_content (cs ! i) \<and> k \<le> length (filter is_user_content (drop (Suc i) cs))"
proof (cases "is_user_content (cs ! i)")
  case True
  let ?P = "\<lambda>i. is_user_content (cs ! i)"
  let ?a = "filter ?P [0..<i]" and ?b = "filter ?P [Suc i..<length cs]"
  have u: "user_indices cs = ?a @ i # ?b"
    using True unfolding user_indices_def by (subst upto_at [OF assms]) simp
  have b: "length ?b = length (filter is_user_content (drop (Suc i) cs))"
    by (simp add: drop_nths filter_map o_def)
  have "i \<in> set (take n (?a @ i # ?b)) \<longleftrightarrow> length ?a < n" for n
  proof (cases "length ?a < n")
    case True
    then show ?thesis by (simp add: take_Cons')
  next
    case False
    then have "take n (?a @ i # ?b) = take n ?a" by simp
    moreover have "i \<notin> set (take n ?a)" by (auto dest: in_set_takeD)
    ultimately show ?thesis using False by simp
  qed
  moreover have "length (user_indices cs) = length ?a + Suc (length ?b)" unfolding u by (simp only: length_append length_Cons)
  then have "length ?a < length (user_indices cs) - k \<longleftrightarrow> k \<le> length ?b" by linarith
  ultimately have "i \<in> set (take (length (user_indices cs) - k) (user_indices cs)) \<longleftrightarrow> k \<le> length ?b"
    using u by metis
  then show ?thesis using True b by simp
next
  case False
  then show ?thesis by (auto simp: user_indices_def dest: in_set_takeD)
qed

section \<open>Translations that succeed\<close>

definition block_ok :: "contents_env \<Rightarrow> contents_ctx \<Rightarrow> content_block \<Rightarrow> bool" where
  "block_ok env ctx b \<longleftrightarrow> (\<forall>asst a. \<exists>a'. add_block env ctx asst b a = Inr a')"

lemma add_blocks_ok: "\<forall>b\<in>set bs. block_ok env ctx b \<Longrightarrow> \<exists>a'. add_blocks env ctx asst bs a = Inr a'"
proof (induction bs arbitrary: a)
  case (Cons b bs)
  then obtain a' where "add_block env ctx asst b a = Inr a'" unfolding block_ok_def by (meson list.set_intros(1))
  moreover obtain a2 where "add_blocks env ctx asst bs a' = Inr a2" using Cons by (meson list.set_intros(2))
  ultimately show ?case by simp
qed simp

lemma build_contents_ok: "\<forall>b\<in>set (msg_blocks c). block_ok env ctx b \<Longrightarrow> \<exists>x. build_contents env ctx c asst s = Inr x"
proof (cases c)
  case (MArray bs)
  assume "\<forall>b\<in>set (msg_blocks c). block_ok env ctx b"
  then have "\<forall>b\<in>set bs. block_ok env ctx b" using MArray by (simp add: msg_blocks_def)
  from add_blocks_ok [OF this, of asst] MArray show ?thesis by (auto simp: build_contents_def Let_def split: sum.split)
     (metis sum.distinct(1))
qed (simp add: build_contents_def Let_def)

lemma google_content_ok:
  "\<forall>b\<in>set (blocks_of mg). block_ok env ctx b \<Longrightarrow> \<exists>x. build_google_content env ctx ex mg s = Inr x"
proof -
  assume "\<forall>b\<in>set (blocks_of mg). block_ok env ctx b"
  then have "\<forall>b\<in>set (msg_blocks (cm_content mg)). block_ok env ctx b" by (simp add: msg_blocks_def blocks_of_def)
  then have "\<exists>x. build_contents env ctx (cm_content mg) asst s = Inr x" for asst s by (rule build_contents_ok)
  then have c: "build_contents env ctx (cm_content mg) asst s = Inl e \<Longrightarrow> False" for asst s e by (metis sum.distinct(1))
  show ?thesis by (auto simp: build_google_content_def Let_def split: sum.split dest: c)
qed

lemma build_google_contents_ok:
  assumes "\<forall>mg\<in>set ms. \<forall>b\<in>set (blocks_of mg). block_ok env ctx b"
  shows "\<exists>v. build_google_contents env ctx ms = Inr v"
proof -
  have "\<exists>cs. google_contents env ctx ex ms s = Inr cs" for ex s
    using assms
  proof (induction ms arbitrary: s)
    case (Cons mg ms)
    then obtain c s' where "build_google_content env ctx ex mg s = Inr (c, s')"
      using google_content_ok [of mg env ctx ex s] by auto
    moreover obtain cs where "google_contents env ctx ex ms s' = Inr cs" using Cons by (meson list.set_intros(2))
    ultimately show ?case by simp
  qed simp
  then obtain cs where "google_contents env ctx (existing_results ms) ms initial_state = Inr cs" by blast
  then show ?thesis by (simp add: build_google_contents_def Let_def)
qed

text \<open>A conversation with a call that the user interrupts\<close>

definition demo_env :: transform_env where
  "demo_env = \<lparr>te_contents = \<lparr>xe_compress = demo_compress, xe_schema = \<lparr>se_to_string = (\<lambda>_. ''1''), se_hash_order = id\<rparr>,
       xe_stack = 9, xe_sha256 = id, xe_now = 0, xe_cache = new_cache\<rparr>,
     te_budget = default_thinking_budget_config, te_safety_threshold = None, te_retention_turns = None,
     te_debug = (\<lambda>_. []), te_uuid = ''0''\<rparr>"

definition interrupted :: claude_request where
  "interrupted = demo_request\<lparr>rq_model := ''claude-opus-4'', rq_messages :=
     [\<lparr>cm_role = ''user'', cm_content = MString ''Run it''\<rparr>,
      \<lparr>cm_role = ''assistant'', cm_content = MArray [CToolUse ''t1'' ''run'' (JObj []) None None]\<rparr>,
      \<lparr>cm_role = ''user'', cm_content = MString ''Stop''\<rparr>]\<rparr>"

lemma demo_call_ok:
  assumes "xc_name_to_schema ctx = []"
  shows "block_ok (te_contents demo_env) ctx (CToolUse ''t1'' ''run'' (JObj []) s c)"
proof -
  have "call_input (te_contents demo_env) ctx ''run'' (JObj []) = JObj []"
    using assms by (simp add: call_input_def shell_command_array_def)
  moreover have "case expand_refs 9 (call_part ''t1'' ''run'' (JObj [])) of Some _ \<Rightarrow> True | None \<Rightarrow> False" by code_simp
  then have "\<exists>x. expand_refs 9 (call_part ''t1'' ''run'' (JObj [])) = Some x" by (auto split: option.splits)
  then have "\<exists>w. cleaned (te_contents demo_env) (call_part ''t1'' ''run'' (JObj [])) = Inr w"
    by (auto simp: cleaned_def clean_json_schema_def demo_env_def)
  ultimately show ?thesis by (auto simp: block_ok_def add_call_def Let_def)
qed

lemma demo_translates:
  assumes "prepare_messages (rq_messages r) = rq_messages r" and "rq_model r = ''claude-opus-4''" and "rq_tools r = None"
    and "\<forall>m\<in>set (rq_messages r). \<forall>b\<in>set (blocks_of m). \<not> is_thinking b
      \<and> (\<exists>s c. b = CToolUse ''t1'' ''run'' (JObj []) s c)"
  shows "\<exists>body. transform_claude_request_in demo_env r p False = Inr body"
proof -
  have m: "mapped_model_of r = Inr ''claude-opus-4-5-thinking''"
    using assms(2,3) by (simp add: mapped_model_of_def has_web_search_tool_def tools_of_def map_opus)
  have s: "\<not> signatures_missing now cache r sid" for now cache sid
    using assms(4) by (auto simp: signatures_missing_def list_ex_iff)
  have t: "build_tools e n (rq_tools r) b = Some None" for e n b by (simp add: build_tools_def assms(3))
  have c: "\<exists>v. build_google_contents (te_contents demo_env) (transform_context demo_env r x sid False) (rq_messages r) = Inr v" for x sid
  proof (rule build_google_contents_ok, intro ballI)
    fix m b assume "m \<in> set (rq_messages r)" "b \<in> set (blocks_of m)"
    then obtain s c where "b = CToolUse ''t1'' ''run'' (JObj []) s c" using assms(4) by blast
    then show "block_ok (te_contents demo_env) (transform_context demo_env r x sid False) b"
      by (simp add: demo_call_ok transform_context_def tool_schemas_def tools_of_def assms(3))
  qed
  have r: "r\<lparr>rq_messages := prepare_messages (rq_messages r)\<rparr> = r" using assms(1) by simp
  from c [of "''claude-opus-4-5-thinking''" "extract_session_id (xe_sha256 (te_contents demo_env)) (te_debug demo_env) r"]
  show ?thesis unfolding transform_claude_request_in_def r Let_def m by (auto simp: s t)
qed

lemma demo_translated: "\<exists>body. transform_claude_request_in demo_env interrupted ''p'' False = Inr body"
  by (rule demo_translates)
     (auto simp: interrupted_def demo_request_def blocks_of_def is_thinking_def prepare_messages_def
        merge_consecutive_messages_def sort_thinking_blocks_first_def clean_cache_control_from_messages_def
        on_blocks_def needs_reorder_def)

lemma transform_answered:
  assumes "transform_claude_request_in env req project_id is_retry = Inr body"
    and "list_all proper (rq_messages req)"
  shows "\<exists>cs. contents_of body = Some cs \<and> Tool_Pairing.all_answered cs"
proof -
  obtain r mapped_model config v tools g ctx
    where r: "r = req\<lparr>rq_messages := prepare_messages (rq_messages req)\<rparr>"
      and v: "build_google_contents (te_contents env) ctx (rq_messages r) = Inr v"
      and body: "body = request_body env r project_id mapped_model config
           (inner_request env r config (strip_old_images (te_retention_turns env) v) tools g)"
    using transform_stages [OF assms(1)] by metis
  have "list_all proper (rq_messages r)" "distinct_adj (map cm_role (rq_messages r))"
    using prepare_proper [OF assms(2)] r by simp_all
  from contents_pipeline [OF v this]
  obtain xs where xs: "strip_old_images (te_retention_turns env) v = JArr xs"
    "Tool_Pairing.all_answered (map (drop_keys [''cache_control'']) (map deep_clean_undefined xs))"
    "list_all tidy_content (map (drop_keys [''cache_control'']) (map deep_clean_undefined xs))"
    by blast
  show ?thesis unfolding body by (rule body_answered [OF inner_contents [OF xs(1)] xs(2,3)])
qed

section \<open>Properties\<close>

text \<open>
  Claim C9: for every request of a client in which assistants call and users answer, if it is translated, then in
  the request that goes upstream each message with calls that has another message behind it is followed by a
  user message that has a response for each of these calls. The claim says nothing
  about calls of the very last message, which has no message behind it that could hold the responses.
\<close>

theorem upstream_calls_answered:
  assumes "transform_claude_request_in env req project_id is_retry = Inr body"
    and "list_all proper (rq_messages req)"
  shows "\<exists>cs. contents_of body = Some cs \<and> Tool_Pairing.all_answered cs"
  using assms by (rule transform_answered)

lemma upstream_calls_answered_witness:
  "\<exists>body cs. transform_claude_request_in demo_env interrupted ''p'' False = Inr body
     \<and> contents_of body = Some cs \<and> Tool_Pairing.all_answered cs"
proof -
  obtain body where b: "transform_claude_request_in demo_env interrupted ''p'' False = Inr body"
    using demo_translated by blast
  have "list_all proper (rq_messages interrupted)"
    by (simp add: interrupted_def proper_def blocks_of_def)
  from upstream_calls_answered [OF b this] b show ?thesis by blast
qed

text \<open>
  Claim C38: the request that goes upstream never mixes functions with searching in its tools, and no object
  of it has a cache control entry, for any client request, also for Claude models.
\<close>

theorem upstream_request_clean:
  assumes "transform_claude_request_in env req project_id is_retry = Inr body"
  shows "(case tools_in body of Some v \<Rightarrow> \<not> mixed v | None \<Rightarrow> True) \<and> ''cache_control'' \<notin> json_keys body"
proof -
  obtain r mapped_model config v tools g ctx
    where t: "build_tools (xe_schema (te_contents env)) (xe_stack (te_contents env)) (rq_tools r) (has_web_search_tool r) = Some tools"
      and body: "body = request_body env r project_id mapped_model config
           (inner_request env r config (strip_old_images (te_retention_turns env) v) tools g)"
    using transform_stages [OF assms] by metis
  have "\<not> mixed v" if "tools = Some v" for v using build_tools_pure t that by blast
  then have "\<not> mixed v" if "tools_in body = Some v" for v
    using that unfolding body by (rule body_pure [OF inner_pure])
  moreover have "''cache_control'' \<notin> json_keys body"
    using body_keyless unfolding body keyless_def by blast
  ultimately show ?thesis by (simp split: option.split)
qed

lemma upstream_request_clean_witness:
  "\<exists>body. transform_claude_request_in demo_env interrupted ''p'' False = Inr body \<and> ''cache_control'' \<notin> json_keys body"
  using demo_translated upstream_request_clean by blast

text \<open>
  Note: images are replaced by their placeholder exactly in the user messages that have at least the
  retained number of user messages behind them; all else stays.
\<close>

theorem old_images_replaced:
  "strip_old_images var (JArr cs) = JArr (map
     (\<lambda>i. if is_user_content (cs ! i) \<and> get_retention_turns var \<le> length (filter is_user_content (drop (Suc i) cs))
           then replace_inline_data_in_parts (cs ! i) else cs ! i) [0..<length cs])"
proof -
  let ?ds = "fold (\<lambda>i cs. cs[i := replace_inline_data_in_parts (cs ! i)])
               (take (length (user_indices cs) - get_retention_turns var) (user_indices cs)) cs"
  have "distinct (take (length (user_indices cs) - get_retention_turns var) (user_indices cs))"
    by (simp add: user_indices_def)
  note f = fold_updates [OF this, of replace_inline_data_in_parts cs]
  have "strip_old_images var (JArr cs) = JArr ?ds" by (simp add: strip_old_images_def Let_def)
  also have "?ds = map (\<lambda>i. if is_user_content (cs ! i) \<and> get_retention_turns var \<le> length (filter is_user_content (drop (Suc i) cs))
           then replace_inline_data_in_parts (cs ! i) else cs ! i) [0..<length cs]"
    by (rule nth_equalityI) (simp_all add: f user_taken)
  finally show ?thesis .
qed

text \<open>
  Note: the cleaner for tool schemas also runs over the arguments of calls, so an argument named like a
  reference is taken out and a type and a description are put in its place.
\<close>

theorem arguments_rewritten:
  "cleaned (te_contents demo_env) (call_part ''t1'' ''write'' (JObj [(''$ref'', JStr ''a'')]))
   = Inr (call_part ''t1'' ''write''
       (JObj [(''type'', JStr ''string''), (''description'', JStr ''(Unresolved $ref: a)'')]))"
proof -
  let ?p = "call_part ''t1'' ''write'' (JObj [(''type'', JStr ''string''), (''description'', JStr ''(Unresolved $ref: a)'')])"
  have "expand_refs 9 (call_part ''t1'' ''write'' (JObj [(''$ref'', JStr ''a'')])) = Some ?p" by code_simp
  moreover have "clean_json_schema_recursive e ?p = (?p, False)" for e
    unfolding call_part_def by (rule clean_no_schema) (simp add: schema_keys_def)
  ultimately show ?thesis by (simp add: cleaned_def clean_json_schema_def demo_env_def)
qed

end
