(* ===== verification/OpenAI_Types.thy ===== *)
theory OpenAI_Types
  imports Claude_Types Session_Manager
begin

text \<open>
  The data of the OpenAI protocol, \<open>mappers/openai/models.rs\<close>, and the session id of its requests,
  \<open>session_manager.rs\<close>. Numbers with \<open>f32\<close> are rationals; of the response format its type is kept.
\<close>

record image_url =
  iu_url :: string
  iu_detail :: "string option"

record input_audio =
  ia_data :: string
  ia_format :: string

text \<open>Audio has the nested form and the flat one.\<close>

datatype openai_block =
    OText string
  | OImageUrl image_url
  | OInputAudio "input_audio option" "string option" "string option"
  | OVideoUrl string

datatype openai_content = OString string | OArray "openai_block list"

record tool_call =
  oc_id :: string
  oc_type :: string
  oc_name :: string
  oc_arguments :: string

record openai_message =
  om_role :: string
  om_content :: "openai_content option"
  om_reasoning_content :: "string option"
  om_tool_calls :: "tool_call list option"
  om_tool_call_id :: "string option"
  om_name :: "string option"

record openai_request =
  oq_model :: string
  oq_messages :: "openai_message list"
  oq_prompt :: "string option"
  oq_stream :: bool
  oq_n :: "u32 option"
  oq_max_tokens :: "u32 option"
  oq_temperature :: "rat option"
  oq_top_p :: "rat option"
  oq_stop :: "json option"
  oq_response_format :: "string option"
  oq_tools :: "json list option"
  oq_tool_choice :: "json option"
  oq_parallel_tool_calls :: "bool option"
  oq_instructions :: "string option"
  oq_input :: "json option"
  oq_size :: "string option"
  oq_quality :: "string option"
  oq_person_generation :: "string option"

definition extract_audio :: "openai_block \<Rightarrow> input_audio option" where
  "extract_audio b =
     (case b of
        OInputAudio nested data format \<Rightarrow>
          (case nested of
             Some a \<Rightarrow> Some a
           | None \<Rightarrow>
               (case (data, format) of
                  (Some d, Some f) \<Rightarrow> Some \<lparr>ia_data = d, ia_format = f\<rparr>
                | _ \<Rightarrow> None))
      | _ \<Rightarrow> None)"

definition block_texts :: "openai_block list \<Rightarrow> string list" where
  "block_texts bs = List.map_filter (\<lambda>b. case b of OText t \<Rightarrow> Some t | _ \<Rightarrow> None) bs"

definition content_text :: "string \<Rightarrow> openai_content \<Rightarrow> string" where
  "content_text sep c = (case c of OString s \<Rightarrow> s | OArray bs \<Rightarrow> join_with sep (block_texts bs))"

definition openai_anchor :: "openai_message \<Rightarrow> string option" where
  "openai_anchor mg =
     (if om_role mg \<noteq> ''user'' then None
      else Option.bind (om_content mg) (\<lambda>c. anchor_text (content_text '' '' c)))"

text \<open>Hashed without an anchor: the debug form of the content of the last message\<close>

definition extract_openai_session_id ::
  "(string \<Rightarrow> string) \<Rightarrow> (openai_content option \<Rightarrow> string) \<Rightarrow> openai_request \<Rightarrow> string" where
  "extract_openai_session_id sha256_hex debug request =
     session_of sha256_hex
       (case first_some openai_anchor (oq_messages request) of
          Some t \<Rightarrow> t
        | None \<Rightarrow> if oq_messages request = [] then [] else debug (om_content (last (oq_messages request))))"

end
