(* ===== verification/Claude_Bridge.thy ===== *)
theory Claude_Bridge
  imports OpenAI_Types Request_Transform
begin

text \<open>
  OpenAI requests for Claude models, \<open>mappers/openai/request/claude_bridge.rs\<close>: they become Claude requests
  and take the way of these. Reading JSON text is an argument.
\<close>

section \<open>Definitions\<close>

definition non_empty :: "string \<Rightarrow> string option" where
  "non_empty t = (if t = [] then None else Some t)"

definition extract_text_content :: "openai_content option \<Rightarrow> string option" where
  "extract_text_content c = Option.bind c (\<lambda>c. non_empty (content_text [CHR 0x0A] c))"

text \<open>Data URLs are taken apart: \<open>strip_prefix\<close>, \<open>split_once\<close>, \<open>strip_suffix\<close>\<close>

definition strip_prefix :: "string \<Rightarrow> string \<Rightarrow> string option" where
  "strip_prefix p s = (if starts_with s p then Some (drop (length p) s) else None)"

definition strip_suffix :: "string \<Rightarrow> string \<Rightarrow> string option" where
  "strip_suffix p s = (if ends_with s p then Some (take (length s - length p) s) else None)"

definition data_url_image :: "string \<Rightarrow> (string \<times> string) option" where
  "data_url_image url =
     Option.bind (strip_prefix ''data:'' url) (\<lambda>rest.
     Option.bind (split_once (CHR '','') rest) (\<lambda>(media_and_enc, data).
     Option.bind (strip_suffix '';base64'' media_and_enc) (\<lambda>media_with_params.
       let media_type = (case split_once (CHR '';'') media_with_params of Some (mime, _) \<Rightarrow> mime | None \<Rightarrow> media_with_params)
       in if starts_with media_type ''image/'' then Some (media_type, data) else None)))"

definition convert_content_block :: "openai_block \<Rightarrow> content_block option" where
  "convert_content_block b =
     (case b of
        OText t \<Rightarrow> Some (CText t)
      | OImageUrl u \<Rightarrow>
          (case data_url_image (iu_url u) of
             Some (media_type, data) \<Rightarrow>
               Some (CImage \<lparr>is_source_type = ''base64'', is_media_type = media_type, is_data = data\<rparr> None)
           | None \<Rightarrow> Some (CText (''[Image: '' @ iu_url u @ '']'')))
      | _ \<Rightarrow> None)"

definition convert_user_message :: "openai_message \<Rightarrow> claude_message" where
  "convert_user_message mg =
     \<lparr>cm_role = ''user'', cm_content =
        (case om_content mg of
           Some (OString s) \<Rightarrow> MString s
         | Some (OArray blocks) \<Rightarrow>
             (case List.map_filter convert_content_block blocks of
                [CText t] \<Rightarrow> MString t
              | claude_blocks \<Rightarrow> MArray claude_blocks)
         | None \<Rightarrow> MString [])\<rparr>"

definition call_block :: "(string \<Rightarrow> json option) \<Rightarrow> tool_call \<Rightarrow> content_block" where
  "call_block from_str tc =
     CToolUse (oc_id tc) (oc_name tc) (case from_str (oc_arguments tc) of Some v \<Rightarrow> v | None \<Rightarrow> JObj []) None None"

definition assistant_blocks_of :: "(string \<Rightarrow> json option) \<Rightarrow> openai_message \<Rightarrow> content_block list" where
  "assistant_blocks_of from_str mg =
     (case om_reasoning_content mg of
        Some r \<Rightarrow> if r \<noteq> [] then [CThinking r None None] else []
      | None \<Rightarrow> [])
     @ (case om_content mg of
          Some (OString s) \<Rightarrow> if s \<noteq> [] then [CText s] else []
        | Some (OArray arr) \<Rightarrow> List.map_filter convert_content_block arr
        | None \<Rightarrow> [])
     @ (case om_tool_calls mg of Some tcs \<Rightarrow> map (call_block from_str) tcs | None \<Rightarrow> [])"

definition convert_assistant_message :: "(string \<Rightarrow> json option) \<Rightarrow> openai_message \<Rightarrow> claude_message" where
  "convert_assistant_message from_str mg =
     (let blocks = assistant_blocks_of from_str mg
      in \<lparr>cm_role = ''assistant'', cm_content = MArray (if blocks = [] then [CText []] else blocks)\<rparr>)"

definition convert_tool_result_block :: "openai_message \<Rightarrow> content_block" where
  "convert_tool_result_block mg =
     CToolResult (case om_tool_call_id mg of Some i \<Rightarrow> i | None \<Rightarrow> [])
       (JArr [JObj [(''text'', JStr (case om_content mg of Some c \<Rightarrow> content_text [CHR 0x0A] c | None \<Rightarrow> [])),
                    (''type'', JStr ''text'')]])
       None"

record bridge_state =
  br_system :: "string list"
  br_messages :: "claude_message list"
  br_pending :: "content_block list"

definition flush_tool_results :: "bridge_state \<Rightarrow> bridge_state" where
  "flush_tool_results s =
     (if br_pending s = [] then s
      else s\<lparr>br_pending := [], br_messages := br_messages s @ [\<lparr>cm_role = ''user'', cm_content = MArray (br_pending s)\<rparr>]\<rparr>)"

definition push_message :: "claude_message \<Rightarrow> bridge_state \<Rightarrow> bridge_state" where
  "push_message mg s = s\<lparr>br_messages := br_messages s @ [mg]\<rparr>"

definition bridge_step :: "(string \<Rightarrow> json option) \<Rightarrow> openai_message \<Rightarrow> bridge_state \<Rightarrow> bridge_state" where
  "bridge_step from_str mg s =
     (if om_role mg = ''system'' \<or> om_role mg = ''developer''
      then let s = flush_tool_results s
           in (case extract_text_content (om_content mg) of Some t \<Rightarrow> s\<lparr>br_system := br_system s @ [t]\<rparr> | None \<Rightarrow> s)
      else if om_role mg = ''assistant'' then push_message (convert_assistant_message from_str mg) (flush_tool_results s)
      else if om_role mg = ''tool'' then s\<lparr>br_pending := br_pending s @ [convert_tool_result_block mg]\<rparr>
      else push_message (convert_user_message mg) (flush_tool_results s))"

definition bridge_messages :: "(string \<Rightarrow> json option) \<Rightarrow> openai_message list \<Rightarrow> bridge_state" where
  "bridge_messages from_str ms =
     flush_tool_results (fold (bridge_step from_str) ms \<lparr>br_system = [], br_messages = [], br_pending = []\<rparr>)"

definition bridge_system :: "string list \<Rightarrow> system_prompt option" where
  "bridge_system texts =
     (case texts of [] \<Rightarrow> None | [t] \<Rightarrow> Some (SString t) | _ \<Rightarrow> Some (SArray (map (Pair ''text'') texts)))"

definition convert_tools :: "json list \<Rightarrow> claude_tool list" where
  "convert_tools tools =
     List.map_filter (\<lambda>tool_val.
       Option.bind (jget ''function'' tool_val) (\<lambda>func.
       Option.bind (Option.bind (jget ''name'' func) as_str) (\<lambda>name.
         Some \<lparr>ct_type = None, ct_name = Some name, ct_description = Option.bind (jget ''description'' func) as_str,
               ct_input_schema = jget ''parameters'' func\<rparr>))) tools"

definition openai_to_claude_request :: "(string \<Rightarrow> json option) \<Rightarrow> openai_request \<Rightarrow> claude_request" where
  "openai_to_claude_request from_str req =
     (let s = bridge_messages from_str (oq_messages req);
          system_texts = (case oq_instructions req of
              Some inst \<Rightarrow> if inst \<noteq> [] then inst # br_system s else br_system s
            | None \<Rightarrow> br_system s)
      in \<lparr>rq_model = oq_model req, rq_messages = br_messages s, rq_system = bridge_system system_texts,
          rq_tools = map_option convert_tools (oq_tools req), rq_stream = oq_stream req,
          rq_max_tokens = oq_max_tokens req, rq_temperature = oq_temperature req, rq_top_p = oq_top_p req,
          rq_top_k = None, rq_thinking = None,
          rq_stop_sequences = Option.bind (oq_stop req) (\<lambda>v. map_option (List.map_filter as_str) (as_array v)),
          rq_metadata = None, rq_output_config = None\<rparr>)"

section \<open>Lemmas\<close>

text \<open>Blocks made of the content of a message are neither calls nor results.\<close>

lemma convert_plain: "convert_content_block b = Some c \<Longrightarrow> \<not> is_tool_use c \<and> \<not> is_tool_result c"
  by (auto simp: convert_content_block_def split: openai_block.splits option.splits prod.splits)

lemma converted_plain: "c \<in> set (List.map_filter convert_content_block bs) \<Longrightarrow> \<not> is_tool_use c \<and> \<not> is_tool_result c"
  using convert_plain by (auto simp: List.map_filter_def)

lemma single_text:
  "set (blocks_of \<lparr>cm_role = r, cm_content = (case cb of [CText t] \<Rightarrow> MString t | c \<Rightarrow> MArray c)\<rparr>) \<subseteq> set cb"
  by (auto simp: blocks_of_def split: list.splits content_block.splits)

lemma user_blocks:
  assumes "b \<in> set (blocks_of (convert_user_message mg))"
  shows "\<not> is_tool_use b \<and> \<not> is_tool_result b"
proof (cases "om_content mg")
  case (Some c)
  show ?thesis
  proof (cases c)
    case (OArray bs)
    then have "b \<in> set (List.map_filter convert_content_block bs)"
      using assms Some single_text [of "''user''" "List.map_filter convert_content_block bs"]
      by (auto simp: convert_user_message_def)
    then show ?thesis by (rule converted_plain)
  qed (use assms Some in \<open>simp add: convert_user_message_def blocks_of_def\<close>)
qed (use assms in \<open>simp add: convert_user_message_def blocks_of_def\<close>)

lemma assistant_no_results:
  assumes "b \<in> set (assistant_blocks_of f mg)"
  shows "\<not> is_tool_result b"
proof -
  consider (think) r where "b = CThinking r None None" | (said) s where "b = CText s"
    | (block) bs where "b \<in> set (List.map_filter convert_content_block bs)" | (call) tc where "b = call_block f tc"
    using assms by (cases "om_content mg"; cases "the (om_content mg)"; cases "om_reasoning_content mg"; cases "om_tool_calls mg")
      (auto simp: assistant_blocks_of_def split: if_splits)
  then show ?thesis by cases (auto simp: call_block_def dest: converted_plain)
qed

definition bridge_proper :: "bridge_state \<Rightarrow> bool" where
  "bridge_proper s \<longleftrightarrow> list_all proper (br_messages s) \<and> (\<forall>b\<in>set (br_pending s). \<not> is_tool_use b)"

lemma proper_user: "\<forall>b\<in>set bs. \<not> is_tool_use b \<Longrightarrow> proper \<lparr>cm_role = ''user'', cm_content = MArray bs\<rparr>"
  by (simp add: proper_iff blocks_of_def no_calls_in_def)

lemma flush_proper: "bridge_proper s \<Longrightarrow> bridge_proper (flush_tool_results s)"
  by (simp add: bridge_proper_def flush_tool_results_def proper_user)

lemma push_proper: "bridge_proper s \<Longrightarrow> proper mg \<Longrightarrow> bridge_proper (push_message mg s)"
  by (simp add: bridge_proper_def push_message_def)

lemma proper_converted: "proper (convert_user_message mg)" "proper (convert_assistant_message f mg)"
proof -
  show "proper (convert_user_message mg)"
    using user_blocks [of _ mg] unfolding proper_iff no_calls_in_def by (auto simp: convert_user_message_def)
  show "proper (convert_assistant_message f mg)"
    using assistant_no_results [of _ f mg]
    by (auto simp: proper_iff no_results_in_def convert_assistant_message_def blocks_of_def Let_def)
qed

lemma step_proper: "bridge_proper s \<Longrightarrow> bridge_proper (bridge_step f mg s)"
proof -
  assume "bridge_proper s"
  then have f: "bridge_proper (flush_tool_results s)" by (rule flush_proper)
  then have "bridge_proper ((flush_tool_results s)\<lparr>br_system := x\<rparr>)" for x by (simp add: bridge_proper_def)
  then show ?thesis using f \<open>bridge_proper s\<close> push_proper [OF f] proper_converted
    by (auto simp: bridge_step_def Let_def bridge_proper_def convert_tool_result_block_def split: option.split)
qed

lemma bridge_messages_proper: "list_all proper (br_messages (bridge_messages f ms))"
proof -
  have "bridge_proper (fold (bridge_step f) ms s)" if "bridge_proper s" for s
    using that by (induction ms arbitrary: s) (simp_all add: step_proper)
  moreover have "bridge_proper \<lparr>br_system = [], br_messages = [], br_pending = []\<rparr>" by (simp add: bridge_proper_def)
  ultimately have "bridge_proper (bridge_messages f ms)"
    unfolding bridge_messages_def by (intro flush_proper) blast
  then show ?thesis by (simp add: bridge_proper_def)
qed

text \<open>Calls and results of the messages on both sides\<close>

definition history_calls :: "claude_message list \<Rightarrow> string list" where
  "history_calls ms = concat (map (\<lambda>m. tool_uses (blocks_of m)) ms)"

definition history_answers :: "claude_message list \<Rightarrow> string list" where
  "history_answers ms = concat (map (\<lambda>m. tool_answers (blocks_of m)) ms)"

definition openai_calls :: "openai_message list \<Rightarrow> string list" where
  "openai_calls ms = concat (map (\<lambda>m. if om_role m = ''assistant''
     then (case om_tool_calls m of Some tcs \<Rightarrow> map oc_id tcs | None \<Rightarrow> []) else []) ms)"

definition openai_answers :: "openai_message list \<Rightarrow> string list" where
  "openai_answers ms = concat (map (\<lambda>m. if om_role m = ''tool''
     then [case om_tool_call_id m of Some i \<Rightarrow> i | None \<Rightarrow> []] else []) ms)"

lemma uses_append: "tool_uses (xs @ ys) = tool_uses xs @ tool_uses ys"
  "tool_answers (xs @ ys) = tool_answers xs @ tool_answers ys"
  by (induction xs) auto

lemma uses_converted: "tool_uses (List.map_filter convert_content_block bs) = []"
  "tool_answers (List.map_filter convert_content_block bs) = []"
  using converted_plain by (auto simp: uses_empty answers_empty no_calls_in_def no_results_in_def)

lemma uses_calls: "tool_uses (map (call_block f) tcs) = map oc_id tcs"
  by (induction tcs) (simp_all add: call_block_def)

lemma user_ids: "tool_uses (blocks_of (convert_user_message mg)) = [] \<and> tool_answers (blocks_of (convert_user_message mg)) = []"
  using user_blocks [of _ mg] by (auto simp: uses_empty answers_empty no_calls_in_def no_results_in_def)

lemma assistant_ids:
  "tool_uses (blocks_of (convert_assistant_message f mg)) = (case om_tool_calls mg of Some tcs \<Rightarrow> map oc_id tcs | None \<Rightarrow> [])
   \<and> tool_answers (blocks_of (convert_assistant_message f mg)) = []"
proof -
  have "tool_uses (assistant_blocks_of f mg) = (case om_tool_calls mg of Some tcs \<Rightarrow> map oc_id tcs | None \<Rightarrow> [])"
    by (simp add: assistant_blocks_of_def uses_append uses_converted uses_calls split: option.split openai_content.split)
  moreover have "tool_answers (assistant_blocks_of f mg) = []"
    using assistant_no_results [of _ f mg] by (auto simp: answers_empty no_results_in_def)
  moreover have "assistant_blocks_of f mg = [] \<longrightarrow> (case om_tool_calls mg of Some tcs \<Rightarrow> map oc_id tcs | None \<Rightarrow> []) = []"
    by (auto simp: assistant_blocks_of_def split: option.split)
  ultimately show ?thesis by (simp add: convert_assistant_message_def blocks_of_def Let_def)
qed

definition state_calls :: "bridge_state \<Rightarrow> string list" where
  "state_calls s = history_calls (br_messages s)"

definition state_answers :: "bridge_state \<Rightarrow> string list" where
  "state_answers s = history_answers (br_messages s) @ tool_answers (br_pending s)"

lemma flush_ids:
  "\<forall>b\<in>set (br_pending s). \<not> is_tool_use b \<Longrightarrow> state_calls (flush_tool_results s) = state_calls s
   \<and> state_answers (flush_tool_results s) = state_answers s \<and> br_pending (flush_tool_results s) = []"
  by (simp add: flush_tool_results_def state_calls_def state_answers_def history_calls_def history_answers_def blocks_of_def
      uses_empty no_calls_in_def)

lemma step_ids:
  assumes "bridge_proper s"
  shows "state_calls (bridge_step f mg s) = state_calls s @ openai_calls [mg]
    \<and> state_answers (bridge_step f mg s) = state_answers s @ openai_answers [mg]"
proof -
  let ?s = "flush_tool_results s"
  have p: "\<forall>b\<in>set (br_pending s). \<not> is_tool_use b" using assms by (simp add: bridge_proper_def)
  note fl = flush_ids [OF p]
  have push: "state_calls (push_message m ?s) = state_calls s @ tool_uses (blocks_of m)"
    "state_answers (push_message m ?s) = state_answers s @ tool_answers (blocks_of m)" for m
    using fl by (auto simp: push_message_def state_calls_def state_answers_def history_calls_def history_answers_def)
  have sys: "state_calls (?s\<lparr>br_system := x\<rparr>) = state_calls ?s" "state_answers (?s\<lparr>br_system := x\<rparr>) = state_answers ?s" for x
    by (simp_all add: state_calls_def state_answers_def)
  consider "om_role mg \<in> {''system'', ''developer''}" | "om_role mg = ''assistant''" | "om_role mg = ''tool''"
    | "om_role mg \<notin> {''system'', ''developer'', ''assistant'', ''tool''}" by blast
  then show ?thesis
  proof cases
    case 1
    then show ?thesis using fl
      by (auto simp: bridge_step_def openai_calls_def openai_answers_def Let_def sys split: option.split)
  next
    case 2
    then show ?thesis by (simp add: bridge_step_def push assistant_ids openai_calls_def openai_answers_def)
  next
    case 3
    then show ?thesis
      by (simp add: bridge_step_def openai_calls_def openai_answers_def state_calls_def state_answers_def uses_append
          convert_tool_result_block_def)
  next
    case 4
    then show ?thesis by (simp add: bridge_step_def push user_ids openai_calls_def openai_answers_def)
  qed
qed

section \<open>Properties\<close>

text \<open>
  Note: the Claude request made of an OpenAI request has the same calls and the same results, in the same
  order, calls only in messages of the assistant and results only in messages of the user.
\<close>

theorem bridge_keeps_calls:
  "history_calls (rq_messages (openai_to_claude_request from_str req)) = openai_calls (oq_messages req)
   \<and> history_answers (rq_messages (openai_to_claude_request from_str req)) = openai_answers (oq_messages req)
   \<and> list_all proper (rq_messages (openai_to_claude_request from_str req))"
proof -
  have run: "state_calls (fold (bridge_step from_str) ms s) = state_calls s @ openai_calls ms
      \<and> state_answers (fold (bridge_step from_str) ms s) = state_answers s @ openai_answers ms
      \<and> bridge_proper (fold (bridge_step from_str) ms s)" if "bridge_proper s" for ms s
    using that
  proof (induction ms arbitrary: s)
    case (Cons m ms)
    then show ?case using step_ids [OF Cons(2), of from_str m] step_proper [OF Cons(2), of from_str m]
      by (simp add: openai_calls_def openai_answers_def)
  qed (simp add: openai_calls_def openai_answers_def)
  let ?s = "\<lparr>br_system = [], br_messages = [], br_pending = []\<rparr>"
  have "bridge_proper ?s" by (simp add: bridge_proper_def)
  note r = run [OF this, of "oq_messages req"]
  have "state_calls ?s = [] \<and> state_answers ?s = []" by (simp add: state_calls_def state_answers_def history_calls_def history_answers_def)
  moreover have "\<forall>b\<in>set (br_pending (fold (bridge_step from_str) (oq_messages req) ?s)). \<not> is_tool_use b"
    using r by (simp add: bridge_proper_def)
  note fl = flush_ids [OF this]
  ultimately have "state_calls (bridge_messages from_str (oq_messages req)) = openai_calls (oq_messages req)
      \<and> state_answers (bridge_messages from_str (oq_messages req)) = openai_answers (oq_messages req)
      \<and> br_pending (bridge_messages from_str (oq_messages req)) = []"
    using r by (simp add: bridge_messages_def)
  then show ?thesis using bridge_messages_proper [of from_str "oq_messages req"]
    by (auto simp: openai_to_claude_request_def Let_def state_calls_def state_answers_def)
qed

text \<open>
  Claim C10: when an OpenAI request for a Claude model is translated, then in the request that goes upstream
  each message with calls that has another message behind it is followed by a user message that has a response
  for each of these calls. Nothing is asked of the messages of the client: the translation to a Claude request
  puts calls and results where they belong. The claim says nothing about calls of the very last
  message: a request that ends in an assistant's calls can go out with these unanswered.
\<close>

theorem bridged_calls_answered:
  assumes "transform_claude_request_in env (openai_to_claude_request from_str req) project_id is_retry = Inr body"
  shows "\<exists>cs. contents_of body = Some cs \<and> Tool_Pairing.all_answered cs"
proof (rule transform_answered [OF assms])
  show "list_all proper (rq_messages (openai_to_claude_request from_str req))"
    using bridge_messages_proper by (simp add: openai_to_claude_request_def Let_def)
qed

definition orphaned :: openai_request where
  "orphaned = \<lparr>oq_model = ''claude-opus-4'', oq_messages =
       [\<lparr>om_role = ''assistant'', om_content = None, om_reasoning_content = None,
          om_tool_calls = Some [\<lparr>oc_id = ''t1'', oc_type = ''function'', oc_name = ''run'', oc_arguments = []\<rparr>],
          om_tool_call_id = None, om_name = None\<rparr>,
        \<lparr>om_role = ''user'', om_content = Some (OString ''Stop''), om_reasoning_content = None, om_tool_calls = None,
          om_tool_call_id = None, om_name = None\<rparr>],
     oq_prompt = None, oq_stream = False, oq_n = None, oq_max_tokens = None, oq_temperature = None, oq_top_p = None,
     oq_stop = None, oq_response_format = None, oq_tools = None, oq_tool_choice = None, oq_parallel_tool_calls = None,
     oq_instructions = None, oq_input = None, oq_size = None, oq_quality = None, oq_person_generation = None\<rparr>"

lemma bridged_calls_answered_witness:
  "\<exists>body cs. transform_claude_request_in demo_env (openai_to_claude_request (\<lambda>_. None) orphaned) ''p'' False = Inr body
     \<and> contents_of body = Some cs \<and> Tool_Pairing.all_answered cs"
proof -
  let ?r = "openai_to_claude_request (\<lambda>_. None) orphaned"
  have ms: "rq_messages ?r = [\<lparr>cm_role = ''assistant'', cm_content = MArray [CToolUse ''t1'' ''run'' (JObj []) None None]\<rparr>,
      \<lparr>cm_role = ''user'', cm_content = MString ''Stop''\<rparr>]"
    by (simp add: openai_to_claude_request_def orphaned_def bridge_messages_def bridge_step_def flush_tool_results_def
        push_message_def convert_assistant_message_def assistant_blocks_of_def call_block_def convert_user_message_def Let_def)
  have o: "rq_tools ?r = None" "rq_model ?r = ''claude-opus-4''"
    by (simp_all add: openai_to_claude_request_def orphaned_def Let_def)
  have "prepare_messages (rq_messages ?r) = rq_messages ?r"
    by (simp add: ms prepare_messages_def merge_consecutive_messages_def sort_thinking_blocks_first_def
        clean_cache_control_from_messages_def on_blocks_def needs_reorder_def)
  from demo_translates [OF this o(2,1), of "''p''"]
  obtain body where b: "transform_claude_request_in demo_env ?r ''p'' False = Inr body"
    by (auto simp: ms blocks_of_def is_thinking_def)
  from bridged_calls_answered [OF this] b show ?thesis by blast
qed

text \<open>
  Note: a single stop sequence, which the OpenAI protocol writes as a string, is lost on the way to a Claude model.
\<close>

theorem single_stop_lost:
  "rq_stop_sequences (openai_to_claude_request from_str (req\<lparr>oq_stop := Some (JStr s)\<rparr>)) = None"
  by (simp add: openai_to_claude_request_def Let_def as_array_def)

end
