(* ===== verification/OpenAI_Request.thy ===== *)
theory OpenAI_Request
  imports OpenAI_Types Request_Transform
begin

text \<open>
  OpenAI requests for Gemini models, \<open>mappers/openai/request/\<close>: \<open>mod.rs\<close>, \<open>message_transform.rs\<close>,
  \<open>content_parts.rs\<close>, \<open>generation_config.rs\<close>, \<open>tool_declarations.rs\<close>. The file system, reading of JSON text,
  base64, percent decoding and the upper case of types are fields of the environment.
\<close>

record openai_env =
  oe_contents :: contents_env
  oe_from_str :: "string \<Rightarrow> json option"
  oe_uppercase :: "string \<Rightarrow> string"
  oe_file_size :: "string \<Rightarrow> nat option"       \<comment> \<open>\<open>None\<close>: there is no such file\<close>
  oe_file_read :: "string \<Rightarrow> u8 list option"
  oe_encode :: "u8 list \<Rightarrow> string"
  oe_percent_decode :: "string \<Rightarrow> string"
  oe_budget :: thinking_budget_config
  oe_retention_turns :: "string option"
  oe_debug :: "openai_content option \<Rightarrow> string"
  oe_uuid :: string

section \<open>Content parts\<close>

definition MAX_LOCAL_FILE_SIZE :: nat where "MAX_LOCAL_FILE_SIZE = 100 * 1024 * 1024"

definition audio_mime :: "string \<Rightarrow> string" where
  "audio_mime format =
     (if format = ''wav'' then ''audio/wav''
      else if format = ''mp3'' then ''audio/mp3''
      else if format = ''ogg'' then ''audio/ogg''
      else if format = ''flac'' then ''audio/flac''
      else if format = ''m4a'' \<or> format = ''aac'' then ''audio/aac'' else ''audio/wav'')"

definition inline_part :: "string \<Rightarrow> string \<Rightarrow> json" where
  "inline_part mime data = JObj [(''inlineData'', JObj [(''data'', JStr data), (''mimeType'', JStr mime)])]"

definition file_part :: "string \<Rightarrow> string \<Rightarrow> json" where
  "file_part uri mime = JObj [(''fileData'', JObj [(''fileUri'', JStr uri), (''mimeType'', JStr mime)])]"

text \<open>Type and data of a data URL; a type is there also when it is empty.\<close>

definition split_data_url :: "string \<Rightarrow> (string \<times> string) option" where
  "split_data_url url =
     (case str_find url '','' of
        Some pos \<Rightarrow> Some (takeWhile (\<lambda>c. c \<noteq> CHR '';'') (drop 5 (take pos url)), drop (pos + 1) url)
      | None \<Rightarrow> None)"

text \<open>\<open>trim_start_matches\<close>: the prefix is removed as often as it stands there.\<close>

function trim_file :: "string \<Rightarrow> string" where
  "trim_file s = (if starts_with s ''file://'' then trim_file (drop 7 s) else s)"
  by pat_completeness auto
termination by (relation "measure length") (auto simp: starts_with_iff)

declare trim_file.simps [simp del]

definition decode_file_url :: "openai_env \<Rightarrow> string \<Rightarrow> string" where
  "decode_file_url env url = oe_percent_decode env (if starts_with url ''file://'' then trim_file url else url)"

definition check_file_size :: "openai_env \<Rightarrow> string \<Rightarrow> bool" where
  "check_file_size env path = (case oe_file_size env path of Some n \<Rightarrow> n \<le> MAX_LOCAL_FILE_SIZE | None \<Rightarrow> False)"

definition image_extension :: "string \<Rightarrow> string" where
  "image_extension path =
     (let p = to_lowercase path
      in if ends_with p ''.png'' then ''image/png''
         else if ends_with p ''.gif'' then ''image/gif''
         else if ends_with p ''.webp'' then ''image/webp'' else ''image/jpeg'')"

definition video_extension :: "string \<Rightarrow> string" where
  "video_extension path =
     (let p = to_lowercase path
      in if ends_with p ''.mp4'' then ''video/mp4''
         else if ends_with p ''.mov'' then ''video/quicktime''
         else if ends_with p ''.webm'' then ''video/webm''
         else if ends_with p ''.avi'' then ''video/x-msvideo'' else ''video/mp4'')"

definition local_file :: "openai_env \<Rightarrow> string \<Rightarrow> (string \<times> string) option" where
  "local_file env url =
     (let path = decode_file_url env url
      in if check_file_size env path then map_option (\<lambda>bytes. (path, oe_encode env bytes)) (oe_file_read env path) else None)"

definition detected_part :: "openai_env \<Rightarrow> string \<Rightarrow> string \<Rightarrow> panic + json option" where
  "detected_part env data mime =
     (case detect_image_mime (xe_compress (oe_contents env)) data mime of
        Inl p \<Rightarrow> Inl p
      | Inr detected \<Rightarrow> Inr (Some (inline_part detected data)))"

definition transform_image_url :: "openai_env \<Rightarrow> string \<Rightarrow> panic + json option" where
  "transform_image_url env url =
     (if starts_with url ''data:''
      then (case split_data_url url of Some (mime, data) \<Rightarrow> detected_part env data mime | None \<Rightarrow> Inr None)
      else if starts_with url ''http'' then Inr (Some (file_part url ''image/jpeg''))
      else case local_file env url of
             Some (path, b64) \<Rightarrow> detected_part env b64 (image_extension path)
           | None \<Rightarrow> Inr None)"

definition transform_video_url :: "openai_env \<Rightarrow> string \<Rightarrow> json option" where
  "transform_video_url env url =
     (if starts_with url ''data:''
      then map_option (\<lambda>(mime, data). inline_part mime data) (split_data_url url)
      else if starts_with url ''http'' then Some (file_part url ''video/mp4'')
      else map_option (\<lambda>(path, b64). inline_part (video_extension path) b64) (local_file env url))"

definition transform_content_block :: "openai_env \<Rightarrow> openai_block \<Rightarrow> panic + json option" where
  "transform_content_block env b =
     (case b of
        OText t \<Rightarrow> Inr (Some (text_part t))
      | OImageUrl u \<Rightarrow> transform_image_url env (iu_url u)
      | OInputAudio _ _ _ \<Rightarrow>
          Inr (map_option (\<lambda>a. inline_part (audio_mime (ia_format a)) (ia_data a)) (extract_audio b))
      | OVideoUrl u \<Rightarrow> Inr (transform_video_url env u))"

section \<open>Messages\<close>

record message_transform_context =
  tx_global_thought_sig :: "string option"
  tx_actual_include_thinking :: bool
  tx_is_thinking_model :: bool
  tx_is_claude_thinking :: bool
  tx_mapped_model :: string
  tx_tool_id_to_name :: "(string, string) table"
  tx_tool_name_to_schema :: "(string, json) table"

definition content_signature :: "openai_env \<Rightarrow> string \<Rightarrow> (string \<times> string) option" where
  "content_signature env t =
     get_content_signature (xe_sha256 (oe_contents env)) (xe_now (oe_contents env)) t (xe_cache (oe_contents env))"

definition transform_reasoning_content :: "openai_env \<Rightarrow> message_transform_context \<Rightarrow> string \<Rightarrow> openai_message \<Rightarrow> json list" where
  "transform_reasoning_content env ctx role mg =
     (case om_reasoning_content mg of
        Some reasoning \<Rightarrow>
          if reasoning = [] then []
          else (case content_signature env reasoning of
                  Some (sig, _) \<Rightarrow> [thinking_part reasoning (Some sig)]
                | None \<Rightarrow>
                    (case tx_global_thought_sig ctx of
                       Some sig \<Rightarrow> [thinking_part reasoning (Some sig)]
                     | None \<Rightarrow> [text_part reasoning]))
      | None \<Rightarrow>
          if tx_actual_include_thinking ctx \<and> role = ''model''
          then (case tx_global_thought_sig ctx of
                  Some sig \<Rightarrow> [thinking_part ''Applying tool decisions and generating response...'' (Some sig)]
                | None \<Rightarrow> [])
          else [])"

definition is_tool_role :: "openai_message \<Rightarrow> bool" where
  "is_tool_role mg \<longleftrightarrow> om_role mg = ''tool'' \<or> om_role mg = ''function''"

fun transform_blocks :: "openai_env \<Rightarrow> openai_block list \<Rightarrow> panic + json list" where
  "transform_blocks env [] = Inr []"
| "transform_blocks env (b # bs) =
     (case transform_content_block env b of
        Inl p \<Rightarrow> Inl p
      | Inr part \<Rightarrow>
          (case transform_blocks env bs of
             Inl p \<Rightarrow> Inl p
           | Inr parts \<Rightarrow> Inr (case part of Some x \<Rightarrow> x # parts | None \<Rightarrow> parts)))"

definition transform_content :: "openai_env \<Rightarrow> openai_message \<Rightarrow> panic + json list" where
  "transform_content env mg =
     (if is_tool_role mg then Inr []
      else case om_content mg of
             Some (OString s) \<Rightarrow> Inr (if s \<noteq> [] then [text_part s] else [])
           | Some (OArray blocks) \<Rightarrow> transform_blocks env blocks
           | None \<Rightarrow> Inr [])"

definition shell_name :: "string \<Rightarrow> string" where
  "shell_name n = (if n = ''local_shell_call'' then ''shell'' else n)"

definition transform_tool_call :: "openai_env \<Rightarrow> message_transform_context \<Rightarrow> tool_call \<Rightarrow> json" where
  "transform_tool_call env ctx tc =
     (let args = (case oe_from_str env (oc_arguments tc) of Some v \<Rightarrow> v | None \<Rightarrow> JObj []);
          args = (case tget (tx_tool_name_to_schema ctx) (oc_name tc) of
                    Some schema \<Rightarrow> fix_tool_call_args (se_to_string (xe_schema (oe_contents env))) args schema
                  | None \<Rightarrow> args);
          args = shell_command_array (oc_name tc) args
      in with_signature (case tx_global_thought_sig ctx of Some sig \<Rightarrow> sig | None \<Rightarrow> DUMMY_SIGNATURE)
           (call_part (oc_id tc) (shell_name (oc_name tc)) args))"

definition transform_tool_calls :: "openai_env \<Rightarrow> message_transform_context \<Rightarrow> openai_message \<Rightarrow> json list" where
  "transform_tool_calls env ctx mg =
     (case om_tool_calls mg of Some tcs \<Rightarrow> map (transform_tool_call env ctx) tcs | None \<Rightarrow> [])"

definition response_name :: "message_transform_context \<Rightarrow> openai_message \<Rightarrow> string" where
  "response_name ctx mg =
     (let name = (case om_name mg of Some n \<Rightarrow> n | None \<Rightarrow> ''unknown'')
      in if name = ''local_shell_call'' then ''shell''
         else case om_tool_call_id mg of
                Some i \<Rightarrow> (case tget (tx_tool_id_to_name ctx) i of Some n \<Rightarrow> n | None \<Rightarrow> name)
              | None \<Rightarrow> name)"

definition transform_tool_response :: "openai_env \<Rightarrow> message_transform_context \<Rightarrow> openai_message \<Rightarrow> json list" where
  "transform_tool_response env ctx mg =
     (if is_tool_role mg
      then let raw_content = (case om_content mg of Some c \<Rightarrow> content_text [CHR 0x0A] c | None \<Rightarrow> []);
               content_val = compact_tool_result_text (xe_compress (oe_contents env)) raw_content MAX_TOOL_RESULT_CHARS
           in [JObj [(''functionResponse'',
                 function_response (case om_tool_call_id mg of Some i \<Rightarrow> i | None \<Rightarrow> []) (response_name ctx mg) content_val)]]
      else [])"

definition upstream_role :: "openai_message \<Rightarrow> string" where
  "upstream_role mg =
     (if om_role mg = ''assistant'' then ''model'' else if is_tool_role mg then ''user'' else om_role mg)"

definition transform_message :: "openai_env \<Rightarrow> message_transform_context \<Rightarrow> openai_message \<Rightarrow> panic + json" where
  "transform_message env ctx mg =
     (let role = upstream_role mg
      in case transform_content env mg of
           Inl p \<Rightarrow> Inl p
         | Inr content \<Rightarrow>
             Inr (content_message role
                    (transform_reasoning_content env ctx role mg @ content
                     @ transform_tool_calls env ctx mg @ transform_tool_response env ctx mg)))"

definition extend_parts :: "json \<Rightarrow> json \<Rightarrow> json option" where
  "extend_parts c d =
     (case (c, jget ''parts'' c, jget ''parts'' d) of
        (JObj m, Some (JArr ps), Some (JArr qs)) \<Rightarrow>
          if jindex c ''role'' = jindex d ''role'' then Some (JObj (tput ''parts'' (JArr (ps @ qs)) m)) else None
      | _ \<Rightarrow> None)"

fun merge_roles_into :: "json \<Rightarrow> json list \<Rightarrow> json list" where
  "merge_roles_into c [] = [c]"
| "merge_roles_into c (d # ds) =
     (case extend_parts c d of
        Some e \<Rightarrow> merge_roles_into e ds
      | None \<Rightarrow> c # merge_roles_into d ds)"

definition merge_consecutive_roles :: "json list \<Rightarrow> json list" where
  "merge_consecutive_roles cs = (case cs of [] \<Rightarrow> [] | c # rest \<Rightarrow> merge_roles_into c rest)"

section \<open>Generation configuration\<close>

definition THINKING_MIN_OVERHEAD :: nat where "THINKING_MIN_OVERHEAD = 8192"

definition openai_top_p :: "rat option \<Rightarrow> rat" where
  "openai_top_p p = (case p of Some v \<Rightarrow> if v \<le> 0 then rnd64 (95 / 100) else v | None \<Rightarrow> rnd64 (95 / 100))"

text \<open>Budget for thinking and limit of the output\<close>

definition openai_limits :: "thinking_budget_config \<Rightarrow> u32 option \<Rightarrow> nat \<times> nat" where
  "openai_limits tb requested =
     (if tb_mode tb = Adaptive then (THINKING_BUDGET, THINKING_BUDGET + THINKING_OVERHEAD)
      else let budget = (case tb_mode tb of Custom \<Rightarrow> unat (tb_custom_value tb) | _ \<Rightarrow> THINKING_BUDGET)
           in (budget,
               case requested of
                 Some max_tokens \<Rightarrow> if unat max_tokens \<le> budget then budget + THINKING_MIN_OVERHEAD else unat max_tokens
               | None \<Rightarrow> budget + THINKING_OVERHEAD))"

definition stop_field :: "json option \<Rightarrow> jmap" where
  "stop_field stop =
     (case stop of
        Some (JStr s) \<Rightarrow> [(''stopSequences'', JArr [JStr s])]
      | Some (JArr a) \<Rightarrow> [(''stopSequences'', JArr a)]
      | _ \<Rightarrow> [])"

definition openai_generation_config :: "thinking_budget_config \<Rightarrow> openai_request \<Rightarrow> bool \<Rightarrow> json" where
  "openai_generation_config tb r actual_include_thinking =
     JObj ([(''temperature'', JNum (JFloat (case oq_temperature r of Some t \<Rightarrow> t | None \<Rightarrow> 1))),
            (''topP'', JNum (JFloat (openai_top_p (oq_top_p r))))]
           @ opt_field ''candidateCount'' (\<lambda>n. json_nat (unat n)) (oq_n r)
           @ (if actual_include_thinking
              then let (budget, max_tokens) = openai_limits tb (oq_max_tokens r)
                   in [(''thinkingConfig'', JObj [(''includeThoughts'', JBool True), (''thinkingBudget'', json_nat budget)]),
                       (''maxOutputTokens'', json_nat max_tokens)]
              else opt_field ''maxOutputTokens'' (\<lambda>n. json_nat (unat n)) (oq_max_tokens r))
           @ stop_field (oq_stop r)
           @ (if oq_response_format r = Some ''json_object''
              then [(''responseMimeType'', JStr ''application/json'')] else []))"

section \<open>Tool declarations\<close>

lemma size_entry: "(k, v) \<in> set m \<Longrightarrow> size v < size (JObj m)"
  using size_list_estimation' [of "(k, v)" m "size v" "size_prod (\<lambda>x. 0) size"] by (auto simp: less_Suc_eq_le)

function enforce_uppercase_types :: "(string \<Rightarrow> string) \<Rightarrow> json \<Rightarrow> json" where
  "enforce_uppercase_types up (JObj m) =
     JObj (map (\<lambda>(k, v). (k,
       if k = ''type'' then (case v of JStr s \<Rightarrow> JStr (up s) | _ \<Rightarrow> v)
       else if k = ''properties''
       then (case v of JObj props \<Rightarrow> JObj (map (\<lambda>(k, w). (k, enforce_uppercase_types up w)) props) | _ \<Rightarrow> v)
       else if k = ''items'' then enforce_uppercase_types up v else v)) m)"
| "enforce_uppercase_types up (JArr a) = JArr (map (enforce_uppercase_types up) a)"
| "enforce_uppercase_types up JNull = JNull"
| "enforce_uppercase_types up (JBool b) = JBool b"
| "enforce_uppercase_types up (JNum n) = JNum n"
| "enforce_uppercase_types up (JStr s) = JStr s"
  by pat_completeness auto

termination
proof (relation "measure (size \<circ> snd)")
  show "((up, y), up, JObj m) \<in> measure (size \<circ> snd)"
    if "(k, v) = e" "v = JObj props" "(k', y) = e'" "e' \<in> set props" "e \<in> set m"
    for up :: "string \<Rightarrow> string" and e e' :: "string \<times> json" and k k' v y props m
    using that size_entry [of k v m] size_entry [of k' y props] by auto
  show "((up, v), up, JObj m) \<in> measure (size \<circ> snd)" if "(k, v) = e" "e \<in> set m"
    for up :: "string \<Rightarrow> string" and e :: "string \<times> json" and k v m
    using that size_entry [of k v m] by auto
qed (auto simp: less_Suc_eq_le intro: size_list_estimation')

definition without_fields :: "string list \<Rightarrow> json \<Rightarrow> json" where
  "without_fields ks j = (case j of JObj m \<Rightarrow> JObj (fold tdel ks m) | _ \<Rightarrow> j)"

definition default_parameters :: json where
  "default_parameters =
     JObj [(''properties'', JObj [(''content'',
             JObj [(''description'', JStr ''The raw content or patch to be applied''), (''type'', JStr ''STRING'')])]),
           (''required'', JArr [JStr ''content'']), (''type'', JStr ''OBJECT'')]"

definition openai_function :: "json \<Rightarrow> json" where
  "openai_function tool =
     (case jget ''function'' tool of
        Some func \<Rightarrow> func
      | None \<Rightarrow> without_fields [''type'', ''strict'', ''additionalProperties''] tool)"

text \<open>\<open>None\<close>: the stack is exhausted\<close>

definition openai_parameters :: "openai_env \<Rightarrow> json option \<Rightarrow> json option" where
  "openai_parameters env parameters =
     (case parameters of
        Some params \<Rightarrow>
          map_option
            (\<lambda>p. enforce_uppercase_types (oe_uppercase env)
                   (case p of JObj m \<Rightarrow> JObj (tentry ''type'' (JStr ''OBJECT'') m) | _ \<Rightarrow> p))
            (clean_json_schema (xe_schema (oe_contents env)) (xe_stack (oe_contents env)) params)
      | None \<Rightarrow> Some default_parameters)"

definition openai_declaration :: "openai_env \<Rightarrow> json \<Rightarrow> json option option" where
  "openai_declaration env tool =
     (let gemini_func = openai_function tool
      in case string_at ''name'' gemini_func of
           None \<Rightarrow> Some None
         | Some n \<Rightarrow>
             if n = ''web_search'' \<or> n = ''google_search'' \<or> n = ''web_search_20250305'' then Some None
             else let gemini_func = (if n = ''local_shell_call'' then jset ''name'' (JStr ''shell'') gemini_func else gemini_func);
                      gemini_func = without_fields [''format'', ''strict'', ''additionalProperties'', ''type'', ''external_web_access'']
                                      gemini_func
                  in map_option (\<lambda>p. Some (jset ''parameters'' p gemini_func)) (openai_parameters env (jget ''parameters'' gemini_func)))"

fun transform_tool_declarations :: "openai_env \<Rightarrow> json list \<Rightarrow> json list option" where
  "transform_tool_declarations env [] = Some []"
| "transform_tool_declarations env (t # ts) =
     (case openai_declaration env t of
        None \<Rightarrow> None
      | Some d \<Rightarrow> map_option (\<lambda>ds. case d of Some x \<Rightarrow> x # ds | None \<Rightarrow> ds) (transform_tool_declarations env ts))"

section \<open>The request\<close>

definition openai_claude_thinking :: "string \<Rightarrow> bool" where
  "openai_claude_thinking mapped \<longleftrightarrow> contains mapped ''claude'' \<and> ends_with mapped ''-thinking''"

definition openai_gemini_thinking :: "string \<Rightarrow> bool" where
  "openai_gemini_thinking mapped \<longleftrightarrow>
     contains mapped ''gemini''
     \<and> (contains mapped ''-thinking'' \<or> contains mapped ''gemini-2.0-pro'' \<or> contains mapped ''gemini-3-pro'')
     \<and> \<not> contains mapped ''claude'' \<and> \<not> contains mapped ''-image''"

definition has_unrecoverable_thinking :: "openai_env \<Rightarrow> openai_request \<Rightarrow> bool" where
  "has_unrecoverable_thinking env r \<longleftrightarrow>
     list_ex (\<lambda>mg. om_role mg = ''assistant''
       \<and> (case om_reasoning_content mg of
            Some reasoning \<Rightarrow> reasoning \<noteq> [] \<and> content_signature env reasoning = None | None \<Rightarrow> False)) (oq_messages r)"

definition is_system_message :: "openai_message \<Rightarrow> bool" where
  "is_system_message mg \<longleftrightarrow> om_role mg = ''system'' \<or> om_role mg = ''developer''"

definition openai_system_instructions :: "openai_request \<Rightarrow> string list" where
  "openai_system_instructions r =
     (case oq_instructions r of Some inst \<Rightarrow> if inst \<noteq> [] then [inst] else [] | None \<Rightarrow> [])
     @ List.map_filter (\<lambda>mg. map_option (content_text [CHR 0x0A]) (om_content mg)) (filter is_system_message (oq_messages r))"

definition calls_of_message :: "openai_message \<Rightarrow> tool_call list" where
  "calls_of_message mg = (case om_tool_calls mg of Some tcs \<Rightarrow> tcs | None \<Rightarrow> [])"

definition openai_id_names :: "openai_request \<Rightarrow> (string, string) table" where
  "openai_id_names r =
     fold (\<lambda>tc t. tput (oc_id tc) (shell_name (oc_name tc)) t) (concat (map calls_of_message (oq_messages r))) []"

definition openai_tool_schema :: "json \<Rightarrow> (string \<times> json) option" where
  "openai_tool_schema tool =
     (let named = (\<lambda>j. case (string_at ''name'' j, jget ''parameters'' j) of (Some n, Some p) \<Rightarrow> Some (n, p) | _ \<Rightarrow> None)
      in case Option.bind (jget ''function'' tool) named of
           Some e \<Rightarrow> Some e
         | None \<Rightarrow> named tool)"

definition openai_tool_schemas :: "openai_request \<Rightarrow> (string, json) table" where
  "openai_tool_schemas r =
     fold (\<lambda>(n, p) t. tput n p t)
       (List.map_filter openai_tool_schema (case oq_tools r of Some ts \<Rightarrow> ts | None \<Rightarrow> [])) []"

definition openai_context :: "openai_env \<Rightarrow> openai_request \<Rightarrow> string \<Rightarrow> message_transform_context" where
  "openai_context env r mapped_model =
     (let cenv = oe_contents env;
          mapped = to_lowercase mapped_model;
          is_claude_thinking = openai_claude_thinking mapped;
          is_thinking_model = openai_gemini_thinking mapped \<or> is_claude_thinking
      in \<lparr>tx_global_thought_sig =
            get_session_signature (xe_now cenv) (extract_openai_session_id (xe_sha256 cenv) (oe_debug env) r) (xe_cache cenv),
          tx_actual_include_thinking =
            (if is_claude_thinking \<and> has_unrecoverable_thinking env r then False else is_thinking_model),
          tx_is_thinking_model = is_thinking_model,
          tx_is_claude_thinking = is_claude_thinking,
          tx_mapped_model = mapped_model,
          tx_tool_id_to_name = openai_id_names r,
          tx_tool_name_to_schema = openai_tool_schemas r\<rparr>)"

fun transform_messages :: "openai_env \<Rightarrow> message_transform_context \<Rightarrow> openai_message list \<Rightarrow> panic + json list" where
  "transform_messages env ctx [] = Inr []"
| "transform_messages env ctx (mg # mgs) =
     (case transform_message env ctx mg of
        Inl p \<Rightarrow> Inl p
      | Inr c \<Rightarrow>
          (case transform_messages env ctx mgs of
             Inl p \<Rightarrow> Inl p
           | Inr cs \<Rightarrow> Inr (c # cs)))"

definition has_parts :: "json \<Rightarrow> bool" where
  "has_parts c \<longleftrightarrow> (case jindex c ''parts'' of JArr ps \<Rightarrow> ps \<noteq> [] | _ \<Rightarrow> False)"

definition openai_contents :: "openai_env \<Rightarrow> message_transform_context \<Rightarrow> openai_message list \<Rightarrow> panic + json list" where
  "openai_contents env ctx mgs =
     (case transform_messages env ctx (filter (\<lambda>mg. \<not> is_system_message mg) mgs) of
        Inl p \<Rightarrow> Inl p
      | Inr cs \<Rightarrow> Inr (merge_consecutive_roles (filter has_parts cs)))"

definition openai_safety_settings :: json where
  "openai_safety_settings =
     JArr (map (\<lambda>c. JObj [(''category'', JStr c), (''threshold'', JStr ''OFF'')])
       [''HARM_CATEGORY_HARASSMENT'', ''HARM_CATEGORY_HATE_SPEECH'', ''HARM_CATEGORY_SEXUALLY_EXPLICIT'',
        ''HARM_CATEGORY_DANGEROUS_CONTENT''])"

definition openai_system_instruction :: "string list \<Rightarrow> json" where
  "openai_system_instruction insts =
     content_message ''user''
       (map text_part ((if list_ex (\<lambda>s. contains s ''You are Antigravity'') insts then [] else [antigravity_identity]) @ insts))"

text \<open>The request without its tools, cleaned; then tools, instructions and what the configuration asks for\<close>

definition openai_base :: "openai_env \<Rightarrow> json list \<Rightarrow> json \<Rightarrow> json" where
  "openai_base env cs generation_config =
     deep_clean_undefined
       (JObj [(''contents'', strip_old_images (oe_retention_turns env) (JArr cs)), (''generationConfig'', generation_config),
              (''safetySettings'', openai_safety_settings)])"

definition openai_inner :: "openai_request \<Rightarrow> request_config \<Rightarrow> json list \<Rightarrow> json \<Rightarrow> json" where
  "openai_inner r config function_declarations base =
     (let inner = (if function_declarations \<noteq> []
                   then jset ''tools'' (JArr [JObj [(''functionDeclarations'', JArr function_declarations)]]) base else base);
          inner = jset ''systemInstruction'' (openai_system_instruction (openai_system_instructions r)) inner;
          inner = (if rc_inject_google_search config then inject_google_search_tool inner else inner)
      in case rc_image_config config of Some c \<Rightarrow> with_image_config c inner | None \<Rightarrow> inner)"

definition transform_openai_request ::
  "openai_env \<Rightarrow> openai_request \<Rightarrow> string \<Rightarrow> string \<Rightarrow> build_error + json" where
  "transform_openai_request env r project_id mapped_model =
     (let config = resolve_request_config (oq_model r) (to_lowercase mapped_model) (oq_tools r) (oq_size r) (oq_quality r);
          ctx = openai_context env r mapped_model
      in case openai_contents env ctx (oq_messages r) of
           Inl p \<Rightarrow> Inl (Panicked p)
         | Inr cs \<Rightarrow>
             (case transform_tool_declarations env (case oq_tools r of Some ts \<Rightarrow> ts | None \<Rightarrow> []) of
                None \<Rightarrow> Inl StackOverflow
              | Some decls \<Rightarrow>
                  Inr (JObj [(''model'', JStr (rc_final_model config)), (''project'', JStr project_id),
                             (''request'',
                                openai_inner r config decls
                                  (openai_base env cs
                                     (openai_generation_config (oe_budget env) r (tx_actual_include_thinking ctx)))),
                             (''requestId'', JStr (''openai-'' @ oe_uuid env)),
                             (''requestType'', JStr (rc_request_type config)), (''userAgent'', JStr ''antigravity'')])))"

section \<open>Lemmas\<close>

text \<open>Neighbours with the same key are put together; what merging does to contents\<close>

fun grouped :: "('a \<times> 'b list) list \<Rightarrow> ('a \<times> 'b list) list" where
  "grouped ((r, ps) # (s, qs) # rest) = (if r = s then grouped ((r, ps @ qs) # rest) else (r, ps) # grouped ((s, qs) # rest))"
| "grouped rs = rs"

abbreviation content_pair :: "string \<times> json list \<Rightarrow> json" where
  "content_pair \<equiv> \<lambda>(role, parts). content_message role parts"

lemma extend_messages:
  "extend_parts (content_message r ps) (content_message s qs) = (if r = s then Some (content_message r (ps @ qs)) else None)"
  by (simp add: extend_parts_def content_message_def jget_def jindex_def tput_def)

lemma merge_into_grouped: "merge_roles_into (content_pair p) (map content_pair ps) = map content_pair (grouped (p # ps))"
proof (induction "p # ps" arbitrary: p ps rule: grouped.induct)
  case (1 r ps s qs rest)
  then show ?case by (simp add: extend_messages)
qed auto

lemma merge_grouped: "merge_consecutive_roles (map content_pair ps) = map content_pair (grouped ps)"
  using merge_into_grouped by (cases ps) (simp_all add: merge_consecutive_roles_def)

lemma grouped_first: "\<exists>ps' rest'. grouped ((r, ps) # rest) = (r, ps') # rest'"
  by (induction "(r, ps) # rest" arbitrary: ps rest rule: grouped.induct) auto

lemma grouped_ok:
  "distinct_adj (map fst (grouped ps)) \<and> concat (map snd (grouped ps)) = concat (map snd ps)
   \<and> (list_all (\<lambda>p. snd p \<noteq> []) ps \<longrightarrow> list_all (\<lambda>p. snd p \<noteq> []) (grouped ps))"
proof (induction ps rule: grouped.induct)
  case (1 r ps s qs rest)
  show ?case
  proof (cases "r = s")
    case True
    then show ?thesis using 1(1) by auto
  next
    case False
    obtain ps' rest' where "grouped ((s, qs) # rest) = (s, ps') # rest'" using grouped_first by metis
    then show ?thesis using False 1(2) by auto
  qed
qed auto

text \<open>What a message becomes, its parts and the calls among them\<close>

definition message_parts :: "openai_env \<Rightarrow> message_transform_context \<Rightarrow> openai_message \<Rightarrow> json list \<Rightarrow> json list" where
  "message_parts env ctx mg content =
     transform_reasoning_content env ctx (upstream_role mg) mg @ content
     @ transform_tool_calls env ctx mg @ transform_tool_response env ctx mg"

definition is_call :: "json \<Rightarrow> bool" where
  "is_call p \<longleftrightarrow> jget ''functionCall'' p \<noteq> None"

lemma part_is_call [simp]:
  "\<not> is_call (text_part t)" "\<not> is_call (inline_part m d)" "\<not> is_call (file_part u m)" "\<not> is_call (thinking_part t s)"
  "\<not> is_call (JObj [(''functionResponse'', v)])"
  by (auto simp: is_call_def text_part_def inline_part_def file_part_def thinking_part_def jget_def split: option.split)

lemma block_no_call:
  assumes "transform_content_block env b = Inr (Some p)"
  shows "\<not> is_call p"
  using assms
  by (auto simp: transform_content_block_def transform_image_url_def transform_video_url_def detected_part_def
      split: openai_block.splits if_splits option.splits sum.splits)

lemma blocks_no_call: "transform_blocks env bs = Inr ps \<Longrightarrow> list_all (Not \<circ> is_call) ps"
  by (induction bs arbitrary: ps) (auto split: sum.splits option.splits dest: block_no_call)

lemma content_no_call: "transform_content env mg = Inr ps \<Longrightarrow> list_all (Not \<circ> is_call) ps"
  by (auto simp: transform_content_def blocks_no_call split: if_splits option.splits openai_content.splits)

lemma call_is_call [simp]: "is_call (transform_tool_call env ctx tc)"
  by (simp add: transform_tool_call_def with_signature_def call_part_def is_call_def jget_def Let_def)

lemma message_calls:
  assumes "transform_content env mg = Inr content"
  shows "filter is_call (message_parts env ctx mg content) = map (transform_tool_call env ctx) (calls_of_message mg)"
proof -
  have "filter is_call (transform_reasoning_content env ctx (upstream_role mg) mg) = []"
    by (auto simp: transform_reasoning_content_def filter_empty_conv split: option.split)
  moreover have "filter is_call content = []"
    using content_no_call [OF assms] by (simp add: filter_empty_conv list_all_iff)
  moreover have "filter is_call (transform_tool_response env ctx mg) = []"
    by (simp add: transform_tool_response_def Let_def)
  moreover have "filter is_call (transform_tool_calls env ctx mg) = map (transform_tool_call env ctx) (calls_of_message mg)"
    by (auto simp: transform_tool_calls_def calls_of_message_def split: option.split)
  ultimately show ?thesis by (simp add: message_parts_def)
qed

lemma messages_shape:
  assumes "transform_messages env ctx mgs = Inr cs"
  shows "\<exists>ps. cs = map content_pair ps \<and> filter is_call (concat (map snd ps)) = map (transform_tool_call env ctx) (concat (map calls_of_message mgs))"
  using assms
proof (induction mgs arbitrary: cs)
  case Nil
  then show ?case by (auto intro!: exI [of _ "[]"])
next
  case (Cons mg mgs)
  obtain content where c: "transform_content env mg = Inr content"
    using Cons.prems by (auto simp: transform_message_def Let_def split: sum.splits)
  then obtain rest where r: "transform_messages env ctx mgs = Inr rest"
    and cs: "cs = content_message (upstream_role mg) (message_parts env ctx mg content) # rest"
    using Cons.prems by (auto simp: transform_message_def Let_def message_parts_def split: sum.splits)
  obtain ps where "rest = map content_pair ps"
    "filter is_call (concat (map snd ps)) = map (transform_tool_call env ctx) (concat (map calls_of_message mgs))"
    using Cons.IH [OF r] by blast
  then show ?case
    using cs message_calls [OF c, of ctx] by (intro exI [of _ "(upstream_role mg, message_parts env ctx mg content) # ps"]) auto
qed

lemma has_parts_pair: "has_parts (content_pair p) \<longleftrightarrow> snd p \<noteq> []"
  by (cases p) (simp add: has_parts_def content_message_def jindex_def jget_def)

lemma message_parts_unique:
  "content_message r ps = content_message r qs \<longleftrightarrow> ps = qs" "has_parts (content_message r ps) \<longleftrightarrow> ps \<noteq> []"
  using has_parts_pair [of "(r, ps)"] by (simp_all add: content_message_def)

lemma filter_parts:
  "filter has_parts (map content_pair ps) = map content_pair (filter (\<lambda>p. snd p \<noteq> []) ps)"
  "concat (map snd (filter (\<lambda>p. snd p \<noteq> []) ps)) = concat (map snd ps)"
  by (induction ps) (simp_all add: has_parts_pair)

lemma contents_shape:
  assumes "openai_contents env ctx mgs = Inr cs"
  shows "\<exists>ps. cs = map content_pair ps \<and> distinct_adj (map fst ps) \<and> list_all (\<lambda>p. snd p \<noteq> []) ps
    \<and> filter is_call (concat (map snd ps))
        = map (transform_tool_call env ctx) (concat (map calls_of_message (filter (\<lambda>mg. \<not> is_system_message mg) mgs)))"
proof -
  obtain ds where d: "transform_messages env ctx (filter (\<lambda>mg. \<not> is_system_message mg) mgs) = Inr ds"
    and cs: "cs = merge_consecutive_roles (filter has_parts ds)"
    using assms by (auto simp: openai_contents_def split: sum.splits)
  obtain ps where ps: "ds = map content_pair ps"
    "filter is_call (concat (map snd ps))
       = map (transform_tool_call env ctx) (concat (map calls_of_message (filter (\<lambda>mg. \<not> is_system_message mg) mgs)))"
    using messages_shape [OF d] by blast
  let ?qs = "filter (\<lambda>p. snd p \<noteq> []) ps"
  have "cs = map content_pair (grouped ?qs)" by (simp add: cs ps(1) filter_parts merge_grouped)
  moreover have "list_all (\<lambda>p. snd p \<noteq> []) ?qs" by (simp add: list_all_iff)
  ultimately show ?thesis using grouped_ok [of ?qs] ps(2) filter_parts(2) [of ps] by auto
qed

text \<open>Old images are replaced and the contents are cleaned: roles, the number of parts and the calls stay.\<close>

definition plain_call :: "json \<Rightarrow> bool" where
  "plain_call p \<longleftrightarrow> without_image p = p \<and> is_call (deep_clean_undefined p)"

definition calls_plain :: "(string \<times> json list) list \<Rightarrow> bool" where
  "calls_plain ps \<longleftrightarrow> list_all plain_call (filter is_call (concat (map snd ps)))"

definition parts_kept :: "string \<times> json list \<Rightarrow> string \<times> json list \<Rightarrow> bool" where
  "parts_kept p q \<longleftrightarrow> fst q = fst p \<and> length (snd q) = length (snd p) \<and> filter is_call (snd q) = filter is_call (snd p)"

lemma tool_call_plain: "plain_call (transform_tool_call env ctx tc)"
proof -
  obtain a s where t: "transform_tool_call env ctx tc = with_signature s (call_part (oc_id tc) (shell_name (oc_name tc)) a)"
    by (simp add: transform_tool_call_def Let_def)
  have "with_signature s (call_part i n a) = JObj [(''functionCall'', JObj [(''args'', a), (''id'', JStr i), (''name'', JStr n)]),
      (''thoughtSignature'', JStr s)]" for i n
    by (simp add: with_signature_def call_part_def tput_def)
  then show ?thesis unfolding plain_call_def t by (simp add: without_image_def is_image_mime_def is_call_def jget_def)
qed

lemma strip_message: "replace_inline_data_in_parts (content_message r ps) = content_message r (map without_image ps)"
  by (simp add: replace_inline_data_in_parts_def on_parts_def jmap_key_def jmap_array_def content_message_def tput_def)

lemma no_call_without_image: "\<not> is_call p \<Longrightarrow> \<not> is_call (without_image p)"
  by (simp add: without_image_def is_call_def jget_def)

lemma replaced_kept:
  assumes "\<forall>x\<in>set (snd p). is_call x \<longrightarrow> plain_call x"
  shows "parts_kept p (fst p, map without_image (snd p))"
proof -
  have "filter is_call (map without_image xs) = filter is_call xs" if "\<forall>x\<in>set xs. is_call x \<longrightarrow> plain_call x" for xs
    using that by (induction xs) (auto simp: plain_call_def no_call_without_image)
  then show ?thesis using assms by (simp add: parts_kept_def)
qed

lemma kept_calls: "list_all2 parts_kept ps qs \<Longrightarrow> filter is_call (concat (map snd qs)) = filter is_call (concat (map snd ps))"
  by (induction rule: list_all2_induct) (auto simp: parts_kept_def)

lemma kept_roles: "list_all2 parts_kept ps qs \<Longrightarrow> map fst qs = map fst ps"
  by (induction rule: list_all2_induct) (auto simp: parts_kept_def)

lemma kept_nonempty: "list_all2 parts_kept ps qs \<Longrightarrow> list_all (\<lambda>p. snd p \<noteq> []) ps \<Longrightarrow> list_all (\<lambda>p. snd p \<noteq> []) qs"
  by (induction rule: list_all2_induct) (auto simp: parts_kept_def)

lemma kept_refl: "list_all2 parts_kept ps ps"
  by (simp add: list_all2_conv_all_nth parts_kept_def)

lemma kept_step:
  assumes "list_all2 parts_kept ps qs" and "calls_plain ps"
  shows "\<exists>rs. (map content_pair qs)[i := replace_inline_data_in_parts (map content_pair qs ! i)] = map content_pair rs
    \<and> list_all2 parts_kept ps rs"
proof (cases "i < length qs")
  case True
  obtain r xs where q: "qs ! i = (r, xs)" by force
  have "list_all plain_call (filter is_call (concat (map snd qs)))" using assms kept_calls by (simp add: calls_plain_def)
  moreover have "(r, xs) \<in> set qs" using True q by (metis nth_mem)
  ultimately have "\<forall>x\<in>set xs. is_call x \<longrightarrow> plain_call x" by (force simp: list_all_iff)
  then have k: "parts_kept (qs ! i) (r, map without_image xs)" using replaced_kept [of "(r, xs)"] by (simp add: q)
  have l: "i < length ps" using True list_all2_lengthD [OF assms(1)] by simp
  have "parts_kept (ps ! i) (r, map without_image xs)" using k list_all2_nthD [OF assms(1) l] by (simp add: parts_kept_def)
  then have "list_all2 parts_kept (ps[i := ps ! i]) (qs[i := (r, map without_image xs)])"
    by (rule list_all2_update_cong [OF assms(1)])
  moreover have "(map content_pair qs)[i := replace_inline_data_in_parts (map content_pair qs ! i)]
      = map content_pair (qs[i := (r, map without_image xs)])"
    using True by (simp add: map_update q strip_message)
  ultimately show ?thesis using l by auto
qed (use assms in \<open>auto simp: list_update_beyond\<close>)

lemma stripped_kept:
  assumes "calls_plain ps"
  shows "\<exists>qs. strip_old_images var (JArr (map content_pair ps)) = JArr (map content_pair qs) \<and> list_all2 parts_kept ps qs"
proof -
  have f: "\<exists>rs. fold (\<lambda>i cs. cs[i := replace_inline_data_in_parts (cs ! i)]) is (map content_pair qs) = map content_pair rs
      \<and> list_all2 parts_kept ps rs"
    if "list_all2 parts_kept ps qs" for "is" qs
    using that
  proof (induction "is" arbitrary: qs)
    case (Cons i "is")
    then show ?case using kept_step [OF Cons.prems assms, of i] by auto
  qed auto
  let ?cs = "map content_pair ps"
  show ?thesis
  proof (cases "length (user_indices ?cs) \<le> get_retention_turns var")
    case False
    then show ?thesis using f [OF kept_refl] by (simp add: strip_old_images_def Let_def)
  qed (use kept_refl in \<open>auto simp: strip_old_images_def\<close>)
qed

definition clean_role :: "string \<Rightarrow> json" where
  "clean_role r = (if r = ''[undefined]'' then JNull else JStr r)"

lemma clean_message:
  "parts_of (deep_clean_undefined (content_message r ps)) = Some (map deep_clean_undefined ps)"
  "jindex (deep_clean_undefined (content_message r ps)) ''role'' = clean_role r"
  by (simp_all add: content_message_def parts_of_def jget_def as_array_def jindex_def clean_role_def)



text \<open>The contents of the body\<close>

lemma openai_base_contents:
  assumes "strip_old_images (oe_retention_turns env) (JArr cs) = JArr ds"
  shows "field_is ''contents'' (JArr (map deep_clean_undefined ds)) (openai_base env cs g)"
  by (simp add: openai_base_def assms field_is_def)

lemma openai_inner_contents:
  assumes "field_is ''contents'' c base"
  shows "field_is ''contents'' c (openai_inner r config decls base)"
  using assms by (simp add: openai_inner_def Let_def field_jset field_inject field_image split: option.split)

lemma openai_body_contents:
  assumes "transform_openai_request env r project_id mapped_model = Inr body"
  shows "\<exists>qs. contents_of body = Some (map deep_clean_undefined (map content_pair qs)) \<and> distinct_adj (map fst qs)
    \<and> list_all (\<lambda>p. snd p \<noteq> []) qs
    \<and> filter is_call (concat (map snd qs)) = map (transform_tool_call env (openai_context env r mapped_model))
        (concat (map calls_of_message (filter (\<lambda>mg. \<not> is_system_message mg) (oq_messages r))))"
proof -
  obtain cs config decls g where cs: "openai_contents env (openai_context env r mapped_model) (oq_messages r) = Inr cs"
    and body: "jget ''request'' body = Some (openai_inner r config decls (openai_base env cs g))"
    using assms by (auto simp: transform_openai_request_def Let_def jget_def split: sum.splits option.splits)
  obtain ps where ps: "cs = map content_pair ps" "distinct_adj (map fst ps)" "list_all (\<lambda>p. snd p \<noteq> []) ps"
    "filter is_call (concat (map snd ps)) = map (transform_tool_call env (openai_context env r mapped_model))
        (concat (map calls_of_message (filter (\<lambda>mg. \<not> is_system_message mg) (oq_messages r))))"
    using contents_shape [OF cs] by blast
  have "calls_plain ps" by (simp add: calls_plain_def ps(4) list_all_iff tool_call_plain)
  then obtain qs where qs: "strip_old_images (oe_retention_turns env) (JArr cs) = JArr (map content_pair qs)"
    "list_all2 parts_kept ps qs"
    using stripped_kept ps(1) by blast
  have "contents_of body = Some (map deep_clean_undefined (map content_pair qs))"
    using openai_inner_contents [OF openai_base_contents [OF qs(1)], of r config decls g]
    by (auto simp: contents_of_def body field_is_def jget_obj as_array_def)
  then show ?thesis
    using ps(2-4) kept_roles [OF qs(2)] kept_nonempty [OF qs(2)] kept_calls [OF qs(2)] by (intro exI [of _ qs]) simp
qed

lemma clean_pairs:
  "map (\<lambda>c. jindex c ''role'') (map deep_clean_undefined (map content_pair qs)) = map clean_role (map fst qs)"
  "map parts_of (map deep_clean_undefined (map content_pair qs)) = map (\<lambda>p. Some (map deep_clean_undefined (snd p))) qs"
  by (auto simp: clean_message)

lemma clean_role_inj: "inj clean_role"
  by (auto simp: inj_on_def clean_role_def)

text \<open>The limits of an OpenAI request\<close>

lemma openai_limits_ok:
  assumes "openai_limits tb requested = (budget, n)"
  shows "budget < n" and "n < 2 ^ 33"
proof -
  have "budget < 2 ^ 32 \<and> (\<forall>m. requested = Some m \<longrightarrow> unat m < 2 ^ 32)"
    using assms u32_less [of "tb_custom_value tb"] u32_less
    by (cases "tb_mode tb") (auto simp: openai_limits_def Let_def THINKING_BUDGET_def)
  then show "budget < n" "n < 2 ^ 33"
    using assms by (auto simp: openai_limits_def Let_def THINKING_OVERHEAD_def THINKING_MIN_OVERHEAD_def THINKING_BUDGET_def
        split: if_splits option.splits)
qed

lemma openai_config_fields:
  assumes "openai_limits tb (oq_max_tokens r) = (budget, n)"
  shows "budget_field (openai_generation_config tb r True) = Some (of_nat budget)"
    and "max_tokens_field (openai_generation_config tb r True) = Some (of_nat n)"
proof -
  have "n < 2 ^ 64" "budget < 2 ^ 64" using openai_limits_ok [OF assms] by simp_all
  then show "budget_field (openai_generation_config tb r True) = Some (of_nat budget)"
    "max_tokens_field (openai_generation_config tb r True) = Some (of_nat n)"
    by (simp_all add: budget_field_def max_tokens_field_def openai_generation_config_def assms jget_def tget_append
        tget_opt_field json_nat_u64 del: map_of_append)
qed

text \<open>The names of the tools that are declared\<close>

definition search_names :: "string set" where
  "search_names = {''web_search'', ''google_search'', ''web_search_20250305''}"

definition openai_tool_names :: "json list \<Rightarrow> string list" where
  "openai_tool_names ts =
     map shell_name (filter (\<lambda>n. n \<notin> search_names) (List.map_filter (\<lambda>t. string_at ''name'' (openai_function t)) ts))"

lemma string_at_jset: "string_at k (jset k' v j) = (if k = k' \<and> (\<exists>m. j = JObj m) then as_str v else string_at k j)"
  by (cases j) (auto simp: string_at_def jset_def jget_def)

lemma tget_without: "tget (fold tdel ks m) k = (if k \<in> set ks then None else tget m k)"
  by (induction ks arbitrary: m) auto

lemma string_at_without: "k \<notin> set ks \<Longrightarrow> string_at k (without_fields ks j) = string_at k j"
  by (cases j) (simp_all add: string_at_def without_fields_def jget_def tget_without)

lemma string_at_obj: "string_at k j = Some n \<Longrightarrow> \<exists>m. j = JObj m"
  by (cases j) (simp_all add: string_at_def jget_def)

lemma declaration_name:
  assumes "openai_declaration env t = Some d"
  shows "Option.bind d (string_at ''name'') =
    (case string_at ''name'' (openai_function t) of
       Some n \<Rightarrow> if n \<in> search_names then None else Some (shell_name n) | None \<Rightarrow> None)
    \<and> (case d of Some x \<Rightarrow> string_at ''name'' x \<noteq> None \<and> has_key ''parameters'' x | None \<Rightarrow> True)"
proof (cases "string_at ''name'' (openai_function t)")
  case None
  then show ?thesis using assms by (simp add: openai_declaration_def Let_def)
next
  case (Some n)
  show ?thesis
  proof (cases "n \<in> search_names")
    case True
    then show ?thesis using assms Some by (auto simp: openai_declaration_def Let_def search_names_def)
  next
    case False
    define f where "f = without_fields [''format'', ''strict'', ''additionalProperties'', ''type'', ''external_web_access'']
        (if n = ''local_shell_call'' then jset ''name'' (JStr ''shell'') (openai_function t) else openai_function t)"
    have n: "string_at ''name'' f = Some (shell_name n)"
      using string_at_obj [OF Some] Some by (auto simp: f_def string_at_without string_at_jset shell_name_def as_str_def)
    then obtain m where m: "f = JObj m" using string_at_obj by blast
    obtain p where "d = Some (jset ''parameters'' p f)"
      using assms Some False by (auto simp: openai_declaration_def Let_def search_names_def f_def split: if_splits)
    then show ?thesis using Some False n m string_at_jset [of "''name''" "''parameters''" p f]
      by (auto simp: has_key_def jset_def jget_def)
  qed
qed

lemma declarations_named:
  assumes "transform_tool_declarations env ts = Some ds"
  shows "map (string_at ''name'') ds = map Some (openai_tool_names ts) \<and> list_all (has_key ''parameters'') ds"
  using assms
proof (induction ts arbitrary: ds)
  case Nil
  then show ?case by (simp add: openai_tool_names_def map_filter_def)
next
  case (Cons t ts)
  obtain d rest where d: "openai_declaration env t = Some d" and r: "transform_tool_declarations env ts = Some rest"
    and ds: "ds = (case d of Some x \<Rightarrow> x # rest | None \<Rightarrow> rest)"
    using Cons.prems by (auto split: option.splits)
  have "openai_tool_names (t # ts) = (case string_at ''name'' (openai_function t) of
      Some n \<Rightarrow> if n \<in> search_names then [] else [shell_name n] | None \<Rightarrow> []) @ openai_tool_names ts"
    by (simp add: openai_tool_names_def map_filter_def split: option.split)
  then show ?case using Cons.IH [OF r] declaration_name [OF d] ds
    by (auto split: option.splits if_splits)
qed

text \<open>A request with texts only is always translated.\<close>

lemma text_messages:
  assumes "\<forall>mg\<in>set mgs. case om_content mg of Some (OArray _) \<Rightarrow> False | _ \<Rightarrow> True"
  shows "\<exists>cs. transform_messages env ctx mgs = Inr cs"
  using assms
proof (induction mgs)
  case (Cons mg mgs)
  have "\<exists>ps. transform_content env mg = Inr ps"
    using Cons.prems by (auto simp: transform_content_def split: option.splits openai_content.splits)
  then show ?case using Cons by (auto simp: transform_message_def Let_def)
qed simp

lemma text_translates:
  assumes "\<forall>mg\<in>set (oq_messages r). case om_content mg of Some (OArray _) \<Rightarrow> False | _ \<Rightarrow> True" and "oq_tools r = None"
  shows "\<exists>body. transform_openai_request env r project_id mapped_model = Inr body"
proof -
  have "\<exists>cs. transform_messages env (openai_context env r mapped_model)
      (filter (\<lambda>mg. \<not> is_system_message mg) (oq_messages r)) = Inr cs"
    by (rule text_messages) (use assms(1) in simp)
  then show ?thesis by (auto simp: transform_openai_request_def openai_contents_def assms(2) Let_def)
qed

definition demo_openai_env :: openai_env where
  "demo_openai_env = \<lparr>oe_contents = te_contents demo_env, oe_from_str = (\<lambda>_. None), oe_uppercase = id,
     oe_file_size = (\<lambda>f. if f = ''notes'' then Some 1 else None), oe_file_read = (\<lambda>f. if f = ''notes'' then Some [65] else None),
     oe_encode = (\<lambda>_. ''QQ==''), oe_percent_decode = id, oe_budget = default_thinking_budget_config,
     oe_retention_turns = None, oe_debug = (\<lambda>_. []), oe_uuid = ''0''\<rparr>"

definition plain_message :: "string \<Rightarrow> string \<Rightarrow> openai_message" where
  "plain_message role t = \<lparr>om_role = role, om_content = Some (OString t), om_reasoning_content = None, om_tool_calls = None,
     om_tool_call_id = None, om_name = None\<rparr>"

definition demo_tool_call :: tool_call where
  "demo_tool_call = \<lparr>oc_id = ''c1'', oc_type = ''function'', oc_name = ''run'', oc_arguments = ''{}''\<rparr>"

definition demo_openai :: openai_request where
  "demo_openai = \<lparr>oq_model = ''gpt-4o'',
     oq_messages = [plain_message ''system'' ''Be brief'', plain_message ''user'' ''Run it'',
        (plain_message ''assistant'' '''')\<lparr>om_tool_calls := Some [demo_tool_call]\<rparr>, plain_message ''user'' ''Stop'',
        plain_message ''user'' ''Now''],
     oq_prompt = None, oq_stream = False, oq_n = None, oq_max_tokens = None, oq_temperature = None, oq_top_p = None,
     oq_stop = None, oq_response_format = None, oq_tools = None, oq_tool_choice = None, oq_parallel_tool_calls = None,
     oq_instructions = None, oq_input = None, oq_size = None, oq_quality = None, oq_person_generation = None\<rparr>"

lemma demo_openai_ok: "\<exists>body. transform_openai_request demo_openai_env demo_openai p m = Inr body"
  by (rule text_translates) (simp_all add: demo_openai_def plain_message_def)

section \<open>Properties\<close>

text \<open>
  Note: what a client says in one turn goes upstream as one turn: in every request that is built, messages
  next to each other have different roles and each of them has parts.
\<close>

theorem openai_roles_alternate:
  assumes "transform_openai_request env r project_id mapped_model = Inr body"
  shows "\<exists>cs. contents_of body = Some cs \<and> distinct_adj (map (\<lambda>c. jindex c ''role'') cs)
    \<and> list_all (\<lambda>c. \<exists>ps. parts_of c = Some ps \<and> ps \<noteq> []) cs"
proof -
  obtain qs where qs: "contents_of body = Some (map deep_clean_undefined (map content_pair qs))" "distinct_adj (map fst qs)"
    "list_all (\<lambda>p. snd p \<noteq> []) qs"
    using openai_body_contents [OF assms] by blast
  have "distinct_adj (map (\<lambda>c. jindex c ''role'') (map deep_clean_undefined (map content_pair qs)))"
    unfolding clean_pairs(1)
    by (rule distinct_adj_mapI [OF qs(2)]) (use clean_role_inj in \<open>auto simp: inj_on_def\<close>)
  moreover have "list_all (\<lambda>c. \<exists>ps. parts_of c = Some ps \<and> ps \<noteq> []) (map deep_clean_undefined (map content_pair qs))"
    using qs(3) by (auto simp: list_all_iff clean_message)
  ultimately show ?thesis using qs(1) by blast
qed

lemma openai_roles_alternate_witness:
  "\<exists>body cs. transform_openai_request demo_openai_env demo_openai ''p'' ''gemini-3-pro'' = Inr body
     \<and> contents_of body = Some cs \<and> distinct_adj (map (\<lambda>c. jindex c ''role'') cs)"
proof -
  obtain body where "transform_openai_request demo_openai_env demo_openai ''p'' ''gemini-3-pro'' = Inr body"
    using demo_openai_ok by blast
  then show ?thesis using openai_roles_alternate by blast
qed



text \<open>
  Note: in the generation configuration of an OpenAI request for a thinking model the limit of the output
  is above the budget for thinking, whatever the client and the settings ask for.
\<close>

theorem openai_limit_above_budget:
  "\<exists>b n. budget_field (openai_generation_config tb r True) = Some b
     \<and> max_tokens_field (openai_generation_config tb r True) = Some n \<and> b < n"
proof -
  obtain budget n where l: "openai_limits tb (oq_max_tokens r) = (budget, n)" by force
  have "budget < n" "n < 2 ^ 64" using openai_limits_ok [OF l] by simp_all
  then have "(of_nat budget :: u64) < of_nat n" by (simp add: word_less_nat_alt unat_small)
  then show ?thesis using openai_config_fields [OF l] by blast
qed

text \<open>
  Note: the functions declared upstream are the client's named tools that are no search tools, in their order,
  and each has parameters.
\<close>

theorem openai_tools_declared:
  assumes "transform_tool_declarations env ts = Some ds"
  shows "map (string_at ''name'') ds = map Some (openai_tool_names ts) \<and> list_all (has_key ''parameters'') ds"
  using declarations_named [OF assms] .

text \<open>
  Note: an address a client sends that is neither a data URL nor one of the web is taken for a path, and what
  the file of the server holds goes upstream.
\<close>

theorem local_files_are_read:
  assumes "\<not> starts_with url ''data:''" and "\<not> starts_with url ''http''"
    and "oe_file_size env (decode_file_url env url) = Some n" and "n \<le> 100 * 1024 * 1024"
    and "oe_file_read env (decode_file_url env url) = Some bs"
  shows "transform_content_block env (OVideoUrl url)
    = Inr (Some (inline_part (video_extension (decode_file_url env url)) (oe_encode env bs)))"
  using assms
  by (simp add: transform_content_block_def transform_video_url_def local_file_def Let_def check_file_size_def
      MAX_LOCAL_FILE_SIZE_def)

text \<open>
  Note: in the adaptive mode, which is the default, the client's limit is not looked at; a client that asks for
  16000 tokens or less gets more than it asked for in every mode.
\<close>

theorem client_limit_ignored:
  "openai_limits default_thinking_budget_config (Some 60000) = (16000, 48768)
   \<and> openai_limits (default_thinking_budget_config\<lparr>tb_mode := Auto\<rparr>) (Some 60000) = (16000, 60000)
   \<and> openai_limits (default_thinking_budget_config\<lparr>tb_mode := Auto\<rparr>) (Some 16000) = (16000, 24192)"
  by (simp add: openai_limits_def default_thinking_budget_config_def THINKING_BUDGET_def THINKING_OVERHEAD_def
      THINKING_MIN_OVERHEAD_def)

text \<open>
  Note: a call the user interrupted stays without a response, unlike in the requests of the Claude protocol;
  the two messages behind it become one.
\<close>

theorem interrupted_call_unanswered:
  "openai_contents demo_openai_env ctx (oq_messages demo_openai)
     = Inr [content_message ''user'' [text_part ''Run it''],
            content_message ''model'' (transform_reasoning_content demo_openai_env ctx ''model'' (oq_messages demo_openai ! 2)
              @ [transform_tool_call demo_openai_env ctx demo_tool_call]),
            content_message ''user'' [text_part ''Stop'', text_part ''Now'']]"
  by (simp add: openai_contents_def demo_openai_def plain_message_def is_system_message_def transform_message_def
      transform_content_def upstream_role_def is_tool_role_def transform_tool_calls_def transform_reasoning_content_def
      transform_tool_response_def merge_consecutive_roles_def extend_messages message_parts_unique split: option.split)

end
