(* ===== verification/OpenAI_Stream.thy ===== *)
theory OpenAI_Stream
  imports OpenAI_Types Json_Schema Collector Response
begin

text \<open>
  Answers of the OpenAI protocol: the stream of chunks (\<open>mappers/openai/streaming/openai_stream.rs\<close>,
  \<open>candidate_processor.rs\<close>, \<open>stream_formatters.rs\<close>, \<open>usage.rs\<close>), the translation of a whole answer
  (\<open>response.rs\<close>), and the collector that makes one answer of a stream (\<open>collector.rs\<close>). What the code
  changes through mutable references is the state here. Libraries are parameters (\<open>openai_stream_env\<close>):
  reading and printing JSON, hashes, random identifiers. Logging and metrics are left out.
\<close>

section \<open>Data\<close>

record openai_usage =
  ou_prompt_tokens :: u32
  ou_completion_tokens :: u32
  ou_total_tokens :: u32
  ou_cached_tokens :: "u32 option"

record openai_choice =
  ch_index :: u32
  ch_message :: openai_message
  ch_finish_reason :: "string option"

record openai_response =
  ow_id :: string
  ow_created :: u64
  ow_model :: string
  ow_choices :: "openai_choice list"
  ow_usage :: "openai_usage option"

record openai_stream_env =
  os_from_str :: "string \<Rightarrow> json option"
  os_to_str :: "json \<Rightarrow> string"
  os_hash :: "string list \<Rightarrow> string"               \<comment> \<open>\<open>DefaultHasher\<close> of some strings, in hexadecimal\<close>
  os_sha256 :: "string \<Rightarrow> string"
  os_uuid :: "nat \<Rightarrow> nat \<Rightarrow> string"                  \<comment> \<open>of a candidate and a part\<close>
  os_base64 :: "string \<Rightarrow> string"
  os_usage_of_value :: "json \<Rightarrow> openai_usage option"
  os_model :: string
  os_stream_id :: string
  os_created_ts :: int
  os_session_id :: "string option"

definition token_field :: "string \<Rightarrow> json \<Rightarrow> u32" where
  "token_field k u = (case Option.bind (jget k u) as_u64 of Some n \<Rightarrow> ucast n | None \<Rightarrow> 0)"

definition extract_usage_metadata :: "json \<Rightarrow> openai_usage" where
  "extract_usage_metadata u =
     \<lparr>ou_prompt_tokens = token_field ''promptTokenCount'' u,
      ou_completion_tokens = token_field ''candidatesTokenCount'' u,
      ou_total_tokens = token_field ''totalTokenCount'' u,
      ou_cached_tokens = map_option ucast (Option.bind (jget ''cachedContentTokenCount'' u) as_u64)\<rparr>"

definition json_u32 :: "u32 \<Rightarrow> json" where
  "json_u32 n = json_i64 (int (unat n))"

definition json_of_openai_usage :: "openai_usage \<Rightarrow> json" where
  "json_of_openai_usage u =
     JObj ([(''prompt_tokens'', json_u32 (ou_prompt_tokens u)), (''completion_tokens'', json_u32 (ou_completion_tokens u)),
            (''total_tokens'', json_u32 (ou_total_tokens u))]
           @ (case ou_cached_tokens u of
                Some n \<Rightarrow> [(''prompt_tokens_details'', JObj [(''cached_tokens'', json_u32 n)])] | None \<Rightarrow> []))"

section \<open>Chunks\<close>

definition chunk_object :: "openai_stream_env \<Rightarrow> json list \<Rightarrow> jmap \<Rightarrow> json" where
  "chunk_object env choices extra =
     JObj ([(''id'', JStr (os_stream_id env)), (''object'', JStr ''chat.completion.chunk''),
            (''created'', json_i64 (os_created_ts env)), (''model'', JStr (os_model env)), (''choices'', JArr choices)] @ extra)"

definition chunk_choice :: "u32 \<Rightarrow> jmap \<Rightarrow> string option \<Rightarrow> json" where
  "chunk_choice index delta finish_reason =
     JObj [(''index'', json_u32 index), (''delta'', JObj delta),
           (''finish_reason'', case finish_reason of Some r \<Rightarrow> JStr r | None \<Rightarrow> JNull)]"

definition content_chunk :: "openai_stream_env \<Rightarrow> u32 \<Rightarrow> string \<Rightarrow> string option \<Rightarrow> json" where
  "content_chunk env index content finish_reason =
     chunk_object env [chunk_choice index [(''content'', JStr content)] finish_reason] []"

definition reasoning_chunk :: "openai_stream_env \<Rightarrow> u32 \<Rightarrow> string \<Rightarrow> json" where
  "reasoning_chunk env index reasoning_content =
     chunk_object env [chunk_choice index [(''role'', JStr ''assistant''), (''content'', JNull),
                                           (''reasoning_content'', JStr reasoning_content)] None] []"

definition tool_call_chunk :: "openai_stream_env \<Rightarrow> u32 \<Rightarrow> string \<Rightarrow> string \<Rightarrow> string \<Rightarrow> json" where
  "tool_call_chunk env index call_id fname arguments =
     chunk_object env [chunk_choice index
       [(''role'', JStr ''assistant''),
        (''tool_calls'', JArr [JObj [(''index'', json_u32 0), (''id'', JStr call_id), (''type'', JStr ''function''),
           (''function'', JObj [(''name'', JStr fname), (''arguments'', JStr arguments)])]])] None] []"

definition error_chunk :: "openai_stream_env \<Rightarrow> string \<Rightarrow> string \<Rightarrow> string \<Rightarrow> json" where
  "error_chunk env error_type message i18n_key =
     chunk_object env [] [(''error'', JObj [(''type'', JStr error_type), (''message'', JStr message),
        (''code'', JStr ''stream_error''), (''i18n_key'', JStr i18n_key)])]"

definition usage_chunk :: "openai_stream_env \<Rightarrow> openai_usage \<Rightarrow> json" where
  "usage_chunk env u = chunk_object env [] [(''usage'', json_of_openai_usage u)]"

definition searched_for_you :: string where
  "searched_for_you = newline @ newline @ ''---'' @ newline @ ''**'' @ map byte [240, 159, 148, 141] @ '' Searched for you:** ''"

definition format_grounding_metadata :: "json \<Rightarrow> string" where
  "format_grounding_metadata grounding =
     (let queries = (case Option.bind (jget ''webSearchQueries'' grounding) as_array of
                       Some qs \<Rightarrow> (let query_list = List.map_filter as_str qs
                                   in if query_list \<noteq> [] then searched_for_you @ join_commas query_list else [])
                     | None \<Rightarrow> []);
          links = (case Option.bind (jget ''groundingChunks'' grounding) as_array of
                     Some chunks \<Rightarrow> List.map_filter citation (enumerate 0 chunks) | None \<Rightarrow> [])
      in queries @ (if links \<noteq> [] then source_citations @ join_lines links else []))"

definition map_finish_reason :: "string \<Rightarrow> string" where
  "map_finish_reason r =
     (if r = ''STOP'' then ''stop'' else if r = ''MAX_TOKENS'' then ''length''
      else if r = ''SAFETY'' \<or> r = ''RECITATION'' then ''content_filter'' else ''stop'')"

definition generate_call_id :: "openai_stream_env \<Rightarrow> json \<Rightarrow> string" where
  "generate_call_id env func_call = ''call_'' @ os_hash env [os_to_str env func_call]"

section \<open>Candidates\<close>

record openai_stream_state =
  oz_accumulated_thinking :: string
  oz_emitted_tool_calls :: "string list"
  oz_final_usage :: "openai_usage option"
  oz_cache :: signature_cache

record candidate_acc =
  ca_content :: string
  ca_thought :: string
  ca_output :: "json list"
  ca_state :: openai_stream_state

definition first_char_len :: "string \<Rightarrow> nat" where
  "first_char_len s = (case chars s of [] \<Rightarrow> 0 | c # _ \<Rightarrow> length c)"

lemma first_char_len_pos: "s \<noteq> [] \<Longrightarrow> 0 < first_char_len s"
  by (cases s) (simp_all add: first_char_len_def)

text \<open>Pieces of at most so many bytes, cut between characters; a longer character is a piece of its own.\<close>

function chunk_text :: "nat \<Rightarrow> string \<Rightarrow> string list" where
  "chunk_text max_chunk_size s =
     (if s = [] then []
      else let e = floor_char_boundary s (min max_chunk_size (length s)); e = (if e = 0 then first_char_len s else e)
           in take e s # chunk_text max_chunk_size (drop e s))"
  by pat_completeness auto
termination by (relation "measure (\<lambda>(n, s). length s)") (auto simp: first_char_len_pos)

declare chunk_text.simps [simp del]

function byte_chunks :: "nat \<Rightarrow> string \<Rightarrow> string list" where
  "byte_chunks n s = (if s = [] \<or> n = 0 then [] else take n s # byte_chunks n (drop n s))"
  by pat_completeness auto
termination by (relation "measure (\<lambda>(n, s). length s)") auto

declare byte_chunks.simps [simp del]

definition CHUNK_SIZE :: nat where "CHUNK_SIZE = 32 * 1024"

definition utf8_safe_prefix_len :: "string \<Rightarrow> nat \<Rightarrow> nat" where
  "utf8_safe_prefix_len t max_len = floor_char_boundary t (min max_len (length t))"

definition emit_content_chunks :: "openai_stream_env \<Rightarrow> u32 \<Rightarrow> string \<Rightarrow> string option \<Rightarrow> json list" where
  "emit_content_chunks env idx content_out finish_reason =
     (if CHUNK_SIZE < length content_out
      then let cs = chunk_text CHUNK_SIZE content_out
           in map (\<lambda>(i, c). content_chunk env idx c (if i + 1 = length cs then finish_reason else None)) (enumerate 0 cs)
      else [content_chunk env idx content_out finish_reason])"

definition flush_text_outputs :: "openai_stream_env \<Rightarrow> u32 \<Rightarrow> candidate_acc \<Rightarrow> candidate_acc" where
  "flush_text_outputs env idx a =
     a\<lparr>ca_output := ca_output a
         @ (if ca_thought a \<noteq> [] then [reasoning_chunk env idx (ca_thought a)] else [])
         @ (if ca_content a \<noteq> [] then emit_content_chunks env idx (ca_content a) None else []),
       ca_content := [], ca_thought := []\<rparr>"

definition MAX_THINKING :: nat where "MAX_THINKING = 10 * 1024 * 1024"

definition accumulate :: "string \<Rightarrow> openai_stream_state \<Rightarrow> openai_stream_state" where
  "accumulate t s =
     (let acc = oz_accumulated_thinking s
      in if length acc < MAX_THINKING
         then s\<lparr>oz_accumulated_thinking := acc @ take (utf8_safe_prefix_len t (MAX_THINKING - length acc)) t\<rparr>
         else s)"

definition family_of :: "string \<Rightarrow> string" where
  "family_of model_name =
     (let lower = to_lowercase model_name
      in if contains lower ''claude'' then ''claude''
         else if contains lower ''gemini'' \<or> starts_with lower ''flash'' then ''gemini'' else ''unknown'')"

definition cache_signature :: "openai_stream_env \<Rightarrow> nanos \<Rightarrow> string \<Rightarrow> openai_stream_state \<Rightarrow> openai_stream_state" where
  "cache_signature env now sig s =
     (if oz_accumulated_thinking s = [] then s
      else let fam = family_of (os_model env);
               c = cache_content_signature (os_sha256 env) now (oz_accumulated_thinking s) sig fam (oz_cache s);
               c = cache_thinking_family now sig fam c;
               c = (case os_session_id env of Some sid \<Rightarrow> cache_session_signature now sid sig c | None \<Rightarrow> c)
           in s\<lparr>oz_cache := c\<rparr>)"

definition image_prefix :: "json \<Rightarrow> string" where
  "image_prefix img = ''![image](data:'' @ str_or ''image/png'' (jget ''mimeType'' img) @ '';base64,''"

definition emit_inline_image :: "openai_stream_env \<Rightarrow> u32 \<Rightarrow> json \<Rightarrow> json list" where
  "emit_inline_image env idx img =
     (let data = str_or [] (jget ''data'' img)
      in if data = [] then []
         else content_chunk env idx (image_prefix img) None
                # map (\<lambda>c. content_chunk env idx c None) (filter valid_utf8 (byte_chunks CHUNK_SIZE data))
              @ [content_chunk env idx '')'' None])"

definition call_name :: "json \<Rightarrow> string" where
  "call_name func_call = str_or ''unknown'' (jget ''name'' func_call)"

definition call_args :: "openai_stream_env \<Rightarrow> json \<Rightarrow> string" where
  "call_args env func_call =
     os_to_str env (case jget ''args'' func_call of Some v \<Rightarrow> if v = JNull then JObj [] else v | None \<Rightarrow> JObj [])"

definition emit_function_call :: "openai_stream_env \<Rightarrow> u32 \<Rightarrow> json \<Rightarrow> candidate_acc \<Rightarrow> candidate_acc" where
  "emit_function_call env idx func_call a =
     (let call_key = os_to_str env func_call; s = ca_state a
      in if call_key \<in> set (oz_emitted_tool_calls s) then a
         else a\<lparr>ca_state := s\<lparr>oz_emitted_tool_calls := call_key # oz_emitted_tool_calls s\<rparr>,
                ca_output := ca_output a
                  @ [tool_call_chunk env idx (generate_call_id env func_call) (call_name func_call) (call_args env func_call)]\<rparr>)"

definition is_thought_part :: "json \<Rightarrow> bool" where
  "is_thought_part part \<longleftrightarrow> Option.bind (jget ''thought'' part) as_bool = Some True"

definition part_signature :: "json \<Rightarrow> string option" where
  "part_signature part =
     Option.bind (case jget ''thoughtSignature'' part of Some v \<Rightarrow> Some v | None \<Rightarrow> jget ''thought_signature'' part) as_str"

definition process_openai_part :: "openai_stream_env \<Rightarrow> nanos \<Rightarrow> u32 \<Rightarrow> json \<Rightarrow> candidate_acc \<Rightarrow> candidate_acc" where
  "process_openai_part env now idx part a =
     (let a = (case Option.bind (jget ''text'' part) as_str of
                 Some t \<Rightarrow>
                   if is_thought_part part
                   then a\<lparr>ca_thought := ca_thought a @ t, ca_state := accumulate t (ca_state a)\<rparr>
                   else a\<lparr>ca_content := ca_content a @ t\<rparr>
               | None \<Rightarrow> a);
          a = (case part_signature part of
                 Some sig \<Rightarrow> a\<lparr>ca_state := cache_signature env now sig (ca_state a)\<rparr> | None \<Rightarrow> a);
          a = (case jget ''inlineData'' part of
                 Some img \<Rightarrow> (let a = flush_text_outputs env idx a in a\<lparr>ca_output := ca_output a @ emit_inline_image env idx img\<rparr>)
               | None \<Rightarrow> a)
      in case jget ''functionCall'' part of
           Some func_call \<Rightarrow> emit_function_call env idx func_call (flush_text_outputs env idx a)
         | None \<Rightarrow> a)"

definition candidate_parts :: "json \<Rightarrow> json list" where
  "candidate_parts candidate =
     (case Option.bind (Option.bind (jget ''content'' candidate) (jget ''parts'')) as_array of Some ps \<Rightarrow> ps | None \<Rightarrow> [])"

definition candidate_grounding :: "json \<Rightarrow> string" where
  "candidate_grounding candidate =
     (case jget ''groundingMetadata'' candidate of Some g \<Rightarrow> format_grounding_metadata g | None \<Rightarrow> [])"

definition process_candidate ::
  "openai_stream_env \<Rightarrow> nanos \<Rightarrow> json \<Rightarrow> nat \<Rightarrow> openai_stream_state \<Rightarrow> json list \<times> openai_stream_state" where
  "process_candidate env now candidate i s =
     (let idx = of_nat i;
          a = fold (process_openai_part env now idx) (candidate_parts candidate)
                \<lparr>ca_content = [], ca_thought = [], ca_output = [], ca_state = s\<rparr>;
          content_out = ca_content a @ candidate_grounding candidate;
          finish_reason = map_option map_finish_reason (Option.bind (jget ''finishReason'' candidate) as_str)
      in (ca_output a
          @ (if content_out = [] \<and> ca_thought a = [] \<and> jget ''finishReason'' candidate = None then []
             else (if ca_thought a \<noteq> [] then [reasoning_chunk env idx (ca_thought a)] else [])
               @ (if content_out \<noteq> [] \<or> finish_reason \<noteq> None then emit_content_chunks env idx content_out finish_reason else [])),
          ca_state a))"

section \<open>The stream\<close>

datatype openai_item = Sse json | Done | Abort string

definition candidates_of :: "json \<Rightarrow> json list" where
  "candidates_of v = (case Option.bind (jget ''candidates'' v) as_array of Some cs \<Rightarrow> cs | None \<Rightarrow> [])"

fun process_candidates ::
  "openai_stream_env \<Rightarrow> nanos \<Rightarrow> nat \<Rightarrow> json list \<Rightarrow> openai_stream_state \<Rightarrow> json list \<times> openai_stream_state" where
  "process_candidates env now i [] s = ([], s)"
| "process_candidates env now i (c # cs) s =
     (let (out, s) = process_candidate env now c i s; (out', s) = process_candidates env now (i + 1) cs s in (out @ out', s))"

definition process_value :: "openai_stream_env \<Rightarrow> nanos \<Rightarrow> json \<Rightarrow> openai_stream_state \<Rightarrow> json list \<times> openai_stream_state" where
  "process_value env now v s =
     (let actual_data = raw_response v
      in process_candidates env now 0 (candidates_of actual_data)
           (case jget ''usageMetadata'' actual_data of
              Some u \<Rightarrow> s\<lparr>oz_final_usage := Some (extract_usage_metadata u)\<rparr> | None \<Rightarrow> s))"

text \<open>\<open>trim_start_matches\<close>: the prefix is removed as often as it stands there.\<close>

function strip_data :: "string \<Rightarrow> string" where
  "strip_data s = (if starts_with s ''data: '' then strip_data (drop 6 s) else s)"
  by pat_completeness auto
termination by (relation "measure length") (auto simp: starts_with_iff)

declare strip_data.simps [simp del]

text \<open>The value a line of the upstream stream holds\<close>

definition line_value :: "(string \<Rightarrow> json option) \<Rightarrow> string \<Rightarrow> json option" where
  "line_value read line_raw =
     (let line = trim line_raw
      in if \<not> valid_utf8 line_raw \<or> \<not> starts_with line ''data: '' then None
         else let json_part = trim (strip_data line) in if json_part = ''[DONE]'' then None else read json_part)"

definition openai_line :: "openai_stream_env \<Rightarrow> nanos \<Rightarrow> string \<Rightarrow> openai_stream_state \<Rightarrow> json list \<times> openai_stream_state" where
  "openai_line env now line_raw s =
     (case line_value (os_from_str env) line_raw of Some v \<Rightarrow> process_value env now v s | None \<Rightarrow> ([], s))"

text \<open>The complete lines of a buffer, one after the other; what is left stays in the buffer.\<close>

function drain_with :: "(string \<Rightarrow> 's \<Rightarrow> 'o list \<times> 's) \<Rightarrow> string \<Rightarrow> 's \<Rightarrow> 'o list \<times> string \<times> 's" where
  "drain_with f buffer s =
     (case str_find buffer newline of
        None \<Rightarrow> ([], buffer, s)
      | Some pos \<Rightarrow>
          let (out, s) = f (take (pos + 1) buffer) s; (out', rest, s) = drain_with f (drop (pos + 1) buffer) s
          in (out @ out', rest, s))"
  by pat_completeness auto
termination by (relation "measure (\<lambda>(f, buffer, s). length buffer)") (auto dest!: str_find_Some simp: newline_def)

declare drain_with.simps [simp del]

definition truncation_notice :: string where
  "truncation_notice =
     ''[Response truncated '' @ map byte [226, 128, 148] @ '' upstream connection closed after ~55s. The model was still processing your request. Try reducing context size or splitting the task.]''"

definition truncation_chunk :: "openai_stream_env \<Rightarrow> json" where
  "truncation_chunk env = content_chunk env 0 truncation_notice None"

text \<open>The flag says that the end has been sent.\<close>

fun openai_loop ::
  "openai_stream_env \<Rightarrow> (nanos \<times> (string + string)) list \<Rightarrow> string \<Rightarrow> openai_stream_state
   \<Rightarrow> openai_item list \<times> bool \<times> openai_stream_state" where
  "openai_loop env [] buffer s = ([], False, s)"
| "openai_loop env ((now, Inl e) # items) buffer s =
     ([Sse (truncation_chunk env), Abort ''stream timeout abort''], True, s)"
| "openai_loop env ((now, Inr b) # items) buffer s =
     (if MAX_BUFFER_SIZE < length (buffer @ b)
      then ([Sse (error_chunk env ''buffer_overflow'' ''Response too large'' ''error.buffer_overflow''), Done], True, s)
      else let (out, rest, s) = drain_with (openai_line env now) (buffer @ b) s;
               (out', ended, s) = openai_loop env items rest s
           in (map Sse out @ out', ended, s))"

definition new_openai_state :: "signature_cache \<Rightarrow> openai_stream_state" where
  "new_openai_state cache =
     \<lparr>oz_accumulated_thinking = [], oz_emitted_tool_calls = [], oz_final_usage = None, oz_cache = cache\<rparr>"

definition create_openai_sse_stream ::
  "openai_stream_env \<Rightarrow> (nanos \<times> (string + string)) list \<Rightarrow> signature_cache \<Rightarrow> openai_item list \<times> openai_stream_state" where
  "create_openai_sse_stream env items cache =
     (let (out, done_emitted, s) = openai_loop env items [] (new_openai_state cache)
      in (out @ (case oz_final_usage s of Some u \<Rightarrow> [Sse (usage_chunk env u)] | None \<Rightarrow> [])
              @ (if done_emitted then [] else [Done]), s))"

definition sse_line :: "openai_stream_env \<Rightarrow> json \<Rightarrow> string" where
  "sse_line env data = ''data: '' @ os_to_str env data @ newline @ newline"

fun render_item :: "openai_stream_env \<Rightarrow> openai_item \<Rightarrow> string + string" where
  "render_item env (Sse j) = Inr (sse_line env j)"
| "render_item env Done = Inr (''data: [DONE]'' @ newline @ newline)"
| "render_item env (Abort e) = Inl e"

section \<open>Whole answers\<close>

definition part_content :: "json \<Rightarrow> string" where
  "part_content part =
     (case Option.bind (jget ''text'' part) as_str of Some t \<Rightarrow> if is_thought_part part then [] else t | None \<Rightarrow> [])
     @ (case jget ''inlineData'' part of
          Some img \<Rightarrow> (let data = str_or [] (jget ''data'' img) in if data = [] then [] else image_prefix img @ data @ '')'')
        | None \<Rightarrow> [])"

definition part_thought :: "json \<Rightarrow> string" where
  "part_thought part =
     (case Option.bind (jget ''text'' part) as_str of Some t \<Rightarrow> if is_thought_part part then t else [] | None \<Rightarrow> [])"

definition whole_call :: "openai_stream_env \<Rightarrow> nat \<Rightarrow> nat \<Rightarrow> json \<Rightarrow> tool_call" where
  "whole_call env i k fc =
     \<lparr>oc_id = (case Option.bind (jget ''id'' fc) as_str of Some x \<Rightarrow> x | None \<Rightarrow> call_name fc @ ''-'' @ os_uuid env i k),
      oc_type = ''function'', oc_name = call_name fc,
      oc_arguments = (case jget ''args'' fc of Some v \<Rightarrow> os_to_str env v | None \<Rightarrow> ''{}'')\<rparr>"

definition candidate_calls :: "openai_stream_env \<Rightarrow> nat \<Rightarrow> json list \<Rightarrow> tool_call list" where
  "candidate_calls env i parts =
     List.map_filter (\<lambda>(k, part). map_option (whole_call env i k) (jget ''functionCall'' part)) (enumerate 0 parts)"

definition some_text :: "string \<Rightarrow> string option" where
  "some_text t = (if t = [] then None else Some t)"

definition candidate_choice :: "openai_stream_env \<Rightarrow> nat \<times> json \<Rightarrow> openai_choice" where
  "candidate_choice env = (\<lambda>(i, candidate).
     let parts = candidate_parts candidate;
         content_out = concat (map part_content parts) @ candidate_grounding candidate;
         tool_calls = candidate_calls env i parts
     in \<lparr>ch_index = of_nat i,
         ch_message = \<lparr>om_role = ''assistant'', om_content = map_option OString (some_text content_out),
            om_reasoning_content = some_text (concat (map part_thought parts)),
            om_tool_calls = (if tool_calls = [] then None else Some tool_calls), om_tool_call_id = None, om_name = None\<rparr>,
         ch_finish_reason = Some (case Option.bind (jget ''finishReason'' candidate) as_str of
            Some f \<Rightarrow> map_finish_reason f | None \<Rightarrow> ''stop'')\<rparr>)"

text \<open>The signatures of all parts go into the older slot.\<close>

definition transform_openai_response ::
  "openai_stream_env \<Rightarrow> u64 \<Rightarrow> json \<Rightarrow> string option \<Rightarrow> openai_response \<times> string option" where
  "transform_openai_response env now_secs gemini_response slot =
     (let raw = raw_response gemini_response
      in (\<lparr>ow_id = str_or ''resp_unknown'' (jget ''responseId'' raw), ow_created = now_secs,
           ow_model = str_or ''unknown'' (jget ''modelVersion'' raw),
           ow_choices = map (candidate_choice env) (enumerate 0 (candidates_of raw)),
           ow_usage = map_option extract_usage_metadata (jget ''usageMetadata'' raw)\<rparr>,
          fold store_thought_signature
            (List.map_filter part_signature (concat (map candidate_parts (candidates_of raw)))) slot))"

section \<open>The collector\<close>

record openai_collected =
  ok_id :: string
  ok_model :: string
  ok_created :: u64
  ok_content :: string
  ok_reasoning :: string
  ok_calls :: "tool_call list"
  ok_finish :: "string option"
  ok_usage :: "openai_usage option"

text \<open>Lines are read until the end marker; the flag of the code is the loop it leaves.\<close>

function read_data_lines ::
  "(string \<Rightarrow> json option) \<Rightarrow> string \<Rightarrow> string \<Rightarrow> json list \<Rightarrow> string \<times> string \<times> json list" where
  "read_data_lines read buffer current_data events =
     (case str_find buffer newline of
        None \<Rightarrow> (buffer, current_data, events)
      | Some pos \<Rightarrow>
          let line = trim_end_cr (take pos buffer); rest = drop (pos + 1) buffer
          in if line = []
             then read_data_lines read rest []
                    (if current_data = [] then events
                     else case read current_data of Some d \<Rightarrow> events @ [d] | None \<Rightarrow> events)
             else case parse_sse_line line of
                    Some (key, v) \<Rightarrow>
                      if key = ''data''
                      then if v = ''[DONE]'' then (rest, current_data, events) else read_data_lines read rest v events
                      else read_data_lines read rest current_data events
                  | None \<Rightarrow> read_data_lines read rest current_data events)"
  by pat_completeness auto
termination by (relation "measure (\<lambda>(read, buffer, d, es). length buffer)") (auto dest!: str_find_Some simp: newline_def)

declare read_data_lines.simps [simp del]

fun read_stream ::
  "(string \<Rightarrow> json option) \<Rightarrow> (string + string) list \<Rightarrow> string \<Rightarrow> string \<Rightarrow> json list \<Rightarrow> string + json list" where
  "read_stream read [] buffer current_data events = Inr events"
| "read_stream read (Inl e # items) buffer current_data events = Inl (''Stream error: '' @ e)"
| "read_stream read (Inr b # items) buffer current_data events =
     (let (buffer, current_data, events) = read_data_lines read (buffer @ utf8_lossy b) current_data events
      in read_stream read items buffer current_data events)"

definition empty_call :: tool_call where
  "empty_call = \<lparr>oc_id = [], oc_type = ''function'', oc_name = [], oc_arguments = []\<rparr>"

definition merge_call :: "json \<Rightarrow> tool_call \<Rightarrow> tool_call" where
  "merge_call tc call =
     (let call = (case Option.bind (jget ''id'' tc) as_str of Some i \<Rightarrow> call\<lparr>oc_id := i\<rparr> | None \<Rightarrow> call)
      in case jget ''function'' tc of
           Some func \<Rightarrow>
             let call = (case Option.bind (jget ''name'' func) as_str of Some n \<Rightarrow> call\<lparr>oc_name := n\<rparr> | None \<Rightarrow> call)
             in (case Option.bind (jget ''arguments'' func) as_str of
                   Some x \<Rightarrow> call\<lparr>oc_arguments := oc_arguments call @ x\<rparr> | None \<Rightarrow> call)
         | None \<Rightarrow> call)"

definition collect_call :: "json \<Rightarrow> tool_call list \<Rightarrow> tool_call list" where
  "collect_call tc calls =
     (let i = (case Option.bind (jget ''index'' tc) as_u64 of Some n \<Rightarrow> unat n | None \<Rightarrow> 0);
          calls = calls @ replicate (i + 1 - length calls) empty_call
      in calls[i := merge_call tc (calls ! i)])"

definition opt_str :: "string \<Rightarrow> json \<Rightarrow> string" where
  "opt_str k v = str_or [] (jget k v)"

definition opt_list :: "string \<Rightarrow> json \<Rightarrow> json list" where
  "opt_list k v = (case Option.bind (jget k v) as_array of Some a \<Rightarrow> a | None \<Rightarrow> [])"

definition collect_choice :: "json \<Rightarrow> openai_collected \<Rightarrow> openai_collected" where
  "collect_choice choice c =
     (let c = (case jget ''delta'' choice of
                 Some delta \<Rightarrow>
                   c\<lparr>ok_content := ok_content c @ opt_str ''content'' delta,
                     ok_reasoning := ok_reasoning c @ opt_str ''reasoning_content'' delta,
                     ok_calls := fold collect_call (opt_list ''tool_calls'' delta) (ok_calls c)\<rparr>
               | None \<Rightarrow> c)
      in case Option.bind (jget ''finish_reason'' choice) as_str of Some r \<Rightarrow> c\<lparr>ok_finish := Some r\<rparr> | None \<Rightarrow> c)"

definition collect_chunk :: "openai_stream_env \<Rightarrow> json \<Rightarrow> openai_collected \<Rightarrow> openai_collected" where
  "collect_chunk env data c =
     (let c = (case Option.bind (jget ''id'' data) as_str of Some i \<Rightarrow> c\<lparr>ok_id := i\<rparr> | None \<Rightarrow> c);
          c = (case Option.bind (jget ''model'' data) as_str of Some m \<Rightarrow> c\<lparr>ok_model := m\<rparr> | None \<Rightarrow> c);
          c = (case Option.bind (jget ''created'' data) as_u64 of Some t \<Rightarrow> c\<lparr>ok_created := t\<rparr> | None \<Rightarrow> c);
          c = fold collect_choice (opt_list ''choices'' data) c
      in case Option.bind (jget ''usage'' data) (os_usage_of_value env) of Some u \<Rightarrow> c\<lparr>ok_usage := Some u\<rparr> | None \<Rightarrow> c)"

definition collected_response :: "openai_collected \<Rightarrow> openai_response" where
  "collected_response c =
     \<lparr>ow_id = ok_id c, ow_created = ok_created c, ow_model = ok_model c,
      ow_choices =
        [\<lparr>ch_index = 0,
          ch_message = \<lparr>om_role = ''assistant'',
             om_content = (if ok_calls c \<noteq> [] then map_option OString (some_text (ok_content c)) else Some (OString (ok_content c))),
             om_reasoning_content = some_text (ok_reasoning c),
             om_tool_calls = (if ok_calls c \<noteq> [] then Some (ok_calls c) else None), om_tool_call_id = None, om_name = None\<rparr>,
          ch_finish_reason = ok_finish c\<rparr>],
      ow_usage = ok_usage c\<rparr>"

definition new_openai_collected :: "u64 \<Rightarrow> openai_collected" where
  "new_openai_collected now_secs =
     \<lparr>ok_id = ''chatcmpl-unknown'', ok_model = [], ok_created = now_secs, ok_content = [], ok_reasoning = [],
      ok_calls = [], ok_finish = None, ok_usage = None\<rparr>"

definition collect_openai_stream_to_json ::
  "openai_stream_env \<Rightarrow> u64 \<Rightarrow> (string + string) list \<Rightarrow> string + openai_response" where
  "collect_openai_stream_to_json env now_secs items =
     (case read_stream (os_from_str env) items [] [] [] of
        Inl e \<Rightarrow> Inl e
      | Inr events \<Rightarrow> Inr (collected_response (fold (collect_chunk env) events (new_openai_collected now_secs))))"

section \<open>What is cut is put together again\<close>

lemma concat_chunk_text: "concat (chunk_text n s) = s"
proof (induction n s rule: chunk_text.induct)
  case (1 n s)
  show ?case
  proof (cases "s = []")
    case False
    then show ?thesis using 1 by (simp add: chunk_text.simps [of n s] Let_def)
  qed (simp add: chunk_text.simps [of n "[]"])
qed

lemma chunk_text_pieces: "c \<in> set (chunk_text n s) \<Longrightarrow> c \<noteq> [] \<and> (length c \<le> n \<or> (\<exists>t. t \<noteq> [] \<and> length c = first_char_len t))"
proof (induction n s rule: chunk_text.induct)
  case (1 n s)
  then have s: "s \<noteq> []" by (auto simp: chunk_text.simps [of n s])
  define e where "e = floor_char_boundary s (min n (length s))"
  define e' where "e' = (if e = 0 then first_char_len s else e)"
  have "e \<le> n" "e \<le> length s" using floor_char_boundary_le [of s "min n (length s)"] by (auto simp: e_def)
  moreover have "0 < e'" using first_char_len_pos [OF s] by (simp add: e'_def)
  moreover have "first_char_len s \<le> length s"
    using arg_cong [OF concat_chars [of s], of length] by (auto simp: first_char_len_def split: list.split)
  ultimately have t: "take e' s \<noteq> [] \<and> (length (take e' s) \<le> n \<or> (\<exists>t. t \<noteq> [] \<and> length (take e' s) = first_char_len t))"
    using s by (auto simp: e'_def)
  have "chunk_text n s = take e' s # chunk_text n (drop e' s)"
    using s by (simp add: chunk_text.simps [of n s] Let_def e_def e'_def)
  then consider "c = take e' s" | "c \<in> set (chunk_text n (drop e' s))" using 1(2) by auto
  then show ?case
  proof cases
    case 2
    then show ?thesis using 1(1) [OF s e_def e'_def] by blast
  qed (use t in simp)
qed

lemma concat_byte_chunks: "0 < n \<Longrightarrow> concat (byte_chunks n s) = s"
proof (induction n s rule: byte_chunks.induct)
  case (1 n s)
  show ?case
  proof (cases "s = []")
    case False
    then show ?thesis using 1 by (simp add: byte_chunks.simps [of n s])
  qed (simp add: byte_chunks.simps [of n "[]"])
qed

lemma byte_chunks_ascii: "is_ascii s \<Longrightarrow> c \<in> set (byte_chunks n s) \<Longrightarrow> valid_utf8 c"
proof (induction n s rule: byte_chunks.induct)
  case (1 n s)
  then have "s \<noteq> []" "n \<noteq> 0" by (auto simp: byte_chunks.simps [of n s] split: if_splits)
  moreover have "is_ascii (take n s)" "is_ascii (drop n s)"
    using 1(2) by (auto simp: is_ascii_def list_all_iff dest: in_set_takeD in_set_dropD)
  ultimately show ?case using 1 by (auto simp: byte_chunks.simps [of n s] valid_utf8_ascii)
qed

section \<open>What a chunk says\<close>

definition choice_deltas :: "json \<Rightarrow> json list" where
  "choice_deltas j = List.map_filter (jget ''delta'') (opt_list ''choices'' j)"

definition chunk_content :: "json \<Rightarrow> string" where
  "chunk_content j = concat (map (opt_str ''content'') (choice_deltas j))"

definition chunk_reasoning :: "json \<Rightarrow> string" where
  "chunk_reasoning j = concat (map (opt_str ''reasoning_content'') (choice_deltas j))"

definition chunk_calls :: "json \<Rightarrow> json list" where
  "chunk_calls j = concat (map (opt_list ''tool_calls'') (choice_deltas j))"

abbreviation sent_content :: "json list \<Rightarrow> string" where "sent_content js \<equiv> concat (map chunk_content js)"
abbreviation sent_reasoning :: "json list \<Rightarrow> string" where "sent_reasoning js \<equiv> concat (map chunk_reasoning js)"
abbreviation sent_calls :: "json list \<Rightarrow> json list" where "sent_calls js \<equiv> concat (map chunk_calls js)"

named_theorems chunk_simps

lemma deltas_object:
  "choice_deltas (chunk_object env [] extra) = []"
  "choice_deltas (chunk_object env [chunk_choice i d f] extra) = [JObj d]"
  by (simp_all add: choice_deltas_def opt_list_def chunk_object_def chunk_choice_def jget_def as_array_def map_filter_def)

lemma content_chunk_says [chunk_simps]:
  "chunk_content (content_chunk env i t f) = t" "chunk_reasoning (content_chunk env i t f) = []"
  "chunk_calls (content_chunk env i t f) = []"
  by (simp_all add: chunk_content_def chunk_reasoning_def chunk_calls_def content_chunk_def deltas_object opt_str_def
      opt_list_def jget_def str_or_def as_str_def)

lemma reasoning_chunk_says [chunk_simps]:
  "chunk_content (reasoning_chunk env i t) = []" "chunk_reasoning (reasoning_chunk env i t) = t"
  "chunk_calls (reasoning_chunk env i t) = []"
  by (simp_all add: chunk_content_def chunk_reasoning_def chunk_calls_def reasoning_chunk_def deltas_object opt_str_def
      opt_list_def jget_def str_or_def as_str_def)

definition call_json :: "openai_stream_env \<Rightarrow> json \<Rightarrow> json" where
  "call_json env fc =
     JObj [(''index'', json_u32 0), (''id'', JStr (generate_call_id env fc)), (''type'', JStr ''function''),
           (''function'', JObj [(''name'', JStr (call_name fc)), (''arguments'', JStr (call_args env fc))])]"

lemma tool_call_chunk_says [chunk_simps]:
  "chunk_content (tool_call_chunk env i x n a) = []" "chunk_reasoning (tool_call_chunk env i x n a) = []"
  "chunk_calls (tool_call_chunk env i (generate_call_id env fc) (call_name fc) (call_args env fc)) = [call_json env fc]"
  by (simp_all add: chunk_content_def chunk_reasoning_def chunk_calls_def tool_call_chunk_def deltas_object opt_str_def
      opt_list_def jget_def str_or_def as_str_def as_array_def call_json_def)

lemma usage_chunk_says [chunk_simps]:
  "chunk_content (usage_chunk env u) = []" "chunk_reasoning (usage_chunk env u) = []" "chunk_calls (usage_chunk env u) = []"
  by (simp_all add: chunk_content_def chunk_reasoning_def chunk_calls_def usage_chunk_def deltas_object)

lemma map_enumerate: "map (\<lambda>(i, c). f c) (enumerate k cs) = map f cs"
  by (induction cs arbitrary: k) simp_all

lemma emitted_content [chunk_simps]:
  "sent_content (emit_content_chunks env i t f) = t" "sent_reasoning (emit_content_chunks env i t f) = []"
  "sent_calls (emit_content_chunks env i t f) = []"
proof -
  have "map (\<lambda>(k, c). chunk_content (content_chunk env i c (g k))) (enumerate 0 cs) = cs" for g :: "nat \<Rightarrow> string option" and cs
    using map_enumerate [of id 0 cs] by (simp add: chunk_simps cong: map_cong)
  then show "sent_content (emit_content_chunks env i t f) = t"
    by (simp add: emit_content_chunks_def Let_def chunk_simps comp_def case_prod_unfold concat_chunk_text)
  show "sent_reasoning (emit_content_chunks env i t f) = []" "sent_calls (emit_content_chunks env i t f) = []"
    by (simp_all add: emit_content_chunks_def Let_def chunk_simps comp_def case_prod_unfold)
qed

lemma emitted_image [chunk_simps]:
  assumes "is_ascii (str_or [] (jget ''data'' img))"
  shows "sent_content (emit_inline_image env i img)
    = (let d = str_or [] (jget ''data'' img) in if d = [] then [] else image_prefix img @ d @ '')'')"
proof -
  have "filter valid_utf8 (byte_chunks CHUNK_SIZE (str_or [] (jget ''data'' img))) = byte_chunks CHUNK_SIZE (str_or [] (jget ''data'' img))"
    using byte_chunks_ascii [OF assms] by (simp add: filter_id_conv)
  then show ?thesis
    by (simp add: emit_inline_image_def Let_def chunk_simps comp_def concat_byte_chunks CHUNK_SIZE_def)
qed

lemma image_silent [chunk_simps]:
  "sent_reasoning (emit_inline_image env i img) = []" "sent_calls (emit_inline_image env i img) = []"
  by (simp_all add: emit_inline_image_def Let_def chunk_simps comp_def)

section \<open>What a part adds\<close>

definition acc_content :: "candidate_acc \<Rightarrow> string" where
  "acc_content a = sent_content (ca_output a) @ ca_content a"

definition acc_reasoning :: "candidate_acc \<Rightarrow> string" where
  "acc_reasoning a = sent_reasoning (ca_output a) @ ca_thought a"

definition plain_image :: "json \<Rightarrow> bool" where
  "plain_image part \<longleftrightarrow> (case jget ''inlineData'' part of Some img \<Rightarrow> is_ascii (str_or [] (jget ''data'' img)) | None \<Rightarrow> True)"

lemma flush_says [chunk_simps]:
  "acc_content (flush_text_outputs env i a) = acc_content a" "acc_reasoning (flush_text_outputs env i a) = acc_reasoning a"
  "sent_calls (ca_output (flush_text_outputs env i a)) = sent_calls (ca_output a)"
  "ca_state (flush_text_outputs env i a) = ca_state a"
  "ca_content (flush_text_outputs env i a) = []" "ca_thought (flush_text_outputs env i a) = []"
  by (simp_all add: acc_content_def acc_reasoning_def flush_text_outputs_def chunk_simps del: concat_eq_Nil_conv)

lemma call_says [chunk_simps]:
  "acc_content (emit_function_call env i fc a) = acc_content a" "acc_reasoning (emit_function_call env i fc a) = acc_reasoning a"
  by (simp_all add: acc_content_def acc_reasoning_def emit_function_call_def Let_def chunk_simps)

lemma text_step_says:
  "acc_content (a\<lparr>ca_content := ca_content a @ t\<rparr>) = acc_content a @ t"
  "acc_reasoning (a\<lparr>ca_content := t\<rparr>) = acc_reasoning a"
  "acc_content (a\<lparr>ca_thought := t\<rparr>) = acc_content a"
  "acc_reasoning (a\<lparr>ca_thought := ca_thought a @ t\<rparr>) = acc_reasoning a @ t"
  "acc_content (a\<lparr>ca_state := s\<rparr>) = acc_content a" "acc_reasoning (a\<lparr>ca_state := s\<rparr>) = acc_reasoning a"
  by (simp_all add: acc_content_def acc_reasoning_def)

lemma image_step_says:
  assumes "is_ascii (str_or [] (jget ''data'' img))"
  shows "acc_content ((flush_text_outputs env i a)\<lparr>ca_output := ca_output (flush_text_outputs env i a) @ emit_inline_image env i img\<rparr>)
    = acc_content a @ (let d = str_or [] (jget ''data'' img) in if d = [] then [] else image_prefix img @ d @ '')'')"
  using flush_says(1) [of env i a] emitted_image [OF assms]
  by (simp add: acc_content_def chunk_simps Let_def)

lemma image_step_silent:
  "acc_reasoning ((flush_text_outputs env i a)\<lparr>ca_output := ca_output (flush_text_outputs env i a) @ emit_inline_image env i img\<rparr>)
    = acc_reasoning a"
  using flush_says(2) [of env i a] by (simp add: acc_reasoning_def chunk_simps Let_def del: concat_eq_Nil_conv)

lemma openai_part_says:
  assumes "plain_image part"
  shows "acc_content (process_openai_part env now i part a) = acc_content a @ part_content part"
    and "acc_reasoning (process_openai_part env now i part a) = acc_reasoning a @ part_thought part"
proof -
  define a1 where "a1 = (case Option.bind (jget ''text'' part) as_str of
      Some t \<Rightarrow> if is_thought_part part
        then a\<lparr>ca_thought := ca_thought a @ t, ca_state := accumulate t (ca_state a)\<rparr> else a\<lparr>ca_content := ca_content a @ t\<rparr>
    | None \<Rightarrow> a)"
  define a2 where "a2 = (case part_signature part of
      Some sig \<Rightarrow> a1\<lparr>ca_state := cache_signature env now sig (ca_state a1)\<rparr> | None \<Rightarrow> a1)"
  define a3 where "a3 = (case jget ''inlineData'' part of
      Some img \<Rightarrow> (let a = flush_text_outputs env i a2 in a\<lparr>ca_output := ca_output a @ emit_inline_image env i img\<rparr>) | None \<Rightarrow> a2)"
  have p: "process_openai_part env now i part a
      = (case jget ''functionCall'' part of Some fc \<Rightarrow> emit_function_call env i fc (flush_text_outputs env i a3) | None \<Rightarrow> a3)"
    unfolding process_openai_part_def a1_def a2_def a3_def Let_def ..
  have "acc_content a3 = acc_content a @ part_content part"
    using assms by (auto simp: a3_def a2_def a1_def part_content_def plain_image_def text_step_says image_step_says Let_def split: option.split)
  then show "acc_content (process_openai_part env now i part a) = acc_content a @ part_content part"
    by (simp add: p chunk_simps split: option.split)
  have "acc_reasoning a3 = acc_reasoning a @ part_thought part"
    by (auto simp: a3_def a2_def a1_def part_thought_def text_step_says image_step_silent Let_def split: option.split)
  then show "acc_reasoning (process_openai_part env now i part a) = acc_reasoning a @ part_thought part"
    by (simp add: p chunk_simps split: option.split)
qed

text \<open>Calls are sent when their text is seen for the first time.\<close>

fun first_calls :: "(json \<Rightarrow> string) \<Rightarrow> string set \<Rightarrow> json list \<Rightarrow> json list" where
  "first_calls key seen [] = []"
| "first_calls key seen (c # cs) =
     (if key c \<in> seen then first_calls key seen cs else c # first_calls key (insert (key c) seen) cs)"

lemma first_calls_append: "first_calls key seen (xs @ ys) = first_calls key seen xs @ first_calls key (seen \<union> key ` set xs) ys"
  by (induction xs arbitrary: seen) (simp_all add: insert_absorb)

abbreviation emitted :: "openai_stream_state \<Rightarrow> string set" where
  "emitted s \<equiv> set (oz_emitted_tool_calls s)"

definition part_calls :: "json \<Rightarrow> json list" where
  "part_calls part = (case jget ''functionCall'' part of Some fc \<Rightarrow> [fc] | None \<Rightarrow> [])"

lemma emitted_unchanged [chunk_simps]:
  "oz_emitted_tool_calls (accumulate t s) = oz_emitted_tool_calls s"
  "oz_emitted_tool_calls (cache_signature env now sig s) = oz_emitted_tool_calls s"
  "oz_final_usage (accumulate t s) = oz_final_usage s"
  "oz_final_usage (cache_signature env now sig s) = oz_final_usage s"
  by (simp_all add: accumulate_def cache_signature_def Let_def)

lemma part_calls_sent:
  "sent_calls (ca_output (process_openai_part env now i part a))
     = sent_calls (ca_output a) @ map (call_json env) (first_calls (os_to_str env) (emitted (ca_state a)) (part_calls part))
   \<and> emitted (ca_state (process_openai_part env now i part a))
     = emitted (ca_state a) \<union> os_to_str env ` set (part_calls part)
   \<and> oz_final_usage (ca_state (process_openai_part env now i part a)) = oz_final_usage (ca_state a)"
  by (auto simp: process_openai_part_def part_calls_def emit_function_call_def Let_def chunk_simps split: option.split)

section \<open>What candidates and values add\<close>

definition plain_images :: "json \<Rightarrow> bool" where
  "plain_images v \<longleftrightarrow> list_all (\<lambda>c. list_all plain_image (candidate_parts c)) (candidates_of (raw_response v))"

definition candidate_text :: "json \<Rightarrow> string" where
  "candidate_text c = concat (map part_content (candidate_parts c)) @ candidate_grounding c"

definition candidate_thought :: "json \<Rightarrow> string" where
  "candidate_thought c = concat (map part_thought (candidate_parts c))"

definition calls_in_value :: "json \<Rightarrow> json list" where
  "calls_in_value v = concat (map (\<lambda>c. concat (map part_calls (candidate_parts c))) (candidates_of (raw_response v)))"

lemma parts_say:
  "list_all plain_image ps \<Longrightarrow>
     acc_content (fold (process_openai_part env now i) ps a) = acc_content a @ concat (map part_content ps)
     \<and> acc_reasoning (fold (process_openai_part env now i) ps a) = acc_reasoning a @ concat (map part_thought ps)"
  by (induction ps arbitrary: a) (simp_all add: openai_part_says)

lemma parts_calls:
  "sent_calls (ca_output (fold (process_openai_part env now i) ps a))
     = sent_calls (ca_output a) @ map (call_json env) (first_calls (os_to_str env) (emitted (ca_state a)) (concat (map part_calls ps)))
   \<and> emitted (ca_state (fold (process_openai_part env now i) ps a))
     = emitted (ca_state a) \<union> os_to_str env ` set (concat (map part_calls ps))
   \<and> oz_final_usage (ca_state (fold (process_openai_part env now i) ps a)) = oz_final_usage (ca_state a)"
proof (induction ps arbitrary: a)
  case (Cons p ps)
  show ?case
    using part_calls_sent [of env now i p a] Cons [of "process_openai_part env now i p a"]
    by (simp add: first_calls_append image_Un Un_assoc)
qed simp

lemma candidate_says:
  assumes "process_candidate env now c i s = (js, s')"
  shows "list_all plain_image (candidate_parts c) \<Longrightarrow> sent_content js = candidate_text c \<and> sent_reasoning js = candidate_thought c"
    and "sent_calls js = map (call_json env) (first_calls (os_to_str env) (emitted s) (concat (map part_calls (candidate_parts c))))"
    and "emitted s' = emitted s \<union> os_to_str env ` set (concat (map part_calls (candidate_parts c)))"
    and "oz_final_usage s' = oz_final_usage s"
proof -
  define a0 where "a0 = \<lparr>ca_content = [], ca_thought = [], ca_output = [], ca_state = s\<rparr>"
  define a where "a = fold (process_openai_part env now (of_nat i)) (candidate_parts c) a0"
  define t where "t = ca_content a @ candidate_grounding c"
  define f where "f = map_option map_finish_reason (Option.bind (jget ''finishReason'' c) as_str)"
  have js: "js = ca_output a
      @ (if t = [] \<and> ca_thought a = [] \<and> jget ''finishReason'' c = None then []
         else (if ca_thought a \<noteq> [] then [reasoning_chunk env (of_nat i) (ca_thought a)] else [])
           @ (if t \<noteq> [] \<or> f \<noteq> None then emit_content_chunks env (of_nat i) t f else []))" and s': "s' = ca_state a"
    using assms unfolding process_candidate_def Let_def a0_def [symmetric] a_def [symmetric] t_def [symmetric] f_def [symmetric]
    by simp_all
  have a0: "acc_content a0 = []" "acc_reasoning a0 = []" by (simp_all add: acc_content_def acc_reasoning_def a0_def)
  have c: "sent_content js = acc_content a @ candidate_grounding c" "sent_reasoning js = acc_reasoning a"
    "sent_calls js = sent_calls (ca_output a)"
    unfolding js acc_content_def acc_reasoning_def by (auto simp: chunk_simps t_def simp del: concat_eq_Nil_conv)
  show "list_all plain_image (candidate_parts c) \<Longrightarrow> sent_content js = candidate_text c \<and> sent_reasoning js = candidate_thought c"
    using parts_say [of "candidate_parts c" env now "of_nat i" a0] a0
    by (simp only: c candidate_text_def candidate_thought_def a_def) simp
  show "sent_calls js = map (call_json env) (first_calls (os_to_str env) (emitted s) (concat (map part_calls (candidate_parts c))))"
    "emitted s' = emitted s \<union> os_to_str env ` set (concat (map part_calls (candidate_parts c)))"
    "oz_final_usage s' = oz_final_usage s"
    using parts_calls [of env now "of_nat i" "candidate_parts c" a0] unfolding c s' a_def [symmetric] by (simp_all add: a0_def)
qed

lemma candidates_say:
  assumes "process_candidates env now i cs s = (js, s')"
  shows "(list_all (\<lambda>c. list_all plain_image (candidate_parts c)) cs \<longrightarrow>
       sent_content js = concat (map candidate_text cs) \<and> sent_reasoning js = concat (map candidate_thought cs))
    \<and> sent_calls js = map (call_json env) (first_calls (os_to_str env) (emitted s) (concat (map (\<lambda>c. concat (map part_calls (candidate_parts c))) cs)))
    \<and> emitted s' = emitted s \<union> os_to_str env ` set (concat (map (\<lambda>c. concat (map part_calls (candidate_parts c))) cs))
    \<and> oz_final_usage s' = oz_final_usage s"
  using assms
proof (induction cs arbitrary: i s js)
  case (Cons c cs)
  obtain js1 s1 where 1: "process_candidate env now c i s = (js1, s1)" by force
  obtain js2 where 2: "process_candidates env now (i + 1) cs s1 = (js2, s')" and js: "js = js1 @ js2"
    using Cons.prems 1 by (auto split: prod.splits)
  note c = candidate_says [OF 1] and r = Cons.IH [OF 2]
  show ?case
    using c(1) c(2-4) r by (auto simp: js first_calls_append image_Un)
qed simp

lemma value_says:
  assumes "process_value env now v s = (js, s')"
  shows "(plain_images v \<longrightarrow> sent_content js = concat (map candidate_text (candidates_of (raw_response v)))
       \<and> sent_reasoning js = concat (map candidate_thought (candidates_of (raw_response v))))
    \<and> sent_calls js = map (call_json env) (first_calls (os_to_str env) (emitted s) (calls_in_value v))
    \<and> emitted s' = emitted s \<union> os_to_str env ` set (calls_in_value v)"
  using candidates_say [OF assms [unfolded process_value_def Let_def]]
  by (auto simp: plain_images_def calls_in_value_def split: option.splits)

text \<open>The values a stream of bytes holds, if it neither fails nor overflows the buffer\<close>

fun stream_values ::
  "openai_stream_env \<Rightarrow> (nanos \<times> (string + string)) list \<Rightarrow> string \<Rightarrow> (nanos \<times> json) list option" where
  "stream_values env [] buffer = Some []"
| "stream_values env ((now, Inl e) # items) buffer = None"
| "stream_values env ((now, Inr b) # items) buffer =
     (if MAX_BUFFER_SIZE < length (buffer @ b) then None
      else let (ls, rest, _) = drain_with (\<lambda>l u. ([l], u)) (buffer @ b) ()
           in map_option (\<lambda>vs. map (Pair now) (List.map_filter (line_value (os_from_str env)) ls) @ vs) (stream_values env items rest))"

fun process_values ::
  "openai_stream_env \<Rightarrow> (nanos \<times> json) list \<Rightarrow> openai_stream_state \<Rightarrow> json list \<times> openai_stream_state" where
  "process_values env [] s = ([], s)"
| "process_values env ((now, v) # vs) s =
     (let (out, s) = process_value env now v s; (out', s) = process_values env vs s in (out @ out', s))"

lemma process_values_append:
  "process_values env (vs @ ws) s =
     (let (out, s) = process_values env vs s; (out', s) = process_values env ws s in (out @ out', s))"
  by (induction vs arbitrary: s) (auto simp: Let_def split: prod.split)

lemma drain_lines_values:
  "drain_with (openai_line env now) buffer s =
     (let (ls, rest, _) = drain_with (\<lambda>l u. ([l], u)) buffer ();
          (out, s) = process_values env (map (Pair now) (List.map_filter (line_value (os_from_str env)) ls)) s
      in (out, rest, s))"
proof (induction "openai_line env now" buffer s rule: drain_with.induct)
  case (1 buffer s)
  show ?case
  proof (cases "str_find buffer newline")
    case None
    then show ?thesis by (simp add: drain_with.simps [of _ buffer] map_filter_def)
  next
    case (Some pos)
    obtain out1 s1 where l: "openai_line env now (take (pos + 1) buffer) s = (out1, s1)" by force
    obtain ls rest where d: "drain_with (\<lambda>l u. ([l], u)) (drop (pos + 1) buffer) () = (ls, rest, ())" by (cases "drain_with (\<lambda>l u. ([l], u)) (drop (pos + 1) buffer) ()") auto
    show ?thesis
    proof (cases "line_value (os_from_str env) (take (pos + 1) buffer)")
      case None
      then have "out1 = []" "s1 = s" using l by (simp_all add: openai_line_def)
      then show ?thesis
        using 1 [OF Some l [symmetric] refl] Some l d None by (simp add: drain_with.simps [of _ buffer] split: prod.splits)
    next
      case (Some v)
      then have "process_value env now v s = (out1, s1)" using l by (simp add: openai_line_def)
      then show ?thesis
        using 1 [OF \<open>str_find buffer newline = _\<close> l [symmetric] refl] \<open>str_find buffer newline = _\<close> l d Some
        by (simp add: drain_with.simps [of _ buffer] split: prod.splits)
    qed
  qed
qed

lemma loop_values:
  assumes "stream_values env items buffer = Some vs" and "process_values env vs s = (js, s')"
  shows "openai_loop env items buffer s = (map Sse js, False, s')"
  using assms
proof (induction env items buffer arbitrary: s vs js rule: stream_values.induct)
  case (3 env now b items buffer)
  obtain ls rest where d: "drain_with (\<lambda>l u. ([l], u)) (buffer @ b) () = (ls, rest, ())" by (cases "drain_with (\<lambda>l u. ([l], u)) (buffer @ b) ()") auto
  have fit: "\<not> MAX_BUFFER_SIZE < length (buffer @ b)" using "3.prems"(1) by (auto split: if_splits)
  obtain ws where ws: "stream_values env items rest = Some ws"
    and vs: "vs = map (Pair now) (List.map_filter (line_value (os_from_str env)) ls) @ ws"
    using "3.prems"(1) fit d by auto
  obtain js1 s1 where 1: "process_values env (map (Pair now) (List.map_filter (line_value (os_from_str env)) ls)) s = (js1, s1)" by force
  obtain js2 where 2: "process_values env ws s1 = (js2, s')" and js: "js = js1 @ js2"
    using "3.prems"(2) 1 by (auto simp: vs process_values_append split: prod.splits)
  have "openai_loop env items rest s1 = (map Sse js2, False, s')"
    using "3.IH" [OF fit d [symmetric]] ws 2 by blast
  then show ?case using fit d 1 by (simp add: drain_lines_values js)
qed auto

lemma values_say:
  assumes "process_values env vs s = (js, s')"
  shows "(list_all (plain_images \<circ> snd) vs \<longrightarrow>
       sent_content js = concat (map (\<lambda>(_, v). concat (map candidate_text (candidates_of (raw_response v)))) vs)
       \<and> sent_reasoning js = concat (map (\<lambda>(_, v). concat (map candidate_thought (candidates_of (raw_response v)))) vs))
    \<and> sent_calls js = map (call_json env) (first_calls (os_to_str env) (emitted s) (concat (map (calls_in_value \<circ> snd) vs)))"
  using assms
proof (induction env vs s arbitrary: js rule: process_values.induct)
  case (2 env now v vs s)
  obtain js1 s1 where 1: "process_value env now v s = (js1, s1)" by force
  obtain js2 where r: "process_values env vs s1 = (js2, s')" and js: "js = js1 @ js2"
    using "2.prems" 1 by (auto split: prod.splits)
  show ?case using "2.IH" [OF 1 [symmetric] refl r] value_says [OF 1] by (auto simp: js first_calls_append)
qed simp

section \<open>The collector reads a stream back\<close>

definition readable_json :: "openai_stream_env \<Rightarrow> json \<Rightarrow> bool" where
  "readable_json env j \<longleftrightarrow> plain_field (os_to_str env j) \<and> os_from_str env (os_to_str env j) = Some j
     \<and> valid_utf8 (sse_line env j) \<and> os_to_str env j \<noteq> ''[DONE]''"

fun readable_item :: "openai_stream_env \<Rightarrow> openai_item \<Rightarrow> bool" where
  "readable_item env (Sse j) = readable_json env j"
| "readable_item env _ = True"

lemma read_data_line:
  assumes "CHR 0x0A \<notin> set l" and "CHR 0x0D \<notin> set l"
  shows "read_data_lines read (l @ newline @ rest) d es =
    (if l = [] then read_data_lines read rest [] (if d = [] then es else case read d of Some v \<Rightarrow> es @ [v] | None \<Rightarrow> es)
     else case parse_sse_line l of
       Some (key, v) \<Rightarrow> if key = ''data'' then if v = ''[DONE]'' then (rest, d, es) else read_data_lines read rest v es
                       else read_data_lines read rest d es
     | None \<Rightarrow> read_data_lines read rest d es)"
proof -
  have "trim_end_cr l = l"
    using assms(2) by (cases "rev l") (auto simp: trim_end_cr_def rev_swap dest: arg_cong [of _ _ set])
  then show ?thesis
    using find_newline [OF assms(1), of rest] by (subst read_data_lines.simps) (simp add: newline_def)
qed

lemma read_data_empty: "read_data_lines read [] d es = ([], d, es)"
  by (simp add: read_data_lines.simps str_find_def newline_def)

lemma read_sse_line:
  assumes "readable_json env j"
  shows "read_data_lines (os_from_str env) (utf8_lossy (sse_line env j)) [] es = ([], [], es @ [j])"
proof -
  have p: "plain_field (os_to_str env j)" using assms by (simp add: readable_json_def)
  have "read_data_lines (os_from_str env) ((''data: '' @ os_to_str env j) @ newline @ [] @ newline @ []) [] es = ([], [], es @ [j])"
    using assms parse_field(2) [OF p] read_data_line [of "''data: '' @ os_to_str env j"] read_data_line [of "[]" _ "[]"]
    by (simp add: readable_json_def plain_field_def read_data_empty)
  then show ?thesis using assms by (simp add: readable_json_def sse_line_def utf8_lossy_valid)
qed

lemma read_done:
  "read_data_lines read (utf8_lossy (''data: [DONE]'' @ newline @ newline)) [] es = (newline, [], es)"
proof -
  have "is_ascii (''data: [DONE]'' @ newline @ newline)" by (simp add: is_ascii_def newline_def)
  then have "utf8_lossy (''data: [DONE]'' @ newline @ newline) = ''data: [DONE]'' @ newline @ newline"
    by (intro utf8_lossy_valid valid_utf8_ascii)
  moreover have "plain_field ''[DONE]''" by (intro plain_fieldI) (simp_all add: plain_char_def)
  then have "parse_sse_line ''data: [DONE]'' = Some (''data'', ''[DONE]'')" using parse_field(2) [of "''[DONE]''"] by simp
  ultimately show ?thesis using read_data_line [of "''data: [DONE]''" read newline "[]" es] by simp
qed

lemma read_stream_back:
  "list_all (readable_json env) js \<Longrightarrow>
     read_stream (os_from_str env) (map (render_item env) (map Sse js @ [Done])) [] [] es = Inr (es @ js)"
proof (induction js arbitrary: es)
  case Nil
  then show ?case using read_done [of "os_from_str env" es] by simp
next
  case (Cons j js)
  then show ?case by (simp add: read_sse_line)
qed

lemma choices_collected:
  "ok_content (fold collect_choice chs c) = ok_content c @ concat (map (opt_str ''content'') (List.map_filter (jget ''delta'') chs))
   \<and> ok_reasoning (fold collect_choice chs c) = ok_reasoning c @ concat (map (opt_str ''reasoning_content'') (List.map_filter (jget ''delta'') chs))
   \<and> ok_calls (fold collect_choice chs c) = fold collect_call (concat (map (opt_list ''tool_calls'') (List.map_filter (jget ''delta'') chs))) (ok_calls c)"
proof (induction chs arbitrary: c)
  case (Cons ch chs)
  then show ?case by (auto simp: collect_choice_def Let_def map_filter_def split: option.split)
qed (simp add: map_filter_def)

lemma chunk_collected:
  "ok_content (collect_chunk env j c) = ok_content c @ chunk_content j"
  "ok_reasoning (collect_chunk env j c) = ok_reasoning c @ chunk_reasoning j"
  "ok_calls (collect_chunk env j c) = fold collect_call (chunk_calls j) (ok_calls c)"
  by (simp_all add: collect_chunk_def Let_def choices_collected chunk_content_def chunk_reasoning_def chunk_calls_def
      choice_deltas_def split: option.split)

lemma chunks_collected:
  "ok_content (fold (collect_chunk env) js c) = ok_content c @ sent_content js
   \<and> ok_reasoning (fold (collect_chunk env) js c) = ok_reasoning c @ sent_reasoning js
   \<and> ok_calls (fold (collect_chunk env) js c) = fold collect_call (sent_calls js) (ok_calls c)"
  by (induction js arbitrary: c) (simp_all add: chunk_collected)

text \<open>What a reader sees of an answer\<close>

definition answer_text :: "openai_response \<Rightarrow> string" where
  "answer_text r = concat (map (\<lambda>ch. case om_content (ch_message ch) of Some (OString t) \<Rightarrow> t | _ \<Rightarrow> []) (ow_choices r))"

definition answer_reasoning :: "openai_response \<Rightarrow> string" where
  "answer_reasoning r = concat (map (\<lambda>ch. case om_reasoning_content (ch_message ch) of Some t \<Rightarrow> t | None \<Rightarrow> []) (ow_choices r))"

definition answer_calls :: "openai_response \<Rightarrow> tool_call list" where
  "answer_calls r = concat (map (\<lambda>ch. case om_tool_calls (ch_message ch) of Some tcs \<Rightarrow> tcs | None \<Rightarrow> []) (ow_choices r))"

lemma whole_answer:
  "answer_text (fst (transform_openai_response env t v slot)) = concat (map candidate_text (candidates_of (raw_response v)))"
  "answer_reasoning (fst (transform_openai_response env t v slot)) = concat (map candidate_thought (candidates_of (raw_response v)))"
proof -
  have "(case om_content (ch_message (candidate_choice env p)) of Some (OString t) \<Rightarrow> t | _ \<Rightarrow> []) = candidate_text (snd p)"
    "(case om_reasoning_content (ch_message (candidate_choice env p)) of Some t \<Rightarrow> t | None \<Rightarrow> []) = candidate_thought (snd p)" for p
    by (cases p; simp add: candidate_choice_def Let_def some_text_def candidate_text_def candidate_thought_def)+
  moreover have "map (f \<circ> snd) (enumerate k cs) = map f cs" for f :: "json \<Rightarrow> string" and k cs
    by (induction cs arbitrary: k) simp_all
  ultimately show
    "answer_text (fst (transform_openai_response env t v slot)) = concat (map candidate_text (candidates_of (raw_response v)))"
    "answer_reasoning (fst (transform_openai_response env t v slot)) = concat (map candidate_thought (candidates_of (raw_response v)))"
    by (simp_all add: answer_text_def answer_reasoning_def transform_openai_response_def Let_def comp_def case_prod_unfold)
qed

lemma collected_answer:
  "answer_text (collected_response c) = ok_content c" "answer_reasoning (collected_response c) = ok_reasoning c"
  "answer_calls (collected_response c) = ok_calls c"
  by (simp_all add: answer_text_def answer_reasoning_def answer_calls_def collected_response_def some_text_def)

text \<open>The stream of an upstream that neither fails nor overflows the buffer\<close>

lemma stream_shape:
  assumes "stream_values env items [] = Some vs" and "create_openai_sse_stream env items cache = (out, s)"
  shows "\<exists>js u. process_values env vs (new_openai_state cache) = (js, s) \<and> out = map Sse (js @ u) @ [Done]
    \<and> sent_content u = [] \<and> sent_reasoning u = [] \<and> sent_calls u = []
    \<and> u = (case oz_final_usage s of Some x \<Rightarrow> [usage_chunk env x] | None \<Rightarrow> [])"
proof -
  obtain js s' where p: "process_values env vs (new_openai_state cache) = (js, s')" by force
  from loop_values [OF assms(1) p] assms(2)
  have "s' = s" "out = map Sse (js @ (case oz_final_usage s of Some x \<Rightarrow> [usage_chunk env x] | None \<Rightarrow> [])) @ [Done]"
    by (auto simp: create_openai_sse_stream_def split: option.splits)
  then show ?thesis using p by (auto simp: chunk_simps split: option.split)
qed

lemma stream_read_back:
  assumes "stream_values env items [] = Some vs" and "create_openai_sse_stream env items cache = (out, s)"
    and "list_all (readable_item env) out"
  shows "\<exists>js u r. process_values env vs (new_openai_state cache) = (js, s)
    \<and> sent_content u = [] \<and> sent_reasoning u = [] \<and> sent_calls u = []
    \<and> collect_openai_stream_to_json env t (map (render_item env) out) = Inr r
    \<and> answer_text r = sent_content js \<and> answer_reasoning r = sent_reasoning js
    \<and> answer_calls r = fold collect_call (sent_calls js) []"
proof -
  obtain js u where p: "process_values env vs (new_openai_state cache) = (js, s)" and o: "out = map Sse (js @ u) @ [Done]"
    and u: "sent_content u = []" "sent_reasoning u = []" "sent_calls u = []"
    using stream_shape [OF assms(1,2)] by blast
  have "list_all (readable_json env) (js @ u)" using assms(3) by (simp add: o list.pred_map comp_def)
  from read_stream_back [OF this, of "[]"]
  have "collect_openai_stream_to_json env t (map (render_item env) out)
      = Inr (collected_response (fold (collect_chunk env) (js @ u) (new_openai_collected t)))"
    by (simp add: collect_openai_stream_to_json_def o)
  moreover have "sent_content (js @ u) = sent_content js" "sent_reasoning (js @ u) = sent_reasoning js" "sent_calls (js @ u) = sent_calls js"
    unfolding map_append concat_append u by simp_all
  ultimately show ?thesis
    using p u chunks_collected [of env "js @ u" "new_openai_collected t"]
    by (intro exI [of _ js] exI [of _ u] exI conjI)
       (assumption | simp only: collected_answer | simp add: collected_answer new_openai_collected_def del: concat_eq_Nil_conv)+
qed

lemma merged_call:
  "cs \<noteq> [] \<Longrightarrow> fold collect_call (map (call_json env) cs) []
     = [\<lparr>oc_id = generate_call_id env (last cs), oc_type = ''function'', oc_name = call_name (last cs),
         oc_arguments = concat (map (call_args env) cs)\<rparr>]"
proof (induction cs rule: rev_induct)
  case (snoc c cs)
  have i: "Option.bind (jget ''index'' (call_json env fc)) as_u64 = Some 0" for fc
    by (simp add: call_json_def jget_def json_u32_def json_i64_def as_u64_def)
  have m: "merge_call (call_json env c) call = call\<lparr>oc_id := generate_call_id env c, oc_name := call_name c,
      oc_arguments := oc_arguments call @ call_args env c\<rparr>" for call
    by (simp add: merge_call_def call_json_def jget_def as_str_def Let_def)
  show ?case
  proof (cases "cs = []")
    case True
    then show ?thesis by (simp add: collect_call_def i m empty_call_def)
  next
    case False
    then show ?thesis using snoc by (simp add: collect_call_def i m)
  qed
qed simp

text \<open>After an overflow, and after an error\<close>

lemma loop_append:
  assumes "stream_values env items buffer = Some vs" and "process_values env vs s = (js, s')"
  shows "\<exists>rest. openai_loop env (items @ others) buffer s
    = (let (out, ended, s) = openai_loop env others rest s' in (map Sse js @ out, ended, s))"
  using assms
proof (induction env items buffer arbitrary: s vs js rule: stream_values.induct)
  case (1 env buffer)
  then show ?case by (intro exI [of _ buffer]) (simp split: prod.split)
next
  case (3 env now b items buffer)
  obtain ls rest where d: "drain_with (\<lambda>l u. ([l], u)) (buffer @ b) () = (ls, rest, ())"
    by (cases "drain_with (\<lambda>l u. ([l], u)) (buffer @ b) ()") auto
  have fit: "\<not> MAX_BUFFER_SIZE < length (buffer @ b)" using "3.prems"(1) by (auto split: if_splits)
  obtain ws where ws: "stream_values env items rest = Some ws"
    and vs: "vs = map (Pair now) (List.map_filter (line_value (os_from_str env)) ls) @ ws"
    using "3.prems"(1) fit d by auto
  obtain js1 s1 where 1: "process_values env (map (Pair now) (List.map_filter (line_value (os_from_str env)) ls)) s = (js1, s1)" by force
  obtain js2 where 2: "process_values env ws s1 = (js2, s')" and js: "js = js1 @ js2"
    using "3.prems"(2) 1 by (auto simp: vs process_values_append split: prod.splits)
  obtain rest' where "openai_loop env (items @ others) rest s1
      = (let (out, ended, s) = openai_loop env others rest' s' in (map Sse js2 @ out, ended, s))"
    using "3.IH" [OF fit d [symmetric]] ws 2 by blast
  then show ?case using fit d 1
    by (intro exI [of _ rest']) (simp add: drain_lines_values js split: prod.split)
qed auto


definition demo_value :: json where
  "demo_value = JObj [(''candidates'', JArr [JObj [(''content'', JObj [(''parts'', JArr [JObj [(''text'', JStr ''hello'')]])])]])]"

definition demo_call_value :: json where
  "demo_call_value = JObj [(''candidates'', JArr [JObj [(''content'', JObj [(''parts'', JArr
     [JObj [(''functionCall'', JObj [(''name'', JStr ''run'')])]])])]])]"

definition hello_chunk :: json where
  "hello_chunk = JObj [(''id'', JStr ''s''), (''object'', JStr ''chat.completion.chunk''), (''created'', json_i64 0), (''model'', JStr ''m''),
     (''choices'', JArr [JObj [(''index'', json_u32 0), (''delta'', JObj [(''content'', JStr ''hello'')]), (''finish_reason'', JNull)]])]"

definition demo_openai_stream :: openai_stream_env where
  "demo_openai_stream = \<lparr>os_from_str = (\<lambda>x. if x = ''1'' then Some demo_value else if x = ''2'' then Some hello_chunk
       else if x = ''3'' then Some demo_call_value else None),
     os_to_str = (\<lambda>j. if j = hello_chunk then ''2'' else ''0''), os_hash = concat, os_sha256 = id, os_uuid = (\<lambda>_ _. ''0''),
     os_base64 = id,     os_usage_of_value = (\<lambda>_. None), os_model = ''m'', os_stream_id = ''s'', os_created_ts = 0, os_session_id = None\<rparr>"

lemma drain_line:
  assumes "CHR 0x0A \<notin> set l"
  shows "drain_with (\<lambda>l u. ([l], u)) (l @ newline) () = ([l @ newline], [], ())"
proof -
  have "drain_with (\<lambda>l u. ([l], u)) [] () = ([], [], ())" by (subst drain_with.simps) (simp add: str_find_def newline_def)
  then show ?thesis
    using find_newline [OF assms, of "[]"] by (subst drain_with.simps) (simp add: newline_def)
qed

lemma trim_newline:
  assumes "s \<noteq> []" and "plain_char (hd s)" and "plain_char (last s)"
  shows "trim (s @ newline) = s"
proof -
  let ?P = "\<lambda>w. w \<noteq> [] \<and> starts_with (CHR 0x0A # rev s) w"
  have n: "CHR 0x0A = byte 10" by code_simp
  have nl: "w = [CHR 0x0A]" if "w \<in> set (map rev whitespaces)" and "hd w = CHR 0x0A" for w
    using that unfolding n by (auto simp: whitespaces_def byte_def)
  have "[CHR 0x0A] \<in> set (map rev whitespaces)" unfolding n by (simp add: whitespaces_def)
  then have "find ?P (map rev whitespaces) \<noteq> None" by (auto simp: find_None_iff starts_with_iff)
  then obtain w where w: "find ?P (map rev whitespaces) = Some w" by blast
  then have m: "w \<in> set (map rev whitespaces)" and p: "?P w" unfolding find_Some_iff by (metis nth_mem)+
  from p obtain t where "CHR 0x0A # rev s = w @ t" by (auto simp: starts_with_iff)
  with p have "hd w = CHR 0x0A" by (cases w) simp_all
  with m have "w = [CHR 0x0A]" by (rule nl)
  with w have "trim_start_ws (map rev whitespaces) (CHR 0x0A # rev s) = trim_start_ws (map rev whitespaces) (rev s)"
    by (subst trim_start_ws.simps) simp
  then have "trim_end (s @ newline) = trim_end s" by (simp add: trim_end_def newline_def)
  moreover have "trim_start (s @ newline) = s @ newline" "trim_start s = s"
    using assms(1,2) by (simp_all add: trim_start_plain)
  ultimately show ?thesis using trim_plain [OF assms] by (simp add: trim_def)
qed

lemma demo_trims:
  "trim (''data: 1'' @ newline) = ''data: 1''" "trim (''data: 3'' @ newline) = ''data: 3''" "trim ''1'' = ''1''" "trim ''3'' = ''3''"
  "strip_data ''data: 1'' = ''1''" "strip_data ''data: 3'' = ''3''"
  using trim_newline [of "''data: 1''"] trim_newline [of "''data: 3''"]
  by (simp_all add: trim_plain plain_char_def strip_data.simps [of "''data: 1''"] strip_data.simps [of "''data: 3''"]
      strip_data.simps [of "''1''"] strip_data.simps [of "''3''"])

lemma demo_line:
  assumes "x = CHR ''1'' \<or> x = CHR ''3''"
  shows "drain_with (\<lambda>l u. ([l], u)) (''data: '' @ [x] @ newline) () = ([''data: '' @ [x] @ newline], [], ())"
    and "line_value (os_from_str demo_openai_stream) (''data: '' @ [x] @ newline) = Some (if x = CHR ''1'' then demo_value else demo_call_value)"
proof -
  have "CHR 0x0A \<notin> set (''data: '' @ [x])" using assms by auto
  from drain_line [OF this] show "drain_with (\<lambda>l u. ([l], u)) (''data: '' @ [x] @ newline) () = ([''data: '' @ [x] @ newline], [], ())"
    by simp
  have "trim (''data: '' @ [x] @ newline) = ''data: '' @ [x]" "trim [x] = [x]" "strip_data (''data: '' @ [x]) = [x]"
    using assms demo_trims by auto
  moreover have "valid_utf8 (''data: '' @ [x] @ newline)"
    using assms by (intro valid_utf8_ascii) (auto simp: is_ascii_def newline_def)
  ultimately show "line_value (os_from_str demo_openai_stream) (''data: '' @ [x] @ newline)
      = Some (if x = CHR ''1'' then demo_value else demo_call_value)"
    using assms by (auto simp: line_value_def demo_openai_stream_def)
qed

lemma demo_stream_values:
  "stream_values demo_openai_stream [(0, Inr (''data: 1'' @ newline))] [] = Some [(0, demo_value)]"
  "stream_values demo_openai_stream [(0, Inr (''data: 3'' @ newline)), (1, Inr (''data: 3'' @ newline))] []
     = Some [(0, demo_call_value), (1, demo_call_value)]"
  using demo_line [of "CHR ''1''"] demo_line [of "CHR ''3''"]
  by (simp_all add: MAX_BUFFER_SIZE_def newline_def map_filter_def)

lemma demo_chunk: "content_chunk demo_openai_stream 0 ''hello'' None = hello_chunk"
  by (simp add: content_chunk_def chunk_object_def chunk_choice_def hello_chunk_def demo_openai_stream_def)

lemma demo_stream: "create_openai_sse_stream demo_openai_stream [(0, Inr (''data: 1'' @ newline))] new_cache
  = ([Sse hello_chunk, Done], new_openai_state new_cache)"
proof -
  have "process_values demo_openai_stream [(0, demo_value)] (new_openai_state new_cache) = ([hello_chunk], new_openai_state new_cache)"
    by (simp add: process_value_def raw_response_def demo_value_def jget_def candidates_of_def as_array_def process_candidate_def
        candidate_parts_def process_openai_part_def as_str_def is_thought_part_def part_signature_def candidate_grounding_def
        emit_content_chunks_def CHUNK_SIZE_def demo_chunk Let_def)
  then show ?thesis
    using loop_values [OF demo_stream_values(1)] by (simp add: create_openai_sse_stream_def) (simp add: new_openai_state_def)
qed

lemma demo_items_readable: "list_all (readable_item demo_openai_stream) [Sse hello_chunk, Done]"
proof -
  have "os_to_str demo_openai_stream hello_chunk = ''2''" by (simp add: demo_openai_stream_def)
  moreover have "plain_field ''2''" by (intro plain_fieldI) (simp_all add: plain_char_def)
  moreover have "valid_utf8 (''data: 2'' @ newline @ newline)" by (intro valid_utf8_ascii) (simp add: is_ascii_def newline_def)
  ultimately show ?thesis by (simp add: readable_json_def sse_line_def) (simp add: demo_openai_stream_def)
qed

section \<open>Properties\<close>

text \<open>
  Claim C12: the two ways to answer agree, for streams that come to their end: the upstream does not fail, and no line
  outgrows the buffer (a stream with a larger image ends early, and its text is not complete then). However such a
  stream is cut into pieces, its chunks, printed, sent and collected again, give an answer with the same text and the
  same reasoning as the translation of the upstream's values one by one. The data of images is taken to be ASCII, as
  base64 is, and printing is taken to give one line that is read back as the same value.
\<close>

theorem openai_answers_agree:
  assumes "stream_values env items [] = Some vs" and "list_all (plain_images \<circ> snd) vs"
    and "create_openai_sse_stream env items cache = (out, s)" and "list_all (readable_item env) out"
  shows "\<exists>r. collect_openai_stream_to_json env t (map (render_item env) out) = Inr r
    \<and> answer_text r = concat (map (\<lambda>(_, v). answer_text (fst (transform_openai_response env t v slot))) vs)
    \<and> answer_reasoning r = concat (map (\<lambda>(_, v). answer_reasoning (fst (transform_openai_response env t v slot))) vs)"
proof -
  obtain js r where p: "process_values env vs (new_openai_state cache) = (js, s)"
    and r: "collect_openai_stream_to_json env t (map (render_item env) out) = Inr r"
      "answer_text r = sent_content js" "answer_reasoning r = sent_reasoning js"
    using stream_read_back [OF assms(1,3,4), of t] by blast
  have "sent_content js = concat (map (\<lambda>(_, v). concat (map candidate_text (candidates_of (raw_response v)))) vs)"
    "sent_reasoning js = concat (map (\<lambda>(_, v). concat (map candidate_thought (candidates_of (raw_response v)))) vs)"
    using values_say [OF p] assms(2) by blast+
  then show ?thesis using r by (simp add: whole_answer)
qed

lemma openai_answers_agree_witness:
  "\<exists>r. collect_openai_stream_to_json demo_openai_stream 0 (map (render_item demo_openai_stream) [Sse hello_chunk, Done]) = Inr r
     \<and> answer_text r = ''hello'' \<and> answer_reasoning r = []"
proof -
  have p: "list_all (plain_images \<circ> snd) [(0::nanos, demo_value)]"
    by (simp add: plain_images_def raw_response_def demo_value_def jget_def candidates_of_def as_array_def candidate_parts_def plain_image_def)
  have "answer_text (fst (transform_openai_response demo_openai_stream 0 demo_value None)) = ''hello''"
    "answer_reasoning (fst (transform_openai_response demo_openai_stream 0 demo_value None)) = []"
    by (simp_all add: whole_answer raw_response_def demo_value_def jget_def candidates_of_def as_array_def candidate_parts_def
        candidate_text_def candidate_thought_def part_content_def part_thought_def as_str_def is_thought_part_def candidate_grounding_def)
  then show ?thesis
    using openai_answers_agree [OF demo_stream_values(1) p demo_stream demo_items_readable, of 0 None] by auto
qed

text \<open>
  Claim C13: in a stream that comes to its end (the upstream does not fail and no line outgrows the buffer) every
  distinct call is sent to the client exactly once, in the order in which the calls first appear. Calls are the same
  if their JSON texts are: a call that the upstream repeats in a later piece is not sent again, and neither is a second
  parallel call without an id of its own that is equal to the first.
\<close>

theorem openai_calls_sent_once:
  assumes "stream_values env items [] = Some vs" and "create_openai_sse_stream env items cache = (out, s)"
  shows "concat (map (\<lambda>i. case i of Sse j \<Rightarrow> chunk_calls j | _ \<Rightarrow> []) out)
    = map (call_json env) (first_calls (os_to_str env) {} (concat (map (calls_in_value \<circ> snd) vs)))"
proof -
  obtain js u where p: "process_values env vs (new_openai_state cache) = (js, s)" and o: "out = map Sse (js @ u) @ [Done]"
    and u: "sent_calls u = []"
    using stream_shape [OF assms] by blast
  have "concat (map (\<lambda>i. case i of Sse j \<Rightarrow> chunk_calls j | _ \<Rightarrow> []) out) = sent_calls js @ sent_calls u"
    by (simp add: o comp_def)
  also have "\<dots> = map (call_json env) (first_calls (os_to_str env) {} (concat (map (calls_in_value \<circ> snd) vs)))"
    unfolding u using values_say [OF p] by (simp add: new_openai_state_def)
  finally show ?thesis .
qed

lemma openai_calls_sent_once_witness:
  "\<exists>out s. create_openai_sse_stream demo_openai_stream
       [(0, Inr (''data: 3'' @ newline)), (1, Inr (''data: 3'' @ newline))] new_cache = (out, s)
     \<and> concat (map (\<lambda>i. case i of Sse j \<Rightarrow> chunk_calls j | _ \<Rightarrow> []) out)
       = [call_json demo_openai_stream (JObj [(''name'', JStr ''run'')])]"
proof -
  obtain out s where o: "create_openai_sse_stream demo_openai_stream
       [(0, Inr (''data: 3'' @ newline)), (1, Inr (''data: 3'' @ newline))] new_cache = (out, s)" by force
  have "calls_in_value demo_call_value = [JObj [(''name'', JStr ''run'')]]"
    by (simp add: calls_in_value_def raw_response_def demo_call_value_def jget_def candidates_of_def as_array_def candidate_parts_def part_calls_def)
  then show ?thesis using openai_calls_sent_once [OF demo_stream_values(2) o] o by auto
qed

text \<open>
  Note: every call is sent under the same index, and the collector puts calls with the same index together. So a
  client that asked for a whole answer gets a single call, with the name of the last one and the arguments
  of all of them in a row, whenever the upstream makes others than one call.
\<close>

theorem parallel_calls_merged:
  assumes "stream_values env items [] = Some vs" and "create_openai_sse_stream env items cache = (out, s)"
    and "list_all (readable_item env) out"
    and "first_calls (os_to_str env) {} (concat (map (calls_in_value \<circ> snd) vs)) = cs" and "cs \<noteq> []"
  shows "\<exists>r. collect_openai_stream_to_json env t (map (render_item env) out) = Inr r
    \<and> answer_calls r = [\<lparr>oc_id = generate_call_id env (last cs), oc_type = ''function'', oc_name = call_name (last cs),
        oc_arguments = concat (map (call_args env) cs)\<rparr>]"
proof -
  obtain js r where p: "process_values env vs (new_openai_state cache) = (js, s)"
    and r: "collect_openai_stream_to_json env t (map (render_item env) out) = Inr r"
      "answer_calls r = fold collect_call (sent_calls js) []"
    using stream_read_back [OF assms(1-3), of t] by blast
  have "sent_calls js = map (call_json env) cs" using values_say [OF p] assms(4) by (simp add: new_openai_state_def)
  then show ?thesis using r merged_call [OF assms(5), of env] by auto
qed

text \<open>
  Note: the usage is sent after the end marker when the buffer overflows, and after the abort when the upstream fails.
\<close>

theorem usage_after_end:
  assumes "stream_values env items [] = Some vs" and "process_values env vs (new_openai_state cache) = (js, s)"
    and "oz_final_usage s = Some u" and "MAX_BUFFER_SIZE < length b"
  shows "fst (create_openai_sse_stream env (items @ [(now, Inr b)]) cache)
      = map Sse js @ [Sse (error_chunk env ''buffer_overflow'' ''Response too large'' ''error.buffer_overflow''), Done, Sse (usage_chunk env u)]
    \<and> fst (create_openai_sse_stream env (items @ [(now, Inl e)]) cache)
      = map Sse js @ [Sse (truncation_chunk env), Abort ''stream timeout abort'', Sse (usage_chunk env u)]"
proof -
  obtain rest rest' where
    "openai_loop env (items @ [(now, Inr b)]) [] (new_openai_state cache)
      = (let (out, ended, s) = openai_loop env [(now, Inr b)] rest s in (map Sse js @ out, ended, s))"
    "openai_loop env (items @ [(now, Inl e)]) [] (new_openai_state cache)
      = (let (out, ended, s) = openai_loop env [(now, Inl e)] rest' s in (map Sse js @ out, ended, s))"
    using loop_append [OF assms(1,2)] by metis
  then show ?thesis using assms(3,4) by (simp add: create_openai_sse_stream_def)
qed

end
