(* ===== verification/Codex_Stream.thy ===== *)
theory Codex_Stream
  imports OpenAI_Stream
begin

text \<open>
  The two other streams of the OpenAI protocol: completions (\<open>mappers/openai/streaming/legacy_stream.rs\<close>) and
  responses (\<open>codex_stream.rs\<close>, \<open>function_call_handler.rs\<close>, \<open>ssop_detector.rs\<close>). Both read lines as
  \<open>OpenAI_Stream\<close> does, without a limit of the buffer. Random identifiers are the stream id of the environment;
  logging, metrics and the pause before the end are left out.
\<close>

section \<open>Completions\<close>

record legacy_state =
  ls_final_usage :: "openai_usage option"
  ls_slot :: "string option"

definition first_candidate_of :: "json \<Rightarrow> json option" where
  "first_candidate_of v = (case candidates_of v of [] \<Rightarrow> None | c # _ \<Rightarrow> Some c)"

definition first_parts :: "json \<Rightarrow> json list" where
  "first_parts v = (case first_candidate_of v of Some c \<Rightarrow> candidate_parts c | None \<Rightarrow> [])"

definition first_finish :: "json \<Rightarrow> string option" where
  "first_finish v = Option.bind (Option.bind (first_candidate_of v) (jget ''finishReason'')) as_str"

definition text_of_part :: "json \<Rightarrow> string" where
  "text_of_part part = str_or [] (jget ''text'' part)"

definition legacy_object :: "openai_stream_env \<Rightarrow> json list \<Rightarrow> jmap \<Rightarrow> json" where
  "legacy_object env choices extra =
     JObj ([(''id'', JStr (os_stream_id env)), (''object'', JStr ''text_completion''),
            (''created'', json_i64 (os_created_ts env)), (''model'', JStr (os_model env)), (''choices'', JArr choices)] @ extra)"

definition legacy_chunk :: "openai_stream_env \<Rightarrow> string \<Rightarrow> string option \<Rightarrow> json" where
  "legacy_chunk env t finish_reason =
     legacy_object env
       [JObj [(''text'', JStr t), (''index'', json_i64 0), (''logprobs'', JNull),
              (''finish_reason'', case finish_reason of Some r \<Rightarrow> JStr r | None \<Rightarrow> JNull)]] []"

definition legacy_finish_reason :: "string \<Rightarrow> string" where
  "legacy_finish_reason f =
     (if f = ''STOP'' then ''stop'' else if f = ''MAX_TOKENS'' then ''length'' else if f = ''SAFETY'' then ''content_filter'' else f)"

definition legacy_value :: "openai_stream_env \<Rightarrow> json \<Rightarrow> legacy_state \<Rightarrow> json list \<times> legacy_state" where
  "legacy_value env v s =
     (let actual_data = raw_response v;
          s = (case jget ''usageMetadata'' actual_data of
                 Some u \<Rightarrow> s\<lparr>ls_final_usage := Some (extract_usage_metadata u)\<rparr> | None \<Rightarrow> s);
          parts = first_parts actual_data
      in ([legacy_chunk env (concat (map text_of_part parts)) (map_option legacy_finish_reason (first_finish actual_data))],
          s\<lparr>ls_slot := fold store_thought_signature (List.map_filter part_signature parts) (ls_slot s)\<rparr>))"

definition legacy_line :: "openai_stream_env \<Rightarrow> string \<Rightarrow> legacy_state \<Rightarrow> json list \<times> legacy_state" where
  "legacy_line env line_raw s =
     (case line_value (os_from_str env) line_raw of Some v \<Rightarrow> legacy_value env v s | None \<Rightarrow> ([], s))"

fun legacy_loop ::
  "openai_stream_env \<Rightarrow> (string + string) list \<Rightarrow> string \<Rightarrow> legacy_state \<Rightarrow> openai_item list \<times> bool \<times> legacy_state" where
  "legacy_loop env [] buffer s = ([], False, s)"
| "legacy_loop env (Inl e # items) buffer s =
     ([Sse (legacy_chunk env truncation_notice None), Abort ''stream timeout abort''], True, s)"
| "legacy_loop env (Inr b # items) buffer s =
     (let (out, rest, s) = drain_with (legacy_line env) (buffer @ b) s;
          (out', aborted, s) = legacy_loop env items rest s
      in (map Sse out @ out', aborted, s))"

definition create_legacy_sse_stream ::
  "openai_stream_env \<Rightarrow> (string + string) list \<Rightarrow> string option \<Rightarrow> openai_item list \<times> legacy_state" where
  "create_legacy_sse_stream env items slot =
     (let (out, stream_aborted, s) = legacy_loop env items [] \<lparr>ls_final_usage = None, ls_slot = slot\<rparr>
      in (if stream_aborted then out
          else out @ (case ls_final_usage s of
                        Some u \<Rightarrow> [Sse (legacy_object env [] [(''usage'', json_of_openai_usage u)])] | None \<Rightarrow> []) @ [Done], s))"

section \<open>Calls as items\<close>

definition silent_command :: "string list" where
  "silent_command = [''powershell.exe'', ''-Command'', ''exit 0'']"

definition parse_shell_command :: "json \<Rightarrow> string list" where
  "parse_shell_command args_obj =
     (case args_obj of
        JObj [] \<Rightarrow> silent_command
      | JObj _ \<Rightarrow>
          (case jget ''command'' args_obj of
             Some (JArr arr) \<Rightarrow> List.map_filter as_str arr
           | Some (JStr cmd_str) \<Rightarrow>
               if contains cmd_str '' '' then [''powershell.exe'', ''-Command'', cmd_str] else [cmd_str]
           | _ \<Rightarrow> silent_command)
      | _ \<Rightarrow> silent_command)"

definition is_search_name :: "string \<Rightarrow> bool" where
  "is_search_name n \<longleftrightarrow> n = ''googleSearch'' \<or> n = ''web_search'' \<or> n = ''google_search''"

definition call_item :: "openai_stream_env \<Rightarrow> string \<Rightarrow> json \<Rightarrow> string \<Rightarrow> json" where
  "call_item env fname args_obj call_id =
     (if fname = ''shell'' \<or> fname = ''local_shell''
      then JObj [(''type'', JStr ''local_shell_call''), (''status'', JStr ''in_progress''), (''call_id'', JStr call_id),
                 (''action'', JObj [(''type'', JStr ''exec''), (''command'', JArr (map JStr (parse_shell_command args_obj)))])]
      else if is_search_name fname
      then JObj [(''type'', JStr ''web_search_call''), (''status'', JStr ''in_progress''), (''call_id'', JStr call_id),
                 (''action'', JObj [(''type'', JStr ''search''), (''query'', JStr (str_or [] (jget ''query'' args_obj)))])]
      else JObj [(''type'', JStr ''function_call''), (''name'', JStr fname), (''arguments'', JStr (os_to_str env args_obj)),
                 (''call_id'', JStr call_id)])"

definition item_event :: "string \<Rightarrow> json \<Rightarrow> json" where
  "item_event kind item = JObj [(''type'', JStr (''response.output_item.'' @ kind)), (''item'', item)]"

definition process_function_call :: "openai_stream_env \<Rightarrow> json \<Rightarrow> json list" where
  "process_function_call env func_call =
     (let args_obj = (case jget ''args'' func_call of Some a \<Rightarrow> a | None \<Rightarrow> JObj []);
          item = call_item env (call_name func_call) args_obj (generate_call_id env func_call)
      in [item_event ''added'' item, item_event ''done'' item])"

section \<open>Commands in text\<close>

text \<open>The outermost objects in braces, from left to right\<close>

fun brace_blocks :: "nat \<Rightarrow> string \<Rightarrow> string \<Rightarrow> string list" where
  "brace_blocks depth current [] = []"
| "brace_blocks depth current (c # cs) =
     (if c = CHR ''{'' then brace_blocks (depth + 1) (if depth = 0 then [c] else current @ [c]) cs
      else if c = CHR ''}'' \<and> 0 < depth
      then if depth = 1 then (current @ [c]) # brace_blocks 0 [] cs else brace_blocks (depth - 1) (current @ [c]) cs
      else brace_blocks depth (current @ [c]) cs)"

definition or_field :: "string \<Rightarrow> json \<Rightarrow> json option \<Rightarrow> json option" where
  "or_field k v x = (case x of Some y \<Rightarrow> Some y | None \<Rightarrow> jget k v)"

definition command_in :: "json \<Rightarrow> json option" where
  "command_in v =
     (case jget ''command'' v of
        Some (JArr arr) \<Rightarrow>
          (case Option.bind (first_of arr) as_str of
             Some f \<Rightarrow> if f \<in> {''shell'', ''powershell'', ''cmd'', ''ls'', ''git'', ''echo''} then Some (JArr arr) else None
           | None \<Rightarrow> None)
      | Some (JStr cmd_str) \<Rightarrow>
          if cmd_str = ''shell'' \<or> cmd_str = ''local_shell''
          then (case or_field ''params'' v (or_field ''arguments'' v (jget ''args'' v)) of
                  Some args \<Rightarrow>
                    (case or_field ''argument'' args (or_field ''code'' args (jget ''command'' args)) of
                       Some (JStr inner_cmd_str) \<Rightarrow> Some (JArr [JStr inner_cmd_str]) | _ \<Rightarrow> None)
                | None \<Rightarrow> None)
          else None
      | _ \<Rightarrow> None)"

definition quoted :: "string \<Rightarrow> string" where
  "quoted s = CHR 0x22 # s @ [CHR 0x22]"

definition str_rfind_char :: "char \<Rightarrow> string \<Rightarrow> nat option" where
  "str_rfind_char c s = (if c \<in> set s then Some (length s - 1 - length (takeWhile (\<lambda>x. x \<noteq> c) (rev s))) else None)"

definition command_after :: "string \<Rightarrow> string \<Rightarrow> json option" where
  "command_after json_str key =
     (case str_find json_str key of
        Some pos \<Rightarrow>
          let slice_start = pos + length key
          in (case str_find (drop slice_start json_str) [CHR 0x22] of
                Some quote_idx \<Rightarrow>
                  let val_start_abs = slice_start + quote_idx + 1
                  in (case str_rfind_char (CHR 0x22) json_str of
                        Some last_quote_idx \<Rightarrow>
                          if val_start_abs < last_quote_idx
                          then Some (JArr [JStr (drop val_start_abs (take last_quote_idx json_str))]) else None
                      | None \<Rightarrow> None)
              | None \<Rightarrow> None)
      | None \<Rightarrow> None)"

fun first_key :: "(string \<Rightarrow> json option) \<Rightarrow> string list \<Rightarrow> json option" where
  "first_key f [] = None"
| "first_key f (k # ks) = (case f k of Some v \<Rightarrow> Some v | None \<Rightarrow> first_key f ks)"

definition try_recover_malformed_json :: "string \<Rightarrow> json option" where
  "try_recover_malformed_json json_str =
     (if (contains json_str (quoted ''command'' @ '': '' @ quoted ''shell'')
          \<or> contains json_str (quoted ''command'' @ '': '' @ quoted ''local_shell''))
         \<and> (contains json_str (quoted ''argument'' @ '':'') \<or> contains json_str (quoted ''code'' @ '':''))
      then first_key (command_after json_str) (map (\<lambda>k. quoted k @ '':'') [''argument'', ''code'', ''command'']) else None)"

definition detected_command :: "openai_stream_env \<Rightarrow> string \<Rightarrow> json option" where
  "detected_command env json_str =
     (case os_from_str env json_str of Some v \<Rightarrow> command_in v | None \<Rightarrow> try_recover_malformed_json json_str)"

definition code_point :: "string \<Rightarrow> nat" where
  "code_point c =
     (case map of_char c of
        [a] \<Rightarrow> a
      | [a, b] \<Rightarrow> (a - 192) * 64 + (b - 128)
      | [a, b, c] \<Rightarrow> ((a - 224) * 64 + (b - 128)) * 64 + (c - 128)
      | [a, b, c, d] \<Rightarrow> (((a - 240) * 64 + (b - 128)) * 64 + (c - 128)) * 64 + (d - 128)
      | _ \<Rightarrow> 0)"

definition utf16_units :: "nat \<Rightarrow> nat list" where
  "utf16_units n = (if n < 65536 then [n] else [55296 + (n - 65536) div 1024, 56320 + (n - 65536) mod 1024])"

definition utf16_bytes :: "string \<Rightarrow> string" where
  "utf16_bytes s = concat (map (\<lambda>u. [byte (u mod 256), byte (u div 256)]) (concat (map (utf16_units \<circ> code_point) (chars s))))"

definition join_blanks :: "string list \<Rightarrow> string" where
  "join_blanks ws = concat (case ws of [] \<Rightarrow> [] | w # rest \<Rightarrow> w # map (\<lambda>x. '' '' @ x) rest)"

definition build_final_command :: "openai_stream_env \<Rightarrow> string list \<Rightarrow> string list" where
  "build_final_command env cmd_vec =
     (case cmd_vec of
        [] \<Rightarrow> [''powershell'', ''-Command'', ''echo '' @ [CHR 0x27] @ ''Empty command'' @ [CHR 0x27]]
      | c # _ \<Rightarrow>
          if c \<in> {''powershell'', ''cmd'', ''git'', ''python'', ''node''} then cmd_vec
          else [''powershell'', ''-EncodedCommand'',
                os_base64 env (utf16_bytes (''& { '' @ join_blanks cmd_vec @ '' } | Out-String''))])"

definition generate_shell_events :: "openai_stream_env \<Rightarrow> json \<Rightarrow> json list" where
  "generate_shell_events env cmd_val =
     (let call_id = ''call_'' @ os_hash env [''ssop_shell_call'', os_to_str env cmd_val];
          cmd_vec = (case cmd_val of JArr arr \<Rightarrow> List.map_filter as_str arr | _ \<Rightarrow> []);
          cmd_vec = (case cmd_vec of c # rest \<Rightarrow> if c = ''shell'' \<or> c = ''local_shell'' then rest else cmd_vec | [] \<Rightarrow> []);
          item = JObj [(''type'', JStr ''local_shell_call''), (''status'', JStr ''in_progress''), (''call_id'', JStr call_id),
             (''action'', JObj [(''type'', JStr ''exec''), (''command'', JArr (map JStr (build_final_command env cmd_vec)))])]
      in [item_event ''added'' item, item_event ''done'' item])"

text \<open>The last command found counts.\<close>

definition detect_and_emit_ssop_events :: "openai_stream_env \<Rightarrow> string \<Rightarrow> json list" where
  "detect_and_emit_ssop_events env full_content =
     (case fold (\<lambda>block found. case detected_command env block of Some c \<Rightarrow> Some c | None \<Rightarrow> found)
             (brace_blocks 0 [] full_content) None of
        Some cmd_val \<Rightarrow> generate_shell_events env cmd_val
      | None \<Rightarrow> [])"

section \<open>Responses\<close>

record codex_state =
  cx_full_content :: string
  cx_last_key :: "string option"
  cx_finish :: string
  cx_final_usage :: "openai_usage option"
  cx_slot :: "string option"

definition codex_finish_reason :: "string \<Rightarrow> string" where
  "codex_finish_reason r = (if r = ''MAX_TOKENS'' then ''length'' else ''stop'')"

definition codex_part :: "openai_stream_env \<Rightarrow> json \<Rightarrow> codex_state \<Rightarrow> json list \<times> codex_state" where
  "codex_part env part s =
     (let s = (case part_signature part of
                 Some sig \<Rightarrow> s\<lparr>cx_slot := store_thought_signature sig (cx_slot s)\<rparr> | None \<Rightarrow> s)
      in case jget ''functionCall'' part of
           Some func_call \<Rightarrow>
             let call_key = os_to_str env func_call
             in (if cx_last_key s = Some call_key then [] else process_function_call env func_call,
                 s\<lparr>cx_last_key := Some call_key\<rparr>)
         | None \<Rightarrow> ([], s))"

fun codex_parts :: "openai_stream_env \<Rightarrow> json list \<Rightarrow> codex_state \<Rightarrow> json list \<times> codex_state" where
  "codex_parts env [] s = ([], s)"
| "codex_parts env (p # ps) s =
     (let (out, s) = codex_part env p s; (out', s) = codex_parts env ps s in (out @ out', s))"

definition delta_event :: "string \<Rightarrow> json" where
  "delta_event t = JObj [(''type'', JStr ''response.output_text.delta''), (''delta'', JStr t)]"

definition codex_value :: "openai_stream_env \<Rightarrow> json \<Rightarrow> codex_state \<Rightarrow> json list \<times> codex_state" where
  "codex_value env v s =
     (let actual_data = raw_response v;
          s = (case jget ''usageMetadata'' actual_data of
                 Some u \<Rightarrow> s\<lparr>cx_final_usage := Some (extract_usage_metadata u)\<rparr> | None \<Rightarrow> s);
          s = (case first_finish actual_data of Some r \<Rightarrow> s\<lparr>cx_finish := codex_finish_reason r\<rparr> | None \<Rightarrow> s);
          parts = first_parts actual_data;
          (out, s) = codex_parts env parts s;
          delta_text = concat (map text_of_part parts)
      in if delta_text = [] then (out, s)
         else (out @ [delta_event delta_text], s\<lparr>cx_full_content := cx_full_content s @ delta_text\<rparr>))"

definition codex_line :: "openai_stream_env \<Rightarrow> string \<Rightarrow> codex_state \<Rightarrow> json list \<times> codex_state" where
  "codex_line env line_raw s =
     (case line_value (os_from_str env) line_raw of Some v \<Rightarrow> codex_value env v s | None \<Rightarrow> ([], s))"

fun codex_loop ::
  "openai_stream_env \<Rightarrow> (string + string) list \<Rightarrow> string \<Rightarrow> codex_state \<Rightarrow> openai_item list \<times> bool \<times> codex_state" where
  "codex_loop env [] buffer s = ([], False, s)"
| "codex_loop env (Inl e # items) buffer s = ([Sse (delta_event truncation_notice), Abort ''stream timeout abort''], True, s)"
| "codex_loop env (Inr b # items) buffer s =
     (let (out, rest, s) = drain_with (codex_line env) (buffer @ b) s;
          (out', aborted, s) = codex_loop env items rest s
      in (map Sse out @ out', aborted, s))"

definition created_event :: "openai_stream_env \<Rightarrow> json" where
  "created_event env = JObj [(''type'', JStr ''response.created''),
     (''response'', JObj [(''id'', JStr (os_stream_id env)), (''object'', JStr ''response'')])]"

definition message_done_event :: "string \<Rightarrow> json" where
  "message_done_event t = item_event ''done'' (JObj [(''type'', JStr ''message''), (''role'', JStr ''assistant''),
     (''content'', JArr [JObj [(''type'', JStr ''output_text''), (''text'', JStr t)]])])"

definition completed_event :: "openai_stream_env \<Rightarrow> codex_state \<Rightarrow> json" where
  "completed_event env s =
     (let n = (\<lambda>f. json_u32 (case cx_final_usage s of Some u \<Rightarrow> f u | None \<Rightarrow> 0))
      in JObj [(''type'', JStr ''response.completed''),
         (''response'', JObj [(''id'', JStr (os_stream_id env)), (''object'', JStr ''response''), (''status'', JStr ''completed''),
            (''finish_reason'', JStr (cx_finish s)),
            (''usage'', JObj [(''input_tokens'', n ou_prompt_tokens),
               (''input_tokens_details'', JObj [(''cached_tokens'', n (\<lambda>u. case ou_cached_tokens u of Some c \<Rightarrow> c | None \<Rightarrow> 0))]),
               (''output_tokens'', n ou_completion_tokens), (''output_tokens_details'', JObj [(''reasoning_tokens'', json_u32 0)]),
               (''total_tokens'', n ou_total_tokens)])])])"

definition new_codex_state :: "string option \<Rightarrow> codex_state" where
  "new_codex_state slot = \<lparr>cx_full_content = [], cx_last_key = None, cx_finish = ''stop'', cx_final_usage = None, cx_slot = slot\<rparr>"

definition create_codex_sse_stream ::
  "openai_stream_env \<Rightarrow> (string + string) list \<Rightarrow> string option \<Rightarrow> openai_item list \<times> codex_state" where
  "create_codex_sse_stream env items slot =
     (let (out, stream_aborted, s) = codex_loop env items [] (new_codex_state slot)
      in (Sse (created_event env) # out
          @ (if stream_aborted then []
             else map Sse (message_done_event (cx_full_content s)
                    # (if cx_last_key s = None then detect_and_emit_ssop_events env (cx_full_content s) else [])
                    @ [completed_event env s])), s))"

section \<open>Lemmas\<close>

definition event_delta :: "json \<Rightarrow> string" where
  "event_delta j = (if jget ''type'' j = Some (JStr ''response.output_text.delta'') then opt_str ''delta'' j else [])"

lemma delta_of [simp]:
  "event_delta (delta_event t) = t" "event_delta (item_event k i) = []" "event_delta (created_event env) = []"
  "event_delta (completed_event env s) = []" "event_delta (message_done_event t) = []"
  by (simp_all add: event_delta_def delta_event_def item_event_def created_event_def completed_event_def message_done_event_def
      jget_def opt_str_def str_or_def as_str_def)

lemma codex_part_text:
  "codex_part env p s = (js, s') \<Longrightarrow> concat (map event_delta js) = [] \<and> cx_full_content s' = cx_full_content s"
  by (auto simp: codex_part_def process_function_call_def Let_def split: option.splits if_splits)

lemma codex_parts_text:
  "codex_parts env ps s = (js, s') \<Longrightarrow> concat (map event_delta js) = [] \<and> cx_full_content s' = cx_full_content s"
proof (induction ps arbitrary: s js)
  case (Cons p ps)
  then show ?case by (auto split: prod.splits dest: codex_part_text simp del: concat_eq_Nil_conv)
qed simp

lemma codex_value_text:
  assumes "codex_value env v s = (js, s')"
  shows "cx_full_content s' = cx_full_content s @ concat (map event_delta js)
    \<and> concat (map event_delta js) = concat (map text_of_part (first_parts (raw_response v)))"
proof -
  let ?v = "raw_response v"
  define s1 where "s1 = (case jget ''usageMetadata'' ?v of
      Some u \<Rightarrow> s\<lparr>cx_final_usage := Some (extract_usage_metadata u)\<rparr> | None \<Rightarrow> s)"
  define s2 where "s2 = (case first_finish ?v of Some r \<Rightarrow> s1\<lparr>cx_finish := codex_finish_reason r\<rparr> | None \<Rightarrow> s1)"
  obtain out s3 where p: "codex_parts env (first_parts ?v) s2 = (out, s3)" by force
  have "cx_full_content s2 = cx_full_content s" by (simp add: s2_def s1_def split: option.split)
  then have full: "concat (map event_delta out) = []" "cx_full_content s3 = cx_full_content s"
    using codex_parts_text [OF p] by simp_all
  let ?t = "concat (map text_of_part (first_parts ?v))"
  have "(js, s') = (if ?t = [] then (out, s3) else (out @ [delta_event ?t], s3\<lparr>cx_full_content := cx_full_content s3 @ ?t\<rparr>))"
    unfolding assms [symmetric] codex_value_def Let_def s1_def [symmetric] s2_def [symmetric] p by simp
  then show ?thesis using full by (auto simp del: concat_eq_Nil_conv split: if_splits)
qed

lemma codex_line_text:
  "codex_line env l s = (js, s') \<Longrightarrow> cx_full_content s' = cx_full_content s @ concat (map event_delta js)"
  using codex_value_text by (auto simp: codex_line_def split: option.splits)

lemma codex_drain_text:
  "drain_with (codex_line env) buffer s = (js, rest, s') \<Longrightarrow>
     cx_full_content s' = cx_full_content s @ concat (map event_delta js)"
proof (induction "codex_line env" buffer s arbitrary: js rest s' rule: drain_with.induct)
  case (1 buffer s)
  show ?case
  proof (cases "str_find buffer newline")
    case None
    then show ?thesis using "1.prems" by (simp add: drain_with.simps [of _ buffer])
  next
    case (Some pos)
    obtain out s1 where l: "codex_line env (take (pos + 1) buffer) s = (out, s1)" by force
    obtain out' where d: "drain_with (codex_line env) (drop (pos + 1) buffer) s1 = (out', rest, s')" and js: "js = out @ out'"
      using "1.prems" Some l by (auto simp: drain_with.simps [of _ buffer] split: prod.splits)
    show ?thesis using "1.hyps" [OF Some l [symmetric] refl d] codex_line_text [OF l] by (simp add: js)
  qed
qed

lemma codex_loop_text:
  assumes "codex_loop env items buffer s = (out, aborted, s')" and "\<forall>e. Inl e \<notin> set items"
  shows "\<not> aborted \<and> (\<exists>js. out = map Sse js \<and> cx_full_content s' = cx_full_content s @ concat (map event_delta js))"
  using assms
proof (induction env items buffer s arbitrary: out aborted rule: codex_loop.induct)
  case (3 env b items buffer s)
  obtain js rest s1 where d: "drain_with (codex_line env) (buffer @ b) s = (js, rest, s1)" by (rule prod_cases3)
  obtain out' where l: "codex_loop env items rest s1 = (out', aborted, s')" and o: "out = map Sse js @ out'"
    using "3.prems"(1) d by (auto split: prod.splits)
  have "\<forall>e. Inl e \<notin> set items" using "3.prems"(2) by auto
  then obtain js' where "\<not> aborted" "out' = map Sse js'" "cx_full_content s' = cx_full_content s1 @ concat (map event_delta js')"
    using "3.IH" [OF d [symmetric] refl refl l] by blast
  then show ?case using codex_drain_text [OF d] o by (intro conjI exI [of _ "js @ js'"]) simp_all
qed auto

text \<open>Events of commands are items, never deltas.\<close>

definition is_delta :: "json \<Rightarrow> bool" where
  "is_delta j \<longleftrightarrow> jget ''type'' j = Some (JStr ''response.output_text.delta'')"

lemma commands_no_delta: "e \<in> set (detect_and_emit_ssop_events env full_content) \<Longrightarrow> \<not> is_delta e"
  by (auto simp: detect_and_emit_ssop_events_def generate_shell_events_def item_event_def is_delta_def jget_def Let_def
      split: option.splits)

section \<open>Properties\<close>

text \<open>
  Claim C14: a stream of the responses protocol whose upstream does not fail begins with the creation of the
  response and ends with its completion, and it has a message with exactly the text of all deltas: every delta comes
  before it, and behind it are only the items of a command found in the text.
\<close>

theorem codex_text_complete:
  assumes "create_codex_sse_stream env items slot = (out, s)" and "\<forall>e. Inl e \<notin> set items"
  shows "\<exists>js cmds. out = map Sse (created_event env # js
      @ message_done_event (concat (map event_delta js)) # cmds @ [completed_event env s])
    \<and> (\<forall>e \<in> set cmds. \<not> is_delta e \<and> e \<in> set (detect_and_emit_ssop_events env (concat (map event_delta js))))"
proof -
  obtain out' aborted where l: "codex_loop env items [] (new_codex_state slot) = (out', aborted, s)"
    using assms(1) by (auto simp: create_codex_sse_stream_def split: prod.splits)
  obtain js where "\<not> aborted" "out' = map Sse js" "cx_full_content s = concat (map event_delta js)"
    using codex_loop_text [OF l assms(2)] by (auto simp: new_codex_state_def)
  then show ?thesis using assms(1) l
    by (intro exI [of _ js] exI [of _ "if cx_last_key s = None then detect_and_emit_ssop_events env (cx_full_content s) else []"])
       (auto simp: create_codex_sse_stream_def dest: commands_no_delta)
qed

lemma codex_text_complete_witness:
  "\<exists>out s js cmds. create_codex_sse_stream demo_openai_stream [Inr (''data: 1'' @ newline)] None = (out, s)
     \<and> out = map Sse (created_event demo_openai_stream # js
         @ message_done_event (concat (map event_delta js)) # cmds @ [completed_event demo_openai_stream s])"
proof -
  obtain out s where o: "create_codex_sse_stream demo_openai_stream [Inr (''data: 1'' @ newline)] None = (out, s)" by force
  then show ?thesis using codex_text_complete [OF o] by simp blast
qed

text \<open>
  Note: an answer that only mentions a command, as documentation does, makes a call of the shell of it: a JSON
  object in the text whose command is a list that begins with a known program is enough.
\<close>

theorem text_becomes_command:
  assumes "os_from_str env (''{1}'') = Some (JObj [(''command'', JArr [JStr ''ls'', JStr ''-l''])])"
  shows "detect_and_emit_ssop_events env ''Do not run {1} here''
    = generate_shell_events env (JArr [JStr ''ls'', JStr ''-l''])"
  using assms by (simp add: detect_and_emit_ssop_events_def detected_command_def command_in_def jget_def first_of_def as_str_def)

text \<open>
  Note: thoughts of the model are sent as text of the answer by both streams, while the stream of chunks and the
  whole answer keep them apart.
\<close>

theorem thoughts_become_text:
  assumes "first_parts (raw_response v) = [JObj [(''text'', JStr t), (''thought'', JBool True)]]" and "t \<noteq> []"
    and "jget ''usageMetadata'' (raw_response v) = None" and "first_finish (raw_response v) = None"
  shows "fst (codex_value env v s) = [delta_event t] \<and> fst (legacy_value env v s') = [legacy_chunk env t None]
    \<and> part_content (JObj [(''text'', JStr t), (''thought'', JBool True)]) = []"
  using assms
  by (simp add: codex_value_def legacy_value_def codex_part_def part_signature_def text_of_part_def jget_def str_or_def as_str_def
      part_content_def is_thought_part_def as_bool_def Let_def)

end
