(* ===== verification/Gemini_Wrapper.thy ===== *)
theory Gemini_Wrapper
  imports Request_Transform OpenAI_Stream
begin

text \<open>
  The Gemini protocol, which is nearly the one of the upstream service: wrapping of requests and unwrapping of
  answers (\<open>mappers/gemini/wrapper.rs\<close>), the collector of streams (\<open>mappers/gemini/collector.rs\<close>) and the
  stream that is passed on (\<open>handlers/gemini/streaming.rs\<close>; its wait for the first data is left out).
  Assigning to a key of a value that is no object panics. Logging is left out.
\<close>

section \<open>Wrapping\<close>

definition at_key :: "string \<Rightarrow> (json \<Rightarrow> panic + json) \<Rightarrow> json \<Rightarrow> panic + json" where
  "at_key k f v =
     (case v of
        JObj m \<Rightarrow>
          (case tget m k of
             Some x \<Rightarrow> (case f x of Inl p \<Rightarrow> Inl p | Inr y \<Rightarrow> Inr (JObj (tput k y m)))
           | None \<Rightarrow> Inr v)
      | _ \<Rightarrow> Inr v)"

definition sign_part :: "string \<Rightarrow> json \<Rightarrow> json" where
  "sign_part sig part =
     (if jget ''functionCall'' part \<noteq> None \<and> jget ''thoughtSignature'' part = None then with_signature sig part else part)"

definition sign_contents :: "string \<Rightarrow> json \<Rightarrow> json" where
  "sign_contents sig = jmap_key ''contents'' (jmap_array (map (on_parts (map (sign_part sig)))))"

definition adaptive_level :: "thinking_budget_config \<Rightarrow> string" where
  "adaptive_level tb =
     (let effort = to_lowercase (case tb_effort tb of Some e \<Rightarrow> e | None \<Rightarrow> ''high'')
      in if effort = ''low'' then ''LOW'' else if effort = ''medium'' then ''MEDIUM'' else ''HIGH'')"

definition adapt_thinking :: "thinking_budget_config \<Rightarrow> string \<Rightarrow> json \<Rightarrow> panic + json" where
  "adapt_thinking tb final_model_name thinking_config =
     (if contains (to_lowercase final_model_name) ''gemini-3''
      then (case json_set ''thinkingLevel'' (JStr (adaptive_level tb)) thinking_config of
              Inl p \<Rightarrow> Inl p
            | Inr t \<Rightarrow> Inr (case t of JObj m \<Rightarrow> JObj (tdel ''thinkingBudget'' m) | _ \<Rightarrow> t))
      else case Option.bind (jget ''thinkingBudget'' thinking_config) as_i64 of
             Some v \<Rightarrow> if v < 0 then json_set ''thinkingBudget'' (json_nat 16000) thinking_config else Inr thinking_config
           | None \<Rightarrow> Inr thinking_config)"

definition cap_thinking :: "json \<Rightarrow> panic + json" where
  "cap_thinking thinking_config =
     (if jget ''thinkingLevel'' thinking_config \<noteq> None then Inr thinking_config
      else case Option.bind (jget ''thinkingBudget'' thinking_config) as_u64 of
             Some budget \<Rightarrow> if 24576 < budget then json_set ''thinkingBudget'' (json_nat 24576) thinking_config else Inr thinking_config
           | None \<Rightarrow> Inr thinking_config)"

text \<open>The three changes of the generation configuration, one after the other\<close>

definition tune_thinking :: "thinking_budget_config \<Rightarrow> string \<Rightarrow> json \<Rightarrow> panic + json" where
  "tune_thinking tb final_model_name inner =
     (let adaptive = (tb_mode tb = Adaptive);
          in_thinking = (\<lambda>f. at_key ''generationConfig'' (at_key ''thinkingConfig'' f))
      in case (if adaptive then in_thinking (adapt_thinking tb final_model_name) inner else Inr inner) of
           Inl p \<Rightarrow> Inl p
         | Inr inner \<Rightarrow>
             (case (if contains (to_lowercase final_model_name) ''flash'' then in_thinking cap_thinking inner else Inr inner) of
                Inl p \<Rightarrow> Inl p
              | Inr inner \<Rightarrow>
                  if adaptive then at_key ''generationConfig'' (json_set ''maxOutputTokens'' (json_nat 131072)) inner else Inr inner))"

definition keep_declaration :: "json \<Rightarrow> bool" where
  "keep_declaration decl \<longleftrightarrow> string_at ''name'' decl \<noteq> Some ''web_search'' \<and> string_at ''name'' decl \<noteq> Some ''google_search''"

definition clean_declaration :: "contents_env \<Rightarrow> json \<Rightarrow> json option" where
  "clean_declaration env decl =
     (let clean = clean_json_schema (xe_schema env) (xe_stack env)
      in case decl of
           JObj m \<Rightarrow>
             (case tget m ''parametersJsonSchema'' of
                Some params \<Rightarrow> map_option (\<lambda>p. JObj (tput ''parameters'' p (tdel ''parametersJsonSchema'' m))) (clean params)
              | None \<Rightarrow>
                  (case tget m ''parameters'' of
                     Some params \<Rightarrow> map_option (\<lambda>p. JObj (tput ''parameters'' p m)) (clean params)
                   | None \<Rightarrow> Some decl))
         | _ \<Rightarrow> Some decl)"

definition clean_gemini_tool :: "contents_env \<Rightarrow> json \<Rightarrow> json option" where
  "clean_gemini_tool env tool =
     (case (tool, jget ''functionDeclarations'' tool) of
        (JObj m, Some (JArr decls)) \<Rightarrow>
          map_option (\<lambda>ds. JObj (tput ''functionDeclarations'' (JArr ds) m))
            (those (map (clean_declaration env) (filter keep_declaration decls)))
      | _ \<Rightarrow> Some tool)"

definition clean_gemini_tools :: "contents_env \<Rightarrow> json \<Rightarrow> json option" where
  "clean_gemini_tools env inner =
     (case (inner, jget ''tools'' inner) of
        (JObj m, Some (JArr tools)) \<Rightarrow>
          map_option (\<lambda>ts. JObj (tput ''tools'' (JArr ts) m)) (those (map (clean_gemini_tool env) tools))
      | _ \<Rightarrow> Some inner)"

definition has_identity :: "json list \<Rightarrow> bool" where
  "has_identity parts \<longleftrightarrow>
     (case Option.bind (first_of parts) (string_at ''text'') of Some s \<Rightarrow> contains s ''You are Antigravity'' | None \<Rightarrow> False)"

definition with_identity :: "json \<Rightarrow> json" where
  "with_identity system_instruction =
     on_parts (\<lambda>parts. if has_identity parts then parts else text_part antigravity_identity # parts)
       (case system_instruction of JObj m \<Rightarrow> JObj (tentry ''role'' (JStr ''user'') m) | _ \<Rightarrow> system_instruction)"

definition add_identity :: "json \<Rightarrow> panic + json" where
  "add_identity inner =
     (if jget ''systemInstruction'' inner \<noteq> None then Inr (jmap_key ''systemInstruction'' with_identity inner)
      else json_set ''systemInstruction'' (content_message ''user'' [text_part antigravity_identity]) inner)"

definition gemini_models :: "json \<Rightarrow> string \<Rightarrow> string \<times> string" where
  "gemini_models body mapped_model =
     (let original_model = str_or mapped_model (jget ''model'' body)
      in (original_model, if mapped_model \<noteq> [] then mapped_model else original_model))"

definition gemini_signature :: "contents_env \<Rightarrow> string option \<Rightarrow> string" where
  "gemini_signature env session_id =
     (case Option.bind session_id (\<lambda>s. get_session_signature (xe_now env) s (xe_cache env)) of
        Some sig \<Rightarrow> sig | None \<Rightarrow> DUMMY_SIGNATURE)"

definition gemini_base :: "contents_env \<Rightarrow> string option \<Rightarrow> json \<Rightarrow> string option \<Rightarrow> json" where
  "gemini_base env retention_turns body session_id =
     sign_contents (gemini_signature env session_id)
       (jmap_key ''contents'' (strip_old_images retention_turns) (deep_clean_undefined body))"

text \<open>What the configuration asks for, and the identity\<close>

definition finish_inner :: "request_config \<Rightarrow> json \<Rightarrow> panic + json" where
  "finish_inner config inner =
     (let inner = (if rc_inject_google_search config then inject_google_search_tool inner else inner)
      in case rc_image_config config of Some c \<Rightarrow> Inr (with_image_config c inner) | None \<Rightarrow> add_identity inner)"

definition wrap_request ::
  "transform_env \<Rightarrow> json \<Rightarrow> string \<Rightarrow> string \<Rightarrow> string option \<Rightarrow> build_error + json" where
  "wrap_request env body project_id mapped_model session_id =
     (let (original_model, final_model_name) = gemini_models body mapped_model; cenv = te_contents env
      in case tune_thinking (te_budget env) final_model_name (gemini_base cenv (te_retention_turns env) body session_id) of
           Inl p \<Rightarrow> Inl (Panicked p)
         | Inr inner \<Rightarrow>
             let config = resolve_request_config original_model final_model_name
                            (Option.bind (jget ''tools'' inner) as_array) None None
             in (case clean_gemini_tools cenv inner of
                   None \<Rightarrow> Inl StackOverflow
                 | Some inner \<Rightarrow>
                     (case finish_inner config inner of
                        Inl p \<Rightarrow> Inl (Panicked p)
                      | Inr inner \<Rightarrow>
                          Inr (JObj [(''model'', JStr (rc_final_model config)), (''project'', JStr project_id), (''request'', inner),
                                     (''requestId'', JStr (''agent-'' @ te_uuid env)),
                                     (''requestType'', JStr (rc_request_type config)), (''userAgent'', JStr ''antigravity'')]))))"

section \<open>Answers\<close>

definition unwrap_response :: "json \<Rightarrow> json" where
  "unwrap_response response = raw_response response"

definition camel_signature :: "json \<Rightarrow> string option" where
  "camel_signature part = Option.bind (jget ''thoughtSignature'' part) as_str"

definition extract_signature :: "nanos \<Rightarrow> json \<Rightarrow> string \<Rightarrow> signature_cache \<Rightarrow> signature_cache" where
  "extract_signature now resp session_id c =
     fold (cache_session_signature now session_id)
       (List.map_filter camel_signature (concat (map candidate_parts (candidates_of (raw_response resp))))) c"

text \<open>A line of the stream that is passed on\<close>

definition gemini_line ::
  "openai_stream_env \<Rightarrow> nanos \<Rightarrow> string \<Rightarrow> string \<Rightarrow> signature_cache \<Rightarrow> string list \<times> signature_cache" where
  "gemini_line env now session_id line_raw c =
     (if \<not> valid_utf8 line_raw then ([line_raw], c)
      else let line = trim line_raw
           in if line = [] then ([], c)
              else if starts_with line ''data: ''
              then let json_part = trim (drop 6 line)
                   in if json_part = [] then ([], c)
                      else (case os_from_str env json_part of
                              Some parsed \<Rightarrow> ([sse_line env (unwrap_response parsed)], extract_signature now parsed session_id c)
                            | None \<Rightarrow> ([line_raw @ newline], c))
              else ([line_raw @ newline], c))"

fun gemini_loop ::
  "openai_stream_env \<Rightarrow> string \<Rightarrow> (nanos \<times> (string + string)) list \<Rightarrow> string \<Rightarrow> signature_cache
   \<Rightarrow> (string + string) list \<times> signature_cache" where
  "gemini_loop env session_id [] buffer c = ([], c)"
| "gemini_loop env session_id ((now, Inl e) # items) buffer c = ([Inl ''Stream error''], c)"
| "gemini_loop env session_id ((now, Inr b) # items) buffer c =
     (if MAX_BUFFER_SIZE < length (buffer @ b) then ([Inl ''Buffer overflow''], c)
      else let (out, rest, c) = drain_with (gemini_line env now session_id) (buffer @ b) c;
               (out', c) = gemini_loop env session_id items rest c
           in (map Inr out @ out', c))"

definition build_stream_response ::
  "openai_stream_env \<Rightarrow> (nanos \<times> (string + string)) list \<Rightarrow> nanos \<times> string \<Rightarrow> string \<Rightarrow> signature_cache
   \<Rightarrow> (string + string) list \<times> signature_cache" where
  "build_stream_response env response_stream first_chunk session_id c =
     gemini_loop env session_id (map_prod id Inr first_chunk # response_stream) [] c"

section \<open>The collector\<close>

record gemini_collected =
  gc_parts :: "json list"
  gc_usage :: "json option"
  gc_finish :: "string option"
  gc_cache :: signature_cache

text \<open>Texts that follow each other become one part, unless one of them is marked as a thought.\<close>

definition collect_part :: "json list \<Rightarrow> json \<Rightarrow> json list" where
  "collect_part content_parts part =
     (case (string_at ''text'' part, content_parts = []) of
        (Some text_val, False) \<Rightarrow>
          (let lst = last content_parts
           in case string_at ''text'' lst of
                Some last_text \<Rightarrow>
                  if jget ''thought'' part = None \<and> jget ''thought'' lst = None
                  then butlast content_parts @ [JObj [(''text'', JStr (last_text @ text_val))]]
                  else content_parts @ [part]
              | None \<Rightarrow> content_parts @ [part])
      | _ \<Rightarrow> content_parts @ [part])"

definition collect_gemini_value :: "nanos \<Rightarrow> string \<Rightarrow> json \<Rightarrow> gemini_collected \<Rightarrow> gemini_collected" where
  "collect_gemini_value now session_id v g =
     (let actual_data = raw_response v; parts = (case candidates_of actual_data of [] \<Rightarrow> [] | c # _ \<Rightarrow> candidate_parts c)
      in g\<lparr>gc_usage := (case jget ''usageMetadata'' actual_data of Some u \<Rightarrow> Some u | None \<Rightarrow> gc_usage g),
           gc_finish := (case candidates_of actual_data of
                           [] \<Rightarrow> gc_finish g
                         | c # _ \<Rightarrow> (case string_at ''finishReason'' c of Some f \<Rightarrow> Some f | None \<Rightarrow> gc_finish g)),
           gc_cache := fold (cache_session_signature now session_id) (List.map_filter camel_signature parts) (gc_cache g),
           gc_parts := foldl collect_part (gc_parts g) parts\<rparr>)"

definition collect_gemini_line ::
  "openai_stream_env \<Rightarrow> nanos \<Rightarrow> string \<Rightarrow> string \<Rightarrow> gemini_collected \<Rightarrow> gemini_collected" where
  "collect_gemini_line env now session_id l g =
     (let line = trim l
      in if \<not> starts_with line ''data: '' then g
         else let json_part = trim (strip_data line)
              in if json_part = ''[DONE]'' then g
                 else (case os_from_str env json_part of Some v \<Rightarrow> collect_gemini_value now session_id v g | None \<Rightarrow> g))"

text \<open>Each piece of the stream is split into lines on its own; a piece that is not UTF-8 is skipped.\<close>

fun collect_pieces ::
  "openai_stream_env \<Rightarrow> string \<Rightarrow> (nanos \<times> (string + string)) list \<Rightarrow> gemini_collected \<Rightarrow> string + gemini_collected" where
  "collect_pieces env session_id [] g = Inr g"
| "collect_pieces env session_id ((now, Inl e) # items) g = Inl (''Stream error: '' @ e)"
| "collect_pieces env session_id ((now, Inr b) # items) g =
     collect_pieces env session_id items
       (fold (collect_gemini_line env now session_id) (if valid_utf8 b then str_lines b else []) g)"

definition gemini_answer :: "gemini_collected \<Rightarrow> json" where
  "gemini_answer g =
     JObj ([(''candidates'', JArr [JObj [(''content'', JObj [(''parts'', JArr (gc_parts g)), (''role'', JStr ''model'')]),
        (''finishReason'', JStr (case gc_finish g of Some f \<Rightarrow> f | None \<Rightarrow> ''STOP'')), (''index'', json_i64 0)]])]
        @ (case gc_usage g of Some u \<Rightarrow> [(''usageMetadata'', u)] | None \<Rightarrow> []))"

definition collect_gemini_stream_to_json ::
  "openai_stream_env \<Rightarrow> string \<Rightarrow> (nanos \<times> (string + string)) list \<Rightarrow> signature_cache \<Rightarrow> string + json \<times> signature_cache" where
  "collect_gemini_stream_to_json env session_id items cache =
     (case collect_pieces env session_id items \<lparr>gc_parts = [], gc_usage = None, gc_finish = None, gc_cache = cache\<rparr> of
        Inl e \<Rightarrow> Inl e
      | Inr g \<Rightarrow> Inr (gemini_answer g, gc_cache g))"

section \<open>What keeps the contents\<close>

lemma at_key_keeps: "at_key k f v = Inr v' \<Longrightarrow> k \<noteq> j \<Longrightarrow> jget j v' = jget j v"
  by (auto simp: at_key_def jget_def split: json.splits option.splits sum.splits)

lemma tune_keeps: "tune_thinking tb model v = Inr v' \<Longrightarrow> jget ''contents'' v' = jget ''contents'' v"
  by (auto simp: tune_thinking_def Let_def dest!: at_key_keeps [where j = "''contents''"] split: sum.splits if_splits)

lemma tools_keep: "clean_gemini_tools env v = Some v' \<Longrightarrow> jget ''contents'' v' = jget ''contents'' v"
  by (auto simp: clean_gemini_tools_def jget_def split: json.splits option.splits)

lemma search_keeps: "jget ''contents'' (inject_google_search_tool v) = jget ''contents'' v"
  by (auto simp: inject_google_search_tool_def jget_def Let_def split: json.splits option.splits)

lemma images_keep: "jget ''contents'' (with_image_config c v) = jget ''contents'' v"
  by (auto simp: with_image_config_def jget_def Let_def split: json.splits option.splits)

lemma set_keeps: "json_set k x v = Inr v' \<Longrightarrow> k \<noteq> j \<Longrightarrow> jget j v' = jget j v"
  by (auto simp: json_set_def jget_def split: json.splits)

lemma identity_keeps: "add_identity v = Inr v' \<Longrightarrow> jget ''contents'' v' = jget ''contents'' v"
  by (auto simp: add_identity_def jget_jmap_key dest: set_keeps [where j = "''contents''"] split: if_splits)

lemma finish_keeps: "finish_inner config v = Inr v' \<Longrightarrow> jget ''contents'' v' = jget ''contents'' v"
  by (auto simp: finish_inner_def Let_def images_keep search_keeps dest!: identity_keeps split: option.splits if_splits)

lemma wrapped_contents:
  assumes "wrap_request env body project_id mapped_model session_id = Inr w"
  shows "Option.bind (jget ''request'' w) (jget ''contents'')
    = jget ''contents'' (gemini_base (te_contents env) (te_retention_turns env) body session_id)"
  using assms
  by (auto simp: wrap_request_def Let_def jget_obj split: prod.splits sum.splits option.splits
      dest!: tune_keeps tools_keep finish_keeps)

text \<open>A part that holds a call and no signature\<close>

definition unsigned_call :: "json \<Rightarrow> bool" where
  "unsigned_call part \<longleftrightarrow> jget ''functionCall'' part \<noteq> None \<and> jget ''thoughtSignature'' part = None"

definition array_of :: "json option \<Rightarrow> json list" where
  "array_of v = (case Option.bind v as_array of Some a \<Rightarrow> a | None \<Rightarrow> [])"

lemma array_of_simps [simp]:
  "array_of None = []" "array_of (Some (JArr a)) = a" "array_of (map_option (jmap_array f) v) = (if \<exists>a. v = Some (JArr a) then f (array_of v) else [])"
  by (simp_all add: array_of_def as_array_def) (cases v; auto simp: jmap_array_def as_array_def split: json.splits)

text \<open>The parts of all contents, in order\<close>

definition parts_below :: "json option \<Rightarrow> json list" where
  "parts_below v = concat (map (\<lambda>c. array_of (jget ''parts'' c)) (array_of v))"

text \<open>What becomes of a part: a call without the key gets this signature and keeps all else, any other part stays\<close>

definition signed_from :: "string \<Rightarrow> json \<Rightarrow> json \<Rightarrow> bool" where
  "signed_from sig p q \<longleftrightarrow>
     (if unsigned_call p
      then jget ''thoughtSignature'' q = Some (JStr sig) \<and> (\<forall>k. k \<noteq> ''thoughtSignature'' \<longrightarrow> jget k q = jget k p)
      else q = p)"

lemma sign_part_signed: "signed_from sig p (sign_part sig p)"
  by (auto simp: signed_from_def sign_part_def unsigned_call_def with_signature_def jget_def split: json.splits)

lemma parts_on_contents: "array_of (jget ''parts'' (on_parts (map f) c)) = map f (array_of (jget ''parts'' c))"
  by (cases "jget ''parts'' c") (auto simp: on_parts_def jget_jmap_key array_of_def jmap_array_def as_array_def split: json.split)

lemma parts_signed:
  "parts_below (jget ''contents'' (sign_contents sig v)) = map (sign_part sig) (parts_below (jget ''contents'' v))"
  by (cases "jget ''contents'' v")
     (auto simp: parts_below_def sign_contents_def jget_jmap_key array_of_def jmap_array_def as_array_def map_concat comp_def
        parts_on_contents [unfolded array_of_def] split: json.split)

section \<open>When wrapping succeeds\<close>

lemma json_set_obj: "json_set k x (JObj m) = Inr (JObj (tput k x m))"
  by (simp add: json_set_def)

lemma base_object: "\<exists>m'. gemini_base env rt (JObj m) session_id = JObj m'"
  by (auto simp: gemini_base_def sign_contents_def jmap_key_def split: option.splits)

lemma base_keeps: "k \<noteq> ''contents'' \<Longrightarrow> jget k (gemini_base env rt body session_id) = jget k (deep_clean_undefined body)"
  by (simp add: gemini_base_def sign_contents_def jget_jmap_key)

lemma tune_without_config:
  assumes "jget ''generationConfig'' v = None" shows "tune_thinking tb model v = Inr v"
proof -
  have "at_key ''generationConfig'' f v = Inr v" for f using assms by (auto simp: at_key_def jget_def split: json.splits)
  then show ?thesis by (simp add: tune_thinking_def Let_def)
qed

lemma search_object: "\<exists>m'. inject_google_search_tool (JObj m) = JObj m'"
  unfolding inject_google_search_tool_def Let_def json.case
  by (cases "tget (tentry ''tools'' (JArr []) m) ''tools''"; simp split: json.splits)

lemma finish_total: "\<exists>v. finish_inner config (JObj m) = Inr v"
proof -
  obtain m' where "inject_google_search_tool (JObj m) = JObj m'"
    using search_object by blast
  then show ?thesis
    by (cases "rc_inject_google_search config"; cases "rc_image_config config") (auto simp: finish_inner_def add_identity_def json_set_obj Let_def)
qed

lemma plain_body_wraps:
  assumes "deep_clean_undefined (JObj m) = JObj m'" and "tget m' ''generationConfig'' = None" and "tget m' ''tools'' = None"
  shows "\<exists>w. wrap_request env (JObj m) project_id mapped_model session_id = Inr w"
proof -
  obtain b where b: "gemini_base (te_contents env) (te_retention_turns env) (JObj m) session_id = JObj b"
    using base_object by blast
  have "jget ''generationConfig'' (JObj b) = None" "jget ''tools'' (JObj b) = None"
    using assms base_keeps [of _ "te_contents env" "te_retention_turns env" "JObj m" session_id] unfolding b by (simp_all add: jget_obj)
  then have t: "tune_thinking (te_budget env) model (JObj b) = Inr (JObj b)" "clean_gemini_tools (te_contents env) (JObj b) = Some (JObj b)" for model
    by (simp_all add: tune_without_config clean_gemini_tools_def)
  show ?thesis unfolding wrap_request_def Let_def b
    by (auto simp: t split: prod.splits sum.splits) (metis finish_total sum.distinct(1))
qed

definition gemini_demo :: json where
  "gemini_demo = JObj [(''contents'', JArr [JObj [(''role'', JStr ''model''),
     (''parts'', JArr [JObj [(''functionCall'', JObj [(''name'', JStr ''run'')])]])]])]"

section \<open>Properties\<close>

text \<open>
  Claim C15: in a wrapped request every call that the client sent without a signature has one: among the parts of the
  contents (once placeholders are cleaned and old images stripped) a call without the key gets the signature of
  its session if the cache has one, and the dummy if not, and keeps all else; a call that has the key keeps what is
  there, even if that is null, and every other part stays as it is. Signing loses or moves no part. Calls that are not
  in the list of parts of a content in the list of contents are not looked at.
\<close>

theorem wrapped_calls_signed:
  assumes "wrap_request env body project_id mapped_model session_id = Inr w"
  shows "list_all2
    (signed_from (case session_id of
        Some sid \<Rightarrow> (case get_session_signature (xe_now (te_contents env)) sid (xe_cache (te_contents env)) of
                       Some sig \<Rightarrow> sig | None \<Rightarrow> DUMMY_SIGNATURE)
      | None \<Rightarrow> DUMMY_SIGNATURE))
    (parts_below (map_option (strip_old_images (te_retention_turns env)) (jget ''contents'' (deep_clean_undefined body))))
    (parts_below (Option.bind (jget ''request'' w) (jget ''contents'')))"
  unfolding wrapped_contents [OF assms] gemini_base_def parts_signed
  by (auto simp: jget_jmap_key list_all2_map2 gemini_signature_def sign_part_signed split: option.split
      intro!: list.rel_refl)

lemma wrapped_calls_signed_witness:
  "\<exists>w p. wrap_request demo_env gemini_demo ''p'' ''gemini-2.5-pro'' (Some ''s'') = Inr w
     \<and> parts_below (Option.bind (jget ''request'' w) (jget ''contents'')) = [p]
     \<and> jget ''thoughtSignature'' p = Some (JStr DUMMY_SIGNATURE)"
proof -
  obtain w where w: "wrap_request demo_env gemini_demo ''p'' ''gemini-2.5-pro'' (Some ''s'') = Inr w"
    using plain_body_wraps unfolding gemini_demo_def by fastforce
  have given: "parts_below (map_option (strip_old_images (te_retention_turns demo_env)) (jget ''contents'' (deep_clean_undefined gemini_demo)))
    = [JObj [(''functionCall'', JObj [(''name'', JStr ''run'')])]]"
    by (simp add: gemini_demo_def parts_below_def array_of_def jget_def as_array_def strip_old_images_def Let_def
        get_retention_turns_def demo_env_def user_indices_def is_user_content_def as_str_def)
  have "get_session_signature (xe_now (te_contents demo_env)) ''s'' (xe_cache (te_contents demo_env)) = None"
    by (simp add: demo_env_def get_session_signature_def new_cache_def unexpired_def)
  then show ?thesis using wrapped_calls_signed [OF w, unfolded given] w
    by (auto simp: list_all2_Cons1 signed_from_def unsigned_call_def jget_def)
qed

text \<open>
  Note: with the default settings a generation configuration that is a string, a number, a truth value or an array
  makes the wrapping panic, and so does a body that is none of these: null.
\<close>

theorem bad_generation_config_panics:
  assumes "tb_mode (te_budget env) = Adaptive" and "jget ''generationConfig'' (deep_clean_undefined body) = Some g"
    and "\<forall>m. g \<noteq> JObj m" and "g \<noteq> JNull"
  shows "wrap_request env body project_id mapped_model session_id = Inl (Panicked NotAnObject)"
proof -
  let ?b = "gemini_base (te_contents env) (te_retention_turns env) body session_id"
  have g: "jget ''generationConfig'' ?b = Some g" using assms(2) by (simp add: base_keeps)
  then obtain m where b: "?b = JObj m" "tget m ''generationConfig'' = Some g" by (auto simp: jget_def split: json.splits)
  have k: "at_key ''thinkingConfig'' f g = Inr g" for f using assms(3) by (auto simp: at_key_def split: json.splits)
  have "json_set ''maxOutputTokens'' x g = Inl NotAnObject" for x using assms(3,4) by (auto simp: json_set_def split: json.splits)
  then have "tune_thinking (te_budget env) model ?b = Inl NotAnObject" for model
    by (simp add: tune_thinking_def Let_def b at_key_def [where k = "''generationConfig''"] k assms(1))
  then show ?thesis by (simp add: wrap_request_def Let_def split: prod.splits)
qed

text \<open>
  Note: the collector splits every piece of the stream into lines on its own, so data that is cut in the middle
  of a line is lost, and the answer is empty. (No handler calls the collector.)
\<close>

theorem cut_lines_are_lost:
  assumes "\<not> starts_with (trim rest) ''data: ''" and "valid_utf8 rest" and "str_lines rest = [rest]"
    and "valid_utf8 start" and "str_lines start = [start]" and "os_from_str env (trim (strip_data (trim start))) = None"
  shows "collect_gemini_stream_to_json env session_id [(now, Inr start), (now, Inr rest)] cache
    = Inr (gemini_answer \<lparr>gc_parts = [], gc_usage = None, gc_finish = None, gc_cache = cache\<rparr>, cache)"
  using assms by (simp add: collect_gemini_stream_to_json_def collect_gemini_line_def Let_def)

end
