(* ===== verification/Device_Identity.thy ===== *)
theory Device_Identity
  imports Rust_Strings
begin

unbundle bit_operations_syntax

text \<open>
  What makes the requests of an account look like those of one device: identifiers derived from its address
  (\<open>upstream/device_fingerprint.rs\<close>), user agents (\<open>upstream/user_agent.rs\<close>) and profiles of browsers
  (\<open>upstream/emulation.rs\<close>). The current version of the client is a parameter; the global cache of fingerprints
  is a state. The three files have the same hash function.
\<close>

section \<open>Derived bytes\<close>

definition FNV_OFFSET_BASIS :: u64 where "FNV_OFFSET_BASIS = 0xcbf29ce484222325"
definition FNV_PRIME :: u64 where "FNV_PRIME = 0x00000100000001b3"

definition fnv1a_hash :: "string \<Rightarrow> u64" where
  "fnv1a_hash data = fold (\<lambda>b h. (h XOR of_nat (of_char b)) * FNV_PRIME) data FNV_OFFSET_BASIS"

definition FINGERPRINT_SALT :: string where "FINGERPRINT_SALT = ''antigravity-manager-fp-v1-2026''"

fun generate_bytes :: "nat \<Rightarrow> u64 \<Rightarrow> u8 list" where
  "generate_bytes 0 state = []"
| "generate_bytes (Suc n) state =
     (let state = state * 6364136223846793005 + 1442695040888963407 in ucast (drop_bit 33 state) # generate_bytes n state)"

definition deterministic_bytes :: "string \<Rightarrow> string \<Rightarrow> nat \<Rightarrow> u8 list" where
  "deterministic_bytes seed domain n = generate_bytes n (fnv1a_hash (FINGERPRINT_SALT @ '':'' @ domain @ '':'' @ seed))"

definition hex_digit :: "nat \<Rightarrow> char" where
  "hex_digit n = (if n < 10 then byte (48 + n) else byte (87 + n))"

text \<open>\<open>{:02x}\<close>\<close>

definition hex2 :: "u8 \<Rightarrow> string" where
  "hex2 b = [hex_digit (unat b div 16), hex_digit (unat b mod 16)]"

definition deterministic_hex :: "string \<Rightarrow> string \<Rightarrow> nat \<Rightarrow> string" where
  "deterministic_hex seed domain hex_len =
     take hex_len (concat (map hex2 (deterministic_bytes seed domain ((hex_len + 1) div 2))))"

definition deterministic_uuid :: "string \<Rightarrow> string \<Rightarrow> string" where
  "deterministic_uuid seed domain =
     (let b = deterministic_bytes seed domain 16
      in concat (map hex2 (take 4 b)) @ ''-'' @ concat (map hex2 (take 2 (drop 4 b)))
         @ ''-4'' @ [hex_digit (unat (b ! 6 AND 0x0f))] @ hex2 (b ! 7)
         @ ''-'' @ [hex_digit (unat ((b ! 8 AND 0x03) OR 0x08))] @ hex2 (b ! 9)
         @ ''-'' @ concat (map hex2 (drop 10 b)))"

section \<open>Fingerprints\<close>

record device_fingerprint =
  machine_id :: string
  mac_machine_id :: string
  dev_device_id :: string
  sqm_id :: string
  fp_session_id :: string
  ide_type :: string
  platform :: string
  plugin_type :: string

definition IDE_TYPES :: "string list" where
  "IDE_TYPES = [''VSCODE'', ''JETBRAINS'', ''NEOVIM'', ''IDE_UNSPECIFIED'', ''VISUAL_STUDIO'']"

definition PLATFORMS :: "string list" where
  "PLATFORMS = [''WINDOWS'', ''MAC'', ''LINUX'', ''PLATFORM_UNSPECIFIED'']"

definition ascii_upper :: "char \<Rightarrow> char" where
  "ascii_upper c = (if 97 \<le> (of_char c :: nat) \<and> (of_char c :: nat) \<le> 122 then byte (of_char c - 32) else c)"

text \<open>An entry of a table that is chosen by a hash\<close>

definition pick :: "'a list \<Rightarrow> string \<Rightarrow> 'a" where
  "pick table s = table ! (unat (fnv1a_hash s) mod length table)"

definition for_account :: "string \<Rightarrow> device_fingerprint" where
  "for_account mail =
     \<lparr>machine_id = deterministic_hex mail ''machine_id'' 64,
      mac_machine_id = deterministic_uuid mail ''mac_machine_id'',
      dev_device_id = deterministic_uuid mail ''dev_device_id'',
      sqm_id = ''{'' @ map ascii_upper (deterministic_uuid mail ''sqm_id'') @ ''}'',
      fp_session_id = deterministic_uuid mail ''session_id'',
      ide_type = pick IDE_TYPES (mail @ '':ide_type''),
      platform = pick PLATFORMS (mail @ '':platform''),
      plugin_type = ''GEMINI''\<rparr>"

definition client_metadata_value :: "device_fingerprint \<Rightarrow> json" where
  "client_metadata_value fp =
     JObj [(''ideType'', JStr (ide_type fp)), (''platform'', JStr (platform fp)), (''pluginType'', JStr (plugin_type fp))]"

definition client_metadata_json :: "device_fingerprint \<Rightarrow> string" where
  "client_metadata_json fp =
     (let q = [CHR 0x22] in ''{'' @ q @ ''ideType'' @ q @ '':'' @ q @ ide_type fp @ q @ '','' @ q @ ''platform'' @ q @ '':''
        @ q @ platform fp @ q @ '','' @ q @ ''pluginType'' @ q @ '':'' @ q @ plugin_type fp @ q @ ''}'')"

definition body_user_agent :: "device_fingerprint \<Rightarrow> string" where
  "body_user_agent fp =
     (if ide_type fp = ''JETBRAINS'' then ''jetbrains_cloudshelleditor/0.1''
      else if ide_type fp = ''NEOVIM'' then ''neovim_cloudshelleditor/0.1''
      else if ide_type fp = ''VISUAL_STUDIO'' then ''visualstudio_cloudshelleditor/0.1''
      else ''vscode_cloudshelleditor/0.1'')"

definition request_id_prefix :: "device_fingerprint \<Rightarrow> string" where
  "request_id_prefix fp =
     (if ide_type fp = ''VSCODE'' then ''vscode'' else if ide_type fp = ''JETBRAINS'' then ''jetbrains''
      else if ide_type fp = ''NEOVIM'' then ''neovim'' else if ide_type fp = ''VISUAL_STUDIO'' then ''vs'' else ''ide'')"

definition api_client_header :: "device_fingerprint \<Rightarrow> string" where
  "api_client_header fp = ''google-cloud-sdk vscode_cloudshelleditor/0.1 gcloud-node/'' @ take 8 (fp_session_id fp)"

definition to_extra_headers :: "device_fingerprint \<Rightarrow> (string, string) table" where
  "to_extra_headers fp = [(''x-goog-api-client'', api_client_header fp)]"

type_synonym fingerprint_cache = "(string, device_fingerprint) table"

definition get_fingerprint :: "string \<Rightarrow> fingerprint_cache \<Rightarrow> device_fingerprint \<times> fingerprint_cache" where
  "get_fingerprint mail cache =
     (case tget cache mail of
        Some fp \<Rightarrow> (fp, cache)
      | None \<Rightarrow> let fp = for_account mail in (fp, tput mail fp cache))"

fun without_prefix :: "string list \<Rightarrow> string \<Rightarrow> string option" where
  "without_prefix [] s = None"
| "without_prefix (p # ps) s = (if starts_with s p then Some (drop (length p) s) else without_prefix ps s)"

definition renamed_request_id :: "device_fingerprint \<Rightarrow> string \<Rightarrow> string" where
  "renamed_request_id fp request_id =
     (case without_prefix [''agent-'', ''openai-'', ''audio-''] request_id of
        Some suffix \<Rightarrow> request_id_prefix fp @ ''-'' @ suffix
      | None \<Rightarrow> request_id)"

definition inject_body_fingerprint :: "json \<Rightarrow> string \<Rightarrow> fingerprint_cache \<Rightarrow> json \<times> fingerprint_cache" where
  "inject_body_fingerprint body mail cache =
     (let (fp, cache) = get_fingerprint mail cache
      in ((case body of
             JObj obj \<Rightarrow>
               let obj = tput ''userAgent'' (JStr (body_user_agent fp)) obj
               in JObj (case Option.bind (tget obj ''requestId'') as_str of
                          Some request_id \<Rightarrow> tput ''requestId'' (JStr (renamed_request_id fp request_id)) obj
                        | None \<Rightarrow> obj)
           | _ \<Rightarrow> body), cache))"

section \<open>User agents and profiles\<close>

definition LATEST_PLATFORMS :: "string list" where
  "LATEST_PLATFORMS = [''darwin/arm64'', ''darwin/amd64'', ''linux/amd64'', ''linux/arm64'', ''windows/amd64'', ''windows/arm64'']"

definition PREVIOUS_PLATFORMS :: "string list" where
  "PREVIOUS_PLATFORMS = [''darwin/arm64'', ''darwin/amd64'', ''linux/amd64'', ''windows/amd64'']"

definition OLDER_PLATFORMS :: "string list" where
  "OLDER_PLATFORMS = [''darwin/arm64'', ''linux/amd64'', ''windows/amd64'']"

text \<open>The parts of \<open>splitn(3, '.')\<close>, if there are three\<close>

definition version_parts :: "string \<Rightarrow> (string \<times> string \<times> string) option" where
  "version_parts v =
     (let dot = (\<lambda>c. c \<noteq> CHR ''.''); rest = dropWhile dot v
      in case rest of
           [] \<Rightarrow> None
         | _ # tl1 \<Rightarrow>
             (case dropWhile dot tl1 of
                [] \<Rightarrow> None
              | _ # patch \<Rightarrow> Some (takeWhile dot v, takeWhile dot tl1, patch)))"

definition derive_previous_version :: "string \<Rightarrow> u32 \<Rightarrow> string" where
  "derive_previous_version version decrement =
     (case version_parts version of
        None \<Rightarrow> version
      | Some (major, minor, patch) \<Rightarrow>
          let n = (case parse_uint (2 ^ 32) minor of Some n \<Rightarrow> n | None \<Rightarrow> 0)
          in major @ ''.'' @ show_nat (n - unat decrement) @ ''.'' @ patch)"

definition user_agent_pool :: "string \<Rightarrow> string list" where
  "user_agent_pool latest =
     (let agents = (\<lambda>v ps. map (\<lambda>p. ''antigravity/'' @ v @ '' '' @ p) ps)
      in agents latest LATEST_PLATFORMS @ agents (derive_previous_version latest 2) PREVIOUS_PLATFORMS
         @ agents (derive_previous_version latest 4) OLDER_PLATFORMS
         @ [''google-api-nodejs-client/9.15.1'', ''google-api-nodejs-client/9.14.0''])"

definition default_user_agent :: "string \<Rightarrow> string" where
  "default_user_agent latest =
     (case user_agent_pool latest of a # _ \<Rightarrow> a | [] \<Rightarrow> ''antigravity/1.104.0 darwin/arm64'')"

definition get_user_agent_for_account :: "string \<Rightarrow> string \<Rightarrow> string" where
  "get_user_agent_for_account latest mail = pick (user_agent_pool latest) mail"

datatype emulation = Chrome131 | Chrome132 | Chrome133 | Chrome134 | Chrome135 | Chrome136 | Chrome137 | Safari18

definition EMULATION_POOL :: "emulation list" where
  "EMULATION_POOL = [Chrome131, Chrome132, Chrome133, Chrome134, Chrome135, Chrome136, Chrome137, Safari18]"

definition default_emulation :: emulation where "default_emulation = Chrome137"

definition get_emulation_for_account :: "string \<Rightarrow> emulation" where
  "get_emulation_for_account mail = pick EMULATION_POOL mail"

section \<open>Lemmas\<close>

lemma length_generate [simp]: "length (generate_bytes n s) = n"
  by (induction n arbitrary: s) (simp_all add: Let_def)

lemma length_bytes [simp]: "length (deterministic_bytes seed domain n) = n"
  by (simp add: deterministic_bytes_def)

definition is_hex :: "char \<Rightarrow> bool" where
  "is_hex c \<longleftrightarrow> c \<in> set ''0123456789abcdef''"

lemma hex_digit_ok:
  assumes "n < 16" shows "is_hex (hex_digit n)"
proof -
  have "list_all (\<lambda>n. is_hex (hex_digit n)) [0..<16]" by code_simp
  then show ?thesis using assms by (simp add: list_all_iff)
qed

lemma hex2_ok: "list_all is_hex (hex2 b) \<and> length (hex2 b) = 2"
proof -
  have "unat b < 256" using unsigned_less [of b] by simp
  then have "unat b div 16 < 16" by simp
  then show ?thesis by (simp add: hex2_def hex_digit_ok)
qed

lemma hexes_ok: "list_all is_hex (concat (map hex2 bs)) \<and> length (concat (map hex2 bs)) = 2 * length bs"
  using hex2_ok by (induction bs) auto

text \<open>A UUID: five groups of hexadecimal digits, with the version in its place\<close>

definition is_uuid :: "string \<Rightarrow> bool" where
  "is_uuid u \<longleftrightarrow> (\<exists>a b c d e.
     u = a @ ''-'' @ b @ ''-4'' @ c @ ''-'' @ d @ ''-'' @ e
     \<and> map length [a, b, c, d, e] = [8, 4, 3, 4, 12] \<and> list_all is_hex (a @ b @ c @ d @ e))"

lemma uuid_length: "is_uuid u \<Longrightarrow> length u = 36"
  by (auto simp: is_uuid_def)

lemma derived_length: "length (deterministic_uuid seed domain) = 35"
proof -
  define b where "b = deterministic_bytes seed domain 16"
  have "length b = 16" by (simp add: b_def)
  then show ?thesis
    using hexes_ok [of "take 4 b"] hexes_ok [of "take 2 (drop 4 b)"] hexes_ok [of "drop 10 b"]
    by (simp add: deterministic_uuid_def Let_def b_def [symmetric] hex2_ok del: length_concat)
qed

definition cache_exact :: "fingerprint_cache \<Rightarrow> bool" where
  "cache_exact cache \<longleftrightarrow> (\<forall>mail fp. tget cache mail = Some fp \<longrightarrow> fp = for_account mail)"

lemma fingerprint_exact:
  "cache_exact cache \<Longrightarrow> fst (get_fingerprint mail cache) = for_account mail \<and> cache_exact (snd (get_fingerprint mail cache))"
  by (auto simp: get_fingerprint_def cache_exact_def Let_def split: option.split)

text \<open>The prefixes of the ids that the mappers make, and the body of an object that is sent\<close>

definition internal_prefixes :: "string set" where
  "internal_prefixes = {''agent-'', ''openai-'', ''audio-''}"

definition injected :: "device_fingerprint \<Rightarrow> (string, json) table \<Rightarrow> (string, json) table" where
  "injected fp obj =
     (let obj = tput ''userAgent'' (JStr (body_user_agent fp)) obj
      in case Option.bind (tget obj ''requestId'') as_str of
           Some request_id \<Rightarrow> tput ''requestId'' (JStr (renamed_request_id fp request_id)) obj
         | None \<Rightarrow> obj)"

lemma renamed_internal:
  "p \<in> internal_prefixes \<Longrightarrow> renamed_request_id fp (p @ rest) = request_id_prefix fp @ ''-'' @ rest"
  by (auto simp: internal_prefixes_def renamed_request_id_def)

lemma renamed_other:
  assumes "\<not> (\<exists>p \<in> internal_prefixes. \<exists>rest. s = p @ rest)" shows "renamed_request_id fp s = s"
proof -
  have "\<not> starts_with s p" if "p \<in> internal_prefixes" for p
    using assms that by (auto simp: starts_with_iff)
  then show ?thesis by (simp add: internal_prefixes_def renamed_request_id_def)
qed

lemma injected_gets: "tget (injected fp obj) ''userAgent'' = Some (JStr (body_user_agent fp))"
  by (simp add: injected_def Let_def split: option.split)

lemma injected_renames:
  "\<lbrakk>p \<in> internal_prefixes; tget obj ''requestId'' = Some (JStr (p @ rest))\<rbrakk>
   \<Longrightarrow> tget (injected fp obj) ''requestId'' = Some (JStr (request_id_prefix fp @ ''-'' @ rest))"
  by (simp add: injected_def Let_def as_str_def renamed_internal)

lemma injected_frame:
  assumes "k \<noteq> ''userAgent''"
    and "k \<noteq> ''requestId'' \<or> \<not> (\<exists>p \<in> internal_prefixes. \<exists>rest. tget obj k = Some (JStr (p @ rest)))"
  shows "tget (injected fp obj) k = tget obj k"
proof (cases "k = ''requestId''")
  case True
  then have "renamed_request_id fp s = s" if "tget obj ''requestId'' = Some (JStr s)" for s
    using assms(2) that by (intro renamed_other) auto
  then show ?thesis using True
    by (auto simp: injected_def Let_def as_str_def split: option.split json.split bind_splits)
qed (use assms(1) in \<open>simp add: injected_def Let_def split: option.split\<close>)

lemma cache_after: "cache_exact (fold (\<lambda>(b, m) c. snd (inject_body_fingerprint b m c)) earlier [])"
proof -
  have "cache_exact c \<Longrightarrow> cache_exact (fold (\<lambda>(b, m) c. snd (inject_body_fingerprint b m c)) earlier c)" for c
  proof (induction earlier arbitrary: c)
    case (Cons e earlier)
    have "snd (inject_body_fingerprint b m c) = snd (get_fingerprint m c)" for b m
      by (simp add: inject_body_fingerprint_def split: prod.split)
    then have "cache_exact ((\<lambda>(b, m) c. snd (inject_body_fingerprint b m c)) e c)"
      using fingerprint_exact [OF Cons(2)] by (cases e) simp
    from Cons(1) [OF this] show ?case by (simp only: fold_Cons o_apply)
  qed simp
  from this [of "[]"] show ?thesis by (simp add: cache_exact_def)
qed

section \<open>Properties\<close>

text \<open>
  Note: the identifiers that are meant to be UUIDs are none: their fourth group has three digits instead of four.
  (The headers made of them are not used by any request today.)
\<close>

theorem derived_uuids_malformed: "\<not> is_uuid (deterministic_uuid seed domain)"
proof
  assume "is_uuid (deterministic_uuid seed domain)"
  from uuid_length [OF this] show False by (simp add: derived_length)
qed

text \<open>
  Claim C33: an account has one identity. Whatever requests of whatever accounts came before, a body gets the user
  agent that belongs to the account's address; an id of a request that starts with one of the internal prefixes
  gets the account's prefix instead and keeps the rest; everything else in the body stays as it was. In
  particular no \<open>clientMetadata\<close> is added, although the comment before the function announces it. A body that
  is no object is not changed.
\<close>

theorem identity_stable:
  fixes earlier :: "(json \<times> string) list"
  defines "cache \<equiv> fold (\<lambda>(b, m) c. snd (inject_body_fingerprint b m c)) earlier []"
  shows "case body of
      JObj obj \<Rightarrow> (\<exists>sent. fst (inject_body_fingerprint body mail cache) = JObj sent
        \<and> tget sent ''userAgent'' = Some (JStr (body_user_agent (for_account mail)))
        \<and> (\<forall>p \<in> internal_prefixes. \<forall>rest. tget obj ''requestId'' = Some (JStr (p @ rest))
              \<longrightarrow> tget sent ''requestId'' = Some (JStr (request_id_prefix (for_account mail) @ ''-'' @ rest)))
        \<and> (\<forall>k. k \<noteq> ''userAgent''
              \<longrightarrow> k \<noteq> ''requestId'' \<or> \<not> (\<exists>p \<in> internal_prefixes. \<exists>rest. tget obj k = Some (JStr (p @ rest)))
              \<longrightarrow> tget sent k = tget obj k))
    | _ \<Rightarrow> fst (inject_body_fingerprint body mail cache) = body"
proof (cases body)
  case (JObj obj)
  have "fst (get_fingerprint mail cache) = for_account mail"
    using cache_after [of earlier] fingerprint_exact unfolding cache_def by blast
  then obtain c where "get_fingerprint mail cache = (for_account mail, c)" by (metis prod.collapse)
  then have "fst (inject_body_fingerprint body mail cache) = JObj (injected (for_account mail) obj)"
    by (simp add: inject_body_fingerprint_def injected_def JObj Let_def)
  then show ?thesis using injected_gets injected_renames injected_frame by (simp add: JObj)
qed (simp_all add: inject_body_fingerprint_def split: prod.split)

theorem identity_stable_witness:
  "\<exists>sent. fst (inject_body_fingerprint (JObj [(''requestId'', JStr ''agent-7''), (''model'', JStr ''m'')]) ''a@x''
        (fold (\<lambda>(b, m) c. snd (inject_body_fingerprint b m c)) [(JNull, ''b@x'')] [])) = JObj sent
    \<and> tget sent ''requestId'' = Some (JStr (request_id_prefix (for_account ''a@x'') @ ''-7''))
    \<and> tget sent ''model'' = Some (JStr ''m'')"
proof -
  let ?obj = "[(''requestId'', JStr ''agent-7''), (''model'', JStr ''m'')]"
  from identity_stable [where body = "JObj ?obj" and mail = "''a@x''" and earlier = "[(JNull, ''b@x'')]"]
  obtain sent where s: "fst (inject_body_fingerprint (JObj ?obj) ''a@x''
        (fold (\<lambda>(b, m) c. snd (inject_body_fingerprint b m c)) [(JNull, ''b@x'')] [])) = JObj sent"
    and r: "\<forall>p \<in> internal_prefixes. \<forall>rest. tget ?obj ''requestId'' = Some (JStr (p @ rest))
              \<longrightarrow> tget sent ''requestId'' = Some (JStr (request_id_prefix (for_account ''a@x'') @ ''-'' @ rest))"
    and k: "\<forall>k. k \<noteq> ''userAgent''
              \<longrightarrow> k \<noteq> ''requestId'' \<or> \<not> (\<exists>p \<in> internal_prefixes. \<exists>rest. tget ?obj k = Some (JStr (p @ rest)))
              \<longrightarrow> tget sent k = tget ?obj k"
    unfolding json.case by blast
  have "tget sent ''requestId'' = Some (JStr (request_id_prefix (for_account ''a@x'') @ ''-'' @ ''7''))"
    using r [rule_format, of "''agent-''" "''7''"] by (simp add: internal_prefixes_def)
  moreover have "tget sent ''model'' = tget ?obj ''model''" using k by simp
  ultimately show ?thesis using s by simp
qed

end
