(* ===== verification/Handlers.thy ===== *)
theory Handlers
  imports Retry Upstream Token_Selection Device_Identity Request_Transform Token_Estimates
begin

text \<open>
  What the handlers of the three protocols (\<open>handlers/claude/\<close>, \<open>handlers/openai/\<close>, \<open>handlers/gemini/\<close>) share: the
  state of the server they work on, getting an account, calling the upstream service, and the loop over attempts,
  whose laws are the locale \<open>retrying\<close>. The handlers compose the other components here: selection, translation,
  client, bookkeeping. A guard that the code drops at the end of a scope gives its slot back there.
  Tasks that are spawned are recorded, not run; steps of other requests in between are not modelled.
\<close>

section \<open>The server\<close>

text \<open>The limits of the server are the ones its token manager has: both hold the same reference.\<close>

record 'c server_state =
  sv_tokens :: token_manager
  sv_upstream :: "'c upstream_client"
  sv_network :: "'c network"
  sv_fingerprints :: fingerprint_cache
  sv_signatures :: signature_cache
  sv_calibrator :: estimation_calibrator
  sv_bodies :: "(string \<times> json) list"   \<comment> \<open>the requests that went upstream, with their accounts\<close>
  sv_marked :: "string list"             \<comment> \<open>accounts that spawned tasks mark for verification\<close>

record 'b http_answer =
  ha_status :: u16
  ha_retry_after :: "string option"
  ha_text :: "string option"             \<comment> \<open>\<open>None\<close>: the body cannot be read\<close>
  ha_content :: 'b

text \<open>What is outside of the server, at the turns of the loop\<close>

record ('c, 'b) handler_env =
  hv_token_env :: "nat \<Rightarrow> token_env"
  hv_now :: "nat \<Rightarrow> nanos"
  hv_quota_protection :: bool
  hv_respond :: "nat \<Rightarrow> 'c \<Rightarrow> string \<Rightarrow> string + 'b http_answer"
  hv_time_after :: "nat \<Rightarrow> nanos"
  hv_status_text :: "u16 \<Rightarrow> string"
  hv_http :: "'c http_env"
  hv_header_error :: "nat \<Rightarrow> string option"
  hv_transform :: "nat \<Rightarrow> transform_env"
  hv_mapping :: "(string, string) table"

record 'b reply =
  rp_status :: u16
  rp_headers :: "(string \<times> string) list"
  rp_body :: 'b

definition on_tokens :: "(token_manager \<Rightarrow> token_manager) \<Rightarrow> 'c server_state \<Rightarrow> 'c server_state" where
  "on_tokens f sv = sv\<lparr>sv_tokens := f (sv_tokens sv)\<rparr>"

definition on_limits :: "(limit_manager \<Rightarrow> limit_manager) \<Rightarrow> 'c server_state \<Rightarrow> 'c server_state" where
  "on_limits f = on_tokens (\<lambda>tm. tm\<lparr>adaptive_limits := map_option f (adaptive_limits tm)\<rparr>)"

definition on_signatures :: "(signature_cache \<Rightarrow> signature_cache) \<Rightarrow> 'c server_state \<Rightarrow> 'c server_state" where
  "on_signatures f sv = sv\<lparr>sv_signatures := f (sv_signatures sv)\<rparr>"

definition transform_at :: "('c, 'b, 'e) handler_env_scheme \<Rightarrow> nat \<Rightarrow> 'c server_state \<Rightarrow> transform_env" where
  "transform_at env turn sv =
     (let t = hv_transform env turn
      in t\<lparr>te_contents := (te_contents t)\<lparr>xe_now := hv_now env turn, xe_cache := sv_signatures sv\<rparr>\<rparr>)"

definition extract_error_info :: "'b http_answer \<Rightarrow> string \<times> upstream_error" where
  "extract_error_info a =
     (let error_text = (case ha_text a of Some t \<Rightarrow> t | None \<Rightarrow> ''HTTP '' @ show_nat (unat (ha_status a)))
      in (error_text, HttpResponse (ha_status a) error_text))"

definition server_success :: "nanos \<Rightarrow> string \<Rightarrow> string \<Rightarrow> 'c server_state \<Rightarrow> 'c server_state" where
  "server_success now mail session =
     on_tokens (\<lambda>tm. case adaptive_limits tm of
        Some m \<Rightarrow> let (tm, m) = record_request_success now mail session (tm, m) in tm\<lparr>adaptive_limits := Some m\<rparr>
      | None \<Rightarrow> clear_session_failures session (mark_account_success mail tm))"

section \<open>An account for the request\<close>

definition smart_token ::
  "('c, 'b) handler_env \<Rightarrow> nat \<Rightarrow> bool \<Rightarrow> string \<Rightarrow> string \<Rightarrow> string set \<Rightarrow> token_manager
   \<Rightarrow> panic + ((string + grant) \<times> token_manager)" where
  "smart_token env turn rot session model attempted tm =
     get_token_internal (hv_token_env env turn) (hv_quota_protection env) (hv_now env turn) rot (Some session) model
       (if attempted = {} then None else Some attempted) tm"

text \<open>A forced account comes first; if it cannot be used, the selection goes on without it.\<close>

definition acquire_token ::
  "('c, 'b) handler_env \<Rightarrow> nat \<Rightarrow> string option \<Rightarrow> bool \<Rightarrow> string \<Rightarrow> string \<Rightarrow> string set \<Rightarrow> token_manager
   \<Rightarrow> panic + ((string + grant) \<times> token_manager)" where
  "acquire_token env turn force_account rot session model attempted tm =
     (case force_account of
        None \<Rightarrow> smart_token env turn rot session model attempted tm
      | Some forced \<Rightarrow>
          (case get_token_forced (hv_token_env env turn) (hv_now env turn) forced tm of
             Inl p \<Rightarrow> Inl p
           | Inr (Inr g, tm) \<Rightarrow> Inr (Inr g, tm)
           | Inr (Inl e, tm) \<Rightarrow> smart_token env turn rot session model attempted tm))"

section \<open>A call of the service\<close>

definition network_env :: "('c, 'b) handler_env \<Rightarrow> ('c, 'b http_answer) upstream_env" where
  "network_env env = \<lparr>respond = hv_respond env, status_of = ha_status, time_after = hv_time_after env,
     status_text = hv_status_text env\<rparr>"

definition call_upstream ::
  "('c, 'b) handler_env \<Rightarrow> nat \<Rightarrow> string \<Rightarrow> string option \<Rightarrow> string \<Rightarrow> json \<Rightarrow> 'c server_state
   \<Rightarrow> (string + 'b http_answer) \<times> 'c server_state" where
  "call_upstream env turn verb query mail body sv =
     (let proxy = get_account_proxy_url mail (sv_tokens sv);
          (r, u, w) = call_fingerprinted (network_env env) (hv_http env) (hv_now env turn) (hv_header_error env turn)
                        verb query mail proxy (sv_upstream sv) (sv_network sv)
      in (r, sv\<lparr>sv_upstream := u, sv_network := w, sv_bodies := sv_bodies sv @ [(mail, body)]\<rparr>))"

text \<open>The handler of the Claude protocol calls the variant for connections through a given proxy, without one.\<close>

definition call_upstream_warp ::
  "('c, 'b) handler_env \<Rightarrow> nat \<Rightarrow> string \<Rightarrow> string option \<Rightarrow> string \<Rightarrow> json \<Rightarrow> 'c server_state
   \<Rightarrow> (string + 'b http_answer) \<times> 'c server_state" where
  "call_upstream_warp env turn verb query mail body sv =
     (let proxy = get_account_proxy_url mail (sv_tokens sv);
          (r, u, w) = call_fingerprinted_warp (network_env env) (hv_http env) (hv_now env turn) (hv_header_error env turn)
                        verb query mail None proxy (sv_upstream sv) (sv_network sv)
      in (r, sv\<lparr>sv_upstream := u, sv_network := w, sv_bodies := sv_bodies sv @ [(mail, body)]\<rparr>))"

definition fingerprinted :: "json \<Rightarrow> string \<Rightarrow> 'c server_state \<Rightarrow> json \<times> 'c server_state" where
  "fingerprinted body mail sv =
     (let (body, cache) = inject_body_fingerprint body mail (sv_fingerprints sv) in (body, sv\<lparr>sv_fingerprints := cache\<rparr>))"

section \<open>The loop over attempts\<close>

record 'c attempt_state =
  at_server :: "'c server_state"
  at_turn :: nat
  at_attempt :: nat
  at_grace :: bool
  at_attempted :: "string set"
  at_last_error :: upstream_error
  at_last_mail :: "string option"

definition MAX_RETRY_ATTEMPTS :: nat where "MAX_RETRY_ATTEMPTS = 64"

definition max_attempts :: "token_manager \<Rightarrow> nat" where
  "max_attempts tm = max (min MAX_RETRY_ATTEMPTS (length (tokens tm))) 1"

definition on_server :: "('c server_state \<Rightarrow> 'c server_state) \<Rightarrow> ('c, 's) attempt_state_scheme \<Rightarrow> ('c, 's) attempt_state_scheme" where
  "on_server f s = s\<lparr>at_server := f (at_server s)\<rparr>"

definition first_attempt :: "'c server_state \<Rightarrow> 'c attempt_state" where
  "first_attempt sv =
     \<lparr>at_server = sv, at_turn = 0, at_attempt = 0, at_grace = False, at_attempted = {}, at_last_error = EmptyStream,
      at_last_mail = None\<rparr>"

text \<open>The next attempt, with another account\<close>

definition rotate_from :: "string \<Rightarrow> ('c, 's) attempt_state_scheme \<Rightarrow> ('c, 's) attempt_state_scheme" where
  "rotate_from mail s = s\<lparr>at_attempted := insert mail (at_attempted s), at_attempt := at_attempt s + 1\<rparr>"

text \<open>
  The loop: a step ends with an answer, or without one, and then the next turn comes while there are attempts left.
  \<open>None\<close> is a loop that runs out of fuel; no loop of a handler does (locale \<open>retrying\<close>).
\<close>

fun attempt_loop ::
  "nat \<Rightarrow> nat \<Rightarrow> (('c, 's) attempt_state_scheme \<Rightarrow> build_error + 'r option \<times> ('c, 's) attempt_state_scheme)
   \<Rightarrow> ('c, 's) attempt_state_scheme \<Rightarrow> (build_error + 'r option \<times> ('c, 's) attempt_state_scheme) option" where
  "attempt_loop 0 most step s = (if most \<le> at_attempt s then Some (Inr (None, s)) else None)"
| "attempt_loop (Suc n) most step s =
     (if most \<le> at_attempt s then Some (Inr (None, s))
      else case step s of
             Inl p \<Rightarrow> Some (Inl p)
           | Inr (Some r, s) \<Rightarrow> Some (Inr (Some r, s))
           | Inr (None, s) \<Rightarrow> attempt_loop n most step (s\<lparr>at_turn := at_turn s + 1\<rparr>))"

text \<open>Twice the attempts are enough turns: in every second turn at least an attempt is used up.\<close>

definition run_attempts ::
  "(('c, 's) attempt_state_scheme \<Rightarrow> build_error + 'r option \<times> ('c, 's) attempt_state_scheme)
   \<Rightarrow> ('c, 's) attempt_state_scheme \<Rightarrow> (build_error + 'r option \<times> ('c, 's) attempt_state_scheme) option" where
  "run_attempts step s =
     (let most = max_attempts (sv_tokens (at_server s)) in attempt_loop (2 * most) most step s)"

text \<open>A step with a granted account: however it goes on, the slot is given back at its end.\<close>

definition with_guard ::
  "request_guard \<Rightarrow> build_error + 'r option \<times> ('c, 's) attempt_state_scheme
   \<Rightarrow> build_error + 'r option \<times> ('c, 's) attempt_state_scheme" where
  "with_guard g x = map_sum id (map_prod id (on_server (on_tokens (drop_slot g)))) x"

section \<open>Laws of the loop\<close>

definition progress :: "('c, 's) attempt_state_scheme \<Rightarrow> ('c, 's) attempt_state_scheme \<Rightarrow> bool" where
  "progress s s' \<longleftrightarrow> at_attempt s' = at_attempt s + 1 \<or> (at_attempt s' = at_attempt s \<and> \<not> at_grace s \<and> at_grace s')"

definition slots :: "('c, 's) attempt_state_scheme \<Rightarrow> string \<Rightarrow> u32" where
  "slots s = count (sv_tokens (at_server s))"

definition calls :: "('c, 's) attempt_state_scheme \<Rightarrow> nat" where
  "calls s = length (sv_bodies (at_server s))"

lemma slots_turn [simp]: "slots (s\<lparr>at_turn := n\<rparr>) = slots s" and calls_turn [simp]: "calls (s\<lparr>at_turn := n\<rparr>) = calls s"
  by (simp_all add: slots_def calls_def)

text \<open>What is left to do: two turns per attempt, one if the grace has been used\<close>

definition budget :: "nat \<Rightarrow> ('c, 's) attempt_state_scheme \<Rightarrow> nat" where
  "budget most s = 2 * (most - at_attempt s) - (if at_grace s then 1 else 0)"

lemma budget_turn [simp]: "budget most (s\<lparr>at_turn := n\<rparr>) = budget most s"
  by (simp add: budget_def)

lemma progress_budget: "progress s s' \<Longrightarrow> at_attempt s < most \<Longrightarrow> budget most s' < budget most s"
  by (auto simp: progress_def budget_def)

locale retrying =
  fixes step :: "('c, 's) attempt_state_scheme \<Rightarrow> build_error + 'r option \<times> ('c, 's) attempt_state_scheme"
  assumes step_progress: "step s = Inr (None, s') \<Longrightarrow> progress s s'"
    and step_slots: "step s = Inr (r, s') \<Longrightarrow> slots s' = slots s"
    and step_calls: "step s = Inr (r, s') \<Longrightarrow> calls s' \<le> calls s + 1"
begin

lemma loop_ends: "budget most s \<le> n \<Longrightarrow> \<exists>x. attempt_loop n most step s = Some x"
proof (induction n arbitrary: s)
  case 0
  then show ?case by (auto simp: budget_def split: if_splits)
next
  case (Suc n)
  show ?case
  proof (cases "most \<le> at_attempt s")
    case False
    have "\<exists>x. attempt_loop n most step (s'\<lparr>at_turn := t\<rparr>) = Some x" if "step s = Inr (None, s')" for s' t
      using Suc.IH [of "s'\<lparr>at_turn := t\<rparr>"] progress_budget [OF step_progress [OF that], of most] False Suc.prems by simp
    then show ?thesis using False by (auto split: sum.split prod.split option.split)
  qed simp
qed

lemma loop_keeps:
  assumes "attempt_loop n most step s = Some (Inr (r, s'))"
  shows "slots s' = slots s" and "calls s' \<le> calls s + n"
  using assms
proof (induction n arbitrary: s)
  case (Suc n)
  { case 1
    then show ?case using Suc.IH(1) step_slots
      by (auto split: if_splits sum.splits prod.splits option.splits)
  next
    case 2
    show ?case
    proof (cases "most \<le> at_attempt s")
      case False
      obtain q s1 where q: "step s = Inr (q, s1)" using 2 False by (cases "step s") auto
      have c: "calls s1 \<le> calls s + 1" by (rule step_calls [OF q])
      show ?thesis
      proof (cases q)
        case None
        with 2 False q have "attempt_loop n most step (s1\<lparr>at_turn := at_turn s1 + 1\<rparr>) = Some (Inr (r, s'))" by simp
        from Suc.IH(2) [OF this] c show ?thesis by simp
      next
        case (Some x)
        with 2 False q c show ?thesis by simp
      qed
    qed (use 2 in simp) }
qed (auto split: if_splits)

lemma run_ends: "at_attempt s = 0 \<Longrightarrow> \<exists>x. run_attempts step s = Some x"
  unfolding run_attempts_def Let_def by (rule loop_ends) (simp add: budget_def)

lemma run_keeps:
  assumes "run_attempts step s = Some (Inr (r, s'))"
  shows "slots s' = slots s" and "calls s' \<le> calls s + 2 * max_attempts (sv_tokens (at_server s))"
  using loop_keeps assms unfolding run_attempts_def Let_def by blast+

end

lemma max_attempts_le: "max_attempts tm \<le> 64"
  by (simp add: max_attempts_def MAX_RETRY_ATTEMPTS_def)

section \<open>Slots of the parts\<close>

lemma forced_slots:
  assumes "get_token_forced env now forced tm = Inr (r, tm')"
  shows "slots_accounted tm (max_concurrent_per_account (routing tm)) r tm'"
proof (cases "find (\<lambda>t. to_lowercase (email t) = to_lowercase forced) (map snd (tokens tm))")
  case None
  then show ?thesis using assms by (auto simp: get_token_forced_def slots_accounted_def)
next
  case (Some token)
  show ?thesis
  proof (cases "tm_is_rate_limited now (account_id token) tm")
    case True
    then show ?thesis using assms Some by (auto simp: get_token_forced_def slots_accounted_def)
  next
    case False
    obtain g tm1 where a: "acquire (email token) (max_concurrent_per_account (routing tm)) tm = (g, tm1)" by force
    show ?thesis
    proof (cases g)
      case None
      then show ?thesis using assms Some False a acquire_None [of "email token" "max_concurrent_per_account (routing tm)" tm tm1]
        by (auto simp: get_token_forced_def slots_accounted_def)
    next
      case (Some gd)
      note got = acquire_Some [OF a [unfolded Some]]
      obtain x tm2 where x: "prepare_token env now token tm1 = Inr (x, tm2)"
        using assms \<open>find _ _ = Some token\<close> False a Some by (auto simp: get_token_forced_def split: sum.splits)
      have k: "count tm2 = count tm1" using prepare_token_keeps [OF x] by (simp add: keeps_decisions_def count_def fun_eq_iff)
      have drop: "count (drop_slot (live_guard (email token)) tm2) = count tm"
        by (rule count_drop_slot [OF _ got(2)]) (use got(3) k in simp)
      show ?thesis
        using assms \<open>find _ _ = Some token\<close> False a Some x got k drop prepare_token_keeps [OF x]
        by (cases x) (auto simp: get_token_forced_def slots_accounted_def)
    qed
  qed
qed

lemma smart_slots:
  "smart_token env turn rot session model attempted tm = Inr (r, tm') \<Longrightarrow>
     slots_accounted tm (max_concurrent_per_account (routing tm)) r tm'"
  unfolding smart_token_def by (rule internal_slots)

text \<open>What a grant or a refusal leaves of the slots; the most is the one of a state with the same slots.\<close>

definition slots_granted :: "token_manager \<Rightarrow> string + grant \<Rightarrow> token_manager \<Rightarrow> bool" where
  "slots_granted tm r tm' \<longleftrightarrow> (\<exists>cap. slots_accounted tm cap r tm')"

lemma acquire_slots:
  assumes "acquire_token env turn force_account rot session model attempted tm = Inr (r, tm')"
  shows "slots_granted tm r tm'"
proof (cases force_account)
  case None
  then show ?thesis using assms smart_slots unfolding acquire_token_def slots_granted_def by fastforce
next
  case (Some forced)
  obtain q tm1 where f: "get_token_forced (hv_token_env env turn) (hv_now env turn) forced tm = Inr (q, tm1)"
    using assms Some by (auto simp: acquire_token_def split: sum.splits)
  note s1 = forced_slots [OF f]
  show ?thesis
  proof (cases q)
    case (Inr g)
    then show ?thesis using assms Some f s1 by (auto simp: acquire_token_def slots_granted_def)
  next
    case (Inl e)
    then have "smart_token env turn rot session model attempted tm1 = Inr (r, tm')" "count tm1 = count tm"
      using assms Some f s1 by (auto simp: acquire_token_def slots_accounted_def)
    then have "slots_accounted tm (max_concurrent_per_account (routing tm1)) r tm'"
      using smart_slots [of env turn rot session model attempted tm1 r tm']
      by (cases r) (auto simp: slots_accounted_def)
    then show ?thesis unfolding slots_granted_def by blast
  qed
qed

lemma granted_dropped:
  assumes "slots_granted tm (Inr (access, project, mail, g)) tm'" and "count tm'' = count tm'"
  shows "count (drop_slot g tm'') = count tm"
proof -
  obtain cap where c: "g = live_guard mail" "count tm mail < cap" "count tm' = (count tm)(mail := count tm mail + 1)"
    using assms(1) by (auto simp: slots_granted_def slots_accounted_def)
  show ?thesis unfolding c(1) by (rule count_drop_slot [OF _ c(2)]) (use c(3) assms(2) in simp)
qed

lemma refused_slots: "slots_granted tm (Inl e) tm' \<Longrightarrow> count tm' = count tm"
  by (auto simp: slots_granted_def slots_accounted_def)

text \<open>A step that gets an account, goes on without touching the slots, and gives its slot back\<close>

lemma guarded_step:
  assumes "with_guard g x = Inr (r, s')" and "slots_granted (sv_tokens (at_server s)) (Inr (access, project, mail, g)) tm'"
    and "\<And>r s1. x = Inr (r, s1) \<Longrightarrow> slots s1 = count tm'"
  shows "slots s' = slots s"
proof -
  obtain s1 where x: "x = Inr (r, s1)" and s': "s' = on_server (on_tokens (drop_slot g)) s1"
    using assms(1) by (cases x) (auto simp: with_guard_def)
  show ?thesis
    using granted_dropped [OF assms(2)] assms(3) [OF x] by (simp add: s' slots_def on_server_def on_tokens_def)
qed

lemma guarded_None:
  assumes "with_guard g x = Inr (r, s')"
  shows "\<exists>s1. x = Inr (r, s1) \<and> s' = on_server (on_tokens (drop_slot g)) s1"
  using assms by (cases x) (auto simp: with_guard_def)

lemma on_server_fields [simp]:
  "at_attempt (on_server f s) = at_attempt s" "at_grace (on_server f s) = at_grace s"
  "at_server (on_server f s) = f (at_server s)"
  by (simp_all add: on_server_def)

lemma call_upstream_fields:
  assumes "call_upstream env turn verb query mail body sv = (r, sv')"
  shows "sv_tokens sv' = sv_tokens sv" and "sv_bodies sv' = sv_bodies sv @ [(mail, body)]"
  using assms by (auto simp: call_upstream_def split: prod.splits)

lemma call_upstream_warp_fields:
  assumes "call_upstream_warp env turn verb query mail body sv = (r, sv')"
  shows "sv_tokens sv' = sv_tokens sv" and "sv_bodies sv' = sv_bodies sv @ [(mail, body)]"
  using assms by (auto simp: call_upstream_warp_def split: prod.splits)

lemma fingerprinted_fields:
  assumes "fingerprinted body mail sv = (body', sv')"
  shows "sv_tokens sv' = sv_tokens sv" and "sv_bodies sv' = sv_bodies sv"
  using assms by (auto simp: fingerprinted_def split: prod.splits)

lemma count_same_active: "active_requests tm' = active_requests tm \<Longrightarrow> count tm' = count tm"
  by (simp add: count_def fun_eq_iff)

lemma on_signatures_fields [simp]:
  "sv_tokens (on_signatures f sv) = sv_tokens sv" "sv_bodies (on_signatures f sv) = sv_bodies sv"
  by (simp_all add: on_signatures_def)

lemma success_active [simp]:
  "count (sv_tokens (server_success now mail session sv)) = count (sv_tokens sv)"
  "sv_bodies (server_success now mail session sv) = sv_bodies sv"
  by (auto intro!: count_same_active simp: server_success_def on_tokens_def record_request_success_def clear_session_failures_def
      mark_account_success_def tm_record_success_def Let_def split: option.splits)

lemma mark_rate_limited_active: "mark_rate_limited penv now acc status header body tm = Inr tm' \<Longrightarrow> count tm' = count tm"
  by (cases "parse_from_error penv now acc status header body None (tracker tm)")
     (auto intro!: count_same_active simp: mark_rate_limited_def mark_rate_limited_with_model_def)

text \<open>What a step may do to the state: the slots stay, so many calls are made, and without an answer there is progress\<close>

definition step_ok :: "nat \<Rightarrow> ('c, 's) attempt_state_scheme \<Rightarrow> build_error + 'r option \<times> ('c, 's) attempt_state_scheme \<Rightarrow> bool" where
  "step_ok n s x \<longleftrightarrow>
     (case x of Inl _ \<Rightarrow> True
      | Inr (r, s') \<Rightarrow> slots s' = slots s \<and> calls s' \<le> calls s + n \<and> (r = None \<longrightarrow> progress s s'))"

lemma step_okI:
  "(\<And>r s'. x = Inr (r, s') \<Longrightarrow> slots s' = slots s \<and> calls s' \<le> calls s + n \<and> (r = None \<longrightarrow> progress s s')) \<Longrightarrow> step_ok n s x"
  by (auto simp: step_ok_def split: sum.split)

lemma step_ok_Inl [simp]: "step_ok n s (Inl p)"
  by (simp add: step_ok_def)

lemma step_ok_answer [simp]: "step_ok n s (Inr (Some r, s')) \<longleftrightarrow> slots s' = slots s \<and> calls s' \<le> calls s + n"
  by (simp add: step_ok_def)

lemma step_ok_again [simp]: "step_ok n s (Inr (None, s')) \<longleftrightarrow> slots s' = slots s \<and> calls s' \<le> calls s + n \<and> progress s s'"
  by (simp add: step_ok_def)

text \<open>A state that differs in what progress and slots do not look at\<close>

lemma step_ok_from:
  assumes "step_ok n s1 x" and "slots s1 = slots s" and "calls s1 \<le> calls s + m" and "at_attempt s1 = at_attempt s" and "at_grace s1 = at_grace s"
  shows "step_ok (n + m) s x"
  using assms by (fastforce simp: step_ok_def progress_def split: sum.split)

lemma step_ok_guarded:
  assumes "step_ok n s1 x" and "slots_granted (sv_tokens (at_server s)) (Inr (access, project, mail, g)) (sv_tokens (at_server s1))"
    and "calls s1 = calls s" and "at_attempt s1 = at_attempt s" and "at_grace s1 = at_grace s"
  shows "step_ok n s (with_guard g x)"
proof (rule step_okI)
  fix r s' assume w: "with_guard g x = Inr (r, s')"
  obtain s2 where x: "x = Inr (r, s2)" and s': "s' = on_server (on_tokens (drop_slot g)) s2" using guarded_None [OF w] by blast
  have ok: "slots s2 = slots s1" "calls s2 \<le> calls s1 + n" "r = None \<longrightarrow> progress s1 s2"
    using assms(1) unfolding x step_ok_def by auto
  have "slots s' = slots s"
    by (rule guarded_step [OF w assms(2)]) (use x ok(1) in \<open>simp add: slots_def\<close>)
  moreover have "calls s' = calls s2" by (simp add: s' calls_def on_server_def on_tokens_def)
  moreover have "r = None \<longrightarrow> progress s s'" using ok(3) assms(4,5) by (simp add: s' progress_def)
  ultimately show "slots s' = slots s \<and> calls s' \<le> calls s + n \<and> (r = None \<longrightarrow> progress s s')" using ok(2) assms(3) by simp
qed

lemma retryingI:
  assumes "\<And>s. step_ok 1 s (step s)" shows "retrying step"
proof
  fix s s' r
  show "progress s s'" if "step s = Inr (None, s')" using assms [of s] that by simp
  show "slots s' = slots s" "calls s' \<le> calls s + 1" if "step s = Inr (r, s')" using assms [of s] that by (auto simp: step_ok_def)
qed

text \<open>The end of every turn: refused, or an account is granted and its slot given back after the call\<close>

lemma granted_turn_ok:
  assumes "acquire_token env turn force_account rot session model attempted (sv_tokens (at_server s)) = Inr (r, tm)"
    and "\<And>access project mail s. step_ok n s (go access project mail s)"
  shows "step_ok n s
    (case r of
       Inl e \<Rightarrow> Inr (Some (refuse e), on_server (on_tokens (\<lambda>_. tm)) s)
     | Inr (access, project, mail, g) \<Rightarrow>
         with_guard g (go access project mail ((on_server (on_tokens (\<lambda>_. tm)) s)\<lparr>at_last_mail := Some mail\<rparr>)))"
proof (cases r)
  case (Inl e)
  then show ?thesis using acquire_slots [OF assms(1)] refused_slots [of "sv_tokens (at_server s)" e tm]
    by (simp add: slots_def calls_def on_tokens_def)
next
  case (Inr q)
  obtain access project mail g where q: "q = (access, project, mail, g)" by (cases q)
  have "step_ok n s (with_guard g (go access project mail ((on_server (on_tokens (\<lambda>_. tm)) s)\<lparr>at_last_mail := Some mail\<rparr>)))"
    by (rule step_ok_guarded [OF assms(2)])
       (use acquire_slots [OF assms(1)] in \<open>simp_all add: Inr q on_tokens_def on_server_def calls_def\<close>)
  then show ?thesis by (simp add: Inr q)
qed

end
