(* ===== verification/Gemini_Handler.thy ===== *)
theory Gemini_Handler
  imports Handlers Gemini_Wrapper
begin

text \<open>
  The handler of the Gemini protocol: \<open>handlers/gemini/mod.rs\<close> and the wait for the first data in
  \<open>handlers/gemini/streaming.rs\<close>. The chunks of an answer come with the time since its beginning; the end of the
  list is the end of the stream. Logging is left out.
\<close>

section \<open>The first data\<close>

definition MAX_HEARTBEATS :: nat where "MAX_HEARTBEATS = 20"

definition is_gemini_heartbeat :: "string \<Rightarrow> bool" where
  "is_gemini_heartbeat bytes \<longleftrightarrow> valid_utf8 bytes \<and> (starts_with (trim bytes) '':'' \<or> trim bytes = [])"

definition peek_exceeded :: "nat \<Rightarrow> string" where
  "peek_exceeded heartbeat_count = ''Peek phase exceeded 90s limit ('' @ show_nat heartbeat_count @ '' heartbeats seen)''"

text \<open>
  Each part of the stream comes with the time at which it is there, and the second argument is the time at which the
  loop asks for the first of them: when the part before it had come. The loop looks at the clock before it asks, so
  what it asks for in time is taken even if it comes later.
\<close>

fun peek_first_chunk ::
  "nat \<Rightarrow> nanos \<Rightarrow> (nanos \<times> poll) list \<Rightarrow> string + (nanos \<times> string) \<times> (nanos \<times> poll) list" where
  "peek_first_chunk heartbeat_count asked [] =
     Inl (if 90 < as_secs asked then peek_exceeded heartbeat_count else ''Stream ended immediately (empty response)'')"
| "peek_first_chunk heartbeat_count asked ((t, p) # rest) =
     (if 90 < as_secs asked then Inl (peek_exceeded heartbeat_count)
      else case p of
             Chunk bytes \<Rightarrow>
               let n = heartbeat_count + 1
               in if bytes = []
                  then if MAX_HEARTBEATS < n then Inl (''Too many empty chunks ('' @ show_nat n @ ''), rotating account'')
                       else peek_first_chunk n t rest
                  else if is_gemini_heartbeat bytes
                  then if MAX_HEARTBEATS < n then Inl (''Too many heartbeats ('' @ show_nat n @ ''), rotating account'')
                       else peek_first_chunk n t rest
                  else Inr ((t, bytes), rest)
           | StreamError e \<Rightarrow> Inl (''Stream error during peek: '' @ e)
           | StreamEnd \<Rightarrow> Inl ''Stream ended immediately (empty response)''
           | ChunkTimeout \<Rightarrow> Inl ''Timeout (30s) waiting for first chunk'')"

text \<open>After the first data nobody looks at the clock: silence is only a wait.\<close>

fun rest_of_stream :: "nanos \<Rightarrow> (nanos \<times> poll) list \<Rightarrow> (nanos \<times> (string + string)) list" where
  "rest_of_stream start [] = []"
| "rest_of_stream start ((t, p) # rest) =
     (case p of
        Chunk b \<Rightarrow> (start + t, Inr b) # rest_of_stream start rest
      | StreamError e \<Rightarrow> [(start + t, Inl e)]
      | StreamEnd \<Rightarrow> []
      | ChunkTimeout \<Rightarrow> rest_of_stream start rest)"

section \<open>Requests\<close>

record 'c gemini_env = "('c, (nanos \<times> poll) list) handler_env" +
  gv_stream :: openai_stream_env
  gv_sha256 :: "string \<Rightarrow> string"
  gv_json_error :: "string option \<Rightarrow> string"     \<comment> \<open>why a body cannot be read as JSON\<close>

datatype gemini_content = GText string | GJson json | GStream "(string + string) list"

record gemini_request =
  gr_model :: string
  gr_stream :: bool
  gr_body :: json
  gr_force_account :: "string option"

definition text_reply :: "u16 \<Rightarrow> (string \<times> string) list \<Rightarrow> string \<Rightarrow> gemini_content reply" where
  "text_reply status headers t = \<lparr>rp_status = status, rp_headers = headers, rp_body = GText t\<rparr>"

text \<open>\<open>rsplit_once(':')\<close>\<close>

definition split_action :: "string \<Rightarrow> string \<times> string" where
  "split_action model_action =
     (if CHR '':'' \<in> set model_action
      then let action = rev (takeWhile (\<lambda>c. c \<noteq> CHR '':'') (rev model_action))
           in (take (length model_action - length action - 1) model_action, action)
      else (model_action, ''generateContent''))"

text \<open>The tools that are looked at for searching: declarations one by one\<close>

definition declared_tools :: "json \<Rightarrow> json list option" where
  "declared_tools body =
     map_option
       (\<lambda>tools. concat (map (\<lambda>entry. case Option.bind (jget ''functionDeclarations'' entry) as_array of
          Some decls \<Rightarrow> decls | None \<Rightarrow> [entry]) tools))
       (Option.bind (jget ''tools'' body) as_array)"

section \<open>Answers\<close>

definition gemini_headers :: "string \<Rightarrow> string \<Rightarrow> (string \<times> string) list" where
  "gemini_headers mail mapped_model = [(''X-Account-Email'', mail), (''X-Mapped-Model'', mapped_model)]"

definition gemini_success ::
  "'c gemini_env \<Rightarrow> gemini_request \<Rightarrow> string \<Rightarrow> string \<Rightarrow> string \<Rightarrow> (nanos \<times> poll) list http_answer \<Rightarrow> 'c attempt_state
   \<Rightarrow> build_error + gemini_content reply option \<times> 'c attempt_state" where
  "gemini_success env rq mapped_model mail session answer s =
     (let now = hv_now env (at_turn s); s = on_server (server_success now mail session) s
      in if gr_stream rq
         then case peek_first_chunk 0 0 (ha_content answer) of
                Inl peek_err \<Rightarrow> Inr (None, rotate_from mail (s\<lparr>at_last_error := ConnectionError peek_err\<rparr>))
              | Inr ((t, first_chunk), rest) \<Rightarrow>
                  let (out, cache) = build_stream_response (gv_stream env) (rest_of_stream now rest) (now + t, first_chunk)
                                       session (sv_signatures (at_server s))
                  in Inr (Some \<lparr>rp_status = 200, rp_headers = (''Content-Type'', ''text/event-stream'') # (''Cache-Control'', ''no-cache'')
                                  # gemini_headers mail mapped_model, rp_body = GStream out\<rparr>,
                          on_server (on_signatures (\<lambda>_. cache)) s)
         else case Option.bind (ha_text answer) (os_from_str (gv_stream env)) of
                None \<Rightarrow> Inr (Some (text_reply 502 [] (''Parse error: '' @ gv_json_error env (ha_text answer))), s)
              | Some resp \<Rightarrow>
                  Inr (Some \<lparr>rp_status = 200, rp_headers = gemini_headers mail mapped_model, rp_body = GJson (unwrap_response resp)\<rparr>,
                       on_server (on_signatures (extract_signature now resp session)) s))"

text \<open>A forbidden account is locked, and a task that marks it for verification is started.\<close>

definition lock_forbidden :: "nanos \<Rightarrow> string \<Rightarrow> u64 \<Rightarrow> 'c attempt_state \<Rightarrow> build_error + 'r option \<times> 'c attempt_state" where
  "lock_forbidden now mail seconds s =
     (case systime_add now (secs (unat seconds)) of
        Inl p \<Rightarrow> Inl (Panicked p)
      | Inr reset \<Rightarrow>
          Inr (None, rotate_from mail (on_server
            (\<lambda>sv. (on_tokens (\<lambda>tm. tm\<lparr>tracker := set_lockout_until now mail reset ServerError None (tracker tm)\<rparr>) sv)
                    \<lparr>sv_marked := sv_marked sv @ [mail]\<rparr>) s)))"

definition gemini_rate_limited ::
  "'c gemini_env \<Rightarrow> string \<Rightarrow> (nanos \<times> poll) list http_answer \<Rightarrow> string \<Rightarrow> 'c attempt_state
   \<Rightarrow> build_error + 'r option \<times> 'c attempt_state" where
  "gemini_rate_limited env mail answer error_text s =
     (let now = hv_now env (at_turn s); code = ha_status answer
      in case mark_rate_limited (parse_env.truncate (hv_token_env env (at_turn s))) now mail code (ha_retry_after answer) error_text
                (sv_tokens (at_server s)) of
           Inl p \<Rightarrow> Inl (Panicked p)
         | Inr tm \<Rightarrow>
             let s = on_server (on_tokens (\<lambda>_. tm)) s
             in if code = 403 \<and> classify_403 error_text = TosBanned
                then if is_char_boundary error_text (min (length error_text) 200)
                     then lock_forbidden now mail TOS_BAN_LOCKOUT_SECS s else Inl (Panicked SliceRange)
                else if code = 403 \<and> classify_403 error_text = NeedsVerification then lock_forbidden now mail 3600 s
                else if code = 429 \<and> contains error_text ''QUOTA_EXHAUSTED'' then Inr (None, rotate_from mail s)
                else if code = 429 \<and> \<not> at_grace s \<and> contains error_text ''RATE_LIMIT_EXCEEDED''
                then Inr (None, s\<lparr>at_grace := True\<rparr>)
                else Inr (None, rotate_from mail (s\<lparr>at_grace := False\<rparr>)))"

definition gemini_error ::
  "'c gemini_env \<Rightarrow> string \<Rightarrow> (nanos \<times> poll) list http_answer \<Rightarrow> 'c attempt_state
   \<Rightarrow> build_error + gemini_content reply option \<times> 'c attempt_state" where
  "gemini_error env mail answer s =
     (let (error_text, err) = extract_error_info answer; code = ha_status answer; s = s\<lparr>at_last_error := err\<rparr>
      in if is_rate_limit_code code \<or> code = 401 \<or> code = 403 then gemini_rate_limited env mail answer error_text s
         else if code = 404 then Inr (None, rotate_from mail s)
         else Inr (Some (text_reply code [(''X-Account-Email'', mail)] (sanitize_upstream_error code error_text)), s))"

section \<open>A turn\<close>

definition gemini_call ::
  "'c gemini_env \<Rightarrow> gemini_request \<Rightarrow> string \<Rightarrow> string \<Rightarrow> string \<Rightarrow> string \<Rightarrow> 'c attempt_state
   \<Rightarrow> build_error + gemini_content reply option \<times> 'c attempt_state" where
  "gemini_call env rq mapped_model project mail session s =
     (case wrap_request (transform_at env (at_turn s) (at_server s)) (gr_body rq) project mapped_model (Some session) of
        Inl b \<Rightarrow> Inl b
      | Inr body \<Rightarrow>
          let (body, sv) = fingerprinted body mail (at_server s);
              verb = (if gr_stream rq then ''streamGenerateContent'' else ''generateContent'');
              query = (if gr_stream rq then Some ''alt=sse'' else None);
              (r, sv) = call_upstream (handler_env.truncate env) (at_turn s) verb query mail body sv;
              s = s\<lparr>at_server := sv\<rparr>
          in (case r of
                Inl e \<Rightarrow> Inr (None, s\<lparr>at_last_error := TokenAcquisition e, at_attempt := at_attempt s + 1\<rparr>)
              | Inr answer \<Rightarrow>
                  if is_success (ha_status answer) then gemini_success env rq mapped_model mail session answer s
                  else gemini_error env mail answer s))"

definition gemini_turn ::
  "'c gemini_env \<Rightarrow> gemini_request \<Rightarrow> 'c attempt_state \<Rightarrow> build_error + gemini_content reply option \<times> 'c attempt_state" where
  "gemini_turn env rq s =
     (case resolve_model_route (gr_model rq) (hv_mapping env) of
        Inl e \<Rightarrow> Inr (Some (text_reply 400 [] e), s)
      | Inr (mapped_model, _) \<Rightarrow>
          let config = resolve_request_config (gr_model rq) mapped_model (declared_tools (gr_body rq)) None None;
              session = extract_gemini_session_id (gv_sha256 env) (os_to_str (gv_stream env)) (gr_body rq)
          in (case acquire_token (handler_env.truncate env) (at_turn s) (gr_force_account rq) (0 < at_attempt s) session
                     (rc_final_model config) (at_attempted s) (sv_tokens (at_server s)) of
                Inl p \<Rightarrow> Inl (Panicked p)
              | Inr (Inl e, tm) \<Rightarrow> Inr (Some (text_reply 503 [] (''Token error: '' @ e)), on_server (on_tokens (\<lambda>_. tm)) s)
              | Inr (Inr (access, project, mail, g), tm) \<Rightarrow>
                  with_guard g (gemini_call env rq mapped_model project mail session
                    ((on_server (on_tokens (\<lambda>_. tm)) s)\<lparr>at_last_mail := Some mail\<rparr>))))"

definition handle_generate ::
  "'c gemini_env \<Rightarrow> string \<Rightarrow> string option \<Rightarrow> json \<Rightarrow> 'c server_state
   \<Rightarrow> (build_error + gemini_content reply \<times> 'c server_state) option" where
  "handle_generate env model_action force_account body sv =
     (let (model_name, verb) = split_action model_action
      in if verb \<noteq> ''generateContent'' \<and> verb \<noteq> ''streamGenerateContent''
         then Some (Inr (text_reply 400 [] (''Unsupported method: '' @ verb), sv))
         else
           let rq = \<lparr>gr_model = model_name, gr_stream = (verb = ''streamGenerateContent''), gr_body = body,
                     gr_force_account = force_account\<rparr>
           in map_option
                (map_sum id (\<lambda>(r, s). ((case r of
                   Some x \<Rightarrow> x
                 | None \<Rightarrow> let (status, headers, t) = build_exhaustion_response (at_last_error s) (at_last_mail s)
                           in text_reply status headers t), at_server s)))
                (run_attempts (gemini_turn env rq) (first_attempt sv)))"

section \<open>The loop of the handler\<close>

lemma success_ok: "step_ok 0 s (gemini_success env rq mapped_model mail session answer s)"
  by (auto simp: gemini_success_def Let_def slots_def calls_def progress_def rotate_from_def on_server_def
      split: sum.split prod.split option.split)

lemma lock_forbidden_ok: "step_ok 0 s (lock_forbidden now mail seconds s)"
  by (auto simp: lock_forbidden_def slots_def calls_def progress_def rotate_from_def on_server_def on_tokens_def count_def
      split: sum.split)

lemma rate_limited_ok: "step_ok 0 s (gemini_rate_limited env mail answer error_text s)"
proof (cases "mark_rate_limited (parse_env.truncate (hv_token_env env (at_turn s))) (hv_now env (at_turn s)) mail (ha_status answer)
    (ha_retry_after answer) error_text (sv_tokens (at_server s))")
  case (Inl p)
  then show ?thesis by (simp add: gemini_rate_limited_def)
next
  case (Inr tm)
  let ?s = "on_server (on_tokens (\<lambda>_. tm)) s"
  have same: "slots ?s = slots s" "calls ?s = calls s" "at_attempt ?s = at_attempt s" "at_grace ?s = at_grace s"
    using mark_rate_limited_active [OF Inr] by (simp_all add: slots_def calls_def on_tokens_def)
  have lock: "step_ok 0 s (lock_forbidden now mail seconds ?s)" for now seconds
    using step_ok_from [OF lock_forbidden_ok, of ?s s 0] same by simp
  show ?thesis
    using same unfolding gemini_rate_limited_def Let_def Inr sum.case
    by (simp add: lock) (auto simp: slots_def calls_def progress_def rotate_from_def)
qed

lemma error_ok: "step_ok 0 s (gemini_error env mail answer s)"
proof -
  obtain t err where i: "extract_error_info answer = (t, err)" by force
  let ?s = "s\<lparr>at_last_error := err\<rparr>"
  have "step_ok 0 s (gemini_rate_limited env mail answer t ?s)"
    using step_ok_from [OF rate_limited_ok, of ?s s 0] by (simp add: slots_def calls_def)
  then show ?thesis
    by (auto simp: gemini_error_def i Let_def slots_def calls_def progress_def rotate_from_def)
qed

lemma call_ok: "step_ok 1 s (gemini_call env rq mapped_model project mail session s)"
proof (cases "wrap_request (transform_at env (at_turn s) (at_server s)) (gr_body rq) project mapped_model (Some session)")
  case (Inl b)
  then show ?thesis by (simp add: gemini_call_def)
next
  case (Inr body)
  obtain body' sv1 where f: "fingerprinted body mail (at_server s) = (body', sv1)" by force
  define verb where "verb = (if gr_stream rq then ''streamGenerateContent'' else ''generateContent'')"
  define query where "query = (if gr_stream rq then Some ''alt=sse'' else None)"
  obtain r sv2 where c: "call_upstream (handler_env.truncate env) (at_turn s) verb query mail body' sv1 = (r, sv2)" by force
  let ?s = "s\<lparr>at_server := sv2\<rparr>"
  have tok: "sv_tokens sv2 = sv_tokens (at_server s)" "length (sv_bodies sv2) = length (sv_bodies (at_server s)) + 1"
    using call_upstream_fields [OF c] fingerprinted_fields [OF f] by simp_all
  have "step_ok (0 + 1) s (gemini_success env rq mapped_model mail session a ?s)"
    "step_ok (0 + 1) s (gemini_error env mail a ?s)" for a
    by (rule step_ok_from [OF success_ok] step_ok_from [OF error_ok]; simp add: slots_def calls_def tok)+
  then show ?thesis
    unfolding gemini_call_def Inr sum.case f Let_def prod.case verb_def [symmetric] query_def [symmetric] c
    by (auto simp: slots_def calls_def progress_def tok split: sum.split)
qed

lemma turn_ok: "step_ok 1 s (gemini_turn env rq s)"
proof (cases "resolve_model_route (gr_model rq) (hv_mapping env)")
  case (Inl e)
  then show ?thesis by (simp add: gemini_turn_def)
next
  case (Inr m)
  obtain mapped_model reason where m: "m = (mapped_model, reason)" by force
  define final where "final = rc_final_model (resolve_request_config (gr_model rq) mapped_model (declared_tools (gr_body rq)) None None)"
  define session where "session = extract_gemini_session_id (gv_sha256 env) (os_to_str (gv_stream env)) (gr_body rq)"
  note unfolded = gemini_turn_def Inr m sum.case prod.case Let_def final_def [symmetric] session_def [symmetric]
  show ?thesis
  proof (cases "acquire_token (handler_env.truncate env) (at_turn s) (gr_force_account rq) (0 < at_attempt s) session final
      (at_attempted s) (sv_tokens (at_server s))")
    case (Inl p)
    then show ?thesis unfolding unfolded by simp
  next
    case acq: (Inr x)
    obtain r tm where x: "x = (r, tm)" by force
    show ?thesis
      unfolding unfolded acq x by (rule granted_turn_ok [OF acq [unfolded x]]) (rule call_ok)
  qed
qed

interpretation gemini: retrying "gemini_turn env rq" for env :: "'c gemini_env" and rq
  by (rule retryingI) (rule turn_ok)

section \<open>Properties of the handler\<close>

text \<open>
  Claim C4: whatever the service answers, a request of the Gemini protocol comes to its end. Unless it panics there is
  a reply, every account has as many slots in use as before, and the service has been called at most twice for each
  of the attempts, of which there are as many as accounts, 64 at most.
\<close>

theorem gemini_request_bounded:
  "\<exists>x. handle_generate env model_action force_account body sv = Some x \<and>
     (case x of Inl _ \<Rightarrow> True
      | Inr (r, sv') \<Rightarrow>
          count (sv_tokens sv') = count (sv_tokens sv)
          \<and> length (sv_bodies sv') \<le> length (sv_bodies sv) + 2 * max 1 (min 64 (length (tokens (sv_tokens sv)))))"
proof -
  obtain name verb where a: "split_action model_action = (name, verb)" by force
  define rq where "rq = \<lparr>gr_model = name, gr_stream = (verb = ''streamGenerateContent''), gr_body = body,
    gr_force_account = force_account\<rparr>"
  have first: "at_attempt (first_attempt sv) = 0" "at_server (first_attempt sv) = sv" by (simp_all add: first_attempt_def)
  obtain y where y: "run_attempts (gemini_turn env rq) (first_attempt sv) = Some y" using gemini.run_ends [OF first(1)] by blast
  show ?thesis
  proof (cases y)
    case (Inl p)
    then show ?thesis using y by (auto simp: handle_generate_def a rq_def [symmetric] Let_def)
  next
    case (Inr z)
    obtain r s where z: "z = (r, s)" by force
    show ?thesis
      using y gemini.run_keeps [OF y [unfolded Inr z]]
      by (auto simp: handle_generate_def a rq_def [symmetric] Let_def Inr z first slots_def calls_def max_attempts_def
          MAX_RETRY_ATTEMPTS_def max.commute)
  qed
qed

text \<open>
  Note: a stream that breaks off before its first data uses the attempt up and goes on with another account, but the
  account has been counted as successful by then.
\<close>

theorem broken_stream_counts_as_success:
  assumes "gr_stream rq" and "peek_first_chunk 0 0 (ha_content answer) = Inl e"
  shows "\<exists>s'. gemini_success env rq mapped_model mail session answer s = Inr (None, s')
    \<and> at_server s' = server_success (hv_now env (at_turn s)) mail session (at_server s) \<and> mail \<in> at_attempted s'"
  using assms by (simp add: gemini_success_def rotate_from_def Let_def)

theorem broken_stream_counts_as_success_witness:
  "\<exists>s'. gemini_success env \<lparr>gr_model = ''m'', gr_stream = True, gr_body = JNull, gr_force_account = None\<rparr> ''m'' ''a@x'' ''s''
        \<lparr>ha_status = 200, ha_retry_after = None, ha_text = None, ha_content = [(0, StreamEnd)]\<rparr> s = Inr (None, s')
    \<and> at_server s' = server_success (hv_now env (at_turn s)) ''a@x'' ''s'' (at_server s) \<and> ''a@x'' \<in> at_attempted s'"
  by (rule broken_stream_counts_as_success) (simp_all add: as_secs_def)

end
