(* ===== verification/Claude_Handler.thy ===== *)
theory Claude_Handler
  imports Handlers Streaming Collector Response Context_Manager Message_History
begin

text \<open>
  The handler of the Claude protocol, \<open>handlers/claude/\<close>: messages.rs and the files it calls. \<open>dispatch.rs\<close> never
  chooses the other provider, so the call of it is left out. Reading a request from JSON is a parameter. Sleeping
  only lets time pass, which the clock of the environment has. The headers of requests to the service are not part of
  the model of the network. Logging and metrics are left out.
\<close>

section \<open>Background tasks\<close>

datatype background_task_type =
  TitleGeneration | SimpleSummary | ContextCompression | PromptSuggestion | SystemMessage | EnvironmentProbe

definition TITLE_KEYWORDS :: "string list" where
  "TITLE_KEYWORDS = [''write a 5-10 word title'', ''Please write a 5-10 word title'', ''Respond with the title'',
     ''Generate a title for'', ''Create a brief title'', ''title for the conversation'', ''conversation title'',
     ''generate title'', ''give conversation a title'']"

definition SUMMARY_KEYWORDS :: "string list" where
  "SUMMARY_KEYWORDS = [''Summarize this coding conversation'', ''Summarize the conversation'', ''Concise summary'',
     ''in under 50 characters'', ''compress the context'', ''Provide a concise summary'', ''condense the previous messages'',
     ''shorten the conversation history'', ''extract key points from'']"

definition SUGGESTION_KEYWORDS :: "string list" where
  "SUGGESTION_KEYWORDS = [''prompt suggestion generator'', ''suggest next prompts'', ''what should I ask next'',
     ''generate follow-up questions'', ''recommend next steps'', ''possible next actions'']"

definition SYSTEM_KEYWORDS :: "string list" where
  "SYSTEM_KEYWORDS = [''Warmup'', ''<system-reminder>'', ''This is a system message'']"

definition PROBE_KEYWORDS :: "string list" where
  "PROBE_KEYWORDS = [''check current directory'', ''list available tools'', ''verify environment'', ''test connection'']"

definition matches_keywords :: "string \<Rightarrow> string list \<Rightarrow> bool" where
  "matches_keywords t keywords \<longleftrightarrow> list_ex (contains t) keywords"

definition extract_last_user_message_for_detection :: "claude_request \<Rightarrow> string option" where
  "extract_last_user_message_for_detection request =
     first_some
       (\<lambda>mg. let t = message_text (cm_content mg)
             in if trim t = [] \<or> starts_with t ''Warmup'' \<or> contains t ''<system-reminder>'' then None else Some t)
       (filter (\<lambda>mg. cm_role mg = ''user'') (rev (rq_messages request)))"

definition detect_background_task_type :: "claude_request \<Rightarrow> background_task_type option" where
  "detect_background_task_type request =
     (case extract_last_user_message_for_detection request of
        None \<Rightarrow> None
      | Some last_user_msg \<Rightarrow>
          let preview = concat (take 500 (chars last_user_msg))
          in if 800 < length last_user_msg then None
             else if matches_keywords preview SYSTEM_KEYWORDS then Some SystemMessage
             else if matches_keywords preview TITLE_KEYWORDS then Some TitleGeneration
             else if matches_keywords preview SUMMARY_KEYWORDS
             then Some (if contains preview ''in under 50 characters'' then SimpleSummary else ContextCompression)
             else if matches_keywords preview SUGGESTION_KEYWORDS then Some PromptSuggestion
             else if matches_keywords preview PROBE_KEYWORDS then Some EnvironmentProbe
             else None)"

definition select_background_model :: "background_task_type \<Rightarrow> string" where
  "select_background_model task_type =
     (if task_type = ContextCompression then ''gemini-2.5-flash'' else ''gemini-2.5-flash-lite'')"

section \<open>Changes of the request\<close>

fun is_thought_block :: "content_block \<Rightarrow> bool" where
  "is_thought_block (CThinking _ _ _) = True"
| "is_thought_block (CRedactedThinking _) = True"
| "is_thought_block _ = False"

definition apply_background_task_cleanup :: "string \<Rightarrow> claude_request \<Rightarrow> claude_request" where
  "apply_background_task_cleanup downgrade_model request =
     request\<lparr>rq_tools := None, rq_thinking := None,
       rq_messages := map (on_blocks (filter (\<lambda>b. \<not> is_thought_block b))) (rq_messages request), rq_model := downgrade_model\<rparr>"

definition needs_fix :: "string option \<Rightarrow> bool" where
  "needs_fix signature \<longleftrightarrow> (case signature of None \<Rightarrow> True | Some s \<Rightarrow> length s < 50)"

fun fix_thinking :: "content_block \<Rightarrow> content_block" where
  "fix_thinking (CThinking t s c) = CThinking t (if needs_fix s then Some DUMMY_SIGNATURE else s) c"
| "fix_thinking b = b"

fun fix_signature :: "content_block \<Rightarrow> content_block" where
  "fix_signature (CToolUse i n x s c) = CToolUse i n x (if s = None then Some DUMMY_SIGNATURE else s) c"
| "fix_signature b = fix_thinking b"

definition apply_user_request_cleanup :: "claude_request \<Rightarrow> claude_request" where
  "apply_user_request_cleanup request =
     request\<lparr>rq_messages :=
       map (\<lambda>mg. if cm_role mg = ''assistant'' \<or> cm_role mg = ''model'' then on_blocks (map fix_thinking) mg else mg)
         (rq_messages request)\<rparr>"

fun valid_signature :: "content_block \<Rightarrow> string option" where
  "valid_signature (CThinking t (Some sig) c) = (if 50 \<le> length sig \<and> sig \<noteq> DUMMY_SIGNATURE then Some sig else None)"
| "valid_signature _ = None"

definition preserved_signature :: "claude_message list \<Rightarrow> string option" where
  "preserved_signature messages = first_some (\<lambda>mg. first_some valid_signature (rev (blocks_of mg))) (rev messages)"

definition handle_thinking_signature_error ::
  "nanos \<Rightarrow> string option \<Rightarrow> claude_request \<Rightarrow> signature_cache \<Rightarrow> claude_request \<times> signature_cache" where
  "handle_thinking_signature_error now session request cache =
     (request\<lparr>rq_messages := map (on_blocks (map fix_signature)) (rq_messages request)\<rparr>,
      case (preserved_signature (rq_messages request), session) of
        (Some sig, Some sid) \<Rightarrow> cache_session_signature now sid sig cache
      | _ \<Rightarrow> cache)"

fun without_dummy :: "content_block \<Rightarrow> content_block" where
  "without_dummy (CThinking t s c) = CThinking t (if s = Some DUMMY_SIGNATURE then None else s) c"
| "without_dummy (CToolUse i n x s c) = CToolUse i n x (if s = Some DUMMY_SIGNATURE then None else s) c"
| "without_dummy b = b"

definition sanitize_signatures_for_anthropic :: "claude_request \<Rightarrow> claude_request" where
  "sanitize_signatures_for_anthropic request =
     request\<lparr>rq_messages := map (\<lambda>mg. if cm_role mg = ''assistant'' then on_blocks (map without_dummy) mg else mg) (rq_messages request)\<rparr>"

section \<open>Environment, replies\<close>

datatype claude_content = KText string | KJson json | KAnswer claude_response | KStream "(string + string) list"

record 'c claude_env = "('c, (nanos \<times> upstream_item) list) handler_env" +
  kv_parse :: "json \<Rightarrow> string + claude_request"
  kv_parse_answer :: "json \<Rightarrow> string + gemini_response"
  kv_json_error :: "string \<Rightarrow> string"       \<comment> \<open>why a text is not JSON\<close>
  kv_read_error :: "nat \<Rightarrow> string"          \<comment> \<open>why the body of a turn cannot be read\<close>
  kv_stream :: stream_env
  kv_collect :: collect_env
  kv_retry :: retry_env
  kv_print :: "json \<Rightarrow> string"
  kv_print_tool :: "claude_tool \<Rightarrow> string"
  kv_arrival :: "nat \<Rightarrow> nat \<Rightarrow> nanos"      \<comment> \<open>when the parts of the stream of a turn come\<close>
  kv_stall :: "nat \<Rightarrow> nat option"           \<comment> \<open>the part of it, if any, that is waited for too long\<close>
  kv_end_time :: "nat \<Rightarrow> nanos"
  kv_tool_loop_recovery :: bool
  kv_usage_scaling :: bool

definition claude_reply :: "u16 \<Rightarrow> (string \<times> string) list \<Rightarrow> claude_content \<Rightarrow> claude_content reply" where
  "claude_reply status headers b = \<lparr>rp_status = status, rp_headers = headers, rp_body = b\<rparr>"

definition error_body :: "string \<Rightarrow> string \<Rightarrow> json" where
  "error_body ty t = JObj [(''type'', JStr ''error''), (''error'', JObj [(''type'', JStr ty), (''message'', JStr t)])]"

definition invalid_model_reply :: "string \<Rightarrow> claude_content reply" where
  "invalid_model_reply e =
     claude_reply 400 [] (KJson (JObj [(''error'', JObj [(''message'', JStr e), (''type'', JStr ''invalid_request_error'')])]))"

definition parse_request :: "'c claude_env \<Rightarrow> json \<Rightarrow> claude_content reply + claude_request" where
  "parse_request env body =
     (case kv_parse env body of
        Inl e \<Rightarrow> Inl (claude_reply 400 [] (KJson (error_body ''invalid_request_error'' (''Invalid request body: '' @ e))))
      | Inr r \<Rightarrow> Inr r)"

definition no_accounts_error :: "string \<Rightarrow> claude_content reply" where
  "no_accounts_error t =
     (let safe_message =
            (if contains t ''invalid_grant''
             then ''OAuth refresh failed: refresh token likely revoked or expired; reauthorize account(s) to restore service.''
             else ''Token acquisition failed; all accounts temporarily unavailable.'')
      in claude_reply 503 [] (KJson (error_body ''overloaded_error'' (''No available accounts: '' @ safe_message))))"

definition prompt_too_long_error :: "string \<Rightarrow> claude_content reply" where
  "prompt_too_long_error mail =
     claude_reply 400 [(''X-Account-Email'', mail)]
       (KJson (JObj [(''id'', JStr ''err_prompt_too_long''), (''type'', JStr ''error''),
          (''error'', JObj [(''type'', JStr ''invalid_request_error''),
             (''message'', JStr ''Prompt is too long (server-side context limit reached).''),
             (''suggestion'', JStr (''Please: 1) Execute '' @ [CHR 0x27] @ ''/compact'' @ [CHR 0x27]
                @ '' in Claude Code 2) Reduce conversation history 3) Switch to gemini-1.5-pro (2M context limit)''))])]))"

definition all_retries_exhausted_error :: "nat \<Rightarrow> upstream_error \<Rightarrow> string option \<Rightarrow> claude_content reply" where
  "all_retries_exhausted_error attempts last_error last_mail =
     claude_reply 429 (case last_mail of Some mail \<Rightarrow> [(''X-Account-Email'', mail)] | None \<Rightarrow> [])
       (KJson (error_body ''overloaded_error''
          (''All '' @ show_nat attempts @ '' attempts failed. Last error: '' @ sanitize_exhaustion_error last_error)))"

section \<open>Warming up\<close>

definition is_warmup_block :: "(json \<Rightarrow> string) \<Rightarrow> content_block \<Rightarrow> bool" where
  "is_warmup_block print b \<longleftrightarrow>
     (case b of
        CText t \<Rightarrow> trim t = ''Warmup'' \<or> starts_with (trim t) (''Warmup'' @ newline)
      | CToolResult i c is_error \<Rightarrow>
          is_error = Some True \<and> starts_with (trim (case as_str c of Some s \<Rightarrow> s | None \<Rightarrow> print c)) ''Warmup''
      | _ \<Rightarrow> False)"

definition is_warmup_request :: "(json \<Rightarrow> string) \<Rightarrow> claude_request \<Rightarrow> bool" where
  "is_warmup_request print request \<longleftrightarrow>
     (case rev (rq_messages request) of
        [] \<Rightarrow> False
      | mg # _ \<Rightarrow>
          (case cm_content mg of
             MString s \<Rightarrow> starts_with (trim s) ''Warmup'' \<and> length s < 100
           | MArray arr \<Rightarrow> list_ex (is_warmup_block print) arr))"

text \<open>JSON text, with backquotes for its double quotes\<close>

definition json_text_of :: "string \<Rightarrow> string" where
  "json_text_of t = map (\<lambda>c. if c = CHR ''`'' then CHR 0x22 else c) t"

definition raw_event :: "string \<Rightarrow> string \<Rightarrow> string" where
  "raw_event ty data = ''event: '' @ ty @ newline @ ''data: '' @ data @ newline @ newline"

definition create_warmup_response :: "nanos \<Rightarrow> claude_request \<Rightarrow> claude_content reply" where
  "create_warmup_response now request =
     (let message_id = ''msg_warmup_'' @ show_nat (now div 1000000)
      in if rq_stream request
         then claude_reply 200
                [(''Content-Type'', ''text/event-stream''), (''Cache-Control'', ''no-cache''), (''Connection'', ''keep-alive''),
                 (''X-Warmup-Intercepted'', ''true'')]
                (KText (raw_event ''message_start''
                    (json_text_of ''{`type`:`message_start`,`message`:{`id`:`'' @ message_id
                     @ json_text_of ''`,`type`:`message`,`role`:`assistant`,`content`:[],`model`:`'' @ rq_model request
                     @ json_text_of ''`,`stop_reason`:null,`stop_sequence`:null,`usage`:{`input_tokens`:1,`output_tokens`:0}}}'')
                  @ raw_event ''content_block_start''
                      (json_text_of ''{`type`:`content_block_start`,`index`:0,`content_block`:{`type`:`text`,`text`:``}}'')
                  @ raw_event ''content_block_delta''
                      (json_text_of ''{`type`:`content_block_delta`,`index`:0,`delta`:{`type`:`text_delta`,`text`:`OK`}}'')
                  @ raw_event ''content_block_stop'' (json_text_of ''{`type`:`content_block_stop`,`index`:0}'')
                  @ raw_event ''message_delta''
                      (json_text_of ''{`type`:`message_delta`,`delta`:{`stop_reason`:`end_turn`,`stop_sequence`:null},`usage`:{`output_tokens`:1}}'')
                  @ raw_event ''message_stop'' (json_text_of ''{`type`:`message_stop`}'')))
         else claude_reply 200 [(''X-Warmup-Intercepted'', ''true'')]
                (KJson (JObj [(''id'', JStr message_id), (''type'', JStr ''message''), (''role'', JStr ''assistant''),
                   (''content'', JArr [JObj [(''type'', JStr ''text''), (''text'', JStr ''OK'')]]),
                   (''model'', JStr (rq_model request)), (''stop_reason'', JStr ''end_turn''), (''stop_sequence'', JNull),
                   (''usage'', JObj [(''input_tokens'', json_i64 1), (''output_tokens'', json_i64 1)])])))"

section \<open>Streams\<close>

record claude_call =
  cc_mail :: string
  cc_session :: string
  cc_mapped_model :: string
  cc_reason :: string
  cc_model :: string
  cc_context_limit :: u32
  cc_estimated :: "u32 option"
  cc_wants_stream :: bool

definition extract_index_from_sse :: "string \<Rightarrow> nat option" where
  "extract_index_from_sse data =
     (if \<not> contains data ''content_block_start'' then None
      else let marker = json_text_of ''`index`:''
           in (case str_find data marker of
                 None \<Rightarrow> None
               | Some start \<Rightarrow>
                   let trimmed = trim_start (drop (start + length marker) data); digits = takeWhile is_digit trimmed
                   in if digits = [] then None else parse_uint (2 ^ 64) digits))"

definition update_block_index :: "string \<Rightarrow> nat \<Rightarrow> nat" where
  "update_block_index chunk next_block_index =
     fold (\<lambda>line n. case extract_index_from_sse line of
                      Some i \<Rightarrow> if i + 1 < 2 ^ 64 \<and> n < i + 1 then i + 1 else n
                    | None \<Rightarrow> n)
       (str_lines (utf8_lossy chunk)) next_block_index"

definition truncation_events :: "nat \<Rightarrow> string" where
  "truncation_events idx =
     (let i = show_nat idx
      in newline @ newline @ raw_event ''content_block_start''
           (json_text_of ''{`type`:`content_block_start`,`index`:'' @ i @ json_text_of '',`content_block`:{`type`:`text`,`text`:``}}'')
         @ raw_event ''content_block_delta''
             (json_text_of ''{`type`:`content_block_delta`,`index`:'' @ i @ json_text_of '',`delta`:{`type`:`text_delta`,`text`:`[Response truncated ''
              @ map byte [226, 128, 148] @ json_text_of '' upstream connection closed unexpectedly. The model may still have been processing. Try reducing context size or splitting the task.]`}}'')
         @ raw_event ''content_block_stop'' (json_text_of ''{`type`:`content_block_stop`,`index`:'' @ i @ ''}''))"

fun combined_rest :: "bool \<Rightarrow> nat \<Rightarrow> (nanos \<times> poll) list \<Rightarrow> (string + string) list" where
  "combined_rest wants_stream n [] = []"
| "combined_rest wants_stream n ((t, p) # rest) =
     (case p of
        Chunk b \<Rightarrow> Inr b # combined_rest wants_stream (update_block_index b n) rest
      | StreamError e \<Rightarrow> (if wants_stream then [Inr (truncation_events n)] else []) @ [Inl ''stream abort'']
      | StreamEnd \<Rightarrow> []
      | ChunkTimeout \<Rightarrow> combined_rest wants_stream n rest)"

definition build_combined_stream :: "string \<Rightarrow> (nanos \<times> poll) list \<Rightarrow> bool \<Rightarrow> (string + string) list" where
  "build_combined_stream first_chunk stream_rest wants_stream =
     Inr first_chunk # combined_rest wants_stream (update_block_index first_chunk 0) stream_rest"

text \<open>
  What the waiting loop sees of a stream: its parts, each with the time at which the loop asks for it, which is
  when the part before it had come; and silence, if it waits too long for one. When the time is over the loop
  does not ask any more, so then even a stream that breaks without an end is given up.
\<close>

definition polls_of ::
  "stream_env \<Rightarrow> (nat \<Rightarrow> nanos) \<Rightarrow> nat option \<Rightarrow> bool \<Rightarrow> sent_item list \<Rightarrow> (nanos \<times> poll) list" where
  "polls_of env arrival stall ends items =
     (let asks = (\<lambda>i. case i of 0 \<Rightarrow> 0 | Suc j \<Rightarrow> arrival j);
          ps = map (\<lambda>(i, x). (asks i, case x of Inl e \<Rightarrow> StreamError e | Inr c \<Rightarrow> Chunk (render env c))) (enumerate 0 items)
               @ (if ends \<or> max_peek_duration default_peek < asks (length items) then [(asks (length items), StreamEnd)] else [])
      in case stall of Some k \<Rightarrow> take k ps @ [(asks k, ChunkTimeout)] @ drop k ps | None \<Rightarrow> ps)"

definition stream_headers :: "claude_call \<Rightarrow> (string \<times> string) list" where
  "stream_headers c =
     [(''X-Account-Email'', cc_mail c), (''X-Mapped-Model'', cc_mapped_model c), (''X-Mapping-Reason'', cc_reason c)]"

definition build_sse_response :: "claude_call \<Rightarrow> (string + string) list \<Rightarrow> claude_content reply" where
  "build_sse_response c items =
     claude_reply 200
       ([(''Content-Type'', ''text/event-stream''), (''Cache-Control'', ''no-cache''), (''Connection'', ''keep-alive'')] @ stream_headers c)
       (KStream items)"

definition collect_to_json_response :: "'c claude_env \<Rightarrow> claude_call \<Rightarrow> (string + string) list \<Rightarrow> claude_content reply" where
  "collect_to_json_response env c items =
     (case collect_stream_to_json (kv_collect env) items of
        Inr full_response \<Rightarrow>
          claude_reply 200 ((''Content-Type'', ''application/json'') # stream_headers c) (KAnswer full_response)
      | Inl e \<Rightarrow> claude_reply 500 [] (KText (''Stream collection error: '' @ e)))"

definition after_stream :: "streaming_state \<Rightarrow> 'c server_state \<Rightarrow> 'c server_state" where
  "after_stream st sv = sv\<lparr>sv_signatures := ss_cache st, sv_calibrator := ss_calibrator st\<rparr>"

text \<open>
  A retry gives the reason; until then the stream has sent heartbeats only and left the caches alone. A panic of the stream is one of the request while it is waited for or collected;
  when the client reads the stream, it breaks the connection, which is the last item then.
\<close>

definition handle_streaming_response ::
  "'c claude_env \<Rightarrow> nat \<Rightarrow> claude_call \<Rightarrow> (nanos \<times> upstream_item) list \<Rightarrow> 'c server_state
   \<Rightarrow> panic + (string + claude_content reply) \<times> 'c server_state" where
  "handle_streaming_response env turn c items sv =
     (let (out, broken, st) = create_claude_sse_stream (kv_stream env) items (kv_end_time env turn) (Some (cc_session c))
                                (kv_usage_scaling env) (cc_context_limit c) (cc_estimated c) (sv_signatures sv) (sv_calibrator sv);
          polls = polls_of (kv_stream env) (kv_arrival env turn) (kv_stall env turn) (broken = None) out
      in case peek_first_data_chunk default_peek polls of
           Some (RetryPeek err, _) \<Rightarrow> Inr (Inl err, sv)
         | Some (Data bytes, rest) \<Rightarrow>
             let combined = build_combined_stream bytes rest (cc_wants_stream c); sv = after_stream st sv
             in (case (broken, cc_wants_stream c) of
                   (None, True) \<Rightarrow> Inr (Inr (build_sse_response c combined), sv)
                 | (None, False) \<Rightarrow> Inr (Inr (collect_to_json_response env c combined), sv)
                 | (Some p, True) \<Rightarrow> Inr (Inr (build_sse_response c (combined @ [Inl ''panic''])), sv)
                 | (Some p, False) \<Rightarrow> Inl p)
         | None \<Rightarrow> (case broken of Some p \<Rightarrow> Inl p | None \<Rightarrow> Inr (Inl [], sv)))"

text \<open>Whole answers of the service, which are no longer asked for\<close>

definition handle_nonstreaming_success ::
  "'c claude_env \<Rightarrow> nat \<Rightarrow> claude_call \<Rightarrow> string option \<Rightarrow> 'c server_state \<Rightarrow> panic + claude_content reply \<times> 'c server_state" where
  "handle_nonstreaming_success env turn c txt sv =
     (case txt of
        None \<Rightarrow> Inr (claude_reply 502 [] (KText (''Failed to read body: '' @ kv_read_error env turn)), sv)
      | Some t \<Rightarrow>
          (case from_str (kv_stream env) t of
             None \<Rightarrow> Inr (claude_reply 502 [] (KText (''Parse error: '' @ kv_json_error env t)), sv)
           | Some v \<Rightarrow>
               (case kv_parse_answer env (raw_response v) of
                  Inl e \<Rightarrow> Inr (claude_reply 500 [] (KText (''Convert error: '' @ e)), sv)
                | Inr answer \<Rightarrow>
                    (case transform_response (kv_stream env) (hv_now env turn) answer (kv_usage_scaling env) (cc_context_limit c)
                            (Some (cc_session c)) (cc_model c) (sv_signatures sv) of
                       Inl p \<Rightarrow> Inl p
                     | Inr (r, st) \<Rightarrow>
                         Inr (claude_reply 200 (stream_headers c) (KAnswer r), on_signatures (\<lambda>_. rp_cache st) sv)))))"

section \<open>Errors of the service\<close>

record 'c claude_state = "'c attempt_state" +
  cl_request :: claude_request
  cl_retried :: bool

definition fix_signatures :: "nanos \<Rightarrow> string \<Rightarrow> 'c claude_state \<Rightarrow> 'c claude_state" where
  "fix_signatures now session s =
     (let (r, cache) = handle_thinking_signature_error now (Some session) (cl_request s) (sv_signatures (at_server s))
      in (on_server (on_signatures (\<lambda>_. cache)) s)\<lparr>cl_request := r, cl_retried := True\<rparr>)"

definition note_rate_limit ::
  "'c claude_env \<Rightarrow> string \<Rightarrow> string \<Rightarrow> string \<Rightarrow> u16 \<Rightarrow> string option \<Rightarrow> string \<Rightarrow> nat \<Rightarrow> 'c server_state \<Rightarrow> panic + 'c server_state" where
  "note_rate_limit env mail session model code retry_after error_text turn sv =
     (let now = hv_now env turn
      in case mark_rate_limited_async (hv_token_env env turn) now mail code retry_after error_text (Some model) (sv_tokens sv) of
           Inl p \<Rightarrow> Inl p
         | Inr tm \<Rightarrow>
             let sv = on_tokens (\<lambda>_. tm) sv
             in Inr (if code = 429
                     then on_limits (mgr_record_429 now mail) (on_tokens (\<lambda>tm. snd (record_session_failure session tm)) sv)
                     else on_limits (mgr_record_error now mail code) sv))"

text \<open>Errors of one attempt, in the order of the code: grace, lock, repair of signatures, strategy, answer\<close>

definition claude_strategy ::
  "'c claude_env \<Rightarrow> string \<Rightarrow> u16 \<Rightarrow> string \<Rightarrow> 'c claude_state \<Rightarrow> claude_content reply option \<times> 'c claude_state" where
  "claude_strategy env mail code error_text s =
     (let strategy = determine_retry_strategy (kv_retry env) code error_text (cl_retried s) claude_profile
      in if fst (apply_retry_strategy strategy (of_nat (at_attempt s)) 0)
         then (None, s\<lparr>at_attempted := (if should_rotate_account code then insert mail (at_attempted s) else at_attempted s),
                       at_grace := False\<rparr>)
         else if code = 400 \<and> (contains error_text ''too long'' \<or> contains error_text ''exceeds'' \<or> contains error_text ''limit'')
         then (Some (prompt_too_long_error mail), s)
         else (Some (claude_reply code [(''X-Account-Email'', mail)] (KText (sanitize_upstream_error code error_text))), s))"

definition handle_upstream_error ::
  "'c claude_env \<Rightarrow> claude_call \<Rightarrow> u16 \<Rightarrow> string option \<Rightarrow> string \<Rightarrow> 'c claude_state
   \<Rightarrow> panic + claude_content reply option \<times> 'c claude_state" where
  "handle_upstream_error env c code retry_after error_text s =
     (let turn = at_turn s
      in if code = 429 \<and> \<not> at_grace s
            \<and> parse_rate_limit_reason (parse_env.truncate (hv_token_env env turn)) error_text = RateLimitExceeded
         then Inr (None, s\<lparr>at_grace := True\<rparr>)
         else
           case (if is_rate_limit_code code
                 then map_sum id (\<lambda>sv. s\<lparr>at_server := sv\<rparr>)
                        (note_rate_limit env (cc_mail c) (cc_session c) (cc_model c) code retry_after error_text turn (at_server s))
                 else Inr s) of
             Inl p \<Rightarrow> Inl p
           | Inr s \<Rightarrow>
               if code = 400 \<and> \<not> cl_retried s \<and> is_signature_error error_text claude_profile
               then Inr (None, fix_signatures (hv_now env turn) (cc_session c) s)
               else Inr (claude_strategy env (cc_mail c) code error_text s))"

text \<open>The attempt is used up, unless this error was the first that is let through.\<close>

definition claude_error ::
  "'c claude_env \<Rightarrow> claude_call \<Rightarrow> (nanos \<times> upstream_item) list http_answer \<Rightarrow> 'c claude_state
   \<Rightarrow> build_error + claude_content reply option \<times> 'c claude_state" where
  "claude_error env c answer s =
     (let (error_text, err) = extract_error_info answer; s = s\<lparr>at_last_error := err\<rparr>; grace_before = at_grace s
      in case handle_upstream_error env c (ha_status answer) (ha_retry_after answer) error_text s of
           Inl p \<Rightarrow> Inl (Panicked p)
         | Inr (Some r, s) \<Rightarrow> Inr (Some r, s)
         | Inr (None, s) \<Rightarrow>
             Inr (None, if grace_before \<or> \<not> at_grace s then s\<lparr>at_attempt := at_attempt s + 1\<rparr> else s))"

section \<open>A turn\<close>

record prepared_request =
  pr_mapped_model :: string
  pr_request :: claude_request
  pr_body :: json

definition transform_failed :: "string \<Rightarrow> claude_content reply" where
  "transform_failed e = claude_reply 500 [] (KJson (error_body ''api_error'' (''Transform error: '' @ e)))"

fun transform_message :: "transform_error \<Rightarrow> string" where
  "transform_message (UnknownModel model) = ''Unknown model: '' @ model"
| "transform_message (MissingSignatures session) =
     ''Thinking mode requires valid signatures for function calls but none were found. Session: '' @ session
     @ ''. This indicates lost hidden state '' @ map byte [226, 128, 148]
     @ '' response quality cannot be guaranteed. Please start a new conversation.''"
| "transform_message (BuildFailed b) = []"

definition prepare_request ::
  "'c claude_env \<Rightarrow> nat \<Rightarrow> claude_request \<Rightarrow> string \<Rightarrow> bool \<Rightarrow> 'c server_state
   \<Rightarrow> build_error + claude_content reply + prepared_request" where
  "prepare_request env turn request project retried sv =
     (case resolve_model_route (rq_model request) (hv_mapping env) of
        Inl e \<Rightarrow> Inr (Inl (invalid_model_reply e))
      | Inr (mapped_model, _) \<Rightarrow>
          let (mapped_model, r) =
                (case detect_background_task_type request of
                   Some task_type \<Rightarrow>
                     let m = select_background_model task_type in (m, apply_background_task_cleanup m request)
                 | None \<Rightarrow> (mapped_model, apply_user_request_cleanup request));
              r = r\<lparr>rq_model := mapped_model\<rparr>
          in (case transform_claude_request_in (transform_at env turn sv) r project retried of
                Inr body \<Rightarrow> Inr (Inr \<lparr>pr_mapped_model = mapped_model, pr_request = r, pr_body = body\<rparr>)
              | Inl (BuildFailed b) \<Rightarrow> Inl b
              | Inl e \<Rightarrow> Inr (Inl (transform_failed (transform_message e)))))"

record upstream_call_config =
  uc_verb :: string
  uc_query :: "string option"
  uc_extra_headers :: "(string, string) table"
  uc_wants_stream :: bool
  uc_actual_stream :: bool

definition prepare_upstream_call :: "claude_request \<Rightarrow> claude_request \<Rightarrow> upstream_call_config" where
  "prepare_upstream_call request request_with_mapped =
     (let client_wants_stream = rq_stream request; force_stream_internally = (\<not> client_wants_stream);
          actual_stream = (client_wants_stream \<or> force_stream_internally)
      in \<lparr>uc_verb = (if actual_stream then ''streamGenerateContent'' else ''generateContent''),
          uc_query = (if actual_stream then Some ''alt=sse'' else None),
          uc_extra_headers = (if rq_thinking request_with_mapped \<noteq> None \<and> rq_tools request_with_mapped \<noteq> None
                              then [(''anthropic-beta'', ''interleaved-thinking-2025-05-14'')] else []),
          uc_wants_stream = client_wants_stream, uc_actual_stream = actual_stream\<rparr>)"

definition claude_success ::
  "'c claude_env \<Rightarrow> claude_request \<Rightarrow> upstream_call_config \<Rightarrow> claude_call \<Rightarrow> (nanos \<times> upstream_item) list http_answer
   \<Rightarrow> 'c claude_state \<Rightarrow> build_error + claude_content reply option \<times> 'c claude_state" where
  "claude_success env request config c answer s =
     (let turn = at_turn s; s = on_server (server_success (hv_now env turn) (cc_mail c) (cc_session c)) s
      in if uc_actual_stream config
         then let est = calibrate (estimate_token_usage (kv_print env) (kv_print_tool env) request) (sv_calibrator (at_server s))
              in (case handle_streaming_response env turn (c\<lparr>cc_estimated := Some est\<rparr>) (ha_content answer) (at_server s) of
                    Inl p \<Rightarrow> Inl (Panicked p)
                  | Inr (Inr r, sv) \<Rightarrow> Inr (Some r, s\<lparr>at_server := sv\<rparr>)
                  | Inr (Inl err, sv) \<Rightarrow>
                      Inr (None, rotate_from (cc_mail c) (s\<lparr>at_server := sv, at_last_error := ConnectionError err, at_grace := False\<rparr>)))
         else (case handle_nonstreaming_success env turn c (ha_text answer) (at_server s) of
                 Inl p \<Rightarrow> Inl (Panicked p)
               | Inr (r, sv) \<Rightarrow> Inr (Some r, s\<lparr>at_server := sv\<rparr>)))"

text \<open>The request of the client decides how the stream goes on; the request that goes upstream may be repaired.\<close>

definition claude_granted ::
  "'c claude_env \<Rightarrow> claude_request \<Rightarrow> string \<Rightarrow> string \<Rightarrow> string \<Rightarrow> string \<Rightarrow> 'c claude_state
   \<Rightarrow> build_error + claude_content reply option \<times> 'c claude_state" where
  "claude_granted env request reason project mail session s =
     (case prepare_request env (at_turn s) (cl_request s) project (cl_retried s) (at_server s) of
        Inl b \<Rightarrow> Inl b
      | Inr (Inl r) \<Rightarrow> Inr (Some r, s)
      | Inr (Inr prepared) \<Rightarrow>
          let (body, sv) = fingerprinted (pr_body prepared) mail (at_server s);
              config = prepare_upstream_call request (pr_request prepared);
              c = \<lparr>cc_mail = mail, cc_session = session, cc_mapped_model = pr_mapped_model prepared, cc_reason = reason,
                   cc_model = rq_model (pr_request prepared),
                   cc_context_limit = get_context_limit_for_model (rq_model (pr_request prepared)),
                   cc_estimated = None, cc_wants_stream = uc_wants_stream config\<rparr>;
              (r, sv) = call_upstream_warp (handler_env.truncate env) (at_turn s) (uc_verb config) (uc_query config) mail body sv;
              s = s\<lparr>at_server := sv\<rparr>
          in (case r of
                Inl e \<Rightarrow> Inr (None, rotate_from mail (s\<lparr>at_last_error := ConnectionError e, at_grace := False\<rparr>))
              | Inr answer \<Rightarrow>
                  if is_success (ha_status answer) then claude_success env request config c answer s
                  else claude_error env c answer s))"

definition claude_turn ::
  "'c claude_env \<Rightarrow> claude_request \<Rightarrow> string option \<Rightarrow> 'c claude_state \<Rightarrow> build_error + claude_content reply option \<times> 'c claude_state" where
  "claude_turn env request force_account s =
     (let tenv = hv_transform env (at_turn s);
          session = extract_session_id (xe_sha256 (te_contents tenv)) (te_debug tenv) (cl_request s)
      in case resolve_model_route (rq_model (cl_request s)) (hv_mapping env) of
           Inl e \<Rightarrow> Inr (Some (invalid_model_reply e), s)
         | Inr (mapped_model, reason) \<Rightarrow>
             let config = resolve_request_config (rq_model (cl_request s)) mapped_model
                            (map_option (map tool_value) (rq_tools (cl_request s))) None None
             in (case acquire_token (handler_env.truncate env) (at_turn s) force_account (0 < at_attempt s) session
                        (rc_final_model config) (at_attempted s) (sv_tokens (at_server s)) of
                   Inl p \<Rightarrow> Inl (Panicked p)
                 | Inr (Inl e, tm) \<Rightarrow> Inr (Some (no_accounts_error e), on_server (on_tokens (\<lambda>_. tm)) s)
                 | Inr (Inr (access, project, mail, g), tm) \<Rightarrow>
                     with_guard g (claude_granted env request reason project mail session
                       ((on_server (on_tokens (\<lambda>_. tm)) s)\<lparr>at_last_mail := Some mail\<rparr>))))"

section \<open>The handler\<close>

definition cleaned_request :: "'c claude_env \<Rightarrow> signature_cache \<Rightarrow> claude_request \<Rightarrow> claude_request" where
  "cleaned_request env cache request =
     (let ms = filter_invalid_thinking_blocks_with_family cache None
                 (merge_consecutive_messages (clean_cache_control_from_messages (rq_messages request)))
      in request\<lparr>rq_messages := (if kv_tool_loop_recovery env then close_tool_loop_for_thinking ms else ms)\<rparr>)"

definition first_claude_state :: "claude_request \<Rightarrow> 'c server_state \<Rightarrow> 'c claude_state" where
  "first_claude_state request sv = attempt_state.extend (first_attempt sv) (claude_state.fields request False)"

definition handle_messages ::
  "'c claude_env \<Rightarrow> string option \<Rightarrow> json \<Rightarrow> 'c server_state
   \<Rightarrow> (build_error + claude_content reply \<times> 'c server_state) option" where
  "handle_messages env force_account body sv =
     (case parse_request env body of
        Inl r \<Rightarrow> Some (Inr (r, sv))
      | Inr request \<Rightarrow>
          let request = cleaned_request env (sv_signatures sv) request
          in if is_warmup_request (kv_print env) request then Some (Inr (create_warmup_response (hv_now env 0) request, sv))
             else map_option
                    (map_sum id (\<lambda>(r, s). ((case r of
                       Some x \<Rightarrow> x
                     | None \<Rightarrow> all_retries_exhausted_error (max_attempts (sv_tokens sv)) (at_last_error s) (at_last_mail s)),
                     at_server s)))
                    (run_attempts (claude_turn env request force_account) (first_claude_state request sv)))"

section \<open>The loop of the handler\<close>

lemma bindp_Inr: "bindp x f = Inr y \<Longrightarrow> \<exists>a. x = Inr a \<and> f a = Inr y"
  by (cases x) (simp_all add: bindp_def)

lemma bindp_Inr_same: "bindp (Inr a) f = f a"
  by (simp add: bindp_def)

lemma map_sum_Inr: "map_sum id f x = Inr y \<longleftrightarrow> (\<exists>a. x = Inr a \<and> y = f a)"
  by (cases x) auto

lemma lock_for_active: "lock_for now acc m n reason tm = Inr tm' \<Longrightarrow> active_requests tm' = active_requests tm"
  by (cases "systime_add now (secs n)") (auto simp: lock_for_def tm_set_model_lockout_def)

lemma precise_active: "set_precise_lockout env now mail reason model tm = Inr (b, tm') \<Longrightarrow> active_requests tm' = active_requests tm"
  by (fastforce simp: set_precise_lockout_def map_sum_Inr split: option.splits)

lemma realtime_active:
  "fetch_and_lock_with_realtime_quota env now mail reason model tm = Inr (b, tm') \<Longrightarrow> active_requests tm' = active_requests tm"
  by (fastforce simp: fetch_and_lock_with_realtime_quota_def map_sum_Inr split: option.splits if_splits)

lemma async_active:
  assumes "mark_rate_limited_async env now acc status header body model tm = Inr tm'"
  shows "active_requests tm' = active_requests tm"
proof (cases "parse_rate_limit_reason (parse_env.truncate env) body = ModelCapacityExhausted")
  case True
  then show ?thesis using assms by (simp add: mark_rate_limited_async_def)
next
  case False
  define reason where "reason = parse_rate_limit_reason (parse_env.truncate env) body"
  define m where "m = normalized_or_self (case model of None \<Rightarrow> ''unknown'' | Some m \<Rightarrow> m)"
  note d = mark_rate_limited_async_def Let_def reason_def [symmetric] m_def [symmetric]
  obtain tm1 where l: "lock_for now acc m 15 reason tm = Inr tm1"
    using assms False bindp_Inr unfolding d by (fastforce simp: reason_def)
  note a1 = lock_for_active [OF l]
  show ?thesis
  proof (cases "header \<noteq> None \<or> contains body ''quotaResetDelay''")
    case True
    then show ?thesis using assms False a1 unfolding d l bindp_def
      by (auto simp: l reason_def [symmetric] tm_set_model_lockout_def map_sum_Inr split: option.splits)
  next
    case other: False
    define second where "second = (if reason = QuotaExhausted then lock_for now acc m 600 reason tm1
      else map_sum id (\<lambda>(_, tr). tm1\<lparr>tracker := tr\<rparr>) (set_adaptive_model_lockout now acc m (tracker tm1)))"
    have a2: "active_requests tm2 = active_requests tm1" if "second = Inr tm2" for tm2
      using that lock_for_active unfolding second_def by (auto simp: map_sum_Inr split: if_splits)
    have "bindp second (\<lambda>tm. bindp (fetch_and_lock_with_realtime_quota env now acc reason (Some m) tm)
        (\<lambda>(b, tm). if b then Inr tm else map_sum id snd (set_precise_lockout env now acc reason model tm))) = Inr tm'"
      using assms False other unfolding d l bindp_Inr_same second_def by (simp add: reason_def)
    from bindp_Inr [OF this] obtain tm2 where t2: "second = Inr tm2"
      and "bindp (fetch_and_lock_with_realtime_quota env now acc reason (Some m) tm2)
        (\<lambda>(b, tm). if b then Inr tm else map_sum id snd (set_precise_lockout env now acc reason model tm)) = Inr tm'" by blast
    from bindp_Inr [OF this(2)] obtain b tm3 where f: "fetch_and_lock_with_realtime_quota env now acc reason (Some m) tm2 = Inr (b, tm3)"
      and r: "(if b then Inr tm3 else map_sum id snd (set_precise_lockout env now acc reason model tm3)) = Inr tm'" by auto
    from r have "active_requests tm' = active_requests tm3" using precise_active by (auto simp: map_sum_Inr split: if_splits)
    then show ?thesis using realtime_active [OF f] a2 [OF t2] a1 by simp
  qed
qed

text \<open>Errors leave slots, calls and attempts as they are: the attempt is counted by the loop.\<close>

definition same_base :: "'c claude_state \<Rightarrow> 'c claude_state \<Rightarrow> bool" where
  "same_base s s' \<longleftrightarrow> slots s' = slots s \<and> calls s' = calls s \<and> at_attempt s' = at_attempt s"

lemma note_rate_limit_base:
  assumes "note_rate_limit env mail session model code retry_after error_text turn sv = Inr sv'"
  shows "count (sv_tokens sv') = count (sv_tokens sv) \<and> sv_bodies sv' = sv_bodies sv"
proof -
  obtain tm where m: "mark_rate_limited_async (hv_token_env env turn) (hv_now env turn) mail code retry_after error_text
      (Some model) (sv_tokens sv) = Inr tm"
    using assms by (auto simp: note_rate_limit_def Let_def split: sum.splits)
  have "count tm = count (sv_tokens sv)" by (rule count_same_active [OF async_active [OF m]])
  moreover have "count (sv_tokens sv') = count tm" "sv_bodies sv' = sv_bodies sv"
    using assms m
    by (auto intro!: count_same_active simp: note_rate_limit_def on_limits_def on_tokens_def record_session_failure_def Let_def)
  ultimately show ?thesis by simp
qed

lemma strategy_base: "claude_strategy env mail code error_text s = (r, s') \<Longrightarrow> same_base s s'"
  by (auto simp: claude_strategy_def same_base_def slots_def calls_def Let_def split: if_splits)

lemma fix_signatures_base [simp]: "same_base s (fix_signatures now session s)"
  by (auto simp: fix_signatures_def same_base_def slots_def calls_def on_server_def split: prod.split)

lemma grace_base [simp]: "same_base s (s\<lparr>at_grace := b\<rparr>)"
  by (simp add: same_base_def slots_def calls_def)

lemma repair_or_strategy:
  "(if b then Inr (None, fix_signatures now session s) else Inr (claude_strategy env mail code error_text s)) = Inr (r, s')
     \<Longrightarrow> same_base s s'"
  by (auto dest: strategy_base split: if_splits)

lemma upstream_error_base:
  assumes "handle_upstream_error env c code retry_after error_text s = Inr (r, s')"
  shows "same_base s s'"
proof (cases "code = 429 \<and> \<not> at_grace s
    \<and> parse_rate_limit_reason (parse_env.truncate (hv_token_env env (at_turn s))) error_text = RateLimitExceeded")
  case True
  then show ?thesis using assms by (simp add: handle_upstream_error_def split: if_splits) auto
next
  case no_grace: False
  show ?thesis
  proof (cases "is_rate_limit_code code")
    case False
    show ?thesis
      using assms no_grace False unfolding handle_upstream_error_def Let_def
      by (simp only: if_not_P [OF no_grace] if_False sum.case) (rule repair_or_strategy)
  next
    case True
    let ?n = "note_rate_limit env (cc_mail c) (cc_session c) (cc_model c) code retry_after error_text (at_turn s) (at_server s)"
    note step = assms [unfolded handle_upstream_error_def Let_def if_not_P [OF no_grace] if_P [OF True]]
    show ?thesis
    proof (cases ?n)
      case (Inl p)
      with step show ?thesis by simp
    next
      case (Inr sv)
      note r = step [unfolded Inr map_sum.simps sum.case]
      show ?thesis using repair_or_strategy [OF r] note_rate_limit_base [OF Inr]
        by (simp add: same_base_def slots_def calls_def)
    qed
  qed
qed

lemma claude_error_ok: "step_ok 0 s (claude_error env c answer s)"
proof -
  obtain t err where i: "extract_error_info answer = (t, err)" by force
  let ?s = "s\<lparr>at_last_error := err\<rparr>"
  show ?thesis
  proof (cases "handle_upstream_error env c (ha_status answer) (ha_retry_after answer) t ?s")
    case (Inl p)
    then show ?thesis by (simp add: claude_error_def i)
  next
    case (Inr x)
    obtain r s1 where x: "x = (r, s1)" by force
    have "same_base ?s s1" using upstream_error_base Inr unfolding x .
    then show ?thesis
      by (cases r) (auto simp: claude_error_def i Inr x same_base_def slots_def calls_def progress_def)
  qed
qed

text \<open>Reading a stream changes the caches of the server at most.\<close>

lemma streaming_base:
  assumes "handle_streaming_response env turn c items sv = Inr (r, sv')"
  shows "sv_tokens sv' = sv_tokens sv \<and> sv_bodies sv' = sv_bodies sv"
  using assms by (auto simp: handle_streaming_response_def after_stream_def Let_def split: prod.splits option.splits peek_result.splits bool.splits)

lemma nonstreaming_base:
  assumes "handle_nonstreaming_success env turn c txt sv = Inr (r, sv')"
  shows "sv_tokens sv' = sv_tokens sv \<and> sv_bodies sv' = sv_bodies sv"
  using assms by (auto simp: handle_nonstreaming_success_def split: option.splits sum.splits)

lemma server_same:
  "count (sv_tokens sv) = count (sv_tokens (at_server s)) \<Longrightarrow> length (sv_bodies sv) \<le> length (sv_bodies (at_server s)) + n \<Longrightarrow>
     step_ok n s (Inr (Some r, s\<lparr>at_server := sv\<rparr>))"
  by (simp add: slots_def calls_def)

lemma claude_success_ok: "step_ok 0 s (claude_success env request config c answer s)"
proof -
  let ?now = "hv_now env (at_turn s)"
  let ?sv = "server_success ?now (cc_mail c) (cc_session c) (at_server s)"
  have sv: "at_server (on_server (server_success ?now (cc_mail c) (cc_session c)) s) = ?sv" by simp
  show ?thesis
  proof (cases "uc_actual_stream config")
    case True
    define est where "est = calibrate (estimate_token_usage (kv_print env) (kv_print_tool env) request) (sv_calibrator ?sv)"
    show ?thesis
    proof (cases "handle_streaming_response env (at_turn s) (c\<lparr>cc_estimated := Some est\<rparr>) (ha_content answer) ?sv")
      case (Inl p)
      then show ?thesis using True by (simp add: claude_success_def Let_def est_def)
    next
      case (Inr x)
      obtain r sv' where x: "x = (r, sv')" by force
      show ?thesis using streaming_base [OF Inr [unfolded x]] True Inr
        by (cases r) (simp_all add: claude_success_def Let_def est_def x slots_def calls_def progress_def rotate_from_def)
    qed
  next
    case False
    show ?thesis
    proof (cases "handle_nonstreaming_success env (at_turn s) c (ha_text answer) ?sv")
      case (Inl p)
      then show ?thesis using False by (simp add: claude_success_def Let_def)
    next
      case (Inr x)
      obtain r sv' where x: "x = (r, sv')" by force
      show ?thesis using nonstreaming_base [OF Inr [unfolded x]] False Inr
        by (simp add: claude_success_def Let_def x slots_def calls_def)
    qed
  qed
qed

lemma claude_granted_ok: "step_ok 1 s (claude_granted env request reason project mail session s)"
proof (cases "prepare_request env (at_turn s) (cl_request s) project (cl_retried s) (at_server s)")
  case (Inl b)
  then show ?thesis by (simp add: claude_granted_def)
next
  case (Inr y)
  show ?thesis
  proof (cases y)
    case (Inl r)
    then show ?thesis using Inr by (simp add: claude_granted_def)
  next
    case y: (Inr prepared)
    obtain body sv1 where f: "fingerprinted (pr_body prepared) mail (at_server s) = (body, sv1)" by force
    define config where "config = prepare_upstream_call request (pr_request prepared)"
    define c where "c = \<lparr>cc_mail = mail, cc_session = session, cc_mapped_model = pr_mapped_model prepared, cc_reason = reason,
      cc_model = rq_model (pr_request prepared), cc_context_limit = get_context_limit_for_model (rq_model (pr_request prepared)),
      cc_estimated = None, cc_wants_stream = uc_wants_stream config\<rparr>"
    obtain r sv2 where u: "call_upstream_warp (handler_env.truncate env) (at_turn s) (uc_verb config) (uc_query config) mail body sv1 = (r, sv2)"
      by force
    let ?s = "s\<lparr>at_server := sv2\<rparr>"
    have tok: "sv_tokens sv2 = sv_tokens (at_server s)" "length (sv_bodies sv2) = length (sv_bodies (at_server s)) + 1"
      using call_upstream_warp_fields [OF u] fingerprinted_fields [OF f] by simp_all
    have "step_ok (0 + 1) s (claude_success env request config c a ?s)" "step_ok (0 + 1) s (claude_error env c a ?s)" for a
      by (rule step_ok_from [OF claude_success_ok] step_ok_from [OF claude_error_ok]; simp add: slots_def calls_def tok)+
    then show ?thesis
      unfolding claude_granted_def Inr y sum.case f Let_def prod.case config_def [symmetric] c_def [symmetric] u
      by (auto simp: slots_def calls_def progress_def rotate_from_def tok split: sum.split)
  qed
qed

lemma claude_turn_ok: "step_ok 1 s (claude_turn env request force_account s)"
proof (cases "resolve_model_route (rq_model (cl_request s)) (hv_mapping env)")
  case (Inl e)
  then show ?thesis by (simp add: claude_turn_def Let_def)
next
  case (Inr m)
  obtain mapped_model reason where m: "m = (mapped_model, reason)" by force
  define final where "final = rc_final_model (resolve_request_config (rq_model (cl_request s)) mapped_model
    (map_option (map tool_value) (rq_tools (cl_request s))) None None)"
  define session where "session = extract_session_id (xe_sha256 (te_contents (hv_transform env (at_turn s))))
    (te_debug (hv_transform env (at_turn s))) (cl_request s)"
  note unfolded = claude_turn_def Inr m sum.case prod.case Let_def final_def [symmetric] session_def [symmetric]
  show ?thesis
  proof (cases "acquire_token (handler_env.truncate env) (at_turn s) force_account (0 < at_attempt s) session final
      (at_attempted s) (sv_tokens (at_server s))")
    case (Inl p)
    then show ?thesis unfolding unfolded by simp
  next
    case acq: (Inr x)
    obtain r tm where x: "x = (r, tm)" by force
    show ?thesis
      unfolding unfolded acq x by (rule granted_turn_ok [OF acq [unfolded x]]) (rule claude_granted_ok)
  qed
qed

interpretation claude: retrying "claude_turn env request force_account" for env :: "'c claude_env" and request force_account
  by (rule retryingI) (rule claude_turn_ok)

section \<open>Properties of the handler\<close>

lemma first_state [simp]: "at_attempt (first_claude_state request sv) = 0" "at_server (first_claude_state request sv) = sv"
  by (simp_all add: first_claude_state_def first_attempt_def attempt_state.extend_def claude_state.fields_def)

text \<open>
  Claim C3: whatever the service answers, a request of the Claude protocol comes to its end, also with the errors that do
  not use up an attempt and the repair of signatures. Unless it panics there is a reply, every account has as many slots
  in use as before, and the service has been called at most twice for each of the attempts, of which there are as many
  as accounts, 64 at most.
\<close>

theorem claude_request_bounded:
  "\<exists>x. handle_messages env force_account body sv = Some x \<and>
     (case x of Inl _ \<Rightarrow> True
      | Inr (r, sv') \<Rightarrow>
          count (sv_tokens sv') = count (sv_tokens sv)
          \<and> length (sv_bodies sv') \<le> length (sv_bodies sv) + 2 * max 1 (min 64 (length (tokens (sv_tokens sv)))))"
proof (cases "parse_request env body")
  case (Inl r)
  then show ?thesis by (simp add: handle_messages_def)
next
  case (Inr rq)
  define request where "request = cleaned_request env (sv_signatures sv) rq"
  note d = handle_messages_def Inr sum.case Let_def request_def [symmetric]
  obtain y where y: "run_attempts (claude_turn env request force_account) (first_claude_state request sv) = Some y"
    using claude.run_ends [OF first_state(1), of env request force_account request sv] by blast
  show ?thesis
  proof (cases y)
    case (Inl p)
    then show ?thesis using y unfolding d by simp
  next
    case (Inr z)
    obtain r s where z: "z = (r, s)" by force
    show ?thesis
      using y claude.run_keeps [OF y [unfolded Inr z]]
      unfolding d by (simp add: Inr z slots_def calls_def max_attempts_def MAX_RETRY_ATTEMPTS_def max.commute)
  qed
qed

text \<open>
  Note: the repair of signatures settles: a second one changes nothing, and after the first every thought and every call
  has a signature.
\<close>

fun is_signed :: "content_block \<Rightarrow> bool" where
  "is_signed (CThinking t s c) = (s \<noteq> None)"
| "is_signed (CToolUse i n x s c) = (s \<noteq> None)"
| "is_signed b = True"

lemma fix_signature_signed: "is_signed (fix_signature b)" and fix_signature_again: "fix_signature (fix_signature b) = fix_signature b"
  by (cases b; auto simp: needs_fix_def split: option.splits)+

lemma signed_blocks_cases: "blocks_of (on_blocks f mg) = f (blocks_of mg) \<or> blocks_of (on_blocks f mg) = []"
  by (cases "cm_content mg") (simp_all add: on_blocks_def blocks_of_def)

lemma on_blocks_again: "(\<And>bs. f (f bs) = f bs) \<Longrightarrow> on_blocks f (on_blocks f mg) = on_blocks f mg"
  by (cases "cm_content mg") (simp_all add: on_blocks_def)

theorem signature_repair_settles:
  "let r' = fst (handle_thinking_signature_error now session r cache)
   in fst (handle_thinking_signature_error now' session' r' cache') = r'
     \<and> list_all (\<lambda>mg. list_all is_signed (blocks_of mg)) (rq_messages r')"
proof -
  have "on_blocks (map fix_signature) (on_blocks (map fix_signature) mg) = on_blocks (map fix_signature) mg" for mg
    by (rule on_blocks_again) (simp add: fix_signature_again)
  moreover have "list_all is_signed (blocks_of (on_blocks (map fix_signature) mg))" for mg
    using signed_blocks_cases [of "map fix_signature" mg] fix_signature_signed by (auto simp: list_all_iff)
  ultimately show ?thesis by (simp add: handle_thinking_signature_error_def list_all_iff o_def)
qed

text \<open>
  Note: a forbidden account is not locked. On 403 the Claude handler leaves the token manager as it is, also when the
  answer says that the account has been banned for good; only this request does not ask it again.
\<close>

theorem claude_forgets_bans:
  assumes "handle_upstream_error env c 403 retry_after error_text s = Inr (r, s')"
  shows "at_server s' = at_server s"
  using assms
  by (auto simp: handle_upstream_error_def claude_strategy_def is_rate_limit_code_def RATE_LIMIT_CODES_def Let_def split: if_splits)

text \<open>Note: every call asks for a stream, so the code for whole answers is never reached.\<close>

theorem whole_answers_unreachable: "uc_actual_stream (prepare_upstream_call request mapped)"
  by (simp add: prepare_upstream_call_def)

end
